(* ===== verification/Prelude.thy ===== *)
theory Prelude
  imports Main "HOL-Library.Char_ord" "HOL-Library.List_Lexorder"
begin

text \<open>
  Shared vocabulary of the development: the parts of Go's \<open>strings\<close>, \<open>strconv\<close> and
  \<open>unicode/utf8\<close> packages that the modelled code uses, over strings of bytes (an Isabelle
  \<open>char\<close> is one byte, as a Go string is a sequence of bytes), and generic lemmas on lists.

  Two Go functions are modelled on part of their domain only: \<open>to_lower\<close> and \<open>to_upper\<close>
  change the case of ASCII letters and leave the bytes of other runes as they are (Go also
  maps non-ASCII letters).
\<close>

named_theorems gostring_simps \<open>evaluation rules of the string functions\<close>

type_synonym gostring = string

definition byte :: "char \<Rightarrow> nat" where
  "byte c = of_char c"

definition of_byte :: "nat \<Rightarrow> char" where
  "of_byte n = char_of n"

lemma byte_of_byte [simp]: "n < 256 \<Longrightarrow> byte (of_byte n) = n"
  by (simp add: byte_def of_byte_def)

lemma of_byte_byte [simp]: "of_byte (byte c) = c"
  by (simp add: byte_def of_byte_def)

lemma byte_less [simp]: "byte c < 256"
  by (simp add: byte_def)

lemma byte_Char [simp]:
  "byte (Char b0 b1 b2 b3 b4 b5 b6 b7) = horner_sum of_bool 2 [b0, b1, b2, b3, b4, b5, b6, b7]"
  by (simp add: byte_def)

lemma byte_eq_iff: "n < 256 \<Longrightarrow> byte c = n \<longleftrightarrow> c = of_byte n"
  by (metis byte_of_byte of_byte_byte)

lemma of_byte_eq_Char [simp]:
  "n < 256 \<Longrightarrow> of_byte n = Char b0 b1 b2 b3 b4 b5 b6 b7 \<longleftrightarrow>
     n = horner_sum of_bool 2 [b0, b1, b2, b3, b4, b5, b6, b7]"
  "n < 256 \<Longrightarrow> Char b0 b1 b2 b3 b4 b5 b6 b7 = of_byte n \<longleftrightarrow>
     n = horner_sum of_bool 2 [b0, b1, b2, b3, b4, b5, b6, b7]"
  by (metis byte_Char byte_eq_iff)+

lemma of_byte_inject [simp]: "m < 256 \<Longrightarrow> n < 256 \<Longrightarrow> of_byte m = of_byte n \<longleftrightarrow> m = n"
  by (metis byte_of_byte)

lemma byte_inject: "byte c = byte d \<longleftrightarrow> c = d"
  by (metis of_byte_byte)

subsection \<open>Decimal numerals: strconv.Itoa\<close>

definition digit :: "nat \<Rightarrow> char" where
  "digit n = of_byte (48 + n)"

definition is_digit :: "char \<Rightarrow> bool" where
  "is_digit c \<longleftrightarrow> 48 \<le> byte c \<and> byte c \<le> 57"

fun dec :: "nat \<Rightarrow> string" where
  "dec n = (if n < 10 then [digit n] else dec (n div 10) @ [digit (n mod 10)])"

declare dec.simps [simp del]

definition undec :: "string \<Rightarrow> nat" where
  "undec s = foldl (\<lambda>a c. 10 * a + (byte c - 48)) 0 s"

definition Itoa :: "int \<Rightarrow> string" where
  "Itoa i = (if i < 0 then CHR ''-'' # dec (nat (- i)) else dec (nat i))"

lemma byte_digit [simp]: "n < 10 \<Longrightarrow> byte (digit n) = 48 + n"
  by (simp add: digit_def)

lemma is_digit_digit [simp]: "n < 10 \<Longrightarrow> is_digit (digit n)"
  by (simp add: is_digit_def)

lemma undec_snoc: "undec (s @ [c]) = 10 * undec s + (byte c - 48)"
  by (simp add: undec_def)

lemma undec_dec [simp]: "undec (dec n) = n"
proof (induction n rule: dec.induct)
  case (1 n)
  show ?case
  proof (cases "n < 10")
    case True
    then show ?thesis by (subst dec.simps) (simp add: undec_def)
  next
    case False
    with 1 have "undec (dec (n div 10)) = n div 10" by simp
    with False show ?thesis by (subst dec.simps) (simp add: undec_snoc)
  qed
qed

lemma dec_inject [simp]: "dec m = dec n \<longleftrightarrow> m = n"
  by (metis undec_dec)

lemma dec_digits: "\<forall>c \<in> set (dec n). is_digit c"
proof (induction n rule: dec.induct)
  case (1 n)
  then show ?case by (subst dec.simps) auto
qed

lemma dec_not_Nil [simp]: "dec n \<noteq> []" "[] \<noteq> dec n"
  by (subst dec.simps, simp)+

lemma hd_dec_nonzero: "0 < n \<Longrightarrow> hd (dec n) \<noteq> digit 0"
proof (induction n rule: dec.induct)
  case (1 n)
  show ?case
  proof (cases "n < 10")
    case True
    with 1 show ?thesis by (subst dec.simps) (auto simp flip: byte_inject)
  next
    case False
    then have "0 < n div 10" by (simp add: div_greater_zero_iff)
    with 1 False show ?thesis by (subst dec.simps) simp
  qed
qed

subsection \<open>Package strings\<close>

definition HasPrefix :: "'a list \<Rightarrow> 'a list \<Rightarrow> bool" where
  "HasPrefix s p \<longleftrightarrow> take (length p) s = p"

definition HasSuffix :: "'a list \<Rightarrow> 'a list \<Rightarrow> bool" where
  "HasSuffix s p \<longleftrightarrow> length p \<le> length s \<and> drop (length s - length p) s = p"

definition CutPrefix :: "'a list \<Rightarrow> 'a list \<Rightarrow> 'a list option" where
  "CutPrefix s p = (if HasPrefix s p then Some (drop (length p) s) else None)"

definition TrimPrefix :: "'a list \<Rightarrow> 'a list \<Rightarrow> 'a list" where
  "TrimPrefix s p = (if HasPrefix s p then drop (length p) s else s)"

definition TrimSuffix :: "'a list \<Rightarrow> 'a list \<Rightarrow> 'a list" where
  "TrimSuffix s p = (if HasSuffix s p then take (length s - length p) s else s)"

fun Contains :: "'a list \<Rightarrow> 'a list \<Rightarrow> bool" where
  "Contains [] p = (p = [])"
| "Contains (c # s) p = (HasPrefix (c # s) p \<or> Contains s p)"

text \<open>\<open>strings.Cut\<close>: the text before and after the first occurrence of the separator.\<close>

fun Cut :: "'a list \<Rightarrow> 'a list \<Rightarrow> ('a list \<times> 'a list) option" where
  "Cut [] p = (if p = [] then Some ([], []) else None)"
| "Cut (c # s) p =
     (if HasPrefix (c # s) p then Some ([], drop (length p) (c # s))
      else map_option (\<lambda>(a, b). (c # a, b)) (Cut s p))"

text \<open>\<open>strings.Split\<close> on a one-byte separator.\<close>

fun SplitOn :: "'a \<Rightarrow> 'a list \<Rightarrow> 'a list list" where
  "SplitOn d [] = [[]]"
| "SplitOn d (c # s) =
     (if c = d then [] # SplitOn d s
      else (case SplitOn d s of [] \<Rightarrow> [[c]] | w # ws \<Rightarrow> (c # w) # ws))"

fun Join :: "'a list \<Rightarrow> 'a list list \<Rightarrow> 'a list" where
  "Join sep [] = []"
| "Join sep [x] = x"
| "Join sep (x # y # zs) = x @ sep @ Join sep (y # zs)"

lemma HasPrefix_append [simp]: "HasPrefix (p @ s) p"
  by (simp add: HasPrefix_def)

lemma HasPrefix_iff: "HasPrefix s p \<longleftrightarrow> (\<exists>r. s = p @ r)"
  by (metis HasPrefix_append HasPrefix_def append_take_drop_id)

lemma HasSuffix_iff: "HasSuffix s p \<longleftrightarrow> (\<exists>r. s = r @ p)"
proof
  assume "HasSuffix s p"
  then have "s = take (length s - length p) s @ p"
    by (metis HasSuffix_def append_take_drop_id)
  then show "\<exists>r. s = r @ p" by blast
qed (auto simp: HasSuffix_def)

lemma CutPrefix_append [simp]: "CutPrefix (p @ s) p = Some s"
  by (simp add: CutPrefix_def)

lemma CutPrefix_Some: "CutPrefix s p = Some r \<longleftrightarrow> s = p @ r"
  by (auto simp: CutPrefix_def HasPrefix_iff split: if_splits)

lemma TrimSuffix_append [simp]: "TrimSuffix (s @ p) p = s"
  by (simp add: TrimSuffix_def HasSuffix_def)

lemma Cut_Some: "Cut s p = Some (a, b) \<Longrightarrow> s = a @ p @ b"
  by (induction s arbitrary: a b) (auto simp: HasPrefix_iff split: if_splits)

lemma Cut_single_append [simp]: "d \<notin> set a \<Longrightarrow> Cut (a @ d # b) [d] = Some (a, b)"
  by (induction a) (auto simp: HasPrefix_def)

lemma Cut_single_None: "Cut s [d] = None \<longleftrightarrow> d \<notin> set s"
  by (induction s) (auto simp: HasPrefix_def)

lemma Cut_single_fst: "Cut s [d] = Some (a, b) \<Longrightarrow> d \<notin> set a"
  by (induction s arbitrary: a b) (auto simp: HasPrefix_def split: if_splits)

lemma SplitOn_not_Nil [simp]: "SplitOn d s \<noteq> []" "[] \<noteq> SplitOn d s"
  by (induction s) (auto split: list.splits)

lemma Join_Cons: "ws \<noteq> [] \<Longrightarrow> Join sep (w # ws) = w @ sep @ Join sep ws"
  by (cases ws) auto

lemma Join_hd_Cons: "Join sep ((c # w) # ws) = c # Join sep (w # ws)"
  by (cases ws) auto

lemma Join_SplitOn [simp]: "Join [d] (SplitOn d s) = s"
proof (induction s)
  case (Cons c s)
  then show ?case
    by (cases "SplitOn d s") (auto simp: Join_Cons Join_hd_Cons)
qed simp

lemma SplitOn_none: "d \<notin> set w \<Longrightarrow> SplitOn d w = [w]"
  by (induction w) auto

lemma SplitOn_append: "d \<notin> set w \<Longrightarrow> SplitOn d (w @ d # s) = w # SplitOn d s"
  by (induction w) auto

lemma SplitOn_Join:
  "ws \<noteq> [] \<Longrightarrow> \<forall>w \<in> set ws. d \<notin> set w \<Longrightarrow> SplitOn d (Join [d] ws) = ws"
proof (induction ws)
  case (Cons w ws)
  then show ?case by (cases ws) (auto simp: SplitOn_none SplitOn_append)
qed simp

subsection \<open>Letter case\<close>

definition lower_char :: "char \<Rightarrow> char" where
  "lower_char c = (if 65 \<le> byte c \<and> byte c \<le> 90 then of_byte (byte c + 32) else c)"

definition upper_char :: "char \<Rightarrow> char" where
  "upper_char c = (if 97 \<le> byte c \<and> byte c \<le> 122 then of_byte (byte c - 32) else c)"

definition to_lower :: "string \<Rightarrow> string" where
  "to_lower s = map lower_char s"

definition to_upper :: "string \<Rightarrow> string" where
  "to_upper s = map upper_char s"

lemma lower_char_idem [simp]: "lower_char (lower_char c) = lower_char c"
  by (auto simp: lower_char_def)

lemma to_lower_idem [simp]: "to_lower (to_lower s) = to_lower s"
  by (simp add: to_lower_def)

lemma to_lower_Nil [simp]: "to_lower [] = []" "to_lower s = [] \<longleftrightarrow> s = []"
  by (simp_all add: to_lower_def)

lemma length_to_lower [simp]: "length (to_lower s) = length s"
  by (simp add: to_lower_def)

lemma to_lower_append: "to_lower (a @ b) = to_lower a @ to_lower b"
  by (simp add: to_lower_def)

text \<open>
  Simple Unicode case folding, as far as it meets ASCII text: ASCII letters fold to lower
  case, U+017F (bytes C5 BF) folds to s and U+212A (bytes E2 84 AA) to k. Comparing folded
  strings is \<open>strings.EqualFold\<close> when one side is ASCII.
\<close>

fun fold_case :: "string \<Rightarrow> string" where
  "fold_case s = (case s of
      [] \<Rightarrow> []
    | a # r \<Rightarrow>
        (case r of
           [] \<Rightarrow> [lower_char a]
         | b # r2 \<Rightarrow>
             if byte a = 197 \<and> byte b = 191 then CHR ''s'' # fold_case r2
             else (case r2 of
                 c # r3 \<Rightarrow>
                   if byte a = 226 \<and> byte b = 132 \<and> byte c = 170 then CHR ''k'' # fold_case r3
                   else lower_char a # fold_case r
               | [] \<Rightarrow> lower_char a # fold_case r)))"

declare fold_case.simps [simp del]

definition EqualFold :: "string \<Rightarrow> string \<Rightarrow> bool" where
  "EqualFold a b \<longleftrightarrow> fold_case a = fold_case b"

lemma EqualFold_refl [simp]: "EqualFold s s"
  by (simp add: EqualFold_def)

lemma fold_case_Nil [simp]: "fold_case [] = []"
  by (simp add: fold_case.simps)

subsection \<open>Unicode white space: strings.TrimSpace\<close>

text \<open>The UTF-8 encodings of the code points with the \<open>White_Space\<close> property.\<close>

definition white_runes :: "string list" where
  "white_runes = map (map of_byte)
     ([[9], [10], [11], [12], [13], [32], [194, 133], [194, 160], [225, 154, 128]]
      @ map (\<lambda>b. [226, 128, b]) [128, 129, 130, 131, 132, 133, 134, 135, 136, 137, 138]
      @ [[226, 128, 168], [226, 128, 169], [226, 128, 175], [226, 129, 159], [227, 128, 128]])"

fun strip_prefixes :: "'a list list \<Rightarrow> 'a list \<Rightarrow> 'a list" where
  "strip_prefixes ws [] = []"
| "strip_prefixes ws (c # s) =
     (if [c] \<in> set ws then strip_prefixes ws s
      else (case s of
          d # s2 \<Rightarrow>
            if [c, d] \<in> set ws then strip_prefixes ws s2
            else (case s2 of
                e # s3 \<Rightarrow> if [c, d, e] \<in> set ws then strip_prefixes ws s3 else c # s
              | [] \<Rightarrow> c # s)
        | [] \<Rightarrow> c # s))"

definition no_lead :: "'a list list \<Rightarrow> 'a list \<Rightarrow> bool" where
  "no_lead ws s \<longleftrightarrow> (\<forall>w \<in> set ws. \<not> HasPrefix s w)"

definition short_runes :: "'a list list \<Rightarrow> bool" where
  "short_runes ws \<longleftrightarrow> (\<forall>w \<in> set ws. 1 \<le> length w \<and> length w \<le> 3)"

lemma short_rune_cases:
  assumes "short_runes ws" "w \<in> set ws"
  obtains (one) a where "w = [a]" | (two) a b where "w = [a, b]" | (three) a b c where "w = [a, b, c]"
proof -
  from assms have "1 \<le> length w" "length w \<le> 3" by (auto simp: short_runes_def)
  then show ?thesis
    using that by (cases w; cases "tl w"; cases "tl (tl w)"; cases "tl (tl (tl w))") auto
qed

lemma no_lead_strip_prefixes:
  "short_runes ws \<Longrightarrow> no_lead ws (strip_prefixes ws s)"
proof (induction ws s rule: strip_prefixes.induct)
  case (1 ws)
  then show ?case by (auto simp: no_lead_def short_runes_def HasPrefix_def)
next
  case (2 ws c s)
  then show ?case
    by (auto simp: no_lead_def HasPrefix_iff split: list.splits elim!: short_rune_cases)
qed

lemma no_lead_append: "no_lead ws (w @ r) \<Longrightarrow> w \<notin> set ws"
  by (auto simp: no_lead_def)

lemma strip_prefixes_no_lead:
  assumes "no_lead ws s"
  shows "strip_prefixes ws s = s"
proof (cases s)
  case (Cons c r)
  have "[c] \<notin> set ws"
    using assms Cons no_lead_append [of ws "[c]" r] by simp
  moreover have "[c, d] \<notin> set ws" if "r = d # r2" for d r2
    using assms Cons that no_lead_append [of ws "[c, d]" r2] by simp
  moreover have "[c, d, e] \<notin> set ws" if "r = d # e # r3" for d e r3
    using assms Cons that no_lead_append [of ws "[c, d, e]" r3] by simp
  ultimately show ?thesis using Cons by (simp split: list.split)
qed simp

lemma strip_prefixes_suffix: "\<exists>p. s = p @ strip_prefixes ws s"
proof (induction ws s rule: strip_prefixes.induct)
  case (2 ws c s)
  have ext: "\<exists>p. xs @ t = p @ u" if "\<exists>p. t = p @ u" for xs t u :: "'a list"
    using that by (metis append.assoc)
  consider "[c] \<in> set ws"
    | d s2 where "[c] \<notin> set ws" "s = d # s2" "[c, d] \<in> set ws"
    | d e s3 where "[c] \<notin> set ws" "s = d # e # s3" "[c, d] \<notin> set ws" "[c, d, e] \<in> set ws"
    | "strip_prefixes ws (c # s) = c # s"
    by (cases s; cases "tl s"; cases "[c] \<in> set ws"; cases "[c, hd s] \<in> set ws";
        cases "[c, hd s, hd (tl s)] \<in> set ws") auto
  then show ?case
  proof cases
    case 1
    then show ?thesis using 2 ext [of s _ "[c]"] by simp
  next
    case (2 d s2)
    then show ?thesis using "2.IH"(2) ext [of s2 _ "[c, d]"] by simp
  next
    case (3 d e s3)
    then show ?thesis using "2.IH"(3) ext [of s3 _ "[c, d, e]"] by simp
  qed auto
qed simp

definition trim_left :: "string \<Rightarrow> string" where
  "trim_left s = strip_prefixes white_runes s"

definition trim_right :: "string \<Rightarrow> string" where
  "trim_right s = rev (strip_prefixes (map rev white_runes) (rev s))"

definition TrimSpace :: "string \<Rightarrow> string" where
  "TrimSpace s = trim_right (trim_left s)"

lemma short_white_runes: "short_runes white_runes" "short_runes (map rev white_runes)"
  by (simp_all add: short_runes_def white_runes_def)

lemma no_lead_prefix: "no_lead ws (p @ q) \<Longrightarrow> no_lead ws p"
  by (auto simp: no_lead_def HasPrefix_iff)

lemma trim_right_prefix: "\<exists>q. s = trim_right s @ q"
proof -
  obtain p where "rev s = p @ strip_prefixes (map rev white_runes) (rev s)"
    using strip_prefixes_suffix by blast
  then have "s = rev (strip_prefixes (map rev white_runes) (rev s)) @ rev p"
    by (metis rev_append rev_rev_ident)
  then show ?thesis unfolding trim_right_def by blast
qed

lemma trim_right_idem [simp]: "trim_right (trim_right s) = trim_right s"
  by (simp add: trim_right_def strip_prefixes_no_lead no_lead_strip_prefixes short_white_runes)

lemma trim_left_TrimSpace [simp]: "trim_left (TrimSpace s) = TrimSpace s"
proof -
  have "no_lead white_runes (trim_left s)"
    by (simp add: trim_left_def no_lead_strip_prefixes short_white_runes)
  then have "no_lead white_runes (TrimSpace s)"
    by (metis TrimSpace_def no_lead_prefix trim_right_prefix)
  then show ?thesis
    by (simp add: trim_left_def strip_prefixes_no_lead)
qed

lemma TrimSpace_idem [simp]: "TrimSpace (TrimSpace s) = TrimSpace s"
proof -
  have "TrimSpace (TrimSpace s) = trim_right (TrimSpace s)"
    by (simp add: TrimSpace_def [of "TrimSpace s"])
  then show ?thesis by (simp add: TrimSpace_def)
qed

lemma TrimSpace_Nil [simp]: "TrimSpace [] = []"
  by (simp add: TrimSpace_def trim_left_def trim_right_def)

text \<open>A string whose first and last bytes are ASCII and not blank is its own trimming.\<close>

definition plain_byte :: "char \<Rightarrow> bool" where
  "plain_byte c \<longleftrightarrow> 32 < byte c \<and> byte c < 128"

lemma white_runes_first: "w \<in> set white_runes \<Longrightarrow> \<not> plain_byte (hd w) \<and> \<not> plain_byte (last w) \<and> w \<noteq> []"
  by (auto simp: white_runes_def plain_byte_def)

lemma TrimSpace_plain:
  assumes "s \<noteq> []" "plain_byte (hd s)" "plain_byte (last s)"
  shows "TrimSpace s = s"
proof -
  have "no_lead white_runes s"
    using assms white_runes_first by (fastforce simp: no_lead_def HasPrefix_iff hd_append)
  moreover have "no_lead (map rev white_runes) (rev s)"
  proof -
    have "\<not> HasPrefix (rev s) (rev w)" if "w \<in> set white_runes" for w
    proof
      assume "HasPrefix (rev s) (rev w)"
      then obtain r where "rev s = rev w @ r" by (auto simp: HasPrefix_iff)
      then have "s = rev r @ w" by (metis rev_append rev_rev_ident)
      with white_runes_first [OF that] assms(3) show False by simp
    qed
    then show ?thesis by (simp add: no_lead_def)
  qed
  ultimately show ?thesis
    by (simp add: TrimSpace_def trim_left_def trim_right_def strip_prefixes_no_lead)
qed

text \<open>\<open>strings.Fields\<close>: the maximal runs of bytes that are not white space.\<close>

definition leading_white :: "string \<Rightarrow> nat" where
  "leading_white s =
     (if take 1 s \<in> set white_runes then 1
      else if take 2 s \<in> set white_runes then 2
      else if take 3 s \<in> set white_runes then 3
      else 0)"

fun fields_from :: "string \<Rightarrow> string \<Rightarrow> string list" where
  "fields_from word [] = (if word = [] then [] else [word])"
| "fields_from word (c # s) =
     (if leading_white (c # s) = 0 then fields_from (word @ [c]) s
      else (if word = [] then [] else [word]) @ fields_from [] (drop (leading_white (c # s) - 1) s))"

definition Fields :: "string \<Rightarrow> string list" where
  "Fields s = fields_from [] s"

subsection \<open>Slices\<close>

text \<open>
  A slice whose nil value is told apart from an empty one is an optional list: \<open>elems\<close> is what
  \<open>range\<close> and \<open>len\<close> see, \<open>appended\<close> the result of appending to a nil slice.
\<close>

definition elems :: "'a list option \<Rightarrow> 'a list" where
  "elems s = (case s of None \<Rightarrow> [] | Some xs \<Rightarrow> xs)"

definition appended :: "'a list \<Rightarrow> 'a list option" where
  "appended xs = (if xs = [] then None else Some xs)"

lemma elems_simps [simp]: "elems None = []" "elems (Some xs) = xs" "elems (appended xs) = xs"
  by (simp_all add: elems_def appended_def)

lemma elems_map_option [simp]: "elems (map_option (map f) s) = map f (elems s)"
  by (cases s) simp_all

subsection \<open>Searching for an unused index\<close>

lemma unused_index_measure:
  assumes inj: "inj f" and used: "f n \<in> set xs"
  shows "card {m. Suc n \<le> m \<and> f m \<in> set xs} < card {m. n \<le> m \<and> f m \<in> set xs}"
proof (rule psubset_card_mono)
  have "finite (f -` set xs)" using inj by (intro finite_vimageI) (auto simp: inj_def)
  then show "finite {m. n \<le> m \<and> f m \<in> set xs}"
    by (rule rev_finite_subset) auto
  show "{m. Suc n \<le> m \<and> f m \<in> set xs} \<subset> {m. n \<le> m \<and> f m \<in> set xs}"
    using used by (auto simp: psubset_eq Suc_le_eq)
qed

lemma finite_sequence_leaves_list:
  assumes "inj (f :: nat \<Rightarrow> 'a)"
  shows "\<exists>m \<ge> n. f m \<notin> set xs"
proof (rule ccontr)
  assume "\<not> ?thesis"
  then have "f ` {n..} \<subseteq> set xs" by auto
  then have "finite {n..}" using assms
    by (meson finite_imageD finite_set finite_subset inj_on_subset subset_UNIV)
  then show False using infinite_Ici by blast
qed

lemma map_filter_distinct: "distinct (map f xs) \<Longrightarrow> distinct (map f (filter P xs))"
  by (simp add: distinct_map_filter)

end
