(* ===== verification/Json.thy ===== *)
theory Json
  imports Prelude
begin

text \<open>
  The part of Go's \<open>encoding/json\<close> the modelled code relies on: \<open>json.Marshal\<close> and
  \<open>json.Unmarshal\<close> of the \<open>Findings\<close> payloads and of string lists. A JSON text is a string of
  bytes. Printing escapes strings as Go does (HTML characters, control characters, U+2028,
  U+2029 and invalid UTF-8 included); reading is a tokeniser followed by a push-down machine
  over the tokens, with Go's nesting limit of 10000.

  The theorem of this theory is the round trip \<open>json_parse_print\<close>: a value whose strings are
  valid UTF-8 and whose number literals are well formed is read back from its own text.
\<close>

subsection \<open>UTF-8\<close>

definition cont_byte :: "char \<Rightarrow> bool" where
  "cont_byte c \<longleftrightarrow> 128 \<le> byte c \<and> byte c \<le> 191"

definition lead_size :: "nat \<Rightarrow> nat" where
  "lead_size x =
     (if x < 128 then 1
      else if 194 \<le> x \<and> x \<le> 223 then 2
      else if 224 \<le> x \<and> x \<le> 239 then 3
      else if 240 \<le> x \<and> x \<le> 244 then 4
      else 0)"

text \<open>No over-long encodings, no surrogates, nothing above U+10FFFF.\<close>

definition second_ok :: "nat \<Rightarrow> nat \<Rightarrow> bool" where
  "second_ok x y \<longleftrightarrow>
     (x = 224 \<longrightarrow> 160 \<le> y) \<and> (x = 237 \<longrightarrow> y \<le> 159) \<and> (x = 240 \<longrightarrow> 144 \<le> y) \<and> (x = 244 \<longrightarrow> y \<le> 143)"

definition rune_ok :: "char \<Rightarrow> string \<Rightarrow> bool" where
  "rune_ok a r \<longleftrightarrow> list_all cont_byte r \<and> (r \<noteq> [] \<longrightarrow> second_ok (byte a) (byte (hd r)))"

text \<open>The size of the rune at the front of a string, 0 when its bytes are not valid UTF-8.\<close>

definition rune_size :: "string \<Rightarrow> nat" where
  "rune_size s =
     (case s of
        [] \<Rightarrow> 0
      | a # r \<Rightarrow>
          let n = lead_size (byte a) in
          if n = 0 \<or> length s < n then 0 else if rune_ok a (take (n - 1) r) then n else 0)"

lemma rune_size_Nil [simp]: "rune_size [] = 0"
  by (simp add: rune_size_def)

lemma rune_size_Cons:
  "rune_size (a # r) =
     (if lead_size (byte a) \<noteq> 0 \<and> lead_size (byte a) \<le> Suc (length r)
         \<and> rune_ok a (take (lead_size (byte a) - 1) r)
      then lead_size (byte a) else 0)"
  by (auto simp: rune_size_def Let_def)

lemma rune_size_le: "rune_size s \<le> length s"
  by (cases s) (auto simp: rune_size_Cons)

lemma rune_size_append: "0 < rune_size s \<Longrightarrow> rune_size (s @ t) = rune_size s"
  by (cases s) (auto simp: rune_size_Cons split: if_splits)

lemma rune_size_take:
  assumes "0 < rune_size s"
  shows "rune_size (take (rune_size s) s @ t) = rune_size s"
proof (cases s)
  case (Cons a r)
  from assms have n: "rune_size s = lead_size (byte a)" "lead_size (byte a) \<noteq> 0"
    "lead_size (byte a) \<le> Suc (length r)" "rune_ok a (take (lead_size (byte a) - 1) r)"
    unfolding Cons by (auto simp: rune_size_Cons split: if_splits)
  then obtain k where k: "lead_size (byte a) = Suc k" by (cases "lead_size (byte a)") auto
  with n show ?thesis unfolding Cons by (simp add: rune_size_Cons min_def)
qed (use assms in simp)

lemma rune_size_ascii [simp]: "byte c < 128 \<Longrightarrow> rune_size (c # s) = 1"
  by (simp add: rune_size_Cons lead_size_def rune_ok_def)

lemma rune_high:
  assumes "0 < rune_size (a # r)" "128 \<le> byte a" "c \<in> set (take (rune_size (a # r)) (a # r))"
  shows "128 \<le> byte c"
proof -
  obtain k where k: "rune_size (a # r) = Suc k" using assms(1) by (cases "rune_size (a # r)") auto
  with assms(1) have "list_all cont_byte (take k r)"
    by (auto simp: rune_size_Cons rune_ok_def split: if_splits)
  with assms k show ?thesis by (auto simp: list_all_iff cont_byte_def)
qed

fun valid_utf8 :: "string \<Rightarrow> bool" where
  "valid_utf8 [] = True"
| "valid_utf8 (c # s) =
     (if rune_size (c # s) = 0 then False else valid_utf8 (drop (rune_size (c # s) - 1) s))"

lemma valid_utf8_append_rune:
  assumes "0 < rune_size r" "rune_size r = length r" "valid_utf8 s"
  shows "valid_utf8 (r @ s)"
proof -
  obtain c r' where r: "r = c # r'" using assms(1) by (cases r) auto
  have "rune_size (c # r' @ s) = Suc (length r')"
    using rune_size_append [of r s] assms r by simp
  then show ?thesis using assms r by simp
qed

lemma valid_utf8_ascii: "\<forall>c \<in> set s. byte c < 128 \<Longrightarrow> valid_utf8 s"
  by (induction s) auto

lemma valid_utf8_append: "valid_utf8 s \<Longrightarrow> valid_utf8 t \<Longrightarrow> valid_utf8 (s @ t)"
proof (induction s rule: valid_utf8.induct)
  case (2 c s)
  let ?n = "rune_size (c # s)"
  from 2 have n: "0 < ?n" "valid_utf8 (drop (?n - 1) s)" by (auto split: if_splits)
  with 2 have v: "valid_utf8 (drop (?n - 1) s @ t)" by auto
  have "rune_size (c # s @ t) = ?n"
    using rune_size_append [OF n(1), of t] by simp
  moreover have "drop (?n - 1) (s @ t) = drop (?n - 1) s @ t"
    using rune_size_le [of "c # s"] by simp
  ultimately show ?case using n v by simp
qed simp

lemma rune_self:
  assumes "0 < rune_size s"
  shows "rune_size (take (rune_size s) s) = rune_size s"
    and "length (take (rune_size s) s) = rune_size s"
  using rune_size_take [OF assms, of "[]"] rune_size_le [of s] by simp_all

subsection \<open>String literals\<close>

definition quote :: char where "quote = CHR 0x22"
definition bslash :: char where "bslash = CHR 0x5C"

definition hex_digit :: "nat \<Rightarrow> char" where
  "hex_digit n = (if n < 10 then of_byte (48 + n) else of_byte (87 + n))"

definition hex_val :: "char \<Rightarrow> nat option" where
  "hex_val c =
     (if is_digit c then Some (byte c - 48)
      else if 97 \<le> byte c \<and> byte c \<le> 102 then Some (byte c - 87)
      else if 65 \<le> byte c \<and> byte c \<le> 70 then Some (byte c - 55)
      else None)"

definition rune_error :: string where
  "rune_error = [of_byte 239, of_byte 191, of_byte 189]"

definition line_separator :: string where
  "line_separator = [of_byte 226, of_byte 128, of_byte 168]"

definition paragraph_separator :: string where
  "paragraph_separator = [of_byte 226, of_byte 128, of_byte 169]"

definition esc_ascii :: "char \<Rightarrow> string" where
  "esc_ascii c =
     (if c = bslash \<or> c = quote then [bslash, c]
      else if byte c = 8 then [bslash, CHR ''b'']
      else if byte c = 12 then [bslash, CHR ''f'']
      else if byte c = 10 then [bslash, CHR ''n'']
      else if byte c = 13 then [bslash, CHR ''r'']
      else if byte c = 9 then [bslash, CHR ''t'']
      else if byte c < 32 \<or> c = CHR ''<'' \<or> c = CHR ''>'' \<or> c = CHR ''&''
      then [bslash, CHR ''u'', CHR ''0'', CHR ''0'', hex_digit (byte c div 16), hex_digit (byte c mod 16)]
      else [c])"

fun json_escape :: "string \<Rightarrow> string" where
  "json_escape [] = []"
| "json_escape (c # s) =
     (if byte c < 128 then esc_ascii c @ json_escape s
      else let n = rune_size (c # s); r = take n (c # s) in
        if n = 0 then bslash # ''ufffd'' @ json_escape s
        else (if r = line_separator then bslash # ''u2028''
              else if r = paragraph_separator then bslash # ''u2029'' else r)
             @ json_escape (drop (n - 1) s))"

definition utf8_encode :: "nat \<Rightarrow> string" where
  "utf8_encode n =
     (if n < 128 then [of_byte n]
      else if n < 2048 then [of_byte (192 + n div 64), of_byte (128 + n mod 64)]
      else if n < 65536 then
        [of_byte (224 + n div 4096), of_byte (128 + n div 64 mod 64), of_byte (128 + n mod 64)]
      else [of_byte (240 + n div 262144), of_byte (128 + n div 4096 mod 64),
            of_byte (128 + n div 64 mod 64), of_byte (128 + n mod 64)])"

definition hex4 :: "string \<Rightarrow> (nat \<times> string) option" where
  "hex4 s =
     (case s of
        a # b # c # d # r \<Rightarrow>
          (case (hex_val a, hex_val b, hex_val c, hex_val d) of
             (Some w, Some x, Some y, Some z) \<Rightarrow> Some (w * 4096 + x * 256 + y * 16 + z, r)
           | _ \<Rightarrow> None)
      | _ \<Rightarrow> None)"

text \<open>The low half of a surrogate pair, when the text continues with one.\<close>

definition low_surrogate :: "string \<Rightarrow> (nat \<times> string) option" where
  "low_surrogate s =
     (case s of
        a # b # r \<Rightarrow>
          if a = bslash \<and> b = CHR ''u'' then
            (case hex4 r of
               Some (n, r2) \<Rightarrow> if 56320 \<le> n \<and> n \<le> 57343 then Some (n, r2) else None
             | None \<Rightarrow> None)
          else None
      | _ \<Rightarrow> None)"

definition lex_unicode :: "string \<Rightarrow> (string \<times> string) option" where
  "lex_unicode s =
     (case hex4 s of
        None \<Rightarrow> None
      | Some (n, r) \<Rightarrow>
          if 55296 \<le> n \<and> n \<le> 57343 then
            (case low_surrogate r of
               Some (m, r2) \<Rightarrow>
                 if n \<le> 56319 then Some (utf8_encode (65536 + (n - 55296) * 1024 + (m - 56320)), r2)
                 else Some (rune_error, r)
             | None \<Rightarrow> Some (rune_error, r))
          else Some (utf8_encode n, r))"

definition lex_escape :: "string \<Rightarrow> (string \<times> string) option" where
  "lex_escape s =
     (case s of
        [] \<Rightarrow> None
      | e # r \<Rightarrow>
          if e = quote \<or> e = bslash \<or> e = CHR ''/'' then Some ([e], r)
          else if e = CHR ''b'' then Some ([of_byte 8], r)
          else if e = CHR ''f'' then Some ([of_byte 12], r)
          else if e = CHR ''n'' then Some ([of_byte 10], r)
          else if e = CHR ''r'' then Some ([of_byte 13], r)
          else if e = CHR ''t'' then Some ([of_byte 9], r)
          else if e = CHR ''u'' then lex_unicode r
          else None)"

text \<open>One element of a string body (not its closing quote) and the text after it.\<close>

definition lex_elem :: "string \<Rightarrow> (string \<times> string) option" where
  "lex_elem s =
     (case s of
        [] \<Rightarrow> None
      | c # r \<Rightarrow>
          if c = bslash then lex_escape r
          else if byte c < 32 then None
          else if byte c < 128 then Some ([c], r)
          else let n = rune_size s in
            if n = 0 then Some (rune_error, r) else Some (take n s, drop n s))"

lemma hex4_shorter: "hex4 s = Some (n, r) \<Longrightarrow> length r < length s"
  by (auto simp: hex4_def split: list.splits option.splits)

lemma low_surrogate_shorter: "low_surrogate s = Some (n, r) \<Longrightarrow> length r < length s"
  by (auto simp: low_surrogate_def split: list.splits option.splits if_splits dest: hex4_shorter)

lemma lex_unicode_shorter: "lex_unicode s = Some (e, r) \<Longrightarrow> length r < length s"
  by (auto simp: lex_unicode_def split: option.splits if_splits
      dest!: hex4_shorter low_surrogate_shorter)

lemma lex_escape_shorter: "lex_escape s = Some (e, r) \<Longrightarrow> length r < length s"
  by (auto simp: lex_escape_def split: list.splits if_splits dest: lex_unicode_shorter)

lemma lex_elem_shorter: "lex_elem s = Some (e, r) \<Longrightarrow> length r < length s"
  by (auto simp: lex_elem_def Let_def split: list.splits if_splits dest: lex_escape_shorter)

function lex_str :: "string \<Rightarrow> (string \<times> string) option" where
  "lex_str s =
     (case s of
        [] \<Rightarrow> None
      | c # r \<Rightarrow>
          if c = quote then Some ([], r)
          else (case lex_elem s of
                  None \<Rightarrow> None
                | Some (e, r') \<Rightarrow> map_option (\<lambda>(t, u). (e @ t, u)) (lex_str r')))"
  by pat_completeness auto
termination
  by (relation "measure length") (auto dest: lex_elem_shorter)

declare lex_str.simps [simp del]

lemma lex_str_quote [simp]: "lex_str (quote # r) = Some ([], r)"
  by (simp add: lex_str.simps)

lemma lex_str_elem:
  assumes "lex_elem s = Some (e, r)" "hd s \<noteq> quote"
  shows "lex_str s = map_option (\<lambda>(t, u). (e @ t, u)) (lex_str r)"
proof -
  obtain c s' where "s = c # s'" using assms(1) by (cases s) (auto simp: lex_elem_def)
  then show ?thesis using assms by (subst lex_str.simps) simp
qed

lemma hex_val_digit [simp]: "n < 16 \<Longrightarrow> hex_val (hex_digit n) = Some n"
  by (auto simp: hex_val_def hex_digit_def is_digit_def)

lemma byte_consts [simp]: "byte bslash = 92" "byte quote = 34" "quote \<noteq> bslash" "bslash \<noteq> quote"
  by (simp_all add: bslash_def quote_def byte_def)

lemma hex_val_0 [simp]: "hex_val CHR ''0'' = Some 0"
  by (simp add: hex_val_def is_digit_def byte_def)

lemma lex_elem_ascii:
  assumes "byte c < 128"
  shows "lex_elem (esc_ascii c @ t) = Some ([c], t)" "hd (esc_ascii c @ t) \<noteq> quote"
proof -
  have hex: "lex_elem (bslash # CHR ''u'' # CHR ''0'' # CHR ''0'' # hex_digit (byte c div 16)
      # hex_digit (byte c mod 16) # t) = Some ([c], t)"
  proof -
    have "byte c div 16 < 16" using assms by simp
    then have "hex4 (CHR ''0'' # CHR ''0'' # hex_digit (byte c div 16) # hex_digit (byte c mod 16) # t)
        = Some (byte c, t)"
      by (simp add: hex4_def)
    then have "lex_unicode (CHR ''0'' # CHR ''0'' # hex_digit (byte c div 16)
        # hex_digit (byte c mod 16) # t) = Some ([c], t)"
      using assms by (simp add: lex_unicode_def utf8_encode_def)
    then show ?thesis
      by (simp add: lex_elem_def lex_escape_def quote_def bslash_def)
  qed
  consider (self) "c = bslash \<or> c = quote" | (b) "c = of_byte 8" | (f) "c = of_byte 12"
    | (n) "c = of_byte 10" | (r) "c = of_byte 13" | (t) "c = of_byte 9"
    | (hex) "esc_ascii c = [bslash, CHR ''u'', CHR ''0'', CHR ''0'', hex_digit (byte c div 16),
        hex_digit (byte c mod 16)]"
    | (plain) "esc_ascii c = [c]" "c \<noteq> bslash" "c \<noteq> quote" "32 \<le> byte c"
    by (cases "c = bslash \<or> c = quote"; cases "byte c = 8"; cases "byte c = 12"; cases "byte c = 10";
        cases "byte c = 13"; cases "byte c = 9";
        cases "byte c < 32 \<or> c = CHR ''<'' \<or> c = CHR ''>'' \<or> c = CHR ''&''")
      (simp_all add: esc_ascii_def byte_eq_iff)
  then show "lex_elem (esc_ascii c @ t) = Some ([c], t)"
  proof cases
    case self
    then show ?thesis by (auto simp: esc_ascii_def lex_elem_def lex_escape_def)
  next
    case hex
    then show ?thesis using \<open>lex_elem _ = _\<close> by simp
  next
    case plain
    then show ?thesis using assms by (simp add: lex_elem_def)
  qed (simp_all add: esc_ascii_def lex_elem_def lex_escape_def quote_def bslash_def)
  show "hd (esc_ascii c @ t) \<noteq> quote"
    by (auto simp: esc_ascii_def)
qed

lemma lex_elem_separators:
  "lex_elem (bslash # ''u2028'' @ t) = Some (line_separator, t)"
  "lex_elem (bslash # ''u2029'' @ t) = Some (paragraph_separator, t)"
  by (simp_all add: lex_elem_def lex_escape_def lex_unicode_def hex4_def hex_val_def is_digit_def
      byte_def quote_def bslash_def utf8_encode_def line_separator_def paragraph_separator_def)

lemma lex_elem_rune:
  assumes "0 < rune_size (c # s)" "128 \<le> byte c"
  shows "lex_elem (take (rune_size (c # s)) (c # s) @ t) = Some (take (rune_size (c # s)) (c # s), t)"
    and "hd (take (rune_size (c # s)) (c # s) @ t) \<noteq> quote"
proof -
  let ?r = "take (rune_size (c # s)) (c # s)"
  obtain k where k: "rune_size (c # s) = Suc k" using assms(1) by (cases "rune_size (c # s)") auto
  then have r: "?r = c # take k s" by simp
  have sz: "rune_size (?r @ t) = length ?r"
    using rune_size_take [OF assms(1)] rune_self(2) [OF assms(1)] by simp
  have "c \<noteq> bslash" "c \<noteq> quote" using assms(2) by (auto simp: byte_def bslash_def quote_def)
  then show "lex_elem (?r @ t) = Some (?r, t)" "hd (?r @ t) \<noteq> quote"
    using assms sz unfolding r by (simp_all add: lex_elem_def Let_def min_def)
qed

theorem lex_str_json_escape:
  "valid_utf8 s \<Longrightarrow> lex_str (json_escape s @ quote # r) = Some (s, r)"
proof (induction s rule: valid_utf8.induct)
  case (2 c s)
  let ?n = "rune_size (c # s)"
  from 2 have n: "0 < ?n" "valid_utf8 (drop (?n - 1) s)" by (auto split: if_splits)
  have IH: "lex_str (json_escape (drop (?n - 1) s) @ quote # r) = Some (drop (?n - 1) s, r)"
    using 2 n by simp
  have split: "take ?n (c # s) @ drop (?n - 1) s = c # s"
    using n(1) by (cases ?n) auto
  show ?case
  proof (cases "byte c < 128")
    case True
    then show ?thesis
      using IH lex_str_elem [OF lex_elem_ascii [OF True]] by simp
  next
    case False
    then have "128 \<le> byte c" by simp
    note rune = lex_elem_rune [OF n(1) this]
    have "lex_str ((if take ?n (c # s) = line_separator then bslash # ''u2028''
        else if take ?n (c # s) = paragraph_separator then bslash # ''u2029'' else take ?n (c # s)) @ t)
        = map_option (\<lambda>(a, b). (take ?n (c # s) @ a, b)) (lex_str t)" for t
      using lex_str_elem [OF rune] lex_str_elem [OF lex_elem_separators(1)]
        lex_str_elem [OF lex_elem_separators(2)] by auto
    then show ?thesis
      using False n(1) IH split by (simp add: Let_def)
  qed
qed simp

subsection \<open>Values, printing\<close>

text \<open>A number is its literal, as the decoder hands it to the Go type it is read into.\<close>

datatype json =
    JNull
  | JBool bool
  | JNum string
  | JStr string
  | JArr "json list"
  | JObj "(string \<times> json) list"

definition json_quote :: "string \<Rightarrow> string" where
  "json_quote s = quote # json_escape s @ [quote]"

fun json_print :: "json \<Rightarrow> string" where
  "json_print JNull = ''null''"
| "json_print (JBool b) = (if b then ''true'' else ''false'')"
| "json_print (JNum n) = n"
| "json_print (JStr s) = json_quote s"
| "json_print (JArr xs) = CHR ''['' # Join '','' (map json_print xs) @ '']''"
| "json_print (JObj ms) =
     CHR ''{'' # Join '','' (map (\<lambda>(k, v). json_quote k @ '':'' @ json_print v) ms) @ ''}''"

subsection \<open>Tokens\<close>

datatype token =
    LBrace | RBrace | LBrack | RBrack | Colon | Comma
  | TStr string | TNum string | TTrue | TFalse | TNull

definition is_ws :: "char \<Rightarrow> bool" where
  "is_ws c \<longleftrightarrow> byte c \<in> {9, 10, 13, 32}"

definition lex_int :: "string \<Rightarrow> (string \<times> string) option" where
  "lex_int s =
     (case s of
        [] \<Rightarrow> None
      | c # r \<Rightarrow>
          if c = CHR ''0'' then Some ([c], r)
          else if is_digit c then Some (takeWhile is_digit s, dropWhile is_digit s)
          else None)"

definition lex_digits :: "string \<Rightarrow> (string \<times> string) option" where
  "lex_digits s =
     (if takeWhile is_digit s = [] then None else Some (takeWhile is_digit s, dropWhile is_digit s))"

definition lex_frac :: "string \<Rightarrow> (string \<times> string) option" where
  "lex_frac s =
     (case s of
        [] \<Rightarrow> Some ([], [])
      | c # r \<Rightarrow> if c = CHR ''.'' then map_option (\<lambda>(d, t). (c # d, t)) (lex_digits r) else Some ([], s))"

definition lex_exp :: "string \<Rightarrow> (string \<times> string) option" where
  "lex_exp s =
     (case s of
        [] \<Rightarrow> Some ([], [])
      | c # r \<Rightarrow>
          if c = CHR ''e'' \<or> c = CHR ''E'' then
            (case r of
               [] \<Rightarrow> None
             | d # r2 \<Rightarrow>
                 if d = CHR ''+'' \<or> d = CHR ''-'' then map_option (\<lambda>(e, t). (c # d # e, t)) (lex_digits r2)
                 else map_option (\<lambda>(e, t). (c # e, t)) (lex_digits r))
          else Some ([], s))"

definition lex_num :: "string \<Rightarrow> (string \<times> string) option" where
  "lex_num s =
     (let (sg, s1) = (if HasPrefix s ''-'' then (''-'', drop 1 s) else ([], s)) in
      case lex_int s1 of
        None \<Rightarrow> None
      | Some (i, s2) \<Rightarrow>
          (case lex_frac s2 of
             None \<Rightarrow> None
           | Some (f, s3) \<Rightarrow>
               (case lex_exp s3 of
                  None \<Rightarrow> None
                | Some (e, s4) \<Rightarrow> Some (sg @ i @ f @ e, s4))))"

text \<open>The first token of a text that starts with neither white space nor its end.\<close>

definition lex_token :: "string \<Rightarrow> (token \<times> string) option" where
  "lex_token s =
     (case s of
        [] \<Rightarrow> None
      | c # r \<Rightarrow>
          if c = CHR ''{'' then Some (LBrace, r)
          else if c = CHR ''}'' then Some (RBrace, r)
          else if c = CHR ''['' then Some (LBrack, r)
          else if c = CHR '']'' then Some (RBrack, r)
          else if c = CHR '':'' then Some (Colon, r)
          else if c = CHR '','' then Some (Comma, r)
          else if c = quote then map_option (\<lambda>(t, u). (TStr t, u)) (lex_str r)
          else if HasPrefix s ''true'' then Some (TTrue, drop 4 s)
          else if HasPrefix s ''false'' then Some (TFalse, drop 5 s)
          else if HasPrefix s ''null'' then Some (TNull, drop 4 s)
          else map_option (\<lambda>(t, u). (TNum t, u)) (lex_num s))"

lemma lex_str_shorter: "lex_str s = Some (t, r) \<Longrightarrow> length r < length s"
proof (induction s arbitrary: t r rule: lex_str.induct)
  case (1 s)
  show ?case
  proof (cases s)
    case (Cons c s')
    show ?thesis
    proof (cases "c = quote")
      case False
      with 1(2) Cons obtain e u t' where
        "lex_elem s = Some (e, u)" "lex_str u = Some (t', r)"
        by (subst (asm) lex_str.simps) (auto split: option.splits)
      with 1(1) [OF Cons False] show ?thesis
        using lex_elem_shorter by fastforce
    qed (use 1(2) Cons in \<open>simp add: lex_str.simps\<close>)
  qed (use 1(2) in \<open>simp add: lex_str.simps\<close>)
qed

lemma lex_int_shorter: "lex_int s = Some (t, r) \<Longrightarrow> length r < length s"
  using length_dropWhile_le [of is_digit] by (fastforce simp: lex_int_def less_Suc_eq_le split: list.splits if_splits)

lemma lex_digits_shorter: "lex_digits s = Some (t, r) \<Longrightarrow> length r \<le> length s"
  by (auto simp: lex_digits_def length_dropWhile_le split: if_splits)

lemma lex_frac_shorter: "lex_frac s = Some (t, r) \<Longrightarrow> length r \<le> length s"
  by (auto simp: lex_frac_def split: list.splits if_splits dest!: lex_digits_shorter)

lemma lex_exp_shorter: "lex_exp s = Some (t, r) \<Longrightarrow> length r \<le> length s"
  by (fastforce simp: lex_exp_def split: list.splits if_splits dest!: lex_digits_shorter)

lemma lex_num_shorter: "lex_num s = Some (t, r) \<Longrightarrow> length r < length s"
  by (auto simp: lex_num_def Let_def split: option.splits if_splits
      dest!: lex_int_shorter lex_frac_shorter lex_exp_shorter) linarith

lemma lex_token_shorter: "lex_token s = Some (t, r) \<Longrightarrow> length r < length s"
  by (auto simp: lex_token_def split: list.splits if_splits dest: lex_str_shorter lex_num_shorter)

function tokens :: "string \<Rightarrow> token list option" where
  "tokens s =
     (case s of
        [] \<Rightarrow> Some []
      | c # r \<Rightarrow>
          if is_ws c then tokens r
          else (case lex_token s of
                  None \<Rightarrow> None
                | Some (t, r') \<Rightarrow> map_option ((#) t) (tokens r')))"
  by pat_completeness auto
termination
  by (relation "measure length") (auto dest: lex_token_shorter)

declare tokens.simps [simp del]

subsection \<open>The push-down machine\<close>

datatype frame = FArr "json list" | FObj "(string \<times> json) list" string

datatype mode =
    WantValue | WantValueOrEnd
  | WantKey "(string \<times> json) list" | WantKeyOrEnd
  | WantColon "(string \<times> json) list" string
  | After json

definition max_nesting :: nat where
  "max_nesting = 10000"

type_synonym machine = "mode \<times> frame list"

definition json_open :: "token \<Rightarrow> frame list \<Rightarrow> machine option" where
  "json_open t st =
     (case t of
        TStr s \<Rightarrow> Some (After (JStr s), st)
      | TNum n \<Rightarrow> Some (After (JNum n), st)
      | TTrue \<Rightarrow> Some (After (JBool True), st)
      | TFalse \<Rightarrow> Some (After (JBool False), st)
      | TNull \<Rightarrow> Some (After JNull, st)
      | LBrack \<Rightarrow> if length st < max_nesting then Some (WantValueOrEnd, FArr [] # st) else None
      | LBrace \<Rightarrow> if length st < max_nesting then Some (WantKeyOrEnd, FObj [] [] # st) else None
      | _ \<Rightarrow> None)"

text \<open>
  The frame of an object that waits for a key holds the members read so far in its mode;
  elements and members are collected in reverse.
\<close>

fun json_step :: "token \<Rightarrow> machine \<Rightarrow> machine option" where
  "json_step t (WantValue, st) = json_open t st"
| "json_step t (WantValueOrEnd, st) =
     (if t = RBrack then Some (After (JArr []), tl st) else json_open t st)"
| "json_step t (WantKeyOrEnd, st) =
     (case t of
        TStr k \<Rightarrow> Some (WantColon [] k, st)
      | RBrace \<Rightarrow> Some (After (JObj []), tl st)
      | _ \<Rightarrow> None)"
| "json_step t (WantKey ms, st) = (case t of TStr k \<Rightarrow> Some (WantColon ms k, st) | _ \<Rightarrow> None)"
| "json_step t (WantColon ms k, st) =
     (if t = Colon then Some (WantValue, FObj ms k # tl st) else None)"
| "json_step t (After v, FArr xs # st) =
     (case t of
        Comma \<Rightarrow> Some (WantValue, FArr (v # xs) # st)
      | RBrack \<Rightarrow> Some (After (JArr (rev (v # xs))), st)
      | _ \<Rightarrow> None)"
| "json_step t (After v, FObj ms k # st) =
     (case t of
        Comma \<Rightarrow> Some (WantKey ((k, v) # ms), FObj [] [] # st)
      | RBrace \<Rightarrow> Some (After (JObj (rev ((k, v) # ms))), st)
      | _ \<Rightarrow> None)"
| "json_step t (After v, []) = None"

fun json_run :: "token list \<Rightarrow> machine \<Rightarrow> machine option" where
  "json_run [] m = Some m"
| "json_run (t # ts) m = (case json_step t m of None \<Rightarrow> None | Some m' \<Rightarrow> json_run ts m')"

definition json_parse :: "string \<Rightarrow> json option" where
  "json_parse s =
     (case tokens s of
        None \<Rightarrow> None
      | Some ts \<Rightarrow>
          (case json_run ts (WantValue, []) of
             Some (After v, []) \<Rightarrow> Some v
           | _ \<Rightarrow> None))"

subsection \<open>Round trip\<close>

fun toks :: "json \<Rightarrow> token list" where
  "toks JNull = [TNull]"
| "toks (JBool b) = [if b then TTrue else TFalse]"
| "toks (JNum n) = [TNum n]"
| "toks (JStr s) = [TStr s]"
| "toks (JArr []) = [LBrack, RBrack]"
| "toks (JArr (x # xs)) = LBrack # toks x @ concat (map (\<lambda>y. Comma # toks y) xs) @ [RBrack]"
| "toks (JObj []) = [LBrace, RBrace]"
| "toks (JObj (m # ms)) =
     LBrace # TStr (fst m) # Colon # toks (snd m)
       @ concat (map (\<lambda>n. Comma # TStr (fst n) # Colon # toks (snd n)) ms) @ [RBrace]"

text \<open>Valid strings, integer numbers, and at most \<open>d\<close> levels of nesting.\<close>

fun ok_json :: "nat \<Rightarrow> json \<Rightarrow> bool" where
  "ok_json d JNull = True"
| "ok_json d (JBool b) = True"
| "ok_json d (JNum n) = (\<exists>i. n = Itoa i)"
| "ok_json d (JStr s) = valid_utf8 s"
| "ok_json d (JArr xs) = (0 < d \<and> (\<forall>x \<in> set xs. ok_json (d - 1) x))"
| "ok_json d (JObj ms) = (0 < d \<and> (\<forall>m \<in> set ms. valid_utf8 (fst m) \<and> ok_json (d - 1) (snd m)))"

lemma json_run_append:
  "json_run (xs @ ys) m = (case json_run xs m of None \<Rightarrow> None | Some m' \<Rightarrow> json_run ys m')"
  by (induction xs arbitrary: m) (auto split: option.splits)

lemma toks_hd: "\<exists>t ts. toks j = t # ts \<and> t \<noteq> RBrack"
  by (cases j rule: toks.cases) auto

definition reads :: "json \<Rightarrow> frame list \<Rightarrow> bool" where
  "reads j st \<longleftrightarrow> (\<forall>m \<in> {WantValue, WantValueOrEnd}. json_run (toks j) (m, st) = Some (After j, st))"

lemma reads_scalar: "(\<And>st. json_run (toks j) (WantValue, st) = Some (After j, st)) \<Longrightarrow> reads j st"
  using toks_hd [of j] by (auto simp: reads_def)

lemma json_run_elems:
  assumes "\<forall>y \<in> set ys. \<forall>acc. reads y (FArr acc # st)"
  shows "json_run (concat (map (\<lambda>y. Comma # toks y) ys) @ [RBrack]) (After v, FArr acc # st)
    = Some (After (JArr (rev acc @ v # ys)), st)"
  using assms
proof (induction ys arbitrary: v acc)
  case (Cons y ys)
  then have "json_run (toks y) (WantValue, FArr (v # acc) # st) = Some (After y, FArr (v # acc) # st)"
    by (auto simp: reads_def)
  with Cons show ?case by (simp add: json_run_append)
qed simp

lemma json_run_members:
  assumes "\<forall>n \<in> set ms. \<forall>acc k. reads (snd n) (FObj acc k # st)"
  shows "json_run (concat (map (\<lambda>n. Comma # TStr (fst n) # Colon # toks (snd n)) ms) @ [RBrace])
      (After v, FObj acc k # st)
    = Some (After (JObj (rev acc @ (k, v) # ms)), st)"
  using assms
proof (induction ms arbitrary: v k acc)
  case (Cons n ms)
  then have "json_run (toks (snd n)) (WantValue, FObj ((k, v) # acc) (fst n) # st)
      = Some (After (snd n), FObj ((k, v) # acc) (fst n) # st)"
    by (auto simp: reads_def)
  with Cons show ?case by (cases n) (simp add: json_run_append)
qed simp

lemma json_run_toks: "ok_json d j \<Longrightarrow> d + length st \<le> max_nesting \<Longrightarrow> reads j st"
proof (induction j arbitrary: d st)
  case (JArr xs)
  then have lt: "length st < max_nesting" by simp
  have rd: "reads x (FArr acc # st)" if "x \<in> set xs" for x acc
    using JArr.IH [OF that, of "d - 1"] JArr.prems that by simp
  show ?case
  proof (cases xs)
    case Nil
    then show ?thesis using lt by (auto simp: reads_def json_open_def)
  next
    case (Cons y ys)
    have "json_run (toks y) (WantValueOrEnd, FArr [] # st) = Some (After y, FArr [] # st)"
      using rd [of y "[]"] Cons by (simp add: reads_def)
    moreover have "\<forall>z \<in> set ys. \<forall>acc. reads z (FArr acc # st)"
      using rd Cons by simp
    ultimately show ?thesis
      using lt json_run_elems [of ys st y "[]"] Cons
      by (auto simp: reads_def json_open_def json_run_append)
  qed
next
  case (JObj ms)
  then have lt: "length st < max_nesting" by simp
  have rd: "reads (snd m) (FObj acc k # st)" if "m \<in> set ms" for m acc k
  proof -
    have "snd m \<in> Basic_BNFs.snds m" by (cases m) simp
    then show ?thesis
      using JObj.IH [OF that, of "snd m" "d - 1"] JObj.prems that by simp
  qed
  show ?case
  proof (cases ms)
    case Nil
    then show ?thesis using lt by (auto simp: reads_def json_open_def)
  next
    case (Cons n ns)
    have "json_run (toks (snd n)) (WantValue, FObj [] (fst n) # st)
        = Some (After (snd n), FObj [] (fst n) # st)"
      using rd [of n "[]"] Cons by (simp add: reads_def)
    moreover have "\<forall>m \<in> set ns. \<forall>acc k. reads (snd m) (FObj acc k # st)"
      using rd Cons by simp
    ultimately show ?thesis
      using lt json_run_members [of ns st "snd n" "[]" "fst n"] Cons
      by (auto simp: reads_def json_open_def json_run_append)
  qed
qed (auto intro!: reads_scalar simp: json_open_def)

definition delim :: "string \<Rightarrow> bool" where
  "delim r \<longleftrightarrow> r = [] \<or> hd r \<in> {CHR '','', CHR '']'', CHR ''}''}"

lemma delim_simps [simp]: "delim []" "delim (CHR '','' # r)" "delim (CHR '']'' # r)" "delim (CHR ''}'' # r)"
  by (simp_all add: delim_def)

lemma tokens_Nil [simp]: "tokens [] = Some []"
  by (simp add: tokens.simps)

lemma tokens_lex:
  assumes "lex_token s = Some (t, r)" "\<not> is_ws (hd s)"
  shows "tokens s = map_option ((#) t) (tokens r)"
proof -
  obtain c s' where "s = c # s'" using assms(1) by (cases s) (auto simp: lex_token_def)
  with assms show ?thesis by (subst tokens.simps) simp
qed

lemma tokens_punct [simp]:
  "tokens (CHR ''['' # r) = map_option ((#) LBrack) (tokens r)"
  "tokens (CHR '']'' # r) = map_option ((#) RBrack) (tokens r)"
  "tokens (CHR ''{'' # r) = map_option ((#) LBrace) (tokens r)"
  "tokens (CHR ''}'' # r) = map_option ((#) RBrace) (tokens r)"
  "tokens (CHR '':'' # r) = map_option ((#) Colon) (tokens r)"
  "tokens (CHR '','' # r) = map_option ((#) Comma) (tokens r)"
  by (rule tokens_lex; simp add: lex_token_def is_ws_def)+

lemma tokens_words [simp]:
  "tokens (''null'' @ r) = map_option ((#) TNull) (tokens r)"
  "tokens (''true'' @ r) = map_option ((#) TTrue) (tokens r)"
  "tokens (''false'' @ r) = map_option ((#) TFalse) (tokens r)"
  by (rule tokens_lex; simp add: lex_token_def is_ws_def HasPrefix_def quote_def)+

lemma tokens_quote:
  "valid_utf8 s \<Longrightarrow> tokens (json_quote s @ r) = map_option ((#) (TStr s)) (tokens r)"
  unfolding json_quote_def
  by (rule tokens_lex) (simp_all add: lex_token_def is_ws_def quote_def lex_str_json_escape [unfolded quote_def])

lemma digits_delim: "delim r \<Longrightarrow> \<forall>c \<in> set s. is_digit c \<Longrightarrow>
    takeWhile is_digit (s @ r) = s \<and> dropWhile is_digit (s @ r) = r"
  by (cases r) (auto simp: delim_def is_digit_def takeWhile_append2 dropWhile_append2)

lemma is_digit_not [simp]:
  "is_digit c \<Longrightarrow> c \<noteq> CHR ''-''" "is_digit c \<Longrightarrow> c \<noteq> quote" "is_digit c \<Longrightarrow> \<not> is_ws c"
  by (auto simp: is_digit_def is_ws_def quote_def)

lemma lex_int_dec: "delim r \<Longrightarrow> lex_int (dec n @ r) = Some (dec n, r)"
proof (cases "n = 0")
  case True
  then show "lex_int (dec n @ r) = Some (dec n, r)"
    by (simp add: lex_int_def dec.simps digit_def)
next
  case False
  assume r: "delim r"
  obtain c s where d: "dec n = c # s" by (cases "dec n") auto
  have "c \<noteq> CHR ''0''"
    using hd_dec_nonzero [of n] False d by (auto simp: digit_def)
  moreover have "\<forall>c \<in> set (dec n). is_digit c" by (rule dec_digits)
  ultimately show "lex_int (dec n @ r) = Some (dec n, r)"
    using digits_delim [OF r, of "dec n"] d by (simp add: lex_int_def)
qed

lemma lex_frac_exp_delim: "delim r \<Longrightarrow> lex_frac r = Some ([], r) \<and> lex_exp r = Some ([], r)"
  by (cases r) (auto simp: delim_def lex_frac_def lex_exp_def)

lemma lex_num_Itoa:
  assumes r: "delim r"
  shows "lex_num (Itoa i @ r) = Some (Itoa i, r)"
proof (cases "i < 0")
  case True
  then show ?thesis
    using lex_int_dec [OF r, of "nat (- i)"] lex_frac_exp_delim [OF r]
    by (simp add: lex_num_def Itoa_def HasPrefix_def)
next
  case False
  obtain c s where d: "dec (nat i) = c # s" "is_digit c"
    using dec_digits [of "nat i"] by (cases "dec (nat i)") auto
  have "\<not> HasPrefix (dec (nat i) @ r) ''-''"
    using d by (auto simp: HasPrefix_def)
  then show ?thesis
    using False lex_int_dec [OF r, of "nat i"] lex_frac_exp_delim [OF r]
    by (simp add: lex_num_def Itoa_def)
qed

lemma lex_token_num:
  assumes "c = CHR ''-'' \<or> is_digit c"
  shows "lex_token (c # s) = map_option (\<lambda>(t, u). (TNum t, u)) (lex_num (c # s))"
proof -
  have b: "byte c = 45 \<or> 48 \<le> byte c \<and> byte c \<le> 57"
    using assms by (auto simp: is_digit_def)
  have "c \<noteq> d" if "byte d \<noteq> 45" "byte d < 48 \<or> 57 < byte d" for d
    using b that by auto
  then have "c \<noteq> CHR ''{''" "c \<noteq> CHR ''}''" "c \<noteq> CHR ''[''" "c \<noteq> CHR '']''" "c \<noteq> CHR '':''"
    "c \<noteq> CHR '',''" "c \<noteq> quote" "c \<noteq> CHR ''t''" "c \<noteq> CHR ''f''" "c \<noteq> CHR ''n''"
    by simp_all
  then show ?thesis by (simp add: lex_token_def HasPrefix_def)
qed

lemma tokens_num: "delim r \<Longrightarrow> tokens (Itoa i @ r) = map_option ((#) (TNum (Itoa i))) (tokens r)"
proof -
  assume r: "delim r"
  obtain c s where d: "Itoa i = c # s" "c = CHR ''-'' \<or> is_digit c"
  proof (cases "i < 0")
    case False
    then show ?thesis using that dec_digits [of "nat i"]
      by (cases "dec (nat i)") (auto simp: Itoa_def)
  qed (auto simp: Itoa_def intro: that)
  then have "lex_token (Itoa i @ r) = Some (TNum (Itoa i), r)"
    using lex_token_num [of c "s @ r"] lex_num_Itoa [OF r, of i] by simp
  moreover have "\<not> is_ws (hd (Itoa i @ r))" using d by (auto simp: is_ws_def is_digit_def)
  ultimately show ?thesis by (rule tokens_lex)
qed

lemma Join_Cons_concat: "Join sep (x # xs) = x @ concat (map (\<lambda>y. sep @ y) xs)"
  by (induction xs arbitrary: x) auto

definition prints :: "json \<Rightarrow> bool" where
  "prints j \<longleftrightarrow> (\<forall>r ts. delim r \<longrightarrow> tokens r = Some ts \<longrightarrow> tokens (json_print j @ r) = Some (toks j @ ts))"

lemma tokens_elems:
  "\<forall>y \<in> set ys. prints y \<Longrightarrow> tokens r = Some ts \<Longrightarrow>
   tokens (concat (map (\<lambda>y. '','' @ json_print y) ys) @ CHR '']'' # r)
     = Some (concat (map (\<lambda>y. Comma # toks y) ys) @ RBrack # ts)"
proof (induction ys)
  case (Cons y ys)
  have "delim (concat (map (\<lambda>y. '','' @ json_print y) ys) @ CHR '']'' # r)"
    by (cases ys) simp_all
  with Cons show ?case by (simp add: prints_def)
qed simp

lemma tokens_members:
  "\<forall>n \<in> set ms. valid_utf8 (fst n) \<and> prints (snd n) \<Longrightarrow> tokens r = Some ts \<Longrightarrow>
   tokens (concat (map (\<lambda>(k, v). '','' @ json_quote k @ '':'' @ json_print v) ms) @ CHR ''}'' # r)
     = Some (concat (map (\<lambda>n. Comma # TStr (fst n) # Colon # toks (snd n)) ms) @ RBrace # ts)"
proof (induction ms)
  case (Cons n ms)
  have "delim (concat (map (\<lambda>(k, v). '','' @ json_quote k @ '':'' @ json_print v) ms) @ CHR ''}'' # r)"
    by (cases ms) (simp_all split: prod.split)
  with Cons show ?case
    by (cases n) (simp add: prints_def tokens_quote)
qed simp

lemma tokens_print: "ok_json d j \<Longrightarrow> prints j"
proof (induction j arbitrary: d)
  case (JArr xs)
  have pr: "prints x" if "x \<in> set xs" for x
    using JArr.IH [OF that, of "d - 1"] JArr.prems that by simp
  show ?case
  proof (cases xs)
    case (Cons y ys)
    have "delim (concat (map (\<lambda>y. '','' @ json_print y) ys) @ CHR '']'' # r)" for r
      by (cases ys) simp_all
    moreover have "prints y" "\<forall>z \<in> set ys. prints z" using pr Cons by simp_all
    ultimately show ?thesis
      using tokens_elems [of ys] Cons
      by (auto simp: prints_def Join_Cons_concat comp_def)
  qed (auto simp: prints_def)
next
  case (JObj ms)
  have pr: "valid_utf8 (fst m) \<and> prints (snd m)" if "m \<in> set ms" for m
  proof -
    have "snd m \<in> Basic_BNFs.snds m" by (cases m) simp
    then show ?thesis using JObj.IH [OF that, of "snd m" "d - 1"] JObj.prems that by auto
  qed
  show ?case
  proof (cases ms)
    case (Cons n ns)
    obtain k v where n: "n = (k, v)" by (cases n)
    have d: "delim (concat (map (\<lambda>(k, v). '','' @ json_quote k @ '':'' @ json_print v) ns) @ CHR ''}'' # r)"
      for r by (cases ns) (simp_all split: prod.split)
    have m: "valid_utf8 k" "prints v" "\<forall>z \<in> set ns. valid_utf8 (fst z) \<and> prints (snd z)"
      using pr [of n] pr Cons n by auto
    have eq: "(#) CHR '','' \<circ> (\<lambda>(k, v). json_quote k @ CHR '':'' # json_print v)
        = (\<lambda>(k, v). CHR '','' # json_quote k @ CHR '':'' # json_print v)"
      by (rule ext) auto
    show ?thesis
      using tokens_members [OF m(3)] m d Cons n eq
      by (auto simp: prints_def Join_Cons_concat tokens_quote)
  qed (auto simp: prints_def)
next
  case (JStr s)
  then show ?case by (auto simp: prints_def tokens_quote)
next
  case (JNum n)
  then show ?case by (auto simp: prints_def tokens_num)
next
  case JNull
  show ?case using tokens_words by (simp add: prints_def del: append.simps)
next
  case (JBool b)
  show ?case using tokens_words by (simp add: prints_def del: append.simps)
qed

theorem json_parse_print: "ok_json max_nesting j \<Longrightarrow> json_parse (json_print j) = Some j"
proof -
  assume j: "ok_json max_nesting j"
  have "tokens (json_print j) = Some (toks j)"
    using tokens_print [OF j] by (simp add: prints_def) (metis append_Nil2 delim_simps(1) tokens_Nil)
  moreover have "json_run (toks j) (WantValue, []) = Some (After j, [])"
    using json_run_toks [OF j, of "[]"] by (simp add: reads_def)
  ultimately show ?thesis by (simp add: json_parse_def)
qed

corollary json_print_inject:
  "ok_json max_nesting i \<Longrightarrow> ok_json max_nesting j \<Longrightarrow> json_print i = json_print j \<longleftrightarrow> i = j"
  by (metis json_parse_print option.inject)

end
