(* ===== verification/RunTypes.thy ===== *)
theory RunTypes
  imports Json "HOL-Library.Multiset"
begin

text \<open>
  The vocabulary of a pipeline run, from \<open>internal/types\<close> (\<open>types.go\<close>, \<open>gate.go\<close>,
  \<open>run_owner.go\<close>, \<open>external_ci.go\<close>): run and step statuses, step names with the encoding of
  repository-declared gates, ACP agent aliases, gate identities and the validation of run
  owners and of the external-CI handoff. The string types of the code are strings here too,
  because stored and received values range over all strings.
\<close>

section \<open>Run status\<close>

type_synonym RunStatus = string

definition RunPending :: RunStatus where "RunPending = ''pending''"
definition RunRunning :: RunStatus where "RunRunning = ''running''"
definition RunQueued :: RunStatus where "RunQueued = ''queued''"
definition RunCompleted :: RunStatus where "RunCompleted = ''completed''"
definition RunFailed :: RunStatus where "RunFailed = ''failed''"
definition RunCancelled :: RunStatus where "RunCancelled = ''cancelled''"
definition RunCIMonitorInterrupted :: RunStatus where
  "RunCIMonitorInterrupted = ''ci_monitor_interrupted''"

lemmas run_status_defs = RunPending_def RunRunning_def RunQueued_def RunCompleted_def
  RunFailed_def RunCancelled_def RunCIMonitorInterrupted_def

definition RunStatus_Terminal :: "RunStatus \<Rightarrow> bool" where
  "RunStatus_Terminal s \<longleftrightarrow> s \<in> {RunCompleted, RunFailed, RunCancelled, RunCIMonitorInterrupted}"

definition RunStatus_Active :: "RunStatus \<Rightarrow> bool" where
  "RunStatus_Active s \<longleftrightarrow> s \<in> {RunQueued, RunPending, RunRunning}"

section \<open>Step names\<close>

type_synonym StepName = string

definition StepIntent :: StepName where "StepIntent = ''intent''"
definition StepRebase :: StepName where "StepRebase = ''rebase''"
definition StepReview :: StepName where "StepReview = ''review''"
definition StepTest :: StepName where "StepTest = ''test''"
definition StepDocument :: StepName where "StepDocument = ''document''"
definition StepLint :: StepName where "StepLint = ''lint''"
definition StepPush :: StepName where "StepPush = ''push''"
definition StepPR :: StepName where "StepPR = ''pr''"
definition StepCI :: StepName where "StepCI = ''ci''"

lemmas step_name_defs = StepIntent_def StepRebase_def StepReview_def StepTest_def
  StepDocument_def StepLint_def StepPush_def StepPR_def StepCI_def

definition normalizeStepName :: "StepName \<Rightarrow> StepName" where
  "normalizeStepName s = (if s = ''babysit'' then StepCI else s)"

text \<open>
  \<open>UnmarshalJSON\<close> reads a JSON string (null leaves the zero value); \<open>Scan\<close> reads a database
  value.
\<close>

definition StepName_UnmarshalJSON :: "string \<Rightarrow> StepName option" where
  "StepName_UnmarshalJSON data =
     (case json_parse data of
        Some (JStr raw) \<Rightarrow> Some (normalizeStepName raw)
      | Some JNull \<Rightarrow> Some (normalizeStepName [])
      | _ \<Rightarrow> None)"

datatype sql_value = SqlText string | SqlBytes string | SqlNull | SqlOther

definition StepName_Scan :: "sql_value \<Rightarrow> StepName option" where
  "StepName_Scan src =
     (case src of
        SqlText v \<Rightarrow> Some (normalizeStepName v)
      | SqlBytes v \<Rightarrow> Some (normalizeStepName v)
      | SqlNull \<Rightarrow> Some []
      | SqlOther \<Rightarrow> None)"

definition StepName_Value :: "StepName \<Rightarrow> sql_value" where
  "StepName_Value s = SqlText s"

definition AllSteps :: "StepName list" where
  "AllSteps = [StepIntent, StepRebase, StepReview, StepTest, StepDocument, StepLint, StepPush,
     StepPR, StepCI]"

definition IsCustomGateAnchor :: "StepName \<Rightarrow> bool" where
  "IsCustomGateAnchor s \<longleftrightarrow> s \<in> {StepRebase, StepReview, StepTest, StepDocument, StepLint}"

definition CustomGateAnchors :: "StepName list" where
  "CustomGateAnchors = filter IsCustomGateAnchor AllSteps"

definition CustomGateStepPrefix :: string where "CustomGateStepPrefix = ''gate.''"
definition CustomGateStepSeparator :: string where "CustomGateStepSeparator = ''.''"
definition MaxCustomGateLabelLen :: nat where "MaxCustomGateLabelLen = 40"

text \<open>
  The loop ranges over the runes of the label; a rune outside ASCII has only bytes above
  127, which the byte loop refuses as the rune loop refuses the rune.
\<close>

definition ValidCustomGateLabel :: "string \<Rightarrow> bool" where
  "ValidCustomGateLabel label \<longleftrightarrow>
     \<not> (label = [] \<or> MaxCustomGateLabelLen < length label) \<and>
     list_all
       (\<lambda>(i, r). (97 \<le> byte r \<and> byte r \<le> 122) \<or> (48 \<le> byte r \<and> byte r \<le> 57)
          \<or> (r = CHR ''-'' \<and> 0 < i \<and> i < length label - 1))
       (enumerate 0 label)"

definition CustomGateStepName :: "StepName \<Rightarrow> string \<Rightarrow> StepName" where
  "CustomGateStepName anchor name = CustomGateStepPrefix @ anchor @ CustomGateStepSeparator @ name"

definition decodeCustomGate :: "StepName \<Rightarrow> (StepName \<times> string) option" where
  "decodeCustomGate s =
     (case CutPrefix s CustomGateStepPrefix of
        None \<Rightarrow> None
      | Some rest \<Rightarrow>
          (case Cut rest CustomGateStepSeparator of
             None \<Rightarrow> None
           | Some (anchor, label) \<Rightarrow>
               if \<not> ValidCustomGateLabel label then None
               else if \<not> IsCustomGateAnchor anchor then None
               else Some (anchor, label)))"

definition IsCustomGate :: "StepName \<Rightarrow> bool" where
  "IsCustomGate s \<longleftrightarrow> decodeCustomGate s \<noteq> None"

definition CustomGateAnchor :: "StepName \<Rightarrow> StepName option" where
  "CustomGateAnchor s = map_option fst (decodeCustomGate s)"

definition CustomGateLabel :: "StepName \<Rightarrow> string" where
  "CustomGateLabel s = (case decodeCustomGate s of Some (_, label) \<Rightarrow> label | None \<Rightarrow> [])"

definition IsCoreStepName :: "StepName \<Rightarrow> bool" where
  "IsCoreStepName s \<longleftrightarrow> list_ex (\<lambda>step. step = s) AllSteps"

lemma decodeCustomGate_Some:
  "decodeCustomGate s = Some (a, l) \<Longrightarrow>
     s = CustomGateStepName a l \<and> IsCustomGateAnchor a \<and> ValidCustomGateLabel l"
  by (auto simp: decodeCustomGate_def CustomGateStepName_def CutPrefix_Some
      split: option.splits if_splits dest!: Cut_Some)

function Order :: "StepName \<Rightarrow> nat" where
  "Order s =
     (case CustomGateAnchor s of
        Some anchor \<Rightarrow> Order anchor
      | None \<Rightarrow>
          if s = StepIntent then 1
          else if s = StepRebase then 2
          else if s = StepReview then 3
          else if s = StepTest then 4
          else if s = StepDocument then 5
          else if s = StepLint then 6
          else if s = StepPush then 7
          else if s = StepPR then 8
          else if s = StepCI then 9
          else 0)"
  by pat_completeness auto
termination
  by (relation "measure length")
    (auto simp: CustomGateAnchor_def CustomGateStepName_def CustomGateStepPrefix_def
      dest: decodeCustomGate_Some)

declare Order.simps [simp del]

section \<open>Step status and approval actions\<close>

type_synonym StepStatus = string

definition StepStatusPending :: StepStatus where "StepStatusPending = ''pending''"
definition StepStatusRunning :: StepStatus where "StepStatusRunning = ''running''"
definition StepStatusAwaitingApproval :: StepStatus where
  "StepStatusAwaitingApproval = ''awaiting_approval''"
definition StepStatusFixing :: StepStatus where "StepStatusFixing = ''fixing''"
definition StepStatusFixReview :: StepStatus where "StepStatusFixReview = ''fix_review''"
definition StepStatusCompleted :: StepStatus where "StepStatusCompleted = ''completed''"
definition StepStatusSkipped :: StepStatus where "StepStatusSkipped = ''skipped''"
definition StepStatusFailed :: StepStatus where "StepStatusFailed = ''failed''"

type_synonym ApprovalAction = string

definition ActionApprove :: ApprovalAction where "ActionApprove = ''approve''"
definition ActionFix :: ApprovalAction where "ActionFix = ''fix''"
definition ActionSkip :: ApprovalAction where "ActionSkip = ''skip''"
definition ActionAbort :: ApprovalAction where "ActionAbort = ''abort''"
definition ActionAnswer :: ApprovalAction where "ActionAnswer = ''answer''"

section \<open>ACP aliases\<close>

type_synonym AgentName = string

record ACPAlias =
  acp_Name :: AgentName
  acp_Target :: string
  acp_DefaultCommand :: string

definition no_alias :: ACPAlias where
  "no_alias = \<lparr>acp_Name = [], acp_Target = [], acp_DefaultCommand = []\<rparr>"

definition acpAliases :: "ACPAlias list" where
  "acpAliases =
     [\<lparr>acp_Name = ''cursor'', acp_Target = ''cursor'', acp_DefaultCommand = ''cursor-agent acp''\<rparr>,
      \<lparr>acp_Name = ''devin'', acp_Target = ''devin'', acp_DefaultCommand = ''devin acp''\<rparr>]"

definition ACPAliasFor :: "AgentName \<Rightarrow> ACPAlias option" where
  "ACPAliasFor name = find (\<lambda>alias. acp_Name alias = name) acpAliases"

definition ACPAliasForTarget :: "string \<Rightarrow> ACPAlias option" where
  "ACPAliasForTarget target = find (\<lambda>alias. acp_Target alias = target) acpAliases"

definition ACPAliases :: "ACPAlias list" where
  "ACPAliases = acpAliases"

definition DefaultCommandBinary :: "ACPAlias \<Rightarrow> string" where
  "DefaultCommandBinary a =
     (case Fields (acp_DefaultCommand a) of [] \<Rightarrow> [] | f # _ \<Rightarrow> f)"

definition ACPTargetFor :: "AgentName \<Rightarrow> string option" where
  "ACPTargetFor name =
     (case ACPAliasFor name of
        Some alias \<Rightarrow> Some (acp_Target alias)
      | None \<Rightarrow>
          if \<not> HasPrefix name ''acp:'' then None
          else let target = TrimPrefix name ''acp:'' in
            if target = [] \<or> list_ex (\<lambda>c. byte c \<in> {32, 9, 13, 10}) target then None
            else Some target)"

definition ACPRawCommand :: "string \<Rightarrow> (string \<rightharpoonup> string) \<Rightarrow> string" where
  "ACPRawCommand target overrides =
     (let override = TrimSpace (case overrides target of Some v \<Rightarrow> v | None \<Rightarrow> []) in
      if override \<noteq> [] then override
      else (case ACPAliasForTarget target of
              Some alias \<Rightarrow> acp_DefaultCommand alias
            | None \<Rightarrow> []))"

section \<open>Gate identity\<close>

record GateIdentity =
  g_RunID :: string
  g_StepResultID :: string
  g_Step :: StepName
  g_RoundID :: string
  g_Nonce :: string
  g_Status :: StepStatus

definition SameGate :: "GateIdentity \<Rightarrow> GateIdentity \<Rightarrow> bool" where
  "SameGate g other \<longleftrightarrow>
     g_RunID g \<noteq> [] \<and> g_StepResultID g \<noteq> [] \<and> g_Step g \<noteq> [] \<and> g_RoundID g \<noteq> [] \<and>
     g_RunID g = g_RunID other \<and> g_StepResultID g = g_StepResultID other \<and>
     g_Step g = g_Step other \<and> g_RoundID g = g_RoundID other \<and>
     g_Nonce g \<noteq> [] \<and> g_Nonce g = g_Nonce other"

section \<open>Run owners and the external-CI handoff\<close>

text \<open>A control character: a C0 byte, DEL, or one of U+0080 to U+009F (C2 80 to C2 9F).\<close>

fun has_control :: "string \<Rightarrow> bool" where
  "has_control [] = False"
| "has_control (c # s) =
     (byte c < 32 \<or> byte c = 127
      \<or> (byte c = 194 \<and> s \<noteq> [] \<and> 128 \<le> byte (hd s) \<and> byte (hd s) \<le> 159)
      \<or> has_control s)"

text \<open>True is the nil error.\<close>

definition ValidateRunOwner :: "string \<Rightarrow> bool" where
  "ValidateRunOwner owner \<longleftrightarrow>
     \<not> (256 < length owner \<or> \<not> valid_utf8 owner \<or> has_control owner)"

datatype external_ci_error = UnsupportedOwner string | WrongSkips

definition ExternalCIOwnerControllerShipPR :: string where
  "ExternalCIOwnerControllerShipPR = ''controller-ship-pr''"

fun skips_ok :: "StepName set \<Rightarrow> StepName list \<Rightarrow> bool" where
  "skips_ok seen [] = True"
| "skips_ok seen (step # skips) =
     (if step \<noteq> StepPush \<and> step \<noteq> StepPR \<and> step \<noteq> StepCI \<or> step \<in> seen then False
      else skips_ok (insert step seen) skips)"

definition ValidateExternalCIOwnerRequest ::
  "string \<Rightarrow> StepName list \<Rightarrow> external_ci_error option" where
  "ValidateExternalCIOwnerRequest owner skips =
     (if owner = [] then None
      else if owner \<noteq> ExternalCIOwnerControllerShipPR then Some (UnsupportedOwner owner)
      else if length skips \<noteq> 3 then Some WrongSkips
      else if skips_ok {} skips then None else Some WrongSkips)"

section \<open>Properties\<close>

definition gate_byte :: "char \<Rightarrow> bool" where
  "gate_byte c \<longleftrightarrow> (97 \<le> byte c \<and> byte c \<le> 122) \<or> (48 \<le> byte c \<and> byte c \<le> 57) \<or> c = CHR ''-''"

lemma label_byte: "ValidCustomGateLabel l \<Longrightarrow> c \<in> set l \<Longrightarrow> gate_byte c"
  by (auto simp: ValidCustomGateLabel_def list_all_iff gate_byte_def in_set_conv_nth enumerate_eq_zip)

lemma label_length: "ValidCustomGateLabel l \<Longrightarrow> 0 < length l \<and> length l \<le> 40"
  by (auto simp: ValidCustomGateLabel_def MaxCustomGateLabelLen_def)

lemma label_edges: "ValidCustomGateLabel l \<Longrightarrow> hd l \<noteq> CHR ''-'' \<and> last l \<noteq> CHR ''-''"
proof -
  assume v: "ValidCustomGateLabel l"
  then have l: "l \<noteq> []" by (auto simp: ValidCustomGateLabel_def)
  have ok: "(97 \<le> byte (l ! i) \<and> byte (l ! i) \<le> 122) \<or> (48 \<le> byte (l ! i) \<and> byte (l ! i) \<le> 57)
      \<or> (l ! i = CHR ''-'' \<and> 0 < i \<and> i < length l - 1)" if "i < length l" for i
  proof -
    have "(i, l ! i) \<in> set (enumerate 0 l)"
      using that by (auto simp: in_set_enumerate_eq)
    with v show ?thesis by (fastforce simp: ValidCustomGateLabel_def list_all_iff)
  qed
  show "hd l \<noteq> CHR ''-'' \<and> last l \<noteq> CHR ''-''"
    using ok [of 0] ok [of "length l - 1"] l by (auto simp: hd_conv_nth last_conv_nth)
qed

lemma no_separator_in_anchor: "IsCustomGateAnchor a \<Longrightarrow> CHR ''.'' \<notin> set a"
  by (auto simp: IsCustomGateAnchor_def step_name_defs)

lemma decode_encode:
  "IsCustomGateAnchor a \<Longrightarrow> ValidCustomGateLabel l \<Longrightarrow> decodeCustomGate (CustomGateStepName a l) = Some (a, l)"
  using no_separator_in_anchor [of a]
  by (simp add: decodeCustomGate_def CustomGateStepName_def CustomGateStepSeparator_def)

text \<open>The encoding of a repository-declared gate is reversible and decoding owns its syntax: a
  name decodes to an anchor and a label exactly when it is the encoding of an allowed anchor
  and a well-formed label. So two gates never share a name, and a malformed name is no gate.
\<close>

theorem custom_gate_roundtrip:
  "decodeCustomGate s = Some (a, l) \<longleftrightarrow>
     s = CustomGateStepName a l \<and> IsCustomGateAnchor a \<and> ValidCustomGateLabel l"
  using decodeCustomGate_Some decode_encode by blast

lemma Contains_iff: "Contains s p \<longleftrightarrow> (\<exists>a b. s = a @ p @ b)"
proof (induction s)
  case (Cons c s)
  have "(\<exists>a b. c # s = a @ p @ b) \<longleftrightarrow> HasPrefix (c # s) p \<or> (\<exists>a b. s = a @ p @ b)"
    by (auto simp: HasPrefix_iff Cons_eq_append_conv)
  with Cons show ?case by simp
qed auto

lemma no_double_dot:
  assumes "CHR ''.'' \<notin> set x" "CHR ''.'' \<notin> set y" "x \<noteq> []" "y \<noteq> []"
  shows "\<not> Contains (''gate.'' @ x @ ''.'' @ y) ''..''"
proof
  assume "Contains (''gate.'' @ x @ ''.'' @ y) ''..''"
  then obtain a b where ab: "''gate.'' @ x @ ''.'' @ y = a @ ''..'' @ b" by (auto simp: Contains_iff)
  define w where "w = ''gate.'' @ x @ ''.'' @ y"
  have eq: "w = a @ ''..'' @ b" using ab by (simp add: w_def)
  have "SplitOn CHR ''.'' w = [''gate'', x, y]"
    using assms SplitOn_append [of "CHR ''.''" "''gate''" "x @ ''.'' @ y"]
      SplitOn_append [of "CHR ''.''" x y] SplitOn_none [of "CHR ''.''" y] by (simp add: w_def)
  moreover have "[] \<in> set (tl (SplitOn CHR ''.'' (a @ ''..'' @ b)))"
    by (induction a) (auto split: list.split dest: list.set_sel(2) [rotated])
  ultimately show False using assms eq by auto
qed

text \<open>A gate step name can be joined onto a path: it holds lower-case letters, digits, hyphens
  and dots only, and no two dots in a row, so it carries no separator and no traversal segment.
\<close>

theorem custom_gate_path_safe:
  assumes "IsCustomGate s"
  shows "(\<forall>c \<in> set s. gate_byte c \<or> c = CHR ''.'') \<and> CHR ''/'' \<notin> set s \<and> \<not> Contains s ''..''
    \<and> length s \<le> 54"
proof -
  obtain a l where al: "decodeCustomGate s = Some (a, l)"
    using assms by (auto simp: IsCustomGate_def)
  then have s: "s = ''gate.'' @ a @ ''.'' @ l" and a: "IsCustomGateAnchor a" and l: "ValidCustomGateLabel l"
    by (auto simp: CustomGateStepName_def CustomGateStepPrefix_def CustomGateStepSeparator_def
        dest: decodeCustomGate_Some)
  have ab: "\<forall>c \<in> set a. gate_byte c" and an: "a \<noteq> []" "length a \<le> 8"
    using a by (auto simp: IsCustomGateAnchor_def step_name_defs gate_byte_def)
  have dot: "\<not> gate_byte CHR ''.''" and slash: "\<not> gate_byte CHR ''/''"
    by (simp_all add: gate_byte_def)
  have "\<not> Contains s ''..''"
    unfolding s using no_double_dot [of a l] ab label_byte [OF l] dot an label_length [OF l] by auto
  moreover have g: "\<forall>c \<in> set s. gate_byte c \<or> c = CHR ''.''"
    unfolding s using ab label_byte [OF l] by (auto simp: gate_byte_def)
  moreover have "CHR ''/'' \<notin> set s" using g slash by auto
  ultimately show ?thesis using an label_length [OF l] by (auto simp: s)
qed

theorem custom_gate_path_safe_witness:
  "IsCustomGate ''gate.review.sec-1'' \<and> \<not> Contains ''gate.review.sec-1'' ''..''"
proof -
  have g: "IsCustomGate ''gate.review.sec-1''" by code_simp
  show ?thesis using g custom_gate_path_safe [OF g] by blast
qed

lemma core_not_gate: "IsCoreStepName s \<Longrightarrow> decodeCustomGate s = None"
  by (auto simp: IsCoreStepName_def AllSteps_def step_name_defs decodeCustomGate_def
      CustomGateStepPrefix_def CutPrefix_def HasPrefix_def)

lemma anchor_core: "IsCustomGateAnchor s \<Longrightarrow> IsCoreStepName s"
  by (auto simp: IsCustomGateAnchor_def IsCoreStepName_def AllSteps_def)

lemma Order_core: "decodeCustomGate s = None \<Longrightarrow>
  Order s = (if IsCoreStepName s then Suc (length (takeWhile (\<lambda>t. t \<noteq> s) AllSteps)) else 0)"
  by (subst Order.simps)
    (auto simp: CustomGateAnchor_def IsCoreStepName_def AllSteps_def step_name_defs)

lemma Order_gate:
  assumes "decodeCustomGate s = Some (a, l)"
  shows "Order s = Order a \<and> 2 \<le> Order a \<and> Order a \<le> 6"
proof -
  have "IsCustomGateAnchor a" using decodeCustomGate_Some [OF assms] by blast
  then have "2 \<le> Order a \<and> Order a \<le> 6"
    using Order_core [OF core_not_gate [OF anchor_core]]
    by (auto simp: IsCustomGateAnchor_def AllSteps_def step_name_defs IsCoreStepName_def)
  then show ?thesis using assms by (subst (1) Order.simps) (simp add: CustomGateAnchor_def)
qed

text \<open>The order of steps: a core step's order is its 1-based position in \<open>AllSteps\<close>, a gate
  shares the order of its anchor (so a restart from the anchor resets the gate too), and 0 is
  the order of exactly the names that are neither.
\<close>

theorem step_order:
  "map Order AllSteps = [1, 2, 3, 4, 5, 6, 7, 8, 9] \<and>
   (\<forall>s a l. decodeCustomGate s = Some (a, l) \<longrightarrow> Order s = Order a \<and> 2 \<le> Order a \<and> Order a \<le> 6) \<and>
   (\<forall>s. Order s = 0 \<longleftrightarrow> \<not> IsCoreStepName s \<and> \<not> IsCustomGate s)"
proof (intro conjI)
  have "Order s = Suc (length (takeWhile (\<lambda>t. t \<noteq> s) AllSteps))" if "IsCoreStepName s" for s
    using that Order_core [OF core_not_gate [OF that]] by simp
  then show "map Order AllSteps = [1, 2, 3, 4, 5, 6, 7, 8, 9]"
    by (simp add: IsCoreStepName_def AllSteps_def step_name_defs)
  show "\<forall>s. Order s = 0 \<longleftrightarrow> \<not> IsCoreStepName s \<and> \<not> IsCustomGate s"
  proof
    fix s
    show "Order s = 0 \<longleftrightarrow> \<not> IsCoreStepName s \<and> \<not> IsCustomGate s"
    proof (cases "decodeCustomGate s")
      case None
      then show ?thesis using Order_core [OF None] by (simp add: IsCustomGate_def)
    next
      case (Some al)
      then show ?thesis using Order_gate [of s "fst al" "snd al"] by (simp add: IsCustomGate_def)
    qed
  qed
qed (use Order_gate in blast)

theorem step_order_witness:
  "decodeCustomGate ''gate.lint.sast'' = Some (StepLint, ''sast'') \<and> Order ''gate.lint.sast'' = Order StepLint"
proof -
  have d: "decodeCustomGate ''gate.lint.sast'' = Some (StepLint, ''sast'')" by code_simp
  show ?thesis using d step_order by blast
qed

text \<open>No status is both terminal and active, and every status the code names is one of them.\<close>

theorem run_status_partition:
  "\<not> (RunStatus_Terminal s \<and> RunStatus_Active s) \<and>
   list_all (\<lambda>s. RunStatus_Terminal s \<or> RunStatus_Active s)
     [RunPending, RunRunning, RunQueued, RunCompleted, RunFailed, RunCancelled, RunCIMonitorInterrupted]"
  by (auto simp: RunStatus_Terminal_def RunStatus_Active_def run_status_defs)

text \<open>
  \<open>SameGate\<close> is a partial equivalence on gate identities: symmetric and transitive, and
  reflexive exactly on identities whose five authority fields are set; the status plays no role.
\<close>

theorem SameGate_per:
  "SameGate g h = SameGate h g \<and>
   (SameGate g h \<and> SameGate h k \<longrightarrow> SameGate g k) \<and>
   (SameGate g g \<longleftrightarrow> [] \<notin> {g_RunID g, g_StepResultID g, g_Step g, g_RoundID g, g_Nonce g}) \<and>
   SameGate (g\<lparr>g_Status := st\<rparr>) h = SameGate g h"
  by (auto simp: SameGate_def)

theorem SameGate_per_witness:
  "let g = \<lparr>g_RunID = ''r'', g_StepResultID = ''s'', g_Step = StepReview, g_RoundID = ''1'',
             g_Nonce = ''n'', g_Status = StepStatusAwaitingApproval\<rparr>;
       h = g\<lparr>g_Status := StepStatusFixReview\<rparr>
   in SameGate g h \<and> SameGate h g"
proof -
  define g where "g = \<lparr>g_RunID = ''r'', g_StepResultID = ''s'', g_Step = StepReview, g_RoundID = ''1'',
    g_Nonce = ''n'', g_Status = StepStatusAwaitingApproval\<rparr>"
  have "SameGate g (g\<lparr>g_Status := StepStatusFixReview\<rparr>)"
    by (simp add: g_def SameGate_def StepReview_def)
  then show ?thesis using SameGate_per [of g "g\<lparr>g_Status := StepStatusFixReview\<rparr>" g]
    by (simp add: g_def Let_def)
qed

lemma skips_ok_iff: "skips_ok seen skips \<longleftrightarrow>
    distinct skips \<and> set skips \<subseteq> {StepPush, StepPR, StepCI} \<and> set skips \<inter> seen = {}"
  by (induction skips arbitrary: seen) auto

text \<open>The external-CI handoff is admitted for exactly one owner and exactly the three skips push,
  pr and ci, each once and in any order; an ordinary run (no owner) is admitted as it is.
\<close>

theorem external_ci_owner_exact:
  "ValidateExternalCIOwnerRequest owner skips = None \<longleftrightarrow>
     owner = [] \<or> (owner = ExternalCIOwnerControllerShipPR \<and> mset skips = {#StepPush, StepPR, StepCI#})"
proof -
  have "length skips = 3 \<and> skips_ok {} skips \<longleftrightarrow> mset skips = {#StepPush, StepPR, StepCI#}"
  proof
    assume a: "length skips = 3 \<and> skips_ok {} skips"
    then have d: "distinct skips" "set skips \<subseteq> {StepPush, StepPR, StepCI}" by (auto simp: skips_ok_iff)
    have c3: "card {StepPush, StepPR, StepCI} = 3" by (simp add: step_name_defs)
    have "set skips = {StepPush, StepPR, StepCI}"
      using d a c3 by (intro card_seteq) (auto simp: distinct_card)
    also have "\<dots> = set [StepPush, StepPR, StepCI]" by simp
    finally have "mset skips = mset [StepPush, StepPR, StepCI]"
      using d by (intro set_eq_iff_mset_eq_distinct [THEN iffD1]) (auto simp: step_name_defs)
    then show "mset skips = {#StepPush, StepPR, StepCI#}" by simp
  next
    assume m: "mset skips = {#StepPush, StepPR, StepCI#}"
    then have e: "mset skips = mset [StepPush, StepPR, StepCI]" by simp
    have "distinct [StepPush, StepPR, StepCI]" by (simp add: step_name_defs)
    then have "distinct skips" using mset_eq_imp_distinct_iff [OF e] by blast
    moreover have "length skips = 3" using mset_eq_length [OF e] by simp
    moreover have "set skips = {StepPush, StepPR, StepCI}" using mset_eq_setD [OF e] by simp
    ultimately have "length skips = 3 \<and> set skips = {StepPush, StepPR, StepCI} \<and> distinct skips"
      by blast
    then show "length skips = 3 \<and> skips_ok {} skips" by (auto simp: skips_ok_iff)
  qed
  then show ?thesis
    by (auto simp: ValidateExternalCIOwnerRequest_def ExternalCIOwnerControllerShipPR_def)
qed

end
