(* ===== verification/Findings.thy ===== *)
theory Findings
  imports RunTypes
begin

text \<open>
  The findings vocabulary of \<open>internal/types/findings.go\<close> and \<open>finding_support.go\<close>: the
  records, the normalisation of identifiers, the selection helpers every gate goes through, the
  merge of a user's notes and added findings, the recognition of an acknowledged no-surface
  test gate and the shape check of a support reference.

  Slices that are marshalled with \<open>omitempty\<close> are lists; \<open>Findings.Items\<close> is not, so it is an
  optional list (nil prints as null). Pointers are options, and a \<open>map[string]bool\<close> that is
  only grown is the list of its keys. Functions that update a slice element in place return the
  updated payload.
\<close>

section \<open>Vocabulary\<close>

definition ActionNoOp :: string where "ActionNoOp = ''no-op''"
definition ActionAutoFix :: string where "ActionAutoFix = ''auto-fix''"
definition ActionAskUser :: string where "ActionAskUser = ''ask-user''"

definition FindingSeverityError :: string where "FindingSeverityError = ''error''"
definition FindingSeverityWarning :: string where "FindingSeverityWarning = ''warning''"
definition FindingSeverityInfo :: string where "FindingSeverityInfo = ''info''"

definition knownFindingSeverities :: "string list" where
  "knownFindingSeverities = [FindingSeverityError, FindingSeverityWarning, FindingSeverityInfo]"

definition knownFindingActions :: "string list" where
  "knownFindingActions = [ActionAutoFix, ActionAskUser, ActionNoOp]"

definition NormalizeFindingSeverity :: "string \<Rightarrow> string" where
  "NormalizeFindingSeverity severity = to_lower (TrimSpace severity)"

definition NormalizeFindingAction :: "string \<Rightarrow> string" where
  "NormalizeFindingAction action = to_lower (TrimSpace action)"

definition IsKnownFindingSeverity :: "string \<Rightarrow> bool" where
  "IsKnownFindingSeverity s \<longleftrightarrow> NormalizeFindingSeverity s \<in> set knownFindingSeverities"

definition IsKnownFindingAction :: "string \<Rightarrow> bool" where
  "IsKnownFindingAction a \<longleftrightarrow> NormalizeFindingAction a \<in> set knownFindingActions"

definition FindingSourceAgent :: string where "FindingSourceAgent = ''agent''"
definition FindingSourceUser :: string where "FindingSourceUser = ''user''"

definition FindingReviewScopeSource :: string where "FindingReviewScopeSource = ''source''"
definition FindingReviewScopePipelineOwnedDelivery :: string where
  "FindingReviewScopePipelineOwnedDelivery = ''pipeline-owned-delivery''"
definition FindingReviewScopeExternalDelivery :: string where
  "FindingReviewScopeExternalDelivery = ''external-delivery''"

definition FindingsRiskScopeSourceOrExternal :: string where
  "FindingsRiskScopeSourceOrExternal = ''source-or-external''"
definition FindingsRiskScopePipelineOwnedDelivery :: string where
  "FindingsRiskScopePipelineOwnedDelivery = ''pipeline-owned-delivery''"

definition FindingCategoryReviewQuestion :: string where
  "FindingCategoryReviewQuestion = ''review-question''"
definition FindingCategoryTestCommand :: string where
  "FindingCategoryTestCommand = ''test-command''"
definition FindingCategoryTestVerdict :: string where
  "FindingCategoryTestVerdict = ''test-verdict''"
definition FindingIDTestVerdict :: string where
  "FindingIDTestVerdict = ''test-verdict''"
definition FindingIDTestAgentTimeout :: string where
  "FindingIDTestAgentTimeout = ''test-agent-timeout''"
definition FindingIDTestAgentUnvalidatedWork :: string where
  "FindingIDTestAgentUnvalidatedWork = ''test-agent-unvalidated-work''"

lemmas finding_action_defs = ActionNoOp_def ActionAutoFix_def ActionAskUser_def
lemmas finding_severity_defs =
  FindingSeverityError_def FindingSeverityWarning_def FindingSeverityInfo_def
lemmas finding_const_defs = finding_action_defs finding_severity_defs FindingSourceAgent_def
  FindingSourceUser_def FindingCategoryReviewQuestion_def FindingCategoryTestCommand_def
  FindingCategoryTestVerdict_def FindingIDTestVerdict_def FindingIDTestAgentTimeout_def
  FindingIDTestAgentUnvalidatedWork_def

definition IsReservedTestVerdictID :: "string \<Rightarrow> bool" where
  "IsReservedTestVerdictID i \<longleftrightarrow> EqualFold (TrimSpace i) FindingIDTestVerdict"

definition IsReservedTestVerdictCategory :: "string \<Rightarrow> bool" where
  "IsReservedTestVerdictCategory c \<longleftrightarrow> EqualFold (TrimSpace c) FindingCategoryTestVerdict"

definition ScenarioResultPass :: string where "ScenarioResultPass = ''pass''"
definition ScenarioResultFail :: string where "ScenarioResultFail = ''fail''"
definition ScenarioResultUntested :: string where "ScenarioResultUntested = ''untested''"

definition TestVerdictGo :: string where "TestVerdictGo = ''go''"
definition TestVerdictNoGo :: string where "TestVerdictNoGo = ''no-go''"
definition TestVerdictInconclusive :: string where "TestVerdictInconclusive = ''inconclusive''"
definition TestVerdictNoSurface :: string where "TestVerdictNoSurface = ''no-surface''"

definition knownScenarioResults :: "string list" where
  "knownScenarioResults = [ScenarioResultPass, ScenarioResultFail, ScenarioResultUntested]"

definition knownTestVerdicts :: "string list" where
  "knownTestVerdicts = [TestVerdictGo, TestVerdictNoGo, TestVerdictInconclusive, TestVerdictNoSurface]"

definition IsKnownScenarioResult :: "string \<Rightarrow> bool" where
  "IsKnownScenarioResult r \<longleftrightarrow> r \<in> set knownScenarioResults"

definition IsKnownTestVerdict :: "string \<Rightarrow> bool" where
  "IsKnownTestVerdict v \<longleftrightarrow> v \<in> set knownTestVerdicts"

section \<open>Support references\<close>

definition FindingClaimSource :: string where "FindingClaimSource = ''source''"
definition FindingClaimTest :: string where "FindingClaimTest = ''test''"
definition FindingClaimCI :: string where "FindingClaimCI = ''ci''"
definition FindingClaimRuntime :: string where "FindingClaimRuntime = ''runtime''"

lemmas finding_claim_defs = FindingClaimSource_def FindingClaimTest_def FindingClaimCI_def
  FindingClaimRuntime_def

definition IsKnownFindingClaimType :: "string \<Rightarrow> bool" where
  "IsKnownFindingClaimType k \<longleftrightarrow>
     k \<in> {FindingClaimSource, FindingClaimTest, FindingClaimCI, FindingClaimRuntime}"

record FindingSourceSupport =
  src_Path :: string
  src_Line :: int
  src_Quote :: string
  src_HeadSHA :: string
  src_RunID :: string
  src_ObservedAt :: string

record FindingTestSupport =
  tst_Command :: string

record FindingCISupport =
  ci_CheckID :: string
  ci_HeadSHA :: string

record FindingRuntimeSupport =
  rt_Entity :: string
  rt_Transition :: string
  rt_TransitionAt :: string
  rt_ObservedAt :: string
  rt_Revision :: string

record FindingOwnerResult =
  or_ReviewFindingID :: string
  or_HeadSHA :: string
  or_TargetSHA :: string
  or_DiffDigest :: string
  or_Generation :: int
  or_ObservedAt :: string
  or_Disposition :: string
  or_ExitCode :: "int option"
  or_CheckState :: string

record FindingSupport =
  su_ClaimType :: string
  su_Source :: "FindingSourceSupport option"
  su_Test :: "FindingTestSupport option"
  su_CI :: "FindingCISupport option"
  su_Runtime :: "FindingRuntimeSupport option"
  su_OwnerResult :: "FindingOwnerResult option"

definition validFindingRevision :: "string \<Rightarrow> bool" where
  "validFindingRevision v \<longleftrightarrow>
     (if length v \<noteq> 40 \<and> length v \<noteq> 64 then False
      else list_all (\<lambda>c. is_digit c \<or> 97 \<le> byte c \<and> byte c \<le> 102) v)"

text \<open>
  \<open>time.Parse\<close> with the layout \<open>RFC3339Nano\<close>, as far as success goes: four-digit year,
  two-digit fields (the hour may have one digit), an optional fraction after a period or comma,
  and a zone that is Z or an offset of at most 24 hours and 60 minutes.
\<close>

definition two_digits :: "string \<Rightarrow> (nat \<times> string) option" where
  "two_digits s =
     (case s of
        a # b # r \<Rightarrow> if is_digit a \<and> is_digit b then Some (undec [a, b], r) else None
      | _ \<Rightarrow> None)"

definition hour_digits :: "string \<Rightarrow> (nat \<times> string) option" where
  "hour_digits s =
     (case two_digits s of
        Some r \<Rightarrow> Some r
      | None \<Rightarrow> (case s of a # r \<Rightarrow> if is_digit a then Some (undec [a], r) else None | [] \<Rightarrow> None))"

definition leap_year :: "nat \<Rightarrow> bool" where
  "leap_year y \<longleftrightarrow> y mod 4 = 0 \<and> (y mod 100 \<noteq> 0 \<or> y mod 400 = 0)"

definition days_in :: "nat \<Rightarrow> nat \<Rightarrow> nat" where
  "days_in m y =
     (if m = 2 then if leap_year y then 29 else 28
      else if m \<in> {4, 6, 9, 11} then 30 else 31)"

definition drop_fraction :: "string \<Rightarrow> string" where
  "drop_fraction s =
     (case s of
        p # d # r \<Rightarrow> if (p = CHR ''.'' \<or> p = CHR '','') \<and> is_digit d then dropWhile is_digit r else s
      | _ \<Rightarrow> s)"

definition zone_ok :: "string \<Rightarrow> bool" where
  "zone_ok s \<longleftrightarrow>
     (case s of
        [] \<Rightarrow> False
      | c # r \<Rightarrow>
          if c = CHR ''Z'' then r = []
          else (c = CHR ''+'' \<or> c = CHR ''-'') \<and>
            (case two_digits r of
               Some (h, CHR '':'' # r2) \<Rightarrow>
                 (case two_digits r2 of Some (m, []) \<Rightarrow> h \<le> 24 \<and> m \<le> 60 | _ \<Rightarrow> False)
             | _ \<Rightarrow> False))"

definition time_ok :: "string \<Rightarrow> bool" where
  "time_ok s \<longleftrightarrow>
     (case hour_digits s of
        Some (h, CHR '':'' # r) \<Rightarrow>
          (case two_digits r of
             Some (m, CHR '':'' # r2) \<Rightarrow>
               (case two_digits r2 of
                  Some (sec, r3) \<Rightarrow> h < 24 \<and> m < 60 \<and> sec < 60 \<and> zone_ok (drop_fraction r3)
                | None \<Rightarrow> False)
           | _ \<Rightarrow> False)
      | _ \<Rightarrow> False)"

definition validFindingObservationTime :: "string \<Rightarrow> bool" where
  "validFindingObservationTime v \<longleftrightarrow>
     4 \<le> length v \<and> list_all is_digit (take 4 v) \<and>
     (case drop 4 v of
        CHR ''-'' # r \<Rightarrow>
          (case two_digits r of
             Some (mo, CHR ''-'' # r2) \<Rightarrow>
               (case two_digits r2 of
                  Some (d, CHR ''T'' # r3) \<Rightarrow>
                    1 \<le> mo \<and> mo \<le> 12 \<and> 1 \<le> d \<and> d \<le> days_in mo (undec (take 4 v)) \<and> time_ok r3
                | _ \<Rightarrow> False)
           | _ \<Rightarrow> False)
      | _ \<Rightarrow> False)"

datatype support_error =
    UnknownClaimType | NotOneReference nat | SourceMissing | SourceIncomplete | SourceTime
  | TestIncomplete | CIIncomplete | RuntimeIncomplete

text \<open>\<open>FindingSupport.Validate\<close>: None is success.\<close>

definition FindingSupport_Validate :: "FindingSupport \<Rightarrow> support_error option" where
  "FindingSupport_Validate s =
     (if \<not> IsKnownFindingClaimType (su_ClaimType s) then Some UnknownClaimType
      else let present = length (filter (\<lambda>b. b)
             [su_Source s \<noteq> None, su_Test s \<noteq> None, su_CI s \<noteq> None, su_Runtime s \<noteq> None]) in
      if present \<noteq> 1 then Some (NotOneReference present)
      else if su_ClaimType s = FindingClaimSource then
        (case su_Source s of
           None \<Rightarrow> Some SourceMissing
         | Some r \<Rightarrow>
             if TrimSpace (src_Path r) = [] \<or> src_Line r < 1 \<or> TrimSpace (src_Quote r) = []
             then Some SourceIncomplete
             else if src_ObservedAt r \<noteq> [] \<and> \<not> validFindingObservationTime (src_ObservedAt r)
             then Some SourceTime else None)
      else if su_ClaimType s = FindingClaimTest then
        (case su_Test s of
           None \<Rightarrow> Some TestIncomplete
         | Some r \<Rightarrow> if TrimSpace (tst_Command r) = [] then Some TestIncomplete else None)
      else if su_ClaimType s = FindingClaimCI then
        (case su_CI s of
           None \<Rightarrow> Some CIIncomplete
         | Some r \<Rightarrow>
             if TrimSpace (ci_CheckID r) = [] \<or> TrimSpace (ci_HeadSHA r) = []
             then Some CIIncomplete else None)
      else
        (case su_Runtime s of
           None \<Rightarrow> Some RuntimeIncomplete
         | Some r \<Rightarrow>
             if TrimSpace (rt_Entity r) = [] \<or> TrimSpace (rt_Transition r) = []
                \<or> \<not> validFindingObservationTime (rt_TransitionAt r)
                \<or> \<not> validFindingObservationTime (rt_ObservedAt r)
                \<or> \<not> validFindingRevision (rt_Revision r)
             then Some RuntimeIncomplete else None))"

section \<open>Findings\<close>

record Finding =
  f_ID :: string
  f_Severity :: string
  f_File :: string
  f_Line :: int
  f_Description :: string
  f_Action :: string
  f_Source :: string
  f_UserInstructions :: string
  f_ReviewScope :: string
  f_Category :: string
  f_Check :: string
  f_CheckID :: string
  f_CheckApp :: string
  f_Support :: "FindingSupport option"

definition zero_finding :: Finding where
  "zero_finding = \<lparr> f_ID = [], f_Severity = [], f_File = [], f_Line = 0, f_Description = [],
     f_Action = [], f_Source = [], f_UserInstructions = [], f_ReviewScope = [], f_Category = [],
     f_Check = [], f_CheckID = [], f_CheckApp = [], f_Support = None \<rparr>"

record TestScenario =
  sc_Name :: string
  sc_Result :: string
  sc_Live :: bool
  sc_Evidence :: string
  sc_Reason :: string

record TestArtifact =
  ta_Kind :: string
  ta_Label :: string
  ta_Path :: string
  ta_URL :: string
  ta_Content :: string

record WithdrawnFinding =
  wf_ID :: string
  wf_Reason :: string

record Findings =
  fs_Items :: "Finding list option"
  fs_Summary :: string
  fs_ReviewedPaths :: "string list"
  fs_WithdrawnFindings :: "WithdrawnFinding list"
  fs_Tested :: "string list"
  fs_TestingSummary :: string
  fs_Artifacts :: "TestArtifact list"
  fs_Scenarios :: "TestScenario list"
  fs_Verdict :: string
  fs_TestedHeadSHA :: string
  fs_UnvalidatedSinceSHA :: string
  fs_RiskLevel :: string
  fs_RiskRationale :: string
  fs_RiskScope :: string

definition zero_findings :: Findings where
  "zero_findings = \<lparr> fs_Items = None, fs_Summary = [], fs_ReviewedPaths = [],
     fs_WithdrawnFindings = [], fs_Tested = [], fs_TestingSummary = [], fs_Artifacts = [],
     fs_Scenarios = [], fs_Verdict = [], fs_TestedHeadSHA = [], fs_UnvalidatedSinceSHA = [],
     fs_RiskLevel = [], fs_RiskRationale = [], fs_RiskScope = [] \<rparr>"

text \<open>\<open>len\<close> and \<open>range\<close> of the items.\<close>

abbreviation items :: "Findings \<Rightarrow> Finding list" where
  "items fs \<equiv> elems (fs_Items fs)"

definition IsNativeTestVerdictFinding :: "Finding \<Rightarrow> bool" where
  "IsNativeTestVerdictFinding f \<longleftrightarrow>
     f_ID f = FindingIDTestVerdict \<and> f_Category f = FindingCategoryTestVerdict \<and>
     f_Severity f = FindingSeverityWarning \<and> f_Action f = ActionAskUser \<and>
     f_Source f \<noteq> FindingSourceUser"

definition ActionOrDefault :: "Finding \<Rightarrow> string" where
  "ActionOrDefault f = (if f_Action f = [] then ActionAskUser else f_Action f)"

fun LiveScenarioCounts :: "TestScenario list \<Rightarrow> nat \<times> nat" where
  "LiveScenarioCounts [] = (0, 0)"
| "LiveScenarioCounts (s # ss) =
     (let (live, total) = LiveScenarioCounts ss in (if sc_Live s then Suc live else live, Suc total))"

definition NoLiveExercisableScenarios :: "TestScenario list \<Rightarrow> bool" where
  "NoLiveExercisableScenarios ss \<longleftrightarrow>
     (if ss = [] then False
      else list_all (\<lambda>s. \<not> (sc_Live s \<or> sc_Result s \<noteq> ScenarioResultUntested)) ss)"

definition FindingsMetadata :: "Findings \<Rightarrow> Findings" where
  "FindingsMetadata fs = fs\<lparr>fs_Items := None\<rparr>"

definition itoa :: "int \<Rightarrow> string" where
  "itoa v = (if v = 0 then ''0'' else if v > 0 then dec (nat v) else [])"

definition summarizeSelectedFindings :: "nat \<Rightarrow> string" where
  "summarizeSelectedFindings n =
     (if n = 0 then ''0 selected findings''
      else if n = 1 then ''1 selected finding''
      else dec n @ '' selected findings'')"

definition isSelectedFindingsSummary :: "string \<Rightarrow> bool" where
  "isSelectedFindingsSummary s \<longleftrightarrow>
     (if s = ''0 selected findings'' \<or> s = ''1 selected finding'' then True
      else if \<not> HasSuffix s '' selected findings'' then False
      else let count = TrimSuffix s '' selected findings'' in
        if count = [] then False else list_all is_digit count)"

end
