(* ===== verification/FindingOps.thy ===== *)
theory FindingOps
  imports Findings
begin

text \<open>
  The operations of \<open>internal/types/findings.go\<close> on a findings payload: unique identifiers
  (\<open>NormalizeFindings\<close>), selection and exclusion by identifier, the split by action, the merge
  of a user's instructions and added findings, and the acknowledgement of a no-surface test
  gate; with the properties each gate relies on.
\<close>

section \<open>Unique identifiers\<close>

lemma dec_suffix_inj: "inj (\<lambda>n. prefix @ c # dec n)"
  by (auto simp: inj_def)

definition numbered_id :: "string \<Rightarrow> nat \<Rightarrow> string" where
  "numbered_id prefix n = prefix @ ''-'' @ dec n"

lemma numbered_id_inj: "inj (numbered_id prefix)"
  by (auto simp: inj_def numbered_id_def)

lemma itoa_nat: "itoa (int n) = dec n"
  by (auto simp: itoa_def dec.simps [of 0] digit_def)

text \<open>The search for the first numbered identifier that is not used.\<close>

function free_id :: "string list \<Rightarrow> string \<Rightarrow> nat \<Rightarrow> string" where
  "free_id used prefix n =
     (let i = prefix @ ''-'' @ itoa (int n) in
      if i \<in> set used then free_id used prefix (Suc n) else i)"
  by auto
termination
proof (relation "measure (\<lambda>(used, prefix, n). card {m. n \<le> m \<and> numbered_id prefix m \<in> set used})", simp)
  fix used :: "string list" and prefix :: string and n x
  assume "x = prefix @ ''-'' @ itoa (int n)" "x \<in> set used"
  then show "((used, prefix, Suc n), used, prefix, n) \<in>
      measure (\<lambda>(used, prefix, n). card {m. n \<le> m \<and> numbered_id prefix m \<in> set used})"
    using unused_index_measure [OF numbered_id_inj, of prefix n used]
    by (simp add: itoa_nat numbered_id_def)
qed

declare free_id.simps [simp del]

fun trim_ids :: "string list \<Rightarrow> Finding list \<Rightarrow> Finding list \<times> string list" where
  "trim_ids used [] = ([], used)"
| "trim_ids used (x # xs) =
     (let i = TrimSpace (f_ID x) in
      if i \<in> set used
      then let (ys, used') = trim_ids used xs in (x\<lparr>f_ID := []\<rparr> # ys, used')
      else let (ys, used') = trim_ids (i # used) xs in (x\<lparr>f_ID := i\<rparr> # ys, used'))"

fun fill_ids :: "string \<Rightarrow> nat \<Rightarrow> string list \<Rightarrow> Finding list \<Rightarrow> Finding list" where
  "fill_ids prefix i used [] = []"
| "fill_ids prefix i used (x # xs) =
     (if f_ID x \<noteq> [] then x # fill_ids prefix (Suc i) used xs
      else let d = free_id used prefix (Suc i) in
        x\<lparr>f_ID := d\<rparr> # fill_ids prefix (Suc i) (d # used) xs)"

definition normalize_items :: "string \<Rightarrow> Finding list \<Rightarrow> Finding list" where
  "normalize_items prefix xs = (let (ys, used) = trim_ids [] xs in fill_ids prefix 0 used ys)"

definition NormalizeFindings :: "Findings \<Rightarrow> string \<Rightarrow> Findings" where
  "NormalizeFindings fs prefix = fs\<lparr>fs_Items := map_option (normalize_items prefix) (fs_Items fs)\<rparr>"

section \<open>Selection\<close>

definition FilterFindings :: "Findings \<Rightarrow> string list \<Rightarrow> Findings" where
  "FilterFindings fs ids =
     (if ids = [] then fs
      else let kept = filter (\<lambda>x. f_ID x \<in> set ids) (items fs);
               filtered = (FindingsMetadata fs)\<lparr>fs_Items := appended kept\<rparr> in
        if length kept \<noteq> length (items fs)
        then filtered\<lparr>fs_Summary := summarizeSelectedFindings (length kept)\<rparr>
        else filtered)"

definition ExcludeFindings :: "Findings \<Rightarrow> string list \<Rightarrow> Findings" where
  "ExcludeFindings fs ids =
     (if ids = [] then fs
      else (FindingsMetadata fs)\<lparr>fs_Items := appended (filter (\<lambda>x. f_ID x \<notin> set ids) (items fs))\<rparr>)"

definition AutoFixableFindings :: "Findings \<Rightarrow> Findings" where
  "AutoFixableFindings fs =
     (FindingsMetadata fs)\<lparr>fs_Items :=
        appended (filter (\<lambda>x. ActionOrDefault x = ActionAutoFix) (items fs))\<rparr>"

definition HasAskUserFindings :: "Findings \<Rightarrow> bool" where
  "HasAskUserFindings fs \<longleftrightarrow> list_ex (\<lambda>x. ActionOrDefault x = ActionAskUser) (items fs)"

definition HasActionableFindings :: "Findings \<Rightarrow> bool" where
  "HasActionableFindings fs \<longleftrightarrow> list_ex (\<lambda>x. ActionOrDefault x \<noteq> ActionNoOp) (items fs)"

definition HasReviewQuestion :: "Findings \<Rightarrow> bool" where
  "HasReviewQuestion fs \<longleftrightarrow> list_ex (\<lambda>x. f_Category x = FindingCategoryReviewQuestion) (items fs)"

section \<open>User overrides\<close>

function nextUserFindingID :: "string list \<Rightarrow> nat \<Rightarrow> string \<times> nat \<times> string list" where
  "nextUserFindingID used counter =
     (let candidate = ''user-'' @ itoa (int (Suc counter)) in
      if candidate \<in> set used then nextUserFindingID used (Suc counter)
      else (candidate, Suc counter, candidate # used))"
  by auto
termination
proof (relation "measure (\<lambda>(used, n). card {m. n \<le> m \<and> numbered_id ''user'' (Suc m) \<in> set used})", simp)
  fix used :: "string list" and n x
  have "inj (\<lambda>m. numbered_id ''user'' (Suc m))" by (auto simp: inj_def numbered_id_def)
  moreover assume "x = ''user-'' @ itoa (int (Suc n))" "x \<in> set used"
  ultimately show "((used, Suc n), used, n) \<in>
      measure (\<lambda>(used, n). card {m. n \<le> m \<and> numbered_id ''user'' (Suc m) \<in> set used})"
    using unused_index_measure [of "\<lambda>m. numbered_id ''user'' (Suc m)" n used]
    by (simp add: itoa_nat numbered_id_def del: of_nat_Suc)
qed

declare nextUserFindingID.simps [simp del]

definition apply_instructions :: "(string \<rightharpoonup> string) \<Rightarrow> Finding \<Rightarrow> Finding" where
  "apply_instructions instructions x =
     (case instructions (f_ID x) of Some note \<Rightarrow> x\<lparr>f_UserInstructions := note\<rparr> | None \<Rightarrow> x)"

text \<open>The fields an added finding gets before its identifier is settled.\<close>

definition stamp_added :: "Finding \<Rightarrow> Finding" where
  "stamp_added x =
     (let x1 = x\<lparr>f_Source := FindingSourceUser\<rparr>;
          x2 = (if f_Action x1 = [] then x1\<lparr>f_Action := ActionAutoFix\<rparr> else x1);
          x3 = x2\<lparr>f_ID := TrimSpace (f_ID x2)\<rparr> in
      if IsReservedTestVerdictCategory (f_Category x3) then x3\<lparr>f_Category := []\<rparr> else x3)"

fun add_findings :: "string list \<Rightarrow> nat \<Rightarrow> Finding list \<Rightarrow> Finding list" where
  "add_findings used counter [] = []"
| "add_findings used counter (x # xs) =
     (let y = stamp_added x in
      if f_ID y = [] \<or> f_ID y \<in> set used \<or> IsReservedTestVerdictID (f_ID y)
      then let (i, counter', used') = nextUserFindingID used counter in
        y\<lparr>f_ID := i\<rparr> # add_findings used' counter' xs
      else y # add_findings (f_ID y # used) counter xs)"

definition MergeUserOverrides ::
  "Findings \<Rightarrow> (string \<rightharpoonup> string) \<Rightarrow> Finding list \<Rightarrow> Findings" where
  "MergeUserOverrides fs instructions added =
     (let kept = map (apply_instructions instructions) (items fs);
          used = filter (\<lambda>i. i \<noteq> []) (map f_ID kept);
          result = (FindingsMetadata fs)\<lparr>fs_Items := appended (kept @ add_findings used 0 added)\<rparr> in
      if added \<noteq> [] \<and> isSelectedFindingsSummary (fs_Summary result)
      then result\<lparr>fs_Summary := summarizeSelectedFindings (length (items result))\<rparr>
      else result)"

section \<open>The no-surface acknowledgement\<close>

fun no_surface_parts :: "TestScenario list \<Rightarrow> string list" where
  "no_surface_parts [] = []"
| "no_surface_parts (s # ss) =
     (if sc_Result s \<noteq> ScenarioResultUntested then no_surface_parts ss
      else let name = TrimSpace (sc_Name s); reason = TrimSpace (sc_Reason s) in
        if name \<noteq> [] \<and> reason \<noteq> [] then (name @ '': '' @ reason) # no_surface_parts ss
        else if name \<noteq> [] then name # no_surface_parts ss
        else if reason \<noteq> [] then reason # no_surface_parts ss
        else no_surface_parts ss)"

definition NoSurfaceTestFinding :: "TestScenario list \<Rightarrow> Finding" where
  "NoSurfaceTestFinding ss =
     (let (live, total) = LiveScenarioCounts ss;
          parts = no_surface_parts ss;
          suffix = (if parts \<noteq> [] then ''; '' @ Join ''; '' parts else []) in
      zero_finding\<lparr>f_Severity := FindingSeverityWarning, f_Action := ActionAskUser,
        f_Description :=
          ''this change has no live-validatable surface; proceed without live validation? (''
          @ dec live @ '' of '' @ dec total @ '' scenarios were driven live against the product)''
          @ suffix\<rparr>)"

fun count_canonical :: "Finding \<Rightarrow> nat \<Rightarrow> Finding list \<Rightarrow> nat option" where
  "count_canonical want n [] = Some n"
| "count_canonical want n (x # xs) =
     (if f_ID x = FindingIDTestAgentTimeout \<or> f_ID x = FindingIDTestAgentUnvalidatedWork
         \<or> f_Category x = FindingCategoryTestCommand then None
      else if ActionOrDefault x = ActionNoOp then count_canonical want n xs
      else if x\<lparr>f_ID := []\<rparr> = want then count_canonical want (Suc n) xs
      else None)"

definition IsNoSurfaceTestAcknowledgment :: "Findings \<Rightarrow> bool" where
  "IsNoSurfaceTestAcknowledgment fs \<longleftrightarrow>
     (if fs_Verdict fs \<noteq> TestVerdictNoSurface \<or> \<not> NoLiveExercisableScenarios (fs_Scenarios fs)
         \<or> fs_UnvalidatedSinceSHA fs \<noteq> [] then False
      else if list_ex (\<lambda>s. TrimSpace (sc_Name s) = [] \<or> TrimSpace (sc_Reason s) = []) (fs_Scenarios fs)
      then False
      else case count_canonical (NoSurfaceTestFinding (fs_Scenarios fs)) 0 (items fs) of
          None \<Rightarrow> False
        | Some canonical \<Rightarrow> canonical > 0)"

section \<open>Lemmas\<close>

lemma free_id_spec: "\<exists>m \<ge> n. free_id used prefix n = prefix @ ''-'' @ dec m \<and> free_id used prefix n \<notin> set used"
proof (induction used prefix n rule: free_id.induct)
  case (1 used prefix n)
  let ?i = "prefix @ ''-'' @ itoa (int n)"
  show ?case
  proof (cases "?i \<in> set used")
    case True
    with 1 obtain m where "m \<ge> Suc n" "free_id used prefix (Suc n) = prefix @ ''-'' @ dec m"
      "free_id used prefix (Suc n) \<notin> set used" by auto
    moreover have "free_id used prefix n = free_id used prefix (Suc n)"
      using True by (subst free_id.simps) simp
    ultimately show ?thesis by (metis Suc_leD)
  next
    case False
    then have "free_id used prefix n = prefix @ ''-'' @ dec n"
      by (subst free_id.simps) (simp add: itoa_nat)
    with False show ?thesis by (auto simp: itoa_nat)
  qed
qed

lemma free_id_fresh [simp]: "free_id used prefix n \<notin> set used" "free_id used prefix n \<noteq> []"
  using free_id_spec [of n used prefix] by auto

lemma free_id_first: "numbered_id prefix n \<notin> set used \<Longrightarrow> free_id used prefix n = numbered_id prefix n"
  by (subst free_id.simps) (simp add: itoa_nat numbered_id_def)

lemma nextUserFindingID_spec:
  "nextUserFindingID used n = (i, n', used') \<Longrightarrow>
     i \<notin> set used \<and> used' = i # used \<and> n < n' \<and> i = ''user-'' @ dec n'"
proof (induction used n rule: nextUserFindingID.induct)
  case (1 used n)
  show ?case
  proof (cases "''user-'' @ itoa (int (Suc n)) \<in> set used")
    case True
    then have "nextUserFindingID used n = nextUserFindingID used (Suc n)"
      by (subst nextUserFindingID.simps) simp
    with 1 True show ?thesis by auto
  next
    case False
    then show ?thesis
      using 1(2) by (subst (asm) nextUserFindingID.simps) (auto simp: itoa_nat Let_def simp del: of_nat_Suc)
  qed
qed

lemma trim_ids_spec:
  assumes "trim_ids used xs = (ys, used')"
  shows "length ys = length xs \<and>
    set used' = set used \<union> (TrimSpace \<circ> f_ID) ` set xs \<and>
    (\<forall>i < length xs. ys ! i = (xs ! i)\<lparr>f_ID :=
       (if TrimSpace (f_ID (xs ! i)) \<in> set used \<union> (TrimSpace \<circ> f_ID) ` set (take i xs)
        then [] else TrimSpace (f_ID (xs ! i)))\<rparr>)"
  using assms
proof (induction used xs arbitrary: ys used' rule: trim_ids.induct)
  case (2 used x xs)
  show ?case
  proof (cases "TrimSpace (f_ID x) \<in> set used")
    case True
    then obtain zs where "trim_ids used xs = (zs, used')" "ys = x\<lparr>f_ID := []\<rparr> # zs"
      using 2(3) by (auto simp: Let_def split: prod.splits)
    then show ?thesis using 2(1) True by (auto simp: nth_Cons split: nat.split)
  next
    case False
    then obtain zs where "trim_ids (TrimSpace (f_ID x) # used) xs = (zs, used')"
      "ys = x\<lparr>f_ID := TrimSpace (f_ID x)\<rparr> # zs"
      using 2(3) by (auto simp: Let_def split: prod.splits)
    then show ?thesis using 2(2) False by (auto simp: nth_Cons split: nat.split)
  qed
qed auto

lemma trim_ids_distinct:
  assumes "trim_ids used xs = (ys, used')"
  shows "distinct (filter (\<lambda>i. i \<noteq> []) (map f_ID ys)) \<and>
    set (filter (\<lambda>i. i \<noteq> []) (map f_ID ys)) \<inter> set used = {} \<and>
    set (map f_ID ys) \<subseteq> insert [] (set used')"
  using assms
proof (induction used xs arbitrary: ys used' rule: trim_ids.induct)
  case (2 used x xs)
  define i where "i = TrimSpace (f_ID x)"
  show ?case
  proof (cases "i \<in> set used")
    case True
    then obtain zs where "trim_ids used xs = (zs, used')" "ys = x\<lparr>f_ID := []\<rparr> # zs"
      using 2(3) by (auto simp: Let_def i_def split: prod.splits)
    then show ?thesis using 2(1) [OF i_def True] by auto
  next
    case False
    then obtain zs where zs: "trim_ids (i # used) xs = (zs, used')" "ys = x\<lparr>f_ID := i\<rparr> # zs"
      using 2(3) by (auto simp: Let_def i_def split: prod.splits)
    have "set (i # used) \<subseteq> set used'" using trim_ids_spec [OF zs(1)] by blast
    then show ?thesis using 2(2) [OF i_def False zs(1)] zs(2) False by auto
  qed
qed auto

lemma trim_ids_id:
  assumes "distinct (map f_ID xs)" "\<forall>x \<in> set xs. TrimSpace (f_ID x) = f_ID x"
    "f_ID ` set xs \<inter> set used = {}"
  shows "\<exists>used'. trim_ids used xs = (xs, used')"
  using assms by (induction used xs rule: trim_ids.induct) auto

text \<open>What \<open>fill_ids\<close> does to one finding: an explicit identifier stays, a missing one is made up.\<close>

definition filled :: "string \<Rightarrow> string list \<Rightarrow> Finding \<Rightarrow> Finding \<Rightarrow> bool" where
  "filled prefix used x y \<longleftrightarrow> y = x\<lparr>f_ID := f_ID y\<rparr> \<and> (f_ID x \<noteq> [] \<longrightarrow> y = x) \<and>
     (f_ID x = [] \<longrightarrow> f_ID y \<notin> set used \<and> (\<exists>n. f_ID y = prefix @ ''-'' @ dec n))"

lemma filled_kept [simp]: "f_ID x \<noteq> [] \<Longrightarrow> filled prefix used x x"
  by (simp add: filled_def)

lemma filled_free [simp]:
  "f_ID x = [] \<Longrightarrow> filled prefix used x (x\<lparr>f_ID := free_id used prefix n\<rparr>)"
  using free_id_spec [of n used prefix] by (auto simp: filled_def)

lemma filled_avoids:
  assumes "list_all2 (filled prefix used) xs ys" "d \<notin> f_ID ` set xs" "d \<in> set used"
  shows "d \<notin> f_ID ` set ys"
  using assms by (induction rule: list_all2_induct) (auto simp: filled_def)

lemma fill_ids_spec:
  assumes "distinct (filter (\<lambda>i. i \<noteq> []) (map f_ID xs))"
    "set (filter (\<lambda>i. i \<noteq> []) (map f_ID xs)) \<subseteq> set used"
  shows "distinct (map f_ID (fill_ids prefix i used xs)) \<and>
    list_all (\<lambda>x. f_ID x \<noteq> []) (fill_ids prefix i used xs) \<and>
    list_all2 (filled prefix used) xs (fill_ids prefix i used xs)"
  using assms
proof (induction xs arbitrary: i used)
  case (Cons x xs)
  define u where "u = (if f_ID x = [] then [free_id used prefix (Suc i)] else [])"
  define ys where "ys = fill_ids prefix (Suc i) (u @ used) xs"
  have IH: "distinct (map f_ID ys)" "list_all (\<lambda>x. f_ID x \<noteq> []) ys"
    "list_all2 (filled prefix (u @ used)) xs ys"
    using Cons.IH [of "u @ used" "Suc i"] Cons.prems by (auto simp: ys_def split: if_splits)
  have weaker: "list_all2 (filled prefix used) xs ys"
    using IH(3) by (rule list_all2_mono) (auto simp: filled_def)
  show ?case
  proof (cases "f_ID x = []")
    case False
    then have "f_ID x \<notin> f_ID ` set xs" "f_ID x \<in> set (u @ used)"
      using Cons.prems by auto
    then have "f_ID x \<notin> f_ID ` set ys" using filled_avoids [OF IH(3)] by blast
    then show ?thesis
      using IH False weaker by (simp add: ys_def u_def)
  next
    case True
    define d where "d = free_id used prefix (Suc i)"
    have d: "d \<notin> set used" "d \<noteq> []" "\<exists>n. d = prefix @ ''-'' @ dec n"
      using free_id_spec [of "Suc i" used prefix] by (auto simp: d_def)
    have "d \<notin> f_ID ` set xs"
    proof
      assume "d \<in> f_ID ` set xs"
      then have "d \<in> set (filter (\<lambda>i. i \<noteq> []) (map f_ID (x # xs)))" using d(2) by auto
      then show False using Cons.prems(2) d(1) by blast
    qed
    then have "d \<notin> f_ID ` set ys"
      using filled_avoids [OF IH(3)] True by (simp add: u_def d_def)
    then show ?thesis
      using IH True weaker d by (simp add: ys_def u_def d_def Let_def)
  qed
qed simp

section \<open>Properties\<close>

definition explicit_id :: "Finding list \<Rightarrow> nat \<Rightarrow> bool" where
  "explicit_id xs i \<longleftrightarrow> TrimSpace (f_ID (xs ! i)) \<noteq> [] \<and>
     TrimSpace (f_ID (xs ! i)) \<notin> (\<lambda>x. TrimSpace (f_ID x)) ` set (take i xs)"

lemma normalize_items_spec:
  "distinct (map f_ID (normalize_items p xs)) \<and> [] \<notin> f_ID ` set (normalize_items p xs) \<and>
   length (normalize_items p xs) = length xs \<and>
   (\<forall>i < length xs. normalize_items p xs ! i = (xs ! i)\<lparr>f_ID := f_ID (normalize_items p xs ! i)\<rparr> \<and>
     (if explicit_id xs i then f_ID (normalize_items p xs ! i) = TrimSpace (f_ID (xs ! i))
      else (\<exists>n. f_ID (normalize_items p xs ! i) = p @ ''-'' @ dec n) \<and>
        f_ID (normalize_items p xs ! i) \<notin> (\<lambda>x. TrimSpace (f_ID x)) ` set xs))"
proof -
  obtain ys used where t: "trim_ids [] xs = (ys, used)" by fastforce
  have n: "normalize_items p xs = fill_ids p 0 used ys" by (simp add: normalize_items_def t)
  note a = trim_ids_spec [OF t, simplified] and d = trim_ids_distinct [OF t]
  have f: "distinct (map f_ID (fill_ids p 0 used ys))"
    "list_all (\<lambda>x. f_ID x \<noteq> []) (fill_ids p 0 used ys)"
    "list_all2 (filled p used) ys (fill_ids p 0 used ys)"
    using d fill_ids_spec [of ys used p 0] by auto
  have l: "length (normalize_items p xs) = length xs" using a f(3) by (auto simp: n dest: list_all2_lengthD)
  have "normalize_items p xs ! i = (xs ! i)\<lparr>f_ID := f_ID (normalize_items p xs ! i)\<rparr> \<and>
     (if explicit_id xs i then f_ID (normalize_items p xs ! i) = TrimSpace (f_ID (xs ! i))
      else (\<exists>n. f_ID (normalize_items p xs ! i) = p @ ''-'' @ dec n) \<and>
        f_ID (normalize_items p xs ! i) \<notin> (\<lambda>x. TrimSpace (f_ID x)) ` set xs)" if i: "i < length xs" for i
  proof -
    have fi: "filled p used (ys ! i) (normalize_items p xs ! i)"
      using f(3) i a by (auto simp: n list_all2_conv_all_nth)
    have "ys ! i = (xs ! i)\<lparr>f_ID := if explicit_id xs i then TrimSpace (f_ID (xs ! i)) else []\<rparr>"
      using a i by (auto simp: explicit_id_def o_def)
    then show ?thesis using fi a
      by (cases "explicit_id xs i") (auto simp: filled_def explicit_id_def o_def)
  qed
  moreover have "distinct (map f_ID (normalize_items p xs))" "[] \<notin> f_ID ` set (normalize_items p xs)"
    using f(1,2) by (auto simp: n list_all_iff)
  ultimately show ?thesis using l by blast
qed

lemma normalize_findings_items: "items (NormalizeFindings fs p) = normalize_items p (items fs)"
  by (cases "fs_Items fs") (simp_all add: NormalizeFindings_def normalize_items_def)

text \<open>\<open>NormalizeFindings\<close> makes identifiers a key: they are distinct and non-empty, the number,
  order and every other field of the findings are kept, the first finding with an explicit
  identifier keeps it (trimmed), and a made-up identifier is a numbered one that no finding of
  the payload, earlier or later, carries explicitly.
\<close>

theorem normalize_findings_unique:
  "distinct (map f_ID (items (NormalizeFindings fs p))) \<and>
   [] \<notin> f_ID ` set (items (NormalizeFindings fs p)) \<and>
   length (items (NormalizeFindings fs p)) = length (items fs) \<and>
   (\<forall>i < length (items fs).
      items (NormalizeFindings fs p) ! i =
        (items fs ! i)\<lparr>f_ID := f_ID (items (NormalizeFindings fs p) ! i)\<rparr> \<and>
      (if explicit_id (items fs) i
       then f_ID (items (NormalizeFindings fs p) ! i) = TrimSpace (f_ID (items fs ! i))
       else (\<exists>n. f_ID (items (NormalizeFindings fs p) ! i) = p @ ''-'' @ dec n) \<and>
         f_ID (items (NormalizeFindings fs p) ! i) \<notin> (\<lambda>x. TrimSpace (f_ID x)) ` set (items fs))) \<and>
   (NormalizeFindings fs p)\<lparr>fs_Items := None\<rparr> = FindingsMetadata fs"
proof -
  have "(NormalizeFindings fs p)\<lparr>fs_Items := None\<rparr> = FindingsMetadata fs"
    by (simp add: NormalizeFindings_def FindingsMetadata_def)
  then show ?thesis
    using normalize_items_spec [of p "items fs"] unfolding normalize_findings_items by blast
qed

theorem normalize_findings_unique_witness:
  "f_ID (items (NormalizeFindings (zero_findings\<lparr>fs_Items :=
       Some [zero_finding, zero_finding\<lparr>f_ID := '' r-1 ''\<rparr>]\<rparr>) ''r'') ! 1) = ''r-1''"
proof -
  let ?fs = "zero_findings\<lparr>fs_Items := Some [zero_finding, zero_finding\<lparr>f_ID := '' r-1 ''\<rparr>]\<rparr>"
  have r: "TrimSpace '' r-1 '' = ''r-1''" by code_simp
  then have e: "explicit_id (items ?fs) 1" and t: "TrimSpace (f_ID (items ?fs ! 1)) = ''r-1''"
    by (simp_all add: explicit_id_def zero_finding_def)
  have l: "(1::nat) < length (items ?fs)" by simp
  show ?thesis using normalize_findings_unique [of ?fs "''r''"] e t l by metis
qed

lemma trimmed_numbered_id:
  assumes "p = [] \<or> plain_byte (hd p)"
  shows "TrimSpace (p @ ''-'' @ dec n) = p @ ''-'' @ dec n"
proof (rule TrimSpace_plain)
  have "is_digit (last (dec n))" using dec_digits [of n] by simp
  then show "plain_byte (last (p @ ''-'' @ dec n))" by (auto simp: plain_byte_def is_digit_def)
  show "plain_byte (hd (p @ ''-'' @ dec n))" using assms by (auto simp: plain_byte_def hd_append)
qed simp

lemma fill_ids_none: "list_all (\<lambda>x. f_ID x \<noteq> []) xs \<Longrightarrow> fill_ids p i used xs = xs"
  by (induction xs arbitrary: i) auto

lemma normalize_items_id:
  assumes "distinct (map f_ID xs)" "\<forall>x \<in> set xs. TrimSpace (f_ID x) = f_ID x \<and> f_ID x \<noteq> []"
  shows "normalize_items p xs = xs"
proof -
  obtain used where "trim_ids [] xs = (xs, used)" using trim_ids_id [of xs "[]"] assms by auto
  then show ?thesis using assms by (simp add: normalize_items_def fill_ids_none list_all_iff)
qed

text \<open>Normalising a normalised payload changes nothing, for every prefix that is empty or starts
  with a printable ASCII byte (as all prefixes of the code do): identifiers shown at a gate
  survive being stored and read again.
\<close>

theorem normalize_findings_idempotent:
  assumes "p = [] \<or> plain_byte (hd p)"
  shows "NormalizeFindings (NormalizeFindings fs p) q = NormalizeFindings fs p"
proof (cases "fs_Items fs")
  case (Some xs)
  note n = normalize_items_spec [of p xs]
  have "TrimSpace (f_ID y) = f_ID y" if y: "y \<in> set (normalize_items p xs)" for y
  proof -
    obtain i where i: "i < length xs" "y = normalize_items p xs ! i"
      using y n by (metis in_set_conv_nth)
    with n have "if explicit_id xs i then f_ID y = TrimSpace (f_ID (xs ! i))
        else (\<exists>n. f_ID y = p @ ''-'' @ dec n) \<and> f_ID y \<notin> (\<lambda>x. TrimSpace (f_ID x)) ` set xs" by blast
    then have "f_ID y = TrimSpace (f_ID (xs ! i)) \<or> (\<exists>n. f_ID y = p @ ''-'' @ dec n)"
      by (cases "explicit_id xs i") simp_all
    then show ?thesis using trimmed_numbered_id [OF assms] by auto
  qed
  moreover have "f_ID y \<noteq> []" if "y \<in> set (normalize_items p xs)" for y
    using n that by (metis image_eqI)
  ultimately have "normalize_items q (normalize_items p xs) = normalize_items p xs"
    using n by (intro normalize_items_id) auto
  then show ?thesis using Some by (simp add: NormalizeFindings_def)
qed (simp add: NormalizeFindings_def)

theorem normalize_findings_idempotent_witness:
  "NormalizeFindings (NormalizeFindings (zero_findings\<lparr>fs_Items := Some [zero_finding]\<rparr>) ''review'') ''x''
    = NormalizeFindings (zero_findings\<lparr>fs_Items := Some [zero_finding]\<rparr>) ''review''"
proof -
  have "plain_byte (hd ''review'')" by (simp add: plain_byte_def)
  then show ?thesis by (intro normalize_findings_idempotent) blast
qed

lemma isSelected_summarize [simp]: "isSelectedFindingsSummary (summarizeSelectedFindings n)"
proof -
  have "\<not> (n = 0 \<or> n = 1) \<Longrightarrow> isSelectedFindingsSummary (dec n @ '' selected findings'')"
    using dec_digits [of n] TrimSuffix_append [of "dec n" "'' selected findings''"]
    by (auto simp: isSelectedFindingsSummary_def HasSuffix_iff list_all_iff simp del: TrimSuffix_append)
  then show ?thesis
    by (auto simp: summarizeSelectedFindings_def) (simp_all add: isSelectedFindingsSummary_def)
qed

lemma mset_filter_split: "mset (filter P xs) + mset (filter (\<lambda>x. \<not> P x) xs) = mset xs"
  by (simp add: mset_filter flip: multiset_partition)

text \<open>Selecting identifiers and excluding them split a payload: every finding is on exactly one
  side, in its order, and everything but the items (and, when the selection dropped something,
  the summary) is carried by both sides. An empty selection is no selection: both keep the
  payload as it is.
\<close>

theorem filter_exclude_partition:
  "FilterFindings fs [] = fs \<and> ExcludeFindings fs [] = fs \<and>
   (ids \<noteq> [] \<longrightarrow>
      mset (items (FilterFindings fs ids)) + mset (items (ExcludeFindings fs ids)) = mset (items fs) \<and>
      items (FilterFindings fs ids) = filter (\<lambda>x. f_ID x \<in> set ids) (items fs) \<and>
      items (ExcludeFindings fs ids) = filter (\<lambda>x. f_ID x \<notin> set ids) (items fs)) \<and>
   FindingsMetadata (ExcludeFindings fs ids) = FindingsMetadata fs \<and>
   (FindingsMetadata (FilterFindings fs ids) =
      (if ids = [] \<or> items (FilterFindings fs ids) = items fs then FindingsMetadata fs
       else (FindingsMetadata fs)\<lparr>fs_Summary :=
         summarizeSelectedFindings (length (items (FilterFindings fs ids)))\<rparr>))"
proof -
  have z: "FilterFindings fs [] = fs" "ExcludeFindings fs [] = fs"
    by (simp_all add: FilterFindings_def ExcludeFindings_def)
  have l: "length (filter P xs) = length xs \<longleftrightarrow> filter P xs = xs" for P :: "Finding \<Rightarrow> bool" and xs
    by (metis length_filter_less less_irrefl filter_id_conv)
  have a: "items (FilterFindings fs ids) = filter (\<lambda>x. f_ID x \<in> set ids) (items fs)"
    "items (ExcludeFindings fs ids) = filter (\<lambda>x. f_ID x \<notin> set ids) (items fs)" if "ids \<noteq> []"
    using that by (simp_all add: FilterFindings_def ExcludeFindings_def FindingsMetadata_def Let_def)
  have m: "FindingsMetadata (ExcludeFindings fs ids) = FindingsMetadata fs"
    by (simp add: ExcludeFindings_def FindingsMetadata_def)
  have n: "FindingsMetadata (FilterFindings fs ids) =
      (if ids = [] \<or> items (FilterFindings fs ids) = items fs then FindingsMetadata fs
       else (FindingsMetadata fs)\<lparr>fs_Summary :=
         summarizeSelectedFindings (length (items (FilterFindings fs ids)))\<rparr>)"
  proof (cases "ids = []")
    case False
    then show ?thesis unfolding a(1) [OF False]
      by (simp add: FilterFindings_def FindingsMetadata_def Let_def l)
  qed (simp add: z)
  show ?thesis
  proof (cases "ids = []")
    case False
    then show ?thesis
      using m n a mset_filter_split [of "\<lambda>x. f_ID x \<in> set ids" "items fs"] z by simp
  qed (use m z in simp)
qed

theorem filter_exclude_partition_witness:
  "mset (items (FilterFindings (zero_findings\<lparr>fs_Items := Some [zero_finding, zero_finding\<lparr>f_ID := ''a''\<rparr>]\<rparr>) [''a'']))
   + mset (items (ExcludeFindings (zero_findings\<lparr>fs_Items := Some [zero_finding, zero_finding\<lparr>f_ID := ''a''\<rparr>]\<rparr>) [''a'']))
   = mset [zero_finding, zero_finding\<lparr>f_ID := ''a''\<rparr>]"
  using filter_exclude_partition [of "zero_findings\<lparr>fs_Items :=
    Some [zero_finding, zero_finding\<lparr>f_ID := ''a''\<rparr>]\<rparr>" "[''a'']"] by simp

lemma user_id_not_reserved: "\<not> IsReservedTestVerdictID (''user-'' @ dec n)"
proof -
  have "is_digit (last (dec n))" using dec_digits [of n] by simp
  then have "TrimSpace (''user-'' @ dec n) = ''user-'' @ dec n"
    using TrimSpace_plain [of "''user-'' @ dec n"] by (auto simp: plain_byte_def is_digit_def)
  then show ?thesis
    by (simp add: IsReservedTestVerdictID_def EqualFold_def FindingIDTestVerdict_def)
      (subst (1 2) fold_case.simps, simp add: lower_char_def)
qed

lemma empty_category_not_reserved: "\<not> IsReservedTestVerdictCategory []"
  by (simp add: IsReservedTestVerdictCategory_def EqualFold_def FindingCategoryTestVerdict_def)
    (subst fold_case.simps, simp)

lemma stamp_added_fields:
  "f_Source (stamp_added x) = FindingSourceUser" "f_Action (stamp_added x) \<noteq> []"
  "f_ID (stamp_added x) = TrimSpace (f_ID x)"
  "\<not> IsReservedTestVerdictCategory (f_Category (stamp_added x))"
  by (auto simp: stamp_added_def Let_def finding_const_defs empty_category_not_reserved)

definition added_ok :: "string list \<Rightarrow> Finding \<Rightarrow> bool" where
  "added_ok used y \<longleftrightarrow> f_Source y = FindingSourceUser \<and> f_Action y \<noteq> [] \<and> f_ID y \<noteq> [] \<and>
     TrimSpace (f_ID y) = f_ID y \<and> f_ID y \<notin> set used \<and> \<not> IsReservedTestVerdictID (f_ID y) \<and>
     \<not> IsReservedTestVerdictCategory (f_Category y)"

lemma add_findings_spec:
  "length (add_findings used c xs) = length xs \<and> list_all (added_ok used) (add_findings used c xs) \<and>
   distinct (map f_ID (add_findings used c xs))"
proof (induction used c xs rule: add_findings.induct)
  case (2 used c x xs)
  define y where "y = stamp_added x"
  note y = stamp_added_fields [of x, folded y_def]
  show ?case
  proof (cases "f_ID y = [] \<or> f_ID y \<in> set used \<or> IsReservedTestVerdictID (f_ID y)")
    case True
    obtain i c' used' where n: "nextUserFindingID used c = (i, c', used')" by (metis prod_cases3)
    note s = nextUserFindingID_spec [OF n]
    have e: "add_findings used c (x # xs) = y\<lparr>f_ID := i\<rparr> # add_findings used' c' xs"
      using True n by (simp add: Let_def y_def)
    have "added_ok used (y\<lparr>f_ID := i\<rparr>)"
      using y s user_id_not_reserved [of c'] trimmed_numbered_id [of "''user''" c']
      by (auto simp: added_ok_def plain_byte_def)
    moreover have "list_all (added_ok used) (add_findings used' c' xs) \<and> i \<notin> f_ID ` set (add_findings used' c' xs)"
      using 2(1) [OF y_def True n [symmetric] refl] s by (auto simp: list_all_iff added_ok_def)
    ultimately show ?thesis
      using 2(1) [OF y_def True n [symmetric] refl] by (simp add: e del: add_findings.simps)
  next
    case False
    have e: "add_findings used c (x # xs) = y # add_findings (f_ID y # used) c xs"
      using False by (simp add: Let_def y_def)
    have "added_ok used y" using y False by (auto simp: added_ok_def)
    moreover have "list_all (added_ok used) (add_findings (f_ID y # used) c xs) \<and>
        f_ID y \<notin> f_ID ` set (add_findings (f_ID y # used) c xs)"
      using 2(2) [OF y_def False] by (auto simp: list_all_iff added_ok_def)
    ultimately show ?thesis using 2(2) [OF y_def False] by (simp add: e del: add_findings.simps)
  qed
qed simp

lemma apply_instructions_ID [simp]: "f_ID (apply_instructions ins x) = f_ID x"
  by (simp add: apply_instructions_def split: option.split)

lemma merge_items:
  "items (MergeUserOverrides fs ins added) = map (apply_instructions ins) (items fs) @
     add_findings (filter (\<lambda>i. i \<noteq> []) (map f_ID (items fs))) 0 added"
  by (simp add: MergeUserOverrides_def Let_def FindingsMetadata_def o_def)

text \<open>\<open>MergeUserOverrides\<close> keeps every existing finding in place (only its instructions may
  change) and appends one finding per added one; each of those is stamped as the user's, has an
  action, and carries a trimmed, non-empty identifier that is unique in the result and never
  the reserved one of the native test verdict, nor its category.
\<close>

theorem merge_user_overrides_sound:
  "take (length (items fs)) (items (MergeUserOverrides fs ins added)) =
     map (apply_instructions ins) (items fs) \<and>
   length (items (MergeUserOverrides fs ins added)) = length (items fs) + length added \<and>
   (\<forall>y \<in> set (drop (length (items fs)) (items (MergeUserOverrides fs ins added))).
      f_Source y = FindingSourceUser \<and> f_Action y \<noteq> [] \<and> f_ID y \<noteq> [] \<and>
      TrimSpace (f_ID y) = f_ID y \<and> f_ID y \<notin> f_ID ` set (items fs) \<and>
      \<not> IsReservedTestVerdictID (f_ID y) \<and> \<not> IsReservedTestVerdictCategory (f_Category y)) \<and>
   (distinct (map f_ID (items fs)) \<longrightarrow> distinct (map f_ID (items (MergeUserOverrides fs ins added))))"
proof -
  let ?used = "filter (\<lambda>i. i \<noteq> []) (map f_ID (items fs))"
  note a = add_findings_spec [of ?used 0 added]
  have d: "drop (length (items fs)) (items (MergeUserOverrides fs ins added)) = add_findings ?used 0 added"
    and t: "take (length (items fs)) (items (MergeUserOverrides fs ins added)) =
      map (apply_instructions ins) (items fs)"
    by (simp_all add: merge_items)
  have ok: "f_Source y = FindingSourceUser \<and> f_Action y \<noteq> [] \<and> f_ID y \<noteq> [] \<and>
      TrimSpace (f_ID y) = f_ID y \<and> f_ID y \<notin> f_ID ` set (items fs) \<and>
      \<not> IsReservedTestVerdictID (f_ID y) \<and> \<not> IsReservedTestVerdictCategory (f_Category y)"
    if "y \<in> set (add_findings ?used 0 added)" for y
  proof -
    have "added_ok ?used y" using that a by (simp add: list_all_iff)
    moreover have "f_ID y \<notin> f_ID ` set (items fs)" if "f_ID y \<noteq> []" "f_ID y \<notin> set ?used"
      using that by simp
    ultimately show ?thesis unfolding added_ok_def by blast
  qed
  then have "z \<notin> f_ID ` set (items fs)" if "z \<in> f_ID ` set (add_findings ?used 0 added)" for z
    using that by (elim imageE) simp
  then have "f_ID ` set (items fs) \<inter> f_ID ` set (add_findings ?used 0 added) = {}"
    unfolding disjoint_iff by metis
  then have "distinct (map f_ID (items (MergeUserOverrides fs ins added)))" if "distinct (map f_ID (items fs))"
    using that a by (simp add: merge_items o_def)
  moreover have "length (items (MergeUserOverrides fs ins added)) = length (items fs) + length added"
    using a by (simp add: merge_items)
  ultimately show ?thesis unfolding d t using ok by blast
qed

theorem merge_user_overrides_sound_witness:
  "distinct (map f_ID (items (MergeUserOverrides (zero_findings\<lparr>fs_Items := Some [zero_finding\<lparr>f_ID := ''user-1''\<rparr>]\<rparr>)
     [''user-1'' \<mapsto> ''note''] [zero_finding\<lparr>f_ID := ''Test-Verdict''\<rparr>, zero_finding])))"
proof -
  let ?fs = "zero_findings\<lparr>fs_Items := Some [zero_finding\<lparr>f_ID := ''user-1''\<rparr>]\<rparr>"
  have "distinct (map f_ID (items ?fs))" by simp
  then show ?thesis
    using merge_user_overrides_sound [of ?fs "[''user-1'' \<mapsto> ''note'']"
      "[zero_finding\<lparr>f_ID := ''Test-Verdict''\<rparr>, zero_finding]"] by blast
qed

lemma LiveScenarioCounts_total: "LiveScenarioCounts ss = (length (filter sc_Live ss), length ss)"
  by (induction ss) auto

lemma count_canonical_Some:
  "count_canonical want n xs = Some m \<Longrightarrow>
     m = n + length (filter (\<lambda>x. ActionOrDefault x \<noteq> ActionNoOp) xs) \<and>
     (\<forall>x \<in> set xs. f_ID x \<notin> {FindingIDTestAgentTimeout, FindingIDTestAgentUnvalidatedWork} \<and>
        f_Category x \<noteq> FindingCategoryTestCommand \<and>
        (ActionOrDefault x = ActionNoOp \<or> x\<lparr>f_ID := []\<rparr> = want))"
  by (induction xs arbitrary: n) (fastforce split: if_splits)+

lemma count_canonical_total:
  "\<forall>x \<in> set xs. f_ID x \<notin> {FindingIDTestAgentTimeout, FindingIDTestAgentUnvalidatedWork} \<and>
     f_Category x \<noteq> FindingCategoryTestCommand \<and>
     (ActionOrDefault x = ActionNoOp \<or> x\<lparr>f_ID := []\<rparr> = want) \<Longrightarrow>
   \<exists>m. count_canonical want n xs = Some m"
  by (induction xs arbitrary: n) auto

definition acknowledgeable :: "Finding \<Rightarrow> Finding \<Rightarrow> bool" where
  "acknowledgeable want x \<longleftrightarrow>
     f_ID x \<notin> {FindingIDTestAgentTimeout, FindingIDTestAgentUnvalidatedWork} \<and>
     f_Category x \<noteq> FindingCategoryTestCommand \<and>
     (ActionOrDefault x = ActionNoOp \<or> x\<lparr>f_ID := []\<rparr> = want)"

lemma count_canonical_positive:
  "(case count_canonical want 0 xs of None \<Rightarrow> False | Some m \<Rightarrow> m > 0) \<longleftrightarrow>
     list_all (acknowledgeable want) xs \<and> list_ex (\<lambda>x. ActionOrDefault x \<noteq> ActionNoOp) xs"
proof (cases "count_canonical want 0 xs")
  case None
  then have "\<not> list_all (acknowledgeable want) xs"
    using count_canonical_total [of xs want 0]
    unfolding list_all_iff acknowledgeable_def by (metis option.distinct(1))
  then show ?thesis using None by simp
next
  case (Some m)
  have "list_all (acknowledgeable want) xs"
    using count_canonical_Some [OF Some] by (simp add: list_all_iff acknowledgeable_def)
  moreover have "m > 0 \<longleftrightarrow> list_ex (\<lambda>x. ActionOrDefault x \<noteq> ActionNoOp) xs"
    using count_canonical_Some [OF Some] by (auto simp: list_ex_iff filter_empty_conv)
  ultimately show ?thesis using Some by simp
qed

lemma no_live_counts: "NoLiveExercisableScenarios ss \<Longrightarrow> LiveScenarioCounts ss = (0, length ss)"
  by (auto simp: LiveScenarioCounts_total NoLiveExercisableScenarios_def list_all_iff split: if_splits)

text \<open>A human's approval can release a no-surface test step exactly when the verdict is
  no-surface, there is at least one scenario, none was driven live and all are untested, named
  and explained, no work is unvalidated, and the only findings that are not no-ops are copies
  (up to the identifier) of the finding the test step derives from these scenarios, with at least
  one of them and no timeout, unvalidated-work or failed-command finding beside it.
\<close>

theorem no_surface_acknowledgment_exact:
  "IsNoSurfaceTestAcknowledgment fs \<longleftrightarrow>
     fs_Verdict fs = TestVerdictNoSurface \<and> fs_UnvalidatedSinceSHA fs = [] \<and> fs_Scenarios fs \<noteq> [] \<and>
     list_all (\<lambda>s. \<not> sc_Live s \<and> sc_Result s = ScenarioResultUntested \<and>
        TrimSpace (sc_Name s) \<noteq> [] \<and> TrimSpace (sc_Reason s) \<noteq> []) (fs_Scenarios fs) \<and>
     list_all (acknowledgeable (NoSurfaceTestFinding (fs_Scenarios fs))) (items fs) \<and>
     HasActionableFindings fs"
  unfolding IsNoSurfaceTestAcknowledgment_def count_canonical_positive HasActionableFindings_def
  by (auto simp: NoLiveExercisableScenarios_def list_all_iff list_ex_iff)

text \<open>
  The effective action: a finding without an action is never handed to the automatic fixer
  and always parks for a human; a payload whose findings carry only known actions needs nothing
  exactly when it has neither an ask-user nor an auto-fixable finding.
\<close>

theorem action_gate_closed:
  "set (items (AutoFixableFindings fs)) = {x \<in> set (items fs). f_Action x = ActionAutoFix} \<and>
   (list_ex (\<lambda>x. f_Action x = []) (items fs) \<longrightarrow> HasAskUserFindings fs) \<and>
   (list_all (\<lambda>x. f_Action x \<in> insert [] (set knownFindingActions)) (items fs) \<longrightarrow>
      (HasActionableFindings fs \<longleftrightarrow> HasAskUserFindings fs \<or> items (AutoFixableFindings fs) \<noteq> []))"
proof (intro conjI impI)
  assume "list_all (\<lambda>x. f_Action x \<in> insert [] (set knownFindingActions)) (items fs)"
  then have "ActionOrDefault x \<noteq> ActionNoOp \<longleftrightarrow> ActionOrDefault x = ActionAskUser \<or> ActionOrDefault x = ActionAutoFix"
    if "x \<in> set (items fs)" for x
    using that by (auto simp: ActionOrDefault_def knownFindingActions_def finding_action_defs list_all_iff)
  then show "HasActionableFindings fs \<longleftrightarrow> HasAskUserFindings fs \<or> items (AutoFixableFindings fs) \<noteq> []"
    by (auto simp: AutoFixableFindings_def FindingsMetadata_def HasAskUserFindings_def
        HasActionableFindings_def list_ex_iff filter_empty_conv)
qed (auto simp: AutoFixableFindings_def FindingsMetadata_def HasAskUserFindings_def
    ActionOrDefault_def finding_action_defs list_ex_iff split: if_splits)

theorem action_gate_closed_witness:
  "HasAskUserFindings (zero_findings\<lparr>fs_Items := Some [zero_finding]\<rparr>)"
proof -
  have "list_ex (\<lambda>x. f_Action x = []) (items (zero_findings\<lparr>fs_Items := Some [zero_finding]\<rparr>))"
    by (simp add: zero_finding_def)
  then show ?thesis using action_gate_closed by blast
qed

text \<open>
  A support reference passes \<open>Validate\<close> exactly when it refers to one observation, of the
  kind its claim names, with that observation's required fields present and well formed.
\<close>

theorem support_validate_exact:
  "FindingSupport_Validate s = None \<longleftrightarrow>
     (\<exists>r. su_ClaimType s = FindingClaimSource \<and> su_Source s = Some r \<and> su_Test s = None \<and>
        su_CI s = None \<and> su_Runtime s = None \<and> TrimSpace (src_Path r) \<noteq> [] \<and> 1 \<le> src_Line r \<and>
        TrimSpace (src_Quote r) \<noteq> [] \<and>
        (src_ObservedAt r = [] \<or> validFindingObservationTime (src_ObservedAt r))) \<or>
     (\<exists>r. su_ClaimType s = FindingClaimTest \<and> su_Source s = None \<and> su_Test s = Some r \<and>
        su_CI s = None \<and> su_Runtime s = None \<and> TrimSpace (tst_Command r) \<noteq> []) \<or>
     (\<exists>r. su_ClaimType s = FindingClaimCI \<and> su_Source s = None \<and> su_Test s = None \<and>
        su_CI s = Some r \<and> su_Runtime s = None \<and> TrimSpace (ci_CheckID r) \<noteq> [] \<and>
        TrimSpace (ci_HeadSHA r) \<noteq> []) \<or>
     (\<exists>r. su_ClaimType s = FindingClaimRuntime \<and> su_Source s = None \<and> su_Test s = None \<and>
        su_CI s = None \<and> su_Runtime s = Some r \<and> TrimSpace (rt_Entity r) \<noteq> [] \<and>
        TrimSpace (rt_Transition r) \<noteq> [] \<and> validFindingObservationTime (rt_TransitionAt r) \<and>
        validFindingObservationTime (rt_ObservedAt r) \<and> validFindingRevision (rt_Revision r))"
  unfolding FindingSupport_Validate_def IsKnownFindingClaimType_def finding_claim_defs Let_def
  by (cases "su_Source s"; cases "su_Test s"; cases "su_CI s"; cases "su_Runtime s") auto

end
