(* ===== verification/JsonUtf8.thy ===== *)
theory JsonUtf8
  imports Json
begin

text \<open>
  What the JSON reader hands on: every string and every key of a parsed value is valid UTF-8,
  whatever the bytes of the text were (invalid bytes and unpaired surrogates become U+FFFD).
\<close>

lemma valid_rune: "0 < rune_size r \<Longrightarrow> rune_size r = length r \<Longrightarrow> valid_utf8 r"
  using valid_utf8_append_rune [of r "[]"] by simp

lemma valid_rune_error [simp]: "valid_utf8 rune_error"
  by (simp add: rune_error_def rune_size_Cons lead_size_def rune_ok_def cont_byte_def second_ok_def)

lemma valid_utf8_one: "n < 128 \<Longrightarrow> valid_utf8 [of_byte n]"
  by (simp add: valid_utf8_ascii)

lemma div_range: "a \<le> n \<Longrightarrow> n < b \<Longrightarrow> a div k \<le> n div k \<and> n div k < b div k + 1" for n :: nat
  by (simp add: div_le_mono le_imp_less_Suc less_imp_le)

lemma valid_utf8_two:
  assumes "128 \<le> n" "n < 2048"
  shows "valid_utf8 [of_byte (192 + n div 64), of_byte (128 + n mod 64)]"
proof -
  define q r where "q = n div 64" and "r = n mod 64"
  have "2 \<le> q" "q \<le> 31" "r < 64" using assms by (auto simp: q_def r_def)
  then show ?thesis unfolding q_def [symmetric] r_def [symmetric]
    by (simp add: rune_size_Cons lead_size_def rune_ok_def cont_byte_def second_ok_def)
qed

lemma valid_utf8_three:
  assumes "2048 \<le> n" "n < 65536" "\<not> (55296 \<le> n \<and> n \<le> 57343)"
  shows "valid_utf8 [of_byte (224 + n div 4096), of_byte (128 + n div 64 mod 64), of_byte (128 + n mod 64)]"
proof -
  define a b c where "a = n div 4096" and "b = n div 64 mod 64" and "c = n mod 64"
  have "n div 64 = a * 64 + b"
    unfolding a_def b_def by (simp add: div_mult2_eq [of n 64 64, simplified])
  then have n: "n = a * 4096 + b * 64 + c" using div_mult_mod_eq [of n 64] by (simp add: c_def)
  have "a \<le> 15" "b < 64" "c < 64" using assms by (auto simp: a_def b_def c_def)
  moreover have "a = 0 \<longrightarrow> 32 \<le> b" "a = 13 \<longrightarrow> b \<le> 31" using assms n calculation by auto
  ultimately show ?thesis unfolding a_def [symmetric] b_def [symmetric] c_def [symmetric]
    by (auto simp: rune_size_Cons lead_size_def rune_ok_def cont_byte_def second_ok_def)
qed

lemma valid_utf8_four:
  assumes "65536 \<le> n" "n < 1114112"
  shows "valid_utf8 [of_byte (240 + n div 262144), of_byte (128 + n div 4096 mod 64),
    of_byte (128 + n div 64 mod 64), of_byte (128 + n mod 64)]"
proof -
  define a b c d where "a = n div 262144" and "b = n div 4096 mod 64" and "c = n div 64 mod 64"
    and "d = n mod 64"
  have n: "n div 4096 = a * 64 + b" unfolding a_def b_def
    by (simp add: div_mult2_eq [of n 4096 64, simplified])
  have "a \<le> 4" "b < 64" "c < 64" "d < 64" using assms by (auto simp: a_def b_def c_def d_def)
  moreover have "16 \<le> n div 4096" "n div 4096 \<le> 271" using assms by auto
  then have "a = 0 \<longrightarrow> 16 \<le> b" "a = 4 \<longrightarrow> b \<le> 15" using n by auto
  ultimately show ?thesis unfolding a_def [symmetric] b_def [symmetric] c_def [symmetric] d_def [symmetric]
    by (auto simp: rune_size_Cons lead_size_def rune_ok_def cont_byte_def second_ok_def)
qed

lemma valid_utf8_encode:
  assumes "n < 1114112" "\<not> (55296 \<le> n \<and> n \<le> 57343)"
  shows "valid_utf8 (utf8_encode n)"
proof -
  consider "n < 128" | "128 \<le> n" "n < 2048" | "2048 \<le> n" "n < 65536" | "65536 \<le> n" by linarith
  then show ?thesis
  proof cases
    case 1
    then show ?thesis unfolding utf8_encode_def using valid_utf8_one by (simp only: if_True)
  next
    case 2
    then have "utf8_encode n = [of_byte (192 + n div 64), of_byte (128 + n mod 64)]"
      by (simp add: utf8_encode_def)
    then show ?thesis using valid_utf8_two [OF 2] by (simp only:)
  next
    case 3
    then have "utf8_encode n =
        [of_byte (224 + n div 4096), of_byte (128 + n div 64 mod 64), of_byte (128 + n mod 64)]"
      by (simp add: utf8_encode_def)
    then show ?thesis using valid_utf8_three [OF 3 assms(2)] by (simp only:)
  next
    case 4
    then have "utf8_encode n = [of_byte (240 + n div 262144), of_byte (128 + n div 4096 mod 64),
        of_byte (128 + n div 64 mod 64), of_byte (128 + n mod 64)]"
      by (simp add: utf8_encode_def)
    then show ?thesis using valid_utf8_four [OF 4 assms(1)] by (simp only:)
  qed
qed

lemma hex_val_less: "hex_val c = Some x \<Longrightarrow> x < 16"
  by (auto simp: hex_val_def is_digit_def split: if_splits)

lemma hex4_less: "hex4 s = Some (n, r) \<Longrightarrow> n < 65536"
  by (auto simp: hex4_def split: list.splits option.splits dest!: hex_val_less)

lemma low_surrogate_range: "low_surrogate s = Some (m, r) \<Longrightarrow> 56320 \<le> m \<and> m \<le> 57343"
  by (auto simp: low_surrogate_def split: list.splits option.splits if_splits)

lemma lex_unicode_valid:
  assumes "lex_unicode s = Some (e, r)"
  shows "valid_utf8 e"
proof -
  obtain n t where n: "hex4 s = Some (n, t)" using assms by (auto simp: lex_unicode_def split: option.splits)
  note less = hex4_less [OF n]
  show ?thesis
  proof (cases "55296 \<le> n \<and> n \<le> 57343")
    case False
    then have "e = utf8_encode n" using assms n by (simp only: lex_unicode_def option.case prod.case if_False) simp
    then show ?thesis using less False valid_utf8_encode by simp
  next
    case True
    then consider "e = rune_error" | m t2 where "low_surrogate t = Some (m, t2)" "n \<le> 56319"
        "e = utf8_encode (65536 + (n - 55296) * 1024 + (m - 56320))"
      using assms n by (auto simp: lex_unicode_def split: option.splits if_splits)
    then show ?thesis
    proof cases
      case 2
      define k where "k = 65536 + (n - 55296) * 1024 + (m - 56320)"
      have "n - 55296 \<le> 1023" "m - 56320 \<le> 1023" using 2(2) low_surrogate_range [OF 2(1)] by auto
      then have "k < 1114112" "65536 \<le> k" by (auto simp: k_def)
      then show ?thesis using 2(3) valid_utf8_encode [of k] by (simp add: k_def)
    qed simp
  qed
qed

lemma lex_escape_valid: "lex_escape s = Some (e, r) \<Longrightarrow> valid_utf8 e"
  by (auto simp: lex_escape_def valid_utf8_ascii split: list.splits if_splits dest: lex_unicode_valid)

lemma lex_elem_valid:
  assumes "lex_elem s = Some (e, r)"
  shows "valid_utf8 e"
proof -
  obtain c t where s: "s = c # t" using assms by (cases s) (simp_all add: lex_elem_def)
  then consider "lex_escape t = Some (e, r)" | "e = [c]" "byte c < 128" | "e = rune_error"
    | "0 < rune_size s" "e = take (rune_size s) s"
    using assms by (auto simp: lex_elem_def Let_def split: if_splits)
  then show ?thesis
  proof cases
    case 4
    then show ?thesis using valid_rune [of e] rune_self [of s] by simp
  qed (auto simp: valid_utf8_ascii intro: lex_escape_valid)
qed

lemma lex_str_valid: "lex_str s = Some (t, r) \<Longrightarrow> valid_utf8 t"
proof (induction s arbitrary: t rule: lex_str.induct)
  case (1 s)
  from "1.prems" obtain c s' where s: "s = c # s'" by (cases s) (simp_all add: lex_str.simps [of "[]"])
  show ?case
  proof (cases "c = quote")
    case True
    then show ?thesis using 1 s by simp
  next
    case False
    then obtain e r' u where e: "lex_elem s = Some (e, r')" and u: "lex_str r' = Some (u, r)" "t = e @ u"
      using "1.prems" s by (subst (asm) lex_str.simps) (auto split: option.splits)
    then have "valid_utf8 u" using "1.IH" [OF s False e refl] by blast
    then show ?thesis using u lex_elem_valid [OF e] valid_utf8_append by blast
  qed
qed

fun token_valid :: "token \<Rightarrow> bool" where
  "token_valid (TStr s) = valid_utf8 s"
| "token_valid _ = True"

lemma lex_token_valid: "lex_token s = Some (t, r) \<Longrightarrow> token_valid t"
  by (auto simp: lex_token_def split: list.splits if_splits dest: lex_str_valid)

lemma tokens_valid: "tokens s = Some ts \<Longrightarrow> list_all token_valid ts"
proof (induction s arbitrary: ts rule: tokens.induct)
  case (1 s)
  show ?case
  proof (cases s)
    case (Cons c s')
    show ?thesis
    proof (cases "is_ws c")
      case True
      then show ?thesis using 1 Cons by (subst (asm) (3) tokens.simps) simp
    next
      case False
      then obtain t r u where "lex_token s = Some (t, r)" "tokens r = Some u" "ts = t # u"
        using "1.prems" Cons by (subst (asm) tokens.simps) (auto split: option.splits)
      then show ?thesis using "1.IH"(2) [OF Cons False _ refl] lex_token_valid by simp
    qed
  qed (use 1 in simp)
qed

fun json_valid :: "json \<Rightarrow> bool" where
  "json_valid (JStr s) = valid_utf8 s"
| "json_valid (JArr xs) = list_all json_valid xs"
| "json_valid (JObj ms) = list_all (\<lambda>(k, v). valid_utf8 k \<and> json_valid v) ms"
| "json_valid _ = True"

abbreviation members_valid :: "(string \<times> json) list \<Rightarrow> bool" where
  "members_valid ms \<equiv> list_all (\<lambda>(k, v). valid_utf8 k \<and> json_valid v) ms"

fun frame_valid :: "frame \<Rightarrow> bool" where
  "frame_valid (FArr xs) = list_all json_valid xs"
| "frame_valid (FObj ms k) = (members_valid ms \<and> valid_utf8 k)"

fun mode_valid :: "mode \<Rightarrow> bool" where
  "mode_valid (WantKey ms) = members_valid ms"
| "mode_valid (WantColon ms k) = (members_valid ms \<and> valid_utf8 k)"
| "mode_valid (After v) = json_valid v"
| "mode_valid _ = True"

definition machine_valid :: "machine \<Rightarrow> bool" where
  "machine_valid m \<longleftrightarrow> mode_valid (fst m) \<and> list_all frame_valid (snd m)"

lemma list_all_tl: "list_all P xs \<Longrightarrow> list_all P (tl xs)"
  by (cases xs) simp_all

lemma json_open_valid:
  "token_valid t \<Longrightarrow> list_all frame_valid st \<Longrightarrow> json_open t st = Some m \<Longrightarrow> machine_valid m"
  by (cases t) (auto simp: json_open_def machine_valid_def split: if_splits)

lemma json_step_valid:
  "token_valid t \<Longrightarrow> machine_valid m \<Longrightarrow> json_step t m = Some m' \<Longrightarrow> machine_valid m'"
proof (induction t m rule: json_step.induct)
  case (1 t st)
  then show ?case using json_open_valid by (simp add: machine_valid_def)
next
  case (2 t st)
  then show ?case using json_open_valid
    by (auto simp: machine_valid_def list_all_tl split: if_splits)
qed (auto simp: machine_valid_def list_all_tl split: token.splits if_splits)

lemma json_run_valid:
  "list_all token_valid ts \<Longrightarrow> machine_valid m \<Longrightarrow> json_run ts m = Some m' \<Longrightarrow> machine_valid m'"
  by (induction ts arbitrary: m) (auto split: option.splits dest: json_step_valid)

theorem json_parse_valid: "json_parse s = Some j \<Longrightarrow> json_valid j"
  by (auto simp: json_parse_def machine_valid_def split: option.splits mode.splits list.splits prod.splits
      dest!: tokens_valid json_run_valid)

end
