(* ===== verification/FindingsCodec.thy ===== *)
theory FindingsCodec
  imports FindingOps JsonUtf8
begin

text \<open>
  The JSON wire shape of findings: the structs of \<open>internal/types/findings.go\<close> and
  \<open>finding_support.go\<close> with their tags, \<open>ParseFindingsJSON\<close>, \<open>MarshalFindingsJSON\<close> and
  \<open>Finding.UnmarshalJSON\<close> with the legacy keys.

  A struct decoder is a table of keys and setters, run over the members of an object in order, as
  \<open>encoding/json\<close> does: a key matches exactly or else by case folding, unknown keys are skipped,
  null leaves a scalar as it is and clears a slice or a pointer, a later member overwrites an
  earlier one, and a value of the wrong kind fails the whole decoding. One quirk of the decoder is
  left out: the third occurrence of a key whose value is an array of objects may see the stale
  elements of the first.

  The theorems are the round trip of the codec and the interface \<open>findings_codec\<close> through which
  the pipeline uses it.
\<close>

section \<open>Struct decoders\<close>

type_synonym 's setter = "json \<Rightarrow> 's \<Rightarrow> 's option"
type_synonym 's fields = "(string \<times> 's setter) list"

definition find_field :: "'s fields \<Rightarrow> string \<Rightarrow> 's setter option" where
  "find_field fs k =
     (case map_of fs k of
        Some f \<Rightarrow> Some f
      | None \<Rightarrow> map_of (map (\<lambda>(n, f). (fold_case n, f)) fs) (fold_case k))"

fun dec_members :: "'s fields \<Rightarrow> (string \<times> json) list \<Rightarrow> 's \<Rightarrow> 's option" where
  "dec_members fs [] s = Some s"
| "dec_members fs ((k, v) # ms) s =
     (case find_field fs k of
        None \<Rightarrow> dec_members fs ms s
      | Some f \<Rightarrow> (case f v s of None \<Rightarrow> None | Some s' \<Rightarrow> dec_members fs ms s'))"

definition dec_struct :: "'s fields \<Rightarrow> json \<Rightarrow> 's \<Rightarrow> 's option" where
  "dec_struct fs j s = (case j of JObj ms \<Rightarrow> dec_members fs ms s | JNull \<Rightarrow> Some s | _ \<Rightarrow> None)"

definition str_field :: "(string \<Rightarrow> 's \<Rightarrow> 's) \<Rightarrow> 's setter" where
  "str_field upd j s = (case j of JStr v \<Rightarrow> Some (upd v s) | JNull \<Rightarrow> Some s | _ \<Rightarrow> None)"

definition bool_field :: "(bool \<Rightarrow> 's \<Rightarrow> 's) \<Rightarrow> 's setter" where
  "bool_field upd j s = (case j of JBool v \<Rightarrow> Some (upd v s) | JNull \<Rightarrow> Some s | _ \<Rightarrow> None)"

text \<open>\<open>strconv.ParseInt\<close> in base 10 with 64 bits, on the literal of a JSON number.\<close>

definition parse_int64 :: "string \<Rightarrow> int option" where
  "parse_int64 l =
     (let neg = HasPrefix l ''-''; ds = (if neg then drop 1 l else l) in
      if ds = [] \<or> \<not> list_all is_digit ds then None
      else let v = (if neg then - int (undec ds) else int (undec ds)) in
        if - (2 ^ 63) \<le> v \<and> v < 2 ^ 63 then Some v else None)"

definition int_field :: "(int \<Rightarrow> 's \<Rightarrow> 's) \<Rightarrow> 's setter" where
  "int_field upd j s =
     (case j of JNum l \<Rightarrow> map_option (\<lambda>v. upd v s) (parse_int64 l) | JNull \<Rightarrow> Some s | _ \<Rightarrow> None)"

definition ptr_field :: "('s \<Rightarrow> 'a option) \<Rightarrow> ('a option \<Rightarrow> 's \<Rightarrow> 's) \<Rightarrow> 'a \<Rightarrow> 'a setter \<Rightarrow> 's setter" where
  "ptr_field get upd zero d j s =
     (if j = JNull then Some (upd None s)
      else map_option (\<lambda>v. upd (Some v) s) (d j (case get s of Some v \<Rightarrow> v | None \<Rightarrow> zero)))"

fun dec_elems :: "'a \<Rightarrow> 'a setter \<Rightarrow> json list \<Rightarrow> 'a list \<Rightarrow> 'a list option" where
  "dec_elems zero d [] olds = Some []"
| "dec_elems zero d (j # js) olds =
     (case d j (case olds of [] \<Rightarrow> zero | x # _ \<Rightarrow> x) of
        None \<Rightarrow> None
      | Some y \<Rightarrow> map_option ((#) y) (dec_elems zero d js (tl olds)))"

definition slice_field ::
  "('s \<Rightarrow> 'a list) \<Rightarrow> ('a list option \<Rightarrow> 's \<Rightarrow> 's) \<Rightarrow> 'a \<Rightarrow> 'a setter \<Rightarrow> 's setter" where
  "slice_field get upd zero d j s =
     (case j of
        JArr js \<Rightarrow> map_option (\<lambda>xs. upd (Some xs) s) (dec_elems zero d js (get s))
      | JNull \<Rightarrow> Some (upd None s)
      | _ \<Rightarrow> None)"

definition str_elem :: "string setter" where
  "str_elem = str_field (\<lambda>v _. v)"

section \<open>The tables of the wire structs\<close>

definition zero_source :: FindingSourceSupport where
  "zero_source = \<lparr> src_Path = [], src_Line = 0, src_Quote = [], src_HeadSHA = [], src_RunID = [],
     src_ObservedAt = [] \<rparr>"

definition source_fields :: "FindingSourceSupport fields" where
  "source_fields =
     [(''path'', str_field (\<lambda>v s. s\<lparr>src_Path := v\<rparr>)),
      (''line'', int_field (\<lambda>v s. s\<lparr>src_Line := v\<rparr>)),
      (''quote'', str_field (\<lambda>v s. s\<lparr>src_Quote := v\<rparr>)),
      (''head_sha'', str_field (\<lambda>v s. s\<lparr>src_HeadSHA := v\<rparr>)),
      (''run_id'', str_field (\<lambda>v s. s\<lparr>src_RunID := v\<rparr>)),
      (''observed_at'', str_field (\<lambda>v s. s\<lparr>src_ObservedAt := v\<rparr>))]"

definition zero_test :: FindingTestSupport where
  "zero_test = \<lparr> tst_Command = [] \<rparr>"

definition test_fields :: "FindingTestSupport fields" where
  "test_fields = [(''command'', str_field (\<lambda>v s. s\<lparr>tst_Command := v\<rparr>))]"

definition zero_ci :: FindingCISupport where
  "zero_ci = \<lparr> ci_CheckID = [], ci_HeadSHA = [] \<rparr>"

definition ci_fields :: "FindingCISupport fields" where
  "ci_fields =
     [(''check_id'', str_field (\<lambda>v s. s\<lparr>ci_CheckID := v\<rparr>)),
      (''head_sha'', str_field (\<lambda>v s. s\<lparr>ci_HeadSHA := v\<rparr>))]"

definition zero_runtime :: FindingRuntimeSupport where
  "zero_runtime = \<lparr> rt_Entity = [], rt_Transition = [], rt_TransitionAt = [], rt_ObservedAt = [],
     rt_Revision = [] \<rparr>"

definition runtime_fields :: "FindingRuntimeSupport fields" where
  "runtime_fields =
     [(''entity'', str_field (\<lambda>v s. s\<lparr>rt_Entity := v\<rparr>)),
      (''transition'', str_field (\<lambda>v s. s\<lparr>rt_Transition := v\<rparr>)),
      (''transition_at'', str_field (\<lambda>v s. s\<lparr>rt_TransitionAt := v\<rparr>)),
      (''observed_at'', str_field (\<lambda>v s. s\<lparr>rt_ObservedAt := v\<rparr>)),
      (''revision'', str_field (\<lambda>v s. s\<lparr>rt_Revision := v\<rparr>))]"

definition zero_owner :: FindingOwnerResult where
  "zero_owner = \<lparr> or_ReviewFindingID = [], or_HeadSHA = [], or_TargetSHA = [], or_DiffDigest = [],
     or_Generation = 0, or_ObservedAt = [], or_Disposition = [], or_ExitCode = None,
     or_CheckState = [] \<rparr>"

definition owner_fields :: "FindingOwnerResult fields" where
  "owner_fields =
     [(''review_finding_id'', str_field (\<lambda>v s. s\<lparr>or_ReviewFindingID := v\<rparr>)),
      (''head_sha'', str_field (\<lambda>v s. s\<lparr>or_HeadSHA := v\<rparr>)),
      (''target_sha'', str_field (\<lambda>v s. s\<lparr>or_TargetSHA := v\<rparr>)),
      (''diff_digest'', str_field (\<lambda>v s. s\<lparr>or_DiffDigest := v\<rparr>)),
      (''generation'', int_field (\<lambda>v s. s\<lparr>or_Generation := v\<rparr>)),
      (''observed_at'', str_field (\<lambda>v s. s\<lparr>or_ObservedAt := v\<rparr>)),
      (''disposition'', str_field (\<lambda>v s. s\<lparr>or_Disposition := v\<rparr>)),
      (''exit_code'', ptr_field or_ExitCode (\<lambda>v s. s\<lparr>or_ExitCode := v\<rparr>) 0 (int_field (\<lambda>v _. v))),
      (''check_state'', str_field (\<lambda>v s. s\<lparr>or_CheckState := v\<rparr>))]"

definition zero_support :: FindingSupport where
  "zero_support = \<lparr> su_ClaimType = [], su_Source = None, su_Test = None, su_CI = None,
     su_Runtime = None, su_OwnerResult = None \<rparr>"

definition support_fields :: "FindingSupport fields" where
  "support_fields =
     [(''claim_type'', str_field (\<lambda>v s. s\<lparr>su_ClaimType := v\<rparr>)),
      (''source'', ptr_field su_Source (\<lambda>v s. s\<lparr>su_Source := v\<rparr>) zero_source (dec_struct source_fields)),
      (''test'', ptr_field su_Test (\<lambda>v s. s\<lparr>su_Test := v\<rparr>) zero_test (dec_struct test_fields)),
      (''ci'', ptr_field su_CI (\<lambda>v s. s\<lparr>su_CI := v\<rparr>) zero_ci (dec_struct ci_fields)),
      (''runtime'', ptr_field su_Runtime (\<lambda>v s. s\<lparr>su_Runtime := v\<rparr>) zero_runtime (dec_struct runtime_fields)),
      (''owner_result'',
         ptr_field su_OwnerResult (\<lambda>v s. s\<lparr>su_OwnerResult := v\<rparr>) zero_owner (dec_struct owner_fields))]"

text \<open>\<open>findingWire\<close> is a finding with the legacy flag.\<close>

record findingWire = Finding +
  fw_RequiresHumanReview :: "bool option"

definition zero_finding_wire :: findingWire where
  "zero_finding_wire = Finding.extend zero_finding \<lparr> fw_RequiresHumanReview = None \<rparr>"

definition finding_fields :: "findingWire fields" where
  "finding_fields =
     [(''id'', str_field (\<lambda>v s. s\<lparr>f_ID := v\<rparr>)),
      (''severity'', str_field (\<lambda>v s. s\<lparr>f_Severity := v\<rparr>)),
      (''file'', str_field (\<lambda>v s. s\<lparr>f_File := v\<rparr>)),
      (''line'', int_field (\<lambda>v s. s\<lparr>f_Line := v\<rparr>)),
      (''description'', str_field (\<lambda>v s. s\<lparr>f_Description := v\<rparr>)),
      (''action'', str_field (\<lambda>v s. s\<lparr>f_Action := v\<rparr>)),
      (''source'', str_field (\<lambda>v s. s\<lparr>f_Source := v\<rparr>)),
      (''user_instructions'', str_field (\<lambda>v s. s\<lparr>f_UserInstructions := v\<rparr>)),
      (''review_scope'', str_field (\<lambda>v s. s\<lparr>f_ReviewScope := v\<rparr>)),
      (''category'', str_field (\<lambda>v s. s\<lparr>f_Category := v\<rparr>)),
      (''check'', str_field (\<lambda>v s. s\<lparr>f_Check := v\<rparr>)),
      (''check_id'', str_field (\<lambda>v s. s\<lparr>f_CheckID := v\<rparr>)),
      (''check_app'', str_field (\<lambda>v s. s\<lparr>f_CheckApp := v\<rparr>)),
      (''support'', ptr_field f_Support (\<lambda>v s. s\<lparr>f_Support := v\<rparr>) zero_support (dec_struct support_fields)),
      (''requires_human_review'', ptr_field fw_RequiresHumanReview
         (\<lambda>v s. s\<lparr>fw_RequiresHumanReview := v\<rparr>) False (bool_field (\<lambda>v _. v)))]"

definition of_finding_wire :: "findingWire \<Rightarrow> Finding" where
  "of_finding_wire w =
     (let f = Finding.truncate w in
      if f_Action f = [] \<and> fw_RequiresHumanReview w \<noteq> None
      then f\<lparr>f_Action := if the (fw_RequiresHumanReview w) then ActionAskUser else ActionAutoFix\<rparr>
      else f)"

text \<open>\<open>Finding.UnmarshalJSON\<close> starts from a zero wire value whatever the finding held.\<close>

definition Finding_UnmarshalJSON :: "Finding setter" where
  "Finding_UnmarshalJSON j f = map_option of_finding_wire (dec_struct finding_fields j zero_finding_wire)"

definition zero_withdrawn :: WithdrawnFinding where
  "zero_withdrawn = \<lparr> wf_ID = [], wf_Reason = [] \<rparr>"

definition withdrawn_fields :: "WithdrawnFinding fields" where
  "withdrawn_fields =
     [(''id'', str_field (\<lambda>v s. s\<lparr>wf_ID := v\<rparr>)), (''reason'', str_field (\<lambda>v s. s\<lparr>wf_Reason := v\<rparr>))]"

definition zero_artifact :: TestArtifact where
  "zero_artifact = \<lparr> ta_Kind = [], ta_Label = [], ta_Path = [], ta_URL = [], ta_Content = [] \<rparr>"

definition artifact_fields :: "TestArtifact fields" where
  "artifact_fields =
     [(''kind'', str_field (\<lambda>v s. s\<lparr>ta_Kind := v\<rparr>)),
      (''label'', str_field (\<lambda>v s. s\<lparr>ta_Label := v\<rparr>)),
      (''path'', str_field (\<lambda>v s. s\<lparr>ta_Path := v\<rparr>)),
      (''url'', str_field (\<lambda>v s. s\<lparr>ta_URL := v\<rparr>)),
      (''content'', str_field (\<lambda>v s. s\<lparr>ta_Content := v\<rparr>))]"

definition zero_scenario :: TestScenario where
  "zero_scenario = \<lparr> sc_Name = [], sc_Result = [], sc_Live = False, sc_Evidence = [], sc_Reason = [] \<rparr>"

definition scenario_fields :: "TestScenario fields" where
  "scenario_fields =
     [(''name'', str_field (\<lambda>v s. s\<lparr>sc_Name := v\<rparr>)),
      (''result'', str_field (\<lambda>v s. s\<lparr>sc_Result := v\<rparr>)),
      (''live'', bool_field (\<lambda>v s. s\<lparr>sc_Live := v\<rparr>)),
      (''evidence'', str_field (\<lambda>v s. s\<lparr>sc_Evidence := v\<rparr>)),
      (''reason'', str_field (\<lambda>v s. s\<lparr>sc_Reason := v\<rparr>))]"

record findingsWire = Findings +
  fw_Legacy :: "Finding list option"

definition zero_findings_wire :: findingsWire where
  "zero_findings_wire = Findings.extend zero_findings \<lparr> fw_Legacy = None \<rparr>"

definition findings_fields :: "findingsWire fields" where
  "findings_fields =
     [(''findings'', slice_field (\<lambda>s. elems (fs_Items s)) (\<lambda>v s. s\<lparr>fs_Items := v\<rparr>) zero_finding Finding_UnmarshalJSON),
      (''items'', slice_field (\<lambda>s. elems (fw_Legacy s)) (\<lambda>v s. s\<lparr>fw_Legacy := v\<rparr>) zero_finding Finding_UnmarshalJSON),
      (''summary'', str_field (\<lambda>v s. s\<lparr>fs_Summary := v\<rparr>)),
      (''reviewed_paths'', slice_field fs_ReviewedPaths (\<lambda>v s. s\<lparr>fs_ReviewedPaths := elems v\<rparr>) [] str_elem),
      (''withdrawn_findings'', slice_field fs_WithdrawnFindings
         (\<lambda>v s. s\<lparr>fs_WithdrawnFindings := elems v\<rparr>) zero_withdrawn (dec_struct withdrawn_fields)),
      (''tested'', slice_field fs_Tested (\<lambda>v s. s\<lparr>fs_Tested := elems v\<rparr>) [] str_elem),
      (''testing_summary'', str_field (\<lambda>v s. s\<lparr>fs_TestingSummary := v\<rparr>)),
      (''artifacts'', slice_field fs_Artifacts
         (\<lambda>v s. s\<lparr>fs_Artifacts := elems v\<rparr>) zero_artifact (dec_struct artifact_fields)),
      (''scenarios'', slice_field fs_Scenarios
         (\<lambda>v s. s\<lparr>fs_Scenarios := elems v\<rparr>) zero_scenario (dec_struct scenario_fields)),
      (''verdict'', str_field (\<lambda>v s. s\<lparr>fs_Verdict := v\<rparr>)),
      (''tested_head_sha'', str_field (\<lambda>v s. s\<lparr>fs_TestedHeadSHA := v\<rparr>)),
      (''unvalidated_since_sha'', str_field (\<lambda>v s. s\<lparr>fs_UnvalidatedSinceSHA := v\<rparr>)),
      (''risk_level'', str_field (\<lambda>v s. s\<lparr>fs_RiskLevel := v\<rparr>)),
      (''risk_rationale'', str_field (\<lambda>v s. s\<lparr>fs_RiskRationale := v\<rparr>)),
      (''risk_scope'', str_field (\<lambda>v s. s\<lparr>fs_RiskScope := v\<rparr>))]"

definition of_findings_wire :: "findingsWire \<Rightarrow> Findings" where
  "of_findings_wire w =
     (Findings.truncate w)\<lparr>fs_Items :=
        if elems (fs_Items w) = [] \<and> elems (fw_Legacy w) \<noteq> [] then fw_Legacy w else fs_Items w\<rparr>"

definition ParseFindingsJSON :: "string \<Rightarrow> Findings option" where
  "ParseFindingsJSON raw =
     (case json_parse raw of
        None \<Rightarrow> None
      | Some j \<Rightarrow> map_option of_findings_wire (dec_struct findings_fields j zero_findings_wire))"

section \<open>Encoding\<close>

definition omit_str :: "string \<Rightarrow> string \<Rightarrow> (string \<times> json) list" where
  "omit_str k v = (if v = [] then [] else [(k, JStr v)])"

definition omit_int :: "string \<Rightarrow> int \<Rightarrow> (string \<times> json) list" where
  "omit_int k v = (if v = 0 then [] else [(k, JNum (Itoa v))])"

definition omit_list :: "string \<Rightarrow> ('a \<Rightarrow> json) \<Rightarrow> 'a list \<Rightarrow> (string \<times> json) list" where
  "omit_list k e xs = (if xs = [] then [] else [(k, JArr (map e xs))])"

definition omit_ptr :: "string \<Rightarrow> ('a \<Rightarrow> json) \<Rightarrow> 'a option \<Rightarrow> (string \<times> json) list" where
  "omit_ptr k e x = (case x of None \<Rightarrow> [] | Some v \<Rightarrow> [(k, e v)])"

definition enc_source :: "FindingSourceSupport \<Rightarrow> json" where
  "enc_source s = JObj
     ([(''path'', JStr (src_Path s)), (''line'', JNum (Itoa (src_Line s))),
       (''quote'', JStr (src_Quote s))]
      @ omit_str ''head_sha'' (src_HeadSHA s) @ omit_str ''run_id'' (src_RunID s)
      @ omit_str ''observed_at'' (src_ObservedAt s))"

definition enc_test :: "FindingTestSupport \<Rightarrow> json" where
  "enc_test s = JObj [(''command'', JStr (tst_Command s))]"

definition enc_ci :: "FindingCISupport \<Rightarrow> json" where
  "enc_ci s = JObj [(''check_id'', JStr (ci_CheckID s)), (''head_sha'', JStr (ci_HeadSHA s))]"

definition enc_runtime :: "FindingRuntimeSupport \<Rightarrow> json" where
  "enc_runtime s = JObj
     [(''entity'', JStr (rt_Entity s)), (''transition'', JStr (rt_Transition s)),
      (''transition_at'', JStr (rt_TransitionAt s)), (''observed_at'', JStr (rt_ObservedAt s)),
      (''revision'', JStr (rt_Revision s))]"

definition enc_owner :: "FindingOwnerResult \<Rightarrow> json" where
  "enc_owner s = JObj
     ([(''review_finding_id'', JStr (or_ReviewFindingID s)), (''head_sha'', JStr (or_HeadSHA s)),
       (''target_sha'', JStr (or_TargetSHA s)), (''diff_digest'', JStr (or_DiffDigest s)),
       (''generation'', JNum (Itoa (or_Generation s))), (''observed_at'', JStr (or_ObservedAt s)),
       (''disposition'', JStr (or_Disposition s))]
      @ omit_ptr ''exit_code'' (\<lambda>c. JNum (Itoa c)) (or_ExitCode s)
      @ omit_str ''check_state'' (or_CheckState s))"

definition enc_support :: "FindingSupport \<Rightarrow> json" where
  "enc_support s = JObj
     ([(''claim_type'', JStr (su_ClaimType s))]
      @ omit_ptr ''source'' enc_source (su_Source s) @ omit_ptr ''test'' enc_test (su_Test s)
      @ omit_ptr ''ci'' enc_ci (su_CI s) @ omit_ptr ''runtime'' enc_runtime (su_Runtime s)
      @ omit_ptr ''owner_result'' enc_owner (su_OwnerResult s))"

definition enc_finding :: "Finding \<Rightarrow> json" where
  "enc_finding f = JObj
     (omit_str ''id'' (f_ID f) @ [(''severity'', JStr (f_Severity f))]
      @ omit_str ''file'' (f_File f) @ omit_int ''line'' (f_Line f)
      @ [(''description'', JStr (f_Description f)), (''action'', JStr (f_Action f))]
      @ omit_str ''source'' (f_Source f) @ omit_str ''user_instructions'' (f_UserInstructions f)
      @ omit_str ''review_scope'' (f_ReviewScope f) @ omit_str ''category'' (f_Category f)
      @ omit_str ''check'' (f_Check f) @ omit_str ''check_id'' (f_CheckID f)
      @ omit_str ''check_app'' (f_CheckApp f) @ omit_ptr ''support'' enc_support (f_Support f))"

definition enc_withdrawn :: "WithdrawnFinding \<Rightarrow> json" where
  "enc_withdrawn w = JObj ([(''id'', JStr (wf_ID w))] @ omit_str ''reason'' (wf_Reason w))"

definition enc_artifact :: "TestArtifact \<Rightarrow> json" where
  "enc_artifact a = JObj
     (omit_str ''kind'' (ta_Kind a) @ [(''label'', JStr (ta_Label a))]
      @ omit_str ''path'' (ta_Path a) @ omit_str ''url'' (ta_URL a) @ omit_str ''content'' (ta_Content a))"

definition enc_scenario :: "TestScenario \<Rightarrow> json" where
  "enc_scenario s = JObj
     [(''name'', JStr (sc_Name s)), (''result'', JStr (sc_Result s)), (''live'', JBool (sc_Live s)),
      (''evidence'', JStr (sc_Evidence s)), (''reason'', JStr (sc_Reason s))]"

definition enc_findings :: "Findings \<Rightarrow> json" where
  "enc_findings fs = JObj
     ([(''findings'', case fs_Items fs of None \<Rightarrow> JNull | Some xs \<Rightarrow> JArr (map enc_finding xs)),
       (''summary'', JStr (fs_Summary fs))]
      @ omit_list ''reviewed_paths'' JStr (fs_ReviewedPaths fs)
      @ omit_list ''withdrawn_findings'' enc_withdrawn (fs_WithdrawnFindings fs)
      @ omit_list ''tested'' JStr (fs_Tested fs)
      @ omit_str ''testing_summary'' (fs_TestingSummary fs)
      @ omit_list ''artifacts'' enc_artifact (fs_Artifacts fs)
      @ omit_list ''scenarios'' enc_scenario (fs_Scenarios fs)
      @ omit_str ''verdict'' (fs_Verdict fs)
      @ omit_str ''tested_head_sha'' (fs_TestedHeadSHA fs)
      @ omit_str ''unvalidated_since_sha'' (fs_UnvalidatedSinceSHA fs)
      @ [(''risk_level'', JStr (fs_RiskLevel fs)), (''risk_rationale'', JStr (fs_RiskRationale fs))]
      @ omit_str ''risk_scope'' (fs_RiskScope fs))"

text \<open>
  \<open>json.Marshal\<close> cannot fail on these types (no channel, function, map with odd keys or float in
  them), so the error result of \<open>MarshalFindingsJSON\<close> never occurs and the encoder is total.
\<close>

definition MarshalFindingsJSON :: "Findings \<Rightarrow> string" where
  "MarshalFindingsJSON fs = json_print (enc_findings fs)"

section \<open>Reading back what was written\<close>

lemma find_field_exact: "map_of fs k = Some f \<Longrightarrow> find_field fs k = Some f"
  by (simp add: find_field_def)

named_theorems dec_rules \<open>one member of an object, by the shape of the encoder\<close>

lemma dec_end [dec_rules]: "s = r \<Longrightarrow> dec_members fs [] s = Some r"
  by simp

lemma dec_str [dec_rules]:
  "map_of fs k = Some (str_field upd) \<Longrightarrow> dec_members fs ms (upd v s) = r \<Longrightarrow>
   dec_members fs ((k, JStr v) # ms) s = r"
  by (simp add: find_field_exact str_field_def)

lemma dec_bool [dec_rules]:
  "map_of fs k = Some (bool_field upd) \<Longrightarrow> dec_members fs ms (upd v s) = r \<Longrightarrow>
   dec_members fs ((k, JBool v) # ms) s = r"
  by (simp add: find_field_exact bool_field_def)

lemma dec_omit_str [dec_rules]:
  "map_of fs k = Some (str_field upd) \<Longrightarrow> (v = [] \<Longrightarrow> upd v s = s) \<Longrightarrow>
   dec_members fs ms (upd v s) = r \<Longrightarrow> dec_members fs (omit_str k v @ ms) s = r"
  by (cases "v = []") (auto simp: omit_str_def intro!: dec_str simp del: dec_members.simps)

definition int64 :: "int \<Rightarrow> bool" where
  "int64 i \<longleftrightarrow> - (2 ^ 63) \<le> i \<and> i < 2 ^ 63"

lemma dec_no_minus: "HasPrefix (dec n) ''-'' = False"
proof -
  have "hd (dec n) \<noteq> CHR ''-''" using dec_digits [of n] hd_in_set [of "dec n"] by (auto simp: is_digit_def)
  then show ?thesis by (auto simp: HasPrefix_iff)
qed

lemma HasPrefix_Cons: "HasPrefix (c # s) (d # p) \<longleftrightarrow> c = d \<and> HasPrefix s p" "HasPrefix s []"
  by (auto simp: HasPrefix_def)

lemma parse_int64_Itoa: "int64 i \<Longrightarrow> parse_int64 (Itoa i) = Some i"
  using dec_digits [of "nat i"] dec_digits [of "nat (- i)"]
  by (cases "i < 0") (simp_all add: parse_int64_def Itoa_def int64_def Let_def dec_no_minus
      HasPrefix_Cons list_all_iff)

lemma dec_int [dec_rules]:
  "map_of fs k = Some (int_field upd) \<Longrightarrow> int64 v \<Longrightarrow> dec_members fs ms (upd v s) = r \<Longrightarrow>
   dec_members fs ((k, JNum (Itoa v)) # ms) s = r"
  by (simp add: find_field_exact int_field_def parse_int64_Itoa)

lemma dec_omit_int [dec_rules]:
  "map_of fs k = Some (int_field upd) \<Longrightarrow> int64 v \<Longrightarrow> (v = 0 \<Longrightarrow> upd v s = s) \<Longrightarrow>
   dec_members fs ms (upd v s) = r \<Longrightarrow> dec_members fs (omit_int k v @ ms) s = r"
  by (cases "v = 0") (auto simp: omit_int_def intro!: dec_int simp del: dec_members.simps)

lemma dec_omit_ptr [dec_rules]:
  "map_of fs k = Some (ptr_field get upd zero d) \<Longrightarrow> get s = None \<Longrightarrow>
   (\<And>x. v = Some x \<Longrightarrow> e x \<noteq> JNull \<and> d (e x) zero = Some x) \<Longrightarrow> (v = None \<Longrightarrow> upd v s = s) \<Longrightarrow>
   dec_members fs ms (upd v s) = r \<Longrightarrow> dec_members fs (omit_ptr k e v @ ms) s = r"
  by (cases v) (simp_all add: omit_ptr_def find_field_exact ptr_field_def)

lemma dec_elems_map: "(\<And>x. x \<in> set xs \<Longrightarrow> d (e x) zero = Some x) \<Longrightarrow> dec_elems zero d (map e xs) [] = Some xs"
  by (induction xs) simp_all

lemma dec_omit_list [dec_rules]:
  "map_of fs k = Some (slice_field get (\<lambda>v s. upd (elems v) s) zero d) \<Longrightarrow> get s = [] \<Longrightarrow>
   (\<And>x. x \<in> set v \<Longrightarrow> d (e x) zero = Some x) \<Longrightarrow> (v = [] \<Longrightarrow> upd v s = s) \<Longrightarrow>
   dec_members fs ms (upd v s) = r \<Longrightarrow> dec_members fs (omit_list k e v @ ms) s = r"
  by (cases "v = []") (simp_all add: omit_list_def find_field_exact slice_field_def dec_elems_map)

lemma dec_slice [dec_rules]:
  "map_of fs k = Some (slice_field get upd zero d) \<Longrightarrow> get s = [] \<Longrightarrow>
   (\<And>x. x \<in> set (elems v) \<Longrightarrow> d (e x) zero = Some x) \<Longrightarrow>
   dec_members fs ms (upd v s) = r \<Longrightarrow>
   dec_members fs ((k, case v of None \<Rightarrow> JNull | Some xs \<Rightarrow> JArr (map e xs)) # ms) s = r"
  by (cases v) (simp_all add: find_field_exact slice_field_def dec_elems_map)

lemmas dec_ends [dec_rules] = dec_omit_str [where ms = "[]", unfolded append_Nil2]
  dec_omit_ptr [where ms = "[]", unfolded append_Nil2]

lemmas dec_unfolds = dec_struct_def json.case append.simps append_assoc

declare dec_members.simps [simp del]

lemma dec_source [simp]:
  assumes "int64 (src_Line x)"
  shows "dec_struct source_fields (enc_source x) zero_source = Some x"
  unfolding enc_source_def dec_unfolds
  by (rule dec_rules, (simp add: source_fields_def zero_source_def assms)+)+

lemma dec_test [simp]: "dec_struct test_fields (enc_test x) zero_test = Some x"
  unfolding enc_test_def dec_unfolds
  by (rule dec_rules, (simp add: test_fields_def zero_test_def)+)+

lemma dec_ci [simp]: "dec_struct ci_fields (enc_ci x) zero_ci = Some x"
  unfolding enc_ci_def dec_unfolds
  by (rule dec_rules, (simp add: ci_fields_def zero_ci_def)+)+

lemma dec_runtime [simp]: "dec_struct runtime_fields (enc_runtime x) zero_runtime = Some x"
  unfolding enc_runtime_def dec_unfolds
  by (rule dec_rules, (simp add: runtime_fields_def zero_runtime_def)+)+

lemma dec_exit_code: "int64 c \<Longrightarrow> int_field (\<lambda>v _. v) (JNum (Itoa c)) z = Some c"
  by (simp add: int_field_def parse_int64_Itoa)

definition int64_owner :: "FindingOwnerResult \<Rightarrow> bool" where
  "int64_owner x \<longleftrightarrow> int64 (or_Generation x) \<and> (\<forall>c. or_ExitCode x = Some c \<longrightarrow> int64 c)"

lemma dec_owner [simp]:
  assumes "int64_owner x"
  shows "dec_struct owner_fields (enc_owner x) zero_owner = Some x"
  unfolding enc_owner_def dec_unfolds
  by (rule dec_rules, (simp add: owner_fields_def zero_owner_def assms [unfolded int64_owner_def] dec_exit_code)+)+

definition int64_support :: "FindingSupport \<Rightarrow> bool" where
  "int64_support x \<longleftrightarrow> (\<forall>s. su_Source x = Some s \<longrightarrow> int64 (src_Line s)) \<and>
     (\<forall>r. su_OwnerResult x = Some r \<longrightarrow> int64_owner r)"

lemma enc_not_null [simp]: "enc_source a \<noteq> JNull" "enc_test b \<noteq> JNull" "enc_ci c \<noteq> JNull"
  "enc_runtime d \<noteq> JNull" "enc_owner e \<noteq> JNull" "enc_support f \<noteq> JNull"
  by (simp_all add: enc_source_def enc_test_def enc_ci_def enc_runtime_def enc_owner_def enc_support_def)

lemma dec_support [simp]:
  assumes "int64_support x"
  shows "dec_struct support_fields (enc_support x) zero_support = Some x"
  unfolding enc_support_def dec_unfolds
  by (rule dec_rules, (simp add: support_fields_def zero_support_def assms [unfolded int64_support_def])+)+

definition int64_finding :: "Finding \<Rightarrow> bool" where
  "int64_finding x \<longleftrightarrow> int64 (f_Line x) \<and> (\<forall>s. f_Support x = Some s \<longrightarrow> int64_support s)"

lemma dec_finding_wire:
  assumes "int64_finding x"
  shows "dec_struct finding_fields (enc_finding x) zero_finding_wire =
    Some (Finding.extend x \<lparr> fw_RequiresHumanReview = None \<rparr>)"
  unfolding enc_finding_def dec_unfolds
  by (rule dec_rules, (simp add: finding_fields_def zero_finding_wire_def zero_finding_def
      Finding.defs assms [unfolded int64_finding_def])+)+

lemma dec_finding [simp]:
  assumes "int64_finding x"
  shows "Finding_UnmarshalJSON (enc_finding x) y = Some x"
  by (simp add: Finding_UnmarshalJSON_def dec_finding_wire [OF assms] of_finding_wire_def Finding.defs)

lemma dec_withdrawn [simp]: "dec_struct withdrawn_fields (enc_withdrawn x) zero_withdrawn = Some x"
  unfolding enc_withdrawn_def dec_unfolds
  by (rule dec_rules, (simp add: withdrawn_fields_def zero_withdrawn_def)+)+

lemma dec_artifact [simp]: "dec_struct artifact_fields (enc_artifact x) zero_artifact = Some x"
  unfolding enc_artifact_def dec_unfolds
  by (rule dec_rules, (simp add: artifact_fields_def zero_artifact_def)+)+

lemma dec_scenario [simp]: "dec_struct scenario_fields (enc_scenario x) zero_scenario = Some x"
  unfolding enc_scenario_def dec_unfolds
  by (rule dec_rules, (simp add: scenario_fields_def zero_scenario_def)+)+

lemma dec_str_elem [simp]: "str_elem (JStr v) z = Some v"
  by (simp add: str_elem_def str_field_def)

definition int64_findings :: "Findings \<Rightarrow> bool" where
  "int64_findings fs \<longleftrightarrow> list_all int64_finding (items fs)"

lemma dec_findings_wire:
  assumes "int64_findings x"
  shows "dec_struct findings_fields (enc_findings x) zero_findings_wire =
    Some (Findings.extend x \<lparr> fw_Legacy = None \<rparr>)"
  unfolding enc_findings_def dec_unfolds
  by (rule dec_rules, (simp add: findings_fields_def zero_findings_wire_def zero_findings_def
      Findings.defs assms [unfolded int64_findings_def list_all_iff])+)+

section \<open>The written value is a JSON value\<close>

definition ok_members :: "nat \<Rightarrow> (string \<times> json) list \<Rightarrow> bool" where
  "ok_members d ms \<longleftrightarrow> (\<forall>m \<in> set ms. valid_utf8 (fst m) \<and> ok_json d (snd m))"

lemma ok_members_simps [simp]:
  "ok_members d []"
  "ok_members d ((k, v) # ms) \<longleftrightarrow> valid_utf8 k \<and> ok_json d v \<and> ok_members d ms"
  "ok_members d (ms @ ns) \<longleftrightarrow> ok_members d ms \<and> ok_members d ns"
  by (auto simp: ok_members_def)

lemma ok_JObj: "0 < d \<Longrightarrow> ok_members (d - 1) ms \<Longrightarrow> ok_json d (JObj ms)"
  by (simp add: ok_members_def)

lemma ok_omit_str [simp]: "valid_utf8 k \<Longrightarrow> valid_utf8 v \<Longrightarrow> ok_members d (omit_str k v)"
  by (simp add: omit_str_def)

lemma ok_omit_int [simp]: "valid_utf8 k \<Longrightarrow> ok_members d (omit_int k v)"
  by (auto simp: omit_int_def)

lemma ok_omit_list [simp]:
  "valid_utf8 k \<Longrightarrow> 0 < d \<Longrightarrow> (\<And>x. x \<in> set v \<Longrightarrow> ok_json (d - 1) (e x)) \<Longrightarrow> ok_members d (omit_list k e v)"
  by (auto simp: omit_list_def)

lemma ok_key [simp]: "list_all (\<lambda>c. byte c < 128) k \<Longrightarrow> valid_utf8 k"
  by (simp add: valid_utf8_ascii list_all_iff)

definition utf8_source :: "FindingSourceSupport \<Rightarrow> bool" where
  "utf8_source s \<longleftrightarrow> list_all valid_utf8
     [src_Path s, src_Quote s, src_HeadSHA s, src_RunID s, src_ObservedAt s]"

definition utf8_runtime :: "FindingRuntimeSupport \<Rightarrow> bool" where
  "utf8_runtime s \<longleftrightarrow> list_all valid_utf8
     [rt_Entity s, rt_Transition s, rt_TransitionAt s, rt_ObservedAt s, rt_Revision s]"

definition utf8_owner :: "FindingOwnerResult \<Rightarrow> bool" where
  "utf8_owner s \<longleftrightarrow> list_all valid_utf8
     [or_ReviewFindingID s, or_HeadSHA s, or_TargetSHA s, or_DiffDigest s, or_ObservedAt s,
      or_Disposition s, or_CheckState s]"

definition utf8_support :: "FindingSupport \<Rightarrow> bool" where
  "utf8_support s \<longleftrightarrow> valid_utf8 (su_ClaimType s) \<and>
     pred_option utf8_source (su_Source s) \<and>
     pred_option (\<lambda>t. valid_utf8 (tst_Command t)) (su_Test s) \<and>
     pred_option (\<lambda>c. valid_utf8 (ci_CheckID c) \<and> valid_utf8 (ci_HeadSHA c)) (su_CI s) \<and>
     pred_option utf8_runtime (su_Runtime s) \<and> pred_option utf8_owner (su_OwnerResult s)"

definition utf8_finding :: "Finding \<Rightarrow> bool" where
  "utf8_finding f \<longleftrightarrow> list_all valid_utf8
     [f_ID f, f_Severity f, f_File f, f_Description f, f_Action f, f_Source f, f_UserInstructions f,
      f_ReviewScope f, f_Category f, f_Check f, f_CheckID f, f_CheckApp f] \<and>
     pred_option utf8_support (f_Support f)"

definition utf8_findings :: "Findings \<Rightarrow> bool" where
  "utf8_findings fs \<longleftrightarrow> list_all utf8_finding (items fs) \<and>
     list_all valid_utf8 (fs_ReviewedPaths fs @ fs_Tested fs @
       [fs_Summary fs, fs_TestingSummary fs, fs_Verdict fs, fs_TestedHeadSHA fs,
        fs_UnvalidatedSinceSHA fs, fs_RiskLevel fs, fs_RiskRationale fs, fs_RiskScope fs]) \<and>
     list_all (\<lambda>w. valid_utf8 (wf_ID w) \<and> valid_utf8 (wf_Reason w)) (fs_WithdrawnFindings fs) \<and>
     list_all (\<lambda>a. list_all valid_utf8 [ta_Kind a, ta_Label a, ta_Path a, ta_URL a, ta_Content a])
       (fs_Artifacts fs) \<and>
     list_all (\<lambda>s. list_all valid_utf8 [sc_Name s, sc_Result s, sc_Evidence s, sc_Reason s])
       (fs_Scenarios fs)"

lemma ok_source [simp]: "utf8_source x \<Longrightarrow> 0 < d \<Longrightarrow> ok_json d (enc_source x)"
  unfolding enc_source_def by (rule ok_JObj) (auto simp: utf8_source_def)

lemma ok_test [simp]: "valid_utf8 (tst_Command x) \<Longrightarrow> 0 < d \<Longrightarrow> ok_json d (enc_test x)"
  unfolding enc_test_def by (rule ok_JObj) auto

lemma ok_ci [simp]:
  "valid_utf8 (ci_CheckID x) \<Longrightarrow> valid_utf8 (ci_HeadSHA x) \<Longrightarrow> 0 < d \<Longrightarrow> ok_json d (enc_ci x)"
  unfolding enc_ci_def by (rule ok_JObj) auto

lemma ok_runtime [simp]: "utf8_runtime x \<Longrightarrow> 0 < d \<Longrightarrow> ok_json d (enc_runtime x)"
  unfolding enc_runtime_def by (rule ok_JObj) (auto simp: utf8_runtime_def)

lemma ok_owner [simp]: "utf8_owner x \<Longrightarrow> 0 < d \<Longrightarrow> ok_json d (enc_owner x)"
  unfolding enc_owner_def by (rule ok_JObj) (auto simp: utf8_owner_def omit_ptr_def split: option.split)

lemma ok_support [simp]: "utf8_support x \<Longrightarrow> 1 < d \<Longrightarrow> ok_json d (enc_support x)"
  unfolding enc_support_def by (rule ok_JObj) (auto simp: utf8_support_def omit_ptr_def split: option.split)

lemma ok_finding [simp]: "utf8_finding x \<Longrightarrow> 2 < d \<Longrightarrow> ok_json d (enc_finding x)"
  unfolding enc_finding_def by (rule ok_JObj) (auto simp: utf8_finding_def omit_ptr_def split: option.split)

lemma ok_small [simp]:
  "valid_utf8 (wf_ID w) \<Longrightarrow> valid_utf8 (wf_Reason w) \<Longrightarrow> 0 < d \<Longrightarrow> ok_json d (enc_withdrawn w)"
  "list_all valid_utf8 [ta_Kind a, ta_Label a, ta_Path a, ta_URL a, ta_Content a] \<Longrightarrow> 0 < d \<Longrightarrow>
     ok_json d (enc_artifact a)"
  "list_all valid_utf8 [sc_Name s, sc_Result s, sc_Evidence s, sc_Reason s] \<Longrightarrow> 0 < d \<Longrightarrow>
     ok_json d (enc_scenario s)"
  unfolding enc_withdrawn_def enc_artifact_def enc_scenario_def
  by (rule ok_JObj; auto)+

lemma ok_findings: "utf8_findings fs \<Longrightarrow> ok_json max_nesting (enc_findings fs)"
  unfolding enc_findings_def
  by (rule ok_JObj)
    (auto simp: utf8_findings_def max_nesting_def list_all_iff split: option.split)

text \<open>A payload the database can hold: valid UTF-8 and 64-bit numbers.\<close>

definition storable :: "Findings \<Rightarrow> bool" where
  "storable fs \<longleftrightarrow> utf8_findings fs \<and> int64_findings fs"

lemma parse_marshal:
  assumes "storable fs"
  shows "ParseFindingsJSON (MarshalFindingsJSON fs) = Some fs"
proof -
  have "json_parse (MarshalFindingsJSON fs) = Some (enc_findings fs)"
    using assms by (simp add: MarshalFindingsJSON_def storable_def json_parse_print ok_findings)
  moreover have "of_findings_wire (Findings.extend fs \<lparr> fw_Legacy = None \<rparr>) = fs"
    by (simp add: of_findings_wire_def Findings.defs)
  ultimately show ?thesis
    using assms by (simp add: ParseFindingsJSON_def dec_findings_wire storable_def)
qed

section \<open>Everything that was read can be written\<close>

definition keeps :: "('s \<Rightarrow> bool) \<Rightarrow> 's setter \<Rightarrow> bool" where
  "keeps P f \<longleftrightarrow> (\<forall>j s s'. json_valid j \<longrightarrow> P s \<longrightarrow> f j s = Some s' \<longrightarrow> P s')"

lemma keeps_str: "(\<And>v s. valid_utf8 v \<Longrightarrow> P s \<Longrightarrow> P (upd v s)) \<Longrightarrow> keeps P (str_field upd)"
  by (auto simp: keeps_def str_field_def split: json.splits)

lemma keeps_bool: "(\<And>v s. P s \<Longrightarrow> P (upd v s)) \<Longrightarrow> keeps P (bool_field upd)"
  by (auto simp: keeps_def bool_field_def split: json.splits)

lemma parse_int64_range: "parse_int64 l = Some v \<Longrightarrow> int64 v"
  by (auto simp: parse_int64_def int64_def Let_def split: if_splits)

lemma keeps_int: "(\<And>v s. int64 v \<Longrightarrow> P s \<Longrightarrow> P (upd v s)) \<Longrightarrow> keeps P (int_field upd)"
  by (auto simp: keeps_def int_field_def split: json.splits dest: parse_int64_range)

lemma keeps_ptr:
  assumes "keeps Q d" "Q zero" "\<And>s v. P s \<Longrightarrow> get s = Some v \<Longrightarrow> Q v" "\<And>s. P s \<Longrightarrow> P (upd None s)"
    "\<And>v s. Q v \<Longrightarrow> P s \<Longrightarrow> P (upd (Some v) s)"
  shows "keeps P (ptr_field get upd zero d)"
  unfolding keeps_def ptr_field_def
  by (auto simp: assms split: if_splits option.splits
      intro!: assms(5) dest: assms(1) [unfolded keeps_def, rule_format] intro: assms(2,3))

lemma dec_elems_keeps:
  "keeps Q d \<Longrightarrow> Q zero \<Longrightarrow> list_all json_valid js \<Longrightarrow> list_all Q olds \<Longrightarrow>
   dec_elems zero d js olds = Some xs \<Longrightarrow> list_all Q xs"
proof (induction js arbitrary: olds xs)
  case (Cons j js)
  define old where "old = (case olds of [] \<Rightarrow> zero | x # _ \<Rightarrow> x)"
  obtain y ys where y: "d j old = Some y" and ys: "dec_elems zero d js (tl olds) = Some ys" "xs = y # ys"
    using Cons.prems by (auto simp: old_def split: option.splits)
  have "Q old" using Cons.prems by (auto simp: old_def split: list.split)
  then have "Q y" using Cons.prems y by (auto simp: keeps_def)
  moreover have "list_all Q ys" using Cons ys by (auto intro: list_all_tl)
  ultimately show ?case using ys by simp
qed simp

lemma keeps_slice:
  assumes "keeps Q d" "Q zero" "\<And>s. P s \<Longrightarrow> list_all Q (get s)" "\<And>s. P s \<Longrightarrow> P (upd None s)"
    "\<And>v s. list_all Q v \<Longrightarrow> P s \<Longrightarrow> P (upd (Some v) s)"
  shows "keeps P (slice_field get upd zero d)"
  unfolding keeps_def slice_field_def
  by (auto simp: assms split: json.splits intro!: assms(5) dest: dec_elems_keeps [OF assms(1,2) _ assms(3)])

lemma keeps_find:
  assumes "list_all (\<lambda>(n, f). keeps P f) fs" "find_field fs k = Some f"
  shows "keeps P f"
  using assms by (auto simp: find_field_def list_all_iff split: option.splits dest!: map_of_SomeD)

lemma keeps_struct:
  assumes "list_all (\<lambda>(n, f). keeps P f) fs"
  shows "keeps P (dec_struct fs)"
proof -
  have "members_valid ms \<Longrightarrow> P s \<Longrightarrow> dec_members fs ms s = Some s' \<Longrightarrow> P s'" for ms s s'
  proof (induction ms arbitrary: s)
    case (Cons m ms)
    obtain k v where m: "m = (k, v)" by force
    show ?case
    proof (cases "find_field fs k")
      case None
      then show ?thesis using Cons m by (simp add: dec_members.simps)
    next
      case (Some f)
      then obtain s1 where s1: "f v s = Some s1" "dec_members fs ms s1 = Some s'"
        using Cons.prems m by (auto simp: dec_members.simps split: option.splits)
      then have "P s1" using keeps_find [OF assms Some] Cons.prems m by (auto simp: keeps_def)
      then show ?thesis using Cons s1 by simp
    qed
  qed (simp add: dec_members.simps)
  then show ?thesis by (auto simp: keeps_def dec_struct_def split: json.splits)
qed

lemmas keeps_rules = keeps_str keeps_bool keeps_int

lemma keeps_source: "keeps (\<lambda>x. utf8_source x \<and> int64 (src_Line x)) (dec_struct source_fields)"
  by (rule keeps_struct) (auto simp: source_fields_def utf8_source_def intro!: keeps_rules)

lemma keeps_test: "keeps (\<lambda>x. valid_utf8 (tst_Command x)) (dec_struct test_fields)"
  by (rule keeps_struct) (auto simp: test_fields_def intro!: keeps_rules)

lemma keeps_ci: "keeps (\<lambda>x. valid_utf8 (ci_CheckID x) \<and> valid_utf8 (ci_HeadSHA x)) (dec_struct ci_fields)"
  by (rule keeps_struct) (auto simp: ci_fields_def intro!: keeps_rules)

lemma keeps_runtime: "keeps utf8_runtime (dec_struct runtime_fields)"
  by (rule keeps_struct) (auto simp: runtime_fields_def utf8_runtime_def intro!: keeps_rules)

lemma int64_0 [simp]: "int64 0"
  by (simp add: int64_def)

lemma keeps_owner: "keeps (\<lambda>x. utf8_owner x \<and> int64_owner x) (dec_struct owner_fields)"
  by (rule keeps_struct)
    (auto simp: owner_fields_def utf8_owner_def int64_owner_def
      intro!: keeps_rules keeps_ptr [where Q = int64])

lemma keeps_support: "keeps (\<lambda>x. utf8_support x \<and> int64_support x) (dec_struct support_fields)"
  by (rule keeps_struct)
    (auto simp: support_fields_def utf8_support_def int64_support_def zero_source_def zero_test_def
      zero_ci_def zero_runtime_def zero_owner_def utf8_source_def utf8_runtime_def utf8_owner_def
      int64_owner_def intro!: keeps_str keeps_ptr [OF keeps_source] keeps_ptr [OF keeps_test]
      keeps_ptr [OF keeps_ci] keeps_ptr [OF keeps_runtime] keeps_ptr [OF keeps_owner])

definition finding_ok :: "Finding \<Rightarrow> bool" where
  "finding_ok f \<longleftrightarrow> utf8_finding f \<and> int64_finding f"

lemma support_ok_zero: "utf8_support zero_support \<and> int64_support zero_support"
  by (simp add: zero_support_def utf8_support_def int64_support_def)

lemma keeps_finding_wire: "keeps (\<lambda>w. finding_ok (Finding.truncate w)) (dec_struct finding_fields)"
  by (rule keeps_struct)
    (auto simp: finding_fields_def finding_ok_def utf8_finding_def int64_finding_def Finding.defs
      support_ok_zero intro!: keeps_rules keeps_ptr [OF keeps_support] keeps_ptr [where Q = "\<lambda>_. True"])

lemma finding_ok_zero [simp]: "finding_ok zero_finding"
  by (simp add: finding_ok_def zero_finding_def utf8_finding_def int64_finding_def)

lemma keeps_finding: "keeps finding_ok Finding_UnmarshalJSON"
proof -
  have "finding_ok (Finding.truncate zero_finding_wire)"
    using finding_ok_zero by (simp add: zero_finding_wire_def Finding.defs zero_finding_def)
  moreover have "finding_ok (Finding.truncate w) \<Longrightarrow> finding_ok (of_finding_wire w)" for w
    by (auto simp: of_finding_wire_def Let_def finding_ok_def utf8_finding_def int64_finding_def
        finding_action_defs valid_utf8_ascii)
  ultimately show ?thesis
    using keeps_finding_wire by (auto simp: keeps_def Finding_UnmarshalJSON_def)
qed

lemma keeps_withdrawn:
  "keeps (\<lambda>w. valid_utf8 (wf_ID w) \<and> valid_utf8 (wf_Reason w)) (dec_struct withdrawn_fields)"
  by (rule keeps_struct) (auto simp: withdrawn_fields_def intro!: keeps_rules)

lemma keeps_artifact:
  "keeps (\<lambda>a. list_all valid_utf8 [ta_Kind a, ta_Label a, ta_Path a, ta_URL a, ta_Content a])
     (dec_struct artifact_fields)"
  by (rule keeps_struct) (auto simp: artifact_fields_def intro!: keeps_rules)

lemma keeps_scenario:
  "keeps (\<lambda>s. list_all valid_utf8 [sc_Name s, sc_Result s, sc_Evidence s, sc_Reason s])
     (dec_struct scenario_fields)"
  by (rule keeps_struct) (auto simp: scenario_fields_def intro!: keeps_rules)

lemma keeps_str_elem: "keeps valid_utf8 str_elem"
  unfolding str_elem_def by (rule keeps_str)

definition findings_wire_ok :: "findingsWire \<Rightarrow> bool" where
  "findings_wire_ok w \<longleftrightarrow> storable (Findings.truncate w) \<and> list_all finding_ok (elems (fw_Legacy w))"

lemma findings_wire_ok_iff:
  "findings_wire_ok w \<longleftrightarrow> list_all finding_ok (elems (fs_Items w)) \<and>
     list_all finding_ok (elems (fw_Legacy w)) \<and>
     list_all valid_utf8 (fs_ReviewedPaths w) \<and> list_all valid_utf8 (fs_Tested w) \<and>
     list_all valid_utf8
       [fs_Summary w, fs_TestingSummary w, fs_Verdict w, fs_TestedHeadSHA w,
        fs_UnvalidatedSinceSHA w, fs_RiskLevel w, fs_RiskRationale w, fs_RiskScope w] \<and>
     list_all (\<lambda>w. valid_utf8 (wf_ID w) \<and> valid_utf8 (wf_Reason w)) (fs_WithdrawnFindings w) \<and>
     list_all (\<lambda>a. list_all valid_utf8 [ta_Kind a, ta_Label a, ta_Path a, ta_URL a, ta_Content a])
       (fs_Artifacts w) \<and>
     list_all (\<lambda>s. list_all valid_utf8 [sc_Name s, sc_Result s, sc_Evidence s, sc_Reason s])
       (fs_Scenarios w)"
  by (auto simp: findings_wire_ok_def storable_def utf8_findings_def int64_findings_def finding_ok_def
      Findings.defs list_all_iff)

lemma keeps_findings_wire: "keeps findings_wire_ok (dec_struct findings_fields)"
proof (rule keeps_struct)
  show "list_all (\<lambda>(n, f). keeps findings_wire_ok f) findings_fields"
    unfolding findings_fields_def list.pred_inject prod.case
    by (intro conjI TrueI keeps_str keeps_slice [OF keeps_finding] keeps_slice [OF keeps_str_elem]
        keeps_slice [OF keeps_withdrawn] keeps_slice [OF keeps_artifact] keeps_slice [OF keeps_scenario])
      (simp_all add: findings_wire_ok_iff zero_withdrawn_def zero_artifact_def zero_scenario_def)
qed

lemma parse_storable:
  assumes "ParseFindingsJSON raw = Some fs"
  shows "storable fs"
proof -
  obtain j w where j: "json_parse raw = Some j"
    and w: "dec_struct findings_fields j zero_findings_wire = Some w" "fs = of_findings_wire w"
    using assms by (auto simp: ParseFindingsJSON_def split: option.splits)
  have "findings_wire_ok zero_findings_wire"
    by (simp add: findings_wire_ok_iff zero_findings_wire_def zero_findings_def Findings.defs)
  then have "findings_wire_ok w"
    using keeps_findings_wire json_parse_valid [OF j] w(1) by (auto simp: keeps_def)
  then show ?thesis
    unfolding w(2)
    by (auto simp: of_findings_wire_def findings_wire_ok_iff storable_def utf8_findings_def
        int64_findings_def finding_ok_def list_all_iff Findings.defs)
qed

section \<open>The interface the pipeline uses\<close>

text \<open>
  Every helper of \<open>internal/pipeline/findings.go\<close> reads a payload, changes the value and writes
  it again. What they rely on is that a written value is read back and that what is read can be
  written; the client lemmas below follow from these laws alone.
\<close>

locale findings_codec =
  fixes parse :: "string \<Rightarrow> 'f option" and marshal :: "'f \<Rightarrow> string" and valid :: "'f \<Rightarrow> bool"
  assumes parse_marshal_law: "valid f \<Longrightarrow> parse (marshal f) = Some f"
    and parse_valid_law: "parse raw = Some f \<Longrightarrow> valid f"
    and marshal_nonempty_law: "marshal f \<noteq> []"
begin

lemma reread: "parse raw = Some f \<Longrightarrow> parse (marshal f) = Some f"
  using parse_marshal_law parse_valid_law by blast

lemma marshal_inject: "valid f \<Longrightarrow> valid g \<Longrightarrow> marshal f = marshal g \<longleftrightarrow> f = g"
  by (metis parse_marshal_law option.inject)

end

interpretation fjson: findings_codec ParseFindingsJSON MarshalFindingsJSON storable
proof
  show "MarshalFindingsJSON f \<noteq> []" for f
    by (simp add: MarshalFindingsJSON_def enc_findings_def)
qed (simp_all add: parse_marshal parse_storable)

text \<open>C13. The wire format loses nothing: every payload of valid UTF-8 strings and 64-bit integers is
  read back from its own JSON text as it was, support references, scenarios, artifacts and the
  difference between a nil and an empty item list included.
\<close>

theorem findings_json_roundtrip:
  assumes "storable fs"
  shows "ParseFindingsJSON (MarshalFindingsJSON fs) = Some fs"
  using assms by (rule fjson.parse_marshal_law)

theorem findings_json_roundtrip_witness:
  "ParseFindingsJSON (MarshalFindingsJSON (zero_findings\<lparr>fs_Items :=
     Some [zero_finding\<lparr>f_ID := ''a'', f_Line := 7\<rparr>]\<rparr>)) =
   Some (zero_findings\<lparr>fs_Items := Some [zero_finding\<lparr>f_ID := ''a'', f_Line := 7\<rparr>]\<rparr>)"
  by (rule findings_json_roundtrip)
    (simp add: storable_def zero_findings_def zero_finding_def utf8_findings_def int64_findings_def
      utf8_finding_def int64_finding_def int64_def)

text \<open>Whatever text was accepted (unknown keys, case-folded keys, legacy keys, invalid UTF-8,
  repeated members), the payload it was read as can be stored and is read back unchanged: one
  decode and encode reaches a fixed form, and two payloads with the same text are equal.
\<close>

theorem findings_json_stable:
  assumes "ParseFindingsJSON raw = Some fs"
  shows "ParseFindingsJSON (MarshalFindingsJSON fs) = Some fs \<and> storable fs"
  using fjson.reread [OF assms] fjson.parse_valid_law [OF assms] by blast

theorem findings_json_stable_witness:
  "\<exists>fs. ParseFindingsJSON (''{'' @ [quote] @ ''Items'' @ [quote] @ '':[null]}'') = Some fs \<and> storable fs"
proof -
  have "ParseFindingsJSON (''{'' @ [quote] @ ''Items'' @ [quote] @ '':[null]}'') \<noteq> None"
    by code_simp
  then obtain fs where "ParseFindingsJSON (''{'' @ [quote] @ ''Items'' @ [quote] @ '':[null]}'') = Some fs"
    by auto
  then show ?thesis using findings_json_stable by blast
qed

end
