(* ===== verification/FindingsJson.thy ===== *)
theory FindingsJson
  imports FindingsCodec
begin

text \<open>
  The helpers of \<open>internal/pipeline/findings.go\<close> on stored findings payloads, the rounds of
  \<open>internal/db/round.go\<close> they read, and their properties: identities and fingerprints, the merge
  of two payloads and of a review round into the outstanding set, the selection of identifiers
  across rounds, and the ways a finding may leave the outstanding set.

  A \<open>map[string]bool\<close> or \<open>map[findingIdentity]bool\<close> that is only filled and asked is the list (or
  set) of its keys, a map of counts is a function, and \<open>MarshalFindingsJSON\<close> cannot fail
  (\<open>FindingsCodec\<close>), so the branches on its error are not there.
\<close>

section \<open>Rounds\<close>

definition RoundSelectionSourceUser :: string where "RoundSelectionSourceUser = ''user''"
definition RoundSelectionSourceAutoFix :: string where "RoundSelectionSourceAutoFix = ''auto_fix''"
definition RoundSelectionSourceUserDeclined :: string where
  "RoundSelectionSourceUserDeclined = ''user_declined''"
definition DeclinedSelectionJSON :: string where "DeclinedSelectionJSON = ''[]''"

lemmas round_source_defs = RoundSelectionSourceUser_def RoundSelectionSourceAutoFix_def
  RoundSelectionSourceUserDeclined_def

record StepRound =
  sr_ID :: string
  sr_StepResultID :: string
  sr_Round :: int
  sr_Trigger :: string
  sr_FindingsJSON :: "string option"
  sr_ReviewedHeadSHA :: "string option"
  sr_StartingHeadSHA :: "string option"
  sr_TrustedConfigSHA :: "string option"
  sr_GlobalConfigYAML :: string
  sr_RepoConfigYAML :: string
  sr_UserFindingsJSON :: "string option"
  sr_SelectedFindingIDs :: "string option"
  sr_SelectionSource :: "string option"
  sr_FixSummary :: "string option"
  sr_FixApplied :: "bool option"
  sr_RepairPublished :: bool
  sr_DurationMS :: int
  sr_CreatedAt :: int

definition zero_round :: StepRound where
  "zero_round = \<lparr> sr_ID = [], sr_StepResultID = [], sr_Round = 0, sr_Trigger = [],
     sr_FindingsJSON = None, sr_ReviewedHeadSHA = None, sr_StartingHeadSHA = None,
     sr_TrustedConfigSHA = None, sr_GlobalConfigYAML = [], sr_RepoConfigYAML = [],
     sr_UserFindingsJSON = None, sr_SelectedFindingIDs = None, sr_SelectionSource = None,
     sr_FixSummary = None, sr_FixApplied = None, sr_RepairPublished = False, sr_DurationMS = 0,
     sr_CreatedAt = 0 \<rparr>"

text \<open>\<open>json.Unmarshal\<close> into a string slice.\<close>

definition unmarshal_ids :: "string \<Rightarrow> string list option" where
  "unmarshal_ids raw =
     (case json_parse raw of
        Some JNull \<Rightarrow> Some []
      | Some (JArr js) \<Rightarrow> dec_elems [] str_elem js []
      | _ \<Rightarrow> None)"

definition IsFixRound :: "StepRound \<Rightarrow> bool" where
  "IsFixRound r \<longleftrightarrow> sr_Trigger r = ''auto_fix'' \<or> sr_Trigger r = ''user_fix''"

definition StepFixSummariesFromRounds :: "StepRound list \<Rightarrow> string list" where
  "StepFixSummariesFromRounds rounds =
     map (\<lambda>r. case sr_FixSummary r of None \<Rightarrow> [] | Some s \<Rightarrow> s) (filter IsFixRound rounds)"

definition hasSelectedFinding :: "string option \<Rightarrow> bool" where
  "hasSelectedFinding raw =
     (case raw of
        None \<Rightarrow> False
      | Some text \<Rightarrow>
          (case unmarshal_ids text of None \<Rightarrow> False | Some ids \<Rightarrow> list_ex (\<lambda>i. i \<noteq> []) ids))"

record StepRoundStats =
  st_TotalRounds :: int
  st_FixRounds :: int
  st_LatestRound :: int
  st_LatestTrigger :: string
  st_LatestSelection :: string
  st_LatestRoundAt :: int
  st_LatestFixRound :: int
  st_LatestFixRoundAt :: int
  st_SelectedForFix :: bool
  st_AutoSelectedForFix :: bool
  st_PendingFixSource :: string

definition zero_stats :: StepRoundStats where
  "zero_stats = \<lparr> st_TotalRounds = 0, st_FixRounds = 0, st_LatestRound = 0, st_LatestTrigger = [],
     st_LatestSelection = [], st_LatestRoundAt = 0, st_LatestFixRound = 0, st_LatestFixRoundAt = 0,
     st_SelectedForFix = False, st_AutoSelectedForFix = False, st_PendingFixSource = [] \<rparr>"

text \<open>One round of the loop, on the statistics, the latest round with a selection and its source.\<close>

definition stats_round ::
  "StepRound \<Rightarrow> StepRoundStats \<times> int \<times> string \<Rightarrow> StepRoundStats \<times> int \<times> string" where
  "stats_round r acc =
     (case acc of (st, selRound, selSource) \<Rightarrow>
      let st1 = st\<lparr>st_TotalRounds := st_TotalRounds st + 1, st_LatestRound := sr_Round r,
                  st_LatestTrigger := sr_Trigger r, st_LatestRoundAt := sr_CreatedAt r\<rparr>;
          st2 = (case sr_SelectionSource r of None \<Rightarrow> st1 | Some s \<Rightarrow> st1\<lparr>st_LatestSelection := s\<rparr>);
          sel = hasSelectedFinding (sr_SelectedFindingIDs r);
          st3 = (if sel
                 then st2\<lparr>st_SelectedForFix := True,
                   st_AutoSelectedForFix := (sr_SelectionSource r = Some RoundSelectionSourceAutoFix)\<rparr>
                 else st2);
          st4 = (if IsFixRound r
                 then st3\<lparr>st_FixRounds := st_FixRounds st3 + 1,
                   st_LatestFixRound := st_FixRounds st3 + 1, st_LatestFixRoundAt := sr_CreatedAt r\<rparr>
                 else st3) in
      if sel then (st4, sr_Round r, st_LatestSelection st3) else (st4, selRound, selSource))"

definition StepRoundStatsFromRounds :: "StepRound list \<Rightarrow> StepRoundStats" where
  "StepRoundStatsFromRounds rounds =
     (case foldl (\<lambda>acc r. stats_round r acc) (zero_stats, 0, []) rounds of (st, selRound, selSource) \<Rightarrow>
      if selRound = st_LatestRound st then st\<lparr>st_PendingFixSource := selSource\<rparr> else st)"

section \<open>Identifier lists\<close>

definition nonempty_ids :: "Finding list \<Rightarrow> string list" where
  "nonempty_ids xs = filter (\<lambda>i. i \<noteq> []) (map f_ID xs)"

definition marshalFindingIDs :: "string list \<Rightarrow> string" where
  "marshalFindingIDs ids = (if ids = [] then [] else json_print (JArr (map JStr ids)))"

definition findingIDsJSON :: "string \<Rightarrow> string" where
  "findingIDsJSON raw =
     (if raw = [] then []
      else case ParseFindingsJSON raw of
          None \<Rightarrow> []
        | Some fs \<Rightarrow> marshalFindingIDs (nonempty_ids (items fs)))"

definition findingIDList :: "string \<Rightarrow> string list" where
  "findingIDList raw =
     (if raw = [] then []
      else case ParseFindingsJSON raw of None \<Rightarrow> [] | Some fs \<Rightarrow> nonempty_ids (items fs))"

definition findingIDsFromSelectionJSON :: "string \<Rightarrow> string list" where
  "findingIDsFromSelectionJSON raw =
     (if raw = [] then [] else case unmarshal_ids raw of None \<Rightarrow> [] | Some ids \<Rightarrow> ids)"

fun append_unseen :: "string list \<Rightarrow> string list \<Rightarrow> string list" where
  "append_unseen result [] = result"
| "append_unseen result (i # is) =
     append_unseen (if i \<noteq> [] \<and> i \<notin> set result then result @ [i] else result) is"

definition combineFindingIDLists :: "string list \<Rightarrow> string list \<Rightarrow> string list" where
  "combineFindingIDLists existing additional = append_unseen existing additional"

definition combineSelectedFindingIDs :: "string list \<Rightarrow> string \<Rightarrow> string list" where
  "combineSelectedFindingIDs selected mergedFindings =
     (if mergedFindings = [] then selected
      else case ParseFindingsJSON mergedFindings of
          None \<Rightarrow> selected
        | Some fs \<Rightarrow> append_unseen selected (map f_ID (items fs)))"

section \<open>Identity\<close>

record findingIdentity =
  fi_finding :: Finding
  fi_hasSupport :: bool
  fi_claimType :: string
  fi_sourcePath :: string
  fi_testCommand :: string
  fi_ciCheckID :: string
  fi_ciHeadSHA :: string
  fi_runtimeEntity :: string
  fi_runtimeTransition :: string
  fi_runtimeTransitionAt :: string
  fi_runtimeRevision :: string

text \<open>A selector of a support reference: the empty string when the reference is absent.\<close>

definition support_part :: "(FindingSupport \<Rightarrow> 'a option) \<Rightarrow> ('a \<Rightarrow> string) \<Rightarrow> Finding \<Rightarrow> string" where
  "support_part get part x =
     (case f_Support x of
        None \<Rightarrow> []
      | Some s \<Rightarrow> (case get s of None \<Rightarrow> [] | Some r \<Rightarrow> part r))"

definition findingKey :: "Finding \<Rightarrow> findingIdentity" where
  "findingKey x =
     \<lparr> fi_finding = x\<lparr>f_ID := [], f_Action := [], f_Source := [], f_UserInstructions := [],
                       f_Support := None\<rparr>,
       fi_hasSupport = (f_Support x \<noteq> None),
       fi_claimType = (case f_Support x of None \<Rightarrow> [] | Some s \<Rightarrow> su_ClaimType s),
       fi_sourcePath = support_part su_Source src_Path x,
       fi_testCommand = support_part su_Test tst_Command x,
       fi_ciCheckID = support_part su_CI ci_CheckID x,
       fi_ciHeadSHA = support_part su_CI ci_HeadSHA x,
       fi_runtimeEntity = support_part su_Runtime rt_Entity x,
       fi_runtimeTransition = support_part su_Runtime rt_Transition x,
       fi_runtimeTransitionAt = support_part su_Runtime rt_TransitionAt x,
       fi_runtimeRevision = support_part su_Runtime rt_Revision x \<rparr>"

definition findingFingerprint :: "Finding \<Rightarrow> findingIdentity" where
  "findingFingerprint x = (let k = findingKey x in k\<lparr>fi_finding := (fi_finding k)\<lparr>f_Line := 0\<rparr>\<rparr>)"

definition SameFinding :: "Finding \<Rightarrow> Finding \<Rightarrow> bool" where
  "SameFinding a b \<longleftrightarrow> findingKey a = findingKey b"

definition countFindingFingerprints :: "Finding list \<Rightarrow> findingIdentity \<Rightarrow> nat" where
  "countFindingFingerprints xs k = count_list (map findingFingerprint xs) k"

definition hasFindingMatch ::
  "Finding \<Rightarrow> findingIdentity list \<Rightarrow> (findingIdentity \<Rightarrow> nat) \<Rightarrow> (findingIdentity \<Rightarrow> nat) \<Rightarrow> bool" where
  "hasFindingMatch x exact itemCounts candidateCounts \<longleftrightarrow>
     (if findingKey x \<in> set exact then True
      else itemCounts (findingFingerprint x) = 1 \<and> candidateCounts (findingFingerprint x) = 1)"

section \<open>Rewriting one payload\<close>

definition normalizeFindingsJSON :: "string \<Rightarrow> string \<Rightarrow> string" where
  "normalizeFindingsJSON raw prefix =
     (if raw = [] then []
      else case ParseFindingsJSON raw of
          None \<Rightarrow> raw
        | Some fs \<Rightarrow> MarshalFindingsJSON (NormalizeFindings fs prefix))"

definition excludeFindingsJSON :: "string \<Rightarrow> string list \<Rightarrow> string" where
  "excludeFindingsJSON raw ids =
     (if raw = [] \<or> ids = [] then raw
      else case ParseFindingsJSON raw of
          None \<Rightarrow> raw
        | Some fs \<Rightarrow>
            let excluded = ExcludeFindings fs ids in
            if items excluded = [] then [] else MarshalFindingsJSON excluded)"

definition filterFindingsJSON :: "string \<Rightarrow> string list \<Rightarrow> string" where
  "filterFindingsJSON raw ids =
     (if raw = [] then raw
      else case ParseFindingsJSON raw of
          None \<Rightarrow> raw
        | Some fs \<Rightarrow>
            MarshalFindingsJSON
              (if ids = [] then (FindingsMetadata fs)\<lparr>fs_Summary := ''0 selected findings''\<rparr>
               else FilterFindings fs ids))"

definition autoFixableFindingsJSON :: "string \<Rightarrow> string" where
  "autoFixableFindingsJSON raw =
     (if raw = [] then []
      else case ParseFindingsJSON raw of
          None \<Rightarrow> raw
        | Some fs \<Rightarrow>
            let fixable = AutoFixableFindings fs in
            if items fixable = [] then [] else MarshalFindingsJSON fixable)"

definition mergeUserOverridesJSON ::
  "string \<Rightarrow> (string \<times> string) list \<Rightarrow> Finding list \<Rightarrow> string" where
  "mergeUserOverridesJSON raw instructions added =
     (if instructions = [] \<and> added = [] then raw
      else let base = (case ParseFindingsJSON raw of None \<Rightarrow> zero_findings | Some fs \<Rightarrow> fs) in
        MarshalFindingsJSON (MergeUserOverrides base (map_of instructions) added))"

definition parsed_items :: "string \<Rightarrow> Finding list" where
  "parsed_items raw = (case ParseFindingsJSON raw of None \<Rightarrow> [] | Some fs \<Rightarrow> items fs)"

definition resolveAddedFindingIDs :: "Finding list \<Rightarrow> string list \<Rightarrow> Finding list" where
  "resolveAddedFindingIDs added reserved =
     (let gate = zero_findings\<lparr>fs_Items := appended (concat (map parsed_items reserved))\<rparr> in
      drop (length (items gate)) (items (MergeUserOverrides gate Map.empty added)))"

definition ReviewQuestionsUnreadableFindingID :: string where
  "ReviewQuestionsUnreadableFindingID = ''review-questions-unreadable''"

definition is_review_question :: "Finding \<Rightarrow> bool" where
  "is_review_question x \<longleftrightarrow>
     f_Category x = FindingCategoryReviewQuestion \<or> f_ID x = ReviewQuestionsUnreadableFindingID"

definition dropReviewQuestionFindingsJSON :: "string \<Rightarrow> string" where
  "dropReviewQuestionFindingsJSON raw =
     (if raw = [] then raw
      else case ParseFindingsJSON raw of
          None \<Rightarrow> raw
        | Some fs \<Rightarrow>
            let kept = filter (\<lambda>x. \<not> is_review_question x) (items fs) in
            if length kept = length (items fs) then raw
            else if kept = [] then []
            else MarshalFindingsJSON (fs\<lparr>fs_Items := Some kept\<rparr>))"

fun withdrawn_reasons :: "WithdrawnFinding list \<Rightarrow> (string \<rightharpoonup> string) \<Rightarrow> (string \<rightharpoonup> string)" where
  "withdrawn_reasons [] m = m"
| "withdrawn_reasons (w # ws) m =
     withdrawn_reasons ws (if wf_ID w \<noteq> [] then m(wf_ID w \<mapsto> wf_Reason w) else m)"

definition retracts :: "(string \<rightharpoonup> string) \<Rightarrow> Finding \<Rightarrow> bool" where
  "retracts reasons x \<longleftrightarrow> reasons (f_ID x) \<noteq> None \<and> f_Source x \<noteq> FindingSourceUser"

definition dropWithdrawnFindingsJSON ::
  "string \<Rightarrow> WithdrawnFinding list \<Rightarrow> string \<times> WithdrawnFinding list" where
  "dropWithdrawnFindingsJSON raw withdrawn =
     (if raw = [] \<or> withdrawn = [] then (raw, [])
      else if list_all (\<lambda>w. wf_ID w = []) withdrawn then (raw, [])
      else case ParseFindingsJSON raw of
          None \<Rightarrow> (raw, [])
        | Some fs \<Rightarrow>
            let reasons = withdrawn_reasons withdrawn Map.empty;
                applied = map (\<lambda>x. \<lparr> wf_ID = f_ID x, wf_Reason = the (reasons (f_ID x)) \<rparr>)
                            (filter (retracts reasons) (items fs));
                kept = filter (\<lambda>x. \<not> retracts reasons x) (items fs) in
            if applied = [] then (raw, [])
            else if kept = [] then ([], applied)
            else (MarshalFindingsJSON (fs\<lparr>fs_Items := Some kept\<rparr>), applied))"

definition recordWithdrawnFindingsJSON :: "string \<Rightarrow> WithdrawnFinding list \<Rightarrow> string" where
  "recordWithdrawnFindingsJSON raw withdrawn =
     (if raw = [] \<or> withdrawn = [] then raw
      else case ParseFindingsJSON raw of
          None \<Rightarrow> raw
        | Some fs \<Rightarrow> MarshalFindingsJSON (fs\<lparr>fs_WithdrawnFindings := withdrawn\<rparr>))"

section \<open>Questions about one payload\<close>

definition gateAutoFixEligible :: "string \<Rightarrow> string \<Rightarrow> string \<Rightarrow> bool \<Rightarrow> bool" where
  "gateAutoFixEligible current previous deferred fixing =
     (case ParseFindingsJSON current of
        None \<Rightarrow> False
      | Some fs \<Rightarrow>
          if HasAskUserFindings fs \<or> items (AutoFixableFindings fs) = [] then False
          else if \<not> fixing then True
          else case ParseFindingsJSON previous of
              None \<Rightarrow> False
            | Some prior \<Rightarrow>
                if deferred \<noteq> [] then
                  (case ParseFindingsJSON deferred of
                     None \<Rightarrow> False
                   | Some unselected \<Rightarrow>
                       length (items fs) < length (items prior) + length (items unselected))
                else length (items fs) < length (items prior))"

definition hasAskUserFindingsJSON :: "string \<Rightarrow> bool" where
  "hasAskUserFindingsJSON raw =
     (if raw = [] then False
      else case ParseFindingsJSON raw of None \<Rightarrow> False | Some fs \<Rightarrow> HasAskUserFindings fs)"

definition blocking_severity :: "Finding \<Rightarrow> bool" where
  "blocking_severity x \<longleftrightarrow> f_Severity x = FindingSeverityError \<or> f_Severity x = FindingSeverityWarning"

definition hasBlockingFindingsJSON :: "string \<Rightarrow> bool" where
  "hasBlockingFindingsJSON raw =
     (if raw = [] then False
      else case ParseFindingsJSON raw of None \<Rightarrow> True | Some fs \<Rightarrow> list_ex blocking_severity (items fs))"

definition FindingCategoryReviewSupportPending :: string where
  "FindingCategoryReviewSupportPending = ''review-support-pending''"

definition owned_elsewhere :: "Finding \<Rightarrow> bool" where
  "owned_elsewhere x \<longleftrightarrow>
     f_Category x = FindingCategoryReviewSupportPending \<and> f_Action x = ActionNoOp \<and>
     (case f_Support x of
        None \<Rightarrow> False
      | Some s \<Rightarrow>
          (su_ClaimType s = FindingClaimTest \<or> su_ClaimType s = FindingClaimCI) \<and>
          FindingSupport_Validate s = None)"

definition hasBlockingFindingsAtStepJSON :: "string \<Rightarrow> StepName \<Rightarrow> bool" where
  "hasBlockingFindingsAtStepJSON raw step =
     (if step \<noteq> StepReview then hasBlockingFindingsJSON raw
      else case ParseFindingsJSON raw of
          None \<Rightarrow> raw \<noteq> []
        | Some fs \<Rightarrow> list_ex (\<lambda>x. blocking_severity x \<and> \<not> owned_elsewhere x) (items fs))"

definition hasSelectedFindingsJSON :: "string \<Rightarrow> string list \<Rightarrow> bool" where
  "hasSelectedFindingsJSON raw ids =
     (if ids = [] \<or> raw = [] then False
      else case ParseFindingsJSON raw of
          None \<Rightarrow> True
        | Some fs \<Rightarrow> list_ex (\<lambda>i. i \<in> set (nonempty_ids (items fs))) ids)"

definition retainFindingIDs :: "string \<Rightarrow> string list \<Rightarrow> string list" where
  "retainFindingIDs raw ids =
     (if ids = [] \<or> raw = [] then []
      else case ParseFindingsJSON raw of
          None \<Rightarrow> ids
        | Some fs \<Rightarrow> filter (\<lambda>i. i \<in> set (nonempty_ids (items fs))) ids)"

end
