(* ===== verification/Outstanding.thy ===== *)
theory Outstanding
  imports FindingsJson
begin

text \<open>
  The outstanding set of \<open>internal/pipeline/findings.go\<close>: merging two payloads by identity and
  fingerprint, removing and retaining matches, the identities a selection recorded, the
  re-identification of selected findings, and the rules by which a review round may clear a
  finding (\<open>resolveVerifiedFindingsJSON\<close>) or add to the set (\<open>mergeOutstandingFindingsJSON\<close>).
\<close>

section \<open>path.Clean\<close>

fun clean_segments :: "bool \<Rightarrow> string list \<Rightarrow> string list \<Rightarrow> string list" where
  "clean_segments rooted out [] = rev out"
| "clean_segments rooted out (s # ss) =
     (if s = [] \<or> s = ''.'' then clean_segments rooted out ss
      else if s = ''..'' then
        (if out \<noteq> [] \<and> hd out \<noteq> ''..'' then clean_segments rooted (tl out) ss
         else if rooted then clean_segments rooted out ss
         else clean_segments rooted (s # out) ss)
      else clean_segments rooted (s # out) ss)"

definition path_Clean :: "string \<Rightarrow> string" where
  "path_Clean p =
     (if p = [] then ''.''
      else let rooted = HasPrefix p ''/'';
               body = Join ''/'' (clean_segments rooted [] (SplitOn CHR ''/'' p)) in
        if rooted then CHR ''/'' # body else if body = [] then ''.'' else body)"

definition normalizeCoveredPath :: "string \<Rightarrow> string" where
  "normalizeCoveredPath value =
     (let v = TrimSpace value in
      if v = [] then []
      else let cleaned = path_Clean v in if cleaned = ''.'' then [] else cleaned)"

section \<open>Merging, removing, retaining\<close>

text \<open>The first finding of the merged list that a matched additional finding refreshes.\<close>

fun refresh_first :: "(Finding \<Rightarrow> bool) \<Rightarrow> Finding \<Rightarrow> Finding list \<Rightarrow> Finding list option" where
  "refresh_first P x [] = None"
| "refresh_first P x (m # ms) =
     (if P m then Some (m\<lparr>f_Support := f_Support x, f_File := f_File x, f_Line := f_Line x\<rparr> # ms)
      else map_option ((#) m) (refresh_first P x ms))"

fun merge_additional ::
  "(findingIdentity \<Rightarrow> nat) \<Rightarrow> (findingIdentity \<Rightarrow> nat) \<Rightarrow> Finding list \<Rightarrow> findingIdentity list
     \<Rightarrow> Finding list \<Rightarrow> Finding list" where
  "merge_additional ac ec merged seen [] = merged"
| "merge_additional ac ec merged seen (x # xs) =
     (if hasFindingMatch x seen ac ec then
        (if f_Support x \<noteq> None then
           (let key = findingKey x; fp = findingFingerprint x; unique = (ac fp = 1 \<and> ec fp = 1) in
            case refresh_first (\<lambda>m. findingKey m = key \<or> unique \<and> findingFingerprint m = fp) x merged of
              Some merged' \<Rightarrow> merge_additional ac ec merged' (map findingKey merged') xs
            | None \<Rightarrow> merge_additional ac ec merged seen xs)
         else merge_additional ac ec merged seen xs)
      else if findingKey x \<in> set seen then merge_additional ac ec merged seen xs
      else merge_additional ac ec (merged @ [x]) (findingKey x # seen) xs)"

definition merge_items_of :: "Finding list \<Rightarrow> Finding list \<Rightarrow> Finding list" where
  "merge_items_of existing additional =
     merge_additional (countFindingFingerprints additional) (countFindingFingerprints existing)
       existing (map findingKey existing) additional"

definition merge_metadata :: "Findings \<Rightarrow> Findings \<Rightarrow> Findings" where
  "merge_metadata existing additional =
     (let merged = FindingsMetadata existing in
      if fs_RiskLevel additional \<noteq> []
      then merged\<lparr>fs_RiskLevel := fs_RiskLevel additional, fs_RiskRationale := fs_RiskRationale additional,
                  fs_RiskScope := fs_RiskScope additional\<rparr>
      else merged)"

definition mergeFindingsJSON :: "string \<Rightarrow> string \<Rightarrow> string" where
  "mergeFindingsJSON existingRaw additionalRaw =
     (if existingRaw = [] then additionalRaw
      else if additionalRaw = [] then existingRaw
      else case ParseFindingsJSON existingRaw of
          None \<Rightarrow> additionalRaw
        | Some existing \<Rightarrow>
            (case ParseFindingsJSON additionalRaw of
               None \<Rightarrow> existingRaw
             | Some additional \<Rightarrow>
                 let merged = merge_items_of (items existing) (items additional) in
                 if merged = [] then []
                 else MarshalFindingsJSON
                        ((merge_metadata existing additional)\<lparr>fs_Items := Some merged\<rparr>)))"

text \<open>Whether an item of one list matches the other list.\<close>

definition matches_list :: "Finding list \<Rightarrow> Finding list \<Rightarrow> Finding \<Rightarrow> bool" where
  "matches_list own other x =
     hasFindingMatch x (map findingKey other) (countFindingFingerprints own) (countFindingFingerprints other)"

definition removeMatchingFindingsJSON :: "string \<Rightarrow> string \<Rightarrow> string" where
  "removeMatchingFindingsJSON existingRaw removeRaw =
     (if existingRaw = [] \<or> removeRaw = [] then existingRaw
      else case ParseFindingsJSON existingRaw of
          None \<Rightarrow> existingRaw
        | Some existing \<Rightarrow>
            (case ParseFindingsJSON removeRaw of
               None \<Rightarrow> existingRaw
             | Some remove \<Rightarrow>
                 let kept = filter (\<lambda>x. \<not> matches_list (items existing) (items remove) x) (items existing) in
                 if kept = [] then []
                 else MarshalFindingsJSON ((FindingsMetadata existing)\<lparr>fs_Items := Some kept\<rparr>)))"

definition retainMatchingFindingsJSON :: "string \<Rightarrow> string \<Rightarrow> string" where
  "retainMatchingFindingsJSON existingRaw keepRaw =
     (if existingRaw = [] \<or> keepRaw = [] then []
      else case ParseFindingsJSON existingRaw of
          None \<Rightarrow> []
        | Some existing \<Rightarrow>
            (case ParseFindingsJSON keepRaw of
               None \<Rightarrow> []
             | Some keep \<Rightarrow>
                 let kept = filter (matches_list (items existing) (items keep)) (items existing) in
                 if kept = [] then []
                 else MarshalFindingsJSON ((FindingsMetadata existing)\<lparr>fs_Items := Some kept\<rparr>)))"

section \<open>Selected identities\<close>

text \<open>\<open>byID[item.ID] = item\<close> for every item that has an identifier.\<close>

fun by_id :: "Finding list \<Rightarrow> (string \<rightharpoonup> Finding) \<Rightarrow> (string \<rightharpoonup> Finding)" where
  "by_id [] m = m"
| "by_id (x # xs) m = by_id xs (if f_ID x \<noteq> [] then m(f_ID x \<mapsto> x) else m)"

fun by_id_missing :: "Finding list \<Rightarrow> (string \<rightharpoonup> Finding) \<Rightarrow> (string \<rightharpoonup> Finding)" where
  "by_id_missing [] m = m"
| "by_id_missing (x # xs) m =
     by_id_missing xs (if f_ID x \<noteq> [] \<and> m (f_ID x) = None then m(f_ID x \<mapsto> x) else m)"

fun record_ids :: "string list \<Rightarrow> (string \<rightharpoonup> Finding) \<Rightarrow> (string \<rightharpoonup> Finding) \<Rightarrow> (string \<rightharpoonup> Finding)" where
  "record_ids [] byID identity = identity"
| "record_ids (i # is) byID identity =
     record_ids is byID (case byID i of Some x \<Rightarrow> identity(i \<mapsto> x) | None \<Rightarrow> identity)"

definition optional_items :: "string option \<Rightarrow> Finding list" where
  "optional_items raw = (case raw of None \<Rightarrow> [] | Some r \<Rightarrow> parsed_items r)"

definition round_by_id :: "StepRound \<Rightarrow> (string \<rightharpoonup> Finding)" where
  "round_by_id r =
     by_id_missing (optional_items (sr_UserFindingsJSON r)) (by_id (optional_items (sr_FindingsJSON r)) Map.empty)"

fun selected_identities_from ::
  "(string \<rightharpoonup> Finding) \<Rightarrow> StepRound list \<Rightarrow> (string \<rightharpoonup> Finding)" where
  "selected_identities_from identity [] = identity"
| "selected_identities_from identity (r # rs) =
     (case sr_SelectedFindingIDs r of
        None \<Rightarrow> selected_identities_from identity rs
      | Some raw \<Rightarrow>
          let ids = findingIDsFromSelectionJSON raw in
          if ids = [] then selected_identities_from identity rs
          else selected_identities_from (record_ids ids (round_by_id r) identity) rs)"

definition selectedFindingIdentities :: "StepRound list \<Rightarrow> (string \<rightharpoonup> Finding)" where
  "selectedFindingIdentities rounds = selected_identities_from Map.empty rounds"

definition retainFindingIDsByIdentity ::
  "string \<Rightarrow> string list \<Rightarrow> (string \<rightharpoonup> Finding) \<Rightarrow> string list" where
  "retainFindingIDsByIdentity latestRaw ids identity =
     (if ids = [] \<or> latestRaw = [] then []
      else case ParseFindingsJSON latestRaw of
          None \<Rightarrow> []
        | Some latest \<Rightarrow>
            let byID = by_id (items latest) Map.empty in
            filter (\<lambda>i. case byID i of
                None \<Rightarrow> False
              | Some current \<Rightarrow>
                  (case identity i of
                     None \<Rightarrow> False
                   | Some want \<Rightarrow> findingKey current = findingKey want)) ids)"

section \<open>Re-identifying selected findings\<close>

text \<open>The first unused index of the merged list that satisfies a test.\<close>

fun first_unused :: "(Finding \<Rightarrow> bool) \<Rightarrow> nat list \<Rightarrow> nat \<Rightarrow> Finding list \<Rightarrow> (nat \<times> Finding) option" where
  "first_unused P used j [] = None"
| "first_unused P used j (m # ms) =
     (if j \<in> set used \<or> \<not> P m then first_unused P used (Suc j) ms else Some (j, m))"

fun remap_items ::
  "(findingIdentity \<Rightarrow> nat) \<Rightarrow> (findingIdentity \<Rightarrow> nat) \<Rightarrow> Finding list \<Rightarrow> nat list \<Rightarrow> Finding list
     \<Rightarrow> Finding list" where
  "remap_items sc mc merged used [] = []"
| "remap_items sc mc merged used (x # xs) =
     (case first_unused (\<lambda>m. findingKey x = findingKey m) used 0 merged of
        Some (j, m) \<Rightarrow> x\<lparr>f_ID := f_ID m\<rparr> # remap_items sc mc merged (j # used) xs
      | None \<Rightarrow>
          let fp = findingFingerprint x in
          if sc fp \<noteq> 1 \<or> mc fp \<noteq> 1 then x # remap_items sc mc merged used xs
          else (case first_unused (\<lambda>m. findingFingerprint m = fp) used 0 merged of
              Some (j, m) \<Rightarrow> x\<lparr>f_ID := f_ID m\<rparr> # remap_items sc mc merged (j # used) xs
            | None \<Rightarrow> x # remap_items sc mc merged used xs))"

definition remapFindingIDsJSON :: "string \<Rightarrow> string \<Rightarrow> string" where
  "remapFindingIDsJSON mergedRaw selectedRaw =
     (if mergedRaw = [] \<or> selectedRaw = [] then selectedRaw
      else case ParseFindingsJSON mergedRaw of
          None \<Rightarrow> selectedRaw
        | Some merged \<Rightarrow>
            (case ParseFindingsJSON selectedRaw of
               None \<Rightarrow> selectedRaw
             | Some selected \<Rightarrow>
                 MarshalFindingsJSON (selected\<lparr>fs_Items :=
                   map_option (remap_items (countFindingFingerprints (items selected))
                     (countFindingFingerprints (items merged)) (items merged) []) (fs_Items selected)\<rparr>)))"

section \<open>Clearing by positive verification\<close>

text \<open>What one review round says, as far as clearing is concerned.\<close>

record round_report =
  rr_pending :: "string list"
  rr_covered :: "string set"
  rr_fully_covered :: bool
  rr_items :: "Finding list"
  rr_resolved_anchors :: "string list list"

definition reported_files :: "Finding list \<Rightarrow> string set" where
  "reported_files xs = set (filter (\<lambda>p. p \<noteq> []) (map (\<lambda>x. normalizeCoveredPath (f_File x)) xs))"

definition has_unanchored :: "Finding list \<Rightarrow> bool" where
  "has_unanchored xs \<longleftrightarrow> list_ex (\<lambda>x. normalizeCoveredPath (f_File x) = []) xs"

definition clears :: "round_report \<Rightarrow> Finding list \<Rightarrow> Finding \<Rightarrow> bool" where
  "clears r outstanding x \<longleftrightarrow>
     (let file = normalizeCoveredPath (f_File x);
          anchor = (length (rr_resolved_anchors r) = 1 \<and> f_ID x \<in> set (hd (rr_resolved_anchors r)) \<and>
            rr_fully_covered r \<and> rr_items r = []) in
      f_ID x \<in> set (rr_pending r) \<and> \<not> has_unanchored (rr_items r) \<and>
      (file \<in> rr_covered r \<or> file = [] \<and> rr_fully_covered r \<or> anchor) \<and>
      \<not> matches_list outstanding (rr_items r) x \<and> file \<notin> reported_files (rr_items r))"

definition nonempty_paths :: "string list \<Rightarrow> string set" where
  "nonempty_paths ps = set (filter (\<lambda>p. p \<noteq> []) (map normalizeCoveredPath ps))"

definition resolveVerifiedFindingsJSON ::
  "string \<Rightarrow> string list \<Rightarrow> string list \<Rightarrow> string list \<Rightarrow> string \<Rightarrow> string list list \<Rightarrow> string" where
  "resolveVerifiedFindingsJSON outstandingRaw pendingIDs reviewedPaths reviewablePaths thisRoundRaw anchors =
     (if outstandingRaw = [] \<or> pendingIDs = [] \<or> reviewedPaths = [] then outstandingRaw
      else case ParseFindingsJSON outstandingRaw of
          None \<Rightarrow> outstandingRaw
        | Some outstanding \<Rightarrow>
            let pending = filter (\<lambda>i. i \<noteq> []) pendingIDs;
                reviewable = nonempty_paths reviewablePaths;
                covered = set (map normalizeCoveredPath reviewedPaths) in
            if pending = [] then outstandingRaw
            else if reviewable = {} then outstandingRaw
            else if list_ex (\<lambda>p. normalizeCoveredPath p = [] \<or> normalizeCoveredPath p \<notin> reviewable) reviewedPaths
            then outstandingRaw
            else if ParseFindingsJSON thisRoundRaw = None \<and> thisRoundRaw \<noteq> [] then outstandingRaw
            else let report = \<lparr> rr_pending = pending, rr_covered = covered,
                       rr_fully_covered = (card covered = card reviewable),
                       rr_items = parsed_items thisRoundRaw, rr_resolved_anchors = anchors \<rparr>;
                     kept = filter (\<lambda>x. \<not> clears report (items outstanding) x) (items outstanding) in
              if length kept = length (items outstanding) then outstandingRaw
              else if kept = [] then []
              else MarshalFindingsJSON ((FindingsMetadata outstanding)\<lparr>fs_Items := Some kept\<rparr>))"

section \<open>Adding a round to the outstanding set\<close>

definition nextFreeReviewFindingID :: "string list \<Rightarrow> string" where
  "nextFreeReviewFindingID seen = free_id seen ''review'' 1"

fun dedup_ids :: "string list \<Rightarrow> Finding list \<Rightarrow> Finding list" where
  "dedup_ids seen [] = []"
| "dedup_ids seen (x # xs) =
     (if f_ID x \<noteq> [] \<and> f_ID x \<notin> set seen then x # dedup_ids (f_ID x # seen) xs
      else let i = nextFreeReviewFindingID seen in x\<lparr>f_ID := i\<rparr> # dedup_ids (i # seen) xs)"

definition mergeOutstandingFindingsJSON :: "string \<Rightarrow> string \<Rightarrow> string list \<Rightarrow> string" where
  "mergeOutstandingFindingsJSON existingRaw additionalRaw reviewedPaths =
     (if additionalRaw = [] then
        (if existingRaw = [] then []
         else case ParseFindingsJSON existingRaw of
             None \<Rightarrow> existingRaw
           | Some fs \<Rightarrow>
               MarshalFindingsJSON (fs\<lparr>fs_ReviewedPaths := reviewedPaths, fs_WithdrawnFindings := []\<rparr>))
      else let mergedRaw = mergeFindingsJSON existingRaw additionalRaw in
        if mergedRaw = [] then []
        else case ParseFindingsJSON mergedRaw of
            None \<Rightarrow> mergedRaw
          | Some merged \<Rightarrow>
              MarshalFindingsJSON (merged\<lparr>fs_ReviewedPaths := reviewedPaths, fs_WithdrawnFindings := [],
                fs_Items := map_option (dedup_ids []) (fs_Items merged)\<rparr>))"

section \<open>Storable payloads\<close>

lemma storable_items: "storable fs \<Longrightarrow> x \<in> set (items fs) \<Longrightarrow> finding_ok x"
  by (auto simp: storable_def utf8_findings_def int64_findings_def finding_ok_def list_all_iff)

lemma storable_metadata: "storable fs \<Longrightarrow> storable (FindingsMetadata fs)"
  by (auto simp: storable_def utf8_findings_def int64_findings_def FindingsMetadata_def)

lemma storable_with_items:
  "storable fs \<Longrightarrow> list_all finding_ok (elems xs) \<Longrightarrow> storable (fs\<lparr>fs_Items := xs\<rparr>)"
  by (auto simp: storable_def utf8_findings_def int64_findings_def finding_ok_def list_all_iff)

lemma storable_kept:
  "storable fs \<Longrightarrow> storable ((FindingsMetadata fs)\<lparr>fs_Items := Some (filter P (items fs))\<rparr>)"
  by (auto simp: list_all_iff intro!: storable_with_items storable_metadata dest: storable_items)

lemma marshal_not_Nil [simp]: "MarshalFindingsJSON fs \<noteq> []"
  by (rule fjson.marshal_nonempty_law)

lemma parsed_items_marshal [simp]: "storable fs \<Longrightarrow> parsed_items (MarshalFindingsJSON fs) = items fs"
  by (simp add: parsed_items_def fjson.parse_marshal_law)

lemma parse_Nil [simp]: "ParseFindingsJSON [] = None"
  by (simp add: ParseFindingsJSON_def json_parse_def)

lemma parsed_items_Nil [simp]: "parsed_items [] = []"
  by (simp add: parsed_items_def)

section \<open>Identity lemmas\<close>

definition refreshed :: "Finding \<Rightarrow> Finding \<Rightarrow> bool" where
  "refreshed m m' \<longleftrightarrow> m' = m\<lparr>f_Support := f_Support m', f_File := f_File m', f_Line := f_Line m'\<rparr>"

lemma findingKey_fp: "findingKey a = findingKey b \<Longrightarrow> findingFingerprint a = findingFingerprint b"
  by (simp add: findingFingerprint_def)

lemma fp_refresh:
  assumes "findingFingerprint m = findingFingerprint x"
  shows "findingKey (m\<lparr>f_Support := f_Support x, f_File := f_File x, f_Line := f_Line x\<rparr>) = findingKey x"
proof -
  have "(fi_finding (findingKey m))\<lparr>f_Line := 0\<rparr> = (fi_finding (findingKey x))\<lparr>f_Line := 0\<rparr>"
    using assms by (simp add: findingFingerprint_def Let_def) (metis findingIdentity.ext_inject findingIdentity.surjective findingIdentity.update_convs(1))
  then show ?thesis
    by (cases m; cases x) (simp add: findingKey_def support_part_def)
qed

lemma refresh_first_Some:
  assumes "refresh_first P x ms = Some ms'" "\<And>m. P m \<Longrightarrow> findingFingerprint m = findingFingerprint x"
  shows "list_all2 refreshed ms ms' \<and> map findingFingerprint ms' = map findingFingerprint ms \<and>
    (finding_ok x \<longrightarrow> list_all finding_ok ms \<longrightarrow> list_all finding_ok ms')"
  using assms(1)
proof (induction ms arbitrary: ms')
  case (Cons m ms)
  have r: "list_all2 refreshed xs xs" for xs by (simp add: list_all2_same refreshed_def)
  show ?case
  proof (cases "P m")
    case True
    then have "findingFingerprint (m\<lparr>f_Support := f_Support x, f_File := f_File x, f_Line := f_Line x\<rparr>)
        = findingFingerprint m"
      using findingKey_fp [OF fp_refresh [OF assms(2)]] assms(2) by simp
    moreover have "refreshed m (m\<lparr>f_Support := f_Support x, f_File := f_File x, f_Line := f_Line x\<rparr>)"
      by (simp add: refreshed_def)
    moreover have "finding_ok x \<Longrightarrow> finding_ok m \<Longrightarrow>
        finding_ok (m\<lparr>f_Support := f_Support x, f_File := f_File x, f_Line := f_Line x\<rparr>)"
      by (simp add: finding_ok_def utf8_finding_def int64_finding_def)
    ultimately show ?thesis using Cons.prems True r by auto
  next
    case False
    moreover have "refreshed m m" by (simp add: refreshed_def)
    ultimately show ?thesis using Cons by auto
  qed
qed simp

lemma refreshed_trans: "refreshed a b \<Longrightarrow> refreshed b c \<Longrightarrow> refreshed a c"
  unfolding refreshed_def by (cases a; cases b; cases c) simp

lemma merge_additional_spec:
  assumes "list_all finding_ok merged" "list_all finding_ok xs" "set seen \<subseteq> findingKey ` set merged"
    "\<And>k. ec k = 1 \<Longrightarrow> k \<in> findingFingerprint ` set merged"
  shows "\<exists>kept added. merge_additional ac ec merged seen xs = kept @ added \<and>
    list_all2 refreshed merged kept \<and> list_all finding_ok (kept @ added) \<and>
    findingFingerprint ` set (kept @ added) = findingFingerprint ` set merged \<union> findingFingerprint ` set xs"
  using assms
proof (induction xs arbitrary: merged seen)
  case Nil
  have "list_all2 refreshed merged merged" by (simp add: list_all2_same refreshed_def)
  then show ?case using Nil by (intro exI [of _ merged] exI [of _ "[]"]) simp
next
  case (Cons x xs)
  let ?fp = findingFingerprint
  have present: "?fp x \<in> ?fp ` set merged" if "hasFindingMatch x seen ac ec"
  proof (cases "findingKey x \<in> set seen")
    case True
    then obtain m where "m \<in> set merged" "findingKey x = findingKey m" using Cons.prems(3) by blast
    then show ?thesis using findingKey_fp by (metis image_eqI)
  next
    case False
    then show ?thesis using that Cons.prems(4) by (simp add: hasFindingMatch_def)
  qed
  show ?case
  proof (cases "hasFindingMatch x seen ac ec")
    case True
    define P where "P m \<longleftrightarrow> findingKey m = findingKey x \<or> (ac (?fp x) = 1 \<and> ec (?fp x) = 1) \<and> ?fp m = ?fp x" for m
    have P: "P = (\<lambda>m. findingKey m = findingKey x \<or> (ac (?fp x) = 1 \<and> ec (?fp x) = 1) \<and> ?fp m = ?fp x)"
      by (simp add: P_def fun_eq_iff)
    show ?thesis
    proof (cases "f_Support x \<noteq> None \<and> refresh_first P x merged \<noteq> None")
      case False
      then have "merge_additional ac ec merged seen (x # xs) = merge_additional ac ec merged seen xs"
        using True by (auto simp: P Let_def split: option.split)
      then show ?thesis using Cons present [OF True] by (simp add: insert_absorb)
    next
      case True2: True
      then obtain merged' where m: "refresh_first P x merged = Some merged'" by auto
      have e: "merge_additional ac ec merged seen (x # xs) =
          merge_additional ac ec merged' (map findingKey merged') xs"
        using True conjunct1 [OF True2] m [unfolded P] by (simp add: Let_def)
      have pm: "\<And>m. P m \<Longrightarrow> ?fp m = ?fp x" unfolding P_def by (blast intro: findingKey_fp)
      have r: "list_all2 refreshed merged merged'" "map ?fp merged' = map ?fp merged"
        "list_all finding_ok merged'"
        using refresh_first_Some [OF m pm] Cons.prems(1,2) by simp_all
      have s: "?fp ` set merged' = ?fp ` set merged" using r(2) by (metis set_map)
      obtain kept added where k: "merge_additional ac ec merged' (map findingKey merged') xs = kept @ added"
        "list_all2 refreshed merged' kept" "list_all finding_ok (kept @ added)"
        "?fp ` set (kept @ added) = ?fp ` set merged' \<union> ?fp ` set xs"
        using Cons.IH [of merged' "map findingKey merged'"] Cons.prems r s by auto
      have "list_all2 refreshed merged kept"
        using r(1) k(2) list_all2_trans [of refreshed refreshed refreshed] refreshed_trans by blast
      then show ?thesis using k e s present [OF True]
        by (intro exI [of _ kept] exI [of _ added]) (simp add: insert_absorb)
    qed
  next
    case False
    then have new: "findingKey x \<notin> set seen" by (simp add: hasFindingMatch_def split: if_splits)
    have sub: "set (findingKey x # seen) \<subseteq> findingKey ` set (merged @ [x])" using Cons.prems(3) by auto
    obtain kept added where k: "merge_additional ac ec (merged @ [x]) (findingKey x # seen) xs = kept @ added"
      "list_all2 refreshed (merged @ [x]) kept" "list_all finding_ok (kept @ added)"
      "?fp ` set (kept @ added) = ?fp ` set (merged @ [x]) \<union> ?fp ` set xs"
      using Cons.IH [OF _ _ sub] Cons.prems(1,2,4) by auto
    then obtain kept1 y where y: "kept = kept1 @ [y]" "list_all2 refreshed merged kept1"
      by (auto simp: list_all2_append1 list_all2_Cons1)
    then show ?thesis using k False new
      by (intro exI [of _ kept1] exI [of _ "y # added"]) auto
  qed
qed

lemma count_one_in: "countFindingFingerprints xs k = 1 \<Longrightarrow> k \<in> findingFingerprint ` set xs"
  unfolding countFindingFingerprints_def
  by (metis count_list_0_iff list.set_map zero_neq_one)

lemma merge_items_of_spec:
  assumes "list_all finding_ok es" "list_all finding_ok xs"
  shows "\<exists>kept added. merge_items_of es xs = kept @ added \<and>
    list_all2 refreshed es kept \<and> list_all finding_ok (kept @ added) \<and>
    findingFingerprint ` set (kept @ added) = findingFingerprint ` set es \<union> findingFingerprint ` set xs"
  unfolding merge_items_of_def
  by (rule merge_additional_spec) (use assms count_one_in in auto)

lemma parse_items_ok: "ParseFindingsJSON raw = Some fs \<Longrightarrow> list_all finding_ok (items fs)"
  using parse_storable storable_items by (auto simp: list_all_iff)

lemma storable_merge_metadata:
  "storable e \<Longrightarrow> storable a \<Longrightarrow> storable (merge_metadata e a)"
  by (auto simp: merge_metadata_def Let_def storable_def utf8_findings_def int64_findings_def
      FindingsMetadata_def)

lemma merge_raw:
  assumes "ParseFindingsJSON e = Some es" "ParseFindingsJSON a = Some xs"
  shows "parsed_items (mergeFindingsJSON e a) = merge_items_of (items es) (items xs) \<and>
    (mergeFindingsJSON e a \<noteq> [] \<longrightarrow> (\<exists>ms. ParseFindingsJSON (mergeFindingsJSON e a) = Some ms \<and>
       ms = (merge_metadata es xs)\<lparr>fs_Items := Some (merge_items_of (items es) (items xs))\<rparr> \<and> storable ms))"
proof -
  have ne: "e \<noteq> []" "a \<noteq> []" using assms by auto
  let ?ms = "(merge_metadata es xs)\<lparr>fs_Items := Some (merge_items_of (items es) (items xs))\<rparr>"
  have "list_all finding_ok (merge_items_of (items es) (items xs))"
    using merge_items_of_spec [OF parse_items_ok [OF assms(1)] parse_items_ok [OF assms(2)]] by auto
  then have "storable ?ms"
    using assms parse_storable by (auto intro!: storable_with_items storable_merge_metadata)
  then show ?thesis
    using assms ne by (auto simp: mergeFindingsJSON_def Let_def fjson.parse_marshal_law)
qed

text \<open>Merging two stored payloads loses nothing: the existing findings stay in place, only their
  support, file and line may be refreshed from a matching additional finding, new findings
  come after them, and the defects (fingerprints) of the result are those of the two inputs.
\<close>

theorem merge_keeps_everything:
  assumes "ParseFindingsJSON e = Some es" "ParseFindingsJSON a = Some xs"
  shows "\<exists>kept added. parsed_items (mergeFindingsJSON e a) = kept @ added \<and>
    list_all2 refreshed (items es) kept \<and>
    findingFingerprint ` set (kept @ added) =
      findingFingerprint ` set (items es) \<union> findingFingerprint ` set (items xs)"
  using merge_raw [OF assms] merge_items_of_spec [OF parse_items_ok [OF assms(1)] parse_items_ok [OF assms(2)]]
  by metis

definition sample_item :: "string \<Rightarrow> string \<Rightarrow> Finding" where
  "sample_item i d = zero_finding\<lparr>f_ID := i, f_Severity := FindingSeverityError, f_Description := d\<rparr>"

definition sample_payload :: "Finding list \<Rightarrow> Findings" where
  "sample_payload xs = zero_findings\<lparr>fs_Items := Some xs\<rparr>"

lemma sample_storable: "list_all finding_ok xs \<Longrightarrow> storable (sample_payload xs)"
  by (simp add: sample_payload_def storable_def zero_findings_def utf8_findings_def int64_findings_def
      finding_ok_def list_all_iff)

lemma sample_item_ok: "valid_utf8 i \<Longrightarrow> valid_utf8 d \<Longrightarrow> finding_ok (sample_item i d)"
  using finding_ok_zero
  by (simp add: sample_item_def finding_ok_def utf8_finding_def int64_finding_def finding_severity_defs)

lemma sample_parse:
  "list_all finding_ok xs \<Longrightarrow> ParseFindingsJSON (MarshalFindingsJSON (sample_payload xs)) = Some (sample_payload xs)"
  by (rule fjson.parse_marshal_law) (rule sample_storable)

lemma sample_items [simp]: "items (sample_payload xs) = xs"
  by (simp add: sample_payload_def)

theorem merge_keeps_everything_witness:
  "\<exists>kept added. parsed_items (mergeFindingsJSON (MarshalFindingsJSON (sample_payload [sample_item ''a'' ''x'']))
      (MarshalFindingsJSON (sample_payload [sample_item ''a'' ''y'']))) = kept @ added \<and>
    list_all2 refreshed [sample_item ''a'' ''x''] kept"
proof -
  have "ParseFindingsJSON (MarshalFindingsJSON (sample_payload [sample_item ''a'' d])) =
      Some (sample_payload [sample_item ''a'' d])" if "d = ''x'' \<or> d = ''y''" for d
    using that by (intro sample_parse) (auto intro!: sample_item_ok)
  then show ?thesis
    using merge_keeps_everything [of "MarshalFindingsJSON (sample_payload [sample_item ''a'' ''x''])"
        "sample_payload [sample_item ''a'' ''x'']"
        "MarshalFindingsJSON (sample_payload [sample_item ''a'' ''y''])"
        "sample_payload [sample_item ''a'' ''y'']"] by (metis sample_items)
qed

lemma dedup_ids_spec:
  "distinct (map f_ID (dedup_ids seen xs)) \<and> f_ID ` set (dedup_ids seen xs) \<inter> insert [] (set seen) = {} \<and>
   list_all2 (\<lambda>x y. y = x\<lparr>f_ID := f_ID y\<rparr> \<and> findingKey y = findingKey x) xs (dedup_ids seen xs)"
proof (induction xs arbitrary: seen)
  case (Cons x xs)
  define i where "i = (if f_ID x \<noteq> [] \<and> f_ID x \<notin> set seen then f_ID x else nextFreeReviewFindingID seen)"
  have e: "dedup_ids seen (x # xs) = x\<lparr>f_ID := i\<rparr> # dedup_ids (i # seen) xs"
    by (simp add: i_def Let_def)
  have "i \<notin> set seen" "i \<noteq> []" by (auto simp: i_def nextFreeReviewFindingID_def)
  moreover have "findingKey (x\<lparr>f_ID := i\<rparr>) = findingKey x" by (simp add: findingKey_def support_part_def)
  ultimately show ?case unfolding e using Cons [of "i # seen"] by auto
qed simp

lemma valid_free_id: "valid_utf8 p \<Longrightarrow> valid_utf8 (free_id used p n)"
proof -
  assume p: "valid_utf8 p"
  obtain m where "free_id used p n = p @ ''-'' @ dec m" using free_id_spec [of n used p] by blast
  moreover have "valid_utf8 (''-'' @ dec m)"
    using dec_digits [of m] by (intro valid_utf8_ascii) (auto simp: is_digit_def)
  ultimately show ?thesis using p valid_utf8_append by metis
qed

lemma finding_ok_ID: "finding_ok x \<Longrightarrow> valid_utf8 i \<Longrightarrow> finding_ok (x\<lparr>f_ID := i\<rparr>)"
  by (simp add: finding_ok_def utf8_finding_def int64_finding_def)

lemma dedup_ids_ok: "list_all finding_ok xs \<Longrightarrow> list_all finding_ok (dedup_ids seen xs)"
  by (induction seen xs rule: dedup_ids.induct)
    (auto simp: Let_def nextFreeReviewFindingID_def intro!: finding_ok_ID valid_free_id)

lemma storable_dedup:
  assumes "storable fs" "list_all valid_utf8 paths"
  shows "storable (fs\<lparr>fs_ReviewedPaths := paths, fs_WithdrawnFindings := [],
    fs_Items := map_option (dedup_ids []) (fs_Items fs)\<rparr>)"
proof (rule storable_with_items)
  show "storable (fs\<lparr>fs_ReviewedPaths := paths, fs_WithdrawnFindings := []\<rparr>)"
    using assms by (auto simp: storable_def utf8_findings_def int64_findings_def)
  have "list_all finding_ok (items fs)" using assms storable_items by (auto simp: list_all_iff)
  then show "list_all finding_ok (elems (map_option (dedup_ids []) (fs_Items fs)))"
    by (cases "fs_Items fs") (auto intro: dedup_ids_ok)
qed

lemma dedup_fingerprints:
  "findingFingerprint ` set (dedup_ids seen xs) = findingFingerprint ` set xs"
proof -
  have "map findingFingerprint (dedup_ids seen xs) = map findingFingerprint xs"
    using conjunct2 [OF conjunct2 [OF dedup_ids_spec [of seen xs]]]
    by (induction rule: list_all2_induct) (auto intro: findingKey_fp)
  then show ?thesis by (metis set_map)
qed

lemma merge_nonempty:
  assumes "ParseFindingsJSON e = Some es" "ParseFindingsJSON a = Some xs" "items es \<noteq> []"
  shows "mergeFindingsJSON e a \<noteq> []"
proof -
  obtain kept added where "merge_items_of (items es) (items xs) = kept @ added" "list_all2 refreshed (items es) kept"
    using merge_items_of_spec [OF parse_items_ok [OF assms(1)] parse_items_ok [OF assms(2)]] by auto
  then have "parsed_items (mergeFindingsJSON e a) \<noteq> []"
    using merge_raw [OF assms(1,2)] assms(3) by (auto simp: list_all2_Cons1 neq_Nil_conv)
  then show ?thesis by auto
qed

lemma merge_outstanding_raw:
  assumes "ParseFindingsJSON e = Some es" "ParseFindingsJSON a = Some xs" "list_all valid_utf8 paths"
    "mergeFindingsJSON e a \<noteq> []"
  shows "\<exists>fs. ParseFindingsJSON (mergeOutstandingFindingsJSON e a paths) = Some fs \<and>
    fs = (merge_metadata es xs)\<lparr>fs_Items := Some (dedup_ids [] (merge_items_of (items es) (items xs))),
      fs_ReviewedPaths := paths, fs_WithdrawnFindings := []\<rparr>"
proof -
  have ne: "a \<noteq> []" using assms(2) by auto
  obtain ms where ms: "ParseFindingsJSON (mergeFindingsJSON e a) = Some ms" "storable ms"
    "ms = (merge_metadata es xs)\<lparr>fs_Items := Some (merge_items_of (items es) (items xs))\<rparr>"
    using merge_raw [OF assms(1,2)] assms(4) by blast
  then show ?thesis
    using ne assms(4) fjson.parse_marshal_law [OF storable_dedup [OF ms(2) assms(3)]]
    by (simp add: mergeOutstandingFindingsJSON_def Let_def)
qed

text \<open>Adding a review round to the outstanding set is append-only: every defect outstanding before
  and every defect the round reports is in the result, which carries the round's own coverage
  record and no retractions, and whose identifiers are distinct and non-empty, so a selection by
  identifier names one finding.
\<close>

theorem outstanding_append_only:
  assumes "ParseFindingsJSON e = Some es" "ParseFindingsJSON a = Some xs" "list_all valid_utf8 paths"
    "mergeFindingsJSON e a \<noteq> []"
  shows "\<exists>fs. ParseFindingsJSON (mergeOutstandingFindingsJSON e a paths) = Some fs \<and>
    findingFingerprint ` set (items fs) =
      findingFingerprint ` set (items es) \<union> findingFingerprint ` set (items xs) \<and>
    length (items es) \<le> length (items fs) \<and> distinct (map f_ID (items fs)) \<and> [] \<notin> f_ID ` set (items fs) \<and>
    fs_ReviewedPaths fs = paths \<and> fs_WithdrawnFindings fs = []"
proof -
  let ?is = "merge_items_of (items es) (items xs)"
  obtain kept added where k: "?is = kept @ added" "list_all2 refreshed (items es) kept"
    "findingFingerprint ` set (kept @ added) =
      findingFingerprint ` set (items es) \<union> findingFingerprint ` set (items xs)"
    using merge_items_of_spec [OF parse_items_ok [OF assms(1)] parse_items_ok [OF assms(2)]] by auto
  have l: "length (items es) \<le> length (dedup_ids [] ?is)"
    using k list_all2_lengthD [OF k(2)] dedup_ids_spec [of "[]" ?is]
    by (auto dest!: list_all2_lengthD)
  obtain fs where fs: "ParseFindingsJSON (mergeOutstandingFindingsJSON e a paths) = Some fs"
    "fs = (merge_metadata es xs)\<lparr>fs_Items := Some (dedup_ids [] ?is),
      fs_ReviewedPaths := paths, fs_WithdrawnFindings := []\<rparr>"
    using merge_outstanding_raw [OF assms] by blast
  have i: "items fs = dedup_ids [] ?is" "fs_ReviewedPaths fs = paths" "fs_WithdrawnFindings fs = []"
    by (simp_all add: fs(2))
  show ?thesis
    using fs(1) i l dedup_ids_spec [of "[]" ?is] dedup_fingerprints [of "[]" ?is] k(1,3) by auto
qed

theorem outstanding_append_only_witness:
  "\<exists>fs. ParseFindingsJSON (mergeOutstandingFindingsJSON
       (MarshalFindingsJSON (sample_payload [sample_item ''a'' ''x'']))
       (MarshalFindingsJSON (sample_payload [sample_item ''a'' ''y''])) [''main.go'']) = Some fs \<and>
     distinct (map f_ID (items fs)) \<and> fs_ReviewedPaths fs = [''main.go'']"
proof -
  have p: "ParseFindingsJSON (MarshalFindingsJSON (sample_payload [sample_item ''a'' d])) =
      Some (sample_payload [sample_item ''a'' d])" if "d = ''x'' \<or> d = ''y''" for d
    using that by (intro sample_parse) (auto intro!: sample_item_ok)
  have "mergeFindingsJSON (MarshalFindingsJSON (sample_payload [sample_item ''a'' ''x'']))
      (MarshalFindingsJSON (sample_payload [sample_item ''a'' ''y''])) \<noteq> []"
    by (rule merge_nonempty [OF p p]) simp_all
  then show ?thesis
    using outstanding_append_only [OF p p, of "''x''" "''y''" "[''main.go'']"] by (auto simp del: sample_items)
qed

section \<open>Leaving the outstanding set\<close>

lemma length_filter_all: "length (filter P xs) = length xs \<longleftrightarrow> filter P xs = xs"
  by (metis filter_id_conv length_filter_less less_irrefl)

lemma resolve_cases:
  assumes "ParseFindingsJSON outRaw = Some out"
  shows "parsed_items (resolveVerifiedFindingsJSON outRaw ids reviewed reviewable roundRaw anchors) = items out \<or>
    (\<exists>r. parsed_items (resolveVerifiedFindingsJSON outRaw ids reviewed reviewable roundRaw anchors) =
        filter (\<lambda>x. \<not> clears r (items out) x) (items out) \<and>
      rr_pending r = filter (\<lambda>i. i \<noteq> []) ids \<and> rr_covered r = normalizeCoveredPath ` set reviewed \<and>
      rr_fully_covered r = (card (rr_covered r) = card (nonempty_paths reviewable)) \<and>
      rr_items r = parsed_items roundRaw \<and> rr_resolved_anchors r = anchors \<and>
      reviewed \<noteq> [] \<and> rr_covered r \<subseteq> nonempty_paths reviewable \<and> [] \<notin> rr_covered r \<and>
      (ParseFindingsJSON roundRaw = None \<longrightarrow> roundRaw = []))"
proof -
  define r where "r = \<lparr> rr_pending = filter (\<lambda>i. i \<noteq> []) ids, rr_covered = normalizeCoveredPath ` set reviewed,
    rr_fully_covered = (card (normalizeCoveredPath ` set reviewed) = card (nonempty_paths reviewable)),
    rr_items = parsed_items roundRaw, rr_resolved_anchors = anchors \<rparr>"
  define kept where "kept = filter (\<lambda>x. \<not> clears r (items out) x) (items out)"
  let ?res = "resolveVerifiedFindingsJSON outRaw ids reviewed reviewable roundRaw anchors"
  define ok where "ok \<longleftrightarrow> ids \<noteq> [] \<and> reviewed \<noteq> [] \<and> filter (\<lambda>i. i \<noteq> []) ids \<noteq> [] \<and> nonempty_paths reviewable \<noteq> {} \<and>
    \<not> list_ex (\<lambda>p. normalizeCoveredPath p = [] \<or> normalizeCoveredPath p \<notin> nonempty_paths reviewable) reviewed \<and>
    \<not> (ParseFindingsJSON roundRaw = None \<and> roundRaw \<noteq> [])"
  have ne: "outRaw \<noteq> []" using assms by auto
  show ?thesis
  proof (cases "ok \<and> kept \<noteq> items out")
    case False
    then have "?res = outRaw"
      using assms by (auto simp: resolveVerifiedFindingsJSON_def Let_def ok_def kept_def r_def length_filter_all)
    then show ?thesis using assms by (simp add: parsed_items_def)
  next
    case True
    then have "?res = (if kept = [] then [] else MarshalFindingsJSON ((FindingsMetadata out)\<lparr>fs_Items := Some kept\<rparr>))"
      using assms ne by (auto simp: resolveVerifiedFindingsJSON_def Let_def ok_def kept_def r_def length_filter_all)
    then have "parsed_items ?res = kept"
      using storable_kept [OF parse_storable [OF assms]] by (simp add: kept_def)
    then have f1: "parsed_items ?res = filter (\<lambda>x. \<not> clears r (items out) x) (items out)"
      by (simp only: kept_def)
    have f2: "rr_covered r \<subseteq> nonempty_paths reviewable" "[] \<notin> rr_covered r"
      using True by (auto simp: r_def ok_def list_ex_iff)
    have f3: "reviewed \<noteq> []" "ParseFindingsJSON roundRaw = None \<longrightarrow> roundRaw = []"
      using True unfolding ok_def by auto
    have f4: "rr_pending r = filter (\<lambda>i. i \<noteq> []) ids" "rr_covered r = normalizeCoveredPath ` set reviewed"
      "rr_fully_covered r = (card (rr_covered r) = card (nonempty_paths reviewable))"
      "rr_items r = parsed_items roundRaw" "rr_resolved_anchors r = anchors"
      by (simp_all add: r_def)
    show ?thesis by (intro disjI2 exI [of _ r] conjI f1 f2 f3 f4)
  qed
qed

lemma matches_key: "\<not> matches_list own other x \<Longrightarrow> y \<in> set other \<Longrightarrow> findingKey x \<noteq> findingKey y"
  by (auto simp: matches_list_def hasFindingMatch_def split: if_splits)

text \<open>C10. A finding leaves the outstanding set of a review round only on positive verification: its
  identifier was selected for a fix, the round's output is readable and names only reviewable
  files, it covered the finding's file (or every reviewable path, when it has none or when its
  anchor was proved restored and the round is empty), and reported neither the same finding, nor
  any finding in the same file, nor any finding without a file. The others stay, in their order.
\<close>

theorem verified_resolution_sound:
  assumes "ParseFindingsJSON outRaw = Some out"
    and "x \<in> set (items out)"
    and "x \<notin> set (parsed_items (resolveVerifiedFindingsJSON outRaw ids reviewed reviewable roundRaw anchors))"
  shows "f_ID x \<in> set ids \<and> f_ID x \<noteq> [] \<and> reviewed \<noteq> [] \<and>
    normalizeCoveredPath ` set reviewed \<subseteq> nonempty_paths reviewable \<and>
    (ParseFindingsJSON roundRaw = None \<longrightarrow> roundRaw = []) \<and>
    (\<forall>y \<in> set (parsed_items roundRaw). \<not> SameFinding x y \<and>
       normalizeCoveredPath (f_File y) \<notin> {[], normalizeCoveredPath (f_File x)}) \<and>
    (normalizeCoveredPath (f_File x) \<in> normalizeCoveredPath ` set reviewed \<or>
     normalizeCoveredPath ` set reviewed = nonempty_paths reviewable \<and>
       (normalizeCoveredPath (f_File x) = [] \<or>
        (\<exists>anchor. anchors = [anchor] \<and> f_ID x \<in> set anchor \<and> parsed_items roundRaw = [])))"
proof -
  obtain r where r: "parsed_items (resolveVerifiedFindingsJSON outRaw ids reviewed reviewable roundRaw anchors) =
        filter (\<lambda>x. \<not> clears r (items out) x) (items out)"
      "rr_pending r = filter (\<lambda>i. i \<noteq> []) ids" "rr_covered r = normalizeCoveredPath ` set reviewed"
      "rr_fully_covered r = (card (rr_covered r) = card (nonempty_paths reviewable))"
      "rr_items r = parsed_items roundRaw" "rr_resolved_anchors r = anchors" "reviewed \<noteq> []"
      "rr_covered r \<subseteq> nonempty_paths reviewable" "ParseFindingsJSON roundRaw = None \<longrightarrow> roundRaw = []"
    using resolve_cases [OF assms(1), of ids reviewed reviewable roundRaw anchors] assms(2,3) by auto
  have c: "clears r (items out) x" using assms(2,3) r(1) by simp
  have full: "rr_fully_covered r \<Longrightarrow> rr_covered r = nonempty_paths reviewable"
    using r(4,8) by (metis card_subset_eq finite_set nonempty_paths_def)
  have anchor: "length anchors = 1 \<Longrightarrow> f_ID x \<in> set (hd anchors) \<Longrightarrow> \<exists>a. anchors = [a] \<and> f_ID x \<in> set a"
    by (cases anchors) auto
  have round: "\<not> SameFinding x y \<and> normalizeCoveredPath (f_File y) \<notin> {[], normalizeCoveredPath (f_File x)}"
    if "y \<in> set (parsed_items roundRaw)" for y
  proof -
    have "\<not> SameFinding x y"
      using c that r(5) matches_key by (auto simp: clears_def Let_def SameFinding_def)
    moreover have "normalizeCoveredPath (f_File y) \<noteq> []"
      using c that r(5) by (auto simp: clears_def Let_def has_unanchored_def list_ex_iff)
    moreover have "normalizeCoveredPath (f_File y) \<noteq> normalizeCoveredPath (f_File x)"
    proof
      assume same: "normalizeCoveredPath (f_File y) = normalizeCoveredPath (f_File x)"
      have "normalizeCoveredPath (f_File y) \<in> reported_files (rr_items r)"
        using that r(5) calculation(2) by (simp add: reported_files_def)
      then show False using c same by (simp add: clears_def Let_def)
    qed
    ultimately show ?thesis by simp
  qed
  show ?thesis
    using c r(2,3,5,6,7,8,9) full anchor round by (auto simp: clears_def Let_def)
qed

text \<open>A verified fix does clear: when the outstanding payload, the round's output and the coverage
  record are readable, a selected finding whose file the round covered, and about which the round
  reports nothing (no finding in that file, none without a file, no match), leaves the set.
\<close>

theorem verified_resolution_clears:
  assumes "ParseFindingsJSON outRaw = Some out" "x \<in> set (items out)" "f_ID x \<in> set ids" "f_ID x \<noteq> []"
    and "reviewed \<noteq> []" "[] \<notin> normalizeCoveredPath ` set reviewed"
    "normalizeCoveredPath ` set reviewed \<subseteq> nonempty_paths reviewable"
    and "normalizeCoveredPath (f_File x) \<in> normalizeCoveredPath ` set reviewed"
    and "ParseFindingsJSON roundRaw = Some rnd"
    and "\<forall>y \<in> set (items rnd). normalizeCoveredPath (f_File y) \<notin> {[], normalizeCoveredPath (f_File x)}"
    and "\<not> matches_list (items out) (items rnd) x"
  shows "x \<notin> set (parsed_items (resolveVerifiedFindingsJSON outRaw ids reviewed reviewable roundRaw anchors))"
proof -
  define r where "r = \<lparr> rr_pending = filter (\<lambda>i. i \<noteq> []) ids, rr_covered = normalizeCoveredPath ` set reviewed,
    rr_fully_covered = (card (normalizeCoveredPath ` set reviewed) = card (nonempty_paths reviewable)),
    rr_items = parsed_items roundRaw, rr_resolved_anchors = anchors \<rparr>"
  define kept where "kept = filter (\<lambda>x. \<not> clears r (items out) x) (items out)"
  have i: "parsed_items roundRaw = items rnd" using assms(9) by (simp add: parsed_items_def)
  have "\<not> has_unanchored (items rnd)" using assms(10) by (auto simp: has_unanchored_def list_ex_iff)
  moreover have "normalizeCoveredPath (f_File x) \<notin> reported_files (items rnd)"
    using assms(10) by (auto simp: reported_files_def)
  ultimately have c: "clears r (items out) x"
    using assms(3,4,8,11) by (simp add: clears_def r_def i Let_def)
  then have k1: "x \<notin> set kept" by (simp add: kept_def)
  then have k: "x \<notin> set kept" "kept \<noteq> items out" using assms(2) by auto
  have n: "\<forall>p \<in> set reviewed. normalizeCoveredPath p \<in> nonempty_paths reviewable \<and> normalizeCoveredPath p \<noteq> []"
    using assms(6,7) by (metis imageI subsetD)
  have some: "nonempty_paths reviewable \<noteq> {}" using n hd_in_set [OF assms(5)] by blast
  have conds: "outRaw \<noteq> []" "ids \<noteq> []" "filter (\<lambda>i. i \<noteq> []) ids \<noteq> []"
    "\<not> list_ex (\<lambda>p. normalizeCoveredPath p = [] \<or> normalizeCoveredPath p \<notin> nonempty_paths reviewable) reviewed"
    using assms(1,3,4) n by (auto simp: list_ex_iff filter_empty_conv)
  have "resolveVerifiedFindingsJSON outRaw ids reviewed reviewable roundRaw anchors =
      (if kept = [] then [] else MarshalFindingsJSON ((FindingsMetadata out)\<lparr>fs_Items := Some kept\<rparr>))"
    using assms(1,5,9) conds some k(2)
    by (simp add: resolveVerifiedFindingsJSON_def Let_def kept_def r_def length_filter_all)
  then have "parsed_items (resolveVerifiedFindingsJSON outRaw ids reviewed reviewable roundRaw anchors) = kept"
    using storable_kept [OF parse_storable [OF assms(1)]] by (simp add: kept_def)
  then show ?thesis using k(1) by simp
qed

definition located_item :: "string \<Rightarrow> string \<Rightarrow> Finding" where
  "located_item i p = (sample_item i ''d'')\<lparr>f_File := p\<rparr>"

lemma located_ok: "valid_utf8 i \<Longrightarrow> valid_utf8 p \<Longrightarrow> finding_ok (located_item i p)"
  using sample_item_ok [of i "''d''"]
  by (simp add: located_item_def finding_ok_def utf8_finding_def int64_finding_def)

lemma two_located: "list_all finding_ok [located_item ''r-1'' ''a.go'', located_item ''r-2'' ''b.go'']"
  by (simp add: located_ok)

lemma clean_a: "normalizeCoveredPath ''a.go'' = ''a.go''" "normalizeCoveredPath ''b.go'' = ''b.go''"
  "normalizeCoveredPath ''./a.go'' = ''a.go''"
  by (simp_all add: normalizeCoveredPath_def TrimSpace_plain plain_byte_def path_Clean_def HasPrefix_def)

theorem verified_resolution_clears_witness:
  "located_item ''r-1'' ''a.go'' \<notin> set (parsed_items (resolveVerifiedFindingsJSON
     (MarshalFindingsJSON (sample_payload [located_item ''r-1'' ''a.go'', located_item ''r-2'' ''b.go'']))
     [''r-1''] [''./a.go''] [''a.go'', ''b.go''] (MarshalFindingsJSON (sample_payload [])) []))"
  using sample_parse [OF two_located] sample_parse [of "[]"]
  by (intro verified_resolution_clears [of _
        "sample_payload [located_item ''r-1'' ''a.go'', located_item ''r-2'' ''b.go'']" _ _ _ _ _ "sample_payload []"])
    (simp_all add: clean_a located_item_def sample_item_def nonempty_paths_def matches_list_def
      hasFindingMatch_def countFindingFingerprints_def)

theorem verified_resolution_sound_witness:
  "located_item ''r-1'' ''a.go'' \<notin> set (parsed_items (resolveVerifiedFindingsJSON
     (MarshalFindingsJSON (sample_payload [located_item ''r-1'' ''a.go'']))
     [''r-1''] [''./a.go''] [''a.go''] (MarshalFindingsJSON (sample_payload [])) [])) \<and>
   f_ID (located_item ''r-1'' ''a.go'') \<in> set [''r-1'']"
proof -
  let ?out = "MarshalFindingsJSON (sample_payload [located_item ''r-1'' ''a.go''])"
  have p: "ParseFindingsJSON ?out = Some (sample_payload [located_item ''r-1'' ''a.go''])"
    by (rule sample_parse) (simp add: located_ok)
  have "parsed_items (resolveVerifiedFindingsJSON ?out [''r-1''] [''./a.go''] [''a.go'']
      (MarshalFindingsJSON (sample_payload [])) []) = []"
    using p sample_parse [of "[]"]
    by (simp add: resolveVerifiedFindingsJSON_def clean_a nonempty_paths_def clears_def Let_def
        located_item_def sample_item_def has_unanchored_def matches_list_def hasFindingMatch_def
        countFindingFingerprints_def reported_files_def parsed_items_def)
  then have c: "located_item ''r-1'' ''a.go'' \<notin> set (parsed_items (resolveVerifiedFindingsJSON ?out [''r-1'']
      [''./a.go''] [''a.go''] (MarshalFindingsJSON (sample_payload [])) []))" by simp
  then show ?thesis using verified_resolution_sound [OF p _ c] by (auto simp: located_item_def sample_item_def)
qed

section \<open>Identifiers across rounds\<close>

lemma by_id_Some: "by_id xs m i = Some x \<Longrightarrow> m i = Some x \<or> (x \<in> set xs \<and> f_ID x = i \<and> i \<noteq> [])"
  by (induction xs arbitrary: m) (fastforce split: if_splits)+

lemma by_id_missing_Some:
  "by_id_missing xs m i = Some x \<Longrightarrow> m i = Some x \<or> (x \<in> set xs \<and> f_ID x = i \<and> i \<noteq> [])"
  by (induction xs arbitrary: m) (fastforce split: if_splits)+

lemma round_by_id_Some:
  "round_by_id r i = Some x \<Longrightarrow> f_ID x = i \<and> i \<noteq> [] \<and>
     x \<in> set (optional_items (sr_FindingsJSON r)) \<union> set (optional_items (sr_UserFindingsJSON r))"
  unfolding round_by_id_def by (auto dest!: by_id_missing_Some by_id_Some)

lemma record_ids_Some:
  "record_ids ids byID m i = Some x \<Longrightarrow> m i = Some x \<or> (i \<in> set ids \<and> byID i = Some x)"
  by (induction ids arbitrary: m) (fastforce split: option.splits if_splits)+

definition selected_in :: "StepRound list \<Rightarrow> string \<Rightarrow> Finding \<Rightarrow> bool" where
  "selected_in rounds i x \<longleftrightarrow> (\<exists>r raw. r \<in> set rounds \<and> sr_SelectedFindingIDs r = Some raw \<and>
     i \<in> set (findingIDsFromSelectionJSON raw) \<and> f_ID x = i \<and>
     x \<in> set (optional_items (sr_FindingsJSON r)) \<union> set (optional_items (sr_UserFindingsJSON r)))"

lemma selected_identities_Some:
  "selected_identities_from m rounds i = Some x \<Longrightarrow> m i = Some x \<or> selected_in rounds i x"
proof (induction rounds arbitrary: m)
  case (Cons r rs)
  have later: "selected_in rs i x \<Longrightarrow> selected_in (r # rs) i x" by (auto simp: selected_in_def)
  show ?case
  proof (cases "sr_SelectedFindingIDs r")
    case None
    then show ?thesis using Cons later by auto
  next
    case (Some raw)
    let ?ids = "findingIDsFromSelectionJSON raw"
    consider "selected_identities_from m rs i = Some x"
      | "selected_identities_from (record_ids ?ids (round_by_id r) m) rs i = Some x"
      using Cons.prems Some by (auto simp: Let_def split: if_splits)
    then show ?thesis
    proof cases
      case 2
      then consider "record_ids ?ids (round_by_id r) m i = Some x" | "selected_in rs i x"
        using Cons.IH by blast
      then show ?thesis
      proof cases
        case 1
        from record_ids_Some [OF 1] show ?thesis
          using round_by_id_Some Some by (fastforce simp: selected_in_def)
      qed (use later in blast)
    qed (use Cons.IH later in blast)
  qed
qed simp

text \<open>After a restart an identifier stays selected only with proof: it names a finding of the latest
  payload, and some earlier round selected that identifier when it named a finding with the
  same content. A re-used identifier never carries a selection to another finding.
\<close>

theorem retained_selection_proved:
  assumes "i \<in> set (retainFindingIDsByIdentity latest ids (selectedFindingIdentities rounds))"
  shows "i \<in> set ids \<and> (\<exists>current want. current \<in> set (parsed_items latest) \<and> f_ID current = i \<and>
    selected_in rounds i want \<and> SameFinding current want)"
proof -
  obtain fs where fs: "ParseFindingsJSON latest = Some fs"
    using assms by (cases "ParseFindingsJSON latest") (auto simp: retainFindingIDsByIdentity_def split: if_splits)
  obtain c w where c: "i \<in> set ids" "by_id (items fs) Map.empty i = Some c"
    "selectedFindingIdentities rounds i = Some w" "findingKey c = findingKey w"
    using assms fs
    by (cases "by_id (items fs) Map.empty i"; cases "selectedFindingIdentities rounds i")
      (auto simp: retainFindingIDsByIdentity_def Let_def split: if_splits)
  then have "selected_in rounds i w"
    using selected_identities_Some [of Map.empty rounds i w] by (simp add: selectedFindingIdentities_def)
  moreover have "c \<in> set (parsed_items latest)" "f_ID c = i"
    using by_id_Some [OF c(2)] fs by (auto simp: parsed_items_def)
  ultimately show ?thesis using c by (auto simp: SameFinding_def)
qed

section \<open>Retractions\<close>

lemma withdrawn_reasons_Some:
  "withdrawn_reasons ws m i = Some v \<Longrightarrow> m i = Some v \<or> (\<lparr> wf_ID = i, wf_Reason = v \<rparr> \<in> set ws \<and> i \<noteq> [])"
proof (induction ws arbitrary: m)
  case (Cons w ws)
  then show ?case by (cases w) (fastforce split: if_splits)
qed simp

text \<open>An independent turn's retractions remove exactly the findings they name, never one the operator
  wrote: the findings that stay and the retractions reported as applied account for the whole
  payload, and each applied retraction repeats an identifier and a reason the turn gave.
\<close>

theorem withdrawal_exact:
  assumes "ParseFindingsJSON raw = Some fs"
  shows "\<exists>gone. mset (parsed_items (fst (dropWithdrawnFindingsJSON raw ws))) + mset gone = mset (items fs) \<and>
    map wf_ID (snd (dropWithdrawnFindingsJSON raw ws)) = map f_ID gone \<and>
    set (snd (dropWithdrawnFindingsJSON raw ws)) \<subseteq> set ws \<and>
    list_all (\<lambda>x. f_Source x \<noteq> FindingSourceUser) gone"
proof -
  define m where "m = withdrawn_reasons ws Map.empty"
  define gone where "gone = filter (retracts m) (items fs)"
  define kept where "kept = filter (\<lambda>x. \<not> retracts m x) (items fs)"
  define applied where "applied = map (\<lambda>x. \<lparr> wf_ID = f_ID x, wf_Reason = the (m (f_ID x)) \<rparr>) gone"
  have ne: "raw \<noteq> []" using assms by auto
  have split: "mset kept + mset gone = mset (items fs)"
    using mset_filter_split [of "retracts m" "items fs"] by (simp add: kept_def gone_def add.commute)
  have sub: "set applied \<subseteq> set ws"
  proof
    fix a assume "a \<in> set applied"
    then obtain x where x: "retracts m x" "a = \<lparr> wf_ID = f_ID x, wf_Reason = the (m (f_ID x)) \<rparr>"
      by (auto simp: applied_def gone_def)
    then obtain v where "m (f_ID x) = Some v" by (auto simp: retracts_def)
    then show "a \<in> set ws" using withdrawn_reasons_Some [of ws Map.empty "f_ID x" v] x by (simp add: m_def)
  qed
  have user: "list_all (\<lambda>x. f_Source x \<noteq> FindingSourceUser) gone"
    by (simp add: gone_def retracts_def list_all_iff)
  show ?thesis
  proof (cases "applied = [] \<or> ws = [] \<or> list_all (\<lambda>w. wf_ID w = []) ws")
    case True
    then have "dropWithdrawnFindingsJSON raw ws = (raw, [])"
      using assms ne by (auto simp: dropWithdrawnFindingsJSON_def Let_def applied_def gone_def m_def)
    then show ?thesis using assms by (intro exI [of _ "[]"]) (simp add: parsed_items_def)
  next
    case False
    then have "dropWithdrawnFindingsJSON raw ws =
        (if kept = [] then [] else MarshalFindingsJSON (fs\<lparr>fs_Items := Some kept\<rparr>), applied)"
      using assms ne by (simp add: dropWithdrawnFindingsJSON_def Let_def applied_def gone_def kept_def m_def)
    moreover have "storable (fs\<lparr>fs_Items := Some kept\<rparr>)"
      using parse_storable [OF assms] storable_items
      by (intro storable_with_items) (auto simp: kept_def list_all_iff)
    ultimately have "parsed_items (fst (dropWithdrawnFindingsJSON raw ws)) = kept"
      "snd (dropWithdrawnFindingsJSON raw ws) = applied" by simp_all
    then show ?thesis
      using split sub user by (intro exI [of _ gone]) (simp add: applied_def o_def)
  qed
qed

section \<open>Automatic repair ends\<close>

fun repair_chain :: "string list \<Rightarrow> bool" where
  "repair_chain (a # b # rs) = (gateAutoFixEligible b a [] True \<and> repair_chain (b # rs))"
| "repair_chain _ = True"

lemma eligible_decreases:
  "gateAutoFixEligible current previous [] True \<Longrightarrow> length (parsed_items current) < length (parsed_items previous)"
  by (auto simp: gateAutoFixEligible_def parsed_items_def split: option.splits if_splits)

text \<open>C11. Automatic repair of a command gate cannot go on for ever: in a run of rounds, each eligible
  after the one before it with nothing deferred, the number of findings strictly decreases, so
  there are at most as many repairs as the first round had findings; and no eligible round holds
  a finding that needs a human.
\<close>

theorem repair_chain_bounded:
  "(repair_chain (r # rs) \<longrightarrow> length rs \<le> length (parsed_items r)) \<and>
   (gateAutoFixEligible current previous deferred fixing \<longrightarrow>
      list_all (\<lambda>x. ActionOrDefault x \<noteq> ActionAskUser) (parsed_items current) \<and>
      list_ex (\<lambda>x. ActionOrDefault x = ActionAutoFix) (parsed_items current))"
proof (intro conjI impI)
  show "repair_chain (r # rs) \<Longrightarrow> length rs \<le> length (parsed_items r)"
  proof (induction rs arbitrary: r)
    case (Cons a rs)
    then have "length rs \<le> length (parsed_items a)" "length (parsed_items a) < length (parsed_items r)"
      using eligible_decreases [of a r] by simp_all
    then show ?case by simp
  qed simp
  assume e: "gateAutoFixEligible current previous deferred fixing"
  then obtain fs where fs: "ParseFindingsJSON current = Some fs" "\<not> HasAskUserFindings fs"
    "items (AutoFixableFindings fs) \<noteq> []"
    by (auto simp: gateAutoFixEligible_def split: option.splits if_splits)
  then show "list_all (\<lambda>x. ActionOrDefault x \<noteq> ActionAskUser) (parsed_items current)"
    and "list_ex (\<lambda>x. ActionOrDefault x = ActionAutoFix) (parsed_items current)"
    by (auto simp: parsed_items_def HasAskUserFindings_def AutoFixableFindings_def FindingsMetadata_def
        list_all_iff list_ex_iff filter_empty_conv)
qed

definition auto_item :: Finding where
  "auto_item = (sample_item ''l-1'' ''d'')\<lparr>f_Action := ActionAutoFix\<rparr>"

lemma auto_item_ok: "finding_ok auto_item"
  using sample_item_ok [of "''l-1''" "''d''"]
  by (simp add: auto_item_def finding_ok_def utf8_finding_def int64_finding_def finding_action_defs)

theorem repair_chain_bounded_witness:
  "repair_chain [MarshalFindingsJSON (sample_payload [auto_item, auto_item]),
     MarshalFindingsJSON (sample_payload [auto_item])] \<and>
   length [MarshalFindingsJSON (sample_payload [auto_item])] \<le>
     length (parsed_items (MarshalFindingsJSON (sample_payload [auto_item, auto_item])))"
proof -
  have "repair_chain [MarshalFindingsJSON (sample_payload [auto_item, auto_item]),
      MarshalFindingsJSON (sample_payload [auto_item])]"
    using sample_parse [of "[auto_item]"] sample_parse [of "[auto_item, auto_item]"] auto_item_ok
    by (simp add: gateAutoFixEligible_def HasAskUserFindings_def AutoFixableFindings_def
        FindingsMetadata_def ActionOrDefault_def auto_item_def finding_action_defs)
  then show ?thesis using repair_chain_bounded by blast
qed

lemma unmarshal_marshal_ids: "list_all valid_utf8 ids \<Longrightarrow> unmarshal_ids (json_print (JArr (map JStr ids))) = Some ids"
proof -
  assume "list_all valid_utf8 ids"
  then have "json_parse (json_print (JArr (map JStr ids))) = Some (JArr (map JStr ids))"
    by (intro json_parse_print) (auto simp: list_all_iff max_nesting_def)
  then show ?thesis unfolding unmarshal_ids_def by (simp add: dec_elems_map)
qed

text \<open>A selection written to the database is read back as it was, and an empty one as no decision.\<close>

theorem selection_roundtrip:
  assumes "list_all valid_utf8 ids"
  shows "findingIDsFromSelectionJSON (marshalFindingIDs ids) = ids"
  using unmarshal_marshal_ids [OF assms]
  by (auto simp: findingIDsFromSelectionJSON_def marshalFindingIDs_def)

theorem selection_roundtrip_witness:
  "findingIDsFromSelectionJSON (marshalFindingIDs [''review-1'', ''a b'']) = [''review-1'', ''a b'']"
  by (rule selection_roundtrip) simp

theorem withdrawal_exact_witness:
  "\<exists>gone. mset (parsed_items (fst (dropWithdrawnFindingsJSON
       (MarshalFindingsJSON (sample_payload [sample_item ''a'' ''x''])) [\<lparr> wf_ID = ''a'', wf_Reason = ''no'' \<rparr>]))) +
     mset gone = mset [sample_item ''a'' ''x'']"
proof -
  have "ParseFindingsJSON (MarshalFindingsJSON (sample_payload [sample_item ''a'' ''x''])) =
      Some (sample_payload [sample_item ''a'' ''x''])"
    by (rule sample_parse) (simp add: sample_item_ok)
  from withdrawal_exact [OF this, of "[\<lparr> wf_ID = ''a'', wf_Reason = ''no'' \<rparr>]"]
  show ?thesis by (auto simp del: mset.simps)
qed

definition sample_round :: StepRound where
  "sample_round = zero_round\<lparr>sr_FindingsJSON := Some (MarshalFindingsJSON (sample_payload [sample_item ''a'' ''x''])),
     sr_SelectedFindingIDs := Some (marshalFindingIDs [''a'']), sr_SelectionSource := Some RoundSelectionSourceUser\<rparr>"

lemma sample_ids: "findingIDsFromSelectionJSON (marshalFindingIDs [''a'']) = [''a'']"
  using unmarshal_marshal_ids [of "[''a'']"] by (simp add: findingIDsFromSelectionJSON_def marshalFindingIDs_def)

theorem retained_selection_proved_witness:
  "\<exists>current want. current \<in> set (parsed_items (MarshalFindingsJSON (sample_payload [sample_item ''a'' ''x'']))) \<and>
     f_ID current = ''a'' \<and> selected_in [sample_round] ''a'' want \<and> SameFinding current want"
proof -
  have p: "ParseFindingsJSON (MarshalFindingsJSON (sample_payload [sample_item ''a'' ''x''])) =
      Some (sample_payload [sample_item ''a'' ''x''])"
    by (rule sample_parse) (simp add: sample_item_ok)
  have "''a'' \<in> set (retainFindingIDsByIdentity (MarshalFindingsJSON (sample_payload [sample_item ''a'' ''x'']))
      [''a''] (selectedFindingIdentities [sample_round]))"
    using p sample_ids
    by (simp add: retainFindingIDsByIdentity_def selectedFindingIdentities_def sample_round_def zero_round_def
        round_by_id_def optional_items_def parsed_items_def sample_item_def)
  from retained_selection_proved [OF this] show ?thesis by blast
qed

end
