(* ===== verification/GateResponse.thy ===== *)
theory GateResponse
  imports Outstanding
begin

text \<open>
  Answers to a parked gate (\<open>internal/pipeline/gate_response.go\<close>): the key under which a decision
  about a finding is remembered, the decisions earlier rounds of the step made, and the validation
  that splits a fix response into its dispositions or refuses it.

  The slices of rounds hold no nil pointer. The \<open>map[string]bool\<close> values are the lists of their
  keys; iterating over the map of selected identities goes through the identifiers its
  keys come from.
\<close>

section \<open>Small helpers\<close>

fun unique_nonempty :: "string list \<Rightarrow> string list \<Rightarrow> string list" where
  "unique_nonempty seen [] = []"
| "unique_nonempty seen (v # vs) =
     (let w = TrimSpace v in
      if w = [] \<or> w \<in> set seen then unique_nonempty seen vs
      else w # unique_nonempty (w # seen) vs)"

definition uniqueNonEmpty :: "string list \<Rightarrow> string list" where
  "uniqueNonEmpty values = unique_nonempty [] values"

definition idsOutside :: "string list \<Rightarrow> string list \<Rightarrow> string list" where
  "idsOutside ids inGate = filter (\<lambda>i. i \<notin> set inGate) ids"

definition excludeFindingIDs :: "string list \<Rightarrow> string list \<Rightarrow> string list" where
  "excludeFindingIDs ids excluded =
     (if ids = [] \<or> excluded = [] then ids else filter (\<lambda>i. i \<notin> set excluded) ids)"

definition idsInPayloadOrder :: "string list \<Rightarrow> string list \<Rightarrow> string list" where
  "idsInPayloadOrder ids gate = filter (\<lambda>i. i \<in> set ids) gate"

fun gate_ids :: "string list \<Rightarrow> Finding list \<Rightarrow> string list" where
  "gate_ids seen [] = []"
| "gate_ids seen (x # xs) =
     (if f_ID x = [] \<or> f_ID x \<in> set seen then gate_ids seen xs
      else f_ID x # gate_ids (f_ID x # seen) xs)"

text \<open>None: the payload could not be decoded.\<close>

definition parseGateFindingIDs :: "string \<Rightarrow> string list option" where
  "parseGateFindingIDs raw =
     (if TrimSpace raw = [] then Some []
      else case ParseFindingsJSON raw of None \<Rightarrow> None | Some fs \<Rightarrow> Some (gate_ids [] (items fs)))"

definition findingIDsInPayloadOrder :: "string \<Rightarrow> string list" where
  "findingIDsInPayloadOrder raw = (case parseGateFindingIDs raw of None \<Rightarrow> [] | Some ids \<Rightarrow> ids)"

section \<open>Decisions of earlier rounds\<close>

text \<open>
  The raw message of the encoded payload is embedded as it is, so the key is the text of one
  JSON array.
\<close>

definition decision_json :: "findingIdentity \<Rightarrow> json" where
  "decision_json k = JArr
     [enc_findings (zero_findings\<lparr>fs_Items := Some [fi_finding k]\<rparr>), JBool (fi_hasSupport k),
      JStr (fi_claimType k), JStr (fi_sourcePath k), JStr (fi_testCommand k), JStr (fi_ciCheckID k),
      JStr (fi_ciHeadSHA k), JStr (fi_runtimeEntity k), JStr (fi_runtimeTransition k),
      JStr (fi_runtimeTransitionAt k), JStr (fi_runtimeRevision k)]"

definition FindingDecisionKey :: "Finding \<Rightarrow> string" where
  "FindingDecisionKey x = json_print (decision_json (findingKey x))"

definition humanDecidedRound :: "StepRound \<Rightarrow> bool" where
  "humanDecidedRound r \<longleftrightarrow>
     (case sr_SelectionSource r of
        None \<Rightarrow> False
      | Some s \<Rightarrow> s = RoundSelectionSourceUser \<or> s = RoundSelectionSourceUserDeclined)"

definition selected_ids :: "StepRound \<Rightarrow> string list" where
  "selected_ids r = (case sr_SelectedFindingIDs r of None \<Rightarrow> [] | Some raw \<Rightarrow> findingIDsFromSelectionJSON raw)"

definition ChosenFindingKeys :: "StepRound \<Rightarrow> string list" where
  "ChosenFindingKeys r =
     (if \<not> humanDecidedRound r then []
      else List.map_filter (\<lambda>i. map_option FindingDecisionKey (selectedFindingIdentities [r] i)) (selected_ids r))"

definition decisionIDsInGate :: "string list \<Rightarrow> string \<Rightarrow> string list" where
  "decisionIDsInGate keys gate =
     map f_ID (filter (\<lambda>x. FindingDecisionKey x \<in> set keys) (parsed_items gate))"

definition decided_keys :: "StepRound \<Rightarrow> string list" where
  "decided_keys r =
     (if \<not> humanDecidedRound r then []
      else map FindingDecisionKey (optional_items (sr_FindingsJSON r)) @ ChosenFindingKeys r)"

definition earlierUserDecisionIDs :: "StepRound list \<Rightarrow> string \<Rightarrow> string list" where
  "earlierUserDecisionIDs rounds gate = decisionIDsInGate (concat (map decided_keys rounds)) gate"

definition earlierChosenToFixIDs :: "StepRound list \<Rightarrow> string \<Rightarrow> string list" where
  "earlierChosenToFixIDs rounds gate = decisionIDsInGate (concat (map ChosenFindingKeys rounds)) gate"

text \<open>\<open>json.Unmarshal\<close> into \<open>types.Findings\<close>: the wire struct without the legacy key.\<close>

definition unmarshal_findings_ok :: "string \<Rightarrow> bool" where
  "unmarshal_findings_ok raw \<longleftrightarrow>
     (case json_parse raw of
        None \<Rightarrow> False
      | Some j \<Rightarrow>
          dec_struct (filter (\<lambda>(k, f). k \<noteq> ''items'') findings_fields) j zero_findings_wire \<noteq> None)"

datatype decode_error = BadSelection string | BadFindings string | BadUserFindings string

definition bad_payload :: "string option \<Rightarrow> bool" where
  "bad_payload raw \<longleftrightarrow>
     (case raw of None \<Rightarrow> False | Some r \<Rightarrow> TrimSpace r \<noteq> [] \<and> \<not> unmarshal_findings_ok r)"

definition decodeRoundDecision :: "StepRound option \<Rightarrow> decode_error option" where
  "decodeRoundDecision rnd =
     (case rnd of
        None \<Rightarrow> None
      | Some r \<Rightarrow>
          if (case sr_SelectedFindingIDs r of None \<Rightarrow> False | Some raw \<Rightarrow> unmarshal_ids raw = None)
          then Some (BadSelection (sr_ID r))
          else if bad_payload (sr_FindingsJSON r) then Some (BadFindings (sr_ID r))
          else if bad_payload (sr_UserFindingsJSON r) then Some (BadUserFindings (sr_ID r))
          else None)"

section \<open>Splitting a fix response\<close>

record RespondDispositions =
  rd_Fixed :: "string list"
  rd_Ignored :: "string list"
  rd_Kept :: "string list"

record RespondRefusal =
  rf_Message :: string
  rf_Missing :: "string list"
  rf_DeclinedEarlierFix :: "string list"
  rf_Help :: string

definition fixResponseHelp :: string where
  "fixResponseHelp = ''List every finding the gate shows in --findings or --ignore; a finding an earlier round of this step already decided may be omitted to keep that decision.''"

definition fixResponseRevertHelp :: string where
  "fixResponseRevertHelp = ''Reverting an applied fix is out of scope for a gate response: leave those findings out of --ignore to keep the earlier decision, or list them in --findings to have the pipeline fix them again.''"

definition fixResponseUnreadableHelp :: string where
  "fixResponseUnreadableHelp = ''The response was refused rather than validated against unreadable state, and the gate is still parked: inspect it with `no-mistakes axi status`, then retry, or approve or skip the step instead.''"

definition refusal :: "string \<Rightarrow> string list \<Rightarrow> string list \<Rightarrow> string \<Rightarrow> RespondRefusal" where
  "refusal msg missing declined help =
     \<lparr> rf_Message = msg, rf_Missing = missing, rf_DeclinedEarlierFix = declined, rf_Help = help \<rparr>"

definition splitFixResponse ::
  "string \<Rightarrow> StepRound list \<Rightarrow> string list \<Rightarrow> string list \<Rightarrow> RespondRefusal + RespondDispositions" where
  "splitFixResponse gateFindingsJSON rounds findingIDs ignoreFindingIDs =
     (let fixed = uniqueNonEmpty findingIDs; ignored = uniqueNonEmpty ignoreFindingIDs in
      case parseGateFindingIDs gateFindingsJSON of
        None \<Rightarrow> Inl (refusal ''the gate's findings could not be read, so the response was not recorded''
                     [] [] fixResponseUnreadableHelp)
      | Some gate \<Rightarrow>
          let unknown = idsOutside fixed gate; unknown' = idsOutside ignored gate in
          if unknown \<noteq> [] then
            Inl (refusal (Join '','' unknown @ '' not shown at this gate'') [] [] fixResponseHelp)
          else if unknown' \<noteq> [] then
            Inl (refusal (Join '','' unknown' @ '' not shown at this gate'') [] [] fixResponseHelp)
          else let both = filter (\<lambda>i. i \<in> set fixed \<and> i \<in> set ignored) gate in
          if both \<noteq> [] then
            Inl (refusal (Join '','' both @ '' listed in both --findings and --ignore'') [] [] fixResponseHelp)
          else let chosenToFix = earlierChosenToFixIDs rounds gateFindingsJSON;
                   reversals = filter (\<lambda>i. i \<in> set ignored \<and> i \<in> set chosenToFix) gate in
          if reversals \<noteq> [] then
            Inl (refusal (Join '','' reversals @ '' already chosen to fix in an earlier round of this step'')
                   [] reversals fixResponseRevertHelp)
          else let decided = earlierUserDecisionIDs rounds gateFindingsJSON;
                   unaccounted = filter (\<lambda>i. \<not> (i \<in> set fixed \<or> i \<in> set ignored \<or> i \<in> set decided)) gate in
          if unaccounted \<noteq> [] then
            Inl (refusal (Join '','' unaccounted @ '' not addressed: list them in --findings or --ignore'')
                   unaccounted [] fixResponseHelp)
          else Inr \<lparr> rd_Fixed = idsInPayloadOrder fixed gate,
                     rd_Ignored = idsInPayloadOrder ignored gate,
                     rd_Kept = filter (\<lambda>i. i \<in> set decided \<and> i \<notin> set fixed \<and> i \<notin> set ignored) gate \<rparr>)"

section \<open>The decision key\<close>

lemma key_finding_ok: "finding_ok x \<Longrightarrow> finding_ok (fi_finding (findingKey x))"
  by (simp add: findingKey_def finding_ok_def utf8_finding_def int64_finding_def)

lemma key_parts_valid:
  assumes "finding_ok x"
  shows "list_all valid_utf8 [fi_claimType (findingKey x), fi_sourcePath (findingKey x),
    fi_testCommand (findingKey x), fi_ciCheckID (findingKey x), fi_ciHeadSHA (findingKey x),
    fi_runtimeEntity (findingKey x), fi_runtimeTransition (findingKey x),
    fi_runtimeTransitionAt (findingKey x), fi_runtimeRevision (findingKey x)]"
proof (cases "f_Support x")
  case (Some s)
  then have "utf8_support s" using assms by (simp add: finding_ok_def utf8_finding_def)
  then show ?thesis using Some
    by (auto simp: findingKey_def support_part_def utf8_support_def utf8_source_def utf8_runtime_def
        split: option.split)
qed (simp add: findingKey_def support_part_def)

lemma ok_findings_small: "utf8_findings fs \<Longrightarrow> 4 < d \<Longrightarrow> ok_json d (enc_findings fs)"
  unfolding enc_findings_def
  by (rule ok_JObj)
    (auto simp: utf8_findings_def list_all_iff split: option.split)

lemma key_payload_storable:
  "finding_ok x \<Longrightarrow> storable (zero_findings\<lparr>fs_Items := Some [fi_finding (findingKey x)]\<rparr>)"
  by (rule storable_with_items)
    (simp_all add: key_finding_ok storable_def zero_findings_def utf8_findings_def int64_findings_def)

lemma ok_decision_json: "finding_ok x \<Longrightarrow> ok_json max_nesting (decision_json (findingKey x))"
  using key_parts_valid [of x] key_payload_storable [of x]
    ok_findings_small [of "zero_findings\<lparr>fs_Items := Some [fi_finding (findingKey x)]\<rparr>" 9999]
  by (simp add: decision_json_def max_nesting_def storable_def)

lemma enc_findings_inject: "storable a \<Longrightarrow> storable b \<Longrightarrow> enc_findings a = enc_findings b \<longleftrightarrow> a = b"
  using fjson.marshal_inject [of a b] by (auto simp: MarshalFindingsJSON_def)

lemma decision_key_iff:
  assumes "finding_ok x" "finding_ok y"
  shows "FindingDecisionKey x = FindingDecisionKey y \<longleftrightarrow> findingKey x = findingKey y"
proof
  assume "FindingDecisionKey x = FindingDecisionKey y"
  then have d: "decision_json (findingKey x) = decision_json (findingKey y)"
    using json_print_inject [OF ok_decision_json [OF assms(1)] ok_decision_json [OF assms(2)]]
    by (simp add: FindingDecisionKey_def)
  then have "fi_finding (findingKey x) = fi_finding (findingKey y)"
    using enc_findings_inject [OF key_payload_storable key_payload_storable, OF assms]
    by (auto simp: decision_json_def dest: arg_cong [of _ _ fs_Items])
  with d show "findingKey x = findingKey y"
    by (cases "findingKey x"; cases "findingKey y") (simp add: decision_json_def)
qed (simp add: FindingDecisionKey_def)

text \<open>The text under which a human decision is remembered stands for the finding's identity: two
  findings that can be stored have the same key exactly when \<open>SameFinding\<close> says they are the same.
  A decision is never carried to another finding, nor lost when an identifier, action, source
  or instruction is restated.
\<close>

theorem decision_key_exact:
  assumes "finding_ok x" "finding_ok y"
  shows "FindingDecisionKey x = FindingDecisionKey y \<longleftrightarrow> SameFinding x y"
  using decision_key_iff [OF assms] by (simp add: SameFinding_def)

theorem decision_key_exact_witness:
  "FindingDecisionKey (sample_item ''a'' ''x'') = FindingDecisionKey (sample_item ''b'' ''x'') \<and>
   FindingDecisionKey (sample_item ''a'' ''x'') \<noteq> FindingDecisionKey (sample_item ''a'' ''y'')"
proof -
  have "finding_ok (sample_item ''a'' ''x'')" "finding_ok (sample_item ''b'' ''x'')"
    "finding_ok (sample_item ''a'' ''y'')" by (simp_all add: sample_item_ok)
  moreover have "SameFinding (sample_item ''a'' ''x'') (sample_item ''b'' ''x'')"
    "\<not> SameFinding (sample_item ''a'' ''x'') (sample_item ''a'' ''y'')"
    by (simp_all add: SameFinding_def findingKey_def sample_item_def support_part_def zero_finding_def)
  ultimately show ?thesis using decision_key_exact by blast
qed

section \<open>Dispositions\<close>

lemma gate_ids_spec:
  "distinct (gate_ids seen xs) \<and> set (gate_ids seen xs) = f_ID ` set xs - insert [] (set seen)"
  by (induction seen xs rule: gate_ids.induct) auto

lemma unique_nonempty_set:
  "set (unique_nonempty seen vs) = TrimSpace ` set vs - insert [] (set seen)"
  by (induction seen vs rule: unique_nonempty.induct) (auto simp: Let_def)

lemma uniqueNonEmpty_set [simp]: "set (uniqueNonEmpty vs) = TrimSpace ` set vs - {[]}"
  by (simp add: uniqueNonEmpty_def unique_nonempty_set)

lemma parse_gate_ids:
  "parseGateFindingIDs raw = Some gate \<Longrightarrow>
     distinct gate \<and> set gate \<subseteq> f_ID ` set (parsed_items raw) - {[]}"
  using gate_ids_spec [of "[]"]
  by (auto simp: parseGateFindingIDs_def parsed_items_def split: if_splits option.splits)

lemma mset_filter_three:
  assumes "\<forall>x \<in> set xs. (P x \<and> \<not> Q x \<and> \<not> R x) \<or> (\<not> P x \<and> Q x \<and> \<not> R x) \<or> (\<not> P x \<and> \<not> Q x \<and> R x)"
  shows "mset (filter P xs) + mset (filter Q xs) + mset (filter R xs) = mset xs"
  using assms by (induction xs) auto

definition response_acceptable :: "string list \<Rightarrow> StepRound list \<Rightarrow> string \<Rightarrow> string list \<Rightarrow> string list \<Rightarrow> bool" where
  "response_acceptable gate rounds raw findingIDs ignoreIDs \<longleftrightarrow>
     (let F = TrimSpace ` set findingIDs - {[]}; I = TrimSpace ` set ignoreIDs - {[]} in
      F \<subseteq> set gate \<and> I \<subseteq> set gate \<and> F \<inter> I = {} \<and> I \<inter> set (earlierChosenToFixIDs rounds raw) = {} \<and>
      set gate \<subseteq> F \<union> I \<union> set (earlierUserDecisionIDs rounds raw))"

lemma split_success_Some:
  assumes "parseGateFindingIDs raw = Some gate"
  shows "(\<exists>d. splitFixResponse raw rounds fs is = Inr d) \<longleftrightarrow>
    idsOutside (uniqueNonEmpty fs) gate = [] \<and> idsOutside (uniqueNonEmpty is) gate = [] \<and>
    filter (\<lambda>i. i \<in> set (uniqueNonEmpty fs) \<and> i \<in> set (uniqueNonEmpty is)) gate = [] \<and>
    filter (\<lambda>i. i \<in> set (uniqueNonEmpty is) \<and> i \<in> set (earlierChosenToFixIDs rounds raw)) gate = [] \<and>
    filter (\<lambda>i. \<not> (i \<in> set (uniqueNonEmpty fs) \<or> i \<in> set (uniqueNonEmpty is) \<or>
      i \<in> set (earlierUserDecisionIDs rounds raw))) gate = []"
  unfolding splitFixResponse_def assms Let_def option.case by (simp only: split: if_split) simp

lemma split_success_iff:
  "(\<exists>d. splitFixResponse raw rounds fs is = Inr d) \<longleftrightarrow>
     (\<exists>gate. parseGateFindingIDs raw = Some gate \<and> response_acceptable gate rounds raw fs is)"
proof (cases "parseGateFindingIDs raw")
  case None
  then show ?thesis by (simp add: splitFixResponse_def Let_def)
next
  case (Some gate)
  define F I where "F = TrimSpace ` set fs - {[]}" and "I = TrimSpace ` set is - {[]}"
  have a: "filter (\<lambda>i. i \<notin> set gate) (uniqueNonEmpty fs) = [] \<longleftrightarrow> F \<subseteq> set gate"
    "filter (\<lambda>i. i \<notin> set gate) (uniqueNonEmpty is) = [] \<longleftrightarrow> I \<subseteq> set gate"
    by (auto simp: filter_empty_conv F_def I_def simp flip: uniqueNonEmpty_set)
  have b: "F \<subseteq> set gate \<Longrightarrow> filter (\<lambda>i. i \<in> F \<and> i \<in> I) gate = [] \<longleftrightarrow> F \<inter> I = {}"
    "I \<subseteq> set gate \<Longrightarrow> filter (\<lambda>i. i \<in> I \<and> i \<in> D) gate = [] \<longleftrightarrow> I \<inter> D = {}"
    "filter (\<lambda>i. \<not> (i \<in> F \<or> i \<in> I \<or> i \<in> D)) gate = [] \<longleftrightarrow> set gate \<subseteq> F \<union> I \<union> D" for D
    by (auto simp: filter_empty_conv)
  show ?thesis
    unfolding split_success_Some [OF Some] response_acceptable_def Let_def idsOutside_def Some a
      uniqueNonEmpty_set F_def [symmetric] I_def [symmetric] option.inject
    by (cases "F \<subseteq> set gate"; cases "I \<subseteq> set gate") (simp_all only: b simp_thms ex_simps)
qed

lemma split_value:
  assumes "splitFixResponse raw rounds fs is = Inr d" "parseGateFindingIDs raw = Some gate"
  shows "rd_Fixed d = filter (\<lambda>i. i \<in> TrimSpace ` set fs - {[]}) gate \<and>
    rd_Ignored d = filter (\<lambda>i. i \<in> TrimSpace ` set is - {[]}) gate \<and>
    rd_Kept d = filter (\<lambda>i. i \<in> set (earlierUserDecisionIDs rounds raw) \<and>
      i \<notin> TrimSpace ` set fs - {[]} \<and> i \<notin> TrimSpace ` set is - {[]}) gate"
  using assms
  by (simp add: splitFixResponse_def Let_def idsInPayloadOrder_def uniqueNonEmpty_set split: if_splits)
    (drule sym, simp)

text \<open>C5. A fix response is accepted exactly when the gate's findings are readable, it names only
  findings the gate shows, none on both lists, declines none that an earlier round chose to fix, and
  leaves out only findings a human already decided. Otherwise it is refused and there is no decision
  of it to record.
\<close>

theorem fix_response_accepted_iff:
  "(\<exists>d. splitFixResponse raw rounds fs is = Inr d) \<longleftrightarrow>
     (\<exists>gate. parseGateFindingIDs raw = Some gate \<and>
        TrimSpace ` set fs - {[]} \<subseteq> set gate \<and> TrimSpace ` set is - {[]} \<subseteq> set gate \<and>
        TrimSpace ` set fs \<inter> TrimSpace ` set is \<subseteq> {[]} \<and>
        TrimSpace ` set is \<inter> set (earlierChosenToFixIDs rounds raw) \<subseteq> {[]} \<and>
        set gate \<subseteq> TrimSpace ` set fs \<union> TrimSpace ` set is \<union> set (earlierUserDecisionIDs rounds raw))"
proof -
  have L: "response_acceptable gate rounds raw fs is \<longleftrightarrow>
      (TrimSpace ` set fs - {[]} \<subseteq> set gate \<and> TrimSpace ` set is - {[]} \<subseteq> set gate \<and>
        TrimSpace ` set fs \<inter> TrimSpace ` set is \<subseteq> {[]} \<and>
        TrimSpace ` set is \<inter> set (earlierChosenToFixIDs rounds raw) \<subseteq> {[]} \<and>
        set gate \<subseteq> TrimSpace ` set fs \<union> TrimSpace ` set is \<union> set (earlierUserDecisionIDs rounds raw))"
    if "parseGateFindingIDs raw = Some gate" for gate
  proof -
    have "[] \<notin> set gate" using parse_gate_ids [OF that] by blast
    then have e: "(A - {[]}) \<inter> (B - {[]}) = {} \<longleftrightarrow> A \<inter> B \<subseteq> {[]}" "(B - {[]}) \<inter> C = {} \<longleftrightarrow> B \<inter> C \<subseteq> {[]}"
      "A \<inter> (B - {[]}) \<subseteq> {[]} \<longleftrightarrow> A \<inter> B \<subseteq> {[]}"
      "set gate \<subseteq> (A - {[]}) \<union> (B - {[]}) \<union> C \<longleftrightarrow> set gate \<subseteq> A \<union> B \<union> C" for A B C :: "string set"
      by blast+
    show ?thesis unfolding response_acceptable_def Let_def by (simp only: e)
  qed
  show ?thesis unfolding split_success_iff by (rule iff_exI, rule conj_cong [OF refl], erule L)
qed

lemma mem_decisionIDs:
  "i \<in> set (decisionIDsInGate keys raw) \<longleftrightarrow>
     (\<exists>x \<in> set (parsed_items raw). f_ID x = i \<and> FindingDecisionKey x \<in> set keys)"
  by (auto simp: decisionIDsInGate_def)

lemma chosen_key_source:
  assumes "k \<in> set (ChosenFindingKeys r)"
  shows "humanDecidedRound r \<and> (\<exists>y. k = FindingDecisionKey y \<and>
    y \<in> set (optional_items (sr_FindingsJSON r)) \<union> set (optional_items (sr_UserFindingsJSON r)) \<and>
    f_ID y \<in> set (selected_ids r))"
proof -
  have h: "humanDecidedRound r" using assms by (simp add: ChosenFindingKeys_def split: if_splits)
  obtain i y where y: "i \<in> set (selected_ids r)" "selectedFindingIdentities [r] i = Some y"
      "k = FindingDecisionKey y"
    using assms h by (auto simp: ChosenFindingKeys_def List.map_filter_def)
  then have "selected_in [r] i y"
    using selected_identities_Some [of Map.empty "[r]" i y] by (simp add: selectedFindingIdentities_def)
  then show ?thesis using y h by (auto simp: selected_in_def)
qed

lemma parsed_items_ok: "y \<in> set (parsed_items raw) \<Longrightarrow> finding_ok y"
  by (cases "ParseFindingsJSON raw") (use parse_items_ok in \<open>auto simp: parsed_items_def list_all_iff\<close>)

lemma optional_items_ok: "y \<in> set (optional_items raw) \<Longrightarrow> finding_ok y"
  by (cases raw) (auto simp: optional_items_def intro: parsed_items_ok)

lemma decided_id_source:
  assumes "i \<in> set (earlierUserDecisionIDs rounds raw)"
  shows "\<exists>x r y. x \<in> set (parsed_items raw) \<and> f_ID x = i \<and> r \<in> set rounds \<and> humanDecidedRound r \<and>
    y \<in> set (optional_items (sr_FindingsJSON r)) \<union> set (optional_items (sr_UserFindingsJSON r)) \<and>
    SameFinding x y"
proof -
  obtain x r where x: "x \<in> set (parsed_items raw)" "f_ID x = i" "r \<in> set rounds"
    "FindingDecisionKey x \<in> set (decided_keys r)"
    using assms by (auto simp: earlierUserDecisionIDs_def mem_decisionIDs)
  then have h: "humanDecidedRound r" by (simp add: decided_keys_def split: if_splits)
  obtain y where y: "FindingDecisionKey x = FindingDecisionKey y"
    "y \<in> set (optional_items (sr_FindingsJSON r)) \<union> set (optional_items (sr_UserFindingsJSON r))"
    using x(4) h chosen_key_source by (auto simp: decided_keys_def)
  then have "SameFinding x y"
    using decision_key_iff parsed_items_ok [OF x(1)] optional_items_ok by (auto simp: SameFinding_def)
  then show ?thesis using x h y by blast
qed

text \<open>An accepted fix response disposes of every finding the gate shows exactly once: the fixed,
  the ignored and the kept identifiers are in gate order and together are the gate's; fixed and
  ignored are what the response named, and an identifier is kept only when it shows the same
  finding as one a human already decided in an earlier round of the step.
\<close>

theorem fix_response_dispositions:
  assumes "splitFixResponse raw rounds fs is = Inr d"
  shows "\<exists>gate. parseGateFindingIDs raw = Some gate \<and> distinct gate \<and>
    mset (rd_Fixed d) + mset (rd_Ignored d) + mset (rd_Kept d) = mset gate \<and>
    rd_Fixed d = filter (\<lambda>i. i \<in> TrimSpace ` set fs) gate \<and>
    rd_Ignored d = filter (\<lambda>i. i \<in> TrimSpace ` set is) gate \<and>
    (\<forall>i \<in> set (rd_Kept d). \<exists>x r y. x \<in> set (parsed_items raw) \<and> f_ID x = i \<and> r \<in> set rounds \<and>
       humanDecidedRound r \<and> SameFinding x y \<and>
       y \<in> set (optional_items (sr_FindingsJSON r)) \<union> set (optional_items (sr_UserFindingsJSON r)))"
proof -
  define D where "D = set (earlierUserDecisionIDs rounds raw)"
  obtain gate where g: "parseGateFindingIDs raw = Some gate" "response_acceptable gate rounds raw fs is"
    using split_success_iff assms by blast
  note p = parse_gate_ids [OF g(1)]
  have v: "rd_Fixed d = filter (\<lambda>i. i \<in> TrimSpace ` set fs) gate"
    "rd_Ignored d = filter (\<lambda>i. i \<in> TrimSpace ` set is) gate"
    "rd_Kept d = filter (\<lambda>i. i \<in> D \<and> i \<notin> TrimSpace ` set fs \<and> i \<notin> TrimSpace ` set is) gate"
    using split_value [OF assms g(1)] p by (auto simp: D_def intro!: filter_cong)
  have "mset (rd_Fixed d) + mset (rd_Ignored d) + mset (rd_Kept d) = mset gate"
    unfolding v
  proof (rule mset_filter_three, rule ballI)
    fix i assume i: "i \<in> set gate"
    then have "i \<noteq> []" using p by blast
    then have "i \<in> TrimSpace ` set fs \<or> i \<in> TrimSpace ` set is \<or> i \<in> D"
      "\<not> (i \<in> TrimSpace ` set fs \<and> i \<in> TrimSpace ` set is)"
      using g(2) i unfolding response_acceptable_def Let_def D_def by blast+
    then show "(i \<in> TrimSpace ` set fs \<and> i \<notin> TrimSpace ` set is \<and>
        \<not> (i \<in> D \<and> i \<notin> TrimSpace ` set fs \<and> i \<notin> TrimSpace ` set is)) \<or>
      (i \<notin> TrimSpace ` set fs \<and> i \<in> TrimSpace ` set is \<and>
        \<not> (i \<in> D \<and> i \<notin> TrimSpace ` set fs \<and> i \<notin> TrimSpace ` set is)) \<or>
      (i \<notin> TrimSpace ` set fs \<and> i \<notin> TrimSpace ` set is \<and>
        (i \<in> D \<and> i \<notin> TrimSpace ` set fs \<and> i \<notin> TrimSpace ` set is))"
      by (metis (no_types))
  qed
  moreover have "\<exists>x r y. x \<in> set (parsed_items raw) \<and> f_ID x = i \<and> r \<in> set rounds \<and>
       humanDecidedRound r \<and> SameFinding x y \<and>
       y \<in> set (optional_items (sr_FindingsJSON r)) \<union> set (optional_items (sr_UserFindingsJSON r))"
    if "i \<in> set (rd_Kept d)" for i
  proof -
    have "i \<in> set (earlierUserDecisionIDs rounds raw)" using that by (simp add: v D_def)
    from decided_id_source [OF this] show ?thesis by blast
  qed
  ultimately show ?thesis using g(1) p v(1,2) by blast
qed

definition sample_gate :: string where
  "sample_gate = MarshalFindingsJSON (sample_payload [sample_item ''a'' ''x'', sample_item ''b'' ''y''])"

lemma sample_gate_ids: "parseGateFindingIDs sample_gate = Some [''a'', ''b'']"
proof -
  have "ParseFindingsJSON sample_gate = Some (sample_payload [sample_item ''a'' ''x'', sample_item ''b'' ''y''])"
    unfolding sample_gate_def by (rule sample_parse) (simp add: sample_item_ok)
  moreover have "TrimSpace sample_gate \<noteq> []"
  proof -
    have "sample_gate \<noteq> []" "hd sample_gate = CHR ''{''" "last sample_gate = CHR ''}''"
      by (simp_all add: sample_gate_def MarshalFindingsJSON_def enc_findings_def)
    then show ?thesis using TrimSpace_plain [of sample_gate] by (simp add: plain_byte_def)
  qed
  ultimately show ?thesis by (simp add: parseGateFindingIDs_def sample_item_def)
qed

theorem fix_response_dispositions_witness:
  "\<exists>d. splitFixResponse sample_gate [] [''b''] ['' a ''] = Inr d \<and>
     mset (rd_Fixed d) + mset (rd_Ignored d) + mset (rd_Kept d) = mset [''a'', ''b'']"
proof -
  have "TrimSpace ''b'' = ''b''" "TrimSpace '' a '' = ''a''" by code_simp+
  then have "response_acceptable [''a'', ''b''] [] sample_gate [''b''] ['' a '']"
    by (simp add: response_acceptable_def earlierChosenToFixIDs_def earlierUserDecisionIDs_def
        decisionIDsInGate_def)
  then obtain d where d: "splitFixResponse sample_gate [] [''b''] ['' a ''] = Inr d"
    using split_success_iff sample_gate_ids by blast
  from fix_response_dispositions [OF d] show ?thesis
    using d sample_gate_ids by (metis option.inject)
qed

end
