(* ===== verification/Approvals.thy ===== *)
theory Approvals
  imports FindingsJson
begin

text \<open>
  What a human approval may pass over (\<open>internal/db/accepted_gaps.go\<close>, the approval rules of
  \<open>internal/db/step.go\<close>, \<open>internal/pipeline/protected_paths.go\<close>): the row of a step, its identity as
  a parked gate, the eligibility rule for an owner-accepted Test gap with its audit record, the
  refusals of strict shipping, and the gates an approval is refused at whatever the policy.

  A refusal, a text in the code with "" for none, is a value of a datatype with None for none: the
  constructors are the texts, their arguments what is formatted into them.
\<close>

section \<open>The row of a step\<close>

record StepResult =
  sp_ID :: string
  sp_RunID :: string
  sp_StepName :: StepName
  sp_StepOrder :: int
  sp_Status :: StepStatus
  sp_ExitCode :: "int option"
  sp_DurationMS :: "int option"
  sp_LogPath :: "string option"
  sp_FindingsJSON :: "string option"
  sp_Error :: "string option"
  sp_StartedAt :: "int option"
  sp_RoundStartedAt :: "int option"
  sp_CompletedAt :: "int option"
  sp_LastActivityAt :: "int option"
  sp_LastActivity :: "string option"
  sp_AgentPID :: "int option"
  sp_AutoFixLimit :: "int option"
  sp_OverrideReason :: "string option"
  sp_ApprovalReason :: "string option"
  sp_AcceptedGapsJSON :: "string option"
  sp_SkipReason :: "string option"
  sp_PendingResponse :: "string option"
  sp_GateNonce :: "string option"
  sp_GateRoundID :: "string option"

definition zero_step :: StepResult where
  "zero_step = \<lparr> sp_ID = [], sp_RunID = [], sp_StepName = [], sp_StepOrder = 0, sp_Status = [],
     sp_ExitCode = None, sp_DurationMS = None, sp_LogPath = None, sp_FindingsJSON = None,
     sp_Error = None, sp_StartedAt = None, sp_RoundStartedAt = None, sp_CompletedAt = None,
     sp_LastActivityAt = None, sp_LastActivity = None, sp_AgentPID = None, sp_AutoFixLimit = None,
     sp_OverrideReason = None, sp_ApprovalReason = None, sp_AcceptedGapsJSON = None,
     sp_SkipReason = None, sp_PendingResponse = None, sp_GateNonce = None, sp_GateRoundID = None \<rparr>"

definition parked_status :: "StepStatus \<Rightarrow> bool" where
  "parked_status st \<longleftrightarrow> st = StepStatusAwaitingApproval \<or> st = StepStatusFixReview"

definition AnsweredWaitingForSlot :: "StepResult \<Rightarrow> bool" where
  "AnsweredWaitingForSlot s \<longleftrightarrow> sp_PendingResponse s \<noteq> None \<and> parked_status (sp_Status s)"

definition deref :: "string option \<Rightarrow> string" where
  "deref p = (case p of None \<Rightarrow> [] | Some v \<Rightarrow> v)"

definition StepResult_GateIdentity :: "StepResult \<Rightarrow> GateIdentity" where
  "StepResult_GateIdentity s =
     \<lparr> g_RunID = sp_RunID s, g_StepResultID = sp_ID s, g_Step = sp_StepName s,
       g_RoundID = deref (sp_GateRoundID s), g_Nonce = deref (sp_GateNonce s),
       g_Status = (if AnsweredWaitingForSlot s then StepStatusRunning else sp_Status s) \<rparr>"

section \<open>Accepted gaps\<close>

record AcceptedGapFinding =
  agf_ID :: string
  agf_Category :: string
  agf_Description :: string

record AcceptedGaps =
  ag_FindingIDs :: "string list option"
  ag_Findings :: "AcceptedGapFinding list"
  ag_Reason :: string
  ag_CoveredBy :: string
  ag_Verdict :: string
  ag_AcceptedAt :: string

definition MinAcceptedGapReasonLen :: nat where "MinAcceptedGapReasonLen = 10"
definition MaxAcceptedGapTextLen :: nat where "MaxAcceptedGapTextLen = 500"

text \<open>The runes of a string; a byte that starts no valid encoding counts as one rune.\<close>

function runes :: "string \<Rightarrow> string list" where
  "runes [] = []"
| "runes (c # s) = (let n = max 1 (rune_size (c # s)) in take n (c # s) # runes (drop n (c # s)))"
  by pat_completeness auto
termination
  by (relation "measure length") auto

definition control_rune :: "string \<Rightarrow> bool" where
  "control_rune r \<longleftrightarrow>
     (case r of
        [c] \<Rightarrow> byte c < 32 \<or> byte c = 127
      | [a, b] \<Rightarrow> byte a = 194 \<and> 128 \<le> byte b \<and> byte b < 160
      | _ \<Rightarrow> False)"

datatype gap_refusal =
    NotTheTestStep
  | NoFindingNamed
  | ReasonTooShort
  | NoCoveringTests
  | TextTooLong string
  | TextNotOneLine string
  | NonZeroExit bool
  | RecordedOverrideOrSkip bool
  | RecordedException bool
  | NoFindings
  | FindingsUnreadable
  | VerdictNoGo
  | VerdictNotInconclusive string
  | VerdictMismatch
  | AgentTimeout
  | UnvalidatedWork
  | FailingCommand
  | FalseVerdictCategory string
  | UnknownFinding string
  | NotAcceptable string
  | MissingActionable "string list"

definition AcceptedGapTextRefusal :: "string \<Rightarrow> string \<Rightarrow> gap_refusal option" where
  "AcceptedGapTextRefusal flag text =
     (if length (runes text) > MaxAcceptedGapTextLen then Some (TextTooLong flag)
      else if \<exists>r \<in> set (runes text). control_rune r \<or> r = line_separator \<or> r = paragraph_separator
      then Some (TextNotOneLine flag)
      else None)"

text \<open>The switch and the lookalike check at the head of the loop over the findings.\<close>

definition gap_item_refusal :: "Finding \<Rightarrow> gap_refusal option" where
  "gap_item_refusal x =
     (if f_ID x = FindingIDTestAgentTimeout then Some AgentTimeout
      else if f_ID x = FindingIDTestAgentUnvalidatedWork then Some UnvalidatedWork
      else if f_Category x = FindingCategoryTestCommand then Some FailingCommand
      else if f_Category x = FindingCategoryTestVerdict \<and> \<not> IsNativeTestVerdictFinding x
      then Some (FalseVerdictCategory (f_ID x))
      else None)"

fun first_refusal :: "('a \<Rightarrow> 'r option) \<Rightarrow> 'a list \<Rightarrow> 'r option" where
  "first_refusal f [] = None"
| "first_refusal f (x # xs) = (case f x of Some r \<Rightarrow> Some r | None \<Rightarrow> first_refusal f xs)"

text \<open>\<open>byID\<close>: a later finding with the same identifier replaces an earlier one.\<close>

definition gap_by_id :: "Finding list \<Rightarrow> string \<Rightarrow> Finding option" where
  "gap_by_id xs = map_of (rev (map (\<lambda>x. (f_ID x, x)) (filter (\<lambda>x. f_ID x \<noteq> []) xs)))"

definition gap_name_refusal :: "Finding list \<Rightarrow> string \<Rightarrow> gap_refusal option" where
  "gap_name_refusal xs raw =
     (case gap_by_id xs (TrimSpace raw) of
        None \<Rightarrow> Some (UnknownFinding (TrimSpace raw))
      | Some x \<Rightarrow> if IsNativeTestVerdictFinding x then None else Some (NotAcceptable (TrimSpace raw)))"

definition gap_findings_refusal :: "Findings \<Rightarrow> AcceptedGaps \<Rightarrow> gap_refusal option" where
  "gap_findings_refusal fs g =
     (if fs_Verdict fs = TestVerdictNoGo then Some VerdictNoGo
      else if fs_Verdict fs \<noteq> TestVerdictInconclusive then Some (VerdictNotInconclusive (fs_Verdict fs))
      else if ag_Verdict g \<noteq> [] \<and> ag_Verdict g \<noteq> fs_Verdict fs then Some VerdictMismatch
      else case first_refusal gap_item_refusal (items fs) of
          Some r \<Rightarrow> Some r
        | None \<Rightarrow>
            (case first_refusal (gap_name_refusal (items fs)) (elems (ag_FindingIDs g)) of
               Some r \<Rightarrow> Some r
             | None \<Rightarrow>
                 let named = map TrimSpace (elems (ag_FindingIDs g));
                     missing = map f_ID (filter (\<lambda>x. ActionOrDefault x \<noteq> ActionNoOp \<and> f_ID x \<notin> set named) (items fs)) in
                 if missing \<noteq> [] then Some (MissingActionable missing) else None))"

definition AcceptedGapRefusal :: "StepResult \<Rightarrow> bool \<Rightarrow> AcceptedGaps \<Rightarrow> gap_refusal option" where
  "AcceptedGapRefusal s strict g =
     (if sp_StepName s \<noteq> StepTest then Some NotTheTestStep
      else if elems (ag_FindingIDs g) = [] then Some NoFindingNamed
      else if length (runes (TrimSpace (ag_Reason g))) < MinAcceptedGapReasonLen then Some ReasonTooShort
      else if TrimSpace (ag_CoveredBy g) = [] then Some NoCoveringTests
      else case AcceptedGapTextRefusal ''--reason'' (ag_Reason g) of
          Some r \<Rightarrow> Some r
        | None \<Rightarrow>
            (case AcceptedGapTextRefusal ''--covered-by'' (ag_CoveredBy g) of
               Some r \<Rightarrow> Some r
             | None \<Rightarrow>
                 if (case sp_ExitCode s of None \<Rightarrow> False | Some c \<Rightarrow> c \<noteq> 0) then Some (NonZeroExit strict)
                 else if sp_OverrideReason s \<noteq> None \<or> sp_SkipReason s \<noteq> None then Some (RecordedOverrideOrSkip strict)
                 else if sp_ApprovalReason s \<noteq> None then Some (RecordedException strict)
                 else case sp_FindingsJSON s of
                     None \<Rightarrow> Some NoFindings
                   | Some raw \<Rightarrow>
                       (case ParseFindingsJSON raw of
                          None \<Rightarrow> Some FindingsUnreadable
                        | Some fs \<Rightarrow> gap_findings_refusal fs g)))"

subsection \<open>The audit record\<close>

definition gap_finding_fields :: "AcceptedGapFinding fields" where
  "gap_finding_fields =
     [(''id'', str_field (\<lambda>v s. s\<lparr>agf_ID := v\<rparr>)), (''category'', str_field (\<lambda>v s. s\<lparr>agf_Category := v\<rparr>)),
      (''description'', str_field (\<lambda>v s. s\<lparr>agf_Description := v\<rparr>))]"

definition zero_gap_finding :: AcceptedGapFinding where
  "zero_gap_finding = \<lparr> agf_ID = [], agf_Category = [], agf_Description = [] \<rparr>"

definition gaps_fields :: "AcceptedGaps fields" where
  "gaps_fields =
     [(''finding_ids'', slice_field (\<lambda>s. elems (ag_FindingIDs s)) (\<lambda>v s. s\<lparr>ag_FindingIDs := v\<rparr>) [] str_elem),
      (''findings'', slice_field ag_Findings (\<lambda>v s. s\<lparr>ag_Findings := elems v\<rparr>) zero_gap_finding
         (dec_struct gap_finding_fields)),
      (''reason'', str_field (\<lambda>v s. s\<lparr>ag_Reason := v\<rparr>)),
      (''covered_by'', str_field (\<lambda>v s. s\<lparr>ag_CoveredBy := v\<rparr>)),
      (''verdict'', str_field (\<lambda>v s. s\<lparr>ag_Verdict := v\<rparr>)),
      (''accepted_at'', str_field (\<lambda>v s. s\<lparr>ag_AcceptedAt := v\<rparr>))]"

definition zero_gaps :: AcceptedGaps where
  "zero_gaps = \<lparr> ag_FindingIDs = None, ag_Findings = [], ag_Reason = [], ag_CoveredBy = [],
     ag_Verdict = [], ag_AcceptedAt = [] \<rparr>"

definition enc_gap_finding :: "AcceptedGapFinding \<Rightarrow> json" where
  "enc_gap_finding x = JObj [(''id'', JStr (agf_ID x)), (''category'', JStr (agf_Category x)),
     (''description'', JStr (agf_Description x))]"

definition enc_gaps :: "AcceptedGaps \<Rightarrow> json" where
  "enc_gaps g = JObj
     ([(''finding_ids'', case ag_FindingIDs g of None \<Rightarrow> JNull | Some xs \<Rightarrow> JArr (map JStr xs))]
      @ omit_list ''findings'' enc_gap_finding (ag_Findings g)
      @ [(''reason'', JStr (ag_Reason g)), (''covered_by'', JStr (ag_CoveredBy g))]
      @ omit_str ''verdict'' (ag_Verdict g) @ omit_str ''accepted_at'' (ag_AcceptedAt g))"

text \<open>Inl: the record could not be decoded. Inr None: nothing was recorded.\<close>

definition RecordedAcceptedGaps :: "StepResult \<Rightarrow> unit + AcceptedGaps option" where
  "RecordedAcceptedGaps s =
     (case sp_AcceptedGapsJSON s of
        None \<Rightarrow> Inr None
      | Some raw \<Rightarrow>
          if raw = [] then Inr None
          else case json_parse raw of
              None \<Rightarrow> Inl ()
            | Some j \<Rightarrow> (case dec_struct gaps_fields j zero_gaps of None \<Rightarrow> Inl () | Some g \<Rightarrow> Inr (Some g)))"

definition ValidAcceptedGaps :: "StepResult \<Rightarrow> AcceptedGaps option" where
  "ValidAcceptedGaps s =
     (case RecordedAcceptedGaps s of
        Inl _ \<Rightarrow> None
      | Inr None \<Rightarrow> None
      | Inr (Some g) \<Rightarrow> if AcceptedGapRefusal s True g \<noteq> None then None else Some g)"

definition gap_snapshots :: "Finding list \<Rightarrow> string \<Rightarrow> AcceptedGapFinding list" where
  "gap_snapshots xs i =
     map (\<lambda>x. \<lparr> agf_ID = i, agf_Category = f_Category x, agf_Description = f_Description x \<rparr>)
       (filter (\<lambda>x. f_ID x = i) xs)"

definition active_test_row :: "StepResult \<Rightarrow> bool" where
  "active_test_row s \<longleftrightarrow> sp_StepName s = StepTest \<and>
     (sp_Status s = StepStatusAwaitingApproval \<or> sp_Status s = StepStatusFixReview \<or> sp_Status s = StepStatusRunning)"

text \<open>The first occurrence of each identifier, as the map \<open>seen\<close> keeps them.\<close>

fun dedup_first :: "string list \<Rightarrow> string list \<Rightarrow> string list" where
  "dedup_first seen [] = []"
| "dedup_first seen (x # xs) = (if x \<in> set seen then dedup_first seen xs else x # dedup_first (x # seen) xs)"

text \<open>
  \<open>RecordAcceptedGaps\<close> on the row it re-reads (None: there is no such row); \<open>at\<close> is the time of the
  record. Inl None: no active Test step.
\<close>

definition RecordAcceptedGaps ::
  "string \<Rightarrow> StepResult option \<Rightarrow> AcceptedGaps \<Rightarrow> bool \<Rightarrow> gap_refusal option + (AcceptedGaps \<times> StepResult)" where
  "RecordAcceptedGaps at row g strict =
     (case row of
        None \<Rightarrow> Inl None
      | Some s \<Rightarrow>
          if \<not> active_test_row s then Inl None
          else case AcceptedGapRefusal s strict g of
              Some r \<Rightarrow> Inl (Some r)
            | None \<Rightarrow>
                (case ParseFindingsJSON (deref (sp_FindingsJSON s)) of
                   None \<Rightarrow> Inl None
                 | Some fs \<Rightarrow>
                     let snaps = concat (map (gap_snapshots (items fs)) (dedup_first [] (map TrimSpace (elems (ag_FindingIDs g)))));
                         r = \<lparr> ag_FindingIDs = appended (map agf_ID snaps), ag_Findings = snaps,
                               ag_Reason = ag_Reason g, ag_CoveredBy = ag_CoveredBy g,
                               ag_Verdict = fs_Verdict fs, ag_AcceptedAt = at \<rparr> in
                     Inr (r, s\<lparr>sp_AcceptedGapsJSON := Some (json_print (enc_gaps r))\<rparr>)))"

definition AcceptableGapIDs :: "StepResult \<Rightarrow> string list" where
  "AcceptableGapIDs s =
     (if sp_StepName s \<noteq> StepTest then []
      else case sp_FindingsJSON s of
          None \<Rightarrow> []
        | Some raw \<Rightarrow>
            (case ParseFindingsJSON raw of
               None \<Rightarrow> []
             | Some fs \<Rightarrow>
                 let ids = map f_ID (filter (\<lambda>x. ActionOrDefault x \<noteq> ActionNoOp) (items fs));
                     probe = zero_gaps\<lparr>ag_FindingIDs := Some ids, ag_Reason := replicate MinAcceptedGapReasonLen (CHR ''x''),
                               ag_CoveredBy := ''probe''\<rparr> in
                 if ids = [] then [] else if AcceptedGapRefusal s True probe \<noteq> None then [] else ids))"

section \<open>Approval rules\<close>

definition NoSurfaceTestAcknowledgmentEligible :: "StepResult \<Rightarrow> bool" where
  "NoSurfaceTestAcknowledgmentEligible s \<longleftrightarrow>
     sp_StepName s = StepTest \<and> sp_ExitCode s = Some 0 \<and> sp_OverrideReason s = None \<and> sp_SkipReason s = None \<and>
     (case sp_FindingsJSON s of
        None \<Rightarrow> False
      | Some raw \<Rightarrow>
          (case ParseFindingsJSON raw of None \<Rightarrow> False | Some fs \<Rightarrow> IsNoSurfaceTestAcknowledgment fs))"

text \<open>
  The refusals of an approval. The list is what \<open>acceptedGapHint\<close> names in its hint, empty for none.
\<close>

datatype approval_refused =
    GapRefused gap_refusal
  | ReviewNotIndependent
  | CommandOverride
  | RecordedOverride
  | TestException "string list"
  | TestExceptionFinding
  | UnresolvedActionable "string list"
  | AuditReused

definition acceptedGapHint :: "StepResult \<Rightarrow> string list" where
  "acceptedGapHint s = AcceptableGapIDs s"

definition test_exception_finding :: "Finding \<Rightarrow> bool" where
  "test_exception_finding x \<longleftrightarrow> f_ID x = FindingIDTestAgentTimeout \<or>
     f_ID x = FindingIDTestAgentUnvalidatedWork \<or> f_Category x = FindingCategoryTestCommand"

definition StrictApprovalRefusal :: "StepResult \<Rightarrow> string \<Rightarrow> approval_refused option" where
  "StrictApprovalRefusal s reason =
     (if sp_StepName s = StepReview then Some ReviewNotIndependent
      else if (case sp_ExitCode s of None \<Rightarrow> False | Some c \<Rightarrow> c \<noteq> 0) then Some CommandOverride
      else if sp_OverrideReason s \<noteq> None \<or> sp_SkipReason s \<noteq> None then Some RecordedOverride
      else if reason = [] \<and> ValidAcceptedGaps s \<noteq> None then None
      else if NoSurfaceTestAcknowledgmentEligible s then None
      else if reason \<noteq> [] \<or> sp_ApprovalReason s \<noteq> None then Some (TestException (acceptedGapHint s))
      else case sp_FindingsJSON s of
          None \<Rightarrow> None
        | Some raw \<Rightarrow>
            let parsed = ParseFindingsJSON raw;
                fs = (case parsed of None \<Rightarrow> zero_findings | Some fs \<Rightarrow> fs) in
            if sp_StepName s = StepTest \<and> (\<exists>x \<in> set (items fs). test_exception_finding x)
            then Some TestExceptionFinding
            else if parsed = None \<or> HasActionableFindings fs \<or>
              sp_StepName s = StepTest \<and>
                (fs_Verdict fs = TestVerdictNoSurface \<or> fs_Verdict fs = TestVerdictNoGo \<or>
                 fs_Verdict fs = TestVerdictInconclusive)
            then Some (UnresolvedActionable (acceptedGapHint s))
            else None)"

definition StrictApprovalRefusalWithGaps ::
  "StepResult \<Rightarrow> string \<Rightarrow> AcceptedGaps option \<Rightarrow> approval_refused option" where
  "StrictApprovalRefusalWithGaps s reason gaps =
     (case gaps of
        None \<Rightarrow> StrictApprovalRefusal s reason
      | Some g \<Rightarrow> map_option GapRefused (AcceptedGapRefusal s True g))"

definition NonStrictApprovalRefusalWithGaps ::
  "StepResult \<Rightarrow> string \<Rightarrow> AcceptedGaps option \<Rightarrow> approval_refused option" where
  "NonStrictApprovalRefusalWithGaps s reason gaps =
     (case gaps of
        Some g \<Rightarrow> map_option GapRefused (AcceptedGapRefusal s False g)
      | None \<Rightarrow> if reason \<noteq> [] \<and> ValidAcceptedGaps s \<noteq> None then Some AuditReused else None)"

definition testExceptionCondition :: "StepResult \<Rightarrow> string" where
  "testExceptionCondition s =
     (if TrimSpace (deref (sp_OverrideReason s)) \<noteq> [] then deref (sp_OverrideReason s)
      else case sp_FindingsJSON s of
          None \<Rightarrow> []
        | Some raw \<Rightarrow>
            (case ParseFindingsJSON raw of
               None \<Rightarrow> if sp_ApprovalReason s \<noteq> None then ''approved Test evidence could not be read'' else []
             | Some fs \<Rightarrow>
                 if fs_Verdict fs = TestVerdictNoGo \<or> fs_Verdict fs = TestVerdictInconclusive
                 then ''live validation verdict: '' @ fs_Verdict fs
                 else if \<exists>x \<in> set (items fs). f_ID x = FindingIDTestAgentTimeout
                 then ''test agent invocation budget exhausted''
                 else []))"

definition TestOverrideReason :: "StepResult \<Rightarrow> string" where
  "TestOverrideReason s =
     (if sp_StepName s \<noteq> StepTest \<or> sp_Status s \<noteq> StepStatusCompleted then []
      else let condition = testExceptionCondition s in
        if condition = [] then []
        else case ValidAcceptedGaps s of
            Some g \<Rightarrow> TrimSpace (condition @ [CHR 0x0A] @ ''Test gap accepted ('' @ Join '', '' (elems (ag_FindingIDs g))
                        @ ''): '' @ ag_Reason g @ ''; covered by: '' @ ag_CoveredBy g)
          | None \<Rightarrow>
              (case sp_ApprovalReason s of
                 None \<Rightarrow> condition
               | Some r \<Rightarrow>
                   TrimSpace (condition @ [CHR 0x0A] @ ''Test exception approved: ''
                     @ (if TrimSpace r = [] then ''no operator reason supplied'' else r))))"

subsection \<open>Gates an approval never releases\<close>

definition protectedPathFindingID :: string where "protectedPathFindingID = ''protected-path-refusal''"

definition IsReservedFindingID :: "string \<Rightarrow> bool" where
  "IsReservedFindingID i \<longleftrightarrow> i = protectedPathFindingID \<or> i = FindingIDTestAgentTimeout \<or>
     i = FindingIDTestAgentUnvalidatedWork \<or> i = ReviewQuestionsUnreadableFindingID"

definition hasFindingID :: "string \<Rightarrow> string \<Rightarrow> bool" where
  "hasFindingID raw i \<longleftrightarrow> (\<exists>x \<in> set (parsed_items raw). f_ID x = i)"

definition HasProtectedPathRefusal :: "string \<Rightarrow> bool" where
  "HasProtectedPathRefusal raw = hasFindingID raw protectedPathFindingID"

definition HasUnvalidatedWorkRefusal :: "string \<Rightarrow> bool" where
  "HasUnvalidatedWorkRefusal raw = hasFindingID raw FindingIDTestAgentUnvalidatedWork"

definition HasUnansweredReviewQuestion :: "string \<Rightarrow> bool" where
  "HasUnansweredReviewQuestion raw =
     (case ParseFindingsJSON raw of None \<Rightarrow> False | Some fs \<Rightarrow> HasReviewQuestion fs)"

definition HasUnreadableReviewQuestionHistory :: "string \<Rightarrow> bool" where
  "HasUnreadableReviewQuestionHistory raw =
     (case ParseFindingsJSON raw of
        None \<Rightarrow> False
      | Some fs \<Rightarrow> \<exists>x \<in> set (items fs). f_ID x = ReviewQuestionsUnreadableFindingID)"

datatype approve_refused = ProtectedPathEdit StepName | UnvalidatedTestWork StepName

definition approvalRefusal :: "StepName \<Rightarrow> string \<Rightarrow> approve_refused option" where
  "approvalRefusal step raw =
     (if HasProtectedPathRefusal raw then Some (ProtectedPathEdit step)
      else if HasUnvalidatedWorkRefusal raw then Some (UnvalidatedTestWork step)
      else None)"


section \<open>Eligibility\<close>

lemma first_refusal_None: "first_refusal f xs = None \<longleftrightarrow> (\<forall>x \<in> set xs. f x = None)"
  by (induction xs) (auto split: option.splits)

lemma first_refusal_Some: "first_refusal f xs = Some r \<Longrightarrow> \<exists>x \<in> set xs. \<exists>y. f x = Some y"
  by (induction xs) (auto split: option.splits)

lemma gap_by_id_member: "gap_by_id xs i = Some x \<Longrightarrow> x \<in> set xs \<and> f_ID x = i \<and> i \<noteq> []"
  unfolding gap_by_id_def by (drule map_of_SomeD) auto

lemma gap_by_id_present: "x \<in> set xs \<Longrightarrow> f_ID x \<noteq> [] \<Longrightarrow> gap_by_id xs (f_ID x) \<noteq> None"
  by (auto simp: gap_by_id_def map_of_eq_None_iff image_iff)

lemma gap_name_ok:
  "gap_name_refusal xs raw = None \<longleftrightarrow>
     (\<exists>x. gap_by_id xs (TrimSpace raw) = Some x \<and> IsNativeTestVerdictFinding x)"
  by (auto simp: gap_name_refusal_def split: option.splits)

text \<open>What an accepted request says about the findings.\<close>

definition gap_covers :: "Findings \<Rightarrow> string list \<Rightarrow> bool" where
  "gap_covers fs names \<longleftrightarrow>
     fs_Verdict fs = TestVerdictInconclusive \<and>
     (\<forall>x \<in> set (items fs). gap_item_refusal x = None) \<and>
     (\<forall>n \<in> set names. gap_name_refusal (items fs) n = None) \<and>
     (\<forall>x \<in> set (items fs). ActionOrDefault x \<noteq> ActionNoOp \<longrightarrow> f_ID x \<in> TrimSpace ` set names)"

lemma verdict_neq [simp]: "TestVerdictInconclusive \<noteq> TestVerdictNoGo" "TestVerdictInconclusive \<noteq> []"
  by (simp_all add: TestVerdictInconclusive_def TestVerdictNoGo_def)

lemma gap_findings_ok:
  "gap_findings_refusal fs g = None \<longleftrightarrow>
     gap_covers fs (elems (ag_FindingIDs g)) \<and> (ag_Verdict g = [] \<or> ag_Verdict g = fs_Verdict fs)"
  by (auto simp: gap_findings_refusal_def gap_covers_def first_refusal_None Let_def filter_empty_conv
      dest: first_refusal_Some split: option.splits if_splits)

definition gap_text_ok :: "AcceptedGaps \<Rightarrow> bool" where
  "gap_text_ok g \<longleftrightarrow> MinAcceptedGapReasonLen \<le> length (runes (TrimSpace (ag_Reason g))) \<and>
     TrimSpace (ag_CoveredBy g) \<noteq> [] \<and> AcceptedGapTextRefusal ''--reason'' (ag_Reason g) = None \<and>
     AcceptedGapTextRefusal ''--covered-by'' (ag_CoveredBy g) = None"

definition gap_row_ok :: "StepResult \<Rightarrow> bool" where
  "gap_row_ok s \<longleftrightarrow> sp_StepName s = StepTest \<and> (sp_ExitCode s = None \<or> sp_ExitCode s = Some 0) \<and>
     sp_OverrideReason s = None \<and> sp_SkipReason s = None \<and> sp_ApprovalReason s = None"

lemma gap_admitted_iff:
  "AcceptedGapRefusal s strict g = None \<longleftrightarrow>
     gap_row_ok s \<and> gap_text_ok g \<and> elems (ag_FindingIDs g) \<noteq> [] \<and>
     (\<exists>raw fs. sp_FindingsJSON s = Some raw \<and> ParseFindingsJSON raw = Some fs \<and>
        gap_covers fs (elems (ag_FindingIDs g)) \<and> (ag_Verdict g = [] \<or> ag_Verdict g = fs_Verdict fs))"
  by (auto simp: AcceptedGapRefusal_def gap_row_ok_def gap_text_ok_def gap_findings_ok
      split: option.splits if_splits)

lemma low_byte_rune: "c \<in> set s \<Longrightarrow> byte c < 128 \<Longrightarrow> [c] \<in> set (runes s)"
proof (induction s rule: runes.induct)
  case (2 a s)
  define n where "n = max 1 (rune_size (a # s))"
  have r: "runes (a # s) = take n (a # s) # runes (drop n (a # s))" by (simp add: n_def Let_def)
  show ?case
  proof (cases "c \<in> set (drop n (a # s))")
    case True
    then show ?thesis using 2 r by (simp add: n_def)
  next
    case False
    then have c: "c \<in> set (take n (a # s))"
      using "2.prems"(1) by (metis Un_iff append_take_drop_id set_append)
    have "n = 1"
    proof (rule ccontr)
      assume "n \<noteq> 1"
      then have big: "n = rune_size (a # s)" "1 < n" unfolding n_def by linarith+
      then have "128 \<le> byte a" using rune_size_ascii [of a s] by (cases "byte a < 128") simp_all
      then show False using rune_high [of a s c] c "2.prems"(2) big by simp
    qed
    then show ?thesis using c r by simp
  qed
qed simp

lemma accepted_text_one_line:
  assumes "AcceptedGapTextRefusal flag text = None" "c \<in> set text"
  shows "32 \<le> byte c"
proof (rule ccontr)
  assume "\<not> 32 \<le> byte c"
  then have "[c] \<in> set (runes text)" "control_rune [c]"
    using low_byte_rune [OF assms(2)] by (simp_all add: control_rune_def)
  then show False using assms(1) by (auto simp: AcceptedGapTextRefusal_def split: if_splits)
qed

definition sample_gap_item :: Finding where
  "sample_gap_item = zero_finding\<lparr>f_ID := FindingIDTestVerdict, f_Category := FindingCategoryTestVerdict,
     f_Severity := FindingSeverityWarning, f_Action := ActionAskUser, f_Description := ''not driven''\<rparr>"

definition sample_gap_findings :: Findings where
  "sample_gap_findings = zero_findings\<lparr>fs_Items := Some [sample_gap_item], fs_Verdict := TestVerdictInconclusive\<rparr>"

definition sample_gap_step :: StepResult where
  "sample_gap_step = zero_step\<lparr>sp_StepName := StepTest, sp_Status := StepStatusAwaitingApproval,
     sp_ExitCode := Some 0, sp_FindingsJSON := Some (MarshalFindingsJSON sample_gap_findings)\<rparr>"

definition sample_gap_request :: AcceptedGaps where
  "sample_gap_request = zero_gaps\<lparr>ag_FindingIDs := Some [FindingIDTestVerdict],
     ag_Reason := ''approved by the owner'', ag_CoveredBy := ''unit tests''\<rparr>"

lemmas verdict_defs = FindingIDTestVerdict_def FindingCategoryTestVerdict_def FindingIDTestAgentTimeout_def
  FindingIDTestAgentUnvalidatedWork_def FindingCategoryTestCommand_def FindingSeverityWarning_def
  ActionAskUser_def ActionNoOp_def FindingSourceUser_def

lemma sample_gap_parse: "ParseFindingsJSON (MarshalFindingsJSON sample_gap_findings) = Some sample_gap_findings"
  by (rule parse_marshal)
    (simp add: storable_def sample_gap_findings_def sample_gap_item_def zero_findings_def zero_finding_def
      utf8_findings_def int64_findings_def utf8_finding_def int64_finding_def int64_def verdict_defs
      TestVerdictInconclusive_def)

lemma sample_gap_covers: "gap_covers sample_gap_findings [FindingIDTestVerdict]"
  by (simp add: gap_covers_def sample_gap_findings_def zero_findings_def gap_item_refusal_def
      gap_name_refusal_def gap_by_id_def sample_gap_item_def IsNativeTestVerdictFinding_def zero_finding_def
      verdict_defs TrimSpace_plain plain_byte_def)

lemma sample_gap_row: "gap_row_ok sample_gap_step"
  by (simp add: gap_row_ok_def sample_gap_step_def zero_step_def)

lemma sample_gap_admits:
  assumes "ag_FindingIDs g = Some [FindingIDTestVerdict]" "ag_Verdict g = []" "gap_text_ok g"
  shows "AcceptedGapRefusal sample_gap_step strict g = None"
proof -
  have "sp_FindingsJSON sample_gap_step = Some (MarshalFindingsJSON sample_gap_findings)"
    by (simp add: sample_gap_step_def zero_step_def)
  then show ?thesis
    unfolding gap_admitted_iff
    using sample_gap_row sample_gap_covers sample_gap_parse assms by fastforce
qed

lemma runes_ascii: "list_all (\<lambda>c. byte c < 128) s \<Longrightarrow> runes s = map (\<lambda>c. [c]) s"
  by (induction s) (simp_all add: Let_def)

lemma plain_text_accepted:
  assumes "list_all (\<lambda>c. 32 \<le> byte c \<and> byte c < 127) s" "length s \<le> 500"
  shows "AcceptedGapTextRefusal flag s = None" "length (runes s) = length s"
proof -
  have "list_all (\<lambda>c. byte c < 128) s" using assms(1) by (auto simp: list_all_iff)
  then have r: "runes s = map (\<lambda>c. [c]) s" by (rule runes_ascii)
  have "[c] \<noteq> line_separator" "[c] \<noteq> paragraph_separator" for c
    by (simp_all add: line_separator_def paragraph_separator_def)
  then show "AcceptedGapTextRefusal flag s = None" "length (runes s) = length s"
    using assms by (auto simp: AcceptedGapTextRefusal_def r MaxAcceptedGapTextLen_def control_rune_def list_all_iff)
qed

lemma plain_gap_text_ok:
  assumes "list_all (\<lambda>c. 32 \<le> byte c \<and> byte c < 127) (ag_Reason g)" "length (ag_Reason g) \<le> 500"
    "list_all (\<lambda>c. 32 \<le> byte c \<and> byte c < 127) (ag_CoveredBy g)" "length (ag_CoveredBy g) \<le> 500"
    "TrimSpace (ag_Reason g) = ag_Reason g" "10 \<le> length (ag_Reason g)"
    "TrimSpace (ag_CoveredBy g) = ag_CoveredBy g" "ag_CoveredBy g \<noteq> []"
  shows "gap_text_ok g"
  using assms by (simp add: gap_text_ok_def MinAcceptedGapReasonLen_def plain_text_accepted)

lemma sample_gap_text: "gap_text_ok sample_gap_request"
  by (rule plain_gap_text_ok)
    (simp_all add: sample_gap_request_def zero_gaps_def TrimSpace_plain plain_byte_def)

lemma sample_gap_admitted: "AcceptedGapRefusal sample_gap_step strict sample_gap_request = None"
  by (rule sample_gap_admits [OF _ _ sample_gap_text]) (simp_all add: sample_gap_request_def zero_gaps_def)

text \<open>C12. An accepted Test gap cannot hide anything else: a request that is admitted, strict or not, is
  for a Test step with an inconclusive verdict, no failing command, no earlier override, skip or
  exception, and every finding of it that asks for action bears the identifier of the step's own
  verdict finding, none being an agent timeout, unvalidated work, a failed command or a lookalike of
  the verdict; the texts kept for the audit are single lines of at most 500 characters.\<close>

theorem accepted_gap_sound:
  assumes "AcceptedGapRefusal s strict g = None"
  shows "sp_StepName s = StepTest \<and> (\<exists>fs. ParseFindingsJSON (deref (sp_FindingsJSON s)) = Some fs \<and>
      fs_Verdict fs = TestVerdictInconclusive \<and>
      (\<forall>x \<in> set (items fs). ActionOrDefault x \<noteq> ActionNoOp \<longrightarrow> f_ID x = FindingIDTestVerdict) \<and>
      (\<forall>x \<in> set (items fs). f_Category x = FindingCategoryTestVerdict \<longrightarrow> IsNativeTestVerdictFinding x) \<and>
      (\<forall>x \<in> set (items fs). \<not> test_exception_finding x)) \<and>
    (sp_ExitCode s = None \<or> sp_ExitCode s = Some 0) \<and>
    sp_OverrideReason s = None \<and> sp_SkipReason s = None \<and> sp_ApprovalReason s = None \<and>
    (\<forall>c \<in> set (ag_Reason g) \<union> set (ag_CoveredBy g). 32 \<le> byte c) \<and>
    length (runes (ag_Reason g)) \<le> 500 \<and> length (runes (ag_CoveredBy g)) \<le> 500"
proof -
  obtain raw fs where fs: "sp_FindingsJSON s = Some raw" "ParseFindingsJSON raw = Some fs"
    and cov: "gap_covers fs (elems (ag_FindingIDs g))" and row: "gap_row_ok s" and texts: "gap_text_ok g"
    using assms unfolding gap_admitted_iff by blast
  have native: "f_ID x = FindingIDTestVerdict" if x: "x \<in> set (items fs)" "ActionOrDefault x \<noteq> ActionNoOp" for x
  proof -
    obtain n where n: "n \<in> set (elems (ag_FindingIDs g))" "f_ID x = TrimSpace n"
      using cov x by (auto simp: gap_covers_def)
    then obtain y where "gap_by_id (items fs) (TrimSpace n) = Some y" "IsNativeTestVerdictFinding y"
      using cov by (auto simp: gap_covers_def gap_name_ok)
    then show ?thesis using gap_by_id_member n(2) by (fastforce simp: IsNativeTestVerdictFinding_def)
  qed
  have item: "\<forall>x \<in> set (items fs). gap_item_refusal x = None" using cov by (simp add: gap_covers_def)
  have lens: "length (runes (ag_Reason g)) \<le> 500" "length (runes (ag_CoveredBy g)) \<le> 500"
    using texts by (auto simp: gap_text_ok_def AcceptedGapTextRefusal_def MaxAcceptedGapTextLen_def split: if_splits)
  show ?thesis
    using fs row texts cov native item lens accepted_text_one_line
    by (auto simp: deref_def gap_row_ok_def gap_text_ok_def gap_covers_def gap_item_refusal_def
        test_exception_finding_def split: if_splits)
qed

theorem accepted_gap_sound_witness:
  "\<exists>fs. ParseFindingsJSON (deref (sp_FindingsJSON sample_gap_step)) = Some fs \<and>
     fs_Verdict fs = TestVerdictInconclusive"
  using accepted_gap_sound [OF sample_gap_admitted [of True]] by blast

text \<open>The help of a parked Test gate never offers what the daemon would refuse: when the step
  proposes identifiers for an accepted gap, a request that names them is admitted, strict or not,
  whatever reason and covering tests it states within the limits on these texts.\<close>

theorem gap_hint_admissible:
  assumes "AcceptableGapIDs s = ids" "ids \<noteq> []" "ag_FindingIDs g = Some ids" "ag_Verdict g = []" "gap_text_ok g"
  shows "AcceptedGapRefusal s strict g = None"
  using assms unfolding AcceptableGapIDs_def
  by (auto simp: gap_admitted_iff zero_gaps_def Let_def split: if_splits option.splits)

theorem gap_hint_admissible_witness: "AcceptedGapRefusal sample_gap_step False sample_gap_request = None"
proof (rule gap_hint_admissible)
  let ?probe = "zero_gaps\<lparr>ag_FindingIDs := Some [FindingIDTestVerdict],
    ag_Reason := replicate MinAcceptedGapReasonLen (CHR ''x''), ag_CoveredBy := ''probe''\<rparr>"
  have "gap_text_ok ?probe"
    by (rule plain_gap_text_ok)
      (simp_all add: zero_gaps_def MinAcceptedGapReasonLen_def TrimSpace_plain plain_byte_def list_all_iff)
  then have p: "AcceptedGapRefusal sample_gap_step True ?probe = None"
    by (intro sample_gap_admits) (simp_all add: zero_gaps_def)
  have a: "map f_ID (filter (\<lambda>x. ActionOrDefault x \<noteq> ActionNoOp) (items sample_gap_findings)) = [FindingIDTestVerdict]"
    by (simp add: sample_gap_findings_def sample_gap_item_def zero_findings_def ActionOrDefault_def
        ActionAskUser_def ActionNoOp_def)
  show "AcceptableGapIDs sample_gap_step = [FindingIDTestVerdict]"
    using p by (simp add: AcceptableGapIDs_def sample_gap_parse a Let_def
        sample_gap_step_def [THEN arg_cong [where f = sp_FindingsJSON]]
        sample_gap_step_def [THEN arg_cong [where f = sp_StepName]])
  show "gap_text_ok sample_gap_request" by (rule sample_gap_text)
qed (simp_all add: sample_gap_request_def zero_gaps_def)


section \<open>The audit record\<close>

lemma dec_gap_finding [simp]: "dec_struct gap_finding_fields (enc_gap_finding x) zero_gap_finding = Some x"
  unfolding enc_gap_finding_def dec_unfolds
  by (rule dec_rules, (simp add: gap_finding_fields_def zero_gap_finding_def)+)+

lemma dec_gaps [simp]: "dec_struct gaps_fields (enc_gaps g) zero_gaps = Some g"
  unfolding enc_gaps_def dec_unfolds
  by (rule dec_rules, (simp add: gaps_fields_def zero_gaps_def)+)+

definition utf8_gaps :: "AcceptedGaps \<Rightarrow> bool" where
  "utf8_gaps g \<longleftrightarrow> list_all valid_utf8 (elems (ag_FindingIDs g)) \<and>
     list_all (\<lambda>x. valid_utf8 (agf_ID x) \<and> valid_utf8 (agf_Category x) \<and> valid_utf8 (agf_Description x)) (ag_Findings g) \<and>
     list_all valid_utf8 [ag_Reason g, ag_CoveredBy g, ag_Verdict g, ag_AcceptedAt g]"

lemma ok_gap_finding [simp]:
  "valid_utf8 (agf_ID x) \<Longrightarrow> valid_utf8 (agf_Category x) \<Longrightarrow> valid_utf8 (agf_Description x) \<Longrightarrow> 0 < d \<Longrightarrow>
     ok_json d (enc_gap_finding x)"
  unfolding enc_gap_finding_def by (rule ok_JObj) auto

lemma ok_gaps: "utf8_gaps g \<Longrightarrow> 3 < d \<Longrightarrow> ok_json d (enc_gaps g)"
  unfolding enc_gaps_def
  by (rule ok_JObj) (auto simp: utf8_gaps_def list_all_iff split: option.splits)

lemma recorded_gaps_read:
  assumes "utf8_gaps g" "sp_AcceptedGapsJSON s = Some (json_print (enc_gaps g))"
  shows "RecordedAcceptedGaps s = Inr (Some g)"
proof -
  have "json_parse (json_print (enc_gaps g)) = Some (enc_gaps g)"
    using ok_gaps [OF assms(1)] by (intro json_parse_print) (simp add: max_nesting_def)
  moreover have "json_print (enc_gaps g) \<noteq> []" by (simp add: enc_gaps_def)
  ultimately show ?thesis using assms(2) by (simp add: RecordedAcceptedGaps_def)
qed

lemma set_dedup_first: "set (dedup_first seen xs) = set xs - set seen"
  by (induction xs arbitrary: seen) auto

lemma gap_snapshots_ids: "map agf_ID (concat (map (gap_snapshots xs) ids)) = concat (map (\<lambda>i. map (\<lambda>_. i) (filter (\<lambda>x. f_ID x = i) xs)) ids)"
  by (induction ids) (simp_all add: gap_snapshots_def comp_def)

lemma snapshot_id_set:
  "set (map agf_ID (concat (map (gap_snapshots xs) ids))) = set ids \<inter> f_ID ` set xs"
  unfolding gap_snapshots_ids by (auto simp: image_iff)

lemma elems_appended [simp]: "elems (appended xs) = xs"
  by (simp add: elems_def appended_def)

lemma storable_item:
  assumes "storable fs" "x \<in> set (items fs)"
  shows "valid_utf8 (f_ID x)" "valid_utf8 (f_Category x)" "valid_utf8 (f_Description x)"
  using assms by (auto simp: storable_def utf8_findings_def utf8_finding_def list_all_iff)

lemma recorded_gap_admitted:
  assumes rec: "RecordAcceptedGaps at (Some s) g strict = Inr (r, s')"
    and utf8: "valid_utf8 (ag_Reason g)" "valid_utf8 (ag_CoveredBy g)" "valid_utf8 at"
  shows "utf8_gaps r \<and> AcceptedGapRefusal s' True r = None \<and> sp_AcceptedGapsJSON s' = Some (json_print (enc_gaps r))"
proof -
  from rec have ok: "AcceptedGapRefusal s strict g = None"
    by (auto simp: RecordAcceptedGaps_def split: if_splits option.splits)
  then obtain raw fs where fs: "sp_FindingsJSON s = Some raw" "ParseFindingsJSON raw = Some fs"
    and cov: "gap_covers fs (elems (ag_FindingIDs g))" and row: "gap_row_ok s" and texts: "gap_text_ok g"
    and ne: "elems (ag_FindingIDs g) \<noteq> []"
    unfolding gap_admitted_iff by blast
  define ids where "ids = dedup_first [] (map TrimSpace (elems (ag_FindingIDs g)))"
  define snaps where "snaps = concat (map (gap_snapshots (items fs)) ids)"
  have r: "r = \<lparr> ag_FindingIDs = appended (map agf_ID snaps), ag_Findings = snaps, ag_Reason = ag_Reason g,
      ag_CoveredBy = ag_CoveredBy g, ag_Verdict = fs_Verdict fs, ag_AcceptedAt = at \<rparr>"
    and s': "s' = s\<lparr>sp_AcceptedGapsJSON := Some (json_print (enc_gaps r))\<rparr>"
    using rec fs by (auto simp: RecordAcceptedGaps_def Let_def ids_def snaps_def deref_def split: if_splits option.splits)
  have ids: "set ids = TrimSpace ` set (elems (ag_FindingIDs g))" by (simp add: ids_def set_dedup_first)
  have named: "set (map agf_ID snaps) = set ids"
  proof -
    have "i \<in> f_ID ` set (items fs)" if i: "i \<in> set ids" for i
    proof -
      obtain n where n: "n \<in> set (elems (ag_FindingIDs g))" "i = TrimSpace n" using i ids by auto
      then obtain x where "gap_by_id (items fs) i = Some x" using cov by (auto simp: gap_covers_def gap_name_ok)
      then show ?thesis using gap_by_id_member by blast
    qed
    then show ?thesis unfolding snaps_def snapshot_id_set by blast
  qed
  have covr: "gap_covers fs (map agf_ID snaps)"
    using cov named ids unfolding gap_covers_def gap_name_ok by (simp add: image_image)
  have "map agf_ID snaps \<noteq> []" using named ids ne by (metis image_is_empty set_empty)
  then have adm: "AcceptedGapRefusal s' True r = None"
    using covr row texts fs unfolding gap_admitted_iff
    by (auto simp: r s' gap_row_ok_def gap_text_ok_def)
  have st: "storable fs" by (rule parse_storable [OF fs(2)])
  have snap_ok: "valid_utf8 (agf_ID x) \<and> valid_utf8 (agf_Category x) \<and> valid_utf8 (agf_Description x)" if "x \<in> set snaps" for x
    using that storable_item [OF st] by (auto simp: snaps_def gap_snapshots_def)
  have "utf8_gaps r"
    using snap_ok utf8 cov
    by (auto simp: utf8_gaps_def r list_all_iff gap_covers_def TestVerdictInconclusive_def)
  then show ?thesis using adm by (simp add: s')
qed

text \<open>The audit record survives re-validation: what \<open>RecordAcceptedGaps\<close> writes for an admitted
  request is decoded from the row as it was written and is still a valid accepted gap there, so the
  step completes past its verdict without the operator's answer being asked for again.\<close>

theorem recorded_gap_valid:
  assumes "RecordAcceptedGaps at (Some s) g strict = Inr (r, s')"
    and "valid_utf8 (ag_Reason g)" "valid_utf8 (ag_CoveredBy g)" "valid_utf8 at"
  shows "ValidAcceptedGaps s' = Some r \<and> ag_Reason r = ag_Reason g \<and> ag_CoveredBy r = ag_CoveredBy g"
proof -
  have "ag_Reason r = ag_Reason g \<and> ag_CoveredBy r = ag_CoveredBy g"
    using assms(1) by (auto simp: RecordAcceptedGaps_def Let_def split: if_splits option.splits)
  then show ?thesis
    using recorded_gap_admitted [OF assms] recorded_gaps_read [of r s'] by (simp add: ValidAcceptedGaps_def)
qed

theorem recorded_gap_valid_witness:
  "\<exists>r s'. RecordAcceptedGaps ''2026-01-01T00:00:00Z'' (Some sample_gap_step) sample_gap_request True = Inr (r, s') \<and>
     ValidAcceptedGaps s' = Some r"
proof -
  have "active_test_row sample_gap_step" by (simp add: active_test_row_def sample_gap_step_def zero_step_def)
  then obtain r s' where rec: "RecordAcceptedGaps ''2026-01-01T00:00:00Z'' (Some sample_gap_step) sample_gap_request True = Inr (r, s')"
    using sample_gap_admitted [of True] sample_gap_parse
    by (auto simp: RecordAcceptedGaps_def Let_def deref_def
        sample_gap_step_def [THEN arg_cong [where f = sp_FindingsJSON]])
  then show ?thesis
    using recorded_gap_valid [OF rec]
    by (auto simp: sample_gap_request_def zero_gaps_def valid_utf8_ascii)
qed

end
