(* ===== verification/PendingResponse.thy ===== *)
theory PendingResponse
  imports Approvals
begin

text \<open>
  The durable form of an accepted gate response (\<open>pendingGateResponse\<close> of
  \<open>internal/pipeline/slot.go\<close>): what a daemon that stops while the run waits for a slot reads back
  after its restart. A Go map from strings to strings is the list of its entries sorted by key,
  which is also the order in which it is encoded.
\<close>

section \<open>Maps of strings\<close>

fun map_insert :: "string \<Rightarrow> string \<Rightarrow> (string \<times> string) list \<Rightarrow> (string \<times> string) list" where
  "map_insert k v [] = [(k, v)]"
| "map_insert k v ((k', v') # m) =
     (if k = k' then (k, v) # m else if k < k' then (k, v) # (k', v') # m else (k', v') # map_insert k v m)"

definition go_map :: "(string \<times> string) list \<Rightarrow> bool" where
  "go_map m \<longleftrightarrow> sorted_wrt (<) (map fst m)"

lemma map_insert_last:
  "\<forall>k' \<in> fst ` set m. k' < k \<Longrightarrow> map_insert k v m = m @ [(k, v)]"
  by (induction m) (auto simp: less_le_not_le)

lemma map_insert_lookup: "map_of (map_insert k v m) = (map_of m)(k \<mapsto> v)"
  by (induction k v m rule: map_insert.induct) (auto simp: fun_eq_iff)

lemma map_insert_keys: "fst ` set (map_insert k v m) = insert k (fst ` set m)"
  by (induction k v m rule: map_insert.induct) auto

lemma map_insert_go_map: "go_map m \<Longrightarrow> go_map (map_insert k v m)"
proof (induction k v m rule: map_insert.induct)
  case (2 k v k' v' m)
  have keys: "set (map fst (map_insert k v m)) = insert k (fst ` set m)" using map_insert_keys by simp
  show ?case
    using 2 keys by (auto simp: go_map_def dest: less_trans)
qed (simp add: go_map_def)

section \<open>Responses\<close>

record approvalResponse =
  ar_gate :: GateIdentity
  ar_action :: ApprovalAction
  ar_findingIDs :: "string list"
  ar_instructions :: "(string \<times> string) list"
  ar_addedFindings :: "Finding list"
  ar_approvalReason :: string
  ar_acceptedGaps :: "AcceptedGaps option"
  ar_ignoreFindingIDs :: "string list"

definition zero_gate :: GateIdentity where
  "zero_gate = \<lparr> g_RunID = [], g_StepResultID = [], g_Step = [], g_RoundID = [], g_Nonce = [], g_Status = [] \<rparr>"

definition zero_response :: approvalResponse where
  "zero_response = \<lparr> ar_gate = zero_gate, ar_action = [], ar_findingIDs = [], ar_instructions = [],
     ar_addedFindings = [], ar_approvalReason = [], ar_acceptedGaps = None, ar_ignoreFindingIDs = [] \<rparr>"

record pendingGateResponse =
  pg_Gate :: GateIdentity
  pg_ParkedMS :: "int option"
  pg_Kind :: string
  pg_Action :: ApprovalAction
  pg_FindingIDs :: "string list"
  pg_IgnoreFindingIDs :: "string list"
  pg_Instructions :: "(string \<times> string) list"
  pg_AddedFindings :: "Finding list"
  pg_ApprovalReason :: string
  pg_AcceptedGaps :: "AcceptedGaps option"

definition zero_pending :: pendingGateResponse where
  "zero_pending = \<lparr> pg_Gate = zero_gate, pg_ParkedMS = None, pg_Kind = [], pg_Action = [],
     pg_FindingIDs = [], pg_IgnoreFindingIDs = [], pg_Instructions = [], pg_AddedFindings = [],
     pg_ApprovalReason = [], pg_AcceptedGaps = None \<rparr>"

section \<open>The wire format\<close>

text \<open>\<open>StepName\<close> reads itself, null included (\<open>StepName.UnmarshalJSON\<close>).\<close>

definition step_field :: "(StepName \<Rightarrow> 's \<Rightarrow> 's) \<Rightarrow> 's setter" where
  "step_field upd j s =
     (case j of JStr v \<Rightarrow> Some (upd (normalizeStepName v) s) | JNull \<Rightarrow> Some (upd (normalizeStepName []) s) | _ \<Rightarrow> None)"

definition gate_fields :: "GateIdentity fields" where
  "gate_fields =
     [(''run_id'', str_field (\<lambda>v s. s\<lparr>g_RunID := v\<rparr>)),
      (''step_result_id'', str_field (\<lambda>v s. s\<lparr>g_StepResultID := v\<rparr>)),
      (''step'', step_field (\<lambda>v s. s\<lparr>g_Step := v\<rparr>)),
      (''round_id'', str_field (\<lambda>v s. s\<lparr>g_RoundID := v\<rparr>)),
      (''nonce'', str_field (\<lambda>v s. s\<lparr>g_Nonce := v\<rparr>)),
      (''status'', str_field (\<lambda>v s. s\<lparr>g_Status := v\<rparr>))]"

definition enc_gate :: "GateIdentity \<Rightarrow> json" where
  "enc_gate g = JObj
     [(''run_id'', JStr (g_RunID g)), (''step_result_id'', JStr (g_StepResultID g)),
      (''step'', JStr (g_Step g)), (''round_id'', JStr (g_RoundID g)), (''nonce'', JStr (g_Nonce g)),
      (''status'', JStr (g_Status g))]"

text \<open>A field that is a struct, and one that is a map.\<close>

definition struct_field :: "('s \<Rightarrow> 'a) \<Rightarrow> ('a \<Rightarrow> 's \<Rightarrow> 's) \<Rightarrow> 'a setter \<Rightarrow> 's setter" where
  "struct_field get upd d j s = map_option (\<lambda>v. upd v s) (d j (get s))"

fun dec_entries :: "(string \<times> json) list \<Rightarrow> (string \<times> string) list \<Rightarrow> (string \<times> string) list option" where
  "dec_entries [] m = Some m"
| "dec_entries ((k, JStr v) # ms) m = dec_entries ms (map_insert k v m)"
| "dec_entries ((k, JNull) # ms) m = dec_entries ms (map_insert k [] m)"
| "dec_entries ((k, v) # ms) m = None"

definition map_field ::
  "('s \<Rightarrow> (string \<times> string) list) \<Rightarrow> ((string \<times> string) list \<Rightarrow> 's \<Rightarrow> 's) \<Rightarrow> 's setter" where
  "map_field get upd j s =
     (case j of
        JObj ms \<Rightarrow> map_option (\<lambda>m. upd m s) (dec_entries ms (get s))
      | JNull \<Rightarrow> Some (upd [] s)
      | _ \<Rightarrow> None)"

definition omit_map :: "string \<Rightarrow> (string \<times> string) list \<Rightarrow> (string \<times> json) list" where
  "omit_map k m = (if m = [] then [] else [(k, JObj (map (\<lambda>(n, v). (n, JStr v)) m))])"

definition pending_fields :: "pendingGateResponse fields" where
  "pending_fields =
     [(''gate'', struct_field pg_Gate (\<lambda>v s. s\<lparr>pg_Gate := v\<rparr>) (dec_struct gate_fields)),
      (''parked_ms'', ptr_field pg_ParkedMS (\<lambda>v s. s\<lparr>pg_ParkedMS := v\<rparr>) 0 (int_field (\<lambda>v _. v))),
      (''kind'', str_field (\<lambda>v s. s\<lparr>pg_Kind := v\<rparr>)),
      (''action'', str_field (\<lambda>v s. s\<lparr>pg_Action := v\<rparr>)),
      (''finding_ids'', slice_field pg_FindingIDs (\<lambda>v s. s\<lparr>pg_FindingIDs := elems v\<rparr>) [] str_elem),
      (''ignore_finding_ids'', slice_field pg_IgnoreFindingIDs (\<lambda>v s. s\<lparr>pg_IgnoreFindingIDs := elems v\<rparr>) [] str_elem),
      (''instructions'', map_field pg_Instructions (\<lambda>v s. s\<lparr>pg_Instructions := v\<rparr>)),
      (''added_findings'', slice_field pg_AddedFindings (\<lambda>v s. s\<lparr>pg_AddedFindings := elems v\<rparr>) zero_finding Finding_UnmarshalJSON),
      (''approval_reason'', str_field (\<lambda>v s. s\<lparr>pg_ApprovalReason := v\<rparr>)),
      (''accepted_gaps'', ptr_field pg_AcceptedGaps (\<lambda>v s. s\<lparr>pg_AcceptedGaps := v\<rparr>) zero_gaps (dec_struct gaps_fields))]"

definition enc_pending :: "pendingGateResponse \<Rightarrow> json" where
  "enc_pending p = JObj
     ([(''gate'', enc_gate (pg_Gate p))]
      @ omit_ptr ''parked_ms'' (\<lambda>i. JNum (Itoa i)) (pg_ParkedMS p)
      @ omit_str ''kind'' (pg_Kind p) @ omit_str ''action'' (pg_Action p)
      @ omit_list ''finding_ids'' JStr (pg_FindingIDs p)
      @ omit_list ''ignore_finding_ids'' JStr (pg_IgnoreFindingIDs p)
      @ omit_map ''instructions'' (pg_Instructions p)
      @ omit_list ''added_findings'' enc_finding (pg_AddedFindings p)
      @ omit_str ''approval_reason'' (pg_ApprovalReason p)
      @ omit_ptr ''accepted_gaps'' enc_gaps (pg_AcceptedGaps p))"

text \<open>None: the gate was claimed by a reconciliation, not by an operator.\<close>

definition encodePendingResponse :: "approvalResponse option \<Rightarrow> int \<Rightarrow> GateIdentity \<Rightarrow> string" where
  "encodePendingResponse r parkedMS gate =
     (let p = zero_pending\<lparr>pg_Gate := gate, pg_Kind := ''reconcile'', pg_ParkedMS := Some parkedMS\<rparr> in
      json_print (enc_pending
        (case r of
           None \<Rightarrow> p
         | Some r \<Rightarrow> p\<lparr>pg_Kind := [], pg_Action := ar_action r, pg_FindingIDs := ar_findingIDs r,
             pg_IgnoreFindingIDs := ar_ignoreFindingIDs r, pg_Instructions := ar_instructions r,
             pg_AddedFindings := ar_addedFindings r, pg_ApprovalReason := ar_approvalReason r,
             pg_AcceptedGaps := ar_acceptedGaps r\<rparr>)))"

datatype pending_error = NotDecoded | GateSuperseded GateIdentity | UnusableAction string

definition decodePendingResponse ::
  "string \<Rightarrow> GateIdentity \<Rightarrow> pending_error + (approvalResponse option \<times> int option)" where
  "decodePendingResponse raw current =
     (case (case json_parse raw of None \<Rightarrow> None | Some j \<Rightarrow> dec_struct pending_fields j zero_pending) of
        None \<Rightarrow> Inl NotDecoded
      | Some p \<Rightarrow>
          if \<not> SameGate (pg_Gate p) current then Inl (GateSuperseded current)
          else if pg_Kind p = ''reconcile'' then Inr (None, pg_ParkedMS p)
          else if pg_Action p \<in> {ActionApprove, ActionFix, ActionSkip, ActionAnswer} then
            Inr (Some \<lparr> ar_gate = pg_Gate p, ar_action = pg_Action p, ar_findingIDs = pg_FindingIDs p,
                   ar_instructions = pg_Instructions p, ar_addedFindings = pg_AddedFindings p,
                   ar_approvalReason = pg_ApprovalReason p, ar_acceptedGaps = pg_AcceptedGaps p,
                   ar_ignoreFindingIDs = pg_IgnoreFindingIDs p \<rparr>, pg_ParkedMS p)
          else Inl (UnusableAction (pg_Action p)))"

section \<open>Reading back what was written\<close>

lemma dec_step [dec_rules]:
  "map_of fs k = Some (step_field upd) \<Longrightarrow> normalizeStepName v = v \<Longrightarrow> dec_members fs ms (upd v s) = r \<Longrightarrow>
   dec_members fs ((k, JStr v) # ms) s = r"
  by (simp add: find_field_exact step_field_def dec_members.simps)

lemma dec_struct_member [dec_rules]:
  "map_of fs k = Some (struct_field get upd d) \<Longrightarrow> d j (get s) = Some v \<Longrightarrow> dec_members fs ms (upd v s) = r \<Longrightarrow>
   dec_members fs ((k, j) # ms) s = r"
  by (simp add: find_field_exact struct_field_def dec_members.simps)

lemma dec_entries_sorted:
  "go_map (m @ es) \<Longrightarrow> dec_entries (map (\<lambda>(n, v). (n, JStr v)) es) m = Some (m @ es)"
proof (induction es arbitrary: m)
  case (Cons e es)
  obtain n v where e: "e = (n, v)" by (cases e)
  have "map_insert n v m = m @ [(n, v)]"
    using Cons.prems by (intro map_insert_last) (auto simp: go_map_def sorted_wrt_append e)
  then show ?case using Cons.IH [of "m @ [(n, v)]"] Cons.prems by (simp add: e)
qed simp

lemma dec_omit_map [dec_rules]:
  "map_of fs k = Some (map_field get upd) \<Longrightarrow> get s = [] \<Longrightarrow> go_map m \<Longrightarrow> (m = [] \<Longrightarrow> upd m s = s) \<Longrightarrow>
   dec_members fs ms (upd m s) = r \<Longrightarrow> dec_members fs (omit_map k m @ ms) s = r"
  using dec_entries_sorted [of "[]" m]
  by (cases "m = []") (simp_all add: omit_map_def find_field_exact map_field_def dec_members.simps)

lemma dec_gate:
  assumes "normalizeStepName (g_Step g) = g_Step g"
  shows "dec_struct gate_fields (enc_gate g) zero_gate = Some g"
  unfolding enc_gate_def dec_unfolds
  by (rule dec_rules, (simp add: gate_fields_def zero_gate_def assms)+)+

definition pending_ok :: "pendingGateResponse \<Rightarrow> bool" where
  "pending_ok p \<longleftrightarrow> normalizeStepName (g_Step (pg_Gate p)) = g_Step (pg_Gate p) \<and>
     pred_option int64 (pg_ParkedMS p) \<and> go_map (pg_Instructions p) \<and>
     list_all finding_ok (pg_AddedFindings p) \<and> pred_option utf8_gaps (pg_AcceptedGaps p) \<and>
     list_all valid_utf8 [g_RunID (pg_Gate p), g_StepResultID (pg_Gate p), g_Step (pg_Gate p),
       g_RoundID (pg_Gate p), g_Nonce (pg_Gate p), g_Status (pg_Gate p), pg_Kind p, pg_Action p, pg_ApprovalReason p] \<and>
     list_all valid_utf8 (pg_FindingIDs p @ pg_IgnoreFindingIDs p) \<and>
     list_all (\<lambda>(k, v). valid_utf8 k \<and> valid_utf8 v) (pg_Instructions p)"


lemma enc_gaps_not_null: "enc_gaps g \<noteq> JNull"
  by (simp add: enc_gaps_def)

lemma dec_pending:
  assumes "pending_ok p"
  shows "dec_struct pending_fields (enc_pending p) zero_pending = Some p"
proof -
  have ok: "normalizeStepName (g_Step (pg_Gate p)) = g_Step (pg_Gate p)" "go_map (pg_Instructions p)"
    "\<And>x. x \<in> set (pg_AddedFindings p) \<Longrightarrow> int64_finding x" "\<And>i. pg_ParkedMS p = Some i \<Longrightarrow> int64 i"
    using assms by (auto simp: pending_ok_def list_all_iff finding_ok_def)
  note gate = dec_gate [OF ok(1)]
  show ?thesis
    unfolding enc_pending_def dec_unfolds
    by (rule dec_rules, (simp add: pending_fields_def zero_pending_def gate ok int_field_def
        parse_int64_Itoa enc_gaps_not_null)+)+
qed


lemma ok_omit_map [simp]:
  "valid_utf8 k \<Longrightarrow> 0 < d \<Longrightarrow> list_all (\<lambda>(n, v). valid_utf8 n \<and> valid_utf8 v) m \<Longrightarrow> ok_members d (omit_map k m)"
  by (force simp: omit_map_def list_all_iff ok_members_def)

lemma ok_pending: "pending_ok p \<Longrightarrow> ok_json max_nesting (enc_pending p)"
  unfolding enc_pending_def
  by (rule ok_JObj)
    (auto simp: pending_ok_def enc_gate_def max_nesting_def list_all_iff finding_ok_def omit_ptr_def ok_gaps
      split: option.split)

definition pending_of :: "approvalResponse option \<Rightarrow> int \<Rightarrow> GateIdentity \<Rightarrow> pendingGateResponse" where
  "pending_of r parkedMS gate =
     (let p = zero_pending\<lparr>pg_Gate := gate, pg_Kind := ''reconcile'', pg_ParkedMS := Some parkedMS\<rparr> in
      case r of
        None \<Rightarrow> p
      | Some r \<Rightarrow> p\<lparr>pg_Kind := [], pg_Action := ar_action r, pg_FindingIDs := ar_findingIDs r,
          pg_IgnoreFindingIDs := ar_ignoreFindingIDs r, pg_Instructions := ar_instructions r,
          pg_AddedFindings := ar_addedFindings r, pg_ApprovalReason := ar_approvalReason r,
          pg_AcceptedGaps := ar_acceptedGaps r\<rparr>)"

lemma encode_pending_of: "encodePendingResponse r ms gate = json_print (enc_pending (pending_of r ms gate))"
  by (simp add: encodePendingResponse_def pending_of_def Let_def)

text \<open>A response of an operator or a claim that can be written: what arrives over IPC and what the executor fills in.\<close>

definition response_ok :: "approvalResponse option \<Rightarrow> int \<Rightarrow> GateIdentity \<Rightarrow> bool" where
  "response_ok r ms gate \<longleftrightarrow> pending_ok (pending_of r ms gate) \<and>
     (case r of None \<Rightarrow> True | Some r \<Rightarrow> ar_action r \<in> {ActionApprove, ActionFix, ActionSkip, ActionAnswer})"

lemma decode_encoded:
  assumes "response_ok r ms gate" "SameGate gate current"
  shows "decodePendingResponse (encodePendingResponse r ms gate) current =
    Inr (map_option (\<lambda>r. r\<lparr>ar_gate := gate\<rparr>) r, Some ms)"
proof -
  have ok: "pending_ok (pending_of r ms gate)" using assms(1) by (simp add: response_ok_def)
  have "json_parse (encodePendingResponse r ms gate) = Some (enc_pending (pending_of r ms gate))"
    unfolding encode_pending_of by (rule json_parse_print [OF ok_pending [OF ok]])
  then have "decodePendingResponse (encodePendingResponse r ms gate) current =
      (let p = pending_of r ms gate in
       if \<not> SameGate (pg_Gate p) current then Inl (GateSuperseded current)
       else if pg_Kind p = ''reconcile'' then Inr (None, pg_ParkedMS p)
       else if pg_Action p \<in> {ActionApprove, ActionFix, ActionSkip, ActionAnswer} then
         Inr (Some \<lparr> ar_gate = pg_Gate p, ar_action = pg_Action p, ar_findingIDs = pg_FindingIDs p,
                ar_instructions = pg_Instructions p, ar_addedFindings = pg_AddedFindings p,
                ar_approvalReason = pg_ApprovalReason p, ar_acceptedGaps = pg_AcceptedGaps p,
                ar_ignoreFindingIDs = pg_IgnoreFindingIDs p \<rparr>, pg_ParkedMS p)
       else Inl (UnusableAction (pg_Action p)))"
    by (simp add: decodePendingResponse_def dec_pending [OF ok] Let_def)
  then show ?thesis
    using assms by (cases r) (simp_all add: pending_of_def zero_pending_def response_ok_def)
qed

text \<open>An accepted response survives a restart of the daemon: the record written beside the parked gate
  is decoded, at the same gate, into the very response that was accepted, with its selection, declines,
  instructions, added findings, reason and accepted gap, and the parked time at acceptance; read at
  any other gate it is refused as superseded.\<close>

theorem pending_response_roundtrip:
  assumes "response_ok (Some r) ms (ar_gate r)"
  shows "decodePendingResponse (encodePendingResponse (Some r) ms (ar_gate r)) current =
    (if SameGate (ar_gate r) current then Inr (Some r, Some ms) else Inl (GateSuperseded current))"
proof (cases "SameGate (ar_gate r) current")
  case True
  then show ?thesis using decode_encoded [OF assms] by simp
next
  case False
  have ok: "pending_ok (pending_of (Some r) ms (ar_gate r))" using assms by (simp add: response_ok_def)
  have "json_parse (encodePendingResponse (Some r) ms (ar_gate r)) = Some (enc_pending (pending_of (Some r) ms (ar_gate r)))"
    unfolding encode_pending_of by (rule json_parse_print [OF ok_pending [OF ok]])
  then show ?thesis using False
    by (simp add: decodePendingResponse_def dec_pending [OF ok]) (simp add: pending_of_def zero_pending_def)
qed

definition sample_gate_id :: GateIdentity where
  "sample_gate_id = \<lparr> g_RunID = ''run'', g_StepResultID = ''s1'', g_Step = StepReview, g_RoundID = ''r1'',
     g_Nonce = ''n1'', g_Status = StepStatusAwaitingApproval \<rparr>"

definition sample_response :: approvalResponse where
  "sample_response = zero_response\<lparr>ar_gate := sample_gate_id, ar_action := ActionFix,
     ar_findingIDs := [''R1''], ar_instructions := [(''R1'', ''keep it small'')]\<rparr>"

lemma sample_response_ok: "response_ok (Some sample_response) 1500 sample_gate_id"
  by (simp add: response_ok_def pending_ok_def pending_of_def sample_response_def zero_response_def
      zero_pending_def sample_gate_id_def int64_def go_map_def normalizeStepName_def StepReview_def
      StepStatusAwaitingApproval_def ActionFix_def ActionApprove_def)

theorem pending_response_roundtrip_witness:
  "decodePendingResponse (encodePendingResponse (Some sample_response) 1500 sample_gate_id) sample_gate_id =
     Inr (Some sample_response, Some 1500)"
proof -
  have g: "ar_gate sample_response = sample_gate_id" by (simp add: sample_response_def zero_response_def)
  have "SameGate sample_gate_id sample_gate_id" by (simp add: SameGate_def sample_gate_id_def StepReview_def)
  then show ?thesis
    using pending_response_roundtrip [of sample_response 1500] sample_response_ok by (simp add: g)
qed

end
