(* ===== verification/GateProtocol.thy ===== *)
theory GateProtocol
  imports GateResponse PendingResponse "HOL-Library.Multiset"
begin

text \<open>
  The protocol around a parked approval gate: its publication, the answer of an operator or the
  claim of a reconciliation, the durable record of an accepted answer, its consumption by the gate
  loop and its dispatch, and the recovery of a parked gate after a restart of the daemon.
  Sources: \<open>internal/pipeline/executor.go\<close>, \<open>gate_identity.go\<close>, \<open>slot.go\<close> and the gate columns of
  \<open>internal/db/step.go\<close> and \<open>round.go\<close>.

  One function is one critical section under \<open>Executor.mu\<close> or one SQL statement or transaction on
  the rows. Reads and writes of the database succeed, so an error stands for a missing or
  superseded row. Times, the nonce of a park and the outcome of a wait for a slot are inputs.
\<close>

section \<open>The rows\<close>

record runClock =
  rk_AwaitingAgentSince :: "int option"
  rk_ParkedMS :: int

record gateStore =
  gs_steps :: "string \<Rightarrow> StepResult option"
  gs_rounds :: "string \<Rightarrow> StepRound list"
  gs_runs :: "string \<Rightarrow> runClock option"
  gs_rewind :: "string \<Rightarrow> bool"

definition put_step :: "StepResult \<Rightarrow> gateStore \<Rightarrow> gateStore" where
  "put_step row st = st\<lparr>gs_steps := (gs_steps st)(sp_ID row \<mapsto> row)\<rparr>"

text \<open>None: no row was updated, and the transaction is rolled back.\<close>

definition ParkStepForApproval ::
  "int \<Rightarrow> string \<Rightarrow> string \<Rightarrow> string \<Rightarrow> StepStatus \<Rightarrow> int \<Rightarrow> int \<Rightarrow> string option \<Rightarrow> string option \<Rightarrow> gateStore \<Rightarrow> gateStore option" where
  "ParkStepForApproval ts nonce runID stepID status exitCode durationMS findings rnd st =
     (case (gs_steps st stepID, gs_runs st runID) of
        (Some row, Some run) \<Rightarrow>
          let latest = (case rev (gs_rounds st stepID) of [] \<Rightarrow> None | r # _ \<Rightarrow> Some (sr_ID r));
              row' = row\<lparr>sp_Status := status, sp_ExitCode := Some exitCode, sp_DurationMS := Some durationMS,
                       sp_FindingsJSON := findings, sp_PendingResponse := None, sp_GateNonce := Some nonce,
                       sp_GateRoundID := (case rnd of Some r \<Rightarrow> Some r | None \<Rightarrow> latest),
                       sp_LastActivityAt := Some ts, sp_LastActivity := Some (''status: '' @ status)\<rparr> in
          Some ((put_step row' st)\<lparr>gs_runs := (gs_runs st)(runID \<mapsto> run\<lparr>rk_AwaitingAgentSince := Some ts\<rparr>)\<rparr>)
      | _ \<Rightarrow> None)"

text \<open>The condition on the gate columns in the updates of an answered gate.\<close>

definition row_at_gate :: "StepResult \<Rightarrow> GateIdentity \<Rightarrow> bool" where
  "row_at_gate row g \<longleftrightarrow> sp_GateNonce row = Some (g_Nonce g) \<and> sp_GateRoundID row = Some (g_RoundID g) \<and>
     sp_RunID row = g_RunID g \<and> sp_StepName row = g_Step g \<and> sp_ID row = g_StepResultID g \<and>
     parked_status (sp_Status row)"

definition gateSupersededError :: "string \<Rightarrow> gateStore \<Rightarrow> GateIdentity" where
  "gateSupersededError stepID st =
     (case gs_steps st stepID of
        None \<Rightarrow> zero_gate\<lparr>g_StepResultID := stepID\<rparr>
      | Some row \<Rightarrow> StepResult_GateIdentity row)"

definition SetStepPendingResponse ::
  "int \<Rightarrow> string \<Rightarrow> string \<Rightarrow> string \<Rightarrow> GateIdentity \<Rightarrow> gateStore \<Rightarrow> GateIdentity + gateStore" where
  "SetStepPendingResponse ts stepID response activity g st =
     (if \<not> SameGate g g then Inl (gateSupersededError stepID st)
      else case gs_steps st stepID of
          None \<Rightarrow> Inl (gateSupersededError stepID st)
        | Some row \<Rightarrow>
            if row_at_gate row g \<and> sp_PendingResponse row = None
            then Inr (put_step (row\<lparr>sp_PendingResponse := Some response, sp_LastActivityAt := Some ts,
                                  sp_LastActivity := Some activity\<rparr>) st)
            else Inl (gateSupersededError stepID st))"

definition CompleteRunAwaitingAgent :: "string \<Rightarrow> int \<Rightarrow> gateStore \<Rightarrow> gateStore" where
  "CompleteRunAwaitingAgent runID ms st =
     (let ms' = (if ms < 0 then 0 else ms) in
      st\<lparr>gs_runs := (gs_runs st)(runID := map_option (\<lambda>c.
        \<lparr> rk_AwaitingAgentSince = None,
          rk_ParkedMS = rk_ParkedMS c + (if rk_AwaitingAgentSince c \<noteq> None then ms' else 0) \<rparr>) (gs_runs st runID))\<rparr>)"

definition ResumeStepFromApproval ::
  "int \<Rightarrow> string \<Rightarrow> string \<Rightarrow> string \<Rightarrow> int \<Rightarrow> GateIdentity \<Rightarrow> gateStore \<Rightarrow> GateIdentity + gateStore" where
  "ResumeStepFromApproval ts runID stepID activity parkedMS g st =
     (if \<not> SameGate g g then Inl (gateSupersededError stepID st)
      else case gs_steps st stepID of
          None \<Rightarrow> Inl (gateSupersededError stepID st)
        | Some row \<Rightarrow>
            if row_at_gate row g \<and> sp_RunID row = runID
            then Inr (CompleteRunAwaitingAgent runID parkedMS
                   (put_step (row\<lparr>sp_Status := StepStatusRunning, sp_PendingResponse := None,
                                sp_LastActivityAt := Some ts, sp_LastActivity := Some activity\<rparr>) st))
            else Inl (gateSupersededError stepID st))"

definition FailStep :: "int \<Rightarrow> string \<Rightarrow> string \<Rightarrow> int \<Rightarrow> gateStore \<Rightarrow> gateStore" where
  "FailStep ts stepID msg durationMS st =
     (case gs_steps st stepID of
        None \<Rightarrow> st
      | Some row \<Rightarrow> put_step (row\<lparr>sp_Status := StepStatusFailed, sp_Error := Some msg, sp_DurationMS := Some durationMS,
            sp_CompletedAt := Some ts, sp_LastActivityAt := Some ts, sp_LastActivity := Some (''step failed: '' @ msg),
            sp_AgentPID := None, sp_PendingResponse := None\<rparr>) st)"

definition update_round :: "string \<Rightarrow> (StepRound \<Rightarrow> StepRound) \<Rightarrow> gateStore \<Rightarrow> gateStore" where
  "update_round i f st = st\<lparr>gs_rounds := \<lambda>s. map (\<lambda>r. if sr_ID r = i then f r else r) (gs_rounds st s)\<rparr>"

definition SetStepRoundUserDecision ::
  "string \<Rightarrow> string option \<Rightarrow> string \<Rightarrow> string option \<Rightarrow> gateStore \<Rightarrow> gateStore" where
  "SetStepRoundUserDecision i selected source user st =
     update_round i (\<lambda>r. r\<lparr>sr_SelectedFindingIDs := selected,
       sr_SelectionSource := (if deref selected \<noteq> [] \<and> source \<noteq> [] then Some source else None),
       sr_UserFindingsJSON := user\<rparr>) st"

definition SetStepRoundDeclined :: "string \<Rightarrow> gateStore \<Rightarrow> gateStore" where
  "SetStepRoundDeclined i st =
     update_round i (\<lambda>r. if sr_SelectionSource r = None
       then r\<lparr>sr_SelectedFindingIDs := Some DeclinedSelectionJSON,
              sr_SelectionSource := Some RoundSelectionSourceUserDeclined\<rparr> else r) st"

section \<open>The executor's gate\<close>

record gateExec =
  ex_slot :: bool
  ex_gate :: GateIdentity
  ex_waiting :: bool
  ex_waitingStep :: StepName
  ex_waitingFindings :: string
  ex_waitingStepResultID :: string
  ex_waitingRoundID :: string
  ex_waitingShipping :: "string option"
  ex_approvalRefusal :: "approve_refused option"
  ex_waitingSince :: "int option"
  ex_slotWaitStep :: StepName
  ex_answeredParkedMS :: int
  ex_recoveredResponse :: "approvalResponse option"
  ex_approvalCh :: "approvalResponse option"

definition new_exec :: "bool \<Rightarrow> gateExec" where
  "new_exec slot = \<lparr> ex_slot = slot, ex_gate = zero_gate, ex_waiting = False, ex_waitingStep = [],
     ex_waitingFindings = [], ex_waitingStepResultID = [], ex_waitingRoundID = [],
     ex_waitingShipping = None, ex_approvalRefusal = None, ex_waitingSince = None,
     ex_slotWaitStep = [], ex_answeredParkedMS = 0, ex_recoveredResponse = None, ex_approvalCh = None \<rparr>"

definition clearApprovalGateLocked :: "gateExec \<Rightarrow> gateExec" where
  "clearApprovalGateLocked e = e\<lparr>ex_waiting := False, ex_waitingStep := [], ex_waitingFindings := [],
     ex_waitingStepResultID := [], ex_approvalCh := None\<rparr>"

definition currentGateLocked :: "gateExec \<Rightarrow> gateStore \<Rightarrow> GateIdentity" where
  "currentGateLocked e st =
     (if \<not> ex_waiting e \<and> g_StepResultID (ex_gate e) \<noteq> [] then
        (case gs_steps st (g_StepResultID (ex_gate e)) of
           Some row \<Rightarrow> StepResult_GateIdentity row
         | None \<Rightarrow> ex_gate e)
      else ex_gate e)"

text \<open>The publication of a park in \<open>executeStep\<close>; the parked row is re-read for the identity.\<close>

definition publish_gate ::
  "int \<Rightarrow> int \<Rightarrow> string \<Rightarrow> string \<Rightarrow> string \<Rightarrow> StepName \<Rightarrow> StepStatus \<Rightarrow> int \<Rightarrow> int \<Rightarrow> string \<Rightarrow> string option \<Rightarrow> string \<Rightarrow>
   string option \<Rightarrow> gateExec \<Rightarrow> gateStore \<Rightarrow> bool \<times> gateExec \<times> gateStore" where
  "publish_gate now_ms ts nonce runID stepID step status exitCode durationMS findings findingsPtr roundID shipping e st =
     (let e1 = (clearApprovalGateLocked e)\<lparr>ex_waiting := True, ex_waitingStep := step, ex_waitingShipping := shipping,
            ex_approvalRefusal := approvalRefusal step findings, ex_waitingFindings := findings,
            ex_waitingStepResultID := stepID, ex_waitingRoundID := roundID, ex_waitingSince := Some now_ms\<rparr> in
      case ParkStepForApproval ts nonce runID stepID status exitCode durationMS findingsPtr (Some roundID) st of
        None \<Rightarrow> (False, e1\<lparr>ex_waiting := False, ex_waitingStep := [], ex_waitingFindings := [],
                          ex_waitingStepResultID := []\<rparr>, st)
      | Some st' \<Rightarrow>
          (case gs_steps st' stepID of
             None \<Rightarrow> (False, e1\<lparr>ex_waiting := False\<rparr>, st')
           | Some row \<Rightarrow> (True, e1\<lparr>ex_gate := StepResult_GateIdentity row\<rparr>, st')))"

datatype respond_error =
    GapOnlyForTestApproval
  | ReasonOnlyForTestApproval
  | UnrecognizedAction string
  | SupersededGate GateIdentity
  | ResponsePending StepName
  | NoStepAwaiting
  | StepMismatch StepName StepName
  | ParkedStepUnreadable
  | ParkedRunUnreadable
  | RewindPending
  | SkipForbidden StepName string
  | RepairForbidden
  | ApprovalNotAllowed approval_refused
  | ApproveRefusedHere approve_refused
  | FixRefused RespondRefusal
  | RoundsUnavailable
  | RoundsUnreadable decode_error
  | NoRoundInFlight StepName

definition validateGateLocked :: "GateIdentity option \<Rightarrow> gateExec \<Rightarrow> gateStore \<Rightarrow> respond_error option" where
  "validateGateLocked expected e st =
     (let current = currentGateLocked e st in
      if \<not> ex_waiting e \<or> (case expected of None \<Rightarrow> True | Some g \<Rightarrow> \<not> SameGate g current)
      then Some (SupersededGate current) else None)"

definition answeredActivity :: string where "answeredActivity = ''already answered; waiting for a run slot''"

definition parked_since :: "int \<Rightarrow> gateExec \<Rightarrow> int" where
  "parked_since now_ms e = (case ex_waitingSince e of None \<Rightarrow> 0 | Some t \<Rightarrow> now_ms - t)"

definition acceptApprovalGate ::
  "int \<Rightarrow> int \<Rightarrow> approvalResponse option \<Rightarrow> gateExec \<Rightarrow> gateStore \<Rightarrow> respond_error + (gateExec \<times> gateStore)" where
  "acceptApprovalGate now_ms ts resp e st =
     (case gs_steps st (ex_waitingStepResultID e) of
        None \<Rightarrow> Inl ParkedStepUnreadable
      | Some row \<Rightarrow>
          let current = StepResult_GateIdentity row;
              expected = (case resp of None \<Rightarrow> currentGateLocked e st | Some r \<Rightarrow> ar_gate r) in
          if \<not> SameGate expected current \<or> \<not> parked_status (sp_Status row) \<or> sp_PendingResponse row \<noteq> None
          then Inl (SupersededGate current)
          else if gs_runs st (sp_RunID row) = None then Inl ParkedRunUnreadable
          else let parkedMS = parked_since now_ms e in
          if \<not> ex_slot e then
            (case ResumeStepFromApproval ts (sp_RunID row) (sp_ID row) ''gate resumed'' parkedMS current st of
               Inl g \<Rightarrow> Inl (SupersededGate g)
             | Inr st' \<Rightarrow> Inr (e, st'))
          else
            (case SetStepPendingResponse ts (sp_ID row) (encodePendingResponse resp parkedMS current) answeredActivity current st of
               Inl g \<Rightarrow> Inl (SupersededGate g)
             | Inr st' \<Rightarrow> Inr (e\<lparr>ex_slotWaitStep := ex_waitingStep e, ex_answeredParkedMS := parkedMS\<rparr>, st')))"

text \<open>Nothing is claimed when no gate waits.\<close>

definition claimGateReconciliation ::
  "int \<Rightarrow> int \<Rightarrow> approvalResponse option \<Rightarrow> gateExec \<Rightarrow> gateStore \<Rightarrow>
   respond_error + ((approvalResponse \<times> gateExec \<times> gateStore) option)" where
  "claimGateReconciliation now_ms ts resp e st =
     (if \<not> ex_waiting e then Inr None
      else let resp' = map_option (\<lambda>r. r\<lparr>ar_gate := currentGateLocked e st\<rparr>) resp in
        case acceptApprovalGate now_ms ts resp' e st of
          Inl err \<Rightarrow> Inl err
        | Inr (e', st') \<Rightarrow>
            Inr (Some ((case resp' of None \<Rightarrow> zero_response\<lparr>ar_gate := ex_gate e'\<rparr> | Some r \<Rightarrow> r),
              e'\<lparr>ex_waiting := False, ex_waitingStep := [], ex_waitingFindings := [], ex_waitingStepResultID := []\<rparr>, st')))"

definition consumeApprovalResponse :: "approvalResponse \<Rightarrow> gateExec \<Rightarrow> gateExec \<times> bool" where
  "consumeApprovalResponse r e =
     (if ar_action r \<noteq> ActionAbort \<and> \<not> SameGate (ar_gate r) (ex_gate e) then (e, False)
      else (clearApprovalGateLocked e, True))"

text \<open>
  \<open>acquireAnsweredGateSlot\<close>: what it reads before the wait for the slot, the section after a granted
  slot, and the deferred section (\<open>failed\<close>: it returns an error other than a shutdown).
\<close>

definition answered_read :: "gateExec \<Rightarrow> int \<times> bool" where
  "answered_read e = (ex_answeredParkedMS e, ex_slotWaitStep e \<noteq> [])"

datatype dispatch_error = AnsweredGateUnreadable | DispatchRefused pending_error

definition dispatch_answered ::
  "int \<Rightarrow> string \<Rightarrow> string \<Rightarrow> GateIdentity \<Rightarrow> int \<Rightarrow> bool \<Rightarrow> gateExec \<Rightarrow> gateStore \<Rightarrow> dispatch_error + gateStore" where
  "dispatch_answered ts runID stepID expected parkedMS pending e st =
     (if \<not> SameGate expected (ex_gate e) then Inl (DispatchRefused (GateSuperseded (ex_gate e)))
      else case gs_steps st stepID of
          None \<Rightarrow> Inl AnsweredGateUnreadable
        | Some row \<Rightarrow>
            if \<not> SameGate expected (StepResult_GateIdentity row) \<or>
               pending \<and> (sp_PendingResponse row = None \<or> \<not> parked_status (sp_Status row))
            then Inl (DispatchRefused (GateSuperseded (StepResult_GateIdentity row)))
            else case (case sp_PendingResponse row of
                         None \<Rightarrow> None
                       | Some raw \<Rightarrow>
                           (case decodePendingResponse raw (StepResult_GateIdentity row) of Inl err \<Rightarrow> Some err | Inr _ \<Rightarrow> None)) of
                Some err \<Rightarrow> Inl (DispatchRefused err)
              | None \<Rightarrow>
                  if \<not> ex_slot e then Inr st
                  else (case ResumeStepFromApproval ts runID stepID ''gate resumed'' parkedMS expected st of
                          Inl g \<Rightarrow> Inl (DispatchRefused (GateSuperseded g))
                        | Inr st' \<Rightarrow> Inr st'))"

definition answered_deferred ::
  "string \<Rightarrow> GateIdentity \<Rightarrow> int \<Rightarrow> bool \<Rightarrow> gateExec \<Rightarrow> gateStore \<Rightarrow> gateExec \<times> gateStore" where
  "answered_deferred runID expected parkedMS failed e st =
     (if SameGate expected (ex_gate e)
      then (e\<lparr>ex_slotWaitStep := []\<rparr>, if failed then CompleteRunAwaitingAgent runID parkedMS st else st)
      else (e, st))"

definition gateParkedMS :: "int \<Rightarrow> int \<Rightarrow> gateExec \<Rightarrow> int" where
  "gateParkedMS now_ms parkStart e = (if ex_slotWaitStep e \<noteq> [] then ex_answeredParkedMS e else now_ms - parkStart)"

text \<open>\<open>endGateWait\<close>: its section on the executor, and whether it closes the parked-time accounting.\<close>

definition endGateWait :: "bool \<Rightarrow> gateExec \<Rightarrow> gateExec \<times> bool" where
  "endGateWait failed e =
     (if failed then e\<lparr>ex_slotWaitStep := []\<rparr> else e, \<not> (\<not> failed \<and> ex_slotWaitStep e \<noteq> []))"


section \<open>The answer of an operator\<close>

text \<open>The selected, merged, outstanding and persisted payloads of a fix response.\<close>

definition normalizeFixSelection :: "string \<Rightarrow> approvalResponse \<Rightarrow> bool \<Rightarrow> string \<times> string \<times> string \<times> string" where
  "normalizeFixSelection gate r review =
     (let selected = filterFindingsJSON gate (ar_findingIDs r);
          merged = mergeUserOverridesJSON selected (ar_instructions r) (resolveAddedFindingIDs (ar_addedFindings r) [gate]) in
      if review then
        (let outstanding = mergeOutstandingFindingsJSON gate merged [] in
         (selected, merged, outstanding, remapFindingIDsJSON outstanding merged))
      else (selected, merged, gate, merged))"

definition persisted_selection :: "string \<Rightarrow> approvalResponse \<Rightarrow> bool \<Rightarrow> string" where
  "persisted_selection gate r review = snd (snd (snd (normalizeFixSelection gate r review)))"

definition parsed_or_zero :: "string \<Rightarrow> Findings" where
  "parsed_or_zero raw = (case ParseFindingsJSON raw of None \<Rightarrow> zero_findings | Some fs \<Rightarrow> fs)"

definition persistResponseDecision ::
  "StepName \<Rightarrow> approvalResponse \<Rightarrow> string \<Rightarrow> gateExec \<Rightarrow> gateStore \<Rightarrow> respond_error + gateStore" where
  "persistResponseDecision step r previous e st =
     (if ex_waitingRoundID e = [] then Inl (NoRoundInFlight step)
      else let own = persisted_selection (ex_waitingFindings e) r (step = StepReview);
               persisted =
                 (if previous = [] then own
                  else let current = parsed_or_zero own;
                           kept = ExcludeFindings (parsed_or_zero previous) (findingIDList own) in
                    MarshalFindingsJSON (current\<lparr>fs_Items :=
                      (if items kept = [] then fs_Items current else Some (items current @ items kept))\<rparr>));
               ids = marshalFindingIDs (combineSelectedFindingIDs (ar_findingIDs r) persisted) in
        if ids = [] then
          Inr (if ar_ignoreFindingIDs r \<noteq> [] then SetStepRoundDeclined (ex_waitingRoundID e) st else st)
        else Inr (SetStepRoundUserDecision (ex_waitingRoundID e) (Some ids) RoundSelectionSourceUser (Some persisted) st))"

text \<open>The loop over the recorded items: restored gate identifiers, restored additions, instructions.\<close>

fun restore_items ::
  "string list \<Rightarrow> Finding list \<Rightarrow> Finding list \<Rightarrow> string list \<times> Finding list \<times> (string \<times> string) list \<Rightarrow>
   string list \<times> Finding list \<times> (string \<times> string) list" where
  "restore_items inGate added [] acc = acc"
| "restore_items inGate added (x # xs) (ids, adds, notes) =
     (if f_ID x = [] then restore_items inGate added xs (ids, adds, notes)
      else if f_ID x \<in> set inGate then
        restore_items inGate added xs
          (ids @ [f_ID x], adds, if f_UserInstructions x \<noteq> [] then map_insert (f_ID x) (f_UserInstructions x) notes else notes)
      else let x' = (case List.find (\<lambda>y. findingKey y = findingKey x) (rev added) of
                       Some y \<Rightarrow> if f_UserInstructions y \<noteq> [] then x\<lparr>f_UserInstructions := f_UserInstructions y\<rparr> else x
                     | None \<Rightarrow> x) in
        restore_items inGate added xs (ids, adds @ [x'], notes))"

definition restorePendingDecision ::
  "approvalResponse \<Rightarrow> string \<Rightarrow> string \<Rightarrow> approvalResponse \<times> string list" where
  "restorePendingDecision r previous gate =
     (if previous = [] then (r, [])
      else case ParseFindingsJSON previous of
          None \<Rightarrow> (r, [])
        | Some recorded \<Rightarrow>
            (let (ids, adds, notes) =
                   restore_items (findingIDsInPayloadOrder gate) (ar_addedFindings r) (items recorded) ([], [], []) in
             if ids = [] \<and> adds = [] then (r, [])
             else (r\<lparr>ar_findingIDs := combineFindingIDLists ids (ar_findingIDs r),
                     ar_instructions := (if notes = [] then ar_instructions r
                       else fold (\<lambda>(k, v). map_insert k v) (ar_instructions r) notes),
                     ar_addedFindings := adds @ filter (\<lambda>y. findingKey y \<notin> findingKey ` set adds) (ar_addedFindings r)\<rparr>, ids)))"

fun decode_rounds :: "StepRound list \<Rightarrow> decode_error option" where
  "decode_rounds [] = None"
| "decode_rounds (r # rs) = (case decodeRoundDecision (Some r) of Some err \<Rightarrow> Some err | None \<Rightarrow> decode_rounds rs)"

definition roundsForFixValidation :: "gateExec \<Rightarrow> gateStore \<Rightarrow> respond_error + StepRound list" where
  "roundsForFixValidation e st =
     (if ex_waitingStepResultID e = [] then Inl RoundsUnavailable
      else let rounds = gs_rounds st (ex_waitingStepResultID e) in
        case decode_rounds rounds of Some err \<Rightarrow> Inl (RoundsUnreadable err) | None \<Rightarrow> Inr rounds)"

definition recorded_decision :: "string \<Rightarrow> StepRound list \<Rightarrow> string" where
  "recorded_decision roundID rounds =
     foldl (\<lambda>previous r.
       (case sr_SelectedFindingIDs r of
          None \<Rightarrow> previous
        | Some sel \<Rightarrow>
            if sr_ID r \<noteq> roundID \<or> \<not> humanDecidedRound r then previous
            else filterFindingsJSON (case sr_UserFindingsJSON r of Some u \<Rightarrow> u | None \<Rightarrow> deref (sr_FindingsJSON r))
                   (findingIDsFromSelectionJSON sel))) [] rounds"

text \<open>The fix branch of \<open>RespondWithAcceptedGaps\<close>.\<close>

definition respond_fix ::
  "StepName \<Rightarrow> string list \<Rightarrow> string list \<Rightarrow> approvalResponse \<Rightarrow> gateExec \<Rightarrow> gateStore \<Rightarrow>
   respond_error + (approvalResponse \<times> RespondDispositions \<times> gateStore)" where
  "respond_fix step findingIDs ignoreFindingIDs r e st =
     (case roundsForFixValidation e st of
        Inl err \<Rightarrow> Inl err
      | Inr rounds \<Rightarrow>
          (case splitFixResponse (ex_waitingFindings e) rounds findingIDs ignoreFindingIDs of
             Inl why \<Rightarrow> Inl (FixRefused why)
           | Inr split \<Rightarrow>
               let previous = recorded_decision (ex_waitingRoundID e) rounds;
                   r1 = r\<lparr>ar_findingIDs := rd_Fixed split, ar_ignoreFindingIDs := rd_Ignored split,
                         ar_addedFindings := resolveAddedFindingIDs (ar_addedFindings r) [ex_waitingFindings e, previous]\<rparr>;
                   (r2, restored) = restorePendingDecision r1 previous (ex_waitingFindings e) in
               case persistResponseDecision step r2 previous e st of
                 Inl err \<Rightarrow> Inl err
               | Inr st' \<Rightarrow>
                   let normalized = persisted_selection (ex_waitingFindings e) r2 (step = StepReview) in
                   Inr (r2,
                     \<lparr> rd_Fixed = combineSelectedFindingIDs
                         (idsInPayloadOrder (ar_findingIDs r2) (findingIDsInPayloadOrder (ex_waitingFindings e))) normalized,
                       rd_Ignored = rd_Ignored split, rd_Kept = excludeFindingIDs (rd_Kept split) restored \<rparr>, st')))"

text \<open>The checks before the response is built, in the order of the code; None: it may go on.\<close>

definition respond_refused ::
  "StepName \<Rightarrow> ApprovalAction \<Rightarrow> string \<Rightarrow> AcceptedGaps option \<Rightarrow> GateIdentity option \<Rightarrow> gateExec \<Rightarrow> gateStore \<Rightarrow> respond_error option" where
  "respond_refused step action reason gaps expected e st =
     (let gate_err = (if action \<noteq> ActionAbort then validateGateLocked expected e st else None);
          row = gs_steps st (ex_waitingStepResultID e) in
      if gaps \<noteq> None \<and> (step \<noteq> StepTest \<or> action \<noteq> ActionApprove) then Some GapOnlyForTestApproval
      else if reason \<noteq> [] \<and> (step \<noteq> StepTest \<or> action \<noteq> ActionApprove) then Some ReasonOnlyForTestApproval
      else if action \<notin> {ActionApprove, ActionFix, ActionSkip, ActionAbort, ActionAnswer} then Some (UnrecognizedAction action)
      else if gate_err \<noteq> None then gate_err
      else if \<not> ex_waiting e then
        Some (if ex_slotWaitStep e = step then ResponsePending step else NoStepAwaiting)
      else if step \<noteq> ex_waitingStep e then Some (StepMismatch step (ex_waitingStep e))
      else if step = StepRebase \<and> (action = ActionApprove \<or> action = ActionSkip) \<and> row = None then Some ParkedStepUnreadable
      else if step = StepRebase \<and> (action = ActionApprove \<or> action = ActionSkip) \<and>
        (case row of None \<Rightarrow> False | Some s \<Rightarrow> gs_rewind st (sp_RunID s)) then Some RewindPending
      else if ex_waitingShipping e \<noteq> None \<and> action = ActionSkip then Some (SkipForbidden step (ex_waitingFindings e))
      else if action = ActionFix \<and> ex_waitingShipping e = Some ''immutable-source'' then Some RepairForbidden
      else let strict = (action = ActionApprove \<and> ex_waitingShipping e \<noteq> None);
               checked = (strict \<or> action = ActionApprove \<and> (step = StepTest \<or> gaps \<noteq> None));
               refused = (case row of None \<Rightarrow> None | Some s \<Rightarrow>
                 if strict then StrictApprovalRefusalWithGaps s reason gaps else NonStrictApprovalRefusalWithGaps s reason gaps) in
      if checked \<and> row = None then Some ParkedStepUnreadable
      else if checked \<and> refused \<noteq> None then map_option ApprovalNotAllowed refused
      else if action = ActionApprove then map_option ApproveRefusedHere (ex_approvalRefusal e)
      else None)"

definition RespondWithAcceptedGaps ::
  "int \<Rightarrow> int \<Rightarrow> StepName \<Rightarrow> ApprovalAction \<Rightarrow> string list \<Rightarrow> string list \<Rightarrow> (string \<times> string) list \<Rightarrow> Finding list \<Rightarrow>
   string \<Rightarrow> AcceptedGaps option \<Rightarrow> GateIdentity option \<Rightarrow> gateExec \<Rightarrow> gateStore \<Rightarrow>
   (respond_error + RespondDispositions) \<times> gateExec \<times> gateStore" where
  "RespondWithAcceptedGaps now_ms ts step action findingIDs ignoreFindingIDs instructions added reason gaps expected e st =
     (case respond_refused step action reason gaps expected e st of
        Some err \<Rightarrow> (Inl err, e, st)
      | None \<Rightarrow>
          let r = \<lparr> ar_gate = currentGateLocked e st, ar_action = action, ar_findingIDs = findingIDs,
                    ar_instructions = instructions, ar_addedFindings = added, ar_approvalReason = reason,
                    ar_acceptedGaps = gaps, ar_ignoreFindingIDs = [] \<rparr>;
              built = (if action = ActionFix then respond_fix step findingIDs ignoreFindingIDs r e st
                       else Inr (r, \<lparr> rd_Fixed = [], rd_Ignored = [], rd_Kept = [] \<rparr>, st)) in
          case built of
            Inl err \<Rightarrow> (Inl err, e, st)
          | Inr (r', dispositions, st1) \<Rightarrow>
              (case (if action \<noteq> ActionAbort then acceptApprovalGate now_ms ts (Some r') e st1 else Inr (e, st1)) of
                 Inl err \<Rightarrow> (Inl err, e, st1)
               | Inr (e', st2) \<Rightarrow>
                   (Inr dispositions, e'\<lparr>ex_waiting := False, ex_waitingFindings := [], ex_waitingStepResultID := [],
                     ex_approvalCh := Some r'\<rparr>, st2)))"

section \<open>Recovery after a restart\<close>

record recovered_gate =
  rg_index :: nat
  rg_step :: StepName
  rg_stepResult :: StepResult
  rg_findings :: string
  rg_round :: int
  rg_autoFixes :: nat
  rg_lastRoundID :: string
  rg_reviewedHeadSHA :: string
  rg_selectedOutstandingIDs :: "string list"

text \<open>The gate of one parked row, None when its record is incomplete.\<close>

definition gate_of_row :: "nat \<Rightarrow> StepName \<Rightarrow> StepResult \<Rightarrow> StepRound list \<Rightarrow> recovered_gate option" where
  "gate_of_row i name row rounds =
     (case (sp_FindingsJSON row, rev rounds) of
        (Some raw, latest # _) \<Rightarrow>
          if sp_StartedAt row = None \<or> sp_DurationMS row = None \<or> sp_AgentPID row \<noteq> None \<or>
             sr_FindingsJSON latest \<noteq> Some raw then None
          else Some \<lparr> rg_index = i, rg_step = name, rg_stepResult = row, rg_findings = raw,
                 rg_round = sr_Round latest,
                 rg_autoFixes = length (filter (\<lambda>r. sr_SelectionSource r = Some RoundSelectionSourceAutoFix) rounds),
                 rg_lastRoundID = sr_ID latest, rg_reviewedHeadSHA = deref (sr_ReviewedHeadSHA latest),
                 rg_selectedOutstandingIDs = retainFindingIDsByIdentity raw
                   (foldl (\<lambda>acc r. case sr_SelectedFindingIDs r of None \<Rightarrow> acc
                      | Some sel \<Rightarrow> combineFindingIDLists acc (findingIDsFromSelectionJSON sel)) [] rounds)
                   (selectedFindingIdentities rounds) \<rparr>
      | _ \<Rightarrow> None)"

fun recovered_rows ::
  "(string \<Rightarrow> StepRound list) \<Rightarrow> nat \<Rightarrow> (StepName \<times> StepResult) list \<Rightarrow> recovered_gate option \<Rightarrow> recovered_gate option" where
  "recovered_rows rounds i [] g = g"
| "recovered_rows rounds i ((name, row) # rows) g =
     (if sp_StepName row \<noteq> name then None
      else if parked_status (sp_Status row) then
        (if g \<noteq> None then None
         else case gate_of_row i name row (rounds (sp_ID row)) of
             None \<Rightarrow> None
           | Some g' \<Rightarrow> recovered_rows rounds (Suc i) rows (Some g'))
      else case g of
          None \<Rightarrow>
            if sp_Status row \<noteq> StepStatusCompleted \<and> sp_Status row \<noteq> StepStatusSkipped then None
            else recovered_rows rounds (Suc i) rows None
        | Some _ \<Rightarrow>
            if sp_Status row \<noteq> StepStatusPending \<and> sp_Status row \<noteq> StepStatusSkipped then None
            else recovered_rows rounds (Suc i) rows g)"

definition recoveredGate ::
  "StepName list \<Rightarrow> StepResult list \<Rightarrow> (string \<Rightarrow> StepRound list) \<Rightarrow> recovered_gate option" where
  "recoveredGate steps results rounds =
     (if length results \<noteq> length steps then None else recovered_rows rounds 0 (zip steps results) None)"

datatype recover_error = IncompleteIdentity | RecordedUnusable pending_error

text \<open>
  \<open>RegisterRecoveredGate\<close> on an executor without a recovery gate, for a run whose gate \<open>g\<close> was
  recovered; \<open>since\<close> is the second its park was recorded.
\<close>

definition RegisterRecoveredGate ::
  "recovered_gate \<Rightarrow> int \<Rightarrow> string option \<Rightarrow> gateExec \<Rightarrow> recover_error + gateExec" where
  "RegisterRecoveredGate g since shipping e =
     (let row = rg_stepResult g; identity = StepResult_GateIdentity row in
      if g_Nonce identity = [] \<or> g_RoundID identity \<noteq> rg_lastRoundID g then Inl IncompleteIdentity
      else case sp_PendingResponse row of
          Some raw \<Rightarrow>
            (case decodePendingResponse raw identity of
               Inl err \<Rightarrow> Inl (RecordedUnusable err)
             | Inr (recorded, ms) \<Rightarrow>
                 Inr ((clearApprovalGateLocked e)\<lparr>ex_gate := identity, ex_recoveredResponse := recorded,
                   ex_slotWaitStep := rg_step g, ex_waitingSince := Some (since * 1000),
                   ex_answeredParkedMS := (case ms of
                       Some v \<Rightarrow> max 0 v
                     | None \<Rightarrow> (case sp_LastActivityAt row of None \<Rightarrow> 0 | Some a \<Rightarrow> max 0 ((a - since) * 1000)))\<rparr>))
        | None \<Rightarrow>
            Inr ((clearApprovalGateLocked e)\<lparr>ex_gate := identity, ex_waiting := True, ex_waitingStep := rg_step g,
              ex_waitingShipping := shipping, ex_approvalRefusal := approvalRefusal (rg_step g) (rg_findings g),
              ex_waitingFindings := rg_findings g, ex_waitingStepResultID := sp_ID row,
              ex_waitingRoundID := rg_lastRoundID g, ex_waitingSince := Some (since * 1000)\<rparr>))"


section \<open>The protocol\<close>

text \<open>
  What a goroutine of the run still holds between two sections: a response taken from the channel,
  one that was consumed, one whose wait for a slot has begun, and the deferred section.
\<close>

datatype gate_cont =
    Dequeued approvalResponse
  | Consumed approvalResponse
  | Admitted approvalResponse int bool
  | Deferred approvalResponse int bool

text \<open>The logs of the accepted and the dispatched responses, and the nonces minted, are history only.\<close>

record gate_system =
  gy_e :: gateExec
  gy_st :: gateStore
  gy_conts :: "gate_cont multiset"
  gy_nonces :: "string set"
  gy_accepted :: "approvalResponse list"
  gy_dispatched :: "approvalResponse list"

definition claimed_log :: "approvalResponse \<Rightarrow> approvalResponse list" where
  "claimed_log r = (if ar_action r = ActionAbort then [] else [r])"

text \<open>The response a recovered gate applies: the recorded one, or the claim of a reconciliation.\<close>

definition recovered_conts :: "gateExec \<Rightarrow> gate_cont multiset" where
  "recovered_conts e =
     (if ex_slotWaitStep e = [] then {#}
      else case ex_recoveredResponse e of
          Some r \<Rightarrow> {#Dequeued r#}
        | None \<Rightarrow> {#Consumed (zero_response\<lparr>ar_gate := ex_gate e\<rparr>)#})"

inductive gate_step :: "gate_system \<Rightarrow> gate_system \<Rightarrow> bool" where
  publish: "nonce \<notin> gy_nonces d \<Longrightarrow> nonce \<noteq> [] \<Longrightarrow> parked_status status \<Longrightarrow>
    publish_gate now_ms ts nonce runID stepID step status exitCode durationMS findings findingsPtr roundID shipping
      (gy_e d) (gy_st d) = (b, e, st) \<Longrightarrow>
    gate_step d (d\<lparr>gy_e := e, gy_st := st, gy_nonces := insert nonce (gy_nonces d)\<rparr>)"
| respond: "RespondWithAcceptedGaps now_ms ts step action findingIDs ignoreIDs instructions added reason gaps expected
      (gy_e d) (gy_st d) = (Inr disp, e, st) \<Longrightarrow> ex_approvalCh (gy_e d) = None \<Longrightarrow> ex_approvalCh e = Some r \<Longrightarrow>
    gate_step d (d\<lparr>gy_e := e, gy_st := st, gy_accepted := gy_accepted d @ claimed_log r\<rparr>)"
| claim: "claimGateReconciliation now_ms ts resp (gy_e d) (gy_st d) = Inr (Some (r, e, st)) \<Longrightarrow>
    ar_action r \<noteq> ActionAbort \<Longrightarrow>
    gate_step d (d\<lparr>gy_e := e, gy_st := st, gy_accepted := gy_accepted d @ [r],
      gy_conts := add_mset (Consumed r) (gy_conts d)\<rparr>)"
| dequeue: "ex_approvalCh (gy_e d) = Some r \<Longrightarrow>
    gate_step d (d\<lparr>gy_e := (gy_e d)\<lparr>ex_approvalCh := None\<rparr>, gy_conts := add_mset (Dequeued r) (gy_conts d)\<rparr>)"
| consume: "gy_conts d = add_mset (Dequeued r) C \<Longrightarrow> consumeApprovalResponse r (gy_e d) = (e, b) \<Longrightarrow>
    gate_step d (d\<lparr>gy_e := e, gy_conts := (if b then add_mset (Consumed r) C else C)\<rparr>)"
| admit: "gy_conts d = add_mset (Consumed r) C \<Longrightarrow> ar_action r \<noteq> ActionAbort \<Longrightarrow>
    answered_read (gy_e d) = (ms, pending) \<Longrightarrow>
    gate_step d (d\<lparr>gy_conts := add_mset (Admitted r ms pending) C\<rparr>)"
| aborted: "gy_conts d = add_mset (Consumed r) C \<Longrightarrow> ar_action r = ActionAbort \<Longrightarrow>
    gate_step d (d\<lparr>gy_conts := C\<rparr>)"
| dispatch: "gy_conts d = add_mset (Admitted r ms pending) C \<Longrightarrow>
    dispatch_answered ts runID stepID (ar_gate r) ms pending (gy_e d) (gy_st d) = Inr st \<Longrightarrow>
    gate_step d (d\<lparr>gy_st := st, gy_dispatched := gy_dispatched d @ [r],
      gy_conts := add_mset (Deferred r ms False) C\<rparr>)"
| not_dispatched: "gy_conts d = add_mset (Admitted r ms pending) C \<Longrightarrow>
    gate_step d (d\<lparr>gy_conts := add_mset (Deferred r ms failed) C\<rparr>)"
| deferred: "gy_conts d = add_mset (Deferred r ms failed) C \<Longrightarrow>
    answered_deferred runID (ar_gate r) ms failed (gy_e d) (gy_st d) = (e, st) \<Longrightarrow>
    gate_step d (d\<lparr>gy_e := e, gy_st := st, gy_conts := C\<rparr>)"
| clear: "gate_step d (d\<lparr>gy_e := clearApprovalGateLocked (gy_e d)\<rparr>)"
| end_wait: "endGateWait failed (gy_e d) = (e, b) \<Longrightarrow>
    gate_step d (d\<lparr>gy_e := e, gy_st := (if b then CompleteRunAwaitingAgent runID ms (gy_st d) else gy_st d)\<rparr>)"
| fail: "gate_step d (d\<lparr>gy_st := FailStep ts stepID msg ms (gy_st d)\<rparr>)"
| other_write: "gs_steps (gy_st d) (sp_ID row) = Some row \<Longrightarrow> sp_ID row' = sp_ID row \<Longrightarrow>
    sp_GateNonce row' = sp_GateNonce row \<Longrightarrow>
    \<not> parked_status (sp_Status row') \<or> sp_Status row' = sp_Status row \<and> sp_PendingResponse row' = sp_PendingResponse row \<Longrightarrow>
    gate_step d (d\<lparr>gy_st := put_step row' (gy_st d)\<rparr>)"
| other_tables: "gs_steps st = gs_steps (gy_st d) \<Longrightarrow> gate_step d (d\<lparr>gy_st := st\<rparr>)"
| restart: "recoveredGate steps results (gs_rounds (gy_st d)) = Some g \<Longrightarrow>
    \<forall>row \<in> set results. gs_steps (gy_st d) (sp_ID row) = Some row \<Longrightarrow>
    RegisterRecoveredGate g since shipping (new_exec True) = Inr e \<Longrightarrow>
    gate_step d (d\<lparr>gy_e := e, gy_conts := recovered_conts e\<rparr>)"

text \<open>A run with a slot starts with steps that were never parked.\<close>

definition gate_start :: "gateStore \<Rightarrow> gate_system" where
  "gate_start st = \<lparr> gy_e = new_exec True, gy_st = st, gy_conts = {#}, gy_nonces = {}, gy_accepted = [], gy_dispatched = [] \<rparr>"

inductive gate_reachable :: "gate_system \<Rightarrow> bool" where
  start: "\<forall>i row. gs_steps st i = Some row \<longrightarrow> sp_ID row = i \<and> sp_GateNonce row = None \<Longrightarrow> gate_reachable (gate_start st)"
| step: "gate_reachable d \<Longrightarrow> gate_step d d' \<Longrightarrow> gate_reachable d'"

section \<open>The invariant\<close>

definition gate_nonce :: "approvalResponse \<Rightarrow> string" where
  "gate_nonce r = g_Nonce (ar_gate r)"

definition live_nonce :: "approvalResponse \<Rightarrow> string multiset" where
  "live_nonce r = (if ar_action r = ActionAbort then {#} else {#gate_nonce r#})"

fun cont_nonces :: "gate_cont \<Rightarrow> string multiset" where
  "cont_nonces (Dequeued r) = live_nonce r"
| "cont_nonces (Consumed r) = live_nonce r"
| "cont_nonces (Admitted r ms p) = {#gate_nonce r#}"
| "cont_nonces (Deferred r ms f) = {#}"

definition ch_nonces :: "approvalResponse option \<Rightarrow> string multiset" where
  "ch_nonces c = (case c of None \<Rightarrow> {#} | Some r \<Rightarrow> live_nonce r)"

definition row_ok :: "string set \<Rightarrow> string set \<Rightarrow> string set \<Rightarrow> StepResult \<Rightarrow> bool" where
  "row_ok N A D row \<longleftrightarrow> (\<forall>n. sp_GateNonce row = Some n \<longrightarrow>
     n \<in> N \<and> (n \<in> A \<longrightarrow> \<not> parked_status (sp_Status row) \<or> sp_PendingResponse row \<noteq> None) \<and>
     (n \<in> D \<longrightarrow> \<not> parked_status (sp_Status row)) \<and>
     (parked_status (sp_Status row) \<and> sp_PendingResponse row \<noteq> None \<longrightarrow> n \<in> A))"

definition store_ok :: "string set \<Rightarrow> string set \<Rightarrow> string set \<Rightarrow> gateStore \<Rightarrow> bool" where
  "store_ok N A D st \<longleftrightarrow>
     (\<forall>i row. gs_steps st i = Some row \<longrightarrow> sp_ID row = i \<and> row_ok N A D row) \<and>
     (\<forall>i j r q. gs_steps st i = Some r \<longrightarrow> gs_steps st j = Some q \<longrightarrow> sp_GateNonce r \<noteq> None \<longrightarrow>
        sp_GateNonce r = sp_GateNonce q \<longrightarrow> i = j)"

definition logs_ok :: "string list \<Rightarrow> string list \<Rightarrow> string multiset \<Rightarrow> bool" where
  "logs_ok A D F \<longleftrightarrow> distinct A \<and> mset D + F \<subseteq># mset A"

definition gate_inv :: "gate_system \<Rightarrow> bool" where
  "gate_inv d \<longleftrightarrow>
     store_ok (gy_nonces d) (gate_nonce ` set (gy_accepted d)) (gate_nonce ` set (gy_dispatched d)) (gy_st d) \<and>
     gate_nonce ` set (gy_accepted d) \<subseteq> gy_nonces d \<and>
     logs_ok (map gate_nonce (gy_accepted d)) (map gate_nonce (gy_dispatched d))
       (ch_nonces (ex_approvalCh (gy_e d)) + (\<Sum>c\<in>#gy_conts d. cont_nonces c)) \<and>
     ex_slot (gy_e d) \<and> (ex_waiting (gy_e d) \<longrightarrow> ex_approvalCh (gy_e d) = None)"


lemma store_ok_row: "store_ok N A D st \<Longrightarrow> gs_steps st i = Some row \<Longrightarrow> sp_ID row = i \<and> row_ok N A D row"
  by (simp add: store_ok_def)

lemma store_ok_unique:
  "store_ok N A D st \<Longrightarrow> gs_steps st i = Some r \<Longrightarrow> gs_steps st j = Some q \<Longrightarrow> sp_GateNonce r = Some n \<Longrightarrow>
     sp_GateNonce q = Some n \<Longrightarrow> i = j"
  unfolding store_ok_def by (metis option.distinct(1))

lemma store_ok_cong: "gs_steps st' = gs_steps st \<Longrightarrow> store_ok N A D st' = store_ok N A D st"
  by (simp add: store_ok_def)

lemma put_step_steps [simp]: "gs_steps (put_step row st) = (gs_steps st)(sp_ID row \<mapsto> row)"
  by (simp add: put_step_def)

lemma complete_steps [simp]: "gs_steps (CompleteRunAwaitingAgent r ms st) = gs_steps st"
  by (simp add: CompleteRunAwaitingAgent_def Let_def)

text \<open>Writing one row: the logs may grow by the nonce of that row.\<close>

lemma store_ok_put:
  assumes "store_ok N A D st" "gs_steps st (sp_ID row') = Some row" "sp_GateNonce row' = sp_GateNonce row"
    and "row_ok N A' D' row'"
    and "A' \<subseteq> A \<union> set_option (sp_GateNonce row)" "D' \<subseteq> D \<union> set_option (sp_GateNonce row)" "A \<subseteq> A'"
  shows "store_ok N A' D' (put_step row' st)"
proof -
  have other: "row_ok N A' D' q" if "gs_steps st j = Some q" "j \<noteq> sp_ID row'" for j q
  proof -
    have q: "row_ok N A D q" using store_ok_row [OF assms(1) that(1)] by simp
    have "n \<notin> set_option (sp_GateNonce row)" if "sp_GateNonce q = Some n" for n
      using store_ok_unique [OF assms(1) \<open>gs_steps st j = Some q\<close> assms(2) that] \<open>j \<noteq> sp_ID row'\<close> by auto
    then show ?thesis using q assms(5-7) unfolding row_ok_def by blast
  qed
  have key: "\<forall>i q. gs_steps (put_step row' st) i = Some q \<longrightarrow> sp_ID q = i \<and> row_ok N A' D' q"
    using store_ok_row [OF assms(1)] other assms(4) by auto
  have "\<forall>i j r q. gs_steps (put_step row' st) i = Some r \<longrightarrow> gs_steps (put_step row' st) j = Some q \<longrightarrow>
      sp_GateNonce r \<noteq> None \<longrightarrow> sp_GateNonce r = sp_GateNonce q \<longrightarrow> i = j"
    using store_ok_unique [OF assms(1)] assms(2,3) by (auto split: if_splits)
  with key show ?thesis unfolding store_ok_def by blast
qed

lemma store_ok_fresh:
  assumes "store_ok N A D st" "gs_steps st (sp_ID row') = Some row" "n \<notin> N" "A \<subseteq> N" "D \<subseteq> N"
    and "sp_GateNonce row' = Some n" "sp_PendingResponse row' = None"
  shows "store_ok (insert n N) A D (put_step row' st)"
proof -
  have nonces: "sp_GateNonce q \<noteq> Some n" if "gs_steps st j = Some q" for j q
    using store_ok_row [OF assms(1) that] assms(3) by (auto simp: row_ok_def)
  have mono: "row_ok N A D q \<Longrightarrow> row_ok (insert n N) A D q" for q by (auto simp: row_ok_def)
  have "row_ok (insert n N) A D row'" using assms(3-7) by (auto simp: row_ok_def)
  then have key: "\<forall>i q. gs_steps (put_step row' st) i = Some q \<longrightarrow> sp_ID q = i \<and> row_ok (insert n N) A D q"
    using store_ok_row [OF assms(1)] mono by auto
  have "\<forall>i j r q. gs_steps (put_step row' st) i = Some r \<longrightarrow> gs_steps (put_step row' st) j = Some q \<longrightarrow>
      sp_GateNonce r \<noteq> None \<longrightarrow> sp_GateNonce r = sp_GateNonce q \<longrightarrow> i = j"
    using store_ok_unique [OF assms(1)] nonces assms(6) by (auto split: if_splits) metis+
  with key show ?thesis unfolding store_ok_def by blast
qed

lemma SameGate_nonce: "SameGate g h \<Longrightarrow> g_Nonce g = g_Nonce h \<and> g_Nonce g \<noteq> []"
  by (auto simp: SameGate_def)

lemma identity_nonce: "g_Nonce (StepResult_GateIdentity row) = deref (sp_GateNonce row)"
  by (simp add: StepResult_GateIdentity_def)

lemma identity_id: "g_StepResultID (StepResult_GateIdentity row) = sp_ID row"
  by (simp add: StepResult_GateIdentity_def)

lemma deref_some: "deref p = n \<Longrightarrow> n \<noteq> [] \<Longrightarrow> p = Some n"
  by (cases p) (simp_all add: deref_def)

text \<open>What a successful acceptance did with a run that has a slot.\<close>

lemma accept_success:
  assumes "acceptApprovalGate now_ms ts resp e st = Inr (e', st')" "ex_slot e"
    and "store_ok N A D st"
  shows "\<exists>row ms. gs_steps st (ex_waitingStepResultID e) = Some row \<and> parked_status (sp_Status row) \<and>
      sp_PendingResponse row = None \<and>
      SameGate (case resp of None \<Rightarrow> currentGateLocked e st | Some r \<Rightarrow> ar_gate r) (StepResult_GateIdentity row) \<and>
      e' = e\<lparr>ex_slotWaitStep := ex_waitingStep e, ex_answeredParkedMS := ms\<rparr> \<and>
      st' = put_step (row\<lparr>sp_PendingResponse := Some (encodePendingResponse resp ms (StepResult_GateIdentity row)),
        sp_LastActivityAt := Some ts, sp_LastActivity := Some answeredActivity\<rparr>) st \<and> ms = parked_since now_ms e"
proof -
  obtain row where row: "gs_steps st (ex_waitingStepResultID e) = Some row"
    using assms(1) by (auto simp: acceptApprovalGate_def split: option.splits)
  have id: "sp_ID row = ex_waitingStepResultID e" using store_ok_row [OF assms(3) row] by simp
  show ?thesis
    using assms(1,2) row
    by (auto simp: acceptApprovalGate_def Let_def SetStepPendingResponse_def id
        split: if_splits option.splits sum.splits)
qed

lemma restore_gate:
  "restorePendingDecision r previous gate = (r', ids) \<Longrightarrow> ar_gate r' = ar_gate r \<and> ar_action r' = ar_action r"
  by (auto simp: restorePendingDecision_def Let_def split: if_splits option.splits prod.splits)

lemma persist_steps:
  "persistResponseDecision step r previous e st = Inr st' \<Longrightarrow> gs_steps st' = gs_steps st \<and> gs_runs st' = gs_runs st"
  by (auto simp: persistResponseDecision_def Let_def SetStepRoundDeclined_def SetStepRoundUserDecision_def
      update_round_def split: if_splits)

lemma respond_fix_success:
  assumes "respond_fix step ids ignores r e st = Inr (r', disp, st')"
  shows "ar_gate r' = ar_gate r \<and> ar_action r' = ar_action r \<and> gs_steps st' = gs_steps st \<and> gs_runs st' = gs_runs st"
  using assms
  by (auto simp: respond_fix_def Let_def dest!: restore_gate persist_steps split: sum.splits prod.splits)

text \<open>What a successful answer did, up to the rows.\<close>

lemma respond_success:
  assumes "RespondWithAcceptedGaps now_ms ts step action ids ignores instructions added reason gaps expected e st = (Inr disp, e', st')"
  shows "\<exists>r st1 e2. ex_waiting e \<and> ex_approvalCh e' = Some r \<and> ar_action r = action \<and> ar_gate r = ex_gate e \<and>
      e' = e2\<lparr>ex_waiting := False, ex_waitingFindings := [], ex_waitingStepResultID := [], ex_approvalCh := Some r\<rparr> \<and>
      gs_steps st1 = gs_steps st \<and>
      (action = ActionAbort \<and> e2 = e \<and> st' = st1 \<or>
       action \<noteq> ActionAbort \<and> acceptApprovalGate now_ms ts (Some r) e st1 = Inr (e2, st') \<and>
       (\<exists>g. expected = Some g \<and> SameGate g (ex_gate e)))"
proof -
  define r0 where "r0 = \<lparr> ar_gate = currentGateLocked e st, ar_action = action, ar_findingIDs = ids,
      ar_instructions = instructions, ar_addedFindings = added, ar_approvalReason = reason,
      ar_acceptedGaps = gaps, ar_ignoreFindingIDs = [] \<rparr>"
  have ok: "respond_refused step action reason gaps expected e st = None"
    using assms by (cases "respond_refused step action reason gaps expected e st") (auto simp: RespondWithAcceptedGaps_def)
  have w: "ex_waiting e" "action \<noteq> ActionAbort \<longrightarrow> validateGateLocked expected e st = None"
    using ok by (auto simp: respond_refused_def Let_def split: if_splits)
  have gate: "currentGateLocked e st = ex_gate e" using w(1) by (simp add: currentGateLocked_def)
  have exp: "action \<noteq> ActionAbort \<longrightarrow> (\<exists>g. expected = Some g \<and> SameGate g (ex_gate e))"
    using w gate by (auto simp: validateGateLocked_def Let_def split: option.splits if_splits)
  have built: "\<exists>r st1 e2. ar_gate r = ar_gate r0 \<and> ar_action r = ar_action r0 \<and> gs_steps st1 = gs_steps st \<and>
      (if action \<noteq> ActionAbort then acceptApprovalGate now_ms ts (Some r) e st1 else Inr (e, st1)) = Inr (e2, st') \<and>
      e' = e2\<lparr>ex_waiting := False, ex_waitingFindings := [], ex_waitingStepResultID := [], ex_approvalCh := Some r\<rparr>"
  proof (cases "action = ActionFix")
    case True
    have ne: "ActionFix \<noteq> ActionAbort" by (simp add: ActionFix_def ActionAbort_def)
    obtain r d st1 where f: "respond_fix step ids ignores r0 e st = Inr (r, d, st1)"
      using assms ok True
      by (cases "respond_fix step ids ignores r0 e st") (auto simp: RespondWithAcceptedGaps_def r0_def Let_def)
    then have "\<exists>e2. acceptApprovalGate now_ms ts (Some r) e st1 = Inr (e2, st') \<and>
        e' = e2\<lparr>ex_waiting := False, ex_waitingFindings := [], ex_waitingStepResultID := [], ex_approvalCh := Some r\<rparr>"
      using assms ok True ne
      by (cases "acceptApprovalGate now_ms ts (Some r) e st1") (auto simp: RespondWithAcceptedGaps_def r0_def Let_def)
    then show ?thesis
      using respond_fix_success [OF f] True ne by auto
  next
    case False
    then have "\<exists>e2. (if action \<noteq> ActionAbort then acceptApprovalGate now_ms ts (Some r0) e st else Inr (e, st)) = Inr (e2, st') \<and>
        e' = e2\<lparr>ex_waiting := False, ex_waitingFindings := [], ex_waitingStepResultID := [], ex_approvalCh := Some r0\<rparr>"
      using assms ok
      by (cases "if action \<noteq> ActionAbort then acceptApprovalGate now_ms ts (Some r0) e st else Inr (e, st)")
        (simp_all add: RespondWithAcceptedGaps_def r0_def [symmetric] split: prod.splits)
    then obtain e2 where "(if action \<noteq> ActionAbort then acceptApprovalGate now_ms ts (Some r0) e st else Inr (e, st)) = Inr (e2, st')"
      "e' = e2\<lparr>ex_waiting := False, ex_waitingFindings := [], ex_waitingStepResultID := [], ex_approvalCh := Some r0\<rparr>"
      by blast
    then show ?thesis by (intro exI conjI) (assumption | rule refl)+
  qed
  then obtain r st1 e2 where r: "ar_gate r = ar_gate r0" "ar_action r = ar_action r0" "gs_steps st1 = gs_steps st"
    and acc: "(if action \<noteq> ActionAbort then acceptApprovalGate now_ms ts (Some r) e st1 else Inr (e, st1)) = Inr (e2, st')"
    and e': "e' = e2\<lparr>ex_waiting := False, ex_waitingFindings := [], ex_waitingStepResultID := [], ex_approvalCh := Some r\<rparr>"
    by blast
  have ra: "ar_action r = action" "ar_gate r = ex_gate e" using r(1,2) gate by (simp_all add: r0_def)
  have ch: "ex_approvalCh e' = Some r" by (simp add: e')
  have "action = ActionAbort \<and> e2 = e \<and> st' = st1 \<or>
      action \<noteq> ActionAbort \<and> acceptApprovalGate now_ms ts (Some r) e st1 = Inr (e2, st')"
    using acc by (cases "action = ActionAbort") simp_all
  then show ?thesis
    using w(1) exp ra ch e' r(3) by (intro exI [of _ r] exI [of _ st1] exI [of _ e2]) (simp only: simp_thms, blast)
qed


subsection \<open>The invariant through each step\<close>

lemma gate_inv_parts:
  assumes "gate_inv d"
  shows "store_ok (gy_nonces d) (gate_nonce ` set (gy_accepted d)) (gate_nonce ` set (gy_dispatched d)) (gy_st d)"
    and "gate_nonce ` set (gy_accepted d) \<subseteq> gy_nonces d"
    and "logs_ok (map gate_nonce (gy_accepted d)) (map gate_nonce (gy_dispatched d))
       (ch_nonces (ex_approvalCh (gy_e d)) + (\<Sum>c\<in>#gy_conts d. cont_nonces c))"
    and "ex_slot (gy_e d)" and "ex_waiting (gy_e d) \<Longrightarrow> ex_approvalCh (gy_e d) = None"
  using assms by (simp_all add: gate_inv_def)

lemma dispatched_accepted:
  assumes "logs_ok A D F" shows "set D \<subseteq> set A"
proof -
  have "mset D \<subseteq># mset A" using assms unfolding logs_ok_def by (meson mset_subset_eq_add_left subset_mset.order_trans)
  then show ?thesis by (metis set_mset_mset set_mset_mono)
qed

lemma distinct_sub_mset:
  assumes "distinct ys" "mset xs \<subseteq># mset ys"
  shows "distinct xs"
  unfolding distinct_count_atmost_1
proof
  fix a
  have "count (mset xs) a \<le> count (mset ys) a" using assms(2) by (rule mset_subset_eq_count)
  moreover have "count (mset ys) a \<le> 1" using assms(1) by (simp add: distinct_count_atmost_1)
  ultimately have "count (mset xs) a \<le> 1" by simp
  moreover have "a \<in> set xs \<longleftrightarrow> 0 < count (mset xs) a" by simp
  ultimately show "count (mset xs) a = (if a \<in> set xs then 1 else 0)"
    by (cases "count (mset xs) a") auto
qed

lemma logs_ok_less: "logs_ok A D F \<Longrightarrow> F' \<subseteq># F \<Longrightarrow> logs_ok A D F'"
  unfolding logs_ok_def by (meson subset_mset.add_left_mono subset_mset.order_trans)

text \<open>A step that writes no row and holds no more than before.\<close>

lemma inv_executor:
  assumes "gate_inv d" "d' = d\<lparr>gy_e := e, gy_st := st, gy_conts := C\<rparr>" "gs_steps st = gs_steps (gy_st d)"
    and "ch_nonces (ex_approvalCh e) + (\<Sum>c\<in>#C. cont_nonces c) \<subseteq>#
      ch_nonces (ex_approvalCh (gy_e d)) + (\<Sum>c\<in>#gy_conts d. cont_nonces c)"
    and "ex_slot e" "ex_waiting e \<Longrightarrow> ex_approvalCh e = None"
  shows "gate_inv d'"
proof -
  note i = gate_inv_parts [OF assms(1)]
  have "logs_ok (map gate_nonce (gy_accepted d)) (map gate_nonce (gy_dispatched d))
       (ch_nonces (ex_approvalCh e) + (\<Sum>c\<in>#C. cont_nonces c))"
    by (rule logs_ok_less [OF i(3) assms(4)])
  then show ?thesis using i assms(2,3,5,6) store_ok_cong [OF assms(3)] by (simp add: gate_inv_def)
qed

text \<open>A write of one row that keeps its nonce and does not bring it back to the gate.\<close>

lemma inv_row:
  assumes "gate_inv d" "gs_steps (gy_st d) (sp_ID row') = Some row" "sp_GateNonce row' = sp_GateNonce row"
    and "\<not> parked_status (sp_Status row') \<or>
      sp_Status row' = sp_Status row \<and> sp_PendingResponse row' = sp_PendingResponse row"
  shows "gate_inv (d\<lparr>gy_st := put_step row' (gy_st d)\<rparr>)"
proof -
  note i = gate_inv_parts [OF assms(1)]
  have "row_ok (gy_nonces d) (gate_nonce ` set (gy_accepted d)) (gate_nonce ` set (gy_dispatched d)) row'"
    using store_ok_row [OF i(1) assms(2)] assms(3,4) unfolding row_ok_def by auto
  then have "store_ok (gy_nonces d) (gate_nonce ` set (gy_accepted d)) (gate_nonce ` set (gy_dispatched d))
      (put_step row' (gy_st d))"
    by (intro store_ok_put [OF i(1) assms(2,3)]) auto
  then show ?thesis using i by (simp add: gate_inv_def)
qed

lemma publish_result:
  assumes "publish_gate now_ms ts nonce runID stepID step status exitCode durationMS findings findingsPtr roundID shipping e st = (b, e', st')"
  shows "ex_approvalCh e' = None \<and> ex_slot e' = ex_slot e \<and>
    (st' = st \<or> (\<exists>row row'. gs_steps st stepID = Some row \<and> sp_ID row' = sp_ID row \<and> sp_GateNonce row' = Some nonce \<and>
       sp_PendingResponse row' = None \<and> gs_steps st' = gs_steps (put_step row' st)))"
proof (cases "ParkStepForApproval ts nonce runID stepID status exitCode durationMS findingsPtr (Some roundID) st")
  case None
  then show ?thesis using assms by (auto simp: publish_gate_def Let_def clearApprovalGateLocked_def)
next
  case (Some st2)
  then obtain row run where r: "gs_steps st stepID = Some row" "gs_runs st runID = Some run"
    by (auto simp: ParkStepForApproval_def split: option.splits prod.splits)
  define row' where "row' = row\<lparr>sp_Status := status, sp_ExitCode := Some exitCode, sp_DurationMS := Some durationMS,
      sp_FindingsJSON := findingsPtr, sp_PendingResponse := None, sp_GateNonce := Some nonce,
      sp_GateRoundID := Some roundID, sp_LastActivityAt := Some ts, sp_LastActivity := Some (''status: '' @ status)\<rparr>"
  have "gs_steps st2 = gs_steps (put_step row' st)"
    using Some r by (auto simp: ParkStepForApproval_def row'_def Let_def)
  moreover have "st' = st2 \<and> ex_approvalCh e' = None \<and> ex_slot e' = ex_slot e"
    using assms Some by (auto simp: publish_gate_def Let_def clearApprovalGateLocked_def split: option.splits)
  moreover have "sp_ID row' = sp_ID row \<and> sp_GateNonce row' = Some nonce \<and> sp_PendingResponse row' = None"
    by (simp add: row'_def)
  ultimately show ?thesis using r(1) by blast
qed

lemma inv_publish:
  assumes "gate_inv d" "nonce \<notin> gy_nonces d"
    and "publish_gate now_ms ts nonce runID stepID step status exitCode durationMS findings findingsPtr roundID shipping
      (gy_e d) (gy_st d) = (b, e, st)"
  shows "gate_inv (d\<lparr>gy_e := e, gy_st := st, gy_nonces := insert nonce (gy_nonces d)\<rparr>)"
proof -
  note i = gate_inv_parts [OF assms(1)]
  note p = publish_result [OF assms(3)]
  let ?A = "gate_nonce ` set (gy_accepted d)" and ?D = "gate_nonce ` set (gy_dispatched d)"
  have DN: "?D \<subseteq> gy_nonces d" using dispatched_accepted [OF i(3)] i(2) by auto
  have "store_ok (insert nonce (gy_nonces d)) ?A ?D st"
  proof (cases "st = gy_st d")
    case True
    have "row_ok (gy_nonces d) ?A ?D q \<Longrightarrow> row_ok (insert nonce (gy_nonces d)) ?A ?D q" for q
      by (auto simp: row_ok_def)
    then show ?thesis using i(1) True unfolding store_ok_def by blast
  next
    case False
    then obtain row row' where r: "gs_steps (gy_st d) stepID = Some row" "sp_ID row' = sp_ID row"
      "sp_GateNonce row' = Some nonce" "sp_PendingResponse row' = None" "gs_steps st = gs_steps (put_step row' (gy_st d))"
      using p by blast
    have "gs_steps (gy_st d) (sp_ID row') = Some row" using r(1,2) store_ok_row [OF i(1) r(1)] by simp
    from store_ok_fresh [OF i(1) this assms(2) i(2) DN r(3,4)] show ?thesis
      using store_ok_cong [OF r(5)] by simp
  qed
  moreover have "logs_ok (map gate_nonce (gy_accepted d)) (map gate_nonce (gy_dispatched d))
       (ch_nonces (ex_approvalCh e) + (\<Sum>c\<in>#gy_conts d. cont_nonces c))"
    by (rule logs_ok_less [OF i(3)]) (simp add: p ch_nonces_def)
  ultimately show ?thesis using i p by (auto simp: gate_inv_def)
qed


lemma accept_grows:
  assumes "gate_inv d" "gs_steps st1 = gs_steps (gy_st d)" "acceptApprovalGate now_ms ts resp (gy_e d) st1 = Inr (e2, st')"
    and "n = g_Nonce (case resp of None \<Rightarrow> currentGateLocked (gy_e d) st1 | Some q \<Rightarrow> ar_gate q)"
  shows "store_ok (gy_nonces d) (insert n (gate_nonce ` set (gy_accepted d))) (gate_nonce ` set (gy_dispatched d)) st'"
    and "n \<in> gy_nonces d" "n \<notin> gate_nonce ` set (gy_accepted d)"
    and "ex_slot e2" "ex_approvalCh e2 = ex_approvalCh (gy_e d)" "ex_gate e2 = ex_gate (gy_e d)"
proof -
  note i = gate_inv_parts [OF assms(1)]
  let ?A = "gate_nonce ` set (gy_accepted d)" and ?D = "gate_nonce ` set (gy_dispatched d)"
  have ok: "store_ok (gy_nonces d) ?A ?D st1" using i(1) store_ok_cong [OF assms(2)] by simp
  obtain row ms where row: "gs_steps st1 (ex_waitingStepResultID (gy_e d)) = Some row" "parked_status (sp_Status row)"
      "sp_PendingResponse row = None"
    and same: "SameGate (case resp of None \<Rightarrow> currentGateLocked (gy_e d) st1 | Some r \<Rightarrow> ar_gate r) (StepResult_GateIdentity row)"
    and e2: "e2 = (gy_e d)\<lparr>ex_slotWaitStep := ex_waitingStep (gy_e d), ex_answeredParkedMS := ms\<rparr>"
    and st': "st' = put_step (row\<lparr>sp_PendingResponse := Some (encodePendingResponse resp ms (StepResult_GateIdentity row)),
        sp_LastActivityAt := Some ts, sp_LastActivity := Some answeredActivity\<rparr>) st1"
    using accept_success [OF assms(3) i(4) ok] by blast
  define row' where "row' = row\<lparr>sp_PendingResponse := Some (encodePendingResponse resp ms (StepResult_GateIdentity row)),
        sp_LastActivityAt := Some ts, sp_LastActivity := Some answeredActivity\<rparr>"
  have id: "sp_ID row = ex_waitingStepResultID (gy_e d)" "row_ok (gy_nonces d) ?A ?D row"
    using store_ok_row [OF ok row(1)] by auto
  have nn: "sp_GateNonce row = Some n"
  proof (rule deref_some)
    show "deref (sp_GateNonce row) = n" "n \<noteq> []"
      using SameGate_nonce [OF same] by (auto simp: identity_nonce assms(4))
  qed
  show nN: "n \<in> gy_nonces d" and nA: "n \<notin> ?A" using id(2) nn row(2,3) by (auto simp: row_ok_def)
  then have nD: "n \<notin> ?D" using dispatched_accepted [OF i(3)] by auto
  have "gs_steps st1 (sp_ID row') = Some row" using row(1) id(1) by (simp add: row'_def)
  moreover have "row_ok (gy_nonces d) (insert n ?A) ?D row'" using nn nN nD by (auto simp: row_ok_def row'_def)
  ultimately have "store_ok (gy_nonces d) (insert n ?A) ?D (put_step row' st1)"
    using nn by (intro store_ok_put [OF ok]) (auto simp: row'_def)
  then show "store_ok (gy_nonces d) (insert n ?A) ?D st'" by (simp add: st' row'_def)
  show "ex_slot e2" "ex_approvalCh e2 = ex_approvalCh (gy_e d)" "ex_gate e2 = ex_gate (gy_e d)"
    using i(4) by (simp_all add: e2)
qed

lemma logs_ok_grow: "logs_ok A D F \<Longrightarrow> n \<notin> set A \<Longrightarrow> logs_ok (A @ [n]) D (add_mset n F)"
  by (simp add: logs_ok_def)

lemma inv_respond:
  assumes "gate_inv d" "ex_approvalCh (gy_e d) = None" "ex_approvalCh e = Some r"
    and "RespondWithAcceptedGaps now_ms ts step action findingIDs ignoreIDs instructions added reason gaps expected
      (gy_e d) (gy_st d) = (Inr disp, e, st)"
  shows "gate_inv (d\<lparr>gy_e := e, gy_st := st, gy_accepted := gy_accepted d @ claimed_log r\<rparr>)"
proof -
  note i = gate_inv_parts [OF assms(1)]
  obtain st1 e2 where r: "ar_action r = action" "ar_gate r = ex_gate (gy_e d)"
    and e: "e = e2\<lparr>ex_waiting := False, ex_waitingFindings := [], ex_waitingStepResultID := [], ex_approvalCh := Some r\<rparr>"
    and steps: "gs_steps st1 = gs_steps (gy_st d)"
    and cs: "action = ActionAbort \<and> e2 = gy_e d \<and> st = st1 \<or>
      action \<noteq> ActionAbort \<and> acceptApprovalGate now_ms ts (Some r) (gy_e d) st1 = Inr (e2, st)"
    using respond_success [OF assms(4)] assms(3) by fastforce
  show ?thesis
  proof (cases "action = ActionAbort")
    case True
    then have "e2 = gy_e d" "st = st1" using cs by auto
    then show ?thesis using i assms(2) r True steps store_ok_cong [OF steps]
      by (simp add: gate_inv_def e claimed_log_def ch_nonces_def live_nonce_def)
  next
    case False
    then have acc: "acceptApprovalGate now_ms ts (Some r) (gy_e d) st1 = Inr (e2, st)" using cs by auto
    have "gate_nonce r = g_Nonce (case Some r of None \<Rightarrow> currentGateLocked (gy_e d) st1 | Some q \<Rightarrow> ar_gate q)"
      by (simp add: gate_nonce_def)
    note g = accept_grows [OF assms(1) steps acc this]
    have "logs_ok (map gate_nonce (gy_accepted d) @ [gate_nonce r]) (map gate_nonce (gy_dispatched d))
        (add_mset (gate_nonce r) (ch_nonces (ex_approvalCh (gy_e d)) + (\<Sum>c\<in>#gy_conts d. cont_nonces c)))"
      using g(3) by (intro logs_ok_grow [OF i(3)]) simp
    then show ?thesis using i g r False assms(2)
      by (simp add: gate_inv_def e claimed_log_def ch_nonces_def live_nonce_def)
  qed
qed

lemma inv_claim:
  assumes "gate_inv d" "claimGateReconciliation now_ms ts resp (gy_e d) (gy_st d) = Inr (Some (r, e, st))"
    and "ar_action r \<noteq> ActionAbort"
  shows "gate_inv (d\<lparr>gy_e := e, gy_st := st, gy_accepted := gy_accepted d @ [r], gy_conts := add_mset (Consumed r) (gy_conts d)\<rparr>)"
proof -
  note i = gate_inv_parts [OF assms(1)]
  let ?resp = "map_option (\<lambda>r. r\<lparr>ar_gate := currentGateLocked (gy_e d) (gy_st d)\<rparr>) resp"
  have w: "ex_waiting (gy_e d)"
    using assms(2) by (auto simp: claimGateReconciliation_def split: if_splits)
  obtain e2 where acc: "acceptApprovalGate now_ms ts ?resp (gy_e d) (gy_st d) = Inr (e2, st)"
    and r: "r = (case ?resp of None \<Rightarrow> zero_response\<lparr>ar_gate := ex_gate e2\<rparr> | Some r \<Rightarrow> r)"
    and e: "e = e2\<lparr>ex_waiting := False, ex_waitingStep := [], ex_waitingFindings := [], ex_waitingStepResultID := []\<rparr>"
    using assms(2) w by (auto simp: claimGateReconciliation_def Let_def split: sum.splits)
  note g0 = accept_grows [OF assms(1) refl acc refl]
  have n: "gate_nonce r = g_Nonce (case ?resp of None \<Rightarrow> currentGateLocked (gy_e d) (gy_st d) | Some q \<Rightarrow> ar_gate q)"
    using w g0(6) by (cases resp) (simp_all add: r gate_nonce_def currentGateLocked_def)
  note g = accept_grows [OF assms(1) refl acc n]
  have "logs_ok (map gate_nonce (gy_accepted d) @ [gate_nonce r]) (map gate_nonce (gy_dispatched d))
      (add_mset (gate_nonce r) (ch_nonces (ex_approvalCh (gy_e d)) + (\<Sum>c\<in>#gy_conts d. cont_nonces c)))"
    using g(3) by (intro logs_ok_grow [OF i(3)]) simp
  then show ?thesis using i g assms(3)
    by (simp add: gate_inv_def e live_nonce_def)
qed

lemma inv_dispatch:
  assumes "gate_inv d" "gy_conts d = add_mset (Admitted r ms pending) C"
    and "dispatch_answered ts runID stepID (ar_gate r) ms pending (gy_e d) (gy_st d) = Inr st"
  shows "gate_inv (d\<lparr>gy_st := st, gy_dispatched := gy_dispatched d @ [r], gy_conts := add_mset (Deferred r ms False) C\<rparr>)"
proof -
  note i = gate_inv_parts [OF assms(1)]
  let ?A = "gate_nonce ` set (gy_accepted d)" and ?D = "gate_nonce ` set (gy_dispatched d)"
  have res: "ResumeStepFromApproval ts runID stepID ''gate resumed'' ms (ar_gate r) (gy_st d) = Inr st"
    using assms(3) i(4) by (auto simp: dispatch_answered_def split: if_splits option.splits sum.splits)
  then obtain row where row: "gs_steps (gy_st d) stepID = Some row" "row_at_gate row (ar_gate r)"
    and st: "st = CompleteRunAwaitingAgent runID ms (put_step (row\<lparr>sp_Status := StepStatusRunning,
      sp_PendingResponse := None, sp_LastActivityAt := Some ts, sp_LastActivity := Some ''gate resumed''\<rparr>) (gy_st d))"
    by (auto simp: ResumeStepFromApproval_def split: if_splits option.splits)
  define row' where "row' = row\<lparr>sp_Status := StepStatusRunning, sp_PendingResponse := None,
      sp_LastActivityAt := Some ts, sp_LastActivity := Some ''gate resumed''\<rparr>"
  have n: "sp_GateNonce row = Some (gate_nonce r)" using row(2) by (simp add: row_at_gate_def gate_nonce_def)
  have id: "sp_ID row = stepID" "row_ok (gy_nonces d) ?A ?D row" using store_ok_row [OF i(1) row(1)] by auto
  have "\<not> parked_status StepStatusRunning"
    by (simp add: parked_status_def StepStatusRunning_def StepStatusAwaitingApproval_def StepStatusFixReview_def)
  then have "row_ok (gy_nonces d) ?A (insert (gate_nonce r) ?D) row'"
    using id(2) n by (simp add: row_ok_def row'_def)
  moreover have "gs_steps (gy_st d) (sp_ID row') = Some row" using row(1) id(1) by (simp add: row'_def)
  ultimately have "store_ok (gy_nonces d) ?A (insert (gate_nonce r) ?D) (put_step row' (gy_st d))"
    using n by (intro store_ok_put [OF i(1)]) (auto simp: row'_def)
  then have ok: "store_ok (gy_nonces d) ?A (insert (gate_nonce r) ?D) st"
    using store_ok_cong [of st "put_step row' (gy_st d)"] by (simp add: st row'_def)
  have "logs_ok (map gate_nonce (gy_accepted d)) (map gate_nonce (gy_dispatched d) @ [gate_nonce r])
      (ch_nonces (ex_approvalCh (gy_e d)) + (\<Sum>c\<in>#C. cont_nonces c))"
    using i(3) assms(2) by (simp add: logs_ok_def)
  then show ?thesis using i ok by (simp add: gate_inv_def)
qed


lemma gate_of_row_row: "gate_of_row i name row rounds = Some g \<Longrightarrow> rg_stepResult g = row"
  by (auto simp: gate_of_row_def split: option.splits list.splits if_splits)

lemma recovered_rows_parked:
  "recovered_rows rounds i rows g = Some g' \<Longrightarrow>
     g = Some g' \<or> rg_stepResult g' \<in> snd ` set rows \<and> parked_status (sp_Status (rg_stepResult g'))"
proof (induction rounds i rows g rule: recovered_rows.induct)
  case (2 rounds i name row rows g)
  then show ?case by (auto dest: gate_of_row_row split: if_splits option.splits)
qed simp

lemma recovered_gate_parked:
  assumes "recoveredGate steps results rounds = Some g"
  shows "rg_stepResult g \<in> set results \<and> parked_status (sp_Status (rg_stepResult g))"
proof -
  have "recovered_rows rounds 0 (zip steps results) None = Some g"
    using assms by (simp add: recoveredGate_def split: if_splits)
  then show ?thesis using recovered_rows_parked by (fastforce dest: set_zip_rightD)
qed

lemma decode_gate:
  assumes "decodePendingResponse raw current = Inr (Some r, ms)"
  shows "SameGate (ar_gate r) current \<and> ar_action r \<noteq> ActionAbort"
  using assms
  by (auto simp: decodePendingResponse_def ActionApprove_def ActionFix_def ActionSkip_def ActionAnswer_def
      ActionAbort_def split: option.splits if_splits)

text \<open>An executor that recovered a gate either waits, or holds the answer that was recorded.\<close>

lemma recovered_exec:
  assumes "RegisterRecoveredGate g since shipping (new_exec True) = Inr e"
  shows "ex_approvalCh e = None \<and> ex_slot e \<and> g_Nonce (ex_gate e) \<noteq> [] \<and>
    ex_gate e = StepResult_GateIdentity (rg_stepResult g) \<and>
    (recovered_conts e = {#} \<or>
     sp_PendingResponse (rg_stepResult g) \<noteq> None \<and>
       (\<exists>c. recovered_conts e = {#c#} \<and> cont_nonces c = {#g_Nonce (ex_gate e)#}))"
proof (cases "sp_PendingResponse (rg_stepResult g)")
  case None
  then show ?thesis using assms
    by (auto simp: RegisterRecoveredGate_def Let_def new_exec_def clearApprovalGateLocked_def recovered_conts_def
        split: if_splits)
next
  case (Some raw)
  then obtain rec ms where dec: "decodePendingResponse raw (StepResult_GateIdentity (rg_stepResult g)) = Inr (rec, ms)"
    using assms by (auto simp: RegisterRecoveredGate_def Let_def split: if_splits sum.splits)
  have e: "ex_recoveredResponse e = rec" "ex_gate e = StepResult_GateIdentity (rg_stepResult g)"
    "ex_approvalCh e = None" "ex_slot e" "g_Nonce (ex_gate e) \<noteq> []"
    using assms Some dec
    by (auto simp: RegisterRecoveredGate_def Let_def new_exec_def clearApprovalGateLocked_def
        split: if_splits sum.splits prod.splits)
  have "zero_response\<lparr>ar_gate := h\<rparr> = zero_response\<lparr>ar_gate := h\<rparr> \<and> ar_action (zero_response\<lparr>ar_gate := h\<rparr>) \<noteq> ActionAbort" for h
    by (simp add: zero_response_def ActionAbort_def)
  then have "\<exists>c. (case rec of Some r \<Rightarrow> {#Dequeued r#} | None \<Rightarrow> {#Consumed (zero_response\<lparr>ar_gate := ex_gate e\<rparr>)#}) = {#c#} \<and>
      cont_nonces c = {#g_Nonce (ex_gate e)#}"
    using decode_gate [of raw _ _ ms] dec e(2)
    by (cases rec) (auto simp: live_nonce_def gate_nonce_def dest!: SameGate_nonce)
  then show ?thesis using e Some by (auto simp: recovered_conts_def)
qed

lemma inv_restart:
  assumes "gate_inv d" "recoveredGate steps results (gs_rounds (gy_st d)) = Some g"
    and "\<forall>row \<in> set results. gs_steps (gy_st d) (sp_ID row) = Some row"
    and "RegisterRecoveredGate g since shipping (new_exec True) = Inr e"
  shows "gate_inv (d\<lparr>gy_e := e, gy_conts := recovered_conts e\<rparr>)"
proof -
  note i = gate_inv_parts [OF assms(1)]
  note e = recovered_exec [OF assms(4)]
  define row where "row = rg_stepResult g"
  have row: "gs_steps (gy_st d) (sp_ID row) = Some row" "parked_status (sp_Status row)"
    using recovered_gate_parked [OF assms(2)] assms(3) by (auto simp: row_def)
  have "logs_ok (map gate_nonce (gy_accepted d)) (map gate_nonce (gy_dispatched d))
       (\<Sum>c\<in>#recovered_conts e. cont_nonces c)"
  proof (cases "recovered_conts e = {#}")
    case True
    then show ?thesis by (intro logs_ok_less [OF i(3)]) simp
  next
    case False
    then obtain c where c: "recovered_conts e = {#c#}" "cont_nonces c = {#g_Nonce (ex_gate e)#}"
      "sp_PendingResponse row \<noteq> None" using e row_def by auto
    define n where "n = g_Nonce (ex_gate e)"
    have "sp_GateNonce row = Some n"
      using e by (intro deref_some) (auto simp: n_def identity_nonce row_def)
    then have n: "n \<in> gate_nonce ` set (gy_accepted d)" "n \<notin> gate_nonce ` set (gy_dispatched d)"
      using store_ok_row [OF i(1) row(1)] row(2) c(3) by (auto simp: row_ok_def)
    have "mset (map gate_nonce (gy_dispatched d)) \<subseteq># mset (map gate_nonce (gy_accepted d))"
      using i(3) unfolding logs_ok_def by (meson mset_subset_eq_add_left subset_mset.order_trans)
    moreover have "count (mset (map gate_nonce (gy_dispatched d))) n = 0"
      using n(2) by (simp add: count_eq_zero_iff image_iff)
    moreover have "count (mset (map gate_nonce (gy_accepted d))) n > 0"
      using n(1) by (simp add: image_iff)
    ultimately have "add_mset n (mset (map gate_nonce (gy_dispatched d))) \<subseteq># mset (map gate_nonce (gy_accepted d))"
      by (auto simp: subseteq_mset_def Suc_le_eq)
    then show ?thesis using i(3) c by (simp add: logs_ok_def n_def)
  qed
  then show ?thesis using i e by (simp add: gate_inv_def ch_nonces_def)
qed


lemma clear_exec:
  "ex_slot (clearApprovalGateLocked e) = ex_slot e" "ex_approvalCh (clearApprovalGateLocked e) = None"
  by (simp_all add: clearApprovalGateLocked_def)

lemma ch_nonces_None [simp]: "ch_nonces None = {#}"
  by (simp add: ch_nonces_def)

lemma gate_inv_step: "gate_step d d' \<Longrightarrow> gate_inv d \<Longrightarrow> gate_inv d'"
proof (induction rule: gate_step.induct)
  case (publish nonce d status)
  then show ?case by (intro inv_publish)
next
  case (respond now_ms ts step action findingIDs ignoreIDs instructions added reason gaps expected d disp e st r)
  then show ?case by (intro inv_respond)
next
  case (claim now_ms ts resp d r e st)
  then show ?case by (intro inv_claim)
next
  case (dequeue d r)
  then show ?case using gate_inv_parts(4,5) [OF dequeue(2)]
    by (intro inv_executor [where st = "gy_st d" and e = "(gy_e d)\<lparr>ex_approvalCh := None\<rparr>", OF dequeue(2)])
      (auto simp: ch_nonces_def)
next
  case (consume d r C e b)
  have e: "ex_slot e" "ch_nonces (ex_approvalCh e) \<subseteq># ch_nonces (ex_approvalCh (gy_e d))" "ex_waiting e \<longrightarrow> ex_approvalCh e = None"
    using consume(2) gate_inv_parts(4,5) [OF consume(3)]
    by (auto simp: consumeApprovalResponse_def clear_exec split: if_splits)
  have "ch_nonces (ex_approvalCh e) + (live_nonce r + (\<Sum>c\<in>#C. cont_nonces c))
      \<subseteq># ch_nonces (ex_approvalCh (gy_e d)) + (live_nonce r + (\<Sum>c\<in>#C. cont_nonces c))"
    using e(2) by (rule subset_mset.add_right_mono)
  moreover have "ch_nonces (ex_approvalCh e) \<subseteq># ch_nonces (ex_approvalCh (gy_e d)) + live_nonce r"
    using e(2) by (rule subset_mset.order_trans) simp
  moreover have "ch_nonces (ex_approvalCh e) + (\<Sum>c\<in>#C. cont_nonces c)
      \<subseteq># ch_nonces (ex_approvalCh e) + (live_nonce r + (\<Sum>c\<in>#C. cont_nonces c))"
    by simp
  ultimately show ?case
    using consume(1) e(1,3)
    by (intro inv_executor [where st = "gy_st d", OF consume(3)]) (auto intro: subset_mset.order_trans)
next
  case (admit d r C ms pending)
  then show ?case using gate_inv_parts(4,5) [OF admit(4)]
    by (intro inv_executor [where st = "gy_st d" and e = "gy_e d", OF admit(4)]) (auto simp: live_nonce_def)
next
  case (aborted d r C)
  then show ?case using gate_inv_parts(4,5) [OF aborted(3)]
    by (intro inv_executor [where st = "gy_st d" and e = "gy_e d", OF aborted(3)]) auto
next
  case (dispatch d r ms pending C ts runID stepID st)
  then show ?case by (intro inv_dispatch)
next
  case (not_dispatched d r ms pending C failed)
  then show ?case using gate_inv_parts(4,5) [OF not_dispatched(2)]
    by (intro inv_executor [where st = "gy_st d" and e = "gy_e d", OF not_dispatched(2)]) auto
next
  case (deferred d r ms failed C runID e st)
  have e: "gs_steps st = gs_steps (gy_st d)" "ex_slot e" "ex_approvalCh e = ex_approvalCh (gy_e d)" "ex_waiting e = ex_waiting (gy_e d)"
    using deferred(2) gate_inv_parts(4) [OF deferred(3)] by (auto simp: answered_deferred_def split: if_splits)
  then show ?case using deferred(1) gate_inv_parts(5) [OF deferred(3)]
    by (intro inv_executor [where st = st and e = e, OF deferred(3)]) auto
next
  case (clear d)
  then show ?case using gate_inv_parts(4) [OF clear]
    by (intro inv_executor [where st = "gy_st d" and C = "gy_conts d" and e = "clearApprovalGateLocked (gy_e d)", OF clear])
      (auto simp: clear_exec)
next
  case (end_wait failed d e b runID ms)
  then show ?case using gate_inv_parts(4,5) [OF end_wait(2)]
    by (intro inv_executor [where C = "gy_conts d" and e = e
          and st = "if b then CompleteRunAwaitingAgent runID ms (gy_st d) else gy_st d", OF end_wait(2)]) (auto simp: endGateWait_def split: if_splits)
next
  case (fail d ts stepID msg ms)
  show ?case
  proof (cases "gs_steps (gy_st d) stepID")
    case None
    then show ?thesis using fail by (simp add: FailStep_def)
  next
    case (Some row)
    have "sp_ID row = stepID" using store_ok_row [OF gate_inv_parts(1) [OF fail] Some] by simp
    then show ?thesis using Some
      by (simp add: FailStep_def)
        (rule inv_row [OF fail], auto simp: parked_status_def StepStatusFailed_def StepStatusAwaitingApproval_def
          StepStatusFixReview_def)
  qed
next
  case (other_write d row row')
  show ?case
    using other_write by (intro inv_row [where row = row]) simp_all
next
  case (other_tables st d)
  then show ?case using gate_inv_parts(4,5) [OF other_tables(2)]
    by (intro inv_executor [where C = "gy_conts d" and e = "gy_e d" and st = st, OF other_tables(2)]) auto
next
  case (restart steps results d g since shipping e)
  then show ?case by (intro inv_restart)
qed

lemma gate_inv_reachable: "gate_reachable d \<Longrightarrow> gate_inv d"
proof (induction rule: gate_reachable.induct)
  case (start st)
  then show ?case
    by (auto simp: gate_inv_def gate_start_def store_ok_def row_ok_def logs_ok_def new_exec_def)
qed (rule gate_inv_step)


section \<open>What the protocol guarantees\<close>

definition sample_row :: StepResult where
  "sample_row = zero_step\<lparr>sp_ID := ''s1'', sp_RunID := ''run'', sp_StepName := StepReview, sp_Status := StepStatusRunning\<rparr>"

definition sample_store :: gateStore where
  "sample_store = \<lparr> gs_steps = [''s1'' \<mapsto> sample_row], gs_rounds = (\<lambda>_. []),
     gs_runs = [''run'' \<mapsto> \<lparr> rk_AwaitingAgentSince = None, rk_ParkedMS = 0 \<rparr>], gs_rewind = (\<lambda>_. False) \<rparr>"

text \<open>The sample run parked at its review gate, and after the operator skipped the step.\<close>

definition sample_park :: "bool \<times> gateExec \<times> gateStore" where
  "sample_park = publish_gate 1000 1 ''n1'' ''run'' ''s1'' StepReview StepStatusAwaitingApproval 0 7 [] None ''r1'' None
     (new_exec True) sample_store"

definition sample_parked :: gate_system where
  "sample_parked = (gate_start sample_store)\<lparr>gy_e := fst (snd sample_park), gy_st := snd (snd sample_park), gy_nonces := {''n1''}\<rparr>"

definition sample_answer :: "(respond_error + RespondDispositions) \<times> gateExec \<times> gateStore" where
  "sample_answer = RespondWithAcceptedGaps 2500 2 StepReview ActionSkip [] [] [] [] [] None (Some sample_gate_id)
     (gy_e sample_parked) (gy_st sample_parked)"

lemma sample_parked_reachable: "gate_reachable sample_parked"
proof -
  have "gate_reachable (gate_start sample_store)"
    by (rule gate_reachable.start) (simp add: sample_store_def sample_row_def zero_step_def)
  moreover have "gate_step (gate_start sample_store) ((gate_start sample_store)\<lparr>gy_e := fst (snd sample_park),
      gy_st := snd (snd sample_park), gy_nonces := insert ''n1'' (gy_nonces (gate_start sample_store))\<rparr>)"
    by (rule gate_step.publish [where status = StepStatusAwaitingApproval and b = "fst sample_park"])
      (simp_all add: gate_start_def parked_status_def sample_park_def)
  ultimately show ?thesis
    by (auto simp: sample_parked_def gate_start_def intro: gate_reachable.step)
qed

lemma sample_parked_exec:
  "ex_waiting (gy_e sample_parked)" "ex_waitingStep (gy_e sample_parked) = StepReview"
  "ex_waitingStepResultID (gy_e sample_parked) = ''s1''" "ex_waitingShipping (gy_e sample_parked) = None"
  "ex_gate (gy_e sample_parked) = sample_gate_id" "ex_slot (gy_e sample_parked)"
  "ex_waitingSince (gy_e sample_parked) = Some 1000" "ex_approvalCh (gy_e sample_parked) = None"
  by (simp_all add: sample_parked_def sample_park_def publish_gate_def ParkStepForApproval_def sample_store_def Let_def
      sample_row_def zero_step_def new_exec_def clearApprovalGateLocked_def StepResult_GateIdentity_def deref_def
      sample_gate_id_def AnsweredWaitingForSlot_def put_step_def)

definition sample_parked_row :: StepResult where
  "sample_parked_row = sample_row\<lparr>sp_Status := StepStatusAwaitingApproval, sp_ExitCode := Some 0, sp_DurationMS := Some 7,
     sp_GateNonce := Some ''n1'', sp_GateRoundID := Some ''r1'', sp_LastActivityAt := Some 1,
     sp_LastActivity := Some (''status: '' @ StepStatusAwaitingApproval)\<rparr>"

lemma sample_parked_store:
  "gs_steps (gy_st sample_parked) ''s1'' = Some sample_parked_row"
  "gs_runs (gy_st sample_parked) ''run'' \<noteq> None"
  by (simp_all add: sample_parked_def sample_park_def publish_gate_def ParkStepForApproval_def sample_store_def Let_def
      sample_row_def zero_step_def sample_parked_row_def put_step_def)

lemma sample_identity: "StepResult_GateIdentity sample_parked_row = sample_gate_id"
  by (simp add: sample_parked_row_def sample_row_def zero_step_def StepResult_GateIdentity_def deref_def
      sample_gate_id_def AnsweredWaitingForSlot_def)

lemma sample_same: "SameGate sample_gate_id sample_gate_id"
  by (simp add: SameGate_def sample_gate_id_def StepReview_def)

lemma sample_parked_row_facts:
  "sp_ID sample_parked_row = ''s1''" "sp_RunID sample_parked_row = ''run''" "sp_PendingResponse sample_parked_row = None"
  "parked_status (sp_Status sample_parked_row)" "row_at_gate sample_parked_row sample_gate_id"
  by (simp_all add: sample_parked_row_def sample_row_def zero_step_def parked_status_def row_at_gate_def sample_gate_id_def)

lemmas action_defs = ActionApprove_def ActionFix_def ActionSkip_def ActionAbort_def ActionAnswer_def

definition sample_skip :: approvalResponse where
  "sample_skip = zero_response\<lparr>ar_gate := sample_gate_id, ar_action := ActionSkip\<rparr>"

lemma sample_answer_result:
  "\<exists>e st. sample_answer = (Inr \<lparr> rd_Fixed = [], rd_Ignored = [], rd_Kept = [] \<rparr>, e, st) \<and>
     ex_approvalCh e = Some sample_skip"
proof -
  have "respond_refused StepReview ActionSkip [] None (Some sample_gate_id) (gy_e sample_parked) (gy_st sample_parked) = None"
    by (simp add: respond_refused_def validateGateLocked_def currentGateLocked_def sample_parked_exec sample_same
        action_defs StepReview_def StepRebase_def Let_def)
  moreover have "\<exists>e st. acceptApprovalGate 2500 2 (Some sample_skip) (gy_e sample_parked) (gy_st sample_parked) = Inr (e, st)"
    using sample_parked_store
    by (simp add: acceptApprovalGate_def sample_parked_exec Let_def sample_identity sample_parked_row_facts
        SetStepPendingResponse_def sample_same sample_skip_def)
  ultimately show ?thesis
    by (auto simp: sample_answer_def RespondWithAcceptedGaps_def currentGateLocked_def sample_parked_exec Let_def
        sample_skip_def zero_response_def action_defs split: sum.splits)
qed

text \<open>C1. A parked gate is answered at most once, and at most one answer to it is ever dispatched. In every
  reachable state, whatever operators, reconciliations, cancellations, republications of the gate and
  restarts of the daemon interleave, the accepted answers carry distinct nonces, so do the dispatched
  ones, and an answer is dispatched only at a gate for which one was accepted.\<close>

theorem gate_answered_once:
  assumes "gate_reachable d"
  shows "distinct (map gate_nonce (gy_accepted d)) \<and> distinct (map gate_nonce (gy_dispatched d)) \<and>
    gate_nonce ` set (gy_dispatched d) \<subseteq> gate_nonce ` set (gy_accepted d)"
proof -
  note l = gate_inv_parts(3) [OF gate_inv_reachable [OF assms]]
  have "distinct (map gate_nonce (gy_accepted d))" using l by (simp add: logs_ok_def)
  moreover have "mset (map gate_nonce (gy_dispatched d)) \<subseteq># mset (map gate_nonce (gy_accepted d))"
    using l unfolding logs_ok_def by (meson mset_subset_eq_add_left subset_mset.order_trans)
  then have "distinct (map gate_nonce (gy_dispatched d))" if "distinct (map gate_nonce (gy_accepted d))"
    using that by (rule distinct_sub_mset [rotated])
  ultimately show ?thesis using dispatched_accepted [OF l] by simp
qed

theorem gate_answered_once_witness:
  "\<exists>d. gate_reachable d \<and> gy_accepted d = [sample_skip] \<and> distinct (map gate_nonce (gy_accepted d))"
proof -
  obtain e st where a: "sample_answer = (Inr \<lparr> rd_Fixed = [], rd_Ignored = [], rd_Kept = [] \<rparr>, e, st)"
    "ex_approvalCh e = Some sample_skip" using sample_answer_result by blast
  let ?d = "sample_parked\<lparr>gy_e := e, gy_st := st, gy_accepted := gy_accepted sample_parked @ claimed_log sample_skip\<rparr>"
  have "gate_step sample_parked ?d"
    using a by (intro gate_step.respond [where expected = "Some sample_gate_id" and step = StepReview])
      (simp_all add: sample_answer_def sample_parked_exec)
  then have r: "gate_reachable ?d" by (rule gate_reachable.step [OF sample_parked_reachable])
  moreover have "gy_accepted ?d = [sample_skip]"
    by (simp add: sample_parked_def gate_start_def claimed_log_def sample_skip_def zero_response_def action_defs)
  ultimately show ?thesis using gate_answered_once [OF r] by blast
qed

text \<open>C4. Only the gate on show can be answered: an answer is taken only while a gate waits and, except for
  an abort, only from a caller that names exactly that park; it is then sent, for that gate, on a
  channel that is empty, so the sender never blocks under the executor's lock, and the gate no longer
  waits.\<close>

theorem respond_current_gate_only:
  assumes "gate_reachable d"
    and "RespondWithAcceptedGaps now_ms ts step action ids ignores instructions added reason gaps expected
      (gy_e d) (gy_st d) = (Inr disp, e, st)"
  shows "ex_waiting (gy_e d) \<and> ex_approvalCh (gy_e d) = None \<and> \<not> ex_waiting e \<and>
    (\<exists>r. ex_approvalCh e = Some r \<and> ar_gate r = ex_gate (gy_e d) \<and> ar_action r = action) \<and>
    (action \<noteq> ActionAbort \<longrightarrow> (\<exists>g. expected = Some g \<and> SameGate g (ex_gate (gy_e d))))"
  using respond_success [OF assms(2)] gate_inv_parts(5) [OF gate_inv_reachable [OF assms(1)]] by force

theorem respond_current_gate_only_witness:
  "\<exists>e st r. sample_answer = (Inr \<lparr> rd_Fixed = [], rd_Ignored = [], rd_Kept = [] \<rparr>, e, st) \<and> \<not> ex_waiting e \<and>
     ex_approvalCh e = Some r \<and> ar_gate r = sample_gate_id \<and> ar_action r = ActionSkip"
proof -
  obtain e st where a: "sample_answer = (Inr \<lparr> rd_Fixed = [], rd_Ignored = [], rd_Kept = [] \<rparr>, e, st)"
    using sample_answer_result by blast
  from respond_current_gate_only [OF sample_parked_reachable a [unfolded sample_answer_def]]
  show ?thesis using a by (auto simp: sample_parked_exec)
qed

text \<open>C3. A refused answer leaves the gate parked: whatever the refusal, the executor is unchanged and so are
  the rows of the steps and the clock of the run, so the operator can correct the answer and send it
  again.\<close>

theorem respond_error_keeps_gate:
  assumes "RespondWithAcceptedGaps now_ms ts step action ids ignores instructions added reason gaps expected e st = (Inl err, e', st')"
  shows "e' = e \<and> gs_steps st' = gs_steps st \<and> gs_runs st' = gs_runs st"
proof (cases "respond_refused step action reason gaps expected e st")
  case None
  show ?thesis
    using assms None
    by (auto simp: RespondWithAcceptedGaps_def Let_def dest!: respond_fix_success split: if_splits sum.splits)
next
  case (Some err')
  then show ?thesis using assms by (simp add: RespondWithAcceptedGaps_def)
qed

theorem respond_error_keeps_gate_witness:
  "RespondWithAcceptedGaps 0 0 StepReview ActionFix [] [] [] [] [] None None (new_exec True) sample_store =
     (Inl (SupersededGate zero_gate), new_exec True, sample_store)"
proof -
  have "respond_refused StepReview ActionFix [] None None (new_exec True) sample_store = Some (SupersededGate zero_gate)"
    by (simp add: respond_refused_def validateGateLocked_def currentGateLocked_def new_exec_def zero_gate_def
        action_defs Let_def)
  then have r: "RespondWithAcceptedGaps 0 0 StepReview ActionFix [] [] [] [] [] None None (new_exec True) sample_store =
      (Inl (SupersededGate zero_gate), new_exec True, sample_store)"
    by (simp add: RespondWithAcceptedGaps_def)
  from respond_error_keeps_gate [OF r] show ?thesis using r by simp
qed


lemma SameGate_refl: "SameGate g h \<Longrightarrow> SameGate h h"
  by (auto simp: SameGate_def)

text \<open>C2. An acknowledged answer is durable: when the operator's answer was accepted, the row of the parked
  step still has its parked status and carries a record that decodes at that row, as recovery does after a restart,
  into the very answer that was sent (its action, selection, instructions, added findings, reason and gap) for the
  gate of the row, with the time the gate had been parked. The answer is one that JSON can carry: UTF-8 strings, an
  action of the operator and 64-bit numbers, the parked time among them.\<close>

theorem accepted_response_durable:
  assumes "gate_reachable d"
    and "RespondWithAcceptedGaps now_ms ts step action ids ignores instructions added reason gaps expected
      (gy_e d) (gy_st d) = (Inr disp, e, st)"
    and "action \<noteq> ActionAbort" "ex_approvalCh e = Some r"
    and "gs_steps (gy_st d) (ex_waitingStepResultID (gy_e d)) = Some parked"
    and "response_ok (Some r) (parked_since now_ms (gy_e d)) (StepResult_GateIdentity parked)"
  shows "ar_action r = action \<and> SameGate (ar_gate r) (StepResult_GateIdentity parked) \<and>
    (\<exists>row raw. gs_steps st (ex_waitingStepResultID (gy_e d)) = Some row \<and> AnsweredWaitingForSlot row \<and>
      sp_PendingResponse row = Some raw \<and>
      decodePendingResponse raw (StepResult_GateIdentity row) =
        Inr (Some (r\<lparr>ar_gate := StepResult_GateIdentity parked\<rparr>), Some (parked_since now_ms (gy_e d))))"
proof -
  note i = gate_inv_parts [OF gate_inv_reachable [OF assms(1)]]
  obtain st1 e2 where steps: "gs_steps st1 = gs_steps (gy_st d)" and act: "ar_action r = action"
    and acc: "acceptApprovalGate now_ms ts (Some r) (gy_e d) st1 = Inr (e2, st)"
    using respond_success [OF assms(2)] assms(3,4) by fastforce
  have ok: "store_ok (gy_nonces d) (gate_nonce ` set (gy_accepted d)) (gate_nonce ` set (gy_dispatched d)) st1"
    using i(1) store_ok_cong [OF steps] by simp
  define g where "g = StepResult_GateIdentity parked"
  define ms where "ms = parked_since now_ms (gy_e d)"
  define row where "row = parked\<lparr>sp_PendingResponse := Some (encodePendingResponse (Some r) ms g),
        sp_LastActivityAt := Some ts, sp_LastActivity := Some answeredActivity\<rparr>"
  have parked: "parked_status (sp_Status parked)" "SameGate (ar_gate r) g" and st: "st = put_step row st1"
    using accept_success [OF acc i(4) ok] assms(5) steps by (auto simp: g_def ms_def row_def)
  have "SameGate g (StepResult_GateIdentity row)"
    using SameGate_refl [OF parked(2)] by (simp add: g_def row_def SameGate_def StepResult_GateIdentity_def)
  moreover have "response_ok (Some r) ms g" using assms(6) by (simp add: g_def ms_def)
  ultimately have dec: "decodePendingResponse (encodePendingResponse (Some r) ms g) (StepResult_GateIdentity row) =
      Inr (Some (r\<lparr>ar_gate := g\<rparr>), Some ms)"
    using decode_encoded [of "Some r" ms g] by simp
  have "sp_ID parked = ex_waitingStepResultID (gy_e d)" using store_ok_row [OF ok] assms(5) steps by simp
  then have "gs_steps st (ex_waitingStepResultID (gy_e d)) = Some row" by (simp add: st row_def put_step_def)
  moreover have "AnsweredWaitingForSlot row" using parked(1) by (simp add: AnsweredWaitingForSlot_def row_def)
  moreover have "sp_PendingResponse row = Some (encodePendingResponse (Some r) ms g)" by (simp add: row_def)
  ultimately show ?thesis using dec act parked(2) by (auto simp: g_def ms_def)
qed

theorem accepted_response_durable_witness:
  "\<exists>e st row raw. sample_answer = (Inr \<lparr> rd_Fixed = [], rd_Ignored = [], rd_Kept = [] \<rparr>, e, st) \<and>
     gs_steps st ''s1'' = Some row \<and> sp_PendingResponse row = Some raw \<and>
     decodePendingResponse raw (StepResult_GateIdentity row) = Inr (Some (sample_skip\<lparr>ar_gate := sample_gate_id\<rparr>), Some 1500)"
proof -
  obtain e st where a: "sample_answer = (Inr \<lparr> rd_Fixed = [], rd_Ignored = [], rd_Kept = [] \<rparr>, e, st)"
    "ex_approvalCh e = Some sample_skip" using sample_answer_result by blast
  have abort: "ActionSkip \<noteq> ActionAbort" by (simp add: action_defs)
  have ms: "parked_since 2500 (gy_e sample_parked) = 1500" by (simp add: parked_since_def sample_parked_exec)
  have "response_ok (Some sample_skip) 1500 sample_gate_id"
    by (simp add: response_ok_def pending_ok_def pending_of_def sample_skip_def zero_response_def
        zero_pending_def sample_gate_id_def int64_def go_map_def normalizeStepName_def StepReview_def
        StepStatusAwaitingApproval_def action_defs)
  then have "response_ok (Some sample_skip) (parked_since 2500 (gy_e sample_parked)) (StepResult_GateIdentity sample_parked_row)"
    by (simp add: ms sample_identity)
  from accepted_response_durable [OF sample_parked_reachable a(1) [unfolded sample_answer_def] abort a(2) _ this]
  show ?thesis using a(1) sample_parked_store(1) by (auto simp: sample_parked_exec sample_identity ms)
qed

end
