(* ===== verification/Tables.thy ===== *)
theory Tables
  imports GateProtocol
begin

text \<open>
  The tables of the daemon's database (\<open>internal/db\<close>): the rows of a run, its steps, rounds and
  the records beside them, with one reading of SQL for all of them. A table is the list of its
  rows in rowid order; \<open>sql_update p f\<close> is \<open>UPDATE ... SET f WHERE p\<close>, and \<open>affected p\<close> its
  \<open>RowsAffected\<close>. A table with a primary key the statements always name is a map. NULL is None; a
  comparison with NULL is false. The clock is an argument of each statement.
\<close>

lemmas step_status_defs = StepStatusPending_def StepStatusRunning_def StepStatusAwaitingApproval_def
  StepStatusFixing_def StepStatusFixReview_def StepStatusCompleted_def StepStatusSkipped_def StepStatusFailed_def

section \<open>Rows\<close>

record ShippingOptions =
  so_Mode :: string
  so_Draft :: "bool option"
  so_TargetBranch :: string
  so_TargetSHA :: string

definition ShippingFull :: string where "ShippingFull = ''full''"
definition ShippingImmutableSource :: string where "ShippingImmutableSource = ''immutable-source''"

text \<open>None is success. \<open>Matches\<close> asks whether the options of a run satisfy a request.\<close>

definition ShippingOptions_Validate :: "ShippingOptions option \<Rightarrow> bool" where
  "ShippingOptions_Validate s \<longleftrightarrow>
     (case s of None \<Rightarrow> True | Some o' \<Rightarrow> so_Mode o' = ShippingFull \<or> so_Mode o' = ShippingImmutableSource)"

definition ShippingOptions_Matches :: "ShippingOptions option \<Rightarrow> ShippingOptions option \<Rightarrow> bool" where
  "ShippingOptions_Matches s request \<longleftrightarrow>
     (case request of
        None \<Rightarrow> True
      | Some q \<Rightarrow>
          (case s of
             None \<Rightarrow> False
           | Some o' \<Rightarrow> so_Mode o' = so_Mode q \<and> (so_Draft q = None \<or> so_Draft o' = so_Draft q)))"

record Run =
  rn_ID :: string
  rn_RepoID :: string
  rn_Branch :: string
  rn_HeadSHA :: string
  rn_Status :: RunStatus
  rn_Shipping :: "ShippingOptions option"
  rn_ReviewApprovedHeadSHA :: "string option"
  rn_PRURL :: "string option"
  rn_PRState :: "string option"
  rn_PRStateObservedAt :: "int option"
  rn_CIReadyAt :: "int option"
  rn_CIReadyNoCI :: bool
  rn_LastPushedSHA :: "string option"
  rn_PushTargetKind :: "string option"
  rn_PushTargetFingerprint :: "string option"
  rn_PushRef :: "string option"
  rn_LastPushedAt :: "int option"
  rn_PushGeneration :: "int option"
  rn_PushActive :: bool
  rn_TerminalHeadVerifiedAt :: "int option"
  rn_CustodyReturnedAt :: "int option"
  rn_Error :: "string option"
  rn_AwaitingAgentSince :: "int option"
  rn_ParkedMS :: int
  rn_PendingTargetRewindID :: "string option"
  rn_EndingEvent :: "string option"
  rn_queued_at :: "int option"
  rn_queue_spec :: "string option"
  rn_ci_test_restart_pending :: bool
  rn_CreatedAt :: int
  rn_UpdatedAt :: int
  rn_SubmittedHeadSHA :: "string option"
  rn_ExternalCIOwner :: string
  rn_TargetAdvanceRewinds :: int
  rn_RetargetAttempted :: "bool option"
  rn_LeftoverCommits :: int

record ReviewComparison =
  rc_SourceRepo :: string
  rc_SourceBranch :: string
  rc_TargetBranch :: string
  rc_TargetSHA :: string
  rc_HeadSHA :: string
  rc_MergeBaseSHA :: string
  rc_DiffDigest :: string
  rc_Generation :: int
  rc_Approved :: bool

text \<open>\<open>status_validation_steps\<close>, \<open>controlled_shutdown_runs\<close>, \<open>document_passes\<close>, \<open>run_pr_contexts\<close>.\<close>

record StepProof =
  pf_head_sha :: string
  pf_epoch :: int
  pf_config_digest :: string

record ShutdownBinding =
  sh_Instance :: string
  sh_Lifecycle :: string
  sh_Reason :: string

record DocumentPass =
  dp_run_id :: string
  dp_from_head_sha :: string
  dp_to_head_sha :: "string option"
  dp_commit_count :: int
  dp_carried_review_from :: "string option"

record PRContextRow =
  pc_pr_url :: "string option"
  pc_source_repo :: "string option"
  pc_source_branch :: "string option"
  pc_forge_head_sha :: "string option"
  pc_local_head_sha :: string
  pc_target_branch :: string
  pc_target_sha :: string
  pc_merge_base_sha :: string
  pc_diff_digest :: string
  pc_observed_at :: int
  pc_generation :: int
  pc_ci_qualified :: bool
  pc_retained_target_sha :: "string option"

text \<open>\<open>run_target_rewinds\<close> and \<open>target_rewind_history\<close>, whose JSON columns are kept as the rows they encode.\<close>

record TargetAdvanceRewind =
  tw_ID :: string
  tw_RunID :: string
  tw_OldTargetSHA :: string
  tw_TargetSHA :: string
  tw_LocalHeadSHA :: string
  tw_SourceSHA :: "string option"
  tw_ForgeHeadSHA :: "string option"
  tw_Step :: StepName
  tw_Generation :: int
  tw_At :: int

record TargetRewindHistory =
  th_RewindID :: string
  th_Comparison :: PRContextRow
  th_ReviewHeadSHA :: "string option"
  th_Steps :: "StepResult list"
  th_Rounds :: "StepRound list"
  th_Boundary :: "(string \<times> string) option"

text \<open>\<open>CommitStatusPublication\<close> with the key and the retired flag of its row, and an attempt.\<close>

record CommitStatusPublication =
  cp_SHA :: string
  cp_Host :: string
  cp_Repo :: string
  cp_LastState :: string
  cp_Validated :: bool
  cp_CIEligible :: bool
  cp_AdoptedOnly :: bool
  cp_StrictCertificate :: "string option"
  cp_PreserveSuccess :: "bool option"

record PublicationRow =
  pr_run_id :: string
  pr_pub :: CommitStatusPublication
  pr_retired :: bool

record AttemptRow =
  ca_pub :: CommitStatusPublication
  ca_Target :: string
  ca_Ref :: string
  ca_retired :: bool

record PipelineHead =
  ph_RunID :: string
  ph_HeadSHA :: string
  ph_ParentSHA :: string

record tables =
  tb_runs :: "Run list"
  tb_steps :: "StepResult list"
  tb_rounds :: "StepRound list"
  tb_comparisons :: "string \<rightharpoonup> ReviewComparison"
  tb_epochs :: "string \<rightharpoonup> int"
  tb_proofs :: "string \<rightharpoonup> StepProof"
  tb_publications :: "PublicationRow list"
  tb_attempts :: "string \<rightharpoonup> AttemptRow"
  tb_shutdowns :: "string \<rightharpoonup> ShutdownBinding"
  tb_documents :: "DocumentPass list"
  tb_prContexts :: "string \<rightharpoonup> PRContextRow"
  tb_repos :: "string \<rightharpoonup> (string \<times> string option)"
  tb_rewinds :: "TargetAdvanceRewind list"
  tb_rewind_history :: "TargetRewindHistory list"
  tb_observations :: "string \<rightharpoonup> (string \<times> string)"
  tb_pipeline_heads :: "PipelineHead list"

section \<open>Statements\<close>

definition sql_update :: "('r \<Rightarrow> bool) \<Rightarrow> ('r \<Rightarrow> 'r) \<Rightarrow> 'r list \<Rightarrow> 'r list" where
  "sql_update p f rows = map (\<lambda>r. if p r then f r else r) rows"

definition affected :: "('r \<Rightarrow> bool) \<Rightarrow> 'r list \<Rightarrow> nat" where
  "affected p rows = length (filter p rows)"

definition sql_first :: "('r \<Rightarrow> bool) \<Rightarrow> 'r list \<Rightarrow> 'r option" where
  "sql_first p rows = List.find p rows"

lemma sql_update_Nil [simp]: "sql_update p f [] = []"
  by (simp add: sql_update_def)

lemma sql_update_Cons [simp]:
  "sql_update p f (r # rows) = (if p r then f r else r) # sql_update p f rows"
  by (simp add: sql_update_def)

lemma length_sql_update [simp]: "length (sql_update p f rows) = length rows"
  by (simp add: sql_update_def)

lemma sql_update_none: "affected p rows = 0 \<Longrightarrow> sql_update p f rows = rows"
  by (induction rows) (auto simp: affected_def split: if_splits)

lemma map_sql_update: "(\<And>r. p r \<Longrightarrow> g (f r) = g r) \<Longrightarrow> map g (sql_update p f rows) = map g rows"
  by (induction rows) auto

lemma in_sql_update: "x \<in> set (sql_update p f rows) \<longleftrightarrow> (\<exists>r \<in> set rows. x = (if p r then f r else r))"
  by (auto simp: sql_update_def)

lemma sql_updateE:
  assumes "x \<in> set (sql_update p f rows)"
  obtains (changed) r where "r \<in> set rows" "p r" "x = f r" | (kept) "x \<in> set rows" "\<not> p x"
  using assms by (auto simp: in_sql_update split: if_splits)

lemma sql_first_Some: "sql_first p rows = Some r \<Longrightarrow> r \<in> set rows \<and> p r"
  by (auto simp: sql_first_def find_Some_iff)

lemma sql_first_None: "sql_first p rows = None \<longleftrightarrow> (\<forall>r \<in> set rows. \<not> p r)"
  by (auto simp: sql_first_def find_None_iff)

lemma affected_pos: "affected p rows > 0 \<longleftrightarrow> (\<exists>r \<in> set rows. p r)"
  by (auto simp: affected_def filter_empty_conv)

lemma filter_sql_update_kept:
  "(\<And>r. p r \<Longrightarrow> q (f r) = q r) \<Longrightarrow> (\<And>r. p r \<Longrightarrow> \<not> q r) \<Longrightarrow> filter q (sql_update p f rows) = filter q rows"
  by (induction rows) auto

lemma affected_gone: "(\<And>r. \<not> p (f r)) \<Longrightarrow> affected p (sql_update p f rows) = 0"
  by (induction rows) (simp_all add: affected_def)

text \<open>Rows with a primary key.\<close>

definition keyed :: "('r \<Rightarrow> 'k) \<Rightarrow> 'r list \<Rightarrow> bool" where
  "keyed k rows \<longleftrightarrow> distinct (map k rows)"

lemma keyed_sql_update: "keyed k rows \<Longrightarrow> (\<And>r. p r \<Longrightarrow> k (f r) = k r) \<Longrightarrow> keyed k (sql_update p f rows)"
  by (simp add: keyed_def map_sql_update)

lemma keyed_unique: "keyed k rows \<Longrightarrow> r \<in> set rows \<Longrightarrow> s \<in> set rows \<Longrightarrow> k r = k s \<Longrightarrow> r = s"
  by (auto simp: keyed_def distinct_map inj_on_def)

lemma affected_key_le: "keyed k rows \<Longrightarrow> (\<And>r. p r \<Longrightarrow> k r = i) \<Longrightarrow> affected p rows \<le> 1"
proof (induction rows)
  case (Cons a rows)
  have tail: "affected p rows \<le> 1" using Cons by (simp add: keyed_def)
  show ?case
  proof (cases "p a")
    case True
    then have "\<forall>r \<in> set rows. \<not> p r" using Cons.prems by (force simp: keyed_def)
    then show ?thesis using True by (simp add: affected_def)
  qed (use tail in \<open>simp add: affected_def\<close>)
qed (simp add: affected_def)

lemma sql_first_keyed:
  "keyed k rows \<Longrightarrow> r \<in> set rows \<Longrightarrow> sql_first (\<lambda>x. k x = k r) rows = Some r"
  by (cases "sql_first (\<lambda>x. k x = k r) rows")
    (auto simp: sql_first_None dest: sql_first_Some keyed_unique)

text \<open>Lookup and update by key.\<close>

lemma sql_first_update_key:
  "(\<And>r. k (f r) = k r) \<Longrightarrow> sql_first (\<lambda>r. k r = i) (sql_update (\<lambda>r. k r = j \<and> q r) f rows) =
     map_option (\<lambda>r. if i = j \<and> q r then f r else r) (sql_first (\<lambda>r. k r = i) rows)"
  by (induction rows) (auto simp: sql_first_def)

lemma sql_first_update_id:
  "(\<And>r. k (f r) = k r) \<Longrightarrow> sql_first (\<lambda>r. k r = i) (sql_update (\<lambda>r. k r = j) f rows) =
     map_option (\<lambda>r. if i = j then f r else r) (sql_first (\<lambda>r. k r = i) rows)"
  using sql_first_update_key [of k f i j "\<lambda>_. True" rows] by simp

lemma affected_keyed:
  assumes "keyed k rows"
  shows "affected (\<lambda>r. k r = j \<and> q r) rows = (case sql_first (\<lambda>r. k r = j) rows of None \<Rightarrow> 0 | Some r \<Rightarrow> of_bool (q r))"
  using assms
proof (induction rows)
  case (Cons a rows)
  show ?case
  proof (cases "k a = j")
    case True
    have "j \<notin> k ` set rows" using True Cons.prems by (auto simp: keyed_def)
    then have "k r \<noteq> j" if "r \<in> set rows" for r using that by blast
    then have "filter (\<lambda>r. k r = j \<and> q r) rows = []" by (auto simp: filter_empty_conv)
    then show ?thesis using True by (simp add: affected_def sql_first_def)
  next
    case False
    then show ?thesis using Cons by (simp add: affected_def sql_first_def keyed_def)
  qed
qed (simp add: affected_def sql_first_def)

lemma affected_id:
  "keyed k rows \<Longrightarrow> affected (\<lambda>r. k r = j) rows = (case sql_first (\<lambda>r. k r = j) rows of None \<Rightarrow> 0 | Some r \<Rightarrow> 1)"
  using affected_keyed [of k rows j "\<lambda>_. True"] by (simp split: option.splits)

text \<open>The row with a given identifier, as \<open>GetRun\<close> and \<open>GetStepResult\<close> read it.\<close>

definition GetRun :: "string \<Rightarrow> tables \<Rightarrow> Run option" where
  "GetRun i db = sql_first (\<lambda>r. rn_ID r = i) (tb_runs db)"

definition GetStepResult :: "string \<Rightarrow> tables \<Rightarrow> StepResult option" where
  "GetStepResult i db = sql_first (\<lambda>r. sp_ID r = i) (tb_steps db)"

definition zero_run :: Run where
  "zero_run = \<lparr> rn_ID = [], rn_RepoID = [], rn_Branch = [], rn_HeadSHA = [], rn_Status = [], rn_Shipping = None,
     rn_ReviewApprovedHeadSHA = None, rn_PRURL = None, rn_PRState = None, rn_PRStateObservedAt = None,
     rn_CIReadyAt = None, rn_CIReadyNoCI = False, rn_LastPushedSHA = None, rn_PushTargetKind = None,
     rn_PushTargetFingerprint = None, rn_PushRef = None, rn_LastPushedAt = None, rn_PushGeneration = None,
     rn_PushActive = False, rn_TerminalHeadVerifiedAt = None, rn_CustodyReturnedAt = None, rn_Error = None,
     rn_AwaitingAgentSince = None, rn_ParkedMS = 0, rn_PendingTargetRewindID = None, rn_EndingEvent = None,
     rn_queued_at = None, rn_queue_spec = None, rn_ci_test_restart_pending = False, rn_CreatedAt = 0, rn_UpdatedAt = 0,
     rn_SubmittedHeadSHA = None, rn_ExternalCIOwner = [], rn_TargetAdvanceRewinds = 0, rn_RetargetAttempted = None, rn_LeftoverCommits = 0 \<rparr>"

definition no_tables :: tables where
  "no_tables = \<lparr> tb_runs = [], tb_steps = [], tb_rounds = [], tb_comparisons = Map.empty, tb_epochs = Map.empty,
     tb_proofs = Map.empty, tb_publications = [], tb_attempts = Map.empty, tb_shutdowns = Map.empty,
     tb_documents = [], tb_prContexts = Map.empty, tb_repos = Map.empty,
     tb_rewinds = [], tb_rewind_history = [], tb_observations = Map.empty, tb_pipeline_heads = [] \<rparr>"

text \<open>Identifiers are keys of the runs and of the steps.\<close>

definition tables_ok :: "tables \<Rightarrow> bool" where
  "tables_ok db \<longleftrightarrow> keyed rn_ID (tb_runs db) \<and> keyed sp_ID (tb_steps db)"

text \<open>The trigger \<open>clear_terminal_target_rewind\<close> after an update of the status of a run.\<close>

definition with_status :: "RunStatus \<Rightarrow> Run \<Rightarrow> Run" where
  "with_status s r = r\<lparr>rn_Status := s, rn_PendingTargetRewindID :=
     (if s \<in> {RunPending, RunRunning, RunQueued} then rn_PendingTargetRewindID r else None)\<rparr>"

lemma with_status_simps [simp]:
  "rn_Status (with_status s r) = s" "rn_ID (with_status s r) = rn_ID r"
  "rn_RepoID (with_status s r) = rn_RepoID r" "rn_Branch (with_status s r) = rn_Branch r"
  "rn_HeadSHA (with_status s r) = rn_HeadSHA r" "rn_PRState (with_status s r) = rn_PRState r"
  "rn_queued_at (with_status s r) = rn_queued_at r" "rn_ParkedMS (with_status s r) = rn_ParkedMS r"
  "rn_ReviewApprovedHeadSHA (with_status s r) = rn_ReviewApprovedHeadSHA r"
  "rn_LastPushedSHA (with_status s r) = rn_LastPushedSHA r"
  "rn_PushGeneration (with_status s r) = rn_PushGeneration r"
  "rn_AwaitingAgentSince (with_status s r) = rn_AwaitingAgentSince r"
  by (simp_all add: with_status_def)

abbreviation "runs_update p f db \<equiv> db\<lparr>tb_runs := sql_update p f (tb_runs db)\<rparr>"
abbreviation "steps_update p f db \<equiv> db\<lparr>tb_steps := sql_update p f (tb_steps db)\<rparr>"

end
