(* ===== verification/StepRows.thy ===== *)
theory StepRows
  imports Tables "HOL-Library.Product_Lexorder"
begin

text \<open>
  The statements on the rows of steps and rounds, from \<open>internal/db/step.go\<close>, \<open>round.go\<close>,
  \<open>round_decisions.go\<close>, \<open>shipping.go\<close>, \<open>terminal_steps.go\<close> and the invalidation of
  \<open>status_validation.go\<close>. None, or Inl, is an error of the code and leaves the tables as they were;
  the statements of the gate protocol refine the critical sections of \<open>GateProtocol\<close>.
\<close>

section \<open>Execution proof\<close>

definition StatusValidationEpoch :: "string \<Rightarrow> tables \<Rightarrow> int" where
  "StatusValidationEpoch run db = (case tb_epochs db run of None \<Rightarrow> 0 | Some e \<Rightarrow> e)"

definition steps_of :: "string \<Rightarrow> tables \<Rightarrow> string set" where
  "steps_of run db = sp_ID ` {r \<in> set (tb_steps db). sp_RunID r = run}"

definition without_proof :: "PublicationRow \<Rightarrow> PublicationRow" where
  "without_proof p = p\<lparr>pr_pub := (pr_pub p)\<lparr>cp_StrictCertificate := None, cp_PreserveSuccess := None\<rparr>\<rparr>"

definition invalidateStatusValidation :: "string \<Rightarrow> tables \<Rightarrow> tables" where
  "invalidateStatusValidation run db =
     db\<lparr>tb_epochs := (tb_epochs db)(run \<mapsto> (case tb_epochs db run of None \<Rightarrow> 1 | Some e \<Rightarrow> e + 1)),
        tb_publications := sql_update (\<lambda>p. pr_run_id p = run) without_proof (tb_publications db),
        tb_proofs := (\<lambda>i. if i \<in> steps_of run db then None else tb_proofs db i)\<rparr>"

definition RecordStatusValidationStep :: "string \<Rightarrow> string \<Rightarrow> string \<Rightarrow> string \<Rightarrow> int \<Rightarrow> tables \<Rightarrow> tables" where
  "RecordStatusValidationStep stepID run head configDigest epoch db =
     (if \<exists>r \<in> set (tb_steps db). sp_ID r = stepID \<and> sp_RunID r = run \<and> sp_Status r = StepStatusCompleted \<and>
           StatusValidationEpoch run db = epoch
      then db\<lparr>tb_proofs := (tb_proofs db)(stepID \<mapsto>
             \<lparr> pf_head_sha = head, pf_epoch = epoch, pf_config_digest = configDigest \<rparr>)\<rparr>
      else db)"

section \<open>Steps\<close>

definition InsertStepResult :: "string \<Rightarrow> string \<Rightarrow> StepName \<Rightarrow> tables \<Rightarrow> tables" where
  "InsertStepResult newID run step db =
     db\<lparr>tb_steps := tb_steps db @ [zero_step\<lparr>sp_ID := newID, sp_RunID := run, sp_StepName := step,
          sp_StepOrder := int (Order step), sp_Status := StepStatusPending\<rparr>]\<rparr>"

definition GetStepsByRun :: "string \<Rightarrow> tables \<Rightarrow> StepResult list" where
  "GetStepsByRun run db =
     sort_key (\<lambda>r. (sp_StepOrder r, sp_ID r)) (filter (\<lambda>r. sp_RunID r = run) (tb_steps db))"

definition status_activity :: "StepStatus \<Rightarrow> string" where
  "status_activity s = ''status: '' @ s"

definition reset_step :: "StepResult \<Rightarrow> StepResult" where
  "reset_step r = r\<lparr>sp_Status := StepStatusPending, sp_ExitCode := None, sp_DurationMS := None, sp_LogPath := None,
     sp_FindingsJSON := None, sp_Error := None, sp_StartedAt := None, sp_RoundStartedAt := None,
     sp_CompletedAt := None, sp_LastActivityAt := None, sp_LastActivity := None, sp_AgentPID := None,
     sp_AutoFixLimit := None, sp_OverrideReason := None, sp_ApprovalReason := None, sp_AcceptedGapsJSON := None\<rparr>"

text \<open>\<open>ResetStepsFrom\<close>, with the clearing of a strict run's readiness.\<close>

definition clear_strict_ready :: "string \<Rightarrow> tables \<Rightarrow> tables" where
  "clear_strict_ready run db =
     runs_update (\<lambda>r. rn_ID r = run \<and> rn_Shipping r \<noteq> None) (\<lambda>r. r\<lparr>rn_CIReadyAt := None, rn_CIReadyNoCI := False\<rparr>) db"

definition ResetStepsFrom :: "string \<Rightarrow> int \<Rightarrow> tables \<Rightarrow> tables" where
  "ResetStepsFrom run stepOrder db =
     (let db1 = (if stepOrder \<le> int (Order StepLint) then invalidateStatusValidation run db else db);
          db2 = (if stepOrder \<le> int (Order StepReview)
                 then clear_strict_ready run (db1\<lparr>tb_comparisons := (tb_comparisons db1)(run :=
                        map_option (\<lambda>c. c\<lparr>rc_Approved := False\<rparr>) (tb_comparisons db1 run))\<rparr>)
                 else db1) in
      steps_update (\<lambda>r. sp_RunID r = run \<and> sp_StepOrder r \<ge> stepOrder \<and> sp_Status r \<noteq> StepStatusSkipped) reset_step db2)"

definition UpdateStepStatus :: "int \<Rightarrow> string \<Rightarrow> StepStatus \<Rightarrow> tables \<Rightarrow> tables" where
  "UpdateStepStatus ts i status db = steps_update (\<lambda>r. sp_ID r = i) (\<lambda>r. r\<lparr>sp_Status := status,
     sp_LastActivityAt := Some ts, sp_LastActivity := Some (status_activity status)\<rparr>) db"

definition UpdateStepStatusWithDuration :: "int \<Rightarrow> string \<Rightarrow> StepStatus \<Rightarrow> int \<Rightarrow> tables \<Rightarrow> tables" where
  "UpdateStepStatusWithDuration ts i status ms db = steps_update (\<lambda>r. sp_ID r = i) (\<lambda>r. r\<lparr>sp_Status := status,
     sp_DurationMS := Some ms, sp_LastActivityAt := Some ts, sp_LastActivity := Some (status_activity status)\<rparr>) db"

definition autoFixLimitDBValue :: "int \<Rightarrow> int option" where
  "autoFixLimitDBValue limit = (if limit \<le> 0 then None else Some limit)"

definition StartStepWithAutoFixLimit :: "int \<Rightarrow> string \<Rightarrow> int \<Rightarrow> tables \<Rightarrow> tables" where
  "StartStepWithAutoFixLimit ts i limit db = steps_update (\<lambda>r. sp_ID r = i) (\<lambda>r. r\<lparr>sp_Status := StepStatusRunning,
     sp_StartedAt := Some ts, sp_RoundStartedAt := Some ts, sp_LastActivityAt := Some ts,
     sp_LastActivity := Some ''step started'', sp_AgentPID := None, sp_AutoFixLimit := autoFixLimitDBValue limit\<rparr>) db"

definition StartStepFixRound :: "int \<Rightarrow> string \<Rightarrow> int \<Rightarrow> tables \<Rightarrow> tables option" where
  "StartStepFixRound ts i limit db =
     (case GetStepResult i db of
        None \<Rightarrow> None
      | Some row \<Rightarrow> Some (steps_update (\<lambda>r. sp_ID r = i) (\<lambda>r. r\<lparr>sp_Status := StepStatusFixing,
          sp_RoundStartedAt := Some ts, sp_LastActivityAt := Some ts,
          sp_LastActivity := Some (status_activity StepStatusFixing), sp_AutoFixLimit := autoFixLimitDBValue limit,
          sp_OverrideReason := None, sp_ApprovalReason := None, sp_AcceptedGapsJSON := None\<rparr>)
          (invalidateStatusValidation (sp_RunID row) db)))"

definition SetStepAutoFixLimit :: "string \<Rightarrow> int \<Rightarrow> tables \<Rightarrow> tables" where
  "SetStepAutoFixLimit i limit db =
     steps_update (\<lambda>r. sp_ID r = i) (\<lambda>r. r\<lparr>sp_AutoFixLimit := autoFixLimitDBValue limit\<rparr>) db"

definition SetStepOverrideReason :: "string \<Rightarrow> string \<Rightarrow> tables \<Rightarrow> tables option" where
  "SetStepOverrideReason i reason db =
     (if reason = [] then None
      else Some (steps_update (\<lambda>r. sp_ID r = i) (\<lambda>r. r\<lparr>sp_OverrideReason := Some reason\<rparr>) db))"

text \<open>\<open>SetTestApprovalReason\<close>; the update of more or fewer than one row is an error after the write.\<close>

definition SetTestApprovalReason :: "string \<Rightarrow> string \<Rightarrow> tables \<Rightarrow> bool \<times> tables" where
  "SetTestApprovalReason i reason db =
     (let p = (\<lambda>r. sp_ID r = i \<and> sp_StepName r = StepTest \<and>
                 sp_Status r \<in> {StepStatusAwaitingApproval, StepStatusFixReview, StepStatusRunning}) in
      (affected p (tb_steps db) = 1, steps_update p (\<lambda>r. r\<lparr>sp_ApprovalReason := Some reason\<rparr>) db))"

definition completeStep ::
  "int \<Rightarrow> string \<Rightarrow> StepStatus \<Rightarrow> int \<Rightarrow> int \<Rightarrow> string \<Rightarrow> string \<Rightarrow> tables \<Rightarrow> tables" where
  "completeStep ts i status exitCode ms logPath skipReason db =
     (let keep = (\<lambda>v. if status = StepStatusSkipped then None else v) in
      steps_update (\<lambda>r. sp_ID r = i) (\<lambda>r. r\<lparr>sp_Status := status, sp_ExitCode := Some exitCode,
        sp_DurationMS := Some ms, sp_LogPath := Some logPath, sp_CompletedAt := Some ts, sp_LastActivityAt := Some ts,
        sp_LastActivity := Some (status_activity status), sp_AgentPID := None,
        sp_SkipReason := (if skipReason = [] then None else Some skipReason),
        sp_OverrideReason := keep (sp_OverrideReason r), sp_ApprovalReason := keep (sp_ApprovalReason r),
        sp_AcceptedGapsJSON := keep (sp_AcceptedGapsJSON r)\<rparr>) db)"

definition CompleteStepWithStatus ::
  "int \<Rightarrow> string \<Rightarrow> StepStatus \<Rightarrow> int \<Rightarrow> int \<Rightarrow> string \<Rightarrow> tables \<Rightarrow> tables" where
  "CompleteStepWithStatus ts i status exitCode ms logPath db = completeStep ts i status exitCode ms logPath [] db"

definition CompleteSkippedStep :: "int \<Rightarrow> string \<Rightarrow> int \<Rightarrow> int \<Rightarrow> string \<Rightarrow> string \<Rightarrow> tables \<Rightarrow> tables" where
  "CompleteSkippedStep ts i exitCode ms logPath reason db =
     completeStep ts i StepStatusSkipped exitCode ms logPath reason db"

datatype review_error = ReviewRunMissing | GenerationMissing | ComparisonMissing | ReviewStepMissing

definition CompleteReviewStep ::
  "int \<Rightarrow> string \<Rightarrow> string \<Rightarrow> string \<Rightarrow> int \<Rightarrow> int \<Rightarrow> string \<Rightarrow> int list \<Rightarrow> tables \<Rightarrow> review_error + tables" where
  "CompleteReviewStep ts i run approvedHead exitCode ms logPath generation db =
     (case GetRun run db of
        None \<Rightarrow> Inl ReviewRunMissing
      | Some r \<Rightarrow>
          let strict = (rn_Shipping r \<noteq> None);
              c = tb_comparisons db run;
              p = (\<lambda>s. sp_ID s = i \<and> sp_RunID s = run) in
          if strict \<and> (length generation \<noteq> 1 \<or> hd generation < 1) then Inl GenerationMissing
          else if strict \<and> \<not> (case c of None \<Rightarrow> False
                                | Some c \<Rightarrow> rc_HeadSHA c = approvedHead \<and> rc_Generation c = hd generation)
          then Inl ComparisonMissing
          else if affected p (tb_steps db) \<noteq> 1 then Inl ReviewStepMissing
          else Inr (runs_update (\<lambda>r. rn_ID r = run)
                 (\<lambda>r. r\<lparr>rn_ReviewApprovedHeadSHA := Some approvedHead, rn_UpdatedAt := ts\<rparr>)
                 (steps_update p (\<lambda>s. s\<lparr>sp_Status := StepStatusCompleted, sp_ExitCode := Some exitCode,
                    sp_DurationMS := Some ms, sp_LogPath := Some logPath, sp_CompletedAt := Some ts,
                    sp_LastActivityAt := Some ts, sp_LastActivity := Some (status_activity StepStatusCompleted),
                    sp_AgentPID := None\<rparr>)
                   (if strict then db\<lparr>tb_comparisons := (tb_comparisons db)(run :=
                      map_option (\<lambda>c. c\<lparr>rc_Approved := True\<rparr>) c)\<rparr> else db))))"

definition FailStep_sql :: "int \<Rightarrow> string \<Rightarrow> string \<Rightarrow> int \<Rightarrow> tables \<Rightarrow> tables" where
  "FailStep_sql ts i msg ms db = steps_update (\<lambda>r. sp_ID r = i) (\<lambda>r. r\<lparr>sp_Status := StepStatusFailed,
     sp_Error := Some msg, sp_DurationMS := Some ms, sp_CompletedAt := Some ts, sp_LastActivityAt := Some ts,
     sp_LastActivity := Some (''step failed: '' @ msg), sp_AgentPID := None, sp_PendingResponse := None\<rparr>) db"

definition SetStepAgentActivity :: "int \<Rightarrow> string \<Rightarrow> string \<Rightarrow> int option \<Rightarrow> tables \<Rightarrow> tables" where
  "SetStepAgentActivity ts i text' pid db = steps_update (\<lambda>r. sp_ID r = i)
     (\<lambda>r. r\<lparr>sp_LastActivityAt := Some ts, sp_LastActivity := Some text', sp_AgentPID := pid\<rparr>) db"

definition TouchStepActivity :: "int \<Rightarrow> string \<Rightarrow> string \<Rightarrow> tables \<Rightarrow> tables" where
  "TouchStepActivity ts i text' db = steps_update (\<lambda>r. sp_ID r = i)
     (\<lambda>r. r\<lparr>sp_LastActivityAt := Some ts, sp_LastActivity := Some text'\<rparr>) db"

definition SetStepDuration :: "string \<Rightarrow> int \<Rightarrow> tables \<Rightarrow> tables" where
  "SetStepDuration i ms db = steps_update (\<lambda>r. sp_ID r = i) (\<lambda>r. r\<lparr>sp_DurationMS := Some ms\<rparr>) db"

definition SetStepFindings :: "string \<Rightarrow> string \<Rightarrow> tables \<Rightarrow> tables" where
  "SetStepFindings i raw db = steps_update (\<lambda>r. sp_ID r = i) (\<lambda>r. r\<lparr>sp_FindingsJSON := Some raw\<rparr>) db"

definition ClearStepFindings :: "string \<Rightarrow> tables \<Rightarrow> tables" where
  "ClearStepFindings i db = steps_update (\<lambda>r. sp_ID r = i) (\<lambda>r. r\<lparr>sp_FindingsJSON := None\<rparr>) db"

section \<open>Rounds\<close>

definition insertStepRound :: "StepRound \<Rightarrow> tables \<Rightarrow> tables" where
  "insertStepRound r db = db\<lparr>tb_rounds := tb_rounds db @ [r]\<rparr>"

text \<open>The rows the insertions build; an empty string of a review round is stored as NULL.\<close>

definition new_round ::
  "int \<Rightarrow> string \<Rightarrow> string \<Rightarrow> int \<Rightarrow> string \<Rightarrow> string option \<Rightarrow> string option \<Rightarrow> int \<Rightarrow> bool option \<Rightarrow> StepRound" where
  "new_round ts newID stepResultID n trigger findings fixSummary ms fixApplied =
     zero_round\<lparr>sr_ID := newID, sr_StepResultID := stepResultID, sr_Round := n, sr_Trigger := trigger,
       sr_FindingsJSON := findings, sr_FixSummary := fixSummary, sr_FixApplied := fixApplied,
       sr_DurationMS := ms, sr_CreatedAt := ts\<rparr>"

definition nonempty :: "string \<Rightarrow> string option" where
  "nonempty s = (if s = [] then None else Some s)"

definition InsertStepRoundWithRepair ::
  "int \<Rightarrow> string \<Rightarrow> string \<Rightarrow> int \<Rightarrow> string \<Rightarrow> string option \<Rightarrow> string option \<Rightarrow> bool \<Rightarrow> int \<Rightarrow> bool option \<Rightarrow> tables \<Rightarrow> tables" where
  "InsertStepRoundWithRepair ts newID stepResultID n trigger findings fixSummary repairPublished ms fixApplied db =
     insertStepRound ((new_round ts newID stepResultID n trigger findings fixSummary ms fixApplied)
       \<lparr>sr_RepairPublished := repairPublished\<rparr>) db"

definition InsertReviewStepRoundWithProvenance ::
  "int \<Rightarrow> string \<Rightarrow> string \<Rightarrow> int \<Rightarrow> string \<Rightarrow> string option \<Rightarrow> string option \<Rightarrow> string \<Rightarrow> string \<Rightarrow> string \<Rightarrow>
   string \<Rightarrow> string \<Rightarrow> int \<Rightarrow> bool option \<Rightarrow> tables \<Rightarrow> tables" where
  "InsertReviewStepRoundWithProvenance ts newID stepResultID n trigger findings fixSummary reviewedHead startingHead
     trustedConfig globalYAML repoYAML ms fixApplied db =
     insertStepRound ((new_round ts newID stepResultID n trigger findings fixSummary ms fixApplied)
       \<lparr>sr_ReviewedHeadSHA := nonempty reviewedHead, sr_StartingHeadSHA := nonempty startingHead,
        sr_TrustedConfigSHA := nonempty trustedConfig, sr_GlobalConfigYAML := globalYAML,
        sr_RepoConfigYAML := repoYAML\<rparr>) db"

definition InsertReviewStepRound ::
  "int \<Rightarrow> string \<Rightarrow> string \<Rightarrow> int \<Rightarrow> string \<Rightarrow> string option \<Rightarrow> string option \<Rightarrow> string \<Rightarrow> int \<Rightarrow> bool option \<Rightarrow>
   tables \<Rightarrow> tables" where
  "InsertReviewStepRound ts newID stepResultID n trigger findings fixSummary reviewedHead ms fixApplied db =
     InsertReviewStepRoundWithProvenance ts newID stepResultID n trigger findings fixSummary reviewedHead
       [] [] [] [] ms fixApplied db"

definition selection_source :: "string option \<Rightarrow> string \<Rightarrow> string option" where
  "selection_source selected source = (if deref selected \<noteq> [] \<and> source \<noteq> [] then Some source else None)"

definition SetStepRoundSelection :: "string \<Rightarrow> string option \<Rightarrow> string \<Rightarrow> tables \<Rightarrow> tables" where
  "SetStepRoundSelection i selected source db = db\<lparr>tb_rounds := sql_update (\<lambda>r. sr_ID r = i)
     (\<lambda>r. r\<lparr>sr_SelectedFindingIDs := selected, sr_SelectionSource := selection_source selected source\<rparr>) (tb_rounds db)\<rparr>"

definition SetStepRoundUserDecision_sql ::
  "string \<Rightarrow> string option \<Rightarrow> string \<Rightarrow> string option \<Rightarrow> tables \<Rightarrow> tables" where
  "SetStepRoundUserDecision_sql i selected source user db = db\<lparr>tb_rounds := sql_update (\<lambda>r. sr_ID r = i)
     (\<lambda>r. r\<lparr>sr_SelectedFindingIDs := selected, sr_SelectionSource := selection_source selected source,
           sr_UserFindingsJSON := user\<rparr>) (tb_rounds db)\<rparr>"

definition SetStepRoundUserFindings :: "string \<Rightarrow> string option \<Rightarrow> tables \<Rightarrow> tables" where
  "SetStepRoundUserFindings i user db = db\<lparr>tb_rounds := sql_update (\<lambda>r. sr_ID r = i)
     (\<lambda>r. r\<lparr>sr_UserFindingsJSON := user\<rparr>) (tb_rounds db)\<rparr>"

definition SetStepRoundDeclined_sql :: "string \<Rightarrow> tables \<Rightarrow> tables" where
  "SetStepRoundDeclined_sql i db = db\<lparr>tb_rounds := sql_update (\<lambda>r. sr_ID r = i \<and> sr_SelectionSource r = None)
     (\<lambda>r. r\<lparr>sr_SelectedFindingIDs := Some DeclinedSelectionJSON,
           sr_SelectionSource := Some RoundSelectionSourceUserDeclined\<rparr>) (tb_rounds db)\<rparr>"

definition GetRoundsByStep :: "string \<Rightarrow> tables \<Rightarrow> StepRound list" where
  "GetRoundsByStep s db = sort_key sr_Round (filter (\<lambda>r. sr_StepResultID r = s) (tb_rounds db))"

section \<open>The comparison of a strict review\<close>

definition full_sha :: "string \<Rightarrow> bool" where
  "full_sha s \<longleftrightarrow> length s = 40 \<and> list_all (\<lambda>c. c \<in> set ''abcdef0123456789'') s"

definition digest_text :: "string \<Rightarrow> bool" where
  "digest_text s \<longleftrightarrow> length s = 64 \<and> list_all (\<lambda>c. c \<in> set ''abcdef0123456789'') s"

definition CaptureReviewComparison :: "string \<Rightarrow> ReviewComparison \<Rightarrow> tables \<Rightarrow> (ReviewComparison \<times> tables) option" where
  "CaptureReviewComparison run c db =
     (if rc_SourceRepo c = [] \<or> rc_SourceBranch c = [] \<or> rc_TargetBranch c = [] \<or> \<not> full_sha (rc_TargetSHA c) \<or>
         \<not> full_sha (rc_HeadSHA c) \<or> \<not> full_sha (rc_MergeBaseSHA c) \<or> \<not> digest_text (rc_DiffDigest c)
      then None
      else let stored = c\<lparr>rc_Generation := (case tb_comparisons db run of None \<Rightarrow> 1 | Some o' \<Rightarrow> rc_Generation o' + 1),
                         rc_Approved := False\<rparr> in
        Some (stored, clear_strict_ready run (db\<lparr>tb_comparisons := (tb_comparisons db)(run \<mapsto> stored)\<rparr>)))"

section \<open>Closing the steps of an ended run\<close>

definition executing :: "StepStatus \<Rightarrow> bool" where
  "executing s \<longleftrightarrow> s \<in> {StepStatusRunning, StepStatusFixing, StepStatusAwaitingApproval, StepStatusFixReview}"

definition terminalStepInterruptedActivity :: string where
  "terminalStepInterruptedActivity = ''terminal run: interrupted step''"

definition InterruptedByTerminalRun :: "StepResult \<Rightarrow> bool" where
  "InterruptedByTerminalRun s \<longleftrightarrow>
     sp_Status s = StepStatusFailed \<and> sp_LastActivity s = Some terminalStepInterruptedActivity"

definition close_step :: "string \<Rightarrow> int \<Rightarrow> StepResult \<Rightarrow> StepResult" where
  "close_step reason ts s = s\<lparr>sp_Status := StepStatusFailed, sp_Error := Some reason, sp_CompletedAt := Some ts,
     sp_LastActivityAt := Some ts, sp_LastActivity := Some terminalStepInterruptedActivity,
     sp_AgentPID := None, sp_PendingResponse := None\<rparr>"

definition closeExecutingSteps :: "string \<Rightarrow> string \<Rightarrow> int \<Rightarrow> tables \<Rightarrow> tables" where
  "closeExecutingSteps run reason ts db =
     steps_update (\<lambda>s. sp_RunID s = run \<and> executing (sp_Status s)) (close_step reason ts) db"

text \<open>A preserved success keeps the proof of a certified watcher.\<close>

definition preserved_row :: "PublicationRow \<Rightarrow> bool" where
  "preserved_row p \<longleftrightarrow> cp_PreserveSuccess (pr_pub p) = Some True \<and> cp_StrictCertificate (pr_pub p) \<noteq> None \<and>
     cp_LastState (pr_pub p) = ''success''"

definition preserved_success :: "string \<Rightarrow> tables \<Rightarrow> bool" where
  "preserved_success run db \<longleftrightarrow> list_ex (\<lambda>p. pr_run_id p = run \<and> preserved_row p) (tb_publications db)"

definition ended_run :: "string \<Rightarrow> tables \<Rightarrow> bool" where
  "ended_run run db \<longleftrightarrow> list_ex (\<lambda>r. rn_ID r = run \<and> RunStatus_Terminal (rn_Status r)) (tb_runs db)"

definition TerminalExecutingSteps :: "tables \<Rightarrow> StepResult list" where
  "TerminalExecutingSteps db = filter (\<lambda>s. ended_run (sp_RunID s) db \<and> executing (sp_Status s) \<and>
     \<not> preserved_success (sp_RunID s) db) (tb_steps db)"

definition CloseTerminalStep :: "StepResult \<Rightarrow> int \<Rightarrow> tables \<Rightarrow> bool \<times> tables" where
  "CloseTerminalStep seen ts db =
     (let run = sp_RunID seen;
          p = (\<lambda>s. sp_ID s = sp_ID seen \<and> sp_RunID s = run \<and> sp_Status s = sp_Status seen \<and> executing (sp_Status s) \<and>
                 sp_AgentPID s = sp_AgentPID seen \<and> sp_LastActivityAt s = sp_LastActivityAt seen \<and>
                 sp_StartedAt s = sp_StartedAt seen \<and> sp_CompletedAt s = sp_CompletedAt seen \<and>
                 ended_run run db \<and> \<not> preserved_success run db);
          changed = (affected p (tb_steps db) = 1);
          db1 = steps_update p (close_step terminalStepInterruptedActivity ts) db in
      (changed,
       if changed then runs_update (\<lambda>r. rn_ID r = run \<and> \<not> list_ex (\<lambda>s. sp_RunID s = run \<and> sp_StepName s = StepPush \<and>
            sp_Status s \<in> {StepStatusRunning, StepStatusFixing}) (tb_steps db1)) (\<lambda>r. r\<lparr>rn_PushActive := False\<rparr>) db1
       else db1))"

section \<open>The statements of the gate protocol\<close>

definition ParkStepForApproval_sql ::
  "int \<Rightarrow> string \<Rightarrow> string \<Rightarrow> string \<Rightarrow> StepStatus \<Rightarrow> int \<Rightarrow> int \<Rightarrow> string option \<Rightarrow> string option \<Rightarrow> tables \<Rightarrow> tables option" where
  "ParkStepForApproval_sql ts nonce run stepID status exitCode ms findings rnd db =
     (let latest = (case rev (GetRoundsByStep stepID db) of [] \<Rightarrow> None | r # _ \<Rightarrow> Some (sr_ID r)) in
      if affected (\<lambda>s. sp_ID s = stepID) (tb_steps db) \<noteq> 1 \<or> affected (\<lambda>r. rn_ID r = run) (tb_runs db) \<noteq> 1 then None
      else Some (runs_update (\<lambda>r. rn_ID r = run) (\<lambda>r. r\<lparr>rn_AwaitingAgentSince := Some ts, rn_UpdatedAt := ts\<rparr>)
        (steps_update (\<lambda>s. sp_ID s = stepID) (\<lambda>s. s\<lparr>sp_Status := status, sp_ExitCode := Some exitCode,
          sp_DurationMS := Some ms, sp_FindingsJSON := findings, sp_PendingResponse := None, sp_GateNonce := Some nonce,
          sp_GateRoundID := (case rnd of Some r \<Rightarrow> Some r | None \<Rightarrow> latest),
          sp_LastActivityAt := Some ts, sp_LastActivity := Some (status_activity status)\<rparr>) db)))"

definition gate_superseded :: "string \<Rightarrow> tables \<Rightarrow> GateIdentity" where
  "gate_superseded stepID db = (case GetStepResult stepID db of
     None \<Rightarrow> zero_gate\<lparr>g_StepResultID := stepID\<rparr> | Some row \<Rightarrow> StepResult_GateIdentity row)"

definition SetStepPendingResponse_sql ::
  "int \<Rightarrow> string \<Rightarrow> string \<Rightarrow> string \<Rightarrow> GateIdentity \<Rightarrow> tables \<Rightarrow> GateIdentity + tables" where
  "SetStepPendingResponse_sql ts stepID response activity g db =
     (let p = (\<lambda>s. sp_ID s = stepID \<and> parked_status (sp_Status s) \<and> sp_GateNonce s = Some (g_Nonce g) \<and>
                 sp_GateRoundID s = Some (g_RoundID g) \<and> sp_RunID s = g_RunID g \<and> sp_StepName s = g_Step g \<and>
                 sp_ID s = g_StepResultID g \<and> sp_PendingResponse s = None) in
      if \<not> SameGate g g then Inl (gate_superseded stepID db)
      else if affected p (tb_steps db) \<noteq> 1 then Inl (gate_superseded stepID db)
      else Inr (steps_update p (\<lambda>s. s\<lparr>sp_PendingResponse := Some response, sp_LastActivityAt := Some ts,
             sp_LastActivity := Some activity\<rparr>) db))"

definition CompleteRunAwaitingAgent_sql :: "int \<Rightarrow> string \<Rightarrow> int \<Rightarrow> tables \<Rightarrow> tables" where
  "CompleteRunAwaitingAgent_sql ts run ms db = runs_update (\<lambda>r. rn_ID r = run) (\<lambda>r. r\<lparr>rn_AwaitingAgentSince := None,
     rn_ParkedMS := rn_ParkedMS r + (if rn_AwaitingAgentSince r \<noteq> None then (if ms < 0 then 0 else ms) else 0),
     rn_UpdatedAt := ts\<rparr>) db"

definition ResumeStepFromApproval_sql ::
  "int \<Rightarrow> string \<Rightarrow> string \<Rightarrow> string \<Rightarrow> int \<Rightarrow> GateIdentity \<Rightarrow> tables \<Rightarrow> GateIdentity + tables" where
  "ResumeStepFromApproval_sql ts run stepID activity parkedMS g db =
     (let p = (\<lambda>s. sp_ID s = stepID \<and> sp_RunID s = run \<and> sp_GateNonce s = Some (g_Nonce g) \<and>
                 sp_GateRoundID s = Some (g_RoundID g) \<and> sp_RunID s = g_RunID g \<and> sp_StepName s = g_Step g \<and>
                 sp_ID s = g_StepResultID g \<and> parked_status (sp_Status s)) in
      if \<not> SameGate g g then Inl (gate_superseded stepID db)
      else if affected p (tb_steps db) \<noteq> 1 then Inl (gate_superseded stepID db)
      else Inr (CompleteRunAwaitingAgent_sql ts run parkedMS
             (steps_update p (\<lambda>s. s\<lparr>sp_Status := StepStatusRunning, sp_PendingResponse := None,
                sp_LastActivityAt := Some ts, sp_LastActivity := Some activity\<rparr>) db)))"

section \<open>The tables refine the store of the gate protocol\<close>

definition gate_view :: "tables \<Rightarrow> gateStore" where
  "gate_view db = \<lparr>
     gs_steps = (\<lambda>i. GetStepResult i db),
     gs_rounds = (\<lambda>s. GetRoundsByStep s db),
     gs_runs = (\<lambda>i. map_option (\<lambda>r. \<lparr> rk_AwaitingAgentSince = rn_AwaitingAgentSince r, rk_ParkedMS = rn_ParkedMS r \<rparr>)
       (GetRun i db)),
     gs_rewind = (\<lambda>i. case GetRun i db of None \<Rightarrow> False | Some r \<Rightarrow> rn_PendingTargetRewindID r \<noteq> None) \<rparr>"

lemma sort_key_map_inv: "(\<And>x. k (g x) = k x) \<Longrightarrow> sort_key k (map g xs) = map g (sort_key k xs)"
proof (induction xs)
  case (Cons a xs)
  have "insort_key k (g a) (map g ys) = map g (insort_key k a ys)" for ys
    using Cons.prems by (induction ys) simp_all
  then show ?case using Cons by simp
qed simp

lemma rounds_sql_update:
  assumes "\<And>r. sr_StepResultID (f r) = sr_StepResultID r" "\<And>r. sr_Round (f r) = sr_Round r"
  shows "GetRoundsByStep s (db\<lparr>tb_rounds := sql_update p f (tb_rounds db)\<rparr>) =
    map (\<lambda>r. if p r then f r else r) (GetRoundsByStep s db)"
proof -
  let ?g = "\<lambda>r. if p r then f r else r"
  have "filter (\<lambda>r. sr_StepResultID r = s) (map ?g rows) = map ?g (filter (\<lambda>r. sr_StepResultID r = s) rows)" for rows
    using assms by (induction rows) auto
  then show ?thesis using assms by (simp add: GetRoundsByStep_def sql_update_def sort_key_map_inv)
qed

lemmas view_simps = gate_view_def GetStepResult_def GetRun_def GetRoundsByStep_def

lemma gate_view_sel [simp]:
  "gs_steps (gate_view db) i = GetStepResult i db" "gs_rounds (gate_view db) s = GetRoundsByStep s db"
  by (simp_all add: gate_view_def)

lemma GetStepResult_ID: "GetStepResult i db = Some r \<Longrightarrow> sp_ID r = i"
  by (auto simp: GetStepResult_def dest: sql_first_Some)

lemma GetStepResult_update:
  "(\<And>r. sp_ID (f r) = sp_ID r) \<Longrightarrow> GetStepResult j (steps_update (\<lambda>r. sp_ID r = i \<and> q r) f db) =
    map_option (\<lambda>r. if j = i \<and> q r then f r else r) (GetStepResult j db)"
  by (simp add: GetStepResult_def sql_first_update_key)

lemma gate_view_steps:
  "gate_view (db\<lparr>tb_steps := rows\<rparr>) = (gate_view db)\<lparr>gs_steps := \<lambda>i. GetStepResult i (db\<lparr>tb_steps := rows\<rparr>)\<rparr>"
  by (simp add: gate_view_def GetRun_def GetRoundsByStep_def)

lemma step_view:
  assumes f: "\<And>r. sp_ID (f r) = sp_ID r"
  shows "gate_view (steps_update (\<lambda>r. sp_ID r = i \<and> q r) f db) =
    (case GetStepResult i db of None \<Rightarrow> gate_view db
     | Some r \<Rightarrow> if q r then put_step (f r) (gate_view db) else gate_view db)"
proof -
  have all: "gs_steps (gate_view db) = (\<lambda>j. GetStepResult j db)" by (simp add: gate_view_def)
  show ?thesis
  proof (cases "GetStepResult i db")
    case None
    then have "(\<lambda>j. map_option (\<lambda>r. if j = i \<and> q r then f r else r) (GetStepResult j db)) = (\<lambda>j. GetStepResult j db)"
      by (intro ext) (auto split: option.splits simp: map_option_case)
    then show ?thesis using None by (simp add: gate_view_steps GetStepResult_update [OF f] all [symmetric])
  next
    case (Some r)
    then have "(\<lambda>j. map_option (\<lambda>r. if j = i \<and> q r then f r else r) (GetStepResult j db)) =
        (\<lambda>j. GetStepResult j db)(i := Some (if q r then f r else r))"
      by (intro ext) (auto split: option.splits simp: map_option_case)
    moreover have "(\<lambda>j. GetStepResult j db)(i := Some r) = (\<lambda>j. GetStepResult j db)" using Some by auto
    ultimately show ?thesis
      using Some GetStepResult_ID [OF Some] by (simp add: gate_view_steps GetStepResult_update [OF f] all [symmetric] put_step_def f)
  qed
qed

lemma step_view_id:
  "(\<And>r. sp_ID (f r) = sp_ID r) \<Longrightarrow> gate_view (steps_update (\<lambda>r. sp_ID r = i) f db) =
    (case GetStepResult i db of None \<Rightarrow> gate_view db | Some r \<Rightarrow> put_step (f r) (gate_view db))"
  using step_view [of f i "\<lambda>_. True" db] by (simp split: option.splits)

lemma run_view:
  assumes "\<And>r. rn_ID (f r) = rn_ID r" "\<And>r. rn_PendingTargetRewindID (f r) = rn_PendingTargetRewindID r"
  shows "gate_view (runs_update (\<lambda>r. rn_ID r = i) f db) = (gate_view db)\<lparr>gs_runs := (gs_runs (gate_view db))(i :=
    map_option (\<lambda>r. \<lparr> rk_AwaitingAgentSince = rn_AwaitingAgentSince (f r), rk_ParkedMS = rn_ParkedMS (f r) \<rparr>) (GetRun i db))\<rparr>"
  using assms by (auto simp: view_simps sql_first_update_id fun_eq_iff option.map_comp comp_def split: option.splits)

lemma GetRun_steps [simp]: "GetRun i (steps_update p f db) = GetRun i db"
  by (simp add: GetRun_def)

lemma FailStep_view: "gate_view (FailStep_sql ts i msg ms db) = FailStep ts i msg ms (gate_view db)"
  by (simp add: FailStep_sql_def step_view_id FailStep_def split: option.splits)

lemma CompleteRunAwaitingAgent_view:
  "gate_view (CompleteRunAwaitingAgent_sql ts run ms db) = CompleteRunAwaitingAgent run ms (gate_view db)"
  by (simp add: CompleteRunAwaitingAgent_sql_def run_view CompleteRunAwaitingAgent_def)
    (simp add: gate_view_def option.map_comp comp_def)

lemma gate_superseded_view: "gate_superseded i db = gateSupersededError i (gate_view db)"
  by (simp add: gate_superseded_def gateSupersededError_def gate_view_def)

lemma steps_at_gate:
  assumes "tables_ok db"
  shows "affected (\<lambda>s. sp_ID s = i \<and> q s) (tb_steps db) = (case GetStepResult i db of None \<Rightarrow> 0 | Some r \<Rightarrow> of_bool (q r))"
  using assms by (simp add: tables_ok_def affected_keyed GetStepResult_def)

lemma put_step_runs: "gs_runs (put_step r st) = gs_runs st" "gs_rounds (put_step r st) = gs_rounds st"
  by (simp_all add: put_step_def)

lemma runs_affected: "tables_ok db \<Longrightarrow> affected (\<lambda>r. rn_ID r = i) (tb_runs db) = (case GetRun i db of None \<Rightarrow> 0 | Some r \<Rightarrow> 1)"
  by (simp add: tables_ok_def affected_id GetRun_def)

lemma steps_affected: "tables_ok db \<Longrightarrow> affected (\<lambda>s. sp_ID s = i) (tb_steps db) = (case GetStepResult i db of None \<Rightarrow> 0 | Some r \<Rightarrow> 1)"
  by (simp add: tables_ok_def affected_id GetStepResult_def)

lemma gs_runs_view: "gs_runs (gate_view db) i =
    map_option (\<lambda>r. \<lparr> rk_AwaitingAgentSince = rn_AwaitingAgentSince r, rk_ParkedMS = rn_ParkedMS r \<rparr>) (GetRun i db)"
  by (simp add: gate_view_def)

lemma ParkStepForApproval_view:
  assumes "tables_ok db"
  shows "map_option gate_view (ParkStepForApproval_sql ts nonce run i status code ms findings rnd db) =
    ParkStepForApproval ts nonce run i status code ms findings rnd (gate_view db)"
proof (cases "GetStepResult i db = None \<or> GetRun run db = None")
  case True
  then show ?thesis using assms
    by (auto simp: ParkStepForApproval_sql_def ParkStepForApproval_def runs_affected steps_affected gs_runs_view split: option.splits)
next
  case False
  then obtain row r where rows: "GetStepResult i db = Some row" "GetRun run db = Some r" by auto
  define f :: "StepResult \<Rightarrow> StepResult" where "f = (\<lambda>s. s\<lparr>sp_Status := status, sp_ExitCode := Some code, sp_DurationMS := Some ms,
    sp_FindingsJSON := findings, sp_PendingResponse := None, sp_GateNonce := Some nonce,
    sp_GateRoundID := (case rnd of Some r \<Rightarrow> Some r
      | None \<Rightarrow> (case rev (GetRoundsByStep i db) of [] \<Rightarrow> None | r # _ \<Rightarrow> Some (sr_ID r))),
    sp_LastActivityAt := Some ts, sp_LastActivity := Some (status_activity status)\<rparr>)"
  define db1 where "db1 = steps_update (\<lambda>s. sp_ID s = i) f db"
  have view: "gate_view db1 = put_step (f row) (gate_view db)"
    using rows(1) by (simp add: db1_def step_view_id f_def)
  have run: "GetRun run db1 = Some r" using rows(2) by (simp add: db1_def)
  have "ParkStepForApproval_sql ts nonce run i status code ms findings rnd db =
      Some (runs_update (\<lambda>r. rn_ID r = run) (\<lambda>r. r\<lparr>rn_AwaitingAgentSince := Some ts, rn_UpdatedAt := ts\<rparr>) db1)"
    using rows assms by (simp add: ParkStepForApproval_sql_def runs_affected steps_affected db1_def f_def)
  moreover have "ParkStepForApproval ts nonce run i status code ms findings rnd (gate_view db) =
      Some ((put_step (f row) (gate_view db))\<lparr>gs_runs := (gs_runs (gate_view db))(run \<mapsto>
        \<lparr> rk_AwaitingAgentSince = Some ts, rk_ParkedMS = rn_ParkedMS r \<rparr>)\<rparr>)"
    using rows by (simp add: ParkStepForApproval_def gs_runs_view f_def Let_def status_activity_def)
  ultimately show ?thesis by (simp add: run_view view run put_step_runs)
qed

lemma SetStepPendingResponse_view:
  assumes "tables_ok db"
  shows "map_sum id gate_view (SetStepPendingResponse_sql ts i response activity g db) =
    SetStepPendingResponse ts i response activity g (gate_view db)"
  using assms
  by (auto simp: SetStepPendingResponse_sql_def SetStepPendingResponse_def gate_superseded_view steps_at_gate step_view
      row_at_gate_def Let_def split: option.splits)

lemma ResumeStepFromApproval_view:
  assumes "tables_ok db"
  shows "map_sum id gate_view (ResumeStepFromApproval_sql ts run i activity ms g db) =
    ResumeStepFromApproval ts run i activity ms g (gate_view db)"
  using assms
  by (auto simp: ResumeStepFromApproval_sql_def ResumeStepFromApproval_def gate_superseded_view steps_at_gate step_view
      CompleteRunAwaitingAgent_view row_at_gate_def Let_def split: option.splits)

lemma gate_view_rounds:
  "gate_view (db\<lparr>tb_rounds := rows\<rparr>) = (gate_view db)\<lparr>gs_rounds := \<lambda>s. GetRoundsByStep s (db\<lparr>tb_rounds := rows\<rparr>)\<rparr>"
  by (simp add: gate_view_def GetRun_def GetStepResult_def)

lemma SetStepRoundUserDecision_view:
  "gate_view (SetStepRoundUserDecision_sql i sel source user db) = SetStepRoundUserDecision i sel source user (gate_view db)"
  by (simp add: SetStepRoundUserDecision_sql_def SetStepRoundUserDecision_def update_round_def gate_view_rounds
      rounds_sql_update selection_source_def)

lemma SetStepRoundDeclined_view:
  "gate_view (SetStepRoundDeclined_sql i db) = SetStepRoundDeclined i (gate_view db)"
  by (rule gateStore.equality)
    (auto simp: SetStepRoundDeclined_sql_def SetStepRoundDeclined_def update_round_def gate_view_rounds rounds_sql_update
      intro!: ext map_cong)

section \<open>A sample\<close>

definition sample_tables :: tables where
  "sample_tables = no_tables\<lparr>tb_runs := [zero_run\<lparr>rn_ID := ''r'', rn_Status := RunRunning\<rparr>],
     tb_steps := [zero_step\<lparr>sp_ID := ''s'', sp_RunID := ''r'', sp_StepName := StepReview,
       sp_Status := StepStatusRunning\<rparr>]\<rparr>"

end
