(* ===== verification/GateContract.thy ===== *)
theory GateContract
  imports StepRows
begin

text \<open>
  The contract of a parked gate, and the statements on the rows (\<open>internal/db/step.go\<close> and
  \<open>terminal_steps.go\<close>) that keep it.
\<close>

section \<open>What a gate promises\<close>

text \<open>
  The contract of the parked gates, free of rows: a gate belongs to a run and a step, was opened under a
  nonce and a round, and is idle, waiting, or answered; a run has a clock that is running or not, and the
  time it has been parked. \<open>Leftover\<close> is an answer kept by a step that waits no more, which no operation
  of the contract leaves.
\<close>

datatype gate_phase = Idle | Waiting | Answered string | Leftover string

record agate =
  ag_run :: string
  ag_name :: StepName
  ag_nonce :: string
  ag_round :: string
  ag_phase :: gate_phase

record board =
  gb_gates :: "string \<Rightarrow> agate option"
  gb_clock :: "string \<Rightarrow> (int option \<times> int) option"

abbreviation move :: "string \<Rightarrow> (agate \<Rightarrow> agate) \<Rightarrow> board \<Rightarrow> board" where
  "move i f b \<equiv> b\<lparr>gb_gates := (gb_gates b)(i := map_option f (gb_gates b i))\<rparr>"

definition named_by :: "GateIdentity \<Rightarrow> string \<Rightarrow> agate \<Rightarrow> bool" where
  "named_by g i a \<longleftrightarrow> [] \<notin> {g_RunID g, g_StepResultID g, g_Step g, g_RoundID g, g_Nonce g} \<and> g_StepResultID g = i \<and>
     (g_RunID g, g_Step g, g_RoundID g, g_Nonce g) = (ag_run a, ag_name a, ag_round a, ag_nonce a)"

definition named_gate :: "string \<Rightarrow> board \<Rightarrow> string \<times> StepName \<times> string \<times> string" where
  "named_gate i b = (case gb_gates b i of None \<Rightarrow> ([], [], [], []) | Some a \<Rightarrow> (ag_run a, ag_name a, ag_round a, ag_nonce a))"

definition spec_park :: "int \<Rightarrow> string \<Rightarrow> string \<Rightarrow> string \<Rightarrow> string \<Rightarrow> board \<Rightarrow> board option" where
  "spec_park now nonce run i rnd b = (case (gb_gates b i, gb_clock b run) of
       (Some a, Some (since, spent)) \<Rightarrow> Some (move i (\<lambda>a. a\<lparr>ag_nonce := nonce, ag_round := rnd, ag_phase := Waiting\<rparr>) b
         \<lparr>gb_clock := (gb_clock b)(run \<mapsto> (Some now, spent))\<rparr>)
     | _ \<Rightarrow> None)"

definition spec_answer :: "string \<Rightarrow> string \<Rightarrow> GateIdentity \<Rightarrow> board \<Rightarrow> (string \<times> StepName \<times> string \<times> string) + board" where
  "spec_answer i response g b =
     (if \<exists>a. gb_gates b i = Some a \<and> ag_phase a = Waiting \<and> named_by g i a
      then Inr (move i (\<lambda>a. a\<lparr>ag_phase := Answered response\<rparr>) b) else Inl (named_gate i b))"

definition spec_stop_clock :: "string \<Rightarrow> int \<Rightarrow> board \<Rightarrow> board" where
  "spec_stop_clock run ms b = b\<lparr>gb_clock := (gb_clock b)(run := map_option
     (\<lambda>(since, spent). (None, case since of None \<Rightarrow> spent | Some _ \<Rightarrow> spent + max 0 ms)) (gb_clock b run))\<rparr>"

definition spec_resume ::
  "string \<Rightarrow> string \<Rightarrow> int \<Rightarrow> GateIdentity \<Rightarrow> board \<Rightarrow> (string \<times> StepName \<times> string \<times> string) + board" where
  "spec_resume run i ms g b =
     (if \<exists>a. gb_gates b i = Some a \<and> (ag_phase a = Waiting \<or> (\<exists>r. ag_phase a = Answered r)) \<and> named_by g i a \<and> ag_run a = run
      then Inr (spec_stop_clock run ms (move i (\<lambda>a. a\<lparr>ag_phase := Idle\<rparr>) b)) else Inl (named_gate i b))"

definition spec_drop :: "string \<Rightarrow> board \<Rightarrow> board" where
  "spec_drop i b = move i (\<lambda>a. a\<lparr>ag_phase := Idle\<rparr>) b"

definition spec_close :: "string \<Rightarrow> board \<Rightarrow> board" where
  "spec_close run b = b\<lparr>gb_gates := \<lambda>i. map_option (\<lambda>a. if ag_run a = run then a\<lparr>ag_phase := Idle\<rparr> else a) (gb_gates b i)\<rparr>"

definition no_leftover :: "board \<Rightarrow> bool" where
  "no_leftover b \<longleftrightarrow> (\<forall>i a r. gb_gates b i = Some a \<longrightarrow> ag_phase a \<noteq> Leftover r)"

text \<open>The rows read as that contract.\<close>

definition row_phase :: "StepResult \<Rightarrow> gate_phase" where
  "row_phase s = (case sp_PendingResponse s of
      None \<Rightarrow> if parked_status (sp_Status s) then Waiting else Idle
    | Some r \<Rightarrow> if parked_status (sp_Status s) then Answered r else Leftover r)"

definition row_gate :: "StepResult \<Rightarrow> agate" where
  "row_gate s = \<lparr> ag_run = sp_RunID s, ag_name = sp_StepName s, ag_nonce = deref (sp_GateNonce s),
     ag_round = deref (sp_GateRoundID s), ag_phase = row_phase s \<rparr>"

definition row_clock :: "Run \<Rightarrow> int option \<times> int" where
  "row_clock r = (rn_AwaitingAgentSince r, rn_ParkedMS r)"

definition gates :: "tables \<Rightarrow> board" where
  "gates db = \<lparr> gb_gates = \<lambda>i. map_option row_gate (GetStepResult i db),
     gb_clock = \<lambda>i. map_option row_clock (GetRun i db) \<rparr>"

text \<open>The round a gate is opened on when none is named: one of the step's with the highest number.\<close>

definition latest_round :: "tables \<Rightarrow> string \<Rightarrow> string \<Rightarrow> bool" where
  "latest_round db i q \<longleftrightarrow> (let own = {r \<in> set (tb_rounds db). sr_StepResultID r = i} in
     if own = {} then q = [] else \<exists>r \<in> own. sr_ID r = q \<and> (\<forall>r' \<in> own. sr_Round r' \<le> sr_Round r))"

lemma gates_sel [simp]:
  "gb_gates (gates db) i = map_option row_gate (GetStepResult i db)" "gb_clock (gates db) i = map_option row_clock (GetRun i db)"
  by (simp_all add: gates_def)

lemma gates_steps:
  "(\<And>r. sp_ID (f r) = sp_ID r) \<Longrightarrow> gates (steps_update (\<lambda>r. sp_ID r = i \<and> q r) f db) = (gates db)\<lparr>gb_gates :=
     (gb_gates (gates db))(i := map_option (\<lambda>r. row_gate (if q r then f r else r)) (GetStepResult i db))\<rparr>"
  by (auto simp: gates_def GetStepResult_update fun_eq_iff option.map_comp comp_def if_distrib cong: if_cong)

lemma gates_step:
  "(\<And>r. sp_ID (f r) = sp_ID r) \<Longrightarrow> gates (steps_update (\<lambda>r. sp_ID r = i) f db) = (gates db)\<lparr>gb_gates :=
     (gb_gates (gates db))(i := map_option (\<lambda>r. row_gate (f r)) (GetStepResult i db))\<rparr>"
  using gates_steps [of f i "\<lambda>_. True" db] by simp

lemma gates_run:
  "(\<And>r. rn_ID (f r) = rn_ID r) \<Longrightarrow> gates (runs_update (\<lambda>r. rn_ID r = i) f db) = (gates db)\<lparr>gb_clock :=
     (gb_clock (gates db))(i := map_option (\<lambda>r. row_clock (f r)) (GetRun i db))\<rparr>"
  by (auto simp: gates_def GetStepResult_def GetRun_def sql_first_update_id fun_eq_iff option.map_comp comp_def)

lemma gates_stop_clock: "gates (CompleteRunAwaitingAgent_sql ts run ms db) = spec_stop_clock run ms (gates db)"
proof -
  have "(\<lambda>r. row_clock (r\<lparr>rn_AwaitingAgentSince := None, rn_ParkedMS := rn_ParkedMS r +
        (if rn_AwaitingAgentSince r \<noteq> None then (if ms < 0 then 0 else ms) else 0), rn_UpdatedAt := ts\<rparr>)) =
      (\<lambda>(since, spent). (None, case since of None \<Rightarrow> spent | Some _ \<Rightarrow> spent + max 0 ms)) \<circ> row_clock"
    by (auto simp: fun_eq_iff row_clock_def split: option.splits)
  then show ?thesis by (simp add: CompleteRunAwaitingAgent_sql_def spec_stop_clock_def gates_run option.map_comp)
qed

lemma latest_of_sorted:
  assumes "rev (GetRoundsByStep i db) = r # rest"
  shows "r \<in> set (tb_rounds db)" "sr_StepResultID r = i"
    "r' \<in> set (tb_rounds db) \<Longrightarrow> sr_StepResultID r' = i \<Longrightarrow> sr_Round r' \<le> sr_Round r"
proof -
  have xs: "GetRoundsByStep i db = rev rest @ [r]" using assms by (simp add: rev_eq_Cons_iff)
  have mem: "x \<in> set (tb_rounds db) \<and> sr_StepResultID x = i \<longleftrightarrow> x \<in> set (GetRoundsByStep i db)" for x
    by (auto simp: GetRoundsByStep_def)
  show "r \<in> set (tb_rounds db)" "sr_StepResultID r = i" using mem [of r] by (simp_all add: xs)
  have "sorted (map sr_Round (GetRoundsByStep i db))" by (simp add: GetRoundsByStep_def)
  then show "r' \<in> set (tb_rounds db) \<Longrightarrow> sr_StepResultID r' = i \<Longrightarrow> sr_Round r' \<le> sr_Round r"
    using mem [of r'] by (auto simp: xs sorted_append)
qed

lemma latest_exists:
  "latest_round db i (deref (case rev (GetRoundsByStep i db) of [] \<Rightarrow> None | r # _ \<Rightarrow> Some (sr_ID r)))"
proof (cases "rev (GetRoundsByStep i db)")
  case Nil
  then have "{r \<in> set (tb_rounds db). sr_StepResultID r = i} = {}"
    by (auto simp: GetRoundsByStep_def filter_empty_conv dest!: arg_cong [where f = set])
  then show ?thesis using Nil by (simp add: latest_round_def deref_def)
next
  case (Cons r rest)
  then have r: "r \<in> {r \<in> set (tb_rounds db). sr_StepResultID r = i}" using latest_of_sorted by auto
  have "\<forall>r' \<in> {r \<in> set (tb_rounds db). sr_StepResultID r = i}. sr_Round r' \<le> sr_Round r"
    using latest_of_sorted(3) [OF Cons] by blast
  then show ?thesis using Cons r unfolding latest_round_def Let_def deref_def by auto
qed

lemma gates_park:
  assumes "tables_ok db" "parked_status status"
  shows "\<exists>q. (case rnd of None \<Rightarrow> latest_round db i q | Some r \<Rightarrow> q = r) \<and>
    map_option gates (ParkStepForApproval_sql ts nonce run i status code ms findings rnd db) = spec_park ts nonce run i q (gates db)"
proof -
  let ?q = "case rnd of Some r \<Rightarrow> Some r
    | None \<Rightarrow> (case rev (GetRoundsByStep i db) of [] \<Rightarrow> None | r # _ \<Rightarrow> Some (sr_ID r))"
  have "case rnd of None \<Rightarrow> latest_round db i (deref ?q) | Some r \<Rightarrow> deref ?q = r"
    using latest_exists [of db i] by (cases rnd) (simp_all add: deref_def)
  moreover have "map_option gates (ParkStepForApproval_sql ts nonce run i status code ms findings rnd db) =
      spec_park ts nonce run i (deref ?q) (gates db)"
  proof (cases "GetStepResult i db = None \<or> GetRun run db = None")
    case True
    then show ?thesis using assms
      by (auto simp: ParkStepForApproval_sql_def spec_park_def runs_affected steps_affected split: option.splits)
  next
    case False
    then obtain row r where rows: "GetStepResult i db = Some row" "GetRun run db = Some r" by auto
    define f :: "StepResult \<Rightarrow> StepResult" where "f = (\<lambda>s. s\<lparr>sp_Status := status, sp_ExitCode := Some code, sp_DurationMS := Some ms,
      sp_FindingsJSON := findings, sp_PendingResponse := None, sp_GateNonce := Some nonce, sp_GateRoundID := ?q,
      sp_LastActivityAt := Some ts, sp_LastActivity := Some (status_activity status)\<rparr>)"
    define db1 where "db1 = steps_update (\<lambda>s. sp_ID s = i) f db"
    have "row_gate (f row) = (row_gate row)\<lparr>ag_nonce := nonce, ag_round := deref ?q, ag_phase := Waiting\<rparr>"
      using assms by (simp add: f_def row_gate_def row_phase_def deref_def)
    then have "gates db1 = move i (\<lambda>a. a\<lparr>ag_nonce := nonce, ag_round := deref ?q, ag_phase := Waiting\<rparr>) (gates db)"
      using rows(1) by (simp add: db1_def gates_step f_def)
    moreover have "GetRun run db1 = Some r" using rows(2) by (simp add: db1_def)
    moreover have "ParkStepForApproval_sql ts nonce run i status code ms findings rnd db =
        Some (runs_update (\<lambda>r. rn_ID r = run) (\<lambda>r. r\<lparr>rn_AwaitingAgentSince := Some ts, rn_UpdatedAt := ts\<rparr>) db1)"
      using rows assms by (simp add: ParkStepForApproval_sql_def runs_affected steps_affected db1_def f_def cong: option.case_cong)
    ultimately show ?thesis using rows by (simp add: gates_run spec_park_def row_clock_def)
  qed
  ultimately show ?thesis by blast
qed

definition at_gate :: "GateIdentity \<Rightarrow> StepResult \<Rightarrow> bool" where
  "at_gate g s \<longleftrightarrow> sp_GateNonce s = Some (g_Nonce g) \<and> sp_GateRoundID s = Some (g_RoundID g) \<and> sp_RunID s = g_RunID g \<and>
     sp_StepName s = g_Step g \<and> sp_ID s = g_StepResultID g"

lemma row_named: "sp_ID r = i \<Longrightarrow> named_by g i (row_gate r) \<longleftrightarrow> SameGate g g \<and> at_gate g r"
  by (cases "sp_GateNonce r"; cases "sp_GateRoundID r") (auto simp: named_by_def row_gate_def SameGate_def deref_def at_gate_def)

lemma superseded_named: "(\<lambda>g. (g_RunID g, g_Step g, g_RoundID g, g_Nonce g)) (gate_superseded i db) = named_gate i (gates db)"
  by (auto simp: gate_superseded_def named_gate_def zero_gate_def StepResult_GateIdentity_def row_gate_def split: option.splits)

lemma phase_waiting: "row_phase r = Waiting \<longleftrightarrow> parked_status (sp_Status r) \<and> sp_PendingResponse r = None"
  by (auto simp: row_phase_def split: option.splits)

lemma phase_open: "row_phase r = Waiting \<or> (\<exists>x. row_phase r = Answered x) \<longleftrightarrow> parked_status (sp_Status r)"
  by (auto simp: row_phase_def split: option.splits)

lemma ag_phase_row [simp]: "ag_phase (row_gate r) = row_phase r" "ag_run (row_gate r) = sp_RunID r"
  by (simp_all add: row_gate_def)

lemma SetStepPendingResponse_at: "SetStepPendingResponse_sql ts i response activity g db =
    (let p = (\<lambda>s. sp_ID s = i \<and> parked_status (sp_Status s) \<and> sp_PendingResponse s = None \<and> at_gate g s) in
     if SameGate g g \<and> affected p (tb_steps db) = 1
     then Inr (steps_update p (\<lambda>s. s\<lparr>sp_PendingResponse := Some response, sp_LastActivityAt := Some ts,
       sp_LastActivity := Some activity\<rparr>) db)
     else Inl (gate_superseded i db))"
  by (simp add: SetStepPendingResponse_sql_def at_gate_def Let_def conj_ac)

lemma ResumeStepFromApproval_at: "ResumeStepFromApproval_sql ts run i activity ms g db =
    (let p = (\<lambda>s. sp_ID s = i \<and> sp_RunID s = run \<and> parked_status (sp_Status s) \<and> at_gate g s) in
     if SameGate g g \<and> affected p (tb_steps db) = 1
     then Inr (CompleteRunAwaitingAgent_sql ts run ms (steps_update p (\<lambda>s. s\<lparr>sp_Status := StepStatusRunning,
       sp_PendingResponse := None, sp_LastActivityAt := Some ts, sp_LastActivity := Some activity\<rparr>) db))
     else Inl (gate_superseded i db))"
  by (simp add: ResumeStepFromApproval_sql_def at_gate_def Let_def conj_ac)

lemma gates_answer:
  assumes "tables_ok db"
  shows "map_sum (\<lambda>g. (g_RunID g, g_Step g, g_RoundID g, g_Nonce g)) gates (SetStepPendingResponse_sql ts i response activity g db) =
    spec_answer i response g (gates db)"
proof (cases "GetStepResult i db")
  case None
  then show ?thesis using assms
    by (simp add: SetStepPendingResponse_at spec_answer_def steps_at_gate superseded_named Let_def)
next
  case (Some r)
  let ?f = "\<lambda>s. s\<lparr>sp_PendingResponse := Some response, sp_LastActivityAt := Some ts, sp_LastActivity := Some activity\<rparr>"
  have "row_gate (?f r) = (row_gate r)\<lparr>ag_phase := Answered response\<rparr>" if "parked_status (sp_Status r)"
    using that by (simp add: row_gate_def row_phase_def)
  moreover have "named_by g i (row_gate r) \<longleftrightarrow> SameGate g g \<and> at_gate g r" by (rule row_named [OF GetStepResult_ID [OF Some]])
  ultimately show ?thesis using assms Some
    by (simp add: SetStepPendingResponse_at spec_answer_def steps_at_gate superseded_named phase_waiting gates_steps Let_def)
qed

lemma gates_resume:
  assumes "tables_ok db"
  shows "map_sum (\<lambda>g. (g_RunID g, g_Step g, g_RoundID g, g_Nonce g)) gates (ResumeStepFromApproval_sql ts run i activity ms g db) =
    spec_resume run i ms g (gates db)"
proof (cases "GetStepResult i db")
  case None
  then show ?thesis using assms
    by (simp add: ResumeStepFromApproval_at spec_resume_def steps_at_gate superseded_named Let_def)
next
  case (Some r)
  let ?f = "\<lambda>s. s\<lparr>sp_Status := StepStatusRunning, sp_PendingResponse := None, sp_LastActivityAt := Some ts,
    sp_LastActivity := Some activity\<rparr>"
  have "row_gate (?f r) = (row_gate r)\<lparr>ag_phase := Idle\<rparr>"
    by (simp add: row_gate_def row_phase_def parked_status_def step_status_defs)
  moreover have "named_by g i (row_gate r) \<longleftrightarrow> SameGate g g \<and> at_gate g r" by (rule row_named [OF GetStepResult_ID [OF Some]])
  ultimately show ?thesis using assms Some
    by (simp add: ResumeStepFromApproval_at spec_resume_def steps_at_gate superseded_named phase_open gates_steps
        gates_stop_clock Let_def)
qed

lemma gates_fail: "gates (FailStep_sql ts i msg ms db) = spec_drop i (gates db)"
  by (auto simp: FailStep_sql_def spec_drop_def gates_step row_gate_def row_phase_def parked_status_def step_status_defs
      option.map_comp comp_def)

lemma row_close:
  assumes "\<And>x. row_phase r \<noteq> Leftover x"
  shows "row_gate (if sp_RunID r = run \<and> executing (sp_Status r) then close_step reason ts r else r) =
    (if sp_RunID r = run then (row_gate r)\<lparr>ag_phase := Idle\<rparr> else row_gate r)"
proof (cases "sp_PendingResponse r")
  case None
  then show ?thesis by (auto simp: row_gate_def row_phase_def close_step_def executing_def parked_status_def step_status_defs)
next
  case (Some x)
  then have "parked_status (sp_Status r)" using assms [of x] by (simp add: row_phase_def split: if_splits)
  then show ?thesis by (auto simp: row_gate_def row_phase_def close_step_def executing_def parked_status_def step_status_defs)
qed

lemma gates_close:
  assumes "no_leftover (gates db)"
  shows "gates (closeExecutingSteps run reason ts db) = spec_close run (gates db)"
proof -
  let ?f = "\<lambda>r. if sp_RunID r = run \<and> executing (sp_Status r) then close_step reason ts r else r"
  have "sql_first (\<lambda>r. sp_ID r = i) (sql_update (\<lambda>s. sp_RunID s = run \<and> executing (sp_Status s)) (close_step reason ts) rows) =
      map_option ?f (sql_first (\<lambda>r. sp_ID r = i) rows)" for i rows
    by (induction rows) (auto simp: sql_first_def close_step_def)
  then have rows: "GetStepResult i (closeExecutingSteps run reason ts db) = map_option ?f (GetStepResult i db)" for i
    by (simp add: GetStepResult_def closeExecutingSteps_def)
  have "map_option row_gate (GetStepResult i (closeExecutingSteps run reason ts db)) =
      map_option (\<lambda>a. if ag_run a = run then a\<lparr>ag_phase := Idle\<rparr> else a) (map_option row_gate (GetStepResult i db))" for i
  proof (cases "GetStepResult i db")
    case (Some r)
    then have "row_phase r \<noteq> Leftover x" for x
      using assms [unfolded no_leftover_def, rule_format, of i "row_gate r" x] by simp
    from row_close [OF this] show ?thesis using Some by (simp add: rows)
  qed (simp add: rows)
  then show ?thesis by (simp add: gates_def spec_close_def closeExecutingSteps_def GetRun_def)
qed

lemma park_ok: "ParkStepForApproval_sql ts nonce run i status code ms findings rnd db = Some db' \<Longrightarrow> tables_ok db \<Longrightarrow> tables_ok db'"
  by (auto simp: ParkStepForApproval_sql_def tables_ok_def Let_def intro!: keyed_sql_update split: if_splits)

lemma set_response_ok: "SetStepPendingResponse_sql ts i response activity g db = Inr db' \<Longrightarrow> tables_ok db \<Longrightarrow> tables_ok db'"
  by (auto simp: SetStepPendingResponse_at tables_ok_def Let_def intro!: keyed_sql_update split: if_splits)

text \<open>C14. The statements of the database keep the contract of a gate. Read as the contract reads them, the
  rows move exactly as it says: parking opens a waiting gate under the new nonce and the named round (or one
  of the step's with the highest number) and starts the run's clock, and fails only when the step or the run
  does not exist; an answer is taken only by a waiting gate that the answer names completely, which then
  holds it; resuming needs the open gate it names, of that run, empties it and adds the parked time to a
  clock that was running; failing a step empties its gate; and ending a run empties every gate of it, given
  no answer was left on a step that waits no more. A refusal names the gate that is current, and nothing else
  of any gate or clock moves.\<close>

theorem gate_tables_refine:
  assumes "tables_ok db"
  shows "(parked_status status \<longrightarrow> (\<exists>q. (case rnd of None \<Rightarrow> latest_round db i q | Some r \<Rightarrow> q = r) \<and>
      map_option gates (ParkStepForApproval_sql ts nonce run i status code ms findings rnd db) =
        spec_park ts nonce run i q (gates db))) \<and>
    map_sum (\<lambda>g. (g_RunID g, g_Step g, g_RoundID g, g_Nonce g)) gates (SetStepPendingResponse_sql ts i response activity g db) =
      spec_answer i response g (gates db) \<and>
    map_sum (\<lambda>g. (g_RunID g, g_Step g, g_RoundID g, g_Nonce g)) gates (ResumeStepFromApproval_sql ts run i activity ms g db) =
      spec_resume run i ms g (gates db) \<and>
    gates (FailStep_sql ts i msg ms db) = spec_drop i (gates db) \<and>
    (no_leftover (gates db) \<longrightarrow> gates (closeExecutingSteps run msg ts db) = spec_close run (gates db))"
  by (intro conjI impI gates_answer gates_resume gates_fail gates_park gates_close assms)

definition contract_tables :: tables where
  "contract_tables = no_tables\<lparr>tb_runs := [zero_run\<lparr>rn_ID := ''r'', rn_Status := RunRunning, rn_ParkedMS := 4\<rparr>],
     tb_steps := [zero_step\<lparr>sp_ID := ''s'', sp_RunID := ''r'', sp_StepName := StepReview,
       sp_Status := StepStatusRunning\<rparr>]\<rparr>"

definition contract_gate :: GateIdentity where
  "contract_gate = zero_gate\<lparr>g_RunID := ''r'', g_StepResultID := ''s'', g_Step := StepReview, g_RoundID := ''q'', g_Nonce := ''n''\<rparr>"

text \<open>A gate that is parked, answered and resumed; the same answer on another round is refused.\<close>

theorem gate_tables_refine_witness:
  "\<exists>db1 db2 db3. ParkStepForApproval_sql 7 ''n'' ''r'' ''s'' StepStatusAwaitingApproval 1 5 None (Some ''q'') contract_tables = Some db1 \<and>
     SetStepPendingResponse_sql 8 ''s'' ''yes'' ''a'' contract_gate db1 = Inr db2 \<and>
     ResumeStepFromApproval_sql 9 ''r'' ''s'' ''b'' 30 contract_gate db2 = Inr db3 \<and>
     map_option ag_phase (gb_gates (gates db1) ''s'') = Some Waiting \<and> gb_clock (gates db1) ''r'' = Some (Some 7, 4) \<and>
     map_option ag_phase (gb_gates (gates db2) ''s'') = Some (Answered ''yes'') \<and>
     map_option ag_phase (gb_gates (gates db3) ''s'') = Some Idle \<and> gb_clock (gates db3) ''r'' = Some (None, 34) \<and>
     SetStepPendingResponse_sql 8 ''s'' ''yes'' ''a'' (contract_gate\<lparr>g_RoundID := ''p''\<rparr>) db1 = Inl (gate_superseded ''s'' db1)"
proof -
  let ?g = "row_gate (zero_step\<lparr>sp_ID := ''s'', sp_RunID := ''r'', sp_StepName := StepReview, sp_Status := StepStatusRunning\<rparr>)"
  have ok: "tables_ok contract_tables" by (simp add: tables_ok_def keyed_def contract_tables_def no_tables_def)
  have start: "gb_gates (gates contract_tables) ''s'' = Some ?g" "gb_clock (gates contract_tables) ''r'' = Some (None, 4)"
    by (simp_all add: contract_tables_def GetStepResult_def GetRun_def sql_first_def row_clock_def no_tables_def zero_run_def)
  have "parked_status StepStatusAwaitingApproval" by (simp add: parked_status_def)
  then obtain db1 where park: "ParkStepForApproval_sql 7 ''n'' ''r'' ''s'' StepStatusAwaitingApproval 1 5 None (Some ''q'') contract_tables = Some db1"
    and b1: "gb_gates (gates db1) ''s'' = Some (?g\<lparr>ag_nonce := ''n'', ag_round := ''q'', ag_phase := Waiting\<rparr>)"
      "gb_clock (gates db1) ''r'' = Some (Some 7, 4)"
    using gate_tables_refine [where status = StepStatusAwaitingApproval and rnd = "Some ''q''" and i = "''s''" and ts = 7 and
        nonce = "''n''" and run = "''r''" and code = 1 and ms = 5 and findings = None, OF ok, THEN conjunct1] start
    by (auto simp: spec_park_def simp del: gates_sel)
  have ok1: "tables_ok db1" by (rule park_ok [OF park ok])
  have at1: "map_sum (\<lambda>g. (g_RunID g, g_Step g, g_RoundID g, g_Nonce g)) gates (SetStepPendingResponse_sql 8 ''s'' ''yes'' ''a'' g db1) =
      spec_answer ''s'' ''yes'' g (gates db1)" for g
    using gate_tables_refine [OF ok1] by blast
  have named: "named_by contract_gate ''s'' (?g\<lparr>ag_nonce := ''n'', ag_round := ''q'', ag_phase := p\<rparr>)" for p
    by (simp add: named_by_def contract_gate_def zero_gate_def row_gate_def StepReview_def)
  obtain db2 where answer: "SetStepPendingResponse_sql 8 ''s'' ''yes'' ''a'' contract_gate db1 = Inr db2"
    and b2: "gates db2 = move ''s'' (\<lambda>a. a\<lparr>ag_phase := Answered ''yes''\<rparr>) (gates db1)"
    using at1 [of contract_gate] b1 named
    by (cases "SetStepPendingResponse_sql 8 ''s'' ''yes'' ''a'' contract_gate db1") (auto simp: spec_answer_def simp del: gates_sel)
  have at2: "map_sum (\<lambda>g. (g_RunID g, g_Step g, g_RoundID g, g_Nonce g)) gates
      (ResumeStepFromApproval_sql 9 ''r'' ''s'' ''b'' 30 contract_gate db2) = spec_resume ''r'' ''s'' 30 contract_gate (gates db2)"
    using gate_tables_refine [OF set_response_ok [OF answer ok1]] by blast
  obtain db3 where resume: "ResumeStepFromApproval_sql 9 ''r'' ''s'' ''b'' 30 contract_gate db2 = Inr db3"
    and b3: "gates db3 = spec_stop_clock ''r'' 30 (move ''s'' (\<lambda>a. a\<lparr>ag_phase := Idle\<rparr>) (gates db2))"
    using at2 b1 b2 named [of "Answered ''yes''"]
    by (cases "ResumeStepFromApproval_sql 9 ''r'' ''s'' ''b'' 30 contract_gate db2")
      (auto simp: spec_resume_def simp del: gates_sel)
  have "SetStepPendingResponse_sql 8 ''s'' ''yes'' ''a'' (contract_gate\<lparr>g_RoundID := ''p''\<rparr>) db1 = Inl (gate_superseded ''s'' db1)"
    using at1 [of "contract_gate\<lparr>g_RoundID := ''p''\<rparr>"] b1
    by (cases "SetStepPendingResponse_sql 8 ''s'' ''yes'' ''a'' (contract_gate\<lparr>g_RoundID := ''p''\<rparr>) db1")
      (auto simp: spec_answer_def named_by_def SetStepPendingResponse_at Let_def simp del: gates_sel split: if_splits)
  then show ?thesis using park answer resume b1 b2 b3 by (simp add: spec_stop_clock_def del: gates_sel)
qed

end
