(* ===== verification/Admission.thy ===== *)
theory Admission
  imports Prelude
begin

text \<open>
  The interface shared by the two concurrency limits of the program, the cap on agent
  invocations (\<open>pipeline/slot.go\<close>) and the cap on runs (\<open>daemon/scheduler.go\<close>): a loop that admits
  the oldest waiter while there is capacity and stops at the first one it cannot admit.
\<close>

locale admission_loop =
  fixes waiting :: "'s \<Rightarrow> 'w list"
    and capacity :: "'s \<Rightarrow> bool"
    and admit :: "'s \<Rightarrow> 's option"
    and drain :: "'s \<Rightarrow> 's"
  assumes drain_law: "drain s = (if waiting s \<noteq> [] \<and> capacity s
      then (case admit s of None \<Rightarrow> s | Some s' \<Rightarrow> drain s') else s)"
    and admit_law: "waiting s \<noteq> [] \<Longrightarrow> admit s = Some s' \<Longrightarrow> waiting s' = tl (waiting s)"
begin

lemma drain_stop: "waiting s = [] \<or> \<not> capacity s \<or> admit s = None \<Longrightarrow> drain s = s"
  by (subst drain_law) auto

lemma drain_go:
  "waiting s \<noteq> [] \<Longrightarrow> capacity s \<Longrightarrow> admit s = Some s' \<Longrightarrow> drain s = drain s'"
  by (subst drain_law) simp

lemma drain_induct [consumes 0, case_names stop go]:
  assumes stop: "\<And>s. waiting s = [] \<or> \<not> capacity s \<or> admit s = None \<Longrightarrow> P s"
    and go: "\<And>s s'. waiting s \<noteq> [] \<Longrightarrow> capacity s \<Longrightarrow> admit s = Some s' \<Longrightarrow> P s' \<Longrightarrow> P s"
  shows "P s"
proof (induction "length (waiting s)" arbitrary: s rule: less_induct)
  case less
  show ?case
  proof (cases "waiting s = [] \<or> \<not> capacity s \<or> admit s = None")
    case False
    then obtain s' where s': "waiting s \<noteq> []" "capacity s" "admit s = Some s'" by auto
    then have "length (waiting s') < length (waiting s)" using admit_law by simp
    then show ?thesis using go s' less by blast
  qed (rule stop)
qed

text \<open>Nothing admissible is left behind, and who was admitted is a prefix of the queue.\<close>

lemma drain_done: "waiting (drain s) = [] \<or> \<not> capacity (drain s) \<or> admit (drain s) = None"
  by (induction s rule: drain_induct) (auto simp: drain_stop drain_go)

lemma drain_fifo: "\<exists>n. waiting (drain s) = drop n (waiting s)"
proof (induction s rule: drain_induct)
  case (stop s)
  then show ?case by (intro exI [of _ 0]) (simp add: drain_stop)
next
  case (go s s')
  then obtain n where "waiting (drain s') = drop n (tl (waiting s))" using admit_law by auto
  then show ?case using go by (intro exI [of _ "Suc n"]) (simp add: drain_go drop_Suc)
qed

lemma drain_invariant:
  assumes "\<And>s s'. I s \<Longrightarrow> waiting s \<noteq> [] \<Longrightarrow> capacity s \<Longrightarrow> admit s = Some s' \<Longrightarrow> I s'" "I s"
  shows "I (drain s)"
  using assms(2)
proof (induction s rule: drain_induct)
  case (go s s')
  then show ?case using assms(1) [of s s'] by (simp add: drain_go)
qed (simp add: drain_stop)

end

end
