(* ===== verification/AgentLimit.thy ===== *)
theory AgentLimit
  imports Admission
begin

text \<open>
  The process-wide cap on agent invocations (\<open>agentSemaphore\<close> in \<open>internal/pipeline/slot.go\<close>).
  Each critical section of the code (the code between \<open>mu.Lock\<close> and \<open>mu.Unlock\<close>) is one function on
  the semaphore; the calls of the program interleave these sections freely, which is the step
  relation \<open>limiter_step\<close>. A waiter is the number of its call, a channel that was closed is
  recorded in \<open>sem_closed\<close>.
\<close>

section \<open>The semaphore\<close>

record agentSemaphore =
  sem_limit :: int
  sem_active :: int
  sem_waiters :: "nat list"
  sem_closed :: "nat set"

definition sem_capacity :: "agentSemaphore \<Rightarrow> bool" where
  "sem_capacity s \<longleftrightarrow> sem_limit s = 0 \<or> sem_active s < sem_limit s"

text \<open>One round of the loop in \<open>wakeLocked\<close>: the oldest waiter is admitted.\<close>

definition sem_admit :: "agentSemaphore \<Rightarrow> agentSemaphore option" where
  "sem_admit s = (case sem_waiters s of
      [] \<Rightarrow> None
    | w # ws \<Rightarrow> Some (s\<lparr>sem_waiters := ws, sem_active := sem_active s + 1,
                       sem_closed := insert w (sem_closed s)\<rparr>))"

function wakeLocked :: "agentSemaphore \<Rightarrow> agentSemaphore" where
  "wakeLocked s =
     (if sem_waiters s \<noteq> [] \<and> sem_capacity s
      then (case sem_admit s of None \<Rightarrow> s | Some s' \<Rightarrow> wakeLocked s')
      else s)"
  by auto
termination
  by (relation "measure (\<lambda>s. length (sem_waiters s))") (auto simp: sem_admit_def split: list.splits)

declare wakeLocked.simps [simp del]

definition setLimit :: "int \<Rightarrow> agentSemaphore \<Rightarrow> agentSemaphore" where
  "setLimit limit s = wakeLocked (s\<lparr>sem_limit := limit\<rparr>)"

definition SetMaxConcurrentAgents :: "int \<Rightarrow> agentSemaphore \<Rightarrow> agentSemaphore" where
  "SetMaxConcurrentAgents limit s = setLimit (if limit < 0 then 0 else limit) s"

definition MaxConcurrentAgents :: "agentSemaphore \<Rightarrow> int" where
  "MaxConcurrentAgents s = sem_limit s"

definition sem_release :: "agentSemaphore \<Rightarrow> agentSemaphore" where
  "sem_release s = wakeLocked (s\<lparr>sem_active := sem_active s - 1\<rparr>)"

text \<open>
  \<open>acquire\<close> up to its select: True when the call is admitted at once. Then the select: the call
  goes on when its channel is closed, or its context ends and it looks for itself in the queue
  (True: it was admitted concurrently and must give the slot back).
\<close>

definition acquire_enter :: "nat \<Rightarrow> agentSemaphore \<Rightarrow> agentSemaphore \<times> bool" where
  "acquire_enter w s =
     (if sem_waiters s = [] \<and> (sem_limit s = 0 \<or> sem_active s < sem_limit s)
      then (s\<lparr>sem_active := sem_active s + 1\<rparr>, True)
      else (s\<lparr>sem_waiters := sem_waiters s @ [w]\<rparr>, False))"

definition acquire_ready :: "nat \<Rightarrow> agentSemaphore \<Rightarrow> bool" where
  "acquire_ready w s \<longleftrightarrow> w \<in> sem_closed s"

definition acquire_cancel :: "nat \<Rightarrow> agentSemaphore \<Rightarrow> agentSemaphore \<times> bool" where
  "acquire_cancel w s =
     (if w \<in> set (sem_waiters s) then (s\<lparr>sem_waiters := remove1 w (sem_waiters s)\<rparr>, False)
      else (s, True))"

interpretation agent_queue: admission_loop sem_waiters sem_capacity sem_admit wakeLocked
proof
  show "wakeLocked s = (if sem_waiters s \<noteq> [] \<and> sem_capacity s
      then (case sem_admit s of None \<Rightarrow> s | Some s' \<Rightarrow> wakeLocked s') else s)" for s
    by (rule wakeLocked.simps)
qed (auto simp: sem_admit_def split: list.splits)

section \<open>Calls\<close>

text \<open>
  The calls in flight: those in the select of \<open>acquire\<close>, those that hold a slot, and those that
  were admitted while being cancelled and still have to give the slot back.
\<close>

record limiter =
  lm_sem :: agentSemaphore
  lm_next :: nat
  lm_waiting :: "nat set"
  lm_running :: "nat set"
  lm_returning :: "nat set"

definition limiter_init :: limiter where
  "limiter_init = \<lparr> lm_sem = \<lparr> sem_limit = 0, sem_active = 0, sem_waiters = [], sem_closed = {} \<rparr>,
     lm_next = 0, lm_waiting = {}, lm_running = {}, lm_returning = {} \<rparr>"

inductive limiter_step :: "limiter \<Rightarrow> limiter \<Rightarrow> bool" where
  set_limit: "limiter_step m (m\<lparr>lm_sem := SetMaxConcurrentAgents n (lm_sem m)\<rparr>)"
| enter_now: "acquire_enter (lm_next m) (lm_sem m) = (s, True) \<Longrightarrow>
    limiter_step m (m\<lparr>lm_sem := s, lm_next := Suc (lm_next m),
      lm_running := insert (lm_next m) (lm_running m)\<rparr>)"
| enter_wait: "acquire_enter (lm_next m) (lm_sem m) = (s, False) \<Longrightarrow>
    limiter_step m (m\<lparr>lm_sem := s, lm_next := Suc (lm_next m),
      lm_waiting := insert (lm_next m) (lm_waiting m)\<rparr>)"
| ready: "w \<in> lm_waiting m \<Longrightarrow> acquire_ready w (lm_sem m) \<Longrightarrow>
    limiter_step m (m\<lparr>lm_waiting := lm_waiting m - {w}, lm_running := insert w (lm_running m)\<rparr>)"
| cancel: "w \<in> lm_waiting m \<Longrightarrow> acquire_cancel w (lm_sem m) = (s, False) \<Longrightarrow>
    limiter_step m (m\<lparr>lm_sem := s, lm_waiting := lm_waiting m - {w}\<rparr>)"
| cancel_late: "w \<in> lm_waiting m \<Longrightarrow> acquire_cancel w (lm_sem m) = (s, True) \<Longrightarrow>
    limiter_step m (m\<lparr>lm_sem := s, lm_waiting := lm_waiting m - {w},
      lm_returning := insert w (lm_returning m)\<rparr>)"
| give_back: "w \<in> lm_returning m \<Longrightarrow>
    limiter_step m (m\<lparr>lm_sem := sem_release (lm_sem m), lm_returning := lm_returning m - {w}\<rparr>)"
| finish: "w \<in> lm_running m \<Longrightarrow>
    limiter_step m (m\<lparr>lm_sem := sem_release (lm_sem m), lm_running := lm_running m - {w}\<rparr>)"

inductive limiter_reachable :: "limiter \<Rightarrow> bool" where
  start: "limiter_reachable limiter_init"
| step: "limiter_reachable m \<Longrightarrow> limiter_step m m' \<Longrightarrow> limiter_reachable m'"

section \<open>The invariant\<close>

text \<open>What holds inside the critical sections too: how the queue and the calls fit together.\<close>

definition queue_ok :: "nat set \<Rightarrow> nat set \<Rightarrow> agentSemaphore \<Rightarrow> bool" where
  "queue_ok waiting holding s \<longleftrightarrow>
     finite waiting \<and> finite holding \<and> waiting \<inter> holding = {} \<and>
     sorted (sem_waiters s) \<and> distinct (sem_waiters s) \<and>
     set (sem_waiters s) = waiting - sem_closed s \<and>
     (\<forall>c \<in> sem_closed s. \<forall>w \<in> set (sem_waiters s). c < w) \<and>
     sem_active s = int (card (waiting \<inter> sem_closed s)) + int (card holding) \<and> 0 \<le> sem_limit s"

definition no_lost_wakeup :: "agentSemaphore \<Rightarrow> bool" where
  "no_lost_wakeup s \<longleftrightarrow> sem_waiters s = [] \<or> \<not> sem_capacity s"

definition limiter_inv :: "limiter \<Rightarrow> bool" where
  "limiter_inv m \<longleftrightarrow>
     queue_ok (lm_waiting m) (lm_running m \<union> lm_returning m) (lm_sem m) \<and>
     no_lost_wakeup (lm_sem m) \<and> lm_running m \<inter> lm_returning m = {} \<and>
     (\<forall>c \<in> lm_waiting m \<union> lm_running m \<union> lm_returning m \<union> sem_closed (lm_sem m). c < lm_next m)"

lemma queue_ok_move:
  assumes "queue_ok W H s" "w \<in> W" "w \<in> sem_closed s"
  shows "queue_ok (W - {w}) (insert w H) s"
proof -
  have f: "finite (W \<inter> sem_closed s)" "finite H" "w \<notin> H" using assms by (auto simp: queue_ok_def)
  have "(W - {w}) \<inter> sem_closed s = (W \<inter> sem_closed s) - {w}" by auto
  then have "card (W \<inter> sem_closed s) = Suc (card ((W - {w}) \<inter> sem_closed s))"
    using f(1) assms(2,3) card.remove [of "W \<inter> sem_closed s" w] by simp
  moreover have "card (insert w H) = Suc (card H)" using f by simp
  ultimately show ?thesis using assms by (auto simp: queue_ok_def)
qed

lemma admit_queue_ok:
  assumes "queue_ok W H s" "sem_admit s = Some s'"
  shows "queue_ok W H s'"
proof -
  obtain w ws where w: "sem_waiters s = w # ws" "s' = s\<lparr>sem_waiters := ws, sem_active := sem_active s + 1,
      sem_closed := insert w (sem_closed s)\<rparr>"
    using assms(2) by (auto simp: sem_admit_def split: list.splits)
  have "w \<in> W" "w \<notin> sem_closed s" "set ws = W - insert w (sem_closed s)"
    using assms(1) w(1) by (auto simp: queue_ok_def)
  moreover have "W \<inter> insert w (sem_closed s) = insert w (W \<inter> sem_closed s)" using calculation(1) by auto
  moreover have "\<forall>v \<in> set ws. w < v"
    using assms(1) w(1) by (auto simp: queue_ok_def order.strict_iff_order)
  ultimately show ?thesis
    using assms(1) w by (auto simp: queue_ok_def)
qed

lemma wake_queue_ok: "queue_ok W H s \<Longrightarrow> queue_ok W H (wakeLocked s)"
  by (rule agent_queue.drain_invariant [of "queue_ok W H"]) (auto intro: admit_queue_ok)

lemma wake_no_lost: "no_lost_wakeup (wakeLocked s)"
  using agent_queue.drain_done [of s] by (auto simp: no_lost_wakeup_def sem_admit_def split: list.splits)

lemma admit_closed: "sem_admit s = Some s' \<Longrightarrow> sem_closed s' \<subseteq> sem_closed s \<union> set (sem_waiters s) \<and>
    set (sem_waiters s') \<subseteq> set (sem_waiters s) \<and> sem_closed s \<subseteq> sem_closed s'"
  by (auto simp: sem_admit_def split: list.splits)

lemma wake_closed: "sem_closed (wakeLocked s) \<subseteq> sem_closed s \<union> set (sem_waiters s)"
proof -
  have "sem_closed (wakeLocked s) \<union> set (sem_waiters (wakeLocked s)) \<subseteq> sem_closed s \<union> set (sem_waiters s)"
    by (rule agent_queue.drain_invariant [of "\<lambda>t. sem_closed t \<union> set (sem_waiters t) \<subseteq> sem_closed s \<union> set (sem_waiters s)"])
      (use admit_closed in blast)+
  then show ?thesis by blast
qed

lemma no_lost_less:
  "no_lost_wakeup s \<Longrightarrow> sem_active s \<le> sem_active s' \<Longrightarrow> sem_limit s' = sem_limit s \<Longrightarrow>
     sem_waiters s \<noteq> [] \<or> sem_waiters s' = [] \<Longrightarrow> no_lost_wakeup s'"
  by (auto simp: no_lost_wakeup_def sem_capacity_def)

lemma limiter_inv_step:
  assumes "limiter_inv m" "limiter_step m m'"
  shows "limiter_inv m'"
  using assms(2)
proof cases
  case (set_limit n)
  let ?s = "(lm_sem m)\<lparr>sem_limit := if n < 0 then 0 else n\<rparr>"
  have "queue_ok (lm_waiting m) (lm_running m \<union> lm_returning m) ?s"
    using assms(1) by (auto simp: limiter_inv_def queue_ok_def)
  moreover have "sem_closed (wakeLocked ?s) \<subseteq> sem_closed (lm_sem m) \<union> lm_waiting m"
    using wake_closed [of ?s] assms(1) by (auto simp: limiter_inv_def queue_ok_def)
  ultimately show ?thesis
    using assms(1) wake_queue_ok wake_no_lost set_limit
    by (fastforce simp: limiter_inv_def SetMaxConcurrentAgents_def setLimit_def)
next
  case (enter_now s)
  have s: "s = (lm_sem m)\<lparr>sem_active := sem_active (lm_sem m) + 1\<rparr>" "sem_waiters (lm_sem m) = []"
    using enter_now(2) by (auto simp: acquire_enter_def split: if_splits)
  have new: "lm_next m \<notin> lm_waiting m" "lm_next m \<notin> lm_running m \<union> lm_returning m"
    using assms(1) by (auto simp: limiter_inv_def)
  have "finite (lm_running m \<union> lm_returning m)" using assms(1) by (simp add: limiter_inv_def queue_ok_def)
  with new have "card (insert (lm_next m) (lm_running m \<union> lm_returning m)) = Suc (card (lm_running m \<union> lm_returning m))"
    by simp
  then have "queue_ok (lm_waiting m) (insert (lm_next m) (lm_running m \<union> lm_returning m)) s"
    using assms(1) new s by (simp add: limiter_inv_def queue_ok_def)
  moreover have "no_lost_wakeup s" using s by (simp add: no_lost_wakeup_def)
  moreover have "\<forall>c \<in> lm_waiting m \<union> insert (lm_next m) (lm_running m) \<union> lm_returning m \<union> sem_closed s. c < Suc (lm_next m)"
    using assms(1) s(1) by (auto simp: limiter_inv_def intro: less_SucI)
  ultimately show ?thesis
    using assms(1) new enter_now(1) by (simp add: limiter_inv_def)
next
  case (enter_wait s)
  have s: "s = (lm_sem m)\<lparr>sem_waiters := sem_waiters (lm_sem m) @ [lm_next m]\<rparr>"
    "\<not> (sem_waiters (lm_sem m) = [] \<and> sem_capacity (lm_sem m))"
    using enter_wait(2) by (auto simp: acquire_enter_def sem_capacity_def split: if_splits)
  have new: "lm_next m \<notin> lm_waiting m" "lm_next m \<notin> sem_closed (lm_sem m)"
    "lm_next m \<notin> lm_running m \<union> lm_returning m"
    using assms(1) by (auto simp: limiter_inv_def)
  have lt: "\<forall>w \<in> set (sem_waiters (lm_sem m)). w < lm_next m"
    using assms(1) by (auto simp: limiter_inv_def queue_ok_def)
  have "insert (lm_next m) (lm_waiting m) \<inter> sem_closed (lm_sem m) = lm_waiting m \<inter> sem_closed (lm_sem m)"
    using new by auto
  moreover have "\<not> sem_capacity (lm_sem m)"
    using s(2) assms(1) by (auto simp: limiter_inv_def no_lost_wakeup_def)
  ultimately show ?thesis
    using assms(1) new lt enter_wait(1) unfolding limiter_inv_def queue_ok_def s(1)
    by (auto simp: sorted_append no_lost_wakeup_def sem_capacity_def less_imp_le less_Suc_eq)
next
  case (ready w)
  then have w: "w \<in> lm_waiting m" "w \<in> sem_closed (lm_sem m)" by (simp_all add: acquire_ready_def)
  then have "queue_ok (lm_waiting m - {w}) (insert w (lm_running m \<union> lm_returning m)) (lm_sem m)"
    using assms(1) queue_ok_move by (simp add: limiter_inv_def)
  then show ?thesis
    using assms(1) w ready(1) by (auto simp: limiter_inv_def queue_ok_def)
next
  case (cancel w s)
  then have s: "w \<in> set (sem_waiters (lm_sem m))" "s = (lm_sem m)\<lparr>sem_waiters := remove1 w (sem_waiters (lm_sem m))\<rparr>"
    by (auto simp: acquire_cancel_def split: if_splits)
  then have "(lm_waiting m - {w}) \<inter> sem_closed (lm_sem m) = lm_waiting m \<inter> sem_closed (lm_sem m)"
    using assms(1) by (auto simp: limiter_inv_def queue_ok_def)
  then show ?thesis
    using assms(1) s cancel(1) unfolding limiter_inv_def queue_ok_def
    by (auto simp: sorted_remove1 no_lost_wakeup_def sem_capacity_def)
next
  case (cancel_late w s)
  then have s: "s = lm_sem m" "w \<in> sem_closed (lm_sem m)" "w \<in> lm_waiting m"
    using assms(1) by (auto simp: acquire_cancel_def limiter_inv_def queue_ok_def split: if_splits)
  then have "queue_ok (lm_waiting m - {w}) (insert w (lm_running m \<union> lm_returning m)) (lm_sem m)"
    using assms(1) queue_ok_move by (simp add: limiter_inv_def)
  then show ?thesis
    using assms(1) s cancel_late(1) by (auto simp: limiter_inv_def queue_ok_def)
next
  case (give_back w)
  let ?s = "(lm_sem m)\<lparr>sem_active := sem_active (lm_sem m) - 1\<rparr>"
  have "lm_running m \<union> (lm_returning m - {w}) = (lm_running m \<union> lm_returning m) - {w}"
    using give_back(2) assms(1) by (auto simp: limiter_inv_def)
  moreover have "card (lm_running m \<union> lm_returning m) = Suc (card (lm_running m \<union> lm_returning m - {w}))"
    using give_back(2) assms(1) by (intro card.remove) (auto simp: limiter_inv_def queue_ok_def)
  ultimately have q: "queue_ok (lm_waiting m) (lm_running m \<union> (lm_returning m - {w})) ?s"
    using assms(1) by (auto simp: limiter_inv_def queue_ok_def)
  have "sem_closed (wakeLocked ?s) \<subseteq> sem_closed (lm_sem m) \<union> lm_waiting m"
    using wake_closed [of ?s] assms(1) by (auto simp: limiter_inv_def queue_ok_def)
  then show ?thesis
    using assms(1) wake_queue_ok [OF q] wake_no_lost give_back(1)
    by (fastforce simp: limiter_inv_def sem_release_def)
next
  case (finish w)
  let ?s = "(lm_sem m)\<lparr>sem_active := sem_active (lm_sem m) - 1\<rparr>"
  have "(lm_running m - {w}) \<union> lm_returning m = (lm_running m \<union> lm_returning m) - {w}"
    using finish(2) assms(1) by (auto simp: limiter_inv_def)
  moreover have "card (lm_running m \<union> lm_returning m) = Suc (card (lm_running m \<union> lm_returning m - {w}))"
    using finish(2) assms(1) by (intro card.remove) (auto simp: limiter_inv_def queue_ok_def)
  ultimately have q: "queue_ok (lm_waiting m) ((lm_running m - {w}) \<union> lm_returning m) ?s"
    using assms(1) by (auto simp: limiter_inv_def queue_ok_def)
  have "sem_closed (wakeLocked ?s) \<subseteq> sem_closed (lm_sem m) \<union> lm_waiting m"
    using wake_closed [of ?s] assms(1) by (auto simp: limiter_inv_def queue_ok_def)
  then show ?thesis
    using assms(1) wake_queue_ok [OF q] wake_no_lost finish(1)
    by (fastforce simp: limiter_inv_def sem_release_def)
qed

lemma limiter_reachable_inv: "limiter_reachable m \<Longrightarrow> limiter_inv m"
proof (induction rule: limiter_reachable.induct)
  case start
  then show ?case by (simp add: limiter_inv_def limiter_init_def queue_ok_def no_lost_wakeup_def)
qed (rule limiter_inv_step)

section \<open>Properties\<close>

text \<open>The calls that occupy the limiter: admitted and not yet given back.\<close>

definition occupied :: "limiter \<Rightarrow> nat" where
  "occupied m = card (lm_waiting m \<inter> sem_closed (lm_sem m)) + card (lm_running m) + card (lm_returning m)"

text \<open>C9. The count of active invocations is exact in every reachable state, however the calls, their
  cancellations and limit changes interleave: it is the number of calls that run, were admitted
  and have not noticed, or were admitted while being cancelled; the queue holds just the other
  waiting calls, in their order of arrival, and is empty whenever there is capacity, so no
  wake-up is ever lost.
\<close>

theorem limiter_exact:
  assumes "limiter_reachable m"
  shows "sem_active (lm_sem m) = int (occupied m) \<and>
    set (sem_waiters (lm_sem m)) = lm_waiting m - sem_closed (lm_sem m) \<and>
    sorted (sem_waiters (lm_sem m)) \<and> distinct (sem_waiters (lm_sem m)) \<and>
    (sem_waiters (lm_sem m) = [] \<or> 0 < sem_limit (lm_sem m) \<and> sem_limit (lm_sem m) \<le> sem_active (lm_sem m))"
proof -
  note i = limiter_reachable_inv [OF assms]
  have "card (lm_running m \<union> lm_returning m) = card (lm_running m) + card (lm_returning m)"
    using i by (intro card_Un_disjoint) (auto simp: limiter_inv_def queue_ok_def)
  then show ?thesis
    using i by (auto simp: limiter_inv_def queue_ok_def occupied_def no_lost_wakeup_def sem_capacity_def)
qed

lemma wake_cap:
  assumes "0 < sem_limit (wakeLocked s)" "sem_active s < sem_active (wakeLocked s)"
  shows "sem_active (wakeLocked s) \<le> sem_limit (wakeLocked s)"
proof -
  have "sem_limit (wakeLocked s) = sem_limit s \<and> (sem_active (wakeLocked s) = sem_active s \<or>
      sem_limit s = 0 \<or> sem_active (wakeLocked s) \<le> sem_limit s)"
    by (rule agent_queue.drain_invariant [of "\<lambda>t. sem_limit t = sem_limit s \<and> (sem_active t = sem_active s \<or>
      sem_limit s = 0 \<or> sem_active t \<le> sem_limit s)"])
      (auto simp: sem_admit_def sem_capacity_def split: list.splits)
  then show ?thesis using assms by auto
qed

text \<open>The cap holds: whatever happens next in a reachable state, if a limit is set after it and the
  number of admitted calls grew, that number is within the limit. (Lowering the limit never
  interrupts calls that already run, so the number may exceed a lowered limit until they end.)
\<close>

theorem limiter_cap:
  assumes "limiter_reachable m" "limiter_step m m'" "occupied m < occupied m'" "0 < sem_limit (lm_sem m')"
  shows "int (occupied m') \<le> sem_limit (lm_sem m')"
proof -
  have grown: "sem_active (lm_sem m) < sem_active (lm_sem m')"
    using limiter_exact [OF assms(1)] limiter_exact [OF limiter_reachable.step [OF assms(1,2)]] assms(3)
    by simp
  have "sem_active (lm_sem m') \<le> sem_limit (lm_sem m')"
    using assms(2)
  proof cases
    case (set_limit n)
    then show ?thesis using grown assms(4) wake_cap
      by (simp add: SetMaxConcurrentAgents_def setLimit_def)
  next
    case (give_back w)
    then show ?thesis using grown assms(4) wake_cap by (simp add: sem_release_def)
  next
    case (finish w)
    then show ?thesis using grown assms(4) wake_cap by (simp add: sem_release_def)
  qed (use grown assms(4) in \<open>auto simp: acquire_enter_def acquire_cancel_def split: if_splits\<close>)
  then show ?thesis using limiter_exact [OF limiter_reachable.step [OF assms(1,2)]] by simp
qed

definition sample_limiter :: "int \<Rightarrow> nat list \<Rightarrow> nat \<Rightarrow> nat set \<Rightarrow> nat set \<Rightarrow> limiter" where
  "sample_limiter active ws n waiting running =
     \<lparr> lm_sem = \<lparr> sem_limit = 1, sem_active = active, sem_waiters = ws, sem_closed = {} \<rparr>,
       lm_next = n, lm_waiting = waiting, lm_running = running, lm_returning = {} \<rparr>"

lemma sample_limiters:
  "limiter_reachable (sample_limiter 0 [] 0 {} {})"
  "limiter_step (sample_limiter 0 [] 0 {} {}) (sample_limiter 1 [] 1 {} {0})"
  "limiter_step (sample_limiter 1 [] 1 {} {0}) (sample_limiter 1 [1] 2 {1} {0})"
proof -
  have "limiter_step limiter_init (limiter_init\<lparr>lm_sem := SetMaxConcurrentAgents 1 (lm_sem limiter_init)\<rparr>)"
    by (rule limiter_step.set_limit)
  moreover have "limiter_init\<lparr>lm_sem := SetMaxConcurrentAgents 1 (lm_sem limiter_init)\<rparr> = sample_limiter 0 [] 0 {} {}"
    by (simp add: limiter_init_def SetMaxConcurrentAgents_def setLimit_def wakeLocked.simps sample_limiter_def)
  ultimately show "limiter_reachable (sample_limiter 0 [] 0 {} {})"
    using limiter_reachable.start limiter_reachable.step by metis
  show "limiter_step (sample_limiter 0 [] 0 {} {}) (sample_limiter 1 [] 1 {} {0})"
    using limiter_step.enter_now [of "sample_limiter 0 [] 0 {} {}"]
    by (simp add: sample_limiter_def acquire_enter_def)
  show "limiter_step (sample_limiter 1 [] 1 {} {0}) (sample_limiter 1 [1] 2 {1} {0})"
    using limiter_step.enter_wait [of "sample_limiter 1 [] 1 {} {0}"]
    by (simp add: sample_limiter_def acquire_enter_def numeral_2_eq_2)
qed

theorem limiter_exact_witness:
  "set (sem_waiters (lm_sem (sample_limiter 1 [1] 2 {1} {0}))) =
     lm_waiting (sample_limiter 1 [1] 2 {1} {0}) - sem_closed (lm_sem (sample_limiter 1 [1] 2 {1} {0}))"
proof -
  have "limiter_reachable (sample_limiter 1 [1] 2 {1} {0})"
    using sample_limiters limiter_reachable.step by blast
  then show ?thesis using limiter_exact by blast
qed

theorem limiter_cap_witness:
  "int (occupied (sample_limiter 1 [] 1 {} {0})) \<le> sem_limit (lm_sem (sample_limiter 1 [] 1 {} {0}))"
proof (rule limiter_cap)
  show "limiter_reachable (sample_limiter 0 [] 0 {} {})"
    "limiter_step (sample_limiter 0 [] 0 {} {}) (sample_limiter 1 [] 1 {} {0})"
    using sample_limiters by blast+
qed (simp_all add: sample_limiter_def occupied_def)

end
