(* ===== verification/Scheduler.thy ===== *)
theory Scheduler
  imports Admission "HOL-Library.Multiset"
begin

text \<open>
  The run scheduler of \<open>internal/daemon/scheduler.go\<close>. Every critical section of the code is one
  function on the scheduler, on one slot, or on both; what a goroutine still has to do between two
  sections is a continuation of the system state, and the step relation interleaves the sections
  of all goroutines freely. Slots and waiters are numbers. The live limits that \<open>refresh\<close> reads and
  the outcome of \<open>start\<close> (which lies in the run manager and the database) are inputs of the steps.
\<close>

section \<open>State\<close>

record slotScheduler =
  sd_max :: int
  sd_hold :: bool
  sd_active :: int
  sd_retrying :: bool
  sd_held :: bool
  sd_yielded :: int
  sd_parkedHeld :: "nat list"
  sd_prio :: "nat list"
  sd_queued :: "string list"
  sd_granted :: "nat set"
  sd_runID :: "nat \<Rightarrow> string"
  sd_next :: nat

record runSlot =
  sl_runID :: string
  sl_held :: bool
  sl_yielded :: bool
  sl_parkedHeld :: bool
  sl_pending :: "nat option"
  sl_flight :: bool

definition new_slot :: "string \<Rightarrow> runSlot" where
  "new_slot r = \<lparr> sl_runID = r, sl_held = True, sl_yielded = False, sl_parkedHeld = False,
     sl_pending = None, sl_flight = False \<rparr>"

definition newSlotScheduler :: slotScheduler where
  "newSlotScheduler = \<lparr> sd_max = 0, sd_hold = False, sd_active = 0, sd_retrying = False,
     sd_held = False, sd_yielded = 0, sd_parkedHeld = [], sd_prio = [], sd_queued = [],
     sd_granted = {}, sd_runID = (\<lambda>_. []), sd_next = 0 \<rparr>"

section \<open>Scheduler sections\<close>

definition capacityLocked :: "slotScheduler \<Rightarrow> bool" where
  "capacityLocked s \<longleftrightarrow> sd_max s = 0 \<or> sd_active s < sd_max s"

text \<open>\<open>refresh\<close>: the limits are applied; the parked slots to release when the hold was switched off.\<close>

definition refresh_apply :: "int \<Rightarrow> bool \<Rightarrow> slotScheduler \<Rightarrow> slotScheduler \<times> nat list" where
  "refresh_apply mx hold s =
     (let mx' = (if mx < 0 then 0 else mx); releasing = (sd_hold s \<and> \<not> hold) in
      (s\<lparr>sd_max := mx', sd_hold := hold\<rparr>, if releasing then sd_parkedHeld s else []))"

definition tryAdmit :: "string \<Rightarrow> slotScheduler \<Rightarrow> (slotScheduler \<times> runSlot) option" where
  "tryAdmit r s =
     (if \<not> capacityLocked s \<or> sd_prio s \<noteq> [] \<or> sd_queued s \<noteq> [] then None
      else Some (s\<lparr>sd_active := sd_active s + 1\<rparr>, new_slot r))"

definition enqueue :: "string \<Rightarrow> slotScheduler \<Rightarrow> slotScheduler" where
  "enqueue r s = s\<lparr>sd_queued := sd_queued s @ [r]\<rparr>"

definition restoreQueue :: "string list \<Rightarrow> slotScheduler \<Rightarrow> slotScheduler" where
  "restoreQueue ids s = s\<lparr>sd_queued := ids\<rparr>"

definition removeQueuedLocked :: "string \<Rightarrow> slotScheduler \<Rightarrow> slotScheduler \<times> bool" where
  "removeQueuedLocked r s =
     (if r \<in> set (sd_queued s) then (s\<lparr>sd_queued := remove1 r (sd_queued s)\<rparr>, True) else (s, False))"

text \<open>One iteration of the loop in \<open>dispatch\<close>.\<close>

datatype dispatched =
    Stop
  | Granted slotScheduler nat
  | Started slotScheduler runSlot
  | NotClaimed

definition dispatch_one :: "(string \<Rightarrow> bool) \<Rightarrow> slotScheduler \<Rightarrow> dispatched" where
  "dispatch_one claims s =
     (if \<not> capacityLocked s then Stop
      else case sd_prio s of
          w # ws \<Rightarrow> Granted (s\<lparr>sd_prio := ws, sd_active := sd_active s + 1,
                             sd_granted := insert w (sd_granted s)\<rparr>) w
        | [] \<Rightarrow>
            (case sd_queued s of
               [] \<Rightarrow> Stop
             | r # rs \<Rightarrow>
                 if sd_retrying s \<or> sd_held s then Stop
                 else if claims r
                 then Started (s\<lparr>sd_active := sd_active s + 1, sd_queued := rs\<rparr>) (new_slot r)
                 else NotClaimed))"

definition requestSlotLocked :: "string \<Rightarrow> slotScheduler \<Rightarrow> slotScheduler \<times> nat" where
  "requestSlotLocked r s =
     (let w = sd_next s; s1 = s\<lparr>sd_next := Suc w, sd_runID := (sd_runID s)(w := r)\<rparr> in
      if capacityLocked s \<and> sd_prio s = []
      then (s1\<lparr>sd_active := sd_active s + 1, sd_granted := insert w (sd_granted s)\<rparr>, w)
      else (s1\<lparr>sd_prio := sd_prio s @ [w]\<rparr>, w))"

definition cancelWaiterLocked :: "nat \<Rightarrow> slotScheduler \<Rightarrow> slotScheduler" where
  "cancelWaiterLocked w s =
     (if w \<in> sd_granted s then s\<lparr>sd_active := sd_active s - 1\<rparr>
      else s\<lparr>sd_prio := remove1 w (sd_prio s)\<rparr>)"

section \<open>Slot sections\<close>

text \<open>
  \<open>release\<close>: the section under the slot's own lock, which hands what it found to the section under
  the scheduler's lock. None: there is nothing to release.
\<close>

record release_found =
  re_pending :: "nat option"
  re_wasHeld :: bool
  re_wasYielded :: bool
  re_yield :: bool

definition release_slot :: "bool \<Rightarrow> runSlot \<Rightarrow> runSlot \<times> release_found option" where
  "release_slot yield t =
     (let pending = (if yield then None else sl_pending t);
          t1 = (if yield then t else t\<lparr>sl_pending := None\<rparr>) in
      if pending = None \<and> \<not> sl_held t \<and> \<not> (sl_yielded t \<and> \<not> yield) then (t1, None)
      else (t1\<lparr>sl_parkedHeld := False, sl_held := False, sl_yielded := yield\<rparr>,
            Some \<lparr> re_pending = pending, re_wasHeld = sl_held t, re_wasYielded = sl_yielded t,
                   re_yield = yield \<rparr>))"

definition release_counts :: "nat \<Rightarrow> release_found \<Rightarrow> slotScheduler \<Rightarrow> slotScheduler" where
  "release_counts i r s =
     (let s1 = s\<lparr>sd_parkedHeld := removeAll i (sd_parkedHeld s)\<rparr>;
          s2 = (case re_pending r of None \<Rightarrow> s1 | Some w \<Rightarrow> cancelWaiterLocked w s1);
          s3 = (if re_wasHeld r then s2\<lparr>sd_active := sd_active s2 - 1\<rparr> else s2) in
      if re_yield r \<and> \<not> re_wasYielded r then s3\<lparr>sd_yielded := sd_yielded s3 + 1\<rparr>
      else if \<not> re_yield r \<and> re_wasYielded r then s3\<lparr>sd_yielded := sd_yielded s3 - 1\<rparr>
      else s3)"

definition markParkedHeld :: "nat \<Rightarrow> runSlot \<Rightarrow> slotScheduler \<Rightarrow> runSlot \<times> slotScheduler \<times> bool" where
  "markParkedHeld i t s =
     (if \<not> sd_hold s then (t, s, False)
      else if sl_held t
      then (t\<lparr>sl_parkedHeld := True\<rparr>, s\<lparr>sd_parkedHeld := List.insert i (sd_parkedHeld s)\<rparr>, True)
      else (t, s, True))"

definition releaseParked_slot :: "runSlot \<Rightarrow> runSlot \<times> bool" where
  "releaseParked_slot t =
     (if \<not> sl_held t \<or> \<not> sl_parkedHeld t then (t, False)
      else (t\<lparr>sl_parkedHeld := False, sl_held := False, sl_yielded := True\<rparr>, True))"

definition releaseParked_counts :: "nat \<Rightarrow> slotScheduler \<Rightarrow> slotScheduler" where
  "releaseParked_counts i s =
     s\<lparr>sd_parkedHeld := removeAll i (sd_parkedHeld s), sd_active := sd_active s - 1,
       sd_yielded := sd_yielded s + 1\<rparr>"

definition Reserve :: "nat \<Rightarrow> runSlot \<Rightarrow> slotScheduler \<Rightarrow> runSlot \<times> slotScheduler" where
  "Reserve i t s =
     (if sl_held t
      then (t\<lparr>sl_parkedHeld := False\<rparr>, s\<lparr>sd_parkedHeld := removeAll i (sd_parkedHeld s)\<rparr>)
      else if sl_pending t = None \<and> \<not> sl_flight t
      then (let (s', w) = requestSlotLocked (sl_runID t) s in (t\<lparr>sl_pending := Some w\<rparr>, s'))
      else (t, s))"

text \<open>The middle of \<open>Acquire\<close>, after its \<open>Reserve\<close>.\<close>

datatype acquire_choice = AlreadyHeld | WaitForFlight | Retry | Take nat

definition acquire_middle :: "runSlot \<Rightarrow> runSlot \<times> acquire_choice" where
  "acquire_middle t =
     (if sl_held t then (t, AlreadyHeld)
      else if sl_flight t then (t, WaitForFlight)
      else case sl_pending t of
          None \<Rightarrow> (t, Retry)
        | Some w \<Rightarrow> (t\<lparr>sl_pending := None, sl_flight := True\<rparr>, Take w))"

text \<open>\<open>setHeld\<close>: the slot, and whether the count of yielded runs goes down after it.\<close>

definition setHeld_slot :: "runSlot \<Rightarrow> runSlot \<times> bool" where
  "setHeld_slot t = (t\<lparr>sl_held := True, sl_yielded := False\<rparr>, sl_yielded t)"

definition setHeld_counts :: "slotScheduler \<Rightarrow> slotScheduler" where
  "setHeld_counts s = s\<lparr>sd_yielded := sd_yielded s - 1\<rparr>"

definition end_flight :: "runSlot \<Rightarrow> runSlot" where
  "end_flight t = t\<lparr>sl_flight := False\<rparr>"

section \<open>Status surfaces\<close>

record slotStats =
  ss_Max :: int
  ss_Hold :: bool
  ss_Active :: int
  ss_Queued :: int
  ss_Yielded :: int

definition sched_stats :: "slotScheduler \<Rightarrow> slotStats" where
  "sched_stats s = \<lparr> ss_Max = sd_max s, ss_Hold = sd_hold s, ss_Active = sd_active s,
     ss_Queued = int (length (sd_queued s)) + int (length (sd_prio s)), ss_Yielded = sd_yielded s \<rparr>"

fun index_of :: "('a \<Rightarrow> bool) \<Rightarrow> nat \<Rightarrow> 'a list \<Rightarrow> nat option" where
  "index_of P i [] = None"
| "index_of P i (x # xs) = (if P x then Some i else index_of P (Suc i) xs)"

text \<open>\<open>annotate\<close>: the queue position, the queue total and the waiting flag, when the run waits.\<close>

definition annotate :: "string \<Rightarrow> slotScheduler \<Rightarrow> (nat \<times> nat \<times> bool) option" where
  "annotate r s =
     (let total = length (sd_prio s) + length (sd_queued s) in
      case index_of (\<lambda>w. sd_runID s w = r) 0 (sd_prio s) of
        Some i \<Rightarrow> Some (i + 1, total, True)
      | None \<Rightarrow>
          (case index_of (\<lambda>i. i = r) 0 (sd_queued s) of
             Some i \<Rightarrow> Some (length (sd_prio s) + i + 1, total, False)
           | None \<Rightarrow> None))"

section \<open>The dispatch loop\<close>

text \<open>The loop run to its end without interruption; \<open>claims\<close> tells which starts succeed.\<close>

definition dispatch_admit :: "(string \<Rightarrow> bool) \<Rightarrow> slotScheduler \<Rightarrow> slotScheduler option" where
  "dispatch_admit claims s =
     (case dispatch_one claims s of
        Granted s' w \<Rightarrow> Some s'
      | Started s' t \<Rightarrow> Some s'
      | Stop \<Rightarrow> None
      | NotClaimed \<Rightarrow> None)"

definition start_order :: "slotScheduler \<Rightarrow> (nat + string) list" where
  "start_order s = map Inl (sd_prio s) @ map Inr (sd_queued s)"

function dispatch :: "(string \<Rightarrow> bool) \<Rightarrow> slotScheduler \<Rightarrow> slotScheduler" where
  "dispatch claims s =
     (if start_order s \<noteq> [] \<and> capacityLocked s
      then (case dispatch_admit claims s of None \<Rightarrow> s | Some s' \<Rightarrow> dispatch claims s')
      else s)"
  by auto
termination
  by (relation "measure (\<lambda>(c, s). length (start_order s))")
    (auto simp: dispatch_admit_def dispatch_one_def start_order_def split: list.splits if_splits)

declare dispatch.simps [simp del]

interpretation run_queue: admission_loop start_order capacityLocked "dispatch_admit claims" "dispatch claims"
  for claims
proof
  show "dispatch claims s = (if start_order s \<noteq> [] \<and> capacityLocked s
      then (case dispatch_admit claims s of None \<Rightarrow> s | Some s' \<Rightarrow> dispatch claims s') else s)" for s
    by (rule dispatch.simps)
qed (auto simp: dispatch_admit_def dispatch_one_def start_order_def split: list.splits if_splits)

section \<open>The system\<close>

datatype continuation =
    ReleaseC nat release_found
  | ParkTryC nat
  | ParkC nat
  | WaitC nat nat
  | HeldC nat bool
  | EndC nat

record sched_system =
  sy_s :: slotScheduler
  sy_slots :: "runSlot list"
  sy_conts :: "continuation multiset"

definition sched_init :: sched_system where
  "sched_init = \<lparr> sy_s = newSlotScheduler, sy_slots = [], sy_conts = {#} \<rparr>"

inductive sched_step :: "sched_system \<Rightarrow> sched_system \<Rightarrow> bool" where
  refresh: "refresh_apply mx hold (sy_s d) = (s, parked) \<Longrightarrow>
    sched_step d (d\<lparr>sy_s := s, sy_conts := sy_conts d + mset (map ParkTryC parked)\<rparr>)"
| flags: "sched_step d (d\<lparr>sy_s := (sy_s d)\<lparr>sd_retrying := b, sd_held := h\<rparr>\<rparr>)"
| try_admit: "tryAdmit r (sy_s d) = Some (s, t) \<Longrightarrow>
    sched_step d (d\<lparr>sy_s := s, sy_slots := sy_slots d @ [t]\<rparr>)"
| enqueue: "sched_step d (d\<lparr>sy_s := enqueue r (sy_s d)\<rparr>)"
| restore: "sched_step d (d\<lparr>sy_s := restoreQueue ids (sy_s d)\<rparr>)"
| remove: "removeQueuedLocked r (sy_s d) = (s, b) \<Longrightarrow> sched_step d (d\<lparr>sy_s := s\<rparr>)"
| grant: "dispatch_one claims (sy_s d) = Granted s w \<Longrightarrow> sched_step d (d\<lparr>sy_s := s\<rparr>)"
| start: "dispatch_one claims (sy_s d) = Started s t \<Longrightarrow>
    sched_step d (d\<lparr>sy_s := s, sy_slots := sy_slots d @ [t]\<rparr>)"
| release1: "i < length (sy_slots d) \<Longrightarrow> release_slot yield (sy_slots d ! i) = (t, Some f) \<Longrightarrow>
    sched_step d (d\<lparr>sy_slots := (sy_slots d)[i := t], sy_conts := add_mset (ReleaseC i f) (sy_conts d)\<rparr>)"
| release1_none: "i < length (sy_slots d) \<Longrightarrow> release_slot yield (sy_slots d ! i) = (t, None) \<Longrightarrow>
    sched_step d (d\<lparr>sy_slots := (sy_slots d)[i := t]\<rparr>)"
| release2: "sy_conts d = add_mset (ReleaseC i f) C \<Longrightarrow>
    sched_step d (d\<lparr>sy_s := release_counts i f (sy_s d), sy_conts := C\<rparr>)"
| mark: "i < length (sy_slots d) \<Longrightarrow> markParkedHeld i (sy_slots d ! i) (sy_s d) = (t, s, b) \<Longrightarrow>
    sched_step d (d\<lparr>sy_s := s, sy_slots := (sy_slots d)[i := t]\<rparr>)"
| park_try: "sy_conts d = add_mset (ParkTryC i) C \<Longrightarrow> i < length (sy_slots d) \<Longrightarrow>
    releaseParked_slot (sy_slots d ! i) = (t, b) \<Longrightarrow>
    sched_step d (d\<lparr>sy_slots := (sy_slots d)[i := t],
      sy_conts := (if b then add_mset (ParkC i) C else C)\<rparr>)"
| park2: "sy_conts d = add_mset (ParkC i) C \<Longrightarrow>
    sched_step d (d\<lparr>sy_s := releaseParked_counts i (sy_s d), sy_conts := C\<rparr>)"
| reserve: "i < length (sy_slots d) \<Longrightarrow> Reserve i (sy_slots d ! i) (sy_s d) = (t, s) \<Longrightarrow>
    sched_step d (d\<lparr>sy_s := s, sy_slots := (sy_slots d)[i := t]\<rparr>)"
| take: "i < length (sy_slots d) \<Longrightarrow> acquire_middle (sy_slots d ! i) = (t, Take w) \<Longrightarrow>
    sched_step d (d\<lparr>sy_slots := (sy_slots d)[i := t], sy_conts := add_mset (WaitC i w) (sy_conts d)\<rparr>)"
| wait_ready: "sy_conts d = add_mset (WaitC i w) C \<Longrightarrow> w \<in> sd_granted (sy_s d) \<Longrightarrow>
    i < length (sy_slots d) \<Longrightarrow> setHeld_slot (sy_slots d ! i) = (t, b) \<Longrightarrow>
    sched_step d (d\<lparr>sy_slots := (sy_slots d)[i := t], sy_conts := add_mset (HeldC i b) C\<rparr>)"
| wait_cancel: "sy_conts d = add_mset (WaitC i w) C \<Longrightarrow>
    sched_step d (d\<lparr>sy_s := cancelWaiterLocked w (sy_s d), sy_conts := add_mset (EndC i) C\<rparr>)"
| held2: "sy_conts d = add_mset (HeldC i b) C \<Longrightarrow>
    sched_step d (d\<lparr>sy_s := (if b then setHeld_counts (sy_s d) else sy_s d), sy_conts := add_mset (EndC i) C\<rparr>)"
| end_flight: "sy_conts d = add_mset (EndC i) C \<Longrightarrow> i < length (sy_slots d) \<Longrightarrow>
    sched_step d (d\<lparr>sy_slots := (sy_slots d)[i := end_flight (sy_slots d ! i)], sy_conts := C\<rparr>)"

inductive sched_reachable :: "sched_system \<Rightarrow> bool" where
  init: "sched_reachable sched_init"
| step: "sched_reachable d \<Longrightarrow> sched_step d d' \<Longrightarrow> sched_reachable d'"

section \<open>Counting\<close>

definition slot_places :: "runSlot \<Rightarrow> nat multiset" where
  "slot_places t = (case sl_pending t of None \<Rightarrow> {#} | Some w \<Rightarrow> {#w#})"

definition found_places :: "release_found \<Rightarrow> nat multiset" where
  "found_places f = (case re_pending f of None \<Rightarrow> {#} | Some w \<Rightarrow> {#w#})"

fun cont_places :: "continuation \<Rightarrow> nat multiset" where
  "cont_places (ReleaseC i f) = found_places f"
| "cont_places (WaitC i w) = {#w#}"
| "cont_places _ = {#}"

text \<open>The contribution of a continuation to the counts that its second section will settle.\<close>

fun cont_held :: "continuation \<Rightarrow> int" where
  "cont_held (ReleaseC i f) = of_bool (re_wasHeld f)"
| "cont_held (ParkC i) = 1"
| "cont_held _ = 0"

fun cont_yielded :: "continuation \<Rightarrow> int" where
  "cont_yielded (ReleaseC i f) =
     (if re_yield f \<and> \<not> re_wasYielded f then 1 else if \<not> re_yield f \<and> re_wasYielded f then - 1 else 0)"
| "cont_yielded (ParkC i) = 1"
| "cont_yielded (HeldC i b) = (if b then - 1 else 0)"
| "cont_yielded _ = 0"

fun cont_slot :: "continuation \<Rightarrow> nat" where
  "cont_slot (ReleaseC i f) = i"
| "cont_slot (ParkTryC i) = i"
| "cont_slot (ParkC i) = i"
| "cont_slot (WaitC i w) = i"
| "cont_slot (HeldC i b) = i"
| "cont_slot (EndC i) = i"

fun in_flight :: "nat \<Rightarrow> continuation \<Rightarrow> bool" where
  "in_flight j (WaitC i w) = (i = j)"
| "in_flight j (HeldC i b) = (i = j)"
| "in_flight j (EndC i) = (i = j)"
| "in_flight j _ = False"

definition held_total :: "sched_system \<Rightarrow> int" where
  "held_total d = int (length (filter sl_held (sy_slots d))) + (\<Sum>c\<in>#sy_conts d. cont_held c)"

definition yielded_total :: "sched_system \<Rightarrow> int" where
  "yielded_total d = int (length (filter sl_yielded (sy_slots d))) - (\<Sum>c\<in>#sy_conts d. cont_yielded c)"

definition waiter_places :: "sched_system \<Rightarrow> nat multiset" where
  "waiter_places d = (\<Sum>t\<in>#mset (sy_slots d). slot_places t) + (\<Sum>c\<in>#sy_conts d. cont_places c)"

definition counts_ok :: "slotScheduler \<Rightarrow> int \<Rightarrow> int \<Rightarrow> nat multiset \<Rightarrow> bool" where
  "counts_ok s H Y P \<longleftrightarrow>
     sd_active s = H + int (size (filter_mset (\<lambda>w. w \<in> sd_granted s) P)) \<and> sd_yielded s = Y \<and>
     mset (sd_prio s) = filter_mset (\<lambda>w. w \<notin> sd_granted s) P \<and> (\<forall>w. count P w \<le> 1) \<and>
     (\<forall>w \<in># P. w < sd_next s) \<and> (\<forall>w \<in> sd_granted s. w < sd_next s) \<and> sorted_wrt (<) (sd_prio s)"

definition slots_ok :: "sched_system \<Rightarrow> bool" where
  "slots_ok d \<longleftrightarrow>
     (\<forall>c \<in># sy_conts d. cont_slot c < length (sy_slots d)) \<and>
     (\<forall>i \<in> set (sd_parkedHeld (sy_s d)). i < length (sy_slots d)) \<and>
     (\<forall>i < length (sy_slots d).
        size (filter_mset (in_flight i) (sy_conts d)) = (if sl_flight (sy_slots d ! i) then 1 else 0) \<and>
        (\<forall>w. WaitC i w \<in># sy_conts d \<longrightarrow> \<not> sl_held (sy_slots d ! i)) \<and>
        \<not> (sl_held (sy_slots d ! i) \<and> sl_yielded (sy_slots d ! i)) \<and>
        (sl_pending (sy_slots d ! i) \<noteq> None \<longrightarrow> \<not> sl_held (sy_slots d ! i) \<and> \<not> sl_flight (sy_slots d ! i)))"

definition sched_inv :: "sched_system \<Rightarrow> bool" where
  "sched_inv d \<longleftrightarrow> counts_ok (sy_s d) (held_total d) (yielded_total d) (waiter_places d) \<and> slots_ok d"

subsection \<open>The counts through each section\<close>

lemma counts_prio_head:
  assumes "counts_ok s H Y P" "sd_prio s = w # ws"
  shows "w \<in># P \<and> w \<notin> sd_granted s \<and> mset ws = filter_mset (\<lambda>v. v \<notin> sd_granted s) (P - {#w#})"
proof -
  have m: "add_mset w (mset ws) = filter_mset (\<lambda>v. v \<notin> sd_granted s) P"
    using assms by (simp add: counts_ok_def)
  then have "w \<in># filter_mset (\<lambda>v. v \<notin> sd_granted s) P" by (metis union_single_eq_member)
  then show ?thesis using m by (auto dest!: multi_member_split)
qed

lemma counts_grant:
  assumes "counts_ok s H Y P" "dispatch_one claims s = Granted s' w"
  shows "counts_ok s' H Y P"
proof -
  obtain ws where p: "sd_prio s = w # ws" and s': "s' = s\<lparr>sd_prio := ws, sd_active := sd_active s + 1,
      sd_granted := insert w (sd_granted s)\<rparr>"
    using assms(2) by (auto simp: dispatch_one_def split: if_splits list.splits)
  obtain Q where Q: "P = add_mset w Q" "w \<notin> sd_granted s" "mset ws = filter_mset (\<lambda>v. v \<notin> sd_granted s) Q"
    using counts_prio_head [OF assms(1) p] by (metis add_mset_remove_trivial insert_DiffM)
  have "count Q w = 0" using assms(1) Q(1) by (auto simp: counts_ok_def dest: spec [of _ w])
  then have "w \<notin># Q" by (simp add: not_in_iff)
  then have g: "filter_mset (\<lambda>v. v \<in> insert w (sd_granted s)) Q = filter_mset (\<lambda>v. v \<in> sd_granted s) Q"
    "filter_mset (\<lambda>v. v \<notin> insert w (sd_granted s)) Q = filter_mset (\<lambda>v. v \<notin> sd_granted s) Q"
    by (auto intro!: filter_mset_cong)
  show ?thesis using assms(1) Q g by (simp add: counts_ok_def s' p)
qed

lemma counts_start:
  "counts_ok s H Y P \<Longrightarrow> dispatch_one claims s = Started s' t \<Longrightarrow> counts_ok s' (H + 1) Y P \<and>
     (\<exists>r. t = new_slot r) \<and> sd_parkedHeld s' = sd_parkedHeld s"
  by (auto simp: dispatch_one_def counts_ok_def split: if_splits list.splits)

lemma counts_request:
  assumes "counts_ok s H Y P" "requestSlotLocked r s = (s', w)"
  shows "counts_ok s' H Y (add_mset w P)"
proof -
  have w: "w = sd_next s" "sd_next s' = Suc w" using assms(2) by (auto simp: requestSlotLocked_def Let_def split: if_splits)
  have new: "w \<notin># P" "w \<notin> sd_granted s" "\<forall>v \<in># P. v < w" "\<forall>v \<in> sd_granted s. v < w"
    using assms(1) w(1) by (auto simp: counts_ok_def)
  have g: "filter_mset (\<lambda>v. v \<in> insert w (sd_granted s)) P = filter_mset (\<lambda>v. v \<in> sd_granted s) P"
    "filter_mset (\<lambda>v. v \<notin> insert w (sd_granted s)) P = filter_mset (\<lambda>v. v \<notin> sd_granted s) P"
    using new(1) by (auto intro!: filter_mset_cong)
  have c: "\<forall>v. count (add_mset w P) v \<le> 1"
    using assms(1) new(1) by (auto simp: counts_ok_def not_in_iff)
  have lt: "\<forall>v \<in> set (sd_prio s). v < w"
  proof
    fix v assume "v \<in> set (sd_prio s)"
    then have "v \<in># filter_mset (\<lambda>v. v \<notin> sd_granted s) P"
      using assms(1) by (metis counts_ok_def set_mset_mset)
    then show "v < w" using new(3) by simp
  qed
  show ?thesis
  proof (cases "capacityLocked s \<and> sd_prio s = []")
    case True
    then have "s' = s\<lparr>sd_next := Suc w, sd_runID := (sd_runID s)(w := r), sd_active := sd_active s + 1,
        sd_granted := insert w (sd_granted s)\<rparr>"
      using assms(2) w by (auto simp: requestSlotLocked_def Let_def)
    then show ?thesis using assms(1) new g c True
      by (auto simp: counts_ok_def intro: less_SucI)
  next
    case False
    then have "s' = s\<lparr>sd_next := Suc w, sd_runID := (sd_runID s)(w := r), sd_prio := sd_prio s @ [w]\<rparr>"
      using assms(2) w by (auto simp: requestSlotLocked_def Let_def)
    then show ?thesis using assms(1) new c lt
      by (auto simp: counts_ok_def sorted_wrt_append intro: less_SucI)
  qed
qed

lemma counts_smaller:
  assumes "counts_ok s H Y (add_mset w P)"
  shows "count P v \<le> 1"
proof -
  have "count (add_mset w P) v \<le> 1" using assms unfolding counts_ok_def by blast
  then show ?thesis by (simp split: if_splits)
qed

lemma counts_cancel:
  assumes "counts_ok s H Y (add_mset w P)"
  shows "counts_ok (cancelWaiterLocked w s) H Y P"
proof -
  note c = counts_smaller [OF assms]
  show ?thesis
  proof (cases "w \<in> sd_granted s")
    case True
    then show ?thesis using assms c by (auto simp: counts_ok_def cancelWaiterLocked_def)
  next
    case False
    then have "mset (remove1 w (sd_prio s)) = filter_mset (\<lambda>v. v \<notin> sd_granted s) P"
      using assms by (simp add: counts_ok_def)
    moreover have "sorted_wrt (<) (remove1 w (sd_prio s))"
      using assms by (auto simp: counts_ok_def strict_sorted_iff sorted_remove1)
    ultimately show ?thesis using assms c False by (auto simp: counts_ok_def cancelWaiterLocked_def)
  qed
qed

lemma counts_consume:
  assumes "counts_ok s H Y (add_mset w P)" "w \<in> sd_granted s"
  shows "counts_ok s (H + 1) Y P"
  using assms counts_smaller [OF assms(1)] by (auto simp: counts_ok_def)

lemma counts_release:
  assumes "counts_ok s H Y (P + found_places f)"
  shows "counts_ok (release_counts i f s) (H - of_bool (re_wasHeld f)) (Y + cont_yielded (ReleaseC i f)) P"
proof -
  define s1 where "s1 = s\<lparr>sd_parkedHeld := removeAll i (sd_parkedHeld s)\<rparr>"
  define s2 where "s2 = (case re_pending f of None \<Rightarrow> s1 | Some w \<Rightarrow> cancelWaiterLocked w s1)"
  have "counts_ok s1 H Y (P + found_places f)" using assms by (simp add: counts_ok_def s1_def)
  then have "counts_ok s2 H Y P"
    using counts_cancel by (auto simp: s2_def found_places_def split: option.splits)
  then show ?thesis
    by (auto simp: release_counts_def Let_def counts_ok_def s1_def [symmetric] s2_def [symmetric])
qed

lemma counts_settle:
  assumes "counts_ok s H Y P"
  shows "counts_ok (releaseParked_counts i s) (H - 1) (Y + 1) P"
    and "counts_ok (setHeld_counts s) H (Y - 1) P"
  using assms by (simp_all add: counts_ok_def releaseParked_counts_def setHeld_counts_def)

subsection \<open>Changing one slot\<close>

lemma length_filter_update:
  "i < length xs \<Longrightarrow> int (length (filter P (xs[i := t]))) =
     int (length (filter P xs)) - of_bool (P (xs ! i)) + of_bool (P t)"
proof (induction xs arbitrary: i)
  case (Cons a xs)
  show ?case
  proof (cases i)
    case (Suc k)
    then have "int (length (filter P (xs[k := t]))) = int (length (filter P xs)) - of_bool (P (xs ! k)) + of_bool (P t)"
      using Cons by simp
    then show ?thesis using Suc by (cases "P a") simp_all
  qed (cases "P a"; cases "P t"; simp)
qed simp

lemma places_update:
  "i < length xs \<Longrightarrow> (\<Sum>u\<in>#mset (xs[i := t]). slot_places u) + slot_places (xs ! i) =
     (\<Sum>u\<in>#mset xs. slot_places u) + slot_places t"
  by (induction xs arbitrary: i) (auto simp: ac_simps split: nat.split)

lemma places_update_same:
  assumes "i < length xs" "slot_places t = slot_places (xs ! i)"
  shows "(\<Sum>u\<in>#mset (xs[i := t]). slot_places u) = (\<Sum>u\<in>#mset xs. slot_places u)"
  using places_update [OF assms(1), of t] assms(2) by simp

lemma places_update_new:
  assumes "i < length xs" "slot_places (xs ! i) = {#}"
  shows "(\<Sum>u\<in>#mset (xs[i := t]). slot_places u) = (\<Sum>u\<in>#mset xs. slot_places u) + slot_places t"
  using places_update [OF assms(1), of t] assms(2) by simp

lemma places_update_gone:
  assumes "i < length xs" "slot_places t = {#}"
  shows "(\<Sum>u\<in>#mset xs. slot_places u) = (\<Sum>u\<in>#mset (xs[i := t]). slot_places u) + slot_places (xs ! i)"
  using places_update [OF assms(1), of t] assms(2) by simp

definition slot_ok :: "nat \<Rightarrow> runSlot \<Rightarrow> continuation multiset \<Rightarrow> bool" where
  "slot_ok i t C \<longleftrightarrow>
     size (filter_mset (in_flight i) C) = (if sl_flight t then 1 else 0) \<and>
     (\<forall>w. WaitC i w \<in># C \<longrightarrow> \<not> sl_held t) \<and> \<not> (sl_held t \<and> sl_yielded t) \<and>
     (sl_pending t \<noteq> None \<longrightarrow> \<not> sl_held t \<and> \<not> sl_flight t)"

lemma slots_ok_iff:
  "slots_ok d \<longleftrightarrow> (\<forall>c \<in># sy_conts d. cont_slot c < length (sy_slots d)) \<and>
     (\<forall>i \<in> set (sd_parkedHeld (sy_s d)). i < length (sy_slots d)) \<and>
     (\<forall>i < length (sy_slots d). slot_ok i (sy_slots d ! i) (sy_conts d))"
  by (simp add: slots_ok_def slot_ok_def)

lemma slot_ok_cong:
  "filter_mset (in_flight i) C' = filter_mset (in_flight i) C \<Longrightarrow> slot_ok i t C' = slot_ok i t C"
proof -
  assume f: "filter_mset (in_flight i) C' = filter_mset (in_flight i) C"
  have "WaitC i w \<in># C' \<longleftrightarrow> WaitC i w \<in># C" for w
    using arg_cong [OF f, of "\<lambda>X. WaitC i w \<in># X"] by simp
  then show ?thesis using f by (simp add: slot_ok_def)
qed

lemma slots_ok_one:
  assumes "slots_ok d" "i < length (sy_slots d)" "sy_slots d' = (sy_slots d)[i := t]"
    and "\<forall>c \<in># sy_conts d'. cont_slot c < length (sy_slots d)"
    and "set (sd_parkedHeld (sy_s d')) \<subseteq> insert i (set (sd_parkedHeld (sy_s d)))"
    and "\<And>j. j \<noteq> i \<Longrightarrow> filter_mset (in_flight j) (sy_conts d') = filter_mset (in_flight j) (sy_conts d)"
    and "slot_ok i (sy_slots d ! i) (sy_conts d) \<Longrightarrow> slot_ok i t (sy_conts d')"
  shows "slots_ok d'"
proof -
  have "slot_ok j (sy_slots d' ! j) (sy_conts d')" if "j < length (sy_slots d)" for j
    using that assms slot_ok_cong [OF assms(6)] by (cases "j = i") (auto simp: slots_ok_iff)
  then show ?thesis using assms(1-5) by (auto simp: slots_ok_iff)
qed

lemma slots_ok_none:
  assumes "slots_ok d" "sy_slots d' = sy_slots d"
    and "\<forall>c \<in># sy_conts d'. cont_slot c < length (sy_slots d)"
    and "set (sd_parkedHeld (sy_s d')) \<subseteq> set (sd_parkedHeld (sy_s d))"
    and "\<And>j. filter_mset (in_flight j) (sy_conts d') = filter_mset (in_flight j) (sy_conts d)"
  shows "slots_ok d'"
  using assms slot_ok_cong [OF assms(5)] by (auto simp: slots_ok_iff)

lemma slots_ok_new:
  assumes "slots_ok d" "sy_slots d' = sy_slots d @ [new_slot r]" "sy_conts d' = sy_conts d"
    "sd_parkedHeld (sy_s d') = sd_parkedHeld (sy_s d)"
  shows "slots_ok d'"
proof -
  have "cont_slot c \<noteq> length (sy_slots d)" if "c \<in># sy_conts d" for c
    using assms(1) that by (auto simp: slots_ok_iff)
  moreover have "in_flight i c \<Longrightarrow> cont_slot c = i" for i c by (cases c) auto
  ultimately have none: "\<not> in_flight (length (sy_slots d)) c" if "c \<in># sy_conts d" for c
    using that by blast
  then have "filter_mset (in_flight (length (sy_slots d))) (sy_conts d) = filter_mset (\<lambda>_. False) (sy_conts d)"
    by (intro filter_mset_cong) auto
  moreover have "WaitC (length (sy_slots d)) w \<notin># sy_conts d" for w using none by force
  ultimately have "slot_ok (length (sy_slots d)) (new_slot r) (sy_conts d)"
    by (simp add: slot_ok_def new_slot_def)
  then show ?thesis using assms by (auto simp: slots_ok_iff nth_append less_Suc_eq intro: less_SucI)
qed


lemma slots_ok_drop:
  assumes "slots_ok d" "sy_conts d = add_mset c C" "\<And>j. \<not> in_flight j c"
    "sy_slots d' = sy_slots d" "sy_conts d' = C"
    "set (sd_parkedHeld (sy_s d')) \<subseteq> set (sd_parkedHeld (sy_s d))"
  shows "slots_ok d'"
  using assms by (intro slots_ok_none [OF assms(1)]) (auto simp: slots_ok_iff)

lemma in_flight_slot: "in_flight j c \<Longrightarrow> cont_slot c = j"
  by (cases c) auto

text \<open>Replacing the continuation of a flight by the next one of the same flight.\<close>

lemma slots_ok_next:
  assumes "slots_ok d" "sy_conts d = add_mset c C" "sy_conts d' = add_mset c' C"
    "cont_slot c' = cont_slot c" "\<And>j. in_flight j c' = in_flight j c" "\<And>i w. c' \<noteq> WaitC i w"
    "sy_slots d' = sy_slots d"
    "set (sd_parkedHeld (sy_s d')) \<subseteq> set (sd_parkedHeld (sy_s d))"
  shows "slots_ok d'"
proof -
  have "slot_ok j (sy_slots d ! j) (add_mset c' C)" if "j < length (sy_slots d)" for j
  proof -
    have "slot_ok j (sy_slots d ! j) (add_mset c C)" using assms(1,2) that by (simp add: slots_ok_iff)
    then show ?thesis using assms(5) [of j] assms(6) by (auto simp: slot_ok_def)
  qed
  then show ?thesis using assms by (auto simp: slots_ok_iff)
qed

lemmas total_defs = held_total_def yielded_total_def waiter_places_def

lemma cancel_parked: "sd_parkedHeld (cancelWaiterLocked w s) = sd_parkedHeld s"
  by (simp add: cancelWaiterLocked_def)

lemma release_parked: "set (sd_parkedHeld (release_counts i f s)) \<subseteq> set (sd_parkedHeld s)"
  by (auto simp: release_counts_def Let_def cancel_parked split: option.splits)

lemma slots_ok_conts: "slots_ok d \<Longrightarrow> \<forall>c \<in># sy_conts d. cont_slot c < length (sy_slots d)"
  by (simp add: slots_ok_iff)

lemma slots_ok_parked: "slots_ok d \<Longrightarrow> \<forall>i \<in> set (sd_parkedHeld (sy_s d)). i < length (sy_slots d)"
  by (simp add: slots_ok_iff)

subsection \<open>The invariant through each step\<close>

text \<open>A step keeps the invariant when it keeps the counts consistent and the slots well formed.\<close>

lemma inv_parts:
  "sched_inv d \<Longrightarrow> slots_ok d"
  "sched_inv d \<Longrightarrow> counts_ok (sy_s d) (held_total d) (yielded_total d) (waiter_places d)"
  by (simp_all add: sched_inv_def)

lemma inv_intro:
  "slots_ok d \<Longrightarrow> counts_ok (sy_s d) H Y P \<Longrightarrow> held_total d = H \<Longrightarrow> yielded_total d = Y \<Longrightarrow>
     waiter_places d = P \<Longrightarrow> sched_inv d"
  by (simp add: sched_inv_def)

lemma inv_refresh:
  assumes "sched_inv d" "refresh_apply mx hold (sy_s d) = (s, parked)"
  shows "sched_inv (d\<lparr>sy_s := s, sy_conts := sy_conts d + mset (map ParkTryC parked)\<rparr>)" (is "sched_inv ?d")
proof -
  have s: "sd_parkedHeld s = sd_parkedHeld (sy_s d)" "set parked \<subseteq> set (sd_parkedHeld (sy_s d))"
    "counts_ok (sy_s d) H Y P \<Longrightarrow> counts_ok s H Y P" for H Y P
    using assms(2) by (auto simp: refresh_apply_def Let_def counts_ok_def split: if_splits)
  have z: "\<Sum>\<^sub># (image_mset cont_held (image_mset ParkTryC (mset parked))) = 0"
    "\<Sum>\<^sub># (image_mset cont_yielded (image_mset ParkTryC (mset parked))) = 0"
    "\<Sum>\<^sub># (image_mset cont_places (image_mset ParkTryC (mset parked))) = {#}"
    "filter_mset (in_flight j) (mset (map ParkTryC parked)) = {#}" for j
    by (induction parked) auto
  have "\<forall>c \<in># sy_conts ?d. cont_slot c < length (sy_slots d)"
    using slots_ok_conts [OF inv_parts(1) [OF assms(1)]] slots_ok_parked [OF inv_parts(1) [OF assms(1)]] s(2)
    by auto
  then have "slots_ok ?d" using z(4)
    by (intro slots_ok_none [OF inv_parts(1) [OF assms(1)]]) (simp_all add: s(1))
  then show ?thesis
    using s(3) [OF inv_parts(2) [OF assms(1)]] by (intro inv_intro) (simp_all add: total_defs z(1-3))
qed

lemma inv_counts:
  assumes "sched_inv d" "\<And>H Y P. counts_ok (sy_s d) H Y P \<Longrightarrow> counts_ok s H Y P"
    "sd_parkedHeld s = sd_parkedHeld (sy_s d)"
  shows "sched_inv (d\<lparr>sy_s := s\<rparr>)"
proof -
  have "slots_ok (d\<lparr>sy_s := s\<rparr>)"
    using slots_ok_conts [OF inv_parts(1) [OF assms(1)]]
    by (intro slots_ok_none [OF inv_parts(1) [OF assms(1)]]) (simp_all add: assms(3))
  then show ?thesis
    using assms(2) [OF inv_parts(2) [OF assms(1)]] by (intro inv_intro) (simp_all add: total_defs)
qed

lemma inv_new_slot:
  assumes "sched_inv d" "sd_parkedHeld s = sd_parkedHeld (sy_s d)"
    "\<And>H Y P. counts_ok (sy_s d) H Y P \<Longrightarrow> counts_ok s (H + 1) Y P"
  shows "sched_inv (d\<lparr>sy_s := s, sy_slots := sy_slots d @ [new_slot r]\<rparr>)" (is "sched_inv ?d")
proof -
  have "slots_ok ?d" by (rule slots_ok_new [OF inv_parts(1) [OF assms(1)]]) (simp_all add: assms(2))
  moreover have "held_total ?d = held_total d + 1" "yielded_total ?d = yielded_total d"
    "waiter_places ?d = waiter_places d"
    by (simp_all add: total_defs new_slot_def slot_places_def)
  ultimately show ?thesis using assms(3) [OF inv_parts(2) [OF assms(1)]] by (simp add: sched_inv_def)
qed

text \<open>A section on one slot that leaves the scheduler's counts alone.\<close>

lemma inv_slot:
  assumes "sched_inv d" "i < length (sy_slots d)"
    and "d' = d\<lparr>sy_slots := (sy_slots d)[i := t], sy_conts := C\<rparr>"
    and "\<forall>c \<in># C. cont_slot c < length (sy_slots d)"
    and "\<And>j. j \<noteq> i \<Longrightarrow> filter_mset (in_flight j) C = filter_mset (in_flight j) (sy_conts d)"
    and "slot_ok i (sy_slots d ! i) (sy_conts d) \<Longrightarrow> slot_ok i t C"
    and "counts_ok (sy_s d) (held_total d) (yielded_total d) (waiter_places d) \<Longrightarrow>
      counts_ok (sy_s d) (held_total d') (yielded_total d') (waiter_places d')"
  shows "sched_inv d'"
proof -
  have "slots_ok d'"
    by (rule slots_ok_one [OF inv_parts(1) [OF assms(1)] assms(2)]) (use assms(4-6) in \<open>auto simp: assms(3)\<close>)
  then show ?thesis using assms(7) [OF inv_parts(2) [OF assms(1)]] by (simp add: sched_inv_def assms(3))
qed

lemma inv_slot_ok: "sched_inv d \<Longrightarrow> i < length (sy_slots d) \<Longrightarrow> slot_ok i (sy_slots d ! i) (sy_conts d)"
  by (simp add: sched_inv_def slots_ok_iff)

lemma release_slot_some:
  assumes "release_slot yield u = (t, Some f)"
  shows "t = u\<lparr>sl_pending := (if yield then sl_pending u else None), sl_parkedHeld := False,
      sl_held := False, sl_yielded := yield\<rparr>"
    and "f = \<lparr> re_pending = (if yield then None else sl_pending u), re_wasHeld = sl_held u,
      re_wasYielded = sl_yielded u, re_yield = yield \<rparr>"
  using assms by (cases yield; auto simp: release_slot_def Let_def split: if_splits)+

lemma inv_release1:
  assumes "sched_inv d" "i < length (sy_slots d)" "release_slot yield (sy_slots d ! i) = (t, Some f)"
  shows "sched_inv (d\<lparr>sy_slots := (sy_slots d)[i := t], sy_conts := add_mset (ReleaseC i f) (sy_conts d)\<rparr>)"
    (is "sched_inv ?d")
proof -
  define u where "u = sy_slots d ! i"
  note tf = release_slot_some [OF assms(3), folded u_def]
  have ok: "slot_ok i u (sy_conts d)" using inv_slot_ok [OF assms(1,2)] by (simp add: u_def)
  have p: "(\<Sum>v\<in>#mset ((sy_slots d)[i := t]). slot_places v) + found_places f =
      (\<Sum>v\<in>#mset (sy_slots d). slot_places v)"
  proof (cases yield)
    case True
    then have "slot_places t = slot_places (sy_slots d ! i)" "found_places f = {#}"
      by (simp_all add: tf u_def slot_places_def found_places_def)
    then show ?thesis using places_update_same [OF assms(2)] by simp
  next
    case False
    then have "slot_places t = {#}" "found_places f = slot_places u"
      by (simp_all add: tf slot_places_def found_places_def)
    then show ?thesis using places_update [OF assms(2), of t] by (simp add: u_def)
  qed
  have totals: "held_total ?d = held_total d" "yielded_total ?d = yielded_total d"
    "waiter_places ?d = waiter_places d"
    using assms(2) p
    by (simp_all add: total_defs length_filter_update tf(2) u_def [symmetric] ac_simps of_bool_def)
      (simp_all add: tf(1))
  show ?thesis
    by (rule inv_slot [OF assms(1,2) refl])
      (use ok slots_ok_conts [OF inv_parts(1) [OF assms(1)]] assms(2) totals in
        \<open>auto simp: slot_ok_def tf(1) u_def [symmetric] split: if_splits\<close>)
qed


text \<open>The places of a slot that trades its pending waiter for a continuation that holds it.\<close>

lemma inv_release2:
  assumes "sched_inv d" "sy_conts d = add_mset (ReleaseC i f) C"
  shows "sched_inv (d\<lparr>sy_s := release_counts i f (sy_s d), sy_conts := C\<rparr>)" (is "sched_inv ?d")
proof -
  have "slots_ok ?d"
    by (rule slots_ok_drop [OF inv_parts(1) [OF assms(1)] assms(2)]) (simp_all add: release_parked)
  moreover have "held_total d = held_total ?d + of_bool (re_wasHeld f)"
    "yielded_total d = yielded_total ?d - cont_yielded (ReleaseC i f)"
    "waiter_places d = waiter_places ?d + found_places f"
    using assms(2) by (simp_all add: total_defs ac_simps del: cont_yielded.simps)
  ultimately show ?thesis
    using counts_release [of "sy_s d" "held_total d" "yielded_total d" "waiter_places ?d" f i]
      inv_parts(2) [OF assms(1)]
    by (simp add: sched_inv_def del: cont_yielded.simps)
qed

lemma inv_park_try:
  assumes "sched_inv d" "sy_conts d = add_mset (ParkTryC i) C" "i < length (sy_slots d)"
    "releaseParked_slot (sy_slots d ! i) = (t, b)"
  shows "sched_inv (d\<lparr>sy_slots := (sy_slots d)[i := t],
      sy_conts := (if b then add_mset (ParkC i) C else C)\<rparr>)" (is "sched_inv ?d")
proof -
  define u where "u = sy_slots d ! i"
  have ok: "slot_ok i u (sy_conts d)" using inv_slot_ok [OF assms(1,3)] by (simp add: u_def)
  have t: "t = (if b then u\<lparr>sl_parkedHeld := False, sl_held := False, sl_yielded := True\<rparr> else u)"
    "b \<longrightarrow> sl_held u"
    using assms(4) by (auto simp: releaseParked_slot_def u_def [symmetric] split: if_splits)
  have y: "sl_held u \<Longrightarrow> \<not> sl_yielded u" using ok by (auto simp: slot_ok_def)
  have "slot_places t = slot_places (sy_slots d ! i)" by (simp add: t(1) slot_places_def u_def)
  note p = places_update_same [OF assms(3) this]
  have totals: "held_total ?d = held_total d" "yielded_total ?d = yielded_total d"
    using t(2) y by (simp_all add: total_defs length_filter_update [OF assms(3)] assms(2) t(1) u_def [symmetric])
  moreover have "waiter_places ?d = waiter_places d" by (simp add: waiter_places_def p assms(2))
  moreover note totals = calculation
  show ?thesis
    by (rule inv_slot [OF assms(1,3) refl])
      (use ok slots_ok_conts [OF inv_parts(1) [OF assms(1)]] assms(2,3) totals in
        \<open>auto simp: slot_ok_def t(1) u_def [symmetric] split: if_splits\<close>)
qed

lemma inv_park2:
  assumes "sched_inv d" "sy_conts d = add_mset (ParkC i) C"
  shows "sched_inv (d\<lparr>sy_s := releaseParked_counts i (sy_s d), sy_conts := C\<rparr>)" (is "sched_inv ?d")
proof -
  have "slots_ok ?d"
    by (rule slots_ok_drop [OF inv_parts(1) [OF assms(1)] assms(2)]) (auto simp: releaseParked_counts_def)
  moreover have "held_total ?d = held_total d - 1" "yielded_total ?d = yielded_total d + 1"
    "waiter_places ?d = waiter_places d"
    using assms(2) by (simp_all add: total_defs)
  ultimately show ?thesis
    using counts_settle(1) [OF inv_parts(2) [OF assms(1)]] by (simp add: sched_inv_def)
qed

lemma inv_take:
  assumes "sched_inv d" "i < length (sy_slots d)" "acquire_middle (sy_slots d ! i) = (t, Take w)"
  shows "sched_inv (d\<lparr>sy_slots := (sy_slots d)[i := t], sy_conts := add_mset (WaitC i w) (sy_conts d)\<rparr>)"
    (is "sched_inv ?d")
proof -
  define u where "u = sy_slots d ! i"
  have ok: "slot_ok i u (sy_conts d)" using inv_slot_ok [OF assms(1,2)] by (simp add: u_def)
  have t: "t = u\<lparr>sl_pending := None, sl_flight := True\<rparr>" "\<not> sl_held u" "\<not> sl_flight u" "sl_pending u = Some w"
    using assms(3) by (auto simp: acquire_middle_def u_def [symmetric] split: if_splits option.splits)
  have "slot_places t = {#}" by (simp add: t(1) slot_places_def)
  note p = places_update_gone [OF assms(2) this]
  have totals: "held_total ?d = held_total d" "yielded_total ?d = yielded_total d"
    by (simp_all add: total_defs length_filter_update [OF assms(2)] t(1) u_def [symmetric])
  have w: "waiter_places ?d = waiter_places d"
    by (simp add: waiter_places_def p) (simp add: slot_places_def u_def [symmetric] t(4))
  show ?thesis
    by (rule inv_slot [OF assms(1,2) refl])
      (use ok slots_ok_conts [OF inv_parts(1) [OF assms(1)]] assms(2) totals w t(2,3) in
        \<open>auto simp: slot_ok_def t(1) u_def [symmetric] split: if_splits\<close>)
qed

lemma inv_held2:
  assumes "sched_inv d" "sy_conts d = add_mset (HeldC i b) C"
  shows "sched_inv (d\<lparr>sy_s := (if b then setHeld_counts (sy_s d) else sy_s d), sy_conts := add_mset (EndC i) C\<rparr>)"
    (is "sched_inv ?d")
proof -
  have "slots_ok ?d"
    by (rule slots_ok_next [OF inv_parts(1) [OF assms(1)] assms(2), of _ "EndC i"])
      (simp_all add: setHeld_counts_def)
  moreover have "held_total ?d = held_total d" "yielded_total ?d = yielded_total d - of_bool b"
    "waiter_places ?d = waiter_places d"
    using assms(2) by (simp_all add: total_defs)
  ultimately show ?thesis
    using inv_parts(2) [OF assms(1)] counts_settle(2) [OF inv_parts(2) [OF assms(1)]]
    by (cases b) (simp_all add: sched_inv_def)
qed

lemma inv_wait_cancel:
  assumes "sched_inv d" "sy_conts d = add_mset (WaitC i w) C"
  shows "sched_inv (d\<lparr>sy_s := cancelWaiterLocked w (sy_s d), sy_conts := add_mset (EndC i) C\<rparr>)"
    (is "sched_inv ?d")
proof -
  have "slots_ok ?d"
    by (rule slots_ok_next [OF inv_parts(1) [OF assms(1)] assms(2), of _ "EndC i"])
      (simp_all add: cancel_parked)
  moreover have "held_total ?d = held_total d" "yielded_total ?d = yielded_total d"
    "waiter_places d = add_mset w (waiter_places ?d)"
    using assms(2) by (simp_all add: total_defs)
  ultimately show ?thesis
    using inv_parts(2) [OF assms(1)] counts_cancel [of "sy_s d" "held_total d" "yielded_total d" w]
    by (simp add: sched_inv_def)
qed


text \<open>A section on one slot that also changes the scheduler.\<close>

lemma inv_slot_and_counts:
  assumes "sched_inv d" "i < length (sy_slots d)"
    and "d' = d\<lparr>sy_s := s, sy_slots := (sy_slots d)[i := t]\<rparr>"
    and "set (sd_parkedHeld s) \<subseteq> insert i (set (sd_parkedHeld (sy_s d)))"
    and "slot_ok i (sy_slots d ! i) (sy_conts d) \<Longrightarrow> slot_ok i t (sy_conts d)"
    and "counts_ok (sy_s d) (held_total d) (yielded_total d) (waiter_places d) \<Longrightarrow>
      counts_ok s (held_total d') (yielded_total d') (waiter_places d')"
  shows "sched_inv d'"
proof -
  have "slots_ok d'"
    by (rule slots_ok_one [where t = t, OF inv_parts(1) [OF assms(1)] assms(2)])
      (use assms(4,5) slots_ok_conts [OF inv_parts(1) [OF assms(1)]] in \<open>auto simp: assms(3)\<close>)
  then show ?thesis using assms(6) [OF inv_parts(2) [OF assms(1)]] by (simp add: sched_inv_def assms(3))
qed

text \<open>Marking a slot changes no count.\<close>

lemma slot_mark_totals:
  assumes "i < length (sy_slots d)" "d' = d\<lparr>sy_s := s, sy_slots := (sy_slots d)[i := t]\<rparr>"
    "sl_held t = sl_held (sy_slots d ! i)" "sl_yielded t = sl_yielded (sy_slots d ! i)"
    "sl_pending t = sl_pending (sy_slots d ! i)"
  shows "held_total d' = held_total d" "yielded_total d' = yielded_total d" "waiter_places d' = waiter_places d"
proof -
  have "slot_places t = slot_places (sy_slots d ! i)" by (simp add: slot_places_def assms(5))
  note p = places_update_same [OF assms(1) this]
  show "held_total d' = held_total d" "yielded_total d' = yielded_total d" "waiter_places d' = waiter_places d"
    by (simp_all add: total_defs assms(2-4) length_filter_update [OF assms(1)] p)
qed

lemma inv_mark:
  assumes "sched_inv d" "i < length (sy_slots d)" "markParkedHeld i (sy_slots d ! i) (sy_s d) = (t, s, b)"
  shows "sched_inv (d\<lparr>sy_s := s, sy_slots := (sy_slots d)[i := t]\<rparr>)" (is "sched_inv ?d")
proof -
  have t: "sl_held t = sl_held (sy_slots d ! i)" "sl_yielded t = sl_yielded (sy_slots d ! i)"
    "sl_pending t = sl_pending (sy_slots d ! i)" "sl_flight t = sl_flight (sy_slots d ! i)"
    "set (sd_parkedHeld s) \<subseteq> insert i (set (sd_parkedHeld (sy_s d)))"
    "counts_ok (sy_s d) H Y P \<Longrightarrow> counts_ok s H Y P" for H Y P
    using assms(3) by (auto simp: markParkedHeld_def counts_ok_def split: if_splits)
  show ?thesis
    by (rule inv_slot_and_counts [OF assms(1,2) refl t(5)])
      (use t(6) in \<open>simp_all add: slot_ok_def t slot_mark_totals [OF assms(2) refl t(1-3)]\<close>)
qed

lemma inv_reserve:
  assumes "sched_inv d" "i < length (sy_slots d)" "Reserve i (sy_slots d ! i) (sy_s d) = (t, s)"
  shows "sched_inv (d\<lparr>sy_s := s, sy_slots := (sy_slots d)[i := t]\<rparr>)" (is "sched_inv ?d")
proof -
  define u where "u = sy_slots d ! i"
  show ?thesis
  proof (cases "\<not> sl_held u \<and> sl_pending u = None \<and> \<not> sl_flight u")
    case True
    then obtain w where w: "requestSlotLocked (sl_runID u) (sy_s d) = (s, w)" "t = u\<lparr>sl_pending := Some w\<rparr>"
      using assms(3) by (auto simp: Reserve_def u_def [symmetric] split: prod.splits)
    have par: "sd_parkedHeld s = sd_parkedHeld (sy_s d)"
      using w(1) by (auto simp: requestSlotLocked_def Let_def split: if_splits)
    have "slot_places (sy_slots d ! i) = {#}" using True by (simp add: slot_places_def u_def)
    note p = places_update_new [OF assms(2) this]
    have totals: "held_total ?d = held_total d" "yielded_total ?d = yielded_total d"
      "waiter_places ?d = add_mset w (waiter_places d)"
      by (simp_all add: total_defs length_filter_update [OF assms(2)] p w(2) u_def [symmetric])
        (simp add: slot_places_def)
    have "slot_ok i t (sy_conts d)" if "slot_ok i u (sy_conts d)"
      using that True by (simp add: slot_ok_def w(2))
    then show ?thesis
      by (intro inv_slot_and_counts [OF assms(1,2) refl])
        (use counts_request [OF _ w(1)] in \<open>auto simp: par totals u_def [symmetric]\<close>)
  next
    case False
    then have t: "sl_held t = sl_held (sy_slots d ! i)" "sl_yielded t = sl_yielded (sy_slots d ! i)"
      "sl_pending t = sl_pending (sy_slots d ! i)" "sl_flight t = sl_flight (sy_slots d ! i)"
      "set (sd_parkedHeld s) \<subseteq> insert i (set (sd_parkedHeld (sy_s d)))"
      "counts_ok (sy_s d) H Y P \<Longrightarrow> counts_ok s H Y P" for H Y P
      using assms(3) by (auto simp: Reserve_def counts_ok_def u_def split: if_splits)
    show ?thesis
      by (rule inv_slot_and_counts [OF assms(1,2) refl t(5)])
        (use t(6) in \<open>simp_all add: slot_ok_def t slot_mark_totals [OF assms(2) refl t(1-3)]\<close>)
  qed
qed

lemma inv_wait_ready:
  assumes "sched_inv d" "sy_conts d = add_mset (WaitC i w) C" "w \<in> sd_granted (sy_s d)"
    "i < length (sy_slots d)" "setHeld_slot (sy_slots d ! i) = (t, b)"
  shows "sched_inv (d\<lparr>sy_slots := (sy_slots d)[i := t], sy_conts := add_mset (HeldC i b) C\<rparr>)"
    (is "sched_inv ?d")
proof -
  define u where "u = sy_slots d ! i"
  have ok: "slot_ok i u (sy_conts d)" using inv_slot_ok [OF assms(1,4)] by (simp add: u_def)
  have t: "t = u\<lparr>sl_held := True, sl_yielded := False\<rparr>" "b = sl_yielded u"
    using assms(5) by (auto simp: setHeld_slot_def u_def)
  have h: "\<not> sl_held u" "sl_flight u" using ok assms(2) by (auto simp: slot_ok_def split: if_splits)
  have one: "filter_mset (in_flight i) C = {#}" using ok assms(2) h(2) by (simp add: slot_ok_def)
  have pend: "sl_pending u = None" using ok h(2) by (auto simp: slot_ok_def)
  have "slot_places t = slot_places (sy_slots d ! i)" by (simp add: t(1) slot_places_def u_def)
  note p = places_update_same [OF assms(4) this]
  have totals: "held_total ?d = held_total d + 1" "yielded_total ?d = yielded_total d"
    using h by (simp_all add: total_defs length_filter_update [OF assms(4)] assms(2) t u_def [symmetric])
  moreover have "waiter_places d = add_mset w (waiter_places ?d)" by (simp add: waiter_places_def p assms(2))
  moreover note totals = calculation
  have nowait: "WaitC i v \<notin># C" for v
  proof
    assume "WaitC i v \<in># C"
    then have "WaitC i v \<in># filter_mset (in_flight i) C" by simp
    then show False by (simp add: one)
  qed
  have cnt: "counts_ok (sy_s d) (held_total ?d) (yielded_total ?d) (waiter_places ?d)"
    using counts_consume [of "sy_s d" "held_total d" "yielded_total d" w "waiter_places ?d"]
      inv_parts(2) [OF assms(1)] assms(3) totals by simp
  show ?thesis
    by (rule inv_slot [OF assms(1,4) refl])
      (use ok slots_ok_conts [OF inv_parts(1) [OF assms(1)]] assms(2,4) cnt h pend nowait one in
        \<open>auto simp: slot_ok_def t u_def [symmetric] split: if_splits\<close>)
qed

lemma inv_end_flight:
  assumes "sched_inv d" "sy_conts d = add_mset (EndC i) C" "i < length (sy_slots d)"
  shows "sched_inv (d\<lparr>sy_slots := (sy_slots d)[i := end_flight (sy_slots d ! i)], sy_conts := C\<rparr>)"
    (is "sched_inv ?d")
proof -
  define u where "u = sy_slots d ! i"
  have ok: "slot_ok i u (sy_conts d)" using inv_slot_ok [OF assms(1,3)] by (simp add: u_def)
  have h: "sl_flight u" using ok assms(2) by (auto simp: slot_ok_def split: if_splits)
  have "slot_places (end_flight u) = slot_places (sy_slots d ! i)" by (simp add: end_flight_def slot_places_def u_def)
  note p = places_update_same [OF assms(3) this]
  have totals: "held_total ?d = held_total d" "yielded_total ?d = yielded_total d"
    "waiter_places ?d = waiter_places d"
    by (simp_all add: total_defs length_filter_update [OF assms(3)] assms(2) u_def [symmetric] p)
      (simp_all add: end_flight_def)
  show ?thesis
    by (rule inv_slot [OF assms(1,3) refl])
      (use ok slots_ok_conts [OF inv_parts(1) [OF assms(1)]] assms(2,3) totals h in
        \<open>auto simp: slot_ok_def end_flight_def u_def [symmetric] split: if_splits\<close>)
qed


lemma inv_release1_none:
  assumes "sched_inv d" "i < length (sy_slots d)" "release_slot yield (sy_slots d ! i) = (t, None)"
  shows "sched_inv (d\<lparr>sy_slots := (sy_slots d)[i := t]\<rparr>)"
proof -
  have "t = sy_slots d ! i" using assms(3) by (auto simp: release_slot_def Let_def split: if_splits)
  then show ?thesis using assms(1) by simp
qed

lemma tryAdmit_some:
  "tryAdmit r s = Some (s', t) \<Longrightarrow> s' = s\<lparr>sd_active := sd_active s + 1\<rparr> \<and> t = new_slot r \<and> capacityLocked s"
  by (auto simp: tryAdmit_def split: if_splits)

lemma sched_inv_step: "sched_step d d' \<Longrightarrow> sched_inv d \<Longrightarrow> sched_inv d'"
proof (induction rule: sched_step.induct)
  case (refresh mx hold d s parked)
  then show ?case by (intro inv_refresh)
next
  case (flags d b h)
  then show ?case by (rule inv_counts) (simp_all add: counts_ok_def)
next
  case (try_admit r d s t)
  then show ?case using tryAdmit_some [OF try_admit(1)] by (auto intro!: inv_new_slot simp: counts_ok_def)
next
  case (enqueue d r)
  then show ?case by (rule inv_counts) (simp_all add: counts_ok_def enqueue_def)
next
  case (restore d ids)
  then show ?case by (rule inv_counts) (simp_all add: counts_ok_def restoreQueue_def)
next
  case (remove r d s b)
  from remove(2) show ?case
    by (rule inv_counts) (use remove(1) in \<open>auto simp: counts_ok_def removeQueuedLocked_def split: if_splits\<close>)
next
  case (grant claims d s w)
  have "sd_parkedHeld s = sd_parkedHeld (sy_s d)"
    using grant(1) by (auto simp: dispatch_one_def split: if_splits list.splits)
  then show ?case using counts_grant [OF _ grant(1)] by (intro inv_counts [OF grant(2)])
next
  case (start claims d s t)
  from counts_start [OF inv_parts(2) [OF start(2)] start(1)]
  obtain r where "t = new_slot r" "sd_parkedHeld s = sd_parkedHeld (sy_s d)" by auto
  moreover have "\<And>H Y P. counts_ok (sy_s d) H Y P \<Longrightarrow> counts_ok s (H + 1) Y P"
    using counts_start [OF _ start(1)] by blast
  ultimately show ?case using inv_new_slot [OF start(2)] by simp
qed (auto intro: inv_release1 inv_release1_none inv_release2 inv_mark inv_park_try [simplified]
    inv_park2 inv_reserve inv_take inv_wait_ready inv_wait_cancel inv_held2 [simplified] inv_end_flight
    simp del: if_split split del: if_split)

lemma sched_inv_init: "sched_inv sched_init"
  by (simp add: sched_inv_def sched_init_def counts_ok_def newSlotScheduler_def slots_ok_def total_defs)

lemma sched_inv_reachable: "sched_reachable d \<Longrightarrow> sched_inv d"
  by (induction rule: sched_reachable.induct) (auto intro: sched_inv_init sched_inv_step)


section \<open>What the scheduler guarantees\<close>

definition held_slots :: "sched_system \<Rightarrow> int" where
  "held_slots d = int (length (filter sl_held (sy_slots d)))"

text \<open>A scheduler limited to one run at a time, before and after it admits its first run.\<close>

definition sample_sched :: sched_system where
  "sample_sched = sched_init\<lparr>sy_s := newSlotScheduler\<lparr>sd_max := 1\<rparr>\<rparr>"

definition sample_sched_busy :: sched_system where
  "sample_sched_busy =
     \<lparr> sy_s = newSlotScheduler\<lparr>sd_max := 1, sd_active := 1\<rparr>, sy_slots = [new_slot ''r1''], sy_conts = {#} \<rparr>"

lemma sample_sched_reachable: "sched_reachable sample_sched"
proof -
  have "sched_step sched_init (sched_init\<lparr>sy_s := newSlotScheduler\<lparr>sd_max := 1\<rparr>,
      sy_conts := sy_conts sched_init + mset (map ParkTryC [])\<rparr>)"
    by (rule sched_step.refresh [where mx = 1 and hold = False])
      (simp add: sched_init_def newSlotScheduler_def refresh_apply_def Let_def)
  then show ?thesis
    by (intro sched_reachable.step [OF sched_reachable.init]) (simp add: sample_sched_def sched_init_def)
qed

lemma sample_sched_step: "sched_step sample_sched sample_sched_busy"
proof -
  have "sched_step sample_sched (sample_sched\<lparr>sy_s := newSlotScheduler\<lparr>sd_max := 1, sd_active := 1\<rparr>,
      sy_slots := sy_slots sample_sched @ [new_slot ''r1'']\<rparr>)"
    by (rule sched_step.try_admit)
      (simp add: sample_sched_def tryAdmit_def capacityLocked_def newSlotScheduler_def)
  then show ?thesis by (simp add: sample_sched_def sample_sched_busy_def sched_init_def)
qed

lemma cont_held_nonneg: "0 \<le> (\<Sum>c\<in>#C. cont_held c)"
proof (induction C)
  case (add c C)
  have "0 \<le> cont_held c" by (cases c) auto
  then show ?case using add by simp
qed simp

lemma held_le_active: "sched_inv d \<Longrightarrow> held_slots d \<le> sd_active (sy_s d)"
  using cont_held_nonneg [of "sy_conts d"] by (auto simp: sched_inv_def counts_ok_def held_total_def held_slots_def)

lemma release_active: "sd_active (release_counts i f s) \<le> sd_active s"
  by (auto simp: release_counts_def Let_def cancelWaiterLocked_def split: option.splits)

lemma reserve_active:
  "Reserve i t s = (t', s') \<Longrightarrow>
     sd_max s' = sd_max s \<and> (sd_active s' = sd_active s \<or> sd_active s' = sd_active s + 1 \<and> capacityLocked s)"
  by (auto simp: Reserve_def requestSlotLocked_def Let_def split: if_splits prod.splits)

lemma step_active:
  "sched_step d d' \<Longrightarrow> sd_active (sy_s d') \<le> sd_active (sy_s d) \<or>
     sd_active (sy_s d') = sd_active (sy_s d) + 1 \<and> capacityLocked (sy_s d) \<and> sd_max (sy_s d') = sd_max (sy_s d)"
proof (induction rule: sched_step.induct)
  case (reserve i d t s)
  then show ?case using reserve_active [OF reserve(2)] by auto
next
  case (release2 d i f C)
  then show ?case using release_active [of i f "sy_s d"] by simp
next
  case (try_admit r d s t)
  then show ?case using tryAdmit_some [OF try_admit] by auto
qed (auto simp: refresh_apply_def enqueue_def restoreQueue_def removeQueuedLocked_def dispatch_one_def
    markParkedHeld_def releaseParked_counts_def cancelWaiterLocked_def setHeld_counts_def Let_def
    split: if_splits list.splits)

text \<open>C6. In every reachable state, under every interleaving of the run goroutines, the count of slots
  in use is exactly the slots held, plus those a goroutine is in the middle of giving back, plus the
  places granted to resuming runs that have not taken them up yet; so at rest (no goroutine between
  two sections, no run resuming) it is the number of held slots, and the yielded count is the number
  of runs that gave their slot back. No slot leaks and none is counted twice.\<close>

theorem scheduler_accounting:
  assumes "sched_reachable d"
  shows "sd_active (sy_s d) = held_total d + int (size (filter_mset (\<lambda>w. w \<in> sd_granted (sy_s d)) (waiter_places d))) \<and>
    sd_yielded (sy_s d) = yielded_total d \<and>
    (sy_conts d = {#} \<and> (\<forall>t \<in> set (sy_slots d). sl_pending t = None) \<longrightarrow>
       sd_active (sy_s d) = held_slots d \<and>
       sd_yielded (sy_s d) = int (length (filter sl_yielded (sy_slots d))))"
proof -
  have c: "counts_ok (sy_s d) (held_total d) (yielded_total d) (waiter_places d)"
    using sched_inv_reachable [OF assms] by (simp add: sched_inv_def)
  moreover have "waiter_places d = {#}" if q: "sy_conts d = {#}" "\<forall>t \<in> set (sy_slots d). sl_pending t = None"
    using q by (simp add: waiter_places_def slot_places_def)
  ultimately show ?thesis by (auto simp: counts_ok_def held_total_def yielded_total_def held_slots_def)
qed

theorem scheduler_accounting_witness:
  "sd_active (sy_s sample_sched_busy) = held_slots sample_sched_busy \<and> held_slots sample_sched_busy = 1"
proof -
  have "sched_reachable sample_sched_busy"
    by (rule sched_reachable.step [OF sample_sched_reachable sample_sched_step])
  from scheduler_accounting [OF this] show ?thesis
    by (simp add: sample_sched_busy_def held_slots_def new_slot_def)
qed

text \<open>C7. The concurrency cap holds: while a positive limit is in force, no section of any goroutine
  takes the slots in use past it, so never more runs than the limit hold a slot. (A limit lowered
  below the runs already executing admits nobody until enough of them have given their slot back.)\<close>

theorem scheduler_cap:
  assumes "sched_reachable d" "sched_step d d'" "0 < sd_max (sy_s d')"
  shows "held_slots d' \<le> max (sd_active (sy_s d)) (sd_max (sy_s d')) \<and>
    sd_active (sy_s d') \<le> max (sd_active (sy_s d)) (sd_max (sy_s d'))"
proof -
  have "held_slots d' \<le> sd_active (sy_s d')"
    using sched_inv_reachable sched_reachable.step [OF assms(1,2)] by (intro held_le_active) simp
  moreover have "sd_active (sy_s d') \<le> max (sd_active (sy_s d)) (sd_max (sy_s d'))"
    using step_active [OF assms(2)] assms(3) by (auto simp: capacityLocked_def)
  ultimately show ?thesis by simp
qed

theorem scheduler_cap_witness: "held_slots sample_sched_busy \<le> 1"
  using scheduler_cap [OF sample_sched_reachable sample_sched_step]
  by (simp add: sample_sched_busy_def sample_sched_def sched_init_def newSlotScheduler_def)

text \<open>A run never holds two places. In every reachable state a run's slot is in at most one of
  these situations: it is held; it has a place reserved; one \<open>Acquire\<close> is in flight for it (and
  then no second one is). A slot that is held is not also counted as yielded.\<close>

theorem slot_single_claim:
  assumes "sched_reachable d" "i < length (sy_slots d)"
  shows "of_bool (sl_held (sy_slots d ! i)) + of_bool (sl_pending (sy_slots d ! i) \<noteq> None) +
      size (filter_mset (\<lambda>c. \<exists>w. c = WaitC i w) (sy_conts d)) \<le> (1::nat) \<and>
    size (filter_mset (in_flight i) (sy_conts d)) = of_bool (sl_flight (sy_slots d ! i)) \<and>
    \<not> (sl_held (sy_slots d ! i) \<and> sl_yielded (sy_slots d ! i))"
proof -
  define u where "u = sy_slots d ! i"
  have ok: "slot_ok i u (sy_conts d)"
    using inv_slot_ok [OF sched_inv_reachable [OF assms(1)] assms(2)] by (simp add: u_def)
  define n where "n = size (filter_mset (\<lambda>c. \<exists>w. c = WaitC i w) (sy_conts d))"
  define m where "m = size (filter_mset (in_flight i) (sy_conts d))"
  have "filter_mset (\<lambda>c. \<exists>w. c = WaitC i w) (sy_conts d) \<subseteq># filter_mset (in_flight i) (sy_conts d)"
    by (rule filter_mset_mono_strong) auto
  then have "n \<le> m" unfolding n_def m_def by (rule size_mset_mono)
  moreover have "n = 0" if "sl_held u" using ok that by (auto simp: slot_ok_def n_def)
  moreover have "m = (if sl_flight u then 1 else 0)" using ok by (simp add: slot_ok_def m_def)
  moreover have "\<not> (sl_held u \<and> sl_yielded u)" "sl_pending u \<noteq> None \<Longrightarrow> \<not> sl_held u \<and> \<not> sl_flight u"
    using ok by (simp_all add: slot_ok_def)
  ultimately show ?thesis unfolding u_def [symmetric] n_def [symmetric] m_def [symmetric]
    by (cases "sl_pending u"; cases "sl_held u"; cases "sl_flight u") simp_all
qed

theorem slot_single_claim_witness: "\<not> sl_yielded (sy_slots sample_sched_busy ! 0)"
proof -
  have r: "sched_reachable sample_sched_busy"
    by (rule sched_reachable.step [OF sample_sched_reachable sample_sched_step])
  have "0 < length (sy_slots sample_sched_busy)" by (simp add: sample_sched_busy_def)
  from slot_single_claim [OF r this] show ?thesis by (simp add: sample_sched_busy_def new_slot_def)
qed

text \<open>Resuming runs are served in the order they asked. In every reachable state the waiting list
  is in request order without repetition, a waiter that was granted is no longer in it, and every
  waiter in the list or granted and not yet taken up belongs to exactly one run or goroutine, so a
  cancelled wait takes back exactly its own place.\<close>

theorem resumed_runs_fifo:
  assumes "sched_reachable d"
  shows "sorted_wrt (<) (sd_prio (sy_s d)) \<and> set (sd_prio (sy_s d)) \<inter> sd_granted (sy_s d) = {} \<and>
    (\<forall>w \<in> set (sd_prio (sy_s d)). count (waiter_places d) w = 1)"
proof -
  have c: "counts_ok (sy_s d) (held_total d) (yielded_total d) (waiter_places d)"
    using sched_inv_reachable [OF assms] by (simp add: sched_inv_def)
  have p: "mset (sd_prio (sy_s d)) = filter_mset (\<lambda>w. w \<notin> sd_granted (sy_s d)) (waiter_places d)"
    and le: "\<And>w. count (waiter_places d) w \<le> 1" and so: "sorted_wrt (<) (sd_prio (sy_s d))"
    using c by (simp_all add: counts_ok_def)
  have m: "set (sd_prio (sy_s d)) = {w. w \<in># waiter_places d \<and> w \<notin> sd_granted (sy_s d)}"
    using arg_cong [OF p, of set_mset] by simp
  have "count (waiter_places d) w = 1" if "w \<in># waiter_places d" for w
  proof -
    note le [of w]
    moreover have "count (waiter_places d) w > 0" using that by simp
    ultimately show ?thesis by linarith
  qed
  then show ?thesis using so by (auto simp: m)
qed

theorem resumed_runs_fifo_witness: "sorted_wrt (<) (sd_prio (sy_s sample_sched))"
  using resumed_runs_fifo [OF sample_sched_reachable] by simp

lemma dispatch_one_admit:
  "dispatch_admit claims s = Some s' \<Longrightarrow>
     sd_active s' + int (length (start_order s')) = sd_active s + int (length (start_order s))"
  by (auto simp: dispatch_admit_def dispatch_one_def start_order_def split: list.splits if_splits)

text \<open>C8. Dispatch is work conserving and strictly first come first served: when the loop ends there is no
  free slot, or nobody waits, or only new runs wait and the oldest is not startable (startup holds
  the queue, a retry is pending, or its claim failed). Those admitted are a prefix of the start
  order, resumed runs before new ones, and each takes exactly one slot.\<close>

theorem dispatch_work_conserving:
  "(start_order (dispatch claims s) = [] \<or> capacityLocked (dispatch claims s) = False \<or>
      sd_prio (dispatch claims s) = [] \<and>
        (sd_retrying (dispatch claims s) \<or> sd_held (dispatch claims s) \<or>
         claims (hd (sd_queued (dispatch claims s))) = False)) \<and>
    (\<exists>n. start_order (dispatch claims s) = drop n (start_order s)) \<and>
    sd_active (dispatch claims s) + int (length (start_order (dispatch claims s))) =
      sd_active s + int (length (start_order s))"
proof (intro conjI)
  define s' where "s' = dispatch claims s"
  consider "start_order s' = []" | "\<not> capacityLocked s'"
    | "start_order s' \<noteq> []" "capacityLocked s'" "dispatch_admit claims s' = None"
    using run_queue.drain_done [of claims s] unfolding s'_def by metis
  then show "start_order (dispatch claims s) = [] \<or> capacityLocked (dispatch claims s) = False \<or>
      sd_prio (dispatch claims s) = [] \<and>
        (sd_retrying (dispatch claims s) \<or> sd_held (dispatch claims s) \<or>
         claims (hd (sd_queued (dispatch claims s))) = False)"
    unfolding s'_def [symmetric]
    by cases (auto simp: dispatch_admit_def dispatch_one_def start_order_def split: if_splits list.splits)
  show "\<exists>n. start_order (dispatch claims s) = drop n (start_order s)" by (rule run_queue.drain_fifo)
  show "sd_active (dispatch claims s) + int (length (start_order (dispatch claims s))) =
      sd_active s + int (length (start_order s))"
    by (rule run_queue.drain_invariant) (simp_all add: dispatch_one_admit)
qed

end
