(* ===== verification/RunRows.thy ===== *)
theory RunRows
  imports StepRows
begin

text \<open>
  The statements on the rows of runs, from \<open>internal/db/run.go\<close> and \<open>run_ending.go\<close>: status and
  head updates, push provenance and its compare-and-swap rebinding, review approval, the lifecycle
  of the pull request, the launch queue, the terminal writes that must not overtake one another,
  and the recovery of stale runs after a restart of the daemon. A statement that reports whether it
  applied returns a boolean with the tables.
\<close>

section \<open>Status and head\<close>

abbreviation "run_row i \<equiv> (\<lambda>r. rn_ID r = i)"

definition UpdateRunStatus :: "int \<Rightarrow> string \<Rightarrow> RunStatus \<Rightarrow> tables \<Rightarrow> tables" where
  "UpdateRunStatus ts i status db = runs_update (run_row i) (\<lambda>r. (with_status status r)\<lparr>
     rn_PushActive := (if status \<in> {RunCompleted, RunFailed, RunCancelled} then False else rn_PushActive r),
     rn_TerminalHeadVerifiedAt := None, rn_UpdatedAt := ts\<rparr>) db"

definition UpdateRunHeadSHA :: "int \<Rightarrow> string \<Rightarrow> string \<Rightarrow> tables \<Rightarrow> tables" where
  "UpdateRunHeadSHA ts i head db = runs_update (run_row i) (\<lambda>r. r\<lparr>rn_HeadSHA := head, rn_UpdatedAt := ts\<rparr>) db"

definition UpdateRunReviewApprovedHeadSHA :: "int \<Rightarrow> string \<Rightarrow> string \<Rightarrow> tables \<Rightarrow> tables" where
  "UpdateRunReviewApprovedHeadSHA ts i head db =
     runs_update (run_row i) (\<lambda>r. r\<lparr>rn_ReviewApprovedHeadSHA := Some head, rn_UpdatedAt := ts\<rparr>) db"

definition UpdateRunHeadSHAForRevalidation :: "int \<Rightarrow> string \<Rightarrow> string \<Rightarrow> tables \<Rightarrow> tables" where
  "UpdateRunHeadSHAForRevalidation ts i head db = runs_update (run_row i)
     (\<lambda>r. r\<lparr>rn_HeadSHA := head, rn_ReviewApprovedHeadSHA := None, rn_UpdatedAt := ts\<rparr>) db"

definition UpdateRunHeadSHAWithCarriedReview :: "int \<Rightarrow> string \<Rightarrow> string \<Rightarrow> string \<Rightarrow> tables \<Rightarrow> bool \<times> tables" where
  "UpdateRunHeadSHAWithCarriedReview ts i approved head db =
     (let p = (\<lambda>r. rn_ID r = i \<and> rn_ReviewApprovedHeadSHA r = Some approved) in
      (affected p (tb_runs db) = 1,
       runs_update p (\<lambda>r. r\<lparr>rn_HeadSHA := head, rn_ReviewApprovedHeadSHA := Some head,
         rn_ci_test_restart_pending := True, rn_UpdatedAt := ts\<rparr>) db))"

definition RunTestRestartPending :: "string \<Rightarrow> tables \<Rightarrow> bool option" where
  "RunTestRestartPending i db = map_option rn_ci_test_restart_pending (GetRun i db)"

definition UpdateRunErrorStatus :: "int \<Rightarrow> string \<Rightarrow> string \<Rightarrow> RunStatus \<Rightarrow> tables \<Rightarrow> tables" where
  "UpdateRunErrorStatus ts i msg status db = runs_update (run_row i) (\<lambda>r. (with_status status r)\<lparr>
     rn_Error := Some msg, rn_PushActive := False, rn_TerminalHeadVerifiedAt := None, rn_UpdatedAt := ts\<rparr>) db"

definition UpdateRunErrorStatusWithVerifiedHead :: "int \<Rightarrow> string \<Rightarrow> string \<Rightarrow> RunStatus \<Rightarrow> string \<Rightarrow> tables \<Rightarrow> tables" where
  "UpdateRunErrorStatusWithVerifiedHead ts i msg status head db = runs_update (run_row i) (\<lambda>r. (with_status status r)\<lparr>
     rn_Error := Some msg, rn_HeadSHA := head, rn_PushActive := False, rn_TerminalHeadVerifiedAt := Some ts,
     rn_UpdatedAt := ts\<rparr>) db"

definition UpdateRunStatusWithVerifiedHead :: "int \<Rightarrow> string \<Rightarrow> RunStatus \<Rightarrow> string \<Rightarrow> tables \<Rightarrow> tables" where
  "UpdateRunStatusWithVerifiedHead ts i status head db = runs_update (run_row i) (\<lambda>r. (with_status status r)\<lparr>
     rn_HeadSHA := head, rn_PushActive := False, rn_TerminalHeadVerifiedAt := Some ts, rn_UpdatedAt := ts\<rparr>) db"

definition VerifyTerminalRunHeadRewrite ::
  "int \<Rightarrow> string \<Rightarrow> RunStatus \<Rightarrow> string \<Rightarrow> string \<Rightarrow> tables \<Rightarrow> bool \<times> tables" where
  "VerifyTerminalRunHeadRewrite ts i status recorded live db =
     (let p = (\<lambda>r. rn_ID r = i \<and> rn_Status r = status \<and> rn_HeadSHA r = recorded \<and>
                 rn_ReviewApprovedHeadSHA r = Some recorded \<and> rn_TerminalHeadVerifiedAt r = None \<and>
                 rn_CustodyReturnedAt r = None) in
      (affected p (tb_runs db) = 1, runs_update p (\<lambda>r. r\<lparr>rn_HeadSHA := live, rn_PushActive := False,
         rn_TerminalHeadVerifiedAt := Some ts, rn_UpdatedAt := ts\<rparr>) db))"

definition RecordRunTerminalHeadEvidence :: "int \<Rightarrow> string \<Rightarrow> string \<Rightarrow> tables \<Rightarrow> tables" where
  "RecordRunTerminalHeadEvidence ts i head db =
     runs_update (\<lambda>r. rn_ID r = i \<and> rn_Status r \<in> {RunPending, RunRunning})
       (\<lambda>r. r\<lparr>rn_HeadSHA := head, rn_TerminalHeadVerifiedAt := Some ts, rn_UpdatedAt := ts\<rparr>) db"

definition RecordRunEnding :: "string \<Rightarrow> string option \<Rightarrow> tables \<Rightarrow> tables" where
  "RecordRunEnding i event db =
     (case event of
        None \<Rightarrow> db
      | Some payload \<Rightarrow> runs_update (run_row i)
          (\<lambda>r. r\<lparr>rn_EndingEvent := (case rn_EndingEvent r of None \<Rightarrow> Some payload | Some e \<Rightarrow> Some e)\<rparr>) db)"

section \<open>Lookup\<close>

definition newest :: "Run list \<Rightarrow> Run list" where
  "newest rows = rev (sort_key (\<lambda>r. (rn_CreatedAt r, rn_ID r)) rows)"

definition GetActiveRun :: "string \<Rightarrow> string \<Rightarrow> tables \<Rightarrow> Run option" where
  "GetActiveRun repo branch db =
     (case newest (filter (\<lambda>r. rn_RepoID r = repo \<and> (branch = [] \<or> rn_Branch r = branch) \<and>
             rn_Status r \<in> {RunQueued, RunPending, RunRunning}) (tb_runs db)) of
        [] \<Rightarrow> None | r # _ \<Rightarrow> Some r)"

definition GetActiveRuns :: "tables \<Rightarrow> Run list" where
  "GetActiveRuns db = newest (filter (\<lambda>r. rn_Status r \<in> {RunPending, RunRunning}) (tb_runs db))"

section \<open>The pull request\<close>

definition retired_state :: "string \<Rightarrow> bool" where
  "retired_state s \<longleftrightarrow> s = ''merged'' \<or> s = ''closed''"

definition UpdateRunPRURL :: "int \<Rightarrow> string \<Rightarrow> string \<Rightarrow> tables \<Rightarrow> tables" where
  "UpdateRunPRURL ts i url db = runs_update (run_row i) (\<lambda>r. r\<lparr>rn_PRURL := Some url,
     rn_PRState := (case rn_PRState r of Some s \<Rightarrow> if retired_state s then Some s else Some ''open'' | None \<Rightarrow> Some ''open''),
     rn_PRStateObservedAt := Some ts, rn_UpdatedAt := ts\<rparr>) db"

definition normal_state :: "string \<Rightarrow> string" where
  "normal_state s = to_lower (TrimSpace s)"

definition monotonicPRState :: "string \<Rightarrow> string \<Rightarrow> string" where
  "monotonicPRState current observed =
     (if normal_state current = ''merged'' then normal_state current
      else if normal_state observed = ''merged'' then normal_state observed
      else if normal_state current = ''closed'' then normal_state current
      else normal_state observed)"

definition UpdateRunPRState :: "int \<Rightarrow> string \<Rightarrow> string \<Rightarrow> tables \<Rightarrow> tables" where
  "UpdateRunPRState ts i state db =
     (case GetRun i db of
        None \<Rightarrow> db
      | Some row \<Rightarrow> runs_update (run_row i) (\<lambda>r. r\<lparr>
          rn_PRState := Some (monotonicPRState (deref (rn_PRState row)) (normal_state state)),
          rn_PRStateObservedAt := Some ts, rn_UpdatedAt := ts\<rparr>) db)"

definition SetRunCIReadyWithReason :: "int \<Rightarrow> string \<Rightarrow> bool \<Rightarrow> bool \<Rightarrow> tables \<Rightarrow> tables" where
  "SetRunCIReadyWithReason ts i ready declaredNoCI db =
     (let db1 = (if ready then db\<lparr>tb_prContexts := (tb_prContexts db)(i := map_option (\<lambda>c.
             if deref (pc_pr_url c) \<noteq> [] \<and> pc_forge_head_sha c = Some (pc_local_head_sha c) \<and>
                (\<exists>r \<in> set (tb_runs db). rn_ID r = i \<and> rn_HeadSHA r = pc_local_head_sha c \<and>
                   rn_LastPushedSHA r = Some (pc_local_head_sha c) \<and>
                   rn_ReviewApprovedHeadSHA r = Some (pc_local_head_sha c))
             then c\<lparr>pc_ci_qualified := True\<rparr> else c) (tb_prContexts db i))\<rparr> else db);
          declared = (ready \<and> declaredNoCI) in
      runs_update (\<lambda>r. rn_ID r = i \<and> (rn_CIReadyAt r = None \<and> ready \<or> rn_CIReadyAt r \<noteq> None \<and> \<not> ready \<or>
          rn_CIReadyNoCI r \<noteq> declared))
        (\<lambda>r. r\<lparr>rn_CIReadyAt := (if ready then Some ts else None), rn_CIReadyNoCI := declared, rn_UpdatedAt := ts\<rparr>) db1)"

section \<open>Push provenance\<close>

record PushBinding =
  pb_HeadSHA :: string
  pb_TargetKind :: string
  pb_TargetFingerprint :: string
  pb_Ref :: string

definition next_generation :: "Run \<Rightarrow> int option" where
  "next_generation r = Some ((case rn_PushGeneration r of None \<Rightarrow> 0 | Some g \<Rightarrow> g) + 1)"

definition UpdateRunPushBinding :: "int \<Rightarrow> string \<Rightarrow> PushBinding \<Rightarrow> tables \<Rightarrow> tables" where
  "UpdateRunPushBinding ts i b db = runs_update (run_row i) (\<lambda>r. r\<lparr>rn_LastPushedSHA := Some (pb_HeadSHA b),
     rn_PushTargetKind := Some (pb_TargetKind b), rn_PushTargetFingerprint := Some (pb_TargetFingerprint b),
     rn_PushRef := Some (pb_Ref b), rn_LastPushedAt := Some ts, rn_PushGeneration := next_generation r,
     rn_UpdatedAt := ts\<rparr>) db"

definition UpdateRunPublication :: "int \<Rightarrow> string \<Rightarrow> PushBinding \<Rightarrow> tables \<Rightarrow> tables" where
  "UpdateRunPublication ts i b db = runs_update (run_row i) (\<lambda>r. r\<lparr>rn_HeadSHA := pb_HeadSHA b,
     rn_LastPushedSHA := Some (pb_HeadSHA b), rn_PushTargetKind := Some (pb_TargetKind b),
     rn_PushTargetFingerprint := Some (pb_TargetFingerprint b), rn_PushRef := Some (pb_Ref b),
     rn_LastPushedAt := Some ts, rn_PushGeneration := next_generation r, rn_ci_test_restart_pending := False,
     rn_UpdatedAt := ts\<rparr>) db"

record PushRebind =
  rb_Status :: RunStatus
  rb_ExpectedPushed :: string
  rb_ExpectedGeneration :: int
  rb_ExpectedHead :: string
  rb_PRState :: "string option"
  rb_CustodyReturned :: bool
  rb_UpstreamURL :: string
  rb_ForkURL :: string
  rb_TargetKind :: string
  rb_TargetFingerprint :: string
  rb_Ref :: string
  rb_Head :: string

definition rebind_applies :: "string \<Rightarrow> PushRebind \<Rightarrow> tables \<Rightarrow> Run \<Rightarrow> bool" where
  "rebind_applies i b db r \<longleftrightarrow>
     rn_ID r = i \<and> rn_Status r = rb_Status b \<and> rn_LastPushedSHA r = Some (rb_ExpectedPushed b) \<and>
     (case rn_PushGeneration r of None \<Rightarrow> 0 | Some g \<Rightarrow> g) = rb_ExpectedGeneration b \<and>
     rn_HeadSHA r = rb_ExpectedHead b \<and> (rn_CustodyReturnedAt r \<noteq> None) = rb_CustodyReturned b \<and>
     rn_PushTargetKind r = Some (rb_TargetKind b) \<and> rn_PushTargetFingerprint r = Some (rb_TargetFingerprint b) \<and>
     rn_PushRef r = Some (rb_Ref b) \<and> \<not> rn_PushActive r \<and> rn_PRState r = rb_PRState b \<and>
     \<not> retired_state (deref (rn_PRState r)) \<and>
     \<not> (\<exists>other \<in> set (tb_runs db). rn_RepoID other = rn_RepoID r \<and> rn_Branch other = rn_Branch r \<and>
          rn_ID other \<noteq> rn_ID r \<and> \<not> RunStatus_Terminal (rn_Status other)) \<and>
     (case tb_repos db (rn_RepoID r) of None \<Rightarrow> False
      | Some (upstream, fork) \<Rightarrow> upstream = rb_UpstreamURL b \<and> deref fork = rb_ForkURL b)"

definition RebindRunPushedHead :: "int \<Rightarrow> string \<Rightarrow> PushRebind \<Rightarrow> tables \<Rightarrow> bool \<times> tables" where
  "RebindRunPushedHead ts i b db =
     (affected (rebind_applies i b db) (tb_runs db) = 1,
      runs_update (rebind_applies i b db) (\<lambda>r. r\<lparr>
        rn_HeadSHA := (if rn_LastPushedSHA r = Some (rn_HeadSHA r) then rb_Head b else rn_HeadSHA r),
        rn_LastPushedSHA := Some (rb_Head b), rn_PushGeneration := next_generation r, rn_UpdatedAt := ts\<rparr>) db)"

definition custody_returned :: "int \<Rightarrow> string \<Rightarrow> tables \<Rightarrow> tables" where
  "custody_returned ts i db = runs_update (run_row i) (\<lambda>r. r\<lparr>rn_CustodyReturnedAt :=
     (case rn_CustodyReturnedAt r of None \<Rightarrow> Some ts | Some t \<Rightarrow> Some t), rn_UpdatedAt := ts\<rparr>) db"

definition SetRunsCustodyReturned :: "int \<Rightarrow> string list \<Rightarrow> tables \<Rightarrow> tables" where
  "SetRunsCustodyReturned ts ids db = fold (custody_returned ts) ids db"

definition SetRunPushActive :: "int \<Rightarrow> string \<Rightarrow> bool \<Rightarrow> tables \<Rightarrow> tables" where
  "SetRunPushActive ts i active db =
     runs_update (run_row i) (\<lambda>r. r\<lparr>rn_PushActive := active, rn_UpdatedAt := ts\<rparr>) db"

section \<open>Carrying validation over documentation commits\<close>

text \<open>
  The Test row of the run and the payload it stores: \<open>TestSkipped\<close> has nothing to carry, \<open>TestStale\<close> is
  not about \<open>from\<close>, \<open>TestCarried\<close> is the row with the payload moved to \<open>to\<close>.
\<close>

datatype test_carry = TestMissing | TestSkipped | TestStale | TestCarried StepResult string

definition test_carry_of :: "string \<Rightarrow> string \<Rightarrow> string \<Rightarrow> tables \<Rightarrow> test_carry" where
  "test_carry_of run from to db =
     (case filter (\<lambda>s. sp_StepName s = StepTest) (GetStepsByRun run db) of
        [] \<Rightarrow> TestMissing
      | row # _ \<Rightarrow>
          if sp_Status row = StepStatusSkipped then TestSkipped
          else if sp_Status row \<noteq> StepStatusCompleted then TestStale
          else (case sp_FindingsJSON row of
                  None \<Rightarrow> TestStale
                | Some raw \<Rightarrow>
                    (case ParseFindingsJSON raw of
                       None \<Rightarrow> TestStale
                     | Some fs \<Rightarrow> if fs_TestedHeadSHA fs \<noteq> from then TestStale
                         else TestCarried row (MarshalFindingsJSON (fs\<lparr>fs_TestedHeadSHA := to\<rparr>)))))"

text \<open>The unused attribution of the documentation pass, the approval it may move, and the two writes.\<close>

definition pass_open :: "string \<Rightarrow> string \<Rightarrow> string \<Rightarrow> DocumentPass \<Rightarrow> bool" where
  "pass_open run from to d \<longleftrightarrow> dp_run_id d = run \<and> dp_from_head_sha d = from \<and> dp_to_head_sha d = Some to \<and>
     dp_commit_count d > 0 \<and> dp_carried_review_from d = None"

definition approval_open :: "string \<Rightarrow> string \<Rightarrow> string \<Rightarrow> Run \<Rightarrow> bool" where
  "approval_open run from to r \<longleftrightarrow> rn_ID r = run \<and> rn_ReviewApprovedHeadSHA r = Some from \<and> rn_HeadSHA r = to \<and>
     rn_Shipping r = None"

definition carry_finish :: "int \<Rightarrow> string \<Rightarrow> string \<Rightarrow> string \<Rightarrow> tables \<Rightarrow> tables \<Rightarrow> bool \<times> tables" where
  "carry_finish ts run from to db db1 =
     (if affected (pass_open run from to) (tb_documents db1) \<noteq> 1 \<or> affected (approval_open run from to) (tb_runs db1) \<noteq> 1
      then (False, db)
      else (True, runs_update (approval_open run from to) (\<lambda>r. r\<lparr>rn_ReviewApprovedHeadSHA := Some to, rn_UpdatedAt := ts\<rparr>)
        (db1\<lparr>tb_documents := sql_update (pass_open run from to) (\<lambda>d. d\<lparr>dp_carried_review_from := Some from\<rparr>) (tb_documents db1)\<rparr>)))"

definition CarryValidationOverDocOnlyCommits :: "int \<Rightarrow> string \<Rightarrow> string \<Rightarrow> string \<Rightarrow> tables \<Rightarrow> bool \<times> tables" where
  "CarryValidationOverDocOnlyCommits ts run from to db =
     (case test_carry_of run from to db of
        TestMissing \<Rightarrow> (False, db)
      | TestStale \<Rightarrow> (False, db)
      | TestSkipped \<Rightarrow> carry_finish ts run from to db db
      | TestCarried row carried \<Rightarrow>
          let same = (\<lambda>s. sp_ID s = sp_ID row \<and> sp_FindingsJSON s = sp_FindingsJSON row) in
          if affected same (tb_steps db) \<noteq> 1 then (False, db)
          else carry_finish ts run from to db (steps_update same (\<lambda>s. s\<lparr>sp_FindingsJSON := Some carried\<rparr>) db))"

section \<open>The awaiting-agent marker\<close>

definition SetRunAwaitingAgent :: "int \<Rightarrow> string \<Rightarrow> tables \<Rightarrow> tables" where
  "SetRunAwaitingAgent ts i db =
     runs_update (run_row i) (\<lambda>r. r\<lparr>rn_AwaitingAgentSince := Some ts, rn_UpdatedAt := ts\<rparr>) db"

definition ClearRunAwaitingAgent :: "int \<Rightarrow> string \<Rightarrow> tables \<Rightarrow> tables" where
  "ClearRunAwaitingAgent ts i db =
     runs_update (run_row i) (\<lambda>r. r\<lparr>rn_AwaitingAgentSince := None, rn_UpdatedAt := ts\<rparr>) db"

definition AddRunParkedDuration :: "int \<Rightarrow> string \<Rightarrow> int \<Rightarrow> tables \<Rightarrow> tables" where
  "AddRunParkedDuration ts i ms db =
     (if ms \<le> 0 then db
      else runs_update (run_row i) (\<lambda>r. r\<lparr>rn_ParkedMS := rn_ParkedMS r + ms, rn_UpdatedAt := ts\<rparr>) db)"

section \<open>Recovery of stale runs\<close>

definition RunCIMonitorInterruptedReason :: string where
  "RunCIMonitorInterruptedReason = ''ci monitor interrupted by daemon restart; PR remains open''"

definition stale :: "string list \<Rightarrow> Run \<Rightarrow> bool" where
  "stale preserved r \<longleftrightarrow> rn_Status r \<in> {RunPending, RunRunning} \<and> rn_ID r \<notin> set preserved"

text \<open>The CI monitor of an existing pull request is the only executing step of the run.\<close>

definition ciMonitorRunCondition :: "tables \<Rightarrow> Run \<Rightarrow> bool" where
  "ciMonitorRunCondition db r \<longleftrightarrow>
     rn_Status r \<in> {RunPending, RunRunning} \<and> deref (rn_PRURL r) \<noteq> [] \<and>
     (\<exists>s \<in> set (tb_steps db). sp_RunID s = rn_ID r \<and> sp_StepName s = StepCI \<and> executing (sp_Status s)) \<and>
     \<not> (\<exists>s \<in> set (tb_steps db). sp_RunID s = rn_ID r \<and> sp_StepName s \<noteq> StepCI \<and> executing (sp_Status s))"

definition IsActiveCIMonitorRun :: "string \<Rightarrow> tables \<Rightarrow> bool" where
  "IsActiveCIMonitorRun i db \<longleftrightarrow> list_ex (\<lambda>r. rn_ID r = i \<and> ciMonitorRunCondition db r) (tb_runs db)"

definition interrupt_monitors :: "int \<Rightarrow> string list \<Rightarrow> tables \<Rightarrow> tables" where
  "interrupt_monitors ts preserved db =
     runs_update (\<lambda>r. ciMonitorRunCondition db r \<and> rn_ID r \<notin> set preserved)
       (\<lambda>r. (with_status RunCIMonitorInterrupted r)\<lparr>rn_Error := Some RunCIMonitorInterruptedReason,
          rn_AwaitingAgentSince := None, rn_UpdatedAt := ts\<rparr>) db"

definition skip_monitor_steps :: "int \<Rightarrow> tables \<Rightarrow> tables" where
  "skip_monitor_steps ts db =
     steps_update (\<lambda>s. sp_StepName s = StepCI \<and> executing (sp_Status s) \<and>
         (\<exists>r \<in> set (tb_runs db). rn_ID r = sp_RunID s \<and> rn_Status r = RunCIMonitorInterrupted \<and>
            rn_Error r = Some RunCIMonitorInterruptedReason \<and> rn_UpdatedAt r = ts))
       (\<lambda>s. s\<lparr>sp_Status := StepStatusSkipped, sp_Error := Some RunCIMonitorInterruptedReason,
           sp_CompletedAt := Some ts\<rparr>) db"

definition fail_stale_steps :: "string \<Rightarrow> int \<Rightarrow> string list \<Rightarrow> tables \<Rightarrow> tables" where
  "fail_stale_steps msg ts preserved db =
     steps_update (\<lambda>s. executing (sp_Status s) \<and> (\<exists>r \<in> set (tb_runs db). rn_ID r = sp_RunID s \<and> stale preserved r))
       (\<lambda>s. s\<lparr>sp_Status := StepStatusFailed, sp_Error := Some msg, sp_CompletedAt := Some ts\<rparr>) db"

definition fail_stale_runs :: "string \<Rightarrow> int \<Rightarrow> string list \<Rightarrow> tables \<Rightarrow> tables" where
  "fail_stale_runs msg ts preserved db =
     runs_update (stale preserved) (\<lambda>r. (with_status RunFailed r)\<lparr>rn_Error := Some msg, rn_PushActive := False,
       rn_ParkedMS := rn_ParkedMS r + (case rn_AwaitingAgentSince r of None \<Rightarrow> 0
         | Some since \<Rightarrow> if ts > since then (ts - since) * 1000 else 0),
       rn_AwaitingAgentSince := None, rn_UpdatedAt := ts\<rparr>) db"

definition RecoverStaleRunsExcept :: "int \<Rightarrow> string \<Rightarrow> string list \<Rightarrow> tables \<Rightarrow> nat \<times> tables" where
  "RecoverStaleRunsExcept ts msg preserved db =
     (let db1 = fold invalidateStatusValidation (map rn_ID (filter (stale preserved) (tb_runs db))) db;
          monitors = affected (\<lambda>r. ciMonitorRunCondition db1 r \<and> rn_ID r \<notin> set preserved) (tb_runs db1);
          db2 = skip_monitor_steps ts (interrupt_monitors ts preserved db1);
          db3 = fail_stale_steps msg ts preserved db2 in
      (monitors + affected (stale preserved) (tb_runs db3), fail_stale_runs msg ts preserved db3))"

section \<open>The launch queue\<close>

text \<open>\<open>MAX(queued_at)\<close> over the stamps that are not NULL, 0 when there is none.\<close>

definition max_stamp :: "tables \<Rightarrow> int" where
  "max_stamp db = (case List.map_filter rn_queued_at (tb_runs db) of [] \<Rightarrow> 0 | t # ts \<Rightarrow> fold max ts t)"

definition MarkRunQueued :: "int \<Rightarrow> int \<Rightarrow> string \<Rightarrow> string \<Rightarrow> tables \<Rightarrow> (int \<times> tables) option" where
  "MarkRunQueued clock ts i spec db =
     (let stamp = max clock (max_stamp db + 1);
          p = (\<lambda>r. rn_ID r = i \<and> rn_Status r = RunPending) in
      if affected p (tb_runs db) \<noteq> 1 then None
      else Some (stamp, runs_update p (\<lambda>r. (with_status RunQueued r)\<lparr>rn_queued_at := Some stamp,
             rn_queue_spec := Some spec, rn_UpdatedAt := ts\<rparr>) db))"

definition ClaimQueuedRun :: "int \<Rightarrow> string \<Rightarrow> tables \<Rightarrow> bool \<times> tables" where
  "ClaimQueuedRun ts i db =
     (let p = (\<lambda>r. rn_ID r = i \<and> rn_Status r = RunQueued) in
      (affected p (tb_runs db) = 1, runs_update p (\<lambda>r. (with_status RunPending r)\<lparr>rn_UpdatedAt := ts\<rparr>) db))"

definition TerminateActiveRun :: "int \<Rightarrow> string \<Rightarrow> string \<Rightarrow> RunStatus \<Rightarrow> tables \<Rightarrow> bool \<times> tables" where
  "TerminateActiveRun ts i msg status db =
     (let p = (\<lambda>r. rn_ID r = i \<and> rn_Status r \<in> {RunPending, RunRunning}) in
      (affected p (tb_runs db) = 1, runs_update p (\<lambda>r. (with_status status r)\<lparr>rn_Error := Some msg,
         rn_PushActive := False, rn_TerminalHeadVerifiedAt := None, rn_UpdatedAt := ts\<rparr>) db))"

definition CancelQueuedRun :: "int \<Rightarrow> string \<Rightarrow> string \<Rightarrow> string option \<Rightarrow> tables \<Rightarrow> bool \<times> tables" where
  "CancelQueuedRun ts i reason event db =
     (let p = (\<lambda>r. rn_ID r = i \<and> rn_Status r = RunQueued) in
      (affected p (tb_runs db) = 1, runs_update p (\<lambda>r. (with_status RunCancelled r)\<lparr>rn_Error := Some reason,
         rn_PushActive := False, rn_TerminalHeadVerifiedAt := Some ts,
         rn_EndingEvent := (case rn_EndingEvent r of None \<Rightarrow> event | Some e \<Rightarrow> Some e), rn_UpdatedAt := ts\<rparr>) db))"

definition terminateUnstartedRun :: "int \<Rightarrow> string \<Rightarrow> string \<Rightarrow> RunStatus \<Rightarrow> RunStatus \<Rightarrow> tables \<Rightarrow> bool \<times> tables" where
  "terminateUnstartedRun ts i reason status expected db =
     (let p = (\<lambda>r. rn_ID r = i \<and> rn_Status r = expected) in
      (affected p (tb_runs db) = 1, runs_update p (\<lambda>r. (with_status status r)\<lparr>rn_Error := Some reason,
         rn_PushActive := False, rn_TerminalHeadVerifiedAt := Some ts, rn_UpdatedAt := ts\<rparr>) db))"

definition TerminateUnstartedRun :: "int \<Rightarrow> string \<Rightarrow> string \<Rightarrow> RunStatus \<Rightarrow> tables \<Rightarrow> bool \<times> tables" where
  "TerminateUnstartedRun ts i reason status db = terminateUnstartedRun ts i reason status RunPending db"

definition QueuedRunIDs :: "tables \<Rightarrow> string list" where
  "QueuedRunIDs db = map rn_ID (sort_key (\<lambda>r. (case rn_queued_at r of None \<Rightarrow> 0 | Some t \<Rightarrow> t, rn_ID r))
     (filter (\<lambda>r. rn_Status r = RunQueued) (tb_runs db)))"

definition QueuePosition :: "string \<Rightarrow> tables \<Rightarrow> nat \<times> nat" where
  "QueuePosition i db =
     (let ids = QueuedRunIDs db in
      (if i \<in> set ids then Suc (length (takeWhile (\<lambda>j. j \<noteq> i) ids)) else 0, length ids))"

section \<open>Recovery\<close>

lemma invalidate_rows [simp]:
  "tb_runs (invalidateStatusValidation i db) = tb_runs db" "tb_steps (invalidateStatusValidation i db) = tb_steps db"
  by (simp_all add: invalidateStatusValidation_def)

lemma fold_invalidate_rows [simp]:
  "tb_runs (fold invalidateStatusValidation is db) = tb_runs db"
  "tb_steps (fold invalidateStatusValidation is db) = tb_steps db"
  by (induction "is" arbitrary: db) simp_all

lemma ciMonitor_cong: "tb_steps db = tb_steps db' \<Longrightarrow> ciMonitorRunCondition db = ciMonitorRunCondition db'"
  by (simp add: ciMonitorRunCondition_def fun_eq_iff)

text \<open>What becomes of one stale run.\<close>

definition recovered_run :: "int \<Rightarrow> string \<Rightarrow> tables \<Rightarrow> Run \<Rightarrow> Run" where
  "recovered_run ts msg db r =
     (if ciMonitorRunCondition db r
      then (with_status RunCIMonitorInterrupted r)\<lparr>rn_Error := Some RunCIMonitorInterruptedReason,
             rn_AwaitingAgentSince := None, rn_UpdatedAt := ts\<rparr>
      else (with_status RunFailed r)\<lparr>rn_Error := Some msg, rn_PushActive := False,
             rn_ParkedMS := rn_ParkedMS r + (case rn_AwaitingAgentSince r of None \<Rightarrow> 0
               | Some since \<Rightarrow> if ts > since then (ts - since) * 1000 else 0),
             rn_AwaitingAgentSince := None, rn_UpdatedAt := ts\<rparr>)"

lemma stale_cong: "rn_Status r = rn_Status s \<Longrightarrow> rn_ID r = rn_ID s \<Longrightarrow> stale p r = stale p s"
  by (simp add: stale_def)

lemma recovery_runs:
  assumes "rows' = sql_update (\<lambda>r. m r \<and> rn_ID r \<notin> set p) f rows"
    and "\<And>r. rn_Status (f r) = RunCIMonitorInterrupted" "\<And>r. m r \<Longrightarrow> rn_Status r \<in> {RunPending, RunRunning}"
  shows "sql_update (stale p) g rows' = sql_update (stale p) (\<lambda>r. if m r then f r else g r) rows"
    and "affected (\<lambda>r. m r \<and> rn_ID r \<notin> set p) rows + affected (stale p) rows' = affected (stale p) rows"
proof -
  have f: "\<not> stale p (f r)" for r by (simp add: stale_def assms(2) run_status_defs)
  have m: "stale p r" if "m r" "rn_ID r \<notin> set p" for r using assms(3) [OF that(1)] that(2) by (simp add: stale_def)
  have s: "rn_ID r \<notin> set p" if "stale p r" for r using that by (simp add: stale_def)
  show "sql_update (stale p) g rows' = sql_update (stale p) (\<lambda>r. if m r then f r else g r) rows"
    unfolding assms(1)
  proof (induction rows)
    case (Cons a rows)
    have "m a \<Longrightarrow> stale p a = (rn_ID a \<notin> set p)" using m [of a] s [of a] by blast
    then show ?case using f [of a] Cons by (cases "m a") simp_all
  qed simp
  show "affected (\<lambda>r. m r \<and> rn_ID r \<notin> set p) rows + affected (stale p) rows' = affected (stale p) rows"
    unfolding assms(1) affected_def
  proof (induction rows)
    case (Cons a rows)
    have "m a \<Longrightarrow> stale p a = (rn_ID a \<notin> set p)" using m [of a] s [of a] by blast
    then show ?case using f [of a] Cons by (cases "m a") simp_all
  qed simp
qed

lemma recovery_steps:
  assumes ok: "tables_ok db" and s: "s \<in> set (tb_steps db')" and r: "r \<in> set (tb_runs db)" "stale p r" "rn_ID r = sp_RunID s"
    and db': "db' = fail_stale_steps msg ts p (skip_monitor_steps ts (interrupt_monitors ts p db))"
  shows "\<not> executing (sp_Status s)"
proof
  assume x: "executing (sp_Status s)"
  define db1 where "db1 = interrupt_monitors ts p db"
  define db2 where "db2 = skip_monitor_steps ts db1"
  have steps1: "tb_steps db1 = tb_steps db" by (simp add: db1_def interrupt_monitors_def)
  have runs2: "tb_runs db2 = tb_runs db1" by (simp add: db2_def skip_monitor_steps_def)
  have final: "tb_steps db' = sql_update (\<lambda>s. executing (sp_Status s) \<and> (\<exists>r \<in> set (tb_runs db2). rn_ID r = sp_RunID s \<and> stale p r))
      (\<lambda>s. s\<lparr>sp_Status := StepStatusFailed, sp_Error := Some msg, sp_CompletedAt := Some ts\<rparr>) (tb_steps db2)"
    by (simp add: db' db1_def db2_def fail_stale_steps_def)
  have s2: "s \<in> set (tb_steps db2)" "\<not> (\<exists>r \<in> set (tb_runs db2). rn_ID r = sp_RunID s \<and> stale p r)"
    using s x unfolding final by (auto elim!: sql_updateE simp: executing_def step_status_defs)
  have s1: "s \<in> set (tb_steps db)"
    and unskipped: "\<not> (sp_StepName s = StepCI \<and> executing (sp_Status s) \<and>
      (\<exists>r \<in> set (tb_runs db1). rn_ID r = sp_RunID s \<and> rn_Status r = RunCIMonitorInterrupted \<and>
        rn_Error r = Some RunCIMonitorInterruptedReason \<and> rn_UpdatedAt r = ts))"
    using s2(1) x unfolding db2_def skip_monitor_steps_def
    by (auto elim!: sql_updateE simp: steps1 executing_def step_status_defs)
  show False
  proof (cases "ciMonitorRunCondition db r")
    case True
    then have here: "(with_status RunCIMonitorInterrupted r)\<lparr>rn_Error := Some RunCIMonitorInterruptedReason,
        rn_AwaitingAgentSince := None, rn_UpdatedAt := ts\<rparr> \<in> set (tb_runs db1)"
      using r by (auto simp: db1_def interrupt_monitors_def in_sql_update stale_def intro!: bexI [of _ r])
    have "\<exists>r \<in> set (tb_runs db1). rn_ID r = sp_RunID s \<and> rn_Status r = RunCIMonitorInterrupted \<and>
        rn_Error r = Some RunCIMonitorInterruptedReason \<and> rn_UpdatedAt r = ts"
      using r(3) by (intro bexI [OF _ here]) simp
    then have "sp_StepName s \<noteq> StepCI" using unskipped x by blast
    then show False using True s1 x r(3) by (auto simp: ciMonitorRunCondition_def)
  next
    case False
    then have "r \<in> set (tb_runs db2)"
      using r by (auto simp: runs2 db1_def interrupt_monitors_def in_sql_update intro!: bexI [of _ r])
    then show False using s2(2) r by blast
  qed
qed

lemma epochs_after_invalidate:
  "StatusValidationEpoch j (invalidateStatusValidation i db) = StatusValidationEpoch j db + of_bool (j = i)"
  by (simp add: StatusValidationEpoch_def invalidateStatusValidation_def split: option.splits)

lemma proofs_after_fold_invalidate:
  "tb_proofs (fold invalidateStatusValidation is db) k =
     (if \<exists>i \<in> set is. k \<in> steps_of i db then None else tb_proofs db k)"
proof (induction "is" arbitrary: db)
  case (Cons i "is")
  have "steps_of j (invalidateStatusValidation i db) = steps_of j db" for j by (simp add: steps_of_def)
  then show ?case using Cons by (simp add: invalidateStatusValidation_def)
qed simp

text \<open>C15. A restart of the daemon settles every run it does not resume: the number reported is the number of
  pending and running runs that were not preserved; each of them becomes the interrupted CI monitor it
  was or a failed run that keeps its parked time, every other run is left as it was, none of the
  recovered runs has an executing step left, and their execution proofs are gone.\<close>

theorem recovery_settles:
  assumes "tables_ok db" and res: "RecoverStaleRunsExcept ts msg preserved db = (n, db')"
  shows "n = affected (stale preserved) (tb_runs db) \<and>
    tb_runs db' = sql_update (stale preserved) (recovered_run ts msg db) (tb_runs db) \<and>
    (\<forall>r \<in> set (tb_runs db). stale preserved r \<longrightarrow>
      (\<forall>s \<in> set (tb_steps db'). sp_RunID s = rn_ID r \<longrightarrow> \<not> executing (sp_Status s)) \<and>
      (\<forall>s \<in> set (tb_steps db). sp_RunID s = rn_ID r \<longrightarrow> tb_proofs db' (sp_ID s) = None))"
proof -
  define ids where "ids = map rn_ID (filter (stale preserved) (tb_runs db))"
  define db1 where "db1 = fold invalidateStatusValidation ids db"
  define db3 where "db3 = fail_stale_steps msg ts preserved (skip_monitor_steps ts (interrupt_monitors ts preserved db1))"
  have rows1: "tb_runs db1 = tb_runs db" "tb_steps db1 = tb_steps db" by (simp_all add: db1_def)
  have cond: "ciMonitorRunCondition db1 = ciMonitorRunCondition db" using rows1(2) by (rule ciMonitor_cong)
  have active: "ciMonitorRunCondition db r \<Longrightarrow> rn_Status r \<in> {RunPending, RunRunning}" for r
    by (simp add: ciMonitorRunCondition_def)
  let ?f = "\<lambda>r. (with_status RunCIMonitorInterrupted r)\<lparr>rn_Error := Some RunCIMonitorInterruptedReason,
    rn_AwaitingAgentSince := None, rn_UpdatedAt := ts\<rparr>"
  have runs3: "tb_runs db3 = sql_update (\<lambda>r. ciMonitorRunCondition db r \<and> rn_ID r \<notin> set preserved) ?f (tb_runs db)"
    by (simp add: db3_def fail_stale_steps_def skip_monitor_steps_def interrupt_monitors_def rows1 cond)
  have "RecoverStaleRunsExcept ts msg preserved db =
      (affected (\<lambda>r. ciMonitorRunCondition db1 r \<and> rn_ID r \<notin> set preserved) (tb_runs db1) +
       affected (stale preserved) (tb_runs db3), fail_stale_runs msg ts preserved db3)"
    unfolding RecoverStaleRunsExcept_def Let_def db3_def db1_def ids_def by (rule refl)
  then have out: "n = affected (\<lambda>r. ciMonitorRunCondition db r \<and> rn_ID r \<notin> set preserved) (tb_runs db) +
      affected (stale preserved) (tb_runs db3)" "db' = fail_stale_runs msg ts preserved db3"
    using res rows1 cond by simp_all
  have recovered: "recovered_run ts msg db = (\<lambda>r. if ciMonitorRunCondition db r then ?f r else
      (with_status RunFailed r)\<lparr>rn_Error := Some msg, rn_PushActive := False,
       rn_ParkedMS := rn_ParkedMS r + (case rn_AwaitingAgentSince r of None \<Rightarrow> 0
         | Some since \<Rightarrow> if ts > since then (ts - since) * 1000 else 0),
       rn_AwaitingAgentSince := None, rn_UpdatedAt := ts\<rparr>)"
    by (rule ext) (simp add: recovered_run_def)
  note r = recovery_runs [OF runs3 _ active]
  have runs: "tb_runs db' = sql_update (stale preserved) (recovered_run ts msg db) (tb_runs db)"
    using r(1) by (simp add: out fail_stale_runs_def recovered)
  moreover have "n = affected (stale preserved) (tb_runs db)" using r(2) by (simp add: out)
  moreover have "\<not> executing (sp_Status s)"
    if "x \<in> set (tb_runs db)" "stale preserved x" "s \<in> set (tb_steps db')" "sp_RunID s = rn_ID x" for x s
    using recovery_steps [of db1 s db3 x preserved msg ts] assms(1) that rows1
    by (simp add: out fail_stale_runs_def db3_def tables_ok_def)
  moreover have "tb_proofs db' (sp_ID s) = None"
    if "x \<in> set (tb_runs db)" "stale preserved x" "s \<in> set (tb_steps db)" "sp_RunID s = rn_ID x" for x s
  proof -
    have "tb_proofs db' = tb_proofs db1"
      by (simp add: out fail_stale_runs_def db3_def fail_stale_steps_def skip_monitor_steps_def interrupt_monitors_def)
    moreover have "rn_ID x \<in> set ids" "sp_ID s \<in> steps_of (rn_ID x) db"
      using that by (auto simp: ids_def steps_of_def)
    ultimately show ?thesis by (auto simp: db1_def proofs_after_fold_invalidate)
  qed
  ultimately show ?thesis by blast
qed

section \<open>The launch queue is first in, first out\<close>

text \<open>A queued run carries the stamp of its admission.\<close>

definition queue_ok :: "tables \<Rightarrow> bool" where
  "queue_ok db \<longleftrightarrow> (\<forall>r \<in> set (tb_runs db). rn_Status r = RunQueued \<longrightarrow> rn_queued_at r \<noteq> None)"

lemma max_stamp_ge:
  assumes "r \<in> set (tb_runs db)" "rn_queued_at r = Some t"
  shows "t \<le> max_stamp db"
proof -
  have in_: "t \<in> set (List.map_filter rn_queued_at (tb_runs db))"
    using assms by (force simp: map_filter_def)
  then obtain u us where l: "List.map_filter rn_queued_at (tb_runs db) = u # us"
    by (cases "List.map_filter rn_queued_at (tb_runs db)") auto
  then have "max_stamp db = Max (set (u # us))" by (simp only: max_stamp_def list.case Max.set_eq_fold)
  moreover have "t \<in> set (u # us)" using in_ l by simp
  ultimately show ?thesis by (simp only: Max_ge [OF finite_set])
qed

lemma mset_filter_update:
  assumes "\<And>r. p r \<Longrightarrow> \<not> q r" "\<And>r. q (f r)"
  shows "mset (filter q (sql_update p f rows)) = mset (filter q rows) + mset (map f (filter p rows))"
  using assms by (induction rows) auto

lemma filter_update_gone:
  assumes "\<And>r. p r \<longleftrightarrow> k r = i \<and> q r" "\<And>r. \<not> q (f r)"
  shows "filter q (sql_update p f rows) = filter (\<lambda>r. k r \<noteq> i) (filter q rows)"
  using assms by (induction rows) auto

abbreviation "queued r \<equiv> rn_Status r = RunQueued"
abbreviation "queue_key r \<equiv> (case rn_queued_at r of None \<Rightarrow> 0 | Some t \<Rightarrow> t, rn_ID r)"

lemma QueuedRunIDs_set: "set (QueuedRunIDs db) = rn_ID ` {r \<in> set (tb_runs db). queued r}"
  by (simp add: QueuedRunIDs_def)

text \<open>The launch queue is first in, first out whatever the clock does: a run that is marked queued was
  not in the queue, and the queue the daemon reads back is the old queue with the run at its end.\<close>

theorem queue_fifo:
  assumes "tables_ok db" "queue_ok db" "MarkRunQueued clock ts i spec db = Some (stamp, db')"
  shows "QueuedRunIDs db' = QueuedRunIDs db @ [i] \<and> i \<notin> set (QueuedRunIDs db) \<and> queue_ok db'"
proof -
  let ?p = "\<lambda>r. rn_ID r = i \<and> rn_Status r = RunPending"
  let ?f = "\<lambda>r. (with_status RunQueued r)\<lparr>rn_queued_at := Some stamp, rn_queue_spec := Some spec, rn_UpdatedAt := ts\<rparr>"
  let ?q = "filter queued (tb_runs db)"
  have one: "affected ?p (tb_runs db) = 1" and stamp: "stamp = max clock (max_stamp db + 1)"
    and db': "tb_runs db' = sql_update ?p ?f (tb_runs db)"
    using assms(3) by (auto simp: MarkRunQueued_def Let_def split: if_splits)
  obtain r where r: "filter ?p (tb_runs db) = [r]"
    using one by (auto simp: affected_def length_Suc_conv)
  have "r \<in> set (filter ?p (tb_runs db))" unfolding r by simp
  then have rin: "r \<in> set (tb_runs db)" "rn_ID r = i" "rn_Status r = RunPending" by simp_all
  have keyed: "inj_on rn_ID (set (tb_runs db))" using assms(1) by (simp add: tables_ok_def keyed_def distinct_map)
  have fresh: "i \<notin> set (QueuedRunIDs db)"
  proof
    assume "i \<in> set (QueuedRunIDs db)"
    then obtain x where x: "x \<in> set (tb_runs db)" "queued x" "rn_ID x = i" by (auto simp: QueuedRunIDs_set)
    have "x = r" using inj_onD [OF keyed _ x(1) rin(1)] x(3) rin(2) by simp
    then show False using x(2) rin(3) by (simp add: run_status_defs)
  qed
  have ms: "mset (filter queued (tb_runs db')) = mset (sort_key queue_key ?q @ [?f r])"
  proof -
    have "mset (filter queued (tb_runs db')) = mset ?q + mset (map ?f (filter ?p (tb_runs db)))"
      unfolding db' by (rule mset_filter_update) (simp_all add: run_status_defs)
    then show ?thesis unfolding r by simp
  qed
  have below: "queue_key x \<le> queue_key (?f r)" if x: "x \<in> set ?q" for x
  proof -
    obtain t where t: "rn_queued_at x = Some t" using x assms(2) by (auto simp: queue_ok_def)
    then have "t < stamp" using max_stamp_ge [of x db t] x stamp by auto
    then show ?thesis using t by (simp add: less_eq_prod_def)
  qed
  have "distinct (map rn_ID (filter queued (tb_runs db)))"
    using assms(1) by (simp add: tables_ok_def keyed_def distinct_map_filter)
  then have "distinct (map rn_ID (sort_key queue_key ?q @ [?f r]))"
    using fresh rin by (auto simp: distinct_map QueuedRunIDs_set)
  then have inj: "inj_on queue_key (set (sort_key queue_key ?q @ [?f r]))"
    by (auto simp only: distinct_map inj_on_def prod.inject)
  have "sorted (map queue_key (sort_key queue_key ?q @ [?f r]))"
    using below by (simp only: map_append sorted_append) auto
  then have "sort_key queue_key (filter queued (tb_runs db')) = sort_key queue_key ?q @ [?f r]"
  proof (intro sort_key_inj_key_eq ms)
    show "inj_on queue_key (set (filter queued (tb_runs db')))" using inj by (simp only: mset_eq_setD [OF ms])
  qed
  then have "QueuedRunIDs db' = QueuedRunIDs db @ [i]" using rin by (simp add: QueuedRunIDs_def)
  moreover have "queue_ok db'"
    using assms(2) by (auto simp: queue_ok_def db' in_sql_update)
  ultimately show ?thesis using fresh by simp
qed

text \<open>A queued run is started or cancelled once: a claim succeeds exactly when the run is in the queue, it
  takes that run and no other out of it, and after it neither a second claim nor a cancellation of the
  queued run applies; a cancellation that wins likewise leaves nothing to claim.\<close>

theorem queue_claim_once:
  assumes "tables_ok db" "ClaimQueuedRun ts i db = (won, db1)" "CancelQueuedRun ts i reason event db = (won', db2)"
  shows "won = (i \<in> set (QueuedRunIDs db)) \<and> won' = won \<and>
    QueuedRunIDs db1 = filter (\<lambda>j. j \<noteq> i) (QueuedRunIDs db) \<and> QueuedRunIDs db2 = QueuedRunIDs db1 \<and>
    \<not> fst (ClaimQueuedRun ts' i db1) \<and> \<not> fst (CancelQueuedRun ts' i reason' event' db1) \<and>
    \<not> fst (ClaimQueuedRun ts' i db2) \<and> \<not> fst (CancelQueuedRun ts' i reason' event' db2)"
proof -
  let ?p = "\<lambda>r. rn_ID r = i \<and> queued r"
  have keyed: "keyed rn_ID (tb_runs db)" using assms(1) by (simp add: tables_ok_def)
  have "affected ?p (tb_runs db) \<le> 1" by (rule affected_key_le [OF keyed]) simp
  then have won: "(affected ?p (tb_runs db) = 1) = (i \<in> set (QueuedRunIDs db))"
    using affected_pos [of ?p "tb_runs db"] by (auto simp: QueuedRunIDs_set)
  have gone: "map rn_ID (sort_key queue_key (filter queued (sql_update ?p f (tb_runs db)))) =
      filter (\<lambda>j. j \<noteq> i) (QueuedRunIDs db)" if "\<And>r. \<not> queued (f r)" for f
  proof -
    have "filter queued (sql_update ?p f (tb_runs db)) = filter (\<lambda>r. rn_ID r \<noteq> i) (filter queued (tb_runs db))"
      by (rule filter_update_gone) (simp_all add: that)
    then have "sort_key queue_key (filter queued (sql_update ?p f (tb_runs db))) =
        filter (\<lambda>r. rn_ID r \<noteq> i) (sort_key queue_key (filter queued (tb_runs db)))"
      by (simp only: filter_sort)
    then show ?thesis by (simp only: QueuedRunIDs_def filter_map comp_def)
  qed
  have none: "affected ?p (sql_update ?p f (tb_runs db)) = 0" if "\<And>r. \<not> queued (f r)" for f
    using that by (intro affected_gone) simp
  have claim: "won = (affected ?p (tb_runs db) = 1)"
    "tb_runs db1 = sql_update ?p (\<lambda>r. (with_status RunPending r)\<lparr>rn_UpdatedAt := ts\<rparr>) (tb_runs db)"
    using assms(2) by (auto simp: ClaimQueuedRun_def Let_def)
  have cancel: "won' = (affected ?p (tb_runs db) = 1)"
    "tb_runs db2 = sql_update ?p (\<lambda>r. (with_status RunCancelled r)\<lparr>rn_Error := Some reason, rn_PushActive := False,
       rn_TerminalHeadVerifiedAt := Some ts, rn_EndingEvent := (case rn_EndingEvent r of None \<Rightarrow> event | Some e \<Rightarrow> Some e),
       rn_UpdatedAt := ts\<rparr>) (tb_runs db)"
    using assms(3) by (auto simp: CancelQueuedRun_def Let_def)
  have ids: "QueuedRunIDs db1 = filter (\<lambda>j. j \<noteq> i) (QueuedRunIDs db)" "QueuedRunIDs db2 = filter (\<lambda>j. j \<noteq> i) (QueuedRunIDs db)"
    unfolding QueuedRunIDs_def [of db1] QueuedRunIDs_def [of db2] claim(2) cancel(2)
    by (rule gone, simp add: run_status_defs)+
  have zero: "affected ?p (tb_runs db1) = 0" "affected ?p (tb_runs db2) = 0"
    unfolding claim(2) cancel(2) by (rule none, simp add: run_status_defs)+
  then have "\<not> fst (ClaimQueuedRun t i db1) \<and> \<not> fst (CancelQueuedRun t i why ev db1) \<and>
      \<not> fst (ClaimQueuedRun t i db2) \<and> \<not> fst (CancelQueuedRun t i why ev db2)" for t why ev
    by (simp add: ClaimQueuedRun_def CancelQueuedRun_def Let_def)
  then show ?thesis using claim(1) cancel(1) won ids by simp
qed

section \<open>The pull request never comes back to life\<close>

lemma GetRun_update: "(\<And>r. rn_ID (f r) = rn_ID r) \<Longrightarrow> GetRun i (runs_update (run_row i) f db) = map_option f (GetRun i db)"
  by (simp add: GetRun_def sql_first_update_id)

text \<open>
  A pull request discovered while a receipt is bound (\<open>pr_context.go\<close>) is attached to a run that records no
  URL. This statement does not look at the lifecycle: it is the only one that can bring a closed or merged
  pull request back to open.
\<close>

definition attachDiscoveredPR :: "int \<Rightarrow> string \<Rightarrow> string \<Rightarrow> tables \<Rightarrow> tables" where
  "attachDiscoveredPR ts run url db =
     (if url \<noteq> [] \<and> deref (Option.bind (GetRun run db) rn_PRURL) = []
      then runs_update (\<lambda>r. rn_ID r = run \<and> deref (rn_PRURL r) = []) (\<lambda>r. r\<lparr>rn_PRURL := Some url,
             rn_PRState := Some ''open'', rn_PRStateObservedAt := Some ts, rn_UpdatedAt := ts\<rparr>) db
      else db)"

datatype pr_write = Observed string | Opened string | Attached string

fun pr_apply :: "int \<Rightarrow> string \<Rightarrow> pr_write \<Rightarrow> tables \<Rightarrow> tables" where
  "pr_apply ts i (Observed state) db = UpdateRunPRState ts i state db"
| "pr_apply ts i (Opened url) db = UpdateRunPRURL ts i url db"
| "pr_apply ts i (Attached url) db = attachDiscoveredPR ts i url db"

definition pr_rank :: "string option \<Rightarrow> nat" where
  "pr_rank s = (if s = Some ''merged'' then 2 else if s = Some ''closed'' then 1 else 0)"

definition after_write :: "pr_write \<Rightarrow> string option \<times> string option \<Rightarrow> string option \<times> string option" where
  "after_write w us = (let (u, s) = us in case w of
     Observed state \<Rightarrow> (u, Some (monotonicPRState (deref s) (normal_state state)))
   | Opened url \<Rightarrow> (Some url, case s of Some t \<Rightarrow> if retired_state t then Some t else Some ''open'' | None \<Rightarrow> Some ''open'')
   | Attached url \<Rightarrow> if url \<noteq> [] \<and> deref u = [] then (Some url, Some ''open'') else (u, s))"

definition pr_of :: "Run \<Rightarrow> string option \<times> string option" where
  "pr_of r = (rn_PRURL r, rn_PRState r)"

lemma GetRun_update_if:
  "(\<And>r. rn_ID (f r) = rn_ID r) \<Longrightarrow> GetRun i (runs_update (\<lambda>r. rn_ID r = i \<and> q r) f db) =
     map_option (\<lambda>r. if q r then f r else r) (GetRun i db)"
  by (simp add: GetRun_def sql_first_update_key)

lemma pr_apply_row:
  assumes "GetRun i db = Some r"
  shows "\<exists>r'. GetRun i (pr_apply ts i w db) = Some r' \<and> pr_of r' = after_write w (pr_of r)"
  using assms
  by (cases w) (simp_all add: UpdateRunPRState_def UpdateRunPRURL_def attachDiscoveredPR_def GetRun_update GetRun_update_if
      after_write_def pr_of_def)

lemma pr_fold_row:
  assumes "GetRun i db = Some r"
  shows "\<exists>r'. GetRun i (fold (pr_apply ts i) ws db) = Some r' \<and> pr_of r' = fold after_write ws (pr_of r)"
  using assms
proof (induction ws arbitrary: db r)
  case (Cons w ws)
  obtain r1 where "GetRun i (pr_apply ts i w db) = Some r1" "pr_of r1 = after_write w (pr_of r)"
    using pr_apply_row [OF Cons.prems] by blast
  then show ?case using Cons.IH [of "pr_apply ts i w db" r1] by simp
qed simp

lemma normal_state_fixed: "normal_state ''merged'' = ''merged''" "normal_state ''closed'' = ''closed''"
  by (simp_all add: normal_state_def TrimSpace_plain plain_byte_def to_lower_def lower_char_def)

abbreviation "reattaches w us \<equiv> (\<exists>url. w = Attached url \<and> url \<noteq> []) \<and> deref (fst us) = []"

lemma after_write_rank: "reattaches w us \<or> pr_rank (snd us) \<le> pr_rank (snd (after_write w us))"
  by (cases w; cases us)
    (auto simp: after_write_def pr_rank_def monotonicPRState_def normal_state_fixed retired_state_def deref_def)

lemma after_write_url: "w \<noteq> Opened [] \<Longrightarrow> deref (fst us) \<noteq> [] \<Longrightarrow> deref (fst (after_write w us)) \<noteq> []"
  by (cases w; cases us) (auto simp: after_write_def deref_def)

lemma reattach_opens: "reattaches w us \<Longrightarrow> snd (after_write w us) = Some ''open'' \<and> deref (fst (after_write w us)) \<noteq> []"
  by (cases us) (auto simp: after_write_def deref_def)

lemma after_write_merged: "normal_state state = ''merged'' \<Longrightarrow> snd (after_write (Observed state) us) = Some ''merged''"
  by (simp add: after_write_def monotonicPRState_def normal_state_fixed split: prod.split)

lemma pr_rank_merged: "2 \<le> pr_rank s \<longleftrightarrow> s = Some ''merged''"
  by (simp add: pr_rank_def)

lemma recorded_monotone:
  assumes "Opened [] \<notin> set ws" "deref (fst us) \<noteq> []"
  shows "pr_rank (snd us) \<le> pr_rank (snd (fold after_write ws us)) \<and>
    ((\<exists>state. Observed state \<in> set ws \<and> normal_state state = ''merged'') \<longrightarrow> snd (fold after_write ws us) = Some ''merged'')"
  using assms
proof (induction ws arbitrary: us)
  case (Cons w ws)
  have url: "deref (fst (after_write w us)) \<noteq> []" using Cons.prems by (intro after_write_url) auto
  then have IH: "pr_rank (snd (after_write w us)) \<le> pr_rank (snd (fold after_write ws (after_write w us)))"
    "(\<exists>state. Observed state \<in> set ws \<and> normal_state state = ''merged'') \<longrightarrow>
      snd (fold after_write ws (after_write w us)) = Some ''merged''"
    using Cons.IH [of "after_write w us"] Cons.prems(1) by auto
  have step: "pr_rank (snd us) \<le> pr_rank (snd (after_write w us))"
    using after_write_rank [of w us] Cons.prems(2) by blast
  have "snd (fold after_write ws (after_write w us)) = Some ''merged''"
    if "Observed state \<in> set (w # ws)" "normal_state state = ''merged''" for state
  proof (cases "w = Observed state")
    case True
    then have "snd (after_write w us) = Some ''merged''" using after_write_merged that(2) by simp
    then have "2 \<le> pr_rank (snd (fold after_write ws (after_write w us)))"
      using IH(1) by (simp add: pr_rank_def)
    then show ?thesis by (simp only: pr_rank_merged)
  next
    case False
    then have "Observed state \<in> set ws" using that(1) by simp
    then show ?thesis using IH(2) that(2) by blast
  qed
  then show ?case using le_trans [OF step IH(1)] by simp blast
qed simp

lemma reopened_by_attach:
  assumes "Opened [] \<notin> set ws" "pr_rank (snd (fold after_write ws us)) < pr_rank (snd us)"
  shows "\<exists>ws1 url ws2. ws = ws1 @ Attached url # ws2 \<and> url \<noteq> [] \<and> deref (fst (fold after_write ws1 us)) = []"
  using assms
proof (induction ws arbitrary: us)
  case (Cons w ws)
  show ?case
  proof (cases "reattaches w us")
    case True
    then obtain url where "w # ws = [] @ Attached url # ws" "url \<noteq> []" "deref (fst (fold after_write [] us)) = []" by auto
    then show ?thesis by blast
  next
    case False
    then have "pr_rank (snd (fold after_write ws (after_write w us))) < pr_rank (snd (after_write w us))"
      using Cons.prems(2) after_write_rank [of w us] by auto
    with Cons.IH Cons.prems(1) obtain ws1 url ws2
      where split: "ws = ws1 @ Attached url # ws2" "url \<noteq> []" "deref (fst (fold after_write ws1 (after_write w us))) = []"
      by (metis list.set_intros(2))
    then have "w # ws = (w # ws1) @ Attached url # ws2" "deref (fst (fold after_write (w # ws1) us)) = []" by simp_all
    then show ?thesis using split(2) by blast
  qed
qed simp

text \<open>C16. Where the lifecycle of a pull request can go back. Once the run records a URL it only advances:
  whatever observations, delayed writes of the URL and discovered pull requests arrive, in any order, a
  closed state is never reopened, a merged one stays merged, and one observation of a merge, in any letter
  case, settles it for good. Without a URL it goes back only where a receipt attaches a discovered pull
  request to the run; that write leaves the state open and the URL recorded, so it happens once.\<close>

theorem pr_lifecycle_monotone:
  assumes "GetRun i db = Some r" "Opened [] \<notin> set ws"
  shows "\<exists>r'. GetRun i (fold (pr_apply ts i) ws db) = Some r' \<and>
    (deref (rn_PRURL r) \<noteq> [] \<longrightarrow> pr_rank (rn_PRState r) \<le> pr_rank (rn_PRState r') \<and>
      ((\<exists>state. Observed state \<in> set ws \<and> normal_state state = ''merged'') \<longrightarrow> rn_PRState r' = Some ''merged'')) \<and>
    (pr_rank (rn_PRState r') < pr_rank (rn_PRState r) \<longrightarrow>
      (\<exists>ws1 url ws2 before after. ws = ws1 @ Attached url # ws2 \<and>
         GetRun i (fold (pr_apply ts i) ws1 db) = Some before \<and> deref (rn_PRURL before) = [] \<and>
         GetRun i (fold (pr_apply ts i) (ws1 @ [Attached url]) db) = Some after \<and>
         rn_PRState after = Some ''open'' \<and> deref (rn_PRURL after) = url \<and> url \<noteq> []))"
proof -
  obtain r' where r': "GetRun i (fold (pr_apply ts i) ws db) = Some r'" "pr_of r' = fold after_write ws (pr_of r)"
    using pr_fold_row [OF assms(1)] by blast
  have "\<exists>ws1 url ws2 before after. ws = ws1 @ Attached url # ws2 \<and>
         GetRun i (fold (pr_apply ts i) ws1 db) = Some before \<and> deref (rn_PRURL before) = [] \<and>
         GetRun i (fold (pr_apply ts i) (ws1 @ [Attached url]) db) = Some after \<and>
         rn_PRState after = Some ''open'' \<and> deref (rn_PRURL after) = url \<and> url \<noteq> []"
    if "pr_rank (rn_PRState r') < pr_rank (rn_PRState r)"
  proof -
    from that r'(2) have "pr_rank (snd (fold after_write ws (pr_of r))) < pr_rank (snd (pr_of r))"
      by (metis pr_of_def snd_conv)
    from reopened_by_attach [OF assms(2) this] obtain ws1 url ws2
      where split: "ws = ws1 @ Attached url # ws2" "url \<noteq> []" "deref (fst (fold after_write ws1 (pr_of r))) = []" by blast
    obtain b where b: "GetRun i (fold (pr_apply ts i) ws1 db) = Some b" "pr_of b = fold after_write ws1 (pr_of r)"
      using pr_fold_row [OF assms(1)] by blast
    obtain a where a: "GetRun i (pr_apply ts i (Attached url) (fold (pr_apply ts i) ws1 db)) = Some a"
      "pr_of a = after_write (Attached url) (pr_of b)" using pr_apply_row [OF b(1)] by blast
    have "deref (rn_PRURL b) = []" using split(3) b(2) by (metis pr_of_def fst_conv)
    then show ?thesis using split a b
      by (intro exI [of _ ws1] exI [of _ url] exI [of _ ws2] exI [of _ b] exI [of _ a])
        (simp add: pr_of_def after_write_def deref_def)
  qed
  moreover have "deref (rn_PRURL r) \<noteq> [] \<Longrightarrow> pr_rank (rn_PRState r) \<le> pr_rank (rn_PRState r') \<and>
      ((\<exists>state. Observed state \<in> set ws \<and> normal_state state = ''merged'') \<longrightarrow> rn_PRState r' = Some ''merged'')"
    using recorded_monotone [OF assms(2), of "pr_of r"] r'(2) by (metis pr_of_def fst_conv snd_conv)
  ultimately show ?thesis using r'(1) by blast
qed

section \<open>Carried validation is all or nothing\<close>

lemma steps_sql_update:
  assumes "\<And>s. sp_RunID (f s) = sp_RunID s" "\<And>s. sp_StepOrder (f s) = sp_StepOrder s" "\<And>s. sp_ID (f s) = sp_ID s"
  shows "GetStepsByRun run (steps_update p f db) = map (\<lambda>s. if p s then f s else s) (GetStepsByRun run db)"
proof -
  let ?g = "\<lambda>s. if p s then f s else s"
  have "filter (\<lambda>s. sp_RunID s = run) (map ?g rows) = map ?g (filter (\<lambda>s. sp_RunID s = run) rows)" for rows
    using assms by (induction rows) auto
  then show ?thesis using assms by (simp add: GetStepsByRun_def sql_update_def sort_key_map_inv)
qed

abbreviation "test_rows run db \<equiv> filter (\<lambda>s. sp_StepName s = StepTest) (GetStepsByRun run db)"

definition tested_at :: "string \<Rightarrow> StepResult \<Rightarrow> bool" where
  "tested_at head s \<longleftrightarrow> sp_Status s = StepStatusCompleted \<and>
     (\<exists>raw fs. sp_FindingsJSON s = Some raw \<and> ParseFindingsJSON raw = Some fs \<and> fs_TestedHeadSHA fs = head)"

lemma carry_finish_True:
  assumes "keyed rn_ID (tb_runs db1)" "carry_finish ts run from to db db1 = (True, db')"
  shows "(\<exists>r. GetRun run db1 = Some r \<and> approval_open run from to r \<and>
      GetRun run db' = Some (r\<lparr>rn_ReviewApprovedHeadSHA := Some to, rn_UpdatedAt := ts\<rparr>)) \<and>
    tb_steps db' = tb_steps db1 \<and> affected (pass_open run from to) (tb_documents db') = 0"
proof -
  let ?f = "\<lambda>r. r\<lparr>rn_ReviewApprovedHeadSHA := Some to, rn_UpdatedAt := ts\<rparr>"
  let ?q = "\<lambda>r. rn_ReviewApprovedHeadSHA r = Some from \<and> rn_HeadSHA r = to \<and> rn_Shipping r = None"
  have open_: "approval_open run from to = (\<lambda>r. rn_ID r = run \<and> ?q r)" by (simp add: approval_open_def fun_eq_iff)
  have one: "affected (\<lambda>r. rn_ID r = run \<and> ?q r) (tb_runs db1) = 1"
    and db': "db' = runs_update (approval_open run from to) ?f
        (db1\<lparr>tb_documents := sql_update (pass_open run from to) (\<lambda>d. d\<lparr>dp_carried_review_from := Some from\<rparr>) (tb_documents db1)\<rparr>)"
    using assms(2) by (auto simp: carry_finish_def open_ split: if_splits)
  have "(case GetRun run db1 of None \<Rightarrow> 0 | Some r \<Rightarrow> of_bool (?q r)) = (1::nat)"
    using one affected_keyed [OF assms(1), of run ?q] by (simp only: GetRun_def)
  then obtain r where r: "GetRun run db1 = Some r" "?q r" by (cases "GetRun run db1") (simp_all del: One_nat_def)
  have id: "rn_ID r = run" using sql_first_Some r(1) by (fastforce simp: GetRun_def)
  have "GetRun run db' = Some (?f r)"
    using r sql_first_update_key [of rn_ID ?f run run ?q "tb_runs db1"] by (simp add: db' open_ GetRun_def)
  moreover have "affected (pass_open run from to) (tb_documents db') = 0"
    by (simp add: db' affected_gone pass_open_def)
  ultimately show ?thesis using r id by (auto simp: db' approval_open_def)
qed

lemma carry_again:
  assumes "affected (pass_open run from to) (tb_documents db') = 0"
  shows "\<not> fst (CarryValidationOverDocOnlyCommits ts run from to db')"
  using assms by (simp add: CarryValidationOverDocOnlyCommits_def carry_finish_def Let_def split: test_carry.split)

lemma marshal_tested_head:
  assumes "ParseFindingsJSON raw = Some fs" "valid_utf8 to"
  shows "ParseFindingsJSON (MarshalFindingsJSON (fs\<lparr>fs_TestedHeadSHA := to\<rparr>)) = Some (fs\<lparr>fs_TestedHeadSHA := to\<rparr>)"
proof -
  have "storable fs" using assms(1) by (rule parse_storable)
  then have "storable (fs\<lparr>fs_TestedHeadSHA := to\<rparr>)"
    using assms(2) by (simp add: storable_def utf8_findings_def int64_findings_def)
  then show ?thesis by (rule parse_marshal)
qed

text \<open>Validation is carried over documentation commits all or not at all: a refused carry changes nothing;
  a recorded one moved the approval of an ordinary run from exactly the old head to the head the run
  stands at, left the run's Test step skipped or tested at that head, and can never be recorded again.\<close>

theorem carry_validation_atomic:
  assumes "tables_ok db" "valid_utf8 to" "CarryValidationOverDocOnlyCommits ts run from to db = (ok, db')"
  shows "(\<not> ok \<longrightarrow> db' = db) \<and>
    (ok \<longrightarrow> (\<exists>r. GetRun run db = Some r \<and> approval_open run from to r \<and>
        GetRun run db' = Some (r\<lparr>rn_ReviewApprovedHeadSHA := Some to, rn_UpdatedAt := ts\<rparr>)) \<and>
      (\<exists>t rest. test_rows run db' = t # rest \<and> (sp_Status t = StepStatusSkipped \<or> tested_at to t)) \<and>
      \<not> fst (CarryValidationOverDocOnlyCommits ts' run from to db'))"
proof (cases ok)
  case False
  then show ?thesis using assms(3)
    by (auto simp: CarryValidationOverDocOnlyCommits_def carry_finish_def Let_def split: test_carry.splits if_splits)
next
  case True
  have rk: "keyed rn_ID (tb_runs db)" and sk: "keyed sp_ID (tb_steps db)" using assms(1) by (simp_all add: tables_ok_def)
  show ?thesis
  proof (cases "test_carry_of run from to db")
    case TestSkipped
    then have fin: "carry_finish ts run from to db db = (True, db')" using assms(3) True by (simp add: CarryValidationOverDocOnlyCommits_def)
    note f = carry_finish_True [OF rk fin]
    have "\<exists>t rest. test_rows run db = t # rest \<and> sp_Status t = StepStatusSkipped"
      using TestSkipped by (auto simp: test_carry_of_def split: list.splits if_splits option.splits)
    then have "\<exists>t rest. test_rows run db' = t # rest \<and> sp_Status t = StepStatusSkipped" using f by (simp add: GetStepsByRun_def)
    then show ?thesis using True f carry_again by blast
  next
    case (TestCarried row carried)
    let ?same = "\<lambda>s. sp_ID s = sp_ID row \<and> sp_FindingsJSON s = sp_FindingsJSON row"
    let ?g = "\<lambda>s. s\<lparr>sp_FindingsJSON := Some carried\<rparr>"
    let ?db1 = "steps_update ?same ?g db"
    have fin: "carry_finish ts run from to db ?db1 = (True, db')"
      using assms(3) True TestCarried by (simp add: CarryValidationOverDocOnlyCommits_def Let_def split: if_splits)
    note f = carry_finish_True [OF _ fin]
    obtain rest raw fs where t: "test_rows run db = row # rest" "sp_Status row = StepStatusCompleted"
      "sp_FindingsJSON row = Some raw" "ParseFindingsJSON raw = Some fs" "carried = MarshalFindingsJSON (fs\<lparr>fs_TestedHeadSHA := to\<rparr>)"
      using TestCarried by (auto simp: test_carry_of_def split: list.splits if_splits option.splits)
    have "GetStepsByRun run ?db1 = map (\<lambda>s. if ?same s then ?g s else s) (GetStepsByRun run db)"
      by (rule steps_sql_update) simp_all
    then have "test_rows run ?db1 = map (\<lambda>s. if ?same s then ?g s else s) (test_rows run db)"
      by (simp add: filter_map comp_def if_distrib [of sp_StepName] cong: if_cong)
    then have "\<exists>rest'. test_rows run ?db1 = ?g row # rest'" using t(1) by simp
    moreover have "test_rows run db' = test_rows run ?db1" using f rk by (simp add: GetStepsByRun_def)
    moreover have "tested_at to (?g row)"
      using t(2,5) marshal_tested_head [OF t(4) assms(2)] by (simp add: tested_at_def)
    ultimately have "\<exists>t rest. test_rows run db' = t # rest \<and> tested_at to t" by metis
    moreover have "GetRun run ?db1 = GetRun run db" by simp
    ultimately show ?thesis using True f rk carry_again by (simp add: ex_disj_distrib) blast
  qed (use assms(3) True in \<open>simp_all add: CarryValidationOverDocOnlyCommits_def\<close>)
qed

section \<open>The properties at concrete tables\<close>

definition sample_queue :: tables where
  "sample_queue = no_tables\<lparr>tb_runs := [zero_run\<lparr>rn_ID := ''a'', rn_Status := RunPending\<rparr>,
     zero_run\<lparr>rn_ID := ''b'', rn_Status := RunQueued, rn_queued_at := Some 5\<rparr>]\<rparr>"

lemma sample_queue_ok: "tables_ok sample_queue" "queue_ok sample_queue"
  by (simp_all add: tables_ok_def keyed_def queue_ok_def sample_queue_def no_tables_def zero_run_def run_status_defs)

lemma sample_queue_ids: "QueuedRunIDs sample_queue = [''b'']"
  by (simp add: QueuedRunIDs_def sample_queue_def no_tables_def zero_run_def run_status_defs)

theorem queue_fifo_witness:
  "\<exists>db. MarkRunQueued 3 9 ''a'' [] sample_queue = Some (6, db) \<and> QueuedRunIDs db = [''b'', ''a'']"
proof -
  obtain db where m: "MarkRunQueued 3 9 ''a'' [] sample_queue = Some (6, db)"
    by (simp add: MarkRunQueued_def Let_def sample_queue_def no_tables_def zero_run_def affected_def run_status_defs
        max_stamp_def map_filter_simps)
  from queue_fifo [OF sample_queue_ok this] show ?thesis using m by (simp add: sample_queue_ids)
qed

theorem queue_claim_once_witness:
  "fst (ClaimQueuedRun 9 ''b'' sample_queue) \<and>
   \<not> fst (CancelQueuedRun 9 ''b'' [] None (snd (ClaimQueuedRun 9 ''b'' sample_queue)))"
proof -
  obtain won db1 won' db2 where c: "ClaimQueuedRun 9 ''b'' sample_queue = (won, db1)"
    "CancelQueuedRun 9 ''b'' [] None sample_queue = (won', db2)" by (metis surj_pair)
  from queue_claim_once [OF sample_queue_ok(1) this] show ?thesis by (simp add: c sample_queue_ids)
qed

definition sample_pr :: "string option \<Rightarrow> tables" where
  "sample_pr url = no_tables\<lparr>tb_runs := [zero_run\<lparr>rn_ID := ''a'', rn_PRURL := url\<rparr>]\<rparr>"

text \<open>With a URL a merge is final; without one, a pull request discovered later reopens it.\<close>

theorem pr_lifecycle_monotone_witness:
  "(\<exists>r. GetRun ''a'' (fold (pr_apply 9 ''a'') [Observed ''merged'', Opened ''u'', Attached ''v'', Observed ''open''] (sample_pr (Some ''u''))) = Some r \<and>
     rn_PRState r = Some ''merged'') \<and>
   (\<exists>r before. GetRun ''a'' (fold (pr_apply 9 ''a'') [Observed ''merged'', Attached ''v''] (sample_pr None)) = Some r \<and>
     rn_PRState r = Some ''open'' \<and> GetRun ''a'' (fold (pr_apply 9 ''a'') [Observed ''merged''] (sample_pr None)) = Some before \<and>
     rn_PRState before = Some ''merged'' \<and> deref (rn_PRURL before) = [])"
proof -
  have row: "GetRun ''a'' (sample_pr url) = Some (zero_run\<lparr>rn_ID := ''a'', rn_PRURL := url\<rparr>)" for url
    by (simp add: GetRun_def sql_first_def sample_pr_def no_tables_def)
  have first: "\<exists>r. GetRun ''a'' (fold (pr_apply 9 ''a'') [Observed ''merged'', Opened ''u'', Attached ''v'', Observed ''open''] (sample_pr (Some ''u''))) = Some r \<and>
      rn_PRState r = Some ''merged''"
    using pr_lifecycle_monotone [OF row [of "Some ''u''"], of "[Observed ''merged'', Opened ''u'', Attached ''v'', Observed ''open'']" 9]
      normal_state_fixed(1) by (auto simp: deref_def)
  have merged: "GetRun ''a'' (pr_apply 9 ''a'' (Observed ''merged'') (sample_pr None)) =
      Some (zero_run\<lparr>rn_ID := ''a'', rn_PRState := Some ''merged'', rn_PRStateObservedAt := Some 9, rn_UpdatedAt := 9\<rparr>)"
    by (simp add: UpdateRunPRState_def GetRun_update row monotonicPRState_def normal_state_fixed) (simp add: zero_run_def)
  have "\<exists>r. GetRun ''a'' (pr_apply 9 ''a'' (Attached ''v'') (pr_apply 9 ''a'' (Observed ''merged'') (sample_pr None))) = Some r \<and>
      rn_PRState r = Some ''open''"
    using pr_apply_row [OF merged, of 9 "Attached ''v''"] by (auto simp: after_write_def pr_of_def deref_def zero_run_def)
  with first merged show ?thesis by (simp add: deref_def zero_run_def)
qed

definition sample_stale :: tables where
  "sample_stale = no_tables\<lparr>tb_runs := [zero_run\<lparr>rn_ID := ''a'', rn_Status := RunRunning, rn_AwaitingAgentSince := Some 4\<rparr>],
     tb_steps := [zero_step\<lparr>sp_ID := ''s'', sp_RunID := ''a'', sp_StepName := StepReview, sp_Status := StepStatusAwaitingApproval\<rparr>]\<rparr>"

theorem recovery_settles_witness:
  "\<exists>r. tb_runs (snd (RecoverStaleRunsExcept 6 ''crash'' [] sample_stale)) = [r] \<and>
     rn_Status r = RunFailed \<and> rn_ParkedMS r = 2000 \<and> rn_AwaitingAgentSince r = None"
proof -
  obtain n db where out: "RecoverStaleRunsExcept 6 ''crash'' [] sample_stale = (n, db)" by fastforce
  have "tables_ok sample_stale" by (simp add: tables_ok_def keyed_def sample_stale_def no_tables_def)
  from recovery_settles [OF this out]
  have "tb_runs db = sql_update (stale []) (recovered_run 6 ''crash'' sample_stale) (tb_runs sample_stale)" by blast
  moreover define r where "r = zero_run\<lparr>rn_ID := ''a'', rn_Status := RunRunning, rn_AwaitingAgentSince := Some 4\<rparr>"
  have "tb_runs sample_stale = [r]" by (simp add: sample_stale_def no_tables_def r_def)
  moreover have "stale [] r" "\<not> ciMonitorRunCondition sample_stale r"
    by (simp_all add: stale_def ciMonitorRunCondition_def r_def zero_run_def deref_def)
  ultimately have "tb_runs db = [recovered_run 6 ''crash'' sample_stale r]" by simp
  then show ?thesis using \<open>\<not> ciMonitorRunCondition sample_stale r\<close>
    by (simp add: out recovered_run_def) (simp add: r_def zero_run_def)
qed

definition sample_carry :: tables where
  "sample_carry = no_tables\<lparr>tb_runs := [zero_run\<lparr>rn_ID := ''a'', rn_HeadSHA := ''t'', rn_ReviewApprovedHeadSHA := Some ''f''\<rparr>],
     tb_steps := [zero_step\<lparr>sp_ID := ''s'', sp_RunID := ''a'', sp_StepName := StepTest, sp_Status := StepStatusSkipped\<rparr>],
     tb_documents := [\<lparr> dp_run_id = ''a'', dp_from_head_sha = ''f'', dp_to_head_sha = Some ''t'', dp_commit_count = 1,
       dp_carried_review_from = None \<rparr>]\<rparr>"

theorem carry_validation_atomic_witness:
  "\<exists>db. CarryValidationOverDocOnlyCommits 9 ''a'' ''f'' ''t'' sample_carry = (True, db) \<and>
     \<not> fst (CarryValidationOverDocOnlyCommits 10 ''a'' ''f'' ''t'' db)"
proof -
  have rows: "GetStepsByRun ''a'' sample_carry = tb_steps sample_carry"
    by (simp add: GetStepsByRun_def sample_carry_def no_tables_def)
  have "test_carry_of ''a'' ''f'' ''t'' sample_carry = TestSkipped"
    unfolding test_carry_of_def rows by (simp add: sample_carry_def no_tables_def)
  then obtain db where c: "CarryValidationOverDocOnlyCommits 9 ''a'' ''f'' ''t'' sample_carry = (True, db)"
    by (simp add: CarryValidationOverDocOnlyCommits_def carry_finish_def)
      (simp add: sample_carry_def no_tables_def affected_def pass_open_def approval_open_def zero_run_def)
  have ok: "tables_ok sample_carry" by (simp add: tables_ok_def keyed_def sample_carry_def no_tables_def)
  have "valid_utf8 ''t''" by (simp add: valid_utf8.simps rune_size_def lead_size_def rune_ok_def)
  from carry_validation_atomic [OF ok this c] show ?thesis using c by blast
qed

end
