(* ===== verification/PRComparison.thy ===== *)
theory PRComparison
  imports RunRows
begin

text \<open>
  The comparison a run is validated against, from \<open>internal/db/pr_context.go\<close>, \<open>target_rewind.go\<close>,
  \<open>target_rewind_history.go\<close> and \<open>target_rewind_pr_observation.go\<close>: the receipt of the observed pull
  request (its identity, the local head, the target and the digest of the diff) with its generation, what a
  changed receipt revokes, and the rewinds a run may take when its target advances. An upsert of a receipt
  is an update of the map \<open>tb_prContexts\<close>. Of a step row the column \<open>ci_fix_attempts\<close> is left out.
\<close>

section \<open>Candidates\<close>

record PRContextCandidate =
  ct_PRURL :: string
  ct_SourceRepo :: string
  ct_SourceBranch :: string
  ct_ForgeHeadSHA :: string
  ct_LocalHeadSHA :: string
  ct_TargetBranch :: string
  ct_TargetSHA :: string
  ct_MergeBaseSHA :: string
  ct_DiffDigest :: string

definition candidate_of :: "PRContextRow \<Rightarrow> PRContextCandidate" where
  "candidate_of p = \<lparr> ct_PRURL = deref (pc_pr_url p), ct_SourceRepo = deref (pc_source_repo p),
     ct_SourceBranch = deref (pc_source_branch p), ct_ForgeHeadSHA = deref (pc_forge_head_sha p),
     ct_LocalHeadSHA = pc_local_head_sha p, ct_TargetBranch = pc_target_branch p, ct_TargetSHA = pc_target_sha p,
     ct_MergeBaseSHA = pc_merge_base_sha p, ct_DiffDigest = pc_diff_digest p \<rparr>"

definition validHex :: "string \<Rightarrow> nat \<Rightarrow> bool" where
  "validHex s n \<longleftrightarrow> length s = n \<and> list_all (\<lambda>c. is_digit c \<or> 97 \<le> byte c \<and> byte c \<le> 102) s"

definition validGitSHA :: "string \<Rightarrow> bool" where
  "validGitSHA s \<longleftrightarrow> validHex s 40 \<or> validHex s 64"

definition clean_field :: "string \<Rightarrow> bool" where
  "clean_field s \<longleftrightarrow> TrimSpace s = s \<and> \<not> list_ex (\<lambda>c. byte c \<in> {9, 10, 13}) s"

text \<open>
  What \<open>url.Parse\<close> must find in the address of a pull request: no control byte, scheme http or https, an
  authority without user information, an optional numeric port and well-formed escapes; and its fragment is
  empty. Which bracketed text is an IPv6 host is a parameter.
\<close>

definition is_hex :: "char \<Rightarrow> bool" where
  "is_hex c \<longleftrightarrow> is_digit c \<or> 97 \<le> byte c \<and> byte c \<le> 102 \<or> 65 \<le> byte c \<and> byte c \<le> 70"

fun escapes_ok :: "string \<Rightarrow> bool" where
  "escapes_ok [] = True"
| "escapes_ok (c # s) =
     (if c = CHR ''%'' then (case s of a # b # r \<Rightarrow> is_hex a \<and> is_hex b | _ \<Rightarrow> False) \<and> escapes_ok (drop 2 s) else escapes_ok s)"

definition host_char :: "char \<Rightarrow> bool" where
  "host_char c \<longleftrightarrow> byte c \<ge> 128 \<or> is_digit c \<or> 65 \<le> byte c \<and> byte c \<le> 90 \<or> 97 \<le> byte c \<and> byte c \<le> 122 \<or>
     c \<in> set ''-_.~!$&()*+,;=:[]<>'' \<or> byte c \<in> {34, 39}"

text \<open>In a host an escape stands for a byte of at least 128, or for the percent sign.\<close>

fun host_text_ok :: "string \<Rightarrow> bool" where
  "host_text_ok [] = True"
| "host_text_ok (c # s) =
     (if c = CHR ''%''
      then (case s of
              a # b # r \<Rightarrow> is_hex a \<and> is_hex b \<and> (\<not> (is_digit a \<and> byte a < 56) \<or> a = CHR ''2'' \<and> b = CHR ''5'')
            | _ \<Rightarrow> False) \<and> host_text_ok (drop 2 s)
      else host_char c \<and> host_text_ok s)"

definition host_ok :: "(string \<Rightarrow> bool) \<Rightarrow> string \<Rightarrow> bool" where
  "host_ok ipv6 host \<longleftrightarrow>
     (if HasPrefix host ''['' then ipv6 host
      else host_text_ok host \<and>
        (CHR '':'' \<in> set host \<longrightarrow> list_all is_digit (rev (takeWhile (\<lambda>c. c \<noteq> CHR '':'') (rev host)))))"

definition absolute_url :: "(string \<Rightarrow> bool) \<Rightarrow> string \<Rightarrow> bool" where
  "absolute_url ipv6 url \<longleftrightarrow>
     (let address = takeWhile (\<lambda>c. c \<noteq> CHR ''#'') url;
          scheme = takeWhile (\<lambda>c. c \<noteq> CHR '':'') address;
          rest = takeWhile (\<lambda>c. c \<noteq> CHR ''?'') (drop (Suc (length scheme)) address);
          authority = takeWhile (\<lambda>c. c \<noteq> CHR ''/'') (drop 2 rest) in
      \<not> list_ex (\<lambda>c. byte c < 32 \<or> byte c = 127) address \<and> CHR '':'' \<in> set address \<and>
      to_lower scheme \<in> {''http'', ''https''} \<and> HasPrefix rest ''//'' \<and> authority \<noteq> [] \<and> CHR ''@'' \<notin> set authority \<and>
      host_ok ipv6 authority \<and> escapes_ok (drop (2 + length authority) rest) \<and>
      escapes_ok (drop (Suc (length address)) url))"

definition url_fragment :: "string \<Rightarrow> string" where
  "url_fragment url = drop (Suc (length (takeWhile (\<lambda>c. c \<noteq> CHR ''#'') url))) url"

definition pr_url_ok :: "(string \<Rightarrow> bool) \<Rightarrow> string \<Rightarrow> bool" where
  "pr_url_ok ipv6 url \<longleftrightarrow> absolute_url ipv6 url \<and> url_fragment url = [] \<and> TrimSpace url = url"

definition validatePRContextCandidate :: "(string \<Rightarrow> bool) \<Rightarrow> PRContextCandidate \<Rightarrow> bool" where
  "validatePRContextCandidate ipv6 c \<longleftrightarrow>
     list_all (\<lambda>v. v \<noteq> [] \<and> clean_field v) [ct_LocalHeadSHA c, ct_TargetBranch c, ct_TargetSHA c, ct_MergeBaseSHA c, ct_DiffDigest c] \<and>
     validGitSHA (ct_LocalHeadSHA c) \<and> validGitSHA (ct_TargetSHA c) \<and> validGitSHA (ct_MergeBaseSHA c) \<and> validHex (ct_DiffDigest c) 64 \<and>
     (ct_SourceRepo c = [] \<longleftrightarrow> ct_SourceBranch c = []) \<and>
     (ct_SourceRepo c \<noteq> [] \<longrightarrow> clean_field (ct_SourceRepo c) \<and> clean_field (ct_SourceBranch c)) \<and>
     (if ct_PRURL c = [] then ct_ForgeHeadSHA c = []
      else pr_url_ok ipv6 (ct_PRURL c) \<and> ct_SourceRepo c \<noteq> [] \<and> validGitSHA (ct_ForgeHeadSHA c))"

section \<open>Rewinds\<close>

record TargetAdvanceRewindRequest =
  rq_ObservedPRURL :: string
  rq_ObservedForgeHeadSHA :: string
  rq_ExpectedGeneration :: int
  rq_Step :: StepName
  rq_MaxRewinds :: int
  rq_SourceSHA :: "string option"
  rq_HasPR :: bool

record bind_options =
  bo_rewind :: "TargetAdvanceRewindRequest option"
  bo_complete :: "int option"

definition no_options :: bind_options where
  "no_options = \<lparr> bo_rewind = None, bo_complete = None \<rparr>"

definition pendingTargetRewind :: "string \<Rightarrow> tables \<Rightarrow> TargetAdvanceRewind option" where
  "pendingTargetRewind run db =
     (case GetRun run db of
        None \<Rightarrow> None
      | Some r \<Rightarrow> sql_first (\<lambda>w. rn_PendingTargetRewindID r = Some (tw_ID w) \<and> tw_RunID w = run) (tb_rewinds db))"

definition prHeadObservation :: "PRContextCandidate \<Rightarrow> string option" where
  "prHeadObservation c = (if ct_PRURL c = [] then None else Some (ct_ForgeHeadSHA c))"

datatype bind_error =
    InvalidCandidate | BadBoundary | BindRunNotFound | PRConflictsWithRun | SourceConflict | PRConflict | ObservationChanged
  | GenerationExhausted | Ineligible string | RewindCap | InvalidSource | CompletionDiffers | StoreRefused

text \<open>The run that may rewind, or the reason it may not.\<close>

definition rewind_prohibited :: "string \<Rightarrow> Run \<Rightarrow> tables \<Rightarrow> string" where
  "rewind_prohibited run r db =
     (if rn_RetargetAttempted r = None then ''PR retarget provenance is unknown''
      else if rn_RetargetAttempted r = Some True then ''PR retarget was attempted''
      else if tb_attempts db run \<noteq> None then ''commit-status attempt is recorded''
      else if list_ex (\<lambda>p. pr_run_id p = run \<and> \<not> cp_AdoptedOnly (pr_pub p)) (tb_publications db)
      then ''commit-status publication is recorded without adoption-only provenance''
      else if list_ex (\<lambda>s. sp_RunID s = run \<and> sp_StepName s = StepPR \<and> sp_Status s = StepStatusCompleted) (tb_steps db)
      then ''PR step already completed''
      else if list_ex (\<lambda>s. sp_RunID s = run \<and> sp_StepName s = StepRebase \<and> sp_Status s = StepStatusSkipped) (tb_steps db)
      then ''Rebase was skipped'' else [])"

definition targetRewindRun :: "string \<Rightarrow> StepName \<Rightarrow> tables \<Rightarrow> bind_error + Run" where
  "targetRewindRun run step db =
     (case GetRun run db of
        None \<Rightarrow> Inl BindRunNotFound
      | Some r \<Rightarrow>
          if rn_Shipping r \<noteq> None then Inl (Ineligible ''strict shipping run'')
          else if rn_LastPushedSHA r \<noteq> None \<or> (case rn_PushGeneration r of None \<Rightarrow> False | Some g \<Rightarrow> g \<noteq> 0)
          then Inl (Ineligible ''head already published'')
          else if rewind_prohibited run r db \<noteq> [] then Inl (Ineligible (rewind_prohibited run r db))
          else if Order step < Order StepRebase \<or> Order step > Order StepPush
          then Inl (Ineligible (''boundary outside unpublished validation: '' @ step))
          else if rn_Status r \<noteq> RunRunning \<and> rn_Status r \<noteq> RunPending
          then Inl (Ineligible (''run status is '' @ rn_Status r))
          else Inr r)"

definition CanRewindTarget :: "string \<Rightarrow> StepName \<Rightarrow> tables \<Rightarrow> bind_error + bool" where
  "CanRewindTarget run step db =
     (case targetRewindRun run step db of
        Inr r \<Rightarrow> Inr True | Inl (Ineligible reason) \<Rightarrow> Inr False | Inl e \<Rightarrow> Inl e)"

text \<open>Whether the pull request, or its absence, was pinned before the target moved.\<close>

definition pinned_pr :: "PRContextRow \<Rightarrow> PRContextCandidate \<Rightarrow> TargetAdvanceRewindRequest \<Rightarrow> (string \<times> string) option \<Rightarrow> bool" where
  "pinned_pr previous c req observation \<longleftrightarrow>
     (case observation of
        Some (url, head) \<Rightarrow>
          if deref (pc_pr_url previous) = []
          then rq_HasPR req \<and> rq_ObservedPRURL req = url \<and> rq_ObservedForgeHeadSHA req = head \<and> rq_SourceSHA req = Some head
          else rq_HasPR req \<and> deref (pc_forge_head_sha previous) \<noteq> [] \<and> deref (pc_forge_head_sha previous) = ct_ForgeHeadSHA c
      | None \<Rightarrow>
          if deref (pc_pr_url previous) = [] then \<not> rq_HasPR req
          else rq_HasPR req \<and> deref (pc_forge_head_sha previous) \<noteq> [] \<and> deref (pc_forge_head_sha previous) = ct_ForgeHeadSHA c)"

definition checkTargetRewindEligibility ::
  "string \<Rightarrow> PRContextRow \<Rightarrow> PRContextCandidate \<Rightarrow> TargetAdvanceRewindRequest \<Rightarrow> tables \<Rightarrow>
     bind_error + Run \<times> TargetAdvanceRewind option" where
  "checkTargetRewindEligibility run previous c req db =
     (case targetRewindRun run (rq_Step req) db of
        Inl e \<Rightarrow> Inl e
      | Inr r \<Rightarrow>
          let pending = pendingTargetRewind run db in
          if (case pending of None \<Rightarrow> False | Some w \<Rightarrow> tw_SourceSHA w \<noteq> rq_SourceSHA req \<or> tw_ForgeHeadSHA w \<noteq> prHeadObservation c)
          then Inl (Ineligible ''remote source or PR observation changed during pending rewind'')
          else if \<not> (deref (pc_pr_url previous) = ct_PRURL c \<and> deref (pc_source_repo previous) = ct_SourceRepo c \<and>
                  deref (pc_source_branch previous) = ct_SourceBranch c \<and> pc_target_branch previous = ct_TargetBranch c \<and>
                  deref (pc_forge_head_sha previous) = ct_ForgeHeadSHA c)
          then Inl (Ineligible ''PR source, head, or target identity changed'')
          else if \<not> pinned_pr previous c req (tb_observations db run)
          then Inl (Ineligible ''PR discovery was not pinned at the first comparison, or its remote source changed'')
          else if pc_local_head_sha previous \<noteq> ct_LocalHeadSHA c \<or> rn_HeadSHA r \<noteq> ct_LocalHeadSHA c
          then Inl (Ineligible ''local head differs from the run comparison'')
          else if pc_target_sha previous = ct_TargetSHA c then Inl (Ineligible ''target did not advance'')
          else if pc_generation previous \<noteq> rq_ExpectedGeneration req then Inl (Ineligible ''comparison generation changed'')
          else if (case rq_SourceSHA req of None \<Rightarrow> False | Some sha \<Rightarrow> \<not> validGitSHA sha) then Inl InvalidSource
          else if rn_TargetAdvanceRewinds r \<ge> rq_MaxRewinds req then Inl RewindCap
          else Inr (r, pending))"

section \<open>Binding a comparison\<close>

definition max_generation :: int where "max_generation = 2 ^ 63 - 1"

definition optional_field :: "string \<Rightarrow> string option" where
  "optional_field s = (if s = [] then None else Some s)"

definition receipt_of :: "int \<Rightarrow> int \<Rightarrow> PRContextCandidate \<Rightarrow> PRContextRow" where
  "receipt_of ts generation c = \<lparr> pc_pr_url = optional_field (ct_PRURL c), pc_source_repo = optional_field (ct_SourceRepo c),
     pc_source_branch = optional_field (ct_SourceBranch c), pc_forge_head_sha = optional_field (ct_ForgeHeadSHA c),
     pc_local_head_sha = ct_LocalHeadSHA c, pc_target_branch = ct_TargetBranch c, pc_target_sha = ct_TargetSHA c,
     pc_merge_base_sha = ct_MergeBaseSHA c, pc_diff_digest = ct_DiffDigest c, pc_observed_at = ts, pc_generation = generation,
     pc_ci_qualified = False, pc_retained_target_sha = None \<rparr>"

text \<open>The first pull request of an otherwise identical comparison, with the forge on the local head.\<close>

definition identity_only_attach :: "PRContextRow \<Rightarrow> PRContextCandidate \<Rightarrow> bool" where
  "identity_only_attach previous c \<longleftrightarrow>
     deref (pc_pr_url previous) = [] \<and> ct_PRURL c \<noteq> [] \<and> ct_ForgeHeadSHA c = ct_LocalHeadSHA c \<and>
     candidate_of previous = c\<lparr>ct_PRURL := [], ct_ForgeHeadSHA := deref (pc_forge_head_sha previous)\<rparr>"

text \<open>The snapshot of what a rewind supersedes: the comparison, the reviewed head and the rows of the steps and rounds.\<close>

definition archiveTargetRewind :: "string \<Rightarrow> string \<Rightarrow> PRContextRow \<Rightarrow> string option \<Rightarrow> tables \<Rightarrow> TargetRewindHistory" where
  "archiveTargetRewind newID run previous reviewHead db = \<lparr> th_RewindID = newID, th_Comparison = previous, th_ReviewHeadSHA = reviewHead,
     th_Steps = sort_key (\<lambda>s. (sp_StepOrder s, sp_ID s)) (filter (\<lambda>s. sp_RunID s = run) (tb_steps db)),
     th_Rounds = sort_key (\<lambda>x. (sr_CreatedAt x, sr_ID x))
       (filter (\<lambda>x. \<exists>s \<in> set (tb_steps db). sp_ID s = sr_StepResultID x \<and> sp_RunID s = run) (tb_rounds db)),
     th_Boundary = None \<rparr>"

text \<open>The row of a rewind, its snapshot, and the charge to the budget of the run.\<close>

definition archive_rewind ::
  "int \<Rightarrow> string \<Rightarrow> string \<Rightarrow> PRContextRow \<Rightarrow> PRContextCandidate \<Rightarrow> TargetAdvanceRewindRequest \<Rightarrow>
     TargetAdvanceRewind option \<Rightarrow> Run \<Rightarrow> int \<Rightarrow> tables \<Rightarrow> tables option" where
  "archive_rewind ts newID run previous c req pending r generation db =
     (if list_ex (\<lambda>w. tw_ID w = newID \<or> tw_RunID w = run \<and> tw_Generation w = generation) (tb_rewinds db) then None
      else Some (runs_update (run_row run) (\<lambda>r. r\<lparr>rn_TargetAdvanceRewinds := rn_TargetAdvanceRewinds r + 1,
             rn_PendingTargetRewindID := Some newID\<rparr>)
        (db\<lparr>tb_rewinds := tb_rewinds db @ [\<lparr> tw_ID = newID, tw_RunID = run, tw_OldTargetSHA = pc_target_sha previous,
              tw_TargetSHA = ct_TargetSHA c, tw_LocalHeadSHA = ct_LocalHeadSHA c,
              tw_SourceSHA = (case pending of None \<Rightarrow> rq_SourceSHA req | Some w \<Rightarrow> tw_SourceSHA w),
              tw_ForgeHeadSHA = (case pending of None \<Rightarrow> prHeadObservation c | Some w \<Rightarrow> tw_ForgeHeadSHA w),
              tw_Step = rq_Step req, tw_Generation = generation, tw_At = ts \<rparr>],
            tb_rewind_history := tb_rewind_history db @ [archiveTargetRewind newID run previous (rn_ReviewApprovedHeadSHA r) db]\<rparr>)))"

definition write_receipt :: "int \<Rightarrow> string \<Rightarrow> PRContextCandidate \<Rightarrow> int \<Rightarrow> tables \<Rightarrow> tables" where
  "write_receipt ts run c generation db =
     attachDiscoveredPR ts run (ct_PRURL c) (db\<lparr>tb_prContexts := (tb_prContexts db)(run \<mapsto> receipt_of ts generation c)\<rparr>)"

text \<open>A forward advance keeps the review and the steps, and takes the readiness back.\<close>

definition revoke_readiness :: "int \<Rightarrow> string \<Rightarrow> tables \<Rightarrow> tables" where
  "revoke_readiness ts run db = runs_update (run_row run) (\<lambda>r. r\<lparr>rn_CIReadyAt := None, rn_CIReadyNoCI := False,
     rn_TerminalHeadVerifiedAt := None, rn_UpdatedAt := ts\<rparr>) db"

definition core_step_name :: "StepName \<Rightarrow> bool" where
  "core_step_name s \<longleftrightarrow> s \<in> {StepReview, StepTest, StepDocument, StepLint, StepPush, StepPR, StepCI}"

definition reset_dependent :: "bool \<Rightarrow> bool \<Rightarrow> StepResult \<Rightarrow> StepResult" where
  "reset_dependent keepSkips rewinds r =
     (let r' = (reset_step r)\<lparr>sp_Status := (if keepSkips \<and> sp_Status r = StepStatusSkipped \<and> core_step_name (sp_StepName r)
                  then StepStatusSkipped else StepStatusPending), sp_SkipReason := None\<rparr> in
      if rewinds then r'\<lparr>sp_PendingResponse := None, sp_GateNonce := None, sp_GateRoundID := None\<rparr> else r')"

text \<open>Any other change revokes the review, drops the rounds of the boundary and after it, and resets those steps.\<close>

definition dependent_step :: "string \<Rightarrow> StepName \<Rightarrow> StepResult \<Rightarrow> bool" where
  "dependent_step run resetFrom s \<longleftrightarrow> sp_RunID s = run \<and> sp_StepOrder s \<ge> int (Order resetFrom)"

definition revoke_authority :: "int \<Rightarrow> string \<Rightarrow> StepName \<Rightarrow> bool \<Rightarrow> bool \<Rightarrow> tables \<Rightarrow> tables" where
  "revoke_authority ts run resetFrom keepSkips rewinds db =
     (let db1 = (if rewinds then db\<lparr>tb_comparisons := (tb_comparisons db)(run := map_option (\<lambda>c. c\<lparr>rc_Approved := False\<rparr>) (tb_comparisons db run))\<rparr>
                 else db);
          db2 = db1\<lparr>tb_rounds := filter (\<lambda>x. \<not> (\<exists>s \<in> set (tb_steps db1). sp_ID s = sr_StepResultID x \<and> dependent_step run resetFrom s)) (tb_rounds db1)\<rparr>;
          db3 = runs_update (run_row run) (\<lambda>r. r\<lparr>rn_ReviewApprovedHeadSHA := None, rn_CIReadyAt := None, rn_CIReadyNoCI := False,
             rn_TerminalHeadVerifiedAt := None, rn_AwaitingAgentSince := None, rn_UpdatedAt := ts\<rparr>) db2 in
      steps_update (dependent_step run resetFrom) (reset_dependent keepSkips rewinds) db3)"

text \<open>The pending integration consumed by a completed rebase.\<close>

definition completion_matches :: "string \<Rightarrow> int \<Rightarrow> PRContextRow \<Rightarrow> PRContextCandidate \<Rightarrow> tables \<Rightarrow> bool" where
  "completion_matches run expected previous c db \<longleftrightarrow>
     (case (pendingTargetRewind run db, GetRun run db) of
        (Some w, Some r) \<Rightarrow> pc_generation previous = expected \<and> tw_TargetSHA w = ct_TargetSHA c \<and> rn_HeadSHA r = ct_LocalHeadSHA c \<and>
          tw_ForgeHeadSHA w = prHeadObservation c \<and> pc_target_branch previous = ct_TargetBranch c \<and>
          deref (pc_pr_url previous) = ct_PRURL c \<and> deref (pc_source_repo previous) = ct_SourceRepo c \<and>
          deref (pc_source_branch previous) = ct_SourceBranch c \<and> deref (pc_forge_head_sha previous) = ct_ForgeHeadSHA c
      | _ \<Rightarrow> False)"

text \<open>What follows once a changed receipt was admitted.\<close>

definition apply_binding ::
  "int \<Rightarrow> string \<Rightarrow> PRContextCandidate \<Rightarrow> StepName \<Rightarrow> bool \<Rightarrow> bool \<Rightarrow> bool \<Rightarrow> PRContextRow option \<Rightarrow> int \<Rightarrow> tables \<Rightarrow> tables" where
  "apply_binding ts run c resetFrom forward keepSkips rewinds previous generation db =
     (let db1 = write_receipt ts run c generation db in
      case previous of
        None \<Rightarrow> db1
      | Some p \<Rightarrow>
          if identity_only_attach p c then db1
          else if forward then revoke_readiness ts run db1
          else revoke_authority ts run resetFrom keepSkips rewinds db1)"

definition first_binding :: "int \<Rightarrow> string \<Rightarrow> PRContextCandidate \<Rightarrow> StepName \<Rightarrow> bool \<Rightarrow> bind_options \<Rightarrow> tables \<Rightarrow> bind_error + (bool \<times> int) \<times> tables" where
  "first_binding ts run c resetFrom forward opts db =
     (if bo_rewind opts \<noteq> None then Inl (Ineligible [])
      else if bo_complete opts \<noteq> None then Inl CompletionDiffers
      else Inr ((True, 1), apply_binding ts run c resetFrom forward False False None 1 db))"

definition changed_binding ::
  "int \<Rightarrow> string \<Rightarrow> string \<Rightarrow> PRContextCandidate \<Rightarrow> StepName \<Rightarrow> bool \<Rightarrow> bind_options \<Rightarrow> PRContextRow \<Rightarrow> tables \<Rightarrow>
     bind_error + (bool \<times> int) \<times> tables" where
  "changed_binding ts newID run c resetFrom forward opts p db =
     (let generation = pc_generation p + 1;
          finish = (\<lambda>rewinds db'. Inr ((True, generation),
             apply_binding ts run c resetFrom forward (bo_rewind opts \<noteq> None \<or> bo_complete opts \<noteq> None) rewinds (Some p) generation db'));
          completed = (\<lambda>db'. case bo_complete opts of
             None \<Rightarrow> Inr db'
           | Some expected \<Rightarrow>
               if \<not> completion_matches run expected p c db then Inl CompletionDiffers
               else Inr (runs_update (run_row run) (\<lambda>r. r\<lparr>rn_PendingTargetRewindID := None\<rparr>) db')) in
      case bo_rewind opts of
        None \<Rightarrow>
          (case completed db of
             Inl e \<Rightarrow> Inl e
           | Inr db1 \<Rightarrow> if candidate_of p = c then Inr ((False, pc_generation p), db1) else finish False db1)
      | Some req \<Rightarrow>
          (case checkTargetRewindEligibility run p c req db of
             Inl e \<Rightarrow> Inl e
           | Inr (r, pending) \<Rightarrow>
               (case archive_rewind ts newID run p c req pending r generation db of
                  None \<Rightarrow> Inl StoreRefused
                | Some db1 \<Rightarrow> finish True db1)))"

definition bindRunPRContext ::
  "(string \<Rightarrow> bool) \<Rightarrow> int \<Rightarrow> string \<Rightarrow> string \<Rightarrow> PRContextCandidate \<Rightarrow> StepName \<Rightarrow> bool \<Rightarrow> bind_options \<Rightarrow> tables \<Rightarrow>
     bind_error + (bool \<times> int) \<times> tables" where
  "bindRunPRContext ipv6 ts newID run c resetFrom forward opts db =
     (if \<not> validatePRContextCandidate ipv6 c then Inl InvalidCandidate
      else if resetFrom \<noteq> StepRebase \<and> resetFrom \<noteq> StepReview then Inl BadBoundary
      else (case GetRun run db of
              None \<Rightarrow> Inl BindRunNotFound
            | Some r \<Rightarrow>
                if deref (rn_PRURL r) \<noteq> [] \<and> deref (rn_PRURL r) \<noteq> ct_PRURL c then Inl PRConflictsWithRun
                else (case tb_prContexts db run of
                        None \<Rightarrow> first_binding ts run c resetFrom forward opts db
                      | Some p \<Rightarrow>
                          if deref (pc_source_repo p) \<noteq> [] \<and> (ct_SourceRepo c \<noteq> deref (pc_source_repo p) \<or> ct_SourceBranch c \<noteq> deref (pc_source_branch p))
                          then Inl SourceConflict
                          else if deref (pc_pr_url p) \<noteq> [] \<and> ct_PRURL c \<noteq> deref (pc_pr_url p) then Inl PRConflict
                          else if candidate_of p = c \<and> bo_complete opts = None
                          then (case (bo_rewind opts, pendingTargetRewind run db) of
                                  (Some req, Some w) \<Rightarrow>
                                    if tw_SourceSHA w \<noteq> rq_SourceSHA req \<or> tw_ForgeHeadSHA w \<noteq> prHeadObservation c \<or>
                                       (rq_HasPR req \<longleftrightarrow> ct_PRURL c = [])
                                    then Inl ObservationChanged else Inr ((False, pc_generation p), db)
                                | _ \<Rightarrow> Inr ((False, pc_generation p), db))
                          else if pc_generation p = max_generation \<and> candidate_of p \<noteq> c then Inl GenerationExhausted
                          else changed_binding ts newID run c resetFrom forward opts p db)))"

definition BindRunPRContext where
  "BindRunPRContext ipv6 ts run c resetFrom db = bindRunPRContext ipv6 ts [] run c resetFrom False no_options db"

definition AdvanceRunPRContext where
  "AdvanceRunPRContext ipv6 ts run c db = bindRunPRContext ipv6 ts [] run c StepReview True no_options db"

definition RewindRunPRContext where
  "RewindRunPRContext ipv6 ts newID run c req db =
     bindRunPRContext ipv6 ts newID run c StepRebase False \<lparr> bo_rewind = Some req, bo_complete = None \<rparr> db"

definition CompleteRebasePRContext where
  "CompleteRebasePRContext ipv6 ts run c expected db =
     bindRunPRContext ipv6 ts [] run c StepReview False \<lparr> bo_rewind = None, bo_complete = Some expected \<rparr> db"

section \<open>The other statements on rewinds\<close>

definition MarkRunRetargetAttempted :: "int \<Rightarrow> string \<Rightarrow> tables \<Rightarrow> tables option" where
  "MarkRunRetargetAttempted ts run db =
     (if affected (run_row run) (tb_runs db) = 1
      then Some (runs_update (run_row run) (\<lambda>r. r\<lparr>rn_RetargetAttempted := Some True, rn_UpdatedAt := ts\<rparr>) db) else None)"

definition MaxLeftoverValidationCommits :: int where "MaxLeftoverValidationCommits = 1"

definition CanCommitLeftoverValidationEdits :: "string \<Rightarrow> tables \<Rightarrow> bool option" where
  "CanCommitLeftoverValidationEdits run db = map_option (\<lambda>r. rn_LeftoverCommits r < MaxLeftoverValidationCommits) (GetRun run db)"

definition RecordLeftoverValidationCommit :: "int \<Rightarrow> string \<Rightarrow> string \<Rightarrow> tables \<Rightarrow> tables option" where
  "RecordLeftoverValidationCommit ts run head db =
     (if \<not> validGitSHA head then None
      else (case GetRun run db of
              None \<Rightarrow> None
            | Some r \<Rightarrow> if rn_LeftoverCommits r \<ge> MaxLeftoverValidationCommits then None
                else Some (runs_update (run_row run) (\<lambda>r. r\<lparr>rn_LeftoverCommits := rn_LeftoverCommits r + 1, rn_HeadSHA := head,
                       rn_UpdatedAt := ts\<rparr>) db)))"

definition AdvancePendingTargetRewindHead :: "string \<Rightarrow> string \<Rightarrow> string \<Rightarrow> bool \<Rightarrow> tables \<Rightarrow> tables option" where
  "AdvancePendingTargetRewindHead run expected head descendant db =
     (if \<not> validGitSHA expected \<or> \<not> validGitSHA head \<or> expected = head \<or> \<not> descendant then None
      else (case pendingTargetRewind run db of
              None \<Rightarrow> None
            | Some w \<Rightarrow> if tw_LocalHeadSHA w \<noteq> expected then None
                else Some (db\<lparr>tb_rewinds := sql_update (\<lambda>x. tw_ID x = tw_ID w) (\<lambda>x. x\<lparr>tw_LocalHeadSHA := head\<rparr>) (tb_rewinds db)\<rparr>)))"

text \<open>Only the first comparison without a pull request pins a discovered one, and never another.\<close>

definition PinTargetRewindPRObservation :: "(string \<Rightarrow> bool) \<Rightarrow> string \<Rightarrow> string \<Rightarrow> string \<Rightarrow> tables \<Rightarrow> tables option" where
  "PinTargetRewindPRObservation ipv6 run url head db =
     (if \<not> absolute_url ipv6 url \<or> \<not> validGitSHA head then None
      else let first = (case tb_prContexts db run of None \<Rightarrow> False | Some p \<Rightarrow> pc_generation p = 1 \<and> pc_pr_url p = None);
               db' = (if first \<and> tb_observations db run = None then db\<lparr>tb_observations := (tb_observations db)(run \<mapsto> (url, head))\<rparr> else db) in
        if tb_observations db' run = Some (url, head) then Some db' else None)"

definition RecordTargetRewindBoundary :: "string \<Rightarrow> int \<Rightarrow> string \<Rightarrow> string \<Rightarrow> tables \<Rightarrow> tables option" where
  "RecordTargetRewindBoundary run generation step outcome db =
     (let mine = filter (\<lambda>w. tw_RunID w = run) (tb_rewinds db);
          latest = filter (\<lambda>w. tw_Generation w = Max (tw_Generation ` set mine)) mine;
          counted = (case GetRun run db of None \<Rightarrow> False | Some r \<Rightarrow> rn_TargetAdvanceRewinds r = generation);
          hit = (\<lambda>h. counted \<and> th_RewindID h \<in> tw_ID ` set latest) in
      if affected hit (tb_rewind_history db) = 1
      then Some (db\<lparr>tb_rewind_history := sql_update hit (\<lambda>h. h\<lparr>th_Boundary := Some (step, outcome)\<rparr>) (tb_rewind_history db)\<rparr>)
      else None)"

section \<open>What a changed comparison revokes\<close>

lemma reset_dependent_cleared:
  "sp_Status (reset_dependent k w s) \<in> {StepStatusPending, StepStatusSkipped}"
  "sp_FindingsJSON (reset_dependent k w s) = None" "sp_OverrideReason (reset_dependent k w s) = None"
  "sp_ApprovalReason (reset_dependent k w s) = None" "sp_AcceptedGapsJSON (reset_dependent k w s) = None"
  "sp_ID (reset_dependent k w s) = sp_ID s" "sp_RunID (reset_dependent k w s) = sp_RunID s"
  "sp_StepOrder (reset_dependent k w s) = sp_StepOrder s" "sp_StepName (reset_dependent k w s) = sp_StepName s"
  by (simp_all add: reset_dependent_def reset_step_def Let_def)

lemma dependent_reset [simp]: "dependent_step run b (reset_dependent k w s) = dependent_step run b s"
  by (simp add: dependent_step_def reset_dependent_cleared)

lemma write_receipt_simps [simp]:
  "tb_steps (write_receipt ts run c g db) = tb_steps db" "tb_rounds (write_receipt ts run c g db) = tb_rounds db"
  "tb_prContexts (write_receipt ts run c g db) = (tb_prContexts db)(run \<mapsto> receipt_of ts g c)"
  "tb_rewinds (write_receipt ts run c g db) = tb_rewinds db" "tb_observations (write_receipt ts run c g db) = tb_observations db"
  by (simp_all add: write_receipt_def attachDiscoveredPR_def)

lemma revoke_simps [simp]:
  "tb_prContexts (revoke_authority ts run b k w db) = tb_prContexts db" "tb_rewinds (revoke_authority ts run b k w db) = tb_rewinds db"
  "tb_observations (revoke_authority ts run b k w db) = tb_observations db"
  "tb_prContexts (revoke_readiness ts run db) = tb_prContexts db" "tb_rewinds (revoke_readiness ts run db) = tb_rewinds db"
  "tb_observations (revoke_readiness ts run db) = tb_observations db"
  by (simp_all add: revoke_authority_def revoke_readiness_def Let_def)

lemma archive_simps:
  assumes "archive_rewind ts i run p c req pending r g db = Some db'"
  shows "tb_prContexts db' = tb_prContexts db" "tb_steps db' = tb_steps db" "tb_rounds db' = tb_rounds db" "tb_observations db' = tb_observations db"
    "\<exists>w. tb_rewinds db' = tb_rewinds db @ [w] \<and> tw_ID w = i \<and> tw_RunID w = run \<and> tw_Generation w = g \<and>
       tw_OldTargetSHA w = pc_target_sha p \<and> tw_TargetSHA w = ct_TargetSHA c \<and> tw_LocalHeadSHA w = ct_LocalHeadSHA c"
    "tb_runs db' = sql_update (run_row run) (\<lambda>r. r\<lparr>rn_TargetAdvanceRewinds := rn_TargetAdvanceRewinds r + 1,
       rn_PendingTargetRewindID := Some i\<rparr>) (tb_runs db)"
  using assms by (auto simp: archive_rewind_def split: if_splits)

lemma eligible_rewind:
  assumes "checkTargetRewindEligibility run p c req db = Inr (r, pending)"
  shows "targetRewindRun run (rq_Step req) db = Inr r" "pc_target_sha p \<noteq> ct_TargetSHA c" "rn_TargetAdvanceRewinds r < rq_MaxRewinds req"
    "pc_local_head_sha p = ct_LocalHeadSHA c" "deref (pc_pr_url p) = ct_PRURL c"
proof -
  obtain r' where r': "targetRewindRun run (rq_Step req) db = Inr r'"
    using assms by (auto simp: checkTargetRewindEligibility_def split: sum.splits)
  show "targetRewindRun run (rq_Step req) db = Inr r" "pc_target_sha p \<noteq> ct_TargetSHA c" "rn_TargetAdvanceRewinds r < rq_MaxRewinds req"
    "pc_local_head_sha p = ct_LocalHeadSHA c" "deref (pc_pr_url p) = ct_PRURL c"
    using assms unfolding checkTargetRewindEligibility_def r' by (simp_all add: Let_def split: if_split_asm)
qed

lemma revoked_runs: "tb_runs (revoke_authority ts run b k w db) = sql_update (run_row run)
    (\<lambda>r. r\<lparr>rn_ReviewApprovedHeadSHA := None, rn_CIReadyAt := None, rn_CIReadyNoCI := False,
      rn_TerminalHeadVerifiedAt := None, rn_AwaitingAgentSince := None, rn_UpdatedAt := ts\<rparr>) (tb_runs db)"
  by (simp add: revoke_authority_def Let_def)

text \<open>What a change of one run's comparison leaves alone: every other table, and of the tables it writes the rows of the other runs, the
  columns of its own row that carry no authority, and what a rewind archived before.\<close>

definition other_tables :: "tables \<Rightarrow> tables" where
  "other_tables db = db\<lparr>tb_runs := [], tb_steps := [], tb_rounds := [], tb_comparisons := Map.empty, tb_prContexts := Map.empty,
     tb_rewinds := [], tb_rewind_history := []\<rparr>"

definition without_authority :: "string \<Rightarrow> Run \<Rightarrow> Run" where
  "without_authority run r = (if rn_ID r \<noteq> run then r
     else r\<lparr>rn_ReviewApprovedHeadSHA := None, rn_CIReadyAt := None, rn_CIReadyNoCI := False, rn_TerminalHeadVerifiedAt := None,
       rn_AwaitingAgentSince := None, rn_PRURL := None, rn_PRState := None, rn_PRStateObservedAt := None,
       rn_TargetAdvanceRewinds := 0, rn_PendingTargetRewindID := None, rn_UpdatedAt := 0\<rparr>)"

definition run_frame :: "string \<Rightarrow> tables \<Rightarrow> tables \<Rightarrow> bool" where
  "run_frame run db db' \<longleftrightarrow> other_tables db' = other_tables db \<and>
     map (without_authority run) (tb_runs db') = map (without_authority run) (tb_runs db) \<and>
     (\<lambda>i. map_option (\<lambda>c. if i = run then c\<lparr>rc_Approved := False\<rparr> else c) (tb_comparisons db' i)) =
     (\<lambda>i. map_option (\<lambda>c. if i = run then c\<lparr>rc_Approved := False\<rparr> else c) (tb_comparisons db i)) \<and>
     (\<exists>ws. tb_rewinds db' = tb_rewinds db @ ws \<and> (\<forall>w \<in> set ws. tw_RunID w = run)) \<and>
     (\<exists>hs. tb_rewind_history db' = tb_rewind_history db @ hs)"

lemma run_frame_refl [simp]: "run_frame run db db"
  by (simp add: run_frame_def)

lemma run_frame_trans: "run_frame run db1 db2 \<Longrightarrow> run_frame run db2 db3 \<Longrightarrow> run_frame run db1 db3"
  unfolding run_frame_def by (elim conjE exE) (simp, blast)

lemma run_frame_runs:
  assumes "\<And>r. p r \<Longrightarrow> without_authority run (f r) = without_authority run r"
  shows "run_frame run db (runs_update p f db)"
  using map_sql_update [of p "without_authority run" f "tb_runs db"] assms by (simp add: run_frame_def other_tables_def)

lemma run_frame_attach: "run_frame run db (attachDiscoveredPR ts run url db)"
proof -
  have "run_frame run db (runs_update (\<lambda>r. run_row run r \<and> deref (rn_PRURL r) = []) (\<lambda>r. r\<lparr>rn_PRURL := Some url,
      rn_PRState := Some ''open'', rn_PRStateObservedAt := Some ts, rn_UpdatedAt := ts\<rparr>) db)"
    by (rule run_frame_runs) (simp add: without_authority_def)
  then show ?thesis by (simp add: attachDiscoveredPR_def)
qed

lemma run_frame_receipt: "run_frame run db (write_receipt ts run c g db)"
proof -
  have "run_frame run db (db\<lparr>tb_prContexts := (tb_prContexts db)(run \<mapsto> receipt_of ts g c)\<rparr>)"
    by (simp add: run_frame_def other_tables_def)
  then show ?thesis unfolding write_receipt_def by (rule run_frame_trans) (rule run_frame_attach)
qed

lemma run_frame_revoked: "run_frame run db (revoke_authority ts run b k w db)"
proof -
  let ?f = "\<lambda>r. r\<lparr>rn_ReviewApprovedHeadSHA := None, rn_CIReadyAt := None, rn_CIReadyNoCI := False,
      rn_TerminalHeadVerifiedAt := None, rn_AwaitingAgentSince := None, rn_UpdatedAt := ts\<rparr>"
  have "map (without_authority run) (sql_update (run_row run) ?f (tb_runs db)) = map (without_authority run) (tb_runs db)"
    by (rule map_sql_update) (simp add: without_authority_def)
  then show ?thesis by (auto simp: run_frame_def other_tables_def revoke_authority_def Let_def fun_eq_iff option.map_comp comp_def)
qed

lemma run_frame_archive:
  assumes "archive_rewind ts i run p c req pending r g db = Some db'"
  shows "run_frame run db db'"
proof -
  let ?f = "\<lambda>r. r\<lparr>rn_TargetAdvanceRewinds := rn_TargetAdvanceRewinds r + 1, rn_PendingTargetRewindID := Some i\<rparr>"
  have "map (without_authority run) (sql_update (run_row run) ?f (tb_runs db)) = map (without_authority run) (tb_runs db)"
    by (rule map_sql_update) (simp add: without_authority_def)
  then show ?thesis using assms by (auto simp: archive_rewind_def run_frame_def other_tables_def split: if_splits)
qed

text \<open>A binding that reports a change wrote the receipt of its candidate, one generation later.\<close>

lemma bind_changed:
  assumes "bindRunPRContext ipv6 ts i run c b forward opts db = Inr ((True, g), db')" "tb_prContexts db run = Some p"
  obtains rewinds db1 where "g = pc_generation p + 1" "candidate_of p \<noteq> c"
    "tb_prContexts db1 = tb_prContexts db" "tb_steps db1 = tb_steps db" "tb_rounds db1 = tb_rounds db" "run_frame run db db1"
    "db' = apply_binding ts run c b forward (bo_rewind opts \<noteq> None \<or> bo_complete opts \<noteq> None) rewinds (Some p) g db1"
proof -
  have changed: "changed_binding ts i run c b forward opts p db = Inr ((True, g), db')"
    and differs: "candidate_of p = c \<Longrightarrow> bo_complete opts \<noteq> None"
    using assms by (auto simp: bindRunPRContext_def split: if_splits option.splits)
  show ?thesis
  proof (cases "bo_rewind opts")
    case None
    have new: "candidate_of p \<noteq> c" using changed None by (auto simp: changed_binding_def Let_def split: if_splits sum.splits option.splits)
    obtain db1 where "Inr db1 = (case bo_complete opts of None \<Rightarrow> Inr db | Some expected \<Rightarrow>
          if \<not> completion_matches run expected p c db then Inl CompletionDiffers
          else Inr (runs_update (run_row run) (\<lambda>r. r\<lparr>rn_PendingTargetRewindID := None\<rparr>) db))"
        "g = pc_generation p + 1" "db' = apply_binding ts run c b forward (bo_rewind opts \<noteq> None \<or> bo_complete opts \<noteq> None) False (Some p) g db1"
      using changed None new by (auto simp: changed_binding_def Let_def split: if_splits sum.splits option.splits)
    moreover have "run_frame run db (runs_update (run_row run) (\<lambda>r. r\<lparr>rn_PendingTargetRewindID := None\<rparr>) db)"
      by (rule run_frame_runs) (simp add: without_authority_def)
    ultimately show ?thesis using that [of db1 False] new by (auto split: option.splits if_splits)
  next
    case (Some req)
    obtain r pending where elig: "checkTargetRewindEligibility run p c req db = Inr (r, pending)"
      using changed Some by (auto simp: changed_binding_def Let_def split: sum.splits)
    then obtain db1 where db1: "archive_rewind ts i run p c req pending r (pc_generation p + 1) db = Some db1"
        "g = pc_generation p + 1" "db' = apply_binding ts run c b forward (bo_rewind opts \<noteq> None \<or> bo_complete opts \<noteq> None) True (Some p) g db1"
      using changed Some by (auto simp: changed_binding_def Let_def split: option.splits)
    have "ct_TargetSHA (candidate_of p) \<noteq> ct_TargetSHA c" using eligible_rewind [OF elig] by (simp add: candidate_of_def)
    then have "candidate_of p \<noteq> c" by auto
    then show ?thesis using that [of db1 True] db1 archive_simps [OF db1(1)] run_frame_archive [OF db1(1)] by simp
  qed
qed

text \<open>C24. A changed comparison takes back everything that was proved for the old one: after a binding that is neither the pipeline's own
  advance nor the mere attachment of the first pull request, the run has no approved review, no CI readiness and no verified terminal
  head, no step from the boundary on keeps findings, an override or a round, and no such step is completed. Everything else is as it was:
  the receipts of the other runs, the steps before the boundary and their rounds and those of the other runs, the rows of the other runs,
  the columns of the run's own row that carry no authority, the archive of rewinds up to what this one adds, and every other table; and no
  step is added or dropped.\<close>

theorem comparison_change_revokes:
  assumes "bindRunPRContext ipv6 ts i run c b False opts db = Inr ((True, g), db')" "tb_prContexts db run = Some p" "\<not> identity_only_attach p c"
  shows "g = pc_generation p + 1 \<and> tb_prContexts db' = (tb_prContexts db)(run \<mapsto> receipt_of ts g c) \<and>
    (\<forall>r \<in> set (tb_runs db'). rn_ID r = run \<longrightarrow> rn_ReviewApprovedHeadSHA r = None \<and> rn_CIReadyAt r = None \<and> rn_TerminalHeadVerifiedAt r = None) \<and>
    (\<forall>s \<in> set (tb_steps db'). dependent_step run b s \<longrightarrow> sp_Status s \<in> {StepStatusPending, StepStatusSkipped} \<and>
       sp_FindingsJSON s = None \<and> sp_OverrideReason s = None \<and> sp_ApprovalReason s = None \<and> sp_AcceptedGapsJSON s = None \<and>
       sp_ID s \<notin> sr_StepResultID ` set (tb_rounds db')) \<and>
    filter (\<lambda>s. \<not> dependent_step run b s) (tb_steps db') = filter (\<lambda>s. \<not> dependent_step run b s) (tb_steps db) \<and>
    map (\<lambda>s. (sp_ID s, sp_RunID s, sp_StepName s, sp_StepOrder s)) (tb_steps db') =
      map (\<lambda>s. (sp_ID s, sp_RunID s, sp_StepName s, sp_StepOrder s)) (tb_steps db) \<and>
    tb_rounds db' = filter (\<lambda>x. sr_StepResultID x \<notin> sp_ID ` {s \<in> set (tb_steps db). dependent_step run b s}) (tb_rounds db) \<and>
    run_frame run db db'"
proof -
  obtain rewinds db1 where b: "g = pc_generation p + 1" "tb_prContexts db1 = tb_prContexts db" "tb_steps db1 = tb_steps db" "tb_rounds db1 = tb_rounds db"
      "run_frame run db db1"
      "db' = apply_binding ts run c b False (bo_rewind opts \<noteq> None \<or> bo_complete opts \<noteq> None) rewinds (Some p) g db1"
    using bind_changed [OF assms(1,2)] by metis
  define k where "k \<longleftrightarrow> bo_rewind opts \<noteq> None \<or> bo_complete opts \<noteq> None"
  define db2 where "db2 = write_receipt ts run c g db1"
  have db2: "tb_steps db2 = tb_steps db" "tb_prContexts db2 = (tb_prContexts db)(run \<mapsto> receipt_of ts g c)" "tb_rounds db2 = tb_rounds db" using b by (simp_all add: db2_def)
  have db': "db' = revoke_authority ts run b k rewinds db2" using b(6) assms(3) by (simp add: apply_binding_def k_def db2_def)
  have steps: "tb_steps db' = sql_update (dependent_step run b) (reset_dependent k rewinds) (tb_steps db)"
    by (simp add: db' revoke_authority_def Let_def db2)
  have rounds: "tb_rounds db' = filter (\<lambda>x. \<not> (\<exists>s \<in> set (tb_steps db). sp_ID s = sr_StepResultID x \<and> dependent_step run b s)) (tb_rounds db2)"
    by (simp add: db' revoke_authority_def Let_def db2)
  have runs: "rn_ReviewApprovedHeadSHA r = None \<and> rn_CIReadyAt r = None \<and> rn_TerminalHeadVerifiedAt r = None"
    if "r \<in> set (tb_runs db')" "rn_ID r = run" for r
  proof -
    from that(1) have "r \<in> set (tb_runs (revoke_authority ts run b k rewinds db2))" by (simp add: db')
    then show ?thesis unfolding revoked_runs by (rule sql_updateE) (use that(2) in simp_all)
  qed
  have cleared: "sp_Status s \<in> {StepStatusPending, StepStatusSkipped} \<and> sp_FindingsJSON s = None \<and> sp_OverrideReason s = None \<and>
      sp_ApprovalReason s = None \<and> sp_AcceptedGapsJSON s = None \<and> sp_ID s \<notin> sr_StepResultID ` set (tb_rounds db')"
    if s: "s \<in> set (tb_steps db')" "dependent_step run b s" for s
  proof -
    obtain s0 where s0: "s0 \<in> set (tb_steps db)" "dependent_step run b s0" "s = reset_dependent k rewinds s0"
      using s by (auto simp: steps in_sql_update split: if_splits)
    then have "sp_ID s \<notin> sr_StepResultID ` set (tb_rounds db')" by (auto simp: rounds reset_dependent_cleared)
    then show ?thesis using s0(3) reset_dependent_cleared by simp
  qed
  have "filter (\<lambda>s. \<not> dependent_step run b s) (tb_steps db') = filter (\<lambda>s. \<not> dependent_step run b s) (tb_steps db)"
    unfolding steps by (rule filter_sql_update_kept) simp_all
  moreover have "tb_prContexts db' = (tb_prContexts db)(run \<mapsto> receipt_of ts g c)" by (simp add: db' db2)
  moreover have "map (\<lambda>s. (sp_ID s, sp_RunID s, sp_StepName s, sp_StepOrder s)) (tb_steps db') =
      map (\<lambda>s. (sp_ID s, sp_RunID s, sp_StepName s, sp_StepOrder s)) (tb_steps db)"
    unfolding steps by (rule map_sql_update) (simp add: reset_dependent_cleared)
  moreover have "tb_rounds db' = filter (\<lambda>x. sr_StepResultID x \<notin> sp_ID ` {s \<in> set (tb_steps db). dependent_step run b s}) (tb_rounds db)"
    unfolding rounds db2 by (rule filter_cong) (simp_all add: image_iff, metis)
  moreover have "run_frame run db db'"
    unfolding db' db2_def by (rule run_frame_trans [OF b(5) run_frame_trans [OF run_frame_receipt run_frame_revoked]])
  ultimately show ?thesis using b(1) runs cleared by blast
qed

section \<open>A run of statements\<close>

text \<open>The statements on one run's comparison, and any other writer, which leaves the comparison, its generation, the rewinds and
  the budget of the run alone (the qualification of a comparison may change).\<close>

datatype ctx_op =
    BindOp PRContextCandidate StepName
  | AdvanceOp PRContextCandidate
  | RewindOp string PRContextCandidate TargetAdvanceRewindRequest
  | CompleteOp PRContextCandidate int
  | RetargetOp
  | LeftoverOp string
  | AdvanceHeadOp string string bool
  | PinOp string string
  | BoundaryOp int string string

definition bound :: "tables \<Rightarrow> bind_error + (bool \<times> int) \<times> tables \<Rightarrow> tables" where
  "bound db r = (case r of Inl e \<Rightarrow> db | Inr (x, db') \<Rightarrow> db')"

definition kept :: "tables \<Rightarrow> tables option \<Rightarrow> tables" where
  "kept db r = (case r of None \<Rightarrow> db | Some db' \<Rightarrow> db')"

definition ctx_exec :: "(string \<Rightarrow> bool) \<Rightarrow> int \<Rightarrow> string \<Rightarrow> ctx_op \<Rightarrow> tables \<Rightarrow> tables" where
  "ctx_exec ipv6 ts run op db =
     (case op of
        BindOp c b \<Rightarrow> bound db (BindRunPRContext ipv6 ts run c b db)
      | AdvanceOp c \<Rightarrow> bound db (AdvanceRunPRContext ipv6 ts run c db)
      | RewindOp i c req \<Rightarrow> bound db (RewindRunPRContext ipv6 ts i run c req db)
      | CompleteOp c expected \<Rightarrow> bound db (CompleteRebasePRContext ipv6 ts run c expected db)
      | RetargetOp \<Rightarrow> kept db (MarkRunRetargetAttempted ts run db)
      | LeftoverOp head \<Rightarrow> kept db (RecordLeftoverValidationCommit ts run head db)
      | AdvanceHeadOp expected head descendant \<Rightarrow> kept db (AdvancePendingTargetRewindHead run expected head descendant db)
      | PinOp url head \<Rightarrow> kept db (PinTargetRewindPRObservation ipv6 run url head db)
      | BoundaryOp g step outcome \<Rightarrow> kept db (RecordTargetRewindBoundary run g step outcome db))"

fun within_cap :: "int \<Rightarrow> ctx_op \<Rightarrow> bool" where
  "within_cap cap (RewindOp i c req) = (rq_MaxRewinds req \<le> cap)"
| "within_cap cap op = True"

definition elsewhere :: "string \<Rightarrow> tables \<Rightarrow> tables \<Rightarrow> bool" where
  "elsewhere run db db' \<longleftrightarrow> tb_rewinds db' = tb_rewinds db \<and>
     (\<forall>r' \<in> set (tb_runs db'). rn_ID r' = run \<longrightarrow>
        (\<exists>r \<in> set (tb_runs db). rn_ID r = run \<and> rn_TargetAdvanceRewinds r' = rn_TargetAdvanceRewinds r)) \<and>
     map_option (\<lambda>p. (candidate_of p, pc_generation p)) (tb_prContexts db' run) =
     map_option (\<lambda>p. (candidate_of p, pc_generation p)) (tb_prContexts db run)"

inductive comparison_run :: "(string \<Rightarrow> bool) \<Rightarrow> string \<Rightarrow> int \<Rightarrow> tables \<Rightarrow> tables \<Rightarrow> bool" for ipv6 run cap db0 where
  Start: "comparison_run ipv6 run cap db0 db0"
| Op: "comparison_run ipv6 run cap db0 db \<Longrightarrow> within_cap cap op \<Longrightarrow> comparison_run ipv6 run cap db0 (ctx_exec ipv6 ts run op db)"
| World: "comparison_run ipv6 run cap db0 db \<Longrightarrow> elsewhere run db db' \<Longrightarrow> comparison_run ipv6 run cap db0 db'"

section \<open>A generation names one comparison\<close>

lemma candidate_of_receipt [simp]: "candidate_of (receipt_of ts g c) = c"
  by (simp add: candidate_of_def receipt_of_def optional_field_def deref_def)

lemma receipt_generation [simp]: "pc_generation (receipt_of ts g c) = g"
  by (simp add: receipt_of_def)

text \<open>One generation follows another with a candidate that differs and keeps the identities already attached.\<close>

definition succeeds :: "PRContextRow \<Rightarrow> PRContextRow \<Rightarrow> bool" where
  "succeeds p p' \<longleftrightarrow> pc_generation p' = pc_generation p + 1 \<and> candidate_of p' \<noteq> candidate_of p \<and>
     (ct_SourceRepo (candidate_of p) \<noteq> [] \<longrightarrow> ct_SourceRepo (candidate_of p') = ct_SourceRepo (candidate_of p) \<and>
        ct_SourceBranch (candidate_of p') = ct_SourceBranch (candidate_of p)) \<and>
     (ct_PRURL (candidate_of p) \<noteq> [] \<longrightarrow> ct_PRURL (candidate_of p') = ct_PRURL (candidate_of p))"

lemma apply_receipt: "tb_prContexts (apply_binding ts run c b f k w (Some p) g db) = (tb_prContexts db)(run \<mapsto> receipt_of ts g c)"
  by (simp add: apply_binding_def Let_def)

lemma bind_receipt:
  assumes "bindRunPRContext ipv6 ts i run c b forward opts db = Inr ((changed, g), db')" "tb_prContexts db run = Some p"
  shows "if changed then \<exists>p'. tb_prContexts db' run = Some p' \<and> succeeds p p' else tb_prContexts db' run = Some p"
proof (cases changed)
  case True
  have ids: "ct_SourceRepo (candidate_of p) \<noteq> [] \<Longrightarrow> ct_SourceRepo c = ct_SourceRepo (candidate_of p) \<and> ct_SourceBranch c = ct_SourceBranch (candidate_of p)"
    "ct_PRURL (candidate_of p) \<noteq> [] \<Longrightarrow> ct_PRURL c = ct_PRURL (candidate_of p)"
    using assms by (auto simp: bindRunPRContext_def candidate_of_def split: if_splits option.splits)
  have report: "bindRunPRContext ipv6 ts i run c b forward opts db = Inr ((True, g), db')" using assms(1) True by simp
  obtain w db1 where "g = pc_generation p + 1" "candidate_of p \<noteq> c" "tb_prContexts db1 = tb_prContexts db"
      "db' = apply_binding ts run c b forward (bo_rewind opts \<noteq> None \<or> bo_complete opts \<noteq> None) w (Some p) g db1"
    by (rule bind_changed [OF report assms(2)]) blast
  then show ?thesis using True ids by (auto simp: apply_receipt succeeds_def)
next
  case False
  have changed: "changed_binding ts i run c b forward opts p db = Inr ((False, g), db') \<or> db' = db"
    using assms False by (auto simp: bindRunPRContext_def split: if_splits option.splits)
  moreover have "tb_prContexts db' = tb_prContexts db" if "changed_binding ts i run c b forward opts p db = Inr ((False, g), db')"
    using that by (auto simp: changed_binding_def Let_def split: if_splits sum.splits option.splits)
  ultimately show ?thesis using assms(2) False by auto
qed

lemma bound_receipt:
  "tb_prContexts db run = Some p \<Longrightarrow> \<exists>p'. tb_prContexts (bound db (bindRunPRContext ipv6 ts i run c b f opts db)) run = Some p' \<and> (p' = p \<or> succeeds p p')"
proof (cases "bindRunPRContext ipv6 ts i run c b f opts db")
  case (Inr r)
  assume p: "tb_prContexts db run = Some p"
  obtain changed g db' where r: "r = ((changed, g), db')" by (metis surj_pair)
  have "\<exists>p'. tb_prContexts db' run = Some p' \<and> (p' = p \<or> succeeds p p')"
    using bind_receipt [OF Inr [unfolded r] p] by (cases changed) auto
  then show ?thesis by (simp add: bound_def Inr r)
qed (simp add: bound_def)

lemma exec_receipt:
  assumes "tb_prContexts db run = Some p"
  shows "\<exists>p'. tb_prContexts (ctx_exec ipv6 ts run op db) run = Some p' \<and> (p' = p \<or> succeeds p p')"
proof (cases op)
  case RetargetOp
  then show ?thesis using assms by (simp add: ctx_exec_def kept_def MarkRunRetargetAttempted_def)
next
  case (LeftoverOp head)
  then show ?thesis using assms by (simp add: ctx_exec_def kept_def RecordLeftoverValidationCommit_def split: option.split)
next
  case (AdvanceHeadOp e h d)
  then show ?thesis using assms by (simp add: ctx_exec_def kept_def AdvancePendingTargetRewindHead_def split: option.split)
next
  case (PinOp url head)
  then show ?thesis using assms by (simp add: ctx_exec_def kept_def PinTargetRewindPRObservation_def Let_def split: option.split)
next
  case (BoundaryOp g step outcome)
  then show ?thesis using assms by (simp add: ctx_exec_def kept_def RecordTargetRewindBoundary_def Let_def split: option.split)
qed (simp_all only: ctx_exec_def ctx_op.case BindRunPRContext_def AdvanceRunPRContext_def RewindRunPRContext_def CompleteRebasePRContext_def
    bound_receipt [OF assms])

text \<open>C25. Whatever happens to a run, a generation names one comparison and identities stay: the receipt never disappears, its generation never
  goes back and grows with every change, so equal generations mean the same candidate; and a source or a pull request that was
  attached once is never replaced.\<close>

theorem comparison_generations:
  assumes "comparison_run ipv6 run cap db0 db" "tb_prContexts db0 run = Some p0"
  shows "\<exists>p. tb_prContexts db run = Some p \<and> pc_generation p0 \<le> pc_generation p \<and>
    (pc_generation p = pc_generation p0 \<longrightarrow> candidate_of p = candidate_of p0) \<and>
    (ct_SourceRepo (candidate_of p0) \<noteq> [] \<longrightarrow> ct_SourceRepo (candidate_of p) = ct_SourceRepo (candidate_of p0) \<and>
       ct_SourceBranch (candidate_of p) = ct_SourceBranch (candidate_of p0)) \<and>
    (ct_PRURL (candidate_of p0) \<noteq> [] \<longrightarrow> ct_PRURL (candidate_of p) = ct_PRURL (candidate_of p0))"
  using assms(1)
proof induction
  case Start
  then show ?case using assms(2) by simp
next
  case (Op db op ts)
  then obtain p where p: "tb_prContexts db run = Some p" "pc_generation p0 \<le> pc_generation p"
      "pc_generation p = pc_generation p0 \<longrightarrow> candidate_of p = candidate_of p0"
      "ct_SourceRepo (candidate_of p0) \<noteq> [] \<longrightarrow> ct_SourceRepo (candidate_of p) = ct_SourceRepo (candidate_of p0) \<and>
         ct_SourceBranch (candidate_of p) = ct_SourceBranch (candidate_of p0)"
      "ct_PRURL (candidate_of p0) \<noteq> [] \<longrightarrow> ct_PRURL (candidate_of p) = ct_PRURL (candidate_of p0)"
    by blast
  obtain p' where "tb_prContexts (ctx_exec ipv6 ts run op db) run = Some p'" "p' = p \<or> succeeds p p'"
    using exec_receipt [OF p(1)] by blast
  then show ?case using p by (intro exI [of _ p']) (auto simp: succeeds_def)
next
  case (World db db')
  then obtain p where "tb_prContexts db run = Some p" by blast
  then obtain p' where "tb_prContexts db' run = Some p'" "candidate_of p' = candidate_of p" "pc_generation p' = pc_generation p"
    using World.hyps(2) by (auto simp: elsewhere_def)
  then show ?case using World.IH \<open>tb_prContexts db run = Some p\<close> by auto
qed

section \<open>The budget of rewinds\<close>

definition charges :: "string \<Rightarrow> Run list \<Rightarrow> int set" where
  "charges run rows = rn_TargetAdvanceRewinds ` {r \<in> set rows. rn_ID r = run}"

definition rewinds_of :: "string \<Rightarrow> TargetAdvanceRewind list \<Rightarrow> int" where
  "rewinds_of run rows = int (length (filter (\<lambda>w. tw_RunID w = run) rows))"

lemma charges_update:
  assumes "\<And>r. rn_ID (f r) = rn_ID r" "\<And>r. rn_TargetAdvanceRewinds (f r) = rn_TargetAdvanceRewinds r"
  shows "charges run (sql_update p f rows) = charges run rows"
proof -
  have "map (\<lambda>r. (rn_ID r, rn_TargetAdvanceRewinds r)) (sql_update p f rows) = map (\<lambda>r. (rn_ID r, rn_TargetAdvanceRewinds r)) rows"
    by (rule map_sql_update) (simp add: assms)
  then have "set (map (\<lambda>r. (rn_ID r, rn_TargetAdvanceRewinds r)) (sql_update p f rows)) = set (map (\<lambda>r. (rn_ID r, rn_TargetAdvanceRewinds r)) rows)"
    by (rule arg_cong)
  moreover have "charges run d = snd ` {x \<in> set (map (\<lambda>r. (rn_ID r, rn_TargetAdvanceRewinds r)) d). fst x = run}" for d
    by (force simp: charges_def)
  ultimately show ?thesis by simp
qed

lemma receipt_charges: "charges run (tb_runs (write_receipt ts i c g db)) = charges run (tb_runs db)"
  by (simp add: write_receipt_def attachDiscoveredPR_def charges_update)

lemma revoked_charges:
  "charges run (tb_runs (revoke_authority ts i b k w db)) = charges run (tb_runs db)"
  "charges run (tb_runs (revoke_readiness ts i db)) = charges run (tb_runs db)"
  by (simp_all add: revoked_runs revoke_readiness_def charges_update)

lemma apply_charges: "charges run (tb_runs (apply_binding ts i c b f k w p g db)) = charges run (tb_runs db)"
  by (cases p) (simp_all add: apply_binding_def Let_def receipt_charges revoked_charges)

lemma apply_rewinds: "tb_rewinds (apply_binding ts i c b f k w p g db) = tb_rewinds db"
  by (cases p) (simp_all add: apply_binding_def Let_def)

text \<open>Without a rewind nothing is charged; with one, one row and one unit, below the cap of the request.\<close>

definition same_budget :: "string \<Rightarrow> tables \<Rightarrow> tables \<Rightarrow> bool" where
  "same_budget run db db' \<longleftrightarrow> charges run (tb_runs db') = charges run (tb_runs db) \<and> tb_rewinds db' = tb_rewinds db"

lemma same_budget_refl [simp]: "same_budget run db db"
  by (simp add: same_budget_def)

lemma same_budget_apply: "same_budget run db (apply_binding ts i c b f k w p g db)"
  by (simp add: same_budget_def apply_charges apply_rewinds)

lemma same_budget_trans: "same_budget run db db1 \<Longrightarrow> same_budget run db1 db2 \<Longrightarrow> same_budget run db db2"
  by (simp add: same_budget_def)

lemma same_budget_consume: "same_budget run db (runs_update (run_row i) (\<lambda>r. r\<lparr>rn_PendingTargetRewindID := None\<rparr>) db)"
  by (simp add: same_budget_def charges_update)

lemma changed_budget:
  assumes "bo_rewind opts = None" "changed_binding ts i run c b f opts p db = Inr (x, db')"
  shows "same_budget run db db'"
proof (cases "bo_complete opts")
  case None
  then show ?thesis using assms
    by (simp add: changed_binding_def Let_def same_budget_apply split: if_split_asm) (auto simp: same_budget_apply)
next
  case (Some e)
  define db1 where "db1 = runs_update (run_row run) (\<lambda>r. r\<lparr>rn_PendingTargetRewindID := None\<rparr>) db"
  have db1: "same_budget run db db1" by (simp add: db1_def same_budget_consume)
  have "db' = db1 \<or> (\<exists>k w g. db' = apply_binding ts run c b f k w (Some p) g db1)"
    using assms(2) by (simp add: changed_binding_def Let_def assms(1) Some db1_def [symmetric] split: if_split_asm) blast
  then show ?thesis using db1 same_budget_trans [OF db1 same_budget_apply] by blast
qed

lemma bind_budget:
  assumes "bo_rewind opts = None"
  shows "same_budget run db (bound db (bindRunPRContext ipv6 ts i run c b f opts db))"
proof (cases "bindRunPRContext ipv6 ts i run c b f opts db")
  case (Inr r)
  obtain x db' where r: "r = (x, db')" by (metis surj_pair)
  have "same_budget run db db'"
  proof (cases "tb_prContexts db run")
    case None
    then have "first_binding ts run c b f opts db = Inr (x, db')"
      using Inr r by (simp add: bindRunPRContext_def split: if_split_asm option.split_asm)
    then show ?thesis using assms by (auto simp: first_binding_def same_budget_apply split: if_split_asm)
  next
    case (Some p)
    then have "db' = db \<or> changed_binding ts i run c b f opts p db = Inr (x, db')"
      using Inr r assms by (simp add: bindRunPRContext_def split: if_split_asm option.split_asm)
    then show ?thesis
    proof
      assume "changed_binding ts i run c b f opts p db = Inr (x, db')"
      then show ?thesis by (rule changed_budget [OF assms])
    qed simp
  qed
  then show ?thesis by (simp add: bound_def Inr r)
qed (simp add: bound_def)

lemma charges_Cons: "charges run (r # rows) = (if rn_ID r = run then insert (rn_TargetAdvanceRewinds r) (charges run rows) else charges run rows)"
  by (auto simp: charges_def)

lemma charges_charged:
  assumes "\<And>r. rn_ID (f r) = rn_ID r" "\<And>r. rn_TargetAdvanceRewinds (f r) = rn_TargetAdvanceRewinds r + 1"
  shows "charges run (sql_update (run_row run) f rows) = (\<lambda>n. n + 1) ` charges run rows"
proof (induction rows)
  case Nil
  then show ?case by (simp add: charges_def sql_update_def)
next
  case (Cons r rows)
  then show ?case using assms by (simp add: sql_update_def charges_Cons)
qed

lemma archive_charges:
  assumes "archive_rewind ts i run p c req pending r g db = Some db1"
  shows "charges run (tb_runs db1) = (\<lambda>n. n + 1) ` charges run (tb_runs db)"
    "rewinds_of run (tb_rewinds db1) = rewinds_of run (tb_rewinds db) + 1"
proof -
  show "charges run (tb_runs db1) = (\<lambda>n. n + 1) ` charges run (tb_runs db)"
    unfolding archive_simps(6) [OF assms] by (rule charges_charged) simp_all
  obtain w where "tb_rewinds db1 = tb_rewinds db @ [w]" "tw_RunID w = run" using archive_simps(5) [OF assms] by blast
  then show "rewinds_of run (tb_rewinds db1) = rewinds_of run (tb_rewinds db) + 1" by (simp add: rewinds_of_def)
qed

lemma rewound_budget:
  assumes "bo_rewind opts = Some req" "changed_binding ts i run c b f opts p db = Inr (x, db')"
  shows "\<exists>r. GetRun run db = Some r \<and> rn_TargetAdvanceRewinds r < rq_MaxRewinds req \<and>
    charges run (tb_runs db') = (\<lambda>n. n + 1) ` charges run (tb_runs db) \<and>
    rewinds_of run (tb_rewinds db') = rewinds_of run (tb_rewinds db) + 1"
proof -
  obtain r pending where elig: "checkTargetRewindEligibility run p c req db = Inr (r, pending)"
    using assms by (auto simp: changed_binding_def Let_def split: sum.split_asm)
  obtain db1 where db1: "archive_rewind ts i run p c req pending r (pc_generation p + 1) db = Some db1"
  proof (cases "archive_rewind ts i run p c req pending r (pc_generation p + 1) db")
    case None
    then show ?thesis using assms by (simp add: changed_binding_def Let_def elig)
  qed
  have db': "apply_binding ts run c b f True True (Some p) (pc_generation p + 1) db1 = db'"
    using assms by (simp add: changed_binding_def Let_def elig db1)
  have "GetRun run db = Some r"
    using eligible_rewind(1) [OF elig] by (simp add: targetRewindRun_def split: option.split_asm if_split_asm)
  then show ?thesis using eligible_rewind(3) [OF elig] archive_charges [OF db1] by (simp add: db' [symmetric] apply_charges apply_rewinds)
qed

lemma rewind_budget_step:
  "same_budget run db (bound db (RewindRunPRContext ipv6 ts i run c req db)) \<or>
   (\<exists>r. GetRun run db = Some r \<and> rn_TargetAdvanceRewinds r < rq_MaxRewinds req \<and>
     charges run (tb_runs (bound db (RewindRunPRContext ipv6 ts i run c req db))) = (\<lambda>n. n + 1) ` charges run (tb_runs db) \<and>
     rewinds_of run (tb_rewinds (bound db (RewindRunPRContext ipv6 ts i run c req db))) = rewinds_of run (tb_rewinds db) + 1)"
proof (cases "RewindRunPRContext ipv6 ts i run c req db")
  case (Inr r)
  obtain x db' where r: "r = (x, db')" by (metis surj_pair)
  define opts where "opts = \<lparr> bo_rewind = Some req, bo_complete = None \<rparr>"
  have opts: "bo_rewind opts = Some req" "bo_complete opts = None" by (simp_all add: opts_def)
  have bind: "bindRunPRContext ipv6 ts i run c StepRebase False opts db = Inr (x, db')"
    using Inr by (simp add: RewindRunPRContext_def r opts_def)
  have "db' = db \<or> (\<exists>p. changed_binding ts i run c StepRebase False opts p db = Inr (x, db'))"
    using bind opts by (simp add: bindRunPRContext_def first_binding_def split: if_split_asm option.split_asm) blast
  then show ?thesis
  proof
    assume "\<exists>p. changed_binding ts i run c StepRebase False opts p db = Inr (x, db')"
    then show ?thesis using rewound_budget [OF opts(1)] by (simp add: bound_def Inr r) blast
  qed (simp add: bound_def Inr r)
qed (simp add: bound_def)

text \<open>Every row of the run carries as many charges as the run has rewinds, and they are within the cap.\<close>

definition budgeted :: "string \<Rightarrow> int \<Rightarrow> tables \<Rightarrow> bool" where
  "budgeted run cap db \<longleftrightarrow> rewinds_of run (tb_rewinds db) \<le> cap \<and>
     (\<forall>r \<in> set (tb_runs db). rn_ID r = run \<longrightarrow> rn_TargetAdvanceRewinds r = rewinds_of run (tb_rewinds db))"

lemma budgeted_charges:
  "budgeted run cap db \<longleftrightarrow> rewinds_of run (tb_rewinds db) \<le> cap \<and> charges run (tb_runs db) \<subseteq> {rewinds_of run (tb_rewinds db)}"
  by (auto simp: budgeted_def charges_def)

lemma same_budgeted: "same_budget run db db' \<Longrightarrow> budgeted run cap db \<Longrightarrow> budgeted run cap db'"
  by (simp add: budgeted_charges same_budget_def)

lemma moved_head_rewinds: "rewinds_of run (sql_update p (\<lambda>x. x\<lparr>tw_LocalHeadSHA := head\<rparr>) rows) = rewinds_of run rows"
  by (induction rows) (simp_all add: rewinds_of_def sql_update_def)

lemma exec_budget:
  assumes "budgeted run cap db" "within_cap cap op"
  shows "budgeted run cap (ctx_exec ipv6 ts run op db)"
proof (cases op)
  case (BindOp c b)
  then show ?thesis using same_budgeted [OF bind_budget assms(1)] by (simp add: ctx_exec_def BindRunPRContext_def no_options_def)
next
  case (AdvanceOp c)
  then show ?thesis using same_budgeted [OF bind_budget assms(1)] by (simp add: ctx_exec_def AdvanceRunPRContext_def no_options_def)
next
  case (CompleteOp c e)
  then show ?thesis using same_budgeted [OF bind_budget assms(1)] by (simp add: ctx_exec_def CompleteRebasePRContext_def)
next
  case (RewindOp i c req)
  define db' where "db' = bound db (RewindRunPRContext ipv6 ts i run c req db)"
  have "budgeted run cap db'"
    using rewind_budget_step [of run db ipv6 ts i c req] unfolding db'_def [symmetric]
  proof
    assume "same_budget run db db'"
    then show ?thesis using assms(1) by (rule same_budgeted)
  next
    assume "\<exists>r. GetRun run db = Some r \<and> rn_TargetAdvanceRewinds r < rq_MaxRewinds req \<and>
        charges run (tb_runs db') = (\<lambda>n. n + 1) ` charges run (tb_runs db) \<and> rewinds_of run (tb_rewinds db') = rewinds_of run (tb_rewinds db) + 1"
    then obtain r where r: "GetRun run db = Some r" "rn_TargetAdvanceRewinds r < rq_MaxRewinds req"
        "charges run (tb_runs db') = (\<lambda>n. n + 1) ` charges run (tb_runs db)" "rewinds_of run (tb_rewinds db') = rewinds_of run (tb_rewinds db) + 1"
      by blast
    have "rn_TargetAdvanceRewinds r = rewinds_of run (tb_rewinds db)"
      using assms(1) sql_first_Some [OF r(1) [unfolded GetRun_def]] by (simp add: budgeted_def)
    then show ?thesis using r assms by (auto simp: budgeted_charges RewindOp)
  qed
  then show ?thesis by (simp add: ctx_exec_def RewindOp db'_def)
next
  case (AdvanceHeadOp e h d)
  then show ?thesis using assms
    by (simp add: ctx_exec_def kept_def AdvancePendingTargetRewindHead_def budgeted_charges moved_head_rewinds split: option.split)
next
  case RetargetOp
  then show ?thesis using assms by (simp add: ctx_exec_def kept_def MarkRunRetargetAttempted_def budgeted_charges charges_update)
next
  case (LeftoverOp head)
  then show ?thesis using assms
    by (simp add: ctx_exec_def kept_def RecordLeftoverValidationCommit_def budgeted_charges charges_update split: option.split)
next
  case (PinOp url head)
  then show ?thesis using assms
    by (simp add: ctx_exec_def kept_def PinTargetRewindPRObservation_def Let_def budgeted_charges split: option.split)
next
  case (BoundaryOp g step outcome)
  then show ?thesis using assms by (simp add: ctx_exec_def kept_def RecordTargetRewindBoundary_def Let_def budgeted_charges)
qed

text \<open>C26. However the statements on a run interleave with the other writers, the run is charged once for each of its rewinds, neither more nor
  less, and never beyond the largest cap that a request was admitted under.\<close>

theorem rewind_budget:
  assumes "comparison_run ipv6 run cap db0 db" "budgeted run cap db0"
  shows "budgeted run cap db"
  using assms(1)
proof induction
  case Start
  then show ?case by (rule assms(2))
next
  case (Op db op ts)
  show ?case by (rule exec_budget [OF Op.IH Op.hyps(2)])
next
  case (World db db')
  then show ?case by (force simp: elsewhere_def budgeted_def)
qed

section \<open>One comparison, and the target moves\<close>

definition tracked_run :: Run where
  "tracked_run = zero_run\<lparr>rn_ID := ''r'', rn_Status := RunRunning, rn_HeadSHA := replicate 40 CHR ''a'', rn_RetargetAttempted := Some False,
     rn_ReviewApprovedHeadSHA := Some (replicate 40 CHR ''a'')\<rparr>"

definition tracked :: PRContextCandidate where
  "tracked = \<lparr> ct_PRURL = [], ct_SourceRepo = [], ct_SourceBranch = [], ct_ForgeHeadSHA = [], ct_LocalHeadSHA = replicate 40 CHR ''a'',
     ct_TargetBranch = ''main'', ct_TargetSHA = replicate 40 CHR ''b'', ct_MergeBaseSHA = replicate 40 CHR ''c'',
     ct_DiffDigest = replicate 64 CHR ''d'' \<rparr>"

definition tracked_moved :: PRContextCandidate where
  "tracked_moved = tracked\<lparr>ct_TargetSHA := replicate 40 CHR ''e''\<rparr>"

definition tracked_store :: tables where
  "tracked_store = no_tables\<lparr>tb_runs := [tracked_run], tb_prContexts := [''r'' \<mapsto> receipt_of 1 1 tracked]\<rparr>"

definition tracked_rewind :: TargetAdvanceRewindRequest where
  "tracked_rewind = \<lparr> rq_ObservedPRURL = [], rq_ObservedForgeHeadSHA = [], rq_ExpectedGeneration = 1, rq_Step = StepTest,
     rq_MaxRewinds = 2, rq_SourceSHA = None, rq_HasPR = False \<rparr>"

lemma clean_plain: "TrimSpace s = s \<Longrightarrow> list_all (\<lambda>c. byte c > 32) s \<Longrightarrow> clean_field s"
  by (force simp: clean_field_def list_all_iff list_ex_iff)

lemma letters_clean: "c \<in> set ''abcde'' \<Longrightarrow> 0 < n \<Longrightarrow> clean_field (replicate n c)"
  by (rule clean_plain, rule TrimSpace_plain) (auto simp: list_all_iff plain_byte_def byte_def)

lemma letters_hex: "c \<in> set ''abcde'' \<Longrightarrow> validHex (replicate n c) n"
  by (auto simp: validHex_def list_all_iff byte_def)

lemma tracked_valid: "validatePRContextCandidate (\<lambda>_. False) tracked_moved"
proof -
  have "clean_field ''main''" by (rule clean_plain, rule TrimSpace_plain) (simp_all add: plain_byte_def byte_def)
  then show ?thesis
    by (simp add: validatePRContextCandidate_def tracked_moved_def tracked_def letters_clean letters_hex validGitSHA_def)
qed

lemma tracked_facts:
  "GetRun ''r'' tracked_store = Some tracked_run" "tb_prContexts tracked_store ''r'' = Some (receipt_of 1 1 tracked)"
  "tracked \<noteq> tracked_moved" "pendingTargetRewind ''r'' tracked_store = None"
  by (simp_all add: tracked_store_def GetRun_def sql_first_def tracked_run_def tracked_def tracked_moved_def pendingTargetRewind_def
      zero_run_def replicate_eq_replicate no_tables_def)

lemma tracked_run_eligible: "targetRewindRun ''r'' StepTest tracked_store = Inr tracked_run"
proof -
  have "Order StepRebase \<le> Order StepTest" "Order StepTest \<le> Order StepPush" by code_simp+
  then show ?thesis by (simp add: targetRewindRun_def tracked_facts rewind_prohibited_def)
    (simp add: tracked_store_def tracked_run_def zero_run_def no_tables_def)
qed

lemma tracked_eligible:
  "checkTargetRewindEligibility ''r'' (receipt_of 1 1 tracked) tracked_moved tracked_rewind tracked_store = Inr (tracked_run, None)"
proof -
  have "ct_TargetSHA tracked \<noteq> ct_TargetSHA tracked_moved" by (simp add: tracked_def tracked_moved_def)
  then show ?thesis
    by (simp add: checkTargetRewindEligibility_def tracked_rewind_def tracked_run_eligible tracked_facts pinned_pr_def Let_def)
      (simp add: receipt_of_def tracked_def tracked_moved_def optional_field_def deref_def tracked_store_def no_tables_def tracked_run_def zero_run_def)
qed

lemma tracked_bind:
  assumes "bo_complete opts = None" "GetRun ''r'' db = Some tracked_run" "tb_prContexts db ''r'' = Some (receipt_of 1 1 tracked)"
    "b = StepRebase \<or> b = StepReview"
  shows "bindRunPRContext (\<lambda>_. False) 7 i ''r'' tracked_moved b f opts db =
    changed_binding 7 i ''r'' tracked_moved b f opts (receipt_of 1 1 tracked) db"
proof -
  have "deref (rn_PRURL tracked_run) = []" "pc_pr_url (receipt_of 1 1 tracked) = None" "pc_source_repo (receipt_of 1 1 tracked) = None"
    by (simp_all add: tracked_run_def zero_run_def deref_def receipt_of_def tracked_def optional_field_def)
  moreover have "deref None = []" by (simp add: deref_def)
  moreover have "(1::int) \<noteq> max_generation" by (simp add: max_generation_def)
  ultimately show ?thesis using assms tracked_facts(3) by (auto simp: bindRunPRContext_def tracked_valid)
qed

lemma tracked_not_attached: "\<not> identity_only_attach (receipt_of 1 1 tracked) tracked_moved"
  by (simp add: identity_only_attach_def tracked_moved_def tracked_def)

theorem comparison_change_revokes_witness:
  "\<exists>db'. bindRunPRContext (\<lambda>_. False) 7 [] ''r'' tracked_moved StepRebase False no_options tracked_store = Inr ((True, 2), db') \<and>
     tb_prContexts db' ''r'' = Some (receipt_of 7 2 tracked_moved) \<and> (\<forall>r \<in> set (tb_runs db'). rn_ID r = ''r'' \<longrightarrow> rn_ReviewApprovedHeadSHA r = None)"
proof -
  obtain db' where run: "bindRunPRContext (\<lambda>_. False) 7 [] ''r'' tracked_moved StepRebase False no_options tracked_store = Inr ((True, 2), db')"
    by (simp add: tracked_bind changed_binding_def no_options_def Let_def tracked_facts)
  show ?thesis using comparison_change_revokes [OF run tracked_facts(2) tracked_not_attached] run by simp
qed

theorem comparison_generations_witness:
  "\<exists>p. tb_prContexts (ctx_exec (\<lambda>_. False) 7 ''r'' (RewindOp ''w'' tracked_moved tracked_rewind) tracked_store) ''r'' = Some p \<and> 1 \<le> pc_generation p"
proof -
  have "comparison_run (\<lambda>_. False) ''r'' 2 tracked_store (ctx_exec (\<lambda>_. False) 7 ''r'' (RewindOp ''w'' tracked_moved tracked_rewind) tracked_store)"
    by (rule comparison_run.Op [OF comparison_run.Start]) (simp add: tracked_rewind_def)
  from comparison_generations [OF this tracked_facts(2)] show ?thesis by auto
qed

theorem rewind_budget_witness:
  "budgeted ''r'' 2 (ctx_exec (\<lambda>_. False) 7 ''r'' (RewindOp ''w'' tracked_moved tracked_rewind) tracked_store) \<and>
   rewinds_of ''r'' (tb_rewinds (ctx_exec (\<lambda>_. False) 7 ''r'' (RewindOp ''w'' tracked_moved tracked_rewind) tracked_store)) = 1"
proof -
  define opts where "opts = \<lparr> bo_rewind = Some tracked_rewind, bo_complete = None \<rparr>"
  have opts: "bo_rewind opts = Some tracked_rewind" "bo_complete opts = None" by (simp_all add: opts_def)
  have run: "comparison_run (\<lambda>_. False) ''r'' 2 tracked_store (ctx_exec (\<lambda>_. False) 7 ''r'' (RewindOp ''w'' tracked_moved tracked_rewind) tracked_store)"
    by (rule comparison_run.Op [OF comparison_run.Start]) (simp add: tracked_rewind_def)
  have start: "budgeted ''r'' 2 tracked_store"
    by (simp add: budgeted_def tracked_store_def no_tables_def rewinds_of_def tracked_run_def zero_run_def)
  have none: "rewinds_of ''r'' (tb_rewinds tracked_store) = 0" by (simp add: tracked_store_def no_tables_def rewinds_of_def)
  obtain db1 where db1: "archive_rewind 7 ''w'' ''r'' (receipt_of 1 1 tracked) tracked_moved tracked_rewind None tracked_run 2 tracked_store = Some db1"
    by (simp add: archive_rewind_def tracked_store_def no_tables_def)
  have "\<exists>db'. bindRunPRContext (\<lambda>_. False) 7 ''w'' ''r'' tracked_moved StepRebase False opts tracked_store = Inr ((True, 2), db') \<and>
      rewinds_of ''r'' (tb_rewinds db') = 1"
    using archive_charges(2) [OF db1] none
    by (simp add: tracked_bind opts tracked_facts changed_binding_def Let_def tracked_eligible db1 apply_rewinds)
  then have "rewinds_of ''r'' (tb_rewinds (ctx_exec (\<lambda>_. False) 7 ''r'' (RewindOp ''w'' tracked_moved tracked_rewind) tracked_store)) = 1"
    by (auto simp: ctx_exec_def RewindRunPRContext_def opts_def bound_def)
  then show ?thesis using rewind_budget [OF run start] by simp
qed

end
