(* ===== verification/Sha256.thy ===== *)
theory Sha256
  imports Prelude "HOL-Library.Word"
begin

text \<open>
  \<open>crypto/sha256\<close> on byte strings, as the certificates of execution proof and the digests of a
  shipping comparison use it, with the hexadecimal text of \<open>encoding/hex\<close>.
\<close>

unbundle bit_operations_syntax

type_synonym w32 = "32 word"

text \<open>The constants are the first 32 bits of the fractional parts of the roots of the first primes: the
  cube roots for the rounds, the square roots for the initial state. The root is found bit by bit.\<close>

primrec root_bits :: "nat \<Rightarrow> nat \<Rightarrow> int \<Rightarrow> int \<Rightarrow> int" where
  "root_bits 0 n x r = r"
| "root_bits (Suc b) n x r = root_bits b n x (if (r + 2 ^ b) ^ n \<le> x then r + 2 ^ b else r)"

definition root_fraction :: "nat \<Rightarrow> int \<Rightarrow> w32" where
  "root_fraction n p = of_int (root_bits 36 n (p * 2 ^ (32 * n)) 0)"

definition first_primes :: "int list" where
  "first_primes = [
     2, 3, 5, 7, 11, 13, 17, 19, 23, 29, 31, 37, 41, 43, 47, 53,
     59, 61, 67, 71, 73, 79, 83, 89, 97, 101, 103, 107, 109, 113, 127, 131,
     137, 139, 149, 151, 157, 163, 167, 173, 179, 181, 191, 193, 197, 199, 211, 223,
     227, 229, 233, 239, 241, 251, 257, 263, 269, 271, 277, 281, 283, 293, 307, 311]"

definition round_constants :: "w32 list" where
  "round_constants = map (root_fraction 3) first_primes"

definition initial_hash :: "w32 list" where
  "initial_hash = map (root_fraction 2) (take 8 first_primes)"

definition rotr :: "nat \<Rightarrow> w32 \<Rightarrow> w32" where
  "rotr n x = drop_bit n x OR push_bit (32 - n) x"

definition big_sigma0 :: "w32 \<Rightarrow> w32" where "big_sigma0 x = rotr 2 x XOR rotr 13 x XOR rotr 22 x"
definition big_sigma1 :: "w32 \<Rightarrow> w32" where "big_sigma1 x = rotr 6 x XOR rotr 11 x XOR rotr 25 x"
definition small_sigma0 :: "w32 \<Rightarrow> w32" where "small_sigma0 x = rotr 7 x XOR rotr 18 x XOR drop_bit 3 x"
definition small_sigma1 :: "w32 \<Rightarrow> w32" where "small_sigma1 x = rotr 17 x XOR rotr 19 x XOR drop_bit 10 x"

text \<open>The message schedule, newest word first.\<close>

fun extend :: "nat \<Rightarrow> w32 list \<Rightarrow> w32 list" where
  "extend 0 ws = ws"
| "extend (Suc n) ws = extend n
     ((small_sigma1 (ws ! 1) + ws ! 6 + small_sigma0 (ws ! 14) + ws ! 15) # ws)"

fun sha_round :: "w32 \<times> w32 \<Rightarrow> w32 list \<Rightarrow> w32 list" where
  "sha_round (k, w) [a, b, c, d, e, f, g, h] =
     (let t1 = h + big_sigma1 e + ((e AND f) XOR (NOT e AND g)) + k + w;
          t2 = big_sigma0 a + ((a AND b) XOR (a AND c) XOR (b AND c)) in
      [t1 + t2, a, b, c, d + t1, e, f, g])"
| "sha_round kw hs = hs"

definition compress :: "w32 list \<Rightarrow> w32 list \<Rightarrow> w32 list" where
  "compress block hs =
     map2 (+) hs (fold sha_round (zip round_constants (rev (extend 48 (rev block)))) hs)"

text \<open>Big-endian words of the bytes, and the padding with the length in bits.\<close>

definition word_of_bytes :: "w32 list \<Rightarrow> w32" where
  "word_of_bytes bs = fold (\<lambda>b n. push_bit 8 n OR b) bs 0"

fun words_of_bytes :: "w32 list \<Rightarrow> w32 list" where
  "words_of_bytes (a # b # c # d # bs) = word_of_bytes [a, b, c, d] # words_of_bytes bs"
| "words_of_bytes bs = []"

definition length_bytes :: "int \<Rightarrow> w32 list" where
  "length_bytes n = map (\<lambda>i. of_int (n div 256 ^ (7 - i) mod 256)) [0..<8]"

definition pad :: "w32 list \<Rightarrow> w32 list" where
  "pad bs = (let l = length bs in
     bs @ [128] @ replicate ((119 - l mod 64) mod 64) 0 @ length_bytes (8 * int l))"

function blocks :: "w32 list \<Rightarrow> w32 list list" where
  "blocks ws = (if length ws < 16 then [] else take 16 ws # blocks (drop 16 ws))"
  by auto
termination by (relation "measure length") auto

declare blocks.simps [simp del]

definition nibble :: "nat \<Rightarrow> char" where
  "nibble n = (if n < 10 then char_of (48 + n) else char_of (87 + n))"

definition hex_word :: "w32 \<Rightarrow> string" where
  "hex_word w = map (\<lambda>i. nibble (unat (drop_bit (4 * (7 - i)) w AND 15))) [0..<8]"

definition sha256_hex :: "string \<Rightarrow> string" where
  "sha256_hex s = concat (map hex_word
     (fold compress (blocks (words_of_bytes (pad (map (\<lambda>c. of_nat (of_char c)) s)))) initial_hash))"

section \<open>The digest text\<close>

definition hex_char :: "char \<Rightarrow> bool" where
  "hex_char c \<longleftrightarrow> c \<in> set ''abcdef0123456789''"

lemma nibble_hex: "n < 16 \<Longrightarrow> hex_char (nibble n)"
proof -
  assume "n < 16"
  then have "n \<in> set [0..<16]" by simp
  moreover have "list_all (\<lambda>n. hex_char (nibble n)) [0..<16]" by code_simp
  ultimately show ?thesis by (simp only: list_all_iff)
qed

lemma nibble_bound: "unat (w AND 15 :: w32) < 16"
proof -
  have "w AND 15 \<le> (15 :: w32)" by (simp add: word_and_le1)
  then show ?thesis by (simp add: word_le_nat_alt)
qed

lemma hex_word: "length (hex_word w) = 8 \<and> list_all hex_char (hex_word w)"
  by (simp add: hex_word_def list_all_iff nibble_hex nibble_bound)

lemma sha_round_length: "length hs = 8 \<Longrightarrow> length (sha_round kw hs) = 8"
  by (cases "(kw, hs)" rule: sha_round.cases) (simp_all add: Let_def)

lemma fold_length: "(\<And>x hs. length hs = (n::nat) \<Longrightarrow> length (f x hs) = n) \<Longrightarrow>
    length hs = n \<Longrightarrow> length (fold f xs hs) = n"
  by (induction xs arbitrary: hs) simp_all

lemma compress_length: "length hs = 8 \<Longrightarrow> length (compress b hs) = 8"
  using fold_length [of 8 sha_round hs, OF sha_round_length] by (simp add: compress_def)

lemma sha256_hex_text: "length (sha256_hex s) = 64 \<and> list_all hex_char (sha256_hex s)"
proof -
  define hs where "hs = fold compress (blocks (words_of_bytes (pad (map (\<lambda>c. of_nat (of_char c)) s)))) initial_hash"
  have "length hs = 8"
    unfolding hs_def by (rule fold_length) (simp_all add: compress_length initial_hash_def first_primes_def)
  moreover have "length (concat (map hex_word ws)) = 8 * length ws" "list_all hex_char (concat (map hex_word ws))" for ws
    using hex_word by (induction ws) (auto simp: list_all_iff)
  ultimately show ?thesis by (simp add: sha256_hex_def flip: hs_def)
qed

end
