(* ===== verification/StatusCert.thy ===== *)
theory StatusCert
  imports RunRows Sha256
begin

text \<open>
  The proof behind a green commit status, from \<open>internal/db/status_validation.go\<close> and
  \<open>commit_status.go\<close>: the certificate of a run is built from the rows of its steps and the execution
  proofs recorded for them, stored beside the publication of a status, revoked by every invalidation
  and by a raw shutdown of the daemon, and decides whether a cancelled run may keep its success.
  Inl stands for an error of the code, after which the transaction is rolled back.
\<close>

section \<open>The certificate\<close>

record StatusCertificate =
  sc_SHA :: string
  sc_Epoch :: int
  sc_PushGeneration :: int
  sc_ConfigDigest :: string
  sc_ProofDigest :: string

record statusStepProof =
  ss_ID :: string
  ss_Name :: StepName
  ss_Findings :: "string option"
  ss_CompletedAt :: "int option"
  ss_AcceptedGaps :: "string option"

definition RawShutdownReason :: string where "RawShutdownReason = ''daemon shutting down''"

definition rawShutdownSuperseded :: "string \<Rightarrow> tables \<Rightarrow> bool" where
  "rawShutdownSuperseded run db \<longleftrightarrow>
     (case tb_shutdowns db run of None \<Rightarrow> False | Some b \<Rightarrow> sh_Reason b = RawShutdownReason)"

definition enc_step_proof :: "statusStepProof \<Rightarrow> json" where
  "enc_step_proof p = JObj
     ([(''ID'', JStr (ss_ID p)), (''Name'', JStr (ss_Name p)),
       (''Findings'', case ss_Findings p of None \<Rightarrow> JNull | Some f \<Rightarrow> JStr f),
       (''CompletedAt'', case ss_CompletedAt p of None \<Rightarrow> JNull | Some t \<Rightarrow> JNum (Itoa t))]
      @ omit_ptr ''AcceptedGaps'' JStr (ss_AcceptedGaps p))"

definition enc_certificate :: "StatusCertificate \<Rightarrow> json" where
  "enc_certificate c = JObj
     [(''sha'', JStr (sc_SHA c)), (''epoch'', JNum (Itoa (sc_Epoch c))),
      (''push_generation'', JNum (Itoa (sc_PushGeneration c))),
      (''config_digest'', JStr (sc_ConfigDigest c)), (''proof_digest'', JStr (sc_ProofDigest c))]"

definition certificate_fields :: "StatusCertificate fields" where
  "certificate_fields =
     [(''sha'', str_field (\<lambda>v s. s\<lparr>sc_SHA := v\<rparr>)),
      (''epoch'', int_field (\<lambda>v s. s\<lparr>sc_Epoch := v\<rparr>)),
      (''push_generation'', int_field (\<lambda>v s. s\<lparr>sc_PushGeneration := v\<rparr>)),
      (''config_digest'', str_field (\<lambda>v s. s\<lparr>sc_ConfigDigest := v\<rparr>)),
      (''proof_digest'', str_field (\<lambda>v s. s\<lparr>sc_ProofDigest := v\<rparr>))]"

definition zero_certificate :: StatusCertificate where
  "zero_certificate = \<lparr> sc_SHA = [], sc_Epoch = 0, sc_PushGeneration = 0, sc_ConfigDigest = [], sc_ProofDigest = [] \<rparr>"

definition core_proof_step :: "StepName \<Rightarrow> bool" where
  "core_proof_step s \<longleftrightarrow> s = StepReview \<or> s = StepTest \<or> s = StepDocument \<or> s = StepLint"

text \<open>The checks of one row: its outcome, a gate's findings, and the execution proof joined to it.\<close>

definition gate_findings_clean :: "StepResult \<Rightarrow> bool" where
  "gate_findings_clean s \<longleftrightarrow>
     (if IsCustomGate (sp_StepName s) \<and> deref (sp_FindingsJSON s) \<noteq> [] then
        (case ParseFindingsJSON (deref (sp_FindingsJSON s)) of
           None \<Rightarrow> False
         | Some fs \<Rightarrow> \<not> list_ex (\<lambda>x. f_Severity x = FindingSeverityError) (items fs))
      else True)"

definition row_proved :: "string \<Rightarrow> int \<Rightarrow> string \<Rightarrow> StepResult \<Rightarrow> StepProof option \<Rightarrow> bool" where
  "row_proved head epoch configDigest s v \<longleftrightarrow>
     sp_Status s = StepStatusCompleted \<and> sp_ExitCode s = Some 0 \<and> sp_OverrideReason s = None \<and>
     sp_ApprovalReason s = None \<and> gate_findings_clean s \<and>
     v = Some \<lparr> pf_head_sha = head, pf_epoch = epoch, pf_config_digest = configDigest \<rparr>"

text \<open>The extra checks of the Test row: the gap its proof records, None when it is not certified.\<close>

definition test_row_gap :: "string \<Rightarrow> StepResult \<Rightarrow> string option option" where
  "test_row_gap head s =
     (case sp_FindingsJSON s of
        None \<Rightarrow> None
      | Some raw \<Rightarrow>
          (case ParseFindingsJSON raw of
             None \<Rightarrow> None
           | Some fs \<Rightarrow>
               if fs_TestedHeadSHA fs \<noteq> head then None
               else let row = zero_step\<lparr>sp_StepName := sp_StepName s, sp_Status := StepStatusCompleted,
                      sp_ExitCode := sp_ExitCode s, sp_FindingsJSON := Some raw, sp_AcceptedGapsJSON := sp_AcceptedGapsJSON s\<rparr> in
                 if TestOverrideReason row \<noteq> [] then
                   (if ValidAcceptedGaps row = None then None else Some (sp_AcceptedGapsJSON s))
                 else Some None))"

fun collect_proof ::
  "string \<Rightarrow> int \<Rightarrow> string \<Rightarrow> (StepResult \<times> StepProof option) list \<Rightarrow> StepName list \<Rightarrow> statusStepProof list \<Rightarrow>
   (StepName list \<times> statusStepProof list) option" where
  "collect_proof head epoch cfg [] seen acc = Some (seen, acc)"
| "collect_proof head epoch cfg ((s, v) # rows) seen acc =
     (let name = sp_StepName s; core = core_proof_step name;
          p = \<lparr> ss_ID = sp_ID s, ss_Name = name, ss_Findings = sp_FindingsJSON s,
                ss_CompletedAt = sp_CompletedAt s, ss_AcceptedGaps = None \<rparr> in
      if \<not> core \<and> \<not> IsCustomGate name then collect_proof head epoch cfg rows seen acc
      else if \<not> row_proved head epoch cfg s v then None
      else if core \<and> name \<in> set seen then None
      else if name = StepTest then
        (case test_row_gap head s of
           None \<Rightarrow> None
         | Some gap \<Rightarrow> collect_proof head epoch cfg rows (name # seen) (acc @ [p\<lparr>ss_AcceptedGaps := gap\<rparr>]))
      else collect_proof head epoch cfg rows (if core then name # seen else seen) (acc @ [p]))"

definition proof_rows :: "string \<Rightarrow> tables \<Rightarrow> (StepResult \<times> StepProof option) list" where
  "proof_rows run db = map (\<lambda>s. (s, tb_proofs db (sp_ID s))) (GetStepsByRun run db)"

definition buildStatusCertificate :: "string \<Rightarrow> string \<Rightarrow> string \<Rightarrow> tables \<Rightarrow> unit + string option" where
  "buildStatusCertificate run head configDigest db =
     (if rawShutdownSuperseded run db \<or> configDigest = [] then Inr None
      else case GetRun run db of
          None \<Rightarrow> Inl ()
        | Some r \<Rightarrow>
            (case rn_PushGeneration r of
               None \<Rightarrow> Inr None
             | Some generation \<Rightarrow>
                 if rn_ReviewApprovedHeadSHA r \<noteq> Some head \<or> rn_LastPushedSHA r \<noteq> Some head then Inr None
                 else let epoch = StatusValidationEpoch run db in
                   (case collect_proof head epoch configDigest (proof_rows run db) [] [] of
                      None \<Rightarrow> Inr None
                    | Some (seen, proof) \<Rightarrow>
                        if length seen \<noteq> 4 then Inr None
                        else Inr (Some (json_print (enc_certificate
                          \<lparr> sc_SHA = head, sc_Epoch = epoch, sc_PushGeneration = generation, sc_ConfigDigest = configDigest,
                            sc_ProofDigest = sha256_hex (json_print (JArr (map enc_step_proof proof))) \<rparr>))))))"

section \<open>Publications\<close>

definition at_publication :: "string \<Rightarrow> CommitStatusPublication \<Rightarrow> PublicationRow \<Rightarrow> bool" where
  "at_publication run p row \<longleftrightarrow> pr_run_id row = run \<and> cp_Host (pr_pub row) = cp_Host p \<and>
     cp_Repo (pr_pub row) = cp_Repo p \<and> cp_SHA (pr_pub row) = cp_SHA p"

definition same_target :: "CommitStatusPublication \<Rightarrow> CommitStatusPublication \<Rightarrow> bool" where
  "same_target p q \<longleftrightarrow> cp_Host q = cp_Host p \<and> cp_Repo q = cp_Repo p \<and> cp_SHA q = cp_SHA p"

definition RevokeStatusCertificate :: "string \<Rightarrow> CommitStatusPublication \<Rightarrow> tables \<Rightarrow> tables" where
  "RevokeStatusCertificate run p db = db\<lparr>tb_publications :=
     sql_update (\<lambda>row. at_publication run p row \<and> \<not> pr_retired row) without_proof (tb_publications db)\<rparr>"

text \<open>\<open>ON CONFLICT DO UPDATE\<close>: the row of the same key is replaced in place, otherwise the row is added.\<close>

definition merge_publication :: "bool \<Rightarrow> CommitStatusPublication \<Rightarrow> CommitStatusPublication \<Rightarrow> CommitStatusPublication" where
  "merge_publication confirm p old = p\<lparr>cp_LastState := (if confirm then cp_LastState old else cp_LastState p),
     cp_AdoptedOnly := cp_AdoptedOnly old \<and> cp_AdoptedOnly p\<rparr>"

definition upsert_publication :: "string \<Rightarrow> bool \<Rightarrow> CommitStatusPublication \<Rightarrow> PublicationRow list \<Rightarrow> PublicationRow list" where
  "upsert_publication run confirm p rows =
     (if list_ex (at_publication run p) rows
      then sql_update (at_publication run p) (\<lambda>row. row\<lparr>pr_pub := merge_publication confirm p (pr_pub row)\<rparr>) rows
      else rows @ [\<lparr> pr_run_id = run, pr_pub = p, pr_retired = False \<rparr>])"

text \<open>A newer run with a publication of the same commit retires the rows of the older runs.\<close>

definition newer_run :: "Run \<Rightarrow> Run \<Rightarrow> bool" where
  "newer_run newer older \<longleftrightarrow> rn_CreatedAt newer > rn_CreatedAt older \<or>
     rn_CreatedAt newer = rn_CreatedAt older \<and> rn_ID newer > rn_ID older"

definition superseded_runs :: "CommitStatusPublication \<Rightarrow> tables \<Rightarrow> string set" where
  "superseded_runs p db = {i. \<exists>older \<in> set (tb_runs db). rn_ID older = i \<and>
     (\<exists>newer \<in> set (tb_runs db). newer_run newer older \<and>
        (\<exists>owner \<in> set (tb_publications db). pr_run_id owner = rn_ID newer \<and> same_target p (pr_pub owner)))}"

definition retire_older :: "CommitStatusPublication \<Rightarrow> tables \<Rightarrow> tables" where
  "retire_older p db =
     (let gone = superseded_runs p db in
      db\<lparr>tb_attempts := (\<lambda>i. map_option (\<lambda>a. if i \<in> gone \<and> same_target p (ca_pub a) then a\<lparr>ca_retired := True\<rparr> else a)
             (tb_attempts db i)),
         tb_publications := sql_update (\<lambda>row. pr_run_id row \<in> gone \<and> same_target p (pr_pub row))
             (\<lambda>row. row\<lparr>pr_retired := True\<rparr>) (tb_publications db)\<rparr>)"

definition drop_attempt :: "bool \<Rightarrow> string \<Rightarrow> tables \<Rightarrow> tables" where
  "drop_attempt confirm run db =
     (if confirm then db\<lparr>tb_attempts := (tb_attempts db)(run :=
        (case tb_attempts db run of None \<Rightarrow> None | Some a \<Rightarrow> if ca_retired a then Some a else None))\<rparr> else db)"

datatype put_error = RunNotFound | ShutdownForbidsPromotion | TerminalForbids string | CompletedRequires string | BadClaim

definition state_refused :: "string \<Rightarrow> RunStatus \<Rightarrow> CommitStatusPublication \<Rightarrow> tables \<Rightarrow> put_error option" where
  "state_refused run status p db =
     (let state = cp_LastState p; expected = (if cp_Validated p then ''success'' else ''failure'') in
      if rawShutdownSuperseded run db \<and> (cp_StrictCertificate p \<noteq> None \<or> state \<noteq> [] \<and> state \<noteq> ''failure'')
      then Some ShutdownForbidsPromotion
      else if status \<in> {RunFailed, RunCancelled, RunCIMonitorInterrupted} \<and> state \<noteq> [] \<and> state \<noteq> ''failure''
      then Some (TerminalForbids state)
      else if status = RunCompleted \<and> state \<noteq> [] \<and> state \<noteq> expected then Some (CompletedRequires expected)
      else None)"

text \<open>A claimed certificate is kept only when it is the one the rows prove now.\<close>

definition checked_certificate :: "string \<Rightarrow> CommitStatusPublication \<Rightarrow> tables \<Rightarrow> put_error + CommitStatusPublication" where
  "checked_certificate run p db =
     (case cp_StrictCertificate p of
        None \<Rightarrow> Inr p
      | Some text' \<Rightarrow>
          (case json_parse text' of
             None \<Rightarrow> Inl BadClaim
           | Some j \<Rightarrow>
               (case dec_struct certificate_fields j zero_certificate of
                  None \<Rightarrow> Inl BadClaim
                | Some claimed \<Rightarrow>
                    (case buildStatusCertificate run (cp_SHA p) (sc_ConfigDigest claimed) db of
                       Inl _ \<Rightarrow> Inl RunNotFound
                     | Inr actual \<Rightarrow>
                         Inr (if actual = Some text' then p
                           else p\<lparr>cp_StrictCertificate := None, cp_PreserveSuccess := None\<rparr>)))))"

definition adoption_checked :: "string \<Rightarrow> CommitStatusPublication \<Rightarrow> tables \<Rightarrow> CommitStatusPublication" where
  "adoption_checked run p db =
     (let pushed = (case tb_attempts db run of None \<Rightarrow> False | Some a \<Rightarrow> \<not> cp_AdoptedOnly (ca_pub a)) in
      if cp_AdoptedOnly p then p\<lparr>cp_AdoptedOnly := \<not> pushed\<rparr> else p)"

definition putCommitStatusPublication ::
  "string \<Rightarrow> CommitStatusPublication \<Rightarrow> bool \<Rightarrow> tables \<Rightarrow> put_error + (bool \<times> tables)" where
  "putCommitStatusPublication run p0 confirm db =
     (let p1 = adoption_checked run p0 db in
      case GetRun run db of
        None \<Rightarrow> Inl RunNotFound
      | Some r \<Rightarrow>
          if rn_Status r = RunCancelled \<and>
             list_ex (\<lambda>row. at_publication run p1 row \<and> \<not> pr_retired row \<and> preserved_row row) (tb_publications db)
          then Inr (True, drop_attempt confirm run db)
          else case state_refused run (rn_Status r) p1 db of
              Some err \<Rightarrow> Inl err
            | None \<Rightarrow>
                (case checked_certificate run p1 db of
                   Inl err \<Rightarrow> Inl err
                 | Inr p \<Rightarrow>
                     let db1 = retire_older p (db\<lparr>tb_publications := upsert_publication run confirm p (tb_publications db)\<rparr>);
                         db2 = drop_attempt confirm run db1 in
                     Inr (\<not> list_ex (\<lambda>row. at_publication run p row \<and> pr_retired row) (tb_publications db2), db2)))"

definition PutCommitStatusAttempt :: "string \<Rightarrow> CommitStatusPublication \<Rightarrow> string \<Rightarrow> string \<Rightarrow> tables \<Rightarrow> tables" where
  "PutCommitStatusAttempt run p target ref db =
     (let retired = (\<exists>row \<in> set (tb_publications db). same_target p (pr_pub row) \<and>
            (\<exists>owner \<in> set (tb_runs db). \<exists>current \<in> set (tb_runs db). rn_ID owner = pr_run_id row \<and> rn_ID current = run \<and>
              (newer_run owner current \<or> rn_ID owner = rn_ID current \<and> pr_retired row)));
          adopted = (case tb_attempts db run of None \<Rightarrow> cp_AdoptedOnly p | Some old \<Rightarrow> cp_AdoptedOnly (ca_pub old) \<and> cp_AdoptedOnly p) in
      db\<lparr>tb_attempts := (tb_attempts db)(run \<mapsto> \<lparr> ca_pub = p\<lparr>cp_AdoptedOnly := adopted\<rparr>, ca_Target = target, ca_Ref = ref, ca_retired = retired \<rparr>)\<rparr>)"

definition GetCommitStatusPublication :: "string \<Rightarrow> CommitStatusPublication \<Rightarrow> tables \<Rightarrow> CommitStatusPublication option" where
  "GetCommitStatusPublication run p db =
     map_option pr_pub (sql_first (\<lambda>row. at_publication run p row \<and> \<not> pr_retired row) (tb_publications db))"

definition GetCommitStatusPublications :: "string \<Rightarrow> tables \<Rightarrow> CommitStatusPublication list" where
  "GetCommitStatusPublications run db =
     map pr_pub (filter (\<lambda>row. pr_run_id row = run \<and> \<not> pr_retired row) (tb_publications db))"

definition GetCommitStatusAttempt :: "string \<Rightarrow> tables \<Rightarrow> AttemptRow option" where
  "GetCommitStatusAttempt run db =
     (case tb_attempts db run of None \<Rightarrow> None | Some a \<Rightarrow> if ca_retired a then None else Some a)"

text \<open>The terminal runs whose outcome has not reached the forge, oldest first.\<close>

definition expected_state :: "RunStatus \<Rightarrow> CommitStatusPublication \<Rightarrow> string" where
  "expected_state status p =
     (if status = RunCompleted \<and> cp_Validated p then ''success''
      else if status = RunCancelled \<and> cp_PreserveSuccess p = Some True \<and> cp_StrictCertificate p \<noteq> None then ''success''
      else ''failure'')"

definition report_due :: "tables \<Rightarrow> Run \<Rightarrow> bool" where
  "report_due db r \<longleftrightarrow> rn_Status r \<in> {RunCompleted, RunFailed, RunCancelled, RunCIMonitorInterrupted} \<and>
     (GetCommitStatusAttempt (rn_ID r) db \<noteq> None \<or>
      list_ex (\<lambda>row. pr_run_id row = rn_ID r \<and> \<not> pr_retired row \<and>
        cp_LastState (pr_pub row) \<noteq> expected_state (rn_Status r) (pr_pub row)) (tb_publications db))"

definition CommitStatusRecoveryRunIDs :: "tables \<Rightarrow> string list" where
  "CommitStatusRecoveryRunIDs db =
     map rn_ID (sort_key (\<lambda>r. (rn_CreatedAt r, rn_ID r)) (filter (report_due db) (tb_runs db)))"

section \<open>Ending a run\<close>

definition unproved :: "string \<Rightarrow> tables \<Rightarrow> tables" where
  "unproved run db = db\<lparr>tb_publications := sql_update (\<lambda>p. pr_run_id p = run) without_proof (tb_publications db)\<rparr>"

definition ControlledShutdownMatches :: "string \<Rightarrow> ShutdownBinding \<Rightarrow> tables \<Rightarrow> bool" where
  "ControlledShutdownMatches run b db \<longleftrightarrow> tb_shutdowns db run = Some b"

text \<open>The certificate a terminal write may preserve, with the run and the optional binding it must match.\<close>

definition watcher_certificate :: "string \<Rightarrow> string \<Rightarrow> ShutdownBinding option \<Rightarrow> Run \<Rightarrow> string option \<Rightarrow> tables \<Rightarrow> string option" where
  "watcher_certificate run head binding r cert db =
     (if rn_Status r \<noteq> RunRunning \<or> rn_PushActive r \<or> rn_HeadSHA r \<noteq> head \<or> rn_LastPushedSHA r \<noteq> Some head then None
      else (case binding of
              None \<Rightarrow> cert
            | Some b \<Rightarrow> if \<not> ControlledShutdownMatches run b db \<or> rn_Status r \<noteq> RunRunning then None else cert))"

definition preserve_row :: "string \<Rightarrow> string \<Rightarrow> string \<Rightarrow> PublicationRow \<Rightarrow> bool" where
  "preserve_row run head c p \<longleftrightarrow> pr_run_id p = run \<and> cp_SHA (pr_pub p) = head \<and> \<not> pr_retired p \<and>
     cp_LastState (pr_pub p) = ''success'' \<and> cp_StrictCertificate (pr_pub p) = Some c"

definition TerminalizeCertifiedWatcher ::
  "int \<Rightarrow> string \<Rightarrow> string \<Rightarrow> string \<Rightarrow> string \<Rightarrow> RunStatus \<Rightarrow> ShutdownBinding option \<Rightarrow> tables \<Rightarrow> tables option" where
  "TerminalizeCertifiedWatcher ts run msg head configDigest status binding db =
     (case GetRun run db of
        None \<Rightarrow> None
      | Some r \<Rightarrow>
          if rn_Status r \<noteq> RunRunning \<and> rn_Status r \<noteq> RunPending then Some db
          else (case buildStatusCertificate run head configDigest db of
                  Inl _ \<Rightarrow> None
                | Inr cert \<Rightarrow>
                    let db1 = (case watcher_certificate run head binding r cert db of
                          Some c \<Rightarrow> db\<lparr>tb_publications := sql_update (preserve_row run head c)
                            (\<lambda>p. p\<lparr>pr_pub := (pr_pub p)\<lparr>cp_PreserveSuccess := Some True\<rparr>\<rparr>) (tb_publications db)\<rparr>
                        | None \<Rightarrow> unproved run db) in
                    Some (runs_update (\<lambda>r. rn_ID r = run) (\<lambda>r. (with_status status r)\<lparr>rn_Error := Some msg, rn_HeadSHA := head,
                      rn_PushActive := False, rn_TerminalHeadVerifiedAt := Some ts, rn_UpdatedAt := ts\<rparr>) db1)))"

text \<open>The binding of a planned shutdown; a raw shutdown already recorded wins, the row needs its
  run (a foreign key), and every run or none is bound.\<close>

fun bind_shutdowns :: "string list \<Rightarrow> ShutdownBinding \<Rightarrow> tables \<Rightarrow> tables option" where
  "bind_shutdowns [] b db = Some db"
| "bind_shutdowns (run # runs) b db =
     (if rawShutdownSuperseded run db \<or> GetRun run db = None then None
      else bind_shutdowns runs b (db\<lparr>tb_shutdowns := (tb_shutdowns db)(run \<mapsto> b)\<rparr>))"

definition PrepareControlledShutdown :: "string list \<Rightarrow> ShutdownBinding \<Rightarrow> tables \<Rightarrow> tables option" where
  "PrepareControlledShutdown runs b db =
     (if sh_Instance b = [] \<or> sh_Lifecycle b = [] \<or> sh_Reason b = [] then None else bind_shutdowns runs b db)"

definition RecordIneligibleTerminal :: "int \<Rightarrow> string \<Rightarrow> string \<Rightarrow> RunStatus \<Rightarrow> string option \<Rightarrow> tables \<Rightarrow> tables option" where
  "RecordIneligibleTerminal ts run msg status head db =
     (case GetRun run db of
        None \<Rightarrow> None
      | Some r \<Rightarrow>
          if rn_Status r = RunCancelled \<and> preserved_success run db then Some db
          else Some (closeExecutingSteps run (''run ended: '' @ msg) ts
            (runs_update (\<lambda>r. rn_ID r = run) (\<lambda>r. (with_status status r)\<lparr>rn_Error := Some msg,
               rn_HeadSHA := (case head of None \<Rightarrow> rn_HeadSHA r | Some h \<Rightarrow> h), rn_PushActive := False,
               rn_TerminalHeadVerifiedAt := (case head of None \<Rightarrow> None | Some _ \<Rightarrow> Some ts), rn_UpdatedAt := ts\<rparr>)
               (unproved run db))))"

fun SupersedeUncommittedCancellations :: "string list \<Rightarrow> string \<Rightarrow> tables \<Rightarrow> tables option" where
  "SupersedeUncommittedCancellations [] inst db = Some db"
| "SupersedeUncommittedCancellations (run # runs) inst db =
     (case GetRun run db of
        None \<Rightarrow> None
      | Some r \<Rightarrow>
          if rn_Status r \<noteq> RunRunning \<and> rn_Status r \<noteq> RunPending then SupersedeUncommittedCancellations runs inst db
          else if inst = [] then None
          else SupersedeUncommittedCancellations runs inst (invalidateStatusValidation run
            (db\<lparr>tb_shutdowns := (tb_shutdowns db)(run \<mapsto>
               \<lparr> sh_Instance = inst, sh_Lifecycle = inst, sh_Reason = RawShutdownReason \<rparr>)\<rparr>)))"

definition HasStatusPreservationProof :: "string \<Rightarrow> tables \<Rightarrow> bool" where
  "HasStatusPreservationProof run db \<longleftrightarrow> list_ex (\<lambda>row. pr_run_id row = run \<and> \<not> pr_retired row \<and>
     cp_StrictCertificate (pr_pub row) \<noteq> None \<and> cp_LastState (pr_pub row) = ''success'') (tb_publications db)"

definition ReleaseShutdownForRecovery :: "string \<Rightarrow> tables \<Rightarrow> tables option" where
  "ReleaseShutdownForRecovery run db =
     (case GetRun run db of
        None \<Rightarrow> None
      | Some r \<Rightarrow> if RunStatus_Terminal (rn_Status r) then Some db
          else Some (invalidateStatusValidation run (db\<lparr>tb_shutdowns := (tb_shutdowns db)(run := None)\<rparr>)))"

definition daemonCrashed :: string where "daemonCrashed = ''daemon crashed during execution''"

text \<open>The run left by another instance of the daemon is failed; the result says whether it was.\<close>

definition ReconcileRecoveredRun :: "int \<Rightarrow> string \<Rightarrow> string \<Rightarrow> tables \<Rightarrow> (bool \<times> tables) option" where
  "ReconcileRecoveredRun ts run inst db =
     (case GetRun run db of
        None \<Rightarrow> None
      | Some r \<Rightarrow>
          if RunStatus_Terminal (rn_Status r) then Some (False, db)
          else let obsolete = (case tb_shutdowns db run of None \<Rightarrow> False | Some b \<Rightarrow> sh_Instance b \<noteq> inst);
                   db1 = invalidateStatusValidation run db in
            if \<not> obsolete then Some (False, db1)
            else Some (True, steps_update (\<lambda>s. sp_RunID s = run \<and> executing (sp_Status s))
              (\<lambda>s. s\<lparr>sp_Status := StepStatusFailed, sp_Error := Some daemonCrashed, sp_CompletedAt := Some ts\<rparr>)
              (runs_update (\<lambda>r. rn_ID r = run) (\<lambda>r. (with_status RunFailed r)\<lparr>rn_Error := Some daemonCrashed,
                 rn_PushActive := False, rn_TerminalHeadVerifiedAt := None, rn_AwaitingAgentSince := None, rn_UpdatedAt := ts\<rparr>)
                 (db1\<lparr>tb_shutdowns := (tb_shutdowns db1)(run := None)\<rparr>))))"

section \<open>What a certificate proves\<close>

definition core_names :: "(StepResult \<times> StepProof option) list \<Rightarrow> StepName list" where
  "core_names rows = filter core_proof_step (map (\<lambda>sv. sp_StepName (fst sv)) rows)"

definition certified_row :: "string \<Rightarrow> int \<Rightarrow> string \<Rightarrow> StepResult \<Rightarrow> StepProof option \<Rightarrow> bool" where
  "certified_row head epoch cfg s v \<longleftrightarrow>
     (core_proof_step (sp_StepName s) \<or> IsCustomGate (sp_StepName s) \<longrightarrow>
        row_proved head epoch cfg s v \<and> (sp_StepName s = StepTest \<longrightarrow> test_row_gap head s \<noteq> None))"

lemma StepTest_core [simp]: "core_proof_step StepTest"
  by (simp add: core_proof_step_def)

lemma collect_proof_iff:
  "(\<exists>proof. collect_proof head epoch cfg rows seen acc = Some (seen', proof)) \<longleftrightarrow>
    (\<forall>(s, v) \<in> set rows. certified_row head epoch cfg s v) \<and> seen' = rev (core_names rows) @ seen \<and>
    distinct (core_names rows) \<and> set (core_names rows) \<inter> set seen = {}"
proof (induction rows arbitrary: seen acc)
  case (Cons sv rows)
  obtain s v where sv: "sv = (s, v)" by (cases sv)
  note IH = Cons.IH
  show ?case
  proof (cases "core_proof_step (sp_StepName s) \<or> IsCustomGate (sp_StepName s)")
    case False
    then show ?thesis unfolding sv using IH by (simp add: core_names_def certified_row_def)
  next
    case rel: True
    show ?thesis
    proof (cases "row_proved head epoch cfg s v \<and> (sp_StepName s = StepTest \<longrightarrow> test_row_gap head s \<noteq> None)")
      case False
      then show ?thesis unfolding sv using rel by (auto simp: core_names_def certified_row_def Let_def split: option.splits)
    next
      case True
      then have c: "certified_row head epoch cfg s v" by (simp add: certified_row_def)
      show ?thesis
      proof (cases "core_proof_step (sp_StepName s)")
        case False
        then have "sp_StepName s \<noteq> StepTest" by auto
        then show ?thesis unfolding sv using rel True False c IH by (simp add: core_names_def Let_def)
      next
        case core: True
        show ?thesis
        proof (cases "sp_StepName s \<in> set seen")
          case True
          then show ?thesis unfolding sv using core by (simp add: core_names_def Let_def)
        next
          case fresh: False
          obtain acc' where "collect_proof head epoch cfg ((s, v) # rows) seen acc =
              collect_proof head epoch cfg rows (sp_StepName s # seen) acc'"
            using core fresh True by (cases "sp_StepName s = StepTest") (auto simp: Let_def)
          then show ?thesis unfolding sv using core fresh c by (auto simp: IH core_names_def)
        qed
      qed
    qed
  qed
qed (auto simp: core_names_def)

text \<open>Four distinct core names are the four core steps, each once.\<close>

definition core_steps :: "StepName list" where "core_steps = [StepReview, StepTest, StepDocument, StepLint]"

lemma core_steps: "distinct core_steps" "set core_steps = {s. core_proof_step s}"
  by (auto simp: core_steps_def core_proof_step_def step_name_defs)

lemma all_once_iff:
  assumes "distinct ys" "set xs \<subseteq> set ys"
  shows "distinct xs \<and> length xs = length ys \<longleftrightarrow> (\<forall>y \<in> set ys. count (mset xs) y = 1)"
proof
  assume d: "distinct xs \<and> length xs = length ys"
  then have "card (set xs) = card (set ys)" using assms(1) by (simp add: distinct_card)
  then have "set xs = set ys" using assms(2) by (simp add: card_subset_eq)
  then show "\<forall>y \<in> set ys. count (mset xs) y = 1" using d by (simp add: distinct_count_atmost_1)
next
  assume once: "\<forall>y \<in> set ys. count (mset xs) y = 1"
  then have eq: "set xs = set ys" using assms(2) by (metis count_greater_zero_iff set_mset_mset subsetI subset_antisym zero_less_one)
  then have "count (mset xs) a = (if a \<in> set xs then 1 else 0)" for a
    using once by (simp add: not_in_iff [symmetric])
  then have "distinct xs" by (simp add: distinct_count_atmost_1)
  then show "distinct xs \<and> length xs = length ys" using eq assms(1) by (metis distinct_card)
qed

lemma mset_core_names: "mset (core_names (proof_rows run db)) =
    filter_mset core_proof_step (image_mset sp_StepName (filter_mset (\<lambda>s. sp_RunID s = run) (mset (tb_steps db))))"
  by (simp add: core_names_def proof_rows_def GetStepsByRun_def comp_def)

lemma count_core_names:
  "core_proof_step n \<Longrightarrow> count (mset (core_names (proof_rows run db))) n =
    affected (\<lambda>s. sp_RunID s = run \<and> sp_StepName s = n) (tb_steps db)"
  unfolding mset_core_names affected_def by (rule list.induct [of _ "tb_steps db"]) simp_all


text \<open>The Test row as the certificate reads it, and what it must say of the head.\<close>

definition certified_test_row :: "StepResult \<Rightarrow> StepResult" where
  "certified_test_row s = zero_step\<lparr>sp_StepName := sp_StepName s, sp_Status := StepStatusCompleted,
     sp_ExitCode := sp_ExitCode s, sp_FindingsJSON := sp_FindingsJSON s, sp_AcceptedGapsJSON := sp_AcceptedGapsJSON s\<rparr>"

definition tested_row :: "string \<Rightarrow> StepResult \<Rightarrow> bool" where
  "tested_row head s \<longleftrightarrow> (\<exists>raw fs. sp_FindingsJSON s = Some raw \<and> ParseFindingsJSON raw = Some fs \<and>
     fs_TestedHeadSHA fs = head \<and>
     (\<not> (fs_Verdict fs = TestVerdictNoGo \<or> fs_Verdict fs = TestVerdictInconclusive \<or>
         (\<exists>x \<in> set (items fs). f_ID x = FindingIDTestAgentTimeout)) \<or>
      ValidAcceptedGaps (certified_test_row s) \<noteq> None))"

lemma test_row_gap_iff:
  assumes "sp_StepName s = StepTest" "sp_FindingsJSON s = Some raw" "ParseFindingsJSON raw = Some fs"
  shows "test_row_gap head s \<noteq> None \<longleftrightarrow> fs_TestedHeadSHA fs = head \<and>
    (\<not> (fs_Verdict fs = TestVerdictNoGo \<or> fs_Verdict fs = TestVerdictInconclusive \<or>
        (\<exists>x \<in> set (items fs). f_ID x = FindingIDTestAgentTimeout)) \<or>
     ValidAcceptedGaps (certified_test_row s) \<noteq> None)"
proof -
  have row: "sp_StepName (certified_test_row s) = StepTest" "sp_Status (certified_test_row s) = StepStatusCompleted"
    "sp_FindingsJSON (certified_test_row s) = Some raw" "sp_OverrideReason (certified_test_row s) = None"
    "sp_ApprovalReason (certified_test_row s) = None"
    using assms by (simp_all add: certified_test_row_def zero_step_def)
  have "test_row_gap head s = (if fs_TestedHeadSHA fs \<noteq> head then None
      else if TestOverrideReason (certified_test_row s) \<noteq> []
      then (if ValidAcceptedGaps (certified_test_row s) = None then None else Some (sp_AcceptedGapsJSON s)) else Some None)"
    using assms by (simp add: test_row_gap_def certified_test_row_def Let_def)
  moreover have "testExceptionCondition (certified_test_row s) \<noteq> [] \<longleftrightarrow> fs_Verdict fs = TestVerdictNoGo \<or>
      fs_Verdict fs = TestVerdictInconclusive \<or> (\<exists>x \<in> set (items fs). f_ID x = FindingIDTestAgentTimeout)"
    using row assms(3) by (simp add: testExceptionCondition_def deref_def TrimSpace_Nil)
  ultimately show ?thesis
    using row by (auto simp: TestOverrideReason_def Let_def split: option.splits)
qed

lemma certified_row_iff:
  "certified_row head epoch cfg s v \<longleftrightarrow>
    (core_proof_step (sp_StepName s) \<or> IsCustomGate (sp_StepName s) \<longrightarrow>
       sp_Status s = StepStatusCompleted \<and> sp_ExitCode s = Some 0 \<and> sp_OverrideReason s = None \<and>
       sp_ApprovalReason s = None \<and> gate_findings_clean s \<and>
       v = Some \<lparr> pf_head_sha = head, pf_epoch = epoch, pf_config_digest = cfg \<rparr>) \<and>
    (sp_StepName s = StepTest \<longrightarrow> tested_row head s)"
proof (cases "sp_StepName s = StepTest")
  case True
  have "test_row_gap head s \<noteq> None \<longleftrightarrow> tested_row head s"
  proof (cases "\<exists>raw fs. sp_FindingsJSON s = Some raw \<and> ParseFindingsJSON raw = Some fs")
    case False
    then show ?thesis by (auto simp: test_row_gap_def tested_row_def split: option.splits)
  next
    case hit: True
    then obtain raw fs where p: "sp_FindingsJSON s = Some raw" "ParseFindingsJSON raw = Some fs" by blast
    then show ?thesis using test_row_gap_iff [OF True p, of head] by (simp add: tested_row_def)
  qed
  then show ?thesis using True by (auto simp: certified_row_def row_proved_def)
qed (auto simp: certified_row_def row_proved_def)

lemma proof_rows_all:
  "(\<forall>(s, v) \<in> set (proof_rows run db). P s v) \<longleftrightarrow> (\<forall>s \<in> set (tb_steps db). sp_RunID s = run \<longrightarrow> P s (tb_proofs db (sp_ID s)))"
  by (auto simp: proof_rows_def GetStepsByRun_def)

lemma certificate_core:
  "(\<exists>c. buildStatusCertificate run head cfg db = Inr (Some c)) \<longleftrightarrow>
    \<not> rawShutdownSuperseded run db \<and> cfg \<noteq> [] \<and>
    (\<exists>r. GetRun run db = Some r \<and> rn_PushGeneration r \<noteq> None \<and>
       rn_ReviewApprovedHeadSHA r = Some head \<and> rn_LastPushedSHA r = Some head) \<and>
    (\<forall>n \<in> {StepReview, StepTest, StepDocument, StepLint}.
       affected (\<lambda>s. sp_RunID s = run \<and> sp_StepName s = n) (tb_steps db) = 1) \<and>
    (\<forall>s \<in> set (tb_steps db). sp_RunID s = run \<longrightarrow>
       certified_row head (StatusValidationEpoch run db) cfg s (tb_proofs db (sp_ID s)))"
proof -
  let ?rows = "proof_rows run db" and ?e = "StatusValidationEpoch run db"
  have core: "core_proof_step n \<longleftrightarrow> n \<in> {StepReview, StepTest, StepDocument, StepLint}" for n
    by (auto simp: core_proof_step_def)
  have once: "distinct (core_names ?rows) \<and> length (core_names ?rows) = 4 \<longleftrightarrow>
      (\<forall>n \<in> {StepReview, StepTest, StepDocument, StepLint}.
        affected (\<lambda>s. sp_RunID s = run \<and> sp_StepName s = n) (tb_steps db) = 1)"
  proof -
    have sub: "set (core_names ?rows) \<subseteq> set core_steps" by (auto simp: core_names_def core_steps(2))
    have "set core_steps = {StepReview, StepTest, StepDocument, StepLint}" "length core_steps = 4"
      by (simp_all add: core_steps_def)
    then have "distinct (core_names ?rows) \<and> length (core_names ?rows) = 4 \<longleftrightarrow>
        (\<forall>n \<in> {StepReview, StepTest, StepDocument, StepLint}. count (mset (core_names ?rows)) n = 1)"
      using all_once_iff [OF core_steps(1) sub] by simp
    also have "\<dots> \<longleftrightarrow> (\<forall>n \<in> {StepReview, StepTest, StepDocument, StepLint}.
        affected (\<lambda>s. sp_RunID s = run \<and> sp_StepName s = n) (tb_steps db) = 1)"
      by (rule ball_cong [OF refl]) (simp add: count_core_names core)
    finally show ?thesis .
  qed
  have "(\<exists>seen. (\<exists>proof. collect_proof head ?e cfg ?rows [] [] = Some (seen, proof)) \<and> length seen = 4) \<longleftrightarrow>
      (\<forall>(s, v) \<in> set ?rows. certified_row head ?e cfg s v) \<and>
      distinct (core_names ?rows) \<and> length (core_names ?rows) = 4"
    unfolding collect_proof_iff by auto
  moreover have "(\<exists>c. buildStatusCertificate run head cfg db = Inr (Some c)) \<longleftrightarrow>
      \<not> rawShutdownSuperseded run db \<and> cfg \<noteq> [] \<and>
      (\<exists>r. GetRun run db = Some r \<and> rn_PushGeneration r \<noteq> None \<and>
         rn_ReviewApprovedHeadSHA r = Some head \<and> rn_LastPushedSHA r = Some head) \<and>
      (\<exists>seen. (\<exists>proof. collect_proof head ?e cfg ?rows [] [] = Some (seen, proof)) \<and> length seen = 4)"
    by (auto simp: buildStatusCertificate_def Let_def split: option.splits if_splits)
  ultimately show ?thesis
    by (simp add: once proof_rows_all) blast
qed

text \<open>C17. A run is certified exactly when its rows prove the head: it is not superseded by a raw shutdown,
  the head is the one Review approved and the one last pushed, each of Review, Test, Document and Lint
  has exactly one row, and each of these rows and of the custom gates completed with exit code 0, no
  override and no approval, without error findings of a gate, with an execution proof of this head, the
  current epoch and this configuration, Test having tested the head itself with a live verdict or under
  a valid accepted gap. A certificate is never built from less and never withheld beyond that.\<close>

theorem status_certificate_exact:
  "(\<exists>c. buildStatusCertificate run head cfg db = Inr (Some c)) \<longleftrightarrow>
    \<not> rawShutdownSuperseded run db \<and> cfg \<noteq> [] \<and>
    (\<exists>r. GetRun run db = Some r \<and> rn_PushGeneration r \<noteq> None \<and>
       rn_ReviewApprovedHeadSHA r = Some head \<and> rn_LastPushedSHA r = Some head) \<and>
    (\<forall>n \<in> {StepReview, StepTest, StepDocument, StepLint}.
       affected (\<lambda>s. sp_RunID s = run \<and> sp_StepName s = n) (tb_steps db) = 1) \<and>
    (\<forall>s \<in> set (tb_steps db). sp_RunID s = run \<longrightarrow>
       (sp_StepName s \<in> {StepReview, StepTest, StepDocument, StepLint} \<or> IsCustomGate (sp_StepName s) \<longrightarrow>
          sp_Status s = StepStatusCompleted \<and> sp_ExitCode s = Some 0 \<and> sp_OverrideReason s = None \<and>
          sp_ApprovalReason s = None \<and> gate_findings_clean s \<and>
          tb_proofs db (sp_ID s) =
            Some \<lparr> pf_head_sha = head, pf_epoch = StatusValidationEpoch run db, pf_config_digest = cfg \<rparr>) \<and>
       (sp_StepName s = StepTest \<longrightarrow> tested_row head s))"
  unfolding certificate_core certified_row_iff core_proof_step_def by (simp add: disj_assoc)

section \<open>A new round of work revokes the proof\<close>

lemma no_certificate:
  assumes "\<And>s. s \<in> set (tb_steps db) \<Longrightarrow> sp_RunID s = run \<Longrightarrow> tb_proofs db (sp_ID s) = None"
  shows "buildStatusCertificate run head cfg db \<noteq> Inr (Some c)"
proof
  assume "buildStatusCertificate run head cfg db = Inr (Some c)"
  then have c: "affected (\<lambda>s. sp_RunID s = run \<and> sp_StepName s = StepReview) (tb_steps db) = 1"
    "\<forall>s \<in> set (tb_steps db). sp_RunID s = run \<longrightarrow>
       certified_row head (StatusValidationEpoch run db) cfg s (tb_proofs db (sp_ID s))"
    using certificate_core [of run head cfg db] by auto
  then obtain s where s: "s \<in> set (tb_steps db)" "sp_RunID s = run" "sp_StepName s = StepReview"
    using affected_pos [of "\<lambda>s. sp_RunID s = run \<and> sp_StepName s = StepReview" "tb_steps db"] by auto
  then have "core_proof_step (sp_StepName s)" by (simp add: core_proof_step_def)
  then show False using c(2) s assms by (auto simp: certified_row_def row_proved_def)
qed

lemma steps_of_list: "steps_of run db = set (map sp_ID (filter (\<lambda>s. sp_RunID s = run) (tb_steps db)))"
  by (simp add: steps_of_def)

lemma steps_of_update:
  assumes "tb_steps db' = sql_update p f (tb_steps db)" "\<And>s. sp_ID (f s) = sp_ID s" "\<And>s. sp_RunID (f s) = sp_RunID s"
  shows "steps_of run db' = steps_of run db"
proof -
  have "map sp_ID (filter (\<lambda>s. sp_RunID s = run) (sql_update p f rows)) = map sp_ID (filter (\<lambda>s. sp_RunID s = run) rows)" for rows
    using assms(2,3) by (induction rows) simp_all
  then show ?thesis by (simp add: steps_of_list assms(1) del: set_map)
qed

lemma steps_of_invalidate [simp]: "steps_of run (invalidateStatusValidation i db) = steps_of run db"
  by (simp add: steps_of_def)

text \<open>Nothing proves the run any more, and a proof still in flight with the old epoch is not recorded.\<close>

definition proof_revoked :: "string \<Rightarrow> int \<Rightarrow> tables \<Rightarrow> bool" where
  "proof_revoked run epoch db \<longleftrightarrow>
     (\<forall>head cfg c. buildStatusCertificate run head cfg db \<noteq> Inr (Some c)) \<and>
     \<not> HasStatusPreservationProof run db \<and> \<not> preserved_success run db \<and>
     (\<forall>i head cfg. RecordStatusValidationStep i run head cfg epoch db = db)"

lemma proof_revokedI:
  assumes "StatusValidationEpoch run db \<noteq> epoch"
    and "\<And>i. i \<in> steps_of run db \<Longrightarrow> tb_proofs db i = None"
    and "\<And>p. p \<in> set (tb_publications db) \<Longrightarrow> pr_run_id p = run \<Longrightarrow> cp_StrictCertificate (pr_pub p) = None"
  shows "proof_revoked run epoch db"
proof -
  have "tb_proofs db (sp_ID s) = None" if "s \<in> set (tb_steps db)" "sp_RunID s = run" for s
    using assms(2) [of "sp_ID s"] that by (simp add: steps_of_def)
  then have "\<forall>head cfg c. buildStatusCertificate run head cfg db \<noteq> Inr (Some c)" using no_certificate by blast
  moreover have "\<not> HasStatusPreservationProof run db" "\<not> preserved_success run db"
    using assms(3) by (auto simp: HasStatusPreservationProof_def preserved_success_def preserved_row_def list_ex_iff)
  moreover have "\<forall>i head cfg. RecordStatusValidationStep i run head cfg epoch db = db"
    using assms(1) by (simp add: RecordStatusValidationStep_def)
  ultimately show ?thesis by (simp add: proof_revoked_def)
qed

lemma without_proof_simps [simp]:
  "pr_run_id (without_proof p) = pr_run_id p" "pr_retired (without_proof p) = pr_retired p"
  "cp_StrictCertificate (pr_pub (without_proof p)) = None" "cp_PreserveSuccess (pr_pub (without_proof p)) = None"
  by (simp_all add: without_proof_def)

lemma invalidated_publications:
  assumes "p \<in> set (tb_publications (invalidateStatusValidation run db))" "pr_run_id p = run"
  shows "cp_StrictCertificate (pr_pub p) = None"
proof -
  from assms(1) have "p \<in> set (sql_update (\<lambda>p. pr_run_id p = run) without_proof (tb_publications db))"
    by (simp add: invalidateStatusValidation_def)
  then show ?thesis using assms(2) by (cases rule: sql_updateE) simp_all
qed

lemma invalidated_revoked:
  assumes "tb_epochs db' = tb_epochs (invalidateStatusValidation run db)"
    and "tb_proofs db' = tb_proofs (invalidateStatusValidation run db)" "steps_of run db' = steps_of run db"
    and "tb_publications db' = tb_publications (invalidateStatusValidation run db)"
  shows "proof_revoked run (StatusValidationEpoch run db) db'"
proof (rule proof_revokedI)
  have "StatusValidationEpoch run db' = StatusValidationEpoch run (invalidateStatusValidation run db)"
    using assms(1) by (simp add: StatusValidationEpoch_def)
  then show "StatusValidationEpoch run db' \<noteq> StatusValidationEpoch run db" by (simp add: epochs_after_invalidate)
  show "tb_proofs db' i = None" if "i \<in> steps_of run db'" for i
    using that assms(2,3) by (simp add: invalidateStatusValidation_def)
  show "cp_StrictCertificate (pr_pub p) = None" if "p \<in> set (tb_publications db')" "pr_run_id p = run" for p
    using that assms(4) invalidated_publications by metis
qed

lemma reset_statement:
  assumes "n \<le> int (Order StepLint)"
  shows "tb_epochs (ResetStepsFrom run n db) = tb_epochs (invalidateStatusValidation run db)"
    "tb_proofs (ResetStepsFrom run n db) = tb_proofs (invalidateStatusValidation run db)"
    "tb_publications (ResetStepsFrom run n db) = tb_publications (invalidateStatusValidation run db)"
  using assms by (simp_all add: ResetStepsFrom_def Let_def clear_strict_ready_def)

lemma steps_of_reset: "steps_of run' (ResetStepsFrom run n db) = steps_of run' db"
proof -
  have "tb_steps (ResetStepsFrom run n db) = sql_update
      (\<lambda>r. sp_RunID r = run \<and> sp_StepOrder r \<ge> n \<and> sp_Status r \<noteq> StepStatusSkipped) reset_step (tb_steps db)"
    by (simp add: ResetStepsFrom_def Let_def clear_strict_ready_def)
  then show ?thesis by (rule steps_of_update) (simp_all add: reset_step_def)
qed

text \<open>Validation is earned again after every new round of work: when a step starts a fix round, or a run is
  rewound to a step up to Lint, no head of the run can be certified, no publication keeps a proof to
  preserve, and an execution proof of the earlier epoch that was still in flight is not recorded.\<close>

theorem new_work_revokes_proof:
  "(StartStepFixRound ts i limit db = Some db1 \<longrightarrow>
     (\<exists>row. GetStepResult i db = Some row \<and> proof_revoked (sp_RunID row) (StatusValidationEpoch (sp_RunID row) db) db1)) \<and>
   (n \<le> int (Order StepLint) \<longrightarrow>
     proof_revoked run (StatusValidationEpoch run db) (ResetStepsFrom run n db))"
proof (intro conjI impI)
  define f :: "StepResult \<Rightarrow> StepResult" where "f = (\<lambda>r. r\<lparr>sp_Status := StepStatusFixing, sp_RoundStartedAt := Some ts,
    sp_LastActivityAt := Some ts, sp_LastActivity := Some (status_activity StepStatusFixing),
    sp_AutoFixLimit := autoFixLimitDBValue limit, sp_OverrideReason := None, sp_ApprovalReason := None,
    sp_AcceptedGapsJSON := None\<rparr>)"
  assume "StartStepFixRound ts i limit db = Some db1"
  then obtain row where row: "GetStepResult i db = Some row"
    and db1: "db1 = steps_update (\<lambda>r. sp_ID r = i) f (invalidateStatusValidation (sp_RunID row) db)"
    by (auto simp: StartStepFixRound_def f_def split: option.splits)
  have "steps_of (sp_RunID row) db1 = steps_of (sp_RunID row) db"
    by (rule steps_of_update [where f = f]) (simp_all add: db1, simp_all add: f_def)
  then have "proof_revoked (sp_RunID row) (StatusValidationEpoch (sp_RunID row) db) db1"
    by (intro invalidated_revoked) (simp_all add: db1)
  then show "\<exists>row. GetStepResult i db = Some row \<and>
      proof_revoked (sp_RunID row) (StatusValidationEpoch (sp_RunID row) db) db1" using row by blast
next
  assume "n \<le> int (Order StepLint)"
  then show "proof_revoked run (StatusValidationEpoch run db) (ResetStepsFrom run n db)"
    by (intro invalidated_revoked) (simp_all add: reset_statement steps_of_reset)
qed

section \<open>A raw shutdown is final\<close>

text \<open>
  The statements that touch publications or the records of shutdowns; every other statement leaves both
  tables alone. A planned shutdown carries another reason than the raw one.
\<close>

inductive status_step :: "tables \<Rightarrow> tables \<Rightarrow> bool" where
  other: "tb_publications db' = tb_publications db \<Longrightarrow> tb_shutdowns db' = tb_shutdowns db \<Longrightarrow> status_step db db'"
| invalidate: "status_step db (invalidateStatusValidation run db)"
| revoke: "status_step db (RevokeStatusCertificate run p db)"
| put: "putCommitStatusPublication run p confirm db = Inr (current, db') \<Longrightarrow> status_step db db'"
| watcher: "TerminalizeCertifiedWatcher ts run msg head cfg status binding db = Some db' \<Longrightarrow> status_step db db'"
| prepare: "sh_Reason b \<noteq> RawShutdownReason \<Longrightarrow> PrepareControlledShutdown runs b db = Some db' \<Longrightarrow> status_step db db'"
| ineligible: "RecordIneligibleTerminal ts run msg status head' db = Some db' \<Longrightarrow> status_step db db'"
| supersede: "SupersedeUncommittedCancellations runs inst db = Some db' \<Longrightarrow> status_step db db'"
| release: "ReleaseShutdownForRecovery run db = Some db' \<Longrightarrow> status_step db db'"
| reconcile: "ReconcileRecoveredRun ts run inst db = Some (failed, db') \<Longrightarrow> status_step db db'"

text \<open>The invariant: a run under a raw shutdown has no publication with a certificate.\<close>

definition raw_ok :: "tables \<Rightarrow> bool" where
  "raw_ok db \<longleftrightarrow> (\<forall>p \<in> set (tb_publications db). rawShutdownSuperseded (pr_run_id p) db \<longrightarrow>
     cp_StrictCertificate (pr_pub p) = None)"

lemma raw_cong: "tb_shutdowns db' = tb_shutdowns db \<Longrightarrow> rawShutdownSuperseded run db' = rawShutdownSuperseded run db"
  by (simp add: rawShutdownSuperseded_def)

lemma raw_ok_cong: "tb_shutdowns db' = tb_shutdowns db \<Longrightarrow> tb_publications db' = tb_publications db \<Longrightarrow> raw_ok db' = raw_ok db"
  by (simp add: raw_ok_def raw_cong [of db' db])

lemma raw_ok_rows [simp]:
  "raw_ok (db\<lparr>tb_runs := rows\<rparr>) = raw_ok db" "raw_ok (db\<lparr>tb_steps := srows\<rparr>) = raw_ok db"
  by (rule raw_ok_cong; simp)+

text \<open>Enough for a step: a run newly under a raw shutdown, or a publication with a new certificate, is checked.\<close>

lemma raw_okI:
  assumes "raw_ok db"
    and "\<And>p. p \<in> set (tb_publications db') \<Longrightarrow> cp_StrictCertificate (pr_pub p) \<noteq> None \<Longrightarrow>
      rawShutdownSuperseded (pr_run_id p) db' \<Longrightarrow>
      \<exists>q \<in> set (tb_publications db). pr_run_id q = pr_run_id p \<and> cp_StrictCertificate (pr_pub q) \<noteq> None \<and>
        rawShutdownSuperseded (pr_run_id p) db"
  shows "raw_ok db'"
  using assms unfolding raw_ok_def by (metis option.distinct(1))

lemma raw_ok_publications:
  assumes "raw_ok db" "tb_shutdowns db' = tb_shutdowns db" "tb_publications db' = sql_update q f (tb_publications db)"
    and "\<And>p. pr_run_id (f p) = pr_run_id p"
    and "\<And>p. cp_StrictCertificate (pr_pub (f p)) = None \<or> cp_StrictCertificate (pr_pub (f p)) = cp_StrictCertificate (pr_pub p)"
  shows "raw_ok db'"
proof (rule raw_okI [OF assms(1)])
  fix p assume p: "p \<in> set (tb_publications db')" "cp_StrictCertificate (pr_pub p) \<noteq> None"
    "rawShutdownSuperseded (pr_run_id p) db'"
  have raw: "rawShutdownSuperseded (pr_run_id p) db" using p(3) raw_cong [OF assms(2)] by simp
  from p(1) have "p \<in> set (sql_update q f (tb_publications db))" by (simp add: assms(3))
  then show "\<exists>q \<in> set (tb_publications db). pr_run_id q = pr_run_id p \<and> cp_StrictCertificate (pr_pub q) \<noteq> None \<and>
      rawShutdownSuperseded (pr_run_id p) db"
  proof (cases rule: sql_updateE)
    case (changed r)
    then show ?thesis using p(2) raw assms(4) [of r] assms(5) [of r] by (intro bexI [of _ r]) auto
  next
    case kept
    then show ?thesis using p(2) raw by blast
  qed
qed

lemma raw_ok_unproved: "raw_ok db \<Longrightarrow> raw_ok (unproved run db)"
  by (rule raw_ok_publications [where f = without_proof]) (simp_all add: unproved_def)

lemma raw_ok_invalidate:
  assumes "raw_ok (db\<lparr>tb_shutdowns := (tb_shutdowns db)(run := None)\<rparr>)"
  shows "raw_ok (invalidateStatusValidation run (db\<lparr>tb_shutdowns := (tb_shutdowns db)(run := b)\<rparr>))"
proof -
  let ?db = "invalidateStatusValidation run (db\<lparr>tb_shutdowns := (tb_shutdowns db)(run := b)\<rparr>)"
  have "cp_StrictCertificate (pr_pub p) = None"
    if p: "p \<in> set (tb_publications ?db)" "rawShutdownSuperseded (pr_run_id p) ?db" for p
  proof (cases "pr_run_id p = run")
    case True
    then show ?thesis using p(1) by (rule invalidated_publications [rotated])
  next
    case False
    have "p \<in> set (sql_update (\<lambda>p. pr_run_id p = run) without_proof (tb_publications db))"
      using p(1) by (simp add: invalidateStatusValidation_def)
    then have "p \<in> set (tb_publications db)" using False by (cases rule: sql_updateE) auto
    moreover have "rawShutdownSuperseded (pr_run_id p) (db\<lparr>tb_shutdowns := (tb_shutdowns db)(run := None)\<rparr>)"
      using p(2) False by (simp add: rawShutdownSuperseded_def invalidateStatusValidation_def)
    ultimately show ?thesis using assms by (simp add: raw_ok_def)
  qed
  then show ?thesis by (simp add: raw_ok_def)
qed

lemma raw_ok_forget: "raw_ok db \<Longrightarrow> raw_ok (db\<lparr>tb_shutdowns := (tb_shutdowns db)(run := None)\<rparr>)"
  by (auto simp: raw_ok_def rawShutdownSuperseded_def)

lemma raw_ok_invalidate_only: "raw_ok db \<Longrightarrow> raw_ok (invalidateStatusValidation run db)"
  using raw_ok_invalidate [of db run "tb_shutdowns db run"] raw_ok_forget [of db run] by simp

lemma raw_ok_supersede:
  "raw_ok db \<Longrightarrow> SupersedeUncommittedCancellations runs inst db = Some db' \<Longrightarrow> raw_ok db'"
proof (induction runs inst db rule: SupersedeUncommittedCancellations.induct)
  case (2 run runs inst db)
  then show ?case using raw_ok_invalidate [OF raw_ok_forget [OF 2(3)], of run]
    by (auto split: option.splits if_splits)
qed simp

lemma raw_ok_prepare:
  "raw_ok db \<Longrightarrow> sh_Reason b \<noteq> RawShutdownReason \<Longrightarrow> bind_shutdowns runs b db = Some db' \<Longrightarrow> raw_ok db'"
proof (induction runs b db rule: bind_shutdowns.induct)
  case (2 run runs b db)
  have "raw_ok (db\<lparr>tb_shutdowns := (tb_shutdowns db)(run \<mapsto> b)\<rparr>)"
    using 2(2,3) by (auto simp: raw_ok_def rawShutdownSuperseded_def)
  then show ?case using 2 by (auto split: if_splits)
qed simp

lemma raw_ok_watcher:
  assumes "raw_ok db" "TerminalizeCertifiedWatcher ts run msg head cfg status binding db = Some db'"
  shows "raw_ok db'"
proof -
  let ?kept = "\<lambda>c. db\<lparr>tb_publications := sql_update (preserve_row run head c)
    (\<lambda>p. p\<lparr>pr_pub := (pr_pub p)\<lparr>cp_PreserveSuccess := Some True\<rparr>\<rparr>) (tb_publications db)\<rparr>"
  have "raw_ok (?kept c)" for c
    by (rule raw_ok_publications [OF assms(1), where f = "\<lambda>p. p\<lparr>pr_pub := (pr_pub p)\<lparr>cp_PreserveSuccess := Some True\<rparr>\<rparr>"]) simp_all
  then have "raw_ok (case w of Some c \<Rightarrow> ?kept c | None \<Rightarrow> unproved run db)" for w
    using raw_ok_unproved [OF assms(1)] by (simp split: option.split)
  moreover obtain w where "db' = db \<or> (\<exists>f. db' = runs_update (\<lambda>r. rn_ID r = run) f
      (case w of Some c \<Rightarrow> ?kept c | None \<Rightarrow> unproved run db))"
    using assms(2) by (cases "GetRun run db"; cases "buildStatusCertificate run head cfg db")
      (auto simp: TerminalizeCertifiedWatcher_def Let_def split: if_splits)
  ultimately show ?thesis using assms(1) by auto
qed

text \<open>The publications after a write: rows of before, or the row of the caller, checked.\<close>

definition put_source :: "string \<Rightarrow> tables \<Rightarrow> PublicationRow \<Rightarrow> bool" where
  "put_source run db p \<longleftrightarrow>
     cp_StrictCertificate (pr_pub p) = None \<or> pr_run_id p = run \<and> \<not> rawShutdownSuperseded run db \<or>
     (\<exists>q \<in> set (tb_publications db). pr_run_id q = pr_run_id p \<and> cp_StrictCertificate (pr_pub q) = cp_StrictCertificate (pr_pub p))"

lemma checked_certificate_spec:
  "checked_certificate run p db = Inr p' \<Longrightarrow> cp_StrictCertificate p = None \<Longrightarrow> cp_StrictCertificate p' = None"
  by (simp add: checked_certificate_def)

lemma upsert_source:
  assumes "x \<in> set (upsert_publication run confirm p (tb_publications db))"
    and "cp_StrictCertificate p = None \<or> \<not> rawShutdownSuperseded run db"
  shows "put_source run db x"
proof (cases "list_ex (at_publication run p) (tb_publications db)")
  case True
  then have "x \<in> set (sql_update (at_publication run p)
      (\<lambda>row. row\<lparr>pr_pub := merge_publication confirm p (pr_pub row)\<rparr>) (tb_publications db))"
    using assms(1) by (simp add: upsert_publication_def)
  then show ?thesis
  proof (cases rule: sql_updateE)
    case (changed r)
    then show ?thesis using assms(2) by (auto simp: put_source_def merge_publication_def at_publication_def)
  next
    case kept
    then show ?thesis by (auto simp: put_source_def)
  qed
next
  case False
  then show ?thesis using assms by (auto simp: upsert_publication_def put_source_def)
qed

lemma retire_source:
  assumes "x \<in> set (tb_publications (retire_older p db'))" "\<And>x. x \<in> set (tb_publications db') \<Longrightarrow> put_source run db x"
  shows "put_source run db x"
proof -
  have "x \<in> set (sql_update (\<lambda>row. pr_run_id row \<in> superseded_runs p db' \<and> same_target p (pr_pub row))
      (\<lambda>row. row\<lparr>pr_retired := True\<rparr>) (tb_publications db'))"
    using assms(1) by (simp add: retire_older_def Let_def)
  then show ?thesis
  proof (cases rule: sql_updateE)
    case (changed r)
    then show ?thesis using assms(2) [of r] by (simp add: put_source_def)
  qed (rule assms(2))
qed

lemma tb_drop_attempt [simp]:
  "tb_publications (drop_attempt confirm run db) = tb_publications db" "tb_shutdowns (drop_attempt confirm run db) = tb_shutdowns db"
  by (simp_all add: drop_attempt_def)

lemma tb_retire_older [simp]: "tb_shutdowns (retire_older p db) = tb_shutdowns db"
  by (simp add: retire_older_def Let_def)

lemma state_refused_raw:
  "state_refused run status p db = None \<Longrightarrow> rawShutdownSuperseded run db \<Longrightarrow>
    cp_StrictCertificate p = None \<and> (cp_LastState p = [] \<or> cp_LastState p = ''failure'')"
  by (auto simp: state_refused_def Let_def split: if_splits)

lemma put_sources:
  assumes "putCommitStatusPublication run p0 confirm db = Inr (current, db')"
  shows "tb_shutdowns db' = tb_shutdowns db \<and> (\<forall>x \<in> set (tb_publications db'). put_source run db x)"
proof -
  define p1 where "p1 = adoption_checked run p0 db"
  from assms obtain r where r: "GetRun run db = Some r"
    by (auto simp: putCommitStatusPublication_def Let_def split: option.splits)
  show ?thesis
  proof (cases "rn_Status r = RunCancelled \<and>
      list_ex (\<lambda>row. at_publication run p1 row \<and> \<not> pr_retired row \<and> preserved_row row) (tb_publications db)")
    case True
    then have "db' = drop_attempt confirm run db"
      using assms r by (simp add: putCommitStatusPublication_def Let_def p1_def)
    then show ?thesis by (auto simp: put_source_def)
  next
    case False
    have refused: "state_refused run (rn_Status r) p1 db = None"
      using assms r False by (cases "state_refused run (rn_Status r) p1 db")
        (simp_all add: putCommitStatusPublication_def Let_def p1_def [symmetric])
    then obtain p where checked: "checked_certificate run p1 db = Inr p"
      using assms r False by (cases "checked_certificate run p1 db")
        (simp_all add: putCommitStatusPublication_def Let_def p1_def [symmetric])
    have db': "db' = drop_attempt confirm run (retire_older p
        (db\<lparr>tb_publications := upsert_publication run confirm p (tb_publications db)\<rparr>))"
      using assms r False refused checked by (simp add: putCommitStatusPublication_def Let_def p1_def [symmetric])
    note ok = refused checked
    have "cp_StrictCertificate p = None \<or> \<not> rawShutdownSuperseded run db"
      using state_refused_raw [OF ok(1)] checked_certificate_spec [OF ok(2)] by blast
    then have "put_source run db x" if "x \<in> set (upsert_publication run confirm p (tb_publications db))" for x
      using that by (intro upsert_source) auto
    then have "put_source run db x" if "x \<in> set (tb_publications db')" for x
      using that retire_source [of x p "db\<lparr>tb_publications := upsert_publication run confirm p (tb_publications db)\<rparr>" run db]
      by (simp add: db')
    then show ?thesis by (simp add: db')
  qed
qed

lemma raw_ok_put:
  assumes "raw_ok db" "putCommitStatusPublication run p confirm db = Inr (current, db')"
  shows "raw_ok db'"
  unfolding raw_ok_def
proof (intro ballI impI)
  fix x assume x: "x \<in> set (tb_publications db')" "rawShutdownSuperseded (pr_run_id x) db'"
  have p: "tb_shutdowns db' = tb_shutdowns db" "put_source run db x" using put_sources [OF assms(2)] x(1) by auto
  then have "rawShutdownSuperseded (pr_run_id x) db" using raw_cong [OF p(1)] x(2) by simp
  note this p(2)
  then show "cp_StrictCertificate (pr_pub x) = None" using assms(1) unfolding put_source_def raw_ok_def by metis
qed

lemma status_step_raw_ok: "status_step db db' \<Longrightarrow> raw_ok db \<Longrightarrow> raw_ok db'"
proof (induction rule: status_step.induct)
  case (other db' db)
  then show ?case using raw_ok_cong by blast
next
  case (revoke db run p)
  show ?case
    by (rule raw_ok_publications [OF revoke, where f = without_proof
        and q = "\<lambda>row. at_publication run p row \<and> \<not> pr_retired row"]) (simp_all add: RevokeStatusCertificate_def)
next
  case (ineligible ts run msg status head' db db')
  then show ?case using raw_ok_unproved [of db run]
    by (cases "GetRun run db") (auto simp: RecordIneligibleTerminal_def closeExecutingSteps_def split: if_splits)
next
  case (release run db db')
  then have "db' = db \<or> db' = invalidateStatusValidation run (db\<lparr>tb_shutdowns := (tb_shutdowns db)(run := None)\<rparr>)"
    by (cases "GetRun run db") (auto simp: ReleaseShutdownForRecovery_def split: if_splits)
  then show ?case using release(2) raw_ok_invalidate [OF raw_ok_forget [OF release(2)]] by blast
next
  case (reconcile ts run inst db failed db')
  have "raw_ok ((invalidateStatusValidation run db)\<lparr>tb_shutdowns := (tb_shutdowns (invalidateStatusValidation run db))(run := None)\<rparr>)"
    using reconcile by (intro raw_ok_forget raw_ok_invalidate_only)
  then show ?case using reconcile raw_ok_invalidate_only [OF reconcile(2), of run]
    by (cases "GetRun run db") (auto simp: ReconcileRecoveredRun_def Let_def simp del: fun_upd_apply split: if_splits)
qed (auto simp: PrepareControlledShutdown_def split: if_splits
    intro: raw_ok_invalidate_only raw_ok_put raw_ok_watcher raw_ok_prepare raw_ok_supersede)

lemma reachable_raw_ok: "status_step\<^sup>*\<^sup>* no_tables db \<Longrightarrow> raw_ok db"
proof (induction rule: rtranclp_induct)
  case base
  then show ?case by (simp add: raw_ok_def no_tables_def)
qed (rule status_step_raw_ok)

text \<open>C18. A raw shutdown of the daemon is final for the proof of a run: in every state the statements of the
  database can reach, a run recorded under a raw shutdown holds no certificate and no success to
  preserve, no head of it can be certified, and every write of a publication that would promote it, by a
  certificate or by any state other than failure, is refused.\<close>

theorem raw_shutdown_final:
  assumes "status_step\<^sup>*\<^sup>* no_tables db" "rawShutdownSuperseded run db"
  shows "\<not> preserved_success run db \<and> \<not> HasStatusPreservationProof run db \<and>
    (\<forall>head cfg. buildStatusCertificate run head cfg db = Inr None) \<and>
    (\<forall>p confirm current db'. cp_StrictCertificate p \<noteq> None \<or> cp_LastState p \<notin> {[], ''failure''} \<longrightarrow>
       putCommitStatusPublication run p confirm db \<noteq> Inr (current, db'))"
proof (intro conjI allI impI)
  have none: "cp_StrictCertificate (pr_pub x) = None" if "x \<in> set (tb_publications db)" "pr_run_id x = run" for x
    using reachable_raw_ok [OF assms(1)] assms(2) that by (simp add: raw_ok_def)
  then show "\<not> preserved_success run db" "\<not> HasStatusPreservationProof run db"
    by (auto simp: preserved_success_def preserved_row_def HasStatusPreservationProof_def list_ex_iff)
  show "buildStatusCertificate run head cfg db = Inr None" for head cfg
    using assms(2) by (simp add: buildStatusCertificate_def)
  fix p :: CommitStatusPublication and confirm current db'
  assume p: "cp_StrictCertificate p \<noteq> None \<or> cp_LastState p \<notin> {[], ''failure''}"
  define q where "q = adoption_checked run p db"
  have q: "cp_StrictCertificate q = cp_StrictCertificate p" "cp_LastState q = cp_LastState p"
    by (simp_all add: q_def adoption_checked_def Let_def)
  have "state_refused run status q db \<noteq> None" for status
    using p q assms(2) by (auto simp: state_refused_def)
  moreover have "\<not> list_ex (\<lambda>row. at_publication run q row \<and> \<not> pr_retired row \<and> preserved_row row) (tb_publications db)"
    using none by (auto simp: list_ex_iff at_publication_def preserved_row_def)
  ultimately have refused: "\<exists>e. state_refused run status q db = Some e"
    and fresh: "\<not> list_ex (\<lambda>row. at_publication run q row \<and> \<not> pr_retired row \<and> preserved_row row) (tb_publications db)" for status
    by auto
  show "putCommitStatusPublication run p confirm db \<noteq> Inr (current, db')"
  proof (cases "GetRun run db")
    case (Some r)
    with refused [of "rn_Status r"] fresh show ?thesis
      by (auto simp: putCommitStatusPublication_def q_def [symmetric] Let_def)
  qed (simp add: putCommitStatusPublication_def Let_def)
qed

text \<open>A planned end of a run preserves exactly a success that is still proved: writing the terminal outcome
  of a live run leaves a preserved success if and only if the run was running with no push in flight, its
  head is the recorded and last pushed one, the planned shutdown is the one on record, and a live
  publication of that head already shows success with the very certificate its rows prove now.\<close>

theorem watcher_preservation_exact:
  assumes "TerminalizeCertifiedWatcher ts run msg head cfg status binding db = Some db'"
    and "GetRun run db = Some r" "rn_Status r \<in> {RunRunning, RunPending}" "\<not> preserved_success run db"
  shows "preserved_success run db' \<longleftrightarrow>
    rn_Status r = RunRunning \<and> \<not> rn_PushActive r \<and> rn_HeadSHA r = head \<and> rn_LastPushedSHA r = Some head \<and>
    (case binding of None \<Rightarrow> True | Some b \<Rightarrow> ControlledShutdownMatches run b db) \<and>
    (\<exists>c. buildStatusCertificate run head cfg db = Inr (Some c) \<and>
       (\<exists>p \<in> set (tb_publications db). preserve_row run head c p))"
proof -
  let ?set = "\<lambda>p. p\<lparr>pr_pub := (pr_pub p)\<lparr>cp_PreserveSuccess := Some True\<rparr>\<rparr>"
  obtain cert where cert: "buildStatusCertificate run head cfg db = Inr cert"
    using assms by (cases "buildStatusCertificate run head cfg db") (auto simp: TerminalizeCertifiedWatcher_def)
  have pubs: "tb_publications db' = (case watcher_certificate run head binding r cert db of
      Some c \<Rightarrow> sql_update (preserve_row run head c) ?set (tb_publications db)
    | None \<Rightarrow> sql_update (\<lambda>p. pr_run_id p = run) without_proof (tb_publications db))"
    using assms cert by (auto simp: TerminalizeCertifiedWatcher_def Let_def unproved_def split: option.splits)
  have old: "pr_run_id p = run \<Longrightarrow> \<not> preserved_row p" if "p \<in> set (tb_publications db)" for p
    using assms(4) that by (auto simp: preserved_success_def list_ex_iff)
  show ?thesis
  proof (cases "watcher_certificate run head binding r cert db")
    case None
    have "\<not> preserved_success run db'"
    proof
      assume "preserved_success run db'"
      then obtain p where p: "p \<in> set (sql_update (\<lambda>p. pr_run_id p = run) without_proof (tb_publications db))"
        "pr_run_id p = run" "preserved_row p" using pubs None by (auto simp: preserved_success_def list_ex_iff)
      from p(1) show False by (cases rule: sql_updateE) (use p(2,3) in \<open>simp_all add: preserved_row_def\<close>)
    qed
    then show ?thesis using None cert by (auto simp: watcher_certificate_def split: option.splits if_splits)
  next
    case (Some c)
    then have c: "cert = Some c" "rn_Status r = RunRunning" "\<not> rn_PushActive r" "rn_HeadSHA r = head"
      "rn_LastPushedSHA r = Some head" "case binding of None \<Rightarrow> True | Some b \<Rightarrow> ControlledShutdownMatches run b db"
      by (auto simp: watcher_certificate_def split: option.splits if_splits)
    have "preserved_success run db' \<longleftrightarrow> (\<exists>p \<in> set (tb_publications db). preserve_row run head c p)"
    proof
      assume "preserved_success run db'"
      then obtain p where p: "p \<in> set (sql_update (preserve_row run head c) ?set (tb_publications db))"
        "pr_run_id p = run" "preserved_row p" using pubs Some by (auto simp: preserved_success_def list_ex_iff)
      from p(1) show "\<exists>p \<in> set (tb_publications db). preserve_row run head c p"
        by (cases rule: sql_updateE) (use p(2,3) old in auto)
    next
      assume "\<exists>p \<in> set (tb_publications db). preserve_row run head c p"
      then obtain p where p: "p \<in> set (tb_publications db)" "preserve_row run head c p" by blast
      then have "?set p \<in> set (tb_publications db')" using pubs Some by (auto simp: in_sql_update intro!: bexI [of _ p])
      moreover have "pr_run_id (?set p) = run" "preserved_row (?set p)"
        using p(2) by (simp_all add: preserve_row_def preserved_row_def)
      ultimately show "preserved_success run db'" unfolding preserved_success_def list_ex_iff by blast
    qed
    then show ?thesis using c cert by simp
  qed
qed

section \<open>The properties at concrete tables\<close>

definition sample_tested :: Findings where
  "sample_tested = zero_findings\<lparr>fs_TestedHeadSHA := ''h''\<rparr>"

lemma sample_tested_parse: "ParseFindingsJSON (MarshalFindingsJSON sample_tested) = Some sample_tested"
  by (rule parse_marshal) (simp add: storable_def sample_tested_def zero_findings_def utf8_findings_def int64_findings_def
      int64_def valid_utf8.simps rune_size_def lead_size_def rune_ok_def)

definition sample_done :: "StepName \<Rightarrow> string \<Rightarrow> StepResult" where
  "sample_done n i = zero_step\<lparr>sp_ID := i, sp_RunID := ''r'', sp_StepName := n, sp_Status := StepStatusCompleted,
     sp_ExitCode := Some 0, sp_FindingsJSON := (if n = StepTest then Some (MarshalFindingsJSON sample_tested) else None)\<rparr>"

definition sample_proof :: StepProof where
  "sample_proof = \<lparr> pf_head_sha = ''h'', pf_epoch = 0, pf_config_digest = ''c'' \<rparr>"

definition sample_certified :: tables where
  "sample_certified = no_tables\<lparr>tb_runs := [zero_run\<lparr>rn_ID := ''r'', rn_Status := RunRunning, rn_HeadSHA := ''h'',
       rn_ReviewApprovedHeadSHA := Some ''h'', rn_LastPushedSHA := Some ''h'', rn_PushGeneration := Some 1\<rparr>],
     tb_steps := [sample_done StepReview ''1'', sample_done StepTest ''2'', sample_done StepDocument ''3'', sample_done StepLint ''4''],
     tb_proofs := (\<lambda>_. Some sample_proof)\<rparr>"

lemma sample_done_simps [simp]:
  "sp_ID (sample_done n i) = i" "sp_RunID (sample_done n i) = ''r''" "sp_StepName (sample_done n i) = n"
  "sp_Status (sample_done n i) = StepStatusCompleted" "sp_ExitCode (sample_done n i) = Some 0"
  "sp_OverrideReason (sample_done n i) = None" "sp_ApprovalReason (sample_done n i) = None"
  "sp_FindingsJSON (sample_done n i) = (if n = StepTest then Some (MarshalFindingsJSON sample_tested) else None)"
  by (simp_all add: sample_done_def zero_step_def)

lemma core_not_custom: "n \<in> {StepReview, StepTest, StepDocument, StepLint} \<Longrightarrow> \<not> IsCustomGate n"
  using core_not_gate [of n] by (auto simp: IsCustomGate_def IsCoreStepName_def AllSteps_def)

lemma sample_clean: "n \<in> {StepReview, StepTest, StepDocument, StepLint} \<Longrightarrow> gate_findings_clean (sample_done n i)"
  using core_not_custom [of n] by (simp add: gate_findings_clean_def)

lemma sample_tested_row: "tested_row ''h'' (sample_done StepTest i)"
  using sample_tested_parse
  by (auto simp: tested_row_def sample_tested_def zero_findings_def TestVerdictNoGo_def TestVerdictInconclusive_def)

lemma sample_certified_simps [simp]:
  "tb_steps sample_certified = [sample_done StepReview ''1'', sample_done StepTest ''2'', sample_done StepDocument ''3'',
     sample_done StepLint ''4'']"
  "tb_proofs sample_certified = (\<lambda>_. Some sample_proof)" "tb_shutdowns sample_certified = Map.empty"
  "tb_publications sample_certified = []" "tb_epochs sample_certified = Map.empty"
  "GetRun ''r'' sample_certified = Some (zero_run\<lparr>rn_ID := ''r'', rn_Status := RunRunning, rn_HeadSHA := ''h'',
     rn_ReviewApprovedHeadSHA := Some ''h'', rn_LastPushedSHA := Some ''h'', rn_PushGeneration := Some 1\<rparr>)"
  by (simp_all add: sample_certified_def no_tables_def GetRun_def sql_first_def)

theorem status_certificate_exact_witness: "\<exists>c. buildStatusCertificate ''r'' ''h'' ''c'' sample_certified = Inr (Some c)"
  unfolding status_certificate_exact
  by (simp add: rawShutdownSuperseded_def affected_def step_name_defs [symmetric] sample_clean sample_tested_row
      StatusValidationEpoch_def sample_proof_def zero_run_def)
    (simp add: step_name_defs)

theorem new_work_revokes_proof_witness:
  "proof_revoked ''r'' 0 (ResetStepsFrom ''r'' 2 sample_certified)"
proof -
  have "decodeCustomGate StepLint = None" by (rule core_not_gate) (simp add: IsCoreStepName_def AllSteps_def)
  then have "Order StepLint = 6" by (simp add: Order_core IsCoreStepName_def AllSteps_def step_name_defs)
  then show ?thesis using new_work_revokes_proof [of 0 "''s''" 0 sample_certified sample_certified 2 "''r''"]
    by (simp add: StatusValidationEpoch_def)
qed

definition sample_raw :: tables where
  "sample_raw = no_tables\<lparr>tb_runs := [zero_run\<lparr>rn_ID := ''r'', rn_Status := RunRunning\<rparr>]\<rparr>"

theorem raw_shutdown_final_witness:
  "\<exists>db. SupersedeUncommittedCancellations [''r''] ''i'' sample_raw = Some db \<and> rawShutdownSuperseded ''r'' db \<and>
     \<not> preserved_success ''r'' db"
proof -
  have "\<exists>db. SupersedeUncommittedCancellations [''r''] ''i'' sample_raw = Some db \<and> rawShutdownSuperseded ''r'' db"
    by (simp add: sample_raw_def no_tables_def GetRun_def sql_first_def rawShutdownSuperseded_def invalidateStatusValidation_def)
  then obtain db where db: "SupersedeUncommittedCancellations [''r''] ''i'' sample_raw = Some db" "rawShutdownSuperseded ''r'' db"
    by blast
  have "status_step no_tables sample_raw" by (rule status_step.other) (simp_all add: sample_raw_def)
  moreover have "status_step sample_raw db" using db(1) by (rule status_step.supersede)
  ultimately have "status_step\<^sup>*\<^sup>* no_tables db" by simp
  from raw_shutdown_final [OF this db(2)] show ?thesis using db by blast
qed

theorem watcher_preservation_exact_witness:
  "\<exists>db. TerminalizeCertifiedWatcher 9 ''r'' ''m'' ''h'' [] RunCancelled None sample_raw = Some db \<and> \<not> preserved_success ''r'' db"
proof -
  have row: "GetRun ''r'' sample_raw = Some (zero_run\<lparr>rn_ID := ''r'', rn_Status := RunRunning\<rparr>)"
    by (simp add: sample_raw_def GetRun_def sql_first_def)
  have none: "buildStatusCertificate ''r'' ''h'' [] sample_raw = Inr None" by (simp add: buildStatusCertificate_def)
  then obtain db where db: "TerminalizeCertifiedWatcher 9 ''r'' ''m'' ''h'' [] RunCancelled None sample_raw = Some db"
    using row by (simp add: TerminalizeCertifiedWatcher_def Let_def)
  have "\<not> preserved_success ''r'' sample_raw" by (simp add: preserved_success_def sample_raw_def no_tables_def)
  from watcher_preservation_exact [OF db row _ this] show ?thesis using db none by simp
qed

end
