(* ===== verification/ReviewResolution.thy ===== *)
theory ReviewResolution
  imports StepRows Sha256
begin

text \<open>
  What a review round does to the set of findings that are still outstanding, from
  \<open>internal/pipeline/review_resolution.go\<close> and \<open>Compare\<close> of \<open>internal/shipping/comparison.go\<close>: open
  questions are dropped, an answer round retracts what it names, a strict review may prove that the
  anchor of a finding is back at its target or gone, or accept a human scope decision, and the rest
  is cleared by positive verification. git is a parameter: \<open>git_view\<close> holds what its subprocesses print,
  None for a failed one. The last section explains every exit of a finding.
\<close>

section \<open>The context of a round\<close>

text \<open>One field per git invocation: \<open>ls-tree\<close>, \<open>log\<close> with and without the deletion filter, \<open>show\<close>,
  \<open>cat-file -e\<close>, the two \<open>diff --name\<close> calls, \<open>rev-parse HEAD\<close>, \<open>status\<close>, \<open>merge-base\<close>, \<open>diff --binary\<close>.\<close>

record git_view =
  gv_ls_tree :: "string \<Rightarrow> string \<Rightarrow> string option"
  gv_log_removed :: "string \<Rightarrow> string \<Rightarrow> string \<Rightarrow> string option"
  gv_log_touched :: "string \<Rightarrow> string \<Rightarrow> string \<Rightarrow> string option"
  gv_show_status :: "string \<Rightarrow> string option"
  gv_is_commit :: "string \<Rightarrow> bool"
  gv_diff_names :: "string \<Rightarrow> string \<Rightarrow> string \<Rightarrow> string option"
  gv_diff_status :: "string \<Rightarrow> string \<Rightarrow> string option"
  gv_head :: "string option"
  gv_status :: "string option"
  gv_merge_base :: "string \<Rightarrow> string \<Rightarrow> string option"
  gv_diff_binary :: "string \<Rightarrow> string \<Rightarrow> string option"

record StepOutcome =
  oc_NeedsApproval :: bool
  oc_AutoFixable :: bool
  oc_Findings :: string
  oc_ReviewedPaths :: "string list"
  oc_ReviewablePaths :: "string list"
  oc_WithdrawnFindings :: "WithdrawnFinding list"
  oc_ExitCode :: int
  oc_PRURL :: string
  oc_Skipped :: bool
  oc_SkipReason :: string
  oc_SkipRemaining :: bool
  oc_RestartFrom :: StepName
  oc_FixSummary :: string
  oc_RepairPublished :: bool
  oc_ReviewApprovedHeadSHA :: string
  oc_ReviewCarryResolved :: bool
  oc_ReviewComparisonGeneration :: int
  oc_MergedHeadSHA :: string
  oc_DurationOverrideMS :: int

text \<open>The fields of \<open>StepContext\<close> the resolution reads, beside the database.\<close>

record review_ctx =
  vx_git :: git_view
  vx_run :: Run
  vx_step :: string
  vx_finalizing :: bool

section \<open>Proving an anchor restored or deleted\<close>

definition Compare :: "git_view \<Rightarrow> string \<Rightarrow> string \<Rightarrow> (string \<times> string) option" where
  "Compare g target head =
     (case gv_merge_base g target head of
        None \<Rightarrow> None
      | Some base \<Rightarrow> map_option (\<lambda>raw. (base, sha256_hex raw)) (gv_diff_binary g target head))"

text \<open>The fields of \<open>-z\<close> output.\<close>

definition nul :: string where "nul = [CHR 0x00]"

definition nul_fields :: "string \<Rightarrow> string list" where
  "nul_fields changes = SplitOn (CHR 0x00) (TrimSuffix changes nul)"

fun replaced_fields :: "string list \<Rightarrow> bool" where
  "replaced_fields [] = False"
| "replaced_fields (status # rest) =
     (if status = [] then replaced_fields rest
      else if HasPrefix status ''A'' \<or> HasPrefix status ''R'' \<or> HasPrefix status ''C'' then True
      else replaced_fields (drop 1 rest))"

definition commitReplacedPath :: "string \<Rightarrow> bool" where
  "commitReplacedPath changes = replaced_fields (nul_fields changes)"

definition anchorRemovalCommits :: "git_view \<Rightarrow> Finding \<Rightarrow> ReviewComparison \<Rightarrow> string list option" where
  "anchorRemovalCommits g x c = map_option Fields (gv_log_removed g (rc_MergeBaseSHA c) (rc_HeadSHA c) (f_File x))"

definition anchorHistoryCommits :: "git_view \<Rightarrow> Finding \<Rightarrow> ReviewComparison \<Rightarrow> string list option" where
  "anchorHistoryCommits g x c = map_option Fields (gv_log_touched g (rc_MergeBaseSHA c) (rc_HeadSHA c) (f_File x))"

definition deletedAnchorNotRelocated :: "git_view \<Rightarrow> Finding \<Rightarrow> ReviewComparison \<Rightarrow> bool" where
  "deletedAnchorNotRelocated g x c \<longleftrightarrow>
     (case anchorRemovalCommits g x c of
        None \<Rightarrow> False
      | Some removed \<Rightarrow>
          if removed = [] then (case anchorHistoryCommits g x c of None \<Rightarrow> False | Some touched \<Rightarrow> touched = [])
          else list_all (\<lambda>commit. case gv_show_status g commit of
                 None \<Rightarrow> False | Some changes \<Rightarrow> \<not> commitReplacedPath changes) removed)"

text \<open>\<open>reviewAnchorRenamed\<close>: the scan of the change list; the flag says that the anchor is missing from the head.\<close>

fun renamed_fields :: "string \<Rightarrow> bool \<Rightarrow> string list \<Rightarrow> bool" where
  "renamed_fields file missing [] = False"
| "renamed_fields file missing [f] = True"
| "renamed_fields file missing (f # p # rest) =
     (if f = [] then True
      else if f = ''A'' \<and> missing then True
      else if hd f = CHR ''R'' \<or> hd f = CHR ''C''
      then (if rest = [] \<or> p = file then True else renamed_fields file missing (tl rest))
      else renamed_fields file missing rest)"

definition reviewAnchorRenamed :: "git_view \<Rightarrow> Run \<Rightarrow> string \<Rightarrow> string \<Rightarrow> bool" where
  "reviewAnchorRenamed g run oldHead file =
     (case gv_ls_tree g (rn_HeadSHA run) file of
        None \<Rightarrow> True
      | Some entry \<Rightarrow>
          (case gv_diff_status g oldHead (rn_HeadSHA run) of
             None \<Rightarrow> True
           | Some changes \<Rightarrow>
               let changed = nul_fields changes in
               if changed = [[]] then False else renamed_fields file (entry = []) changed))"

text \<open>The reviewed heads of the rounds that selected this very finding; None refuses the proof.\<close>

fun selected_heads :: "git_view \<Rightarrow> Finding \<Rightarrow> StepRound list \<Rightarrow> string list option" where
  "selected_heads g x [] = Some []"
| "selected_heads g x (r # rounds) =
     (case selectedFindingIdentities [r] (f_ID x) of
        None \<Rightarrow> selected_heads g x rounds
      | Some identity \<Rightarrow>
          if findingKey identity \<noteq> findingKey x then selected_heads g x rounds
          else (case sr_ReviewedHeadSHA r of
                  None \<Rightarrow> None
                | Some h \<Rightarrow>
                    if length h \<noteq> 40 \<or> \<not> gv_is_commit g h then None
                    else map_option ((#) h) (selected_heads g x rounds)))"

definition selectedAnchorWasChanged :: "review_ctx \<Rightarrow> Finding \<Rightarrow> string \<Rightarrow> tables \<Rightarrow> bool" where
  "selectedAnchorWasChanged v x target db =
     (let g = vx_git v; rounds = GetRoundsByStep (vx_step v) db in
      if decode_rounds rounds \<noteq> None then False
      else case selected_heads g x rounds of
          None \<Rightarrow> False
        | Some heads \<Rightarrow>
            list_ex (\<lambda>h. gv_diff_names g target h (f_File x) = Some (f_File x @ nul) \<and>
              \<not> reviewAnchorRenamed g (vx_run v) h (f_File x)) heads)"

definition literal_path :: "string \<Rightarrow> bool" where
  "literal_path file \<longleftrightarrow> file \<noteq> [] \<and> normalizeCoveredPath file = file \<and> \<not> HasPrefix file ''/'' \<and> file \<noteq> ''..'' \<and>
     \<not> HasPrefix file ''../''"

definition anchor_resolved :: "review_ctx \<Rightarrow> ReviewComparison \<Rightarrow> Finding \<Rightarrow> tables \<Rightarrow> bool" where
  "anchor_resolved v c x db \<longleftrightarrow>
     literal_path (f_File x) \<and>
     (case (gv_ls_tree (vx_git v) (rc_HeadSHA c) (f_File x), gv_ls_tree (vx_git v) (rc_MergeBaseSHA c) (f_File x),
            gv_ls_tree (vx_git v) (rc_TargetSHA c) (f_File x)) of
        (Some h, Some b, Some t) \<Rightarrow>
          h = b \<and> h = t \<and>
          (selectedAnchorWasChanged v x (rc_TargetSHA c) db \<or> h = [] \<and> deletedAnchorNotRelocated (vx_git v) x c)
      | _ \<Rightarrow> False)"

section \<open>Accepted scope\<close>

text \<open>The identifiers of the payload a human decided about without choosing them for a fix; an unreadable
  history accepts nothing.\<close>

definition acceptedScopeFindings :: "review_ctx \<Rightarrow> string \<Rightarrow> tables \<Rightarrow> string list" where
  "acceptedScopeFindings v raw db =
     (let rounds = GetRoundsByStep (vx_step v) db in
      if vx_step v = [] then []
      else if decode_rounds rounds \<noteq> None then []
      else if list_ex (\<lambda>r. humanDecidedRound r \<and>
             (case sr_SelectedFindingIDs r of None \<Rightarrow> True | Some sel \<Rightarrow> TrimSpace sel = ''null'')) rounds then []
      else filter (\<lambda>i. i \<notin> set (earlierChosenToFixIDs rounds raw)) (earlierUserDecisionIDs rounds raw))"

definition scopeFindingsForReview :: "review_ctx \<Rightarrow> string \<Rightarrow> tables \<Rightarrow> string" where
  "scopeFindingsForReview v raw db =
     (let ids = acceptedScopeFindings v raw db in if ids = [] then [] else filterFindingsJSON raw ids)"

section \<open>The evidence of a strict review\<close>

definition full_coverage :: "string list \<Rightarrow> string list \<Rightarrow> bool" where
  "full_coverage reviewable reviewed \<longleftrightarrow>
     list_all (\<lambda>f. f \<noteq> [] \<and> normalizeCoveredPath f = f) reviewable \<and> set reviewed = set reviewable"

definition strictReviewResolutionEvidence :: "review_ctx \<Rightarrow> StepOutcome \<Rightarrow> string \<Rightarrow> tables \<Rightarrow> bool" where
  "strictReviewResolutionEvidence v o' current db \<longleftrightarrow>
     (case rn_Shipping (vx_run v) of
        None \<Rightarrow> False
      | Some ship \<Rightarrow>
          \<not> oc_NeedsApproval o' \<and> oc_ReviewComparisonGeneration o' \<ge> 1 \<and> oc_ReviewApprovedHeadSHA o' \<noteq> [] \<and>
          oc_ReviewablePaths o' \<noteq> [] \<and>
          (case ParseFindingsJSON current of None \<Rightarrow> False | Some fs \<Rightarrow> items fs = []) \<and>
          full_coverage (oc_ReviewablePaths o') (oc_ReviewedPaths o') \<and>
          (case tb_comparisons db (rn_ID (vx_run v)) of
             None \<Rightarrow> False
           | Some c \<Rightarrow>
               rc_Generation c = oc_ReviewComparisonGeneration o' \<and> rc_HeadSHA c = oc_ReviewApprovedHeadSHA o' \<and>
               rc_HeadSHA c = rn_HeadSHA (vx_run v) \<and> rc_TargetBranch c = so_TargetBranch ship \<and>
               (so_Mode ship = ShippingImmutableSource \<longrightarrow> rc_TargetSHA c = so_TargetSHA ship) \<and>
               gv_head (vx_git v) = Some (rc_HeadSHA c) \<and> gv_status (vx_git v) = Some [] \<and>
               Compare (vx_git v) (rc_TargetSHA c) (rc_HeadSHA c) = Some (rc_MergeBaseSHA c, rc_DiffDigest c)))"

section \<open>Resolving a round\<close>

definition resolved_anchors :: "review_ctx \<Rightarrow> StepOutcome \<Rightarrow> string \<Rightarrow> string \<Rightarrow> tables \<Rightarrow> string list" where
  "resolved_anchors v o' raw current db =
     (if \<not> strictReviewResolutionEvidence v o' current db then []
      else case tb_comparisons db (rn_ID (vx_run v)) of
          None \<Rightarrow> []
        | Some c \<Rightarrow> map f_ID (filter (\<lambda>x. anchor_resolved v c x db) (parsed_items raw)))"

definition scope_withdrawals :: "review_ctx \<Rightarrow> StepOutcome \<Rightarrow> string list \<Rightarrow> string \<Rightarrow> tables \<Rightarrow> WithdrawnFinding list" where
  "scope_withdrawals v o' pending raw db =
     filter (\<lambda>w. wf_ID w \<in> set (acceptedScopeFindings v raw db) \<and> wf_ID w \<notin> set pending \<and> TrimSpace (wf_Reason w) \<noteq> [])
       (oc_WithdrawnFindings o')"

definition resolveReviewCarry ::
  "review_ctx \<Rightarrow> string \<Rightarrow> string list \<Rightarrow> StepOutcome \<Rightarrow> string \<Rightarrow> tables \<Rightarrow> string \<times> WithdrawnFinding list" where
  "resolveReviewCarry v raw pending o' current db =
     (if raw = [] then (raw, [])
      else let anchors = resolved_anchors v o' raw current db;
               (raw1, applied) = (if strictReviewResolutionEvidence v o' current db
                 then dropWithdrawnFindingsJSON raw (scope_withdrawals v o' pending raw db) else (raw, [])) in
        (resolveVerifiedFindingsJSON raw1 pending (oc_ReviewedPaths o') (oc_ReviewablePaths o') current [anchors], applied))"

definition retractable :: "string list \<Rightarrow> StepOutcome \<Rightarrow> WithdrawnFinding list" where
  "retractable selected o' = filter (\<lambda>w. wf_ID w \<notin> set selected) (oc_WithdrawnFindings o')"

text \<open>The result: the effective findings of the gate, the outstanding set carried on, and the retractions of
  the answers and of the scope decisions.\<close>

definition resolveReviewRoundFindings ::
  "review_ctx \<Rightarrow> string \<Rightarrow> string list \<Rightarrow> string list \<Rightarrow> StepOutcome \<Rightarrow> string \<Rightarrow> tables \<Rightarrow>
   string \<times> string \<times> WithdrawnFinding list \<times> WithdrawnFinding list" where
  "resolveReviewRoundFindings v outstanding pending selected o' current db =
     (let verification = dropReviewQuestionFindingsJSON current;
          carried = dropReviewQuestionFindingsJSON outstanding;
          (kept, answered) = (if vx_finalizing v then dropWithdrawnFindingsJSON carried (retractable selected o') else (carried, []));
          (resolved, scoped) = resolveReviewCarry v kept pending o' verification db;
          remaining = mergeOutstandingFindingsJSON resolved current (oc_ReviewedPaths o') in
      (recordWithdrawnFindingsJSON remaining (answered @ scoped), remaining, answered, scoped))"

definition resolvedReviewBoundary ::
  "review_ctx \<Rightarrow> StepOutcome \<Rightarrow> string \<Rightarrow> string list \<Rightarrow> string list \<Rightarrow> tables \<Rightarrow> StepOutcome" where
  "resolvedReviewBoundary v o' outstanding pending selected db =
     (let current = normalizeFindingsJSON (oc_Findings o') StepReview;
          effective = fst (resolveReviewRoundFindings v outstanding pending selected o' current db);
          clean = (case ParseFindingsJSON effective of None \<Rightarrow> False | Some fs \<Rightarrow> items fs = []);
          b = o'\<lparr>oc_Findings := effective, oc_ReviewCarryResolved := True\<rparr> in
      if clean then b else b\<lparr>oc_NeedsApproval := True, oc_ReviewApprovedHeadSHA := []\<rparr>)"

section \<open>Why a finding leaves the outstanding set\<close>

definition readable :: "string \<Rightarrow> bool" where
  "readable raw \<longleftrightarrow> raw = [] \<or> ParseFindingsJSON raw \<noteq> None"

lemma readable_Nil [simp]: "readable []"
  by (simp add: readable_def)

lemma readable_marshal: "storable fs \<Longrightarrow> readable (MarshalFindingsJSON fs)"
  by (simp add: readable_def parse_marshal)

lemma readable_cases:
  assumes "readable raw"
  obtains (empty) "raw = []" | (payload) fs where "raw \<noteq> []" "ParseFindingsJSON raw = Some fs" "parsed_items raw = items fs" "storable fs"
  using assms parse_storable by (cases "raw = []") (auto simp: readable_def parsed_items_def)

lemma storable_filter: "storable fs \<Longrightarrow> storable (fs\<lparr>fs_Items := Some (filter P (items fs))\<rparr>)"
  using storable_items by (intro storable_with_items) (auto simp: list_all_iff)

lemma drop_questions:
  assumes "readable raw"
  shows "readable (dropReviewQuestionFindingsJSON raw) \<and>
    parsed_items (dropReviewQuestionFindingsJSON raw) = filter (\<lambda>x. \<not> is_review_question x) (parsed_items raw)"
  using assms
proof (cases rule: readable_cases)
  case empty
  then show ?thesis by (simp add: dropReviewQuestionFindingsJSON_def)
next
  case (payload fs)
  define kept where "kept = filter (\<lambda>x. \<not> is_review_question x) (items fs)"
  have st: "storable (fs\<lparr>fs_Items := Some kept\<rparr>)" using storable_filter [OF payload(4)] by (simp add: kept_def)
  have res: "dropReviewQuestionFindingsJSON raw =
      (if length kept = length (items fs) then raw else if kept = [] then [] else MarshalFindingsJSON (fs\<lparr>fs_Items := Some kept\<rparr>))"
    using payload by (simp add: dropReviewQuestionFindingsJSON_def kept_def Let_def)
  have "kept = items fs" if "length kept = length (items fs)"
    using that by (simp add: kept_def length_filter_all)
  then show ?thesis using st readable_marshal [OF st] payload assms by (auto simp: res kept_def [symmetric])
qed

lemma drop_withdrawn:
  assumes "readable raw" "dropWithdrawnFindingsJSON raw ws = (kept, applied)"
  shows "readable kept \<and> set (parsed_items kept) \<subseteq> set (parsed_items raw) \<and>
    (\<forall>x \<in> set (parsed_items raw). x \<in> set (parsed_items kept) \<or>
       f_ID x \<in> wf_ID ` set applied \<and> f_ID x \<in> wf_ID ` set ws \<and> f_Source x \<noteq> FindingSourceUser)"
  using assms(1)
proof (cases rule: readable_cases)
  case empty
  then show ?thesis using assms by (simp add: dropWithdrawnFindingsJSON_def)
next
  case (payload fs)
  define m where "m = withdrawn_reasons ws Map.empty"
  define gone where "gone = filter (retracts m) (items fs)"
  define rest where "rest = filter (\<lambda>x. \<not> retracts m x) (items fs)"
  have st: "storable (fs\<lparr>fs_Items := Some rest\<rparr>)" using storable_filter [OF payload(4)] by (simp add: rest_def)
  have named: "f_ID x \<in> wf_ID ` set ws \<and> f_Source x \<noteq> FindingSourceUser" if rx: "retracts m x" for x
  proof -
    obtain v where "m (f_ID x) = Some v" using rx by (auto simp: retracts_def)
    then have "\<lparr> wf_ID = f_ID x, wf_Reason = v \<rparr> \<in> set ws"
      using withdrawn_reasons_Some [of ws Map.empty "f_ID x" v] by (simp add: m_def)
    then show ?thesis using rx by (force simp: retracts_def)
  qed
  show ?thesis
  proof (cases "ws = [] \<or> list_all (\<lambda>w. wf_ID w = []) ws \<or> gone = []")
    case True
    then have "kept = raw" using assms payload by (auto simp: dropWithdrawnFindingsJSON_def Let_def gone_def m_def split: if_splits)
    then show ?thesis using assms(1) by simp
  next
    case False
    then have "kept = (if rest = [] then [] else MarshalFindingsJSON (fs\<lparr>fs_Items := Some rest\<rparr>)) \<and>
        map wf_ID applied = map f_ID gone"
      using assms payload by (auto simp: dropWithdrawnFindingsJSON_def Let_def gone_def rest_def m_def o_def)
    then have k: "kept = (if rest = [] then [] else MarshalFindingsJSON (fs\<lparr>fs_Items := Some rest\<rparr>))"
      "wf_ID ` set applied = f_ID ` set gone" by (auto simp flip: set_map)
    then have "readable kept" "parsed_items kept = rest" using readable_marshal [OF st] st by auto
    then show ?thesis using payload(3) k(2) named by (auto simp: rest_def gone_def)
  qed
qed

lemma resolve_readable:
  assumes "readable raw"
  shows "readable (resolveVerifiedFindingsJSON raw ids reviewed reviewable cur anchors)"
  using assms
proof (cases rule: readable_cases)
  case empty
  then show ?thesis by (simp add: resolveVerifiedFindingsJSON_def)
next
  case (payload fs)
  then show ?thesis using storable_kept [OF payload(4)]
    by (auto simp: resolveVerifiedFindingsJSON_def Let_def readable_def parse_marshal)
qed

lemma merge_keeps_defects:
  assumes "readable e" "list_all valid_utf8 paths"
  shows "findingFingerprint ` set (parsed_items e) \<subseteq>
    findingFingerprint ` set (parsed_items (mergeOutstandingFindingsJSON e a paths))"
  using assms(1)
proof (cases rule: readable_cases)
  case (payload es)
  have st: "storable (es\<lparr>fs_ReviewedPaths := paths, fs_WithdrawnFindings := []\<rparr>)"
    using payload(4) assms(2) by (auto simp: storable_def utf8_findings_def int64_findings_def)
  show ?thesis
  proof (cases "a = []")
    case True
    then show ?thesis using payload st by (simp add: mergeOutstandingFindingsJSON_def)
  next
    case ne: False
    show ?thesis
    proof (cases "ParseFindingsJSON a")
      case None
      then have "mergeFindingsJSON e a = e" using payload ne by (simp add: mergeFindingsJSON_def)
      then show ?thesis using payload ne storable_dedup [OF payload(4) assms(2)] dedup_fingerprints
        by (simp add: mergeOutstandingFindingsJSON_def) (cases "fs_Items es"; simp)
    next
      case (Some as)
      show ?thesis
      proof (cases "items es = []")
        case False
        then have "mergeFindingsJSON e a \<noteq> []" using merge_nonempty [OF payload(2) Some] by blast
        then obtain fs where "ParseFindingsJSON (mergeOutstandingFindingsJSON e a paths) = Some fs"
            "items fs = dedup_ids [] (merge_items_of (items es) (items as))"
          using merge_outstanding_raw [OF payload(2) Some assms(2)] by auto
        then show ?thesis
          using merge_items_of_spec [OF parse_items_ok [OF payload(2)] parse_items_ok [OF Some]] payload(3)
            dedup_fingerprints [of "[]" "merge_items_of (items es) (items as)"] by (auto simp: parsed_items_def)
      qed (use payload in simp)
    qed
  qed
qed (simp add: image_subset_iff)

lemma carried_readable:
  assumes "resolveReviewCarry v raw pending o' current db = (resolved, scoped)" "readable raw"
  shows "readable resolved"
proof (cases "raw = []")
  case False
  obtain raw1 applied where w: "(if strictReviewResolutionEvidence v o' current db
      then dropWithdrawnFindingsJSON raw (scope_withdrawals v o' pending raw db) else (raw, [])) = (raw1, applied)"
    by (cases "if strictReviewResolutionEvidence v o' current db
      then dropWithdrawnFindingsJSON raw (scope_withdrawals v o' pending raw db) else (raw, [])")
  have "readable raw1" using drop_withdrawn [OF assms(2), of "scope_withdrawals v o' pending raw db" raw1 applied] w assms(2)
    by (auto split: if_splits)
  then show ?thesis using assms(1) False w resolve_readable by (auto simp: resolveReviewCarry_def Let_def)
qed (use assms in \<open>simp add: resolveReviewCarry_def\<close>)

lemma carry_exit:
  assumes "resolveReviewCarry v raw pending o' current db = (resolved, scoped)" "readable raw"
    and "x \<in> set (parsed_items raw)" "x \<notin> set (parsed_items resolved)"
  shows "f_ID x \<in> wf_ID ` set scoped \<and> f_ID x \<notin> set pending \<and> f_Source x \<noteq> FindingSourceUser \<and>
      strictReviewResolutionEvidence v o' current db \<and> f_ID x \<in> set (acceptedScopeFindings v raw db) \<or>
    f_ID x \<in> set pending \<and> oc_ReviewedPaths o' \<noteq> [] \<and>
      normalizeCoveredPath ` set (oc_ReviewedPaths o') \<subseteq> nonempty_paths (oc_ReviewablePaths o') \<and>
      (\<forall>y \<in> set (parsed_items current). \<not> SameFinding x y) \<and>
      (normalizeCoveredPath (f_File x) \<in> normalizeCoveredPath ` set (oc_ReviewedPaths o') \<or>
       card (normalizeCoveredPath ` set (oc_ReviewedPaths o')) = card (nonempty_paths (oc_ReviewablePaths o')) \<and>
       (normalizeCoveredPath (f_File x) = [] \<or>
        (\<exists>c. tb_comparisons db (rn_ID (vx_run v)) = Some c \<and>
           (\<exists>z \<in> set (parsed_items raw). f_ID z = f_ID x \<and> anchor_resolved v c z db))))"
proof -
  have ne: "raw \<noteq> []" using assms(3) by auto
  obtain raw1 applied where w: "(if strictReviewResolutionEvidence v o' current db
      then dropWithdrawnFindingsJSON raw (scope_withdrawals v o' pending raw db) else (raw, [])) = (raw1, applied)"
    by (cases "if strictReviewResolutionEvidence v o' current db
      then dropWithdrawnFindingsJSON raw (scope_withdrawals v o' pending raw db) else (raw, [])")
  have res: "resolved = resolveVerifiedFindingsJSON raw1 pending (oc_ReviewedPaths o') (oc_ReviewablePaths o') current
      [resolved_anchors v o' raw current db]" "scoped = applied"
    using assms(1) ne w by (auto simp: resolveReviewCarry_def Let_def)
  show ?thesis
  proof (cases "x \<in> set (parsed_items raw1)")
    case False
    then have "strictReviewResolutionEvidence v o' current db" using w assms(3) by (auto split: if_splits)
    moreover from this have "f_ID x \<in> wf_ID ` set applied \<and> f_ID x \<in> wf_ID ` set (scope_withdrawals v o' pending raw db) \<and>
        f_Source x \<noteq> FindingSourceUser"
      using drop_withdrawn [OF assms(2), of "scope_withdrawals v o' pending raw db" raw1 applied] w assms(3) False by auto
    ultimately show ?thesis unfolding res(2) by (auto simp: scope_withdrawals_def)
  next
    case True
    then obtain fs where fs: "ParseFindingsJSON raw1 = Some fs" "x \<in> set (items fs)"
      by (cases "ParseFindingsJSON raw1") (auto simp: parsed_items_def)
    obtain r where r: "clears r (items fs) x" "rr_pending r = filter (\<lambda>i. i \<noteq> []) pending"
      "rr_covered r = normalizeCoveredPath ` set (oc_ReviewedPaths o')"
      "rr_fully_covered r = (card (rr_covered r) = card (nonempty_paths (oc_ReviewablePaths o')))"
      "rr_items r = parsed_items current" "rr_resolved_anchors r = [resolved_anchors v o' raw current db]"
      "oc_ReviewedPaths o' \<noteq> []" "rr_covered r \<subseteq> nonempty_paths (oc_ReviewablePaths o')"
      using resolve_cases [OF fs(1), of pending "oc_ReviewedPaths o'" "oc_ReviewablePaths o'" current
          "[resolved_anchors v o' raw current db]"] fs(2) assms(4) unfolding res(1) by auto
    have "\<exists>c. tb_comparisons db (rn_ID (vx_run v)) = Some c \<and>
        (\<exists>z \<in> set (parsed_items raw). f_ID z = f_ID x \<and> anchor_resolved v c z db)"
      if a: "f_ID x \<in> set (resolved_anchors v o' raw current db)"
    proof (cases "tb_comparisons db (rn_ID (vx_run v))")
      case (Some c)
      then have "f_ID x \<in> f_ID ` {z \<in> set (parsed_items raw). anchor_resolved v c z db}"
        using a by (simp add: resolved_anchors_def split: if_splits)
      then show ?thesis using Some by (auto simp: image_iff)
    qed (use a in \<open>simp add: resolved_anchors_def split: if_splits\<close>)
    moreover have "\<not> SameFinding x y" if "y \<in> set (parsed_items current)" for y
      using r(1,5) that matches_key by (auto simp: clears_def Let_def SameFinding_def)
    ultimately show ?thesis using r by (auto simp: clears_def Let_def)
  qed
qed

text \<open>C19. A finding leaves the outstanding set of a review for a stated reason and no other: when the resolution
  of a round drops a defect that was outstanding, it was an open question of the reviewer; or an answer
  round named it in its retractions, it was not selected for a fix and the operator did not write it; or a
  strict review with complete evidence withdrew it, a human had decided it and never chosen it for a fix,
  and it was not pending; or it was pending and the round verified it: its file was covered, or every
  reviewable path was and the finding has no file or a proved anchor, and the round reported nothing
  that matches it.\<close>

theorem carried_finding_exit:
  assumes "ParseFindingsJSON outstanding = Some fs" "x \<in> set (items fs)" "list_all valid_utf8 (oc_ReviewedPaths o')"
    and "resolveReviewRoundFindings v outstanding pending selected o' current db = (effective, remaining, answered, scoped)"
    and "findingFingerprint x \<notin> findingFingerprint ` set (parsed_items remaining)"
  shows "is_review_question x \<or>
    vx_finalizing v \<and> f_ID x \<in> wf_ID ` set answered \<and> f_ID x \<in> wf_ID ` set (oc_WithdrawnFindings o') \<and>
      f_ID x \<notin> set selected \<and> f_Source x \<noteq> FindingSourceUser \<or>
    f_ID x \<in> wf_ID ` set scoped \<and> f_ID x \<notin> set pending \<and> f_Source x \<noteq> FindingSourceUser \<and>
      strictReviewResolutionEvidence v o' (dropReviewQuestionFindingsJSON current) db \<and>
      (\<exists>kept. x \<in> set (parsed_items kept) \<and> set (parsed_items kept) \<subseteq> set (items fs) \<and>
         f_ID x \<in> set (acceptedScopeFindings v kept db)) \<or>
    f_ID x \<in> set pending \<and> oc_ReviewedPaths o' \<noteq> [] \<and>
      normalizeCoveredPath ` set (oc_ReviewedPaths o') \<subseteq> nonempty_paths (oc_ReviewablePaths o') \<and>
      (\<forall>y \<in> set (parsed_items (dropReviewQuestionFindingsJSON current)). \<not> SameFinding x y) \<and>
      (normalizeCoveredPath (f_File x) \<in> normalizeCoveredPath ` set (oc_ReviewedPaths o') \<or>
       card (normalizeCoveredPath ` set (oc_ReviewedPaths o')) = card (nonempty_paths (oc_ReviewablePaths o')) \<and>
       (normalizeCoveredPath (f_File x) = [] \<or>
        (\<exists>c. tb_comparisons db (rn_ID (vx_run v)) = Some c \<and>
           (\<exists>z \<in> set (items fs). f_ID z = f_ID x \<and> anchor_resolved v c z db))))"
proof -
  define carried where "carried = dropReviewQuestionFindingsJSON outstanding"
  define current' where "current' = dropReviewQuestionFindingsJSON current"
  obtain kept ans where kept: "(if vx_finalizing v then dropWithdrawnFindingsJSON carried (retractable selected o') else (carried, [])) = (kept, ans)"
    by (cases "if vx_finalizing v then dropWithdrawnFindingsJSON carried (retractable selected o') else (carried, [])")
  obtain resolved sc where carry: "resolveReviewCarry v kept pending o' current' db = (resolved, sc)"
    by (cases "resolveReviewCarry v kept pending o' current' db")
  have out: "remaining = mergeOutstandingFindingsJSON resolved current (oc_ReviewedPaths o')" "answered = ans" "scoped = sc"
    using assms(4) unfolding resolveReviewRoundFindings_def Let_def carried_def [symmetric] current'_def [symmetric] kept
    by (simp_all add: carry)
  have r0: "readable outstanding" and x0: "x \<in> set (parsed_items outstanding)"
    using assms(1,2) by (auto simp: readable_def parsed_items_def)
  have sub1: "set (parsed_items carried) \<subseteq> set (items fs)"
    using drop_questions [OF r0] assms(1) by (auto simp: carried_def parsed_items_def)
  have r1: "readable carried" and x1: "is_review_question x \<or> x \<in> set (parsed_items carried)"
    using drop_questions [OF r0] x0 by (auto simp: carried_def)
  have r2: "readable kept" and sub2: "set (parsed_items kept) \<subseteq> set (parsed_items carried)" and x2: "x \<in> set (parsed_items carried) \<Longrightarrow> x \<in> set (parsed_items kept) \<or>
      vx_finalizing v \<and> f_ID x \<in> wf_ID ` set ans \<and> f_ID x \<in> wf_ID ` set (retractable selected o') \<and> f_Source x \<noteq> FindingSourceUser"
    using drop_withdrawn [OF r1, of "retractable selected o'" kept ans] kept r1 by (auto split: if_splits)
  have retr: "f_ID x \<in> wf_ID ` set (retractable selected o') \<Longrightarrow> f_ID x \<notin> set selected \<and> f_ID x \<in> wf_ID ` set (oc_WithdrawnFindings o')"
    by (auto simp: retractable_def)
  have gone: "x \<notin> set (parsed_items resolved)"
    using assms(5) merge_keeps_defects [OF _ assms(3), of resolved current] carried_readable [OF carry r2] out(1) by auto
  note sub = subset_trans [OF sub2 sub1]
  show ?thesis
  proof (cases "x \<in> set (parsed_items kept)")
    case True
    have e: "f_ID x \<in> set (acceptedScopeFindings v kept db) \<Longrightarrow> \<exists>kept. x \<in> set (parsed_items kept) \<and>
        set (parsed_items kept) \<subseteq> set (items fs) \<and> f_ID x \<in> set (acceptedScopeFindings v kept db)"
      using sub True by blast
    define named where "named ys \<longleftrightarrow> (\<exists>c. tb_comparisons db (rn_ID (vx_run v)) = Some c \<and>
      (\<exists>z \<in> set ys. f_ID z = f_ID x \<and> anchor_resolved v c z db))" for ys
    have a: "named (parsed_items kept) \<Longrightarrow> named (items fs)" using sub unfolding named_def by blast
    show ?thesis
      using carry_exit [OF carry r2 True gone] unfolding out(3) current'_def named_def [symmetric]
    proof (elim disjE, goal_cases)
      case 1
      then show ?case using e by (intro disjI2 disjI1) simp
    next
      case 2
      then show ?case using a by (intro disjI2) auto
    qed
  next
    case False
    then show ?thesis using x1 x2 retr unfolding out(2) by (elim disjE) simp_all
  qed
qed

definition zero_outcome :: StepOutcome where
  "zero_outcome = \<lparr> oc_NeedsApproval = False, oc_AutoFixable = False, oc_Findings = [], oc_ReviewedPaths = [],
     oc_ReviewablePaths = [], oc_WithdrawnFindings = [], oc_ExitCode = 0, oc_PRURL = [], oc_Skipped = False,
     oc_SkipReason = [], oc_SkipRemaining = False, oc_RestartFrom = [], oc_FixSummary = [], oc_RepairPublished = False,
     oc_ReviewApprovedHeadSHA = [], oc_ReviewCarryResolved = False, oc_ReviewComparisonGeneration = 0,
     oc_MergedHeadSHA = [], oc_DurationOverrideMS = 0 \<rparr>"

definition no_git :: git_view where
  "no_git = \<lparr> gv_ls_tree = (\<lambda>_ _. None), gv_log_removed = (\<lambda>_ _ _. None), gv_log_touched = (\<lambda>_ _ _. None),
     gv_show_status = (\<lambda>_. None), gv_is_commit = (\<lambda>_. False), gv_diff_names = (\<lambda>_ _ _. None),
     gv_diff_status = (\<lambda>_ _. None), gv_head = None, gv_status = None, gv_merge_base = (\<lambda>_ _. None),
     gv_diff_binary = (\<lambda>_ _. None) \<rparr>"

definition sample_review :: review_ctx where
  "sample_review = \<lparr> vx_git = no_git, vx_run = zero_run, vx_step = ''s'', vx_finalizing = False \<rparr>"

definition covered_outcome :: StepOutcome where
  "covered_outcome = zero_outcome\<lparr>oc_ReviewedPaths := [''a.go''], oc_ReviewablePaths := [''a.go'']\<rparr>"

lemma sample_resolution:
  assumes "rn_Shipping (vx_run v) = None" "\<not> vx_finalizing v"
  shows "resolveReviewRoundFindings v (MarshalFindingsJSON (sample_payload [located_item ''r-1'' ''a.go''])) [''r-1''] selected
      covered_outcome [] db = ([], [], [], [])"
proof -
  let ?x = "located_item ''r-1'' ''a.go''"
  let ?out = "MarshalFindingsJSON (sample_payload [?x])"
  have p: "ParseFindingsJSON ?out = Some (sample_payload [?x])" by (rule sample_parse) (simp add: located_ok)
  have q: "dropReviewQuestionFindingsJSON ?out = ?out"
    using p by (simp add: dropReviewQuestionFindingsJSON_def is_review_question_def located_item_def sample_item_def zero_finding_def
        FindingCategoryReviewQuestion_def ReviewQuestionsUnreadableFindingID_def Let_def)
  have r: "resolveVerifiedFindingsJSON ?out [''r-1''] [''a.go''] [''a.go''] [] [[]] = []"
    using p by (simp add: resolveVerifiedFindingsJSON_def clean_a nonempty_paths_def clears_def Let_def
        located_item_def sample_item_def has_unanchored_def matches_list_def hasFindingMatch_def
        countFindingFingerprints_def reported_files_def)
  have "\<not> strictReviewResolutionEvidence v covered_outcome [] db"
    using assms(1) by (simp add: strictReviewResolutionEvidence_def)
  then show ?thesis
    using q r assms(2)
    by (simp add: resolveReviewRoundFindings_def resolveReviewCarry_def resolved_anchors_def mergeOutstandingFindingsJSON_def
        recordWithdrawnFindingsJSON_def dropReviewQuestionFindingsJSON_def [of "[]"] Let_def)
      (simp add: covered_outcome_def)
qed

theorem carried_finding_exit_witness:
  "\<exists>effective remaining answered scoped.
     resolveReviewRoundFindings sample_review (MarshalFindingsJSON (sample_payload [located_item ''r-1'' ''a.go''])) [''r-1''] []
       covered_outcome [] no_tables = (effective, remaining, answered, scoped) \<and>
     findingFingerprint (located_item ''r-1'' ''a.go'') \<notin> findingFingerprint ` set (parsed_items remaining) \<and>
     f_ID (located_item ''r-1'' ''a.go'') \<in> set [''r-1'']"
proof -
  let ?x = "located_item ''r-1'' ''a.go''"
  have p: "ParseFindingsJSON (MarshalFindingsJSON (sample_payload [?x])) = Some (sample_payload [?x])"
    by (rule sample_parse) (simp add: located_ok)
  have res: "resolveReviewRoundFindings sample_review (MarshalFindingsJSON (sample_payload [?x])) [''r-1''] [] covered_outcome [] no_tables =
      ([], [], [], [])"
    by (rule sample_resolution) (simp_all add: sample_review_def zero_run_def)
  have "list_all valid_utf8 (oc_ReviewedPaths covered_outcome)" by (simp add: covered_outcome_def valid_utf8_ascii)
  then show ?thesis
    using res carried_finding_exit [OF p _ _ res, of ?x] by (auto simp: located_item_def sample_item_def)
qed

end
