(* ===== verification/StepLoop.thy ===== *)
theory StepLoop
  imports ReviewResolution StatusCert
begin

text \<open>
  The loop that drives one step of the pipeline, \<open>executeStep\<close> of \<open>internal/pipeline/executor.go\<close>: the
  rounds of the step, the findings it records, the automatic fix rounds, the decision to pass or to
  park, the answers of the gate, and the completion with its execution proof. The locals of the Go
  function are the record \<open>loop\<close>. What comes from outside (the outcome of the step, git, the guard of the
  PR context, the answer of a gate, clocks and new identifiers) is an input of each part; writes
  of the database succeed, and a missing row is an error. Logs, events and telemetry are left out.
\<close>

section \<open>State and inputs\<close>

record step_env =
  se_name :: StepName
  se_id :: string
  se_run :: string
  se_limit :: int
  se_log :: string
  se_provenance :: "(string \<times> string \<times> string) option"

record loop =
  lp_run :: Run
  lp_fixing :: bool
  lp_autoFixRound :: bool
  lp_skipFixExecution :: bool
  lp_finalizing :: bool
  lp_carried :: string
  lp_previous :: string
  lp_deferred :: string
  lp_outstanding :: string
  lp_pending :: "string list"
  lp_selected :: "string list"
  lp_trigger :: string
  lp_roundNum :: int
  lp_autoFixAttempts :: int
  lp_roundID :: string
  lp_executionMS :: int
  lp_overrideMS :: int
  lp_exitCode :: int
  lp_approvedHead :: string
  lp_generation :: int
  lp_restartFrom :: StepName
  lp_skipRemaining :: bool
  lp_skipped :: bool
  lp_skipReason :: string
  lp_proofHead :: string
  lp_proofConfig :: string
  lp_proofEpoch :: int
  lp_passed :: bool
  lp_resumesLeft :: int
  lp_evidence :: int

record stepExecutionState =
  es_fixing :: bool
  es_skipFixExecution :: bool
  es_answering :: bool
  es_previousFindings :: string
  es_deferredFindings :: string
  es_roundNum :: int
  es_autoFixAttempts :: int
  es_executionMS :: int
  es_currentRoundID :: string
  es_selectedOutstandingIDs :: "string list"
  es_outstandingFindings :: string

definition fresh_execution :: stepExecutionState where
  "fresh_execution = \<lparr> es_fixing = False, es_skipFixExecution = False, es_answering = False, es_previousFindings = [],
     es_deferredFindings = [], es_roundNum = 0, es_autoFixAttempts = 0, es_executionMS = 0, es_currentRoundID = [],
     es_selectedOutstandingIDs = [], es_outstandingFindings = [] \<rparr>"

text \<open>The state rebuilt from the recorded rounds.\<close>

definition durable_round :: "stepExecutionState \<Rightarrow> StepRound \<Rightarrow> stepExecutionState" where
  "durable_round s r = s\<lparr>
     es_roundNum := max (es_roundNum s) (sr_Round r),
     es_autoFixAttempts := es_autoFixAttempts s + of_bool (sr_SelectionSource r = Some RoundSelectionSourceAutoFix),
     es_outstandingFindings := deref (sr_FindingsJSON r),
     es_selectedOutstandingIDs := (case sr_SelectedFindingIDs r of
        None \<Rightarrow> es_selectedOutstandingIDs s
      | Some raw \<Rightarrow> combineFindingIDLists (es_selectedOutstandingIDs s) (findingIDsFromSelectionJSON raw))\<rparr>"

definition durableExecutionState :: "string \<Rightarrow> tables \<Rightarrow> stepExecutionState" where
  "durableExecutionState stepID db =
     (let rounds = GetRoundsByStep stepID db; s = foldl durable_round fresh_execution rounds in
      s\<lparr>es_selectedOutstandingIDs := retainFindingIDsByIdentity (es_outstandingFindings s) (es_selectedOutstandingIDs s)
          (selectedFindingIdentities rounds)\<rparr>)"

text \<open>An error of a round, and the refusal of an automatic commit that becomes an outcome of its own.\<close>

record ProtectedPathError =
  pe_Path :: string
  pe_Rule :: string
  pe_Detail :: string
  pe_Message :: string

datatype exec_error = Refused ProtectedPathError | Interrupted string | Contended | Broken string

definition ProtectedPathOutcome :: "ProtectedPathError \<Rightarrow> StepOutcome" where
  "ProtectedPathOutcome r =
     (let summary = (if pe_Detail r \<noteq> [] then ''Automatic commit refused: '' @ pe_Rule r
                     else ''Automatic commit refused for a protected path'');
          finding = zero_finding\<lparr>f_ID := protectedPathFindingID, f_Severity := FindingSeverityError, f_File := pe_Path r,
            f_Description := pe_Message r, f_Action := ActionAskUser\<rparr> in
      zero_outcome\<lparr>oc_NeedsApproval := True,
        oc_Findings := MarshalFindingsJSON (zero_findings\<lparr>fs_Summary := summary, fs_Items := Some [finding]\<rparr>)\<rparr>)"

text \<open>The guard of the PR context: it may fail, keep the round, or restart the run at a step, this one or an
  earlier one; the number is the generation of the evidence afterwards.\<close>

datatype guard = GuardFailed string | GuardKept int | GuardRestarts int StepName bool

record round_input =
  ri_ts :: int
  ri_round_ms :: int
  ri_freeze_ms :: int
  ri_newID :: string
  ri_nonce :: string
  ri_head :: "string option"
  ri_config :: string
  ri_git :: git_view
  ri_immutable_before :: "string option"
  ri_immutable_source :: "string option"
  ri_immutable_after :: "string option"
  ri_result :: "exec_error + StepOutcome"
  ri_run :: Run
  ri_fixApplied :: "bool option"
  ri_guard :: "guard option"
  ri_resumes :: bool

text \<open>Why another round follows, and how a part of the loop ends.\<close>

datatype cause = AutoFixRound | UserFixRound | AnswerRound | NewComparison | ContentionResume | TerminalPR

datatype verdict =
    Again cause loop
  | Park loop string
  | Complete loop
  | Returned bool StepName
  | ParkedAtShutdown
  | InterruptedMonitor
  | Stopped string

section \<open>Entering the step\<close>

definition carries :: "step_env \<Rightarrow> bool" where
  "carries env \<longleftrightarrow> se_name env = StepReview"

definition answerRoundCarriedFindings :: "bool \<Rightarrow> string \<Rightarrow> string" where
  "answerRoundCarriedFindings answering outstanding =
     (if \<not> answering then [] else dropReviewQuestionFindingsJSON outstanding)"

definition enter_loop :: "step_env \<Rightarrow> stepExecutionState \<Rightarrow> int \<Rightarrow> int \<Rightarrow> Run \<Rightarrow> loop" where
  "enter_loop env s resumes evidence run =
     (let out = (if carries env then es_outstandingFindings s else []) in
      \<lparr> lp_run = run, lp_fixing = es_fixing s, lp_autoFixRound = False, lp_skipFixExecution = es_skipFixExecution s,
        lp_finalizing = es_answering s, lp_carried = answerRoundCarriedFindings (es_answering s) out,
        lp_previous = es_previousFindings s, lp_deferred = es_deferredFindings s, lp_outstanding = out,
        lp_pending = (if carries env then es_selectedOutstandingIDs s else []), lp_selected = es_selectedOutstandingIDs s,
        lp_trigger = (if es_answering s then ''answer'' else if es_fixing s then ''auto_fix'' else ''initial''),
        lp_roundNum = es_roundNum s, lp_autoFixAttempts = es_autoFixAttempts s, lp_roundID = es_currentRoundID s,
        lp_executionMS = es_executionMS s, lp_overrideMS = 0, lp_exitCode = 0, lp_approvedHead = [], lp_generation = 0,
        lp_restartFrom = [], lp_skipRemaining = False, lp_skipped = False, lp_skipReason = [], lp_proofHead = [],
        lp_proofConfig = [], lp_proofEpoch = 0, lp_passed = False, lp_resumesLeft = resumes, lp_evidence = evidence \<rparr>)"

definition enter_rows :: "int \<Rightarrow> step_env \<Rightarrow> stepExecutionState \<Rightarrow> tables \<Rightarrow> tables" where
  "enter_rows ts env s db =
     (let db1 = (if es_fixing s \<and> \<not> es_skipFixExecution s then invalidateStatusValidation (se_run env) db else db) in
      if \<not> es_fixing s then StartStepWithAutoFixLimit ts (se_id env) (se_limit env) db1 else db1)"

section \<open>One round\<close>

definition status_proof_required :: "step_env \<Rightarrow> bool" where
  "status_proof_required env \<longleftrightarrow> core_proof_step (se_name env) \<or> IsCustomGate (se_name env)"

definition read_proof :: "step_env \<Rightarrow> round_input \<Rightarrow> tables \<Rightarrow> loop \<Rightarrow> loop" where
  "read_proof env inp db lp =
     (if status_proof_required env
      then lp\<lparr>lp_proofHead := deref (ri_head inp), lp_proofConfig := ri_config inp,
              lp_proofEpoch := StatusValidationEpoch (se_run env) db\<rparr>
      else lp)"

definition immutable_source :: "Run \<Rightarrow> bool" where
  "immutable_source r \<longleftrightarrow> (case rn_Shipping r of None \<Rightarrow> False | Some s \<Rightarrow> so_Mode s = ShippingImmutableSource)"

definition immutable_refusal :: "round_input \<Rightarrow> loop \<Rightarrow> string option" where
  "immutable_refusal inp lp =
     (if \<not> immutable_source (lp_run lp) then None
      else if lp_fixing lp then Some ''immutable source forbids repair rounds''
      else ri_immutable_before inp)"

text \<open>What the execution produced, after the checks of strict shipping and the protected paths.\<close>

definition strict_result :: "step_env \<Rightarrow> round_input \<Rightarrow> exec_error + StepOutcome" where
  "strict_result env inp =
     (case ri_result inp of
        Inl e \<Rightarrow> Inl e
      | Inr o' \<Rightarrow>
          if rn_Shipping (ri_run inp) = None then Inr o'
          else case (if se_name env = StepCI \<and> oc_MergedHeadSHA o' = rn_HeadSHA (ri_run inp) then ri_immutable_source inp
                     else ri_immutable_after inp) of
              Some err \<Rightarrow> Inl (Broken err)
            | None \<Rightarrow> if oc_Skipped o' \<or> oc_SkipRemaining o'
                then Inl (Broken ''strict shipping forbids automatic step skips'') else Inr o')"

definition executed :: "step_env \<Rightarrow> round_input \<Rightarrow> exec_error + StepOutcome" where
  "executed env inp = (case strict_result env inp of Inl (Refused r) \<Rightarrow> Inr (ProtectedPathOutcome r) | res \<Rightarrow> res)"

definition reset_comparison :: "int \<Rightarrow> bool \<Rightarrow> loop \<Rightarrow> loop" where
  "reset_comparison evidence restarting lp =
     (let new = (evidence \<noteq> lp_evidence lp);
          lp1 = (if new then lp\<lparr>lp_roundNum := 0, lp_autoFixAttempts := 0, lp_roundID := [], lp_executionMS := 0,
                   lp_overrideMS := 0, lp_evidence := evidence\<rparr> else lp) in
      if \<not> new \<and> \<not> restarting then lp
      else lp1\<lparr>lp_fixing := False, lp_autoFixRound := False, lp_skipFixExecution := False, lp_finalizing := False,
             lp_carried := [], lp_previous := [], lp_deferred := [], lp_outstanding := [], lp_pending := [],
             lp_selected := [], lp_trigger := ''initial''\<rparr>)"

text \<open>
  The guard after a step, or after the wait at a gate: Inl ends the part, Inr goes on with it. A guard
  that fails after the step ran leaves it failed; one that fails after a wait writes nothing.
\<close>

definition guarded :: "int \<Rightarrow> step_env \<Rightarrow> int option \<Rightarrow> guard option \<Rightarrow> loop \<Rightarrow> tables \<Rightarrow> verdict \<times> tables + loop" where
  "guarded ts env failed_ms g lp db =
     (case (if Order (se_name env) \<ge> Order StepRebase then g else None) of
        None \<Rightarrow> Inr lp
      | Some (GuardFailed err) \<Rightarrow>
          Inl (Stopped err, case failed_ms of None \<Rightarrow> db | Some ms \<Rightarrow> FailStep_sql ts (se_id env) err ms db)
      | Some (GuardKept evidence) \<Rightarrow> Inr (reset_comparison evidence False lp)
      | Some (GuardRestarts evidence target earlier) \<Rightarrow>
          Inl (if earlier then (Returned False target, db)
               else (Again NewComparison (reset_comparison evidence True lp),
                     StartStepWithAutoFixLimit ts (se_id env) (se_limit env) db)))"

definition review_context :: "step_env \<Rightarrow> round_input \<Rightarrow> loop \<Rightarrow> review_ctx" where
  "review_context env inp lp = \<lparr> vx_git = ri_git inp, vx_run = lp_run lp, vx_step = se_id env, vx_finalizing = lp_finalizing lp \<rparr>"

text \<open>The findings of the round: what the gate decides on, with the carried set of a review renewed.\<close>

definition round_findings :: "step_env \<Rightarrow> StepOutcome \<Rightarrow> string" where
  "round_findings env o' = normalizeFindingsJSON (oc_Findings o') (se_name env)"

definition take_findings :: "step_env \<Rightarrow> round_input \<Rightarrow> StepOutcome \<Rightarrow> loop \<Rightarrow> tables \<Rightarrow> string \<times> loop" where
  "take_findings env inp o' lp db =
     (let raw = round_findings env o' in
      if \<not> carries env then (raw, lp)
      else let (effective, remaining, _, _) =
             resolveReviewRoundFindings (review_context env inp lp) (lp_outstanding lp) (lp_pending lp) (lp_selected lp) o' raw db in
        (effective, lp\<lparr>lp_outstanding := remaining, lp_pending := retainFindingIDs remaining (lp_pending lp),
                       lp_selected := retainFindingIDs remaining (lp_selected lp)\<rparr>))"

definition record_round :: "step_env \<Rightarrow> round_input \<Rightarrow> StepOutcome \<Rightarrow> string \<Rightarrow> loop \<Rightarrow> tables \<Rightarrow> tables" where
  "record_round env inp o' effective lp db =
     (let db1 = (if effective \<noteq> [] then SetStepFindings (se_id env) effective db else ClearStepFindings (se_id env) db);
          summary = nonempty (oc_FixSummary o') in
      if se_name env = StepReview then
        (case se_provenance env of
           Some (trusted, global, repo) \<Rightarrow>
             InsertReviewStepRoundWithProvenance (ri_ts inp) (ri_newID inp) (se_id env) (lp_roundNum lp) (lp_trigger lp)
               (nonempty effective) summary (lp_approvedHead lp) (rn_HeadSHA (lp_run lp)) trusted global repo
               (ri_round_ms inp) (ri_fixApplied inp) db1
         | None \<Rightarrow>
             InsertReviewStepRound (ri_ts inp) (ri_newID inp) (se_id env) (lp_roundNum lp) (lp_trigger lp)
               (nonempty effective) summary (lp_approvedHead lp) (ri_round_ms inp) (ri_fixApplied inp) db1)
      else InsertStepRoundWithRepair (ri_ts inp) (ri_newID inp) (se_id env) (lp_roundNum lp) (lp_trigger lp)
             (nonempty effective) summary (oc_RepairPublished o') (ri_round_ms inp) (ri_fixApplied inp) db1)"

text \<open>The automatic fix round: Some of its findings when it is due.\<close>

definition auto_fix_due :: "step_env \<Rightarrow> StepOutcome \<Rightarrow> string \<Rightarrow> string \<Rightarrow> loop \<Rightarrow> string option" where
  "auto_fix_due env o' raw effective lp =
     (let able = (if IsCustomGate (se_name env)
                  then gateAutoFixEligible raw (lp_previous lp) (lp_deferred lp) (lp_fixing lp) else oc_AutoFixable o');
          fixable = autoFixableFindingsJSON raw in
      if able \<and> se_limit env > 0 \<and> lp_autoFixAttempts lp < se_limit env
      then nonempty (if carries env then remapFindingIDsJSON effective fixable else fixable) else None)"

definition start_auto_fix :: "step_env \<Rightarrow> round_input \<Rightarrow> string \<Rightarrow> string \<Rightarrow> loop \<Rightarrow> loop" where
  "start_auto_fix env inp effective fixable lp =
     (let ids = findingIDList fixable; add = (\<lambda>xs. if carries env then combineFindingIDLists xs ids else xs) in
      lp\<lparr>lp_autoFixAttempts := lp_autoFixAttempts lp + 1, lp_executionMS := lp_executionMS lp + ri_freeze_ms inp,
         lp_fixing := True, lp_autoFixRound := True, lp_finalizing := False, lp_skipFixExecution := False,
         lp_previous := fixable, lp_deferred := excludeFindingsJSON effective ids,
         lp_pending := add (lp_pending lp), lp_selected := add (lp_selected lp), lp_trigger := ''auto_fix''\<rparr>)"

definition select_auto_fix :: "string \<Rightarrow> string \<Rightarrow> tables \<Rightarrow> tables" where
  "select_auto_fix rnd fixable db =
     (if rnd \<noteq> [] \<and> findingIDsJSON fixable \<noteq> []
      then SetStepRoundSelection rnd (Some (findingIDsJSON fixable)) RoundSelectionSourceAutoFix db else db)"

definition passes :: "step_env \<Rightarrow> StepOutcome \<Rightarrow> string \<Rightarrow> loop \<Rightarrow> bool" where
  "passes env o' gate lp \<longleftrightarrow> \<not> oc_NeedsApproval o' \<and> \<not> hasAskUserFindingsJSON gate \<and>
     \<not> hasBlockingFindingsAtStepJSON gate (se_name env) \<and>
     (\<not> carries env \<or> \<not> hasSelectedFindingsJSON gate (lp_selected lp))"

text \<open>After the round is recorded: an automatic fix, a pass, or the gate.\<close>

definition decide :: "step_env \<Rightarrow> round_input \<Rightarrow> StepOutcome \<Rightarrow> string \<Rightarrow> loop \<Rightarrow> tables \<Rightarrow> verdict \<times> tables" where
  "decide env inp o' effective lp db =
     (let raw = round_findings env o' in
      case auto_fix_due env o' raw effective lp of
        Some fixable \<Rightarrow>
          (case StartStepFixRound (ri_ts inp) (se_id env) (se_limit env) db of
             None \<Rightarrow> (Stopped ''invalidate before fix round'', db)
           | Some db1 \<Rightarrow> (Again AutoFixRound (start_auto_fix env inp effective fixable lp),
                          select_auto_fix (lp_roundID lp) fixable db1))
      | None \<Rightarrow>
          if passes env o' (if oc_RestartFrom o' \<noteq> [] then raw else effective) lp
          then (Complete (lp\<lparr>lp_skipRemaining := oc_SkipRemaining o', lp_skipped := oc_Skipped o',
                  lp_skipReason := oc_SkipReason o', lp_passed := True\<rparr>), db)
          else let lp1 = lp\<lparr>lp_executionMS := lp_executionMS lp + ri_freeze_ms inp\<rparr> in
            case ParkStepForApproval_sql (ri_ts inp) (ri_nonce inp) (se_run env) (se_id env)
                   (if lp_fixing lp then StepStatusFixReview else StepStatusAwaitingApproval)
                   (lp_exitCode lp) (lp_executionMS lp1) (nonempty effective) (nonempty (lp_roundID lp)) db of
              None \<Rightarrow> (Stopped ''persist approval gate'', db)
            | Some db1 \<Rightarrow> (Park lp1 effective, db1))"

definition take_outcome :: "step_env \<Rightarrow> StepOutcome \<Rightarrow> loop \<Rightarrow> loop" where
  "take_outcome env o' lp =
     (let lp1 = lp\<lparr>lp_restartFrom := oc_RestartFrom o', lp_exitCode := oc_ExitCode o',
                  lp_overrideMS := lp_overrideMS lp + oc_DurationOverrideMS o'\<rparr> in
      if se_name env = StepReview
      then lp1\<lparr>lp_approvedHead := oc_ReviewApprovedHeadSHA o', lp_generation := oc_ReviewComparisonGeneration o'\<rparr>
      else lp1)"

definition take_url :: "StepOutcome \<Rightarrow> loop \<Rightarrow> loop" where
  "take_url o' lp = (if oc_PRURL o' \<noteq> [] then lp\<lparr>lp_run := (lp_run lp)\<lparr>rn_PRURL := Some (oc_PRURL o')\<rparr>\<rparr> else lp)"

definition finish_round :: "step_env \<Rightarrow> round_input \<Rightarrow> StepOutcome \<Rightarrow> loop \<Rightarrow> tables \<Rightarrow> verdict \<times> tables" where
  "finish_round env inp o' lp db =
     (let (effective, lp1) = take_findings env inp o' (take_outcome env o' lp) db;
          db1 = record_round env inp o' effective lp1 db in
      decide env inp o' effective (take_url o' (lp1\<lparr>lp_roundID := ri_newID inp\<rparr>)) db1)"

definition round_error :: "step_env \<Rightarrow> round_input \<Rightarrow> exec_error \<Rightarrow> loop \<Rightarrow> tables \<Rightarrow> verdict \<times> tables" where
  "round_error env inp e lp db =
     (case e of
        Interrupted err \<Rightarrow>
          if se_name env = StepCI then (InterruptedMonitor, db)
          else (Stopped err, FailStep_sql (ri_ts inp) (se_id env) err (lp_executionMS lp + ri_round_ms inp) db)
      | Contended \<Rightarrow>
          if se_name env = StepCI \<and> \<not> lp_fixing lp \<and> lp_trigger lp = ''initial'' \<and> lp_resumesLeft lp > 0 \<and> ri_resumes inp
          then (Again ContentionResume (lp\<lparr>lp_resumesLeft := lp_resumesLeft lp - 1\<rparr>), db)
          else (Stopped ''infrastructure failure'', db)
      | Broken err \<Rightarrow>
          (Stopped err, FailStep_sql (ri_ts inp) (se_id env) err (lp_executionMS lp + ri_round_ms inp) db)
      | Refused _ \<Rightarrow> (Stopped [], db))"

definition run_round :: "step_env \<Rightarrow> round_input \<Rightarrow> loop \<Rightarrow> tables \<Rightarrow> verdict \<times> tables" where
  "run_round env inp lp db =
     (let lp1 = read_proof env inp db lp in
      case immutable_refusal inp lp1 of
        Some err \<Rightarrow> (Stopped err, db)
      | None \<Rightarrow>
          let lp2 = lp1\<lparr>lp_run := ri_run inp\<rparr> in
          case executed env inp of
            Inl e \<Rightarrow> round_error env inp e lp2 db
          | Inr o' \<Rightarrow>
              (case guarded (ri_ts inp) env (Some (ri_round_ms inp)) (ri_guard inp) lp2 db of
                 Inl v \<Rightarrow> v
               | Inr lp3 \<Rightarrow> finish_round env inp o' (lp3\<lparr>lp_roundNum := lp_roundNum lp3 + 1\<rparr>) db))"

section \<open>The answer of the gate\<close>

text \<open>
  \<open>applyApprovalOverride\<close>: the error, None when the approval stands, and the rows. \<open>unresolved\<close> is what the
  verifier of the step found, None for a step without one.
\<close>

definition record_gaps :: "string \<Rightarrow> string \<Rightarrow> AcceptedGaps \<Rightarrow> bool \<Rightarrow> tables \<Rightarrow> string option \<times> tables" where
  "record_gaps at i gaps strict db =
     (case RecordAcceptedGaps at (GetStepResult i db) gaps strict of
        Inl _ \<Rightarrow> (Some ''accepted gap refused'', db)
      | Inr (_, row) \<Rightarrow>
          let db1 = steps_update (\<lambda>r. sp_ID r = i \<and> active_test_row r)
                      (\<lambda>r. r\<lparr>sp_AcceptedGapsJSON := sp_AcceptedGapsJSON row\<rparr>) db in
          (case GetStepResult i db1 of
             None \<Rightarrow> (Some ''accepted gap was not durably recorded'', db1)
           | Some now \<Rightarrow>
               if ValidAcceptedGaps now = None then (Some ''accepted gap was not durably recorded'', db1)
               else if strict \<and> StrictApprovalRefusal now [] \<noteq> None then (Some ''strict approval refused'', db1)
               else (None, db1)))"

definition reuses_gaps :: "string \<Rightarrow> string \<Rightarrow> bool \<Rightarrow> tables \<Rightarrow> bool" where
  "reuses_gaps i reason strict db \<longleftrightarrow> reason = [] \<and>
     (case GetStepResult i db of None \<Rightarrow> False | Some row \<Rightarrow>
        ValidAcceptedGaps row \<noteq> None \<and> (strict \<longrightarrow> StrictApprovalRefusal row [] = None))"

definition approval_record ::
  "string \<Rightarrow> step_env \<Rightarrow> string \<Rightarrow> AcceptedGaps option \<Rightarrow> bool \<Rightarrow> tables \<Rightarrow> string option \<times> tables" where
  "approval_record at env reason gaps strict db =
     (case gaps of
        Some g \<Rightarrow> record_gaps at (se_id env) g strict db
      | None \<Rightarrow>
          if se_name env = StepTest \<and> \<not> reuses_gaps (se_id env) reason strict db
          then let (ok, db1) = SetTestApprovalReason (se_id env) reason db in
            (if ok then None else Some ''test approval reason was not recorded'', db1)
          else (None, db))"

definition applyApprovalOverride ::
  "string \<Rightarrow> step_env \<Rightarrow> string \<Rightarrow> AcceptedGaps option \<Rightarrow> string option \<Rightarrow> bool \<Rightarrow> tables \<Rightarrow> string option \<times> tables" where
  "applyApprovalOverride at env reason gaps unresolved strict db =
     (let (err, db1) = approval_record at env reason gaps strict db in
      if err \<noteq> None then (err, db1)
      else case nonempty (deref unresolved) of
          None \<Rightarrow> (None, db1)
        | Some text \<Rightarrow>
            if strict then (Some (''strict shipping forbids approval overrides: '' @ text), db1)
            else (case SetStepOverrideReason (se_id env) text db1 of
                    None \<Rightarrow> (Some ''record approval override reason'', db1)
                  | Some db2 \<Rightarrow> (None, db2)))"

datatype gate_event =
    GateShutdown
  | GateWaitFailed string bool
  | GateReconciled
  | GateAnswered approvalResponse

record gate_input =
  gi_ts :: int
  gi_event :: gate_event
  gi_guard :: "guard option"
  gi_unresolved :: "string option"
  gi_log :: string
  gi_at :: string

text \<open>\<open>recordDeclinedRound\<close>\<close>

definition findingsCount :: "string \<Rightarrow> nat" where
  "findingsCount raw = (case ParseFindingsJSON raw of None \<Rightarrow> 0 | Some fs \<Rightarrow> length (items fs))"

definition recordDeclinedRound :: "string \<Rightarrow> string \<Rightarrow> tables \<Rightarrow> tables" where
  "recordDeclinedRound rnd findings db =
     (if rnd = [] \<or> findingsCount findings = 0 then db else SetStepRoundDeclined_sql rnd db)"

definition terminalPRObserved :: "Run \<Rightarrow> bool" where
  "terminalPRObserved r \<longleftrightarrow> rn_PRState r = Some ''closed'' \<or> rn_PRState r = Some ''merged''"

definition start_user_fix :: "step_env \<Rightarrow> string \<Rightarrow> approvalResponse \<Rightarrow> loop \<Rightarrow> loop" where
  "start_user_fix env effective r lp =
     (let (selected, merged, outstanding, persisted) = normalizeFixSelection effective r (carries env);
          ids = combineSelectedFindingIDs (ar_findingIDs r) persisted;
          lp1 = lp\<lparr>lp_fixing := True, lp_autoFixRound := False, lp_finalizing := False, lp_skipFixExecution := False,
            lp_previous := merged, lp_deferred := excludeFindingsJSON effective (findingIDList selected),
            lp_trigger := ''auto_fix''\<rparr> in
      if carries env
      then lp1\<lparr>lp_outstanding := outstanding, lp_pending := combineFindingIDLists (lp_pending lp) ids,
               lp_selected := combineFindingIDLists (lp_selected lp) ids\<rparr>
      else lp1)"

definition start_answer :: "step_env \<Rightarrow> loop \<Rightarrow> loop" where
  "start_answer env lp =
     (let lp1 = lp\<lparr>lp_finalizing := True, lp_skipFixExecution := True, lp_trigger := ''answer''\<rparr> in
      if carries env then lp1\<lparr>lp_carried := answerRoundCarriedFindings True (lp_outstanding lp)\<rparr> else lp1)"

definition clean_gap_row :: "string \<Rightarrow> tables \<Rightarrow> bool" where
  "clean_gap_row i db \<longleftrightarrow> (case GetStepResult i db of None \<Rightarrow> False | Some row \<Rightarrow>
     ValidAcceptedGaps row \<noteq> None \<and> sp_OverrideReason row = None \<and> sp_ApprovalReason row = None)"

definition approve_gate :: "step_env \<Rightarrow> gate_input \<Rightarrow> string \<Rightarrow> approvalResponse \<Rightarrow> loop \<Rightarrow> tables \<Rightarrow> verdict \<times> tables" where
  "approve_gate env inp effective r lp db =
     (let (err, db1) = applyApprovalOverride (gi_at inp) env (ar_approvalReason r) (ar_acceptedGaps r) (gi_unresolved inp)
            (rn_Shipping (lp_run lp) \<noteq> None) (recordDeclinedRound (lp_roundID lp) effective db) in
      case err of
        Some text \<Rightarrow> (Stopped text, db1)
      | None \<Rightarrow>
          (Complete (if se_name env = StepTest \<and> clean_gap_row (se_id env) db1 then lp\<lparr>lp_passed := True\<rparr> else lp), db1))"

definition respond_gate :: "step_env \<Rightarrow> gate_input \<Rightarrow> string \<Rightarrow> approvalResponse \<Rightarrow> loop \<Rightarrow> tables \<Rightarrow> verdict \<times> tables" where
  "respond_gate env inp effective r lp db =
     (if ar_action r = ActionApprove then approve_gate env inp effective r lp db
      else if ar_action r = ActionSkip then
        (Returned False [], CompleteStepWithStatus (gi_ts inp) (se_id env) StepStatusSkipped (lp_exitCode lp)
           (lp_executionMS lp) (gi_log inp) (recordDeclinedRound (lp_roundID lp) effective db))
      else if ar_action r = ActionFix then
        (case StartStepFixRound (gi_ts inp) (se_id env) (se_limit env) db of
           None \<Rightarrow> (Stopped ''invalidate before fix round'', db)
         | Some db1 \<Rightarrow> (Again UserFixRound (start_user_fix env effective r lp), db1))
      else if ar_action r = ActionAnswer then
        (if se_name env \<noteq> StepReview then (Stopped ''answer is only a review response'', db)
         else (Again AnswerRound (start_answer env lp), UpdateStepStatus (gi_ts inp) (se_id env) StepStatusRunning db))
      else (Stopped ''unrecognized approval action'',
            FailStep_sql (gi_ts inp) (se_id env) ''unrecognized approval action'' (lp_executionMS lp) db))"

definition answer_gate :: "step_env \<Rightarrow> gate_input \<Rightarrow> string \<Rightarrow> loop \<Rightarrow> tables \<Rightarrow> verdict \<times> tables" where
  "answer_gate env inp effective lp db =
     (case gi_event inp of
        GateShutdown \<Rightarrow> (ParkedAtShutdown, db)
      | GateWaitFailed err aborted \<Rightarrow>
          (Stopped err, FailStep_sql (gi_ts inp) (se_id env) err (lp_executionMS lp)
             (if aborted then recordDeclinedRound (lp_roundID lp) effective db else db))
      | GateReconciled \<Rightarrow>
          (case guarded (gi_ts inp) env None (gi_guard inp) lp db of
             Inl v \<Rightarrow> v
           | Inr lp1 \<Rightarrow>
               if se_name env = StepCI \<and> terminalPRObserved (lp_run lp1)
               then (Again TerminalPR (lp1\<lparr>lp_fixing := False, lp_skipFixExecution := False, lp_carried := [],
                       lp_previous := [], lp_deferred := [], lp_trigger := ''initial''\<rparr>),
                     StartStepWithAutoFixLimit (gi_ts inp) (se_id env) (se_limit env) db)
               else (Complete lp1, db))
      | GateAnswered r \<Rightarrow>
          if ar_action r = ActionAbort
          then (Stopped ''aborted by user'', FailStep_sql (gi_ts inp) (se_id env) ''aborted by user'' (lp_executionMS lp)
                  (recordDeclinedRound (lp_roundID lp) effective db))
          else (case guarded (gi_ts inp) env None (gi_guard inp) lp db of
                  Inl v \<Rightarrow> v
                | Inr lp1 \<Rightarrow> respond_gate env inp effective r lp1 db))"

section \<open>Completion\<close>

record done_input =
  di_ts :: int
  di_elapsed_ms :: int
  di_ci_error :: "string option"
  di_ci_interrupted :: bool
  di_log :: string
  di_head :: "string option"
  di_config :: string

definition completes :: "step_env \<Rightarrow> done_input \<Rightarrow> loop \<Rightarrow> int \<Rightarrow> tables \<Rightarrow> tables option" where
  "completes env inp lp ms db =
     (if se_name env = StepReview \<and> \<not> lp_skipped lp \<and> lp_approvedHead lp \<noteq> [] then
        (case CompleteReviewStep (di_ts inp) (se_id env) (se_run env) (lp_approvedHead lp) (lp_exitCode lp) ms
                (di_log inp) [lp_generation lp] db of Inl _ \<Rightarrow> None | Inr db1 \<Rightarrow> Some db1)
      else Some (if lp_skipped lp
        then CompleteSkippedStep (di_ts inp) (se_id env) (lp_exitCode lp) ms (di_log inp) (lp_skipReason lp) db
        else CompleteStepWithStatus (di_ts inp) (se_id env) StepStatusCompleted (lp_exitCode lp) ms (di_log inp) db))"

definition proof_due :: "step_env \<Rightarrow> done_input \<Rightarrow> loop \<Rightarrow> bool" where
  "proof_due env inp lp \<longleftrightarrow> status_proof_required env \<and> (lp_passed lp \<or> IsCustomGate (se_name env)) \<and>
     \<not> lp_skipped lp \<and> lp_exitCode lp = 0 \<and> lp_proofHead lp \<noteq> [] \<and> lp_proofConfig lp = di_config inp \<and>
     di_head inp = Some (lp_proofHead lp)"

definition finish_step :: "step_env \<Rightarrow> done_input \<Rightarrow> loop \<Rightarrow> tables \<Rightarrow> verdict \<times> tables" where
  "finish_step env inp lp db =
     (let ms = (if lp_overrideMS lp > 0 then lp_overrideMS lp else lp_executionMS lp + di_elapsed_ms inp);
          out = Returned (lp_skipRemaining lp) (lp_restartFrom lp) in
      if lp_restartFrom lp \<noteq> [] then (out, db)
      else case (if se_name env = StepCI \<and> \<not> lp_skipped lp then di_ci_error inp else None) of
          Some err \<Rightarrow>
            if di_ci_interrupted inp then (InterruptedMonitor, db)
            else (Stopped err, FailStep_sql (di_ts inp) (se_id env) err ms db)
        | None \<Rightarrow>
            (case completes env inp lp ms db of
               None \<Rightarrow> (Stopped ''complete step'', db)
             | Some db1 \<Rightarrow>
                 (out, if proof_due env inp lp
                       then RecordStatusValidationStep (se_id env) (se_run env) (lp_proofHead lp) (lp_proofConfig lp)
                              (lp_proofEpoch lp) db1
                       else db1)))"

section \<open>The same answer after a restart of the daemon\<close>

text \<open>\<open>Resume\<close>: the state in which a fix or an answer of a recovered gate enters the step again.\<close>

definition recovered_state :: "recovered_gate \<Rightarrow> approvalResponse \<Rightarrow> int \<Rightarrow> stepExecutionState" where
  "recovered_state g r ms =
     (let s = fresh_execution\<lparr>es_roundNum := rg_round g, es_autoFixAttempts := int (rg_autoFixes g), es_executionMS := ms,
                es_currentRoundID := rg_lastRoundID g\<rparr> in
      if ar_action r = ActionAnswer then
        (let s1 = s\<lparr>es_answering := True, es_outstandingFindings := rg_findings g,
                    es_selectedOutstandingIDs := rg_selectedOutstandingIDs g\<rparr> in
         if sp_Status (rg_stepResult g) = StepStatusFixReview then s1\<lparr>es_fixing := True, es_skipFixExecution := True\<rparr> else s1)
      else
        (let (selected, merged, outstanding, persisted) = normalizeFixSelection (rg_findings g) r (rg_step g = StepReview);
             ids = combineSelectedFindingIDs (ar_findingIDs r) persisted in
         s\<lparr>es_fixing := True, es_previousFindings := merged,
           es_deferredFindings := excludeFindingsJSON (rg_findings g) (findingIDList selected),
           es_outstandingFindings := outstanding,
           es_selectedOutstandingIDs := (if rg_step g = StepReview
             then combineFindingIDLists (rg_selectedOutstandingIDs g) ids else rg_selectedOutstandingIDs g)\<rparr>))"

definition recovered_rows :: "int \<Rightarrow> int \<Rightarrow> recovered_gate \<Rightarrow> approvalResponse \<Rightarrow> tables \<Rightarrow> tables option" where
  "recovered_rows ts limit g r db =
     (if ar_action r = ActionAnswer then Some (UpdateStepStatus ts (sp_ID (rg_stepResult g)) StepStatusRunning db)
      else StartStepFixRound ts (sp_ID (rg_stepResult g)) limit db)"

section \<open>The step as a transition system\<close>

text \<open>
  Between two parts of the loop any other writer may change the tables (\<open>World\<close>). A label is the cause
  of another round with the generation of evidence it starts in. Generations never go back.
\<close>

datatype phase = Running loop | Gated loop string | Finishing loop | Ended verdict

fun phase_of :: "verdict \<Rightarrow> phase" where
  "phase_of (Again c lp) = Running lp"
| "phase_of (Park lp effective) = Gated lp effective"
| "phase_of (Complete lp) = Finishing lp"
| "phase_of v = Ended v"

fun label_of :: "verdict \<Rightarrow> (cause \<times> int) list" where
  "label_of (Again c lp) = [(c, lp_evidence lp)]"
| "label_of _ = []"

fun guard_from :: "int \<Rightarrow> guard option \<Rightarrow> bool" where
  "guard_from g (Some (GuardKept e)) \<longleftrightarrow> g \<le> e"
| "guard_from g (Some (GuardRestarts e _ _)) \<longleftrightarrow> g \<le> e"
| "guard_from g _ \<longleftrightarrow> True"

inductive loop_run :: "step_env \<Rightarrow> phase \<Rightarrow> (cause \<times> int) list \<Rightarrow> phase \<times> tables \<Rightarrow> bool" for env start where
  Enter: "loop_run env start [] (start, db)"
| World: "loop_run env start cs (ph, db) \<Longrightarrow> loop_run env start cs (ph, db')"
| Round: "loop_run env start cs (Running lp, db) \<Longrightarrow> guard_from (lp_evidence lp) (ri_guard inp) \<Longrightarrow>
    run_round env inp lp db = (v, db') \<Longrightarrow> loop_run env start (cs @ label_of v) (phase_of v, db')"
| Answer: "loop_run env start cs (Gated lp effective, db) \<Longrightarrow> guard_from (lp_evidence lp) (gi_guard inp') \<Longrightarrow>
    answer_gate env inp' effective lp db = (v, db') \<Longrightarrow> loop_run env start (cs @ label_of v) (phase_of v, db')"
| Finish: "loop_run env start cs (Finishing lp, db) \<Longrightarrow>
    finish_step env inp'' lp db = (v, db') \<Longrightarrow> loop_run env start cs (Ended v, db')"

inductive_cases run_to_runningE: "loop_run env start cs (Running lp, db)"

section \<open>Every part keeps the shape of the loop\<close>

text \<open>What a verdict leaves behind, when it goes on.\<close>

fun loop_of :: "verdict \<Rightarrow> loop option" where
  "loop_of (Again c lp) = Some lp"
| "loop_of (Park lp effective) = Some lp"
| "loop_of (Complete lp) = Some lp"
| "loop_of _ = None"

lemma read_proof_fields [simp]:
  "lp_evidence (read_proof env inp db lp) = lp_evidence lp" "lp_autoFixAttempts (read_proof env inp db lp) = lp_autoFixAttempts lp"
  "lp_pending (read_proof env inp db lp) = lp_pending lp" "lp_selected (read_proof env inp db lp) = lp_selected lp"
  "lp_outstanding (read_proof env inp db lp) = lp_outstanding lp" "lp_passed (read_proof env inp db lp) = lp_passed lp"
  "lp_fixing (read_proof env inp db lp) = lp_fixing lp" "lp_resumesLeft (read_proof env inp db lp) = lp_resumesLeft lp"
  "lp_trigger (read_proof env inp db lp) = lp_trigger lp" "lp_executionMS (read_proof env inp db lp) = lp_executionMS lp"
  by (simp_all add: read_proof_def)

lemma take_outcome_fields [simp]:
  "lp_evidence (take_outcome env o' lp) = lp_evidence lp" "lp_autoFixAttempts (take_outcome env o' lp) = lp_autoFixAttempts lp"
  "lp_pending (take_outcome env o' lp) = lp_pending lp" "lp_selected (take_outcome env o' lp) = lp_selected lp"
  "lp_outstanding (take_outcome env o' lp) = lp_outstanding lp" "lp_passed (take_outcome env o' lp) = lp_passed lp"
  "lp_fixing (take_outcome env o' lp) = lp_fixing lp" "lp_resumesLeft (take_outcome env o' lp) = lp_resumesLeft lp"
  "lp_restartFrom (take_outcome env o' lp) = oc_RestartFrom o'"
  by (simp_all add: take_outcome_def Let_def)

lemma take_url_fields [simp]:
  "lp_evidence (take_url o' lp) = lp_evidence lp" "lp_autoFixAttempts (take_url o' lp) = lp_autoFixAttempts lp"
  "lp_pending (take_url o' lp) = lp_pending lp" "lp_selected (take_url o' lp) = lp_selected lp"
  "lp_outstanding (take_url o' lp) = lp_outstanding lp" "lp_passed (take_url o' lp) = lp_passed lp"
  "lp_fixing (take_url o' lp) = lp_fixing lp" "lp_resumesLeft (take_url o' lp) = lp_resumesLeft lp"
  "lp_restartFrom (take_url o' lp) = lp_restartFrom lp"
  by (simp_all add: take_url_def)

lemma take_findings_loop:
  assumes "take_findings env inp o' lp db = (effective, lp')"
  shows "lp_evidence lp' = lp_evidence lp \<and> lp_autoFixAttempts lp' = lp_autoFixAttempts lp \<and> lp_passed lp' = lp_passed lp \<and>
    lp_fixing lp' = lp_fixing lp \<and> lp_resumesLeft lp' = lp_resumesLeft lp \<and> lp_restartFrom lp' = lp_restartFrom lp"
  using assms by (auto simp: take_findings_def Let_def split: if_splits prod.splits)

definition loop_ok :: "step_env \<Rightarrow> loop \<Rightarrow> bool" where
  "loop_ok env lp \<longleftrightarrow> (if carries env then lp_pending lp = lp_selected lp else lp_outstanding lp = [] \<and> lp_pending lp = [])"

fun auto_fixes :: "verdict \<Rightarrow> int" where
  "auto_fixes (Again AutoFixRound lp) = 1"
| "auto_fixes _ = 0"

definition advances :: "step_env \<Rightarrow> loop \<Rightarrow> verdict \<Rightarrow> bool" where
  "advances env lp v \<longleftrightarrow> (\<forall>lp'. loop_of v = Some lp' \<longrightarrow>
     lp_evidence lp \<le> lp_evidence lp' \<and>
     lp_autoFixAttempts lp' = (if lp_evidence lp' = lp_evidence lp then lp_autoFixAttempts lp else 0) + auto_fixes v \<and>
     (auto_fixes v = 1 \<longrightarrow> lp_autoFixAttempts lp' \<le> se_limit env) \<and>
     (loop_ok env lp \<longrightarrow> loop_ok env lp') \<and>
     (lp_passed lp' \<longrightarrow> lp_passed lp \<or> v = Complete lp'))"

lemma advances_stop [simp]: "loop_of v = None \<Longrightarrow> advances env lp v"
  by (simp add: advances_def)

lemma advances_from:
  assumes "advances env lp' v" "lp_evidence lp \<le> lp_evidence lp'"
    and "lp_autoFixAttempts lp' = (if lp_evidence lp' = lp_evidence lp then lp_autoFixAttempts lp else 0)"
    and "loop_ok env lp \<Longrightarrow> loop_ok env lp'" "lp_passed lp' \<Longrightarrow> lp_passed lp"
  shows "advances env lp v"
  using assms unfolding advances_def by (smt (verit))

lemma reset_comparison_advances:
  "lp_evidence lp \<le> e \<Longrightarrow> lp_evidence (reset_comparison e b lp) = e \<and>
   lp_autoFixAttempts (reset_comparison e b lp) = (if e = lp_evidence lp then lp_autoFixAttempts lp else 0) \<and>
   (loop_ok env lp \<longrightarrow> loop_ok env (reset_comparison e b lp)) \<and>
   lp_passed (reset_comparison e b lp) = lp_passed lp"
  by (auto simp: reset_comparison_def Let_def loop_ok_def)

lemma guarded_stops:
  assumes "guarded ts env ms g lp db = Inl (v, db')" "guard_from (lp_evidence lp) g"
  shows "advances env lp v"
proof (cases "loop_of v")
  case (Some lp')
  then obtain e t where "g = Some (GuardRestarts e t False)" "v = Again NewComparison (reset_comparison e True lp)"
    using assms(1) by (auto simp: guarded_def split: if_splits option.splits guard.splits)
  then show ?thesis using assms(2) reset_comparison_advances [of lp e _ env] by (auto simp: advances_def)
qed simp

lemma guarded_goes_on:
  assumes "guarded ts env ms g lp db = Inr lp'" "guard_from (lp_evidence lp) g" "advances env lp' v"
  shows "advances env lp v"
proof -
  consider "lp' = lp" | e where "g = Some (GuardKept e)" "lp' = reset_comparison e False lp"
    using assms(1) by (auto simp: guarded_def split: if_splits option.splits guard.splits)
  then show ?thesis
  proof cases
    case (2 e)
    then show ?thesis
      using assms(2) reset_comparison_advances [of lp e _ env] by (intro advances_from [OF assms(3)]) auto
  qed (use assms(3) in simp)
qed

lemma decide_advances:
  assumes "decide env inp o' effective lp db = (v, db')"
  shows "advances env lp v"
proof (cases "auto_fix_due env o' (round_findings env o') effective lp")
  case (Some fixable)
  then have "lp_autoFixAttempts lp < se_limit env"
    by (auto simp: auto_fix_due_def Let_def split: if_splits)
  then show ?thesis
    using assms Some by (auto simp: decide_def Let_def advances_def start_auto_fix_def loop_ok_def split: option.splits)
next
  case None
  then show ?thesis
    using assms by (auto simp: decide_def Let_def advances_def loop_ok_def split: option.splits if_splits)
qed

lemma take_findings_ok:
  assumes "take_findings env inp o' lp db = (effective, lp')" "loop_ok env lp"
  shows "loop_ok env lp'"
  using assms by (auto simp: take_findings_def Let_def loop_ok_def split: if_splits prod.splits)

lemma finish_round_advances:
  assumes "finish_round env inp o' lp db = (v, db')"
  shows "advances env lp v"
proof -
  obtain effective lp1 where t: "take_findings env inp o' (take_outcome env o' lp) db = (effective, lp1)" by fastforce
  define lp2 where "lp2 = take_url o' (lp1\<lparr>lp_roundID := ri_newID inp\<rparr>)"
  have d: "advances env lp2 v"
    using assms t decide_advances by (auto simp: finish_round_def Let_def lp2_def)
  have "loop_ok env (take_outcome env o' lp)" if "loop_ok env lp" using that by (simp add: loop_ok_def)
  then show ?thesis
    using take_findings_loop [OF t] take_findings_ok [OF t]
    by (intro advances_from [OF d]) (auto simp: lp2_def loop_ok_def split: if_splits)
qed

lemma run_round_advances:
  assumes "run_round env inp lp db = (v, db')" "guard_from (lp_evidence lp) (ri_guard inp)"
  shows "advances env lp v"
proof -
  define lp2 where "lp2 = (read_proof env inp db lp)\<lparr>lp_run := ri_run inp\<rparr>"
  have "advances env lp2 v"
  proof (cases "immutable_refusal inp (read_proof env inp db lp)")
    case None
    show ?thesis
    proof (cases "executed env inp")
      case (Inl e)
      then show ?thesis
        using assms(1) None by (cases e) (auto simp: run_round_def round_error_def Let_def lp2_def [symmetric] advances_def loop_ok_def split: if_splits)
    next
      case (Inr o')
      show ?thesis
      proof (cases "guarded (ri_ts inp) env (Some (ri_round_ms inp)) (ri_guard inp) lp2 db")
        case (Inl w)
        then have "w = (v, db')"
          using assms(1) None Inr by (simp add: run_round_def Let_def lp2_def)
        then show ?thesis using guarded_stops Inl assms(2) by (simp add: lp2_def)
      next
        case (Inr lp3)
        then have "finish_round env inp o' (lp3\<lparr>lp_roundNum := lp_roundNum lp3 + 1\<rparr>) db = (v, db')"
          using assms(1) None \<open>executed env inp = Inr o'\<close> by (simp add: run_round_def Let_def lp2_def)
        then have "advances env lp3 v"
          by (rule advances_from [OF finish_round_advances]) (auto simp: loop_ok_def split: if_splits)
        then show ?thesis using guarded_goes_on [OF Inr] assms(2) by (simp add: lp2_def)
      qed
    qed
  qed (use assms(1) in \<open>auto simp: run_round_def Let_def\<close>)
  then show ?thesis by (rule advances_from) (simp_all add: lp2_def loop_ok_def)
qed

lemma respond_gate_advances:
  assumes "respond_gate env inp effective r lp db = (v, db')"
  shows "advances env lp v"
proof -
  have "advances env lp (Again UserFixRound (start_user_fix env effective r lp))"
    by (auto simp: advances_def start_user_fix_def Let_def loop_ok_def split: prod.splits)
  moreover have "advances env lp (Again AnswerRound (start_answer env lp))"
    by (auto simp: advances_def start_answer_def Let_def loop_ok_def)
  moreover have "advances env lp v" if "approve_gate env inp effective r lp db = (v, db')"
    using that by (auto simp: approve_gate_def Let_def advances_def loop_ok_def split: prod.splits option.splits if_splits)
  ultimately show ?thesis
    using assms by (auto simp: respond_gate_def split: if_splits option.splits)
qed

lemma answer_gate_advances:
  assumes "answer_gate env inp effective lp db = (v, db')" "guard_from (lp_evidence lp) (gi_guard inp)"
  shows "advances env lp v"
proof (cases "gi_event inp")
  case GateReconciled
  show ?thesis
  proof (cases "guarded (gi_ts inp) env None (gi_guard inp) lp db")
    case (Inl w)
    then show ?thesis using assms GateReconciled guarded_stops by (cases w) (auto simp: answer_gate_def)
  next
    case (Inr lp1)
    then have "advances env lp1 v"
      using assms(1) GateReconciled by (auto simp: answer_gate_def advances_def loop_ok_def split: if_splits)
    then show ?thesis using guarded_goes_on [OF Inr assms(2)] by simp
  qed
next
  case (GateAnswered r)
  show ?thesis
  proof (cases "guarded (gi_ts inp) env None (gi_guard inp) lp db")
    case (Inl w)
    then show ?thesis using assms GateAnswered guarded_stops by (cases w) (auto simp: answer_gate_def split: if_splits)
  next
    case (Inr lp1)
    then have "advances env lp1 v \<or> loop_of v = None"
      using assms(1) GateAnswered respond_gate_advances by (auto simp: answer_gate_def split: if_splits)
    then show ?thesis using guarded_goes_on [OF Inr assms(2)] by auto
  qed
qed (use assms in \<open>auto simp: answer_gate_def\<close>)

section \<open>Invariants of a step\<close>

fun phase_loop :: "phase \<Rightarrow> loop option" where
  "phase_loop (Running lp) = Some lp"
| "phase_loop (Gated lp effective) = Some lp"
| "phase_loop (Finishing lp) = Some lp"
| "phase_loop (Ended v) = None"

lemma phase_loop_of [simp]: "phase_loop (phase_of v) = loop_of v"
  by (cases v) auto

definition base_attempts :: "int \<Rightarrow> int \<Rightarrow> int \<Rightarrow> int" where
  "base_attempts ev attempts g = (if g = ev then attempts else 0)"

definition budget_ok :: "step_env \<Rightarrow> int \<Rightarrow> int \<Rightarrow> (cause \<times> int) list \<Rightarrow> phase \<Rightarrow> bool" where
  "budget_ok env ev attempts cs ph \<longleftrightarrow>
     (\<forall>g. int (count_list cs (AutoFixRound, g)) \<le> max 0 (se_limit env - base_attempts ev attempts g)) \<and>
     (\<forall>lp. phase_loop ph = Some lp \<longrightarrow> ev \<le> lp_evidence lp \<and>
        lp_autoFixAttempts lp = base_attempts ev attempts (lp_evidence lp) + int (count_list cs (AutoFixRound, lp_evidence lp)) \<and>
        (\<forall>g > lp_evidence lp. count_list cs (AutoFixRound, g) = 0))"

lemma count_label: "int (count_list (label_of v) (AutoFixRound, g)) =
    (case loop_of v of None \<Rightarrow> 0 | Some lp \<Rightarrow> if lp_evidence lp = g then auto_fixes v else 0)"
  by (cases v rule: label_of.cases) (auto split: cause.splits elim: auto_fixes.elims, (rename_tac c lp, case_tac c, auto)+)

lemma budget_step:
  assumes "budget_ok env ev attempts cs ph" "phase_loop ph = Some lp" "advances env lp v"
  shows "budget_ok env ev attempts (cs @ label_of v) (phase_of v)"
proof (cases "loop_of v")
  case None
  then have "count_list (cs @ label_of v) x = count_list cs x" for x by (cases v) auto
  then show ?thesis using assms(1) None by (simp add: budget_ok_def)
next
  case (Some lp')
  note adv = assms(3) [unfolded advances_def, rule_format, OF Some]
  note inv = assms(1) [unfolded budget_ok_def]
  have c: "int (count_list (cs @ label_of v) (AutoFixRound, g)) = int (count_list cs (AutoFixRound, g)) +
      (if lp_evidence lp' = g then auto_fixes v else 0)" for g
    using count_label [of v g] Some by simp
  have one: "auto_fixes v = 0 \<or> auto_fixes v = 1" by (cases v rule: auto_fixes.cases) auto
  have old: "lp_autoFixAttempts lp' = base_attempts ev attempts (lp_evidence lp') +
      int (count_list cs (AutoFixRound, lp_evidence lp')) + auto_fixes v"
    using inv assms(2) adv by (cases "lp_evidence lp' = lp_evidence lp") (auto simp: base_attempts_def)
  have "int (count_list (cs @ label_of v) (AutoFixRound, g)) \<le> max 0 (se_limit env - base_attempts ev attempts g)" for g
  proof (cases "lp_evidence lp' = g \<and> auto_fixes v = 1")
    case True
    then show ?thesis using c [of g] old adv by simp
  next
    case False
    then have "(if lp_evidence lp' = g then auto_fixes v else 0) = 0" using one by auto
    then show ?thesis using c [of g] inv by simp
  qed
  moreover have "count_list (cs @ label_of v) (AutoFixRound, g) = 0" if "g > lp_evidence lp'" for g
  proof -
    have "g > lp_evidence lp" using that adv by simp
    then have "count_list cs (AutoFixRound, g) = 0" using inv assms(2) by blast
    then show ?thesis using c [of g] that by simp
  qed
  moreover have "ev \<le> lp_evidence lp'" using inv [THEN conjunct2, rule_format, OF assms(2)] adv by linarith
  moreover have "lp_autoFixAttempts lp' = base_attempts ev attempts (lp_evidence lp') +
      int (count_list (cs @ label_of v) (AutoFixRound, lp_evidence lp'))"
    using old c [of "lp_evidence lp'"] by simp
  ultimately show ?thesis unfolding budget_ok_def phase_loop_of Some by blast
qed

lemma loop_run_budget:
  assumes "loop_run env start cs (ph, db)" "start = Running (enter_loop env s resumes ev run)"
  shows "budget_ok env ev (es_autoFixAttempts s) cs ph"
  using assms
proof (induction cs "(ph, db)" arbitrary: ph db rule: loop_run.induct)
  case (World cs ph db db')
  then show ?case by blast
next
  case Enter
  then show ?case by (simp add: budget_ok_def enter_loop_def base_attempts_def Let_def)
next
  case (Round cs lp db inp v db')
  then show ?case using budget_step [OF Round.hyps(2) _ run_round_advances] by simp
next
  case (Answer cs lp effective db inp' v db')
  then show ?case using budget_step [OF Answer.hyps(2) _ answer_gate_advances] by simp
next
  case (Finish cs lp db inp'' v db')
  then show ?case unfolding budget_ok_def by simp
qed

text \<open>The shape of the carried sets, and a pass is only known once the loop is over.\<close>

lemma loop_run_shape:
  assumes "loop_run env start cs (ph, db)" "start = Running (enter_loop env s resumes ev run)"
  shows "\<forall>lp. phase_loop ph = Some lp \<longrightarrow> loop_ok env lp \<and> (lp_passed lp \<longrightarrow> ph = Finishing lp)"
  using assms
proof (induction cs "(ph, db)" arbitrary: ph db rule: loop_run.induct)
  case Enter
  then show ?case by (simp add: enter_loop_def loop_ok_def Let_def)
next
  case (Round cs lp db inp v db')
  then show ?case using run_round_advances [OF Round.hyps(4,3)] by (auto simp: advances_def)
next
  case (Answer cs lp effective db inp' v db')
  then show ?case using answer_gate_advances [OF Answer.hyps(4,3)] by (auto simp: advances_def)
qed simp_all

text \<open>C32. The automatic repair of a step is bounded per comparison: in every run of the step, whatever its
  outcomes, the operator, the guard and other writers of the database do, at most \<open>limit\<close> automatic fix
  rounds start in each generation of the evidence, and in the first generation the attempts
  a recovered step had already made count against that budget.\<close>

theorem auto_fix_budget:
  assumes "loop_run env (Running (enter_loop env s resumes ev run)) cs (ph, db)"
  shows "int (count_list cs (AutoFixRound, g)) \<le> max 0 (se_limit env - (if g = ev then es_autoFixAttempts s else 0))"
  using loop_run_budget [OF assms refl] by (simp add: budget_ok_def base_attempts_def)

section \<open>What a pass means\<close>

definition utf8_withdrawn :: "WithdrawnFinding \<Rightarrow> bool" where
  "utf8_withdrawn w \<longleftrightarrow> valid_utf8 (wf_ID w) \<and> valid_utf8 (wf_Reason w)"

lemma recordWithdrawn_payload:
  assumes "ParseFindingsJSON raw = Some fs" "list_all utf8_withdrawn ws"
  shows "\<exists>fs'. ParseFindingsJSON (recordWithdrawnFindingsJSON raw ws) = Some fs' \<and> items fs' = items fs"
proof (cases "ws = []")
  case False
  have "storable (fs\<lparr>fs_WithdrawnFindings := ws\<rparr>)"
    using parse_storable [OF assms(1)] assms(2)
    by (simp add: storable_def utf8_findings_def int64_findings_def utf8_withdrawn_def list_all_iff)
  moreover have "raw \<noteq> []" using assms(1) by auto
  ultimately show ?thesis using assms(1) False by (auto simp: recordWithdrawnFindingsJSON_def parse_marshal)
qed (use assms in \<open>simp add: recordWithdrawnFindingsJSON_def\<close>)

lemma dropWithdrawn_applied:
  assumes "dropWithdrawnFindingsJSON raw ws = (kept, applied)"
  shows "set applied \<subseteq> set ws"
proof -
  have "\<lparr> wf_ID = f_ID x, wf_Reason = v \<rparr> \<in> set ws" if "withdrawn_reasons ws Map.empty (f_ID x) = Some v" for x v
    using withdrawn_reasons_Some [of ws Map.empty "f_ID x" v] that by simp
  then show ?thesis
    using assms by (auto simp: dropWithdrawnFindingsJSON_def Let_def retracts_def split: if_splits option.splits)
qed

lemma passing_payload:
  assumes "effective = recordWithdrawnFindingsJSON remaining ws" "list_all utf8_withdrawn ws"
    and "\<not> hasAskUserFindingsJSON effective" "\<not> hasBlockingFindingsAtStepJSON effective StepReview"
    and "\<not> hasSelectedFindingsJSON effective (retainFindingIDs remaining ids)"
  shows "retainFindingIDs remaining ids = [] \<and>
    (\<forall>x \<in> set (parsed_items remaining). ActionOrDefault x \<noteq> ActionAskUser \<and> (blocking_severity x \<longrightarrow> owned_elsewhere x))"
proof (cases "ParseFindingsJSON remaining")
  case None
  then have "effective = remaining" by (simp add: assms(1) recordWithdrawnFindingsJSON_def)
  then have "remaining = []" using assms(4) None by (auto simp: hasBlockingFindingsAtStepJSON_def)
  then show ?thesis by (simp add: retainFindingIDs_def)
next
  case (Some fs)
  then obtain fs' where p: "ParseFindingsJSON effective = Some fs'" "items fs' = items fs"
    using recordWithdrawn_payload assms(1,2) by blast
  have ne: "effective \<noteq> []" using p(1) by auto
  have "retainFindingIDs remaining ids = []"
  proof (rule ccontr)
    assume "retainFindingIDs remaining ids \<noteq> []"
    then obtain i where "i \<in> set (retainFindingIDs remaining ids)" "i \<in> set (nonempty_ids (items fs))"
      using Some by (auto simp: retainFindingIDs_def filter_empty_conv split: if_splits)
    moreover from this have "retainFindingIDs remaining ids \<noteq> []" by auto
    ultimately show False using assms(5) p ne unfolding hasSelectedFindingsJSON_def list_ex_iff by auto
  qed
  moreover have "ActionOrDefault x \<noteq> ActionAskUser \<and> (blocking_severity x \<longrightarrow> owned_elsewhere x)" if "x \<in> set (items fs)" for x
    using assms(3,4) p ne that
    by (auto simp: hasAskUserFindingsJSON_def HasAskUserFindings_def hasBlockingFindingsAtStepJSON_def list_ex_iff)
  ultimately show ?thesis using Some by (simp add: parsed_items_def)
qed

lemma resolve_withdrawals:
  assumes "resolveReviewRoundFindings v outstanding pending selected o' current db = (effective, remaining, answered, scoped)"
    and "list_all utf8_withdrawn (oc_WithdrawnFindings o')"
  shows "effective = recordWithdrawnFindingsJSON remaining (answered @ scoped) \<and> list_all utf8_withdrawn (answered @ scoped)"
proof -
  define carried where "carried = dropReviewQuestionFindingsJSON outstanding"
  obtain kept ans where kept: "(if vx_finalizing v then dropWithdrawnFindingsJSON carried (retractable selected o') else (carried, [])) = (kept, ans)"
    by (cases "if vx_finalizing v then dropWithdrawnFindingsJSON carried (retractable selected o') else (carried, [])")
  obtain resolved sc where carry: "resolveReviewCarry v kept pending o' (dropReviewQuestionFindingsJSON current) db = (resolved, sc)"
    by (cases "resolveReviewCarry v kept pending o' (dropReviewQuestionFindingsJSON current) db")
  have out: "effective = recordWithdrawnFindingsJSON remaining (answered @ scoped)" "answered = ans" "scoped = sc"
    using assms(1) unfolding resolveReviewRoundFindings_def Let_def carried_def [symmetric] kept by (auto simp: carry)
  have "set ans \<subseteq> set (retractable selected o')"
    using kept dropWithdrawn_applied by (auto split: if_splits)
  moreover have "set sc \<subseteq> set (scope_withdrawals v o' pending kept db)"
    using carry dropWithdrawn_applied by (fastforce simp: resolveReviewCarry_def Let_def split: if_splits prod.splits)
  ultimately have "set (ans @ sc) \<subseteq> set (oc_WithdrawnFindings o')"
    by (auto simp: retractable_def scope_withdrawals_def)
  then show ?thesis using out assms(2) by (auto simp: list_all_iff)
qed

lemma round_completes:
  assumes "run_round env inp lp db = (Complete lp', db')"
  shows "\<exists>o' lp1 lp2 effective. ri_result inp = Inr o' \<and> take_findings env inp o' lp1 db = (effective, lp2) \<and>
    lp_selected lp' = lp_selected lp2 \<and> lp_pending lp' = lp_pending lp2 \<and> lp_outstanding lp' = lp_outstanding lp2 \<and>
    lp_restartFrom lp' = oc_RestartFrom o' \<and> lp_passed lp' \<and>
    passes env o' (if oc_RestartFrom o' \<noteq> [] then round_findings env o' else effective) lp2"
proof -
  obtain o' lp3 where e: "executed env inp = Inr o'" "finish_round env inp o' lp3 db = (Complete lp', db')"
    using assms by (auto simp: run_round_def Let_def round_error_def guarded_def
        split: option.splits sum.splits exec_error.splits if_splits guard.splits)
  obtain effective lp2 where t: "take_findings env inp o' (take_outcome env o' lp3) db = (effective, lp2)" by fastforce
  define lp4 where "lp4 = take_url o' (lp2\<lparr>lp_roundID := ri_newID inp\<rparr>)"
  have d: "\<exists>db1. decide env inp o' effective lp4 db1 = (Complete lp', db')"
    using e(2) t by (auto simp: finish_round_def Let_def lp4_def)
  then have p: "passes env o' (if oc_RestartFrom o' \<noteq> [] then round_findings env o' else effective) lp4"
    and l: "lp' = lp4\<lparr>lp_skipRemaining := oc_SkipRemaining o', lp_skipped := oc_Skipped o',
        lp_skipReason := oc_SkipReason o', lp_passed := True\<rparr>"
    by (auto simp: decide_def Let_def split: option.splits if_splits)
  have "\<not> oc_NeedsApproval o'" using p by (simp add: passes_def)
  then have "ri_result inp = Inr o'"
    using e(1) by (auto simp: executed_def strict_result_def ProtectedPathOutcome_def Let_def zero_outcome_def
        split: sum.splits exec_error.splits option.splits if_splits)
  moreover have "lp_restartFrom lp2 = oc_RestartFrom o'" using take_findings_loop [OF t] by simp
  moreover have "passes env o' (if oc_RestartFrom o' \<noteq> [] then round_findings env o' else effective) lp2"
    using p by (simp add: passes_def lp4_def)
  ultimately show ?thesis using t l by (intro exI [of _ o'] exI [of _ "take_outcome env o' lp3"] exI [of _ lp2] exI [of _ effective]) (simp add: lp4_def)
qed

text \<open>
  The ledger of a step: after every part that goes on, what was handed to a fixer in it, under the identifiers these
  findings have in the outstanding set, and the outstanding set it left, with the generation of the comparison. An
  automatic fix hands over the findings it repairs; a fix of the operator those chosen, and the payload merged with
  the operator's additions. An outstanding set that cannot be read has everything outstanding.
\<close>

record entry =
  en_evidence :: int
  en_sent :: "string list"
  en_outstanding :: string

definition still_open :: "string \<Rightarrow> string \<Rightarrow> bool" where
  "still_open raw i \<longleftrightarrow> raw \<noteq> [] \<and> (case ParseFindingsJSON raw of None \<Rightarrow> True | Some fs \<Rightarrow> i \<in> set (nonempty_ids (items fs)))"

fun sent_to_fixer :: "string list \<Rightarrow> verdict \<Rightarrow> string list" where
  "sent_to_fixer chosen (Again AutoFixRound lp) = findingIDList (lp_previous lp)"
| "sent_to_fixer chosen (Again UserFixRound lp) =
     filter (\<lambda>i. i \<noteq> []) chosen @ findingIDList (remapFindingIDsJSON (lp_outstanding lp) (lp_previous lp))"
| "sent_to_fixer chosen v = []"

fun chosen_by :: "gate_event \<Rightarrow> string list" where
  "chosen_by (GateAnswered r) = ar_findingIDs r"
| "chosen_by _ = []"

definition ledger :: "string list \<Rightarrow> verdict \<Rightarrow> entry list" where
  "ledger chosen v = (case loop_of v of None \<Rightarrow> []
     | Some lp \<Rightarrow> [\<lparr> en_evidence = lp_evidence lp, en_sent = sent_to_fixer chosen v, en_outstanding = lp_outstanding lp \<rparr>])"

definition recorded_entry :: "stepExecutionState \<Rightarrow> int \<Rightarrow> entry" where
  "recorded_entry s ev = \<lparr> en_evidence = ev, en_sent = es_selectedOutstandingIDs s, en_outstanding = es_outstandingFindings s \<rparr>"

text \<open>A run of the step with its ledger, from the state in which the step was entered.\<close>

inductive ledger_run :: "step_env \<Rightarrow> stepExecutionState \<Rightarrow> int \<Rightarrow> entry list \<Rightarrow> phase \<times> tables \<Rightarrow> bool" for env s ev where
  Enter: "ledger_run env s ev [recorded_entry s ev] (Running (enter_loop env s resumes ev run), db)"
| World: "ledger_run env s ev h (ph, db) \<Longrightarrow> ledger_run env s ev h (ph, db')"
| Round: "ledger_run env s ev h (Running lp, db) \<Longrightarrow> guard_from (lp_evidence lp) (ri_guard inp) \<Longrightarrow>
    run_round env inp lp db = (v, db') \<Longrightarrow> ledger_run env s ev (h @ ledger [] v) (phase_of v, db')"
| Answer: "ledger_run env s ev h (Gated lp effective, db) \<Longrightarrow> guard_from (lp_evidence lp) (gi_guard inp') \<Longrightarrow>
    answer_gate env inp' effective lp db = (v, db') \<Longrightarrow> ledger_run env s ev (h @ ledger (chosen_by (gi_event inp')) v) (phase_of v, db')"
| Finish: "ledger_run env s ev h (Finishing lp, db) \<Longrightarrow> finish_step env inp'' lp db = (v, db') \<Longrightarrow> ledger_run env s ev h (Ended v, db')"

lemma ledger_run_loop:
  assumes "ledger_run env s ev h (ph, db)"
  shows "\<exists>resumes run cs. loop_run env (Running (enter_loop env s resumes ev run)) cs (ph, db)"
  using assms by (induction h "(ph, db)" arbitrary: ph db rule: ledger_run.induct) (blast intro: loop_run.intros)+

lemma retain_open: "retainFindingIDs raw ids = filter (still_open raw) ids"
  by (cases "ParseFindingsJSON raw") (auto simp: retainFindingIDs_def still_open_def cong: filter_cong)

text \<open>A part of a review keeps every selected finding that is still outstanding, and selects what it hands over.\<close>

definition accounts :: "string list \<Rightarrow> loop \<Rightarrow> verdict \<Rightarrow> bool" where
  "accounts chosen lp v \<longleftrightarrow> (\<forall>lp'. loop_of v = Some lp' \<longrightarrow> set (sent_to_fixer chosen v) \<subseteq> set (lp_selected lp') \<and>
     (lp_evidence lp' = lp_evidence lp \<longrightarrow> (\<forall>i \<in> set (lp_selected lp). still_open (lp_outstanding lp') i \<longrightarrow> i \<in> set (lp_selected lp'))))"

lemma accounts_stop [simp]: "loop_of v = None \<Longrightarrow> accounts chosen lp v"
  by (simp add: accounts_def)

lemma accounts_from:
  assumes "accounts chosen lp1 v" "lp_selected lp1 = lp_selected lp" "lp_evidence lp1 = lp_evidence lp"
  shows "accounts chosen lp v"
  using assms by (simp add: accounts_def)

lemma nothing_open [simp]: "\<not> still_open [] i"
  by (simp add: still_open_def)

lemma combine_selected: "set (combineFindingIDLists xs ys) = set xs \<union> {i \<in> set ys. i \<noteq> []}"
proof -
  have "set (append_unseen xs ys) = set xs \<union> {i \<in> set ys. i \<noteq> []}"
    by (induction ys arbitrary: xs) auto
  then show ?thesis by (simp add: combineFindingIDLists_def)
qed

lemma combine_persisted: "set xs \<union> set (findingIDList raw) \<subseteq> set (combineSelectedFindingIDs xs raw)"
  using combine_selected [of xs "map f_ID (items fs)" for fs]
  by (auto simp: combineSelectedFindingIDs_def findingIDList_def nonempty_ids_def combineFindingIDLists_def split: option.splits)

lemma findingIDList_nonempty: "i \<in> set (findingIDList raw) \<Longrightarrow> i \<noteq> []"
  by (auto simp: findingIDList_def nonempty_ids_def split: if_splits option.splits)

lemma auto_fix_accounts: "carries env \<Longrightarrow> accounts chosen lp (Again AutoFixRound (start_auto_fix env inp effective fixable lp))"
  using findingIDList_nonempty [of _ fixable] by (auto simp: accounts_def start_auto_fix_def Let_def combine_selected)

lemma user_fix_accounts:
  assumes "carries env"
  shows "accounts (ar_findingIDs r) lp (Again UserFixRound (start_user_fix env effective r lp))"
proof -
  obtain selected merged outstanding persisted where n: "normalizeFixSelection effective r True = (selected, merged, outstanding, persisted)"
    by (metis surj_pair)
  have p: "persisted = remapFindingIDsJSON outstanding merged"
    using n by (auto simp: normalizeFixSelection_def Let_def)
  define ids where "ids = combineSelectedFindingIDs (ar_findingIDs r) persisted"
  have l: "lp_selected (start_user_fix env effective r lp) = combineFindingIDLists (lp_selected lp) ids"
    "lp_previous (start_user_fix env effective r lp) = merged" "lp_outstanding (start_user_fix env effective r lp) = outstanding"
    using assms n by (simp_all add: start_user_fix_def ids_def Let_def)
  have "set (ar_findingIDs r) \<union> set (findingIDList persisted) \<subseteq> set ids" unfolding ids_def by (rule combine_persisted)
  then have "set (sent_to_fixer (ar_findingIDs r) (Again UserFixRound (start_user_fix env effective r lp))) \<subseteq>
      set (lp_selected (start_user_fix env effective r lp))"
    using findingIDList_nonempty by (fastforce simp: l p combine_selected)
  then show ?thesis by (auto simp: accounts_def l combine_selected)
qed

lemma guarded_goes_on_accounts:
  assumes "guarded ts env ms g lp db = Inr lp'" "accounts chosen lp' v"
    "\<And>lp''. loop_of v = Some lp'' \<Longrightarrow> lp_evidence lp' \<le> lp_evidence lp''" "guard_from (lp_evidence lp) g"
  shows "accounts chosen lp v"
proof -
  have "lp' = lp \<or> lp_evidence lp < lp_evidence lp'"
    using assms(1,4) by (auto simp: guarded_def reset_comparison_def Let_def split: if_splits option.splits guard.splits)
  then show ?thesis
  proof
    assume "lp_evidence lp < lp_evidence lp'"
    then show ?thesis using assms(2,3) unfolding accounts_def by fastforce
  qed (use assms(2) in simp)
qed

lemma guarded_stops_accounts:
  assumes "guarded ts env ms g lp db = Inl (v, db')"
  shows "accounts chosen lp v"
  using assms by (auto simp: guarded_def accounts_def reset_comparison_def Let_def split: if_splits option.splits guard.splits)

lemma advances_evidence: "advances env lp v \<Longrightarrow> loop_of v = Some lp' \<Longrightarrow> lp_evidence lp \<le> lp_evidence lp'"
  by (simp add: advances_def)

lemma take_findings_selected:
  assumes "take_findings env inp o' lp db = (effective, lp')" "carries env"
  shows "lp_selected lp' = filter (still_open (lp_outstanding lp')) (lp_selected lp)"
  using assms by (auto simp: take_findings_def Let_def retain_open split: prod.splits)

lemma decide_accounts:
  assumes "decide env inp o' effective lp db = (v, db')" "carries env"
  shows "accounts chosen lp v \<and> (\<forall>lp'. loop_of v = Some lp' \<longrightarrow> lp_outstanding lp' = lp_outstanding lp \<and> set (lp_selected lp) \<subseteq> set (lp_selected lp'))"
proof (cases "auto_fix_due env o' (round_findings env o') effective lp")
  case (Some fixable)
  then show ?thesis using assms auto_fix_accounts
    by (auto simp: decide_def Let_def start_auto_fix_def combine_selected split: option.splits)
next
  case None
  then show ?thesis using assms by (auto simp: decide_def Let_def accounts_def split: option.splits if_splits)
qed

lemma finish_round_accounts:
  assumes "finish_round env inp o' lp db = (v, db')" "carries env"
  shows "accounts chosen lp v"
proof -
  obtain effective lp1 where t: "take_findings env inp o' (take_outcome env o' lp) db = (effective, lp1)" by fastforce
  define lp2 where "lp2 = take_url o' (lp1\<lparr>lp_roundID := ri_newID inp\<rparr>)"
  obtain db1 where d: "decide env inp o' effective lp2 db1 = (v, db')"
    using assms(1) t by (auto simp: finish_round_def Let_def lp2_def)
  have "lp_selected lp2 = filter (still_open (lp_outstanding lp2)) (lp_selected lp)"
    using take_findings_selected [OF t assms(2)] by (simp add: lp2_def)
  then show ?thesis using decide_accounts [OF d assms(2), of chosen] by (fastforce simp: accounts_def)
qed

lemma run_round_accounts:
  assumes "run_round env inp lp db = (v, db')" "guard_from (lp_evidence lp) (ri_guard inp)" "carries env"
  shows "accounts [] lp v"
proof -
  define lp2 where "lp2 = (read_proof env inp db lp)\<lparr>lp_run := ri_run inp\<rparr>"
  have "accounts [] lp2 v"
  proof (cases "immutable_refusal inp (read_proof env inp db lp)")
    case None
    show ?thesis
    proof (cases "executed env inp")
      case (Inl e)
      then show ?thesis using assms(1,3) None
        by (cases e) (auto simp: run_round_def round_error_def carries_def step_name_defs Let_def lp2_def [symmetric] split: if_splits)
    next
      case (Inr o')
      show ?thesis
      proof (cases "guarded (ri_ts inp) env (Some (ri_round_ms inp)) (ri_guard inp) lp2 db")
        case (Inl w)
        then have "w = (v, db')"
          using assms(1) None Inr by (simp add: run_round_def Let_def lp2_def)
        then show ?thesis using guarded_stops_accounts Inl by blast
      next
        case (Inr lp3)
        then have f: "finish_round env inp o' (lp3\<lparr>lp_roundNum := lp_roundNum lp3 + 1\<rparr>) db = (v, db')"
          using assms(1) None \<open>executed env inp = Inr o'\<close> by (simp add: run_round_def Let_def lp2_def)
        have "accounts [] lp3 v" by (rule accounts_from [OF finish_round_accounts [OF f assms(3)]]) simp_all
        moreover have "lp_evidence lp3 \<le> lp_evidence lp''" if "loop_of v = Some lp''" for lp''
          using advances_evidence [OF finish_round_advances [OF f] that] by simp
        ultimately show ?thesis using guarded_goes_on_accounts [OF Inr] assms(2) by (simp add: lp2_def)
      qed
    qed
  qed (use assms(1) in \<open>auto simp: run_round_def Let_def\<close>)
  then show ?thesis by (rule accounts_from) (simp_all add: lp2_def)
qed

lemma respond_gate_accounts:
  assumes "respond_gate env inp effective r lp db = (v, db')" "carries env"
  shows "accounts (ar_findingIDs r) lp v"
proof -
  have "accounts (ar_findingIDs r) lp (Again AnswerRound (start_answer env lp))"
    by (simp add: accounts_def start_answer_def Let_def)
  moreover have "accounts (ar_findingIDs r) lp v" if "approve_gate env inp effective r lp db = (v, db')"
    using that by (auto simp: approve_gate_def Let_def accounts_def split: prod.splits option.splits if_splits)
  ultimately show ?thesis
    using assms user_fix_accounts [OF assms(2)] by (auto simp: respond_gate_def split: if_splits option.splits)
qed

lemma answer_gate_accounts:
  assumes "answer_gate env inp effective lp db = (v, db')" "guard_from (lp_evidence lp) (gi_guard inp)" "carries env"
  shows "accounts (chosen_by (gi_event inp)) lp v"
proof (cases "gi_event inp")
  case GateReconciled
  show ?thesis
  proof (cases "guarded (gi_ts inp) env None (gi_guard inp) lp db")
    case (Inl w)
    then show ?thesis using assms GateReconciled guarded_stops_accounts by (cases w) (auto simp: answer_gate_def)
  next
    case (Inr lp1)
    then have "accounts [] lp1 v" "\<And>lp''. loop_of v = Some lp'' \<Longrightarrow> lp_evidence lp1 \<le> lp_evidence lp''"
      using assms(1) GateReconciled by (auto simp: answer_gate_def accounts_def split: if_splits)
    then show ?thesis using guarded_goes_on_accounts [OF Inr _ _ assms(2)] GateReconciled by simp
  qed
next
  case (GateAnswered r)
  show ?thesis
  proof (cases "guarded (gi_ts inp) env None (gi_guard inp) lp db")
    case (Inl w)
    then show ?thesis using assms GateAnswered guarded_stops_accounts by (cases w) (auto simp: answer_gate_def split: if_splits)
  next
    case (Inr lp1)
    show ?thesis
    proof (cases "ar_action r = ActionAbort")
      case False
      then have f: "respond_gate env inp effective r lp1 db = (v, db')"
        using assms(1) GateAnswered Inr by (simp add: answer_gate_def)
      show ?thesis
        using guarded_goes_on_accounts [OF Inr respond_gate_accounts [OF f assms(3)] _ assms(2)]
          advances_evidence [OF respond_gate_advances [OF f]] GateAnswered by simp
    qed (use assms(1) GateAnswered in \<open>auto simp: answer_gate_def\<close>)
  qed
qed (use assms in \<open>auto simp: answer_gate_def\<close>)

text \<open>What was handed over in the current comparison and has been outstanding ever since is selected.\<close>

definition unsettled :: "entry list \<Rightarrow> int \<Rightarrow> string \<Rightarrow> bool" where
  "unsettled h ev i \<longleftrightarrow> (\<exists>k < length h. en_evidence (h ! k) = ev \<and> i \<in> set (en_sent (h ! k)) \<and>
     (\<forall>e \<in> set (drop (Suc k) h). still_open (en_outstanding e) i))"

lemma unsettled_snoc: "unsettled (h @ [e]) ev i \<longleftrightarrow>
    (en_evidence e = ev \<and> i \<in> set (en_sent e)) \<or> (unsettled h ev i \<and> still_open (en_outstanding e) i)"
  (is "?l \<longleftrightarrow> ?r")
proof
  assume ?l
  then obtain k where k: "k < Suc (length h)" "en_evidence ((h @ [e]) ! k) = ev" "i \<in> set (en_sent ((h @ [e]) ! k))"
    "\<forall>x \<in> set (drop (Suc k) (h @ [e])). still_open (en_outstanding x) i" by (auto simp: unsettled_def)
  show ?r
  proof (cases "k = length h")
    case False
    then have "unsettled h ev i" using k unfolding unsettled_def by (intro exI [of _ k]) (simp add: nth_append)
    moreover have "e \<in> set (drop (Suc k) (h @ [e]))" using False k(1) by simp
    ultimately show ?thesis using k(4) by blast
  qed (use k in simp)
next
  assume ?r
  then show ?l
  proof
    assume "en_evidence e = ev \<and> i \<in> set (en_sent e)"
    then show ?l unfolding unsettled_def by (intro exI [of _ "length h"]) (simp add: nth_append)
  next
    assume "unsettled h ev i \<and> still_open (en_outstanding e) i"
    then obtain k where k: "k < length h" "en_evidence (h ! k) = ev" "i \<in> set (en_sent (h ! k))"
      "\<forall>x \<in> set (drop (Suc k) h). still_open (en_outstanding x) i" "still_open (en_outstanding e) i" by (auto simp: unsettled_def)
    then show ?l unfolding unsettled_def by (intro exI [of _ k]) (simp add: nth_append)
  qed
qed

definition ledger_ok :: "entry list \<Rightarrow> phase \<Rightarrow> bool" where
  "ledger_ok h ph \<longleftrightarrow> (\<forall>lp. phase_loop ph = Some lp \<longrightarrow> (\<forall>e \<in> set h. en_evidence e \<le> lp_evidence lp) \<and>
     (\<forall>i. unsettled h (lp_evidence lp) i \<longrightarrow> i \<in> set (lp_selected lp)))"

lemma ledger_step:
  assumes "ledger_ok h ph" "phase_loop ph = Some lp" "accounts chosen lp v" "advances env lp v"
  shows "ledger_ok (h @ ledger chosen v) (phase_of v)"
proof (cases "loop_of v")
  case (Some lp')
  define e where "e = \<lparr> en_evidence = lp_evidence lp', en_sent = sent_to_fixer chosen v, en_outstanding = lp_outstanding lp' \<rparr>"
  have le: "lp_evidence lp \<le> lp_evidence lp'" by (rule advances_evidence [OF assms(4) Some])
  note acc = assms(3) [unfolded accounts_def, rule_format, OF Some]
  have old: "\<forall>x \<in> set h. en_evidence x \<le> lp_evidence lp" "unsettled h (lp_evidence lp) i \<Longrightarrow> i \<in> set (lp_selected lp)" for i
    using assms(1,2) by (auto simp: ledger_ok_def)
  have "i \<in> set (lp_selected lp')" if u: "unsettled h (lp_evidence lp') i" "still_open (lp_outstanding lp') i" for i
  proof -
    obtain k where "k < length h" "en_evidence (h ! k) = lp_evidence lp'" using u(1) by (auto simp: unsettled_def)
    then have "lp_evidence lp' = lp_evidence lp" using old(1) le nth_mem by fastforce
    then show ?thesis using old(2) u acc by simp
  qed
  then have "\<forall>i. unsettled (h @ [e]) (lp_evidence lp') i \<longrightarrow> i \<in> set (lp_selected lp')"
    using acc by (auto simp: unsettled_snoc e_def)
  moreover have "\<forall>x \<in> set (h @ [e]). en_evidence x \<le> lp_evidence lp'" using old(1) le by (fastforce simp: e_def)
  ultimately show ?thesis by (simp add: ledger_ok_def ledger_def Some e_def)
qed (simp add: ledger_ok_def)

lemma ledger_run_ok:
  assumes "ledger_run env s ev h (ph, db)" "carries env"
  shows "ledger_ok h ph"
  using assms(1)
proof (induction h "(ph, db)" arbitrary: ph db rule: ledger_run.induct)
  case (Enter resumes run db)
  then show ?case by (auto simp: ledger_ok_def unsettled_def recorded_entry_def enter_loop_def Let_def)
next
  case (World h ph db db')
  then show ?case by simp
next
  case (Round h lp db inp v db')
  then show ?case using ledger_step [OF Round.hyps(2) _ run_round_accounts [OF Round.hyps(4,3) assms(2)] run_round_advances [OF Round.hyps(4,3)]]
    by simp
next
  case (Answer h lp effective db inp' v db')
  then show ?case using ledger_step [OF Answer.hyps(2) _ answer_gate_accounts [OF Answer.hyps(4,3) assms(2)] answer_gate_advances [OF Answer.hyps(4,3)]]
    by simp
next
  case (Finish h lp db inp'' v db')
  then show ?case by (simp add: ledger_ok_def)
qed

text \<open>C33. A review that passes leaves nothing behind: in any run of the step, when a round of a review completes it without
  asking for a restart, every finding that was handed to a fixer in the comparison under review, automatically, by
  the operator, or as the step was entered, has since left the outstanding set, and at the latest with this round; no
  outstanding finding asks the user, and every outstanding error or warning is one whose missing support
  another step owns.\<close>

theorem review_pass_sound:
  assumes "ledger_run env s ev h (Running lp, db)" "se_name env = StepReview"
    and "run_round env inp lp db = (Complete lp', db')" "lp_restartFrom lp' = []"
    and "\<forall>o'. ri_result inp = Inr o' \<longrightarrow> list_all utf8_withdrawn (oc_WithdrawnFindings o')"
    and "guard_from (lp_evidence lp) (ri_guard inp)"
  shows "(\<forall>k < length h. en_evidence (h ! k) = lp_evidence lp' \<longrightarrow> (\<forall>i \<in> set (en_sent (h ! k)).
       \<exists>raw \<in> set (map en_outstanding (drop (Suc k) h)) \<union> {lp_outstanding lp'}. \<not> still_open raw i)) \<and>
    (\<forall>x \<in> set (parsed_items (lp_outstanding lp')).
       ActionOrDefault x \<noteq> ActionAskUser \<and> (blocking_severity x \<longrightarrow> owned_elsewhere x))"
proof -
  have c: "carries env" using assms(2) by (simp add: carries_def)
  obtain o' lp1 lp2 effective where r: "ri_result inp = Inr o'" "take_findings env inp o' lp1 db = (effective, lp2)"
      "lp_selected lp' = lp_selected lp2" "lp_outstanding lp' = lp_outstanding lp2" "passes env o' effective lp2"
    using round_completes [OF assms(3)] assms(4) by auto
  obtain remaining answered scoped where q: "resolveReviewRoundFindings (review_context env inp lp1) (lp_outstanding lp1)
        (lp_pending lp1) (lp_selected lp1) o' (round_findings env o') db = (effective, remaining, answered, scoped)"
      "lp_outstanding lp2 = remaining" "lp_selected lp2 = retainFindingIDs remaining (lp_selected lp1)"
    using r(2) c by (auto simp: take_findings_def Let_def split: prod.splits)
  have "effective = recordWithdrawnFindingsJSON remaining (answered @ scoped)" "list_all utf8_withdrawn (answered @ scoped)"
    using resolve_withdrawals [OF q(1)] assms(5) r(1) by auto
  then have pass: "lp_selected lp' = []" "\<forall>x \<in> set (parsed_items (lp_outstanding lp')).
       ActionOrDefault x \<noteq> ActionAskUser \<and> (blocking_severity x \<longrightarrow> owned_elsewhere x)"
    using passing_payload [of effective remaining _ "lp_selected lp1"] r q(2,3) c assms(2) by (auto simp: passes_def)
  have "ledger_ok (h @ ledger [] (Complete lp')) (Finishing lp')"
    using ledger_run_ok [OF ledger_run.Round [OF assms(1,6,3)] c] by simp
  then have "\<not> unsettled (h @ ledger [] (Complete lp')) (lp_evidence lp') i" for i
    using pass(1) by (simp add: ledger_ok_def)
  then have "\<not> (unsettled h (lp_evidence lp') i \<and> still_open (lp_outstanding lp') i)" for i
    by (simp add: ledger_def unsettled_snoc)
  then show ?thesis using pass(2) unfolding unsettled_def by fastforce
qed

section \<open>What an approval and a restart mean\<close>

lemma completed_proofs:
  "tb_proofs (completeStep ts i st ec ms lg sk db) = tb_proofs db"
  "tb_proofs (FailStep_sql ts i msg ms db) = tb_proofs db"
  by (simp_all add: completeStep_def FailStep_sql_def Let_def)

lemma CompleteReviewStep_proofs: "CompleteReviewStep ts i run h ec ms lg g db = Inr db' \<Longrightarrow> tb_proofs db' = tb_proofs db"
  by (auto simp: CompleteReviewStep_def Let_def split: option.splits if_splits)

lemma completes_proofs: "completes env inp lp ms db = Some db' \<Longrightarrow> tb_proofs db' = tb_proofs db"
  by (auto simp: completes_def CompleteSkippedStep_def CompleteStepWithStatus_def completed_proofs
      split: if_splits sum.splits dest: CompleteReviewStep_proofs)

lemma finish_records:
  assumes "finish_step env inp lp db = (v, db')" "tb_proofs db' \<noteq> tb_proofs db"
  shows "proof_due env inp lp \<and> v = Returned (lp_skipRemaining lp) [] \<and>
    StatusValidationEpoch (se_run env) db' = lp_proofEpoch lp \<and>
    tb_proofs db' = (tb_proofs db)(se_id env \<mapsto>
      \<lparr> pf_head_sha = lp_proofHead lp, pf_epoch = lp_proofEpoch lp, pf_config_digest = lp_proofConfig lp \<rparr>)"
proof -
  obtain db1 ms where c: "completes env inp lp ms db = Some db1" "lp_restartFrom lp = []" "v = Returned (lp_skipRemaining lp) []"
      "db' = (if proof_due env inp lp then RecordStatusValidationStep (se_id env) (se_run env) (lp_proofHead lp)
          (lp_proofConfig lp) (lp_proofEpoch lp) db1 else db1)"
    using assms by (auto simp: finish_step_def Let_def completed_proofs split: if_splits option.splits)
  then show ?thesis
    using assms(2) completes_proofs [OF c(1)]
    by (auto simp: RecordStatusValidationStep_def StatusValidationEpoch_def split: if_splits)
qed

lemma completes_epochs: "completes env inp lp ms db = Some db' \<Longrightarrow> tb_epochs db' = tb_epochs db"
  by (auto simp: completes_def CompleteSkippedStep_def CompleteStepWithStatus_def completeStep_def CompleteReviewStep_def Let_def
      split: if_splits sum.splits option.splits)

lemma finish_step_epochs: "finish_step env inp lp db = (v, db') \<Longrightarrow> tb_epochs db' = tb_epochs db"
  by (auto simp: finish_step_def Let_def FailStep_sql_def RecordStatusValidationStep_def
      split: if_splits option.splits dest: completes_epochs)

lemma gate_completes:
  assumes "answer_gate env inp effective lp db = (Complete lp', db')" "lp_passed lp'" "\<not> lp_passed lp"
  shows "se_name env = StepTest \<and> clean_gap_row (se_id env) db' \<and>
    (\<exists>r. gi_event inp = GateAnswered r \<and> ar_action r = ActionApprove)"
proof (cases "gi_event inp")
  case (GateAnswered r)
  have kept: "\<not> lp_passed lp1" if "guarded ts env ms g lp db = Inr lp1" for lp1 ts ms g
    using that assms(3) by (auto simp: guarded_def reset_comparison_def Let_def split: option.splits guard.splits if_splits)
  obtain lp1 where g: "guarded (gi_ts inp) env None (gi_guard inp) lp db = Inr lp1"
      "respond_gate env inp effective r lp1 db = (Complete lp', db')"
    using assms(1) GateAnswered by (auto simp: answer_gate_def guarded_def split: if_splits option.splits guard.splits sum.splits)
  then show ?thesis
    using assms(2) kept [OF g(1)] GateAnswered
    by (auto simp: respond_gate_def approve_gate_def Let_def split: if_splits prod.splits option.splits)
next
  case GateReconciled
  then show ?thesis
    using assms by (auto simp: answer_gate_def guarded_def reset_comparison_def Let_def split: if_splits option.splits guard.splits)
qed (use assms in \<open>auto simp: answer_gate_def\<close>)

text \<open>C34. An approval is not a proof: in any run of a step, when the answer of a parked gate completes the step and the
  completion records an execution proof, the step is a custom gate, or it is Test and the operator
  approved it with a valid record of accepted gaps and no override or approval reason. The proof then names the
  head that was checked out before the last round and is still checked out, the configuration in
  force then and now, and the epoch, which no repair has moved since.\<close>

theorem approval_is_no_proof:
  assumes "loop_run env (Running (enter_loop env s resumes ev run)) cs (Gated lp effective, db)"
    and "answer_gate env inp effective lp db = (Complete lp', db1)"
    and "finish_step env d lp' db2 = (v, db3)" "tb_proofs db3 \<noteq> tb_proofs db2"
  shows "(IsCustomGate (se_name env) \<or> se_name env = StepTest \<and> clean_gap_row (se_id env) db1 \<and>
      (\<exists>r. gi_event inp = GateAnswered r \<and> ar_action r = ActionApprove)) \<and>
    di_head d = Some (lp_proofHead lp') \<and> di_config d = lp_proofConfig lp' \<and> lp_exitCode lp' = 0 \<and>
    StatusValidationEpoch (se_run env) db2 = lp_proofEpoch lp' \<and>
    tb_proofs db3 (se_id env) =
      Some \<lparr> pf_head_sha = lp_proofHead lp', pf_epoch = lp_proofEpoch lp', pf_config_digest = lp_proofConfig lp' \<rparr>"
proof -
  have "\<not> lp_passed lp" using loop_run_shape [OF assms(1) refl] by simp
  then have "lp_passed lp' \<Longrightarrow> se_name env = StepTest \<and> clean_gap_row (se_id env) db1 \<and>
      (\<exists>r. gi_event inp = GateAnswered r \<and> ar_action r = ActionApprove)"
    using gate_completes [OF assms(2)] by blast
  moreover have "StatusValidationEpoch (se_run env) db3 = StatusValidationEpoch (se_run env) db2"
    using finish_step_epochs [OF assms(3)] by (simp add: StatusValidationEpoch_def)
  ultimately show ?thesis using finish_records [OF assms(3,4)] by (auto simp: proof_due_def)
qed

section \<open>The rounds of a step end\<close>

text \<open>The rounds until the first verdict that is not another round; fuel counts them.\<close>

fun rounds :: "nat \<Rightarrow> step_env \<Rightarrow> (nat \<Rightarrow> round_input) \<Rightarrow> nat \<Rightarrow> loop \<Rightarrow> tables \<Rightarrow> (verdict \<times> tables) option" where
  "rounds 0 env inps k lp db = None"
| "rounds (Suc n) env inps k lp db =
     (case run_round env (inps k) lp db of
        (Again c lp', db') \<Rightarrow> rounds n env inps (Suc k) lp' db'
      | done \<Rightarrow> Some done)"

definition keeps_comparison :: "int \<Rightarrow> guard option \<Rightarrow> bool" where
  "keeps_comparison ev g \<longleftrightarrow> (case g of Some (GuardKept e) \<Rightarrow> e = ev | Some (GuardRestarts _ _ _) \<Rightarrow> False | _ \<Rightarrow> True)"

definition rounds_left :: "step_env \<Rightarrow> loop \<Rightarrow> nat" where
  "rounds_left env lp = nat (se_limit env - lp_autoFixAttempts lp) + nat (lp_resumesLeft lp)"

lemma again_decreases:
  assumes "run_round env inp lp db = (Again c lp', db')" "keeps_comparison (lp_evidence lp) (ri_guard inp)"
  shows "lp_evidence lp' = lp_evidence lp \<and> rounds_left env lp' < rounds_left env lp"
proof -
  define lp2 where "lp2 = (read_proof env inp db lp)\<lparr>lp_run := ri_run inp\<rparr>"
  have l2: "lp_evidence lp2 = lp_evidence lp" "rounds_left env lp2 = rounds_left env lp"
    by (simp_all add: lp2_def rounds_left_def)
  have im: "immutable_refusal inp (read_proof env inp db lp) = None"
    using assms(1) by (auto simp: run_round_def Let_def split: option.splits)
  show ?thesis
  proof (cases "executed env inp")
    case (Inl e)
    then have "round_error env inp e lp2 db = (Again c lp', db')"
      using assms(1) im by (simp add: run_round_def Let_def lp2_def)
    then show ?thesis using l2 by (auto simp: round_error_def rounds_left_def split: exec_error.splits if_splits)
  next
    case (Inr o')
    let ?guarded = "guarded (ri_ts inp) env (Some (ri_round_ms inp)) (ri_guard inp) lp2 db"
    have g: "?guarded = Inr lp2 \<or> (\<exists>err db1. ?guarded = Inl (Stopped err, db1))"
      using assms(2) l2(1)
      by (auto simp: guarded_def keeps_comparison_def reset_comparison_def Let_def split: option.splits guard.splits if_splits)
    have "(case ?guarded of Inl v \<Rightarrow> v
        | Inr lp3 \<Rightarrow> finish_round env inp o' (lp3\<lparr>lp_roundNum := lp_roundNum lp3 + 1\<rparr>) db) = (Again c lp', db')"
      using assms(1) im Inr by (simp add: run_round_def Let_def lp2_def)
    then have f: "finish_round env inp o' (lp2\<lparr>lp_roundNum := lp_roundNum lp2 + 1\<rparr>) db = (Again c lp', db')"
      using g by (elim disjE exE) (simp_all only: sum.case prod.inject verdict.distinct simp_thms)
    obtain effective lp3 where t: "take_findings env inp o' (take_outcome env o' (lp2\<lparr>lp_roundNum := lp_roundNum lp2 + 1\<rparr>)) db = (effective, lp3)"
      by fastforce
    define lp4 where "lp4 = take_url o' (lp3\<lparr>lp_roundID := ri_newID inp\<rparr>)"
    have l4: "lp_evidence lp4 = lp_evidence lp2" "rounds_left env lp4 = rounds_left env lp2"
      using take_findings_loop [OF t] by (simp_all add: lp4_def rounds_left_def)
    obtain db1 where "decide env inp o' effective lp4 db1 = (Again c lp', db')"
      using f t by (auto simp: finish_round_def Let_def lp4_def)
    then obtain fixable where "auto_fix_due env o' (round_findings env o') effective lp4 = Some fixable" "lp' = start_auto_fix env inp effective fixable lp4"
      by (auto simp: decide_def Let_def split: option.splits if_splits)
    then have "lp_autoFixAttempts lp4 < se_limit env" "lp_evidence lp' = lp_evidence lp4"
        "lp_autoFixAttempts lp' = lp_autoFixAttempts lp4 + 1" "lp_resumesLeft lp' = lp_resumesLeft lp4"
      by (simp_all add: auto_fix_due_def start_auto_fix_def Let_def split: if_splits)
    then show ?thesis using l2 l4 unfolding rounds_left_def by linarith
  qed
qed

text \<open>C35. A step does not loop by itself: as long as the guard of the PR context does not restart it, the rounds
  that follow each other without an operator end in a pass, a gate, a return or an error after at most the
  automatic attempts and contention resumes that are left, and one more, whatever the outcomes are.\<close>

theorem rounds_end:
  assumes "\<forall>k. keeps_comparison (lp_evidence lp) (ri_guard (inps k))" "n > rounds_left env lp"
  shows "\<exists>v db'. rounds n env inps k lp db = Some (v, db') \<and> label_of v = []"
  using assms
proof (induction n arbitrary: k lp db)
  case (Suc n)
  obtain v db' where r: "run_round env (inps k) lp db = (v, db')" by fastforce
  show ?case
  proof (cases "\<exists>c lp'. v = Again c lp'")
    case True
    then obtain c lp' where v: "v = Again c lp'" by blast
    have "lp_evidence lp' = lp_evidence lp \<and> rounds_left env lp' < rounds_left env lp"
      using again_decreases [OF r [unfolded v]] Suc.prems(1) by blast
    then show ?thesis using Suc.IH [of lp' "Suc k" db'] Suc.prems r v by simp
  next
    case False
    then have "label_of v = []" "rounds (Suc n) env inps k lp db = Some (v, db')"
      using r by (cases v; auto)+
    then show ?thesis by blast
  qed
qed simp

section \<open>Samples\<close>

definition sample_env :: "StepName \<Rightarrow> step_env" where
  "sample_env name = \<lparr> se_name = name, se_id = ''s'', se_run = ''r'', se_limit = 1, se_log = [], se_provenance = None \<rparr>"

definition sample_input :: "StepOutcome \<Rightarrow> round_input" where
  "sample_input o' = \<lparr> ri_ts = 1, ri_round_ms = 5, ri_freeze_ms = 5, ri_newID = ''q'', ri_nonce = ''n'', ri_head = Some ''h'',
     ri_config = ''c'', ri_git = no_git, ri_immutable_before = None, ri_immutable_source = None, ri_immutable_after = None,
     ri_result = Inr o', ri_run = zero_run, ri_fixApplied = None, ri_guard = None, ri_resumes = False \<rparr>"

definition sample_loop :: "StepName \<Rightarrow> stepExecutionState \<Rightarrow> loop" where
  "sample_loop name s = enter_loop (sample_env name) s 0 0 zero_run"

lemma plain_round:
  assumes "rn_Shipping (lp_run lp) = None" "rn_Shipping (ri_run inp) = None" "ri_result inp = Inr o'" "ri_guard inp = None"
  shows "run_round env inp lp db = finish_round env inp o' ((read_proof env inp db lp)\<lparr>lp_run := ri_run inp,
    lp_roundNum := lp_roundNum (read_proof env inp db lp) + 1\<rparr>) db"
proof -
  have "lp_run (read_proof env inp db lp) = lp_run lp" by (simp add: read_proof_def)
  then show ?thesis
    using assms by (simp add: run_round_def immutable_refusal_def immutable_source_def executed_def strict_result_def guarded_def
        Let_def split: option.splits)
qed

lemma quiet_round:
  assumes "\<not> carries env" "oc_Findings o' = []"
  shows "finish_round env inp o' lp db =
    decide env inp o' [] (take_url o' ((take_outcome env o' lp)\<lparr>lp_roundID := ri_newID inp\<rparr>))
      (record_round env inp o' [] (take_outcome env o' lp) db)"
  using assms by (simp add: finish_round_def take_findings_def round_findings_def normalizeFindingsJSON_def Let_def)

lemma quiet_auto_fix: "\<not> carries env \<Longrightarrow> auto_fix_due env o' [] [] lp = None"
  by (simp add: auto_fix_due_def autoFixableFindingsJSON_def nonempty_def Let_def)

lemma affected_sql_update: "(\<And>r. p (f r) = p r) \<Longrightarrow> affected p (sql_update q f rows) = affected p rows"
  by (simp add: affected_def sql_update_def filter_map o_def if_distrib cong: if_cong)

lemma record_round_rows:
  "affected p (tb_runs (record_round env inp o' [] lp db)) = affected p (tb_runs db)"
  "affected (\<lambda>s. sp_ID s = i) (tb_steps (record_round env inp o' [] lp db)) = affected (\<lambda>s. sp_ID s = i) (tb_steps db)"
  by (simp_all add: record_round_def Let_def ClearStepFindings_def InsertReviewStepRoundWithProvenance_def InsertReviewStepRound_def
      InsertStepRoundWithRepair_def insertStepRound_def affected_sql_update split: option.splits)

lemma sample_shipping [simp]:
  "rn_Shipping (lp_run (sample_loop name s)) = None" "ri_result (sample_input o') = Inr o'" "ri_guard (sample_input o') = None"
  "rn_Shipping (ri_run (sample_input o')) = None"
  by (simp_all add: sample_loop_def sample_input_def enter_loop_def zero_run_def Let_def)

lemma decide_parks:
  assumes "auto_fix_due env o' (round_findings env o') effective lp = None" "oc_NeedsApproval o'"
    and "affected (\<lambda>s. sp_ID s = se_id env) (tb_steps db) = 1" "affected (\<lambda>r. rn_ID r = se_run env) (tb_runs db) = 1"
  shows "\<exists>db'. decide env inp o' effective lp db = (Park (lp\<lparr>lp_executionMS := lp_executionMS lp + ri_freeze_ms inp\<rparr>) effective, db')"
proof -
  obtain db' where "ParkStepForApproval_sql (ri_ts inp) (ri_nonce inp) (se_run env) (se_id env)
      (if lp_fixing lp then StepStatusFixReview else StepStatusAwaitingApproval) (lp_exitCode lp)
      (lp_executionMS lp + ri_freeze_ms inp) (nonempty effective) (nonempty (lp_roundID lp)) db = Some db'"
    unfolding ParkStepForApproval_sql_def Let_def using assms(3,4) by simp
  then show ?thesis using assms(1,2) by (simp add: decide_def passes_def Let_def)
qed

lemma sample_rows: "affected (\<lambda>s. sp_ID s = ''s'') (tb_steps sample_tables) = 1" "affected (\<lambda>r. rn_ID r = ''r'') (tb_runs sample_tables) = 1"
  by (simp_all add: sample_tables_def affected_def)

definition parking_outcome :: StepOutcome where
  "parking_outcome = zero_outcome\<lparr>oc_NeedsApproval := True\<rparr>"

lemma parking_outcome_fields [simp]: "oc_Findings parking_outcome = []" "oc_NeedsApproval parking_outcome"
  "oc_PRURL parking_outcome = []" "oc_ExitCode parking_outcome = 0" "oc_RestartFrom parking_outcome = []"
  by (simp_all add: parking_outcome_def zero_outcome_def)

lemma sample_park:
  assumes "name \<noteq> StepReview"
  shows "\<exists>lp db. run_round (sample_env name) (sample_input parking_outcome) (sample_loop name fresh_execution) sample_tables =
     (Park lp [], db) \<and> \<not> lp_fixing lp \<and> lp_run lp = zero_run \<and> lp_roundNum lp = 1 \<and> lp_autoFixAttempts lp = 0 \<and>
     lp_roundID lp = ''q'' \<and> lp_selected lp = [] \<and> lp_exitCode lp = 0 \<and> lp_restartFrom lp = [] \<and> \<not> lp_skipped lp \<and>
     (status_proof_required (sample_env name) \<longrightarrow> lp_proofHead lp = ''h'' \<and> lp_proofConfig lp = ''c'' \<and> lp_proofEpoch lp = 0)"
proof -
  have c: "\<not> carries (sample_env name)" using assms by (simp add: carries_def sample_env_def)
  define lp0 where "lp0 = (read_proof (sample_env name) (sample_input parking_outcome) sample_tables (sample_loop name fresh_execution))
    \<lparr>lp_run := zero_run, lp_roundNum := 1\<rparr>"
  define lp1 where "lp1 = take_url parking_outcome ((take_outcome (sample_env name) parking_outcome lp0)\<lparr>lp_roundID := ''q''\<rparr>)"
  define db1 where "db1 = record_round (sample_env name) (sample_input parking_outcome) parking_outcome []
    (take_outcome (sample_env name) parking_outcome lp0) sample_tables"
  have env: "se_id (sample_env n) = ''s''" "se_run (sample_env n) = ''r''" for n by (simp_all add: sample_env_def)
  have "run_round (sample_env name) (sample_input parking_outcome) (sample_loop name fresh_execution) sample_tables =
      decide (sample_env name) (sample_input parking_outcome) parking_outcome [] lp1 db1"
    unfolding plain_round [OF sample_shipping(1,4,2,3)] quiet_round [OF c parking_outcome_fields(1)] lp1_def db1_def
    by (simp add: lp0_def) (simp add: sample_input_def read_proof_def sample_loop_def enter_loop_def fresh_execution_def Let_def)
  moreover have "\<exists>db'. decide (sample_env name) (sample_input parking_outcome) parking_outcome [] lp1 db1 =
      (Park (lp1\<lparr>lp_executionMS := lp_executionMS lp1 + ri_freeze_ms (sample_input parking_outcome)\<rparr>) [], db')"
    by (rule decide_parks)
      (simp_all add: quiet_auto_fix [OF c] round_findings_def normalizeFindingsJSON_def env db1_def record_round_rows sample_rows)
  moreover have "\<not> lp_fixing lp1 \<and> lp_run lp1 = zero_run \<and> lp_roundNum lp1 = 1 \<and> lp_autoFixAttempts lp1 = 0 \<and>
      lp_roundID lp1 = ''q'' \<and> lp_selected lp1 = [] \<and> lp_exitCode lp1 = 0 \<and> lp_restartFrom lp1 = [] \<and> \<not> lp_skipped lp1 \<and>
      (status_proof_required (sample_env name) \<longrightarrow> lp_proofHead lp1 = ''h'' \<and> lp_proofConfig lp1 = ''c'' \<and> lp_proofEpoch lp1 = 0)"
    by (simp add: lp1_def take_url_def take_outcome_def Let_def lp0_def)
      (simp add: sample_loop_def enter_loop_def fresh_execution_def read_proof_def sample_input_def StatusValidationEpoch_def
        sample_tables_def no_tables_def deref_def Let_def)
  ultimately show ?thesis by auto
qed

lemma run_parked:
  "run_round env inp lp db = (Park lp' effective, db') \<Longrightarrow> ri_guard inp = None \<Longrightarrow>
   loop_run env (Running lp) [] (Gated lp' effective, db')"
  using loop_run.Round [OF loop_run.Enter, of lp inp env db] by fastforce

definition sample_answer :: "gate_event \<Rightarrow> gate_input" where
  "sample_answer ev = \<lparr> gi_ts = 2, gi_event = ev, gi_guard = None, gi_unresolved = None, gi_log = [], gi_at = [] \<rparr>"

lemma sample_custom: "IsCustomGate (CustomGateStepName StepLint ''x'')"
  by code_simp

definition sample_done :: done_input where
  "sample_done = \<lparr> di_ts = 3, di_elapsed_ms = 0, di_ci_error = None, di_ci_interrupted = False, di_log = [], di_head = Some ''h'', di_config = ''c'' \<rparr>"

theorem approval_is_no_proof_witness:
  "\<exists>cs lp lp' db db1 db3 v. IsCustomGate (CustomGateStepName StepLint ''x'') \<and>
     loop_run (sample_env (CustomGateStepName StepLint ''x'')) (Running (sample_loop (CustomGateStepName StepLint ''x'') fresh_execution)) cs
       (Gated lp [], db) \<and>
     answer_gate (sample_env (CustomGateStepName StepLint ''x'')) (sample_answer (GateAnswered (zero_response\<lparr>ar_action := ActionApprove\<rparr>)))
       [] lp db = (Complete lp', db1) \<and>
     finish_step (sample_env (CustomGateStepName StepLint ''x'')) sample_done lp' sample_tables = (v, db3) \<and>
     tb_proofs db3 ''s'' = Some \<lparr> pf_head_sha = ''h'', pf_epoch = 0, pf_config_digest = ''c'' \<rparr>"
proof -
  define name where "name = CustomGateStepName StepLint ''x''"
  have n: "name \<noteq> StepReview" "name \<noteq> StepTest" "name \<noteq> StepCI" "IsCustomGate name"
    using sample_custom by (simp_all add: name_def) (simp_all add: step_name_defs CustomGateStepName_def CustomGateStepPrefix_def)
  obtain lp db where p: "run_round (sample_env name) (sample_input parking_outcome) (sample_loop name fresh_execution) sample_tables = (Park lp [], db)"
    and l: "lp_run lp = zero_run" "lp_exitCode lp = 0" "lp_restartFrom lp = []" "\<not> lp_skipped lp"
      "status_proof_required (sample_env name) \<longrightarrow> lp_proofHead lp = ''h'' \<and> lp_proofConfig lp = ''c'' \<and> lp_proofEpoch lp = 0"
    using sample_park [OF n(1)] by auto
  have run: "loop_run (sample_env name) (Running (sample_loop name fresh_execution)) [] (Gated lp [], db)"
    by (rule run_parked [OF p]) simp
  have e: "se_name (sample_env name) = name" "se_id (sample_env name) = ''s''" "se_run (sample_env name) = ''r''"
    by (simp_all add: sample_env_def)
  have req: "status_proof_required (sample_env name)" using n by (simp add: status_proof_required_def e)
  have a: "answer_gate (sample_env name) (sample_answer (GateAnswered (zero_response\<lparr>ar_action := ActionApprove\<rparr>))) [] lp db = (Complete lp, db)"
    using n l(1) by (simp add: answer_gate_def sample_answer_def guarded_def respond_gate_def approve_gate_def applyApprovalOverride_def
        approval_record_def action_defs recordDeclinedRound_def findingsCount_def e zero_response_def nonempty_def zero_run_def deref_def Let_def)
  define db3 where "db3 = snd (finish_step (sample_env name) sample_done lp sample_tables)"
  have f: "finish_step (sample_env name) sample_done lp sample_tables = (fst (finish_step (sample_env name) sample_done lp sample_tables), db3)"
    by (simp add: db3_def)
  have r: "tb_proofs db3 ''s'' = Some \<lparr> pf_head_sha = ''h'', pf_epoch = 0, pf_config_digest = ''c'' \<rparr>"
    using n l req by (simp add: db3_def finish_step_def completes_def proof_due_def e sample_done_def Let_def)
      (simp add: RecordStatusValidationStep_def CompleteStepWithStatus_def completeStep_def StatusValidationEpoch_def sample_tables_def no_tables_def Let_def)
  then have "tb_proofs db3 \<noteq> tb_proofs sample_tables" by (auto simp: sample_tables_def no_tables_def)
  note approval_is_no_proof [OF run [unfolded sample_loop_def] a f this]
  then show ?thesis using run a f r n(4) unfolding name_def by blast
qed

theorem rounds_end_witness:
  "\<exists>v db'. rounds 2 (sample_env StepLint) (\<lambda>_. sample_input parking_outcome) 0 (sample_loop StepLint fresh_execution) sample_tables = Some (v, db') \<and>
     label_of v = []"
proof -
  have "rounds_left (sample_env StepLint) (sample_loop StepLint fresh_execution) < 2"
    by (simp add: rounds_left_def sample_env_def sample_loop_def enter_loop_def fresh_execution_def Let_def)
  then show ?thesis by (intro rounds_end) (simp_all add: keeps_comparison_def)
qed

definition fixable_outcome :: StepOutcome where
  "fixable_outcome = zero_outcome\<lparr>oc_AutoFixable := True, oc_Findings := MarshalFindingsJSON (sample_payload [auto_item])\<rparr>"

lemma normalized_auto_item: "normalizeFindingsJSON (oc_Findings fixable_outcome) p = oc_Findings fixable_outcome"
proof -
  have "normalize_items p [auto_item] = [auto_item]"
    by (rule normalize_items_id) (simp_all add: auto_item_def sample_item_def, code_simp)
  then show ?thesis
    using sample_parse [of "[auto_item]"] auto_item_ok
    by (simp add: fixable_outcome_def normalizeFindingsJSON_def NormalizeFindings_def sample_payload_def)
qed

lemma fixable_auto_item: "autoFixableFindingsJSON (oc_Findings fixable_outcome) \<noteq> []"
  using sample_parse [of "[auto_item]"] auto_item_ok
  by (simp add: fixable_outcome_def autoFixableFindingsJSON_def AutoFixableFindings_def FindingsMetadata_def auto_item_def
      ActionOrDefault_def finding_action_defs Let_def)

lemma sample_auto_fix:
  "\<exists>lp db. run_round (sample_env StepLint) (sample_input fixable_outcome) (sample_loop StepLint fresh_execution) sample_tables =
     (Again AutoFixRound lp, db) \<and> lp_evidence lp = 0"
proof -
  have c: "\<not> carries (sample_env StepLint)" "\<not> IsCustomGate (se_name (sample_env StepLint))"
    by (simp_all add: carries_def sample_env_def step_name_defs) code_simp
  define lp0 where "lp0 = (read_proof (sample_env StepLint) (sample_input fixable_outcome) sample_tables (sample_loop StepLint fresh_execution))
    \<lparr>lp_run := ri_run (sample_input fixable_outcome), lp_roundNum := 1\<rparr>"
  define raw where "raw = oc_Findings fixable_outcome"
  obtain lp1 db1 where r: "run_round (sample_env StepLint) (sample_input fixable_outcome) (sample_loop StepLint fresh_execution) sample_tables =
      decide (sample_env StepLint) (sample_input fixable_outcome) fixable_outcome raw lp1 db1"
    and l: "lp_autoFixAttempts lp1 = 0" "lp_evidence lp1 = 0" "GetStepResult ''s'' db1 \<noteq> None"
  proof
    show "run_round (sample_env StepLint) (sample_input fixable_outcome) (sample_loop StepLint fresh_execution) sample_tables =
      decide (sample_env StepLint) (sample_input fixable_outcome) fixable_outcome raw
        (take_url fixable_outcome ((take_outcome (sample_env StepLint) fixable_outcome lp0)\<lparr>lp_roundID := ri_newID (sample_input fixable_outcome)\<rparr>))
        (record_round (sample_env StepLint) (sample_input fixable_outcome) fixable_outcome raw (take_outcome (sample_env StepLint) fixable_outcome lp0) sample_tables)"
      unfolding plain_round [OF sample_shipping(1,4,2,3)] using c(1)
      by (simp add: finish_round_def take_findings_def round_findings_def normalized_auto_item raw_def lp0_def Let_def)
        (simp add: read_proof_def sample_loop_def enter_loop_def fresh_execution_def Let_def)
    show "GetStepResult ''s'' (record_round (sample_env StepLint) (sample_input fixable_outcome) fixable_outcome raw
        (take_outcome (sample_env StepLint) fixable_outcome lp0) sample_tables) \<noteq> None"
      by (simp add: record_round_def sample_env_def step_name_defs InsertStepRoundWithRepair_def insertStepRound_def SetStepFindings_def
          ClearStepFindings_def GetStepResult_def sql_first_def sql_update_def sample_tables_def Let_def)
  qed (simp_all add: lp0_def, simp_all add: sample_loop_def enter_loop_def fresh_execution_def Let_def)
  have "nonempty (autoFixableFindingsJSON (oc_Findings fixable_outcome)) \<noteq> None"
    using fixable_auto_item by (simp add: nonempty_def)
  then obtain fixable where "nonempty (autoFixableFindingsJSON (oc_Findings fixable_outcome)) = Some fixable" by blast
  then have "auto_fix_due (sample_env StepLint) fixable_outcome (round_findings (sample_env StepLint) fixable_outcome) raw lp1 = Some fixable"
    using c l(1) by (simp add: auto_fix_due_def round_findings_def normalized_auto_item Let_def)
      (simp add: fixable_outcome_def zero_outcome_def sample_env_def)
  moreover obtain db2 where "StartStepFixRound (ri_ts (sample_input fixable_outcome)) (se_id (sample_env StepLint)) (se_limit (sample_env StepLint)) db1 = Some db2"
    using l(3) by (auto simp: StartStepFixRound_def sample_env_def)
  ultimately show ?thesis using r l(2) by (simp add: decide_def start_auto_fix_def Let_def)
qed

theorem auto_fix_budget_witness:
  "\<exists>ph db. loop_run (sample_env StepLint) (Running (enter_loop (sample_env StepLint) fresh_execution 0 0 zero_run)) [(AutoFixRound, 0)] (ph, db) \<and>
     int (count_list [(AutoFixRound, 0)] (AutoFixRound, 0 :: int)) \<le> max 0 (se_limit (sample_env StepLint))"
proof -
  obtain lp db where p: "run_round (sample_env StepLint) (sample_input fixable_outcome) (sample_loop StepLint fresh_execution) sample_tables =
      (Again AutoFixRound lp, db)" "lp_evidence lp = 0" using sample_auto_fix by blast
  have "loop_run (sample_env StepLint) (Running (enter_loop (sample_env StepLint) fresh_execution 0 0 zero_run)) [(AutoFixRound, 0)] (Running lp, db)"
    using loop_run.Round [OF loop_run.Enter _ p(1)] p(2) by (simp add: sample_loop_def)
  from this auto_fix_budget [OF this, of 0] show ?thesis by (auto simp: fresh_execution_def)
qed

definition verifying_state :: stepExecutionState where
  "verifying_state = fresh_execution\<lparr>es_fixing := True, es_outstandingFindings := MarshalFindingsJSON (sample_payload [located_item ''r-1'' ''a.go'']),
     es_selectedOutstandingIDs := [''r-1'']\<rparr>"

lemma sample_pass:
  "\<exists>lp db. run_round (sample_env StepReview) (sample_input covered_outcome) (sample_loop StepReview verifying_state) sample_tables =
     (Complete lp, db) \<and> lp_restartFrom lp = [] \<and> lp_evidence lp = 0"
proof -
  have c: "carries (sample_env StepReview)" "\<not> IsCustomGate (se_name (sample_env StepReview))"
    by (simp_all add: carries_def sample_env_def step_name_defs) code_simp
  define lp0 where "lp0 = take_outcome (sample_env StepReview) covered_outcome
    ((read_proof (sample_env StepReview) (sample_input covered_outcome) sample_tables (sample_loop StepReview verifying_state))
      \<lparr>lp_run := ri_run (sample_input covered_outcome),
       lp_roundNum := lp_roundNum (read_proof (sample_env StepReview) (sample_input covered_outcome) sample_tables (sample_loop StepReview verifying_state)) + 1\<rparr>)"
  have f: "round_findings (sample_env StepReview) covered_outcome = []"
    by (simp add: round_findings_def normalizeFindingsJSON_def covered_outcome_def zero_outcome_def)
  have "lp_outstanding lp0 = MarshalFindingsJSON (sample_payload [located_item ''r-1'' ''a.go''])" "lp_pending lp0 = [''r-1'']"
      "\<not> lp_finalizing lp0" "lp_run lp0 = zero_run"
    by (simp_all add: lp0_def take_outcome_def read_proof_def sample_loop_def enter_loop_def verifying_state_def fresh_execution_def
        sample_input_def carries_def sample_env_def Let_def)
  then have t: "take_findings (sample_env StepReview) (sample_input covered_outcome) covered_outcome lp0 sample_tables =
      ([], lp0\<lparr>lp_outstanding := [], lp_pending := [], lp_selected := []\<rparr>)"
    using c sample_resolution [of "review_context (sample_env StepReview) (sample_input covered_outcome) lp0"]
    by (simp add: take_findings_def f review_context_def zero_run_def retainFindingIDs_def)
  have d: "auto_fix_due (sample_env StepReview) covered_outcome [] [] lp = None" for lp
    using c(2) by (simp add: auto_fix_due_def covered_outcome_def zero_outcome_def Let_def)
  have p: "passes (sample_env StepReview) covered_outcome [] lp" for lp
    by (simp add: passes_def covered_outcome_def zero_outcome_def hasAskUserFindingsJSON_def hasBlockingFindingsAtStepJSON_def
        hasBlockingFindingsJSON_def hasSelectedFindingsJSON_def)
  show ?thesis
    unfolding plain_round [OF sample_shipping(1,4,2,3)] finish_round_def lp0_def [symmetric]
    by (simp add: t decide_def f d p) (simp add: lp0_def covered_outcome_def zero_outcome_def sample_loop_def enter_loop_def Let_def)
qed

theorem review_pass_sound_witness:
  "\<exists>lp' db'. run_round (sample_env StepReview) (sample_input covered_outcome) (sample_loop StepReview verifying_state) sample_tables =
     (Complete lp', db') \<and> still_open (es_outstandingFindings verifying_state) ''r-1'' \<and> \<not> still_open (lp_outstanding lp') ''r-1''"
proof -
  obtain lp' db' where p: "run_round (sample_env StepReview) (sample_input covered_outcome) (sample_loop StepReview verifying_state) sample_tables =
      (Complete lp', db')" "lp_restartFrom lp' = []" and e: "lp_evidence lp' = 0" using sample_pass by blast
  have "\<forall>o'. ri_result (sample_input covered_outcome) = Inr o' \<longrightarrow> list_all utf8_withdrawn (oc_WithdrawnFindings o')"
    by (simp add: covered_outcome_def zero_outcome_def)
  then have "\<not> still_open (lp_outstanding lp') ''r-1''"
    using review_pass_sound [OF ledger_run.Enter [of "sample_env StepReview" verifying_state 0 0 zero_run sample_tables] _ p(1) [unfolded sample_loop_def] p(2)] e
    by (simp add: sample_env_def recorded_entry_def verifying_state_def)
  moreover have "still_open (es_outstandingFindings verifying_state) ''r-1''"
  proof -
    have "ParseFindingsJSON (MarshalFindingsJSON (sample_payload [located_item ''r-1'' ''a.go''])) = Some (sample_payload [located_item ''r-1'' ''a.go''])"
      using two_located by (intro parse_marshal sample_storable) simp
    then show ?thesis
      by (simp add: still_open_def verifying_state_def) (simp add: nonempty_ids_def located_item_def sample_item_def sample_payload_def)
  qed
  ultimately show ?thesis using p by blast
qed

end
