(* ===== verification/TerminalError.thy ===== *)
theory TerminalError
  imports RunTypes Tables
begin

text \<open>
  Why a run ended, from \<open>internal/pipeline/terminal_error.go\<close>, \<open>pipeline.go\<close> and the error types of
  \<open>internal/git/git.go\<close>, \<open>internal/shipping/comparison.go\<close> and \<open>internal/sqlitewrite/write.go\<close>: a Go error as the tree
  that \<open>errors.Is\<close> and \<open>errors.As\<close> walk, the question whether a failure is nothing but a cancellation,
  and the question whether it is attributed to one. A pointer to an error without a cause is a \<open>leaf\<close>;
  leaves are compared by identity, which is their first component.
\<close>

section \<open>Errors as trees\<close>

datatype leaf =
    Plain string string
  | RunCancelCause nat string "string option"
  | ControlledShutdownCause nat string string

definition Canceled :: leaf where "Canceled = Plain ''context.Canceled'' ''context canceled''"
definition ErrDaemonShutdown :: leaf where "ErrDaemonShutdown = Plain ''ErrDaemonShutdown'' ''daemon shutting down''"
definition ErrParkedAtShutdown :: leaf where
  "ErrParkedAtShutdown = Plain ''ErrParkedAtShutdown'' ''run left parked at an approval gate by daemon shutdown''"
definition ErrCIMonitorInterruptedAtShutdown :: leaf where
  "ErrCIMonitorInterruptedAtShutdown = Plain ''ErrCIMonitorInterruptedAtShutdown'' ''run left monitoring CI by daemon shutdown''"

lemmas sentinel_defs = Canceled_def ErrDaemonShutdown_def ErrParkedAtShutdown_def ErrCIMonitorInterruptedAtShutdown_def

definition plannedShutdown :: string where "plannedShutdown = ''cancelled: planned daemon shutdown''"

fun leaf_text :: "leaf \<Rightarrow> string" where
  "leaf_text (Plain n s) = s"
| "leaf_text (RunCancelCause n s ev) = s"
| "leaf_text (ControlledShutdownCause n inst lifecycle) = plannedShutdown"

text \<open>The planned shutdown answers \<open>errors.Is\<close> for the daemon shutdown as well.\<close>

fun leaf_is :: "leaf \<Rightarrow> leaf \<Rightarrow> bool" where
  "leaf_is target (ControlledShutdownCause n inst lifecycle) =
     (ControlledShutdownCause n inst lifecycle = target \<or> target = ErrDaemonShutdown)"
| "leaf_is target l = (l = target)"

text \<open>The wrappers: a join (of \<open>errors.Join\<close> or of several \<open>%w\<close>), the report of a step, an error that adds
  meaning (the failed remote observation), git's transport error, the exit of a child its context
  stopped, contention on the store, a failed terminal preparation with its redacted text, and any
  other wrapper with its text. A wrapper holds nil or one error.\<close>

datatype go_error =
    Leaf leaf
  | Joined string "go_error list"
  | StepExecutionError StepName string "go_error option" bool
  | RemoteObservationError "go_error option"
  | CommandError string string "go_error option"
  | CancelledExitError "go_error option" "go_error option"
  | ContentionError string nat "go_error option"
  | TerminalPreparationError string "go_error option"
  | Wrapped string "go_error option"

fun unwraps :: "go_error \<Rightarrow> go_error list" where
  "unwraps (Leaf l) = []"
| "unwraps (Joined m es) = es"
| "unwraps (CancelledExitError ex refused) = (case ex of Some e \<Rightarrow> [e] | None \<Rightarrow> (case refused of Some e \<Rightarrow> [e] | None \<Rightarrow> []))"
| "unwraps (StepExecutionError s m x w) = (case x of Some e \<Rightarrow> [e] | None \<Rightarrow> [])"
| "unwraps (RemoteObservationError x) = (case x of Some e \<Rightarrow> [e] | None \<Rightarrow> [])"
| "unwraps (CommandError c s x) = (case x of Some e \<Rightarrow> [e] | None \<Rightarrow> [])"
| "unwraps (ContentionError op n x) = (case x of Some e \<Rightarrow> [e] | None \<Rightarrow> [])"
| "unwraps (TerminalPreparationError m x) = (case x of Some e \<Rightarrow> [e] | None \<Rightarrow> [])"
| "unwraps (Wrapped m x) = (case x of Some e \<Rightarrow> [e] | None \<Rightarrow> [])"

fun has_unwrap :: "go_error \<Rightarrow> bool" where
  "has_unwrap (Leaf l) = False"
| "has_unwrap e = True"

fun is_join :: "go_error \<Rightarrow> bool" where
  "is_join (Joined m es) = True"
| "is_join e = False"

fun is_step :: "go_error \<Rightarrow> bool" where
  "is_step (StepExecutionError s m x w) = True"
| "is_step e = False"

fun adds_meaning :: "go_error \<Rightarrow> bool" where
  "adds_meaning (RemoteObservationError x) = True"
| "adds_meaning e = False"

fun is_command :: "go_error \<Rightarrow> bool" where
  "is_command (CommandError c s x) = True"
| "is_command e = False"

fun is_stopped :: "go_error \<Rightarrow> bool" where
  "is_stopped (CancelledExitError ex refused) = True"
| "is_stopped e = False"

fun is_contention :: "go_error \<Rightarrow> bool" where
  "is_contention (ContentionError op n x) = True"
| "is_contention e = False"

fun is_preparation :: "go_error \<Rightarrow> bool" where
  "is_preparation (TerminalPreparationError m x) = True"
| "is_preparation e = False"

lemma unwraps_smaller:
  assumes "x \<in> set (unwraps e)"
  shows "size x < size e"
proof (cases e)
  case (Joined m es)
  then have "size x \<le> size_list size es" using assms by (simp add: size_list_estimation')
  then show ?thesis using Joined by simp
next
  case (CancelledExitError ex refused)
  then show ?thesis using assms by (cases ex; cases refused) auto
qed (use assms in \<open>auto split: option.splits\<close>)

text \<open>The order in which \<open>errors.Is\<close> and \<open>errors.As\<close> visit a tree.\<close>

function chain :: "go_error \<Rightarrow> go_error list" where
  "chain e = e # concat (map chain (unwraps e))"
  by pat_completeness auto
termination by (relation "measure size") (auto simp: unwraps_smaller)

declare chain.simps [simp del]

definition errors_as :: "(go_error \<Rightarrow> bool) \<Rightarrow> go_error \<Rightarrow> go_error option" where
  "errors_as p e = find p (chain e)"

fun same_leaf :: "leaf \<Rightarrow> go_error \<Rightarrow> bool" where
  "same_leaf target (Leaf l) = leaf_is target l"
| "same_leaf target e = False"

definition errors_is :: "leaf \<Rightarrow> go_error \<Rightarrow> bool" where
  "errors_is target e \<longleftrightarrow> list_ex (same_leaf target) (chain e)"

section \<open>Nothing but a cancellation\<close>

definition is_cancellation :: "leaf \<Rightarrow> go_error \<Rightarrow> bool" where
  "is_cancellation cause e \<longleftrightarrow> e = Leaf Canceled \<or> e = Leaf cause"

function CancellationOnly :: "leaf \<Rightarrow> go_error \<Rightarrow> bool" where
  "CancellationOnly cause e =
     (if has_unwrap e then unwraps e \<noteq> [] \<and> list_all (CancellationOnly cause) (unwraps e)
      else is_cancellation cause e)"
  by pat_completeness auto
termination by (relation "measure (\<lambda>(cause, e). size e)") (auto simp: unwraps_smaller)

declare CancellationOnly.simps [simp del]

definition shutdownCancellationOnly :: "go_error \<Rightarrow> leaf option list \<Rightarrow> bool" where
  "shutdownCancellationOnly e causes \<longleftrightarrow>
     list_ex (\<lambda>cause. errors_is cause e \<and> CancellationOnly cause e) [ErrDaemonShutdown, ErrParkedAtShutdown] \<or>
     list_ex (\<lambda>ctx. case ctx of None \<Rightarrow> False | Some cause \<Rightarrow> leaf_is ErrDaemonShutdown cause \<and> CancellationOnly cause e) causes"

definition LeftForRecoveryAtShutdown :: "go_error \<Rightarrow> bool" where
  "LeftForRecoveryAtShutdown e \<longleftrightarrow>
     list_ex (\<lambda>cause. errors_is cause e \<and> CancellationOnly cause e) [ErrParkedAtShutdown, ErrCIMonitorInterruptedAtShutdown]"

fun watch_only :: "go_error \<Rightarrow> bool" where
  "watch_only (StepExecutionError s m x w) = w"
| "watch_only e = False"

definition watcherCancellation :: "go_error \<Rightarrow> bool" where
  "watcherCancellation e = (case errors_as is_step e of Some s \<Rightarrow> watch_only s | None \<Rightarrow> False)"

section \<open>Attributed to a cancellation\<close>

lemma errors_as_in: "errors_as p e = Some x \<Longrightarrow> x \<in> set (chain e) \<and> p x"
  unfolding errors_as_def by (auto simp: find_Some_iff)

lemma chain_size: "x \<in> set (chain e) \<Longrightarrow> size x \<le> size e"
proof (induction e rule: chain.induct)
  case (1 e)
  then consider "x = e" | y where "y \<in> set (unwraps e)" "x \<in> set (chain y)" by (auto simp: chain.simps [of e])
  then show ?case
  proof cases
    case 2
    then show ?thesis using "1.IH" [OF 2(1)] unwraps_smaller [OF 2(1)] by simp
  qed simp
qed

lemma found_smaller: "errors_as p e = Some x \<Longrightarrow> y \<in> set (unwraps x) \<Longrightarrow> size y < size e"
  using errors_as_in chain_size unwraps_smaller by (meson less_le_trans)

text \<open>A stopped child's exit is a report of the stop when it sits in a join, and must carry something. What a
  join holds is asked part by part; otherwise the first step report of the chain is looked through, an
  error that adds meaning is a failure of its own, git's transport error is looked through, and any
  other wrapper is the failure.\<close>

fun reports_stop :: "go_error \<Rightarrow> bool" where
  "reports_stop (CancelledExitError ex refused) = (ex \<noteq> None \<or> refused \<noteq> None)"
| "reports_stop e = False"

function CancellationAttributable :: "leaf \<Rightarrow> go_error \<Rightarrow> bool" where
  "CancellationAttributable cause e =
     (if CancellationOnly cause e then True
      else if is_join e then unwraps e \<noteq> [] \<and>
        list_all (\<lambda>child. if is_stopped child then reports_stop child else CancellationAttributable cause child) (unwraps e)
      else (case errors_as is_step e of
              Some s \<Rightarrow> list_ex (CancellationAttributable cause) (unwraps s)
            | None \<Rightarrow>
                if errors_as adds_meaning e \<noteq> None then False
                else (case errors_as is_command e of
                        Some c \<Rightarrow> list_ex (CancellationAttributable cause) (unwraps c)
                      | None \<Rightarrow> is_cancellation cause e)))"
  by pat_completeness auto
termination
  by (relation "measure (\<lambda>(cause, e). size e)") (auto simp: unwraps_smaller found_smaller)

declare CancellationAttributable.simps [simp del]

section \<open>What the questions decide\<close>

lemma chain_self [simp]: "e \<in> set (chain e)"
  by (simp add: chain.simps [of e])

lemma chain_unwraps: "x \<in> set (chain y) \<Longrightarrow> y \<in> set (unwraps e) \<Longrightarrow> x \<in> set (chain e)"
  by (auto simp: chain.simps [of e])

lemma no_unwrap: "\<not> has_unwrap e \<Longrightarrow> unwraps e = []"
  by (cases e) auto

lemma cancellation_leaf: "is_cancellation cause e \<Longrightarrow> \<not> has_unwrap e"
  by (auto simp: is_cancellation_def)

text \<open>A failure is nothing but the cancellation exactly when everything at the bottom of its tree is.\<close>

lemma cancellation_only_iff:
  "CancellationOnly cause e \<longleftrightarrow> (\<forall>x \<in> set (chain e). unwraps x = [] \<longrightarrow> is_cancellation cause x)"
proof (induction cause e rule: CancellationOnly.induct)
  case (1 cause e)
  show ?case
  proof (cases "unwraps e = []")
    case True
    have "CancellationOnly cause e \<longleftrightarrow> is_cancellation cause e"
      using True cancellation_leaf [of cause e] by (auto simp: CancellationOnly.simps [of cause e])
    moreover have "set (chain e) = {e}" using True by (simp add: chain.simps [of e])
    ultimately show ?thesis using True by simp
  next
    case False
    then have has: "has_unwrap e" using no_unwrap by blast
    have "CancellationOnly cause e \<longleftrightarrow> (\<forall>y \<in> set (unwraps e). CancellationOnly cause y)"
      using False has by (simp add: CancellationOnly.simps [of cause e] list_all_iff)
    also have "\<dots> \<longleftrightarrow> (\<forall>y \<in> set (unwraps e). \<forall>x \<in> set (chain y). unwraps x = [] \<longrightarrow> is_cancellation cause x)"
      using "1.IH" [OF has] by simp
    finally show ?thesis using False by (auto simp: chain.simps [of e])
  qed
qed

text \<open>What a failure says of its own: the bottom of its tree, without the exits of stopped children that a join
  reports beside the rest.\<close>

function outcomes :: "go_error \<Rightarrow> go_error list" where
  "outcomes e =
     (if unwraps e = [] then [e]
      else concat (map (\<lambda>child. if is_join e \<and> is_stopped child then [] else outcomes child) (unwraps e)))"
  by pat_completeness auto
termination by (relation "measure size") (auto simp: unwraps_smaller)

declare outcomes.simps [simp del]

text \<open>The failures the pipeline and git build around a cancellation: joins, step reports and transport errors with
  a cause, no step report below a transport error, and a stopped child only as a part of a join that holds
  something besides stopped children.\<close>

function transparent :: "go_error \<Rightarrow> bool" where
  "transparent e =
     (if is_join e then \<not> list_all is_stopped (unwraps e) \<and>
        list_all (\<lambda>child. if is_stopped child then \<exists>l. unwraps child = [Leaf l] else transparent child) (unwraps e)
      else if is_step e \<or> is_command e then unwraps e \<noteq> [] \<and> list_all transparent (unwraps e) \<and>
        (is_command e \<longrightarrow> errors_as is_step e = None)
      else \<not> has_unwrap e)"
  by pat_completeness auto
termination by (relation "measure size") (auto simp: unwraps_smaller)

declare transparent.simps [simp del]

lemma transparent_part:
  assumes "transparent e" "is_join e" "child \<in> set (unwraps e)"
  shows "if is_stopped child then \<exists>l. unwraps child = [Leaf l] else transparent child"
  using assms by (simp add: transparent.simps [of e] list_all_iff)

lemma stopped_reports: "is_stopped e \<Longrightarrow> unwraps e = [x] \<Longrightarrow> reports_stop e"
  by (cases e) (auto split: option.splits)

lemma shape_cases:
  obtains "is_join e" | "is_step e" "\<not> is_join e" | "is_command e" "\<not> is_join e" "\<not> is_step e"
  | "\<not> is_join e" "\<not> is_step e" "\<not> is_command e"
  by blast

lemma one_cause: "is_step e \<or> is_command e \<Longrightarrow> unwraps e \<noteq> [] \<Longrightarrow> \<exists>x. unwraps e = [x]"
  by (cases e) (auto split: option.splits)

lemma errors_as_here: "p e \<Longrightarrow> errors_as p e = Some e"
  by (simp add: errors_as_def chain.simps [of e])

text \<open>A wrapper with one cause says what its cause says.\<close>

lemma outcomes_wrapper: "\<not> is_join e \<Longrightarrow> unwraps e = [x] \<Longrightarrow> outcomes e = outcomes x"
  by (simp add: outcomes.simps [of e])

lemma outcomes_in_chain: "x \<in> set (outcomes e) \<Longrightarrow> x \<in> set (chain e) \<and> unwraps x = []"
proof (induction e rule: outcomes.induct)
  case (1 e)
  show ?case
  proof (cases "unwraps e = []")
    case True
    then show ?thesis using "1.prems" by (simp add: outcomes.simps [of e])
  next
    case False
    then obtain child where c: "child \<in> set (unwraps e)" "\<not> (is_join e \<and> is_stopped child)" "x \<in> set (outcomes child)"
      using "1.prems" by (auto simp: outcomes.simps [of e] split: if_splits)
    then show ?thesis using "1.IH" [OF False c(1,2)] chain_unwraps by blast
  qed
qed

text \<open>No transparent failure hides an error that adds meaning.\<close>

lemma transparent_plain: "transparent e \<Longrightarrow> errors_as adds_meaning e = None"
proof -
  have "transparent e \<Longrightarrow> x \<in> set (chain e) \<Longrightarrow> \<not> adds_meaning x" for x
  proof (induction e rule: transparent.induct)
    case (1 e)
    then consider "x = e" | child where "child \<in> set (unwraps e)" "x \<in> set (chain child)" by (auto simp: chain.simps [of e])
    then show ?case
    proof cases
      case 1
      moreover have "is_join e \<or> is_step e \<or> is_command e \<or> \<not> has_unwrap e"
        using "1.prems"(1) by (auto simp: transparent.simps [of e] split: if_splits)
      ultimately show ?thesis by (cases e) auto
    next
      case 2
      show ?thesis
      proof (cases "is_join e \<and> is_stopped child")
        case True
        then obtain l where "unwraps child = [Leaf l]" using transparent_part [OF "1.prems"(1) _ 2(1)] by auto
        then have "x = child \<or> x = Leaf l" using 2(2) by (auto simp: chain.simps [of child] chain.simps [of "Leaf l"])
        then show ?thesis using True by (cases child) auto
      next
        case False
        have "transparent child" "is_join e \<or> is_step e \<or> is_command e"
          using False "1.prems"(1) 2(1) no_unwrap [of e] by (auto simp: transparent.simps [of e] list_all_iff split: if_splits)
        then show ?thesis using "1.IH" False 2 "1.prems"(1) by (auto simp: transparent.simps [of e])
      qed
    qed
  qed
  then show "transparent e \<Longrightarrow> errors_as adds_meaning e = None"
    by (meson errors_as_in not_Some_eq)
qed

text \<open>Something is always said.\<close>

lemma transparent_says: "transparent e \<Longrightarrow> outcomes e \<noteq> []"
proof (induction e rule: transparent.induct)
  case (1 e)
  show ?case
  proof (cases "is_join e")
    case True
    then obtain child where child: "child \<in> set (unwraps e)" "\<not> is_stopped child"
      using "1.prems" by (auto simp: transparent.simps [of e] list_all_iff)
    then have "transparent child" using transparent_part [OF "1.prems" True child(1)] by simp
    then have "outcomes child \<noteq> []" using "1.IH"(1) [OF True child] by blast
    then show ?thesis using child by (cases "unwraps e = []") (auto simp: outcomes.simps [of e])
  next
    case False
    show ?thesis
    proof (cases "unwraps e = []")
      case True
      then show ?thesis by (simp add: outcomes.simps [of e])
    next
      case has: False
      then have "is_step e \<or> is_command e" using "1.prems" False no_unwrap [of e] by (auto simp: transparent.simps [of e] split: if_splits)
      then obtain x where x: "unwraps e = [x]" "transparent x"
        using has one_cause [of e] "1.prems" False by (auto simp: transparent.simps [of e])
      then show ?thesis using "1.IH"(2) [OF False \<open>is_step e \<or> is_command e\<close>] outcomes_wrapper [OF False x(1)] by simp
    qed
  qed
qed

lemma attributable_iff:
  assumes "transparent e"
  shows "CancellationAttributable cause e \<longleftrightarrow> (\<forall>x \<in> set (outcomes e). is_cancellation cause x)"
  using assms
proof (induction cause e rule: CancellationAttributable.induct)
  case (1 cause e)
  have only: ?case if "CancellationOnly cause e"
    using that outcomes_in_chain [of _ e] by (auto simp: CancellationAttributable.simps [of cause e] cancellation_only_iff)
  show ?case
  proof (cases "CancellationOnly cause e")
    case False
    show ?thesis
    proof (cases rule: shape_cases [of e])
      case 1
      have step: "(if is_stopped child then reports_stop child else CancellationAttributable cause child) \<longleftrightarrow>
          (\<forall>x \<in> set (if is_join e \<and> is_stopped child then [] else outcomes child). is_cancellation cause x)"
        if part: "child \<in> set (unwraps e)" for child
      proof (cases "is_stopped child")
        case True
        then obtain l where "unwraps child = [Leaf l]" using transparent_part [OF "1.prems" 1 part] by auto
        then have "reports_stop child" using True stopped_reports by blast
        then show ?thesis using True 1 by simp
      next
        case stopped: False
        then have "transparent child" using transparent_part [OF "1.prems" 1 part] by simp
        then show ?thesis using "1.IH"(1) [OF False 1 part stopped] stopped by simp
      qed
      have "unwraps e \<noteq> []" using "1.prems" 1 by (auto simp: transparent.simps [of e])
      then have "CancellationAttributable cause e \<longleftrightarrow>
          (\<forall>child \<in> set (unwraps e). if is_stopped child then reports_stop child else CancellationAttributable cause child)"
        using False 1 by (simp add: CancellationAttributable.simps [of cause e] list_all_iff)
      also have "\<dots> \<longleftrightarrow> (\<forall>child \<in> set (unwraps e). \<forall>x \<in> set (if is_join e \<and> is_stopped child then [] else outcomes child). is_cancellation cause x)"
        using step by blast
      also have "\<dots> \<longleftrightarrow> (\<forall>x \<in> set (outcomes e). is_cancellation cause x)"
        using \<open>unwraps e \<noteq> []\<close> by (auto simp: outcomes.simps [of e])
      finally show ?thesis .
    next
      case 2
      then obtain x where x: "unwraps e = [x]" "transparent x"
        using "1.prems" one_cause [of e] by (auto simp: transparent.simps [of e])
      have "CancellationAttributable cause e \<longleftrightarrow> CancellationAttributable cause x"
        using False 2 x errors_as_here [of is_step e] by (simp add: CancellationAttributable.simps [of cause e])
      then show ?thesis
        using "1.IH"(3) [OF False 2(2) errors_as_here [of is_step, OF 2(1)]] x outcomes_wrapper [OF 2(2) x(1)] by simp
    next
      case 3
      then obtain x where x: "unwraps e = [x]" "transparent x" and no_step: "errors_as is_step e = None"
        using "1.prems" one_cause [of e] by (auto simp: transparent.simps [of e])
      have plain: "errors_as adds_meaning e = None" using transparent_plain "1.prems" by blast
      have "CancellationAttributable cause e \<longleftrightarrow> CancellationAttributable cause x"
        using False 3 x no_step plain errors_as_here [of is_command e] by (simp add: CancellationAttributable.simps [of cause e])
      then show ?thesis
        using "1.IH"(2) [OF False 3(2) no_step _ errors_as_here [of is_command, OF 3(1)]] plain x outcomes_wrapper [OF 3(2) x(1)] by simp
    next
      case 4
      then have leaf: "\<not> has_unwrap e" using "1.prems" by (simp add: transparent.simps [of e])
      then have empty: "unwraps e = []" by (rule no_unwrap)
      have no: "errors_as is_step e = None" "errors_as is_command e = None" "errors_as adds_meaning e = None"
        using empty 4 transparent_plain [OF "1.prems"] by (simp_all add: errors_as_def chain.simps [of e])
      have "CancellationAttributable cause e \<longleftrightarrow> is_cancellation cause e"
        using False 4 no by (simp add: CancellationAttributable.simps [of cause e])
      moreover have "\<not> is_cancellation cause e" using False leaf by (simp add: CancellationOnly.simps [of cause e])
      ultimately show ?thesis using empty by (simp add: outcomes.simps [of e])
    qed
  qed (use only in simp)
qed

text \<open>C23. A failure built of joins, step reports and git's transport errors always says something besides the exits of stopped
  children, and it is attributed to a cancellation exactly when everything it says is that cancellation: one independent part makes
  the whole failure independent, and the exit of a stopped child never stands for the cancellation by itself. A join of stopped
  children only is outside this shape (\<open>stopped_parts_attributed\<close> below).\<close>

theorem attributed_outcomes:
  assumes "transparent e"
  shows "outcomes e \<noteq> [] \<and> (CancellationAttributable cause e \<longleftrightarrow> (\<forall>x \<in> set (outcomes e). is_cancellation cause x))"
  using transparent_says [OF assms] attributable_iff [OF assms] by blast

text \<open>Any other wrapper without a step report or a transport error below it is the failure, unless all of it is the
  cancellation.\<close>

lemma wrapper_is_the_failure:
  assumes "has_unwrap e" "\<not> is_join e" "errors_as is_step e = None" "errors_as is_command e = None"
  shows "CancellationAttributable cause e \<longleftrightarrow> CancellationOnly cause e"
  using assms cancellation_leaf by (auto simp: CancellationAttributable.simps [of cause e])

text \<open>A step report is found through a join when a wrapper stands around the join, so the other parts of the join are
  not asked; and a join of nothing but stopped children is attributed to every cancellation.\<close>

lemma buried_part_ignored:
  "CancellationAttributable cause (Wrapped m (Some (Joined m' [Leaf independent, StepExecutionError s t (Some (Leaf Canceled)) w])))"
  by (simp add: CancellationAttributable.simps [of cause "Wrapped _ _"] errors_as_def chain.simps CancellationAttributable.simps [of cause "Leaf _"]
      CancellationOnly.simps is_cancellation_def)

lemma stopped_parts_attributed: "CancellationAttributable cause (Joined m [CancelledExitError (Some e) None])"
  by (simp add: CancellationAttributable.simps [of cause "Joined _ _"])

text \<open>A run left for recovery failed with nothing but one of the two shutdown reports.\<close>

lemma leaf_is_iff: "leaf_is target l \<longleftrightarrow>
    l = target \<or> target = ErrDaemonShutdown \<and> (\<exists>n inst lifecycle. l = ControlledShutdownCause n inst lifecycle)"
  by (cases l) auto

lemma left_for_recovery_iff:
  "LeftForRecoveryAtShutdown e \<longleftrightarrow> (\<exists>cause \<in> {ErrParkedAtShutdown, ErrCIMonitorInterruptedAtShutdown}.
     Leaf cause \<in> set (chain e) \<and> (\<forall>x \<in> set (chain e). unwraps x = [] \<longrightarrow> is_cancellation cause x))"
proof -
  have "errors_is cause e \<longleftrightarrow> Leaf cause \<in> set (chain e)" if "cause \<noteq> ErrDaemonShutdown" for cause
  proof -
    have "same_leaf cause x \<longleftrightarrow> x = Leaf cause" for x
      using that by (cases x) (auto simp: leaf_is_iff)
    then show ?thesis by (auto simp: errors_is_def list_ex_iff)
  qed
  then show ?thesis by (auto simp: LeftForRecoveryAtShutdown_def cancellation_only_iff sentinel_defs)
qed

text \<open>A step whose git command the cancellation stopped, with the exit of the stopped child beside the order.\<close>

definition stopped_step :: go_error where
  "stopped_step = StepExecutionError StepDocument ''stopped'' (Some (CommandError ''git push'' [] (Some (Joined ''m''
     [Leaf ErrDaemonShutdown, CancelledExitError (Some (Leaf (Plain ''exit'' ''signal: killed''))) None])))) False"

definition independent_step :: go_error where
  "independent_step = StepExecutionError StepDocument ''failed'' (Some (Joined ''m'' [Leaf ErrDaemonShutdown, Leaf (Plain ''io'' ''disk full'')])) False"

theorem attributed_outcomes_witness:
  "CancellationAttributable ErrDaemonShutdown stopped_step \<and> \<not> CancellationAttributable ErrDaemonShutdown independent_step"
proof -
  have leaf: "unwraps (Leaf l) = []" "transparent (Leaf l)" "outcomes (Leaf l) = [Leaf l]" for l
    by (simp_all add: transparent.simps [of "Leaf l"] outcomes.simps [of "Leaf l"])
  define join where "join = Joined ''m'' [Leaf ErrDaemonShutdown, CancelledExitError (Some (Leaf (Plain ''exit'' ''signal: killed''))) None]"
  have join: "transparent join" "outcomes join = [Leaf ErrDaemonShutdown]"
    by (simp_all add: join_def transparent.simps [of "Joined _ _"] outcomes.simps [of "Joined _ _"] leaf)
  have none: "errors_as is_step (CommandError a b (Some join)) = None" for a b
    by (simp add: errors_as_def join_def chain.simps)
  have "transparent stopped_step" "outcomes stopped_step = [Leaf ErrDaemonShutdown]"
    by (simp_all add: stopped_step_def join_def [symmetric] transparent.simps [of "StepExecutionError _ _ _ _"] transparent.simps [of "CommandError _ _ _"]
        outcomes.simps [of "StepExecutionError _ _ _ _"] outcomes.simps [of "CommandError _ _ _"] join none)
  moreover have "transparent independent_step" "outcomes independent_step = [Leaf ErrDaemonShutdown, Leaf (Plain ''io'' ''disk full'')]"
    by (simp_all add: independent_step_def transparent.simps [of "StepExecutionError _ _ _ _"] transparent.simps [of "Joined _ _"]
        outcomes.simps [of "StepExecutionError _ _ _ _"] outcomes.simps [of "Joined _ _"] leaf)
  ultimately show ?thesis using attributed_outcomes [of stopped_step ErrDaemonShutdown] attributed_outcomes [of independent_step ErrDaemonShutdown]
    by (simp add: is_cancellation_def sentinel_defs)
qed

end
