(* ===== verification/RunEnd.thy ===== *)
theory RunEnd
  imports TerminalError RunRows StatusCert
begin

text \<open>
  How a run ends, from \<open>internal/pipeline/executor.go\<close> (\<open>FailRun\<close>, \<open>completeRun\<close>, \<open>verifyCompletionHead\<close>,
  \<open>reconcileTerminalRunHead\<close>, \<open>preserveUnpublishedTerminalHead\<close>, \<open>ciMonitorInterruptedByShutdown\<close>,
  \<open>plannedShutdownOfCertifiedWatcher\<close>), \<open>cancel_attribution.go\<close>, \<open>validation_certificate.go\<close> and
  \<open>internal/db/infrastructure_failure.go\<close>: the outcome is decided from the tree of the failure and the causes of
  the contexts, and written until the store takes it. What git answers is an input of each attempt, and so
  is the point at which the store, or the lock of the commit status, refuses it. Reports to the forge, events and the file that keeps an
  infrastructure outcome outside the store are left out.
\<close>

section \<open>The text of a failure\<close>

definition ErrorName :: string where "ErrorName = ''SQLITE_WRITE_CONTENTION''"

definition RecordedContention :: "string \<Rightarrow> bool" where
  "RecordedContention msg = HasPrefix msg (ErrorName @ '':'')"

fun Error :: "go_error \<Rightarrow> string" where
  "Error (Leaf l) = leaf_text l"
| "Error (Joined m es) = m"
| "Error (StepExecutionError s m x w) = ''step '' @ s @ '' failed: '' @ m"
| "Error (RemoteObservationError x) = ''observe shipping ref: remote observation failed''"
| "Error (CommandError c s x) =
     ''git '' @ c @ '': '' @ (case x of None \<Rightarrow> ''<nil>'' | Some e \<Rightarrow> Error e) @ '': '' @ TrimSpace s"
| "Error (CancelledExitError ex refused) =
     (case ex of Some e \<Rightarrow> Error e | None \<Rightarrow> (case refused of Some e \<Rightarrow> Error e | None \<Rightarrow> ''command was cancelled''))"
| "Error (ContentionError op n x) =
     ErrorName @ '': infrastructure failure writing '' @ op @ '' after '' @ Itoa (int n) @
       '' attempts; retry the operation when the database lock is released: '' @
       (case x of None \<Rightarrow> ''<nil>'' | Some e \<Rightarrow> Error e)"
| "Error (TerminalPreparationError m x) = m"
| "Error (Wrapped m x) = m"

section \<open>The head a terminal row records\<close>

text \<open>What is fixed for a run: its identifier, the runtime instance of the daemon, the managed worktree and the
  digest of the configuration. A probe is what git
  answers: the head of the worktree, whether it descends from the recorded head, and whether an unpublished
  head was anchored for recovery.\<close>

record run_env =
  re_run :: string
  re_instance :: string
  re_workdir :: string
  re_digest :: string

record head_probe =
  hp_head :: "string option"
  hp_descends :: bool
  hp_preserved :: bool

definition preserveUnpublishedTerminalHead :: "run_env \<Rightarrow> head_probe \<Rightarrow> Run \<Rightarrow> string \<Rightarrow> bool" where
  "preserveUnpublishedTerminalHead env probe r head =
     (if head = [] then False
      else let pushed = deref (rn_LastPushedSHA r);
               published = (if pushed = [] then deref (rn_SubmittedHeadSHA r) else pushed) in
        head = published \<or> hp_preserved probe)"

definition reconcileTerminalRunHead :: "run_env \<Rightarrow> head_probe \<Rightarrow> tables \<Rightarrow> string option" where
  "reconcileTerminalRunHead env probe db =
     (if TrimSpace (re_workdir env) = [] then None
      else (case GetRun (re_run env) db of
              None \<Rightarrow> None
            | Some r \<Rightarrow>
                let recorded = TrimSpace (rn_HeadSHA r) in
                if recorded = [] then None
                else (case hp_head probe of
                        None \<Rightarrow> None
                      | Some raw \<Rightarrow>
                          let observed = TrimSpace raw in
                          if observed = [] then None
                          else if observed = recorded
                          then (if preserveUnpublishedTerminalHead env probe r observed then Some recorded else None)
                          else if \<not> hp_descends probe then None
                          else if preserveUnpublishedTerminalHead env probe r observed then Some observed else None)))"

section \<open>Deciding the outcome\<close>

definition RunCancelReasonAbortedByUser :: string where "RunCancelReasonAbortedByUser = ''cancelled: aborted by user''"
definition RunCancelReasonSuperseded :: string where "RunCancelReasonSuperseded = ''cancelled: superseded by new push''"

text \<open>The binding of the planned shutdown of this runtime, when the store holds it for the run.\<close>

definition planned_binding :: "run_env \<Rightarrow> leaf \<Rightarrow> ShutdownBinding option" where
  "planned_binding env cause =
     (case cause of
        ControlledShutdownCause n inst lifecycle \<Rightarrow>
          if inst \<noteq> [] \<and> inst = re_instance env
          then Some \<lparr> sh_Instance = inst, sh_Lifecycle = lifecycle, sh_Reason = plannedShutdown \<rparr> else None
      | _ \<Rightarrow> None)"

definition bound_shutdown :: "run_env \<Rightarrow> tables \<Rightarrow> leaf \<Rightarrow> ShutdownBinding option" where
  "bound_shutdown env db cause =
     (case planned_binding env cause of
        None \<Rightarrow> None
      | Some b \<Rightarrow> if ControlledShutdownMatches (re_run env) b db then Some b else None)"

text \<open>Only the first planned shutdown of this runtime is asked.\<close>

definition plannedShutdownOfCertifiedWatcher :: "run_env \<Rightarrow> leaf option list \<Rightarrow> tables \<Rightarrow> bool" where
  "plannedShutdownOfCertifiedWatcher env causes db =
     (case filter (\<lambda>ctx. \<exists>c b. ctx = Some c \<and> planned_binding env c = Some b) causes of
        Some c # rest \<Rightarrow> bound_shutdown env db c \<noteq> None \<and> HasStatusPreservationProof (re_run env) db
      | _ \<Rightarrow> False)"

definition ciMonitorInterruptedByShutdown :: "run_env \<Rightarrow> go_error \<Rightarrow> leaf option list \<Rightarrow> tables \<Rightarrow> bool" where
  "ciMonitorInterruptedByShutdown env e causes db \<longleftrightarrow>
     shutdownCancellationOnly e causes \<and> \<not> plannedShutdownOfCertifiedWatcher env causes db \<and>
     IsActiveCIMonitorRun (re_run env) db"

text \<open>What \<open>FailRun\<close> has decided and its retries carry on with.\<close>

record settling =
  sg_msg :: string
  sg_status :: RunStatus
  sg_explicit :: bool
  sg_controlled :: "ShutdownBinding option"
  sg_head :: "string option"

definition contention_of :: "go_error \<Rightarrow> go_error option" where
  "contention_of e = errors_as is_contention e"

text \<open>The cause the failure is attributed to: the first context that was cancelled with one.\<close>

definition attributed_cause :: "go_error \<Rightarrow> leaf option list \<Rightarrow> leaf option" where
  "attributed_cause e causes =
     (case find (\<lambda>ctx. case ctx of None \<Rightarrow> False | Some c \<Rightarrow> c \<noteq> Canceled \<and> CancellationAttributable c e) causes of
        Some ctx \<Rightarrow> ctx | None \<Rightarrow> None)"

definition decide_failure :: "run_env \<Rightarrow> go_error \<Rightarrow> leaf option list \<Rightarrow> head_probe \<Rightarrow> tables \<Rightarrow> settling" where
  "decide_failure env e causes probe db =
     (let head = reconcileTerminalRunHead env probe db;
          own = (if RecordedContention (Error e) then ''pipeline execution failure: '' @ Error e else Error e);
          failed = \<lparr> sg_msg = own, sg_status = RunFailed, sg_explicit = False, sg_controlled = None, sg_head = head \<rparr> in
      case contention_of e of
        Some contention \<Rightarrow> failed\<lparr>sg_msg := Error contention\<rparr>
      | None \<Rightarrow>
          (case attributed_cause e causes of
             None \<Rightarrow> failed
           | Some c \<Rightarrow>
               let controlled = bound_shutdown env db c;
                   explicit = (leaf_text c = RunCancelReasonAbortedByUser);
                   byOperator = (explicit \<or> leaf_text c = RunCancelReasonSuperseded) in
               \<lparr> sg_msg = leaf_text c,
                 sg_status = (if byOperator \<or> controlled \<noteq> None then RunCancelled else RunFailed),
                 sg_explicit = (explicit \<or> controlled \<noteq> None), sg_controlled = controlled, sg_head = head \<rparr>))"

section \<open>Writing the outcome\<close>

definition FailRunInfrastructure :: "int \<Rightarrow> string \<Rightarrow> string \<Rightarrow> string \<Rightarrow> tables \<Rightarrow> tables option" where
  "FailRunInfrastructure ts run msg verifiedHead db =
     (if \<not> RecordedContention msg then None
      else Some (steps_update (\<lambda>s. sp_RunID s = run \<and>
          sp_Status s \<in> {StepStatusRunning, StepStatusFixing, StepStatusAwaitingApproval, StepStatusFixReview})
        (\<lambda>s. s\<lparr>sp_Status := StepStatusFailed, sp_Error := Some msg, sp_CompletedAt := Some ts, sp_LastActivityAt := Some ts,
           sp_LastActivity := Some ''infrastructure failure'', sp_AgentPID := None, sp_PendingResponse := None\<rparr>)
        (runs_update (run_row run) (\<lambda>r. (with_status RunFailed r)\<lparr>rn_Error := Some msg, rn_PushActive := False,
           rn_ParkedMS := rn_ParkedMS r + (case rn_AwaitingAgentSince r of None \<Rightarrow> 0
             | Some since \<Rightarrow> if ts > since then (ts - since) * 1000 else 0),
           rn_AwaitingAgentSince := None,
           rn_HeadSHA := (if verifiedHead = [] then rn_HeadSHA r else verifiedHead),
           rn_TerminalHeadVerifiedAt := (if verifiedHead = [] then None else Some ts), rn_UpdatedAt := ts\<rparr>) db)))"

definition RecordCancellationAttribution :: "string \<Rightarrow> leaf option list \<Rightarrow> tables \<Rightarrow> tables" where
  "RecordCancellationAttribution run causes db =
     (case filter (\<lambda>ctx. \<exists>n reason event. ctx = Some (RunCancelCause n reason event)) causes of
        Some (RunCancelCause n reason event) # rest \<Rightarrow> RecordRunEnding run event db
      | _ \<Rightarrow> db)"

text \<open>Where the store may refuse an attempt, and what git answers during it: the porcelain status, the head of the
  worktree, and a second reconciliation of the head.\<close>

datatype fault = AtAttribution | AtInvalidation | AtRead | AtTerminal

record attempt =
  at_ts :: int
  at_fault :: "fault option"
  at_clean :: "string option"
  at_head :: "string option"
  at_probe :: head_probe

datatype preparation = Unprepared | Refused_write | Terminalized tables

definition terminalizeCertifiedWatcher :: "run_env \<Rightarrow> attempt \<Rightarrow> settling \<Rightarrow> string \<Rightarrow> tables \<Rightarrow> preparation" where
  "terminalizeCertifiedWatcher env a g head db =
     (case at_clean a of
        None \<Rightarrow> Unprepared
      | Some clean \<Rightarrow>
          if TrimSpace clean \<noteq> [] then Unprepared
          else if at_head a \<noteq> Some head then Unprepared
          else if at_fault a = Some AtTerminal then Refused_write
          else (case TerminalizeCertifiedWatcher (at_ts a) (re_run env) (sg_msg g) head (re_digest env) (sg_status g) (sg_controlled g) db of
                  None \<Rightarrow> Refused_write
                | Some db' \<Rightarrow> Terminalized db'))"

definition record_terminal :: "run_env \<Rightarrow> attempt \<Rightarrow> settling \<Rightarrow> tables \<Rightarrow> bool \<times> settling \<times> tables" where
  "record_terminal env a g db =
     (if at_fault a = Some AtTerminal then (False, g, db)
      else (case RecordIneligibleTerminal (at_ts a) (re_run env) (sg_msg g) (sg_status g) (sg_head g) db of
              None \<Rightarrow> (False, g, db)
            | Some db' \<Rightarrow> (True, g, db')))"

text \<open>A raw shutdown that superseded the run takes an attributed cancellation back.\<close>

definition superseded :: "go_error \<Rightarrow> leaf option list \<Rightarrow> settling \<Rightarrow> settling" where
  "superseded e causes g =
     (if list_ex (\<lambda>ctx. case ctx of None \<Rightarrow> False | Some c \<Rightarrow> CancellationAttributable c e) causes
      then g\<lparr>sg_msg := RawShutdownReason, sg_status := RunFailed, sg_explicit := False\<rparr> else g)"

definition write_terminal :: "run_env \<Rightarrow> go_error \<Rightarrow> leaf option list \<Rightarrow> attempt \<Rightarrow> settling \<times> tables \<Rightarrow> bool \<times> settling \<times> tables" where
  "write_terminal env e causes a st =
     (case st of (g, db) \<Rightarrow>
        if at_fault a = Some AtAttribution then (False, g, db)
        else let db1 = RecordCancellationAttribution (re_run env) causes db in
          if contention_of e \<noteq> None
          then if at_fault a = Some AtInvalidation then (False, g, db1)
               else let db2 = invalidateStatusValidation (re_run env) db1 in
                 if at_fault a = Some AtTerminal then (False, g, db2)
                 else (case FailRunInfrastructure (at_ts a) (re_run env) (sg_msg g) (deref (sg_head g)) db2 of
                         None \<Rightarrow> (False, g, db2)
                       | Some db3 \<Rightarrow> (True, g, db3))
          else if at_fault a = Some AtRead then (False, g, db1)
          else let g1 = (if rawShutdownSuperseded (re_run env) db1 then superseded e causes g else g) in
            (case sg_head g1 of
               None \<Rightarrow> record_terminal env a g1 db1
             | Some head \<Rightarrow>
                 if sg_explicit g1 \<and> watcherCancellation e
                 then (case terminalizeCertifiedWatcher env a g1 head db1 of
                         Terminalized db2 \<Rightarrow> (True, g1, db2)
                       | Refused_write \<Rightarrow> (False, g1, db1)
                       | Unprepared \<Rightarrow> record_terminal env a
                           (g1\<lparr>sg_explicit := False, sg_head := reconcileTerminalRunHead env (at_probe a) db1\<rparr>) db1)
                 else record_terminal env a g1 db1))"

text \<open>The first attempt and the retries of \<open>SettleTerminalWrite\<close>, until the store takes the outcome or is closed.\<close>

fun settle_terminal :: "run_env \<Rightarrow> go_error \<Rightarrow> leaf option list \<Rightarrow> attempt list \<Rightarrow> settling \<times> tables \<Rightarrow> bool \<times> tables" where
  "settle_terminal env e causes [] st = (False, snd st)"
| "settle_terminal env e causes (a # as) st =
     (case write_terminal env e causes a st of
        (True, g, db) \<Rightarrow> (True, db)
      | (False, g, db) \<Rightarrow> settle_terminal env e causes as (g, db))"

datatype ending = LeftForRecovery | MonitorInterrupted | Settled | Unsettled

definition FailRun :: "run_env \<Rightarrow> go_error \<Rightarrow> leaf option list \<Rightarrow> head_probe \<Rightarrow> attempt list \<Rightarrow> tables \<Rightarrow> ending \<times> tables" where
  "FailRun env e causes probe attempts db =
     (if LeftForRecoveryAtShutdown e then (LeftForRecovery, db)
      else if ciMonitorInterruptedByShutdown env e causes db then (MonitorInterrupted, db)
      else (case settle_terminal env e causes attempts (decide_failure env e causes probe db, db) of
              (settled, db') \<Rightarrow> (if settled then Settled else Unsettled, db')))"

section \<open>Completing a run\<close>

text \<open>What git answers before a completion: the head of the worktree and its dirty paths, and whether the head was
  anchored for recovery.\<close>

record completion_probe =
  cq_head :: "string option"
  cq_dirty :: "string list option"
  cq_preserved :: bool

definition verifyCompletionHead :: "run_env \<Rightarrow> completion_probe \<Rightarrow> Run \<Rightarrow> tables \<Rightarrow> string + string" where
  "verifyCompletionHead env q run db =
     (if TrimSpace (re_workdir env) = [] then Inl ''completion has no managed worktree''
      else (case GetRun (re_run env) db of
              None \<Rightarrow> Inl ''read run head before completion''
            | Some recorded \<Rightarrow>
                let head = TrimSpace (rn_HeadSHA recorded) in
                if head = [] \<or> head \<noteq> rn_HeadSHA run \<or>
                   rn_Shipping run = None \<and> (case tb_prContexts db (re_run env) of None \<Rightarrow> True | Some receipt \<Rightarrow> head \<noteq> pc_local_head_sha receipt)
                then Inl ''completion head does not match run and PR comparison''
                else (case cq_head q of
                        None \<Rightarrow> Inl ''read worktree head before completion''
                      | Some observed \<Rightarrow>
                          if TrimSpace observed \<noteq> head then Inl ''worktree head does not match recorded completion head''
                          else (case cq_dirty q of
                                  None \<Rightarrow> Inl ''check worktree before completion''
                                | Some dirty \<Rightarrow>
                                    if dirty \<noteq> [] then Inl ''worktree is dirty before completion''
                                    else if \<not> preserveUnpublishedTerminalHead env
                                        \<lparr> hp_head = cq_head q, hp_descends = True, hp_preserved = cq_preserved q \<rparr> recorded head
                                    then Inl ''preserve completion head custody''
                                    else Inr head))))"

text \<open>The run may have ended before; the reload of its row decides what the caller is told, and whether the hook for
  a merged pull request runs.\<close>

datatype completion = NotCompleted string | EndedAs RunStatus "string option" | Completed bool

definition completeRun :: "run_env \<Rightarrow> int \<Rightarrow> completion_probe \<Rightarrow> Run \<Rightarrow> tables \<Rightarrow> completion \<times> tables" where
  "completeRun env ts q run db =
     (let prepared = verifyCompletionHead env q run db;
          finish = (\<lambda>committed db'. case GetRun (re_run env) db' of
              None \<Rightarrow> NotCompleted ''terminal run outcome unavailable''
            | Some r \<Rightarrow> if rn_Status r \<noteq> RunCompleted then EndedAs (rn_Status r) (rn_Error r)
                else Completed (committed \<and> rn_PRState r = Some ''merged'')) in
      case GetRun (re_run env) db of
        None \<Rightarrow> (NotCompleted ''terminal run outcome unavailable'', db)
      | Some durable \<Rightarrow>
          if RunStatus_Terminal (rn_Status durable) then (finish False db, db)
          else (case prepared of
                  Inl err \<Rightarrow> (NotCompleted err, db)
                | Inr head \<Rightarrow>
                    if rawShutdownSuperseded (re_run env) db
                    then (case RecordIneligibleTerminal ts (re_run env) RawShutdownReason RunFailed (Some head) db of
                            None \<Rightarrow> (NotCompleted ''terminal run outcome unavailable'', db)
                          | Some db' \<Rightarrow> (finish True db', db'))
                    else let db' = UpdateRunStatusWithVerifiedHead ts (re_run env) RunCompleted head db in (finish True db', db')))"

section \<open>The outcome that is recorded\<close>

definition run_outcome :: "string \<Rightarrow> tables \<Rightarrow> (RunStatus \<times> string option) option" where
  "run_outcome i db = map_option (\<lambda>r. (rn_Status r, rn_Error r)) (GetRun i db)"

named_theorems outcome_simps

lemma outcome_update [outcome_simps]:
  "(\<And>r. rn_ID (f r) = rn_ID r) \<Longrightarrow> run_outcome i (runs_update (run_row i) f db) =
     map_option (\<lambda>r. (rn_Status (f r), rn_Error (f r))) (GetRun i db)"
  by (simp add: run_outcome_def GetRun_update option.map_comp comp_def)

lemma outcome_other [outcome_simps]: "tb_runs db' = tb_runs db \<Longrightarrow> run_outcome i db' = run_outcome i db"
  by (simp add: run_outcome_def GetRun_def)

lemma outcome_ending: "run_outcome i (RecordRunEnding i event db) = run_outcome i db"
  by (cases event) (simp_all add: RecordRunEnding_def run_outcome_def GetRun_update option.map_comp comp_def)

lemma outcome_attribution: "run_outcome i (RecordCancellationAttribution i causes db) = run_outcome i db"
  by (simp add: RecordCancellationAttribution_def outcome_ending split: list.split option.split leaf.split)

lemma outcome_invalidated: "run_outcome i (invalidateStatusValidation i db) = run_outcome i db"
  by (rule outcome_other) (simp add: invalidateStatusValidation_def)

lemma outcome_infrastructure:
  "FailRunInfrastructure ts i msg head db = Some db' \<Longrightarrow> run_outcome i db = Some was \<Longrightarrow> run_outcome i db' = Some (RunFailed, Some msg)"
  by (auto simp: FailRunInfrastructure_def run_outcome_def GetRun_def sql_first_update_id split: if_splits)

lemma outcome_ineligible:
  "RecordIneligibleTerminal ts i msg status head db = Some db' \<Longrightarrow> run_outcome i db = Some (was, err) \<Longrightarrow> was \<noteq> RunCancelled \<Longrightarrow>
     run_outcome i db' = Some (status, Some msg)"
  by (auto simp: RecordIneligibleTerminal_def run_outcome_def GetRun_def sql_first_update_id closeExecutingSteps_def unproved_def)

lemma outcome_watcher:
  "TerminalizeCertifiedWatcher ts i msg head digest status binding db = Some db' \<Longrightarrow> run_outcome i db = Some (was, err) \<Longrightarrow>
     was \<in> {RunRunning, RunPending} \<Longrightarrow> run_outcome i db' = Some (status, Some msg)"
  by (auto simp: TerminalizeCertifiedWatcher_def run_outcome_def GetRun_def sql_first_update_id unproved_def Let_def
      split: sum.splits option.splits)

text \<open>A cancellation is recorded only when the operator, a newer push or the planned shutdown of this runtime ordered it,
  and the failure is attributed to that order.\<close>

definition ordered :: "run_env \<Rightarrow> tables \<Rightarrow> leaf \<Rightarrow> bool" where
  "ordered env db c \<longleftrightarrow> leaf_text c \<in> {RunCancelReasonAbortedByUser, RunCancelReasonSuperseded} \<or> bound_shutdown env db c \<noteq> None"

definition decided_well :: "run_env \<Rightarrow> tables \<Rightarrow> go_error \<Rightarrow> leaf option list \<Rightarrow> settling \<Rightarrow> bool" where
  "decided_well env db e causes g \<longleftrightarrow>
     sg_status g \<in> {RunFailed, RunCancelled} \<and>
     (contention_of e \<noteq> None \<longrightarrow> sg_status g = RunFailed) \<and>
     (sg_status g = RunCancelled \<longrightarrow> (\<exists>c. Some c \<in> set causes \<and> CancellationAttributable c e \<and> sg_msg g = leaf_text c \<and> ordered env db c)) \<and>
     ((\<forall>c. Some c \<in> set causes \<longrightarrow> \<not> CancellationAttributable c e) \<and> contention_of e = None \<longrightarrow>
        sg_status g = RunFailed \<and>
        sg_msg g = (if RecordedContention (Error e) then ''pipeline execution failure: '' @ Error e else Error e))"

lemma found_in: "find P xs = Some x \<Longrightarrow> x \<in> set xs \<and> P x"
  by (auto simp: find_Some_iff)

lemma attributed_cause_Some:
  assumes "attributed_cause e causes = Some c"
  shows "Some c \<in> set causes" "CancellationAttributable c e"
proof -
  obtain ctx where "find (\<lambda>ctx. case ctx of None \<Rightarrow> False | Some c \<Rightarrow> c \<noteq> Canceled \<and> CancellationAttributable c e) causes = Some ctx" "ctx = Some c"
    using assms by (auto simp: attributed_cause_def split: option.splits)
  from found_in [OF this(1)] this(2) show "Some c \<in> set causes" "CancellationAttributable c e" by auto
qed

lemma decide_well: "decided_well env db e causes (decide_failure env e causes probe db)"
proof (cases "contention_of e")
  case None
  show ?thesis
  proof (cases "attributed_cause e causes")
    case None
    then show ?thesis using \<open>contention_of e = None\<close>
      by (simp add: decide_failure_def decided_well_def Let_def run_status_defs)
  next
    case (Some c)
    then show ?thesis using None attributed_cause_Some [OF Some]
      by (auto simp: decide_failure_def decided_well_def Let_def ordered_def run_status_defs)
  qed
qed (simp add: decide_failure_def decided_well_def Let_def run_status_defs)

lemma superseded_well: "decided_well env db e causes g \<Longrightarrow> contention_of e = None \<Longrightarrow> decided_well env db e causes (superseded e causes g)"
  by (auto simp: decided_well_def superseded_def list_ex_iff run_status_defs split: option.splits)

lemma rehead_well [simp]: "decided_well env db e causes (g\<lparr>sg_explicit := x, sg_head := h\<rparr>) = decided_well env db e causes g"
  by (simp add: decided_well_def)

lemma record_terminal_outcome:
  assumes "record_terminal env a g db = (ok, g', db')" "run_outcome (re_run env) db = Some (was, err)" "was \<noteq> RunCancelled"
  shows "g' = g" "ok \<Longrightarrow> run_outcome (re_run env) db' = Some (sg_status g, Some (sg_msg g))" "\<not> ok \<Longrightarrow> db' = db"
  using assms outcome_ineligible by (auto simp: record_terminal_def split: if_splits option.splits)

text \<open>An attempt records what was decided, or leaves the outcome of the run as it was.\<close>

lemma write_terminal_outcome:
  assumes "write_terminal env e causes a (g, db) = (ok, g', db')"
    and "run_outcome (re_run env) db = Some (was, err)" "was \<in> {RunRunning, RunPending}" "decided_well env db0 e causes g"
  shows "decided_well env db0 e causes g' \<and> run_outcome (re_run env) db' = Some (if ok then (sg_status g', Some (sg_msg g')) else (was, err))"
proof -
  define db1 where "db1 = RecordCancellationAttribution (re_run env) causes db"
  have db1: "run_outcome (re_run env) db1 = Some (was, err)" using assms(2) by (simp add: db1_def outcome_attribution)
  have open_run: "was \<noteq> RunCancelled" using assms(3) by (auto simp: run_status_defs)
  show ?thesis
  proof (cases "at_fault a = Some AtAttribution")
    case True
    then show ?thesis using assms by (simp add: write_terminal_def)
  next
    case attributed: False
    show ?thesis
    proof (cases "contention_of e")
      case (Some contention)
      define db2 where "db2 = invalidateStatusValidation (re_run env) db1"
      have db2: "run_outcome (re_run env) db2 = Some (was, err)" using db1 by (simp add: db2_def outcome_invalidated)
      have failed: "sg_status g = RunFailed" using assms(4) Some by (simp add: decided_well_def)
      show ?thesis
        using assms(1,4) attributed Some db1 db2 failed outcome_infrastructure [OF _ db2]
        by (auto simp: write_terminal_def Let_def db1_def [symmetric] db2_def [symmetric] split: if_splits option.splits)
    next
      case None
      define g1 where "g1 = (if rawShutdownSuperseded (re_run env) db1 then superseded e causes g else g)"
      have g1: "decided_well env db0 e causes g1" using assms(4) superseded_well None by (simp add: g1_def)
      define g2 where "g2 = g1\<lparr>sg_explicit := False, sg_head := reconcileTerminalRunHead env (at_probe a) db1\<rparr>"
      have g2: "decided_well env db0 e causes g2" using g1 by (simp add: g2_def)
      have record_g: "decided_well env db0 e causes g' \<and> run_outcome (re_run env) db' = Some (if ok then (sg_status g', Some (sg_msg g')) else (was, err))"
        if "record_terminal env a x db1 = (ok, g', db')" "decided_well env db0 e causes x" for x
        using record_terminal_outcome [OF that(1) db1 open_run] that(2) db1 by (cases ok) auto
      show ?thesis
      proof (cases "at_fault a = Some AtRead")
        case True
        then show ?thesis using assms(1,4) attributed None db1
          by (simp add: write_terminal_def Let_def db1_def [symmetric])
      next
        case False
        have "write_terminal env e causes a (g, db) = (case sg_head g1 of
            None \<Rightarrow> record_terminal env a g1 db1
          | Some head \<Rightarrow> if sg_explicit g1 \<and> watcherCancellation e
              then (case terminalizeCertifiedWatcher env a g1 head db1 of
                  Terminalized db2 \<Rightarrow> (True, g1, db2) | Refused_write \<Rightarrow> (False, g1, db1) | Unprepared \<Rightarrow> record_terminal env a g2 db1)
              else record_terminal env a g1 db1)"
          unfolding g2_def g1_def db1_def write_terminal_def using attributed None False by (simp add: Let_def)
        note step = trans [OF assms(1) [symmetric] this]
        show ?thesis
        proof (cases "terminalizeCertifiedWatcher env a g1 (the (sg_head g1)) db1")
          case (Terminalized db2)
          then have "run_outcome (re_run env) db2 = Some (sg_status g1, Some (sg_msg g1))"
            using outcome_watcher [OF _ db1 assms(3)] by (auto simp: terminalizeCertifiedWatcher_def split: option.splits if_splits)
          then show ?thesis using step g1 record_g Terminalized by (cases "sg_head g1") (auto split: if_splits)
        next
          case Refused_write
          then show ?thesis using step g1 record_g db1 by (cases "sg_head g1") (auto split: if_splits)
        next
          case Unprepared
          then show ?thesis using step g1 g2 record_g by (cases "sg_head g1") (auto split: if_splits)
        qed
      qed
    qed
  qed
qed

lemma settle_outcome:
  assumes "settle_terminal env e causes as (g, db) = (ok, db')"
    and "run_outcome (re_run env) db = Some (was, err)" "was \<in> {RunRunning, RunPending}" "decided_well env db0 e causes g"
  shows "if ok then \<exists>g'. decided_well env db0 e causes g' \<and> run_outcome (re_run env) db' = Some (sg_status g', Some (sg_msg g'))
    else run_outcome (re_run env) db' = Some (was, err)"
  using assms
proof (induction as arbitrary: g db)
  case (Cons a as)
  obtain stored g1 db1 where w: "write_terminal env e causes a (g, db) = (stored, g1, db1)" by (cases "write_terminal env e causes a (g, db)")
  note kept = write_terminal_outcome [OF w Cons.prems(2-4)]
  show ?case
  proof (cases stored)
    case True
    then show ?thesis using Cons.prems(1) w kept by auto
  next
    case False
    then show ?thesis using Cons.IH [of g1 db1] Cons.prems(1,3) w kept by simp
  qed
qed simp

text \<open>C20. The outcome of a failed run is the truth about it: the row of a running run ends as failed or cancelled; it is cancelled only when the
  operator, a newer push or the bound planned shutdown of this runtime ordered it, the whole failure is attributed to that order, and the
  recorded reason is the order's; and a failure no cancellation explains is recorded as failed with its own text. A run whose outcome the
  store has not taken keeps its row.\<close>

theorem failure_outcome_sound:
  assumes "FailRun env e causes probe attempts db = (how, db')"
    and "GetRun (re_run env) db = Some r" "rn_Status r \<in> {RunRunning, RunPending}"
  shows "if how = Settled then \<exists>r'. GetRun (re_run env) db' = Some r' \<and> rn_Status r' \<in> {RunFailed, RunCancelled} \<and>
      (rn_Status r' = RunCancelled \<longrightarrow>
         (\<exists>c. Some c \<in> set causes \<and> CancellationAttributable c e \<and> rn_Error r' = Some (leaf_text c) \<and> ordered env db c)) \<and>
      ((\<forall>c. Some c \<in> set causes \<longrightarrow> \<not> CancellationAttributable c e) \<and> contention_of e = None \<longrightarrow>
         rn_Status r' = RunFailed \<and>
         rn_Error r' = Some (if RecordedContention (Error e) then ''pipeline execution failure: '' @ Error e else Error e))
    else run_outcome (re_run env) db' = Some (rn_Status r, rn_Error r)"
proof -
  have was: "run_outcome (re_run env) db = Some (rn_Status r, rn_Error r)" using assms(2) by (simp add: run_outcome_def)
  show ?thesis
  proof (cases "LeftForRecoveryAtShutdown e \<or> ciMonitorInterruptedByShutdown env e causes db")
    case True
    then show ?thesis using assms(1) was by (auto simp: FailRun_def split: if_splits)
  next
    case False
    obtain ok where settle: "settle_terminal env e causes attempts (decide_failure env e causes probe db, db) = (ok, db')"
        and how: "how = (if ok then Settled else Unsettled)"
      using assms(1) False by (auto simp: FailRun_def split: prod.splits)
    note end_state = settle_outcome [OF settle was assms(3) decide_well]
    show ?thesis
    proof (cases ok)
      case True
      then obtain g r' where "decided_well env db e causes g" "GetRun (re_run env) db' = Some r'"
          "rn_Status r' = sg_status g" "rn_Error r' = Some (sg_msg g)"
        using end_state by (auto simp: run_outcome_def)
      then show ?thesis using True how by (auto simp: decided_well_def)
    qed (use end_state how in simp)
  qed
qed

lemma no_run_iff: "GetRun i db = None \<longleftrightarrow> run_outcome i db = None"
  by (simp add: run_outcome_def)

lemma contention_text: "contention_of e = Some c \<Longrightarrow> RecordedContention (Error c)"
  using errors_as_in [of is_contention e c]
  by (cases c) (auto simp: contention_of_def RecordedContention_def HasPrefix_iff)

text \<open>An attempt on a run whose failure is no watcher's cancellation fails only where the store refuses it.\<close>

lemma write_terminal_progress:
  assumes "write_terminal env e causes a (g, db) = (ok, g', db')" "\<not> watcherCancellation e"
    and "GetRun (re_run env) db \<noteq> None" "contention_of e \<noteq> None \<longrightarrow> RecordedContention (sg_msg g)"
  shows "ok \<or> at_fault a \<noteq> None \<and> GetRun (re_run env) db' \<noteq> None \<and> (contention_of e \<noteq> None \<longrightarrow> RecordedContention (sg_msg g'))"
proof -
  define db1 where "db1 = RecordCancellationAttribution (re_run env) causes db"
  define g1 where "g1 = (if rawShutdownSuperseded (re_run env) db1 then superseded e causes g else g)"
  have db1: "GetRun (re_run env) db1 \<noteq> None" "GetRun (re_run env) (invalidateStatusValidation (re_run env) db1) \<noteq> None"
    using assms(3) by (simp_all add: no_run_iff outcome_invalidated db1_def outcome_attribution)
  have recorded: "ok' \<or> at_fault a \<noteq> None \<and> db2 = db1" if "record_terminal env a x db1 = (ok', y, db2)" for x y ok' db2
    using that db1(1) by (auto simp: record_terminal_def RecordIneligibleTerminal_def split: if_splits option.splits)
  have step: "write_terminal env e causes a (g, db) =
      (if at_fault a = Some AtAttribution then (False, g, db)
       else if contention_of e \<noteq> None
       then if at_fault a = Some AtInvalidation then (False, g, db1)
         else if at_fault a = Some AtTerminal then (False, g, invalidateStatusValidation (re_run env) db1)
         else (case FailRunInfrastructure (at_ts a) (re_run env) (sg_msg g) (deref (sg_head g)) (invalidateStatusValidation (re_run env) db1) of
                 None \<Rightarrow> (False, g, invalidateStatusValidation (re_run env) db1) | Some db3 \<Rightarrow> (True, g, db3))
       else if at_fault a = Some AtRead then (False, g, db1)
       else record_terminal env a g1 db1)"
    unfolding g1_def db1_def write_terminal_def using assms(2) by (simp add: Let_def split: option.split)
  show ?thesis
  proof (cases "contention_of e")
    case None
    then show ?thesis using assms(1,3) step recorded [of g1] db1 by (auto split: if_splits)
  next
    case (Some c)
    then show ?thesis using assms(1,3,4) step db1 by (auto simp: FailRunInfrastructure_def split: if_splits)
  qed
qed

lemma settle_progress:
  assumes "a \<in> set as" "at_fault a = None" "\<not> watcherCancellation e"
    and "GetRun (re_run env) db \<noteq> None" "contention_of e \<noteq> None \<longrightarrow> RecordedContention (sg_msg g)"
  shows "fst (settle_terminal env e causes as (g, db))"
  using assms
proof (induction as arbitrary: g db)
  case (Cons b as)
  obtain ok g1 db1 where w: "write_terminal env e causes b (g, db) = (ok, g1, db1)" by (cases "write_terminal env e causes b (g, db)")
  show ?case using write_terminal_progress [OF w Cons.prems(3-5)] Cons w by (cases ok) auto
qed simp

text \<open>C21. A failed run settles: as soon as one attempt meets a store that refuses nothing, the outcome is recorded, unless the run is left
  for recovery; only a failure that may still preserve the success of a certified watcher can wait for more.\<close>

theorem failure_settles:
  assumes "GetRun (re_run env) db \<noteq> None" "a \<in> set attempts" "at_fault a = None" "\<not> watcherCancellation e"
  shows "fst (FailRun env e causes probe attempts db) \<noteq> Unsettled"
proof -
  have "contention_of e \<noteq> None \<longrightarrow> RecordedContention (sg_msg (decide_failure env e causes probe db))"
    using contention_text by (auto simp: decide_failure_def Let_def)
  then have "fst (settle_terminal env e causes attempts (decide_failure env e causes probe db, db))"
    using settle_progress assms by blast
  then show ?thesis by (auto simp: FailRun_def split: prod.splits)
qed

section \<open>What a completion proves\<close>

lemma published_or_preserved:
  "preserveUnpublishedTerminalHead env probe r head \<Longrightarrow>
     head = deref (rn_LastPushedSHA r) \<or> deref (rn_LastPushedSHA r) = [] \<and> head = deref (rn_SubmittedHeadSHA r) \<or> hp_preserved probe"
  by (auto simp: preserveUnpublishedTerminalHead_def Let_def split: if_splits)

lemma verified_head:
  assumes "verifyCompletionHead env q run db = Inr head" "GetRun (re_run env) db = Some r"
  shows "head = TrimSpace (rn_HeadSHA r) \<and> head \<noteq> [] \<and> rn_HeadSHA run = head \<and>
    (rn_Shipping run = None \<longrightarrow> (\<exists>receipt. tb_prContexts db (re_run env) = Some receipt \<and> pc_local_head_sha receipt = head)) \<and>
    map_option TrimSpace (cq_head q) = Some head \<and> cq_dirty q = Some [] \<and>
    (head = deref (rn_LastPushedSHA r) \<or> deref (rn_LastPushedSHA r) = [] \<and> head = deref (rn_SubmittedHeadSHA r) \<or> cq_preserved q)"
proof -
  define h where "h = TrimSpace (rn_HeadSHA r)"
  obtain observed dirty where git: "cq_head q = Some observed" "cq_dirty q = Some dirty"
    using assms by (auto simp: verifyCompletionHead_def Let_def split: if_split_asm option.split_asm)
  define kept where "kept = preserveUnpublishedTerminalHead env \<lparr> hp_head = cq_head q, hp_descends = True, hp_preserved = cq_preserved q \<rparr> r h"
  have "head = h \<and> h \<noteq> [] \<and> rn_HeadSHA run = h \<and> TrimSpace observed = h \<and> dirty = [] \<and> kept \<and>
      (rn_Shipping run = None \<longrightarrow> (\<exists>receipt. tb_prContexts db (re_run env) = Some receipt \<and> pc_local_head_sha receipt = h))"
    using assms(1) unfolding verifyCompletionHead_def assms(2) git Let_def option.case h_def [symmetric] kept_def [unfolded git, symmetric]
    by (cases "tb_prContexts db (re_run env)") (auto split: if_split_asm)
  moreover have "kept \<Longrightarrow> h = deref (rn_LastPushedSHA r) \<or> deref (rn_LastPushedSHA r) = [] \<and> h = deref (rn_SubmittedHeadSHA r) \<or> cq_preserved q"
    unfolding kept_def by (drule published_or_preserved) simp
  ultimately show ?thesis using git unfolding h_def [symmetric] by simp
qed

text \<open>C22. A run becomes completed only through a completion that found its worktree clean and on exactly the recorded head, a head that the
  pull request comparison was made for (unless the run ships strictly) and that is published or anchored for recovery, and only while no
  raw shutdown of the daemon has superseded the run; the row records that head as verified.\<close>

theorem completion_verified:
  assumes "completeRun env ts q run db = (result, db')" "GetRun (re_run env) db = Some r" "rn_Status r \<noteq> RunCompleted"
    and "GetRun (re_run env) db' = Some r'" "rn_Status r' = RunCompleted"
  shows "\<exists>head. head = TrimSpace (rn_HeadSHA r) \<and> head \<noteq> [] \<and> rn_HeadSHA run = head \<and>
    (rn_Shipping run = None \<longrightarrow> (\<exists>receipt. tb_prContexts db (re_run env) = Some receipt \<and> pc_local_head_sha receipt = head)) \<and>
    map_option TrimSpace (cq_head q) = Some head \<and> cq_dirty q = Some [] \<and>
    (head = deref (rn_LastPushedSHA r) \<or> deref (rn_LastPushedSHA r) = [] \<and> head = deref (rn_SubmittedHeadSHA r) \<or> cq_preserved q) \<and>
    \<not> rawShutdownSuperseded (re_run env) db \<and> \<not> RunStatus_Terminal (rn_Status r) \<and>
    rn_HeadSHA r' = head \<and> rn_TerminalHeadVerifiedAt r' = Some ts"
proof -
  have open_run: "\<not> RunStatus_Terminal (rn_Status r)"
    using assms by (auto simp: completeRun_def Let_def)
  obtain head where head: "verifyCompletionHead env q run db = Inr head"
    using assms open_run by (cases "verifyCompletionHead env q run db") (auto simp: completeRun_def Let_def)
  have raw: "\<not> rawShutdownSuperseded (re_run env) db"
  proof
    assume raw: "rawShutdownSuperseded (re_run env) db"
    obtain db2 where db2: "RecordIneligibleTerminal ts (re_run env) RawShutdownReason RunFailed (Some head) db = Some db2"
      using assms(2) by (cases "RecordIneligibleTerminal ts (re_run env) RawShutdownReason RunFailed (Some head) db")
        (auto simp: RecordIneligibleTerminal_def split: if_splits)
    then have "db' = db2" using assms(1,2) open_run head raw by (simp add: completeRun_def Let_def)
    moreover have "rn_Status r \<noteq> RunCancelled" using open_run by (auto simp: RunStatus_Terminal_def)
    ultimately have "run_outcome (re_run env) db' = Some (RunFailed, Some RawShutdownReason)"
      using outcome_ineligible [OF db2, of "rn_Status r" "rn_Error r"] assms(2) by (simp add: run_outcome_def)
    then show False using assms(4,5) by (simp add: run_outcome_def run_status_defs)
  qed
  have "db' = UpdateRunStatusWithVerifiedHead ts (re_run env) RunCompleted head db"
    using assms(1,2) open_run head raw by (simp add: completeRun_def Let_def)
  then have row: "rn_HeadSHA r' = head" "rn_TerminalHeadVerifiedAt r' = Some ts"
    using assms(2,4) by (auto simp: UpdateRunStatusWithVerifiedHead_def GetRun_update)
  have "head = TrimSpace (rn_HeadSHA r) \<and> head \<noteq> [] \<and> rn_HeadSHA run = head \<and>
    (rn_Shipping run = None \<longrightarrow> (\<exists>receipt. tb_prContexts db (re_run env) = Some receipt \<and> pc_local_head_sha receipt = head)) \<and>
    map_option TrimSpace (cq_head q) = Some head \<and> cq_dirty q = Some [] \<and>
    (head = deref (rn_LastPushedSHA r) \<or> deref (rn_LastPushedSHA r) = [] \<and> head = deref (rn_SubmittedHeadSHA r) \<or> cq_preserved q)"
    by (rule verified_head [OF head assms(2)])
  then show ?thesis using raw open_run row by (intro exI [of _ head]) (elim conjE, intro conjI; assumption)
qed

section \<open>The properties at concrete runs\<close>

definition sample_run :: Run where
  "sample_run = zero_run\<lparr>rn_ID := ''r'', rn_HeadSHA := ''h'', rn_Status := RunRunning, rn_LastPushedSHA := Some ''h''\<rparr>"

definition sample_store :: tables where
  "sample_store = no_tables\<lparr>tb_runs := [sample_run],
     tb_prContexts := [''r'' \<mapsto> \<lparr> pc_pr_url = Some ''u'', pc_source_repo = None, pc_source_branch = None, pc_forge_head_sha = None,
       pc_local_head_sha = ''h'', pc_target_branch = ''main'', pc_target_sha = ''t'', pc_merge_base_sha = ''m'', pc_diff_digest = ''d'',
       pc_observed_at = 1, pc_generation = 1, pc_ci_qualified = False, pc_retained_target_sha = None \<rparr>]\<rparr>"

definition sample_run_env :: run_env where
  "sample_run_env = \<lparr> re_run = ''r'', re_instance = ''i'', re_workdir = ''w'', re_digest = ''d'' \<rparr>"

definition sample_attempt :: "fault option \<Rightarrow> attempt" where
  "sample_attempt f = \<lparr> at_ts = 5, at_fault = f, at_clean = None, at_head = None,
     at_probe = \<lparr> hp_head = None, hp_descends = False, hp_preserved = False \<rparr> \<rparr>"

definition abort_order :: leaf where "abort_order = RunCancelCause 1 RunCancelReasonAbortedByUser None"

text \<open>A test step that was stopped by the operator's abort, with a store that refuses the first write.\<close>

definition sample_failure :: go_error where
  "sample_failure = StepExecutionError StepTest ''stopped'' (Some (Joined ''stopped'' [Leaf Canceled, CancelledExitError (Some (Leaf (Plain ''exit'' ''signal: killed''))) None])) False"

lemma sample_row: "GetRun ''r'' sample_store = Some sample_run" "rn_Status sample_run = RunRunning"
  by (simp_all add: sample_store_def sample_run_def GetRun_def sql_first_def zero_run_def)

lemma sample_failure_facts:
  "\<not> LeftForRecoveryAtShutdown sample_failure" "\<not> ciMonitorInterruptedByShutdown sample_run_env sample_failure [Some abort_order] sample_store"
  "\<not> watcherCancellation sample_failure"
proof -
  have parked: "Leaf c \<notin> set (chain sample_failure)" if "c \<in> {ErrParkedAtShutdown, ErrCIMonitorInterruptedAtShutdown}" for c
    using that by (auto simp: sample_failure_def chain.simps sentinel_defs)
  then show "\<not> LeftForRecoveryAtShutdown sample_failure" by (auto simp: left_for_recovery_iff)
  show "\<not> ciMonitorInterruptedByShutdown sample_run_env sample_failure [Some abort_order] sample_store"
    by (simp add: ciMonitorInterruptedByShutdown_def IsActiveCIMonitorRun_def ciMonitorRunCondition_def sample_store_def no_tables_def)
  show "\<not> watcherCancellation sample_failure"
    by (simp add: watcherCancellation_def sample_failure_def errors_as_here)
qed

theorem failure_settles_witness:
  "fst (FailRun sample_run_env sample_failure [Some abort_order] (at_probe (sample_attempt None))
     [sample_attempt (Some AtTerminal), sample_attempt None] sample_store) \<noteq> Unsettled"
  by (rule failure_settles [of _ _ "sample_attempt None"])
    (simp_all add: sample_row sample_failure_facts sample_run_env_def sample_attempt_def)

text \<open>An independent failure beside the same order.\<close>

definition independent_failure :: go_error where "independent_failure = Leaf (Plain ''e'' ''disk full'')"

lemma independent_facts:
  "\<not> CancellationAttributable abort_order independent_failure" "contention_of independent_failure = None"
  "\<not> LeftForRecoveryAtShutdown independent_failure" "\<not> watcherCancellation independent_failure"
  "\<not> ciMonitorInterruptedByShutdown sample_run_env independent_failure [Some abort_order] sample_store"
  by (simp_all add: independent_failure_def CancellationAttributable.simps CancellationOnly.simps is_cancellation_def abort_order_def
      sentinel_defs contention_of_def errors_as_def chain.simps left_for_recovery_iff watcherCancellation_def
      ciMonitorInterruptedByShutdown_def IsActiveCIMonitorRun_def ciMonitorRunCondition_def sample_store_def no_tables_def)

theorem failure_outcome_sound_witness:
  "\<exists>r'. GetRun ''r'' (snd (FailRun sample_run_env independent_failure [Some abort_order] (at_probe (sample_attempt None))
       [sample_attempt None] sample_store)) = Some r' \<and> rn_Status r' = RunFailed \<and> rn_Error r' = Some ''disk full''"
proof -
  obtain how db' where run: "FailRun sample_run_env independent_failure [Some abort_order] (at_probe (sample_attempt None))
      [sample_attempt None] sample_store = (how, db')" by (metis surj_pair)
  have env: "re_run sample_run_env = ''r''" by (simp add: sample_run_env_def)
  have "how = Settled"
  proof -
    have "settle_terminal sample_run_env independent_failure [Some abort_order] [sample_attempt None]
        (decide_failure sample_run_env independent_failure [Some abort_order] (at_probe (sample_attempt None)) sample_store, sample_store) = (True, db')
      \<or> how = Unsettled"
      using run independent_facts by (auto simp: FailRun_def split: prod.splits if_splits)
    moreover have "fst (settle_terminal sample_run_env independent_failure [Some abort_order] [sample_attempt None]
        (decide_failure sample_run_env independent_failure [Some abort_order] (at_probe (sample_attempt None)) sample_store, sample_store))"
      by (rule settle_progress [of "sample_attempt None"]) (simp_all add: independent_facts env sample_row sample_attempt_def)
    ultimately show ?thesis using run independent_facts by (auto simp: FailRun_def split: prod.splits if_splits)
  qed
  moreover have "\<not> RecordedContention (Error independent_failure)" "Error independent_failure = ''disk full''"
    by (simp_all add: independent_failure_def RecordedContention_def HasPrefix_def ErrorName_def)
  ultimately show ?thesis
    using failure_outcome_sound [OF run, of sample_run] independent_facts by (auto simp: env sample_row run)
qed

definition sample_completion :: completion_probe where
  "sample_completion = \<lparr> cq_head = Some ''h'', cq_dirty = Some [], cq_preserved = False \<rparr>"

theorem completion_verified_witness:
  "cq_dirty sample_completion = Some [] \<and>
   rn_HeadSHA (the (GetRun ''r'' (snd (completeRun sample_run_env 9 sample_completion sample_run sample_store)))) = ''h''"
proof -
  have env: "re_run sample_run_env = ''r''" by (simp add: sample_run_env_def)
  have trim: "TrimSpace ''h'' = ''h''" "TrimSpace ''w'' = ''w''" by (rule TrimSpace_plain, simp_all add: plain_byte_def byte_def)+
  have head: "verifyCompletionHead sample_run_env sample_completion sample_run sample_store = Inr ''h''"
    using trim sample_row(1) by (simp add: verifyCompletionHead_def preserveUnpublishedTerminalHead_def Let_def env)
      (simp add: sample_run_env_def sample_run_def zero_run_def sample_store_def sample_completion_def deref_def)
  have raw: "\<not> rawShutdownSuperseded ''r'' sample_store"
    by (simp add: rawShutdownSuperseded_def sample_store_def no_tables_def)
  obtain result db' where run: "completeRun sample_run_env 9 sample_completion sample_run sample_store = (result, db')" by (metis surj_pair)
  have "db' = UpdateRunStatusWithVerifiedHead 9 ''r'' RunCompleted ''h'' sample_store"
    using run head sample_row raw by (simp add: completeRun_def Let_def env RunStatus_Terminal_def run_status_defs)
  then obtain r' where r': "GetRun ''r'' db' = Some r'" "rn_Status r' = RunCompleted"
    by (simp add: UpdateRunStatusWithVerifiedHead_def GetRun_update sample_row)
  have "TrimSpace (rn_HeadSHA sample_run) = ''h''" using trim by (simp add: sample_run_def zero_run_def)
  moreover have "rn_Status sample_run \<noteq> RunCompleted" by (simp add: sample_row run_status_defs)
  moreover have "GetRun (re_run sample_run_env) sample_store = Some sample_run" "GetRun (re_run sample_run_env) db' = Some r'"
    using sample_row r' by (simp_all add: env)
  ultimately have "rn_HeadSHA r' = ''h''" using completion_verified [OF run] r'(2) by metis
  then show ?thesis using r'(1) run by (simp add: sample_completion_def)
qed

end
