(* ===== verification/SupportGate.thy ===== *)
theory SupportGate
  imports PRComparison Sha256
begin

text \<open>
  The pending support of a review, from \<open>internal/pipeline/review_support_gate.go\<close>,
  \<open>internal/db/external_ci_handoff.go\<close> and \<open>internal/types/finding_support.go\<close>: a hypothesis of the review is
  settled by the step that owns its evidence, for the comparison the run holds now, or handed to an external
  controller whose head descends from the reviewed one by commits of the pipeline.
\<close>

section \<open>Claims\<close>

definition FindingCategoryReviewSupportResolved :: string where
  "FindingCategoryReviewSupportResolved = ''review-support-resolved''"
definition FindingSupportDispositionSupported :: string where "FindingSupportDispositionSupported = ''supported''"
definition FindingSupportDispositionDisproven :: string where "FindingSupportDispositionDisproven = ''disproven''"

definition ReviewSupportClaimID :: "Finding \<Rightarrow> string" where
  "ReviewSupportClaimID f =
     (case f_Support f of
        None \<Rightarrow> []
      | Some s \<Rightarrow> ''review-support-'' @ sha256_hex (f_ID f @ [of_byte 0] @ json_print (enc_support (s\<lparr>su_OwnerResult := None\<rparr>))))"

text \<open>Whether a readable time is the zero of Go's \<open>time.Time\<close>, the start of year one in UTC. Only four local dates
  can be it, and a fraction counts to nine digits.\<close>

definition zero_day :: "string \<Rightarrow> int option" where
  "zero_day d =
     (if d = ''0000-12-30'' then Some (- 2) else if d = ''0000-12-31'' then Some (- 1)
      else if d = ''0001-01-01'' then Some 0 else if d = ''0001-01-02'' then Some 1 else None)"

definition zone_seconds :: "string \<Rightarrow> int" where
  "zone_seconds z =
     (case z of
        c # a # b # p # m # n # r \<Rightarrow> (if c = CHR ''-'' then - 1 else 1) * (int (undec [a, b]) * 3600 + int (undec [m, n]) * 60)
      | _ \<Rightarrow> 0)"

definition fraction_zero :: "string \<Rightarrow> bool" where
  "fraction_zero s \<longleftrightarrow>
     (case s of
        p # r \<Rightarrow> drop_fraction s = s \<or> list_all (\<lambda>c. c = CHR ''0'') (take 9 (takeWhile is_digit r))
      | [] \<Rightarrow> True)"

definition IsZero :: "string \<Rightarrow> bool" where
  "IsZero v =
     (case (zero_day (take 10 v), hour_digits (drop 11 v)) of
        (Some day, Some (h, r)) \<Rightarrow>
          (let m = undec (take 2 (drop 1 r)); s = undec (take 2 (drop 4 r)); rest = drop 6 r in
           fraction_zero rest \<and>
           day * 86400 + int h * 3600 + int m * 60 + int s = zone_seconds (drop_fraction rest))
      | _ \<Rightarrow> False)"

section \<open>The head of an external handoff\<close>

record PendingCISupport =
  ps_ClaimID :: string
  ps_OriginalFindingID :: string
  ps_HistoricalCheckID :: string
  ps_HistoricalHeadSHA :: string
  ps_SourceHeadSHA :: string
  ps_ForgeHeadSHA :: string
  ps_TargetBranch :: string
  ps_TargetSHA :: string
  ps_DiffDigest :: string
  ps_ReceiptGeneration :: int
  ps_RunID :: string
  ps_PRURL :: string
  ps_Owner :: string

definition RecordPipelineCommitHead :: "string \<Rightarrow> string \<Rightarrow> string \<Rightarrow> tables \<Rightarrow> tables option" where
  "RecordPipelineCommitHead run parent head db =
     (if \<not> validGitSHA parent \<or> \<not> validGitSHA head \<or> parent = head then None
      else if list_ex (\<lambda>h. ph_RunID h = run \<and> ph_HeadSHA h = head) (tb_pipeline_heads db) then None
      else Some (db\<lparr>tb_pipeline_heads := tb_pipeline_heads db @ [\<lparr> ph_RunID = run, ph_HeadSHA = head, ph_ParentSHA = parent \<rparr>]\<rparr>))"

definition parent_of :: "string \<Rightarrow> tables \<Rightarrow> string \<Rightarrow> string option" where
  "parent_of run db head =
     map_option ph_ParentSHA (sql_first (\<lambda>h. ph_RunID h = run \<and> ph_HeadSHA h = head) (tb_pipeline_heads db))"

datatype forward_error = CyclicHeads | NoPipelinePath

lemma parent_of_row: "parent_of run db head = Some p \<Longrightarrow> head \<in> ph_HeadSHA ` set (tb_pipeline_heads db)"
  by (auto simp: parent_of_def dest: sql_first_Some)

lemma unseen_card:
  assumes "head \<notin> set seen" "head \<in> A" "finite A"
  shows "card (A - set (head # seen)) < card (A - set seen)"
proof -
  have "A - set (head # seen) = (A - set seen) - {head}" by auto
  moreover have "card ((A - set seen) - {head}) < card (A - set seen)"
    by (rule card_Diff1_less) (use assms in simp_all)
  ultimately show ?thesis by simp
qed

function forward :: "string \<Rightarrow> tables \<Rightarrow> string \<Rightarrow> string list \<Rightarrow> string \<Rightarrow> forward_error option" where
  "forward run db approved seen head =
     (if head = approved then None
      else if head \<in> set seen then Some CyclicHeads
      else (case parent_of run db head of
              None \<Rightarrow> Some NoPipelinePath
            | Some parent \<Rightarrow> forward run db approved (head # seen) parent))"
  by pat_completeness auto

termination
  by (relation "measure (\<lambda>(run, db, approved, seen, head). card (ph_HeadSHA ` set (tb_pipeline_heads db) - set seen))")
    (simp, simp only: in_measure prod.case, rule unseen_card, assumption, rule parent_of_row, simp_all)

declare forward.simps [simp del]

definition ValidatePipelineHeadForward :: "string \<Rightarrow> string \<Rightarrow> string \<Rightarrow> tables \<Rightarrow> forward_error option" where
  "ValidatePipelineHeadForward run approved head db = forward run db approved [] head"

datatype handoff_error =
    MultipleReviews | UnreadableReview | InvalidClaim | UnsupportedClaim support_error | ClaimBounds | TooManyClaims
  | NoApprovedComparison | NoApprovedRound | HeadNotForward forward_error

definition handoff_claim :: "Finding \<Rightarrow> bool" where
  "handoff_claim f \<longleftrightarrow> f_Category f = FindingCategoryReviewSupportPending \<and>
     (case f_Support f of None \<Rightarrow> False | Some s \<Rightarrow> su_ClaimType s = FindingClaimCI)"

definition claim_refused :: "Finding \<Rightarrow> handoff_error option" where
  "claim_refused f =
     (case f_Support f of
        None \<Rightarrow> Some InvalidClaim
      | Some s \<Rightarrow>
          (case su_CI s of
             None \<Rightarrow> Some InvalidClaim
           | Some ci \<Rightarrow>
               if f_ID f = [] \<or> su_OwnerResult s \<noteq> None then Some InvalidClaim
               else (case FindingSupport_Validate s of
                       Some e \<Rightarrow> Some (UnsupportedClaim e)
                     | None \<Rightarrow>
                         if length (f_ID f) > 1024 \<or> length (ci_CheckID ci) > 1024 \<or> TrimSpace (ci_CheckID ci) \<noteq> ci_CheckID ci \<or>
                            \<not> validGitSHA (ci_HeadSHA ci)
                         then Some ClaimBounds else None)))"

definition handed_over :: "Run \<Rightarrow> PRContextRow \<Rightarrow> Finding \<Rightarrow> PendingCISupport" where
  "handed_over r p f =
     (let ci = (case Option.bind (f_Support f) su_CI of Some ci \<Rightarrow> ci | None \<Rightarrow> \<lparr> ci_CheckID = [], ci_HeadSHA = [] \<rparr>) in
      \<lparr> ps_ClaimID = ReviewSupportClaimID f, ps_OriginalFindingID = f_ID f, ps_HistoricalCheckID = ci_CheckID ci,
        ps_HistoricalHeadSHA = ci_HeadSHA ci, ps_SourceHeadSHA = pc_local_head_sha p, ps_ForgeHeadSHA = deref (pc_forge_head_sha p),
        ps_TargetBranch = pc_target_branch p, ps_TargetSHA = pc_target_sha p, ps_DiffDigest = pc_diff_digest p,
        ps_ReceiptGeneration = pc_generation p, ps_RunID = rn_ID r, ps_PRURL = deref (pc_pr_url p), ps_Owner = rn_ExternalCIOwner r \<rparr>)"

text \<open>The head of the last round that reviewed one.\<close>

definition approved_round_head :: "StepRound list \<Rightarrow> string" where
  "approved_round_head rounds = fold (\<lambda>x h. case sr_ReviewedHeadSHA x of Some head \<Rightarrow> head | None \<Rightarrow> h) rounds []"

definition PendingExternalCISupport :: "Run \<Rightarrow> tables \<Rightarrow> handoff_error + PendingCISupport list" where
  "PendingExternalCISupport r db =
     (if rn_ExternalCIOwner r = [] then Inr []
      else (case filter (\<lambda>s. sp_StepName s = StepReview \<and> sp_Status s = StepStatusCompleted) (GetStepsByRun (rn_ID r) db) of
              [] \<Rightarrow> Inr []
            | review # others \<Rightarrow>
                if others \<noteq> [] then Inl MultipleReviews
                else (case sp_FindingsJSON review of
                        None \<Rightarrow> Inr []
                      | Some raw \<Rightarrow>
                          (case ParseFindingsJSON raw of
                             None \<Rightarrow> Inl UnreadableReview
                           | Some findings \<Rightarrow>
                               let claims = filter handoff_claim (elems (fs_Items findings)) in
                               (case find (\<lambda>f. claim_refused f \<noteq> None) claims of
                                  Some f \<Rightarrow> Inl (the (claim_refused f))
                                | None \<Rightarrow>
                                    if claims = [] then Inr []
                                    else if length claims > 128 then Inl TooManyClaims
                                    else (case tb_prContexts db (rn_ID r) of
                                            None \<Rightarrow> Inl NoApprovedComparison
                                          | Some p \<Rightarrow>
                                              let approved = deref (rn_ReviewApprovedHeadSHA r);
                                                  reviewed = approved_round_head (GetRoundsByStep (sp_ID review) db) in
                                              if approved = [] \<or> rn_HeadSHA r \<noteq> pc_local_head_sha p \<or>
                                                 TrimSpace (deref (pc_source_repo p)) = [] \<or> TrimSpace (deref (pc_source_branch p)) = []
                                              then Inl NoApprovedComparison
                                              else if reviewed = [] \<or> reviewed \<noteq> approved then Inl NoApprovedRound
                                              else (case ValidatePipelineHeadForward (rn_ID r) reviewed (pc_local_head_sha p) db of
                                                      Some e \<Rightarrow> Inl (HeadNotForward e)
                                                    | None \<Rightarrow> Inr (map (handed_over r p) claims))))))))"

section \<open>The gate\<close>

datatype gate_refusal =
    UnreadableReviewSupport | InvalidOwner | SupportPanic | NoCurrentComparison | NoUsableHandoff handoff_error | ClaimIdentity
  | ClaimUnsupported support_error | NoCompletedOwner | UnreadableOwner | LacksProof string

definition by_name :: "StepResult list \<Rightarrow> StepName \<Rightarrow> StepResult option" where
  "by_name rows n = sql_first (\<lambda>s. sp_StepName s = n) (rev rows)"

definition stepsSkipped :: "StepResult list \<Rightarrow> StepName list \<Rightarrow> bool" where
  "stepsSkipped rows names \<longleftrightarrow>
     list_all (\<lambda>n. case by_name rows n of None \<Rightarrow> False | Some s \<Rightarrow> sp_Status s = StepStatusSkipped) names"

definition pending_claim :: "StepName \<Rightarrow> Finding \<Rightarrow> bool" where
  "pending_claim through f \<longleftrightarrow> f_Category f = FindingCategoryReviewSupportPending \<and>
     (case f_Support f of
        None \<Rightarrow> False
      | Some s \<Rightarrow> su_ClaimType s = FindingClaimTest \<or> through = StepCI \<and> su_ClaimType s = FindingClaimCI)"

definition claim_owner :: "FindingSupport \<Rightarrow> StepName" where
  "claim_owner s = (if su_ClaimType s = FindingClaimCI then StepCI else StepTest)"

text \<open>What a finding of the owner must say to settle a claim for the receipt: the outcome of the owner's own evidence
  agrees with its disposition, and a hypothesis that proved true needs an approved override.\<close>

definition agrees :: "StepName \<Rightarrow> FindingOwnerResult \<Rightarrow> bool" where
  "agrees owner r \<longleftrightarrow>
     (owner = StepTest \<longrightarrow> (case or_ExitCode r of None \<Rightarrow> False
        | Some code \<Rightarrow> if or_Disposition r = FindingSupportDispositionDisproven then code = 0 else code \<noteq> 0)) \<and>
     (owner = StepCI \<longrightarrow>
        (let word = (if or_Disposition r = FindingSupportDispositionDisproven then ''pass'' else ''fail'') in
         or_CheckState r = word \<or> HasPrefix (or_CheckState r) (word @ '':'')))"

definition current_result :: "PRContextRow \<Rightarrow> string \<Rightarrow> FindingOwnerResult \<Rightarrow> bool" where
  "current_result p claimed r \<longleftrightarrow> or_ReviewFindingID r = claimed \<and> or_HeadSHA r = pc_local_head_sha p \<and> or_TargetSHA r = pc_target_sha p \<and>
     or_Generation r = pc_generation p \<and> or_DiffDigest r = pc_diff_digest p \<and>
     or_Disposition r \<in> {FindingSupportDispositionDisproven, FindingSupportDispositionSupported} \<and>
     validFindingObservationTime (or_ObservedAt r) \<and> \<not> IsZero (or_ObservedAt r)"

definition settles :: "PRContextRow \<Rightarrow> Finding \<Rightarrow> FindingSupport \<Rightarrow> bool \<Rightarrow> Finding \<Rightarrow> bool" where
  "settles p f s overridden x \<longleftrightarrow> f_ID x = ReviewSupportClaimID f \<and> f_Category x = FindingCategoryReviewSupportResolved \<and>
     (case f_Support x of
        None \<Rightarrow> False
      | Some t \<Rightarrow>
          (case su_OwnerResult t of
             None \<Rightarrow> False
           | Some r \<Rightarrow> su_ClaimType t = su_ClaimType s \<and> current_result p (f_ID f) r \<and> agrees (claim_owner s) r \<and>
               (or_Disposition r = FindingSupportDispositionSupported \<longrightarrow> overridden)))"

definition override_recorded :: "StepResult \<Rightarrow> tables \<Rightarrow> bool" where
  "override_recorded owner db =
     (case GetStepResult (sp_ID owner) db of None \<Rightarrow> False | Some o' \<Rightarrow> TrimSpace (deref (sp_OverrideReason o')) \<noteq> [])"

definition owner_ready :: "bool \<Rightarrow> StepResult \<Rightarrow> bool" where
  "owner_ready candidate owner \<longleftrightarrow> sp_Status owner = StepStatusCompleted \<or>
     candidate \<and> sp_Status owner \<in> {StepStatusRunning, StepStatusFixing, StepStatusAwaitingApproval, StepStatusFixReview}"

definition settle_claim :: "StepResult list \<Rightarrow> tables \<Rightarrow> PRContextRow \<Rightarrow> bool \<Rightarrow> bool \<Rightarrow> Finding \<Rightarrow> gate_refusal option" where
  "settle_claim rows db p handoff candidate f =
     (case f_Support f of
        None \<Rightarrow> Some ClaimIdentity
      | Some s \<Rightarrow>
          if f_ID f = [] \<or> su_OwnerResult s \<noteq> None then Some ClaimIdentity
          else (case FindingSupport_Validate s of
                  Some e \<Rightarrow> Some (ClaimUnsupported e)
                | None \<Rightarrow>
                    (case by_name rows (claim_owner s) of
                       None \<Rightarrow> Some NoCompletedOwner
                     | Some owner \<Rightarrow>
                         if claim_owner s = StepCI \<and> sp_Status owner = StepStatusSkipped \<and> handoff then None
                         else if \<not> owner_ready (candidate \<and> claim_owner s = StepCI) owner then Some NoCompletedOwner
                         else (case sp_FindingsJSON owner of
                                 None \<Rightarrow> Some NoCompletedOwner
                               | Some raw \<Rightarrow>
                                   (case ParseFindingsJSON raw of
                                      None \<Rightarrow> Some UnreadableOwner
                                    | Some findings \<Rightarrow>
                                        if list_ex (settles p f s (override_recorded owner db)) (elems (fs_Items findings)) then None
                                        else Some (LacksProof (ReviewSupportClaimID f)))))))"

definition validateReviewSupportOwnersAtBoundary :: "string \<Rightarrow> StepName \<Rightarrow> bool \<Rightarrow> tables \<Rightarrow> gate_refusal option" where
  "validateReviewSupportOwnersAtBoundary run through candidate db =
     (let rows = GetStepsByRun run db in
      case by_name rows StepReview of
        None \<Rightarrow> None
      | Some review \<Rightarrow>
          (case (if sp_Status review = StepStatusCompleted then sp_FindingsJSON review else None) of
             None \<Rightarrow> None
           | Some raw \<Rightarrow>
               (case ParseFindingsJSON raw of
                  None \<Rightarrow> Some UnreadableReviewSupport
                | Some findings \<Rightarrow>
                    if through \<noteq> StepTest \<and> through \<noteq> StepCI then Some InvalidOwner
                    else let pending = filter (pending_claim through) (elems (fs_Items findings)) in
                      if pending = [] then None
                      else (case tb_prContexts db run of
                              None \<Rightarrow> Some NoCurrentComparison
                            | Some p \<Rightarrow>
                                (case GetRun run db of
                                   None \<Rightarrow> Some SupportPanic
                                 | Some r \<Rightarrow>
                                     if TrimSpace (deref (rn_ReviewApprovedHeadSHA r)) = [] \<or> pc_local_head_sha p \<noteq> rn_HeadSHA r
                                     then Some NoCurrentComparison
                                     else let handoff = (through = StepCI \<and> rn_ExternalCIOwner r = ExternalCIOwnerControllerShipPR \<and>
                                              stepsSkipped rows [StepPush, StepPR, StepCI]) in
                                       (case (if handoff then PendingExternalCISupport r db else Inr []) of
                                          Inl e \<Rightarrow> Some (NoUsableHandoff e)
                                        | Inr _ \<Rightarrow> first_refusal (settle_claim rows db p handoff candidate) pending))))))"

definition validateReviewSupportOwners :: "string \<Rightarrow> StepName \<Rightarrow> tables \<Rightarrow> gate_refusal option" where
  "validateReviewSupportOwners run through db = validateReviewSupportOwnersAtBoundary run through False db"

definition validateReviewSupportOwnersBeforeCICompletion :: "string \<Rightarrow> tables \<Rightarrow> gate_refusal option" where
  "validateReviewSupportOwnersBeforeCICompletion run db = validateReviewSupportOwnersAtBoundary run StepCI True db"

section \<open>A path of pipeline commits\<close>

inductive hops :: "string \<Rightarrow> tables \<Rightarrow> string \<Rightarrow> nat \<Rightarrow> string \<Rightarrow> bool" for run db approved where
  here: "hops run db approved 0 approved"
| hop: "head \<noteq> approved \<Longrightarrow> parent_of run db head = Some p \<Longrightarrow> hops run db approved n p \<Longrightarrow> hops run db approved (Suc n) head"

inductive_cases hops_0E: "hops run db approved 0 head"
inductive_cases hops_SucE: "hops run db approved (Suc n) head"

lemma hops_unique: "hops run db a n h \<Longrightarrow> hops run db a m h \<Longrightarrow> m = n"
proof (induction arbitrary: m rule: hops.induct)
  case here
  then show ?case by (cases rule: hops.cases) simp_all
next
  case (hop head p n)
  obtain k q where k: "m = Suc k" "parent_of run db head = Some q" "hops run db a k q"
    using hop.prems hop.hyps(1) by (cases rule: hops.cases) simp_all
  then have "hops run db a k p" using hop.hyps(2) by simp
  then show ?case using hop.IH k(1) by simp
qed

lemma forward_hops: "hops run db a n h \<Longrightarrow> \<forall>s \<in> set seen. \<exists>m > n. hops run db a m s \<Longrightarrow> forward run db a seen h = None"
proof (induction arbitrary: seen rule: hops.induct)
  case here
  then show ?case by (simp add: forward.simps [of run db a seen a])
next
  case (hop head p n)
  have h: "hops run db a (Suc n) head" using hop.hyps by (rule hops.hop)
  have unseen: "head \<notin> set seen"
  proof
    assume "head \<in> set seen"
    then obtain m where "m > Suc n" "hops run db a m head" using hop.prems by blast
    then show False using hops_unique [OF h] by blast
  qed
  have "\<exists>m > n. hops run db a m s" if "s \<in> set (head # seen)" for s
  proof (cases "s = head")
    case True
    then show ?thesis using h by blast
  next
    case False
    then have "s \<in> set seen" using that by simp
    then obtain m where "m > Suc n" "hops run db a m s" using hop.prems by blast
    then show ?thesis using Suc_lessD by blast
  qed
  then have "forward run db a (head # seen) p = None" by (intro hop.IH) blast
  then show ?case using hop.hyps unseen by (simp add: forward.simps [of run db a seen head])
qed

definition authored :: "string \<Rightarrow> tables \<Rightarrow> (string \<times> string) set" where
  "authored run db = {(head, parent). parent_of run db head = Some parent}"

lemma path_hops: "(h, a) \<in> (authored run db)\<^sup>* \<Longrightarrow> \<exists>n. hops run db a n h"
proof (induction rule: converse_rtrancl_induct)
  case base
  show ?case using hops.here by blast
next
  case (step y z)
  then obtain n where n: "hops run db a n z" "parent_of run db y = Some z" by (auto simp: authored_def)
  show ?case
  proof (cases "y = a")
    case True
    then show ?thesis using hops.here by blast
  next
    case False
    then show ?thesis using hops.hop [OF False n(2,1)] by blast
  qed
qed

lemma forward_path: "forward run db a seen h = None \<Longrightarrow> (h, a) \<in> (authored run db)\<^sup>*"
proof (induction run db a seen h rule: forward.induct)
  case (1 run db a seen h)
  show ?case
  proof (cases "h = a")
    case False
    then obtain p where p: "h \<notin> set seen" "parent_of run db h = Some p" "forward run db a (h # seen) p = None"
      using "1.prems" by (auto simp: forward.simps [of run db a seen h] split: if_splits option.splits)
    then have "(p, a) \<in> (authored run db)\<^sup>*" using "1.IH" [OF False] by blast
    then show ?thesis using p(2) by (auto simp: authored_def intro: converse_rtrancl_into_rtrancl)
  qed simp
qed

lemma forward_iff:
  "ValidatePipelineHeadForward run approved head db = None \<longleftrightarrow> (head, approved) \<in> (authored run db)\<^sup>*"
  unfolding ValidatePipelineHeadForward_def
proof
  assume "forward run db approved [] head = None"
  then show "(head, approved) \<in> (authored run db)\<^sup>*" by (rule forward_path)
next
  assume "(head, approved) \<in> (authored run db)\<^sup>*"
  then obtain n where "hops run db approved n head" using path_hops by blast
  then show "forward run db approved [] head = None" by (rule forward_hops) simp
qed

text \<open>C31. A head is accepted for an external handoff exactly when commits the pipeline recorded lead from it back to the reviewed head:
  the walk always ends, a cycle of records never passes for a path, and no path is missed.\<close>

theorem forward_exact:
  "ValidatePipelineHeadForward run approved head db = None \<longleftrightarrow> (head, approved) \<in> (authored run db)\<^sup>*"
  by (rule forward_iff)

text \<open>C30. What is handed to an external controller is the head the run holds now: every claim carries the head, the target and the
  generation of the current comparison, and commits the pipeline recorded lead from that head back to the reviewed one.\<close>

theorem handoff_current:
  assumes "PendingExternalCISupport r db = Inr claims" "x \<in> set claims"
  shows "\<exists>p. tb_prContexts db (rn_ID r) = Some p \<and> ps_SourceHeadSHA x = rn_HeadSHA r \<and> pc_local_head_sha p = rn_HeadSHA r \<and>
    ps_TargetSHA x = pc_target_sha p \<and> ps_DiffDigest x = pc_diff_digest p \<and> ps_ReceiptGeneration x = pc_generation p \<and>
    (rn_HeadSHA r, deref (rn_ReviewApprovedHeadSHA r)) \<in> (authored (rn_ID r) db)\<^sup>*"
proof -
  define path where "path = (\<lambda>h a. (h, a) \<in> (authored (rn_ID r) db)\<^sup>*)"
  have forward: "ValidatePipelineHeadForward (rn_ID r) a h db = None \<longleftrightarrow> path h a" for a h by (simp add: path_def forward_iff)
  have "claims \<noteq> []" using assms(2) by auto
  then obtain p items where p: "tb_prContexts db (rn_ID r) = Some p" "claims = map (handed_over r p) items"
      "rn_HeadSHA r = pc_local_head_sha p" "path (pc_local_head_sha p) (deref (rn_ReviewApprovedHeadSHA r))"
    using assms(1) unfolding PendingExternalCISupport_def Let_def
    by (simp split: if_split_asm list.split_asm option.split_asm) (auto simp: forward)
  then show ?thesis using assms(2) by (auto simp: path_def handed_over_def Let_def)
qed

section \<open>What the gate lets through\<close>

lemma by_name_row: "by_name (GetStepsByRun run db) n = Some s \<Longrightarrow> s \<in> set (tb_steps db) \<and> sp_RunID s = run \<and> sp_StepName s = n"
  unfolding by_name_def GetStepsByRun_def by (drule sql_first_Some) simp

text \<open>The hypotheses of the completed review of a run.\<close>

definition review_claims :: "string \<Rightarrow> tables \<Rightarrow> Finding list" where
  "review_claims run db =
     (case by_name (GetStepsByRun run db) StepReview of
        None \<Rightarrow> []
      | Some review \<Rightarrow>
          (case Option.bind (if sp_Status review = StepStatusCompleted then sp_FindingsJSON review else None) ParseFindingsJSON of
             None \<Rightarrow> [] | Some findings \<Rightarrow> elems (fs_Items findings)))"

definition settled_by :: "StepResult list \<Rightarrow> tables \<Rightarrow> bool \<Rightarrow> PRContextRow \<Rightarrow> Finding \<Rightarrow> FindingSupport \<Rightarrow> bool" where
  "settled_by rows db candidate p f s \<longleftrightarrow>
     (\<exists>owner raw findings x. by_name rows (claim_owner s) = Some owner \<and> owner_ready (candidate \<and> claim_owner s = StepCI) owner \<and>
        sp_FindingsJSON owner = Some raw \<and> ParseFindingsJSON raw = Some findings \<and> x \<in> set (elems (fs_Items findings)) \<and>
        settles p f s (override_recorded owner db) x)"

lemma settle_claim_None:
  assumes "settle_claim rows db p handoff candidate f = None"
  shows "\<exists>s. f_Support f = Some s \<and> (handoff \<and> claim_owner s = StepCI \<or> settled_by rows db candidate p f s)"
proof -
  obtain s owner where s: "f_Support f = Some s" "by_name rows (claim_owner s) = Some owner" "f_ID f \<noteq> []" "su_OwnerResult s = None"
      "FindingSupport_Validate s = None"
    using assms by (auto simp: settle_claim_def split: option.split_asm if_split_asm)
  show ?thesis
  proof (cases "claim_owner s = StepCI \<and> sp_Status owner = StepStatusSkipped \<and> handoff")
    case False
    have "\<exists>raw findings. owner_ready (candidate \<and> claim_owner s = StepCI) owner \<and> sp_FindingsJSON owner = Some raw \<and>
        ParseFindingsJSON raw = Some findings \<and> list_ex (settles p f s (override_recorded owner db)) (elems (fs_Items findings))"
      using assms False s by (simp add: settle_claim_def split: option.split_asm if_split_asm)
    then show ?thesis using s(1,2) by (auto simp: settled_by_def list_ex_iff)
  qed (use s(1) in blast)
qed

lemma gate_passes:
  assumes "validateReviewSupportOwnersAtBoundary run through candidate db = None" "f \<in> set (review_claims run db)" "pending_claim through f"
  shows "\<exists>p r handoff. tb_prContexts db run = Some p \<and> GetRun run db = Some r \<and> pc_local_head_sha p = rn_HeadSHA r \<and>
    TrimSpace (deref (rn_ReviewApprovedHeadSHA r)) \<noteq> [] \<and>
    (handoff \<longrightarrow> rn_ExternalCIOwner r = ExternalCIOwnerControllerShipPR \<and> (\<exists>xs. PendingExternalCISupport r db = Inr xs)) \<and>
    settle_claim (GetStepsByRun run db) db p handoff candidate f = None"
proof -
  define rows where "rows = GetStepsByRun run db"
  obtain review where review: "by_name rows StepReview = Some review"
    using assms(2) by (cases "by_name rows StepReview") (simp_all add: review_claims_def rows_def [symmetric])
  obtain raw where raw: "sp_Status review = StepStatusCompleted" "sp_FindingsJSON review = Some raw"
    using assms(2) review by (cases "sp_FindingsJSON review") (simp_all add: review_claims_def rows_def [symmetric] split: if_split_asm)
  obtain findings where findings: "ParseFindingsJSON raw = Some findings" "f \<in> set (elems (fs_Items findings))"
    using assms(2) review raw by (cases "ParseFindingsJSON raw") (simp_all add: review_claims_def rows_def [symmetric])
  define pending where "pending = filter (pending_claim through) (elems (fs_Items findings))"
  have f: "f \<in> set pending" using findings(2) assms(3) by (simp add: pending_def)
  then have some: "pending \<noteq> []" by auto
  define handoff where "handoff = (\<lambda>r :: Run. through = StepCI \<and> rn_ExternalCIOwner r = ExternalCIOwnerControllerShipPR \<and>
      stepsSkipped rows [StepPush, StepPR, StepCI])"
  have gate: "(case tb_prContexts db run of None \<Rightarrow> Some NoCurrentComparison
      | Some p \<Rightarrow> (case GetRun run db of None \<Rightarrow> Some SupportPanic
          | Some r \<Rightarrow> if TrimSpace (deref (rn_ReviewApprovedHeadSHA r)) = [] \<or> pc_local_head_sha p \<noteq> rn_HeadSHA r then Some NoCurrentComparison
              else (case (if handoff r then PendingExternalCISupport r db else Inr []) of
                      Inl e \<Rightarrow> Some (NoUsableHandoff e)
                    | Inr _ \<Rightarrow> first_refusal (settle_claim rows db p (handoff r) candidate) pending))) = None"
    using assms(1) [unfolded validateReviewSupportOwnersAtBoundary_def Let_def] review raw findings(1) some
    unfolding rows_def pending_def handoff_def by (simp split: if_split_asm)
  obtain p where p: "tb_prContexts db run = Some p" using gate by (cases "tb_prContexts db run") simp_all
  obtain r where r: "GetRun run db = Some r" using gate p by (cases "GetRun run db") simp_all
  have head: "pc_local_head_sha p = rn_HeadSHA r" "TrimSpace (deref (rn_ReviewApprovedHeadSHA r)) \<noteq> []"
    using gate p r by (simp_all split: if_split_asm)
  obtain xs where xs: "(if handoff r then PendingExternalCISupport r db else Inr []) = Inr xs"
    using gate p r head by (cases "if handoff r then PendingExternalCISupport r db else Inr []") simp_all
  have "first_refusal (settle_claim rows db p (handoff r) candidate) pending = None" using gate p r head xs by simp
  then have "settle_claim rows db p (handoff r) candidate f = None" using f by (simp add: first_refusal_None)
  moreover have "handoff r \<longrightarrow> rn_ExternalCIOwner r = ExternalCIOwnerControllerShipPR \<and> (\<exists>xs. PendingExternalCISupport r db = Inr xs)"
    using xs by (auto simp: handoff_def)
  ultimately show ?thesis using p r head unfolding rows_def by blast
qed

text \<open>The evidence of the steps of a run is of a generation no later than \<open>n\<close>.\<close>

definition recorded_upto :: "int \<Rightarrow> string \<Rightarrow> tables \<Rightarrow> bool" where
  "recorded_upto n run db \<longleftrightarrow>
     (\<forall>s \<in> set (tb_steps db). sp_RunID s = run \<longrightarrow>
        (case Option.bind (sp_FindingsJSON s) ParseFindingsJSON of
           None \<Rightarrow> True
         | Some findings \<Rightarrow> \<forall>x \<in> set (elems (fs_Items findings)).
             (case Option.bind (f_Support x) su_OwnerResult of None \<Rightarrow> True | Some r \<Rightarrow> or_Generation r \<le> n)))"

lemma settled_generation:
  assumes "settled_by (GetStepsByRun run db) db candidate p f s" "recorded_upto n run db"
  shows "pc_generation p \<le> n"
proof -
  obtain owner raw findings x where o': "by_name (GetStepsByRun run db) (claim_owner s) = Some owner" "sp_FindingsJSON owner = Some raw"
      "ParseFindingsJSON raw = Some findings" "x \<in> set (elems (fs_Items findings))" "settles p f s (override_recorded owner db) x"
    using assms(1) by (auto simp: settled_by_def)
  obtain t r where "f_Support x = Some t" "su_OwnerResult t = Some r" "or_Generation r = pc_generation p"
    using o'(5) by (auto simp: settles_def current_result_def split: option.split_asm)
  then show ?thesis using assms(2) by_name_row [OF o'(1)] o'(2-4) by (force simp: recorded_upto_def)
qed

lemma advance_rows:
  assumes "AdvanceRunPRContext ipv6 ts run c db = Inr ((True, g), db')" "tb_prContexts db run = Some p"
  shows "tb_prContexts db' run = Some (receipt_of ts (pc_generation p + 1) c)" "tb_steps db' = tb_steps db"
proof -
  obtain w db1 where b: "g = pc_generation p + 1" "candidate_of p \<noteq> c" "tb_prContexts db1 = tb_prContexts db" "tb_steps db1 = tb_steps db"
      "tb_rounds db1 = tb_rounds db" "db' = apply_binding ts run c StepReview True
         (bo_rewind no_options \<noteq> None \<or> bo_complete no_options \<noteq> None) w (Some p) g db1"
    by (rule bind_changed [OF assms(1) [unfolded AdvanceRunPRContext_def] assms(2)]) blast
  show "tb_prContexts db' run = Some (receipt_of ts (pc_generation p + 1) c)" unfolding b(6) by (simp add: apply_receipt b(1))
  have "tb_steps (apply_binding ts run c StepReview True k w (Some p) g db1) = tb_steps db1" for k
    by (simp add: apply_binding_def Let_def revoke_readiness_def)
  then show "tb_steps db' = tb_steps db" unfolding b(6) by (simp add: b(4))
qed

text \<open>C29. When the comparison advances under a review that stays approved, evidence gathered for the old comparison settles nothing: while the
  review has a hypothesis of Test, neither boundary passes until Test reports on the new comparison, whatever the run recorded
  before.\<close>

theorem fresh_evidence_required:
  assumes "AdvanceRunPRContext ipv6 ts run c db = Inr ((True, g), db')" "tb_prContexts db run = Some p"
    and "f \<in> set (review_claims run db)" "pending_claim StepTest f" "recorded_upto (pc_generation p) run db"
    and "through \<in> {StepTest, StepCI}"
  shows "validateReviewSupportOwnersAtBoundary run through candidate db' \<noteq> None"
proof
  assume pass: "validateReviewSupportOwnersAtBoundary run through candidate db' = None"
  have steps: "tb_steps db' = tb_steps db" and receipt: "tb_prContexts db' run = Some (receipt_of ts (pc_generation p + 1) c)"
    using advance_rows [OF assms(1,2)] by simp_all
  have "review_claims run db' = review_claims run db" "recorded_upto n run db' = recorded_upto n run db" for n
    by (simp_all add: review_claims_def GetStepsByRun_def recorded_upto_def steps)
  moreover have "pending_claim through f" using assms(4) by (auto simp: pending_claim_def StepTest_def StepCI_def split: option.split_asm)
  ultimately obtain q handoff where q: "tb_prContexts db' run = Some q" "settle_claim (GetStepsByRun run db') db' q handoff candidate f = None"
    using gate_passes [OF pass] assms(3) by metis
  obtain s where s: "f_Support f = Some s" "handoff \<and> claim_owner s = StepCI \<or> settled_by (GetStepsByRun run db') db' candidate q f s"
    using settle_claim_None [OF q(2)] by blast
  have "su_ClaimType s = FindingClaimTest" using assms(4) s(1) by (auto simp: pending_claim_def step_name_defs)
  then have "claim_owner s = StepTest" by (simp add: claim_owner_def finding_claim_defs)
  then have "settled_by (GetStepsByRun run db') db' candidate q f s" using s(2) by (auto simp: StepTest_def StepCI_def)
  then have "pc_generation q \<le> pc_generation p"
    using settled_generation assms(5) \<open>\<And>n. recorded_upto n run db' = recorded_upto n run db\<close> by blast
  moreover have "Some q = Some (receipt_of ts (pc_generation p + 1) c)" unfolding q(1) [symmetric] by (rule receipt)
  then have "pc_generation q = pc_generation p + 1" by (simp only: option.inject receipt_generation)
  ultimately show False by simp
qed

section \<open>Concrete hypotheses\<close>

definition sample_hypothesis :: "FindingSupport \<Rightarrow> Finding" where
  "sample_hypothesis s = zero_finding\<lparr>f_ID := ''c'', f_Category := FindingCategoryReviewSupportPending, f_Support := Some s\<rparr>"

definition test_support :: FindingSupport where
  "test_support = zero_support\<lparr>su_ClaimType := FindingClaimTest, su_Test := Some \<lparr> tst_Command = ''t'' \<rparr>\<rparr>"

definition ci_support :: FindingSupport where
  "ci_support = zero_support\<lparr>su_ClaimType := FindingClaimCI, su_CI := Some \<lparr> ci_CheckID = ''k'', ci_HeadSHA = replicate 40 CHR ''e'' \<rparr>\<rparr>"

definition sample_review :: "Finding \<Rightarrow> StepResult" where
  "sample_review f = zero_step\<lparr>sp_ID := ''s'', sp_RunID := ''r'', sp_StepName := StepReview, sp_Status := StepStatusCompleted,
     sp_FindingsJSON := Some (MarshalFindingsJSON (sample_payload [f]))\<rparr>"

lemma plain_utf8: "list_all (\<lambda>c. byte c < 128) s \<Longrightarrow> valid_utf8 s"
proof (induction s)
  case (Cons c s)
  then show ?case by (simp add: valid_utf8.simps rune_size_def lead_size_def rune_ok_def)
qed simp

lemma sample_payload_parse:
  "s \<in> {test_support, ci_support} \<Longrightarrow>
     ParseFindingsJSON (MarshalFindingsJSON (sample_payload [sample_hypothesis s])) = Some (sample_payload [sample_hypothesis s])"
proof -
  have shas: "valid_utf8 (replicate 40 CHR ''e'')" by (rule plain_utf8) (simp add: list_all_iff)
  assume "s \<in> {test_support, ci_support}"
  then have "finding_ok (sample_hypothesis s)"
    using shas finding_ok_zero
    by (auto simp: finding_ok_def sample_hypothesis_def test_support_def ci_support_def zero_support_def utf8_finding_def int64_finding_def
        utf8_support_def int64_support_def finding_claim_defs FindingCategoryReviewSupportPending_def plain_utf8)
  then show ?thesis by (intro sample_parse) simp
qed

lemma sample_review_fields: "sp_Status (sample_review f) = StepStatusCompleted" "sp_RunID (sample_review f) = ''r''"
  "sp_FindingsJSON (sample_review f) = Some (MarshalFindingsJSON (sample_payload [f]))"
  by (simp_all add: sample_review_def)

lemma sample_review_row:
  "tb_steps db = [sample_review f] \<Longrightarrow> GetStepsByRun ''r'' db = [sample_review f] \<and> by_name (GetStepsByRun ''r'' db) StepReview = Some (sample_review f)"
  by (simp add: GetStepsByRun_def by_name_def sql_first_def sample_review_def)

definition hypothesis_store :: tables where
  "hypothesis_store = tracked_store\<lparr>tb_steps := [sample_review (sample_hypothesis test_support)]\<rparr>"

theorem fresh_evidence_required_witness:
  "\<exists>db'. AdvanceRunPRContext (\<lambda>_. False) 7 ''r'' tracked_moved hypothesis_store = Inr ((True, 2), db') \<and>
     validateReviewSupportOwnersAtBoundary ''r'' StepCI False db' \<noteq> None"
proof -
  have rows: "GetRun ''r'' hypothesis_store = Some tracked_run" "tb_prContexts hypothesis_store ''r'' = Some (receipt_of 1 1 tracked)"
    "tb_steps hypothesis_store = [sample_review (sample_hypothesis test_support)]"
    using tracked_facts by (simp_all add: hypothesis_store_def GetRun_def)
  obtain db' where run: "AdvanceRunPRContext (\<lambda>_. False) 7 ''r'' tracked_moved hypothesis_store = Inr ((True, 2), db')"
    using tracked_facts(3) by (simp add: AdvanceRunPRContext_def tracked_bind rows no_options_def changed_binding_def Let_def)
  have "sample_hypothesis test_support \<in> set (review_claims ''r'' hypothesis_store)"
    using sample_review_row [OF rows(3), THEN conjunct2] by (simp add: review_claims_def sample_review_fields sample_payload_parse)
  moreover have "pending_claim StepTest (sample_hypothesis test_support)"
    by (simp add: pending_claim_def sample_hypothesis_def test_support_def)
  moreover have "recorded_upto (pc_generation (receipt_of 1 1 tracked)) ''r'' hypothesis_store"
    by (simp add: recorded_upto_def rows(3) sample_review_fields sample_payload_parse)
      (simp add: sample_hypothesis_def test_support_def zero_support_def)
  ultimately show ?thesis using fresh_evidence_required [OF run rows(2)] run by blast
qed

text \<open>A claim handed over from a head the pipeline committed on top of the reviewed one.\<close>

definition handoff_run :: Run where
  "handoff_run = tracked_run\<lparr>rn_ExternalCIOwner := ExternalCIOwnerControllerShipPR, rn_ReviewApprovedHeadSHA := Some (replicate 40 CHR ''f'')\<rparr>"

definition handoff_receipt :: PRContextRow where
  "handoff_receipt = receipt_of 1 1 (tracked\<lparr>ct_SourceRepo := ''o'', ct_SourceBranch := ''b''\<rparr>)"

definition handoff_store :: tables where
  "handoff_store = no_tables\<lparr>tb_runs := [handoff_run], tb_steps := [sample_review (sample_hypothesis ci_support)],
     tb_rounds := [zero_round\<lparr>sr_StepResultID := ''s'', sr_ReviewedHeadSHA := Some (replicate 40 CHR ''f'')\<rparr>],
     tb_prContexts := [''r'' \<mapsto> handoff_receipt],
     tb_pipeline_heads := [\<lparr> ph_RunID = ''r'', ph_HeadSHA = replicate 40 CHR ''a'', ph_ParentSHA = replicate 40 CHR ''f'' \<rparr>]\<rparr>"

lemma handoff_fields: "rn_ID handoff_run = ''r''" "rn_HeadSHA handoff_run = replicate 40 CHR ''a''" "pc_local_head_sha handoff_receipt = replicate 40 CHR ''a''"
  "rn_ExternalCIOwner handoff_run \<noteq> []" "deref (rn_ReviewApprovedHeadSHA handoff_run) = replicate 40 CHR ''f''"
  "deref (pc_source_repo handoff_receipt) = ''o''" "deref (pc_source_branch handoff_receipt) = ''b''"
  by (simp_all add: handoff_run_def handoff_receipt_def tracked_run_def tracked_def receipt_of_def optional_field_def deref_def
      ExternalCIOwnerControllerShipPR_def)

lemma handoff_forward: "ValidatePipelineHeadForward ''r'' (replicate 40 CHR ''f'') (replicate 40 CHR ''a'') handoff_store = None"
proof -
  have "parent_of ''r'' handoff_store (replicate 40 CHR ''a'') = Some (replicate 40 CHR ''f'')"
    by (simp add: parent_of_def sql_first_def handoff_store_def)
  then show ?thesis
    by (simp add: ValidatePipelineHeadForward_def forward.simps [of _ _ _ "[]"] forward.simps [of _ _ "replicate 40 CHR ''f''" "[x]" for x])
qed

lemma handoff_claim_ok: "claim_refused (sample_hypothesis ci_support) = None" "handoff_claim (sample_hypothesis ci_support)"
proof -
  have "validGitSHA (replicate 40 CHR ''e'')" by (simp add: validGitSHA_def letters_hex)
  moreover have "TrimSpace ''k'' = ''k''" by (rule TrimSpace_plain) (simp_all add: plain_byte_def byte_def)
  moreover have "TrimSpace (replicate 40 CHR ''e'') \<noteq> []"
    using letters_clean [of "CHR ''e''" 40] by (simp add: clean_field_def)
  ultimately show "claim_refused (sample_hypothesis ci_support) = None"
    by (simp add: claim_refused_def sample_hypothesis_def ci_support_def zero_support_def FindingSupport_Validate_def finding_claim_defs
        IsKnownFindingClaimType_def)
  show "handoff_claim (sample_hypothesis ci_support)" by (simp add: handoff_claim_def sample_hypothesis_def ci_support_def)
qed

theorem handoff_current_witness:
  "\<exists>x. PendingExternalCISupport handoff_run handoff_store = Inr [x] \<and> ps_SourceHeadSHA x = replicate 40 CHR ''a''"
proof -
  have rows: "tb_steps handoff_store = [sample_review (sample_hypothesis ci_support)]" "tb_prContexts handoff_store ''r'' = Some handoff_receipt"
    "approved_round_head (GetRoundsByStep (sp_ID (sample_review (sample_hypothesis ci_support))) handoff_store) = replicate 40 CHR ''f''"
    by (simp_all add: handoff_store_def GetRoundsByStep_def sample_review_def approved_round_head_def)
  have trim: "TrimSpace ''o'' = ''o''" "TrimSpace ''b'' = ''b''" by (rule TrimSpace_plain, simp_all add: plain_byte_def byte_def)+
  have name: "sp_StepName (sample_review f) = StepReview" for f by (simp add: sample_review_def)
  have run: "PendingExternalCISupport handoff_run handoff_store = Inr [handed_over handoff_run handoff_receipt (sample_hypothesis ci_support)]"
    using sample_review_row [OF rows(1)] rows(2,3) trim
    by (simp add: PendingExternalCISupport_def handoff_fields name sample_review_fields sample_payload_parse handoff_claim_ok handoff_forward Let_def)
  show ?thesis using handoff_current [OF run] run by (auto simp: handoff_fields)
qed

end
