(* ===== verification/RunLoop.thy ===== *)
theory RunLoop
  imports StepLoop RunEnd SupportGate
begin

text \<open>
  The loop over the steps of a run, \<open>Execute\<close>, \<open>executeRecoveredRemainder\<close> and \<open>skipRecoveredRemainder\<close> of
  \<open>internal/pipeline/executor.go\<close>: the guard before a step, the skips, the restarts of an earlier step, the
  boundaries that review support must pass, and the completion of the run. The step itself is the loop of
  \<open>StepLoop\<close>, the support gate that of \<open>SupportGate\<close> and the ending that of \<open>RunEnd\<close>. Log files, the
  recorded command configuration, events and the refresh of Test evidence (an input) are left out.
\<close>

section \<open>Which rows a step may mark\<close>

text \<open>The run, the order and the status of a row, and the writes that change the status of one row only.\<close>

definition mark_in :: "string \<Rightarrow> StepResult list \<Rightarrow> ((string \<times> int) \<times> StepStatus) option" where
  "mark_in i rows = map_option (\<lambda>s. ((sp_RunID s, sp_StepOrder s), sp_Status s)) (sql_first (\<lambda>s. sp_ID s = i) rows)"

abbreviation "mark i db \<equiv> mark_in i (tb_steps db)"

definition only :: "string \<Rightarrow> StepResult list \<Rightarrow> StepResult list \<Rightarrow> bool" where
  "only i rows rows' \<longleftrightarrow>
     (\<forall>j. map_option fst (mark_in j rows') = map_option fst (mark_in j rows) \<and> (j \<noteq> i \<longrightarrow> mark_in j rows' = mark_in j rows))"

abbreviation "steps_only i db db' \<equiv> only i (tb_steps db) (tb_steps db')"

lemma only_refl [simp]: "only i rows rows"
  by (simp add: only_def)

lemma find_update:
  assumes "\<And>s. sp_ID (f s) = sp_ID s"
  shows "sql_first (\<lambda>s. sp_ID s = j) (sql_update p f rows) =
    map_option (\<lambda>s. if p s then f s else s) (sql_first (\<lambda>s. sp_ID s = j) rows)"
  by (induction rows) (auto simp: sql_first_def assms)

lemma only_update:
  assumes "only i rows0 rows" "\<And>s. p s \<Longrightarrow> sp_ID s = i \<or> sp_Status (f s) = sp_Status s"
    and "\<And>s. sp_ID (f s) = sp_ID s" "\<And>s. sp_StepOrder (f s) = sp_StepOrder s" "\<And>s. sp_RunID (f s) = sp_RunID s"
  shows "only i rows0 (sql_update p f rows)"
proof -
  have "map_option fst (mark_in j (sql_update p f rows)) = map_option fst (mark_in j rows) \<and>
      (j \<noteq> i \<longrightarrow> mark_in j (sql_update p f rows) = mark_in j rows)" for j
  proof (cases "sql_first (\<lambda>s. sp_ID s = j) rows")
    case (Some s)
    then have "sp_ID s = j" by (auto dest: sql_first_Some)
    then show ?thesis using Some assms(2) [of s]
      by (auto simp: mark_in_def find_update [of f, OF assms(3)] assms(4,5))
  qed (simp add: mark_in_def find_update [of f, OF assms(3)])
  then show ?thesis using assms(1) by (simp add: only_def)
qed

lemma steps_invalidate [simp]: "tb_steps (invalidateStatusValidation run db) = tb_steps db"
  by (simp add: invalidateStatusValidation_def)

lemma steps_record_proof [simp]: "tb_steps (RecordStatusValidationStep j run h c e db) = tb_steps db"
  by (simp add: RecordStatusValidationStep_def)

lemmas step_write_defs = UpdateStepStatus_def StartStepWithAutoFixLimit_def completeStep_def FailStep_sql_def SetStepFindings_def
  ClearStepFindings_def SetTestApprovalReason_def CompleteStepWithStatus_def CompleteSkippedStep_def

named_theorems only_intro

lemma only_writes [only_intro]:
  assumes "steps_only i db0 db"
  shows "steps_only i db0 (UpdateStepStatus ts i status db)" "steps_only i db0 (StartStepWithAutoFixLimit ts i limit db)"
    "steps_only i db0 (FailStep_sql ts i msg ms db)"
    "steps_only i db0 (SetStepFindings j raw db)" "steps_only i db0 (ClearStepFindings j db)"
    "steps_only i db0 (snd (SetTestApprovalReason j reason db))"
    "steps_only i db0 (CompleteStepWithStatus ts i status ec ms lg db)" "steps_only i db0 (CompleteSkippedStep ts i ec ms lg why db)"
  using assms by (simp_all add: step_write_defs Let_def only_update)

lemma only_fix_round: "StartStepFixRound ts i limit db = Some db' \<Longrightarrow> steps_only i db0 db \<Longrightarrow> steps_only i db0 db'"
  by (auto simp: StartStepFixRound_def intro!: only_update split: option.split_asm)

lemma only_override: "SetStepOverrideReason j reason db = Some db' \<Longrightarrow> steps_only i db0 db \<Longrightarrow> steps_only i db0 db'"
  by (auto simp: SetStepOverrideReason_def intro!: only_update split: if_split_asm)

lemma only_park: "ParkStepForApproval_sql ts nonce run i status ec ms raw rnd db = Some db' \<Longrightarrow> steps_only i db0 db \<Longrightarrow> steps_only i db0 db'"
  by (auto simp: ParkStepForApproval_sql_def Let_def intro!: only_update split: if_split_asm)

lemma only_review: "CompleteReviewStep ts i run h ec ms lg g db = Inr db' \<Longrightarrow> steps_only i db0 db \<Longrightarrow> steps_only i db0 db'"
  by (auto simp: CompleteReviewStep_def Let_def intro!: only_update split: option.split_asm if_split_asm)

section \<open>A step marks its own row only\<close>

lemma rounds_steps [simp]:
  "tb_steps (insertStepRound r db) = tb_steps db" "tb_steps (recordDeclinedRound rnd fs db) = tb_steps db"
  "tb_steps (select_auto_fix rnd fs db) = tb_steps db"
  by (simp_all add: insertStepRound_def recordDeclinedRound_def select_auto_fix_def SetStepRoundDeclined_sql_def SetStepRoundSelection_def)

lemma only_record_round: "steps_only (se_id env) db0 db \<Longrightarrow> steps_only (se_id env) db0 (record_round env inp o' effective lp db)"
  by (simp add: record_round_def Let_def InsertReviewStepRound_def InsertReviewStepRoundWithProvenance_def InsertStepRoundWithRepair_def
      only_writes split: option.split prod.split)

lemma only_guarded: "guarded ts env ms g lp db = Inl (v, db') \<Longrightarrow> steps_only (se_id env) db0 db \<Longrightarrow> steps_only (se_id env) db0 db'"
  by (auto simp: guarded_def intro!: only_writes split: option.split_asm guard.split_asm if_split_asm)

lemma only_decide: "decide env inp o' effective lp db = (v, db') \<Longrightarrow> steps_only (se_id env) db0 db \<Longrightarrow> steps_only (se_id env) db0 db'"
  by (auto simp: decide_def Let_def elim!: only_fix_round only_park split: option.split_asm if_split_asm)

lemma only_finish_round:
  assumes "finish_round env inp o' lp db = (v, db')" "steps_only (se_id env) db0 db"
  shows "steps_only (se_id env) db0 db'"
proof -
  obtain effective lp1 where t: "take_findings env inp o' (take_outcome env o' lp) db = (effective, lp1)" by (metis surj_pair)
  have "steps_only (se_id env) db0 (record_round env inp o' effective lp1 db)" using assms(2) by (rule only_record_round)
  then show ?thesis using assms(1) only_decide by (simp add: finish_round_def t Let_def) blast
qed

lemma only_round_error: "round_error env inp e lp db = (v, db') \<Longrightarrow> steps_only (se_id env) db0 db \<Longrightarrow> steps_only (se_id env) db0 db'"
  by (auto simp: round_error_def intro!: only_writes split: exec_error.split_asm if_split_asm)

lemma only_run_round:
  assumes "run_round env inp lp db = (v, db')"
  shows "steps_only (se_id env) db db'"
proof (cases "immutable_refusal inp (read_proof env inp db lp)")
  case None
  define lp2 where "lp2 = (read_proof env inp db lp)\<lparr>lp_run := ri_run inp\<rparr>"
  show ?thesis
  proof (cases "executed env inp")
    case (Inl e)
    then have "round_error env inp e lp2 db = (v, db')" using assms None by (simp add: run_round_def Let_def lp2_def)
    then show ?thesis by (rule only_round_error) simp
  next
    case (Inr o')
    show ?thesis
    proof (cases "guarded (ri_ts inp) env (Some (ri_round_ms inp)) (ri_guard inp) lp2 db")
      case (Inl w)
      then have "guarded (ri_ts inp) env (Some (ri_round_ms inp)) (ri_guard inp) lp2 db = Inl (v, db')"
        using assms None Inr by (simp add: run_round_def Let_def lp2_def)
      then show ?thesis by (rule only_guarded) simp
    next
      case (Inr lp3)
      then have "finish_round env inp o' (lp3\<lparr>lp_roundNum := lp_roundNum lp3 + 1\<rparr>) db = (v, db')"
        using assms None \<open>executed env inp = Inr o'\<close> by (simp add: run_round_def Let_def lp2_def)
      then show ?thesis by (rule only_finish_round) simp
    qed
  qed
qed (use assms in \<open>simp add: run_round_def Let_def\<close>)

lemma only_approval:
  assumes "applyApprovalOverride at env reason gaps unresolved strict db = (err, db')" "steps_only i db0 db"
  shows "steps_only i db0 db'"
proof -
  have gaps: "steps_only i db0 (snd (record_gaps at (se_id env) g strict db))" for g
    using assms(2)
    by (simp add: record_gaps_def Let_def only_update split: sum.split prod.split option.split)
  obtain err1 db1 where r: "approval_record at env reason gaps strict db = (err1, db1)" by (metis surj_pair)
  have "steps_only i db0 (snd (approval_record at env reason gaps strict db))"
    using gaps only_writes(6) [OF assms(2)] assms(2)
    by (cases gaps) (simp_all add: approval_record_def Let_def split_beta)
  then have db1: "steps_only i db0 db1" by (simp add: r)
  show ?thesis
    using assms(1) db1 only_override
    by (auto simp: applyApprovalOverride_def r split: option.split_asm if_split_asm)
qed

lemma only_respond:
  assumes "respond_gate env inp effective r lp db = (v, db')" "steps_only (se_id env) db0 db"
  shows "steps_only (se_id env) db0 db'"
proof -
  have approve: "approve_gate env inp effective r lp db = (v, db') \<Longrightarrow> steps_only (se_id env) db0 db'"
    using only_approval [where ?i = "se_id env" and ?db0.0 = db0] assms(2)
    by (simp add: approve_gate_def split: prod.split_asm option.split_asm)
  show ?thesis
    using assms approve
    by (auto simp: respond_gate_def intro!: only_writes elim!: only_fix_round split: option.split_asm if_split_asm)
qed

lemma only_answer_gate:
  assumes "answer_gate env inp effective lp db = (v, db')"
  shows "steps_only (se_id env) db db'"
  using assms only_guarded [where ?db0.0 = db and db = db] only_respond [where ?db0.0 = db and db = db]
  by (auto simp: answer_gate_def intro!: only_writes split: gate_event.split_asm if_split_asm sum.split_asm)

lemma only_finish_step:
  assumes "finish_step env inp lp db = (v, db')"
  shows "steps_only (se_id env) db db'"
proof -
  have complete: "completes env inp lp ms db = Some db1 \<Longrightarrow> steps_only (se_id env) db db1" for ms db1
    by (auto simp: completes_def intro: only_writes elim!: only_review split: if_split_asm sum.split_asm)
  show ?thesis
    using assms complete
    by (auto simp: finish_step_def Let_def intro!: only_writes split: if_split_asm option.split_asm)
qed

text \<open>A step that returns without a restart leaves its row completed or skipped.\<close>

definition settled_row :: "string \<Rightarrow> tables \<Rightarrow> bool" where
  "settled_row i db \<longleftrightarrow> (\<exists>k. mark i db = Some (k, StepStatusCompleted) \<or> mark i db = Some (k, StepStatusSkipped))"

lemma mark_marked:
  assumes "\<And>s. sp_ID (f s) = sp_ID s" "\<And>s. sp_Status (f s) = st" "mark_in i rows \<noteq> None"
  shows "\<exists>k. mark_in i (sql_update (\<lambda>s. sp_ID s = i) f rows) = Some (k, st)"
proof -
  obtain s where s: "sql_first (\<lambda>s. sp_ID s = i) rows = Some s" using assms(3) by (auto simp: mark_in_def)
  then have "sp_ID s = i" by (auto dest: sql_first_Some)
  then show ?thesis using s by (simp add: mark_in_def find_update [of f, OF assms(1)] assms(2))
qed

lemma completed_settled:
  assumes "mark i db \<noteq> None" "st \<in> {StepStatusCompleted, StepStatusSkipped}"
  shows "settled_row i (completeStep ts i st ec ms lg why db)"
proof -
  define f where "f = (\<lambda>r :: StepResult. r\<lparr>sp_Status := st, sp_ExitCode := Some ec,
        sp_DurationMS := Some ms, sp_LogPath := Some lg, sp_CompletedAt := Some ts, sp_LastActivityAt := Some ts,
        sp_LastActivity := Some (status_activity st), sp_AgentPID := None,
        sp_SkipReason := (if why = [] then None else Some why),
        sp_OverrideReason := if st = StepStatusSkipped then None else sp_OverrideReason r,
        sp_ApprovalReason := if st = StepStatusSkipped then None else sp_ApprovalReason r,
        sp_AcceptedGapsJSON := if st = StepStatusSkipped then None else sp_AcceptedGapsJSON r\<rparr>)"
  have "tb_steps (completeStep ts i st ec ms lg why db) = sql_update (\<lambda>s. sp_ID s = i) f (tb_steps db)"
    by (simp add: completeStep_def Let_def f_def)
  moreover have "\<exists>n. mark_in i (sql_update (\<lambda>s. sp_ID s = i) f (tb_steps db)) = Some (n, st)"
    by (rule mark_marked) (simp_all add: f_def assms(1))
  ultimately show ?thesis using assms(2) by (auto simp: settled_row_def)
qed

lemma reviewed_settled:
  assumes "CompleteReviewStep ts i run h ec ms lg g db = Inr db'" "mark i db = Some ((run, n), st)"
  shows "settled_row i db'"
proof -
  obtain s where s: "sql_first (\<lambda>s. sp_ID s = i) (tb_steps db) = Some s" "sp_RunID s = run" using assms(2) by (auto simp: mark_in_def)
  then have "sp_ID s = i" by (auto dest: sql_first_Some)
  define f where "f = (\<lambda>s :: StepResult. s\<lparr>sp_Status := StepStatusCompleted, sp_ExitCode := Some ec,
      sp_DurationMS := Some ms, sp_LogPath := Some lg, sp_CompletedAt := Some ts, sp_LastActivityAt := Some ts,
      sp_LastActivity := Some (status_activity StepStatusCompleted), sp_AgentPID := None\<rparr>)"
  have "tb_steps db' = sql_update (\<lambda>s. sp_ID s = i \<and> sp_RunID s = run) f (tb_steps db)"
    using assms(1) by (auto simp: CompleteReviewStep_def Let_def f_def split: option.split_asm if_split_asm)
  moreover have "sp_ID (f x) = sp_ID x" "sp_Status (f x) = StepStatusCompleted" for x by (simp_all add: f_def)
  ultimately show ?thesis using s \<open>sp_ID s = i\<close> by (auto simp: settled_row_def mark_in_def find_update)
qed

lemma finish_settled:
  assumes "finish_step env inp lp db = (Returned skip [], db')" "mark (se_id env) db = Some ((se_run env, n), st)"
  shows "settled_row (se_id env) db'"
proof -
  have restart: "lp_restartFrom lp = []" using assms(1) by (simp add: finish_step_def Let_def split: if_split_asm option.split_asm)
  obtain ms db1 where c: "completes env inp lp ms db = Some db1" "tb_steps db' = tb_steps db1"
    using assms(1) restart by (simp add: finish_step_def Let_def split: if_split_asm option.split_asm) fastforce+
  have known: "mark (se_id env) db \<noteq> None" using assms(2) by simp
  have "settled_row (se_id env) db1"
  proof (cases "se_name env = StepReview \<and> \<not> lp_skipped lp \<and> lp_approvedHead lp \<noteq> []")
    case True
    then have "CompleteReviewStep (di_ts inp) (se_id env) (se_run env) (lp_approvedHead lp) (lp_exitCode lp) ms
        (di_log inp) [lp_generation lp] db = Inr db1"
      using c(1) by (simp add: completes_def split: sum.split_asm)
    then show ?thesis using assms(2) by (rule reviewed_settled)
  next
    case False
    then have "db1 = (if lp_skipped lp then CompleteSkippedStep (di_ts inp) (se_id env) (lp_exitCode lp) ms (di_log inp) (lp_skipReason lp) db
        else CompleteStepWithStatus (di_ts inp) (se_id env) StepStatusCompleted (lp_exitCode lp) ms (di_log inp) db)"
      using c(1) by (auto simp: completes_def)
    then show ?thesis using completed_settled [OF known] by (simp add: CompleteSkippedStep_def CompleteStepWithStatus_def)
  qed
  then show ?thesis by (simp add: settled_row_def c(2))
qed

text \<open>A guard that restarts an earlier step names it.\<close>

fun guard_names :: "guard option \<Rightarrow> bool" where
  "guard_names (Some (GuardRestarts e target True)) \<longleftrightarrow> target \<noteq> []"
| "guard_names g \<longleftrightarrow> True"

lemma guarded_returns: "guarded ts env ms g lp db = Inl (Returned skip target, db') \<Longrightarrow> guard_names g \<Longrightarrow> target \<noteq> [] \<and> \<not> skip"
  by (auto simp: guarded_def split: option.split_asm guard.split_asm if_split_asm)

lemma decide_returns: "decide env inp o' effective lp db \<noteq> (Returned skip target, db')"
  by (simp add: decide_def Let_def split: option.split)

lemma round_error_returns: "round_error env inp e lp db \<noteq> (Returned skip target, db')"
  by (simp add: round_error_def split: exec_error.split)

lemma run_round_returns:
  assumes "run_round env inp lp db = (Returned skip target, db')" "guard_names (ri_guard inp)"
  shows "target \<noteq> [] \<and> \<not> skip"
proof (cases "immutable_refusal inp (read_proof env inp db lp)")
  case None
  define lp2 where "lp2 = (read_proof env inp db lp)\<lparr>lp_run := ri_run inp\<rparr>"
  show ?thesis
  proof (cases "executed env inp")
    case (Inl e)
    then have "round_error env inp e lp2 db = (Returned skip target, db')" using assms None by (simp add: run_round_def Let_def lp2_def)
    then show ?thesis by (simp add: round_error_returns)
  next
    case (Inr o')
    show ?thesis
    proof (cases "guarded (ri_ts inp) env (Some (ri_round_ms inp)) (ri_guard inp) lp2 db")
      case (Inl w)
      then have "guarded (ri_ts inp) env (Some (ri_round_ms inp)) (ri_guard inp) lp2 db = Inl (Returned skip target, db')"
        using assms None Inr by (simp add: run_round_def Let_def lp2_def)
      then show ?thesis using assms(2) by (rule guarded_returns)
    next
      case (Inr lp3)
      then have "finish_round env inp o' (lp3\<lparr>lp_roundNum := lp_roundNum lp3 + 1\<rparr>) db = (Returned skip target, db')"
        using assms None \<open>executed env inp = Inr o'\<close> by (simp add: run_round_def Let_def lp2_def)
      then show ?thesis by (simp add: finish_round_def decide_returns split_beta Let_def)
    qed
  qed
qed (use assms in \<open>simp add: run_round_def Let_def\<close>)

lemma answer_returns:
  assumes "answer_gate env inp effective lp db = (Returned skip target, db')" "guard_names (gi_guard inp)" "mark (se_id env) db \<noteq> None"
  shows "if target = [] then settled_row (se_id env) db' else \<not> skip"
proof -
  have known: "mark (se_id env) (recordDeclinedRound r fs db) \<noteq> None" for r fs using assms(3) by simp
  have respond: "target = [] \<and> settled_row (se_id env) db'"
    if "respond_gate env inp effective r lp1 db = (Returned skip target, db')" for r lp1
    using that completed_settled [OF known]
    by (auto simp: respond_gate_def approve_gate_def CompleteStepWithStatus_def split: if_split_asm option.split_asm prod.split_asm)
  have guard: "target \<noteq> [] \<and> \<not> skip" if "guarded (gi_ts inp) env None (gi_guard inp) lp db = Inl (Returned skip target, db')"
    using that assms(2) by (rule guarded_returns)
  show ?thesis
    using assms(1) respond guard
    by (auto simp: answer_gate_def split: gate_event.split_asm if_split_asm sum.split_asm)
qed

section \<open>The plan of a run\<close>

record run_plan =
  pl_run :: string
  pl_steps :: "step_env list"
  pl_skips :: "StepName list"
  pl_guarded :: bool
  pl_env :: run_env
  pl_resumes :: int
  pl_recovered :: bool

abbreviation "plan_names plan \<equiv> map se_name (pl_steps plan)"

definition stepIndex :: "StepName list \<Rightarrow> StepName \<Rightarrow> nat option" where
  "stepIndex names n = (let k = length (takeWhile (\<lambda>m. m \<noteq> n) names) in if k < length names then Some k else None)"

definition prepareRestart :: "run_plan \<Rightarrow> StepName \<Rightarrow> nat \<Rightarrow> tables \<Rightarrow> (nat \<times> tables) option" where
  "prepareRestart plan name current db =
     (case stepIndex (plan_names plan) name of
        None \<Rightarrow> None
      | Some j \<Rightarrow> if j \<ge> current then None
          else Some (j, ResetStepsFrom (pl_run plan) (int (Order (plan_names plan ! j))) db))"

text \<open>What a visit of a step reads: the clock, the cause of a cancelled context, the restart the guard asks for (empty for
  none), the refusal of a skipped PR step that owes closing references, and the executor's run.\<close>

record visit_input =
  vi_ts :: int
  vi_cancelled :: "string option"
  vi_guard :: "string + StepName"
  vi_receipt :: bool
  vi_closing :: "string option"
  vi_evidence :: int
  vi_run :: Run

definition guard_asked :: "run_plan \<Rightarrow> visit_input \<Rightarrow> StepName \<Rightarrow> bool" where
  "guard_asked plan inp name \<longleftrightarrow> rn_Shipping (vi_run inp) = None \<and> pl_guarded plan \<and> Order name \<ge> Order StepRebase \<and>
     name \<notin> set (pl_skips plan) \<and>
     (case CustomGateAnchor name of None \<Rightarrow> True | Some anchor \<Rightarrow> anchor \<notin> set (pl_skips plan) \<or> vi_receipt inp)"

definition checkPRContext :: "run_plan \<Rightarrow> visit_input \<Rightarrow> nat \<Rightarrow> string + nat option" where
  "checkPRContext plan inp i =
     (let name = plan_names plan ! i in
      if \<not> guard_asked plan inp name then Inr None
      else (case vi_guard inp of
              Inl err \<Rightarrow> Inl err
            | Inr target \<Rightarrow>
                if target = [] \<or> target = name then Inr None
                else (case stepIndex (plan_names plan) target of
                        None \<Rightarrow> Inl ''invalid PR context restart''
                      | Some j \<Rightarrow> if j > i then Inl ''invalid PR context restart'' else Inr (Some j))))"

definition refuseSkippedPRWithClosingIssues :: "int \<Rightarrow> string option \<Rightarrow> step_env \<Rightarrow> tables \<Rightarrow> tables option" where
  "refuseSkippedPRWithClosingIssues ts owed env db =
     (if se_name env \<noteq> StepPR then None else map_option (\<lambda>err. FailStep_sql ts (se_id env) err 0 db) owed)"

definition skip_step :: "int \<Rightarrow> step_env \<Rightarrow> tables \<Rightarrow> tables" where
  "skip_step ts env db = CompleteStepWithStatus ts (se_id env) StepStatusSkipped 0 0 [] db"

text \<open>The rows of a new run, with the requested skips recorded before any step starts.\<close>

fun record_steps :: "run_plan \<Rightarrow> int \<Rightarrow> string option \<Rightarrow> step_env list \<Rightarrow> tables \<Rightarrow> bool \<times> tables" where
  "record_steps plan ts owed [] db = (True, db)"
| "record_steps plan ts owed (env # rest) db =
     (let db1 = InsertStepResult (se_id env) (pl_run plan) (se_name env) db in
      if se_name env \<in> set (pl_skips plan)
      then (case refuseSkippedPRWithClosingIssues ts owed env db1 of
              Some db2 \<Rightarrow> (False, db2)
            | None \<Rightarrow> record_steps plan ts owed rest (skip_step ts env db1))
      else record_steps plan ts owed rest db1)"

datatype run_state = AtStep nat bool StepName | InStep nat bool StepName phase | Failing string | Ran completion

section \<open>One step of the plan\<close>

definition test_unsupported :: "run_plan \<Rightarrow> StepName \<Rightarrow> tables \<Rightarrow> bool" where
  "test_unsupported plan name db \<longleftrightarrow> name = StepTest \<and> validateReviewSupportOwners (pl_run plan) StepTest db \<noteq> None"

definition enter_step :: "run_plan \<Rightarrow> visit_input \<Rightarrow> nat \<Rightarrow> bool \<Rightarrow> StepName \<Rightarrow> tables \<Rightarrow> run_state \<times> tables" where
  "enter_step plan inp i rv rb db =
     (let env = pl_steps plan ! i;
          s = durableExecutionState (se_id env) db;
          s' = (if rv \<and> se_name env = StepReview \<and> rb \<noteq> StepReview
                then s\<lparr>es_outstandingFindings := [], es_selectedOutstandingIDs := []\<rparr> else s) in
      (InStep i rv rb (Running (enter_loop env s' (pl_resumes plan) (vi_evidence inp) (vi_run inp))), enter_rows (vi_ts inp) env s' db))"

definition visit_live :: "run_plan \<Rightarrow> visit_input \<Rightarrow> nat \<Rightarrow> bool \<Rightarrow> StepName \<Rightarrow> tables \<Rightarrow> run_state \<times> tables" where
  "visit_live plan inp i rv rb db =
     (let env = pl_steps plan ! i in
      case GetStepResult (se_id env) db of
        None \<Rightarrow> (Failing ''step result unavailable'', db)
      | Some row \<Rightarrow>
          if se_name env \<in> set (pl_skips plan) \<or> sp_Status row = StepStatusSkipped
          then (case refuseSkippedPRWithClosingIssues (vi_ts inp) (vi_closing inp) env db of
                  Some db1 \<Rightarrow> (Failing ''--closes requires publishing a pull request'', db1)
                | None \<Rightarrow>
                    if rn_Shipping (vi_run inp) \<noteq> None then (Failing ''strict shipping forbids skipped steps'', db)
                    else let db1 = skip_step (vi_ts inp) env db in
                      (if test_unsupported plan (se_name env) db1 then Failing ''review support'' else AtStep (Suc i) rv rb, db1))
          else enter_step plan inp i rv rb db)"

definition visit_recovered :: "run_plan \<Rightarrow> visit_input \<Rightarrow> nat \<Rightarrow> bool \<Rightarrow> StepName \<Rightarrow> tables \<Rightarrow> run_state \<times> tables" where
  "visit_recovered plan inp i rv rb db =
     (let env = pl_steps plan ! i in
      case GetStepResult (se_id env) db of
        None \<Rightarrow> (Failing ''recovered step plan changed'', db)
      | Some row \<Rightarrow>
          if sp_StepName row \<noteq> se_name env \<or> \<not> rv \<and> sp_Status row \<noteq> StepStatusPending \<and> sp_Status row \<noteq> StepStatusSkipped
          then (Failing ''recovered step plan changed'', db)
          else if sp_Status row = StepStatusSkipped
          then (if test_unsupported plan (se_name env) db then Failing ''review support'' else AtStep (Suc i) rv rb, db)
          else enter_step plan inp i rv rb db)"

text \<open>A visit from the tables \<open>db\<close>; the guard left \<open>db0\<close>.\<close>

definition visit :: "run_plan \<Rightarrow> visit_input \<Rightarrow> nat \<Rightarrow> bool \<Rightarrow> StepName \<Rightarrow> tables \<Rightarrow> tables \<Rightarrow> run_state \<times> tables" where
  "visit plan inp i rv rb db db0 =
     (case vi_cancelled inp of
        Some err \<Rightarrow> (Failing err, db)
      | None \<Rightarrow>
          if pl_recovered plan \<and> i > 0 \<and> test_unsupported plan (plan_names plan ! (i - 1)) db then (Failing ''review support'', db)
          else (case checkPRContext plan inp i of
                  Inl err \<Rightarrow> (Failing err, db0)
                | Inr (Some j) \<Rightarrow> (AtStep j True rb, db0)
                | Inr None \<Rightarrow> (if pl_recovered plan then visit_recovered else visit_live) plan inp i rv rb db0))"

text \<open>The steps after one that asked to skip the rest.\<close>

fun skip_rest :: "int \<Rightarrow> string option \<Rightarrow> step_env list \<Rightarrow> tables \<Rightarrow> bool \<times> tables" where
  "skip_rest ts owed [] db = (True, db)"
| "skip_rest ts owed (env # rest) db =
     (case refuseSkippedPRWithClosingIssues ts owed env db of
        Some db1 \<Rightarrow> (False, db1)
      | None \<Rightarrow> skip_rest ts owed rest (skip_step ts env db))"

fun skipRecoveredRemainder :: "int \<Rightarrow> string option \<Rightarrow> step_env list \<Rightarrow> tables \<Rightarrow> bool \<times> tables" where
  "skipRecoveredRemainder ts owed [] db = (True, db)"
| "skipRecoveredRemainder ts owed (env # rest) db =
     (case GetStepResult (se_id env) db of
        None \<Rightarrow> (False, db)
      | Some row \<Rightarrow>
          if sp_StepName row \<noteq> se_name env \<or> sp_Status row \<noteq> StepStatusPending \<and> sp_Status row \<noteq> StepStatusSkipped then (False, db)
          else if sp_Status row = StepStatusSkipped then skipRecoveredRemainder ts owed rest db
          else (case refuseSkippedPRWithClosingIssues ts owed env db of
                  Some db1 \<Rightarrow> (False, db1)
                | None \<Rightarrow> skipRecoveredRemainder ts owed rest (skip_step ts env db)))"

definition after_step :: "run_plan \<Rightarrow> visit_input \<Rightarrow> nat \<Rightarrow> bool \<Rightarrow> StepName \<Rightarrow> verdict \<Rightarrow> tables \<Rightarrow> run_state \<times> tables" where
  "after_step plan inp i rv rb v db =
     (let name = plan_names plan ! i in
      case v of
        Returned skip target \<Rightarrow>
          if target = [] \<and> test_unsupported plan name db then (Failing ''review support'', db)
          else if skip
          then (case (if pl_recovered plan then skipRecoveredRemainder else skip_rest) (vi_ts inp) (vi_closing inp) (drop (Suc i) (pl_steps plan)) db of
                  (True, db1) \<Rightarrow> (AtStep (length (pl_steps plan)) rv rb, db1)
                | (False, db1) \<Rightarrow> (Failing ''skip the rest'', db1))
          else if target \<noteq> []
          then (case prepareRestart plan target i db of
                  None \<Rightarrow> (Failing ''invalid restart boundary'', db)
                | Some (j, db1) \<Rightarrow> (AtStep j True name, db1))
          else (AtStep (Suc i) rv rb, db)
      | Stopped err \<Rightarrow> (Failing err, db)
      | ParkedAtShutdown \<Rightarrow> (Failing (leaf_text ErrParkedAtShutdown), db)
      | InterruptedMonitor \<Rightarrow> (Failing (leaf_text ErrCIMonitorInterruptedAtShutdown), db)
      | _ \<Rightarrow> (Failing [], db))"

text \<open>After the last step: the refresh of Test evidence, the CI boundary of the review support, and the completion.\<close>

definition settle_run :: "run_plan \<Rightarrow> int \<Rightarrow> string option \<Rightarrow> completion_probe \<Rightarrow> Run \<Rightarrow> tables \<Rightarrow> run_state \<times> tables" where
  "settle_run plan ts refresh q r db =
     (case refresh of
        Some err \<Rightarrow> (Failing err, db)
      | None \<Rightarrow>
          if validateReviewSupportOwners (pl_run plan) StepCI db \<noteq> None then (Failing ''review support'', db)
          else (case completeRun (pl_env plan) ts q r db of (c, db1) \<Rightarrow> (Ran c, db1)))"

section \<open>The run as a transition system\<close>

text \<open>
  Between two parts other writers leave the rows of the steps that are behind the run alone, and so does the guard: it resets
  nothing before the boundary it reports. \<open>progress\<close> is how far the run is.
\<close>

definition restart_bound :: "run_plan \<Rightarrow> nat \<Rightarrow> StepName \<Rightarrow> nat" where
  "restart_bound plan i target = (case stepIndex (plan_names plan) target of None \<Rightarrow> 0 | Some j \<Rightarrow> min i j)"

fun progress :: "run_plan \<Rightarrow> run_state \<Rightarrow> nat" where
  "progress plan (AtStep i rv rb) = i"
| "progress plan (InStep i rv rb (Ended (Returned skip target))) = (if target = [] then Suc i else restart_bound plan i target)"
| "progress plan (InStep i rv rb ph) = i"
| "progress plan (Failing err) = 0"
| "progress plan (Ran c) = length (pl_steps plan)"

text \<open>A run that has not failed.\<close>

fun standing :: "run_state \<Rightarrow> bool" where
  "standing (Failing err) = False"
| "standing (Ran (Completed m)) = True"
| "standing (Ran c) = False"
| "standing st = True"

fun in_plan :: "run_plan \<Rightarrow> run_state \<Rightarrow> bool" where
  "in_plan plan (AtStep i rv rb) \<longleftrightarrow> i \<le> length (pl_steps plan)"
| "in_plan plan (InStep i rv rb ph) \<longleftrightarrow> i < length (pl_steps plan)"
| "in_plan plan st \<longleftrightarrow> True"

fun going :: "run_state \<Rightarrow> bool" where
  "going (Failing err) = False"
| "going (Ran c) = False"
| "going st = True"

definition keeps_rows :: "run_plan \<Rightarrow> nat \<Rightarrow> tables \<Rightarrow> tables \<Rightarrow> bool" where
  "keeps_rows plan k db db' \<longleftrightarrow>
     (\<forall>env \<in> set (pl_steps plan). map_option fst (mark (se_id env) db') = map_option fst (mark (se_id env) db)) \<and>
     (\<forall>env \<in> set (take k (pl_steps plan)). mark (se_id env) db' = mark (se_id env) db)"

fun guard_bound :: "run_plan \<Rightarrow> nat \<Rightarrow> verdict \<Rightarrow> nat" where
  "guard_bound plan i (Returned skip target) = (if target = [] then i else restart_bound plan i target)"
| "guard_bound plan i v = i"

definition known_rows :: "run_plan \<Rightarrow> tables \<Rightarrow> bool" where
  "known_rows plan db \<longleftrightarrow> (\<forall>env \<in> set (pl_steps plan). \<exists>st. mark (se_id env) db = Some ((pl_run plan, int (Order (se_name env))), st))"

definition settled_upto :: "run_plan \<Rightarrow> nat \<Rightarrow> tables \<Rightarrow> bool" where
  "settled_upto plan k db \<longleftrightarrow> known_rows plan db \<and> (\<forall>env \<in> set (take k (pl_steps plan)). settled_row (se_id env) db)"

inductive plan_run :: "run_plan \<Rightarrow> run_state \<times> tables \<Rightarrow> bool" for plan where
  Start: "\<forall>env \<in> set (pl_steps plan). mark (se_id env) db = None \<Longrightarrow> record_steps plan ts owed (pl_steps plan) db = (True, db') \<Longrightarrow>
    plan_run plan (AtStep 0 False [], db')"
| Resume: "pl_recovered plan \<Longrightarrow> settled_upto plan i db \<Longrightarrow> i \<le> length (pl_steps plan) \<Longrightarrow> plan_run plan (AtStep i (rb \<noteq> []) rb, db)"
| World: "plan_run plan (st, db) \<Longrightarrow> going st \<Longrightarrow> keeps_rows plan (progress plan st) db db' \<Longrightarrow> plan_run plan (st, db')"
| Visit: "plan_run plan (AtStep i rv rb, db) \<Longrightarrow> i < length (pl_steps plan) \<Longrightarrow>
    keeps_rows plan (case checkPRContext plan inp i of Inr (Some j) \<Rightarrow> j | _ \<Rightarrow> i) db db0 \<Longrightarrow>
    visit plan inp i rv rb db db0 = (st, db') \<Longrightarrow> plan_run plan (st, db')"
| Round: "plan_run plan (InStep i rv rb (Running lp), db) \<Longrightarrow> guard_names (ri_guard rin) \<Longrightarrow> keeps_rows plan (guard_bound plan i v) db db0 \<Longrightarrow>
    run_round (pl_steps plan ! i) rin lp db0 = (v, db') \<Longrightarrow> plan_run plan (InStep i rv rb (phase_of v), db')"
| Answer: "plan_run plan (InStep i rv rb (Gated lp effective), db) \<Longrightarrow> guard_names (gi_guard gin) \<Longrightarrow>
    keeps_rows plan (guard_bound plan i v) db db0 \<Longrightarrow>
    answer_gate (pl_steps plan ! i) gin effective lp db0 = (v, db') \<Longrightarrow> plan_run plan (InStep i rv rb (phase_of v), db')"
| Finish: "plan_run plan (InStep i rv rb (Finishing lp), db) \<Longrightarrow>
    finish_step (pl_steps plan ! i) din lp db = (v, db') \<Longrightarrow> plan_run plan (InStep i rv rb (Ended v), db')"
| Return: "plan_run plan (InStep i rv rb (Ended v), db) \<Longrightarrow>
    (\<And>skip target. v = Returned skip target \<Longrightarrow> \<not> (skip \<and> target \<noteq> []) \<and> \<not> IsCustomGate target) \<Longrightarrow>
    after_step plan inp i rv rb v db = (st, db') \<Longrightarrow> plan_run plan (st, db')"
| Settle: "plan_run plan (AtStep i rv rb, db) \<Longrightarrow> i \<ge> length (pl_steps plan) \<Longrightarrow>
    settle_run plan ts refresh q r db = (st, db') \<Longrightarrow> plan_run plan (st, db')"

text \<open>A plan: one row for each step, core steps in their order, custom gates anywhere after a step of their order.\<close>

definition plan_ok :: "run_plan \<Rightarrow> bool" where
  "plan_ok plan \<longleftrightarrow> distinct (map se_id (pl_steps plan)) \<and> re_run (pl_env plan) = pl_run plan \<and>
     (\<forall>env \<in> set (pl_steps plan). se_run env = pl_run plan) \<and>
     (\<forall>j < length (pl_steps plan). \<not> IsCustomGate (plan_names plan ! j) \<longrightarrow>
        (\<forall>a < j. Order (plan_names plan ! a) < Order (plan_names plan ! j)))"

lemma stepIndex_Some: "stepIndex names n = Some j \<Longrightarrow> j < length names \<and> names ! j = n"
  unfolding stepIndex_def Let_def
  by (auto split: if_split_asm dest: nth_length_takeWhile)

lemma keeps_settled: "settled_upto plan k db \<Longrightarrow> k' \<le> k \<Longrightarrow> keeps_rows plan k' db db' \<Longrightarrow> settled_upto plan k' db'"
proof -
  assume a: "settled_upto plan k db" "k' \<le> k" "keeps_rows plan k' db db'"
  have "known_rows plan db'"
    unfolding known_rows_def
  proof
    fix env assume e: "env \<in> set (pl_steps plan)"
    then obtain st where "mark (se_id env) db = Some ((pl_run plan, int (Order (se_name env))), st)"
      using a(1) by (auto simp: settled_upto_def known_rows_def)
    then have "map_option fst (mark (se_id env) db') = Some (pl_run plan, int (Order (se_name env)))"
      using a(3) e by (simp add: keeps_rows_def)
    then show "\<exists>st. mark (se_id env) db' = Some ((pl_run plan, int (Order (se_name env))), st)" by auto
  qed
  moreover have "settled_row (se_id env) db'" if "env \<in> set (take k' (pl_steps plan))" for env
  proof -
    have "env \<in> set (take k (pl_steps plan))" by (rule subsetD [OF set_take_subset_set_take [OF a(2)] that])
    then show ?thesis using a(1,3) that by (auto simp: settled_upto_def keeps_rows_def settled_row_def)
  qed
  ultimately show ?thesis by (simp add: settled_upto_def)
qed

lemma only_keeps:
  assumes "plan_ok plan" "i < length (pl_steps plan)" "steps_only (se_id (pl_steps plan ! i)) db db'"
  shows "keeps_rows plan i db db'"
proof -
  have "se_id env \<noteq> se_id (pl_steps plan ! i)" if e: "env \<in> set (take i (pl_steps plan))" for env
  proof -
    obtain a where "a < length (take i (pl_steps plan))" "take i (pl_steps plan) ! a = env"
      using e [unfolded in_set_conv_nth] by blast
    then have a: "a < i" "env = pl_steps plan ! a" by simp_all
    then show ?thesis using assms(1,2) by (auto simp: plan_ok_def distinct_conv_nth)
  qed
  then show ?thesis using assms(3) by (simp add: keeps_rows_def only_def)
qed

lemma settled_Suc:
  assumes "settled_upto plan i db" "i < length (pl_steps plan)" "settled_row (se_id (pl_steps plan ! i)) db"
  shows "settled_upto plan (Suc i) db"
  using assms by (simp add: settled_upto_def take_Suc_conv_app_nth)

lemma bounded_restart: "restart_bound plan i target \<le> i"
  by (simp add: restart_bound_def split: option.split)

lemma settled_keeps:
  assumes "plan_ok plan" "settled_upto plan k db" "i \<le> k" "i < length (pl_steps plan)" "steps_only (se_id (pl_steps plan ! i)) db db'"
  shows "settled_upto plan i db'"
  using keeps_settled [OF assms(2,3) only_keeps [OF assms(1,4,5)]] .

text \<open>A restart resets only rows from its boundary on.\<close>

lemma reset_keeps:
  assumes "plan_ok plan" "settled_upto plan k db" "j \<le> k" "j < length (pl_steps plan)" "\<not> IsCustomGate (plan_names plan ! j)"
  shows "settled_upto plan j (ResetStepsFrom (pl_run plan) (int (Order (plan_names plan ! j))) db)"
proof -
  define db' where "db' = ResetStepsFrom (pl_run plan) (int (Order (plan_names plan ! j))) db"
  define hit where "hit = (\<lambda>r :: StepResult. sp_RunID r = pl_run plan \<and> sp_StepOrder r \<ge> int (Order (plan_names plan ! j)) \<and> sp_Status r \<noteq> StepStatusSkipped)"
  have steps: "tb_steps db' = sql_update hit reset_step (tb_steps db)"
    by (simp add: db'_def ResetStepsFrom_def Let_def clear_strict_ready_def hit_def)
  have marks: "mark_in a (tb_steps db') = map_option (\<lambda>s. ((sp_RunID s, sp_StepOrder s), if hit s then StepStatusPending else sp_Status s))
      (sql_first (\<lambda>s. sp_ID s = a) (tb_steps db))" for a
  proof (cases "sql_first (\<lambda>s. sp_ID s = a) (tb_steps db)")
    case (Some s)
    then show ?thesis by (simp add: mark_in_def steps find_update reset_step_def)
  qed (simp add: mark_in_def steps find_update reset_step_def)
  have "keeps_rows plan j db db'"
    unfolding keeps_rows_def
  proof (intro conjI ballI)
    fix env assume "env \<in> set (pl_steps plan)"
    show "map_option fst (mark (se_id env) db') = map_option fst (mark (se_id env) db)"
      by (simp add: marks) (simp add: mark_in_def option.map_comp comp_def)
  next
    fix env assume e: "env \<in> set (take j (pl_steps plan))"
    obtain a where "a < length (take j (pl_steps plan))" "take j (pl_steps plan) ! a = env"
      using e [unfolded in_set_conv_nth] by blast
    then have a: "a < j" "pl_steps plan ! a = env" by simp_all
    then have "Order (se_name env) < Order (plan_names plan ! j)"
      using assms(1,4,5) by (auto simp: plan_ok_def)
    moreover obtain st where "mark (se_id env) db = Some ((pl_run plan, int (Order (se_name env))), st)"
      using assms(2) in_set_takeD [OF e] by (auto simp: settled_upto_def known_rows_def)
    ultimately show "mark (se_id env) db' = mark (se_id env) db"
      unfolding marks by (auto simp: mark_in_def hit_def)
  qed
  then show ?thesis unfolding db'_def [symmetric] by (rule keeps_settled [OF assms(2,3)])
qed

lemma skip_step_only: "steps_only (se_id env) db (skip_step ts env db)"
  by (simp add: skip_step_def only_writes)

lemma refuse_only: "refuseSkippedPRWithClosingIssues ts owed env db = Some db' \<Longrightarrow> steps_only (se_id env) db db'"
  by (auto simp: refuseSkippedPRWithClosingIssues_def only_writes split: if_split_asm)

lemma skip_step_settled: "mark (se_id env) db \<noteq> None \<Longrightarrow> settled_row (se_id env) (skip_step ts env db)"
  by (simp add: skip_step_def CompleteStepWithStatus_def completed_settled)

lemma known_mark: "settled_upto plan k db \<Longrightarrow> env \<in> set (pl_steps plan) \<Longrightarrow> \<exists>st. mark (se_id env) db = Some ((pl_run plan, int (Order (se_name env))), st)"
  by (simp add: settled_upto_def known_rows_def)

lemma skipped_next:
  assumes "plan_ok plan" "settled_upto plan i db" "i < length (pl_steps plan)"
  shows "settled_upto plan (Suc i) (skip_step ts (pl_steps plan ! i) db)"
proof (rule settled_Suc [OF _ assms(3)])
  show "settled_upto plan i (skip_step ts (pl_steps plan ! i) db)"
    using settled_keeps [OF assms(1,2) order_refl assms(3) skip_step_only] .
  have "pl_steps plan ! i \<in> set (pl_steps plan)" using assms(3) by simp
  then show "settled_row (se_id (pl_steps plan ! i)) (skip_step ts (pl_steps plan ! i) db)"
    using known_mark [OF assms(2)] by (intro skip_step_settled) fastforce
qed

lemma already_skipped:
  assumes "settled_upto plan i db" "i < length (pl_steps plan)" "GetStepResult (se_id (pl_steps plan ! i)) db = Some row" "sp_Status row = StepStatusSkipped"
  shows "settled_upto plan (Suc i) db"
  using settled_Suc [OF assms(1,2)] assms(3,4) by (auto simp: settled_row_def mark_in_def GetStepResult_def)

lemma rest_settled:
  assumes "plan_ok plan" "settled_upto plan i db" "i \<le> length (pl_steps plan)"
    and "(if recovered then skipRecoveredRemainder else skip_rest) ts owed (drop i (pl_steps plan)) db = (True, db')"
  shows "settled_upto plan (length (pl_steps plan)) db'"
  using assms(2-4)
proof (induction "length (pl_steps plan) - i" arbitrary: i db)
  case 0
  then show ?case by (simp split: if_split_asm)
next
  case (Suc n)
  then have i: "i < length (pl_steps plan)" by simp
  define env where "env = pl_steps plan ! i"
  have drop: "drop i (pl_steps plan) = env # drop (Suc i) (pl_steps plan)" using i by (simp add: env_def Cons_nth_drop_Suc)
  have next_db: "(if recovered then skipRecoveredRemainder else skip_rest) ts owed (drop (Suc i) (pl_steps plan)) (skip_step ts env db) = (True, db')
    \<or> (if recovered then skipRecoveredRemainder else skip_rest) ts owed (drop (Suc i) (pl_steps plan)) db = (True, db') \<and>
      (\<exists>row. GetStepResult (se_id env) db = Some row \<and> sp_Status row = StepStatusSkipped)"
    using Suc.prems(3) unfolding drop by (auto split: option.split_asm if_split_asm)
  then show ?case
  proof
    assume run: "(if recovered then skipRecoveredRemainder else skip_rest) ts owed (drop (Suc i) (pl_steps plan)) (skip_step ts env db) = (True, db')"
    have "settled_upto plan (Suc i) (skip_step ts env db)" unfolding env_def by (rule skipped_next [OF assms(1) Suc.prems(1) i])
    then show ?thesis using Suc.hyps(1) [of "Suc i"] Suc.hyps(2) i run by simp
  next
    assume run: "(if recovered then skipRecoveredRemainder else skip_rest) ts owed (drop (Suc i) (pl_steps plan)) db = (True, db') \<and>
        (\<exists>row. GetStepResult (se_id env) db = Some row \<and> sp_Status row = StepStatusSkipped)"
    then have "settled_upto plan (Suc i) db" using already_skipped [OF Suc.prems(1) i] by (auto simp: env_def)
    then show ?thesis using Suc.hyps(1) [of "Suc i" db] Suc.hyps(2) i run by simp
  qed
qed

section \<open>Every part keeps the steps behind it settled\<close>

definition run_ok :: "run_plan \<Rightarrow> run_state \<times> tables \<Rightarrow> bool" where
  "run_ok plan c \<longleftrightarrow> (standing (fst c) \<longrightarrow> in_plan plan (fst c) \<and> settled_upto plan (progress plan (fst c)) (snd c))"

lemma run_okI: "(standing st \<Longrightarrow> in_plan plan st \<and> settled_upto plan (progress plan st) db) \<Longrightarrow> run_ok plan (st, db)"
  by (simp add: run_ok_def)

lemma run_ok_failing [simp]: "run_ok plan (Failing err, db)"
  by (simp add: run_ok_def)

lemma inserted_mark:
  "mark_in j (rows @ [r]) = (case mark_in j rows of None \<Rightarrow> if sp_ID r = j then Some ((sp_RunID r, sp_StepOrder r), sp_Status r) else None | m \<Rightarrow> m)"
  by (induction rows) (auto simp: mark_in_def sql_first_def)

lemma only_known: "steps_only i db db' \<Longrightarrow> map_option fst (mark j db') = map_option fst (mark j db)"
  by (simp add: only_def)

lemma recorded_known:
  assumes "record_steps plan ts owed envs db = (True, db')" "distinct (map se_id envs)" "\<forall>env \<in> set envs. mark (se_id env) db = None"
  shows "(\<forall>env \<in> set envs. map_option fst (mark (se_id env) db') = Some (pl_run plan, int (Order (se_name env)))) \<and>
    (\<forall>j. j \<notin> se_id ` set envs \<longrightarrow> map_option fst (mark j db') = map_option fst (mark j db))"
  using assms
proof (induction envs arbitrary: db)
  case (Cons env rest)
  define db1 where "db1 = InsertStepResult (se_id env) (pl_run plan) (se_name env) db"
  have ins: "mark j db1 = (if j = se_id env then Some ((pl_run plan, int (Order (se_name env))), StepStatusPending) else mark j db)" for j
    using Cons.prems(3) by (simp add: db1_def InsertStepResult_def inserted_mark split: option.split)
  obtain db2 where db2: "record_steps plan ts owed rest db2 = (True, db')" "db2 = db1 \<or> db2 = skip_step ts env db1"
    using Cons.prems(1) by (auto simp: Let_def db1_def split: if_split_asm option.split_asm)
  have same: "map_option fst (mark j db2) = map_option fst (mark j db1)" for j
    using db2(2) only_known [OF skip_step_only] by auto
  have "\<forall>e \<in> set rest. mark (se_id e) db2 = None"
  proof
    fix e assume e: "e \<in> set rest"
    then have "se_id e \<noteq> se_id env" using Cons.prems(2) by (auto simp: image_iff)
    then have "mark (se_id e) db1 = None" using ins Cons.prems(3) e by simp
    then show "mark (se_id e) db2 = None" using same [of "se_id e"] by simp
  qed
  from Cons.IH [OF db2(1) _ this] Cons.prems(2) show ?case
    using same ins by auto
qed simp

lemma start_ok:
  assumes "plan_ok plan" "\<forall>env \<in> set (pl_steps plan). mark (se_id env) db = None" "record_steps plan ts owed (pl_steps plan) db = (True, db')"
  shows "run_ok plan (AtStep 0 False [], db')"
proof -
  have "distinct (map se_id (pl_steps plan))" using assms(1) by (simp add: plan_ok_def)
  from recorded_known [OF assms(3) this assms(2)] have "known_rows plan db'"
    by (auto simp: known_rows_def)
  then show ?thesis by (simp add: run_ok_def settled_upto_def)
qed

lemma begin_step_ok:
  assumes "plan_ok plan" "settled_upto plan i db" "i < length (pl_steps plan)" "enter_step plan inp i rv rb db = (st, db')"
  shows "run_ok plan (st, db')"
proof -
  have "steps_only (se_id (pl_steps plan ! i)) db (enter_rows ts (pl_steps plan ! i) s db)" for ts s
    by (simp add: enter_rows_def Let_def only_writes)
  then have "settled_upto plan i (enter_rows ts (pl_steps plan ! i) s db)" for ts s
    by (rule settled_keeps [OF assms(1,2) order_refl assms(3)])
  then show ?thesis using assms(3,4) by (auto simp: enter_step_def Let_def run_ok_def)
qed

lemma visit_live_ok:
  assumes "plan_ok plan" "settled_upto plan i db" "i < length (pl_steps plan)" "visit_live plan inp i rv rb db = (st, db')"
  shows "run_ok plan (st, db')"
proof (cases "\<exists>err. st = Failing err")
  case False
  consider "enter_step plan inp i rv rb db = (st, db')" | "st = AtStep (Suc i) rv rb" "db' = skip_step (vi_ts inp) (pl_steps plan ! i) db"
    using assms(4) False by (auto simp: visit_live_def Let_def split: option.split_asm if_split_asm)
  then show ?thesis
  proof cases
    case 1
    then show ?thesis by (rule begin_step_ok [OF assms(1-3)])
  next
    case 2
    then show ?thesis using skipped_next [OF assms(1-3)] assms(3) by (simp add: run_ok_def)
  qed
qed auto

lemma visit_recovered_ok:
  assumes "plan_ok plan" "settled_upto plan i db" "i < length (pl_steps plan)" "visit_recovered plan inp i rv rb db = (st, db')"
  shows "run_ok plan (st, db')"
proof (cases "\<exists>err. st = Failing err")
  case False
  consider "enter_step plan inp i rv rb db = (st, db')"
    | row where "st = AtStep (Suc i) rv rb" "db' = db" "GetStepResult (se_id (pl_steps plan ! i)) db = Some row" "sp_Status row = StepStatusSkipped"
    using assms(4) False by (auto simp: visit_recovered_def Let_def split: option.split_asm if_split_asm)
  then show ?thesis
  proof cases
    case 1
    then show ?thesis by (rule begin_step_ok [OF assms(1-3)])
  next
    case 2
    then show ?thesis using already_skipped [OF assms(2,3) 2(3,4)] assms(3) by (simp add: run_ok_def)
  qed
qed auto

lemma asked_back: "checkPRContext plan inp i = Inr (Some j) \<Longrightarrow> j \<le> i"
  by (auto simp: checkPRContext_def Let_def split: if_split_asm sum.split_asm option.split_asm)

lemma visit_ok:
  assumes "plan_ok plan" "run_ok plan (AtStep i rv rb, db)" "i < length (pl_steps plan)"
    and "keeps_rows plan (case checkPRContext plan inp i of Inr (Some j) \<Rightarrow> j | _ \<Rightarrow> i) db db0" "visit plan inp i rv rb db db0 = (st, db')"
  shows "run_ok plan (st, db')"
proof (cases "\<exists>err. st = Failing err")
  case False
  have settled: "settled_upto plan i db" using assms(2) by (simp add: run_ok_def)
  consider j where "checkPRContext plan inp i = Inr (Some j)" "st = AtStep j True rb" "db' = db0"
    | "checkPRContext plan inp i = Inr None" "visit_recovered plan inp i rv rb db0 = (st, db') \<or> visit_live plan inp i rv rb db0 = (st, db')"
    using assms(5) False by (auto simp: visit_def split: option.split_asm if_split_asm sum.split_asm)
  then show ?thesis
  proof cases
    case 1
    then have "settled_upto plan j db0" using keeps_settled [OF settled asked_back] assms(4) by simp
    then show ?thesis using 1 asked_back [OF 1(1)] assms(3) by (simp add: run_ok_def)
  next
    case 2
    then have "settled_upto plan i db0" using keeps_settled [OF settled order_refl] assms(4) by simp
    then show ?thesis using 2(2) visit_live_ok [OF assms(1) _ assms(3)] visit_recovered_ok [OF assms(1) _ assms(3)] by blast
  qed
qed auto

lemma known_step: "settled_upto plan k db \<Longrightarrow> i < length (pl_steps plan) \<Longrightarrow> plan_ok plan \<Longrightarrow>
    \<exists>n st. mark (se_id (pl_steps plan ! i)) db = Some ((se_run (pl_steps plan ! i), n), st)"
  using known_mark [of plan k db "pl_steps plan ! i"] by (auto simp: plan_ok_def)

lemma settled_lower:
  assumes "plan_ok plan" "i < length (pl_steps plan)" "settled_upto plan k db" "k \<le> i" "steps_only (se_id (pl_steps plan ! i)) db db'"
  shows "settled_upto plan k db'"
proof -
  have "keeps_rows plan k db db'"
    using only_keeps [OF assms(1,2,5)] set_take_subset_set_take [OF assms(4), of "pl_steps plan"]
    unfolding keeps_rows_def by blast
  then show ?thesis by (rule keeps_settled [OF assms(3) order_refl])
qed

text \<open>A part of a step: \<open>far\<close> is what the guard left alone.\<close>

lemma part_ok:
  assumes "plan_ok plan" "i < length (pl_steps plan)" "settled_upto plan far db0" "far \<le> i"
    and "steps_only (se_id (pl_steps plan ! i)) db0 db'"
    and "\<And>skip target. v = Returned skip target \<Longrightarrow> if target = [] then far = i \<and> settled_row (se_id (pl_steps plan ! i)) db'
      else far = restart_bound plan i target"
    and "(\<And>skip target. v \<noteq> Returned skip target) \<Longrightarrow> far = i"
    and ph: "ph = phase_of v \<or> ph = Ended v"
  shows "run_ok plan (InStep i rv rb ph, db')"
proof (cases "\<exists>skip target. v = Returned skip target")
  case True
  then obtain skip target where v: "v = Returned skip target" by auto
  have db': "settled_upto plan far db'" by (rule settled_lower [OF assms(1-5)])
  then have "settled_upto plan (progress plan (InStep i rv rb ph)) db'"
    using assms(6) [OF v] settled_Suc [OF _ assms(2)] ph by (auto simp: v split: if_split_asm)
  then show ?thesis using assms(2) by (simp add: run_ok_def)
next
  case False
  then have "far = i" using assms(7) by blast
  then have db': "settled_upto plan i db'" using settled_lower [OF assms(1-5)] by simp
  have "progress plan (InStep i rv rb ph) = i" using False ph by (cases v) auto
  then show ?thesis using db' assms(2) by (simp add: run_ok_def)
qed

lemma run_ok_in: "run_ok plan (InStep i rv rb ph, db) \<Longrightarrow> i < length (pl_steps plan) \<and> settled_upto plan (progress plan (InStep i rv rb ph)) db"
  by (simp add: run_ok_def)

lemma guard_bound_le: "guard_bound plan i v \<le> i"
  by (cases v) (auto simp: bounded_restart)

lemma guard_kept:
  assumes "settled_upto plan i db" "keeps_rows plan (guard_bound plan i v) db db0"
  shows "settled_upto plan (guard_bound plan i v) db0"
  using keeps_settled [OF assms(1) guard_bound_le assms(2)] .

lemma round_ok:
  assumes "plan_ok plan" "run_ok plan (InStep i rv rb (Running lp), db)" "guard_names (ri_guard rin)"
    and "keeps_rows plan (guard_bound plan i v) db db0" "run_round (pl_steps plan ! i) rin lp db0 = (v, db')"
  shows "run_ok plan (InStep i rv rb (phase_of v), db')"
proof -
  have i: "i < length (pl_steps plan)" "settled_upto plan i db" using run_ok_in [OF assms(2)] by simp_all
  show ?thesis
  proof (rule part_ok [OF assms(1) i(1) guard_kept [OF i(2) assms(4)] guard_bound_le only_run_round [OF assms(5)]])
    fix skip target assume v: "v = Returned skip target"
    then have "target \<noteq> []" using run_round_returns [OF _ assms(3)] assms(5) by simp
    then show "if target = [] then guard_bound plan i v = i \<and> settled_row (se_id (pl_steps plan ! i)) db'
        else guard_bound plan i v = restart_bound plan i target" by (simp add: v)
  next
    assume "\<And>skip target. v \<noteq> Returned skip target"
    then show "guard_bound plan i v = i" by (cases v) auto
  qed simp
qed

lemma answer_ok:
  assumes "plan_ok plan" "run_ok plan (InStep i rv rb (Gated lp effective), db)" "guard_names (gi_guard gin)"
    and "keeps_rows plan (guard_bound plan i v) db db0" "answer_gate (pl_steps plan ! i) gin effective lp db0 = (v, db')"
  shows "run_ok plan (InStep i rv rb (phase_of v), db')"
proof -
  have i: "i < length (pl_steps plan)" "settled_upto plan i db" using run_ok_in [OF assms(2)] by simp_all
  have far: "settled_upto plan (guard_bound plan i v) db0" by (rule guard_kept [OF i(2) assms(4)])
  have known: "mark (se_id (pl_steps plan ! i)) db0 \<noteq> None" using known_step [OF far i(1) assms(1)] by auto
  show ?thesis
  proof (rule part_ok [OF assms(1) i(1) far guard_bound_le only_answer_gate [OF assms(5)]])
    fix skip target assume v: "v = Returned skip target"
    have "if target = [] then settled_row (se_id (pl_steps plan ! i)) db' else \<not> skip"
      using answer_returns [OF assms(5) [unfolded v] assms(3) known] .
    then show "if target = [] then guard_bound plan i v = i \<and> settled_row (se_id (pl_steps plan ! i)) db'
        else guard_bound plan i v = restart_bound plan i target" by (simp add: v)
  next
    assume "\<And>skip target. v \<noteq> Returned skip target"
    then show "guard_bound plan i v = i" by (cases v) auto
  qed simp
qed

lemma finish_ok:
  assumes "plan_ok plan" "run_ok plan (InStep i rv rb (Finishing lp), db)" "finish_step (pl_steps plan ! i) din lp db = (v, db')"
  shows "run_ok plan (InStep i rv rb (Ended v), db')"
proof -
  have i: "i < length (pl_steps plan)" "settled_upto plan i db" using run_ok_in [OF assms(2)] by simp_all
  define far where "far = guard_bound plan i v"
  have far: "settled_upto plan far db" unfolding far_def by (rule guard_kept [OF i(2)]) (simp add: keeps_rows_def)
  obtain n st where known: "mark (se_id (pl_steps plan ! i)) db = Some ((se_run (pl_steps plan ! i), n), st)"
    using known_step [OF i(2,1) assms(1)] by auto
  show ?thesis
  proof (rule part_ok [OF assms(1) i(1) far _ only_finish_step [OF assms(3)]])
    show "far \<le> i" by (simp add: far_def guard_bound_le)
  next
    fix skip target assume v: "v = Returned skip target"
    show "if target = [] then far = i \<and> settled_row (se_id (pl_steps plan ! i)) db' else far = restart_bound plan i target"
      using finish_settled [OF _ known, of din lp skip db'] assms(3) by (cases "target = []") (simp_all add: v far_def)
  next
    assume "\<And>skip target. v \<noteq> Returned skip target"
    then show "far = i" unfolding far_def by (cases v) auto
  qed simp
qed

lemma restarted:
  assumes "prepareRestart plan target i db = Some (j, db')"
  shows "stepIndex (plan_names plan) target = Some j \<and> j < i \<and> db' = ResetStepsFrom (pl_run plan) (int (Order (plan_names plan ! j))) db"
  using assms by (auto simp: prepareRestart_def split: option.split_asm if_split_asm)

lemma return_ok:
  assumes "plan_ok plan" "run_ok plan (InStep i rv rb (Ended v), db)"
    and "\<And>skip target. v = Returned skip target \<Longrightarrow> \<not> (skip \<and> target \<noteq> []) \<and> \<not> IsCustomGate target"
    and "after_step plan inp i rv rb v db = (st, db')"
  shows "run_ok plan (st, db')"
proof (cases "\<exists>err. st = Failing err")
  case False
  note going_on = False and i = run_ok_in [OF assms(2)]
  obtain skip target where v: "v = Returned skip target"
    using assms(4) False by (cases v) (auto simp: after_step_def)
  show ?thesis
  proof (cases "target = []")
    case True
    then have settled: "settled_upto plan (Suc i) db" using i by (simp add: v)
    consider "skip" "st = AtStep (length (pl_steps plan)) rv rb"
        "(if pl_recovered plan then skipRecoveredRemainder else skip_rest) (vi_ts inp) (vi_closing inp) (drop (Suc i) (pl_steps plan)) db = (True, db')"
      | "st = AtStep (Suc i) rv rb" "db' = db"
      using assms(4) False True by (auto simp: after_step_def v Let_def split: if_split_asm prod.split_asm bool.split_asm)
    then show ?thesis
    proof cases
      case 1
      have "settled_upto plan (length (pl_steps plan)) db'"
        using rest_settled [OF assms(1) settled _ 1(3)] i by simp
      then show ?thesis using 1(2) by (simp add: run_ok_def)
    next
      case 2
      then show ?thesis using settled i by (simp add: run_ok_def)
    qed
  next
    case False
    then have "\<not> skip" "\<not> IsCustomGate target" using assms(3) [OF v] by simp_all
    then obtain j where j: "prepareRestart plan target i db = Some (j, db')" "st = AtStep j True (plan_names plan ! i)"
      using assms(4) False going_on by (auto simp: after_step_def v Let_def split: option.split_asm)
    note went = restarted [OF j(1)]
    have name: "plan_names plan ! j = target" "j < length (pl_steps plan)" using stepIndex_Some [of "plan_names plan" target j] went by simp_all
    have "settled_upto plan j db" using i went False by (simp add: v restart_bound_def)
    then have "settled_upto plan j db'"
      using reset_keeps [OF assms(1) _ order_refl name(2)] went name(1) \<open>\<not> IsCustomGate target\<close> by simp
    then show ?thesis using name(2) by (simp add: j(2) run_ok_def)
  qed
qed auto

section \<open>The completion\<close>

lemma completed_keeps:
  assumes "completeRun env ts q run db = (Completed m, db')"
  shows "tb_steps db' = tb_steps db" "\<exists>r. GetRun (re_run env) db' = Some r \<and> rn_Status r = RunCompleted"
proof -
  obtain r where r: "GetRun (re_run env) db = Some r" using assms by (auto simp: completeRun_def Let_def split: option.split_asm)
  show over: "\<exists>r. GetRun (re_run env) db' = Some r \<and> rn_Status r = RunCompleted"
    using assms by (auto simp: completeRun_def Let_def split: option.split_asm sum.split_asm if_split_asm)
  show "tb_steps db' = tb_steps db"
  proof (cases "RunStatus_Terminal (rn_Status r)")
    case True
    then show ?thesis using assms r by (simp add: completeRun_def Let_def)
  next
    case False
    obtain head where head: "verifyCompletionHead env q run db = Inr head"
      using assms False r by (cases "verifyCompletionHead env q run db") (auto simp: completeRun_def Let_def)
    have raw: "\<not> rawShutdownSuperseded (re_run env) db"
    proof
      assume raw: "rawShutdownSuperseded (re_run env) db"
      then obtain db2 where db2: "RecordIneligibleTerminal ts (re_run env) RawShutdownReason RunFailed (Some head) db = Some db2" "db' = db2"
        using assms r head False by (auto simp: completeRun_def Let_def split: option.split_asm)
      have "rn_Status r \<noteq> RunCancelled" using False by (auto simp: RunStatus_Terminal_def)
      then have "run_outcome (re_run env) db' = Some (RunFailed, Some RawShutdownReason)"
        using outcome_ineligible [OF db2(1), of "rn_Status r" "rn_Error r"] r by (simp add: run_outcome_def db2(2))
      then show False using over by (auto simp: run_outcome_def run_status_defs)
    qed
    show ?thesis using assms r head False raw by (auto simp: completeRun_def Let_def UpdateRunStatusWithVerifiedHead_def)
  qed
qed

lemma settle_ran:
  assumes "settle_run plan ts refresh q r db = (Ran (Completed m), db')"
  shows "validateReviewSupportOwners (pl_run plan) StepCI db = None" "completeRun (pl_env plan) ts q r db = (Completed m, db')"
  using assms by (auto simp: settle_run_def split: option.split_asm if_split_asm prod.split_asm)

lemma same_steps_settled: "settled_upto plan k db \<Longrightarrow> tb_steps db' = tb_steps db \<Longrightarrow> settled_upto plan k db'"
  by (simp add: settled_upto_def known_rows_def settled_row_def)

lemma settle_ok:
  assumes "run_ok plan (AtStep i rv rb, db)" "i \<ge> length (pl_steps plan)" "settle_run plan ts refresh q r db = (st, db')"
  shows "run_ok plan (st, db')"
proof (cases "\<exists>m. st = Ran (Completed m)")
  case True
  then obtain m where st: "st = Ran (Completed m)" by auto
  note fin = settle_ran(2) [OF assms(3) [unfolded st]]
  have "settled_upto plan (length (pl_steps plan)) db" using assms(1,2) by (auto simp: run_ok_def)
  then show ?thesis using same_steps_settled completed_keeps(1) [OF fin] by (simp add: st run_ok_def)
next
  case False
  then have "\<not> standing st" using assms(3)
    by (auto simp: settle_run_def split: option.split_asm if_split_asm prod.split_asm elim!: standing.elims)
  then show ?thesis by (simp add: run_ok_def)
qed

lemma plan_run_ok:
  assumes "plan_run plan c" "plan_ok plan"
  shows "run_ok plan c"
  using assms(1)
proof (induction rule: plan_run.induct)
  case (Start ts owed db db')
  then show ?case by (rule start_ok [OF assms(2)])
next
  case (Resume i db rb)
  then show ?case by (simp add: run_ok_def)
next
  case (World st db db')
  then show ?case using keeps_settled [OF _ order_refl] by (auto simp: run_ok_def)
next
  case (Visit i rv rb db inp db0 st db')
  then show ?case using visit_ok [OF assms(2)] by blast
next
  case (Round i rv rb lp db rin v db0 db')
  then show ?case using round_ok [OF assms(2)] by blast
next
  case (Answer i rv rb lp effective db gin v db0 db')
  then show ?case using answer_ok [OF assms(2)] by blast
next
  case (Finish i rv rb lp db din v db')
  then show ?case using finish_ok [OF assms(2)] by blast
next
  case (Return i rv rb v db inp st db')
  then show ?case using return_ok [OF assms(2) Return.IH] by blast
next
  case (Settle i rv rb db ts refresh q r st db')
  then show ?case using settle_ok by blast
qed

section \<open>Properties of the run\<close>

lemma settled_row_found:
  "settled_row i db \<longleftrightarrow> (\<exists>row. GetStepResult i db = Some row \<and> sp_Status row \<in> {StepStatusCompleted, StepStatusSkipped})"
  by (auto simp: settled_row_def mark_in_def GetStepResult_def)

lemma settled_nth:
  assumes "settled_upto plan k db" "j < k" "j < length (pl_steps plan)"
  shows "settled_row (se_id (pl_steps plan ! j)) db"
proof -
  have "take k (pl_steps plan) ! j \<in> set (take k (pl_steps plan))" by (rule nth_mem) (use assms(2,3) in simp)
  then show ?thesis using assms(1,2) by (simp add: settled_upto_def)
qed

text \<open>C27. A step of a run is at work only when every step before it in the plan is completed or skipped, whatever restarts, skips,
  gate answers and resets by the pull request guard the run has gone through.\<close>

theorem steps_in_order:
  assumes "plan_run plan (InStep i rv rb (Running lp), db)" "plan_ok plan"
  shows "i < length (pl_steps plan) \<and>
    (\<forall>j < i. \<exists>row. GetStepResult (se_id (pl_steps plan ! j)) db = Some row \<and> sp_Status row \<in> {StepStatusCompleted, StepStatusSkipped})"
proof -
  have i: "i < length (pl_steps plan)" "settled_upto plan i db" using run_ok_in [OF plan_run_ok [OF assms]] by simp_all
  then have "settled_row (se_id (pl_steps plan ! j)) db" if "j < i" for j by (intro settled_nth [OF i(2) that]) (use that in simp)
  then show ?thesis using i(1) by (simp add: settled_row_found)
qed

lemma visit_not_ran: "visit plan inp i rv rb db db0 \<noteq> (Ran c, db')"
  by (auto simp: visit_def visit_live_def visit_recovered_def enter_step_def Let_def
      split: option.split_asm sum.split_asm if_split_asm)

lemma after_step_not_ran: "after_step plan inp i rv rb v db \<noteq> (Ran c, db')"
  by (cases v) (auto simp: after_step_def Let_def split: option.split_asm prod.split_asm bool.split_asm if_split_asm)

inductive_cases ran_cases: "plan_run plan (Ran (Completed m), db)"

lemma ran_settled:
  assumes "plan_run plan (Ran (Completed m), db)"
  shows "\<exists>ts q r db0. validateReviewSupportOwners (pl_run plan) StepCI db0 = None \<and> completeRun (pl_env plan) ts q r db0 = (Completed m, db)"
  using assms by (rule ran_cases) (auto simp: visit_not_ran after_step_not_ran, use settle_ran in blast)

text \<open>C28. A run that reports its completion has every step of its plan completed or skipped, its row is completed, and the review
  support at the CI boundary was in order for rows of the database with these step rows when the completion was attempted.\<close>

theorem run_completes_settled:
  assumes "plan_run plan (Ran (Completed m), db)" "plan_ok plan"
  shows "(\<forall>env \<in> set (pl_steps plan). \<exists>row. GetStepResult (se_id env) db = Some row \<and> sp_Status row \<in> {StepStatusCompleted, StepStatusSkipped}) \<and>
    (\<exists>r. GetRun (pl_run plan) db = Some r \<and> rn_Status r = RunCompleted) \<and>
    (\<exists>db0. tb_steps db0 = tb_steps db \<and> validateReviewSupportOwners (pl_run plan) StepCI db0 = None)"
proof -
  obtain ts q r db0 where run: "validateReviewSupportOwners (pl_run plan) StepCI db0 = None" "completeRun (pl_env plan) ts q r db0 = (Completed m, db)"
    using ran_settled [OF assms(1)] by auto
  have "settled_upto plan (length (pl_steps plan)) db" using plan_run_ok [OF assms] by (simp add: run_ok_def)
  then have "\<forall>env \<in> set (pl_steps plan). settled_row (se_id env) db" by (simp add: settled_upto_def)
  moreover have "re_run (pl_env plan) = pl_run plan" using assms(2) by (simp add: plan_ok_def)
  ultimately show ?thesis using completed_keeps [OF run(2)] run(1) by (auto simp: settled_row_found)
qed

section \<open>The properties at a concrete run\<close>

definition sample_steps :: "step_env list" where
  "sample_steps =
     [\<lparr> se_name = StepIntent, se_id = ''a'', se_run = ''r'', se_limit = 0, se_log = [], se_provenance = None \<rparr>,
      \<lparr> se_name = StepReview, se_id = ''b'', se_run = ''r'', se_limit = 0, se_log = [], se_provenance = None \<rparr>]"

definition sample_plan :: "StepName list \<Rightarrow> run_plan" where
  "sample_plan skips = \<lparr> pl_run = ''r'', pl_steps = sample_steps, pl_skips = skips, pl_guarded = False, pl_env = sample_run_env,
     pl_resumes = 0, pl_recovered = False \<rparr>"

definition sample_visit :: visit_input where
  "sample_visit = \<lparr> vi_ts = 5, vi_cancelled = None, vi_guard = Inr [], vi_receipt = False, vi_closing = None, vi_evidence = 0,
     vi_run = sample_run \<rparr>"

definition row_of :: "string \<Rightarrow> StepName \<Rightarrow> bool \<Rightarrow> StepResult" where
  "row_of i name skipped =
     (let row = zero_step\<lparr>sp_ID := i, sp_RunID := ''r'', sp_StepName := name, sp_StepOrder := int (Order name), sp_Status := StepStatusPending\<rparr> in
      if skipped
      then row\<lparr>sp_Status := StepStatusSkipped, sp_ExitCode := Some 0, sp_DurationMS := Some 0, sp_LogPath := Some [], sp_CompletedAt := Some 5,
        sp_LastActivityAt := Some 5, sp_LastActivity := Some (status_activity StepStatusSkipped)\<rparr>
      else row)"

definition store_of :: "bool \<Rightarrow> tables" where
  "store_of skipped = sample_store\<lparr>tb_steps := [row_of ''a'' StepIntent True, row_of ''b'' StepReview skipped]\<rparr>"

lemma sample_plan_fields [simp]: "pl_run (sample_plan skips) = ''r''" "pl_steps (sample_plan skips) = sample_steps" "pl_skips (sample_plan skips) = skips"
  "pl_guarded (sample_plan skips) = False" "pl_env (sample_plan skips) = sample_run_env" "pl_resumes (sample_plan skips) = 0"
  "pl_recovered (sample_plan skips) = False"
  by (simp_all add: sample_plan_def)

lemma sample_names: "StepIntent \<noteq> StepPR" "StepReview \<noteq> StepPR" "StepIntent \<noteq> StepTest" "StepReview \<noteq> StepTest" "StepReview \<noteq> StepIntent"
  "StepStatusSkipped \<noteq> StepStatusPending" "StepStatusPending \<noteq> StepStatusSkipped" "StepStatusSkipped \<noteq> StepStatusCompleted"
  by code_simp+

lemma sample_plan_ok: "plan_ok (sample_plan skips)"
proof -
  have "Order StepIntent < Order StepReview" by code_simp
  then show ?thesis by (auto simp: plan_ok_def sample_steps_def sample_run_env_def less_Suc_eq numeral_2_eq_2)
qed

lemma sample_start:
  "record_steps (sample_plan [StepIntent]) 5 None sample_steps sample_store = (True, store_of False)"
  "record_steps (sample_plan [StepIntent, StepReview]) 5 None sample_steps sample_store = (True, store_of True)"
  by (simp_all add: sample_steps_def sample_store_def no_tables_def InsertStepResult_def refuseSkippedPRWithClosingIssues_def sample_names
      skip_step_def CompleteStepWithStatus_def completeStep_def store_of_def row_of_def Let_def sql_update_def zero_step_def)

lemma sample_fresh: "\<forall>env \<in> set (pl_steps (sample_plan skips)). mark (se_id env) sample_store = None"
  by (simp add: mark_in_def sql_first_def sample_store_def no_tables_def)

lemma plan_rows:
  "GetStepResult ''a'' (store_of s) = Some (row_of ''a'' StepIntent True)" "GetStepResult ''b'' (store_of s) = Some (row_of ''b'' StepReview s)"
  "sp_Status (row_of i n s) = (if s then StepStatusSkipped else StepStatusPending)"
  by (simp_all add: GetStepResult_def sql_first_def store_of_def row_of_def Let_def zero_step_def)

lemma plan_skip: "skip_step 5 (sample_steps ! 0) (store_of s) = store_of s" "skip_step 5 (sample_steps ! 1) (store_of True) = store_of True"
  by (simp_all add: sample_steps_def skip_step_def CompleteStepWithStatus_def completeStep_def store_of_def row_of_def Let_def sql_update_def zero_step_def)

lemma sample_visit_plain: "visit (sample_plan skips) sample_visit i rv rb db db' = visit_live (sample_plan skips) sample_visit i rv rb db'"
  by (simp add: visit_def sample_visit_def checkPRContext_def guard_asked_def)

lemma sample_visit_fields: "vi_ts sample_visit = 5" "vi_closing sample_visit = None" "rn_Shipping (vi_run sample_visit) = None"
  by (simp_all add: sample_visit_def sample_run_def zero_run_def)

lemma sample_visits:
  "visit (sample_plan skips) sample_visit 0 False [] db (store_of s) = (AtStep 1 False [], store_of s)"
  "visit (sample_plan [StepIntent, StepReview]) sample_visit 1 False [] db (store_of True) = (AtStep 2 False [], store_of True)"
  "visit (sample_plan [StepIntent]) sample_visit 1 False [] db (store_of False) = enter_step (sample_plan [StepIntent]) sample_visit 1 False [] (store_of False)"
  using plan_skip plan_rows
  unfolding sample_visit_plain visit_live_def
  by (simp_all add: sample_steps_def sample_names refuseSkippedPRWithClosingIssues_def test_unsupported_def sample_visit_fields Let_def)

lemma keeps_all [simp]: "keeps_rows plan k db db"
  by (simp add: keeps_rows_def)

lemma sample_first:
  "plan_run (sample_plan [StepIntent]) (AtStep 1 False [], store_of False)"
  "plan_run (sample_plan [StepIntent, StepReview]) (AtStep 2 False [], store_of True)"
proof -
  have len: "length sample_steps = 2" by (simp add: sample_steps_def)
  have one: "plan_run (sample_plan skips) (AtStep 1 False [], store_of s)"
    if "record_steps (sample_plan skips) 5 None sample_steps sample_store = (True, store_of s)" for skips s
  proof (rule plan_run.Visit)
    show "plan_run (sample_plan skips) (AtStep 0 False [], store_of s)" by (rule plan_run.Start [OF sample_fresh]) (use that in simp)
    show "visit (sample_plan skips) sample_visit 0 False [] (store_of s) (store_of s) = (AtStep 1 False [], store_of s)" by (rule sample_visits(1))
  qed (simp_all add: len)
  show "plan_run (sample_plan [StepIntent]) (AtStep 1 False [], store_of False)" by (rule one [OF sample_start(1)])
  show "plan_run (sample_plan [StepIntent, StepReview]) (AtStep 2 False [], store_of True)"
    by (rule plan_run.Visit [OF one [OF sample_start(2)] _ _ sample_visits(2)]) (simp_all add: len)
qed

text \<open>The first step is skipped on request and the review is at work.\<close>

theorem steps_in_order_witness:
  "\<exists>lp db. plan_run (sample_plan [StepIntent]) (InStep 1 False [] (Running lp), db) \<and>
     (\<exists>row. GetStepResult ''a'' db = Some row \<and> sp_Status row \<in> {StepStatusCompleted, StepStatusSkipped})"
proof -
  obtain lp db where enter: "enter_step (sample_plan [StepIntent]) sample_visit 1 False [] (store_of False) = (InStep 1 False [] (Running lp), db)"
    by (simp add: enter_step_def Let_def)
  have run: "plan_run (sample_plan [StepIntent]) (InStep 1 False [] (Running lp), db)"
    by (rule plan_run.Visit [OF sample_first(1) _ _ trans [OF sample_visits(3) enter]]) (simp_all add: sample_steps_def)
  have "se_id (pl_steps (sample_plan [StepIntent]) ! 0) = ''a''" by (simp add: sample_steps_def)
  then show ?thesis using steps_in_order [OF run sample_plan_ok] run by (auto dest: spec [of _ 0])
qed

lemma sample_ends:
  "\<exists>db. settle_run (sample_plan [StepIntent, StepReview]) 9 None sample_completion sample_run (store_of True) = (Ran (Completed False), db)"
proof -
  have trim: "TrimSpace ''h'' = ''h''" "TrimSpace ''w'' = ''w''" by (rule TrimSpace_plain, simp_all add: plain_byte_def byte_def)+
  have run: "GetRun ''r'' (store_of True) = Some sample_run" "tb_prContexts (store_of True) = tb_prContexts sample_store"
    using sample_row(1) by (simp_all add: store_of_def GetRun_def)
  have head: "verifyCompletionHead sample_run_env sample_completion sample_run (store_of True) = Inr ''h''"
    using trim run by (simp add: verifyCompletionHead_def preserveUnpublishedTerminalHead_def Let_def sample_run_env_def)
      (simp add: sample_run_def zero_run_def sample_store_def sample_completion_def deref_def)
  have raw: "\<not> rawShutdownSuperseded ''r'' (store_of True)"
    by (simp add: rawShutdownSuperseded_def store_of_def sample_store_def no_tables_def)
  have "by_name (GetStepsByRun ''r'' (store_of True)) StepReview = Some (row_of ''b'' StepReview True)"
    by (simp add: by_name_def GetStepsByRun_def store_of_def row_of_def Let_def sql_first_def zero_step_def)
  then have gate: "validateReviewSupportOwners ''r'' StepCI (store_of True) = None"
    by (simp add: validateReviewSupportOwners_def validateReviewSupportOwnersAtBoundary_def Let_def plan_rows(3) sample_names)
  have open_row: "\<not> RunStatus_Terminal RunRunning" by code_simp
  have "completeRun sample_run_env 9 sample_completion sample_run (store_of True) =
      (Completed False, UpdateRunStatusWithVerifiedHead 9 ''r'' RunCompleted ''h'' (store_of True))"
    using run head sample_row raw open_row
    by (simp add: completeRun_def Let_def sample_run_env_def UpdateRunStatusWithVerifiedHead_def GetRun_update with_status_def)
      (simp add: sample_run_def zero_run_def)
  then show ?thesis using gate by (simp add: settle_run_def)
qed

theorem run_completes_settled_witness:
  "\<exists>db. plan_run (sample_plan [StepIntent, StepReview]) (Ran (Completed False), db) \<and>
     (\<exists>row. GetStepResult ''b'' db = Some row \<and> sp_Status row \<in> {StepStatusCompleted, StepStatusSkipped}) \<and>
     (\<exists>r. GetRun ''r'' db = Some r \<and> rn_Status r = RunCompleted)"
proof -
  obtain db where ends: "settle_run (sample_plan [StepIntent, StepReview]) 9 None sample_completion sample_run (store_of True) = (Ran (Completed False), db)"
    using sample_ends by blast
  have run: "plan_run (sample_plan [StepIntent, StepReview]) (Ran (Completed False), db)"
    by (rule plan_run.Settle [OF sample_first(2) _ ends]) (simp add: sample_steps_def)
  show ?thesis using run_completes_settled [OF run sample_plan_ok] run by (auto simp: sample_steps_def)
qed

end
