(* ===== verification/StepRecovery.thy ===== *)
theory StepRecovery
  imports StepLoop
begin

text \<open>
  A restart of the daemon at a parked gate: the gate that \<open>recoveredGate\<close> of \<open>internal/pipeline/executor.go\<close> rebuilds
  from the rows the live loop left, and the round that follows its answer. The rounds of a step are followed through
  the loop as rows of the table.
\<close>

section \<open>The rounds of a step, as the loop records them\<close>

abbreviation "own_rounds env db \<equiv> GetRoundsByStep (se_id env) db"

definition auto_fixed :: "StepRound \<Rightarrow> bool" where
  "auto_fixed r \<longleftrightarrow> sr_SelectionSource r = Some RoundSelectionSourceAutoFix"

text \<open>The counters of the loop say what the recorded rounds say.\<close>

definition rounds_agree :: "step_env \<Rightarrow> loop \<Rightarrow> tables \<Rightarrow> bool" where
  "rounds_agree env lp db \<longleftrightarrow> distinct (map sr_ID (own_rounds env db)) \<and> [] \<notin> sr_ID ` set (own_rounds env db) \<and>
     lp_autoFixAttempts lp = int (length (filter auto_fixed (own_rounds env db))) \<and>
     (case rev (own_rounds env db) of
        [] \<Rightarrow> lp_roundNum lp = 0 \<and> lp_roundID lp = []
      | r # _ \<Rightarrow> lp_roundNum lp = sr_Round r \<and> lp_roundID lp = sr_ID r)"

definition parked_as :: "step_env \<Rightarrow> loop \<Rightarrow> string \<Rightarrow> tables \<Rightarrow> bool" where
  "parked_as env lp effective db \<longleftrightarrow>
     (\<exists>row. GetStepResult (se_id env) db = Some row \<and> sp_FindingsJSON row = nonempty effective \<and>
        sp_Status row = (if lp_fixing lp then StepStatusFixReview else StepStatusAwaitingApproval) \<and>
        sp_DurationMS row = Some (lp_executionMS lp)) \<and>
     (\<exists>r rest. rev (own_rounds env db) = r # rest \<and> \<not> auto_fixed r)"

text \<open>
  A run of the step within one comparison, from a state that agrees with the recorded rounds. Other writers leave the
  row of the step and its rounds alone, except that the answer of a gate decides its round and moves its row; an
  identifier of a round is new, and an automatic fix names the findings it repairs.
\<close>

definition decided :: "step_env \<Rightarrow> loop \<Rightarrow> tables \<Rightarrow> tables \<Rightarrow> bool" where
  "decided env lp db db' \<longleftrightarrow> own_rounds env db' = own_rounds env db \<or>
     (\<exists>ids user. own_rounds env db' = own_rounds env (SetStepRoundUserDecision_sql (lp_roundID lp) ids RoundSelectionSourceUser user db)) \<or>
     own_rounds env db' = own_rounds env (SetStepRoundDeclined_sql (lp_roundID lp) db)"

definition names_fixed :: "verdict \<Rightarrow> bool" where
  "names_fixed v \<longleftrightarrow> (\<forall>lp. v = Again AutoFixRound lp \<longrightarrow> findingIDsJSON (lp_previous lp) \<noteq> [])"

inductive own_run :: "step_env \<Rightarrow> phase \<times> tables \<Rightarrow> bool" for env where
  Enter: "rounds_agree env (enter_loop env s resumes ev run) db \<Longrightarrow> own_run env (Running (enter_loop env s resumes ev run), db)"
| World: "own_run env (ph, db) \<Longrightarrow> GetStepResult (se_id env) db' = GetStepResult (se_id env) db \<Longrightarrow>
    own_rounds env db' = own_rounds env db \<Longrightarrow> own_run env (ph, db')"
| Round: "own_run env (Running lp, db) \<Longrightarrow> keeps_comparison (lp_evidence lp) (ri_guard inp) \<Longrightarrow>
    ri_newID inp \<noteq> [] \<Longrightarrow> ri_newID inp \<notin> sr_ID ` set (own_rounds env db) \<Longrightarrow>
    run_round env inp lp db = (v, db') \<Longrightarrow> names_fixed v \<Longrightarrow> own_run env (phase_of v, db')"
| Answer: "own_run env (Gated lp effective, db) \<Longrightarrow> decided env lp db db1 \<Longrightarrow>
    keeps_comparison (lp_evidence lp) (gi_guard inp') \<Longrightarrow>
    answer_gate env inp' effective lp db1 = (v, db') \<Longrightarrow> own_run env (phase_of v, db')"

fun own_ok :: "step_env \<Rightarrow> phase \<Rightarrow> tables \<Rightarrow> bool" where
  "own_ok env (Running lp) db \<longleftrightarrow> rounds_agree env lp db"
| "own_ok env (Gated lp effective) db \<longleftrightarrow> rounds_agree env lp db \<and> parked_as env lp effective db \<and>
     (\<exists>r rest. rev (own_rounds env db) = r # rest \<and> sr_FindingsJSON r = nonempty effective)"
| "own_ok env ph db \<longleftrightarrow> True"

section \<open>What the statements do to the rounds\<close>

lemma sort_key_snoc: "\<forall>x \<in> set xs. k x \<le> k r \<Longrightarrow> sort_key k (xs @ [r]) = sort_key k xs @ [r]"
proof (induction xs)
  case (Cons a xs)
  have "k a \<le> k r \<Longrightarrow> insort_key k a (ys @ [r]) = insort_key k a ys @ [r]" for ys
    by (induction ys) auto
  then show ?case using Cons by simp
qed simp

lemma rounds_insert:
  assumes "sr_StepResultID r = se_id env" "\<forall>x \<in> set (own_rounds env db). sr_Round x \<le> sr_Round r"
  shows "own_rounds env (insertStepRound r db) = own_rounds env db @ [r]"
  using assms by (simp add: GetRoundsByStep_def insertStepRound_def sort_key_snoc)

lemma rounds_kept [simp]:
  "GetRoundsByStep s (steps_update p f db) = GetRoundsByStep s db" "GetRoundsByStep s (runs_update p' f' db) = GetRoundsByStep s db"
  by (simp_all add: GetRoundsByStep_def)

lemma rounds_rows [simp]:
  "GetRoundsByStep s (SetStepFindings i raw db) = GetRoundsByStep s db" "GetRoundsByStep s (ClearStepFindings i db) = GetRoundsByStep s db"
  "GetRoundsByStep s (UpdateStepStatus ts i st db) = GetRoundsByStep s db"
  "GetRoundsByStep s (StartStepWithAutoFixLimit ts i n db) = GetRoundsByStep s db"
  by (simp_all add: SetStepFindings_def ClearStepFindings_def UpdateStepStatus_def StartStepWithAutoFixLimit_def)

lemma rounds_fix_round: "StartStepFixRound ts i n db = Some db' \<Longrightarrow> GetRoundsByStep s db' = GetRoundsByStep s db"
  by (auto simp: StartStepFixRound_def invalidateStatusValidation_def GetRoundsByStep_def split: option.splits)

lemma rounds_park: "ParkStepForApproval_sql ts nonce run i st ec ms raw rnd db = Some db' \<Longrightarrow> GetRoundsByStep s db' = GetRoundsByStep s db"
  by (auto simp: ParkStepForApproval_sql_def GetRoundsByStep_def Let_def split: if_splits)

lemma rounds_select: "GetRoundsByStep s (SetStepRoundSelection i ids src db) = map (\<lambda>r. if sr_ID r = i
    then r\<lparr>sr_SelectedFindingIDs := ids, sr_SelectionSource := selection_source ids src\<rparr> else r) (GetRoundsByStep s db)"
  by (simp add: SetStepRoundSelection_def rounds_sql_update)

lemma rounds_sorted: "rev (GetRoundsByStep s db) = r # rest \<Longrightarrow> x \<in> set (GetRoundsByStep s db) \<Longrightarrow> sr_Round x \<le> sr_Round r"
proof -
  assume "rev (GetRoundsByStep s db) = r # rest" "x \<in> set (GetRoundsByStep s db)"
  moreover have "sorted (map sr_Round (GetRoundsByStep s db))" by (simp add: GetRoundsByStep_def)
  ultimately show ?thesis by (auto simp: rev_eq_Cons_iff sorted_append)
qed

lemma others_kept: "i \<notin> sr_ID ` set xs \<Longrightarrow> map (\<lambda>x. if sr_ID x = i \<and> p x then f x else x) xs = xs"
  by (induction xs) auto

lemma agree_again:
  "rounds_agree env lp db \<Longrightarrow> own_rounds env db' = own_rounds env db \<Longrightarrow> lp_autoFixAttempts lp' = lp_autoFixAttempts lp \<Longrightarrow>
   lp_roundNum lp' = lp_roundNum lp \<Longrightarrow> lp_roundID lp' = lp_roundID lp \<Longrightarrow> rounds_agree env lp' db'"
  by (simp add: rounds_agree_def split: list.splits)

text \<open>The round that is recorded.\<close>

lemma recorded_round:
  assumes "rounds_agree env lp db" "lp_roundNum lp' = lp_roundNum lp + 1"
  shows "\<exists>r. own_rounds env (record_round env inp o' effective lp' db) = own_rounds env db @ [r] \<and> sr_ID r = ri_newID inp \<and>
    sr_Round r = lp_roundNum lp' \<and> sr_FindingsJSON r = nonempty effective \<and> sr_SelectionSource r = None"
proof -
  define db1 where "db1 = (if effective \<noteq> [] then SetStepFindings (se_id env) effective db else ClearStepFindings (se_id env) db)"
  have kept: "own_rounds env db1 = own_rounds env db" by (simp add: db1_def)
  have top: "sr_Round x \<le> lp_roundNum lp'" if "x \<in> set (own_rounds env db)" for x
    using that assms rounds_sorted [of "se_id env" db _ _ x] by (auto simp: rounds_agree_def split: list.splits)
  have new: "own_rounds env (insertStepRound r db1) = own_rounds env db @ [r]"
    if "sr_StepResultID r = se_id env" "sr_Round r = lp_roundNum lp'" for r
    using rounds_insert [of r env db1] that top kept by simp
  let ?recorded = "\<lambda>r. sr_StepResultID r = se_id env \<and> sr_ID r = ri_newID inp \<and> sr_Round r = lp_roundNum lp' \<and>
    sr_FindingsJSON r = nonempty effective \<and> sr_SelectionSource r = None"
  have "\<exists>r. record_round env inp o' effective lp' db = insertStepRound r db1 \<and> ?recorded r"
  proof (cases "se_name env = StepReview")
    case True
    show ?thesis
    proof (cases "se_provenance env")
      case None
      then show ?thesis
        unfolding record_round_def db1_def [symmetric] Let_def InsertReviewStepRound_def InsertReviewStepRoundWithProvenance_def
        using True by (simp, intro exI conjI) (rule refl, simp_all add: new_round_def zero_round_def)
    next
      case (Some p)
      obtain t g y where "p = (t, g, y)" by (cases p) auto
      then show ?thesis
        unfolding record_round_def db1_def [symmetric] Let_def InsertReviewStepRoundWithProvenance_def
        using True Some by (simp, intro exI conjI) (rule refl, simp_all add: new_round_def zero_round_def)
    qed
  next
    case False
    then show ?thesis
      unfolding record_round_def db1_def [symmetric] Let_def InsertStepRoundWithRepair_def
      by (simp, intro exI conjI) (rule refl, simp_all add: new_round_def zero_round_def)
  qed
  then obtain r where r: "record_round env inp o' effective lp' db = insertStepRound r db1" "?recorded r" by blast
  then show ?thesis using new [of r] by auto
qed

section \<open>The parts of the loop\<close>

lemma kept_guard:
  assumes "keeps_comparison (lp_evidence lp) g"
  shows "guarded ts env ms g lp db = Inr lp \<or> (\<exists>err db1. guarded ts env ms g lp db = Inl (Stopped err, db1))"
  using assms by (auto simp: guarded_def keeps_comparison_def reset_comparison_def Let_def split: option.splits guard.splits if_splits)

text \<open>After the round is recorded, its row is the last and nobody has selected from it.\<close>

definition just_recorded :: "step_env \<Rightarrow> string \<Rightarrow> loop \<Rightarrow> tables \<Rightarrow> bool" where
  "just_recorded env effective lp db \<longleftrightarrow> rounds_agree env lp db \<and>
     (\<exists>r rest. rev (own_rounds env db) = r # rest \<and> sr_FindingsJSON r = nonempty effective \<and> sr_SelectionSource r = None)"

lemma park_row:
  assumes "ParkStepForApproval_sql ts nonce run i st ec ms raw rnd db = Some db'"
  shows "\<exists>row. GetStepResult i db' = Some row \<and> sp_FindingsJSON row = raw \<and> sp_Status row = st \<and> sp_DurationMS row = Some ms"
proof -
  have "affected (\<lambda>s. sp_ID s = i) (tb_steps db) = 1" using assms by (auto simp: ParkStepForApproval_sql_def Let_def split: if_splits)
  then have "GetStepResult i db \<noteq> None"
    using affected_pos [of "\<lambda>s. sp_ID s = i" "tb_steps db"] by (auto simp: GetStepResult_def sql_first_None)
  then obtain r where r: "GetStepResult i db = Some r" by blast
  define f :: "StepResult \<Rightarrow> StepResult" where "f = (\<lambda>s. s\<lparr>sp_Status := st, sp_ExitCode := Some ec, sp_DurationMS := Some ms,
    sp_FindingsJSON := raw, sp_PendingResponse := None, sp_GateNonce := Some nonce,
    sp_GateRoundID := (case rnd of Some r \<Rightarrow> Some r
      | None \<Rightarrow> (case rev (GetRoundsByStep i db) of [] \<Rightarrow> None | r # _ \<Rightarrow> Some (sr_ID r))),
    sp_LastActivityAt := Some ts, sp_LastActivity := Some (status_activity st)\<rparr>)"
  have "tb_steps db' = sql_update (\<lambda>s. sp_ID s = i) f (tb_steps db)"
    using assms by (auto simp: ParkStepForApproval_sql_def Let_def f_def cong: option.case_cong split: if_splits)
  then have "GetStepResult i db' = Some (f r)"
    using r sql_first_update_id [of sp_ID f i i "tb_steps db"] by (simp add: GetStepResult_def f_def)
  then show ?thesis by (simp add: f_def)
qed

lemma decide_own:
  assumes "decide env inp o' effective lp db = (v, db')" "just_recorded env effective lp db" "names_fixed v"
  shows "own_ok env (phase_of v) db'"
proof -
  obtain r rest where last: "rev (own_rounds env db) = r # rest" "sr_FindingsJSON r = nonempty effective" "sr_SelectionSource r = None"
    using assms(2) by (auto simp: just_recorded_def)
  have rows: "own_rounds env db = rev rest @ [r]" using last(1) by (simp add: rev_eq_Cons_iff)
  have agree: "rounds_agree env lp db" using assms(2) by (simp add: just_recorded_def)
  then have id: "lp_roundID lp = sr_ID r" "lp_roundNum lp = sr_Round r" "sr_ID r \<noteq> []" "sr_ID r \<notin> sr_ID ` set rest"
      "distinct (map sr_ID rest)" "[] \<notin> sr_ID ` set rest" "lp_autoFixAttempts lp = int (length (filter auto_fixed rest))"
    using last rows by (auto simp: rounds_agree_def auto_fixed_def rev_map [symmetric] rev_filter [symmetric])
  show ?thesis
  proof (cases "auto_fix_due env o' (round_findings env o') effective lp")
    case (Some fixable)
    show ?thesis
    proof (cases "StartStepFixRound (ri_ts inp) (se_id env) (se_limit env) db")
      case None
      then show ?thesis using assms(1) Some by (auto simp: decide_def Let_def)
    next
      case started: (Some db1)
      then have v: "v = Again AutoFixRound (start_auto_fix env inp effective fixable lp)" "db' = select_auto_fix (lp_roundID lp) fixable db1"
        using assms(1) Some by (auto simp: decide_def Let_def)
      have ids: "findingIDsJSON fixable \<noteq> []" using assms(3) v(1) by (auto simp: names_fixed_def start_auto_fix_def Let_def)
      define sel :: "StepRound \<Rightarrow> StepRound" where "sel = (\<lambda>r. r\<lparr>sr_SelectedFindingIDs := Some (findingIDsJSON fixable),
        sr_SelectionSource := selection_source (Some (findingIDsJSON fixable)) RoundSelectionSourceAutoFix\<rparr>)"
      have "own_rounds env db' = map (\<lambda>x. if sr_ID x = sr_ID r then sel x else x) (rev rest @ [r])"
        using v(2) ids id(1,3) rounds_fix_round [OF started] rows by (simp add: select_auto_fix_def rounds_select sel_def)
      also have "\<dots> = rev rest @ [sel r]" using id(4) using others_kept [of "sr_ID r" "rev rest" "\<lambda>_. True" sel] id(4) by simp
      finally have rows': "own_rounds env db' = rev rest @ [sel r]" .
      have "auto_fixed (sel r)" "sr_ID (sel r) = sr_ID r" "sr_Round (sel r) = sr_Round r"
        using ids by (simp_all add: sel_def auto_fixed_def selection_source_def deref_def RoundSelectionSourceAutoFix_def)
      then have "rounds_agree env (start_auto_fix env inp effective fixable lp) db'"
        using id by (auto simp: rounds_agree_def rows' rev_map [symmetric] rev_filter [symmetric] start_auto_fix_def Let_def)
      then show ?thesis by (simp add: v(1))
    qed
  next
    case None
    show ?thesis
    proof (cases "\<exists>lp1 text. v = Park lp1 text")
      case True
      then obtain lp1 where park: "v = Park lp1 effective" "lp1 = lp\<lparr>lp_executionMS := lp_executionMS lp + ri_freeze_ms inp\<rparr>"
          "ParkStepForApproval_sql (ri_ts inp) (ri_nonce inp) (se_run env) (se_id env)
             (if lp_fixing lp then StepStatusFixReview else StepStatusAwaitingApproval)
             (lp_exitCode lp) (lp_executionMS lp1) (nonempty effective) (nonempty (lp_roundID lp)) db = Some db'"
        using assms(1) None by (auto simp: decide_def Let_def split: if_splits option.splits)
      have "own_rounds env db' = own_rounds env db" by (rule rounds_park [OF park(3)])
      then have "rounds_agree env lp1 db'" "rev (own_rounds env db') = r # rest"
        using agree_again [OF agree] last by (simp_all add: park(2))
      then show ?thesis using park_row [OF park(3)] last by (auto simp: park(1) parked_as_def park(2) auto_fixed_def)
    next
      case False
      then have "\<exists>lp1. v = Complete lp1 \<or> (\<exists>err. v = Stopped err)"
        using assms(1) None by (auto simp: decide_def Let_def split: if_splits option.splits)
      then show ?thesis by auto
    qed
  qed
qed

lemma round_own:
  assumes "run_round env inp lp db = (v, db')" "rounds_agree env lp db" "keeps_comparison (lp_evidence lp) (ri_guard inp)"
    and "ri_newID inp \<noteq> []" "ri_newID inp \<notin> sr_ID ` set (own_rounds env db)" "names_fixed v"
  shows "own_ok env (phase_of v) db'"
proof -
  define lp2 where "lp2 = (read_proof env inp db lp)\<lparr>lp_run := ri_run inp\<rparr>"
  have l2: "rounds_agree env lp2 db" "lp_evidence lp2 = lp_evidence lp"
    by (rule agree_again [OF assms(2)]) (simp_all add: lp2_def read_proof_def)
  show ?thesis
  proof (cases "immutable_refusal inp (read_proof env inp db lp)")
    case None
    show ?thesis
    proof (cases "executed env inp")
      case (Inl e)
      then have "round_error env inp e lp2 db = (v, db')"
        using assms(1) None by (simp add: run_round_def Let_def lp2_def)
      then show ?thesis by (auto simp: round_error_def intro!: agree_again [OF l2(1)] split: exec_error.splits if_splits)
    next
      case (Inr o')
      have after: "(case guarded (ri_ts inp) env (Some (ri_round_ms inp)) (ri_guard inp) lp2 db of Inl v \<Rightarrow> v
          | Inr lp3 \<Rightarrow> finish_round env inp o' (lp3\<lparr>lp_roundNum := lp_roundNum lp3 + 1\<rparr>) db) = (v, db')"
        using assms(1) None Inr by (simp add: run_round_def Let_def lp2_def)
      have "keeps_comparison (lp_evidence lp2) (ri_guard inp)" using assms(3) l2(2) by simp
      from kept_guard [OF this, of "ri_ts inp" env "Some (ri_round_ms inp)" db] show ?thesis
      proof (elim disjE exE)
        assume g: "guarded (ri_ts inp) env (Some (ri_round_ms inp)) (ri_guard inp) lp2 db = Inr lp2"
        obtain effective lp3 where t: "take_findings env inp o' (take_outcome env o' (lp2\<lparr>lp_roundNum := lp_roundNum lp2 + 1\<rparr>)) db = (effective, lp3)"
          by fastforce
        have l3: "lp_roundNum lp3 = lp_roundNum lp2 + 1" "lp_autoFixAttempts lp3 = lp_autoFixAttempts lp2"
          using t by (auto simp: take_findings_def take_outcome_def Let_def split: if_splits prod.splits)
        define lp4 where "lp4 = take_url o' (lp3\<lparr>lp_roundID := ri_newID inp\<rparr>)"
        have d: "decide env inp o' effective lp4 (record_round env inp o' effective lp3 db) = (v, db')"
          using after g t by (simp add: finish_round_def Let_def lp4_def)
        obtain r where r: "own_rounds env (record_round env inp o' effective lp3 db) = own_rounds env db @ [r]" "sr_ID r = ri_newID inp"
            "sr_Round r = lp_roundNum lp3" "sr_FindingsJSON r = nonempty effective" "sr_SelectionSource r = None"
          using recorded_round [OF l2(1) l3(1)] by blast
        have "lp_roundNum lp4 = lp_roundNum lp3" "lp_autoFixAttempts lp4 = lp_autoFixAttempts lp3" "lp_roundID lp4 = ri_newID inp"
          by (simp_all add: lp4_def take_url_def)
        then have "just_recorded env effective lp4 (record_round env inp o' effective lp3 db)"
          using r l2(1) l3(2) assms(4,5) by (auto simp: just_recorded_def rounds_agree_def auto_fixed_def)
        then show ?thesis using decide_own [OF d] assms(6) by blast
      next
        fix err db1
        assume "guarded (ri_ts inp) env (Some (ri_round_ms inp)) (ri_guard inp) lp2 db = Inl (Stopped err, db1)"
        then show ?thesis using after by auto
      qed
    qed
  qed (use assms(1) in \<open>auto simp: run_round_def Let_def\<close>)
qed

text \<open>An answer decides at most the round of its gate, which no automatic fix had.\<close>

lemma decided_agree:
  assumes "decided env lp db db1" "rounds_agree env lp db" "parked_as env lp effective db"
  shows "rounds_agree env lp db1"
proof -
  obtain r rest where last: "rev (own_rounds env db) = r # rest" "\<not> auto_fixed r" using assms(3) by (auto simp: parked_as_def)
  have rows: "own_rounds env db = rev rest @ [r]" using last(1) by (simp add: rev_eq_Cons_iff)
  have id: "lp_roundID lp = sr_ID r" "lp_roundNum lp = sr_Round r" "sr_ID r \<notin> sr_ID ` set rest" "sr_ID r \<noteq> []"
      "distinct (map sr_ID rest)" "[] \<notin> sr_ID ` set rest" "lp_autoFixAttempts lp = int (length (filter auto_fixed rest))"
    using assms(2) last rows by (auto simp: rounds_agree_def rev_map [symmetric] rev_filter [symmetric])
  have changed: "rounds_agree env lp db1" if "own_rounds env db1 = map (\<lambda>x. if sr_ID x = lp_roundID lp \<and> p x then f x else x) (own_rounds env db)"
    "\<And>x. sr_ID (f x) = sr_ID x" "\<And>x. sr_Round (f x) = sr_Round x" "\<not> auto_fixed (f r)" for f p
  proof -
    have "own_rounds env db1 = rev rest @ [if p r then f r else r]"
      using that(1) id(1,3) others_kept [of "sr_ID r" "rev rest" p f] by (simp add: rows)
    then show ?thesis using that(2,3,4) id last(2)
      by (auto simp: rounds_agree_def rev_map [symmetric] rev_filter [symmetric])
  qed
  from assms(1) show ?thesis unfolding decided_def
  proof (elim disjE exE)
    assume "own_rounds env db1 = own_rounds env db"
    then show ?thesis using assms(2) by (simp add: rounds_agree_def)
  next
    fix ids user
    assume "own_rounds env db1 = own_rounds env (SetStepRoundUserDecision_sql (lp_roundID lp) ids RoundSelectionSourceUser user db)"
    then show ?thesis
      by (intro changed [of "\<lambda>_. True" "\<lambda>x. x\<lparr>sr_SelectedFindingIDs := ids, sr_SelectionSource := selection_source ids RoundSelectionSourceUser,
          sr_UserFindingsJSON := user\<rparr>"])
        (simp_all add: SetStepRoundUserDecision_sql_def rounds_sql_update auto_fixed_def selection_source_def
          RoundSelectionSourceUser_def RoundSelectionSourceAutoFix_def)
  next
    assume "own_rounds env db1 = own_rounds env (SetStepRoundDeclined_sql (lp_roundID lp) db)"
    then show ?thesis
      by (intro changed [of "\<lambda>x. sr_SelectionSource x = None" "\<lambda>x. x\<lparr>sr_SelectedFindingIDs := Some DeclinedSelectionJSON,
          sr_SelectionSource := Some RoundSelectionSourceUserDeclined\<rparr>"])
        (simp_all add: SetStepRoundDeclined_sql_def rounds_sql_update auto_fixed_def
          RoundSelectionSourceUserDeclined_def RoundSelectionSourceAutoFix_def)
  qed
qed

lemma respond_own:
  assumes "respond_gate env inp effective r lp db = (v, db')" "rounds_agree env lp db"
  shows "own_ok env (phase_of v) db'"
  using assms
  by (auto simp: respond_gate_def approve_gate_def start_user_fix_def start_answer_def rounds_fix_round Let_def
      intro!: agree_again [OF assms(2)] split: if_splits option.splits prod.splits)

lemma answer_own:
  assumes "answer_gate env inp effective lp db = (v, db')" "rounds_agree env lp db" "keeps_comparison (lp_evidence lp) (gi_guard inp)"
  shows "own_ok env (phase_of v) db'"
proof (cases "gi_event inp")
  case GateReconciled
  then show ?thesis
    using assms(1) kept_guard [OF assms(3), of "gi_ts inp" env None db]
    by (auto simp: answer_gate_def intro!: agree_again [OF assms(2)] split: if_splits)
next
  case (GateAnswered r)
  then show ?thesis
    using assms kept_guard [OF assms(3), of "gi_ts inp" env None db] respond_own [of env inp effective r lp db v db']
    by (auto simp: answer_gate_def split: if_splits)
qed (use assms in \<open>auto simp: answer_gate_def\<close>)

lemma own_run_ok: "own_run env (ph, db) \<Longrightarrow> own_ok env ph db"
proof (induction "(ph, db)" arbitrary: ph db rule: own_run.induct)
  case (World ph db db')
  then show ?case by (cases ph) (auto simp: parked_as_def intro: agree_again)
next
  case (Round lp db inp v db')
  then show ?case using round_own [OF Round.hyps(6)] by simp
next
  case (Answer lp effective db db1 inp' v db')
  have "rounds_agree env lp db1"
    using Answer.hyps(2) by (auto intro: decided_agree [OF Answer.hyps(3)])
  then show ?case by (rule answer_own [OF Answer.hyps(5) _ Answer.hyps(4)])
qed simp

section \<open>The gate that is recovered\<close>

text \<open>The recovered gate is the gate of the one parked row, read from its rounds.\<close>

lemma recovered_rows_row:
  "GateProtocol.recovered_rows rs i rows g = Some g' \<Longrightarrow> (g \<noteq> None \<longrightarrow> g = Some g' \<and> (\<forall>x \<in> set rows. \<not> parked_status (sp_Status (snd x)))) \<and>
     (\<forall>(name, row) \<in> set rows. parked_status (sp_Status row) \<longrightarrow> sp_StepName row = name \<and>
        (\<exists>k. gate_of_row k name row (rs (sp_ID row)) = Some g'))"
proof (induction rs i rows g rule: GateProtocol.recovered_rows.induct)
  case (2 rs i name row rows g)
  show ?case
  proof (cases "parked_status (sp_Status row)")
    case True
    then obtain g1 where "g = None" "sp_StepName row = name" "gate_of_row i name row (rs (sp_ID row)) = Some g1"
        "GateProtocol.recovered_rows rs (Suc i) rows (Some g1) = Some g'"
      using "2.prems" by (auto split: if_splits option.splits)
    then have "Some g1 = Some g'" "\<forall>x \<in> set rows. \<not> parked_status (sp_Status (snd x))"
      using "2.IH"(1) [OF _ True, of g1] by auto
    then show ?thesis using \<open>g = None\<close> \<open>sp_StepName row = name\<close> \<open>gate_of_row i name row (rs (sp_ID row)) = Some g1\<close> by auto
  next
    case False
    show ?thesis
    proof (cases g)
      case None
      then have "GateProtocol.recovered_rows rs (Suc i) rows None = Some g'" using "2.prems" False by (auto split: if_splits)
      then show ?thesis using "2.IH"(2) "2.prems" False None by (auto split: if_splits)
    next
      case (Some g1)
      then have "GateProtocol.recovered_rows rs (Suc i) rows g = Some g'" using "2.prems" False by (auto split: if_splits)
      then show ?thesis using "2.IH"(3) "2.prems" False Some by (auto split: if_splits)
    qed
  qed
qed simp

lemma recovered_from_rows:
  assumes "recoveredGate steps results rs = Some g" "row \<in> set results" "parked_status (sp_Status row)"
  shows "\<exists>k. gate_of_row k (sp_StepName row) row (rs (sp_ID row)) = Some g"
proof -
  have len: "length results = length steps" and rec: "GateProtocol.recovered_rows rs 0 (zip steps results) None = Some g"
    using assms(1) by (auto simp: recoveredGate_def split: if_splits)
  obtain j where j: "j < length results" "results ! j = row" using assms(2) by (auto simp: in_set_conv_nth)
  then have "(steps ! j, row) \<in> set (zip steps results)" using len by (auto simp: set_zip)
  from bspec [OF conjunct2 [OF recovered_rows_row [OF rec]] this] show ?thesis using assms(3) by auto
qed

text \<open>The recovered gate says what the loop knew when it parked.\<close>

lemma recovered_gate_says:
  assumes "own_run env (Gated lp effective, db)"
    and "GetStepResult (se_id env) db = Some row" "sp_RunID row = se_run env" "sp_StepName row = se_name env"
    and "recoveredGate steps (GetStepsByRun (se_run env) db) (\<lambda>s. GetRoundsByStep s db) = Some g"
  shows "rg_step g = se_name env \<and> rg_stepResult g = row \<and> rg_findings g = effective \<and> rg_round g = lp_roundNum lp \<and>
    int (rg_autoFixes g) = lp_autoFixAttempts lp \<and> rg_lastRoundID g = lp_roundID lp \<and> sp_DurationMS row = Some (lp_executionMS lp) \<and>
    sp_Status row = (if lp_fixing lp then StepStatusFixReview else StepStatusAwaitingApproval) \<and> sp_ID row = se_id env"
proof -
  have ok: "rounds_agree env lp db" "parked_as env lp effective db" using own_run_ok [OF assms(1)] by simp_all
  have row: "sp_FindingsJSON row = nonempty effective" "sp_DurationMS row = Some (lp_executionMS lp)"
      "sp_Status row = (if lp_fixing lp then StepStatusFixReview else StepStatusAwaitingApproval)" "sp_ID row = se_id env"
    using ok(2) assms(2) GetStepResult_ID [OF assms(2)] by (auto simp: parked_as_def)
  have "row \<in> set (tb_steps db)" using assms(2) sql_first_Some by (fastforce simp: GetStepResult_def)
  then have "row \<in> set (GetStepsByRun (se_run env) db)" using assms(3) by (simp add: GetStepsByRun_def)
  moreover have "parked_status (sp_Status row)" using row(3) by (simp add: parked_status_def)
  ultimately obtain k where "gate_of_row k (se_name env) row (own_rounds env db) = Some g"
    using recovered_from_rows [OF assms(5)] assms(4) row(4) by metis
  moreover have autos: "auto_fixed = (\<lambda>r. sr_SelectionSource r = Some RoundSelectionSourceAutoFix)"
    by (simp add: auto_fixed_def fun_eq_iff)
  ultimately have g: "\<exists>raw latest rest. sp_FindingsJSON row = Some raw \<and> rev (own_rounds env db) = latest # rest \<and> rg_findings g = raw \<and>
      rg_step g = se_name env \<and> rg_stepResult g = row \<and> rg_round g = sr_Round latest \<and> rg_lastRoundID g = sr_ID latest \<and>
      rg_autoFixes g = length (filter auto_fixed (own_rounds env db))"
    unfolding autos by (auto simp: gate_of_row_def split: option.splits list.splits if_splits)
  then show ?thesis using ok(1) row by (auto simp: rounds_agree_def nonempty_def split: if_splits)
qed

section \<open>A restart of the daemon does not change an answer\<close>

definition recoveredStepDuration :: "StepResult \<Rightarrow> int" where
  "recoveredStepDuration row = (case sp_DurationMS row of None \<Rightarrow> 0 | Some d \<Rightarrow> d)"

text \<open>What the next round is told: the controls of the round and its accounting.\<close>

definition told :: "loop \<Rightarrow> (bool \<times> bool \<times> bool \<times> string) \<times> (int \<times> int \<times> string \<times> int)" where
  "told lp = ((lp_fixing lp, lp_fixing lp \<and> lp_skipFixExecution lp, lp_finalizing lp, lp_trigger lp),
     (lp_roundNum lp, lp_autoFixAttempts lp, lp_roundID lp, lp_executionMS lp))"

text \<open>C36. A restart of the daemon does not change what an answer means. Take any run of a step within one comparison, entered in a
  state that agrees with its recorded rounds, that has parked at a gate, and the gate a restarted daemon recovers from the rows
  that run left. When the gate is answered with a fix, or a review with an answer, the round that follows is told the same
  whether the daemon that parked the gate dispatches it or the one that recovered it: the same controls and trigger, round
  number, current round, spent automatic attempts and time, and the same write; and for a fix, the same findings to
  repair, deferred findings and outstanding set. (The selection of a review is rebuilt by the identity of the findings and is not compared.)\<close>

theorem recovered_answer_is_live:
  assumes "own_run env (Gated lp effective, db)"
    and "GetStepResult (se_id env) db = Some row" "sp_RunID row = se_run env" "sp_StepName row = se_name env"
    and "recoveredGate steps (GetStepsByRun (se_run env) db) (\<lambda>s. GetRoundsByStep s db) = Some g"
    and "ar_action r = ActionFix \<or> ar_action r = ActionAnswer"
    and "respond_gate env inp effective r lp db1 = (Again c live, db2)"
  shows "told (enter_loop env (recovered_state g r (recoveredStepDuration (rg_stepResult g))) resumes ev run) = told live \<and>
    (ar_action r = ActionFix \<longrightarrow>
       (let next = enter_loop env (recovered_state g r (recoveredStepDuration (rg_stepResult g))) resumes ev run in
        lp_previous next = lp_previous live \<and> lp_deferred next = lp_deferred live \<and>
        (se_name env = StepReview \<longrightarrow> lp_outstanding next = lp_outstanding live))) \<and>
    StepLoop.recovered_rows (gi_ts inp) (se_limit env) g r db1 = Some db2"
proof -
  note rec = recovered_gate_says [OF assms(1-5)]
  have ms: "recoveredStepDuration (rg_stepResult g) = lp_executionMS lp" using rec by (simp add: recoveredStepDuration_def)
  show ?thesis
  proof (cases "ar_action r = ActionAnswer")
    case True
    then have "se_name env = StepReview" "live = start_answer env lp" "db2 = UpdateStepStatus (gi_ts inp) (se_id env) StepStatusRunning db1"
      using assms(7) by (auto simp: respond_gate_def action_defs split: if_splits)
    then show ?thesis
      using True rec unfolding ms by (simp add: told_def enter_loop_def recovered_state_def start_answer_def StepLoop.recovered_rows_def carries_def
          fresh_execution_def Let_def action_defs StepStatusFixReview_def StepStatusAwaitingApproval_def)
  next
    case False
    then have "StartStepFixRound (gi_ts inp) (se_id env) (se_limit env) db1 = Some db2" "live = start_user_fix env effective r lp"
      using assms(6,7) by (auto simp: respond_gate_def action_defs split: if_splits option.splits)
    then show ?thesis
      using False rec unfolding ms by (auto simp: told_def enter_loop_def recovered_state_def start_user_fix_def
          StepLoop.recovered_rows_def carries_def fresh_execution_def normalizeFixSelection_def Let_def split: prod.splits)
  qed
qed

section \<open>A gate that is parked, recovered and answered\<close>

definition rec_outcome :: StepOutcome where
  "rec_outcome = zero_outcome\<lparr>oc_NeedsApproval := True, oc_Findings := oc_Findings fixable_outcome\<rparr>"

definition rec_row :: StepResult where
  "rec_row = zero_step\<lparr>sp_ID := ''s'', sp_RunID := ''r'', sp_StepName := StepLint, sp_Status := StepStatusRunning, sp_StartedAt := Some 1\<rparr>"

definition rec_tables :: tables where
  "rec_tables = no_tables\<lparr>tb_runs := [zero_run\<lparr>rn_ID := ''r'', rn_Status := RunRunning\<rparr>], tb_steps := [rec_row]\<rparr>"

lemma rec_env: "se_name (sample_env StepLint) = StepLint" "se_id (sample_env StepLint) = ''s''" "se_run (sample_env StepLint) = ''r''"
    "\<not> carries (sample_env StepLint)" "\<not> IsCustomGate (se_name (sample_env StepLint))" "StepLint \<noteq> StepReview"
  by (simp_all add: carries_def sample_env_def step_name_defs) code_simp

lemma rec_parks:
  "\<exists>lp db row r. run_round (sample_env StepLint) (sample_input rec_outcome) (sample_loop StepLint fresh_execution) rec_tables =
     (Park lp (oc_Findings fixable_outcome), db) \<and> tb_steps db = [row] \<and> GetRoundsByStep ''s'' db = [r] \<and>
     sp_ID row = ''s'' \<and> sp_RunID row = ''r'' \<and> sp_StepName row = StepLint \<and> sp_Status row = StepStatusAwaitingApproval \<and>
     sp_StartedAt row = Some 1 \<and> sp_DurationMS row \<noteq> None \<and> sp_AgentPID row = None \<and>
     sp_FindingsJSON row = Some (oc_Findings fixable_outcome) \<and> sr_FindingsJSON r = Some (oc_Findings fixable_outcome)"
proof -
  define raw where "raw = oc_Findings fixable_outcome"
  have raw: "raw \<noteq> []" by (simp add: raw_def fixable_outcome_def)
  define lp0 where "lp0 = (read_proof (sample_env StepLint) (sample_input rec_outcome) rec_tables (sample_loop StepLint fresh_execution))
    \<lparr>lp_run := ri_run (sample_input rec_outcome), lp_roundNum := 1\<rparr>"
  define lp1 where "lp1 = take_outcome (sample_env StepLint) rec_outcome lp0"
  define lp2 where "lp2 = take_url rec_outcome (lp1\<lparr>lp_roundID := ri_newID (sample_input rec_outcome)\<rparr>)"
  define r where "r = (new_round (ri_ts (sample_input rec_outcome)) (ri_newID (sample_input rec_outcome)) ''s'' (lp_roundNum lp1) (lp_trigger lp1)
      (nonempty raw) (nonempty (oc_FixSummary rec_outcome)) (ri_round_ms (sample_input rec_outcome)) (ri_fixApplied (sample_input rec_outcome)))
       \<lparr>sr_RepairPublished := oc_RepairPublished rec_outcome\<rparr>"
  define db1 where "db1 = record_round (sample_env StepLint) (sample_input rec_outcome) rec_outcome raw lp1 rec_tables"
  have db1: "tb_steps db1 = [rec_row\<lparr>sp_FindingsJSON := Some raw\<rparr>]" "tb_rounds db1 = [r]" "tb_runs db1 = tb_runs rec_tables"
    using raw rec_env(6) by (simp_all add: db1_def record_round_def rec_env InsertStepRoundWithRepair_def insertStepRound_def SetStepFindings_def Let_def
        rec_tables_def r_def no_tables_def) (simp_all add: rec_row_def)
  have round: "run_round (sample_env StepLint) (sample_input rec_outcome) (sample_loop StepLint fresh_execution) rec_tables =
      decide (sample_env StepLint) (sample_input rec_outcome) rec_outcome raw lp2 db1"
    unfolding plain_round [OF sample_shipping(1,4,2,3)] using rec_env(4)
    by (simp add: finish_round_def take_findings_def round_findings_def rec_outcome_def normalized_auto_item raw_def lp0_def lp1_def lp2_def
        db1_def Let_def) (simp add: read_proof_def sample_loop_def enter_loop_def fresh_execution_def Let_def)
  have fixing: "\<not> lp_fixing lp2"
    by (simp add: lp2_def lp1_def lp0_def) (simp add: sample_loop_def enter_loop_def fresh_execution_def Let_def)
  have quiet: "auto_fix_due (sample_env StepLint) rec_outcome (round_findings (sample_env StepLint) rec_outcome) raw lp2 = None"
    using rec_env(5) by (simp add: auto_fix_due_def Let_def) (simp add: rec_outcome_def zero_outcome_def)
  have stops: "\<not> passes (sample_env StepLint) rec_outcome gate lp2" for gate by (simp add: passes_def rec_outcome_def)
  define lp where "lp = lp2\<lparr>lp_executionMS := lp_executionMS lp2 + ri_freeze_ms (sample_input rec_outcome)\<rparr>"
  define park where "park = ParkStepForApproval_sql (ri_ts (sample_input rec_outcome)) (ri_nonce (sample_input rec_outcome)) ''r'' ''s''
      StepStatusAwaitingApproval (lp_exitCode lp2) (lp_executionMS lp) (nonempty raw) (nonempty (lp_roundID lp2)) db1"
  have "\<exists>db. park = Some db"
    by (simp add: park_def ParkStepForApproval_sql_def db1 affected_def Let_def) (simp add: rec_row_def rec_tables_def)
  then obtain db where db: "park = Some db" by blast
  have steps: "\<exists>row. tb_steps db = [row] \<and> sp_ID row = ''s'' \<and> sp_RunID row = ''r'' \<and> sp_StepName row = StepLint \<and>
      sp_Status row = StepStatusAwaitingApproval \<and> sp_StartedAt row = Some 1 \<and> sp_DurationMS row \<noteq> None \<and> sp_AgentPID row = None \<and>
      sp_FindingsJSON row = Some raw"
    using db raw by (auto simp: park_def ParkStepForApproval_sql_def db1 Let_def nonempty_def split: if_splits)
      (auto simp: rec_row_def zero_step_def)
  have "GetRoundsByStep ''s'' db = GetRoundsByStep ''s'' db1" using db rounds_park unfolding park_def by blast
  also have "\<dots> = [r]" by (simp add: GetRoundsByStep_def db1 r_def new_round_def zero_round_def)
  finally have "GetRoundsByStep ''s'' db = [r]" .
  moreover have "sr_FindingsJSON r = Some raw" using raw by (simp add: r_def new_round_def zero_round_def nonempty_def)
  moreover have "decide (sample_env StepLint) (sample_input rec_outcome) rec_outcome raw lp2 db1 = (Park lp raw, db)"
    using db by (simp add: decide_def quiet stops fixing rec_env park_def lp_def Let_def)
  ultimately show ?thesis using steps unfolding round raw_def [symmetric] by blast
qed

theorem recovered_answer_is_live_witness:
  "\<exists>lp db g live db2. own_run (sample_env StepLint) (Gated lp (oc_Findings fixable_outcome), db) \<and>
     recoveredGate [StepLint] (GetStepsByRun ''r'' db) (\<lambda>s. GetRoundsByStep s db) = Some g \<and>
     respond_gate (sample_env StepLint) (sample_answer GateShutdown) (oc_Findings fixable_outcome) (zero_response\<lparr>ar_action := ActionFix\<rparr>) lp db =
       (Again UserFixRound live, db2) \<and>
     told (enter_loop (sample_env StepLint)
       (recovered_state g (zero_response\<lparr>ar_action := ActionFix\<rparr>) (recoveredStepDuration (rg_stepResult g))) 0 0 zero_run) = told live"
proof -
  obtain lp db row r where p: "run_round (sample_env StepLint) (sample_input rec_outcome) (sample_loop StepLint fresh_execution) rec_tables =
        (Park lp (oc_Findings fixable_outcome), db)"
    and rows: "tb_steps db = [row]" "GetRoundsByStep ''s'' db = [r]" "sp_ID row = ''s''" "sp_RunID row = ''r''" "sp_StepName row = StepLint"
      "sp_Status row = StepStatusAwaitingApproval" "sp_StartedAt row = Some 1" "sp_DurationMS row \<noteq> None" "sp_AgentPID row = None"
      "sp_FindingsJSON row = Some (oc_Findings fixable_outcome)" "sr_FindingsJSON r = Some (oc_Findings fixable_outcome)"
    using rec_parks by blast
  have none: "GetRoundsByStep ''s'' rec_tables = []" by (simp add: GetRoundsByStep_def rec_tables_def no_tables_def)
  have "rounds_agree (sample_env StepLint) (enter_loop (sample_env StepLint) fresh_execution 0 0 zero_run) rec_tables"
    by (simp add: rounds_agree_def rec_env none) (simp add: enter_loop_def fresh_execution_def Let_def)
  then have "own_run (sample_env StepLint) (Running (sample_loop StepLint fresh_execution), rec_tables)"
    unfolding sample_loop_def by (rule own_run.Enter)
  from own_run.Round [OF this _ _ _ p] have run: "own_run (sample_env StepLint) (Gated lp (oc_Findings fixable_outcome), db)"
    by (simp add: none rec_env sample_input_def keeps_comparison_def names_fixed_def)
  have steps: "GetStepsByRun ''r'' db = [row]" "GetStepResult ''s'' db = Some row"
    by (simp_all add: GetStepsByRun_def GetStepResult_def sql_first_def rows)
  have "\<exists>g. recoveredGate [StepLint] (GetStepsByRun ''r'' db) (\<lambda>s. GetRoundsByStep s db) = Some g"
    using rows by (auto simp: steps recoveredGate_def gate_of_row_def parked_status_def)
  then obtain g where g: "recoveredGate [StepLint] (GetStepsByRun ''r'' db) (\<lambda>s. GetRoundsByStep s db) = Some g" by blast
  obtain db2 where "StartStepFixRound 2 ''s'' 1 db = Some db2" by (simp add: StartStepFixRound_def steps)
  then have a: "respond_gate (sample_env StepLint) (sample_answer GateShutdown) (oc_Findings fixable_outcome) (zero_response\<lparr>ar_action := ActionFix\<rparr>) lp db =
      (Again UserFixRound (start_user_fix (sample_env StepLint) (oc_Findings fixable_outcome) (zero_response\<lparr>ar_action := ActionFix\<rparr>) lp), db2)"
    by (simp add: respond_gate_def action_defs sample_answer_def) (simp add: sample_env_def)
  note same = recovered_answer_is_live [OF run, unfolded rec_env, OF steps(2) rows(4,5) g _ a, of 0 0 zero_run]
  show ?thesis
    by (intro exI [of _ lp] exI [of _ db] exI [of _ g] exI [of _ db2] exI conjI, rule run, rule g, rule a, use same in simp)
qed

end
