(* ===== verification/CheckScope.thy ===== *)
theory CheckScope
  imports Json "HOL-Library.List_Lexorder" "HOL-Library.Char_ord" "HOL-Library.Product_Lexorder"
begin

text \<open>
  Which checks on the head of a pull request decide that CI is ready, from \<open>internal/scm/check_scope.go\<close> and the
  check types and review bots of \<open>internal/scm/host.go\<close>: the glob matcher of the configured patterns, the
  required set of the target branch with its cache, the partition of the observed checks with its
  placeholders for missing requirements, readiness, and the review bots. The forge is a
  parameter: what reading the required checks, the review comments or the state of a bot returns.
\<close>

section \<open>The glob matcher\<close>

text \<open>\<open>[]rune\<close>: each rune as its bytes, a byte outside valid UTF-8 as U+FFFD.\<close>

definition rune_error :: string where
  "rune_error = [CHR 0xEF, CHR 0xBF, CHR 0xBD]"

function runes :: "string \<Rightarrow> string list" where
  "runes [] = []"
| "runes (c # s) =
     (let n = rune_size (c # s) in
      if n = 0 then rune_error # runes s else take n (c # s) # runes (drop n (c # s)))"
  by pat_completeness auto
termination by (relation "measure length") auto

text \<open>
  The loop of \<open>MatchCheckPattern\<close> on the rest of the pattern and of the name; the last argument holds what
  follows the last star, and the part of the name from the mark on.
\<close>

definition stars :: "string list \<Rightarrow> nat" where
  "stars p = length (filter (\<lambda>x. x = ''*'') p)"

function match_loop :: "string list \<Rightarrow> string list \<Rightarrow> (string list \<times> string list) option \<Rightarrow> bool" where
  "match_loop p [] star = (dropWhile (\<lambda>x. x = ''*'') p = [])"
| "match_loop p (c # n) star =
     (if p \<noteq> [] \<and> hd p = ''*'' then match_loop (tl p) (c # n) (Some (tl p, c # n))
      else if p \<noteq> [] \<and> (hd p = ''?'' \<or> hd p = c) then match_loop (tl p) n star
      else case star of
          None \<Rightarrow> False
        | Some (after, mark) \<Rightarrow> match_loop after (tl mark) (Some (after, tl mark)))"
  by pat_completeness auto
termination
proof (relation "measures [\<lambda>(p, n, star). max (stars p) (case star of None \<Rightarrow> 0 | Some (a, m) \<Rightarrow> stars a),
    \<lambda>(p, n, star). case star of None \<Rightarrow> 0 | Some (a, m) \<Rightarrow> length m, \<lambda>(p, n, star). length n]", goal_cases)
  case (2 p c n star)
  then show ?case by (cases p) (auto simp: stars_def)
next
  case (3 p c n star)
  then show ?case by (cases p) (auto simp: stars_def split: option.splits)
next
  case (4 p c n star x a m)
  then show ?case by (cases m) (auto simp: max_def)
qed simp

definition MatchCheckPattern :: "string \<Rightarrow> string \<Rightarrow> bool" where
  "MatchCheckPattern pattern' name =
     (let p = TrimSpace pattern' in if p = [] \<or> name = [] then False else match_loop (runes p) (runes name) None)"

text \<open>The meaning of a pattern: the name splits into one piece for each element of the pattern.\<close>

definition glob_piece :: "string \<Rightarrow> string list \<Rightarrow> bool" where
  "glob_piece x w \<longleftrightarrow> x = ''*'' \<or> (x = ''?'' \<and> length w = 1) \<or> w = [x]"

definition glob :: "string list \<Rightarrow> string list \<Rightarrow> bool" where
  "glob p n \<longleftrightarrow> (\<exists>ws. concat ws = n \<and> list_all2 glob_piece p ws)"

lemma glob_Nil [simp]: "glob [] n \<longleftrightarrow> n = []"
  by (auto simp: glob_def)

lemma glob_Cons: "glob (x # p) n \<longleftrightarrow> (\<exists>k \<le> length n. glob_piece x (take k n) \<and> glob p (drop k n))"
proof
  assume "glob (x # p) n"
  then obtain w ws where "n = w @ concat ws" "glob_piece x w" "list_all2 glob_piece p ws"
    by (auto simp: glob_def list_all2_Cons1)
  then show "\<exists>k \<le> length n. glob_piece x (take k n) \<and> glob p (drop k n)"
    by (intro exI [of _ "length w"]) (auto simp: glob_def)
next
  assume "\<exists>k \<le> length n. glob_piece x (take k n) \<and> glob p (drop k n)"
  then obtain k ws where "glob_piece x (take k n)" "concat ws = drop k n" "list_all2 glob_piece p ws"
    by (auto simp: glob_def)
  then show "glob (x # p) n" unfolding glob_def by (intro exI [of _ "take k n # ws"]) simp
qed

lemma glob_star: "glob (''*'' # p) n \<longleftrightarrow> (\<exists>k \<le> length n. glob p (drop k n))"
  by (simp add: glob_Cons glob_piece_def)

lemma glob_star_step: "glob (''*'' # p) n \<longleftrightarrow> glob p n \<or> n \<noteq> [] \<and> glob (''*'' # p) (tl n)"
proof
  assume "glob (''*'' # p) n"
  then obtain k where k: "k \<le> length n" "glob p (drop k n)" by (auto simp: glob_star)
  show "glob p n \<or> n \<noteq> [] \<and> glob (''*'' # p) (tl n)"
  proof (cases k)
    case (Suc j)
    then have "j \<le> length (tl n)" "glob p (drop j (tl n))" "n \<noteq> []" using k by (auto simp: drop_Suc)
    then show ?thesis unfolding glob_star by blast
  qed (use k in simp)
next
  assume "glob p n \<or> n \<noteq> [] \<and> glob (''*'' # p) (tl n)"
  then show "glob (''*'' # p) n"
  proof
    assume "n \<noteq> [] \<and> glob (''*'' # p) (tl n)"
    then obtain c n' j where "n = c # n'" "j \<le> length n'" "glob p (drop j n')" by (cases n) (auto simp: glob_star)
    then show ?thesis unfolding glob_star by (intro exI [of _ "Suc j"]) simp
  qed (auto simp: glob_star intro: exI [of _ 0])
qed

lemma glob_plain:
  assumes "x \<noteq> ''*''"
  shows "glob (x # p) n \<longleftrightarrow> (\<exists>c n'. n = c # n' \<and> (x = ''?'' \<or> x = c) \<and> glob p n')"
proof
  assume "glob (x # p) n"
  then obtain k where k: "k \<le> length n" "glob_piece x (take k n)" "glob p (drop k n)" by (auto simp: glob_Cons)
  then have "length (take k n) = 1" using assms unfolding glob_piece_def by (metis length_Cons list.size(3) One_nat_def)
  then have "min (length n) k = 1" unfolding length_take .
  then have "k = 1" using k(1) by (simp add: min_def split: if_splits)
  then show "\<exists>c n'. n = c # n' \<and> (x = ''?'' \<or> x = c) \<and> glob p n'"
    using k assms by (cases n) (auto simp: glob_piece_def)
next
  assume "\<exists>c n'. n = c # n' \<and> (x = ''?'' \<or> x = c) \<and> glob p n'"
  then show "glob (x # p) n" unfolding glob_Cons by (auto simp: glob_piece_def intro!: exI [of _ 1])
qed

lemma glob_empty: "glob p [] \<longleftrightarrow> dropWhile (\<lambda>x. x = ''*'') p = []"
proof (induction p)
  case (Cons x p)
  then show ?case by (cases "x = ''*''") (simp_all add: glob_star glob_plain)
qed simp

lemma glob_append_plain:
  assumes "''*'' \<notin> set q" "glob (q @ p) n"
  shows "length q \<le> length n \<and> glob p (drop (length q) n)"
  using assms
proof (induction q arbitrary: n)
  case (Cons x q)
  then obtain c n' where "n = c # n'" "glob (q @ p) n'" by (auto simp: glob_plain)
  then show ?case using Cons by simp
qed simp

lemma glob_star_drop: "glob (''*'' # p) (drop k n) \<Longrightarrow> glob (''*'' # p) n"
  by (auto simp: glob_star) (metis drop_all drop_drop nat_le_linear)

text \<open>The invariant of the loop: since the last star, plain elements only were matched, one rune each.\<close>

definition since_star :: "string list \<Rightarrow> string list \<Rightarrow> (string list \<times> string list) option \<Rightarrow> bool" where
  "since_star p n star \<longleftrightarrow> (\<forall>a m. star = Some (a, m) \<longrightarrow>
     (\<exists>q. a = q @ p \<and> ''*'' \<notin> set q \<and> length q \<le> length m \<and> n = drop (length q) m))"

definition later :: "(string list \<times> string list) option \<Rightarrow> bool" where
  "later star \<longleftrightarrow> (case star of None \<Rightarrow> False | Some (a, m) \<Rightarrow> m \<noteq> [] \<and> glob (''*'' # a) (tl m))"

lemma later_drop:
  assumes "since_star p n (Some (a, m))" "p = ''*'' # p'" "later (Some (a, m))"
  shows "glob p n"
proof -
  obtain q where q: "a = q @ p" "''*'' \<notin> set q" "n = drop (length q) m" using assms(1) by (auto simp: since_star_def)
  obtain k where "glob a (drop k (tl m))" using assms(3) by (auto simp: later_def glob_star)
  then have "glob p (drop (length q) (drop k (tl m)))"
    using glob_append_plain [OF q(2)] q(1) by blast
  then have "glob p (drop (length q) (drop (Suc k) m))" by (simp add: drop_Suc)
  then have "glob p (drop (Suc k) n)" by (simp add: q(3) add.commute)
  then show ?thesis using assms(2) glob_star_drop by blast
qed

lemma match_loop_correct: "since_star p n star \<Longrightarrow> match_loop p n star \<longleftrightarrow> glob p n \<or> later star"
proof (induction p n star rule: match_loop.induct)
  case (1 p star)
  have "\<not> later star" if d: "dropWhile (\<lambda>x. x = ''*'') p \<noteq> []"
  proof
    assume "later star"
    then obtain a m k where s: "star = Some (a, m)" "m \<noteq> []" "glob a (drop k (tl m))"
      by (auto simp: later_def glob_star split: option.splits)
    then obtain q where q: "a = q @ p" "''*'' \<notin> set q" "length q \<le> length m" "drop (length q) m = []"
      using 1 by (auto simp: since_star_def)
    have "length q \<le> length (drop k (tl m))" using glob_append_plain [OF q(2)] s(3) q(1) by blast
    then show False using q(4) s(2) by (cases m) auto
  qed
  then show ?case by (auto simp: glob_empty)
next
  case (2 p c n star)
  consider (any) p' where "p = ''*'' # p'"
    | (plain) x p' where "p = x # p'" "x \<noteq> ''*''" "x = ''?'' \<or> x = c"
    | (stuck) "\<not> (p \<noteq> [] \<and> hd p = ''*'')" "\<not> (p \<noteq> [] \<and> (hd p = ''?'' \<or> hd p = c))"
    by (cases p) auto
  then show ?case
  proof cases
    case (any p')
    have "match_loop p' (c # n) (Some (p', c # n)) \<longleftrightarrow> glob p' (c # n) \<or> later (Some (p', c # n))"
      using 2(1) any by (simp add: since_star_def)
    also have "\<dots> \<longleftrightarrow> glob p (c # n)"
      using glob_star_step [of p' "c # n"] by (simp add: any later_def)
    also have "\<dots> \<longleftrightarrow> glob p (c # n) \<or> later star"
      using later_drop 2(4) any by (cases star) (auto simp: later_def)
    finally show ?thesis using any by simp
  next
    case (plain x p')
    have "since_star p' n star"
      unfolding since_star_def
    proof (intro allI impI)
      fix a m assume "star = Some (a, m)"
      then obtain q where "a = q @ p" "''*'' \<notin> set q" "length q \<le> length m" "c # n = drop (length q) m"
        using 2(4) by (auto simp: since_star_def)
      note q = this
      have "length q < length m" using q(4) by (metis drop_all list.distinct(1) not_le)
      moreover have "n = drop (Suc (length q)) m" using q(4) by (metis drop_Suc list.sel(3) tl_drop)
      ultimately show "\<exists>q. a = q @ p' \<and> ''*'' \<notin> set q \<and> length q \<le> length m \<and> n = drop (length q) m"
        using q(1,2) plain(1,2) by (intro exI [of _ "q @ [x]"]) simp
    qed
    then show ?thesis using 2(2) plain by (auto simp: glob_plain)
  next
    case stuck
    then have "\<not> glob p (c # n)" by (cases p) (simp_all add: glob_plain)
    moreover have "match_loop p (c # n) star = (case star of None \<Rightarrow> False | Some (a, m) \<Rightarrow> match_loop a (tl m) (Some (a, tl m)))"
      by (rule trans [OF match_loop.simps(2)]) (simp only: stuck if_False)
    moreover have "match_loop a (tl m) (Some (a, tl m)) \<longleftrightarrow> m \<noteq> [] \<and> glob (''*'' # a) (tl m)" if s: "star = Some (a, m)" for a m
    proof -
      have "match_loop a (tl m) (Some (a, tl m)) \<longleftrightarrow> glob a (tl m) \<or> later (Some (a, tl m))"
        using 2(3) [OF stuck s] by (simp add: since_star_def)
      moreover have "m \<noteq> []" using 2(4) s by (auto simp: since_star_def)
      moreover have "glob a n' \<or> n' \<noteq> [] \<and> glob (''*'' # a) (tl n') \<longleftrightarrow> glob (''*'' # a) n'" for n'
        using glob_star_step [of a n'] by blast
      ultimately show ?thesis by (simp add: later_def)
    qed
    ultimately show ?thesis by (auto simp: later_def split: option.splits)
  qed
qed

text \<open>The glob matcher is exact: a configured pattern matches the name of a check exactly when the name, rune by rune,
  splits into one piece for each element of the trimmed pattern, where a star takes any piece, a
  question mark one rune, and any other rune itself; the greedy search with its single mark misses no
  such split. An empty pattern or name never matches.\<close>

theorem check_pattern_exact:
  "MatchCheckPattern pattern' name \<longleftrightarrow> TrimSpace pattern' \<noteq> [] \<and> name \<noteq> [] \<and>
     (\<exists>pieces. concat pieces = runes name \<and> list_all2 glob_piece (runes (TrimSpace pattern')) pieces)"
  using match_loop_correct [of "runes (TrimSpace pattern')" "runes name" None]
  by (simp add: MatchCheckPattern_def since_star_def later_def glob_def Let_def)

section \<open>Checks and review bots\<close>

type_synonym CheckBucket = string

definition CheckBucketPass :: CheckBucket where "CheckBucketPass = ''pass''"
definition CheckBucketFail :: CheckBucket where "CheckBucketFail = ''fail''"
definition CheckBucketPending :: CheckBucket where "CheckBucketPending = ''pending''"
definition CheckBucketCancel :: CheckBucket where "CheckBucketCancel = ''cancel''"
definition CheckBucketSkip :: CheckBucket where "CheckBucketSkip = ''skipping''"

lemmas bucket_defs = CheckBucketPass_def CheckBucketFail_def CheckBucketPending_def CheckBucketCancel_def CheckBucketSkip_def

definition CheckKindRun :: string where "CheckKindRun = ''run''"
definition CheckKindStatus :: string where "CheckKindStatus = ''status''"

text \<open>A check without the retired identities it stands for; instants are nanoseconds, None the zero time.\<close>

record check_info =
  ck_ExpectedMissing :: bool
  ck_Name :: string
  ck_ProviderID :: string
  ck_HeadSHA :: string
  ck_Bucket :: CheckBucket
  ck_Kind :: string
  ck_State :: string
  ck_CompletedAt :: "int option"
  ck_ExecutionID :: string
  ck_RunID :: int
  ck_WorkflowRun :: bool
  ck_Link :: string
  ck_PreRunFailure :: bool
  ck_AwaitingApproval :: bool
  ck_App :: string
  ck_AppID :: int
  ck_Workflow :: string

datatype Check = Check (ck: check_info) (ck_Supersedes: "Check list")

definition no_check :: check_info where
  "no_check = \<lparr> ck_ExpectedMissing = False, ck_Name = [], ck_ProviderID = [], ck_HeadSHA = [], ck_Bucket = [], ck_Kind = [],
     ck_State = [], ck_CompletedAt = None, ck_ExecutionID = [], ck_RunID = 0, ck_WorkflowRun = False, ck_Link = [], ck_PreRunFailure = False,
     ck_AwaitingApproval = False, ck_App = [], ck_AppID = 0, ck_Workflow = [] \<rparr>"

definition Failing :: "Check \<Rightarrow> bool" where
  "Failing c \<longleftrightarrow> ck_Bucket (ck c) = CheckBucketFail"

definition Pending :: "Check \<Rightarrow> bool" where
  "Pending c \<longleftrightarrow> ck_Bucket (ck c) = CheckBucketPending"

definition DisplayName :: "Check \<Rightarrow> string" where
  "DisplayName c = (if ck_Workflow (ck c) = [] then ck_Name (ck c) else ck_Workflow (ck c) @ '' / '' @ ck_Name (ck c))"

definition passed_check :: "Check \<Rightarrow> bool" where
  "passed_check c \<longleftrightarrow> ck_Bucket (ck c) = CheckBucketPass \<or> ck_Bucket (ck c) = CheckBucketSkip"

record ReviewBot =
  rb_AppSlug :: string
  rb_Logins :: "string list"
  rb_GitLabLogins :: "string list"
  rb_CheckNames :: "string list"
  rb_CompletionFromReview :: bool

definition ReviewBots :: "ReviewBot list" where
  "ReviewBots =
     [\<lparr> rb_AppSlug = ''chatgpt-codex-connector'', rb_Logins = [''chatgpt-codex-connector[bot]'', ''chatgpt-codex-connector''],
        rb_GitLabLogins = [], rb_CheckNames = [''Codex Review''], rb_CompletionFromReview = True \<rparr>,
      \<lparr> rb_AppSlug = ''greptile-apps'', rb_Logins = [''greptile-apps[bot]'', ''greptile-apps''],
        rb_GitLabLogins = [''greptileai''], rb_CheckNames = [''Greptile Review''], rb_CompletionFromReview = False \<rparr>]"

definition ReviewBotForApp :: "string \<Rightarrow> ReviewBot option" where
  "ReviewBotForApp slug =
     (let s = to_lower (TrimSpace slug) in if s = [] then None else find (\<lambda>b. EqualFold (rb_AppSlug b) s) ReviewBots)"

definition ReviewBotForCheck :: "Check \<Rightarrow> ReviewBot option" where
  "ReviewBotForCheck c =
     (if TrimSpace (ck_App (ck c)) \<noteq> [] then ReviewBotForApp (ck_App (ck c))
      else find (\<lambda>b. list_ex (\<lambda>n. EqualFold (TrimSpace (ck_Name (ck c))) n) (rb_CheckNames b)) ReviewBots)"

definition logins :: "string \<Rightarrow> ReviewBot \<Rightarrow> string list" where
  "logins provider b =
     (if provider = ''github'' then rb_Logins b else if provider = ''gitlab'' then rb_GitLabLogins b else [])"

definition ReviewBotForLogin :: "string \<Rightarrow> string \<Rightarrow> ReviewBot option" where
  "ReviewBotForLogin provider login =
     (let l = to_lower (TrimSpace login) in
      if l = [] then None else find (\<lambda>b. list_ex (\<lambda>known. EqualFold known l) (logins provider b)) ReviewBots)"

definition IsReviewBotLogin :: "string \<Rightarrow> string \<Rightarrow> bool" where
  "IsReviewBotLogin provider login \<longleftrightarrow> ReviewBotForLogin provider login \<noteq> None"

section \<open>The policy and its required set\<close>

record RequiredCheck =
  rq_Context :: string
  rq_AppID :: int
  rq_SelfStatus :: bool

record CheckScopeResolution =
  rs_Required :: "RequiredCheck list"
  rs_Derived :: bool

record CheckScopePolicy =
  py_NoCI :: bool
  py_ReviewBotComments :: string
  py_RequiredChecks :: string
  py_MustPass :: "string list"
  py_ExternalChecks :: "string list"
  py_Resolved :: "CheckScopeResolution option"

datatype CheckRole = CheckRoleRequired | CheckRoleExternal | CheckRoleInformational

definition satisfiedBy :: "RequiredCheck \<Rightarrow> check_info \<Rightarrow> bool" where
  "satisfiedBy r c \<longleftrightarrow> ck_Name c = rq_Context r \<and> (rq_AppID r \<le> 0 \<or> ck_AppID c = rq_AppID r) \<and>
     (rq_SelfStatus r \<longrightarrow> ck_Kind c = CheckKindRun)"

text \<open>The requirements are trimmed, deduplicated and sorted; the order of two that differ in \<open>SelfStatus\<close> only,
  which \<open>sort.Slice\<close> leaves open, is kept here.\<close>

fun normalize_required :: "RequiredCheck list \<Rightarrow> RequiredCheck list \<Rightarrow> RequiredCheck list" where
  "normalize_required seen [] = []"
| "normalize_required seen (r # rs) =
     (let r' = r\<lparr>rq_Context := TrimSpace (rq_Context r), rq_AppID := max 0 (rq_AppID r)\<rparr> in
      if rq_Context r' = [] \<or> r' \<in> set seen then normalize_required seen rs
      else r' # normalize_required (r' # seen) rs)"

definition normalizeRequired :: "RequiredCheck list \<Rightarrow> RequiredCheck list" where
  "normalizeRequired rs = sort_key (\<lambda>r. (rq_Context r, rq_AppID r)) (normalize_required [] rs)"

record CheckScope =
  sc_policy :: CheckScopePolicy
  sc_branch :: string
  sc_resolved :: bool
  sc_required :: "RequiredCheck list"
  sc_derived :: bool

definition NewCheckScope :: "CheckScopePolicy \<Rightarrow> string \<Rightarrow> CheckScope" where
  "NewCheckScope policy branch =
     (case py_Resolved policy of
        None \<Rightarrow> \<lparr> sc_policy = policy, sc_branch = TrimSpace branch, sc_resolved = False, sc_required = [], sc_derived = False \<rparr>
      | Some r \<Rightarrow>
          let required = normalizeRequired (rs_Required r) in
          \<lparr> sc_policy = policy, sc_branch = TrimSpace branch, sc_resolved = True, sc_required = required,
            sc_derived = (rs_Derived r \<and> required \<noteq> []) \<rparr>)"

definition Resolution :: "CheckScope \<Rightarrow> CheckScopeResolution option" where
  "Resolution s = (if sc_resolved s then Some \<lparr> rs_Required = sc_required s, rs_Derived = sc_derived s \<rparr> else None)"

definition Policy :: "CheckScope \<Rightarrow> CheckScopePolicy" where
  "Policy s = (case Resolution s of None \<Rightarrow> sc_policy s | Some r \<Rightarrow> (sc_policy s)\<lparr>py_Resolved := Some r\<rparr>)"

text \<open>What reading the required checks of the branch gives; None is a forge without a reader.\<close>

datatype required_read = ReadInterrupted | ReadUnavailable | ReadFailed | ReadRequired "RequiredCheck list"

definition requiredContexts :: "required_read option \<Rightarrow> CheckScope \<Rightarrow> (RequiredCheck list \<times> bool) \<times> CheckScope" where
  "requiredContexts reader s =
     (if sc_resolved s then ((sc_required s, sc_derived s), s)
      else if to_lower (TrimSpace (py_RequiredChecks (sc_policy s))) = ''all'' then (([], False), s\<lparr>sc_resolved := True\<rparr>)
      else if reader = None \<or> sc_branch s = [] then (([], False), s\<lparr>sc_resolved := True\<rparr>)
      else case the reader of
          ReadInterrupted \<Rightarrow> (([], False), s)
        | ReadRequired contexts \<Rightarrow>
            let s' = (if contexts = [] then s else
                  s\<lparr>sc_required := normalizeRequired contexts, sc_derived := (normalizeRequired contexts \<noteq> [])\<rparr>) in
            ((sc_required s', sc_derived s'), s'\<lparr>sc_resolved := True\<rparr>)
        | _ \<Rightarrow> ((sc_required s, sc_derived s), s\<lparr>sc_resolved := True\<rparr>))"

section \<open>The role of a check\<close>

definition matchesCheckIdentity :: "string list \<Rightarrow> check_info \<Rightarrow> bool" where
  "matchesCheckIdentity patterns c \<longleftrightarrow> list_ex (\<lambda>pattern'. case Cut (TrimSpace pattern') '' / '' of
       Some (workflow, job) \<Rightarrow>
         (ck_Workflow c = [] \<or> MatchCheckPattern workflow (ck_Workflow c)) \<and> MatchCheckPattern job (ck_Name c)
     | None \<Rightarrow> MatchCheckPattern pattern' (ck_Name c)) patterns"

definition classifyIdentity :: "CheckScopePolicy \<Rightarrow> RequiredCheck list \<Rightarrow> bool \<Rightarrow> check_info \<Rightarrow> CheckRole" where
  "classifyIdentity policy required derived c =
     (if matchesCheckIdentity (py_ExternalChecks policy) c then CheckRoleExternal
      else if matchesCheckIdentity (py_MustPass policy) c then CheckRoleRequired
      else if \<not> derived then CheckRoleRequired
      else if list_ex (\<lambda>r. satisfiedBy r c) required then CheckRoleRequired
      else CheckRoleInformational)"

fun scan_roles :: "CheckRole \<Rightarrow> CheckRole list \<Rightarrow> CheckRole" where
  "scan_roles role [] = role"
| "scan_roles role (r # rs) =
     (if r = CheckRoleRequired then CheckRoleRequired
      else scan_roles (if r = CheckRoleInformational then CheckRoleInformational else role) rs)"

fun classify :: "CheckScopePolicy \<Rightarrow> RequiredCheck list \<Rightarrow> bool \<Rightarrow> Check \<Rightarrow> CheckRole" where
  "classify policy required derived (Check c old) =
     (let role = classifyIdentity policy required derived c in
      if role = CheckRoleRequired then role else scan_roles role (map (classify policy required derived) old))"

fun satisfies :: "CheckScopePolicy \<Rightarrow> RequiredCheck list \<Rightarrow> bool \<Rightarrow> RequiredCheck \<Rightarrow> string \<Rightarrow> Check \<Rightarrow> bool" where
  "satisfies policy required derived want workflow (Check c old) =
     (if ck_WorkflowRun c \<and> passed_check (Check c old) then False
      else if classifyIdentity policy required derived c = CheckRoleRequired \<and> satisfiedBy want c \<and>
              (workflow = [] \<or> ck_Workflow c = workflow) then True
      else list_ex (satisfies policy required derived want workflow) old)"

section \<open>The partition of a head\<close>

record ScopedChecks =
  sd_Relevant :: "Check list"
  sd_External :: "Check list"
  sd_Informational :: "Check list"
  sd_emptyReady :: bool
  sd_reviewBotCommentsAlways :: bool

definition selfStatusOnly :: "RequiredCheck list \<Rightarrow> bool" where
  "selfStatusOnly rs \<longleftrightarrow> list_all (\<lambda>r. rq_SelfStatus r \<and> rq_AppID r \<le> 0) rs \<and> rs \<noteq> []"

definition placeholder :: "RequiredCheck \<Rightarrow> Check" where
  "placeholder want = Check (no_check\<lparr>ck_Name := rq_Context want, ck_AppID := rq_AppID want, ck_Kind := CheckKindRun\<rparr>) []"

definition missing_required :: "string \<Rightarrow> RequiredCheck \<Rightarrow> Check" where
  "missing_required head want = Check (no_check\<lparr>ck_Name := rq_Context want, ck_AppID := rq_AppID want, ck_Kind := CheckKindRun,
     ck_HeadSHA := head, ck_Bucket := CheckBucketPending, ck_State := ''EXPECTED'', ck_ExpectedMissing := True\<rparr>) []"

definition missing_pattern :: "string \<Rightarrow> string \<Rightarrow> Check" where
  "missing_pattern head pattern' =
     (let c = no_check\<lparr>ck_Name := pattern', ck_HeadSHA := head, ck_Bucket := CheckBucketPending, ck_State := ''EXPECTED'',
                 ck_ExpectedMissing := True\<rparr> in
      case Cut pattern' '' / '' of
        None \<Rightarrow> Check c [] | Some (workflow, job) \<Rightarrow> Check (c\<lparr>ck_Name := job, ck_Workflow := workflow\<rparr>) [])"

definition literal_pattern :: "string \<Rightarrow> bool" where
  "literal_pattern p \<longleftrightarrow> p \<noteq> [] \<and> CHR ''*'' \<notin> set p \<and> CHR ''?'' \<notin> set p"

definition missing_wants ::
  "CheckScopePolicy \<Rightarrow> RequiredCheck list \<Rightarrow> bool \<Rightarrow> string \<Rightarrow> Check list \<Rightarrow> Check list" where
  "missing_wants policy required derived head checks =
     map (missing_required head) (filter (\<lambda>want.
       classify policy required derived (missing_required head want) = CheckRoleRequired \<and>
       \<not> (rq_SelfStatus want \<and> rq_AppID want \<le> 0) \<and>
       \<not> list_ex (satisfies policy required derived want []) checks) required)"

fun add_must_pass ::
  "CheckScopePolicy \<Rightarrow> RequiredCheck list \<Rightarrow> bool \<Rightarrow> string \<Rightarrow> string list \<Rightarrow> Check list \<Rightarrow> Check list" where
  "add_must_pass policy required derived head [] relevant = relevant"
| "add_must_pass policy required derived head (p # ps) relevant =
     (let pattern' = TrimSpace p; missing = missing_pattern head pattern';
          want = \<lparr> rq_Context = ck_Name (ck missing), rq_AppID = 0, rq_SelfStatus = False \<rparr> in
      add_must_pass policy required derived head ps
        (if literal_pattern pattern' \<and> classify policy required derived missing = CheckRoleRequired \<and>
            \<not> list_ex (satisfies policy required derived want (ck_Workflow (ck missing))) relevant
         then relevant @ [missing] else relevant))"

definition partition_checks ::
  "CheckScopePolicy \<Rightarrow> RequiredCheck list \<Rightarrow> bool \<Rightarrow> string \<Rightarrow> Check list \<Rightarrow> ScopedChecks" where
  "partition_checks policy required derived head checks =
     (let role = classify policy required derived;
          evaluated = filter (\<lambda>want. role (placeholder want) \<noteq> CheckRoleExternal) required;
          observed = (checks \<noteq> [] \<or> derived \<and> selfStatusOnly evaluated);
          relevant = filter (\<lambda>c. role c = CheckRoleRequired) checks @ missing_wants policy required derived head checks in
      \<lparr> sd_Relevant = add_must_pass policy required derived head (py_MustPass policy) relevant,
        sd_External = filter (\<lambda>c. role c = CheckRoleExternal) checks,
        sd_Informational = filter (\<lambda>c. role c = CheckRoleInformational) checks,
        sd_emptyReady = (observed \<and> (derived \<or> py_NoCI policy)),
        sd_reviewBotCommentsAlways = (py_ReviewBotComments policy = ''always'') \<rparr>)"

definition Apply :: "required_read option \<Rightarrow> string \<Rightarrow> Check list \<Rightarrow> CheckScope \<Rightarrow> ScopedChecks \<times> CheckScope" where
  "Apply reader head checks s =
     (let ((required, derived), s') = requiredContexts reader s in
      (partition_checks (sc_policy s) required derived head checks, s'))"

definition Includes :: "required_read option \<Rightarrow> Check \<Rightarrow> CheckScope \<Rightarrow> bool \<times> CheckScope" where
  "Includes reader c s =
     (let ((required, derived), s') = requiredContexts reader s in
      (classify (sc_policy s) required derived c = CheckRoleRequired, s'))"

definition IncludesContext :: "required_read option \<Rightarrow> string \<Rightarrow> CheckScope \<Rightarrow> bool \<times> CheckScope" where
  "IncludesContext reader name s =
     (let ((required0, derived), s') = requiredContexts reader s; policy = sc_policy s;
          required = map (\<lambda>r. r\<lparr>rq_AppID := 0, rq_SelfStatus := False\<rparr>) required0;
          identity = no_check\<lparr>ck_Name := name\<rparr>;
          qualified = (case Cut name '' / '' of
             None \<Rightarrow> identity | Some (workflow, job) \<Rightarrow> identity\<lparr>ck_Name := job, ck_Workflow := workflow\<rparr>) in
      (if matchesCheckIdentity (py_ExternalChecks policy) identity \<or> matchesCheckIdentity (py_ExternalChecks policy) qualified then False
       else if classify policy required derived (Check identity []) = CheckRoleRequired then True
       else if list_ex (\<lambda>p. TrimSpace p = name) (py_MustPass policy) then True
       else classify policy required derived (Check qualified []) = CheckRoleRequired, s'))"

section \<open>Readiness\<close>

definition Settled :: "ScopedChecks \<Rightarrow> bool" where
  "Settled s \<longleftrightarrow> list_all (\<lambda>c. ck_Bucket (ck c) \<in> {CheckBucketPass, CheckBucketFail, CheckBucketSkip}) (sd_Relevant s) \<and>
     (sd_reviewBotCommentsAlways s \<longrightarrow> \<not> list_ex (\<lambda>c. ReviewBotForCheck c \<noteq> None \<and> Pending c) (sd_Informational s))"

definition Ready :: "ScopedChecks \<Rightarrow> bool" where
  "Ready s \<longleftrightarrow> Settled s \<and> (if sd_Relevant s = [] then sd_emptyReady s else list_all passed_check (sd_Relevant s))"

definition unsettledNames :: "Check list \<Rightarrow> string list" where
  "unsettledNames cs = sort (map (\<lambda>c. ck_Name (ck c) @ '' ('' @ ck_Bucket (ck c) @ '')'') (filter (\<lambda>c. \<not> passed_check c) cs))"

definition Summary :: "ScopedChecks \<Rightarrow> string" where
  "Summary s =
     (let ext = unsettledNames (sd_External s); inf = unsettledNames (sd_Informational s) in
      Join ''; '' ((if ext = [] then [] else [''external (awaiting outside approval): '' @ Join '', '' ext]) @
                    (if inf = [] then [] else [''informational (not required, ignored): '' @ Join '', '' inf])))"

section \<open>Comments of the review bots\<close>

record ReviewComment =
  rvc_ID :: string
  rvc_Author :: string
  rvc_Path :: string
  rvc_Line :: int
  rvc_Body :: string

definition ReviewBotPresenceMarkers :: "Check list \<Rightarrow> ScopedChecks \<Rightarrow> Check list" where
  "ReviewBotPresenceMarkers externalBots s = sd_External s @ externalBots @
     filter (\<lambda>c. ReviewBotForCheck c \<noteq> None \<and> Pending c) (sd_Informational s)"

definition bot_check :: "string \<Rightarrow> string \<Rightarrow> Check" where
  "bot_check name app = Check (no_check\<lparr>ck_Name := name, ck_App := app\<rparr>) []"

definition ExternalReviewBotChecks :: "CheckScope \<Rightarrow> Check list" where
  "ExternalReviewBotChecks s = concat (map (\<lambda>bot.
     (case find (\<lambda>name. classify (sc_policy s) [] False (bot_check name (rb_AppSlug bot)) = CheckRoleExternal) (rb_CheckNames bot) of
        None \<Rightarrow> [] | Some name \<Rightarrow> [bot_check name (rb_AppSlug bot)])) ReviewBots)"

definition ReviewBotCommentChecks :: "Check list \<Rightarrow> Check list \<Rightarrow> Check list" where
  "ReviewBotCommentChecks checks excluded =
     (let own = List.map_filter (\<lambda>c. map_option rb_AppSlug (ReviewBotForApp (ck_App (ck c)))) checks;
          out = List.map_filter (\<lambda>c. map_option rb_AppSlug (ReviewBotForCheck c)) excluded in
      filter (\<lambda>c. ReviewBotForApp (ck_App (ck c)) \<noteq> None \<and> passed_check c) checks @
      map (\<lambda>b. bot_check [] (rb_AppSlug b)) (filter (\<lambda>b. rb_AppSlug b \<notin> set own \<union> set out) ReviewBots))"

text \<open>
  \<open>ReadReadinessReviewBotComments\<close>; the forge says what it supports, which bots still review the head, and
  its comments. None stands for a failed read.
\<close>

record comment_host =
  ch_provider :: string
  ch_capable :: bool
  ch_pending :: "(string \<Rightarrow> bool option) option"
  ch_comments :: "ReviewComment list option option"

datatype comments_error = CommentsUnsupported | CommentsFailed | ReviewBotIsPending string

fun pending_bots :: "(string \<Rightarrow> bool option) option \<Rightarrow> string \<Rightarrow> ReviewBot list \<Rightarrow> string option" where
  "pending_bots signals found [] = Some found"
| "pending_bots signals found (b # bs) =
     (case signals of
        None \<Rightarrow> pending_bots signals found bs
      | Some pending \<Rightarrow>
          if \<not> rb_CompletionFromReview b then pending_bots signals found bs
          else (case pending (rb_AppSlug b) of
                  None \<Rightarrow> None
                | Some p \<Rightarrow> pending_bots signals (if p then rb_AppSlug b else found) bs))"

definition candidate_bots :: "string \<Rightarrow> Check list \<Rightarrow> Check list \<Rightarrow> ReviewBot list" where
  "candidate_bots provider checks excluded =
     filter (\<lambda>b. logins provider b \<noteq> [])
       (List.map_filter (\<lambda>c. ReviewBotForApp (ck_App (ck c))) (ReviewBotCommentChecks checks excluded))"

definition ReadReadinessReviewBotComments ::
  "comment_host \<Rightarrow> CheckScopePolicy \<Rightarrow> Check list \<Rightarrow> Check list \<Rightarrow> comments_error + ReviewComment list" where
  "ReadReadinessReviewBotComments host policy checks excluded =
     (let bots = candidate_bots (ch_provider host) checks excluded in
      if py_ReviewBotComments policy \<noteq> ''always'' \<or> \<not> ch_capable host then Inr []
      else if bots = [] then Inr []
      else case ch_comments host of
          None \<Rightarrow> Inl CommentsUnsupported
        | Some comments \<Rightarrow>
            (case pending_bots (ch_pending host) [] bots of
               None \<Rightarrow> Inl CommentsFailed
             | Some pending \<Rightarrow>
                 (case comments of
                    None \<Rightarrow> Inl CommentsFailed
                  | Some cs \<Rightarrow>
                      let unresolved = filter (\<lambda>c. case ReviewBotForLogin (ch_provider host) (rvc_Author c) of
                            None \<Rightarrow> False | Some b \<Rightarrow> rb_AppSlug b \<in> rb_AppSlug ` set bots) cs in
                      if unresolved = [] \<and> pending \<noteq> [] then Inl (ReviewBotIsPending pending) else Inr unresolved)))"

section \<open>Readiness is exact\<close>

lemma scan_roles_required: "role \<noteq> CheckRoleRequired \<Longrightarrow> scan_roles role rs = CheckRoleRequired \<longleftrightarrow> CheckRoleRequired \<in> set rs"
proof (induction rs arbitrary: role)
  case (Cons r rs)
  then show ?case by (cases r) simp_all
qed simp

lemma satisfies_required:
  "satisfies policy required derived want workflow c \<Longrightarrow> classify policy required derived c = CheckRoleRequired"
proof (induction policy required derived want workflow c rule: satisfies.induct)
  case (1 policy required derived want workflow c old)
  show ?case
  proof (cases "classifyIdentity policy required derived c = CheckRoleRequired")
    case False
    then obtain x where "x \<in> set old" "satisfies policy required derived want workflow x"
      using 1(2) by (auto simp: list_ex_iff split: if_splits)
    then have "CheckRoleRequired \<in> set (map (classify policy required derived) old)"
      using 1(1) False 1(2) by (force split: if_splits)
    then show ?thesis using False by (simp add: scan_roles_required)
  qed simp
qed

lemma satisfies_not_run: "satisfies policy required derived want workflow c \<Longrightarrow> passed_check c \<Longrightarrow> \<not> ck_WorkflowRun (ck c)"
  by (cases c) (auto split: if_splits)

lemma missing_pending: "\<not> passed_check (missing_required head want)" "\<not> passed_check (missing_pattern head pattern')"
  by (simp_all add: passed_check_def missing_required_def missing_pattern_def bucket_defs Let_def split: option.split prod.split)

definition unmet_pattern :: "CheckScopePolicy \<Rightarrow> RequiredCheck list \<Rightarrow> bool \<Rightarrow> string \<Rightarrow> Check list \<Rightarrow> string \<Rightarrow> bool" where
  "unmet_pattern policy required derived head checks p \<longleftrightarrow>
     (let missing = missing_pattern head (TrimSpace p) in
      literal_pattern (TrimSpace p) \<and> classify policy required derived missing = CheckRoleRequired \<and>
      \<not> list_ex (satisfies policy required derived \<lparr> rq_Context = ck_Name (ck missing), rq_AppID = 0, rq_SelfStatus = False \<rparr>
           (ck_Workflow (ck missing))) checks)"

lemma add_must_pass_Cons: "add_must_pass policy required derived head (p # ps) relevant =
    add_must_pass policy required derived head ps
      (if unmet_pattern policy required derived head relevant p then relevant @ [missing_pattern head (TrimSpace p)] else relevant)"
  by (simp add: unmet_pattern_def Let_def)

lemma add_must_pass_grows: "\<exists>more. add_must_pass policy required derived head ps relevant = relevant @ more \<and>
    (more = [] \<longleftrightarrow> \<not> list_ex (unmet_pattern policy required derived head relevant) ps) \<and> list_all (\<lambda>c. \<not> passed_check c) more"
proof (induction ps arbitrary: relevant)
  case (Cons p ps)
  define missing where "missing = missing_pattern head (TrimSpace p)"
  show ?case
  proof (cases "unmet_pattern policy required derived head relevant p")
    case True
    obtain more where "add_must_pass policy required derived head ps (relevant @ [missing]) = (relevant @ [missing]) @ more"
        "list_all (\<lambda>c. \<not> passed_check c) more" using Cons by blast
    then show ?thesis using True missing_pending
      by (intro exI [of _ "missing # more"]) (simp add: add_must_pass_Cons missing_def del: add_must_pass.simps(2))
  next
    case False
    then show ?thesis using Cons [of relevant] by (simp add: add_must_pass_Cons del: add_must_pass.simps(2))
  qed
qed simp

text \<open>C40. Readiness is exact: a head is ready under a scope exactly when every observed check that counts is green; every
  authoritative requirement that is neither external nor the unbound status of the pipeline itself
  is satisfied by an observed, counting, green check that is not a mere workflow result; so is every
  literal must-pass context; with review-bot comments on, no informational bot check is still pending; and when
  nothing observed counts, something was observed (or only the pipeline's own status is required) and
  the required set is known or no CI is declared.\<close>

theorem ready_exact:
  fixes policy required derived head checks
  defines "role \<equiv> classify policy required derived"
  shows "Ready (partition_checks policy required derived head checks) \<longleftrightarrow>
    (\<forall>c \<in> set checks. role c = CheckRoleRequired \<longrightarrow> passed_check c) \<and>
    (\<forall>want \<in> set required. role (missing_required head want) = CheckRoleRequired \<and> \<not> (rq_SelfStatus want \<and> rq_AppID want \<le> 0) \<longrightarrow>
       (\<exists>c \<in> set checks. role c = CheckRoleRequired \<and> passed_check c \<and> \<not> ck_WorkflowRun (ck c) \<and>
          satisfies policy required derived want [] c)) \<and>
    (\<forall>p \<in> set (py_MustPass policy). literal_pattern (TrimSpace p) \<and> role (missing_pattern head (TrimSpace p)) = CheckRoleRequired \<longrightarrow>
       (\<exists>c \<in> set checks. role c = CheckRoleRequired \<and> passed_check c \<and> \<not> ck_WorkflowRun (ck c) \<and>
          satisfies policy required derived
            \<lparr> rq_Context = ck_Name (ck (missing_pattern head (TrimSpace p))), rq_AppID = 0, rq_SelfStatus = False \<rparr>
            (ck_Workflow (ck (missing_pattern head (TrimSpace p)))) c)) \<and>
    (py_ReviewBotComments policy = ''always'' \<longrightarrow>
       (\<forall>c \<in> set checks. role c = CheckRoleInformational \<and> ReviewBotForCheck c \<noteq> None \<longrightarrow> \<not> Pending c)) \<and>
    ((\<forall>c \<in> set checks. role c \<noteq> CheckRoleRequired) \<longrightarrow>
       (checks \<noteq> [] \<or> derived \<and> selfStatusOnly (filter (\<lambda>want. role (placeholder want) \<noteq> CheckRoleExternal) required)) \<and>
       (derived \<or> py_NoCI policy))"
proof -
  define own where "own = filter (\<lambda>c. role c = CheckRoleRequired) checks"
  define wants where "wants = missing_wants policy required derived head checks"
  obtain more where more: "add_must_pass policy required derived head (py_MustPass policy) (own @ wants) = (own @ wants) @ more"
      "more = [] \<longleftrightarrow> \<not> list_ex (unmet_pattern policy required derived head (own @ wants)) (py_MustPass policy)"
      "list_all (\<lambda>c. \<not> passed_check c) more"
    using add_must_pass_grows by blast
  have wants: "list_all (\<lambda>c. \<not> passed_check c) wants"
    by (simp add: wants_def missing_wants_def list_all_iff missing_pending)
  have bucket: "passed_check c \<Longrightarrow> ck_Bucket (ck c) \<in> {CheckBucketPass, CheckBucketFail, CheckBucketSkip}" for c
    by (auto simp: passed_check_def)
  define quiet where "quiet \<longleftrightarrow> (py_ReviewBotComments policy = ''always'' \<longrightarrow>
      (\<forall>c \<in> set checks. role c = CheckRoleInformational \<and> ReviewBotForCheck c \<noteq> None \<longrightarrow> \<not> Pending c))"
  define empty where "empty \<longleftrightarrow> (checks \<noteq> [] \<or>
      derived \<and> selfStatusOnly (filter (\<lambda>want. role (placeholder want) \<noteq> CheckRoleExternal) required)) \<and> (derived \<or> py_NoCI policy)"
  have parts: "sd_Relevant (partition_checks policy required derived head checks) = own @ wants @ more"
    "sd_emptyReady (partition_checks policy required derived head checks) = empty"
    "sd_Informational (partition_checks policy required derived head checks) = filter (\<lambda>c. role c = CheckRoleInformational) checks"
    "sd_reviewBotCommentsAlways (partition_checks policy required derived head checks) = (py_ReviewBotComments policy = ''always'')"
    using more(1) by (simp_all add: partition_checks_def Let_def role_def own_def wants_def empty_def)
  have "(sd_reviewBotCommentsAlways (partition_checks policy required derived head checks) \<longrightarrow>
      \<not> list_ex (\<lambda>c. ReviewBotForCheck c \<noteq> None \<and> Pending c) (sd_Informational (partition_checks policy required derived head checks))) \<longleftrightarrow> quiet"
    unfolding quiet_def parts(3,4) by (auto simp: list_ex_iff)
  then have settled: "Settled (partition_checks policy required derived head checks) \<longleftrightarrow>
      list_all (\<lambda>c. ck_Bucket (ck c) \<in> {CheckBucketPass, CheckBucketFail, CheckBucketSkip}) (own @ wants @ more) \<and> quiet"
    unfolding Settled_def parts(1) by simp
  have ready: "Ready (partition_checks policy required derived head checks) \<longleftrightarrow>
      list_all passed_check (own @ wants @ more) \<and> quiet \<and> (own @ wants @ more = [] \<longrightarrow> empty)"
  proof (cases "own @ wants @ more = []")
    case False
    have "list_all passed_check (own @ wants @ more) \<Longrightarrow>
        list_all (\<lambda>c. ck_Bucket (ck c) \<in> {CheckBucketPass, CheckBucketFail, CheckBucketSkip}) (own @ wants @ more)"
      using bucket unfolding list_all_iff by blast
    then show ?thesis using False unfolding Ready_def settled parts(1,2) if_not_P [OF False] by blast
  qed (unfold Ready_def settled parts(1,2), simp)
  have none: "list_all passed_check (own @ wants @ more) \<longleftrightarrow> list_all passed_check own \<and> wants = [] \<and> more = []"
    using wants more(3) by (cases wants; cases more) auto
  have own: "list_all passed_check own \<longleftrightarrow> (\<forall>c \<in> set checks. role c = CheckRoleRequired \<longrightarrow> passed_check c)"
    by (auto simp: own_def list_all_iff)
  have counts: "satisfies policy required derived want workflow c \<Longrightarrow> role c = CheckRoleRequired" for want workflow c
    using satisfies_required by (simp add: role_def)
  have met: "list_ex (satisfies policy required derived want workflow) own \<longleftrightarrow> list_ex (satisfies policy required derived want workflow) checks"
    "list_ex (satisfies policy required derived want workflow) checks \<longleftrightarrow>
      (\<exists>c \<in> set checks. role c = CheckRoleRequired \<and> passed_check c \<and> \<not> ck_WorkflowRun (ck c) \<and>
         satisfies policy required derived want workflow c)"
    if "list_all passed_check own" for want workflow
  proof -
    show "list_ex (satisfies policy required derived want workflow) own \<longleftrightarrow> list_ex (satisfies policy required derived want workflow) checks"
      using counts by (auto simp: own_def list_ex_iff)
    have "passed_check c" if "c \<in> set checks" "role c = CheckRoleRequired" for c
      using that \<open>list_all passed_check own\<close> by (simp add: own_def list_all_iff)
    then show "list_ex (satisfies policy required derived want workflow) checks \<longleftrightarrow>
        (\<exists>c \<in> set checks. role c = CheckRoleRequired \<and> passed_check c \<and> \<not> ck_WorkflowRun (ck c) \<and>
           satisfies policy required derived want workflow c)"
      unfolding list_ex_iff using counts satisfies_not_run by blast
  qed
  have w: "wants = [] \<longleftrightarrow> (\<forall>want \<in> set required. role (missing_required head want) = CheckRoleRequired \<and> \<not> (rq_SelfStatus want \<and> rq_AppID want \<le> 0) \<longrightarrow>
      list_ex (satisfies policy required derived want []) checks)"
    by (auto simp: wants_def missing_wants_def role_def filter_empty_conv)
  have m: "more = [] \<longleftrightarrow> (\<forall>p \<in> set (py_MustPass policy). literal_pattern (TrimSpace p) \<and> role (missing_pattern head (TrimSpace p)) = CheckRoleRequired \<longrightarrow>
      list_ex (satisfies policy required derived
        \<lparr> rq_Context = ck_Name (ck (missing_pattern head (TrimSpace p))), rq_AppID = 0, rq_SelfStatus = False \<rparr>
        (ck_Workflow (ck (missing_pattern head (TrimSpace p))))) own)" if "wants = []"
    using more(2) that by (auto simp: unmet_pattern_def Let_def role_def list_ex_iff)
  have e: "own = [] \<longleftrightarrow> (\<forall>c \<in> set checks. role c \<noteq> CheckRoleRequired)" by (auto simp: own_def filter_empty_conv)
  show ?thesis
  proof (cases "list_all passed_check own")
    case True
    show ?thesis unfolding ready none quiet_def [symmetric] empty_def [symmetric] using True w m own e unfolding met(1) [OF True] met(2) [OF True] by blast
  next
    case False
    then show ?thesis unfolding ready none quiet_def [symmetric] empty_def [symmetric] using own by blast
  qed
qed

section \<open>A recorded policy rebuilds its scope\<close>

definition required_ok :: "RequiredCheck list \<Rightarrow> bool" where
  "required_ok rs \<longleftrightarrow> distinct rs \<and> sorted (map (\<lambda>r. (rq_Context r, rq_AppID r)) rs) \<and>
     (\<forall>r \<in> set rs. TrimSpace (rq_Context r) = rq_Context r \<and> rq_Context r \<noteq> [] \<and> 0 \<le> rq_AppID r)"

lemma normalize_required_spec:
  "distinct (normalize_required seen rs) \<and> set (normalize_required seen rs) \<inter> set seen = {} \<and>
   (\<forall>r \<in> set (normalize_required seen rs). TrimSpace (rq_Context r) = rq_Context r \<and> rq_Context r \<noteq> [] \<and> 0 \<le> rq_AppID r)"
proof (induction seen rs rule: normalize_required.induct)
  case (2 seen r rs)
  define r' where "r' = r\<lparr>rq_Context := TrimSpace (rq_Context r), rq_AppID := max 0 (rq_AppID r)\<rparr>"
  have r': "TrimSpace (rq_Context r') = rq_Context r'" "0 \<le> rq_AppID r'" by (simp_all add: r'_def)
  have eq: "normalize_required seen (r # rs) = (if rq_Context r' = [] \<or> r' \<in> set seen then normalize_required seen rs
      else r' # normalize_required (r' # seen) rs)" by (simp add: r'_def Let_def)
  show ?case
  proof (cases "rq_Context r' = [] \<or> r' \<in> set seen")
    case True
    then show ?thesis using 2(1) [OF r'_def] unfolding eq by simp
  next
    case False
    then show ?thesis using 2(2) [OF r'_def] r' unfolding eq by auto
  qed
qed simp

lemma normalize_required_id:
  "distinct rs \<Longrightarrow> set rs \<inter> set seen = {} \<Longrightarrow>
   (\<forall>r \<in> set rs. TrimSpace (rq_Context r) = rq_Context r \<and> rq_Context r \<noteq> [] \<and> 0 \<le> rq_AppID r) \<Longrightarrow> normalize_required seen rs = rs"
proof (induction rs arbitrary: seen)
  case (Cons r rs)
  have "r\<lparr>rq_Context := TrimSpace (rq_Context r), rq_AppID := max 0 (rq_AppID r)\<rparr> = r" using Cons.prems(3) by simp
  then show ?case using Cons by (auto simp: Let_def)
qed simp

lemma normalizeRequired_ok: "required_ok (normalizeRequired rs)"
  using normalize_required_spec [of "[]" rs] by (simp add: required_ok_def normalizeRequired_def)

lemma normalizeRequired_id: "required_ok rs \<Longrightarrow> normalizeRequired rs = rs"
  by (simp add: required_ok_def normalizeRequired_def normalize_required_id sorted_sort_id sort_key_id_if_sorted)

lemma classifyIdentity_resolved [simp]: "classifyIdentity (policy\<lparr>py_Resolved := r\<rparr>) required derived c = classifyIdentity policy required derived c"
  by (simp add: classifyIdentity_def)

lemma classify_resolved [simp]: "classify (policy\<lparr>py_Resolved := r\<rparr>) required derived c = classify policy required derived c"
proof (induction c)
  case (Check c old)
  then have "map (classify (policy\<lparr>py_Resolved := r\<rparr>) required derived) old = map (classify policy required derived) old" by simp
  then show ?case by (simp only: classify.simps classifyIdentity_resolved)
qed

lemma satisfies_resolved [simp]:
  "satisfies (policy\<lparr>py_Resolved := r\<rparr>) required derived want workflow c = satisfies policy required derived want workflow c"
proof (induction c)
  case (Check c old)
  then have "list_ex (satisfies (policy\<lparr>py_Resolved := r\<rparr>) required derived want workflow) old =
      list_ex (satisfies policy required derived want workflow) old" by (simp add: list_ex_iff)
  then show ?case by (simp only: satisfies.simps classifyIdentity_resolved)
qed

lemma add_must_pass_resolved [simp]: "add_must_pass (policy\<lparr>py_Resolved := r\<rparr>) required derived head ps cs = add_must_pass policy required derived head ps cs"
proof (induction ps arbitrary: cs)
  case (Cons p ps)
  have "unmet_pattern (policy\<lparr>py_Resolved := r\<rparr>) required derived head cs p = unmet_pattern policy required derived head cs p" for cs p
    by (simp add: unmet_pattern_def Let_def list_ex_iff)
  then show ?case using Cons by (simp add: add_must_pass_Cons del: add_must_pass.simps(2))
qed simp

lemma partition_resolved [simp]:
  "partition_checks (policy\<lparr>py_Resolved := r\<rparr>) required derived head checks = partition_checks policy required derived head checks"
  by (simp add: partition_checks_def missing_wants_def Let_def list_ex_iff)

definition scope_ok :: "CheckScope \<Rightarrow> bool" where
  "scope_ok s \<longleftrightarrow> required_ok (sc_required s) \<and> (sc_derived s \<longrightarrow> sc_required s \<noteq> [])"

definition read_scope :: "required_read option list \<Rightarrow> CheckScope \<Rightarrow> CheckScope" where
  "read_scope answers s = foldl (\<lambda>s r. snd (requiredContexts r s)) s answers"

lemma scope_ok_new: "scope_ok (NewCheckScope policy branch)"
  by (auto simp: NewCheckScope_def scope_ok_def normalizeRequired_ok Let_def required_ok_def [of "[]"] split: option.split)

lemma scope_ok_read: "scope_ok s \<Longrightarrow> scope_ok (snd (requiredContexts r s))"
  by (auto simp: requiredContexts_def scope_ok_def normalizeRequired_ok Let_def split: option.split required_read.split)

lemma read_scope_ok: "scope_ok s \<Longrightarrow> scope_ok (read_scope answers s)"
  unfolding read_scope_def by (induction answers arbitrary: s) (simp_all add: scope_ok_read)

text \<open>A recorded scope decides as the scope that recorded it: once a scope has resolved its required set, after any
  sequence of reads of the forge, a scope rebuilt from its recorded policy, for whatever branch, partitions
  every head exactly as the original does, and no later answer of the forge changes either.\<close>

theorem scope_replay:
  assumes "sc_resolved (read_scope answers (NewCheckScope policy branch))"
  shows "fst (Apply reader head checks (NewCheckScope (Policy (read_scope answers (NewCheckScope policy branch))) branch')) =
    fst (Apply reader' head checks (read_scope answers (NewCheckScope policy branch)))"
proof -
  define s where "s = read_scope answers (NewCheckScope policy branch)"
  have ok: "required_ok (sc_required s)" "sc_derived s \<longrightarrow> sc_required s \<noteq> []"
    using read_scope_ok [OF scope_ok_new] by (simp_all add: s_def scope_ok_def)
  have "Policy s = (sc_policy s)\<lparr>py_Resolved := Some \<lparr> rs_Required = sc_required s, rs_Derived = sc_derived s \<rparr>\<rparr>"
    using assms by (simp add: Policy_def Resolution_def s_def)
  then have "NewCheckScope (Policy s) branch' = \<lparr> sc_policy = Policy s, sc_branch = TrimSpace branch', sc_resolved = True,
      sc_required = sc_required s, sc_derived = sc_derived s \<rparr>"
    using ok by (auto simp: NewCheckScope_def normalizeRequired_id Let_def)
  then show ?thesis
    using assms by (simp add: s_def [symmetric] Apply_def requiredContexts_def)
      (simp add: \<open>Policy s = _\<close>)
qed

definition sample_policy :: CheckScopePolicy where
  "sample_policy = \<lparr> py_NoCI = False, py_ReviewBotComments = [], py_RequiredChecks = ''auto'', py_MustPass = [], py_ExternalChecks = [],
     py_Resolved = None \<rparr>"

definition sample_reads :: "required_read option list" where
  "sample_reads = [Some ReadInterrupted, Some (ReadRequired [\<lparr> rq_Context = ''build'', rq_AppID = 0, rq_SelfStatus = False \<rparr>])]"

theorem scope_replay_witness:
  "sc_resolved (read_scope sample_reads (NewCheckScope sample_policy ''main'')) \<and>
   fst (Apply None [] [] (NewCheckScope (Policy (read_scope sample_reads (NewCheckScope sample_policy ''main''))) [])) =
     fst (Apply (Some ReadFailed) [] [] (read_scope sample_reads (NewCheckScope sample_policy ''main'')))"
proof -
  have "TrimSpace ''auto'' = ''auto''" "TrimSpace ''main'' = ''main''" by (rule TrimSpace_plain, simp_all add: plain_byte_def byte_def)+
  moreover have "to_lower ''auto'' = ''auto''" by code_simp
  then have "sc_resolved (read_scope sample_reads (NewCheckScope sample_policy ''main''))"
    by (simp add: read_scope_def sample_reads_def NewCheckScope_def sample_policy_def requiredContexts_def Let_def)
  then show ?thesis using scope_replay by blast
qed

definition sample_required :: RequiredCheck where
  "sample_required = \<lparr> rq_Context = ''build'', rq_AppID = 0, rq_SelfStatus = False \<rparr>"

theorem ready_exact_witness: "\<not> Ready (partition_checks sample_policy [sample_required] True ''h'' [])"
proof -
  have "classify sample_policy [sample_required] True (missing_required ''h'' sample_required) = CheckRoleRequired"
    by (simp add: missing_required_def classifyIdentity_def matchesCheckIdentity_def sample_policy_def sample_required_def satisfiedBy_def no_check_def Let_def)
  then show ?thesis
    using ready_exact [of sample_policy "[sample_required]" True "''h''" "[]"] by (simp add: sample_required_def)
qed

end
