(* ===== verification/RerunBudget.thy ===== *)
theory RerunBudget
  imports CheckScope FindingOps "HOL-Library.AList"
begin

text \<open>
  The rerun policy of the CI step, from \<open>internal/pipeline/steps/ci_transient.go\<close> and \<open>ci_scope.go\<close>: which failure the provider attributes to
  itself, the budget of reruns one run may spend on each check name with the grace a rerun gets to be
  published, the selection of the checks to rerun, and the names of the checks no rerun will replace. The maps of the
  budget are association lists; their keys are sorted where the code sorts them.
\<close>

section \<open>How a check failed\<close>

datatype failureClass = classGenuine | classTransient | classUnknown

definition checkFailedTerminally :: "Check \<Rightarrow> bool" where
  "checkFailedTerminally c \<longleftrightarrow> Failing c \<or> ck_Bucket (ck c) = CheckBucketCancel"

definition classifyCheckFailure :: "Check \<Rightarrow> failureClass" where
  "classifyCheckFailure c =
     (let state = to_upper (TrimSpace (ck_State (ck c))) in
      if \<not> checkFailedTerminally c then classUnknown
      else if ck_PreRunFailure (ck c) then classTransient
      else if state \<in> {''CANCELLED'', ''CANCELED''} then classTransient
      else if state \<in> {''FAILURE'', ''FAILED'', ''ERROR'', ''TIMED_OUT'', ''ACTION_REQUIRED'', ''STARTUP_FAILURE''} then classGenuine
      else classUnknown)"

section \<open>The budget\<close>

definition rerunRollupGracePolls :: int where "rerunRollupGracePolls = 2"

record rerunRollupState =
  ru_completedAt :: "int option"
  ru_graceRemaining :: int
  ru_headSHA :: string
  ru_observedLinks :: "string list"

record checkRerunBudget =
  bg_spent :: "(string \<times> int) list"
  bg_rollup :: "(string \<times> rerunRollupState) list"

definition new_budget :: checkRerunBudget where
  "new_budget = \<lparr> bg_spent = [], bg_rollup = [] \<rparr>"

definition used :: "checkRerunBudget \<Rightarrow> string \<Rightarrow> int" where
  "used b name = (case map_of (bg_spent b) name of None \<Rightarrow> 0 | Some n \<Rightarrow> n)"

definition remaining :: "checkRerunBudget \<Rightarrow> string \<Rightarrow> int \<Rightarrow> int" where
  "remaining b name limit = (if limit \<le> 0 then 0 else limit - used b name)"

definition observed_links :: "string \<Rightarrow> Check list \<Rightarrow> string list" where
  "observed_links name checks = map (\<lambda>c. ck_Link (ck c)) (filter (\<lambda>c. ck_Name (ck c) = name \<and> ck_Link (ck c) \<noteq> []) checks)"

definition spend :: "Check \<Rightarrow> Check list \<Rightarrow> string \<Rightarrow> checkRerunBudget \<Rightarrow> checkRerunBudget" where
  "spend c checks headSHA b =
     (let name = ck_Name (ck c) in
      \<lparr> bg_spent = AList.update name (used b name + 1) (bg_spent b),
        bg_rollup = AList.update name \<lparr> ru_completedAt = ck_CompletedAt (ck c), ru_graceRemaining = rerunRollupGracePolls,
          ru_headSHA = headSHA, ru_observedLinks = observed_links name checks \<rparr> (bg_rollup b) \<rparr>)"

definition rollupUnchanged :: "checkRerunBudget \<Rightarrow> Check \<Rightarrow> bool" where
  "rollupUnchanged b c \<longleftrightarrow> (case map_of (bg_rollup b) (ck_Name (ck c)) of
     None \<Rightarrow> False
   | Some st \<Rightarrow> ru_completedAt st \<noteq> None \<and> ck_CompletedAt (ck c) \<noteq> None \<and> ck_CompletedAt (ck c) = ru_completedAt st)"

definition awaitingRollupPublication :: "checkRerunBudget \<Rightarrow> Check \<Rightarrow> bool" where
  "awaitingRollupPublication b c \<longleftrightarrow> (case map_of (bg_rollup b) (ck_Name (ck c)) of
     None \<Rightarrow> False | Some st \<Rightarrow> ru_graceRemaining st > 0 \<and> rollupUnchanged b c)"

definition consumeRollupGrace :: "string \<Rightarrow> checkRerunBudget \<Rightarrow> bool \<times> checkRerunBudget" where
  "consumeRollupGrace name b =
     (case map_of (bg_rollup b) name of
        None \<Rightarrow> (False, b)
      | Some st \<Rightarrow>
          if ru_graceRemaining st \<le> 0 then (False, b)
          else (True, b\<lparr>bg_rollup := AList.update name (st\<lparr>ru_graceRemaining := ru_graceRemaining st - 1\<rparr>) (bg_rollup b)\<rparr>))"

text \<open>\<open>retireResolvedReruns\<close>: the names whose rerun is over, and the budget without them; Inl when the write fails.\<close>

definition moved_reruns :: "string \<Rightarrow> checkRerunBudget \<Rightarrow> string list" where
  "moved_reruns currentHead b =
     map fst (filter (\<lambda>(name, st). ru_headSHA st \<noteq> [] \<and> ru_headSHA st \<noteq> currentHead) (bg_rollup b))"

definition rerun_outstanding :: "Check \<Rightarrow> bool" where
  "rerun_outstanding c \<longleftrightarrow> checkFailedTerminally c \<and> classifyCheckFailure c = classTransient \<or>
     ck_Bucket (ck c) \<notin> {CheckBucketPass, CheckBucketFail, CheckBucketSkip}"

definition rerun_resolved :: "checkRerunBudget \<Rightarrow> Check \<Rightarrow> bool" where
  "rerun_resolved b c \<longleftrightarrow> \<not> rerun_outstanding c \<and> ck_Link (ck c) \<noteq> [] \<and>
     (case map_of (bg_rollup b) (ck_Name (ck c)) of None \<Rightarrow> False | Some st \<Rightarrow> ck_Link (ck c) \<notin> set (ru_observedLinks st))"

definition retirable_reruns :: "Check list \<Rightarrow> string \<Rightarrow> checkRerunBudget \<Rightarrow> string list" where
  "retirable_reruns checks currentHead b =
     (let moved = moved_reruns currentHead b;
          tracked = filter (\<lambda>c. map_of (bg_rollup b) (ck_Name (ck c)) \<noteq> None \<and> ck_Name (ck c) \<notin> set moved) checks;
          resolved = map (\<lambda>c. ck_Name (ck c)) (filter (rerun_resolved b) tracked);
          outstanding = map (\<lambda>c. ck_Name (ck c)) (filter rerun_outstanding tracked) in
      moved @ filter (\<lambda>name. name \<notin> set outstanding) resolved)"

definition without_reruns :: "string list \<Rightarrow> checkRerunBudget \<Rightarrow> checkRerunBudget" where
  "without_reruns names b = b\<lparr>bg_rollup := filter (\<lambda>(name, st). name \<notin> set names) (bg_rollup b)\<rparr>"

definition retireResolvedReruns ::
  "Check list \<Rightarrow> string \<Rightarrow> (checkRerunBudget \<Rightarrow> bool) \<Rightarrow> checkRerunBudget \<Rightarrow> unit + (bool \<times> checkRerunBudget)" where
  "retireResolvedReruns checks currentHead persist b =
     (let names = retirable_reruns checks currentHead b in
      if names = [] then Inr (False, b)
      else if \<not> persist (without_reruns names b) then Inl ()
      else Inr (True, without_reruns names b))"

section \<open>Cancelled checks\<close>

text \<open>\<open>cancelledAfterRerun\<close>: the order of the names, whether one of a name was refreshed, and the two lists.\<close>

definition rerun_cancelled :: "checkRerunBudget \<Rightarrow> Check list \<Rightarrow> Check list" where
  "rerun_cancelled b checks = filter (\<lambda>c. used b (ck_Name (ck c)) \<noteq> 0 \<and> ck_Bucket (ck c) = CheckBucketCancel) checks"

definition missing_reruns :: "checkRerunBudget \<Rightarrow> Check list \<Rightarrow> string list" where
  "missing_reruns b checks = sort (remdups (map fst (filter (\<lambda>(name, st).
     used b name \<noteq> 0 \<and> name \<notin> (\<lambda>c. ck_Name (ck c)) ` set checks) (bg_rollup b))))"

fun settle_reruns :: "string list \<Rightarrow> string list \<Rightarrow> checkRerunBudget \<Rightarrow> string list \<times> string list \<times> checkRerunBudget" where
  "settle_reruns refreshed [] b = ([], [], b)"
| "settle_reruns refreshed (name # names) b =
     (let (left, b') = (if name \<in> set refreshed then (False, b) else consumeRollupGrace name b);
          (unresolved, awaiting, b'') = settle_reruns refreshed names b' in
      if left then (unresolved, name # awaiting, b'') else (name # unresolved, awaiting, b''))"

definition cancelledAfterRerun :: "Check list \<Rightarrow> checkRerunBudget \<Rightarrow> string list \<times> string list \<times> checkRerunBudget" where
  "cancelledAfterRerun checks b =
     (let cancelled = rerun_cancelled b checks;
          refreshed = map (\<lambda>c. ck_Name (ck c)) (filter (\<lambda>c. \<not> rollupUnchanged b c) cancelled);
          order = rev (remdups (rev (map (\<lambda>c. ck_Name (ck c)) cancelled))) @ missing_reruns b checks in
      settle_reruns refreshed order b)"

definition cancelledWithoutRerun :: "Check list \<Rightarrow> checkRerunBudget \<Rightarrow> string list" where
  "cancelledWithoutRerun checks b = rev (remdups (rev (map (\<lambda>c. ck_Name (ck c))
     (filter (\<lambda>c. ck_Bucket (ck c) = CheckBucketCancel \<and> used b (ck_Name (ck c)) \<le> 0) checks))))"

definition mergeCheckNames :: "string list \<Rightarrow> string list \<Rightarrow> string list" where
  "mergeCheckNames base extra = base @ rev (remdups (rev (filter (\<lambda>n. n \<notin> set base) extra)))"

section \<open>Selecting and requesting reruns\<close>

definition foldRunCoveredJobs :: "Check list \<Rightarrow> Check list" where
  "foldRunCoveredJobs checks =
     (let cancelledRuns = map (\<lambda>c. ck_RunID (ck c)) (filter (\<lambda>c. ck_WorkflowRun (ck c) \<and> ck_RunID (ck c) \<noteq> 0 \<and>
            ck_Bucket (ck c) = CheckBucketCancel) checks) in
      filter (\<lambda>c. \<not> (\<not> ck_WorkflowRun (ck c) \<and> ck_RunID (ck c) \<noteq> 0 \<and> ck_Bucket (ck c) = CheckBucketCancel \<and>
        ck_RunID (ck c) \<in> set cancelledRuns)) checks)"

text \<open>The loop of \<open>transientRerunCandidates\<close>; the names selected so far are the reservations. None: nothing is selected.\<close>

fun select_reruns :: "checkRerunBudget \<Rightarrow> int \<Rightarrow> Check list \<Rightarrow> Check list \<Rightarrow> Check list option" where
  "select_reruns b limit [] candidates = Some candidates"
| "select_reruns b limit (c # cs) candidates =
     (if \<not> checkFailedTerminally c then select_reruns b limit cs candidates
      else if classifyCheckFailure c \<noteq> classTransient then None
      else if awaitingRollupPublication b c then select_reruns b limit cs candidates
      else if remaining b (ck_Name (ck c)) limit - int (count_list (map (\<lambda>c. ck_Name (ck c)) candidates) (ck_Name (ck c))) > 0
      then select_reruns b limit cs (candidates @ [c])
      else select_reruns b limit cs candidates)"

definition transientRerunCandidates :: "Check list \<Rightarrow> checkRerunBudget \<Rightarrow> int \<Rightarrow> Check list" where
  "transientRerunCandidates checks b limit =
     (if limit \<le> 0 then [] else case select_reruns b limit (foldRunCoveredJobs checks) [] of None \<Rightarrow> [] | Some cs \<Rightarrow> cs)"

text \<open>
  \<open>rerunTransientChecks\<close> spends, persists and requests the candidates one by one. For each candidate an answer says
  whether the reservation was written and whether the provider took the request; the process is gone where the answers end. The
  result lists the names the provider was asked for, the budget in memory and the last one written.
\<close>

fun request_reruns ::
  "Check list \<Rightarrow> string \<Rightarrow> (bool \<times> bool) list \<Rightarrow> Check list \<Rightarrow> checkRerunBudget \<Rightarrow> checkRerunBudget \<Rightarrow>
   bool \<times> string list \<times> checkRerunBudget \<times> checkRerunBudget" where
  "request_reruns checks headSHA answers [] b durable = (False, [], b, durable)"
| "request_reruns checks headSHA [] (c # cs) b durable = (False, [], b, durable)"
| "request_reruns checks headSHA ((persisted, taken) # answers) (c # cs) b durable =
     (let b' = spend c checks headSHA b in
      if \<not> persisted then (False, [], b', durable)
      else let (issued, names, b'', durable') = request_reruns checks headSHA answers cs b' b' in
        (taken \<or> issued, ck_Name (ck c) # names, b'', durable'))"

datatype rerun_result = NoReruns | HeadMoved string | Requested bool "string list"

definition rerunTransientChecks ::
  "int \<Rightarrow> bool \<Rightarrow> string \<Rightarrow> string option \<Rightarrow> (bool \<times> bool) list \<Rightarrow> Check list \<Rightarrow> checkRerunBudget \<Rightarrow> checkRerunBudget \<Rightarrow>
   rerun_result \<times> checkRerunBudget \<times> checkRerunBudget" where
  "rerunTransientChecks limit capable headSHA published answers checks b durable =
     (let candidates = transientRerunCandidates checks b limit in
      if limit \<le> 0 \<or> \<not> capable \<or> candidates = [] then (NoReruns, b, durable)
      else case published of
          None \<Rightarrow> (NoReruns, b, durable)
        | Some p \<Rightarrow>
            if p \<noteq> headSHA then (HeadMoved p, b, durable)
            else let (issued, names, b', durable') = request_reruns checks headSHA answers candidates b durable in
              (Requested issued names, b', durable'))"

text \<open>\<open>markPreRunInfraFailures\<close>: what the provider says of each failing check, None for no answer.\<close>

fun mark_failures :: "bool list \<Rightarrow> Check list \<Rightarrow> Check list" where
  "mark_failures infra [] = []"
| "mark_failures infra (c # cs) =
     (if \<not> Failing c then c # mark_failures infra cs
      else case infra of
          [] \<Rightarrow> c # mark_failures [] cs
        | i # is \<Rightarrow> (if i then Check ((ck c)\<lparr>ck_PreRunFailure := True, ck_Bucket := CheckBucketCancel\<rparr>) (ck_Supersedes c) else c) # mark_failures is cs)"

definition markPreRunInfraFailures :: "int \<Rightarrow> bool list option \<Rightarrow> Check list \<Rightarrow> Check list" where
  "markPreRunInfraFailures limit infra checks =
     (if limit \<le> 0 then checks
      else case infra of
          None \<Rightarrow> checks
        | Some flags \<Rightarrow> if length flags \<noteq> length (filter Failing checks) then checks else mark_failures flags checks)"


section \<open>Persistence and scope\<close>

text \<open>\<open>loadRerunBudget\<close>: None is a row that cannot be read; an empty budget is written as the empty string, which restores nothing.\<close>

definition loadRerunBudget :: "checkRerunBudget option \<Rightarrow> checkRerunBudget \<Rightarrow> checkRerunBudget" where
  "loadRerunBudget stored b =
     (case stored of None \<Rightarrow> b | Some d \<Rightarrow> if bg_spent d = [] \<and> bg_rollup d = [] then b else d)"

fun first_some :: "'a option list \<Rightarrow> 'a option" where
  "first_some [] = None"
| "first_some (x # xs) = (case x of None \<Rightarrow> first_some xs | Some y \<Rightarrow> Some y)"

definition on_its_own :: "Check \<Rightarrow> Check" where
  "on_its_own c = Check (ck c) []"

fun supersededIdentityWithID :: "string \<Rightarrow> Check \<Rightarrow> Check option" where
  "supersededIdentityWithID i (Check c old) =
     first_some (map (\<lambda>identity. if ck_ProviderID (ck identity) = i then Some (on_its_own identity)
                                 else supersededIdentityWithID i identity) old)"

fun supersededIdentitiesNamed :: "string \<Rightarrow> Check \<Rightarrow> Check list" where
  "supersededIdentitiesNamed name (Check c old) =
     concat (map (\<lambda>identity. (if ck_Name (ck identity) = name \<or> DisplayName identity = name then [on_its_own identity] else []) @
       supersededIdentitiesNamed name identity) old)"

text \<open>The checks one observed check is judged by: itself under its own name, else the jobs of that name it stands for.\<close>

definition judged_as :: "string \<Rightarrow> string \<Rightarrow> Check \<Rightarrow> Check list" where
  "judged_as name i c =
     (if i \<noteq> [] \<and> ck_ProviderID (ck c) \<noteq> i then []
      else if name = [] \<or> ck_Name (ck c) = name \<or> DisplayName c = name then [c]
      else let identities = supersededIdentitiesNamed name c in if identities = [] \<and> i \<noteq> [] then [c] else identities)"

definition retained_by_name :: "required_read option \<Rightarrow> CheckScope \<Rightarrow> Check list \<Rightarrow> string \<Rightarrow> bool" where
  "retained_by_name reader scope checks name =
     (let judged = concat (map (judged_as name []) checks) in
      if list_ex (\<lambda>c. fst (Includes reader c scope)) judged then True
      else judged = [] \<and> fst (IncludesContext reader name scope))"

definition retainedCICheckIncluded :: "required_read option \<Rightarrow> CheckScope \<Rightarrow> Check list \<Rightarrow> string \<Rightarrow> string \<Rightarrow> bool" where
  "retainedCICheckIncluded reader scope checks name i =
     (if i = [] then retained_by_name reader scope checks name
      else let judged = concat (map (judged_as name i) checks) in
        if judged \<noteq> [] then list_ex (\<lambda>c. fst (Includes reader c scope)) judged
        else case first_some (map (supersededIdentityWithID i) checks) of
            Some identity \<Rightarrow> fst (Includes reader identity scope)
          | None \<Rightarrow> retained_by_name reader scope checks name)"

text \<open>\<open>scopeRetainedCIReruns\<close>: Inl when the narrowed budget could not be written.\<close>

definition scopeRetainedCIReruns ::
  "required_read option \<Rightarrow> CheckScope \<Rightarrow> Check list \<Rightarrow> (checkRerunBudget \<Rightarrow> bool) \<Rightarrow> checkRerunBudget \<Rightarrow>
   unit + (bool \<times> checkRerunBudget)" where
  "scopeRetainedCIReruns reader scope checks persist b =
     (let candidate = b\<lparr>bg_rollup := filter (\<lambda>(name, st). retainedCICheckIncluded reader scope checks name []) (bg_rollup b)\<rparr> in
      if length (bg_rollup candidate) = length (bg_rollup b) then Inr (False, b)
      else if \<not> persist candidate then Inl ()
      else Inr (True, candidate))"

section \<open>The budget is never exceeded\<close>

lemma used_update: "used \<lparr> bg_spent = AList.update name n sp, bg_rollup = r \<rparr> x = (if x = name then n else used \<lparr> bg_spent = sp, bg_rollup = r \<rparr> x)"
  by (simp add: used_def update_conv')

lemma used_rollup [simp]: "used (b\<lparr>bg_rollup := r\<rparr>) x = used b x"
  by (simp add: used_def)

lemma used_spend: "used (spend c checks head b) x = used b x + (if x = ck_Name (ck c) then 1 else 0)"
  by (simp add: spend_def Let_def used_def update_conv')

abbreviation cnames :: "Check list \<Rightarrow> string list" where "cnames cs \<equiv> map (\<lambda>c. ck_Name (ck c)) cs"

abbreviation asked :: "string list \<Rightarrow> string \<Rightarrow> int" where "asked ns x \<equiv> int (count_list ns x)"

lemma select_within_budget:
  "\<lbrakk>select_reruns b limit cs got = Some sel; \<And>x. asked (cnames got) x \<le> max 0 (limit - used b x); 0 < limit\<rbrakk>
   \<Longrightarrow> asked (cnames sel) x \<le> max 0 (limit - used b x)"
proof (induction b limit cs got rule: select_reruns.induct)
  case (2 b limit c cs got)
  have step: "asked (cnames (got @ [c])) y \<le> max 0 (limit - used b y)"
    if "remaining b (ck_Name (ck c)) limit - asked (cnames got) (ck_Name (ck c)) > 0" for y
    using that "2.prems"(2) [of y] "2.prems"(3) by (auto simp: remaining_def)
  show ?case using "2.prems" "2.IH" step by (simp split: if_splits)
qed simp

lemma candidates_within_budget:
  "asked (cnames (transientRerunCandidates checks b limit)) x \<le> max 0 (limit - used b x)"
  using select_within_budget [of b limit "foldRunCoveredJobs checks" "[]" _ x]
  by (auto simp: transientRerunCandidates_def split: option.splits)

text \<open>A name that was asked for is spent in the budget in memory and in the one written last.\<close>

lemma requests_spend:
  "request_reruns checks head answers cs b durable = (issued, ns, b', durable')
   \<Longrightarrow> used b x + asked ns x \<le> used b' x \<and> used b' x \<le> used b x + asked (cnames cs) x \<and>
     (durable' = durable \<and> ns = [] \<or> used b x + asked ns x \<le> used durable' x \<and> used durable' x \<le> used b' x)"
proof (induction checks head answers cs b durable arbitrary: issued ns b' durable' rule: request_reruns.induct)
  case (3 checks head persisted taken answers c cs b durable)
  define b1 where "b1 = spend c checks head b"
  have b1: "used b1 y = used b y + (if y = ck_Name (ck c) then 1 else 0)" for y by (simp add: b1_def used_spend)
  show ?case
  proof (cases persisted)
    case False
    then have "b' = b1" "durable' = durable" "ns = []" using "3.prems" by (auto simp: b1_def [symmetric])
    then show ?thesis using b1 [of x] by auto
  next
    case True
    obtain i2 ns2 b2 d2 where rest: "request_reruns checks head answers cs b1 b1 = (i2, ns2, b2, d2)" by (cases "request_reruns checks head answers cs b1 b1")
    have eqs: "b' = b2" "durable' = d2" "ns = ck_Name (ck c) # ns2" using "3.prems" True rest by (auto simp: b1_def [symmetric])
    have "used b1 x + asked ns2 x \<le> used b2 x \<and> used b2 x \<le> used b1 x + asked (cnames cs) x \<and>
        (d2 = b1 \<and> ns2 = [] \<or> used b1 x + asked ns2 x \<le> used d2 x \<and> used d2 x \<le> used b2 x)"
      using "3.IH" [OF b1_def] True rest by simp
    then show ?thesis unfolding eqs using b1 [of x] by auto
  qed
qed auto

text \<open>
  One run: how often a restart could not read the budget and began afresh, the budget in memory, the budget written
  last, the names the provider was asked to rerun, and the names the monitor waited for since the budget was loaded.
\<close>

fun requested :: "rerun_result \<Rightarrow> string list" where
  "requested (Requested issued ns) = ns"
| "requested r = []"

inductive rerun_run :: "int \<Rightarrow> nat \<Rightarrow> checkRerunBudget \<Rightarrow> checkRerunBudget \<Rightarrow> string list \<Rightarrow> string list \<Rightarrow> bool" for limit where
  start: "rerun_run limit 0 new_budget new_budget [] []"
| load: "rerun_run limit k m d ns aw \<Longrightarrow> stored = Some d \<or> stored = None \<Longrightarrow> rerun_run limit k (loadRerunBudget stored m) d ns []"
| restart: "rerun_run limit k m d ns aw \<Longrightarrow> rerun_run limit k (loadRerunBudget (Some d) new_budget) d ns []"
| forget: "rerun_run limit k m d ns aw \<Longrightarrow> rerun_run limit (Suc k) (loadRerunBudget None new_budget) d ns []"
| retire: "\<lbrakk>rerun_run limit k m d ns aw; retireResolvedReruns checks head persist m = Inr (written, m')\<rbrakk>
    \<Longrightarrow> rerun_run limit k m' (if written then m' else d) ns aw"
| narrow: "\<lbrakk>rerun_run limit k m d ns aw; scopeRetainedCIReruns reader scope checks persist m = Inr (written, m')\<rbrakk>
    \<Longrightarrow> rerun_run limit k m' (if written then m' else d) ns aw"
| ask: "\<lbrakk>rerun_run limit k m d ns aw; rerunTransientChecks limit capable head published answers checks m d = (r, m', d')\<rbrakk>
    \<Longrightarrow> rerun_run limit k m' d' (ns @ requested r) aw"
| settle: "\<lbrakk>rerun_run limit k m d ns aw; cancelledAfterRerun checks m = (unresolved, awaiting, m')\<rbrakk>
    \<Longrightarrow> rerun_run limit k m' d ns (aw @ awaiting)"

definition grace :: "checkRerunBudget \<Rightarrow> string \<Rightarrow> int" where
  "grace b x = (case map_of (bg_rollup b) x of None \<Rightarrow> 0 | Some st \<Rightarrow> max 0 (ru_graceRemaining st))"

lemma map_of_filter_keys: "map_of (filter (\<lambda>(k, v). P k) xs) x = (if P x then map_of xs x else None)"
  by (induction xs) auto

lemma grace_filter: "grace (b\<lparr>bg_rollup := filter (\<lambda>(name, st). P name) (bg_rollup b)\<rparr>) x = (if P x then grace b x else 0)"
  by (simp add: grace_def map_of_filter_keys)

lemma grace_nonneg [simp]: "0 \<le> grace b x"
  by (simp add: grace_def split: option.split)

lemma grace_new [simp]: "grace new_budget x = 0"
  by (simp add: grace_def new_budget_def)

lemma used_new [simp]: "used new_budget x = 0"
  by (simp add: used_def new_budget_def)

lemma grace_spend: "grace (spend c checks head b) x = (if x = ck_Name (ck c) then 2 else grace b x)"
  by (simp add: spend_def Let_def grace_def update_conv' rerunRollupGracePolls_def)

lemma consume_grace:
  "consumeRollupGrace name b = (left, b') \<Longrightarrow> used b' x = used b x \<and>
     grace b' x = grace b x - (if left \<and> x = name then 1 else 0)"
  by (auto simp: consumeRollupGrace_def grace_def update_conv' split: option.splits if_splits)


definition slack :: "checkRerunBudget \<Rightarrow> string \<Rightarrow> int" where
  "slack b x = 2 * used b x - grace b x"

lemma requests_slack:
  "\<lbrakk>request_reruns checks head answers cs b durable = (issued, ns, b', durable'); 0 \<le> slack b x; 0 \<le> slack durable x\<rbrakk>
   \<Longrightarrow> slack b x \<le> slack b' x \<and> 0 \<le> slack durable' x"
proof (induction checks head answers cs b durable arbitrary: issued ns b' durable' rule: request_reruns.induct)
  case (3 checks head persisted taken answers c cs b durable)
  define b1 where "b1 = spend c checks head b"
  have b1: "slack b x \<le> slack b1 x" using grace_nonneg [of b x] by (simp add: b1_def slack_def used_spend grace_spend)
  show ?case
  proof (cases persisted)
    case False
    then have "b' = b1" "durable' = durable" using "3.prems"(1) by (auto simp: b1_def [symmetric])
    then show ?thesis using b1 "3.prems"(3) by simp
  next
    case True
    obtain i2 ns2 b2 d2 where rest: "request_reruns checks head answers cs b1 b1 = (i2, ns2, b2, d2)" by (cases "request_reruns checks head answers cs b1 b1")
    have eqs: "b' = b2" "durable' = d2" using "3.prems"(1) True rest by (auto simp: b1_def [symmetric])
    have "slack b1 x \<le> slack b2 x \<and> 0 \<le> slack d2 x" using "3.IH" [OF b1_def] True rest b1 "3.prems"(2) by simp
    then show ?thesis unfolding eqs using b1 by simp
  qed
qed auto

lemma rerun_spends:
  assumes "rerunTransientChecks limit capable head published answers checks m d = (r, m', d')"
    and slack: "0 \<le> slack m x" "0 \<le> slack d x"
  shows "used m x + asked (requested r) x \<le> used m' x \<and> used m' x \<le> max (used m x) (max 0 limit) \<and>
    (d' = d \<and> requested r = [] \<or> used m x + asked (requested r) x \<le> used d' x \<and> used d' x \<le> used m' x) \<and>
    slack m x \<le> slack m' x \<and> 0 \<le> slack d' x"
proof -
  consider (idle) "requested r = []" "m' = m" "d' = d"
    | (asks) issued ns where "request_reruns checks head answers (transientRerunCandidates checks m limit) m d = (issued, ns, m', d')" "r = Requested issued ns"
    using assms(1) by (auto simp: rerunTransientChecks_def Let_def split: if_splits option.splits prod.splits)
  then show ?thesis
  proof cases
    case idle
    then show ?thesis using slack by simp
  next
    case asks
    note spends = requests_spend [OF asks(1)] and slacks = requests_slack [OF asks(1) slack]
    have "asked (cnames (transientRerunCandidates checks m limit)) x \<le> max 0 (limit - used m x)" by (rule candidates_within_budget)
    then show ?thesis using spends [of x] slacks asks(2) by auto
  qed
qed

lemma settle_shape:
  "settle_reruns refreshed order b = (unresolved, awaiting, b') \<Longrightarrow>
     used b' x = used b x \<and> grace b x = grace b' x + asked awaiting x \<and> set order = set unresolved \<union> set awaiting"
proof (induction refreshed order b arbitrary: unresolved awaiting b' rule: settle_reruns.induct)
  case (2 refreshed name names b)
  obtain left b1 where first: "(if name \<in> set refreshed then (False, b) else consumeRollupGrace name b) = (left, b1)" by force
  obtain u a b2 where rest: "settle_reruns refreshed names b1 = (u, a, b2)" by (cases "settle_reruns refreshed names b1")
  have one: "used b1 x = used b x" "grace b1 x = grace b x - (if left \<and> x = name then 1 else 0)"
    using first consume_grace [of name b left b1 x] by (auto split: if_splits)
  have ih: "used b2 x = used b1 x \<and> grace b1 x = grace b2 x + asked a x \<and> set names = set u \<union> set a"
    using "2.IH" [OF first [symmetric] refl rest] .
  have "unresolved = (if left then u else name # u)" "awaiting = (if left then name # a else a)" "b' = b2"
    using "2.prems" first rest by (auto split: if_splits)
  then show ?case using one ih by auto
qed simp


definition budget_ok :: "int \<Rightarrow> nat \<Rightarrow> checkRerunBudget \<Rightarrow> checkRerunBudget \<Rightarrow> string list \<Rightarrow> string list \<Rightarrow> string \<Rightarrow> bool" where
  "budget_ok limit k m d ns aw x \<longleftrightarrow> asked ns x \<le> int k * max 0 limit + used m x \<and> asked ns x \<le> int k * max 0 limit + used d x \<and>
     used m x \<le> max 0 limit \<and> used d x \<le> max 0 limit \<and> asked aw x \<le> slack m x \<and> 0 \<le> slack d x"

lemma load_budget: "m' = loadRerunBudget stored m \<Longrightarrow> m' = m \<and> (\<forall>d. stored = Some d \<longrightarrow> bg_spent d = []) \<or> stored = Some m'"
  by (auto simp: loadRerunBudget_def split: option.splits if_splits)

lemma narrowed: "retireResolvedReruns checks head persist m = Inr (written, m') \<Longrightarrow>
    used m' x = used m x \<and> slack m x \<le> slack m' x \<and> (\<not> written \<longrightarrow> m' = m)"
  "scopeRetainedCIReruns reader scope checks persist m = Inr (written, m') \<Longrightarrow>
    used m' x = used m x \<and> slack m x \<le> slack m' x \<and> (\<not> written \<longrightarrow> m' = m)"
  by (auto simp: retireResolvedReruns_def scopeRetainedCIReruns_def without_reruns_def Let_def slack_def grace_filter split: if_splits)

lemma rerun_run_ok: "rerun_run limit k m d ns aw \<Longrightarrow> budget_ok limit k m d ns aw x"
proof (induction arbitrary: x rule: rerun_run.induct)
  case start
  show ?case by (simp add: budget_ok_def slack_def)
next
  case (load k m d ns aw stored)
  show ?case using load_budget [OF refl, of stored m] load.IH [of x] load.hyps(2) by (auto simp: budget_ok_def)
next
  case (restart k m d ns aw)
  have "bg_spent d = [] \<longrightarrow> used d x = 0" by (simp add: used_def)
  then show ?case using load_budget [OF refl, of "Some d" new_budget] restart.IH [of x] by (auto simp: budget_ok_def slack_def)
next
  case (forget k m d ns aw)
  have fresh: "loadRerunBudget None new_budget = new_budget" by (simp add: loadRerunBudget_def)
  have old: "asked ns x \<le> int k * max 0 limit + used m x" "asked ns x \<le> int k * max 0 limit + used d x" "used m x \<le> max 0 limit"
      "used d x \<le> max 0 limit" "0 \<le> slack d x"
    using forget.IH [of x] by (simp_all add: budget_ok_def)
  have "int (Suc k) * max 0 limit = int k * max 0 limit + max 0 limit" by (simp add: algebra_simps)
  moreover have "0 \<le> max 0 limit" by simp
  ultimately show ?case using old unfolding budget_ok_def fresh by (intro conjI) (linarith | simp add: slack_def)+
next
  case (retire k m d ns aw checks head persist written m')
  show ?case using narrowed(1) [OF retire.hyps(2), of x] retire.IH [of x] by (auto simp: budget_ok_def)
next
  case (narrow k m d ns aw reader scope checks persist written m')
  show ?case using narrowed(2) [OF narrow.hyps(2), of x] narrow.IH [of x] by (auto simp: budget_ok_def)
next
  case (ask k m d ns aw capable head published answers checks r m' d')
  have "0 \<le> slack m x" "0 \<le> slack d x" using ask.IH [of x] by (auto simp: budget_ok_def)
  from rerun_spends [OF ask.hyps(2) this] show ?case using ask.IH [of x] by (auto simp: budget_ok_def)
next
  case (settle k m d ns aw checks unresolved awaiting m')
  then have "used m' x = used m x \<and> grace m x = grace m' x + asked awaiting x"
    using settle_shape by (auto simp: cancelledAfterRerun_def Let_def)
  then show ?case using settle.IH [of x] by (auto simp: budget_ok_def slack_def)
qed

text \<open>C39. Whatever the polls, failed requests, failed writes, retirements and restarts of a run are, the provider is asked for at most the
  configured limit of reruns of one check name, and once more that limit for each restart that could not read the stored budget and
  so began with a fresh one. Since the budget was last loaded the monitor waits for the rerun of a name on at most two polls for each
  rerun of that limit, so a rerun the provider never shows cannot stall the run.\<close>

theorem rerun_limit:
  assumes "rerun_run limit k m d ns aw"
  shows "asked ns name \<le> (int k + 1) * max 0 limit \<and> asked aw name \<le> 2 * max 0 limit"
proof (rule conjI)
  have "asked ns name \<le> int k * max 0 limit + used m name" "used m name \<le> max 0 limit" "asked aw name \<le> 2 * used m name - grace m name"
    using rerun_run_ok [OF assms, of name] by (simp_all add: budget_ok_def slack_def)
  moreover have "0 \<le> grace m name" "(int k + 1) * max 0 limit = int k * max 0 limit + max 0 limit" by (simp_all add: algebra_simps)
  ultimately show "asked ns name \<le> (int k + 1) * max 0 limit" "asked aw name \<le> 2 * max 0 limit" by linarith+
qed

definition sample_cancelled :: Check where
  "sample_cancelled = Check (no_check\<lparr>ck_Name := ''build'', ck_Bucket := CheckBucketCancel, ck_State := ''CANCELLED'', ck_CompletedAt := Some 7\<rparr>) []"

lemma sample_cancelled_class: "classifyCheckFailure sample_cancelled = classTransient" "checkFailedTerminally sample_cancelled"
  by (simp_all add: sample_cancelled_def no_check_def checkFailedTerminally_def classifyCheckFailure_def Failing_def bucket_defs
    TrimSpace_plain plain_byte_def to_upper_def upper_char_def Let_def)

lemma sample_request: "rerunTransientChecks 1 True ''h'' (Some ''h'') [(True, False)] [sample_cancelled] new_budget d =
  (Requested False [''build''], spend sample_cancelled [sample_cancelled] ''h'' new_budget, spend sample_cancelled [sample_cancelled] ''h'' new_budget)"
proof -
  have "foldRunCoveredJobs [sample_cancelled] = [sample_cancelled]" "ck_Name (ck sample_cancelled) = ''build''"
    by (simp_all add: foldRunCoveredJobs_def sample_cancelled_def no_check_def)
  moreover have "\<not> awaitingRollupPublication new_budget sample_cancelled" "used new_budget ''build'' = 0"
    by (simp_all add: awaitingRollupPublication_def new_budget_def used_def)
  ultimately show ?thesis
    by (simp add: rerunTransientChecks_def transientRerunCandidates_def sample_cancelled_class remaining_def Let_def)
qed

lemma sample_settle: "cancelledAfterRerun [sample_cancelled] (spend sample_cancelled [sample_cancelled] ''h'' new_budget) =
  ([], [''build''], snd (consumeRollupGrace ''build'' (spend sample_cancelled [sample_cancelled] ''h'' new_budget)))"
  by (simp add: cancelledAfterRerun_def rerun_cancelled_def missing_reruns_def sample_cancelled_def no_check_def used_def spend_def
    new_budget_def bucket_defs rollupUnchanged_def consumeRollupGrace_def rerunRollupGracePolls_def Let_def)

text \<open>With a limit of one: one request, and a second after a restart that could not read what was spent.\<close>

theorem rerun_limit_witness:
  "(\<exists>m d. rerun_run 1 0 m d [''build''] [''build''] \<and> asked [''build''] ''build'' \<le> (int 0 + 1) * max 0 1 \<and>
     asked [''build''] ''build'' \<le> 2 * max 0 1) \<and>
   (\<exists>m d. rerun_run 1 1 m d [''build'', ''build''] [] \<and> asked [''build'', ''build''] ''build'' \<le> (int 1 + 1) * max 0 1)"
proof -
  let ?b = "spend sample_cancelled [sample_cancelled] ''h'' new_budget"
  have first: "rerun_run 1 0 ?b ?b ([] @ requested (Requested False [''build''])) []"
    by (rule rerun_run.ask [OF rerun_run.start sample_request])
  have waits: "rerun_run 1 0 (snd (consumeRollupGrace ''build'' ?b)) ?b [''build''] [''build'']"
    using rerun_run.settle [OF first sample_settle] by simp
  have "rerun_run 1 1 new_budget ?b [''build''] []"
    using rerun_run.forget [OF first] by (simp add: loadRerunBudget_def)
  from rerun_run.ask [OF this sample_request] have again: "rerun_run 1 1 ?b ?b [''build'', ''build''] []" by simp
  have "asked [''build''] ''build'' \<le> (int 0 + 1) * max 0 1 \<and> asked [''build''] ''build'' \<le> 2 * max 0 1"
    using rerun_limit [OF waits, of "''build''"] by simp
  moreover have "asked [''build'', ''build''] ''build'' \<le> (int 1 + 1) * max 0 1"
    using rerun_limit [OF again, of "''build''"] by simp
  ultimately show ?thesis using waits again by blast
qed

section \<open>A cancelled check is never read as green\<close>

lemma cancelled_order:
  "cancelledAfterRerun checks b = (unresolved, awaiting, b') \<Longrightarrow>
     set unresolved \<union> set awaiting = set (cnames (rerun_cancelled b checks)) \<union> set (missing_reruns b checks) \<and> used b' = used b"
  by (rule conjI [OF _ ext]) (use settle_shape in \<open>fastforce simp: cancelledAfterRerun_def Let_def\<close>)+

lemma folded_cover:
  assumes "c \<in> set checks" "ck_Bucket (ck c) = CheckBucketCancel"
  shows "\<exists>c' \<in> set (foldRunCoveredJobs checks). ck_Bucket (ck c') = CheckBucketCancel \<and>
    (c' = c \<or> ck_WorkflowRun (ck c') \<and> ck_RunID (ck c') = ck_RunID (ck c))"
proof (cases "c \<in> set (foldRunCoveredJobs checks)")
  case False
  then obtain c' where "c' \<in> set checks" "ck_WorkflowRun (ck c')" "ck_RunID (ck c') \<noteq> 0" "ck_Bucket (ck c') = CheckBucketCancel"
      "ck_RunID (ck c') = ck_RunID (ck c)"
    using assms by (auto simp: foldRunCoveredJobs_def Let_def)
  then show ?thesis using assms(2) by (intro bexI [of _ c']) (auto simp: foldRunCoveredJobs_def Let_def)
qed (use assms(2) in auto)

text \<open>Nothing the provider cancelled is read as settled well: every cancelled check of a poll, or the cancelled workflow run that stands for
  it, is reported as unresolved or waited for, and so is every check whose outstanding rerun the poll does not show at all.\<close>

theorem cancelled_never_green:
  "case cancelledAfterRerun (foldRunCoveredJobs checks) b of (unresolved, awaiting, b') \<Rightarrow>
     let open_names = mergeCheckNames unresolved (cancelledWithoutRerun (foldRunCoveredJobs checks) b') @ awaiting in
     (\<forall>c \<in> set checks. ck_Bucket (ck c) = CheckBucketCancel \<longrightarrow>
        (\<exists>c' \<in> set checks. ck_Name (ck c') \<in> set open_names \<and>
           (c' = c \<or> ck_WorkflowRun (ck c') \<and> ck_RunID (ck c') = ck_RunID (ck c)))) \<and>
     (\<forall>name \<in> fst ` set (bg_rollup b). used b name \<noteq> 0 \<longrightarrow> name \<notin> set (cnames checks) \<longrightarrow> name \<in> set open_names)"
proof -
  obtain u a b' where after: "cancelledAfterRerun (foldRunCoveredJobs checks) b = (u, a, b')" by (cases "cancelledAfterRerun (foldRunCoveredJobs checks) b")
  let ?fold = "foldRunCoveredJobs checks"
  have fold: "set ?fold \<subseteq> set checks" by (auto simp: foldRunCoveredJobs_def Let_def)
  have open_names: "set (mergeCheckNames u (cancelledWithoutRerun ?fold b') @ a) = set u \<union> set a \<union> set (cancelledWithoutRerun ?fold b')"
    by (auto simp: mergeCheckNames_def)
  have "ck_Name (ck c) \<in> set u \<union> set a \<union> set (cancelledWithoutRerun ?fold b')"
    if "c \<in> set ?fold" "ck_Bucket (ck c) = CheckBucketCancel" for c
    using that cancelled_order [OF after] by (cases "used b (ck_Name (ck c)) = 0") (auto simp: rerun_cancelled_def cancelledWithoutRerun_def)
  then have "\<exists>c' \<in> set checks. ck_Name (ck c') \<in> set u \<union> set a \<union> set (cancelledWithoutRerun ?fold b') \<and>
      (c' = c \<or> ck_WorkflowRun (ck c') \<and> ck_RunID (ck c') = ck_RunID (ck c))"
    if "c \<in> set checks" "ck_Bucket (ck c) = CheckBucketCancel" for c
    using folded_cover [OF that] fold by blast
  moreover have "name \<in> set u \<union> set a" if "name \<in> fst ` set (bg_rollup b)" "used b name \<noteq> 0" "name \<notin> set (cnames checks)" for name
  proof -
    have "name \<notin> (\<lambda>c. ck_Name (ck c)) ` set ?fold" using that(3) fold by auto
    then have "name \<in> set (missing_reruns b ?fold)" using that(1,2) by (force simp: missing_reruns_def image_iff)
    then show ?thesis using cancelled_order [OF after] by simp
  qed
  ultimately show ?thesis unfolding after prod.case Let_def open_names by blast
qed

theorem cancelled_never_green_witness:
  "''build'' \<in> set (case cancelledAfterRerun (foldRunCoveredJobs [sample_cancelled]) new_budget of (unresolved, awaiting, b') \<Rightarrow>
     mergeCheckNames unresolved (cancelledWithoutRerun (foldRunCoveredJobs [sample_cancelled]) b') @ awaiting)"
proof -
  have "ck_Bucket (ck sample_cancelled) = CheckBucketCancel" "ck_Name (ck sample_cancelled) = ''build''"
    by (simp_all add: sample_cancelled_def no_check_def)
  then show ?thesis using cancelled_never_green [of "[sample_cancelled]" new_budget] by (auto simp: Let_def split: prod.splits)
qed

end
