(* ===== verification/CIChecks.thy ===== *)
theory CIChecks
  imports RerunBudget ReviewResolution
begin

text \<open>
  What the CI step reads from one poll, from \<open>internal/pipeline/steps/ci_checks.go\<close> and \<open>ci_findings.go\<close>: the pacing
  of the polls, the predicates over the checks, the memory of the last repair that keeps stale failures from being repaired
  again, and the findings one settled observation becomes, with the outcomes the monitor ends with. Durations are nanoseconds. The
  memory of the last repair is the value the code keeps encoded in a string of its own; its maps are association
  lists. The comments of the review bots are bounded by count and by the length of their JSON text.
\<close>

section \<open>Pacing\<close>

definition seconds :: "int \<Rightarrow> int" where "seconds n = n * 1000000000"

definition pollInterval :: "int \<Rightarrow> int" where
  "pollInterval elapsed =
     (if elapsed < seconds 300 then seconds 30 else if elapsed < seconds 900 then seconds 60 else seconds 120)"

definition ciPollInterval :: "bool \<Rightarrow> int \<Rightarrow> int \<Rightarrow> int" where
  "ciPollInterval strict elapsed override =
     (let interval = (if override = 0 then pollInterval elapsed else override) in
      if strict \<and> interval < seconds 300 then seconds 300 else interval)"

definition ciUnchangedPollMax :: int where "ciUnchangedPollMax = seconds 300"

fun double_interval :: "nat \<Rightarrow> int \<Rightarrow> int" where
  "double_interval 0 interval = interval"
| "double_interval (Suc n) interval =
     (if interval < ciUnchangedPollMax then double_interval n (interval * 2) else interval)"

definition unchangedPollInterval :: "int \<Rightarrow> int \<Rightarrow> int" where
  "unchangedPollInterval interval unchanged =
     (if interval \<ge> ciUnchangedPollMax then interval
      else min (double_interval (nat unchanged) interval) ciUnchangedPollMax)"

text \<open>\<open>waitForPoll\<close>: the wait before the next poll, cut to what is left of the timeout and of the missing receipt's allowance.\<close>

definition capped :: "int option \<Rightarrow> int \<Rightarrow> int" where
  "capped left interval = (case left of None \<Rightarrow> interval | Some r \<Rightarrow> if r > 0 \<and> r < interval then r else interval)"

definition waitForPoll :: "bool \<Rightarrow> int \<Rightarrow> int \<Rightarrow> int \<Rightarrow> int option \<Rightarrow> int option \<Rightarrow> int" where
  "waitForPoll strict elapsed override unchanged timeout_left receipt_left =
     (let interval = ciPollInterval strict elapsed override;
          interval' = (if override = 0 then unchangedPollInterval interval unchanged else interval) in
      capped receipt_left (capped timeout_left interval'))"

section \<open>Predicates over the checks\<close>

definition hasFailingChecks :: "Check list \<Rightarrow> bool" where
  "hasFailingChecks cs \<longleftrightarrow> list_ex Failing cs"

definition executing :: "Check \<Rightarrow> bool" where
  "executing c \<longleftrightarrow> Pending c \<and> \<not> ck_AwaitingApproval (ck c) \<and> \<not> ck_ExpectedMissing (ck c)"

definition hasExecutingPendingChecks :: "Check list \<Rightarrow> bool" where
  "hasExecutingPendingChecks cs \<longleftrightarrow> list_ex executing cs"

definition hasAwaitingApprovalChecks :: "Check list \<Rightarrow> bool" where
  "hasAwaitingApprovalChecks cs \<longleftrightarrow> list_ex (\<lambda>c. ck_AwaitingApproval (ck c) \<and> Pending c) cs"

definition failingCheckNames :: "Check list \<Rightarrow> string list" where
  "failingCheckNames cs = map (\<lambda>c. ck_Name (ck c)) (filter Failing cs)"

definition unresolvedCheckNames :: "Check list \<Rightarrow> string list" where
  "unresolvedCheckNames cs = map (\<lambda>c. ck_Name (ck c) @ '' ('' @ ck_Bucket (ck c) @ '')'') (filter (\<lambda>c. \<not> passed_check c) cs)"

record CheckTarget =
  tg_Name :: string
  tg_ProviderID :: string

definition checkTargetTrackingKey :: "CheckTarget \<Rightarrow> string" where
  "checkTargetTrackingKey t = (if tg_ProviderID t \<noteq> [] then ''id:'' @ tg_ProviderID t else tg_Name t)"

definition target_of :: "Check \<Rightarrow> CheckTarget" where
  "target_of c = \<lparr> tg_Name = ck_Name (ck c), tg_ProviderID = ck_ProviderID (ck c) \<rparr>"

definition checkTrackingKey :: "Check \<Rightarrow> string" where
  "checkTrackingKey c = checkTargetTrackingKey (target_of c)"

definition checkMatchesTarget :: "Check \<Rightarrow> CheckTarget \<Rightarrow> bool" where
  "checkMatchesTarget c t \<longleftrightarrow>
     (if tg_ProviderID t \<noteq> [] then ck_ProviderID (ck c) = tg_ProviderID t else ck_Name (ck c) = tg_Name t)"

definition checkTargetFailedTerminally :: "Check list \<Rightarrow> CheckTarget \<Rightarrow> bool" where
  "checkTargetFailedTerminally cs t \<longleftrightarrow> list_ex (\<lambda>c. checkMatchesTarget c t \<and> checkFailedTerminally c) cs"

definition terminalCheckTargetsForNames :: "Check list \<Rightarrow> string list \<Rightarrow> CheckTarget list" where
  "terminalCheckTargetsForNames cs wanted =
     map target_of (filter (\<lambda>c. ck_Name (ck c) \<in> set wanted \<and> checkFailedTerminally c) cs)"

section \<open>The memory of the last repair\<close>

record checkFreshness =
  fr_CompletedAt :: "int option"
  fr_ExecutionID :: string

definition execution_id :: "Check \<Rightarrow> string" where
  "execution_id c = (if ck_ExecutionID (ck c) = [] then ck_ProviderID (ck c) else ck_ExecutionID (ck c))"

text \<open>\<open>time.After\<close>, where None is the zero time, before every other.\<close>

definition later_than :: "int option \<Rightarrow> int option \<Rightarrow> bool" where
  "later_than a b = (case a of None \<Rightarrow> False | Some x \<Rightarrow> (case b of None \<Rightarrow> True | Some y \<Rightarrow> x > y))"

definition note_failure :: "(string \<times> checkFreshness) list \<Rightarrow> Check \<Rightarrow> (string \<times> checkFreshness) list" where
  "note_failure fresh c =
     (let key = checkTrackingKey c;
          previous = (case map_of fresh key of None \<Rightarrow> None | Some f \<Rightarrow> fr_CompletedAt f) in
      if \<not> checkFailedTerminally c \<or> ck_CompletedAt (ck c) = None \<and> execution_id c = [] then fresh
      else if previous = None \<or> later_than (ck_CompletedAt (ck c)) previous
      then AList.update key \<lparr> fr_CompletedAt = ck_CompletedAt (ck c), fr_ExecutionID = execution_id c \<rparr> fresh
      else fresh)"

definition terminalFailureCompletionTimes :: "Check list \<Rightarrow> (string \<times> checkFreshness) list" where
  "terminalFailureCompletionTimes cs = foldl note_failure [] cs"

definition completionTimesForTargets :: "(string \<times> checkFreshness) list \<Rightarrow> CheckTarget list \<Rightarrow> (string \<times> checkFreshness) list" where
  "completionTimesForTargets completed targets =
     foldl (\<lambda>selected t. let key = checkTargetTrackingKey t in
       (case map_of completed key of None \<Rightarrow> selected | Some f \<Rightarrow> AList.update key f selected)) [] targets"

definition terminalFailureCompletedAfter :: "Check list \<Rightarrow> (string \<times> checkFreshness) list \<Rightarrow> bool" where
  "terminalFailureCompletedAfter cs after \<longleftrightarrow> list_ex (\<lambda>c. checkFailedTerminally c \<and>
     (case map_of after (checkTrackingKey c) of
        None \<Rightarrow> False
      | Some previous \<Rightarrow>
          (execution_id c \<noteq> [] \<and> fr_ExecutionID previous \<noteq> [] \<and> execution_id c \<noteq> fr_ExecutionID previous) \<or>
          later_than (ck_CompletedAt (ck c)) (fr_CompletedAt previous))) cs"

record lastFixedIssues =
  li_Checks :: "CheckTarget list"
  li_MergeConflict :: bool

definition encodeLastFixedChecks :: "CheckTarget list \<Rightarrow> bool \<Rightarrow> lastFixedIssues option" where
  "encodeLastFixedChecks checks conflict =
     (if checks = [] \<and> \<not> conflict then None else Some \<lparr> li_Checks = checks, li_MergeConflict = conflict \<rparr>)"

definition pendingCheckMatchesLastFixed :: "Check list \<Rightarrow> lastFixedIssues option \<Rightarrow> bool" where
  "pendingCheckMatchesLastFixed cs last_fixed =
     (case last_fixed of
        None \<Rightarrow> False
      | Some issues \<Rightarrow>
          if li_Checks issues = [] then li_MergeConflict issues \<and> hasExecutingPendingChecks cs
          else list_ex (\<lambda>c. executing c \<and> list_ex (checkMatchesTarget c) (li_Checks issues)) cs)"

definition lastRepairStillUnverified :: "Check list \<Rightarrow> bool \<Rightarrow> lastFixedIssues option \<Rightarrow> bool" where
  "lastRepairStillUnverified cs conflict last_fixed =
     (case last_fixed of
        None \<Rightarrow> False
      | Some issues \<Rightarrow>
          if li_MergeConflict issues \<and> \<not> conflict then False
          else list_all (checkTargetFailedTerminally cs) (li_Checks issues))"

section \<open>Pacing is bounded\<close>

lemma double_interval_min:
  "0 < i \<Longrightarrow> min (double_interval n i) ciUnchangedPollMax = min (i * 2 ^ n) ciUnchangedPollMax"
proof (induction n i rule: double_interval.induct)
  case (2 n i)
  show ?case
  proof (cases "i < ciUnchangedPollMax")
    case True
    then show ?thesis using "2.IH" "2.prems" by (simp add: mult.assoc)
  next
    case False
    have "i * 1 \<le> i * 2 ^ Suc n" using "2.prems" by (intro mult_left_mono one_le_power) simp_all
    then show ?thesis using False by simp
  qed
qed simp

text \<open>The monitor never polls a forge faster than twice a minute, and each further poll that saw nothing new doubles the wait
  until it reaches five minutes, where it stays.\<close>

theorem unchanged_poll_exact:
  "unchangedPollInterval (pollInterval elapsed) (int n) = min (pollInterval elapsed * 2 ^ n) (seconds 300) \<and>
   seconds 30 \<le> unchangedPollInterval (pollInterval elapsed) (int n)"
proof -
  have p: "0 < pollInterval elapsed" "pollInterval elapsed < ciUnchangedPollMax" "seconds 30 \<le> pollInterval elapsed"
    by (simp_all add: pollInterval_def ciUnchangedPollMax_def seconds_def)
  then have "unchangedPollInterval (pollInterval elapsed) (int n) = min (pollInterval elapsed * 2 ^ n) ciUnchangedPollMax"
    using double_interval_min by (simp add: unchangedPollInterval_def)
  moreover have "pollInterval elapsed * 1 \<le> pollInterval elapsed * 2 ^ n" using p(1) by (intro mult_left_mono) simp_all
  ultimately show ?thesis using p(2,3) by (simp add: ciUnchangedPollMax_def)
qed

end
