(* ===== verification/CIFindings.thy ===== *)
theory CIFindings
  imports CIChecks "HOL-Library.Multiset"
begin

text \<open>
  The findings one settled observation of a pull request becomes, from \<open>internal/pipeline/steps/ci_findings.go\<close> with
  \<open>unresolvedTransientFindings\<close> of \<open>ci_transient.go\<close>, \<open>scopeRetainedCIFindings\<close> of \<open>ci_scope.go\<close> and the outcomes of
  \<open>ci_checks.go\<close> and \<open>ci_findings.go\<close>: which finding each issue becomes and with which action, the
  bounds on the comments of review bots, the targets of a repair and the outcome a failed repair parks with. The texts
  of errors are arguments.
\<close>

section \<open>Categories and helpers\<close>

definition FindingCategoryCICheck :: string where "FindingCategoryCICheck = ''ci-check''"
definition FindingCategoryCIMergeConflict :: string where "FindingCategoryCIMergeConflict = ''ci-merge-conflict''"
definition FindingCategoryCIBehindBase :: string where "FindingCategoryCIBehindBase = ''ci-behind-base''"
definition FindingCategoryCITransient :: string where "FindingCategoryCITransient = ''ci-transient''"
definition FindingCategoryCIReviewBot :: string where "FindingCategoryCIReviewBot = ''ci-review-bot''"

lemmas ci_category_defs = FindingCategoryCICheck_def FindingCategoryCIMergeConflict_def FindingCategoryCIBehindBase_def
  FindingCategoryCITransient_def FindingCategoryCIReviewBot_def

definition hasBlockingFindings :: "Finding list \<Rightarrow> bool" where
  "hasBlockingFindings fs \<longleftrightarrow> list_ex (\<lambda>f. f_Severity f = ''error'' \<or> f_Severity f = ''warning'') fs"

definition hasAutoFixFindings :: "Finding list \<Rightarrow> bool" where
  "hasAutoFixFindings fs \<longleftrightarrow> list_ex (\<lambda>f. ActionOrDefault f = ActionAutoFix) fs"

definition ask_user :: "string \<Rightarrow> Finding" where
  "ask_user description = zero_finding\<lparr>f_Severity := FindingSeverityWarning, f_Description := description, f_Action := ActionAskUser\<rparr>"

definition finding_size :: "Finding \<Rightarrow> nat" where
  "finding_size f = length (json_print (enc_finding f))"

section \<open>Failing checks\<close>

text \<open>\<open>selectedFailingChecks\<close>: each name takes the first failing check of that name not taken yet.\<close>

fun take_check :: "string \<Rightarrow> Check list \<Rightarrow> (Check \<times> Check list) option" where
  "take_check name [] = None"
| "take_check name (c # cs) =
     (if Failing c \<and> ck_Name (ck c) = name then Some (c, cs)
      else map_option (\<lambda>(found, rest). (found, c # rest)) (take_check name cs))"

fun selectedFailingChecks :: "Check list \<Rightarrow> string list \<Rightarrow> Check list" where
  "selectedFailingChecks checks [] = []"
| "selectedFailingChecks checks (name # names) =
     (case take_check name checks of
        Some (found, rest) \<Rightarrow> found # selectedFailingChecks rest names
      | None \<Rightarrow> Check (no_check\<lparr>ck_Name := name, ck_Bucket := CheckBucketFail\<rparr>) [] # selectedFailingChecks checks names)"

definition ciCheckDescription :: "Check \<Rightarrow> string" where
  "ciCheckDescription c =
     (let state = to_lower (TrimSpace (ck_State (ck c))); link = TrimSpace (ck_Link (ck c)) in
      ''CI check failing: '' @ ck_Name (ck c) @ (if state \<noteq> [] then '' - provider reported '' @ state else []) @
      (if link \<noteq> [] then '' - '' @ link else []))"

definition check_finding :: "Check \<Rightarrow> Finding" where
  "check_finding c = zero_finding\<lparr>f_Severity := FindingSeverityError, f_Action := ActionAutoFix, f_Category := FindingCategoryCICheck,
     f_Check := ck_Name (ck c), f_CheckID := ck_ProviderID (ck c), f_Description := ciCheckDescription c\<rparr>"

section \<open>Comments of review bots\<close>

definition maxReviewBotCommentFindings :: nat where "maxReviewBotCommentFindings = 50"
definition maxReviewBotCommentBytes :: nat where "maxReviewBotCommentBytes = 2 * 1024"
definition maxReviewBotObservationBytes :: nat where "maxReviewBotObservationBytes = 64 * 1024"

text \<open>\<open>codexSeverityBadge\<close>: the two levels of the first badge of a body.\<close>

definition badge_level :: "char \<Rightarrow> bool" where
  "badge_level c \<longleftrightarrow> c \<in> {CHR ''0'', CHR ''1'', CHR ''2'', CHR ''3''}"

definition badge_here :: "string \<Rightarrow> (char \<times> char) option" where
  "badge_here s =
     (case CutPrefix s ''![P'' of
        Some (a # s1) \<Rightarrow>
          (case CutPrefix s1 '' Badge](https://img.shields.io/badge/P'' of
             Some (b # d # s2) \<Rightarrow>
               (let body = takeWhile (\<lambda>c. c \<noteq> CHR '' '' \<and> c \<noteq> CHR '')'') s2; rest = dropWhile (\<lambda>c. c \<noteq> CHR '' '' \<and> c \<noteq> CHR '')'') s2 in
                if badge_level a \<and> badge_level b \<and> (d = CHR ''-'' \<or> d = CHR ''_'') \<and> body \<noteq> [] \<and> rest \<noteq> [] \<and> hd rest = CHR '')''
                then Some (a, b) else None)
           | _ \<Rightarrow> None)
      | _ \<Rightarrow> None)"

fun codexSeverityBadge :: "string \<Rightarrow> (char \<times> char) option" where
  "codexSeverityBadge [] = None"
| "codexSeverityBadge (c # s) = (case badge_here (c # s) of Some b \<Rightarrow> Some b | None \<Rightarrow> codexSeverityBadge s)"

definition reviewBotCommentSeverity :: "ReviewBot \<Rightarrow> string \<Rightarrow> string" where
  "reviewBotCommentSeverity rbot body =
     (if rb_AppSlug rbot = ''chatgpt-codex-connector'' then
        (case codexSeverityBadge body of
           None \<Rightarrow> FindingSeverityWarning
         | Some (a, b) \<Rightarrow>
             if a \<noteq> b then FindingSeverityWarning
             else if a = CHR ''0'' \<or> a = CHR ''1'' then FindingSeverityError
             else if a = CHR ''3'' then FindingSeverityInfo else FindingSeverityWarning)
      else FindingSeverityWarning)"

record reviewBotCheck =
  bc_check :: Check
  bc_bot :: ReviewBot
  bc_green :: bool

definition comment_key :: "ReviewComment \<Rightarrow> string" where
  "comment_key c =
     (if rvc_ID c = [] then ''content:'' @ rvc_Author c @ [CHR 0x00] @ rvc_Path c @ [CHR 0x00] @ Itoa (rvc_Line c) @ [CHR 0x00] @ rvc_Body c
      else ''id:'' @ rvc_ID c)"

definition left_by :: "string \<Rightarrow> ReviewBot \<Rightarrow> ReviewComment \<Rightarrow> bool" where
  "left_by provider rbot c \<longleftrightarrow>
     (case ReviewBotForLogin provider (rvc_Author c) of None \<Rightarrow> False | Some author \<Rightarrow> rb_AppSlug author = rb_AppSlug rbot)"

definition bot_finding :: "reviewBotCheck \<Rightarrow> string \<Rightarrow> string \<Rightarrow> Finding" where
  "bot_finding checked severity description = zero_finding\<lparr>f_Severity := severity, f_Action := ActionAskUser,
     f_Category := FindingCategoryCIReviewBot, f_Check := ck_Name (ck (bc_check checked)),
     f_CheckID := ck_ProviderID (ck (bc_check checked)), f_CheckApp := rb_AppSlug (bc_bot checked), f_Description := description\<rparr>"

definition comment_finding :: "reviewBotCheck \<Rightarrow> ReviewComment \<Rightarrow> Finding" where
  "comment_finding checked c =
     (let body = TrimSpace (rvc_Body c);
          shown = (if length body > maxReviewBotCommentBytes then take maxReviewBotCommentBytes body @ ''...'' else body) in
      (bot_finding checked (reviewBotCommentSeverity (bc_bot checked) (rvc_Body c)) (TrimSpace (rvc_Author c) @ '': '' @ shown))
        \<lparr>f_File := rvc_Path c, f_Line := rvc_Line c\<rparr>)"

fun fresh_comments :: "string list \<Rightarrow> ReviewComment list \<Rightarrow> ReviewComment list \<times> string list" where
  "fresh_comments seen [] = ([], seen)"
| "fresh_comments seen (c # cs) =
     (if comment_key c \<in> set seen then fresh_comments seen cs
      else let (fresh, seen') = fresh_comments (comment_key c # seen) cs in (c # fresh, seen'))"

definition bare_finding :: "reviewBotCheck \<Rightarrow> bool \<Rightarrow> Finding" where
  "bare_finding checked hasComments =
     (let link = TrimSpace (ck_Link (ck (bc_check checked))) in
      bot_finding checked FindingSeverityWarning
        (''Review bot check failing: '' @ ck_Name (ck (bc_check checked)) @ (if link \<noteq> [] then '' - '' @ link else []) @
         (if hasComments then '' - its unresolved comments are represented by another failed check from the same app''
          else '' - no unresolved review comments were found, so decide whether to proceed'')))"

fun bot_candidates :: "string \<Rightarrow> ReviewComment list \<Rightarrow> string list \<Rightarrow> reviewBotCheck list \<Rightarrow> Finding list" where
  "bot_candidates provider comments seen [] = []"
| "bot_candidates provider comments seen (checked # checks) =
     (let own = filter (left_by provider (bc_bot checked)) comments;
          (fresh, seen') = fresh_comments seen own in
      map (comment_finding checked) fresh @
      (if fresh \<noteq> [] \<or> bc_green checked then [] else [bare_finding checked (own \<noteq> [])]) @
      bot_candidates provider comments seen' checks)"

text \<open>What fits the observation, how many bytes it takes and how many candidates are left out.\<close>

fun take_bounded :: "Finding list \<Rightarrow> nat \<Rightarrow> nat \<Rightarrow> Finding list \<times> nat \<times> nat" where
  "take_bounded [] n used_bytes = ([], used_bytes, 0)"
| "take_bounded (f # fs) n used_bytes =
     (if n = maxReviewBotCommentFindings \<or> used_bytes + finding_size f > maxReviewBotObservationBytes
      then ([], used_bytes, length (f # fs))
      else let (kept, all_bytes, omitted) = take_bounded fs (Suc n) (used_bytes + finding_size f) in (f # kept, all_bytes, omitted))"

definition omitted_finding :: "reviewBotCheck \<Rightarrow> nat \<Rightarrow> Finding" where
  "omitted_finding checked omitted = bot_finding checked FindingSeverityWarning
     (dec omitted @ '' more review-bot findings were omitted from this gate; read them on the pull request'')"

text \<open>The findings kept are given in reverse.\<close>

fun make_room :: "reviewBotCheck \<Rightarrow> Finding list \<Rightarrow> nat \<Rightarrow> nat \<Rightarrow> Finding list \<times> nat" where
  "make_room checked [] used_bytes omitted = ([], omitted)"
| "make_room checked (f # fs) used_bytes omitted =
     (if length (f # fs) \<ge> maxReviewBotCommentFindings \<or>
         used_bytes + finding_size (omitted_finding checked omitted) > maxReviewBotObservationBytes
      then make_room checked fs (used_bytes - finding_size f) (Suc omitted)
      else (f # fs, omitted))"

definition reviewBotFindings :: "string \<Rightarrow> reviewBotCheck list \<Rightarrow> ReviewComment list \<Rightarrow> Finding list" where
  "reviewBotFindings provider checks comments =
     (let (kept, all_bytes, omitted) = take_bounded (bot_candidates provider comments [] checks) 0 0 in
      if omitted = 0 then kept
      else let (room, omitted') = make_room (hd checks) (rev kept) all_bytes omitted in
        rev room @ [omitted_finding (hd checks) omitted'])"

definition reviewBotSummary :: "Finding list \<Rightarrow> string" where
  "reviewBotSummary fs =
     (let checks = map f_Check (filter (\<lambda>f. f_Category f = FindingCategoryCIReviewBot) fs) in
      Join ''; '' (map (\<lambda>name.
        let count = count_list checks name;
            subject = (if name = [] then ''review bot comments need'' else ''review bot check '' @ name @ '' needs'') in
        if count = 1 then subject @ '' a decision (1 finding)'' else subject @ '' a decision ('' @ dec count @ '' findings)'')
        (rev (remdups (rev checks)))))"

definition zero_bot :: ReviewBot where
  "zero_bot = \<lparr> rb_AppSlug = [], rb_Logins = [], rb_GitLabLogins = [], rb_CheckNames = [], rb_CompletionFromReview = False \<rparr>"

definition greenReviewBotChecks :: "Check list \<Rightarrow> Check list \<Rightarrow> reviewBotCheck list" where
  "greenReviewBotChecks checks excluded = map (\<lambda>c. \<lparr> bc_check = c,
     bc_bot = (case ReviewBotForApp (ck_App (ck c)) of None \<Rightarrow> zero_bot | Some b \<Rightarrow> b), bc_green = True \<rparr>)
     (ReviewBotCommentChecks checks excluded)"

text \<open>\<open>readReviewBotComments\<close> and the best effort of \<open>reviewBotComments\<close>; None is a failed read.\<close>

definition readReviewBotComments :: "comment_host \<Rightarrow> ReviewComment list option" where
  "readReviewBotComments host =
     (if \<not> ch_capable host then Some [] else case ch_comments host of None \<Rightarrow> Some [] | Some answer \<Rightarrow> answer)"

definition reviewBotComments :: "comment_host \<Rightarrow> bool \<Rightarrow> Check list \<Rightarrow> Check list \<Rightarrow> ReviewComment list" where
  "reviewBotComments host always checks excluded =
     (if always \<and> greenReviewBotChecks checks excluded \<noteq> [] \<or>
         list_ex (\<lambda>c. ReviewBotForApp (ck_App (ck c)) \<noteq> None \<and> Failing c) checks
      then (case readReviewBotComments host of None \<Rightarrow> [] | Some cs \<Rightarrow> cs) else [])"

section \<open>Checks no rerun will replace\<close>

definition unresolvedTransientChecks :: "string list \<Rightarrow> Check list \<Rightarrow> Check list" where
  "unresolvedTransientChecks names checks = concat (map (\<lambda>name.
     let matched = filter (\<lambda>c. ck_Name (ck c) = name \<and> ck_Bucket (ck c) = CheckBucketCancel) checks in
     if matched \<noteq> [] then matched else [Check (no_check\<lparr>ck_Name := name, ck_Bucket := CheckBucketCancel\<rparr>) []]) names)"

definition unresolvedTransientSummary :: "nat \<Rightarrow> nat \<Rightarrow> string" where
  "unresolvedTransientSummary n preRun =
     (if n > 0 \<and> preRun = n then ''CI checks failed before repository steps ran''
      else if preRun > 0 then ''CI checks ended without reporting a code verdict''
      else ''CI checks were cancelled without reporting a verdict'')"

definition unresolvedTransientDescription :: "string \<Rightarrow> int \<Rightarrow> bool \<Rightarrow> string" where
  "unresolvedTransientDescription name reruns preRun =
     (if preRun then
        if reruns > 0 then ''CI check failed during setup again after its rerun: '' @ name @
          '' - repository steps never ran, so it needs a decision rather than a code fix''
        else ''CI check failed during setup before repository steps ran: '' @ name @
          '' - no rerun is outstanding to replace that result, so it needs a decision rather than a code fix''
      else if reruns > 0 then ''CI check cancelled again after its rerun: '' @ name @
          '' - the provider cancelled it rather than reporting a job failure, so it needs a decision rather than a code fix''
      else ''CI check cancelled without a verdict: '' @ name @
          '' - the provider cancelled it rather than reporting a job failure, and no rerun is outstanding to replace that result, so it needs a decision rather than a code fix'')"

definition transient_finding :: "(string \<Rightarrow> int) \<Rightarrow> Check \<Rightarrow> Finding" where
  "transient_finding reruns c =
     (ask_user (unresolvedTransientDescription (ck_Name (ck c)) (reruns (ck_Name (ck c))) (ck_PreRunFailure (ck c))))
       \<lparr>f_Category := FindingCategoryCITransient, f_Check := ck_Name (ck c), f_CheckID := ck_ProviderID (ck c)\<rparr>"

definition unresolvedTransientFindings :: "string list \<Rightarrow> Check list \<Rightarrow> (string \<Rightarrow> int) \<Rightarrow> Finding list \<times> string" where
  "unresolvedTransientFindings names checks reruns =
     (let unresolved = unresolvedTransientChecks names checks in
      if unresolved = [] then ([], [])
      else (map (transient_finding reruns) unresolved,
        unresolvedTransientSummary (length unresolved) (length (filter (\<lambda>c. ck_PreRunFailure (ck c)) unresolved))))"

section \<open>A settled observation\<close>

record ciIssues =
  ob_provider :: string
  ob_checks :: "Check list"
  ob_failing :: "string list"
  ob_unresolvedCancelled :: "string list"
  ob_mergeConflict :: bool
  ob_behindBase :: bool
  ob_reruns :: "string \<Rightarrow> int"
  ob_botComments :: "ReviewComment list"
  ob_greenBots :: bool
  ob_excludedChecks :: "Check list"

definition ciBehindBaseDescription :: string where
  "ciBehindBaseDescription = ''PR is behind a base branch that requires branches to be up to date before merging''"

definition conflictDescription :: string where
  "conflictDescription = ''PR has merge conflicts with the base branch''"

definition branch_finding :: "string \<Rightarrow> string \<Rightarrow> Finding" where
  "branch_finding category description = zero_finding\<lparr>f_Severity := FindingSeverityError, f_Action := ActionAutoFix,
     f_Category := category, f_Description := description\<rparr>"

definition red_bots :: "Check list \<Rightarrow> reviewBotCheck list" where
  "red_bots cs = List.map_filter (\<lambda>c. map_option (\<lambda>b. \<lparr> bc_check = c, bc_bot = b, bc_green = False \<rparr>) (ReviewBotForApp (ck_App (ck c)))) cs"

definition code_checks :: "Check list \<Rightarrow> Check list" where
  "code_checks cs = filter (\<lambda>c. ReviewBotForApp (ck_App (ck c)) = None) cs"

definition ciObservationFindings :: "ciIssues \<Rightarrow> Findings" where
  "ciObservationFindings ob =
     (let selected = selectedFailingChecks (ob_checks ob) (ob_failing ob);
          code = code_checks selected;
          bots = red_bots selected @ (if ob_greenBots ob then greenReviewBotChecks (ob_checks ob) (ob_excludedChecks ob) else []);
          (transient, transientSummary) = unresolvedTransientFindings (ob_unresolvedCancelled ob) (ob_checks ob) (ob_reruns ob);
          fs = map check_finding code @ reviewBotFindings (ob_provider ob) bots (ob_botComments ob) @
            (if ob_mergeConflict ob then [branch_finding FindingCategoryCIMergeConflict conflictDescription] else []) @
            (if ob_behindBase ob then [branch_finding FindingCategoryCIBehindBase ciBehindBaseDescription] else []) @ transient;
          parts = (if code = [] then [] else if length code = 1 then [''1 CI check failing'']
              else [dec (length code) @ '' CI checks failing'']) @
            (if ob_mergeConflict ob then [conflictDescription] else []) @
            (if ob_behindBase ob then [ciBehindBaseDescription] else []) @
            (if reviewBotSummary fs \<noteq> [] then [reviewBotSummary fs] else []) @
            (if transient \<noteq> [] then [transientSummary] else []) in
      zero_findings\<lparr>fs_Summary := Join ''; '' parts, fs_Items := appended fs\<rparr>)"

definition ciObservationOutcome :: "Findings \<Rightarrow> StepOutcome" where
  "ciObservationOutcome fs = zero_outcome\<lparr>oc_NeedsApproval := hasBlockingFindings (items fs),
     oc_AutoFixable := hasAutoFixFindings (items fs), oc_Findings := MarshalFindingsJSON fs\<rparr>"


section \<open>Outcomes the monitor ends with\<close>

definition parked :: "string \<Rightarrow> Finding list \<Rightarrow> StepOutcome" where
  "parked summary fs = zero_outcome\<lparr>oc_NeedsApproval := True,
     oc_Findings := MarshalFindingsJSON (zero_findings\<lparr>fs_Summary := summary, fs_Items := appended fs\<rparr>)\<rparr>"

definition ciFailureOutcome :: "CheckTarget list \<Rightarrow> bool \<Rightarrow> string \<Rightarrow> StepOutcome" where
  "ciFailureOutcome failing conflict summary = parked summary
     (map (\<lambda>t. (ask_user (''CI check failing: '' @ tg_Name t))
        \<lparr>f_Category := FindingCategoryCICheck, f_Check := tg_Name t, f_CheckID := tg_ProviderID t\<rparr>) failing @
      (if conflict then [(ask_user conflictDescription)\<lparr>f_Category := FindingCategoryCIMergeConflict\<rparr>] else []))"

definition ciCheckReadFailureOutcome :: "string \<Rightarrow> StepOutcome" where
  "ciCheckReadFailureOutcome err = parked ''CI checks could not be read from the provider''
     [ask_user (''CI checks could not be read from the provider: '' @ err @ ''. Verify that the provider CLI or credentials are installed, authenticated, and support the required check-reading command. For GitHub errors involving '' @ [CHR 0x27] @ ''pr checks --json'' @ [CHR 0x27] @ '', gh >= 2.50 is required.'')]"

definition ciFixAgentTimeoutOutcome :: "string \<Rightarrow> string \<Rightarrow> string \<Rightarrow> StepOutcome" where
  "ciFixAgentTimeoutOutcome issue leftover err = parked ''CI auto-fix agent exceeded its invocation budget''
     [(ask_user (''The CI auto-fix agent did not finish within its invocation budget while repairing: '' @ issue @ ''. Reported: '' @ err @
        ''. The cut itself reflects budget or provider slowness; it does not clear the findings listed with it. Re-running the same request costs another full budget, so no further attempt is made automatically. Check that the configured agent CLI is authenticated and responsive, then respond with a fix selection to spend another budget, or resolve the CI failure outside the pipeline.'' @
        (if leftover \<noteq> [] then '' '' @ leftover else [])))\<lparr>f_ID := ''ci-fix-agent-timeout''\<rparr>]"

definition ciMergeabilityOutcome :: "string \<Rightarrow> string \<Rightarrow> StepOutcome" where
  "ciMergeabilityOutcome summary description = parked summary [ask_user description]"

definition ciMonitoringTimeoutOutcome :: StepOutcome where
  "ciMonitoringTimeoutOutcome = parked ''CI monitoring timed out before PR was merged or closed''
     [ask_user ''PR was still open when CI monitoring timed out'']"

definition ciRerunHeadMismatchOutcome :: "string \<Rightarrow> string \<Rightarrow> StepOutcome" where
  "ciRerunHeadMismatchOutcome expected observed = parked ''published branch head no longer matches the commit this run delivered''
     [ask_user (''CI checks could not be re-run: expected head '' @ expected @ '', observed '' @ observed @ '' on the push target'')]"

definition reviewBotCommentsReadFailureOutcome :: "string \<Rightarrow> StepOutcome" where
  "reviewBotCommentsReadFailureOutcome err = parked ''review bot comments could not be read from the provider''
     [(ask_user (''Every check passed, but the review bot'' @ [CHR 0x27] @ ''s unresolved comments could not be read: '' @ err @
        ''. ci.review_bot_comments is '' @ [CHR 0x22] @ ''always'' @ [CHR 0x22] @ '', so checks-passed is not reported without reading them; decide whether to proceed.''))
        \<lparr>f_Category := FindingCategoryCIReviewBot\<rparr>]"

text \<open>\<open>ciTerminalRepairOutcome\<close>; the code compares findings with their pointers, so two findings with a support differ.\<close>

definition same_item :: "Finding \<Rightarrow> Finding \<Rightarrow> bool" where
  "same_item f g \<longleftrightarrow> f = g \<and> f_Support f = None"

definition add_item :: "Finding \<Rightarrow> Finding list \<Rightarrow> Finding list" where
  "add_item f fs =
     (if f_ID f \<noteq> [] \<and> f_ID f \<in> f_ID ` set fs \<or> list_ex (same_item f) fs then fs else fs @ [f])"

definition ciTerminalRepairOutcome :: "StepOutcome \<Rightarrow> Findings \<Rightarrow> string \<Rightarrow> StepOutcome" where
  "ciTerminalRepairOutcome outcome selected deferredRaw =
     (let base = (case ParseFindingsJSON (oc_Findings outcome) of None \<Rightarrow> zero_findings | Some fs \<Rightarrow> fs);
          repaired = foldl (\<lambda>fs f. add_item (f\<lparr>f_Action := ActionAskUser\<rparr>) fs) (items base) (items selected);
          all_items = (case ParseFindingsJSON deferredRaw of None \<Rightarrow> repaired | Some d \<Rightarrow> foldl (\<lambda>fs f. add_item f fs) repaired (items d));
          result = (if all_items = items base then base else base\<lparr>fs_Items := Some all_items\<rparr>) in
      outcome\<lparr>oc_NeedsApproval := True, oc_AutoFixable := False, oc_Findings := MarshalFindingsJSON result\<rparr>)"

definition ciRepairParkOutcome :: "Findings \<Rightarrow> string \<Rightarrow> string \<Rightarrow> StepOutcome" where
  "ciRepairParkOutcome fs deferredRaw summary =
     ciTerminalRepairOutcome (zero_outcome\<lparr>oc_NeedsApproval := True,
       oc_Findings := MarshalFindingsJSON ((FindingsMetadata fs)\<lparr>fs_Summary := summary\<rparr>)\<rparr>) fs deferredRaw"

section \<open>What a repair targets\<close>

record ciFixTargets =
  ft_Findings :: Findings
  ft_Checks :: "CheckTarget list"
  ft_MergeConflict :: bool
  ft_BehindBase :: bool

fun fix_targets :: "string list \<Rightarrow> Finding list \<Rightarrow> CheckTarget list" where
  "fix_targets seen [] = []"
| "fix_targets seen (f # fs) =
     (let name = TrimSpace (f_Check f); i = TrimSpace (f_CheckID f) in
      if name = [] \<or> i \<noteq> [] \<and> i \<in> set seen then fix_targets seen fs
      else \<lparr> tg_Name = name, tg_ProviderID = i \<rparr> # fix_targets (if i \<noteq> [] then i # seen else seen) fs)"

definition parseCIFixTargets :: "string \<Rightarrow> ciFixTargets option" where
  "parseCIFixTargets raw =
     (if TrimSpace raw = [] then Some \<lparr> ft_Findings = zero_findings, ft_Checks = [], ft_MergeConflict = False, ft_BehindBase = False \<rparr>
      else map_option (\<lambda>fs. \<lparr> ft_Findings = fs,
        ft_Checks = sort_key (\<lambda>t. (tg_Name t, tg_ProviderID t)) (fix_targets [] (items fs)),
        ft_MergeConflict = list_ex (\<lambda>f. f_Category f = FindingCategoryCIMergeConflict) (items fs),
        ft_BehindBase = list_ex (\<lambda>f. f_Category f = FindingCategoryCIBehindBase) (items fs) \<rparr>) (ParseFindingsJSON raw))"

definition empty_targets :: "ciFixTargets \<Rightarrow> bool" where
  "empty_targets t \<longleftrightarrow> items (ft_Findings t) = []"

definition checkNames :: "ciFixTargets \<Rightarrow> string list" where
  "checkNames t = map tg_Name (ft_Checks t)"

definition targets_description :: "ciFixTargets \<Rightarrow> string" where
  "targets_description t =
     (let desc = Join '', '' (checkNames t); n = length (items (ft_Findings t)) in
      if ft_MergeConflict t then (if desc \<noteq> [] then desc @ '' + merge conflict'' else ''merge conflict'')
      else if ft_BehindBase t then (if desc \<noteq> [] then desc @ '' + behind base'' else ''behind base'')
      else if desc = [] then (if n = 1 then ''1 selected finding'' else dec n @ '' selected findings'')
      else desc)"

section \<open>Retained findings of another scope\<close>

definition app_of :: "string \<Rightarrow> string" where
  "app_of app = to_lower (TrimSpace app)"

definition excluded_apps :: "bool \<Rightarrow> ScopedChecks \<Rightarrow> Check list \<Rightarrow> string list" where
  "excluded_apps always scoped externalBots =
     (let apps = (\<lambda>cs. map (\<lambda>c. app_of (ck_App (ck c))) (filter (\<lambda>c. ck_App (ck c) \<noteq> []) cs));
          out = apps (sd_External scoped @ externalBots @ (if always then [] else sd_Informational scoped)) in
      if always then out else filter (\<lambda>app. app \<notin> (\<lambda>c. app_of (ck_App (ck c))) ` set (sd_Relevant scoped)) out)"

definition keeps_retained ::
  "required_read option \<Rightarrow> CheckScope \<Rightarrow> bool \<Rightarrow> string list \<Rightarrow> Check list \<Rightarrow> Finding \<Rightarrow> bool" where
  "keeps_retained reader scope always excluded checks f =
     (if f_Category f = FindingCategoryCIReviewBot \<and> app_of (f_CheckApp f) \<in> set excluded then False
      else if f_Category f = FindingCategoryCIReviewBot \<and> always then True
      else f_Check f = [] \<or> retainedCICheckIncluded reader scope checks (f_Check f) (f_CheckID f))"

definition scope_findings :: "(Finding \<Rightarrow> bool) \<Rightarrow> string \<Rightarrow> string option" where
  "scope_findings keep encoded =
     (if encoded = [] then Some encoded
      else case ParseFindingsJSON encoded of
          None \<Rightarrow> None
        | Some fs \<Rightarrow>
            let kept = filter keep (items fs) in
            if length kept = length (items fs) then Some encoded
            else if kept = [] then Some []
            else Some (MarshalFindingsJSON (fs\<lparr>fs_Items := Some kept, fs_Summary := []\<rparr>)))"

text \<open>\<open>scopeRetainedCIFindings\<close> narrows the previous and the deferred findings; None when one of them cannot be parsed.\<close>

definition scopeRetainedCIFindings ::
  "required_read option \<Rightarrow> string \<Rightarrow> bool \<Rightarrow> Check list \<Rightarrow> CheckScope \<Rightarrow> string \<times> string \<Rightarrow> (string \<times> string) option" where
  "scopeRetainedCIFindings reader head always checks scope pair =
     (let (scoped, scope') = Apply reader head checks scope;
          keep = keeps_retained reader scope' always (excluded_apps always scoped (ExternalReviewBotChecks scope')) checks in
      case scope_findings keep (fst pair) of
        None \<Rightarrow> None
      | Some previous \<Rightarrow> map_option (Pair previous) (scope_findings keep (snd pair)))"

section \<open>What an observation says\<close>

lemma take_check_some:
  "take_check name cs = Some (found, rest) \<Longrightarrow>
     Failing found \<and> ck_Name (ck found) = name \<and> mset cs = add_mset found (mset rest)"
proof (induction cs arbitrary: rest)
  case (Cons c cs)
  then show ?case by (fastforce split: if_splits)
qed simp

lemma take_check_none: "take_check name cs = None \<longleftrightarrow> name \<notin> set (failingCheckNames cs)"
  by (induction cs) (auto simp: failingCheckNames_def)

lemma selected_failing:
  "mset names = mset (failingCheckNames cs) \<Longrightarrow> mset (selectedFailingChecks cs names) = mset (filter Failing cs)"
proof (induction names arbitrary: cs)
  case Nil
  then show ?case by (auto simp: failingCheckNames_def)
next
  case (Cons name names)
  have "name \<in> set (failingCheckNames cs)" using Cons.prems by (metis list.set_intros(1) mset_eq_setD)
  then obtain found rest where taken: "take_check name cs = Some (found, rest)" using take_check_none [of name cs] by fastforce
  note t = take_check_some [OF taken]
  have cs: "mset (filter Failing cs) = add_mset found (mset (filter Failing rest))" using t by (simp add: mset_filter)
  then have "mset names = mset (failingCheckNames rest)"
    using Cons.prems t by (simp add: failingCheckNames_def mset_map)
  then show ?case using Cons.IH [of rest] taken cs by simp
qed


abbreviation sizes :: "Finding list \<Rightarrow> nat" where "sizes fs \<equiv> sum_list (map finding_size fs)"

lemma take_bounded_spec:
  "\<lbrakk>take_bounded fs n b = (kept, tot, omitted); n \<le> maxReviewBotCommentFindings; b \<le> maxReviewBotObservationBytes\<rbrakk>
   \<Longrightarrow> n + length kept \<le> maxReviewBotCommentFindings \<and> tot = b + sizes kept \<and> tot \<le> maxReviewBotObservationBytes \<and>
     kept = take (length kept) fs \<and> length fs = length kept + omitted"
proof (induction fs n b arbitrary: kept tot omitted rule: take_bounded.induct)
  case (2 f fs n b)
  show ?case
  proof (cases "n = maxReviewBotCommentFindings \<or> b + finding_size f > maxReviewBotObservationBytes")
    case True
    then show ?thesis using "2.prems" by auto
  next
    case False
    obtain k t om where rest: "take_bounded fs (Suc n) (b + finding_size f) = (k, t, om)" by (cases "take_bounded fs (Suc n) (b + finding_size f)")
    have "Suc n + length k \<le> maxReviewBotCommentFindings \<and> t = b + finding_size f + sizes k \<and> t \<le> maxReviewBotObservationBytes \<and>
        k = take (length k) fs \<and> length fs = length k + om"
      using "2.IH" [OF False rest] False "2.prems"(2) by simp
    moreover have "kept = f # k" "tot = t" "omitted = om" using "2.prems"(1) False rest by auto
    ultimately show ?thesis by auto
  qed
qed auto

lemma make_room_spec:
  "\<lbrakk>make_room checked r b omitted = (room, omitted'); b = sizes r\<rbrakk>
   \<Longrightarrow> \<exists>k \<le> length r. room = drop k r \<and> omitted' = omitted + k \<and>
     (room = [] \<or> length room < maxReviewBotCommentFindings \<and>
        sizes room + finding_size (omitted_finding checked omitted') \<le> maxReviewBotObservationBytes)"
proof (induction checked r b omitted rule: make_room.induct)
  case (2 checked f fs b omitted)
  show ?case
  proof (cases "length (f # fs) \<ge> maxReviewBotCommentFindings \<or> b + finding_size (omitted_finding checked omitted) > maxReviewBotObservationBytes")
    case True
    then have "make_room checked fs (b - finding_size f) (Suc omitted) = (room, omitted')" using "2.prems"(1) by simp
    then obtain k where "k \<le> length fs" "room = drop k fs" "omitted' = Suc omitted + k"
        "room = [] \<or> length room < maxReviewBotCommentFindings \<and> sizes room + finding_size (omitted_finding checked omitted') \<le> maxReviewBotObservationBytes"
      using "2.IH" [OF True] "2.prems"(2) by auto
    then show ?thesis by (intro exI [of _ "Suc k"]) auto
  next
    case False
    then have "room = f # fs" "omitted' = omitted" using "2.prems"(1) by auto
    then show ?thesis using False "2.prems"(2) by (intro exI [of _ 0]) auto
  qed
qed auto

lemma bot_findings_shape:
  "let fs = reviewBotFindings provider checks comments; found = bot_candidates provider comments [] checks in
   length fs \<le> 50 \<and> (sizes fs \<le> 64 * 1024 \<or> length fs = 1) \<and>
   (fs = found \<or> (\<exists>k < length found. fs = take k found @ [omitted_finding (hd checks) (length found - k)]))"
proof -
  define found where "found = bot_candidates provider comments [] checks"
  obtain kept tot omitted where bounded: "take_bounded found 0 0 = (kept, tot, omitted)" by (cases "take_bounded found 0 0")
  have kept: "length kept \<le> 50" "tot = sizes kept" "tot \<le> 64 * 1024" "kept = take (length kept) found" "length found = length kept + omitted"
    using take_bounded_spec [OF bounded] by (auto simp: maxReviewBotCommentFindings_def maxReviewBotObservationBytes_def)
  show ?thesis
  proof (cases "omitted = 0")
    case True
    then have "reviewBotFindings provider checks comments = found" using bounded kept by (simp add: reviewBotFindings_def found_def)
    then show ?thesis using kept True by (simp add: Let_def flip: found_def)
  next
    case False
    obtain room omitted' where room: "make_room (hd checks) (rev kept) tot omitted = (room, omitted')" by (cases "make_room (hd checks) (rev kept) tot omitted")
    obtain k where k: "k \<le> length kept" "room = drop k (rev kept)" "omitted' = omitted + k"
        "room = [] \<or> length room < 50 \<and> sizes room + finding_size (omitted_finding (hd checks) omitted') \<le> 64 * 1024"
      using make_room_spec [OF room] kept(2) by (auto simp: rev_map [symmetric] sum_list_rev maxReviewBotCommentFindings_def maxReviewBotObservationBytes_def)
    have fs: "reviewBotFindings provider checks comments = rev room @ [omitted_finding (hd checks) omitted']"
      using bounded False room by (simp add: reviewBotFindings_def flip: found_def)
    have rev_room: "rev room = take (length kept - k) found"
    proof -
      have "rev room = take (length kept - k) kept" using k(2) by (simp add: rev_drop)
      also have "\<dots> = take (length kept - k) found" by (subst kept(4)) (simp add: min_def)
      finally show ?thesis .
    qed
    have small: "length (rev room @ [omitted_finding (hd checks) omitted']) \<le> 50"
      "sizes (rev room @ [omitted_finding (hd checks) omitted']) \<le> 64 * 1024 \<or> length (rev room @ [omitted_finding (hd checks) omitted']) = 1"
      using k(4) by (auto simp: rev_map [symmetric] sum_list_rev)
    have "omitted' = length found - (length kept - k)" "length kept - k < length found" using k(1,3) kept(5) False by auto
    then have "\<exists>j < length found. rev room @ [omitted_finding (hd checks) omitted'] = take j found @ [omitted_finding (hd checks) (length found - j)]"
      using rev_room by (intro exI [of _ "length kept - k"]) simp
    then show ?thesis unfolding Let_def fs found_def [symmetric] using small by blast
  qed
qed

text \<open>The findings review bots leave at one gate are bounded whatever the bots wrote: there are at most fifty of them and
  their texts take at most 64 KiB (unless the only one left is the note on the others), and nothing is dropped silently, as the findings are all
  the candidates or a first part of them with a last finding that counts exactly the ones left out.\<close>

theorem bot_findings_bounded:
  "let fs = reviewBotFindings provider checks comments; found = bot_candidates provider comments [] checks in
   length fs \<le> 50 \<and> (sizes fs \<le> 64 * 1024 \<or> length fs = 1) \<and>
   (fs = found \<or> (\<exists>k < length found. fs = take k found @ [omitted_finding (hd checks) (length found - k)]))"
  by (rule bot_findings_shape)

lemma bot_candidates_ask: "f \<in> set (bot_candidates provider comments seen checks) \<Longrightarrow> f_Action f = ActionAskUser"
  by (induction provider comments seen checks rule: bot_candidates.induct)
     (auto simp: Let_def comment_finding_def bot_finding_def bare_finding_def split: prod.splits if_splits)

lemma bot_findings_ask:
  assumes "f \<in> set (reviewBotFindings provider checks comments)"
  shows "f_Action f = ActionAskUser"
proof -
  have "f \<in> set (bot_candidates provider comments [] checks) \<or> (\<exists>n. f = omitted_finding (hd checks) n)"
    using bot_findings_shape [of provider checks comments] assms by (auto simp: Let_def dest: in_set_takeD)
  then show ?thesis using bot_candidates_ask by (auto simp: omitted_finding_def bot_finding_def)
qed


lemma auto_fix_parts [simp]:
  "ActionOrDefault (check_finding c) = ActionAutoFix" "ActionOrDefault (branch_finding category description) = ActionAutoFix"
  "ActionOrDefault (transient_finding reruns c) \<noteq> ActionAutoFix"
  by (simp_all add: ActionOrDefault_def check_finding_def branch_finding_def transient_finding_def ask_user_def finding_action_defs)

lemma ask_not_auto: "f_Action f = ActionAskUser \<Longrightarrow> ActionOrDefault f \<noteq> ActionAutoFix"
  by (simp add: ActionOrDefault_def finding_action_defs)

lemma observation_items:
  "items (ciObservationFindings ob) =
     (let selected = selectedFailingChecks (ob_checks ob) (ob_failing ob) in
      map check_finding (code_checks selected) @
      reviewBotFindings (ob_provider ob) (red_bots selected @
        (if ob_greenBots ob then greenReviewBotChecks (ob_checks ob) (ob_excludedChecks ob) else [])) (ob_botComments ob) @
      (if ob_mergeConflict ob then [branch_finding FindingCategoryCIMergeConflict conflictDescription] else []) @
      (if ob_behindBase ob then [branch_finding FindingCategoryCIBehindBase ciBehindBaseDescription] else []) @
      map (transient_finding (ob_reruns ob)) (unresolvedTransientChecks (ob_unresolvedCancelled ob) (ob_checks ob)))"
  by (simp add: ciObservationFindings_def unresolvedTransientFindings_def Let_def)

lemma transient_covered:
  assumes "name \<in> set names"
  shows "\<exists>c \<in> set (unresolvedTransientChecks names checks). ck_Name (ck c) = name"
proof -
  define matched where "matched = filter (\<lambda>c. ck_Name (ck c) = name \<and> ck_Bucket (ck c) = CheckBucketCancel) checks"
  define own where "own = (if matched \<noteq> [] then matched else [Check (no_check\<lparr>ck_Name := name, ck_Bucket := CheckBucketCancel\<rparr>) []])"
  have "hd own \<in> set own" "own \<noteq> []" by (auto simp: own_def)
  moreover have "ck_Name (ck c) = name" if "c \<in> set own" for c using that by (auto simp: own_def matched_def split: if_splits)
  moreover have "set own \<subseteq> set (unresolvedTransientChecks names checks)"
    using assms by (auto simp: unresolvedTransientChecks_def Let_def own_def matched_def)
  ultimately show ?thesis by blast
qed

definition code_failure :: "Check \<Rightarrow> bool" where
  "code_failure c \<longleftrightarrow> Failing c \<and> ReviewBotForApp (ck_App (ck c)) = None"

lemma filter_none: "(\<And>x. x \<in> set xs \<Longrightarrow> \<not> P x) \<Longrightarrow> filter P xs = []"
  by (induction xs) auto

lemma observation_auto:
  assumes "mset (ob_failing ob) = mset (failingCheckNames (ob_checks ob))"
  shows "mset (filter (\<lambda>f. ActionOrDefault f = ActionAutoFix) (items (ciObservationFindings ob))) =
    mset (map check_finding (filter code_failure (ob_checks ob))) +
    (if ob_mergeConflict ob then {#branch_finding FindingCategoryCIMergeConflict conflictDescription#} else {#}) +
    (if ob_behindBase ob then {#branch_finding FindingCategoryCIBehindBase ciBehindBaseDescription#} else {#})"
proof -
  let ?auto = "\<lambda>f. ActionOrDefault f = ActionAutoFix"
  have bots: "filter ?auto (reviewBotFindings p cs comments) = []" for p cs comments
    by (rule filter_none) (rule ask_not_auto [OF bot_findings_ask])
  have transient: "filter ?auto (map (transient_finding r) cs) = []" for r cs by (rule filter_none) auto
  have code: "filter ?auto (map check_finding cs) = map check_finding cs" for cs by (rule filter_True) auto
  have "mset (code_checks (selectedFailingChecks (ob_checks ob) (ob_failing ob))) = mset (filter code_failure (ob_checks ob))"
    unfolding code_checks_def mset_filter selected_failing [OF assms]
    by (simp add: mset_filter filter_filter_mset code_failure_def [abs_def] conj_commute)
  then have "mset (map check_finding (code_checks (selectedFailingChecks (ob_checks ob) (ob_failing ob)))) =
      mset (map check_finding (filter code_failure (ob_checks ob)))" by (metis mset_map)
  then show ?thesis unfolding observation_items Let_def by (simp add: bots transient code del: mset_map)
qed

text \<open>A settled observation asks the fix agent for exactly what a change of the code can clear: its findings with the action
  auto-fix are one for each failing check that no review bot publishes, one for a merge conflict and one for a branch behind its base; every
  check no rerun will replace becomes a finding a person must decide; and the step offers itself to the automatic
  fix loop exactly when there is a finding of the first kind.\<close>

theorem observation_actions:
  assumes "ob_failing ob = sort (failingCheckNames (ob_checks ob))"
  shows "let fs = items (ciObservationFindings ob) in
    mset (filter (\<lambda>f. ActionOrDefault f = ActionAutoFix) fs) =
      mset (map check_finding (filter code_failure (ob_checks ob))) +
      (if ob_mergeConflict ob then {#branch_finding FindingCategoryCIMergeConflict conflictDescription#} else {#}) +
      (if ob_behindBase ob then {#branch_finding FindingCategoryCIBehindBase ciBehindBaseDescription#} else {#}) \<and>
    (\<forall>name \<in> set (ob_unresolvedCancelled ob). \<exists>f \<in> set fs. f_Check f = name \<and> f_Category f = FindingCategoryCITransient \<and> f_Action f = ActionAskUser) \<and>
    (oc_AutoFixable (ciObservationOutcome (ciObservationFindings ob)) \<longleftrightarrow>
       ob_mergeConflict ob \<or> ob_behindBase ob \<or> (\<exists>c \<in> set (ob_checks ob). code_failure c))"
proof -
  let ?fs = "items (ciObservationFindings ob)"
  have auto_part: "mset (filter (\<lambda>f. ActionOrDefault f = ActionAutoFix) ?fs) =
      mset (map check_finding (filter code_failure (ob_checks ob))) +
      (if ob_mergeConflict ob then {#branch_finding FindingCategoryCIMergeConflict conflictDescription#} else {#}) +
      (if ob_behindBase ob then {#branch_finding FindingCategoryCIBehindBase ciBehindBaseDescription#} else {#})"
    by (rule observation_auto) (simp add: assms)
  have asks: "\<exists>f \<in> set ?fs. f_Check f = name \<and> f_Category f = FindingCategoryCITransient \<and> f_Action f = ActionAskUser"
    if name: "name \<in> set (ob_unresolvedCancelled ob)" for name
  proof -
    obtain c where c: "c \<in> set (unresolvedTransientChecks (ob_unresolvedCancelled ob) (ob_checks ob))" "ck_Name (ck c) = name"
      using transient_covered [OF name] by blast
    then have "transient_finding (ob_reruns ob) c \<in> set ?fs" unfolding observation_items Let_def by simp
    then show ?thesis using c(2) by (intro bexI) (auto simp: transient_finding_def ask_user_def)
  qed
  have "hasAutoFixFindings ?fs \<longleftrightarrow> mset (filter (\<lambda>f. ActionOrDefault f = ActionAutoFix) ?fs) \<noteq> {#}"
    by (auto simp: hasAutoFixFindings_def list_ex_iff filter_empty_conv)
  then have "hasAutoFixFindings ?fs \<longleftrightarrow> ob_mergeConflict ob \<or> ob_behindBase ob \<or> (\<exists>c \<in> set (ob_checks ob). code_failure c)"
    unfolding auto_part by (auto simp: filter_empty_conv)
  then have loop_part: "oc_AutoFixable (ciObservationOutcome (ciObservationFindings ob)) \<longleftrightarrow>
       ob_mergeConflict ob \<or> ob_behindBase ob \<or> (\<exists>c \<in> set (ob_checks ob). code_failure c)"
    unfolding ciObservationOutcome_def by simp
  show ?thesis unfolding Let_def by (intro conjI ballI auto_part loop_part asks)
qed

definition sample_observation :: ciIssues where
  "sample_observation = \<lparr> ob_provider = ''github'',
     ob_checks = [Check (no_check\<lparr>ck_Name := ''build'', ck_Bucket := CheckBucketFail\<rparr>) [], sample_cancelled],
     ob_failing = [''build''], ob_unresolvedCancelled = [''build''], ob_mergeConflict = False, ob_behindBase = False,
     ob_reruns = (\<lambda>_. 0), ob_botComments = [], ob_greenBots = False, ob_excludedChecks = [] \<rparr>"

theorem observation_actions_witness:
  "ob_failing sample_observation = sort (failingCheckNames (ob_checks sample_observation)) \<and>
   oc_AutoFixable (ciObservationOutcome (ciObservationFindings sample_observation)) \<and>
   (\<exists>f \<in> set (items (ciObservationFindings sample_observation)). f_Category f = FindingCategoryCITransient)"
proof -
  have failing: "ob_failing sample_observation = sort (failingCheckNames (ob_checks sample_observation))"
    by (simp add: sample_observation_def failingCheckNames_def Failing_def sample_cancelled_def no_check_def bucket_defs)
  have "\<exists>c \<in> set (ob_checks sample_observation). code_failure c"
    by (simp add: sample_observation_def code_failure_def Failing_def no_check_def ReviewBotForApp_def)
  then show ?thesis using observation_actions [OF failing] failing by (auto simp: Let_def sample_observation_def)
qed

end
