(* ===== verification/CIMonitor.thy ===== *)
theory CIMonitor
  imports CIFindings
begin

text \<open>
  The polling loop of the CI step, from \<open>internal/pipeline/steps/ci.go\<close>: one poll as a function of the monitor's
  variables and of what the forge, git and the database answer in it, and the sequence of polls. It composes the check scope, the
  rerun budget, the memory of the last repair and the findings of an observation, and writes the readiness a person or an
  agent merges by. A poll reads the clock once; the scope's required checks, the verified comparison of the pull request and the
  strict-shipping verification are answers of the poll. Log lines other than the status the monitor remembers are left out.
\<close>

section \<open>Constants, state and answers\<close>

definition ciChecksPassedMsg :: string where
  "ciChecksPassedMsg = ''all CI checks passed - still monitoring until merged or closed''"

definition ciNoChecksPassedMsg :: string where
  "ciNoChecksPassedMsg = ''repository declares no CI (no_ci: true) - treating as all checks passed - still monitoring until merged or closed''"

definition ciChecksRunningMsg :: string where
  "ciChecksRunningMsg = ''CI checks running, waiting for results...''"

definition ChecksHeadWaitingPrefix :: string where
  "ChecksHeadWaitingPrefix = ''waiting for the delivered commit'' @ [CHR 0x27] @ ''s own checks: ''"

definition ciChecksAwaitingApprovalMsg :: string where
  "ciChecksAwaitingApprovalMsg = ''CI workflows are held awaiting maintainer approval - no jobs have run, waiting...''"

definition ciBehindBaseMsg :: string where
  "ciBehindBaseMsg = ''all CI checks passed but the PR is behind a base that requires up-to-date branches, waiting for the base to settle before rebasing...''"

definition reviewBotPendingMsg :: string where
  "reviewBotPendingMsg = ''review bot review is pending, waiting for completion...''"

lemmas monitor_msgs = ciChecksPassedMsg_def ciNoChecksPassedMsg_def ciChecksRunningMsg_def ChecksHeadWaitingPrefix_def
  ciChecksAwaitingApprovalMsg_def ciBehindBaseMsg_def reviewBotPendingMsg_def

definition consecutiveCheckErrorLimit :: int where "consecutiveCheckErrorLimit = 6"

text \<open>The run and its configuration; a negative timeout never ends the monitor.\<close>

record monitor_env =
  me_head :: string
  me_strict :: bool
  me_policy :: CheckScopePolicy
  me_rerunLimit :: int
  me_rebaseBehind :: bool
  me_timeout :: int
  me_receiptTimeout :: int
  me_canRerun :: bool
  me_comments :: comment_host

abbreviation me_always :: "monitor_env \<Rightarrow> bool" where "me_always env \<equiv> py_ReviewBotComments (me_policy env) = ''always''"

record monitor =
  mo_ready :: bool
  mo_noCI :: bool
  mo_lastLog :: string
  mo_base :: string
  mo_scope :: CheckScope
  mo_recorded :: bool
  mo_budget :: checkRerunBudget
  mo_durable :: checkRerunBudget
  mo_lastFixed :: "lastFixedIssues option"
  mo_lastFixedAt :: "(string \<times> checkFreshness) list"
  mo_observedAt :: "(string \<times> checkFreshness) list"
  mo_previous :: string
  mo_deferred :: string
  mo_checkErrs :: int
  mo_botErrs :: int
  mo_behindTip :: string
  mo_missingSince :: "int option"
  mo_missingHead :: string
  mo_targets :: "CheckTarget list"
  mo_conflict :: bool
  mo_blocked :: string
  mo_anchor :: int
  mo_lastTip :: string

datatype base_read = NoBaseReader | BaseBroken string | BaseUnreadable | BaseRead string
datatype state_read = StateBroken string | StateUnreadable | StateRead string
datatype strict_read = StrictFails string | StrictMoved | StrictCurrent
datatype merge_read = MergeUnsupported | MergeBroken string | MergeUnreadable | MergeRead string
datatype checks_read = ChecksBroken string | ChecksNotForHead string | ChecksFailed string | ChecksRead "Check list"
datatype comparison = ComparisonVerified | ReceiptMissing | ComparisonFailed

record poll =
  po_now :: int
  po_writes :: bool
  po_strictBase :: "string option"
  po_base :: base_read
  po_record :: bool
  po_tip :: "string option"
  po_state :: state_read
  po_proof :: "string option"
  po_observed :: bool
  po_strict :: strict_read
  po_merge :: merge_read
  po_checks :: checks_read
  po_required :: "required_read option"
  po_narrowed :: bool
  po_infra :: "bool list option"
  po_retired :: bool
  po_published :: "string option"
  po_answers :: "(bool \<times> bool) list"
  po_commentsBroken :: bool
  po_secondTip :: "string option"
  po_comparison :: comparison

datatype poll_result = Waits | Ends StepOutcome | Fails string

text \<open>What an otherwise quiet poll leaves for the counters that need consecutive observations.\<close>

datatype poll_note = NothingSeen | ReceiptMissingSeen | CommentsUnreadable | BehindSeen

section \<open>Readiness and its log\<close>

definition setCIMonitorReadiness :: "bool \<Rightarrow> bool \<Rightarrow> bool \<Rightarrow> monitor \<Rightarrow> monitor" where
  "setCIMonitorReadiness written ready noCI m =
     (if written then m\<lparr>mo_ready := ready, mo_noCI := (ready \<and> noCI)\<rparr> else m)"

definition clearCIMonitorReady :: "bool \<Rightarrow> monitor \<Rightarrow> monitor" where
  "clearCIMonitorReady written = setCIMonitorReadiness written False False"

definition logCIMonitorStatus :: "bool \<Rightarrow> string \<Rightarrow> monitor \<Rightarrow> monitor" where
  "logCIMonitorStatus written message m =
     (if message \<noteq> mo_lastLog m
      then setCIMonitorReadiness written (message = ciChecksPassedMsg \<or> message = ciNoChecksPassedMsg) (message = ciNoChecksPassedMsg) m
      else m)\<lparr>mo_lastLog := message\<rparr>"

definition ciWaitingMessage :: "Check list \<Rightarrow> string" where
  "ciWaitingMessage checks = (if hasAwaitingApprovalChecks checks then ciChecksAwaitingApprovalMsg else ciChecksRunningMsg)"

definition quiet :: "bool \<Rightarrow> monitor \<Rightarrow> monitor" where
  "quiet written m = (clearCIMonitorReady written m)\<lparr>mo_lastLog := []\<rparr>"

section \<open>Endings\<close>

definition ends_with :: "StepOutcome \<Rightarrow> monitor \<Rightarrow> poll_result" where
  "ends_with outcome m = Ends (ciTerminalRepairOutcome outcome zero_findings (mo_deferred m))"

definition timeoutOutcome :: "monitor \<Rightarrow> StepOutcome" where
  "timeoutOutcome m =
     (if mo_targets m \<noteq> [] \<or> mo_conflict m then ciFailureOutcome (mo_targets m) (mo_conflict m) ''CI timed out with known failures still present''
      else if mo_blocked m \<noteq> [] then ciMergeabilityOutcome ''mergeability check timed out'' (mo_blocked m)
      else ciMonitoringTimeoutOutcome)"

definition timed_out :: "monitor_env \<Rightarrow> poll \<Rightarrow> monitor \<Rightarrow> bool" where
  "timed_out env p m \<longleftrightarrow> \<not> me_timeout env < 0 \<and> po_now p - mo_anchor m \<ge> me_timeout env"

text \<open>\<open>terminalCIOutcome\<close>: None while the request is open; the proof says why the merged head could not be proved.\<close>

definition terminalCIOutcome :: "bool \<Rightarrow> string \<Rightarrow> string option \<Rightarrow> bool \<Rightarrow> string \<Rightarrow> poll_result option" where
  "terminalCIOutcome strict head proof observed state =
     (if state = ''MERGED'' then
        (case proof of
           Some err \<Rightarrow> Some (Fails err)
         | None \<Rightarrow> if \<not> observed then Some (Fails ''observe PR state'')
                   else Some (Ends (if strict then zero_outcome\<lparr>oc_MergedHeadSHA := head\<rparr> else zero_outcome)))
      else if state = ''CLOSED'' then Some (if \<not> observed then Fails ''observe PR state'' else Ends zero_outcome)
      else None)"

record merged_proof =
  mp_Merged :: bool
  mp_Number :: string
  mp_URL :: string
  mp_HeadSHA :: string

definition verifyMergedProof :: "bool \<Rightarrow> merged_proof option option \<Rightarrow> string \<Rightarrow> string \<Rightarrow> string \<Rightarrow> string option" where
  "verifyMergedProof capable answer number url expected =
     (if \<not> capable then None
      else case answer of
          None \<Rightarrow> Some ''SCM provider advertises merged proof but does not implement it''
        | Some None \<Rightarrow> Some ''verify merged PR proof''
        | Some (Some proof) \<Rightarrow>
            if \<not> mp_Merged proof then Some (''verify merged PR proof: PR '' @ number @ '' is not merged'')
            else if mp_Number proof \<noteq> number \<or> mp_URL proof \<noteq> url then Some ''verify merged PR proof: proof identifies another PR''
            else if expected \<noteq> [] \<and> mp_HeadSHA proof \<noteq> expected then Some ''verify merged PR proof: head changed''
            else None)"

definition ValidateCheckHeads :: "Check list \<Rightarrow> string \<Rightarrow> bool" where
  "ValidateCheckHeads checks head \<longleftrightarrow> list_all (\<lambda>c. head \<noteq> [] \<and> ck_HeadSHA (ck c) \<noteq> [] \<and> ck_HeadSHA (ck c) = head) checks"

definition Conflict :: "string \<Rightarrow> bool" where "Conflict s \<longleftrightarrow> s = ''CONFLICTING''"
definition Behind :: "string \<Rightarrow> bool" where "Behind s \<longleftrightarrow> s = ''BEHIND''"
definition Resolved :: "string \<Rightarrow> bool" where "Resolved s \<longleftrightarrow> s = ''MERGEABLE'' \<or> s = ''BEHIND'' \<or> s = ''CONFLICTING''"

section \<open>What a poll knows of its checks\<close>

record sighting =
  si_checks :: "Check list"
  si_excluded :: "Check list"
  si_scoped :: ScopedChecks
  si_observed :: bool
  si_stateKnown :: bool
  si_mergeKnown :: bool
  si_conflict :: bool
  si_behind :: bool

text \<open>A green head: the comments of review bots, a branch behind its base and the comparison, in that order.\<close>

definition observe_green :: "monitor_env \<Rightarrow> poll \<Rightarrow> sighting \<Rightarrow> monitor \<Rightarrow> monitor \<times> poll_result \<times> poll_note" where
  "observe_green env p s m =
     (let written = po_writes p; checks = si_checks s;
          passedMsg = (if \<not> si_observed s \<and> py_NoCI (me_policy env) then ciNoChecksPassedMsg else ciChecksPassedMsg);
          observation = \<lparr> ob_provider = ch_provider (me_comments env), ob_checks = checks, ob_failing = [], ob_unresolvedCancelled = [],
            ob_mergeConflict = False, ob_behindBase = False, ob_reruns = used (mo_budget m), ob_botComments = [], ob_greenBots = True,
            ob_excludedChecks = si_excluded s \<rparr> in
      case ReadReadinessReviewBotComments (me_comments env) (me_policy env) checks (si_excluded s) of
        Inl (ReviewBotIsPending b) \<Rightarrow>
          (logCIMonitorStatus written reviewBotPendingMsg (clearCIMonitorReady written m), Waits, NothingSeen)
      | Inl err \<Rightarrow>
          if po_commentsBroken p then (clearCIMonitorReady written m, Fails ''plugin contract'', NothingSeen)
          else let m1 = (quiet written m)\<lparr>mo_botErrs := mo_botErrs m + 1\<rparr> in
            (m1, if mo_botErrs m1 \<ge> consecutiveCheckErrorLimit
                 then ends_with (reviewBotCommentsReadFailureOutcome ''read failed'') m1 else Waits, CommentsUnreadable)
      | Inr comments \<Rightarrow>
          let found = ciObservationFindings (observation\<lparr>ob_botComments := comments\<rparr>) in
          if items found \<noteq> [] then
            ((clearCIMonitorReady written m)\<lparr>mo_deferred := [], mo_observedAt := terminalFailureCompletionTimes checks\<rparr>,
             Ends (ciObservationOutcome found), NothingSeen)
          else if si_behind s then
            (case po_secondTip p of
               Some tip \<Rightarrow>
                 if tip \<noteq> [] \<and> tip = mo_behindTip m then
                   ((clearCIMonitorReady written m)\<lparr>mo_deferred := []\<rparr>,
                    Ends (ciObservationOutcome (ciObservationFindings (observation\<lparr>ob_greenBots := False, ob_excludedChecks := [], ob_behindBase := True\<rparr>))), BehindSeen)
                 else (logCIMonitorStatus written ciBehindBaseMsg (m\<lparr>mo_behindTip := tip\<rparr>), Waits, BehindSeen)
             | None \<Rightarrow> (logCIMonitorStatus written ciBehindBaseMsg (m\<lparr>mo_behindTip := []\<rparr>), Waits, BehindSeen))
          else let m1 = m\<lparr>mo_deferred := []\<rparr> in
            (case po_comparison p of
               ComparisonVerified \<Rightarrow> (logCIMonitorStatus written passedMsg m1, Waits, NothingSeen)
             | ComparisonFailed \<Rightarrow> (quiet written m1, Waits, NothingSeen)
             | ReceiptMissing \<Rightarrow>
                 let m2 = quiet written m1;
                     m3 = (if mo_missingSince m2 = None \<or> mo_missingHead m2 \<noteq> me_head env
                           then m2\<lparr>mo_missingSince := Some (po_now p), mo_missingHead := me_head env\<rparr> else m2) in
                 (m3, if po_now p - the (mo_missingSince m3) \<ge> me_receiptTimeout env
                      then Fails ''ci-readiness-receipt-missing'' else Waits, ReceiptMissingSeen)))"

definition no_checks_yet :: "monitor_env \<Rightarrow> sighting \<Rightarrow> bool" where
  "no_checks_yet env s \<longleftrightarrow> si_checks s = [] \<and>
     (\<not> Ready (si_scoped s) \<and> (\<not> py_NoCI (me_policy env) \<or> me_strict env) \<or> \<not> si_observed s \<and> me_strict env)"

definition observe_clean :: "monitor_env \<Rightarrow> poll \<Rightarrow> sighting \<Rightarrow> monitor \<Rightarrow> monitor \<times> poll_result \<times> poll_note" where
  "observe_clean env p s m0 =
     (let m = m0\<lparr>mo_lastFixed := None, mo_lastFixedAt := []\<rparr>; written = po_writes p in
      if \<not> si_stateKnown s \<or> \<not> si_mergeKnown s then (quiet written m, Waits, NothingSeen)
      else if \<not> Settled (si_scoped s) then (logCIMonitorStatus written (ciWaitingMessage (si_checks s)) m, Waits, NothingSeen)
      else if no_checks_yet env s then (quiet written m, Waits, NothingSeen)
      else if si_checks s = [] \<or> Ready (si_scoped s) then observe_green env p s m
      else (logCIMonitorStatus written ciChecksRunningMsg (clearCIMonitorReady written m), Waits, NothingSeen))"

text \<open>Issues on a settled head; the observation is repaired, decided or, while the last repair is still unverified, waited for.\<close>

definition observe_issues :: "monitor_env \<Rightarrow> poll \<Rightarrow> sighting \<Rightarrow> string list \<Rightarrow> string list \<Rightarrow> monitor \<Rightarrow> monitor \<times> poll_result \<times> poll_note" where
  "observe_issues env p s failing unresolved m0 =
     (let m = m0\<lparr>mo_lastLog := []\<rparr>; checks = si_checks s in
      if hasExecutingPendingChecks checks then
        (if pendingCheckMatchesLastFixed checks (mo_lastFixed m) then m\<lparr>mo_lastFixed := None, mo_lastFixedAt := []\<rparr> else m, Waits, NothingSeen)
      else if lastRepairStillUnverified checks (si_conflict s) (mo_lastFixed m) then (m, Waits, NothingSeen)
      else
        (m\<lparr>mo_lastFixed := None, mo_lastFixedAt := [], mo_deferred := [], mo_observedAt := terminalFailureCompletionTimes checks\<rparr>,
         Ends (ciObservationOutcome (ciObservationFindings \<lparr> ob_provider = ch_provider (me_comments env), ob_checks = checks,
           ob_failing = failing, ob_unresolvedCancelled = unresolved, ob_mergeConflict = si_conflict s, ob_behindBase = False,
           ob_reruns = used (mo_budget m), ob_botComments = reviewBotComments (me_comments env) (me_always env) checks (si_excluded s),
           ob_greenBots = me_always env, ob_excludedChecks = si_excluded s \<rparr>)), NothingSeen))"

text \<open>Reruns first, then what no rerun will replace, then the issues or the clean head.\<close>

definition settle_checks :: "monitor_env \<Rightarrow> poll \<Rightarrow> sighting \<Rightarrow> bool \<Rightarrow> monitor \<Rightarrow> monitor \<times> poll_result \<times> poll_note" where
  "settle_checks env p s issued m =
     (let checks = si_checks s; fold = foldRunCoveredJobs checks; executing = hasExecutingPendingChecks checks;
          (unresolved0, awaiting0, b) = (if issued then ([], [], mo_budget m) else cancelledAfterRerun fold (mo_budget m));
          unresolved = sort (if issued \<or> executing then unresolved0 else mergeCheckNames unresolved0 (cancelledWithoutRerun fold b));
          awaiting = sort awaiting0; failing = sort (failingCheckNames checks);
          issues = (failing \<noteq> [] \<or> si_conflict s \<or> unresolved \<noteq> []);
          m1 = m\<lparr>mo_budget := b, mo_targets := terminalCheckTargetsForNames checks (mergeCheckNames (mergeCheckNames failing unresolved) awaiting)\<rparr>;
          bad = (issues \<or> awaiting \<noteq> []);
          m2 = (if bad then setCIMonitorReadiness (po_writes p) False False m1 else m1) in
      if bad \<and> \<not> po_writes p then (m1, Fails ''persist CI readiness'', NothingSeen)
      else if issued \<or> \<not> issues \<and> awaiting \<noteq> [] then (logCIMonitorStatus (po_writes p) ciChecksRunningMsg m2, Waits, NothingSeen)
      else if issues then observe_issues env p s failing unresolved m2
      else observe_clean env p s m2)"

definition observe_checks :: "monitor_env \<Rightarrow> poll \<Rightarrow> sighting \<Rightarrow> monitor \<Rightarrow> monitor \<times> poll_result \<times> poll_note" where
  "observe_checks env p s m =
     (let checks = si_checks s;
          m1 = (case retireResolvedReruns checks (me_head env) (\<lambda>_. po_retired p) (mo_budget m) of
                  Inl u \<Rightarrow> m | Inr (written, b) \<Rightarrow> m\<lparr>mo_budget := b, mo_durable := (if written then b else mo_durable m)\<rparr>);
          m2 = (if terminalFailureCompletedAfter checks (mo_lastFixedAt m1) then m1\<lparr>mo_lastFixed := None, mo_lastFixedAt := []\<rparr> else m1) in
      if hasExecutingPendingChecks checks \<or> si_conflict s then settle_checks env p s False m2
      else
        let (r, b, durable) = rerunTransientChecks (me_rerunLimit env) (me_canRerun env) (me_head env) (po_published p) (po_answers p) checks (mo_budget m2) (mo_durable m2);
            m3 = m2\<lparr>mo_budget := b, mo_durable := durable\<rparr> in
        (case r of
           HeadMoved published \<Rightarrow> (clearCIMonitorReady (po_writes p) m3, Ends (ciRerunHeadMismatchOutcome (me_head env) published), NothingSeen)
         | NoReruns \<Rightarrow> settle_checks env p s False m3
         | Requested issued names \<Rightarrow> settle_checks env p s issued m3))"

text \<open>The checks under their scope. The provider's word on failures of its own infrastructure changes the scoped checks in place.\<close>

definition scope_checks :: "monitor_env \<Rightarrow> poll \<Rightarrow> bool \<Rightarrow> bool \<Rightarrow> bool \<Rightarrow> bool \<Rightarrow> Check list \<Rightarrow> monitor \<Rightarrow> monitor \<times> poll_result \<times> poll_note" where
  "scope_checks env p stateKnown mergeKnown conflict behind checks m0 =
     (let (scoped, scope) = Apply (po_required p) (me_head env) checks (mo_scope m0);
          m = m0\<lparr>mo_checkErrs := 0, mo_scope := scope\<rparr>;
          resolving = (\<not> mo_recorded m \<and> Resolution scope \<noteq> None);
          relevant = sd_Relevant scoped; seen = relevant @ sd_External scoped @ sd_Informational scoped in
      if resolving \<and> \<not> po_record p then (clearCIMonitorReady (po_writes p) m, Fails ''record CI check scope'', NothingSeen)
      else
        let m1 = m\<lparr>mo_recorded := (mo_recorded m \<or> resolving)\<rparr> in
        (case scopeRetainedCIReruns (po_required p) scope seen (\<lambda>_. po_narrowed p) (mo_budget m1) of
           Inl u \<Rightarrow> (m1, Fails ''persist scoped CI reruns'', NothingSeen)
         | Inr (written, b) \<Rightarrow>
             let m2 = m1\<lparr>mo_budget := b, mo_durable := (if written then b else mo_durable m1)\<rparr> in
             (case scopeRetainedCIFindings (po_required p) (me_head env) (me_always env) seen scope (mo_previous m2, mo_deferred m2) of
                None \<Rightarrow> (m2, Fails ''scope retained CI findings'', NothingSeen)
              | Some (previous, deferred) \<Rightarrow>
                  let marked = markPreRunInfraFailures (me_rerunLimit env) (po_infra p) relevant in
                  observe_checks env p
                    \<lparr> si_checks = marked, si_excluded = ReviewBotPresenceMarkers (ExternalReviewBotChecks scope) scoped,
                      si_scoped = scoped\<lparr>sd_Relevant := marked\<rparr>, si_observed = (checks \<noteq> []), si_stateKnown = stateKnown,
                      si_mergeKnown = mergeKnown, si_conflict = conflict, si_behind = behind \<rparr>
                    (m2\<lparr>mo_previous := previous, mo_deferred := deferred\<rparr>))))"

definition poll_checks :: "monitor_env \<Rightarrow> poll \<Rightarrow> bool \<Rightarrow> bool \<Rightarrow> bool \<Rightarrow> bool \<Rightarrow> monitor \<Rightarrow> monitor \<times> poll_result \<times> poll_note" where
  "poll_checks env p stateKnown mergeKnown conflict behind m =
     (let written = po_writes p;
          elsewhere = (\<lambda>err. (logCIMonitorStatus written (ChecksHeadWaitingPrefix @ err) (m\<lparr>mo_targets := [], mo_conflict := False, mo_checkErrs := 0\<rparr>), Waits, NothingSeen)) in
      case po_checks p of
        ChecksBroken err \<Rightarrow> (clearCIMonitorReady written m, Fails err, NothingSeen)
      | ChecksNotForHead err \<Rightarrow> elsewhere err
      | ChecksFailed err \<Rightarrow>
          let m1 = (quiet written m)\<lparr>mo_checkErrs := mo_checkErrs m + 1\<rparr> in
          (m1, if mo_checkErrs m1 \<ge> consecutiveCheckErrorLimit then ends_with (ciCheckReadFailureOutcome err) m1 else Waits, NothingSeen)
      | ChecksRead checks \<Rightarrow>
          if \<not> ValidateCheckHeads checks (me_head env) then elsewhere ''head changed''
          else scope_checks env p stateKnown mergeKnown conflict behind checks m)"

section \<open>One poll\<close>

definition poll_merge :: "monitor_env \<Rightarrow> poll \<Rightarrow> bool \<Rightarrow> monitor \<Rightarrow> monitor \<times> poll_result \<times> poll_note" where
  "poll_merge env p stateKnown m =
     (case po_merge p of
        MergeUnsupported \<Rightarrow> poll_checks env p stateKnown True False False m
      | MergeBroken err \<Rightarrow> (clearCIMonitorReady (po_writes p) m, Fails err, NothingSeen)
      | MergeUnreadable \<Rightarrow> poll_checks env p stateKnown False False False (m\<lparr>mo_blocked := []\<rparr>)
      | MergeRead state \<Rightarrow>
          poll_checks env p stateKnown (Resolved state) (Conflict state) (Behind state \<and> me_rebaseBehind env)
            (if Resolved state then m\<lparr>mo_blocked := [], mo_conflict := Conflict state\<rparr>
             else m\<lparr>mo_blocked := ''PR mergeability remained unresolved before timeout: '' @ state\<rparr>))"

definition poll_strict :: "monitor_env \<Rightarrow> poll \<Rightarrow> bool \<Rightarrow> monitor \<Rightarrow> monitor \<times> poll_result \<times> poll_note" where
  "poll_strict env p stateKnown m =
     (if \<not> me_strict env then poll_merge env p stateKnown m
      else case po_strict p of
          StrictFails err \<Rightarrow> (m, Fails err, NothingSeen)
        | StrictMoved \<Rightarrow>
            if \<not> po_writes p then (m, Fails ''persist CI readiness'', NothingSeen)
            else (setCIMonitorReadiness True False False m, Ends (zero_outcome\<lparr>oc_RestartFrom := StepRebase\<rparr>), NothingSeen)
        | StrictCurrent \<Rightarrow> poll_merge env p stateKnown m)"

definition poll_state :: "monitor_env \<Rightarrow> poll \<Rightarrow> monitor \<Rightarrow> monitor \<times> poll_result \<times> poll_note" where
  "poll_state env p m =
     (case po_state p of
        StateBroken err \<Rightarrow> (clearCIMonitorReady (po_writes p) m, Fails err, NothingSeen)
      | StateUnreadable \<Rightarrow> poll_strict env p False m
      | StateRead state \<Rightarrow>
          (case terminalCIOutcome (me_strict env) (me_head env) (po_proof p) (po_observed p) state of
             Some r \<Rightarrow> (m, r, NothingSeen)
           | None \<Rightarrow> if state = ''OPEN'' \<and> \<not> po_observed p then (m, Fails ''observe PR state'', NothingSeen)
                     else poll_strict env p True m))"

text \<open>The target branch of the request; Inl ends the poll here.\<close>

definition poll_base :: "monitor_env \<Rightarrow> poll \<Rightarrow> monitor \<Rightarrow> monitor \<times> poll_result + monitor" where
  "poll_base env p m =
     (if me_strict env then (case po_strictBase p of None \<Rightarrow> Inr m | Some err \<Rightarrow> Inl (clearCIMonitorReady (po_writes p) m, Fails err))
      else case po_base p of
          NoBaseReader \<Rightarrow> Inr m
        | BaseBroken err \<Rightarrow> Inl (clearCIMonitorReady (po_writes p) m, Fails err)
        | BaseUnreadable \<Rightarrow> Inl (quiet (po_writes p) (m\<lparr>mo_missingSince := None, mo_missingHead := []\<rparr>), Waits)
        | BaseRead read \<Rightarrow>
            let live = TrimSpace read in
            if live = [] \<or> live = mo_base m then Inr m
            else let m1 = quiet (po_writes p) (m\<lparr>mo_base := live, mo_scope := NewCheckScope (me_policy env) live, mo_targets := [],
                   mo_conflict := False, mo_recorded := False\<rparr>) in
              if \<not> po_record p then Inl (m1, Fails ''record CI check scope'') else Inr m1)"

definition rearm :: "monitor_env \<Rightarrow> poll \<Rightarrow> monitor \<Rightarrow> monitor" where
  "rearm env p m =
     (if me_timeout env < 0 then m
      else case po_tip p of
          None \<Rightarrow> m
        | Some tip \<Rightarrow>
            if tip = [] then m
            else if mo_lastTip m = [] then m\<lparr>mo_lastTip := tip\<rparr>
            else if tip \<noteq> mo_lastTip m then m\<lparr>mo_anchor := po_now p, mo_lastTip := tip\<rparr> else m)"

definition after_poll :: "poll_note \<Rightarrow> monitor \<Rightarrow> monitor" where
  "after_poll note m =
     (let m1 = (if note = ReceiptMissingSeen then m else m\<lparr>mo_missingSince := None, mo_missingHead := []\<rparr>);
          m2 = (if note = CommentsUnreadable then m1 else m1\<lparr>mo_botErrs := 0\<rparr>) in
      if note = BehindSeen then m2 else m2\<lparr>mo_behindTip := []\<rparr>)"

definition cim_poll :: "monitor_env \<Rightarrow> poll \<Rightarrow> monitor \<Rightarrow> monitor \<times> poll_result" where
  "cim_poll env p m =
     (if timed_out env p m then (m, ends_with (timeoutOutcome m) m)
      else case poll_base env p m of
          Inl ended \<Rightarrow> ended
        | Inr m1 \<Rightarrow>
            let (m2, r, note) = poll_state env p (rearm env p m1) in
            (if r = Waits then after_poll note m2 else m2, r))"

text \<open>The polls of one execution, as long as each of them waits for the next.\<close>

fun run_polls :: "monitor_env \<Rightarrow> poll list \<Rightarrow> monitor \<Rightarrow> monitor option" where
  "run_polls env [] m = Some m"
| "run_polls env (p # ps) m = (case cim_poll env p m of (m', Waits) \<Rightarrow> run_polls env ps m' | _ \<Rightarrow> None)"

section \<open>Readiness is earned in the poll that reports it\<close>

definition passed_msg :: "string \<Rightarrow> bool" where
  "passed_msg msg \<longleftrightarrow> msg = ciChecksPassedMsg \<or> msg = ciNoChecksPassedMsg"

definition ready_ok :: "monitor \<Rightarrow> bool" where
  "ready_ok m \<longleftrightarrow> (mo_ready m \<longrightarrow> passed_msg (mo_lastLog m) \<or> mo_lastLog m = [])"

lemma msgs_nonempty [simp]: "ciChecksRunningMsg \<noteq> []" "ciChecksAwaitingApprovalMsg \<noteq> []" "ciBehindBaseMsg \<noteq> []"
  "reviewBotPendingMsg \<noteq> []" "ChecksHeadWaitingPrefix \<noteq> []" "ciWaitingMessage cs \<noteq> []" "ciChecksPassedMsg \<noteq> []" "ciNoChecksPassedMsg \<noteq> []"
  by (simp_all add: monitor_msgs ciWaitingMessage_def)

lemma not_passed [simp]: "\<not> passed_msg ciChecksRunningMsg" "\<not> passed_msg ciChecksAwaitingApprovalMsg" "\<not> passed_msg ciBehindBaseMsg"
  "\<not> passed_msg reviewBotPendingMsg" "\<not> passed_msg (ChecksHeadWaitingPrefix @ err)" "\<not> passed_msg (ciWaitingMessage cs)" "\<not> passed_msg []"
  by (simp_all add: passed_msg_def monitor_msgs ciWaitingMessage_def)

lemma ready_writes [simp]:
  "mo_ready (setCIMonitorReadiness True r n m) = r" "mo_lastLog (setCIMonitorReadiness w r n m) = mo_lastLog m"
  "mo_ready (clearCIMonitorReady True m) = False" "mo_lastLog (clearCIMonitorReady w m) = mo_lastLog m"
  "mo_ready (quiet True m) = False" "mo_lastLog (quiet w m) = []"
  "mo_ready (logCIMonitorStatus True msg m) \<longleftrightarrow> (if msg = mo_lastLog m then mo_ready m else passed_msg msg)"
  "mo_lastLog (logCIMonitorStatus w msg m) = msg"
  by (simp_all add: setCIMonitorReadiness_def clearCIMonitorReady_def quiet_def logCIMonitorStatus_def passed_msg_def)

lemma log_other: "ready_ok m \<Longrightarrow> \<not> passed_msg msg \<Longrightarrow> msg \<noteq> [] \<Longrightarrow> \<not> mo_ready (logCIMonitorStatus True msg m)"
  by (auto simp: ready_ok_def)

text \<open>What \<open>observe_green\<close>, \<open>observe_clean\<close> and \<open>settle_checks\<close> need to leave the head ready.\<close>

definition green_head :: "monitor_env \<Rightarrow> poll \<Rightarrow> sighting \<Rightarrow> bool" where
  "green_head env p s \<longleftrightarrow> \<not> si_behind s \<and> po_comparison p = ComparisonVerified \<and>
     ReadReadinessReviewBotComments (me_comments env) (me_policy env) (si_checks s) (si_excluded s) = Inr []"

definition clean_head :: "monitor_env \<Rightarrow> poll \<Rightarrow> sighting \<Rightarrow> bool" where
  "clean_head env p s \<longleftrightarrow> green_head env p s \<and> si_stateKnown s \<and> si_mergeKnown s \<and> \<not> si_conflict s \<and>
     (Ready (si_scoped s) \<or> si_checks s = [] \<and> py_NoCI (me_policy env) \<and> \<not> me_strict env)"

lemma set_map_filter: "set (List.map_filter f xs) = {y. \<exists>x \<in> set xs. f x = Some y}"
  by (induction xs) (auto simp: map_filter_simps split: option.splits)

lemma no_candidates: "bot_candidates provider cs [] checks = [] \<Longrightarrow> \<forall>ch \<in> set checks. filter (left_by provider (bc_bot ch)) cs = []"
proof (induction checks)
  case (Cons ch checks)
  have none: "filter (left_by provider (bc_bot ch)) cs = []"
    using Cons.prems by (cases "filter (left_by provider (bc_bot ch)) cs") (auto simp: Let_def split: prod.splits)
  then show ?case using Cons by (simp add: Let_def)
qed simp

lemma no_comment_left:
  assumes "ReadReadinessReviewBotComments host policy checks excluded = Inr cs"
    and "reviewBotFindings (ch_provider host) (greenReviewBotChecks checks excluded) cs = []"
  shows "cs = []"
proof (rule ccontr)
  assume "cs \<noteq> []"
  then obtain c where c: "c \<in> set cs" by (cases cs) auto
  then obtain b where b: "ReviewBotForLogin (ch_provider host) (rvc_Author c) = Some b"
      "rb_AppSlug b \<in> rb_AppSlug ` set (candidate_bots (ch_provider host) checks excluded)"
    using assms(1) by (auto simp: ReadReadinessReviewBotComments_def Let_def split: if_splits option.splits)
  then obtain ch b' where ch: "ch \<in> set (ReviewBotCommentChecks checks excluded)" "ReviewBotForApp (ck_App (ck ch)) = Some b'" "rb_AppSlug b' = rb_AppSlug b"
    by (auto simp: candidate_bots_def set_map_filter)
  have "bot_candidates (ch_provider host) cs [] (greenReviewBotChecks checks excluded) = []"
    using bot_findings_shape [of "ch_provider host" "greenReviewBotChecks checks excluded" cs] assms(2) by (auto simp: Let_def)
  then have "filter (left_by (ch_provider host) b') cs = []"
    using no_candidates ch(1,2) by (fastforce simp: greenReviewBotChecks_def)
  moreover have "left_by (ch_provider host) b' c" using b(1) ch(3) by (simp add: left_by_def)
  ultimately show False using c by (auto simp: filter_empty_conv)
qed

lemma green_observation:
  "ob_failing ob = [] \<Longrightarrow> ob_unresolvedCancelled ob = [] \<Longrightarrow> \<not> ob_mergeConflict ob \<Longrightarrow> \<not> ob_behindBase ob \<Longrightarrow> ob_greenBots ob \<Longrightarrow>
   items (ciObservationFindings ob) = reviewBotFindings (ob_provider ob) (greenReviewBotChecks (ob_checks ob) (ob_excludedChecks ob)) (ob_botComments ob)"
  unfolding observation_items Let_def by (simp add: code_checks_def red_bots_def unresolvedTransientChecks_def List.map_filter_def)

lemma green_ready:
  assumes "observe_green env p s m = (m', Waits, note)" "po_writes p" "ready_ok m"
  shows "ready_ok m' \<and> (mo_ready m' \<longrightarrow> green_head env p s)"
proof (cases "ReadReadinessReviewBotComments (me_comments env) (me_policy env) (si_checks s) (si_excluded s)")
  case (Inl err)
  then show ?thesis using assms log_other [of "clearCIMonitorReady True m" reviewBotPendingMsg]
    by (auto simp: observe_green_def ready_ok_def Let_def split: comments_error.splits if_splits)
next
  case (Inr cs)
  define fs where "fs = reviewBotFindings (ch_provider (me_comments env)) (greenReviewBotChecks (si_checks s) (si_excluded s)) cs"
  have fs: "fs = []" using assms(1) Inr
    by (auto simp: observe_green_def Let_def green_observation fs_def split: if_splits)
  then have cs: "cs = []" using no_comment_left [OF Inr] by (simp add: fs_def)
  show ?thesis
  proof (cases "si_behind s")
    case True
    then show ?thesis using assms Inr by (auto simp: observe_green_def ready_ok_def Let_def split: option.splits if_splits)
  next
    case False
    then show ?thesis using assms Inr cs
      by (cases "po_comparison p") (auto simp: observe_green_def green_head_def ready_ok_def passed_msg_def Let_def split: if_splits)
  qed
qed


lemma clean_ready:
  assumes "observe_clean env p s m0 = (m', Waits, note)" "po_writes p" "ready_ok m0" "\<not> si_conflict s"
  shows "ready_ok m' \<and> (mo_ready m' \<longrightarrow> clean_head env p s)"
proof -
  define m where "m = m0\<lparr>mo_lastFixed := None, mo_lastFixedAt := []\<rparr>"
  have m: "ready_ok m" using assms(3) by (simp add: m_def ready_ok_def)
  have eq: "observe_clean env p s m0 =
     (if \<not> si_stateKnown s \<or> \<not> si_mergeKnown s then (quiet True m, Waits, NothingSeen)
      else if \<not> Settled (si_scoped s) then (logCIMonitorStatus True (ciWaitingMessage (si_checks s)) m, Waits, NothingSeen)
      else if no_checks_yet env s then (quiet True m, Waits, NothingSeen)
      else if si_checks s = [] \<or> Ready (si_scoped s) then observe_green env p s m
      else (logCIMonitorStatus True ciChecksRunningMsg (clearCIMonitorReady True m), Waits, NothingSeen))"
    using assms(2) by (simp add: observe_clean_def m_def)
  consider (other) "\<not> mo_ready m'" | (green) "observe_green env p s m = (m', Waits, note)" "si_stateKnown s" "si_mergeKnown s"
      "\<not> no_checks_yet env s" "si_checks s = [] \<or> Ready (si_scoped s)"
    using assms(1) log_other [OF m, of "ciWaitingMessage (si_checks s)"] unfolding eq by (auto split: if_splits)
  then show ?thesis
  proof cases
    case green
    then have "Ready (si_scoped s) \<or> si_checks s = [] \<and> py_NoCI (me_policy env) \<and> \<not> me_strict env"
      by (auto simp: no_checks_yet_def)
    then show ?thesis using green_ready [OF green(1) assms(2) m] green(2,3) assms(4) by (auto simp: clean_head_def)
  qed (simp add: ready_ok_def)
qed

lemma issues_ready:
  "observe_issues env p s failing unresolved m0 = (m', Waits, note) \<Longrightarrow> mo_ready m' = mo_ready m0"
  by (auto simp: observe_issues_def Let_def split: if_splits)

lemma settle_ready:
  assumes "settle_checks env p s issued m = (m', Waits, note)" "po_writes p" "ready_ok m"
  shows "ready_ok m' \<and> (mo_ready m' \<longrightarrow> clean_head env p s)"
proof -
  obtain u a b where outstanding: "(if issued then ([], [], mo_budget m) else cancelledAfterRerun (foldRunCoveredJobs (si_checks s)) (mo_budget m)) = (u, a, b)"
    by (cases "if issued then ([], [], mo_budget m) else cancelledAfterRerun (foldRunCoveredJobs (si_checks s)) (mo_budget m)")
  define unresolved where "unresolved = sort (if issued \<or> hasExecutingPendingChecks (si_checks s) then u
    else mergeCheckNames u (cancelledWithoutRerun (foldRunCoveredJobs (si_checks s)) b))"
  define failing where "failing = sort (failingCheckNames (si_checks s))"
  define issues where "issues = (failing \<noteq> [] \<or> si_conflict s \<or> unresolved \<noteq> [])"
  define m1 where "m1 = m\<lparr>mo_budget := b, mo_targets := terminalCheckTargetsForNames (si_checks s) (mergeCheckNames (mergeCheckNames failing unresolved) (sort a))\<rparr>"
  define m2 where "m2 = (if issues \<or> sort a \<noteq> [] then setCIMonitorReadiness True False False m1 else m1)"
  have eq: "settle_checks env p s issued m =
    (if issued \<or> \<not> issues \<and> sort a \<noteq> [] then (logCIMonitorStatus True ciChecksRunningMsg m2, Waits, NothingSeen)
     else if issues then observe_issues env p s failing unresolved m2
     else observe_clean env p s m2)"
    unfolding settle_checks_def Let_def outstanding prod.case unresolved_def [symmetric] failing_def [symmetric]
    unfolding issues_def [symmetric] m1_def [symmetric] m2_def using assms(2) by simp
  have m2: "ready_ok m2" "issues \<Longrightarrow> \<not> mo_ready m2" using assms(3) by (auto simp: m2_def m1_def ready_ok_def)
  consider (run) "m' = logCIMonitorStatus True ciChecksRunningMsg m2" | (bad) "issues" "observe_issues env p s failing unresolved m2 = (m', Waits, note)"
    | (clean) "\<not> issues" "observe_clean env p s m2 = (m', Waits, note)"
    using assms(1) unfolding eq by (auto split: if_splits)
  then show ?thesis
  proof cases
    case run
    then have "\<not> mo_ready m'" using log_other [OF m2(1)] by simp
    then show ?thesis by (simp add: ready_ok_def)
  next
    case bad
    then show ?thesis using issues_ready [OF bad(2)] m2(2) by (simp add: ready_ok_def)
  next
    case clean
    then show ?thesis using clean_ready [OF clean(2) assms(2) m2(1)] by (simp add: issues_def)
  qed
qed

lemma observe_ready:
  assumes "observe_checks env p s m = (m', Waits, note)" "po_writes p" "ready_ok m"
  shows "ready_ok m' \<and> (mo_ready m' \<longrightarrow> clean_head env p s)"
proof -
  obtain m2 issued where m2: "settle_checks env p s issued m2 = (m', Waits, note)" "mo_ready m2 = mo_ready m" "mo_lastLog m2 = mo_lastLog m"
    using assms(1) by (auto simp: observe_checks_def Let_def split: if_splits sum.splits prod.splits rerun_result.splits)
  then have "ready_ok m2" using assms(3) by (simp add: ready_ok_def)
  then show ?thesis by (rule settle_ready [OF m2(1) assms(2)])
qed


lemma mark_passed: "list_all passed_check (mark_failures infra cs) \<Longrightarrow> mark_failures infra cs = cs"
proof (induction infra cs rule: mark_failures.induct)
  case (2 infra c cs)
  have "\<not> passed_check (Check ((ck c)\<lparr>ck_PreRunFailure := True, ck_Bucket := CheckBucketCancel\<rparr>) old)" for old
    by (simp add: passed_check_def bucket_defs)
  then show ?case using 2 by (auto split: if_splits list.splits)
qed simp

lemma marked_passed: "list_all passed_check (markPreRunInfraFailures limit infra cs) \<Longrightarrow> markPreRunInfraFailures limit infra cs = cs"
  using mark_passed by (auto simp: markPreRunInfraFailures_def split: if_splits option.splits)

lemma marked_Nil [simp]: "markPreRunInfraFailures limit infra cs = [] \<longleftrightarrow> cs = []"
  by (cases cs; cases infra rule: option.exhaust) (auto simp: markPreRunInfraFailures_def split: list.splits)

definition earned_head :: "monitor_env \<Rightarrow> poll \<Rightarrow> CheckScope \<Rightarrow> bool" where
  "earned_head env p scope \<longleftrightarrow> po_comparison p = ComparisonVerified \<and>
     (\<exists>checks scoped scope'. po_checks p = ChecksRead checks \<and> (\<forall>c \<in> set checks. ck_HeadSHA (ck c) = me_head env) \<and>
        Apply (po_required p) (me_head env) checks scope = (scoped, scope') \<and>
        list_all passed_check (sd_Relevant scoped) \<and>
        (sd_Relevant scoped = [] \<longrightarrow> sd_emptyReady scoped \<or> py_NoCI (me_policy env) \<and> \<not> me_strict env) \<and>
        ReadReadinessReviewBotComments (me_comments env) (me_policy env) (sd_Relevant scoped)
          (ReviewBotPresenceMarkers (ExternalReviewBotChecks scope') scoped) = Inr [])"

lemma scope_ready:
  assumes "scope_checks env p sk mk cf bh checks m = (m', Waits, note)" "po_writes p" "ready_ok m"
    and read: "po_checks p = ChecksRead checks" "ValidateCheckHeads checks (me_head env)"
  shows "ready_ok m' \<and> (mo_ready m' \<longrightarrow> earned_head env p (mo_scope m) \<and> sk \<and> mk \<and> \<not> cf \<and> \<not> bh)"
proof -
  obtain scoped scope where app: "Apply (po_required p) (me_head env) checks (mo_scope m) = (scoped, scope)"
    by (cases "Apply (po_required p) (me_head env) checks (mo_scope m)")
  define marked where "marked = markPreRunInfraFailures (me_rerunLimit env) (po_infra p) (sd_Relevant scoped)"
  define s where "s = \<lparr> si_checks = marked, si_excluded = ReviewBotPresenceMarkers (ExternalReviewBotChecks scope) scoped,
    si_scoped = scoped\<lparr>sd_Relevant := marked\<rparr>, si_observed = (checks \<noteq> []), si_stateKnown = sk,
    si_mergeKnown = mk, si_conflict = cf, si_behind = bh \<rparr>"
  obtain m2 where m2: "observe_checks env p s m2 = (m', Waits, note)" "mo_ready m2 = mo_ready m" "mo_lastLog m2 = mo_lastLog m"
    using assms(1) by (auto simp: scope_checks_def app s_def marked_def Let_def split: if_splits sum.splits option.splits prod.splits)
  then have "ready_ok m2" using assms(3) by (simp add: ready_ok_def)
  note clean = observe_ready [OF m2(1) assms(2) this]
  have "earned_head env p (mo_scope m) \<and> sk \<and> mk \<and> \<not> cf \<and> \<not> bh" if "clean_head env p s"
  proof -
    have facts: "po_comparison p = ComparisonVerified" "\<not> bh" "sk" "mk" "\<not> cf"
      "ReadReadinessReviewBotComments (me_comments env) (me_policy env) marked (ReviewBotPresenceMarkers (ExternalReviewBotChecks scope) scoped) = Inr []"
      "Ready (scoped\<lparr>sd_Relevant := marked\<rparr>) \<or> marked = [] \<and> py_NoCI (me_policy env) \<and> \<not> me_strict env"
      using that by (auto simp: clean_head_def green_head_def s_def)
    have passed: "list_all passed_check marked" "marked = [] \<longrightarrow> sd_emptyReady scoped \<or> py_NoCI (me_policy env) \<and> \<not> me_strict env"
      using facts(7) by (auto simp: Ready_def split: if_splits)
    have "marked = sd_Relevant scoped" using marked_passed passed(1) by (simp add: marked_def)
    moreover have "\<forall>c \<in> set checks. ck_HeadSHA (ck c) = me_head env" using read(2) by (auto simp: ValidateCheckHeads_def list_all_iff)
    ultimately show ?thesis using facts passed read(1) app unfolding earned_head_def by blast
  qed
  then show ?thesis using clean by blast
qed


definition earned :: "monitor_env \<Rightarrow> poll \<Rightarrow> monitor \<Rightarrow> bool" where
  "earned env p m \<longleftrightarrow>
     (\<exists>scope. (scope = mo_scope m \<or> (\<exists>live. po_base p = BaseRead live \<and> scope = NewCheckScope (me_policy env) (TrimSpace live))) \<and>
        earned_head env p scope) \<and>
     (\<exists>state. po_state p = StateRead state \<and> state \<notin> {''MERGED'', ''CLOSED''}) \<and>
     (po_merge p = MergeUnsupported \<or> po_merge p = MergeRead ''MERGEABLE'' \<or> po_merge p = MergeRead ''BEHIND'' \<and> \<not> me_rebaseBehind env)"

lemma checks_ready:
  assumes "poll_checks env p sk mk cf bh m = (m', Waits, note)" "po_writes p" "ready_ok m"
  shows "ready_ok m' \<and> (mo_ready m' \<longrightarrow> earned_head env p (mo_scope m) \<and> sk \<and> mk \<and> \<not> cf \<and> \<not> bh)"
proof -
  have elsewhere: "\<not> mo_ready (logCIMonitorStatus True (ChecksHeadWaitingPrefix @ err) (m\<lparr>mo_targets := [], mo_conflict := False, mo_checkErrs := 0\<rparr>))" for err
    using assms(3) by (intro log_other) (simp_all add: ready_ok_def)
  consider (other) "\<not> mo_ready m'"
    | (read) checks where "po_checks p = ChecksRead checks" "ValidateCheckHeads checks (me_head env)"
        "scope_checks env p sk mk cf bh checks m = (m', Waits, note)"
    using assms(1,2) elsewhere
    by (cases "po_checks p") (auto simp: poll_checks_def Let_def ends_with_def simp del: ready_writes(7) split: if_splits)
  then show ?thesis
  proof cases
    case read
    then show ?thesis using scope_ready [OF read(3) assms(2,3) read(1,2)] by simp
  qed (simp add: ready_ok_def)
qed

lemma merge_ready:
  assumes "poll_merge env p sk m = (m', Waits, note)" "po_writes p" "ready_ok m"
  shows "ready_ok m' \<and> (mo_ready m' \<longrightarrow> earned_head env p (mo_scope m) \<and> sk \<and>
    (po_merge p = MergeUnsupported \<or> po_merge p = MergeRead ''MERGEABLE'' \<or> po_merge p = MergeRead ''BEHIND'' \<and> \<not> me_rebaseBehind env))"
proof (cases "po_merge p")
  case MergeUnsupported
  then show ?thesis using assms checks_ready [of env p sk True False False m m' "note"] by (auto simp: poll_merge_def)
next
  case (MergeBroken err)
  then show ?thesis using assms by (simp add: poll_merge_def)
next
  case MergeUnreadable
  then show ?thesis using assms checks_ready [of env p sk False False False "m\<lparr>mo_blocked := []\<rparr>" m' "note"] by (auto simp: poll_merge_def ready_ok_def)
next
  case (MergeRead state)
  define m1 where "m1 = (if Resolved state then m\<lparr>mo_blocked := [], mo_conflict := Conflict state\<rparr>
    else m\<lparr>mo_blocked := ''PR mergeability remained unresolved before timeout: '' @ state\<rparr>)"
  have m1: "ready_ok m1" "mo_scope m1 = mo_scope m" using assms(3) by (auto simp: m1_def ready_ok_def)
  have "poll_checks env p sk (Resolved state) (Conflict state) (Behind state \<and> me_rebaseBehind env) m1 = (m', Waits, note)"
    using assms(1) MergeRead by (simp add: poll_merge_def m1_def)
  from checks_ready [OF this assms(2) m1(1)] show ?thesis using MergeRead by (auto simp: m1(2) Resolved_def Conflict_def Behind_def)
qed

lemma poll_ready:
  assumes "cim_poll env p m = (m', Waits)" "po_writes p" "ready_ok m"
  shows "ready_ok m' \<and> (mo_ready m' \<longrightarrow> earned env p m)"
proof (cases "poll_base env p m")
  case (Inl ended)
  then have "ended = (m', Waits)" using assms(1) by (auto simp: cim_poll_def ends_with_def split: if_splits)
  then have "\<not> mo_ready m'" using Inl assms(2) by (auto simp: poll_base_def Let_def split: if_splits option.splits base_read.splits)
  then show ?thesis by (simp add: ready_ok_def)
next
  case (Inr m1)
  then obtain m2 nt where m2: "poll_state env p (rearm env p m1) = (m2, Waits, nt)" "m' = after_poll nt m2"
    using assms(1) by (auto simp: cim_poll_def ends_with_def Let_def split: if_splits prod.splits)
  have after: "mo_ready m' = mo_ready m2" "mo_lastLog m' = mo_lastLog m2" by (auto simp: m2(2) after_poll_def Let_def)
  have start: "mo_ready (rearm env p m1) = mo_ready m1" "mo_lastLog (rearm env p m1) = mo_lastLog m1" "mo_scope (rearm env p m1) = mo_scope m1"
    by (auto simp: rearm_def split: option.splits)
  have m1: "ready_ok m1" "mo_scope m1 = mo_scope m \<or> (\<exists>live. po_base p = BaseRead live \<and> mo_scope m1 = NewCheckScope (me_policy env) (TrimSpace live))"
    using Inr assms(2,3)
    by (auto simp: poll_base_def Let_def ready_ok_def quiet_def clearCIMonitorReady_def setCIMonitorReadiness_def split: if_splits option.splits base_read.splits)
  then have ok: "ready_ok (rearm env p m1)" by (simp add: ready_ok_def start)
  obtain sk where sk: "poll_strict env p sk (rearm env p m1) = (m2, Waits, nt)"
      "sk \<longrightarrow> (\<exists>state. po_state p = StateRead state \<and> state \<notin> {''MERGED'', ''CLOSED''})"
    using m2(1) by (auto simp: poll_state_def terminalCIOutcome_def split: state_read.splits option.splits if_splits)
  then have "poll_merge env p sk (rearm env p m1) = (m2, Waits, nt)"
    by (auto simp: poll_strict_def split: if_splits strict_read.splits)
  note head = merge_ready [OF this assms(2) ok, unfolded start]
  then have "mo_ready m' \<longrightarrow> earned env p m" unfolding earned_def after(1) using m1(2) sk(2) by blast
  then show ?thesis using head by (simp add: ready_ok_def after)
qed

lemma run_ready: "run_polls env ps m0 = Some m \<Longrightarrow> \<forall>p \<in> set ps. po_writes p \<Longrightarrow> ready_ok m0 \<Longrightarrow> ready_ok m"
proof (induction ps arbitrary: m0)
  case (Cons p ps)
  then obtain m1 where "cim_poll env p m0 = (m1, Waits)" "run_polls env ps m1 = Some m" by (auto split: prod.splits poll_result.splits)
  then show ?case using Cons poll_ready [of env p m0 m1] by simp
qed simp


text \<open>C37. A head is reported ready only by the poll that saw it: as long as the writes of readiness succeed, after any polls the
  monitor leaves the run ready only if this very poll read the checks of the delivered commit and no other, every check in the scope of the
  target branch passed (or there is none and an empty scope is declared to be enough), the comments of the review bots were read and none is
  unresolved, the request is open and known to be mergeable without conflict, and its comparison was verified.\<close>

theorem ready_is_earned:
  assumes "run_polls env ps m0 = Some m" and "mo_lastLog m0 = []" and "\<forall>q \<in> set (ps @ [p]). po_writes q"
    and "cim_poll env p m = (m', Waits)" and "mo_ready m'"
  shows "earned env p m"
proof -
  have "ready_ok m0" using assms(2) by (simp add: ready_ok_def)
  then have "ready_ok m" using run_ready [OF assms(1)] assms(3) by simp
  then show ?thesis using poll_ready [OF assms(4)] assms(3,5) by simp
qed

text \<open>A status is written once: when the write that should take readiness back fails, the later polls that see the same status
  do not try again, and the run stays ready.\<close>

lemma stale_readiness:
  assumes "mo_ready m" "mo_lastLog m = ciChecksPassedMsg"
  shows "mo_ready ((logCIMonitorStatus True ciChecksRunningMsg ^^ n) (logCIMonitorStatus False ciChecksRunningMsg m))"
proof (induction n)
  case 0
  show ?case using assms by (simp add: logCIMonitorStatus_def setCIMonitorReadiness_def)
next
  case (Suc n)
  have "mo_lastLog ((logCIMonitorStatus True ciChecksRunningMsg ^^ n) (logCIMonitorStatus False ciChecksRunningMsg m)) = ciChecksRunningMsg"
    by (cases n) simp_all
  then show ?case using Suc by simp
qed

definition sample_env :: monitor_env where
  "sample_env = \<lparr> me_head = ''h'', me_strict = False,
     me_policy = \<lparr> py_NoCI = False, py_ReviewBotComments = [], py_RequiredChecks = ''all'', py_MustPass = [], py_ExternalChecks = [], py_Resolved = None \<rparr>,
     me_rerunLimit = 0, me_rebaseBehind = False, me_timeout = 10, me_receiptTimeout = 10, me_canRerun = False,
     me_comments = \<lparr> ch_provider = ''github'', ch_capable = False, ch_pending = None, ch_comments = None \<rparr> \<rparr>"

definition sample_monitor :: monitor where
  "sample_monitor = \<lparr> mo_ready = False, mo_noCI = False, mo_lastLog = [], mo_base = ''main'',
     mo_scope = \<lparr> sc_policy = me_policy sample_env, sc_branch = ''main'', sc_resolved = True, sc_required = [], sc_derived = False \<rparr>,
     mo_recorded = True, mo_budget = new_budget, mo_durable = new_budget, mo_lastFixed = None, mo_lastFixedAt = [], mo_observedAt = [],
     mo_previous = [], mo_deferred = [], mo_checkErrs = 0, mo_botErrs = 0, mo_behindTip = [], mo_missingSince = None, mo_missingHead = [],
     mo_targets = [], mo_conflict = False, mo_blocked = [], mo_anchor = 0, mo_lastTip = [] \<rparr>"

definition sample_green :: Check where
  "sample_green = Check (no_check\<lparr>ck_Name := ''build'', ck_HeadSHA := ''h'', ck_Bucket := CheckBucketPass\<rparr>) []"

definition sample_poll :: poll where
  "sample_poll = \<lparr> po_now = 0, po_writes = True, po_strictBase = None, po_base = NoBaseReader, po_record = True, po_tip = None,
     po_state = StateRead ''OPEN'', po_proof = None, po_observed = True, po_strict = StrictCurrent, po_merge = MergeRead ''MERGEABLE'',
     po_checks = ChecksRead [sample_green], po_required = None, po_narrowed = True, po_infra = None, po_retired = True, po_published = None,
     po_answers = [], po_commentsBroken = False, po_secondTip = None, po_comparison = ComparisonVerified \<rparr>"

lemma sample_scope: "Apply None ''h'' [sample_green] (mo_scope sample_monitor) =
  (\<lparr> sd_Relevant = [sample_green], sd_External = [], sd_Informational = [], sd_emptyReady = False, sd_reviewBotCommentsAlways = False \<rparr>,
   mo_scope sample_monitor)"
  by (simp add: Apply_def requiredContexts_def partition_checks_def missing_wants_def sample_monitor_def sample_env_def sample_green_def
    classifyIdentity_def matchesCheckIdentity_def)

definition sample_sighting :: sighting where
  "sample_sighting = \<lparr> si_checks = [sample_green], si_excluded = [],
     si_scoped = \<lparr> sd_Relevant = [sample_green], sd_External = [], sd_Informational = [], sd_emptyReady = False, sd_reviewBotCommentsAlways = False \<rparr>,
     si_observed = True, si_stateKnown = True, si_mergeKnown = True, si_conflict = False, si_behind = False \<rparr>"

lemma sample_green [simp]: "\<not> Failing sample_green" "\<not> executing sample_green" "passed_check sample_green" "\<not> checkFailedTerminally sample_green"
    "CheckBucketPass \<noteq> CheckBucketCancel" "ck_Bucket (ck sample_green) = CheckBucketPass" "ck_HeadSHA (ck sample_green) = ''h''"
    "ReviewBotForApp (ck_App (ck sample_green)) = None"
  by (simp_all add: sample_green_def no_check_def Failing_def executing_def Pending_def passed_check_def checkFailedTerminally_def bucket_defs
    ReviewBotForApp_def)

lemma sample_head [simp]: "Settled (si_scoped sample_sighting)" "Ready (si_scoped sample_sighting)"
  "foldRunCoveredJobs [sample_green] = [sample_green]" "hasExecutingPendingChecks [sample_green] = False" "failingCheckNames [sample_green] = []"
  by (simp_all add: sample_sighting_def Settled_def Ready_def foldRunCoveredJobs_def hasExecutingPendingChecks_def failingCheckNames_def)

lemma sample_observe_green:
  assumes "mo_lastLog m = []"
  shows "\<exists>m'. observe_green sample_env sample_poll sample_sighting m = (m', Waits, NothingSeen) \<and> mo_ready m'"
proof -
  have "ReadReadinessReviewBotComments (me_comments sample_env) (me_policy sample_env) [sample_green] [] = Inr []"
    by (simp add: ReadReadinessReviewBotComments_def sample_env_def Let_def)
  moreover have "reviewBotFindings provider (greenReviewBotChecks [sample_green] []) [] = []" for provider
  proof -
    have "bot_candidates provider [] [] cs = [] " if "\<forall>ch \<in> set cs. bc_green ch" for cs using that by (induction cs) (auto simp: Let_def)
    then have "bot_candidates provider [] [] (greenReviewBotChecks [sample_green] []) = []" by (simp add: greenReviewBotChecks_def)
    then show ?thesis by (simp add: reviewBotFindings_def)
  qed
  ultimately show ?thesis using assms
    by (simp add: observe_green_def sample_sighting_def sample_poll_def green_observation Let_def passed_msg_def)
qed

lemma sample_clean_head: "observe_clean sample_env sample_poll sample_sighting m =
    observe_green sample_env sample_poll sample_sighting (m\<lparr>mo_lastFixed := None, mo_lastFixedAt := []\<rparr>)"
proof -
  have "\<not> no_checks_yet sample_env sample_sighting" "si_stateKnown sample_sighting" "si_mergeKnown sample_sighting"
    by (simp_all add: no_checks_yet_def sample_sighting_def)
  then show ?thesis by (simp add: observe_clean_def)
qed

lemma sample_settled_head:
  assumes "mo_budget m = new_budget" "mo_lastLog m = []"
  shows "\<exists>m'. settle_checks sample_env sample_poll sample_sighting False m = (m', Waits, NothingSeen) \<and> mo_ready m'"
proof -
  have after: "cancelledAfterRerun [sample_green] new_budget = ([], [], new_budget)" "cancelledWithoutRerun [sample_green] new_budget = []"
    by (simp_all add: cancelledAfterRerun_def rerun_cancelled_def missing_reruns_def cancelledWithoutRerun_def new_budget_def)
  have s: "si_checks sample_sighting = [sample_green]" "si_conflict sample_sighting = False" by (simp_all add: sample_sighting_def)
  show ?thesis unfolding settle_checks_def s assms(1) using assms(2) sample_observe_green
    by (simp add: after mergeCheckNames_def sample_clean_head)
qed

lemma sample_observe_checks:
  assumes "mo_budget m = new_budget" "mo_durable m = new_budget" "mo_lastLog m = []" "mo_lastFixedAt m = []"
  shows "\<exists>m'. observe_checks sample_env sample_poll sample_sighting m = (m', Waits, NothingSeen) \<and> mo_ready m'"
proof -
  have s: "si_checks sample_sighting = [sample_green]" "si_conflict sample_sighting = False" by (simp_all add: sample_sighting_def)
  have none: "retireResolvedReruns [sample_green] head persist new_budget = Inr (False, new_budget)" for head persist
    by (simp add: retireResolvedReruns_def retirable_reruns_def moved_reruns_def new_budget_def)
  have idle: "rerunTransientChecks (me_rerunLimit sample_env) c head published answers checks b d = (NoReruns, b, d)" for c head published answers checks b d
    by (simp add: rerunTransientChecks_def sample_env_def)
  have "terminalFailureCompletedAfter [sample_green] [] = False" by (simp add: terminalFailureCompletedAfter_def)
  then show ?thesis using assms sample_settled_head unfolding observe_checks_def s by (simp add: none idle)
qed

lemma sample_scope_checks:
  assumes "mo_scope m = mo_scope sample_monitor" "mo_recorded m" "mo_previous m = []" "mo_deferred m = []"
    "mo_budget m = new_budget" "mo_durable m = new_budget" "mo_lastLog m = []" "mo_lastFixedAt m = []"
  shows "\<exists>m'. scope_checks sample_env sample_poll True True False False [sample_green] m = (m', Waits, NothingSeen) \<and> mo_ready m'"
proof -
  have narrow: "scopeRetainedCIReruns r sc cs persist new_budget = Inr (False, new_budget)" for r sc cs persist
    by (simp add: scopeRetainedCIReruns_def new_budget_def)
  have retained: "scopeRetainedCIFindings r h a cs sc ([], []) = Some ([], [])" for r h a cs sc
    by (simp add: scopeRetainedCIFindings_def scope_findings_def split: prod.split)
  have bots: "ReviewBotPresenceMarkers (ExternalReviewBotChecks (mo_scope sample_monitor))
      \<lparr> sd_Relevant = [sample_green], sd_External = [], sd_Informational = [], sd_emptyReady = False, sd_reviewBotCommentsAlways = False \<rparr> = []"
    by (simp add: ReviewBotPresenceMarkers_def ExternalReviewBotChecks_def sample_monitor_def sample_env_def bot_check_def classifyIdentity_def
      matchesCheckIdentity_def ReviewBots_def)
  have p: "po_required sample_poll = None" "me_head sample_env = ''h''" "markPreRunInfraFailures (me_rerunLimit sample_env) i cs = cs" for i cs
    by (simp_all add: sample_poll_def sample_env_def markPreRunInfraFailures_def)
  show ?thesis unfolding scope_checks_def p assms(1) sample_scope prod.case Let_def
    using assms sample_observe_checks by (simp add: narrow retained bots sample_sighting_def [symmetric])
qed

theorem ready_is_earned_witness:
  "\<exists>m'. cim_poll sample_env sample_poll sample_monitor = (m', Waits) \<and> mo_ready m' \<and> earned sample_env sample_poll sample_monitor"
proof -
  define m where "m = sample_monitor\<lparr>mo_blocked := [], mo_conflict := False\<rparr>"
  obtain m1 where m1: "scope_checks sample_env sample_poll True True False False [sample_green] m = (m1, Waits, NothingSeen)" "mo_ready m1"
    using sample_scope_checks [of m] by (auto simp: m_def sample_monitor_def)
  have "poll_state sample_env sample_poll sample_monitor = (m1, Waits, NothingSeen)"
    using m1(1) by (simp add: poll_state_def poll_strict_def poll_merge_def poll_checks_def terminalCIOutcome_def sample_poll_def sample_env_def
      Resolved_def Conflict_def Behind_def ValidateCheckHeads_def m_def)
  then have poll: "cim_poll sample_env sample_poll sample_monitor = (after_poll NothingSeen m1, Waits)"
    by (simp add: cim_poll_def timed_out_def poll_base_def rearm_def sample_env_def sample_poll_def sample_monitor_def)
  have ready: "mo_ready (after_poll NothingSeen m1)" using m1(2) by (simp add: after_poll_def)
  have "earned sample_env sample_poll sample_monitor"
    by (rule ready_is_earned [of sample_env "[]" sample_monitor, OF _ _ _ poll ready]) (simp_all add: sample_monitor_def sample_poll_def)
  then show ?thesis using poll ready by blast
qed

section \<open>Approving over a red gate\<close>

text \<open>
  \<open>VerifyApprovalOverride\<close> re-reads the checks once when a person approves a gate of the step. Its result is the reason the approval is
  recorded as an override, empty for a clean pass; None is a cancelled context. The inputs are the answers it gets;
  the recorded policy is an error, nothing, or the policy the gate was raised under.
\<close>

record override_read =
  ov_cancelled :: bool
  ov_hostError :: "string option"
  ov_url :: string
  ov_numberError :: "string option"
  ov_head :: string
  ov_checks :: checks_read
  ov_target :: "string + string"
  ov_policy :: "string + CheckScopePolicy option"
  ov_required :: "required_read option"
  ov_comparison :: "string option"
  ov_comments :: comment_host
  ov_reruns :: "string \<Rightarrow> int"

definition could_not :: "string \<Rightarrow> string \<Rightarrow> string" where
  "could_not what err = ''could not verify '' @ what @ '': '' @ err"

definition comments_error_text :: "comments_error \<Rightarrow> string" where
  "comments_error_text e = (case e of CommentsUnsupported \<Rightarrow> ''unsupported'' | CommentsFailed \<Rightarrow> ''read failed''
     | ReviewBotIsPending b \<Rightarrow> ''review bot review is pending: '' @ b)"

definition override_scope :: "override_read \<Rightarrow> CheckScopePolicy \<Rightarrow> string \<Rightarrow> Check list \<Rightarrow> string" where
  "override_scope ov policy target checks =
     (let (scoped, scope) = Apply (ov_required ov) (ov_head ov) checks (NewCheckScope policy target);
          relevant = sd_Relevant scoped;
          excluded = ReviewBotPresenceMarkers (ExternalReviewBotChecks scope) scoped in
      if Ready scoped then
        (case ov_comparison ov of
           Some err \<Rightarrow> could_not ''live CI comparison'' err
         | None \<Rightarrow>
             (case ReadReadinessReviewBotComments (ov_comments ov) policy relevant excluded of
                Inl err \<Rightarrow> could_not ''review bot comments'' (comments_error_text err)
              | Inr comments \<Rightarrow>
                  let found = ciObservationFindings \<lparr> ob_provider = ch_provider (ov_comments ov), ob_checks = relevant, ob_failing = [],
                        ob_unresolvedCancelled = [], ob_mergeConflict = False, ob_behindBase = False, ob_reruns = ov_reruns ov,
                        ob_botComments = comments, ob_greenBots = True, ob_excludedChecks = excluded \<rparr> in
                  if items found \<noteq> [] then ''live checks for '' @ ov_url ov @ '' passed but '' @ fs_Summary found else []))
      else if relevant = [] then ''live checks for '' @ ov_url ov @ '': no checks reported''
      else ''live checks for '' @ ov_url ov @ '' not all passed: '' @ Join '', '' (unresolvedCheckNames relevant))"

definition no_recorded_policy :: CheckScopePolicy where
  "no_recorded_policy = \<lparr> py_NoCI = False, py_ReviewBotComments = [], py_RequiredChecks = ''all'', py_MustPass = [],
     py_ExternalChecks = [], py_Resolved = None \<rparr>"

definition VerifyApprovalOverride :: "override_read \<Rightarrow> string option" where
  "VerifyApprovalOverride ov =
     (let elsewhere = (\<lambda>err. Some (''live checks for '' @ ov_url ov @ '' are not for the commit being delivered: '' @ err)) in
      if ov_cancelled ov then None
      else case ov_hostError ov of
          Some err \<Rightarrow> Some (could_not ''live CI state'' err)
        | None \<Rightarrow>
            if ov_url ov = [] then Some ''could not verify live CI state: run has no PR URL''
            else (case ov_numberError ov of
                Some err \<Rightarrow> Some (could_not ''live CI state'' err)
              | None \<Rightarrow>
                  (case ov_checks ov of
                     ChecksNotForHead err \<Rightarrow> elsewhere err
                   | ChecksFailed err \<Rightarrow> Some (could_not ''live CI state'' err)
                   | ChecksBroken err \<Rightarrow> Some (could_not ''live CI state'' err)
                   | ChecksRead checks \<Rightarrow>
                       if \<not> ValidateCheckHeads checks (ov_head ov) then elsewhere ''head changed''
                       else (case ov_target ov of
                           Inl err \<Rightarrow> Some (could_not ''live CI target'' err)
                         | Inr target \<Rightarrow>
                             (case ov_policy ov of
                                Inl err \<Rightarrow> Some (could_not ''live CI scope'' err)
                              | Inr recorded \<Rightarrow>
                                  Some (override_scope ov (case recorded of None \<Rightarrow> no_recorded_policy | Some policy \<Rightarrow> policy) target checks))))))"

text \<open>C38. An approval of a CI gate is recorded as a clean pass only when it is one: the live checks could be read and are all for
  the delivered commit, under the policy the gate was raised with every check in scope passed, the comparison of the request was verified and no
  review bot left an unresolved comment. A cancelled check of the gate gives no verdict; in every other case the approval is recorded as an
  override with its reason.\<close>

theorem override_exact:
  "VerifyApprovalOverride ov = Some [] \<longleftrightarrow>
     \<not> ov_cancelled ov \<and> ov_hostError ov = None \<and> ov_url ov \<noteq> [] \<and> ov_numberError ov = None \<and> ov_comparison ov = None \<and>
     (\<exists>checks target recorded scoped scope. ov_checks ov = ChecksRead checks \<and> ValidateCheckHeads checks (ov_head ov) \<and>
        ov_target ov = Inr target \<and> ov_policy ov = Inr recorded \<and>
        Apply (ov_required ov) (ov_head ov) checks
          (NewCheckScope (case recorded of None \<Rightarrow> no_recorded_policy | Some policy \<Rightarrow> policy) target) = (scoped, scope) \<and>
        Ready scoped \<and>
        ReadReadinessReviewBotComments (ov_comments ov) (case recorded of None \<Rightarrow> no_recorded_policy | Some policy \<Rightarrow> policy)
          (sd_Relevant scoped) (ReviewBotPresenceMarkers (ExternalReviewBotChecks scope) scoped) = Inr [])"
proof -
  have no_bots: "reviewBotFindings provider (greenReviewBotChecks cs ex) [] = []" for provider cs ex
  proof -
    have "bot_candidates provider [] [] gs = []" if "\<forall>g \<in> set gs. bc_green g" for gs using that by (induction gs) (auto simp: Let_def)
    then have "bot_candidates provider [] [] (greenReviewBotChecks cs ex) = []" by (simp add: greenReviewBotChecks_def)
    then show ?thesis by (simp add: reviewBotFindings_def)
  qed
  have clean: "override_scope ov policy target checks = [] \<longleftrightarrow> ov_comparison ov = None \<and>
      (\<exists>scoped scope. Apply (ov_required ov) (ov_head ov) checks (NewCheckScope policy target) = (scoped, scope) \<and> Ready scoped \<and>
        ReadReadinessReviewBotComments (ov_comments ov) policy (sd_Relevant scoped) (ReviewBotPresenceMarkers (ExternalReviewBotChecks scope) scoped) = Inr [])"
    for policy target checks
  proof -
    obtain scoped scope where app: "Apply (ov_required ov) (ov_head ov) checks (NewCheckScope policy target) = (scoped, scope)"
      by (cases "Apply (ov_required ov) (ov_head ov) checks (NewCheckScope policy target)")
    show ?thesis
    proof (cases "ReadReadinessReviewBotComments (ov_comments ov) policy (sd_Relevant scoped) (ReviewBotPresenceMarkers (ExternalReviewBotChecks scope) scoped)")
      case (Inl err)
      then show ?thesis by (auto simp: override_scope_def app Let_def could_not_def split: option.splits)
    next
      case (Inr comments)
      have "reviewBotFindings (ch_provider (ov_comments ov)) (greenReviewBotChecks (sd_Relevant scoped) (ReviewBotPresenceMarkers (ExternalReviewBotChecks scope) scoped)) comments = []
          \<longleftrightarrow> comments = []" using no_comment_left [OF Inr] no_bots by blast
      then show ?thesis using Inr by (auto simp: override_scope_def app Let_def could_not_def green_observation split: option.splits)
    qed
  qed
  show ?thesis
    by (cases "ov_checks ov"; cases "ov_target ov"; cases "ov_policy ov")
       (auto simp: VerifyApprovalOverride_def could_not_def clean Let_def split: option.splits)
qed

end
