(* ===== verification/Spec2Isabelle.thy ===== *)
theory Spec2Isabelle
  imports GateProtocol GateContract AgentLimit Scheduler PRComparison StatusCert RunLoop StepRecovery CIMonitor
begin

section \<open>The development\<close>

text \<open>
  no-mistakes is a daemon that stands between a working copy and its remote. A push to its local
  gate becomes a run: an ordered pipeline of steps (\<open>intent\<close>, \<open>rebase\<close>, \<open>review\<close>, \<open>test\<close>, \<open>document\<close>,
  \<open>lint\<close>, \<open>push\<close>, \<open>pr\<close>, \<open>ci\<close>) that coding agents carry out, that may park at an approval gate with the
  findings of a step, and that ends with a pull request whose checks are watched. The paths below are
  under \<open>src/internal\<close>.

  \<^bold>\<open>How the parts interact.\<close> The scheduler (\<open>daemon/scheduler.go\<close>) starts a run when one of its slots is
  free; the executor (\<open>pipeline/executor.go\<close>) runs its steps one after the other; a step reports its
  result as a findings payload (\<open>types/findings.go\<close>); a payload that needs a person parks the step at a
  gate, which gives the slot back (\<open>pipeline/slot.go\<close>) and waits for a response; a fix response starts
  another round of the step with the selected findings; everything a restart of the daemon needs is in
  the rows of the database (\<open>internal/db\<close>); a finished run publishes a commit status under a certificate
  of execution proof; the CI step polls the checks of the pull request, reruns what the provider
  cancelled and reports readiness.

  \<^bold>\<open>Shared theories.\<close>
  \<^item> \<open>Prelude\<close>: bytes and the parts of Go's \<open>strings\<close> and \<open>strconv\<close> the code uses, maps and lists.
  \<^item> \<open>Json\<close>, \<open>JsonUtf8\<close>: the scanner, parser and printer of \<open>encoding/json\<close> the stored payloads go through;
    a written value reads back, and everything read is valid UTF-8.
  \<^item> \<open>Tables\<close>: the rows of the database as records, a table as the list of its rows in insertion order,
    \<open>UPDATE\<close> as a map over the matching rows and a one-row \<open>SELECT\<close> as the first of them.
  \<^item> \<open>Sha256\<close>: \<open>crypto/sha256\<close> on byte strings, for certificates and digests.
  \<^item> \<open>Admission\<close>: the locale of a loop that admits the waiting entries while there is capacity; it is
    interpreted on the agent semaphore (\<open>AgentLimit\<close>) and on the dispatch of runs (\<open>Scheduler\<close>).

  \<^bold>\<open>Vocabulary and findings.\<close>
  \<^item> \<open>RunTypes\<close> (\<open>types/types.go\<close>, \<open>gate.go\<close>, \<open>run_owner.go\<close>, \<open>external_ci.go\<close>): statuses, steps and their
    order, approval actions, the identity of a gate.
  \<^item> \<open>Findings\<close>, \<open>FindingOps\<close> (\<open>types/findings.go\<close>, \<open>finding_support.go\<close>): the payload, its normalisation,
    selection by identifier, user overrides and the verdict that there is no surface to test.
  \<^item> \<open>FindingsCodec\<close>: the wire structs of a payload and the locale \<open>findings_codec\<close> of what the pipeline
    asks of a codec, interpreted on the parser and printer of the model.
  \<^item> \<open>FindingsJson\<close>, \<open>Outstanding\<close> (\<open>pipeline/findings.go\<close>, \<open>db/round.go\<close>): rounds, identities of findings,
    the set of findings that is still outstanding and what may leave it.
  \<^item> \<open>ReviewResolution\<close> (\<open>pipeline/review_resolution.go\<close>, \<open>shipping/comparison.go\<close>): which carried finding
    a review round resolves; what git reports is an input.

  \<^bold>\<open>Gates and approvals.\<close>
  \<^item> \<open>GateResponse\<close> (\<open>pipeline/gate_response.go\<close>): a fix response is accepted when it decides exactly the
    findings of its gate, and the key under which a decision is stored.
  \<^item> \<open>Approvals\<close> (\<open>db/accepted_gaps.go\<close>, \<open>pipeline/protected_paths.go\<close>, \<open>db/step.go\<close>): which approval is
    admitted and the audit record of the gap it accepts.
  \<^item> \<open>PendingResponse\<close>: the durable record of an accepted response.
  \<^item> \<open>GateProtocol\<close> (\<open>pipeline/executor.go\<close>, \<open>gate_identity.go\<close>, \<open>slot.go\<close>): publication of a gate, the answer
    or its claim by a reconciliation, the durable record, consumption, dispatch and recovery, as the
    step relation \<open>gate_step\<close>; its invariant gives that a gate is answered once and only by an answer
    to it.

  \<^bold>\<open>Concurrency.\<close>
  \<^item> \<open>AgentLimit\<close> (\<open>pipeline/slot.go\<close>): the semaphore of agent invocations with its ready channels.
  \<^item> \<open>Scheduler\<close> (\<open>daemon/scheduler.go\<close>): slots, tickets, the launch queue, the waiting list and the
    dispatch loop; one step of \<open>sched_step\<close> per critical section, so an interleaving of goroutines is a
    sequence of steps. The accounting, the cap, the order of resumed runs and the absence of an idle slot
    with work waiting are invariants over \<open>sched_reachable\<close>.

  \<^bold>\<open>Database.\<close>
  \<^item> \<open>StepRows\<close>, \<open>RunRows\<close> (\<open>db/step.go\<close>, \<open>round.go\<close>, \<open>terminal_steps.go\<close>, \<open>run.go\<close>, \<open>run_ending.go\<close>): the
    statements as functions of the tables. \<open>RunRows\<close> shows recovery, the launch queue and where the life of a
    pull request can go back. \<open>StepRows\<close> relates its statements of a gate to the store of the gate protocol.
  \<^item> \<open>GateContract\<close>: the contract of parked gates, free of rows (a gate is idle, waiting or answered; a run has
    a clock), and the refinement of it by the statements that park, answer, resume, fail and close a step.
  \<^item> \<open>PRComparison\<close> (\<open>db/pr_context.go\<close>, \<open>target_rewind.go\<close>): the comparison a run is validated against. A
    changed comparison revokes what was proved for the old one and leaves the rest of the database as it was, a generation names one comparison, and
    the rewinds for a moved target stay within their cap, over every \<open>comparison_run\<close>.
  \<^item> \<open>StatusCert\<close> (\<open>db/status_validation.go\<close>, \<open>commit_status.go\<close>): the certificate behind a green commit
    status is built exactly when every core step is proved for the head, new work revokes it, and a raw
    shutdown of the daemon is final.

  \<^bold>\<open>The executor and the CI step.\<close>
  \<^item> \<open>TerminalError\<close> (\<open>pipeline/terminal_error.go\<close>, \<open>git/git.go\<close>): a Go error as the tree that \<open>errors.Is\<close> and
    \<open>errors.As\<close> walk, and when a failure is a cancellation; \<open>attributed_outcomes\<close> says exactly when, for joins, step
    reports and transport errors with something to say besides stopped children, \<open>stopped_parts_attributed\<close> what a
    join of stopped children alone gives, and \<open>buried_part_ignored\<close> what is overlooked below another wrapper.
  \<^item> \<open>RunEnd\<close> (\<open>pipeline/executor.go\<close>, \<open>cancel_attribution.go\<close>, \<open>db/infrastructure_failure.go\<close>): the outcome of a
    failed run, its terminal write under faults of the store, and the completion of a run; only an order that the
    failure is attributed to cancels a run, and only a clean, verified head completes one.
  \<^item> \<open>SupportGate\<close> (\<open>pipeline/review_support_gate.go\<close>, \<open>db/external_ci_handoff.go\<close>): a claim of the review is settled
    only by evidence of its owner for the comparison the run holds now; a moved comparison asks for new evidence, and
    an external handoff needs a head that descends from the reviewed one by commits of the pipeline.
  \<^item> \<open>RunLoop\<close> (\<open>pipeline/executor.go\<close>): the loop over the steps of a run as the relation \<open>plan_run\<close> over \<open>StepLoop\<close>,
    \<open>SupportGate\<close> and \<open>RunEnd\<close>, live and recovered. By rule induction the steps behind the run stay settled. Between
    two parts other writers are assumed to leave those rows alone (\<open>keeps_rows\<close>), a step that skips the rest does not
    restart one, and a restart names a core step, as the steps in \<open>pipeline/steps\<close> do.
  \<^item> \<open>StepLoop\<close> (\<open>pipeline/executor.go\<close>): one step of a run with its rounds, automatic fixes, gate answers
    and completion, as the relation \<open>loop_run\<close> over \<open>phase\<close>. \<open>ledger_run\<close> adds what was handed to a fixer, so
    that a review that passes is one whose handed findings have all been verified.
  \<^item> \<open>StepRecovery\<close> (\<open>pipeline/executor.go\<close>): the rounds a step records, the gate \<open>recoveredGate\<close> rebuilds from
    them after a restart, and that its answer means what it meant to the daemon that parked it.
  \<^item> \<open>CheckScope\<close> (\<open>scm/check_scope.go\<close>, \<open>scm/host.go\<close>): patterns, roles of checks and readiness of a head.
  \<^item> \<open>RerunBudget\<close> (\<open>pipeline/steps/ci_transient.go\<close>, \<open>ci_scope.go\<close>): the budget of reruns of cancelled checks.
  \<^item> \<open>CIChecks\<close>, \<open>CIFindings\<close> (\<open>ci_checks.go\<close>, \<open>ci_findings.go\<close>): pacing, and the findings of an observation.
  \<^item> \<open>CIMonitor\<close> (\<open>ci.go\<close>, \<open>cimonitor/cimonitor.go\<close>): one poll with every branch, the loop of polls, and the
    verification of an approval over a red gate.

  \<^bold>\<open>How the code is translated.\<close> A struct is a record and an enumeration a datatype, with the values the
  database may hold beside them kept as strings where the code keeps strings. A Go string is a list of
  bytes (\<open>string\<close>), and \<open>range\<close> over it is \<open>runes\<close>. A pointer that may be nil is an option. A returned error is
  a value of a sum or an option. Integers of counters are \<open>int\<close> or \<open>nat\<close> where the code cannot overflow
  them. Time is an input: a poll or a statement takes the clock it reads. Git, forges, agents and the
  file system are not defined: what they answer is a field of an input record or a parameter.

  \<^bold>\<open>Bounds and fuel.\<close> Loops over data end by structure or by a measure proved at their definition
  (\<open>free_id\<close>, \<open>match_loop\<close>, \<open>wakeLocked\<close>, \<open>dispatch\<close>, \<open>lex_str\<close>, \<open>tokens\<close>). \<open>StepLoop.rounds\<close> counts rounds with
  fuel; \<open>rounds_end\<close> shows that \<open>rounds_left\<close> is enough of it while the comparison stays the same.
  A terminal write is retried over a list of attempts; \<open>failure_settles\<close> needs one attempt without a fault in it.
  \<open>repair_chain_bounded\<close> bounds a chain of automatic repairs and \<open>rerun_limit\<close> the reruns of a check, whose budget
  starts afresh with every restart that cannot read its row.

  \<^bold>\<open>Not modelled.\<close>
  \<^item> The forge clients, git and gate repositories, agents and their session files, the command line,
    the terminal interface, sockets, telemetry, updates and the evaluation harness: their code is calls
    to other programs and rendering.
  \<^item> YAML decoding of the configuration, done by a third-party package.
  \<^item> Of \<open>StepLoop\<close>: log files, events, superseded evidence files, the rewind boundary of a new target and
    a fault of a single database write; the last are modelled in the gate protocol only.
  \<^item> Of \<open>CheckScope\<close> and the CI step: the order \<open>sort.Slice\<close> gives to requirements that are equal under its
    comparison, the JSON of the rerun budget (kept as its value), more than one clock reading in a poll,
    the repair with its agent, and the callback for a validated published head.
  \<^item> Of \<open>RunEnd\<close>: reports to the forge, events and the file that keeps an infrastructure outcome. Of
    \<open>PRComparison\<close>: the JSON of the archive, the column \<open>ci_fix_attempts\<close>, and which bracketed host is an
    IPv6 address (a parameter).
  \<^item> Of \<open>SupportGate\<close> and \<open>RunLoop\<close>: the refresh of Test evidence and the decision of the pull request guard
    (\<open>steps/pr_context.go\<close>), both inputs, and the memory that the steps of a run share.
  \<^item> The SQL of repositories and statistics, and schema migrations.
\<close>

end
